(* ===== verification/Prelude.thy ===== *)
theory Prelude
  imports Main "HOL-Library.Word"
begin

text \<open>
  What the components share: the machine types of the C code, the little-endian
  view of a word as bytes, reads from a bounded memory region, and the contract of
  the serialisers (the two-phase protocol "pass NULL to learn the size, then pass a
  buffer").  Conventions used throughout:

  \<^item> \<open>uint8_t\<close>, \<open>uint16_t\<close>, \<open>uint32_t\<close>, \<open>uint64_t\<close> are words of that width; \<open>size_t\<close>
    is a 64-bit word where its wrap-around matters and \<open>nat\<close> where it counts objects
    that exist in memory;
  \<^item> a pointer into a buffer is the list of the bytes from that address to the end of
    the allocation, so that a read past the end is visible;
  \<^item> a C string is the list of its bytes without the terminating NUL;
  \<^item> \<open>None\<close> of an option-valued operation is undefined behaviour, a failed \<open>assert\<close> or
    a call that does not return; an error the code reports to its caller (0, NULL, a
    status) is an ordinary value.
\<close>

unbundle bit_operations_syntax

section \<open>Types and collections\<close>

type_synonym byte = "8 word"
type_synonym u16 = "16 word"
type_synonym u32 = "32 word"
type_synonym u64 = "64 word"
type_synonym UInt128 = "128 word"
type_synonym UInt160 = "160 word"
type_synonym UInt256 = "256 word"
type_synonym UInt512 = "512 word"
type_synonym cstring = "byte list"

named_theorems le_simps \<open>equations between the byte-wise accessors and \<open>bytes_le\<close>\<close>
named_theorems len_simps \<open>lengths of what the encoders produce\<close>
named_theorems roundtrip_simps \<open>a decoder applied to what the encoder wrote\<close>

definition SIZE_MAX :: nat where "SIZE_MAX = 2 ^ 64 - 1"

section \<open>Loops that may fail\<close>

text \<open>A \<open>for\<close> loop over the elements of an array whose body may not return.\<close>

fun for_each :: "'a list \<Rightarrow> ('a \<Rightarrow> 's \<Rightarrow> 's option) \<Rightarrow> 's \<Rightarrow> 's option" where
  "for_each [] body s = Some s"
| "for_each (x # xs) body s = (case body x s of None \<Rightarrow> None | Some s' \<Rightarrow> for_each xs body s')"

lemma for_each_append:
  "for_each (xs @ ys) body s = (case for_each xs body s of None \<Rightarrow> None | Some s' \<Rightarrow> for_each ys body s')"
  by (induction xs arbitrary: s) (auto split: option.split)

text \<open>A loop refines a fold when every turn does, from states related by \<open>R\<close>.\<close>

lemma for_each_refines:
  assumes "R s t" and "\<And>x s t. x \<in> set xs \<Longrightarrow> R s t \<Longrightarrow> \<exists>s'. body x s = Some s' \<and> R s' (step x t)"
  shows "\<exists>s'. for_each xs body s = Some s' \<and> R s' (fold step xs t)"
  using assms
proof (induction xs arbitrary: s t)
  case (Cons x xs)
  obtain s' where s: "body x s = Some s'" "R s' (step x t)"
    using Cons.prems(2) [of x s t] Cons.prems(1) by auto
  have "\<exists>s''. for_each xs body s' = Some s'' \<and> R s'' (fold step xs (step x t))"
    using Cons.prems(2) by (intro Cons.IH s(2)) simp
  then show ?case using s(1) by simp
qed simp

text \<open>A loop \<open>for (...; ! r && ...) if (P) r = 1\<close>.\<close>

fun any_loop :: "('a \<Rightarrow> bool option) \<Rightarrow> 'a list \<Rightarrow> bool option" where
  "any_loop P [] = Some False"
| "any_loop P (x # xs) = (case P x of None \<Rightarrow> None | Some r \<Rightarrow> if r then Some True else any_loop P xs)"

lemma any_loop_total: "(\<And>x. x \<in> set xs \<Longrightarrow> P x = Some (Q x)) \<Longrightarrow> any_loop P xs = Some (\<exists>x \<in> set xs. Q x)"
  by (induction xs) auto

text \<open>Recursion through the two loops.\<close>

lemma any_loop_bind: "any_loop P (x # xs) = Option.bind (P x) (\<lambda>r. if r then Some True else any_loop P xs)"
  by (simp split: option.split)

lemma for_each_bind: "for_each (x # xs) body s = Option.bind (body x s) (for_each xs body)"
  by (simp split: option.split)

lemma any_loop_mono [partial_function_mono]:
  assumes "\<And>x. mono_option (\<lambda>f. P f x)"
  shows "mono_option (\<lambda>f. any_loop (P f) xs)"
proof (induction xs)
  case (Cons x xs)
  then show ?case unfolding any_loop_bind by (intro partial_function_mono assms)
qed (simp add: option.const_mono)

lemma for_each_mono [partial_function_mono]:
  assumes "\<And>x s. mono_option (\<lambda>f. body f x s)"
  shows "mono_option (\<lambda>f. for_each xs (body f) s)"
proof (induction xs arbitrary: s)
  case (Cons x xs)
  then show ?case unfolding for_each_bind by (intro partial_function_mono assms)
qed (simp add: option.const_mono)

definition or_opt :: "bool option \<Rightarrow> bool option \<Rightarrow> bool option" where
  "or_opt a b = (case a of None \<Rightarrow> None | Some r \<Rightarrow> if r then Some True else b)"

lemma or_opt_Some [simp]: "or_opt (Some a) (Some b) = Some (a \<or> b)"
  by (simp add: or_opt_def)

section \<open>Words as little-endian bytes\<close>

definition byte_at :: "'a::len word \<Rightarrow> nat \<Rightarrow> byte" where
  "byte_at w i = ucast (drop_bit (8 * i) w)"

definition bytes_le :: "nat \<Rightarrow> 'a::len word \<Rightarrow> byte list" where
  "bytes_le n w = map (byte_at w) [0..<n]"

fun word_of_le :: "byte list \<Rightarrow> 'a::len word" where
  "word_of_le [] = 0"
| "word_of_le (b # bs) = ucast b OR push_bit 8 (word_of_le bs)"

lemma bit_byte_at:
  "bit (byte_at (w :: 'a::len word) i) k \<longleftrightarrow> k < 8 \<and> 8 * i + k < LENGTH('a) \<and> bit w (8 * i + k)"
  by (auto simp: byte_at_def bit_ucast_iff bit_drop_bit_eq dest: bit_imp_le_length)

lemma length_bytes_le [simp, len_simps]: "length (bytes_le n w) = n"
  by (simp add: bytes_le_def)

lemma nth_bytes_le [simp]: "i < n \<Longrightarrow> bytes_le n w ! i = byte_at w i"
  by (simp add: bytes_le_def)

lemma bit_word_of_le:
  "bit (word_of_le bs :: 'a::len word) k \<longleftrightarrow>
     k < LENGTH('a) \<and> k < 8 * length bs \<and> bit (bs ! (k div 8)) (k mod 8)"
proof (induction bs arbitrary: k)
  case Nil
  then show ?case by simp
next
  case (Cons b bs)
  show ?case
  proof (cases "k < 8")
    case True
    then show ?thesis
      by (auto simp: bit_or_iff bit_ucast_iff bit_push_bit_iff dest: bit_imp_le_length)
  next
    case False
    then have k: "k div 8 = Suc ((k - 8) div 8)" "(k - 8) mod 8 = k mod 8"
      by (simp_all add: le_div_geq le_mod_geq)
    have "\<not> bit b k"
      using False by (auto dest: bit_imp_le_length)
    then show ?thesis
      using False k by (auto simp: bit_or_iff bit_ucast_iff bit_push_bit_iff Cons.IH)
  qed
qed

lemma word_of_le_bytes_le [roundtrip_simps]:
  assumes "LENGTH('a) \<le> 8 * n"
  shows "word_of_le (bytes_le n w) = (w :: 'a::len word)"
proof (rule bit_word_eqI)
  fix k assume k: "k < LENGTH('a)"
  then have "k div 8 < n" using assms by (simp add: less_mult_imp_div_less mult.commute)
  then show "bit (word_of_le (bytes_le n w) :: 'a word) k = bit w k"
    using k assms by (simp add: bit_word_of_le bit_byte_at)
qed

lemma bytes_le_word_of_le [roundtrip_simps]:
  assumes "length bs = n" and "8 * n \<le> LENGTH('a)"
  shows "bytes_le n (word_of_le bs :: 'a::len word) = bs"
proof (rule nth_equalityI)
  show "length (bytes_le n (word_of_le bs :: 'a word)) = length bs"
    using assms by simp
  fix i assume "i < length (bytes_le n (word_of_le bs :: 'a word))"
  then have i: "i < n" by simp
  have "byte_at (word_of_le bs :: 'a word) i = bs ! i"
  proof (rule bit_word_eqI)
    fix k assume "k < LENGTH(8)"
    then have "k < 8" by simp
    moreover from this have "(8 * i + k) div 8 = i" "(8 * i + k) mod 8 = k" by simp_all
    moreover have "8 * i + k < 8 * n" using i \<open>k < 8\<close> by linarith
    ultimately show "bit (byte_at (word_of_le bs :: 'a word) i) k = bit (bs ! i) k"
      using assms by (simp add: bit_byte_at bit_word_of_le)
  qed
  then show "bytes_le n (word_of_le bs :: 'a word) ! i = bs ! i"
    using i by simp
qed

lemma bytes_le_inject:
  assumes "LENGTH('a) \<le> 8 * n"
  shows "bytes_le n v = bytes_le n (w :: 'a::len word) \<longleftrightarrow> v = w"
  using assms by (metis word_of_le_bytes_le)

section \<open>Words as numbers\<close>

lemma unat_bound: "unat (w :: 'a::len word) < 2 ^ LENGTH('a)"
  by (rule unsigned_less)

lemma unat_word_of_nat: "unat (word_of_nat n :: 'a::len word) = n mod 2 ^ LENGTH('a)"
  by (simp add: unsigned_of_nat take_bit_eq_mod)

lemma unat_of_nat_small: "n < 2 ^ LENGTH('a) \<Longrightarrow> unat (word_of_nat n :: 'a::len word) = n"
  by (simp add: unsigned_of_nat take_bit_eq_mod)

lemma unat_ucast_mod: "unat (ucast w :: 'b::len word) = unat w mod 2 ^ LENGTH('b)"
  by (simp add: unsigned_ucast_eq take_bit_eq_mod)

lemma unat_drop_bit_div: "unat (drop_bit n (w :: 'a::len word)) = unat w div 2 ^ n"
  using unsigned_drop_bit_eq [of n w, where ?'a = nat] unat_bound [of w]
  by (simp add: drop_bit_eq_div take_bit_eq_mod)

lemma unat_push_bit_mod: "unat (push_bit n (w :: 'a::len word)) = unat w * 2 ^ n mod 2 ^ LENGTH('a)"
  using unsigned_push_bit_eq [of n w, where ?'a = nat]
  by (simp add: push_bit_eq_mult take_bit_eq_mod)

lemma unat_add_mod: "unat (a + b :: 'a::len word) = (unat a + unat b) mod 2 ^ LENGTH('a)"
  by (simp add: unat_word_ariths)

lemma unat_mult_mod: "unat (a * b :: 'a::len word) = unat a * unat b mod 2 ^ LENGTH('a)"
  by (simp add: unat_word_ariths)

lemma unat_diff: "b \<le> a \<Longrightarrow> unat (a - b :: 'a::len word) = unat a - unat b"
  by (simp add: unat_sub_if' word_le_nat_alt)

lemma unat_ucast_up: "LENGTH('a) \<le> LENGTH('b) \<Longrightarrow> unat (ucast (w :: 'a::len word) :: 'b::len word) = unat w"
  by (simp add: unsigned_ucast_eq take_bit_nat_eq_self_iff order.strict_trans2 [OF unat_bound])

lemma unat_or_push: "unat (ucast (d :: 'b::len word) OR push_bit n w :: 'a::len word) = unat d + 2 ^ n * unat w"
  if "LENGTH('b) \<le> n" "n \<le> LENGTH('a)" "unat w * 2 ^ n < 2 ^ LENGTH('a)"
proof -
  have "ucast d AND push_bit n w = (0 :: 'a word)"
    using that(1)
    by (intro bit_word_eqI) (auto simp: bit_and_iff bit_ucast_iff bit_push_bit_iff dest: bit_imp_le_length)
  then have "ucast d OR push_bit n w = ucast d + (push_bit n w :: 'a word)"
    by (simp add: disjunctive_add_eq_or)
  moreover have "unat (push_bit n w) = unat w * 2 ^ n"
    using that(3) by (simp add: unat_push_bit_mod)
  moreover have "unat (ucast d :: 'a word) = unat d"
    using that by (intro unat_ucast_up) simp
  moreover have "unat d + unat w * 2 ^ n < 2 ^ LENGTH('a)"
  proof -
    have "unat w * 2 ^ n < 2 ^ (LENGTH('a) - n) * 2 ^ n"
      using that(2,3) by (simp flip: power_add)
    then have "unat w + 1 \<le> 2 ^ (LENGTH('a) - n)" by simp
    then have "(unat w + 1) * 2 ^ n \<le> 2 ^ (LENGTH('a) - n) * 2 ^ n" by (rule mult_le_mono1)
    also have "\<dots> = 2 ^ LENGTH('a)" using that(2) by (simp flip: power_add)
    finally have "unat w * 2 ^ n + 2 ^ n \<le> 2 ^ LENGTH('a)" by (simp add: algebra_simps)
    moreover have "unat d < 2 ^ n"
      using unat_bound [of d] that(1) by (meson less_le_trans one_le_numeral power_increasing)
    ultimately show ?thesis by linarith
  qed
  ultimately show ?thesis by (simp add: unat_add_mod mult.commute)
qed

text \<open>The number a list of bytes stands for, least significant byte first.\<close>

fun le_val :: "byte list \<Rightarrow> nat" where
  "le_val [] = 0"
| "le_val (b # bs) = unat b + 256 * le_val bs"

lemma le_val_append: "le_val (xs @ ys) = le_val xs + 256 ^ length xs * le_val ys"
  by (induction xs) (simp_all add: algebra_simps)

lemma le_val_bound: "le_val bs < 256 ^ length bs"
proof (induction bs)
  case (Cons b bs)
  have "unat b < 256" using unat_bound [of b] by simp
  moreover have "256 * (le_val bs + 1) \<le> 256 * 256 ^ length bs"
    using Cons.IH by (intro mult_le_mono2) simp
  ultimately show ?case by simp
qed simp

lemma unat_word_of_le:
  assumes "8 * length bs \<le> LENGTH('a)"
  shows "unat (word_of_le bs :: 'a::len word) = le_val bs"
  using assms
proof (induction bs)
  case (Cons b bs)
  have len: "8 * length bs + 8 \<le> LENGTH('a)" using Cons.prems by simp
  have IH: "unat (word_of_le bs :: 'a word) = le_val bs" using Cons by simp
  have "(256 :: nat) ^ length bs = 2 ^ (8 * length bs)" by (simp add: power_mult)
  then have "le_val bs * 2 ^ 8 < 2 ^ (8 * length bs) * 2 ^ 8"
    using le_val_bound [of bs] by simp
  also have "\<dots> = 2 ^ (8 * length bs + 8)" by (simp add: power_add)
  also have "\<dots> \<le> (2 :: nat) ^ LENGTH('a)" using len by (intro power_increasing) simp_all
  finally show ?case using len IH by (simp add: unat_or_push)
qed simp

lemma le_val_bytes_le:
  assumes "LENGTH('a) = 8 * n"
  shows "le_val (bytes_le n w) = unat (w :: 'a::len word)"
  using unat_word_of_le [of "bytes_le n w", where ?'a = 'a] assms
  by (simp add: word_of_le_bytes_le)

lemma le_val_zeros [simp]: "le_val (xs @ replicate n 0) = le_val xs"
proof -
  have "le_val (replicate n 0) = 0" by (induction n) simp_all
  then show ?thesis by (simp add: le_val_append)
qed

section \<open>Reading memory\<close>

text \<open>
  \<open>rd mem off n\<close> are the \<open>n\<close> bytes at offset \<open>off\<close> of the region \<open>mem\<close>; reading past
  its end is undefined behaviour.
\<close>

definition rd :: "byte list \<Rightarrow> nat \<Rightarrow> nat \<Rightarrow> byte list option" where
  "rd mem off n = (if off + n \<le> length mem then Some (take n (drop off mem)) else None)"

lemma rd_append [simp, roundtrip_simps]:
  "length pre = off \<Longrightarrow> length bs = n \<Longrightarrow> rd (pre @ bs @ post) off n = Some bs"
  by (simp add: rd_def)

lemma rd_Some_length: "rd mem off n = Some bs \<Longrightarrow> length bs = n"
  by (auto simp: rd_def split: if_splits)

text \<open>Overwriting \<open>bs\<close> at offset \<open>off\<close> of a buffer, as \<open>memcpy\<close> does.\<close>

definition wr :: "byte list \<Rightarrow> nat \<Rightarrow> byte list \<Rightarrow> byte list" where
  "wr buf off bs = take off buf @ bs @ drop (off + length bs) buf"

lemma length_wr [simp, len_simps]:
  "off + length bs \<le> length buf \<Longrightarrow> length (wr buf off bs) = length buf"
  by (simp add: wr_def)

lemma wr_append:
  assumes "length pre = off" and "off + length bs \<le> length buf"
  shows "wr (pre @ drop off buf) off bs = (pre @ bs) @ drop (off + length bs) buf"
  using assms by (simp add: wr_def add.commute)

lemma wr_0: "wr buf 0 bs = bs @ drop (length bs) buf"
  by (simp add: wr_def)

lemma rd_wr: "off + length bs \<le> length buf \<Longrightarrow> rd (wr buf off bs) off (length bs) = Some bs"
  by (simp add: rd_def wr_def)

section \<open>Filling a caller's buffer\<close>

text \<open>
  A serialiser takes the object and the caller's buffer (\<open>None\<close> for NULL) and returns
  the number of bytes and the buffer after the call.
\<close>

type_synonym 'a serialiser = "'a \<Rightarrow> byte list option \<Rightarrow> nat \<times> byte list option"

text \<open>
  The contract every serialiser documents: "returns the number of bytes written, or the
  total length needed if the buffer is NULL", where \<open>wf\<close> are the objects it takes and
  \<open>enc\<close> is the encoding it writes.
\<close>

locale two_phase =
  fixes wf :: "'a \<Rightarrow> bool"
    and ser :: "'a serialiser"
    and enc :: "'a \<Rightarrow> byte list"
  assumes null_call: "wf x \<Longrightarrow> ser x None = (length (enc x), None)"
    and fits: "wf x \<Longrightarrow> length (enc x) \<le> length buf \<Longrightarrow>
      ser x (Some buf) = (length (enc x), Some (enc x @ drop (length (enc x)) buf))"
    and too_small: "wf x \<Longrightarrow> length buf < length (enc x) \<Longrightarrow> fst (ser x (Some buf)) = 0"
begin

text \<open>The idiom of every caller: ask for the size, allocate exactly that, call again.\<close>

lemma sized_call:
  assumes "wf x" and "length buf = fst (ser x None)"
  shows "ser x (Some buf) = (length (enc x), Some (enc x))"
  using assms by (simp add: null_call fits)

lemma returned_length:
  assumes "wf x"
  shows "fst (ser x (Some buf)) = 0 \<or> fst (ser x (Some buf)) = fst (ser x None)"
  using assms fits [of x buf] too_small [of x buf] null_call [of x] by fastforce

lemma written_prefix:
  assumes "wf x" and "fst (ser x (Some buf)) \<noteq> 0"
  shows "\<exists>rest. snd (ser x (Some buf)) = Some (enc x @ rest)"
  using assms fits [of x buf] too_small [of x buf] by fastforce

end

end
