(* ===== verification/Ints.thy ===== *)
theory Ints
  imports Prelude
begin

text \<open>
  \<^verbatim>\<open>support/BRInt.h\<close>: the large-integer unions, their equality and zero tests, and the
  unaligned little- and big-endian accessors that every serialiser of the code goes
  through.  A union is the word of its width; its \<open>u8\<close>, \<open>u32\<close>, \<open>u64\<close> members are views of
  that word on a little-endian machine (\<^verbatim>\<open>BRUtilMath.h\<close> refuses to compile on another).
\<close>

unbundle bit_operations_syntax

section \<open>Views of the unions\<close>

definition u8_of :: "'a::len word \<Rightarrow> nat \<Rightarrow> byte" where
  "u8_of u i = ucast (drop_bit (8 * i) u)"

definition u32_of :: "'a::len word \<Rightarrow> nat \<Rightarrow> u32" where
  "u32_of u i = ucast (drop_bit (32 * i) u)"

definition u64_of :: "'a::len word \<Rightarrow> nat \<Rightarrow> u64" where
  "u64_of u i = ucast (drop_bit (64 * i) u)"

lemma u8_of_byte_at: "u8_of = byte_at"
  by (simp add: u8_of_def byte_at_def fun_eq_iff)

lemma bit_u8_of:
  "bit (u8_of (u :: 'a::len word) i) k \<longleftrightarrow> k < 8 \<and> bit u (8 * i + k)"
  by (auto simp: u8_of_def bit_ucast_iff bit_drop_bit_eq dest: bit_imp_le_length)

lemma bit_u32_of:
  "bit (u32_of (u :: 'a::len word) i) k \<longleftrightarrow> k < 32 \<and> bit u (32 * i + k)"
  by (auto simp: u32_of_def bit_ucast_iff bit_drop_bit_eq dest: bit_imp_le_length)

lemma bit_u64_of:
  "bit (u64_of (u :: 'a::len word) i) k \<longleftrightarrow> k < 64 \<and> bit u (64 * i + k)"
  by (auto simp: u64_of_def bit_ucast_iff bit_drop_bit_eq dest: bit_imp_le_length)

section \<open>Equality and zero tests\<close>

definition UInt128Eq :: "UInt128 \<Rightarrow> UInt128 \<Rightarrow> bool" where
  "UInt128Eq a b \<longleftrightarrow>
     u64_of a 0 = u64_of b 0 \<and>
     u64_of a 1 = u64_of b 1"

definition UInt160Eq :: "UInt160 \<Rightarrow> UInt160 \<Rightarrow> bool" where
  "UInt160Eq a b \<longleftrightarrow>
     u32_of a 0 = u32_of b 0 \<and>
     u32_of a 1 = u32_of b 1 \<and>
     u32_of a 2 = u32_of b 2 \<and>
     u32_of a 3 = u32_of b 3 \<and>
     u32_of a 4 = u32_of b 4"

definition UInt256Eq :: "UInt256 \<Rightarrow> UInt256 \<Rightarrow> bool" where
  "UInt256Eq a b \<longleftrightarrow>
     u64_of a 0 = u64_of b 0 \<and>
     u64_of a 1 = u64_of b 1 \<and>
     u64_of a 2 = u64_of b 2 \<and>
     u64_of a 3 = u64_of b 3"

definition UInt512Eq :: "UInt512 \<Rightarrow> UInt512 \<Rightarrow> bool" where
  "UInt512Eq a b \<longleftrightarrow>
     u64_of a 0 = u64_of b 0 \<and>
     u64_of a 1 = u64_of b 1 \<and>
     u64_of a 2 = u64_of b 2 \<and>
     u64_of a 3 = u64_of b 3 \<and>
     u64_of a 4 = u64_of b 4 \<and>
     u64_of a 5 = u64_of b 5 \<and>
     u64_of a 6 = u64_of b 6 \<and>
     u64_of a 7 = u64_of b 7"

definition UInt128IsZero :: "UInt128 \<Rightarrow> bool" where
  "UInt128IsZero u \<longleftrightarrow>
     u64_of u 0 OR u64_of u 1 = 0"

definition UInt160IsZero :: "UInt160 \<Rightarrow> bool" where
  "UInt160IsZero u \<longleftrightarrow>
     u32_of u 0 OR u32_of u 1 OR u32_of u 2 OR u32_of u 3 OR u32_of u 4 = 0"

definition UInt256IsZero :: "UInt256 \<Rightarrow> bool" where
  "UInt256IsZero u \<longleftrightarrow>
     u64_of u 0 OR u64_of u 1 OR u64_of u 2 OR u64_of u 3 = 0"

definition UInt512IsZero :: "UInt512 \<Rightarrow> bool" where
  "UInt512IsZero u \<longleftrightarrow>
     u64_of u 0 OR u64_of u 1 OR u64_of u 2 OR u64_of u 3 OR u64_of u 4 OR u64_of u 5 OR u64_of u 6 OR u64_of u 7 = 0"

lemma eq_by_u64:
  assumes "\<And>i. i < n \<Longrightarrow> u64_of a i = u64_of b i" and "LENGTH('a) = 64 * n"
  shows "a = (b :: 'a::len word)"
proof (rule bit_word_eqI)
  fix k assume k: "k < LENGTH('a)"
  then have "k div 64 < n" using assms(2) by (simp add: less_mult_imp_div_less mult.commute)
  then have "bit (u64_of a (k div 64)) (k mod 64) = bit (u64_of b (k div 64)) (k mod 64)"
    using assms(1) by simp
  then show "bit a k = bit b k" by (simp add: bit_u64_of)
qed

lemma eq_by_u32:
  assumes "\<And>i. i < n \<Longrightarrow> u32_of a i = u32_of b i" and "LENGTH('a) = 32 * n"
  shows "a = (b :: 'a::len word)"
proof (rule bit_word_eqI)
  fix k assume k: "k < LENGTH('a)"
  then have "k div 32 < n" using assms(2) by (simp add: less_mult_imp_div_less mult.commute)
  then have "bit (u32_of a (k div 32)) (k mod 32) = bit (u32_of b (k div 32)) (k mod 32)"
    using assms(1) by simp
  then show "bit a k = bit b k" by (simp add: bit_u32_of)
qed

lemma all_less_Suc_iff: "(\<forall>i < Suc n. P i) \<longleftrightarrow> P n \<and> (\<forall>i < n. P i)"
  by (auto simp: less_Suc_eq)

lemma UInt128Eq_iff [simp]: "UInt128Eq a b \<longleftrightarrow> a = b"
  using eq_by_u64 [of 2 a b] by (auto simp: UInt128Eq_def numeral_eq_Suc less_Suc_eq)

lemma UInt160Eq_iff [simp]: "UInt160Eq a b \<longleftrightarrow> a = b"
  using eq_by_u32 [of 5 a b] by (auto simp: UInt160Eq_def numeral_eq_Suc less_Suc_eq)

lemma UInt256Eq_iff [simp]: "UInt256Eq a b \<longleftrightarrow> a = b"
  using eq_by_u64 [of 4 a b] by (auto simp: UInt256Eq_def numeral_eq_Suc less_Suc_eq)

lemma UInt512Eq_iff [simp]: "UInt512Eq a b \<longleftrightarrow> a = b"
  using eq_by_u64 [of 8 a b] by (auto simp: UInt512Eq_def numeral_eq_Suc less_Suc_eq)

lemma or_eq_0_word_iff: "(a OR b = 0) \<longleftrightarrow> a = 0 \<and> b = (0 :: 'a::len word)"
  by (auto simp: bit_eq_iff bit_or_iff)

lemma u64_of_0 [simp]: "u64_of 0 i = 0" and u32_of_0 [simp]: "u32_of 0 i = 0"
  and u8_of_0 [simp]: "u8_of 0 i = 0"
  by (simp_all add: u64_of_def u32_of_def u8_of_def)

lemma UInt128IsZero_iff [simp]: "UInt128IsZero u \<longleftrightarrow> u = 0"
proof -
  have "UInt128IsZero u \<longleftrightarrow> UInt128Eq u 0"
    by (simp add: UInt128IsZero_def UInt128Eq_def or_eq_0_word_iff del: UInt128Eq_iff)
  then show ?thesis by simp
qed

lemma UInt160IsZero_iff [simp]: "UInt160IsZero u \<longleftrightarrow> u = 0"
proof -
  have "UInt160IsZero u \<longleftrightarrow> UInt160Eq u 0"
    by (simp add: UInt160IsZero_def UInt160Eq_def or_eq_0_word_iff del: UInt160Eq_iff)
  then show ?thesis by simp
qed

lemma UInt256IsZero_iff [simp]: "UInt256IsZero u \<longleftrightarrow> u = 0"
proof -
  have "UInt256IsZero u \<longleftrightarrow> UInt256Eq u 0"
    by (simp add: UInt256IsZero_def UInt256Eq_def or_eq_0_word_iff del: UInt256Eq_iff)
  then show ?thesis by simp
qed

lemma UInt512IsZero_iff [simp]: "UInt512IsZero u \<longleftrightarrow> u = 0"
proof -
  have "UInt512IsZero u \<longleftrightarrow> UInt512Eq u 0"
    by (simp add: UInt512IsZero_def UInt512Eq_def or_eq_0_word_iff del: UInt512Eq_iff)
  then show ?thesis by simp
qed

section \<open>Byte reversal\<close>

definition UInt256Reverse :: "UInt256 \<Rightarrow> UInt256" where
  "UInt256Reverse u = word_of_le [
      u8_of u 31, u8_of u 30, u8_of u 29, u8_of u 28, u8_of u 27, u8_of u 26, u8_of u 25, u8_of u 24,
      u8_of u 23, u8_of u 22, u8_of u 21, u8_of u 20, u8_of u 19, u8_of u 18, u8_of u 17, u8_of u 16,
      u8_of u 15, u8_of u 14, u8_of u 13, u8_of u 12, u8_of u 11, u8_of u 10, u8_of u 9, u8_of u 8,
      u8_of u 7, u8_of u 6, u8_of u 5, u8_of u 4, u8_of u 3, u8_of u 2, u8_of u 1, u8_of u 0]"

lemma UInt256Reverse_rev: "UInt256Reverse u = word_of_le (rev (bytes_le 32 u))"
  by (simp add: UInt256Reverse_def bytes_le_def u8_of_byte_at upt_rec numeral_eq_Suc)

lemma bytes_le_UInt256Reverse: "bytes_le 32 (UInt256Reverse u) = rev (bytes_le 32 u)"
  by (simp add: UInt256Reverse_rev bytes_le_word_of_le)

lemma UInt256Reverse_involution: "UInt256Reverse (UInt256Reverse u) = u"
  by (simp add: UInt256Reverse_rev bytes_le_word_of_le word_of_le_bytes_le)

section \<open>Hexadecimal digits\<close>

text \<open>
  \<open>_hexc\<close> and \<open>_hexu\<close>: a nibble to its ASCII digit, and back; the \<open>-1\<close> of an invalid
  character is the byte 0xff once the code converts it to \<open>uint8_t\<close>.
\<close>

definition hexc :: "byte \<Rightarrow> byte" where
  "hexc u = (u AND 0x0f) + (if u AND 0x0f \<le> 9 then 0x30 else 0x61 - 0x0a)"

definition hexu :: "byte \<Rightarrow> byte" where
  "hexu c =
    (if 0x30 \<le> c \<and> c \<le> 0x39 then c - 0x30
     else if 0x61 \<le> c \<and> c \<le> 0x66 then c - (0x61 - 0x0a)
     else if 0x41 \<le> c \<and> c \<le> 0x46 then c - (0x41 - 0x0a)
     else -1)"

definition u256hex :: "UInt256 \<Rightarrow> cstring" where
  "u256hex u = [
     hexc (drop_bit 4 (u8_of u 0)), hexc (u8_of u 0), hexc (drop_bit 4 (u8_of u 1)), hexc (u8_of u 1),
     hexc (drop_bit 4 (u8_of u 2)), hexc (u8_of u 2), hexc (drop_bit 4 (u8_of u 3)), hexc (u8_of u 3),
     hexc (drop_bit 4 (u8_of u 4)), hexc (u8_of u 4), hexc (drop_bit 4 (u8_of u 5)), hexc (u8_of u 5),
     hexc (drop_bit 4 (u8_of u 6)), hexc (u8_of u 6), hexc (drop_bit 4 (u8_of u 7)), hexc (u8_of u 7),
     hexc (drop_bit 4 (u8_of u 8)), hexc (u8_of u 8), hexc (drop_bit 4 (u8_of u 9)), hexc (u8_of u 9),
     hexc (drop_bit 4 (u8_of u 10)), hexc (u8_of u 10), hexc (drop_bit 4 (u8_of u 11)), hexc (u8_of u 11),
     hexc (drop_bit 4 (u8_of u 12)), hexc (u8_of u 12), hexc (drop_bit 4 (u8_of u 13)), hexc (u8_of u 13),
     hexc (drop_bit 4 (u8_of u 14)), hexc (u8_of u 14), hexc (drop_bit 4 (u8_of u 15)), hexc (u8_of u 15),
     hexc (drop_bit 4 (u8_of u 16)), hexc (u8_of u 16), hexc (drop_bit 4 (u8_of u 17)), hexc (u8_of u 17),
     hexc (drop_bit 4 (u8_of u 18)), hexc (u8_of u 18), hexc (drop_bit 4 (u8_of u 19)), hexc (u8_of u 19),
     hexc (drop_bit 4 (u8_of u 20)), hexc (u8_of u 20), hexc (drop_bit 4 (u8_of u 21)), hexc (u8_of u 21),
     hexc (drop_bit 4 (u8_of u 22)), hexc (u8_of u 22), hexc (drop_bit 4 (u8_of u 23)), hexc (u8_of u 23),
     hexc (drop_bit 4 (u8_of u 24)), hexc (u8_of u 24), hexc (drop_bit 4 (u8_of u 25)), hexc (u8_of u 25),
     hexc (drop_bit 4 (u8_of u 26)), hexc (u8_of u 26), hexc (drop_bit 4 (u8_of u 27)), hexc (u8_of u 27),
     hexc (drop_bit 4 (u8_of u 28)), hexc (u8_of u 28), hexc (drop_bit 4 (u8_of u 29)), hexc (u8_of u 29),
     hexc (drop_bit 4 (u8_of u 30)), hexc (u8_of u 30), hexc (drop_bit 4 (u8_of u 31)), hexc (u8_of u 31)]"

text \<open>The macro \<open>uint256(s)\<close>; \<open>None\<close> when the string has fewer than 64 characters.\<close>

definition uint256 :: "cstring \<Rightarrow> UInt256 option" where
  "uint256 s = (if length s < 64 then None else Some (word_of_le [
     (push_bit 4 (hexu (s ! 0)) OR hexu (s ! 1)), (push_bit 4 (hexu (s ! 2)) OR hexu (s ! 3)),
     (push_bit 4 (hexu (s ! 4)) OR hexu (s ! 5)), (push_bit 4 (hexu (s ! 6)) OR hexu (s ! 7)),
     (push_bit 4 (hexu (s ! 8)) OR hexu (s ! 9)), (push_bit 4 (hexu (s ! 10)) OR hexu (s ! 11)),
     (push_bit 4 (hexu (s ! 12)) OR hexu (s ! 13)), (push_bit 4 (hexu (s ! 14)) OR hexu (s ! 15)),
     (push_bit 4 (hexu (s ! 16)) OR hexu (s ! 17)), (push_bit 4 (hexu (s ! 18)) OR hexu (s ! 19)),
     (push_bit 4 (hexu (s ! 20)) OR hexu (s ! 21)), (push_bit 4 (hexu (s ! 22)) OR hexu (s ! 23)),
     (push_bit 4 (hexu (s ! 24)) OR hexu (s ! 25)), (push_bit 4 (hexu (s ! 26)) OR hexu (s ! 27)),
     (push_bit 4 (hexu (s ! 28)) OR hexu (s ! 29)), (push_bit 4 (hexu (s ! 30)) OR hexu (s ! 31)),
     (push_bit 4 (hexu (s ! 32)) OR hexu (s ! 33)), (push_bit 4 (hexu (s ! 34)) OR hexu (s ! 35)),
     (push_bit 4 (hexu (s ! 36)) OR hexu (s ! 37)), (push_bit 4 (hexu (s ! 38)) OR hexu (s ! 39)),
     (push_bit 4 (hexu (s ! 40)) OR hexu (s ! 41)), (push_bit 4 (hexu (s ! 42)) OR hexu (s ! 43)),
     (push_bit 4 (hexu (s ! 44)) OR hexu (s ! 45)), (push_bit 4 (hexu (s ! 46)) OR hexu (s ! 47)),
     (push_bit 4 (hexu (s ! 48)) OR hexu (s ! 49)), (push_bit 4 (hexu (s ! 50)) OR hexu (s ! 51)),
     (push_bit 4 (hexu (s ! 52)) OR hexu (s ! 53)), (push_bit 4 (hexu (s ! 54)) OR hexu (s ! 55)),
     (push_bit 4 (hexu (s ! 56)) OR hexu (s ! 57)), (push_bit 4 (hexu (s ! 58)) OR hexu (s ! 59)),
     (push_bit 4 (hexu (s ! 60)) OR hexu (s ! 61)), (push_bit 4 (hexu (s ! 62)) OR hexu (s ! 63))]))"
section \<open>Unaligned stores\<close>

definition UInt16SetBE :: "u16 \<Rightarrow> byte list" where
  "UInt16SetBE u = [ucast (drop_bit 8 u AND 0xff), ucast (u AND 0xff)]"

definition UInt16SetLE :: "u16 \<Rightarrow> byte list" where
  "UInt16SetLE u = [ucast (u AND 0xff), ucast (drop_bit 8 u AND 0xff)]"

definition UInt32SetBE :: "u32 \<Rightarrow> byte list" where
  "UInt32SetBE u =
    [ucast (drop_bit 24 u AND 0xff), ucast (drop_bit 16 u AND 0xff),
     ucast (drop_bit 8 u AND 0xff), ucast (u AND 0xff)]"

definition UInt32SetLE :: "u32 \<Rightarrow> byte list" where
  "UInt32SetLE u =
    [ucast (u AND 0xff), ucast (drop_bit 8 u AND 0xff),
     ucast (drop_bit 16 u AND 0xff), ucast (drop_bit 24 u AND 0xff)]"

definition UInt64SetBE :: "u64 \<Rightarrow> byte list" where
  "UInt64SetBE u =
    [ucast (drop_bit 56 u AND 0xff), ucast (drop_bit 48 u AND 0xff),
     ucast (drop_bit 40 u AND 0xff), ucast (drop_bit 32 u AND 0xff),
     ucast (drop_bit 24 u AND 0xff), ucast (drop_bit 16 u AND 0xff),
     ucast (drop_bit 8 u AND 0xff), ucast (u AND 0xff)]"

definition UInt64SetLE :: "u64 \<Rightarrow> byte list" where
  "UInt64SetLE u =
    [ucast (u AND 0xff), ucast (drop_bit 8 u AND 0xff),
     ucast (drop_bit 16 u AND 0xff), ucast (drop_bit 24 u AND 0xff),
     ucast (drop_bit 32 u AND 0xff), ucast (drop_bit 40 u AND 0xff),
     ucast (drop_bit 48 u AND 0xff), ucast (drop_bit 56 u AND 0xff)]"

definition UInt128Set :: "UInt128 \<Rightarrow> byte list" where
  "UInt128Set u = map (u8_of u) [0..<16]"

definition UInt160Set :: "UInt160 \<Rightarrow> byte list" where
  "UInt160Set u = map (u8_of u) [0..<20]"

definition UInt256Set :: "UInt256 \<Rightarrow> byte list" where
  "UInt256Set u = map (u8_of u) [0..<32]"

section \<open>Unaligned loads\<close>

text \<open>The pointer is the memory from its address on; a short memory is an over-read.\<close>

fun UInt16GetBE :: "byte list \<Rightarrow> u16 option" where
  "UInt16GetBE (b0 # b1 # _) = Some (push_bit 8 (ucast b0) OR ucast b1)"
| "UInt16GetBE _ = None"

fun UInt16GetLE :: "byte list \<Rightarrow> u16 option" where
  "UInt16GetLE (b0 # b1 # _) = Some (push_bit 8 (ucast b1) OR ucast b0)"
| "UInt16GetLE _ = None"

fun UInt32GetBE :: "byte list \<Rightarrow> u32 option" where
  "UInt32GetBE (b0 # b1 # b2 # b3 # _) =
     Some (push_bit 24 (ucast b0) OR push_bit 16 (ucast b1) OR
           push_bit 8 (ucast b2) OR ucast b3)"
| "UInt32GetBE _ = None"

fun UInt32GetLE :: "byte list \<Rightarrow> u32 option" where
  "UInt32GetLE (b0 # b1 # b2 # b3 # _) =
     Some (push_bit 24 (ucast b3) OR push_bit 16 (ucast b2) OR
           push_bit 8 (ucast b1) OR ucast b0)"
| "UInt32GetLE _ = None"

fun UInt64GetBE :: "byte list \<Rightarrow> u64 option" where
  "UInt64GetBE (b0 # b1 # b2 # b3 # b4 # b5 # b6 # b7 # _) =
     Some (push_bit 56 (ucast b0) OR push_bit 48 (ucast b1) OR
           push_bit 40 (ucast b2) OR push_bit 32 (ucast b3) OR
           push_bit 24 (ucast b4) OR push_bit 16 (ucast b5) OR
           push_bit 8 (ucast b6) OR ucast b7)"
| "UInt64GetBE _ = None"

fun UInt64GetLE :: "byte list \<Rightarrow> u64 option" where
  "UInt64GetLE (b0 # b1 # b2 # b3 # b4 # b5 # b6 # b7 # _) =
     Some (push_bit 56 (ucast b7) OR push_bit 48 (ucast b6) OR
           push_bit 40 (ucast b5) OR push_bit 32 (ucast b4) OR
           push_bit 24 (ucast b3) OR push_bit 16 (ucast b2) OR
           push_bit 8 (ucast b1) OR ucast b0)"
| "UInt64GetLE _ = None"

definition UInt128Get :: "byte list \<Rightarrow> UInt128 option" where
  "UInt128Get mem = (if length mem < 16 then None else Some (word_of_le (take 16 mem)))"

definition UInt160Get :: "byte list \<Rightarrow> UInt160 option" where
  "UInt160Get mem = (if length mem < 20 then None else Some (word_of_le (take 20 mem)))"

definition UInt256Get :: "byte list \<Rightarrow> UInt256 option" where
  "UInt256Get mem = (if length mem < 32 then None else Some (word_of_le (take 32 mem)))"

section \<open>The accessors as byte views\<close>

lemma and_mask8: "u AND 0xff = take_bit 8 (u :: 'a::len word)"
  by (simp add: take_bit_eq_mask mask_eq_exp_minus_1)

lemma ucast_take_bit8: "8 \<le> LENGTH('a) \<Longrightarrow> ucast (take_bit 8 (u :: 'a::len word)) = (ucast u :: byte)"
  by (rule bit_word_eqI) (auto simp: bit_ucast_iff bit_take_bit_iff)

lemma UInt16SetLE_bytes [le_simps]: "UInt16SetLE u = bytes_le 2 u"
  by (simp add: UInt16SetLE_def bytes_le_def byte_at_def and_mask8 ucast_take_bit8 upt_conv_Cons)

lemma UInt16SetBE_bytes [le_simps]: "UInt16SetBE u = rev (bytes_le 2 u)"
  by (simp add: UInt16SetBE_def bytes_le_def byte_at_def and_mask8 ucast_take_bit8 upt_conv_Cons)

lemma UInt32SetLE_bytes [le_simps]: "UInt32SetLE u = bytes_le 4 u"
  by (simp add: UInt32SetLE_def bytes_le_def byte_at_def and_mask8 ucast_take_bit8 upt_conv_Cons)

lemma UInt32SetBE_bytes [le_simps]: "UInt32SetBE u = rev (bytes_le 4 u)"
  by (simp add: UInt32SetBE_def bytes_le_def byte_at_def and_mask8 ucast_take_bit8 upt_conv_Cons)

lemma UInt64SetLE_bytes [le_simps]: "UInt64SetLE u = bytes_le 8 u"
  by (simp add: UInt64SetLE_def bytes_le_def byte_at_def and_mask8 ucast_take_bit8 upt_conv_Cons)

lemma UInt64SetBE_bytes [le_simps]: "UInt64SetBE u = rev (bytes_le 8 u)"
  by (simp add: UInt64SetBE_def bytes_le_def byte_at_def and_mask8 ucast_take_bit8 upt_conv_Cons)

lemma UInt128Set_bytes [le_simps]: "UInt128Set u = bytes_le 16 u"
  and UInt160Set_bytes [le_simps]: "UInt160Set v = bytes_le 20 v"
  and UInt256Set_bytes [le_simps]: "UInt256Set w = bytes_le 32 w"
  by (simp_all add: UInt128Set_def UInt160Set_def UInt256Set_def bytes_le_def u8_of_byte_at)

lemma UInt16GetLE_eq [le_simps]:
  "UInt16GetLE mem = (if length mem < 2 then None else Some (word_of_le (take 2 mem)))"
  by (cases mem rule: UInt16GetLE.cases) (simp_all add: push_bit_or ac_simps)

lemma UInt16GetBE_eq [le_simps]:
  "UInt16GetBE mem = (if length mem < 2 then None else Some (word_of_le (rev (take 2 mem))))"
  by (cases mem rule: UInt16GetBE.cases) (simp_all add: push_bit_or ac_simps)

lemma UInt32GetLE_eq [le_simps]:
  "UInt32GetLE mem = (if length mem < 4 then None else Some (word_of_le (take 4 mem)))"
  by (cases mem rule: UInt32GetLE.cases) (simp_all add: push_bit_or ac_simps)

lemma UInt32GetBE_eq [le_simps]:
  "UInt32GetBE mem = (if length mem < 4 then None else Some (word_of_le (rev (take 4 mem))))"
  by (cases mem rule: UInt32GetBE.cases) (simp_all add: push_bit_or ac_simps)

lemma UInt64GetLE_eq [le_simps]:
  "UInt64GetLE mem = (if length mem < 8 then None else Some (word_of_le (take 8 mem)))"
  by (cases mem rule: UInt64GetLE.cases) (simp_all add: push_bit_or ac_simps)

lemma UInt64GetBE_eq [le_simps]:
  "UInt64GetBE mem = (if length mem < 8 then None else Some (word_of_le (rev (take 8 mem))))"
  by (cases mem rule: UInt64GetBE.cases) (simp_all add: push_bit_or ac_simps)

section \<open>Loads undo stores\<close>

lemma UInt16LE_roundtrip [roundtrip_simps]: "UInt16GetLE (UInt16SetLE u @ post) = Some u"
  by (simp add: le_simps word_of_le_bytes_le)

lemma UInt16BE_roundtrip [roundtrip_simps]: "UInt16GetBE (UInt16SetBE u @ post) = Some u"
  by (simp add: le_simps word_of_le_bytes_le)

lemma UInt32LE_roundtrip [roundtrip_simps]: "UInt32GetLE (UInt32SetLE u @ post) = Some u"
  by (simp add: le_simps word_of_le_bytes_le)

lemma UInt32BE_roundtrip [roundtrip_simps]: "UInt32GetBE (UInt32SetBE u @ post) = Some u"
  by (simp add: le_simps word_of_le_bytes_le)

lemma UInt64LE_roundtrip [roundtrip_simps]: "UInt64GetLE (UInt64SetLE u @ post) = Some u"
  by (simp add: le_simps word_of_le_bytes_le)

lemma UInt64BE_roundtrip [roundtrip_simps]: "UInt64GetBE (UInt64SetBE u @ post) = Some u"
  by (simp add: le_simps word_of_le_bytes_le)

lemma UInt128_roundtrip [roundtrip_simps]: "UInt128Get (UInt128Set u @ post) = Some u"
  by (simp add: le_simps UInt128Get_def word_of_le_bytes_le)

lemma UInt160_roundtrip [roundtrip_simps]: "UInt160Get (UInt160Set u @ post) = Some u"
  by (simp add: le_simps UInt160Get_def word_of_le_bytes_le)

lemma UInt256_roundtrip [roundtrip_simps]: "UInt256Get (UInt256Set u @ post) = Some u"
  by (simp add: le_simps UInt256Get_def word_of_le_bytes_le)

lemma length_stores [simp, len_simps]:
  "length (UInt16SetLE a) = 2" "length (UInt16SetBE a) = 2"
  "length (UInt32SetLE b) = 4" "length (UInt32SetBE b) = 4"
  "length (UInt64SetLE c) = 8" "length (UInt64SetBE c) = 8"
  "length (UInt128Set d) = 16" "length (UInt160Set e) = 20" "length (UInt256Set f) = 32"
  by (simp_all add: le_simps)

end
