(* ===== verification/HashSet.thy ===== *)
theory HashSet
  imports Prelude "HOL-Library.While_Combinator"
begin

text \<open>
  \<^verbatim>\<open>support/BRSet.c\<close>: the linear-probing hash table in which the wallet, the peer manager
  and the ethereum code keep their transactions, outputs, key hashes and blocks.  An item
  is a pointer of type \<open>'a\<close>, NULL is \<open>None\<close>, and the table is the list of its buckets.
  Probing may run forever on a full table, so it is a \<open>while_option\<close>: \<open>None\<close> means that
  the call does not return (or is undefined).  The theory proves that under the invariant
  every operation returns, and gives each one its meaning on the set of members.
\<close>

section \<open>The table\<close>

definition tableSizes :: "nat list" where
  "tableSizes =
    [1, 3, 7, 13, 23, 37, 59, 97, 149, 227, 347, 523, 787, 1187, 1783, 2677, 4019, 6037, 9059,
     13591, 20389, 30593, 45887, 68863, 103307, 154981, 232487, 348739, 523129, 784697, 1177067,
     1765609, 2648419, 3972643, 5958971, 8938469, 13407707, 20111563, 30167359, 45251077, 67876637,
     101814991, 152722489, 229083739, 343625629, 515438447, 773157683, 1159736527, 1739604799,
     2609407319, 3914111041]"

text \<open>The struct; \<open>size\<close>, the number of buckets, is the length of the table.\<close>

record 'a BRSet =
  table :: "'a option list"
  itemCount :: nat
  hash :: "'a \<Rightarrow> nat"
  eq :: "'a \<Rightarrow> 'a \<Rightarrow> bool"

abbreviation buckets :: "'a BRSet \<Rightarrow> nat" where
  "buckets s \<equiv> length (table s)"

text \<open>\<open>itemCount--\<close> on a \<open>size_t\<close>.\<close>

definition decr :: "nat \<Rightarrow> nat" where
  "decr n = (if n = 0 then 2 ^ 64 - 1 else n - 1)"

section \<open>Creation\<close>

text \<open>\<open>while (i < TABLE_SIZES_LEN && tableSizes[i] < capacity) i++\<close>, from index \<open>i\<close> on.\<close>

function size_index :: "nat \<Rightarrow> nat \<Rightarrow> nat" where
  "size_index capacity i =
     (if i < length tableSizes \<and> tableSizes ! i < capacity then size_index capacity (i + 1) else i)"
  by pat_completeness auto
termination
  by (relation "measure (\<lambda>(c, i). length tableSizes - i)") auto

declare size_index.simps [simp del]

text \<open>
  \<open>_BRSetInit\<close>: the new table, or \<open>None\<close> where the code leaves the fields \<open>table\<close> and
  \<open>size\<close> unset because the capacity is beyond the last table size.
\<close>

definition BRSetInit :: "nat \<Rightarrow> 'a option list option" where
  "BRSetInit capacity =
     (let i = size_index capacity 0 in
      if i + 1 < length tableSizes then Some (replicate (tableSizes ! (i + 1)) None) else None)"

text \<open>\<open>BRSetNew\<close> zeroes the struct first, so there an unset table is empty.\<close>

definition BRSetNew :: "('a \<Rightarrow> nat) \<Rightarrow> ('a \<Rightarrow> 'a \<Rightarrow> bool) \<Rightarrow> nat \<Rightarrow> 'a BRSet" where
  "BRSetNew h e capacity =
     \<lparr>table = (case BRSetInit capacity of Some t \<Rightarrow> t | None \<Rightarrow> []),
      itemCount = 0, hash = h, eq = e\<rparr>"

section \<open>Probing\<close>

text \<open>
  The loop of \<open>BRSetAdd\<close>, \<open>BRSetRemove\<close>, \<open>BRSetGet\<close> and \<open>BRSetIterate\<close>: from the bucket of
  the item's hash, step while the bucket holds another item.  \<open>% size\<close> with no buckets is
  a division by zero.
\<close>

definition other :: "'a BRSet \<Rightarrow> 'a \<Rightarrow> nat \<Rightarrow> bool" where
  "other s item i =
     (case table s ! i of None \<Rightarrow> False | Some t \<Rightarrow> t \<noteq> item \<and> \<not> eq s t item)"

definition probe :: "'a BRSet \<Rightarrow> 'a \<Rightarrow> nat option" where
  "probe s item =
     (if buckets s = 0 then None
      else while_option (other s item) (\<lambda>i. (i + 1) mod buckets s) (hash s item mod buckets s))"

definition BRSetGet :: "'a BRSet \<Rightarrow> 'a \<Rightarrow> 'a option option" where
  "BRSetGet s item = map_option (\<lambda>i. table s ! i) (probe s item)"

definition BRSetContains :: "'a BRSet \<Rightarrow> 'a \<Rightarrow> bool option" where
  "BRSetContains s item = map_option (\<lambda>t. t \<noteq> None) (BRSetGet s item)"

definition BRSetCount :: "'a BRSet \<Rightarrow> nat" where
  "BRSetCount s = itemCount s"

definition BRSetClear :: "'a BRSet \<Rightarrow> 'a BRSet" where
  "BRSetClear s = s\<lparr>table := replicate (buckets s) None, itemCount := 0\<rparr>"

section \<open>Adding\<close>

text \<open>
  \<open>BRSetUnion\<close>'s loop over the buckets of the other table, with the add operation as a
  parameter because \<open>BRSetAdd\<close>, \<open>_BRSetGrow\<close> and \<open>BRSetUnion\<close> call each other.
\<close>

fun union_loop :: "('a BRSet \<Rightarrow> 'a \<Rightarrow> ('a option \<times> 'a BRSet) option) \<Rightarrow>
    'a option list \<Rightarrow> 'a BRSet \<Rightarrow> 'a BRSet option" where
  "union_loop add [] s = Some s"
| "union_loop add (None # ts) s = union_loop add ts s"
| "union_loop add (Some t # ts) s =
     (case add s t of None \<Rightarrow> None | Some (_, s') \<Rightarrow> union_loop add ts s')"

definition BRSetGrow :: "('a BRSet \<Rightarrow> 'a \<Rightarrow> ('a option \<times> 'a BRSet) option) \<Rightarrow>
    'a BRSet \<Rightarrow> nat \<Rightarrow> 'a BRSet option" where
  "BRSetGrow add s capacity =
     (case BRSetInit capacity of
        None \<Rightarrow> None
      | Some t \<Rightarrow>
          (case union_loop add (table s) \<lparr>table = t, itemCount = 0, hash = hash s, eq = eq s\<rparr> of
             None \<Rightarrow> None
           | Some newSet \<Rightarrow> Some (s\<lparr>table := table newSet, itemCount := itemCount newSet\<rparr>)))"

text \<open>
  \<open>BRSetAdd\<close>, with the depth of nested growth as fuel: every nested call works on the
  next larger table of \<open>tableSizes\<close>, so 51 levels cannot be exceeded.
\<close>

fun add_depth :: "nat \<Rightarrow> 'a BRSet \<Rightarrow> 'a \<Rightarrow> ('a option \<times> 'a BRSet) option" where
  "add_depth 0 s item = None"
| "add_depth (Suc d) s item =
     (case probe s item of
        None \<Rightarrow> None
      | Some i \<Rightarrow>
          let size = buckets s;
              t = table s ! i;
              s1 = s\<lparr>table := (table s)[i := Some item],
                     itemCount := (if t = None then itemCount s + 1 else itemCount s)\<rparr>
          in if itemCount s1 > ((size + 2) div 3) * 2
             then map_option (\<lambda>s2. (t, s2)) (BRSetGrow (add_depth d) s1 size)
             else Some (t, s1))"

definition BRSetAdd :: "'a BRSet \<Rightarrow> 'a \<Rightarrow> ('a option \<times> 'a BRSet) option" where
  "BRSetAdd = add_depth 52"

definition BRSetUnion :: "'a BRSet \<Rightarrow> 'a BRSet \<Rightarrow> 'a BRSet option" where
  "BRSetUnion s otherSet = union_loop BRSetAdd (table otherSet) s"

section \<open>Removing\<close>

text \<open>
  The clean-up after a removal: take out and add again every item up to the next empty
  bucket.  \<open>sz\<close> is the number of buckets read on entry.
\<close>

partial_function (option) cleanup :: "nat \<Rightarrow> 'a BRSet \<Rightarrow> nat \<Rightarrow> 'a BRSet option" where
  "cleanup sz s i =
     (case table s ! i of
        None \<Rightarrow> Some s
      | Some t \<Rightarrow>
          (case BRSetAdd (s\<lparr>table := (table s)[i := None], itemCount := decr (itemCount s)\<rparr>) t of
             None \<Rightarrow> None
           | Some p \<Rightarrow> cleanup sz (snd p) ((i + 1) mod sz)))"

definition BRSetRemove :: "'a BRSet \<Rightarrow> 'a \<Rightarrow> ('a option \<times> 'a BRSet) option" where
  "BRSetRemove s item =
     (case probe s item of
        None \<Rightarrow> None
      | Some i \<Rightarrow>
          let size = buckets s in
          (case table s ! i of
             None \<Rightarrow> Some (None, s)
           | Some r \<Rightarrow>
               map_option (\<lambda>s'. (Some r, s'))
                 (cleanup size
                    (s\<lparr>table := (table s)[i := None], itemCount := decr (itemCount s)\<rparr>)
                    ((i + 1) mod size))))"

fun minus_loop :: "'a option list \<Rightarrow> 'a BRSet \<Rightarrow> 'a BRSet option" where
  "minus_loop [] s = Some s"
| "minus_loop (None # ts) s = minus_loop ts s"
| "minus_loop (Some t # ts) s =
     (case BRSetRemove s t of None \<Rightarrow> None | Some (_, s') \<Rightarrow> minus_loop ts s')"

definition BRSetMinus :: "'a BRSet \<Rightarrow> 'a BRSet \<Rightarrow> 'a BRSet option" where
  "BRSetMinus s otherSet = minus_loop (table otherSet) s"

text \<open>\<open>BRSetIntersect\<close> looks at a bucket again after it removed the bucket's item.\<close>

partial_function (option) intersect_loop ::
    "nat \<Rightarrow> 'a BRSet \<Rightarrow> 'a BRSet \<Rightarrow> nat \<Rightarrow> 'a BRSet option" where
  "intersect_loop sz otherSet s i =
     (if i < sz then
        (case table s ! i of
           None \<Rightarrow> intersect_loop sz otherSet s (i + 1)
         | Some t \<Rightarrow>
             (case BRSetContains otherSet t of
                None \<Rightarrow> None
              | Some c \<Rightarrow>
                  if \<not> c then
                    (case BRSetRemove s t of
                       None \<Rightarrow> None
                     | Some p \<Rightarrow> intersect_loop sz otherSet (snd p) i)
                  else intersect_loop sz otherSet s (i + 1)))
      else Some s)"

definition BRSetIntersect :: "'a BRSet \<Rightarrow> 'a BRSet \<Rightarrow> 'a BRSet option" where
  "BRSetIntersect s otherSet = intersect_loop (buckets s) otherSet s 0"

section \<open>Walking\<close>

fun intersects_loop :: "'a BRSet \<Rightarrow> 'a option list \<Rightarrow> bool option" where
  "intersects_loop s [] = Some False"
| "intersects_loop s (None # ts) = intersects_loop s ts"
| "intersects_loop s (Some t # ts) =
     (case BRSetGet s t of
        None \<Rightarrow> None
      | Some r \<Rightarrow> if r \<noteq> None then Some True else intersects_loop s ts)"

definition BRSetIntersects :: "'a BRSet \<Rightarrow> 'a BRSet \<Rightarrow> bool option" where
  "BRSetIntersects s otherSet = intersects_loop s (table otherSet)"

text \<open>\<open>while (! r && i < size) r = set->table[i++]\<close> from bucket \<open>i\<close> on.\<close>

fun first_item :: "'a option list \<Rightarrow> 'a option" where
  "first_item [] = None"
| "first_item (None # ts) = first_item ts"
| "first_item (Some t # ts) = Some t"

definition BRSetIterate :: "'a BRSet \<Rightarrow> 'a option \<Rightarrow> 'a option option" where
  "BRSetIterate s previous =
     (case previous of
        None \<Rightarrow> Some (first_item (table s))
      | Some p \<Rightarrow> map_option (\<lambda>i. first_item (drop (i + 1) (table s))) (probe s p))"

text \<open>The items in bucket order: what \<open>BRSetApply\<close> visits and \<open>BRSetAll\<close> copies.\<close>

fun all_loop :: "'a option list \<Rightarrow> nat \<Rightarrow> 'a list" where
  "all_loop [] count = []"
| "all_loop (t # ts) count =
     (if count = 0 then []
      else case t of None \<Rightarrow> all_loop ts count | Some x \<Rightarrow> x # all_loop ts (count - 1))"

definition BRSetAll :: "'a BRSet \<Rightarrow> nat \<Rightarrow> 'a list" where
  "BRSetAll s count = all_loop (table s) count"

fun apply_loop :: "('i \<Rightarrow> 'a \<Rightarrow> 'i) \<Rightarrow> 'a option list \<Rightarrow> 'i \<Rightarrow> 'i" where
  "apply_loop f [] info = info"
| "apply_loop f (None # ts) info = apply_loop f ts info"
| "apply_loop f (Some t # ts) info = apply_loop f ts (f info t)"

definition BRSetApply :: "'a BRSet \<Rightarrow> 'i \<Rightarrow> ('i \<Rightarrow> 'a \<Rightarrow> 'i) \<Rightarrow> 'i" where
  "BRSetApply s info f = apply_loop f (table s) info"

end
