(* ===== verification/HashSet_Correct.thy ===== *)
theory HashSet_Correct
  imports HashSet
begin

text \<open>
  Correctness of the hash table of \<^verbatim>\<open>support/BRSet.c\<close>: the invariant of linear probing,
  that every operation keeps it and returns, and what each operation does to the set of
  members.  The callers' obligation, which the header of the file states ("any two items
  that are equal must also have identical hash values"), is the locale \<open>item_equality\<close>.
\<close>

section \<open>Cyclic distance\<close>

definition dist :: "nat \<Rightarrow> nat \<Rightarrow> nat \<Rightarrow> nat" where
  "dist n a b = (b + n - a) mod n"

lemma dist_less: "0 < n \<Longrightarrow> dist n a b < n"
  by (simp add: dist_def)

lemma add_dist [simp]: "a < n \<Longrightarrow> b < n \<Longrightarrow> (a + dist n a b) mod n = b"
  by (simp add: dist_def mod_add_right_eq)

lemma dist_cases: "a < n \<Longrightarrow> b < n \<Longrightarrow> dist n a b = (if a \<le> b then b - a else b + n - a)"
  by (auto simp: dist_def le_mod_geq)

lemma mod_cases: "a < n \<Longrightarrow> k < n \<Longrightarrow> (a + k) mod n = (if a + k < n then a + k else a + k - n)"
  for a k n :: nat
  by (auto simp: le_mod_geq)

lemma dist_add: "a < n \<Longrightarrow> k < n \<Longrightarrow> dist n a ((a + k) mod n) = k"
  by (auto simp: dist_cases mod_cases)

lemma dist_self [simp]: "a < n \<Longrightarrow> dist n a a = 0"
  by (simp add: dist_cases)

lemma dist_eq_iff: "a < n \<Longrightarrow> b < n \<Longrightarrow> c < n \<Longrightarrow> dist n a b = dist n a c \<longleftrightarrow> b = c"
  by (metis add_dist)

text \<open>Indices between \<open>a\<close> and \<open>b\<close>, walking forward: \<open>k\<close> is passed before \<open>b\<close>.\<close>

abbreviation before :: "nat \<Rightarrow> nat \<Rightarrow> nat \<Rightarrow> nat \<Rightarrow> bool" where
  "before n a k b \<equiv> dist n a k < dist n a b"

section \<open>The invariant\<close>

definition members :: "'a BRSet \<Rightarrow> 'a set" where
  "members s = {t. Some t \<in> set (table s)}"

definition occupied :: "'a option list \<Rightarrow> nat set" where
  "occupied T = {i. i < length T \<and> T ! i \<noteq> None}"

definition home :: "'a BRSet \<Rightarrow> 'a \<Rightarrow> nat" where
  "home s t = hash s t mod buckets s"

text \<open>Every bucket from \<open>b\<close> up to but excluding \<open>j\<close> is occupied.\<close>

definition path_ok :: "'a option list \<Rightarrow> nat \<Rightarrow> nat \<Rightarrow> bool" where
  "path_ok T b j \<longleftrightarrow> (\<forall>k < length T. before (length T) b k j \<longrightarrow> T ! k \<noteq> None)"

definition limit :: "nat \<Rightarrow> nat" where
  "limit n = ((n + 2) div 3) * 2"

text \<open>The bucket structure without the load limit.\<close>

definition probe_inv :: "'a BRSet \<Rightarrow> bool" where
  "probe_inv s \<longleftrightarrow>
     0 < buckets s \<and> itemCount s = card (occupied (table s)) \<and>
     (\<forall>j < buckets s. \<forall>t. table s ! j = Some t \<longrightarrow> path_ok (table s) (home s t) j) \<and>
     (\<forall>i < buckets s. \<forall>j < buckets s. \<forall>x y.
        table s ! i = Some x \<longrightarrow> table s ! j = Some y \<longrightarrow> eq s x y \<longrightarrow> i = j)"

definition set_inv :: "'a BRSet \<Rightarrow> bool" where
  "set_inv s \<longleftrightarrow>
     probe_inv s \<and> buckets s \<in> set (tl tableSizes) \<and> itemCount s \<le> limit (buckets s)"

lemma finite_occupied [simp]: "finite (occupied T)"
  by (simp add: occupied_def)

lemma members_iff: "t \<in> members s \<longleftrightarrow> (\<exists>j < buckets s. table s ! j = Some t)"
  by (auto simp: members_def in_set_conv_nth)

lemma members_nthI: "j < buckets s \<Longrightarrow> table s ! j = Some t \<Longrightarrow> t \<in> members s"
  using members_iff [of t s] by blast

lemma members_nthE:
  assumes "t \<in> members s"
  obtains j where "j < buckets s" and "table s ! j = Some t"
  using assms members_iff [of t s] by blast

lemma card_occupied_le: "card (occupied T) \<le> length T"
  using card_mono [of "{..<length T}" "occupied T"] by (auto simp: occupied_def)

lemma ex_empty_bucket: "card (occupied T) < length T \<Longrightarrow> \<exists>z < length T. T ! z = None"
proof (rule ccontr)
  assume less: "card (occupied T) < length T" and "\<not> (\<exists>z < length T. T ! z = None)"
  then have "occupied T = {..<length T}" by (auto simp: occupied_def)
  then show False using less by simp
qed

lemma path_ok_mono:
  assumes "path_ok T b j" and "length T' = length T"
    and "\<And>k. k < length T \<Longrightarrow> T ! k \<noteq> None \<Longrightarrow> T' ! k \<noteq> None"
  shows "path_ok T' b j"
  using assms by (auto simp: path_ok_def)

lemma occupied_update_Some:
  "i < length T \<Longrightarrow> occupied (T[i := Some x]) = insert i (occupied T)"
  by (auto simp: occupied_def nth_list_update)

lemma occupied_update_None:
  "i < length T \<Longrightarrow> occupied (T[i := None]) = occupied T - {i}"
  by (auto simp: occupied_def nth_list_update)

section \<open>Table sizes\<close>

lemma sizes_bound: "n \<in> set (tl tableSizes) \<Longrightarrow> n = 3 \<or> 5 \<le> n"
  by (simp add: tableSizes_def) auto

lemma limit_less: "n = 3 \<or> 5 \<le> n \<Longrightarrow> limit n < n"
  unfolding limit_def by presburger

lemma set_inv_not_full: "set_inv s \<Longrightarrow> card (occupied (table s)) < buckets s"
  using sizes_bound [of "buckets s"] limit_less [of "buckets s"]
  by (auto simp: set_inv_def probe_inv_def)

section \<open>Probing\<close>

lemma iterate_step: "0 < n \<Longrightarrow> ((\<lambda>i. (i + 1) mod n) ^^ k) (b mod n) = (b + k) mod n"
  by (induction k) (simp_all add: mod_Suc_eq)

lemma probe_result:
  assumes "\<exists>z < buckets s. table s ! z = None"
  obtains i where "probe s x = Some i" and "i < buckets s" and "\<not> other s x i"
    and "\<And>k. k < buckets s \<Longrightarrow> before (buckets s) (home s x) k i \<Longrightarrow> other s x k"
proof -
  let ?n = "buckets s" and ?b = "home s x"
  let ?at = "\<lambda>d. (?b + d) mod ?n"
  from assms obtain z where z: "z < ?n" "table s ! z = None" by blast
  then have n: "0 < ?n" by auto
  then have b: "?b < ?n" by (simp add: home_def)
  have "\<not> other s x (?at (dist ?n ?b z))" using z b by (simp add: other_def)
  define d where "d = (LEAST d. \<not> other s x (?at d))"
  have stop: "\<not> other s x (?at d)"
    using \<open>\<not> other s x (?at (dist ?n ?b z))\<close> unfolding d_def by (rule LeastI)
  have "d \<le> dist ?n ?b z"
    using \<open>\<not> other s x (?at (dist ?n ?b z))\<close> unfolding d_def by (rule Least_le)
  then have d: "d < ?n" using dist_less [OF n] by (rule le_less_trans)
  have before: "other s x k" if "k < ?n" "before ?n ?b k (?at d)" for k
  proof -
    have "dist ?n ?b k < d" using that d b by (simp add: dist_add)
    then have "other s x (?at (dist ?n ?b k))"
      unfolding d_def by (metis not_less_Least)
    then show ?thesis using that b by simp
  qed
  have step: "((\<lambda>i. (i + 1) mod ?n) ^^ k) (hash s x mod ?n) = ?at k" for k
    using iterate_step [OF n, of k "hash s x mod ?n"] by (simp add: home_def)
  have "probe s x = Some (?at d)"
    using n stop unfolding probe_def while_option_def step d_def by auto
  then show ?thesis using that [of "?at d"] stop before n by simp
qed

section \<open>The callers' obligation\<close>

locale item_equality =
  fixes h :: "'a \<Rightarrow> nat" and e :: "'a \<Rightarrow> 'a \<Rightarrow> bool"
  assumes e_refl: "e x x"
    and e_sym: "e x y \<Longrightarrow> e y x"
    and e_trans: "e x y \<Longrightarrow> e y z \<Longrightarrow> e x z"
    and e_hash: "e x y \<Longrightarrow> h x = h y"
begin

definition uses :: "'a BRSet \<Rightarrow> bool" where
  "uses s \<longleftrightarrow> hash s = h \<and> eq s = e"

lemma usesD: "uses s \<Longrightarrow> hash s = h" "uses s \<Longrightarrow> eq s = e"
  by (simp_all add: uses_def)

lemma other_iff: "uses s \<Longrightarrow> other s x i \<longleftrightarrow> (\<exists>t. table s ! i = Some t \<and> \<not> e t x)"
  by (cases "table s ! i") (auto simp: other_def usesD e_refl)

lemma home_eq: "uses s \<Longrightarrow> e x y \<Longrightarrow> home s x = home s y"
  by (simp add: home_def uses_def e_hash [of x y])

lemma probe_spec:
  assumes inv: "probe_inv s" and room: "card (occupied (table s)) < buckets s" and s: "uses s"
  obtains i where "probe s x = Some i" and "i < buckets s" and "path_ok (table s) (home s x) i"
    and "(\<exists>t. table s ! i = Some t \<and> e t x) \<or> (table s ! i = None \<and> (\<forall>t \<in> members s. \<not> e t x))"
proof -
  let ?n = "buckets s" and ?b = "home s x"
  obtain i where i: "probe s x = Some i" "i < ?n" "\<not> other s x i"
    and others: "\<And>k. k < ?n \<Longrightarrow> before ?n ?b k i \<Longrightarrow> other s x k"
    using probe_result [OF ex_empty_bucket [OF room], of x] by blast
  have b: "?b < ?n" using inv by (simp add: home_def probe_inv_def)
  have path: "path_ok (table s) ?b i"
    using others s by (fastforce simp: path_ok_def other_iff)
  have none: "\<forall>t \<in> members s. \<not> e t x" if empty: "table s ! i = None"
  proof (intro ballI notI)
    fix t assume "t \<in> members s" and tx: "e t x"
    then obtain j where j: "j < ?n" "table s ! j = Some t" by (auto simp: members_iff)
    then have "path_ok (table s) (home s t) j" using inv by (simp add: probe_inv_def)
    then have jpath: "path_ok (table s) ?b j" using home_eq [OF s tx] by simp
    have "\<not> other s x j" using j tx s by (simp add: other_iff)
    then have "\<not> before ?n ?b j i" using others j by blast
    moreover have "\<not> before ?n ?b i j" using jpath empty i by (auto simp: path_ok_def)
    ultimately have "i = j" using dist_eq_iff [OF b i(2) j(1)] by linarith
    then show False using j empty by simp
  qed
  have "(\<exists>t. table s ! i = Some t \<and> e t x) \<or> table s ! i = None"
    using i(3) s by (cases "table s ! i") (auto simp: other_iff)
  then show ?thesis using that i path none by blast
qed

lemma unique_member:
  assumes "probe_inv s" and "uses s" and "t \<in> members s" and "u \<in> members s" and "e t u"
  shows "t = u"
proof -
  obtain i j where ij: "i < buckets s" "table s ! i = Some t" "j < buckets s" "table s ! j = Some u"
    using assms(3,4) by (auto simp: members_iff)
  then have "i = j" using assms(1,2,5) by (simp add: probe_inv_def uses_def)
  then show ?thesis using ij by simp
qed

lemma get_returns:
  assumes inv: "set_inv s" and s: "uses s"
  shows "\<exists>r. BRSetGet s x = Some r \<and> (\<forall>t. r = Some t \<longleftrightarrow> t \<in> members s \<and> e t x)"
proof -
  have pinv: "probe_inv s" using inv by (simp add: set_inv_def)
  obtain i where i: "probe s x = Some i" "i < buckets s"
    "(\<exists>t. table s ! i = Some t \<and> e t x) \<or> (table s ! i = None \<and> (\<forall>t \<in> members s. \<not> e t x))"
    using probe_spec [OF pinv set_inv_not_full [OF inv] s] by metis
  have "table s ! i = Some t \<longleftrightarrow> t \<in> members s \<and> e t x" for t
  proof
    assume "table s ! i = Some t"
    then show "t \<in> members s \<and> e t x" using i by (auto simp: members_iff)
  next
    assume t: "t \<in> members s \<and> e t x"
    then obtain u where u: "table s ! i = Some u" "e u x" using i by blast
    then have "u = t"
      using unique_member [OF pinv s] t i(2) e_sym e_trans by (meson members_iff)
    then show "table s ! i = Some t" using u by simp
  qed
  then show ?thesis using i(1) by (simp add: BRSetGet_def)
qed

lemma contains_returns:
  assumes "set_inv s" and "uses s"
  shows "BRSetContains s x = Some (\<exists>t \<in> members s. e t x)"
  using get_returns [OF assms, of x] by (auto simp: BRSetContains_def)

text \<open>Writing an item into the bucket that probing found.\<close>

lemma put_spec:
  assumes inv: "probe_inv s" and s: "uses s" and i: "i < buckets s"
    and path: "path_ok (table s) (home s x) i"
    and found: "(\<exists>t. table s ! i = Some t \<and> e t x) \<or>
      (table s ! i = None \<and> (\<forall>t \<in> members s. \<not> e t x))"
    and s1: "s1 = s\<lparr>table := (table s)[i := Some x],
      itemCount := (if table s ! i = None then itemCount s + 1 else itemCount s)\<rparr>"
  shows "probe_inv s1" and "members s1 = insert x (members s - {t. e t x})"
proof -
  let ?n = "buckets s" and ?T = "table s"
  have T1: "table s1 = ?T[i := Some x]" and n1: "buckets s1 = ?n"
    and home1: "home s1 = home s" and eq1: "eq s1 = e"
    using s by (simp_all add: s1 home_def fun_eq_iff uses_def)
  have keeps: "k < ?n \<Longrightarrow> ?T ! k \<noteq> None \<Longrightarrow> table s1 ! k \<noteq> None" for k
    using i by (simp add: T1 nth_list_update)
  have only: "j = i" if j: "j < ?n" "?T ! j = Some t" "e t x" for j t
  proof -
    have "t \<in> members s" using j by (auto simp: members_iff)
    then obtain u where u: "?T ! i = Some u" "e u x" using found j(3) by blast
    have "e t u" using j(3) u(2) e_sym e_trans by blast
    then show ?thesis using inv j u i s by (simp add: probe_inv_def uses_def)
  qed
  have paths: "path_ok (table s1) (home s1 t) j" if j: "j < ?n" "table s1 ! j = Some t" for j t
  proof (cases "j = i")
    case True
    then have "t = x" using j i by (simp add: T1)
    then show ?thesis using path_ok_mono [OF path, of "table s1"] keeps True by (simp add: home1 n1)
  next
    case False
    then have "path_ok ?T (home s t) j" using inv j by (simp add: T1 probe_inv_def)
    then show ?thesis using path_ok_mono [of ?T "home s t" j "table s1"] keeps by (simp add: home1 n1)
  qed
  have at: "table s1 ! j = (if j = i then Some x else ?T ! j)" if "j < ?n" for j
    using that i by (simp add: T1 nth_list_update)
  have distinct: "j = k" if "j < ?n" "k < ?n" "table s1 ! j = Some y" "table s1 ! k = Some z" "e y z"
    for j k y z
  proof -
    consider "j = i" "k = i" | "j = i" "k \<noteq> i" | "j \<noteq> i" "k = i" | "j \<noteq> i" "k \<noteq> i" by blast
    then show ?thesis
    proof cases
      case 2
      then show ?thesis using that only [of k z] e_sym by (simp add: at)
    next
      case 3
      then show ?thesis using that only [of j y] by (simp add: at)
    next
      case 4
      then show ?thesis using that inv s by (simp add: at probe_inv_def uses_def)
    qed simp
  qed
  have count: "itemCount s1 = card (occupied (table s1))"
  proof -
    have "itemCount s = card (occupied ?T)" using inv by (simp add: probe_inv_def)
    moreover have "i \<in> occupied ?T \<longleftrightarrow> ?T ! i \<noteq> None" using i by (simp add: occupied_def)
    ultimately show ?thesis using i by (simp add: s1 occupied_update_Some card_insert_if)
  qed
  show "probe_inv s1"
    using inv count paths distinct by (auto simp: probe_inv_def n1 eq1)
  show "members s1 = insert x (members s - {t. e t x})"
  proof (intro set_eqI iffI)
    fix t assume "t \<in> members s1"
    then obtain j where j: "j < ?n" "table s1 ! j = Some t" by (auto simp: members_iff n1)
    show "t \<in> insert x (members s - {t. e t x})"
    proof (cases "j = i")
      case True
      then show ?thesis using j at [of j] by simp
    next
      case False
      then have jt: "?T ! j = Some t" using j at [of j] by simp
      then have "t \<in> members s" using j(1) by (rule members_nthI [rotated])
      moreover have "\<not> e t x" by (rule contrapos_nn [OF False], rule only [OF j(1) jt])
      ultimately show ?thesis by simp
    qed
  next
    fix t assume t: "t \<in> insert x (members s - {t. e t x})"
    show "t \<in> members s1"
    proof (cases "t = x")
      case True
      then have "table s1 ! i = Some t" using i at [of i] by simp
      then show ?thesis using i n1 by (simp add: members_nthI)
    next
      case False
      then have nx: "\<not> e t x" and "t \<in> members s" using t by simp_all
      from this(2) obtain j where j: "j < ?n" "?T ! j = Some t" by (rule members_nthE)
      then have "j \<noteq> i" using found nx by auto
      then have "table s1 ! j = Some t" using j at [of j] by simp
      then show ?thesis using j(1) n1 by (simp add: members_nthI)
    qed
  qed
qed

end


section \<open>Table sizes\<close>

lemma length_tableSizes: "length tableSizes = 51"
  by (simp add: tableSizes_def)

lemma tableSizes_sorted: "sorted_wrt (<) tableSizes"
  by (simp add: tableSizes_def)

lemma tableSizes_mono: "i < j \<Longrightarrow> j < length tableSizes \<Longrightarrow> tableSizes ! i < tableSizes ! j"
  using tableSizes_sorted sorted_wrt_nth_less by blast

lemma size_index_bounds:
  assumes "i \<le> idx" and "idx < length tableSizes" and "capacity \<le> tableSizes ! idx"
  shows "size_index capacity i \<le> idx \<and> capacity \<le> tableSizes ! size_index capacity i"
  using assms
proof (induction capacity i rule: size_index.induct)
  case (1 capacity i)
  show ?case
  proof (cases "i < length tableSizes \<and> tableSizes ! i < capacity")
    case True
    then have "i \<noteq> idx" using "1.prems" by auto
    then show ?thesis
      using "1.IH" [OF True] "1.prems" True by (subst (1 2) size_index.simps) auto
  next
    case False
    then show ?thesis using "1.prems" by (subst (1 2) size_index.simps) auto
  qed
qed

lemma size_index_exact: "idx < length tableSizes \<Longrightarrow> size_index (tableSizes ! idx) 0 = idx"
  using size_index_bounds [of 0 idx "tableSizes ! idx"] tableSizes_mono
  by (metis leD le_neq_implies_less le0 order_refl)

lemma in_tl_tableSizes: "n \<in> set (tl tableSizes) \<longleftrightarrow> (\<exists>i. 0 < i \<and> i < 51 \<and> n = tableSizes ! i)"
proof -
  have "n \<in> set (tl tableSizes) \<longleftrightarrow> (\<exists>i < 50. n = tableSizes ! Suc i)"
    by (auto simp: in_set_conv_nth length_tableSizes nth_tl)
  also have "\<dots> \<longleftrightarrow> (\<exists>i. 0 < i \<and> i < 51 \<and> n = tableSizes ! i)"
    by (force simp: gr0_conv_Suc)
  finally show ?thesis .
qed

text \<open>Growing by one table size leaves room for at least one more item.\<close>

lemma limits_grow:
  "list_all (\<lambda>(a, b). limit a + 1 \<le> limit b) (zip (butlast (tl tableSizes)) (tl (tl tableSizes)))"
  by (simp add: tableSizes_def limit_def)

lemma limit_next:
  assumes "0 < i" and "i < 50"
  shows "limit (tableSizes ! i) + 1 \<le> limit (tableSizes ! (i + 1))"
proof -
  let ?z = "zip (butlast (tl tableSizes)) (tl (tl tableSizes))"
  have len: "i - 1 < length ?z" using assms by (simp add: length_tableSizes)
  have "?z ! (i - 1) = (tableSizes ! i, tableSizes ! (i + 1))"
    using assms len by (simp add: nth_butlast nth_tl length_tableSizes)
  then show ?thesis using limits_grow len by (auto simp: list_all_length)
qed

lemma init_next:
  assumes n: "n \<in> set (tl tableSizes)" and "n \<noteq> last tableSizes"
  obtains m where "BRSetInit n = Some (replicate m None)" and "m \<in> set (tl tableSizes)"
    and "limit n + 1 \<le> limit m"
proof -
  obtain i where i: "0 < i" "i < 51" "n = tableSizes ! i" using n by (auto simp: in_tl_tableSizes)
  have "i \<noteq> 50" using assms(2) i(3) by (auto simp: last_conv_nth length_tableSizes tableSizes_def)
  then have i50: "i < 50" using i(2) by simp
  have "BRSetInit n = Some (replicate (tableSizes ! (i + 1)) None)"
    using i i50 size_index_exact [of i] by (simp add: BRSetInit_def length_tableSizes)
  moreover have "tableSizes ! (i + 1) \<in> set (tl tableSizes)"
    using i50 by (auto simp: in_tl_tableSizes)
  ultimately show ?thesis using that limit_next [OF i(1) i50] i(3) by simp
qed

text \<open>The most items a table may ever hold: the load limit of the last table size.\<close>

definition max_items :: nat where
  "max_items = 2609407362"

lemma limit_last: "limit (last tableSizes) = max_items"
  by (simp add: tableSizes_def limit_def max_items_def)

section \<open>Filling a fresh table\<close>

lemma probe_inv_fresh:
  "0 < m \<Longrightarrow> probe_inv \<lparr>table = replicate m None, itemCount = 0, hash = h, eq = e\<rparr>"
  by (simp add: probe_inv_def occupied_def)

lemma members_fresh [simp]:
  "members \<lparr>table = replicate m None, itemCount = 0, hash = h, eq = e\<rparr> = {}"
  by (simp add: members_def)

fun present :: "'a option list \<Rightarrow> 'a list" where
  "present [] = []"
| "present (None # ts) = present ts"
| "present (Some t # ts) = t # present ts"

lemma set_present [simp]: "set (present ts) = {t. Some t \<in> set ts}"
  by (induction ts rule: present.induct) auto

lemma occupied_Cons:
  "occupied (t # ts) = (if t = None then {} else {0}) \<union> Suc ` occupied ts"
proof (rule set_eqI)
  fix k
  show "k \<in> occupied (t # ts) \<longleftrightarrow> k \<in> (if t = None then {} else {0}) \<union> Suc ` occupied ts"
    by (cases k) (auto simp: occupied_def)
qed

lemma length_present: "length (present T) = card (occupied T)"
proof (induction T rule: present.induct)
  case 1
  then show ?case by (simp add: occupied_def)
qed (simp_all add: occupied_Cons card_image)

lemma present_distinct:
  assumes "probe_inv s" and "\<And>x. eq s x x"
  shows "pairwise (\<lambda>x y. \<not> eq s x y) (members s) \<and> distinct (present (table s))"
proof -
  have idx: "i = j" if "i < buckets s" "j < buckets s" "table s ! i = Some x" "table s ! j = Some y"
    "eq s x y" for i j x y
    using assms(1) that by (simp add: probe_inv_def)
  have "distinct (present T)" if "\<And>i j x. i < length T \<Longrightarrow> j < length T \<Longrightarrow> T ! i = Some x \<Longrightarrow>
    T ! j = Some x \<Longrightarrow> i = j" for T
    using that
  proof (induction T rule: present.induct)
    case (2 ts)
    have "distinct (present ts)"
    proof (rule "2.IH")
      fix i j x
      assume "i < length ts" "j < length ts" "ts ! i = Some x" "ts ! j = Some x"
      then show "i = j" using "2.prems" [of "Suc i" "Suc j" x] by simp
    qed
    then show ?case by simp
  next
    case (3 t ts)
    have "distinct (present ts)"
    proof (rule "3.IH")
      fix i j x
      assume "i < length ts" "j < length ts" "ts ! i = Some x" "ts ! j = Some x"
      then show "i = j" using "3.prems" [of "Suc i" "Suc j" x] by simp
    qed
    moreover have "Some t \<notin> set ts"
      using "3.prems" [of 0 "Suc j" t for j] by (auto simp: in_set_conv_nth)
    ultimately show ?case by simp
  qed simp
  then have "distinct (present (table s))" using idx assms(2) by blast
  moreover have "pairwise (\<lambda>x y. \<not> eq s x y) (members s)"
  proof (rule pairwiseI)
    fix x y assume xy: "x \<in> members s" "y \<in> members s" "x \<noteq> y"
    obtain i where i: "i < buckets s" "table s ! i = Some x" using xy(1) by (rule members_nthE)
    obtain j where j: "j < buckets s" "table s ! j = Some y" using xy(2) by (rule members_nthE)
    show "\<not> eq s x y"
    proof
      assume "eq s x y"
      then have "i = j" using idx i j by blast
      then show False using i j xy(3) by simp
    qed
  qed
  ultimately show ?thesis by blast
qed

section \<open>Adding\<close>

lemma nth_eq_None_or_member:
  "i < buckets s \<Longrightarrow> table s ! i = None \<or> (\<exists>t \<in> members s. table s ! i = Some t)"
  using members_nthI [of i s] by (cases "table s ! i") auto

context item_equality
begin

definition replace_item :: "'a \<Rightarrow> 'a set \<Rightarrow> 'a set" where
  "replace_item x M = insert x (M - {t. e t x})"

lemma uses_update [simp]:
  "uses (s\<lparr>table := T, itemCount := c\<rparr>) = uses s"
  "uses \<lparr>table = T, itemCount = c, hash = hash s, eq = eq s\<rparr> = uses s"
  by (simp_all add: uses_def)

lemma count_members:
  assumes "probe_inv s" and "uses s"
  shows "itemCount s = card (members s)"
proof -
  have "distinct (present (table s))"
    using present_distinct [OF assms(1)] assms(2) by (simp add: uses_def e_refl)
  then have "card (members s) = length (present (table s))"
    by (simp add: members_def flip: set_present distinct_card)
  then show ?thesis using assms(1) by (simp add: length_present probe_inv_def)
qed

text \<open>What \<open>BRSetAdd\<close> has done to the table just before it checks the load.\<close>

lemma add_before_growth:
  assumes inv: "probe_inv s" and room: "card (occupied (table s)) < buckets s" and s: "uses s"
  obtains r s1 where "probe_inv s1" and "uses s1" and "buckets s1 = buckets s"
    and "members s1 = replace_item x (members s)"
    and "itemCount s \<le> itemCount s1" and "itemCount s1 \<le> itemCount s + 1"
    and "\<And>t. r = Some t \<longleftrightarrow> t \<in> members s \<and> e t x"
    and "\<And>d. add_depth (Suc d) s x =
      (if itemCount s1 > limit (buckets s)
       then map_option (\<lambda>s2. (r, s2)) (BRSetGrow (add_depth d) s1 (buckets s)) else Some (r, s1))"
proof -
  obtain i where i: "probe s x = Some i" "i < buckets s" "path_ok (table s) (home s x) i"
    and found: "(\<exists>t. table s ! i = Some t \<and> e t x) \<or>
      (table s ! i = None \<and> (\<forall>t \<in> members s. \<not> e t x))"
    using probe_spec [OF inv room s, of x] by metis
  define s1 where "s1 = s\<lparr>table := (table s)[i := Some x],
    itemCount := (if table s ! i = None then itemCount s + 1 else itemCount s)\<rparr>"
  have "probe_inv s1" "members s1 = replace_item x (members s)"
    using put_spec [OF inv s i(2,3) found s1_def] by (simp_all add: replace_item_def)
  moreover have "table s ! i = Some t \<longleftrightarrow> t \<in> members s \<and> e t x" for t
  proof
    assume "table s ! i = Some t"
    then show "t \<in> members s \<and> e t x" using found members_nthI [OF i(2)] by auto
  next
    assume t: "t \<in> members s \<and> e t x"
    then obtain u where u: "table s ! i = Some u" "e u x" using found by blast
    have "e u t" using u(2) t e_sym e_trans by blast
    then have "u = t" using unique_member [OF inv s members_nthI [OF i(2) u(1)]] t by blast
    then show "table s ! i = Some t" using u(1) by simp
  qed
  moreover have "add_depth (Suc d) s x =
      (if itemCount s1 > limit (buckets s)
       then map_option (\<lambda>s2. (table s ! i, s2)) (BRSetGrow (add_depth d) s1 (buckets s))
       else Some (table s ! i, s1))" for d
    by (simp add: i(1) s1_def Let_def limit_def)
  moreover have "uses s1" "buckets s1 = buckets s" "itemCount s \<le> itemCount s1"
    "itemCount s1 \<le> itemCount s + 1"
    using s by (simp_all add: s1_def)
  ultimately show ?thesis using that by blast
qed

text \<open>With room for one more item the table does not grow.\<close>

lemma add_in_place:
  assumes inv: "set_inv s" and s: "uses s" and room: "itemCount s + 1 \<le> limit (buckets s)"
  shows "\<exists>r s1. add_depth (Suc d) s x = Some (r, s1) \<and> set_inv s1 \<and> uses s1 \<and>
    buckets s1 = buckets s \<and> members s1 = replace_item x (members s) \<and>
    itemCount s1 \<le> itemCount s + 1 \<and> (\<forall>t. r = Some t \<longleftrightarrow> t \<in> members s \<and> e t x)"
proof -
  have pinv: "probe_inv s" using inv by (simp add: set_inv_def)
  obtain r s1 where s1: "probe_inv s1" "uses s1" "buckets s1 = buckets s"
    "members s1 = replace_item x (members s)" "itemCount s \<le> itemCount s1"
    "itemCount s1 \<le> itemCount s + 1"
    and r: "\<And>t. r = Some t \<longleftrightarrow> t \<in> members s \<and> e t x"
    and eq: "\<And>d. add_depth (Suc d) s x = (if itemCount s1 > limit (buckets s)
       then map_option (\<lambda>s2. (r, s2)) (BRSetGrow (add_depth d) s1 (buckets s)) else Some (r, s1))"
    by (rule add_before_growth [OF pinv set_inv_not_full [OF inv] s, of x]) (rule that; assumption)
  have "add_depth (Suc d) s x = Some (r, s1)" using eq room s1(6) by simp
  moreover have "set_inv s1" using s1 room inv by (simp add: set_inv_def)
  ultimately show ?thesis using s1 r by blast
qed

lemma union_in_place:
  assumes "set_inv s" and "uses s" and "itemCount s + length (present ts) \<le> limit (buckets s)"
  shows "\<exists>s'. union_loop (add_depth (Suc d)) ts s = Some s' \<and> set_inv s' \<and> uses s' \<and>
    buckets s' = buckets s \<and> itemCount s' \<le> itemCount s + length (present ts) \<and>
    members s' = fold replace_item (present ts) (members s)"
  using assms
proof (induction ts arbitrary: s rule: present.induct)
  case (3 t ts)
  obtain r s1 where s1: "add_depth (Suc d) s t = Some (r, s1)" "set_inv s1" "uses s1"
    "buckets s1 = buckets s" "members s1 = replace_item t (members s)"
    "itemCount s1 \<le> itemCount s + 1"
    using add_in_place [OF "3.prems"(1,2)] "3.prems"(3) by fastforce
  have "itemCount s1 + length (present ts) \<le> limit (buckets s1)" using s1 "3.prems"(3) by simp
  from "3.IH" [OF s1(2,3) this] show ?case using s1 by auto
qed (simp_all add: set_inv_def)

text \<open>Items that are equal to no other are all there after they have been added.\<close>

lemma fold_replace:
  assumes "pairwise (\<lambda>x y. \<not> e x y) (M \<union> set xs)" and "distinct xs" and "set xs \<inter> M = {}"
  shows "fold replace_item xs M = M \<union> set xs"
  using assms
proof (induction xs arbitrary: M)
  case (Cons x xs)
  have "\<not> e t x" if "t \<in> M" for t
    using Cons.prems that by (auto simp: pairwise_def)
  then have "replace_item x M = insert x M" by (auto simp: replace_item_def)
  moreover have "fold replace_item xs (insert x M) = insert x M \<union> set xs"
    using Cons.prems by (intro Cons.IH) auto
  ultimately show ?case by simp
qed simp

lemma grow_spec:
  assumes inv: "probe_inv s" and s: "uses s" and n: "buckets s \<in> set (tl tableSizes)"
    and last: "buckets s \<noteq> last tableSizes" and count: "itemCount s \<le> limit (buckets s) + 1"
  shows "\<exists>s'. BRSetGrow (add_depth (Suc d)) s (buckets s) = Some s' \<and> set_inv s' \<and> uses s' \<and>
    members s' = members s"
proof -
  obtain m where m: "BRSetInit (buckets s) = Some (replicate m (None :: 'a option))"
    "m \<in> set (tl tableSizes)" "limit (buckets s) + 1 \<le> limit m"
    using init_next [OF n last] by metis
  let ?new = "\<lparr>table = replicate m None, itemCount = 0, hash = hash s, eq = eq s\<rparr> :: 'a BRSet"
  have "0 < m" using m(2) sizes_bound by fastforce
  then have new: "set_inv ?new" "uses ?new"
    using m(2) s probe_inv_fresh [of m] by (simp_all add: set_inv_def)
  have items: "length (present (table s)) = itemCount s"
    using inv by (simp add: length_present probe_inv_def)
  then have room: "itemCount ?new + length (present (table s)) \<le> limit (buckets ?new)"
    using m(3) count by simp
  from union_in_place [OF new room] obtain s' where
    s': "union_loop (add_depth (Suc d)) (table s) ?new = Some s'" "set_inv s'" "uses s'"
    "members s' = fold replace_item (present (table s)) {}"
    by auto
  have "pairwise (\<lambda>x y. \<not> e x y) (members s) \<and> distinct (present (table s))"
    using present_distinct [OF inv] s by (simp add: uses_def e_refl)
  then have "members s' = members s"
    using s'(4) fold_replace [of "{}" "present (table s)"] by (simp add: members_def)
  moreover have "s\<lparr>table := table s', itemCount := itemCount s'\<rparr> = s'"
    using s s'(3) by (cases s') (simp add: uses_def)
  ultimately show ?thesis using s' m(1) by (simp add: BRSetGrow_def)
qed

theorem add_depth_spec:
  assumes inv: "set_inv s" and s: "uses s" and small: "itemCount s < max_items"
  shows "\<exists>r s'. add_depth (Suc (Suc d)) s x = Some (r, s') \<and> set_inv s' \<and> uses s' \<and>
    members s' = replace_item x (members s) \<and> (\<forall>t. r = Some t \<longleftrightarrow> t \<in> members s \<and> e t x)"
proof -
  have pinv: "probe_inv s" and n: "buckets s \<in> set (tl tableSizes)"
    and le: "itemCount s \<le> limit (buckets s)"
    using inv by (simp_all add: set_inv_def)
  obtain r s1 where s1: "probe_inv s1" "uses s1" "buckets s1 = buckets s"
    "members s1 = replace_item x (members s)" "itemCount s \<le> itemCount s1"
    "itemCount s1 \<le> itemCount s + 1"
    and r: "\<And>t. r = Some t \<longleftrightarrow> t \<in> members s \<and> e t x"
    and eqs: "\<And>d. add_depth (Suc d) s x = (if itemCount s1 > limit (buckets s)
       then map_option (\<lambda>s2. (r, s2)) (BRSetGrow (add_depth d) s1 (buckets s)) else Some (r, s1))"
    by (rule add_before_growth [OF pinv set_inv_not_full [OF inv] s, of x]) (rule that; assumption)
  note eq = eqs [of "Suc d"]
  show ?thesis
  proof (cases "itemCount s1 > limit (buckets s)")
    case True
    then have "buckets s \<noteq> last tableSizes" using small s1(6) limit_last by auto
    then have "buckets s1 \<noteq> last tableSizes" "buckets s1 \<in> set (tl tableSizes)"
      "itemCount s1 \<le> limit (buckets s1) + 1"
      using s1 n le by simp_all
    from grow_spec [OF s1(1,2) this(2,1,3), of d] obtain s2 where
      "BRSetGrow (add_depth (Suc d)) s1 (buckets s) = Some s2" "set_inv s2" "uses s2"
      "members s2 = members s1"
      using s1(3) by auto
    then show ?thesis using True eq r s1(4) by simp
  next
    case False
    then have "set_inv s1" using s1 n by (simp add: set_inv_def)
    then show ?thesis using False eq r s1 by simp
  qed
qed

end


section \<open>Removing\<close>

lemma before_trans:
  "\<lbrakk>b < n; i < n; j < n; q < n; before n b i j; before n i q j\<rbrakk> \<Longrightarrow> before n b q j"
  by (auto simp: dist_cases split: if_splits)

lemma dist_diff:
  "\<lbrakk>p < n; i < n; j < n\<rbrakk> \<Longrightarrow>
   dist n i j = (if dist n p i \<le> dist n p j then dist n p j - dist n p i
                 else n + dist n p j - dist n p i)"
  by (auto simp: dist_cases split: if_splits)

text \<open>Between \<open>i\<close> and \<open>q\<close>, seen from \<open>p\<close>, a path that goes through \<open>i\<close> to \<open>j\<close> passes \<open>q\<close>.\<close>

lemma passes:
  assumes "b < n" "p < n" "i < n" "j < n" "q < n"
    and "before n b i j" and "dist n p i < dist n p q"
    and "dist n p j < dist n p i \<or> dist n p q < dist n p j"
  shows "before n b q j"
proof (rule before_trans [OF assms(1,3,4,5,6)])
  show "before n i q j"
    using assms(2,3,4,5,7,8) dist_less [of n p q] dist_less [of n p j]
    by (auto simp: dist_diff [of p n i])
qed

lemma dist_Suc:
  "\<lbrakk>p < n; i < n; dist n p i + 1 < n\<rbrakk> \<Longrightarrow> dist n p ((i + 1) mod n) = dist n p i + 1"
  using dist_add [of p n "dist n p i + 1"] by (metis add.assoc add_dist mod_add_left_eq)

text \<open>
  The loop invariant of the clean-up.  Bucket \<open>p\<close> was emptied, \<open>q\<close> is the next bucket that
  was empty anyway, and the loop stands at \<open>i\<close>: the buckets from \<open>i\<close> to \<open>q\<close> are as they
  were, and a hole in an item's path lies before \<open>i\<close> and concerns an item from \<open>i\<close> on.
\<close>

definition cleaning :: "'a BRSet \<Rightarrow> nat \<Rightarrow> nat \<Rightarrow> nat \<Rightarrow> bool" where
  "cleaning s p q i \<longleftrightarrow>
     (let n = buckets s; T = table s in
      p < n \<and> q < n \<and> i < n \<and> dist n p i \<le> dist n p q \<and> T ! q = None \<and>
      itemCount s = card (occupied T) \<and> itemCount s \<le> limit n \<and> n \<in> set (tl tableSizes) \<and>
      (\<forall>k < n. dist n p i \<le> dist n p k \<longrightarrow> dist n p k < dist n p q \<longrightarrow> T ! k \<noteq> None) \<and>
      (\<forall>j < n. \<forall>k < n. \<forall>x y. T ! j = Some x \<longrightarrow> T ! k = Some y \<longrightarrow> eq s x y \<longrightarrow> j = k) \<and>
      (\<forall>j < n. \<forall>k < n. \<forall>t. T ! j = Some t \<longrightarrow> before n (home s t) k j \<longrightarrow> T ! k = None \<longrightarrow>
         dist n p k < dist n p i \<and> dist n p i \<le> dist n p j \<and> dist n p j < dist n p q))"

lemma cleaningD:
  assumes "cleaning s p q i"
  shows "p < buckets s" "q < buckets s" "i < buckets s"
    "dist (buckets s) p i \<le> dist (buckets s) p q" "table s ! q = None"
    "itemCount s = card (occupied (table s))" "itemCount s \<le> limit (buckets s)"
    "buckets s \<in> set (tl tableSizes)"
    "\<And>k. \<lbrakk>k < buckets s; dist (buckets s) p i \<le> dist (buckets s) p k;
       dist (buckets s) p k < dist (buckets s) p q\<rbrakk> \<Longrightarrow> table s ! k \<noteq> None"
    "\<And>j k x y. \<lbrakk>j < buckets s; k < buckets s; table s ! j = Some x; table s ! k = Some y;
       eq s x y\<rbrakk> \<Longrightarrow> j = k"
    "\<And>j k t. \<lbrakk>j < buckets s; k < buckets s; table s ! j = Some t;
       before (buckets s) (home s t) k j; table s ! k = None\<rbrakk> \<Longrightarrow>
       dist (buckets s) p k < dist (buckets s) p i \<and>
       dist (buckets s) p i \<le> dist (buckets s) p j \<and> dist (buckets s) p j < dist (buckets s) p q"
  using assms unfolding cleaning_def Let_def by blast+

lemma cleaning_done:
  assumes c: "cleaning s p q i" and "table s ! i = None"
  shows "set_inv s"
proof -
  have "dist (buckets s) p i = dist (buckets s) p q"
    using cleaningD(9) [OF c cleaningD(3) [OF c]] cleaningD(4) [OF c] assms(2) by force
  then have "path_ok (table s) (home s t) j" if "j < buckets s" "table s ! j = Some t" for j t
    unfolding path_ok_def using cleaningD(11) [OF c that(1) _ that(2)] by fastforce
  then show ?thesis
    using cleaningD [OF c] sizes_bound unfolding set_inv_def probe_inv_def by fastforce
qed

lemma BRSetAdd_Suc: "BRSetAdd = add_depth (Suc (Suc 50))"
  unfolding BRSetAdd_def by (rule arg_cong [where f = add_depth]) simp

context item_equality
begin

lemma probe_absent:
  assumes room: "\<exists>z < buckets s. table s ! z = None" and s: "uses s"
    and absent: "\<forall>t \<in> members s. \<not> e t x"
  obtains j where "probe s x = Some j" and "j < buckets s" and "table s ! j = None"
    and "path_ok (table s) (home s x) j"
proof -
  obtain j where j: "probe s x = Some j" "j < buckets s" "\<not> other s x j"
    and others: "\<And>k. k < buckets s \<Longrightarrow> before (buckets s) (home s x) k j \<Longrightarrow> other s x k"
    using probe_result [OF room, of x] by blast
  have "table s ! j = None"
  proof (cases "table s ! j")
    case (Some t)
    then have "t \<in> members s" using j(2) members_nthI by metis
    then have "other s x j" using Some absent s by (simp add: other_iff)
    then show ?thesis using j(3) by simp
  qed
  moreover have "path_ok (table s) (home s x) j"
    using others s by (fastforce simp: path_ok_def other_iff)
  ultimately show ?thesis using that j by blast
qed

lemma cleaning_step:
  assumes c: "cleaning s p q i" and s: "uses s" and t: "table s ! i = Some t"
  defines "s1 \<equiv> s\<lparr>table := (table s)[i := None], itemCount := decr (itemCount s)\<rparr>"
  shows "\<exists>r s2. BRSetAdd s1 t = Some (r, s2) \<and> uses s2 \<and> buckets s2 = buckets s \<and>
    cleaning s2 p q ((i + 1) mod buckets s) \<and> members s2 = members s"
proof -
  let ?n = "buckets s" and ?T = "table s" and ?b = "home s t"
  note C = cleaningD [OF c]
  have n: "?n = 3 \<or> 5 \<le> ?n" using C(8) by (rule sizes_bound)
  have iq: "dist ?n p i < dist ?n p q"
    using C(4) t C(5) dist_eq_iff [OF C(1,3,2)] by (metis le_neq_implies_less option.distinct(1))
  have pos: "0 < ?n" using C(3) by linarith
  have b: "?b < ?n" using pos by (simp only: home_def mod_less_divisor)
  have iocc: "i \<in> occupied ?T" using t C(3) by (simp add: occupied_def)
  then have ne: "occupied ?T \<noteq> {}" by blast
  then have pc: "0 < card (occupied ?T)" by (simp add: card_gt_0_iff)
  have s1: "table s1 = ?T[i := None]" "buckets s1 = ?n" "home s1 = home s" "uses s1"
    "itemCount s1 = card (occupied ?T) - 1"
    using s C(6) pc ne by (simp_all add: s1_def home_def fun_eq_iff uses_def decr_def)
  have T1: "table s1 ! k = (if k = i then None else ?T ! k)" if "k < ?n" for k
    using that s1(1) by (simp add: nth_list_update)
  have absent: "\<forall>u \<in> members s1. \<not> e u t"
  proof (intro ballI notI)
    fix u assume "u \<in> members s1" and eu: "e u t"
    then obtain k where k: "k < ?n" "table s1 ! k = Some u"
      using s1(2) by (auto elim: members_nthE)
    then have "?T ! k = Some u" "k \<noteq> i" using T1 by (auto split: if_splits)
    then show False using C(10) [OF k(1) C(3) _ t] eu s by (auto simp: uses_def)
  qed
  have "\<exists>z < buckets s1. table s1 ! z = None" using C(3) T1 [of i] s1(2) by auto
  then obtain j where j: "probe s1 t = Some j" "j < ?n" "table s1 ! j = None"
    and path: "path_ok (table s1) ?b j"
    using probe_absent [OF _ s1(4) absent] s1(2,3) by metis
  define s2 where "s2 = s1\<lparr>table := (table s1)[j := Some t], itemCount := itemCount s1 + 1\<rparr>"
  have s2: "buckets s2 = ?n" "home s2 = home s" "uses s2" "itemCount s2 = card (occupied ?T)"
    "hash s2 = h" "eq s2 = e"
    using s1 pc ne s
    by (simp_all add: s2_def home_def fun_eq_iff uses_def)
  have T2: "table s2 ! k = (if k = j then Some t else if k = i then None else ?T ! k)"
    if "k < ?n" for k
    using that T1 [OF that] s1(2) by (simp add: s2_def nth_list_update)
  have "itemCount s2 \<le> ((buckets s1 + 2) div 3) * 2"
    using C(6,7) s1(2) s2(4) by (simp add: limit_def)
  then have add: "BRSetAdd s1 t = Some (None, s2)"
    unfolding BRSetAdd_Suc by (subst add_depth.simps(2)) (simp add: j(1,3) s2_def Let_def)
  text \<open>The item goes to a bucket between its home and the one it came from.\<close>
  have "\<not> before ?n ?b i j" using path T1 [of i] C(3) s1(2) by (auto simp: path_ok_def)
  then have ji: "j = i \<or> before ?n ?b j i" using dist_eq_iff [OF b j(2) C(3)] by linarith
  have jdist: "dist ?n p j \<le> dist ?n p i"
    using ji C(11) [OF C(3) j(2) t] j(3) T1 [OF j(2)] by (auto split: if_splits)
  then have jq: "j \<noteq> q" using iq by auto
  have "dist ?n p i + 1 < ?n" using iq dist_less [OF pos, of p q] by linarith
  then have i': "dist ?n p ((i + 1) mod ?n) = dist ?n p i + 1" by (rule dist_Suc [OF C(1,3)])
  have holes: "dist ?n p k < dist ?n p i + 1 \<and> dist ?n p i + 1 \<le> dist ?n p l \<and>
      dist ?n p l < dist ?n p q"
    if l: "l < ?n" "k < ?n" "table s2 ! l = Some u" "before ?n (home s u) k l"
      "table s2 ! k = None" for l k u
  proof (cases "l = j")
    case True
    then have "u = t" using l T2 by simp
    then have "table s1 ! k \<noteq> None"
      using path l True s1(2) by (simp add: path_ok_def)
    then show ?thesis using l T1 T2 by (auto split: if_splits)
  next
    case False
    then have lu: "?T ! l = Some u" "l \<noteq> i" using l T2 by (auto split: if_splits)
    have kj: "k \<noteq> j" using l T2 by auto
    have ub: "home s u < ?n" using pos by (simp only: home_def mod_less_divisor)
    have old: "dist ?n p m < dist ?n p i \<and> dist ?n p i \<le> dist ?n p l \<and> dist ?n p l < dist ?n p q"
      if "m < ?n" "before ?n (home s u) m l" "?T ! m = None" for m
      using C(11) [OF l(1) that(1) lu(1) that(2,3)] .
    have li: "dist ?n p l \<noteq> dist ?n p i" using dist_eq_iff [OF C(1) l(1) C(3)] lu(2) by simp
    show ?thesis
    proof (cases "k = i")
      case True
      have "l \<noteq> q" using lu(1) C(5) by auto
      then have lq: "dist ?n p l \<noteq> dist ?n p q" using dist_eq_iff [OF C(1) l(1) C(2)] by simp
      have "\<not> before ?n (home s u) q l" using old [OF C(2)] C(5) iq by auto
      then have "\<not> (dist ?n p l < dist ?n p i \<or> dist ?n p q < dist ?n p l)"
        using passes [OF ub C(1) C(3) l(1) C(2)] l(4) True iq by blast
      then show ?thesis unfolding True using li lq by (intro conjI) linarith+
    next
      case False
      then have "?T ! k = None" using l T2 [OF l(2)] kj by simp
      from old [OF l(2,4) this] show ?thesis using li by (intro conjI) linarith+
    qed
  qed
  have dist2: "l = k" if l: "l < ?n" "k < ?n" "table s2 ! l = Some x" "table s2 ! k = Some y" "e x y"
    for l k x y
  proof -
    have in1: "m = j \<and> z = t \<or> z \<in> members s1 \<and> ?T ! m = Some z"
      if "m < ?n" "table s2 ! m = Some z" for m z
      using that T1 [of m] T2 [of m] s1(2) members_nthI [of m s1 z] by (auto split: if_splits)
    show ?thesis
      using in1 [OF l(1,3)] in1 [OF l(2,4)] absent e_sym l(5) C(10) [OF l(1,2)] s
      by (auto simp: uses_def)
  qed
  have "cleaning s2 p q ((i + 1) mod ?n)"
    unfolding cleaning_def Let_def s2(1,2,4,5,6) i'
  proof (intro conjI allI impI)
    show "(i + 1) mod ?n < ?n" using pos by (rule mod_less_divisor)
    show "table s2 ! q = None" using T2 [OF C(2)] jq C(5) by simp
    have "occupied (table s2) = insert j (occupied ?T - {i})"
      using j(2) C(3) s1(1,2) by (simp add: s2_def occupied_update_Some occupied_update_None)
    moreover have "j \<notin> occupied ?T - {i}" using j(3) T1 [OF j(2)] by (auto simp: occupied_def)
    ultimately show "card (occupied ?T) = card (occupied (table s2))"
      using iocc card_Suc_Diff1 [OF finite_occupied iocc] by simp
    fix k assume "k < ?n" "dist ?n p i + 1 \<le> dist ?n p k" "dist ?n p k < dist ?n p q"
    then show "table s2 ! k \<noteq> None" using C(9) [of k] T2 [of k] by auto
  qed (use C iq holes dist2 in \<open>auto\<close>)
  moreover have "members s2 = members s"
  proof -
    show ?thesis
    proof (intro set_eqI iffI)
      fix u assume "u \<in> members s2"
      then obtain k where k: "k < ?n" "table s2 ! k = Some u" using s2(1) by (auto elim: members_nthE)
      show "u \<in> members s"
        using k T2 [OF k(1)] t C(3) members_nthI [of k s u] members_nthI [of i s t]
        by (auto split: if_splits)
    next
      fix u assume "u \<in> members s"
      then obtain k where k: "k < ?n" "?T ! k = Some u" by (auto elim: members_nthE)
      show "u \<in> members s2"
      proof (cases "k = i")
        case True
        then show ?thesis using k t T2 [OF j(2)] j(2) s2(1) members_nthI [of j s2 t] by simp
      next
        case False
        have "k \<noteq> j" using k j(3) T1 [OF j(2)] False by auto
        then show ?thesis using k False T2 [OF k(1)] s2(1) members_nthI [of k s2 u] by simp
      qed
    qed
  qed
  ultimately show ?thesis using add s2 by blast
qed

lemma cleanup_returns:
  assumes "cleaning s p q i" and "uses s"
  shows "\<exists>s'. cleanup (buckets s) s i = Some s' \<and> uses s' \<and> set_inv s' \<and> members s' = members s"
  using assms
proof (induction "dist (buckets s) p q - dist (buckets s) p i" arbitrary: s i rule: less_induct)
  case less
  note C = cleaningD [OF less.prems(1)]
  show ?case
  proof (cases "table s ! i")
    case None
    then have "cleanup (buckets s) s i = Some s" by (subst cleanup.simps) simp
    then show ?thesis using cleaning_done [OF less.prems(1) None] less.prems(2) by blast
  next
    case (Some t)
    let ?i = "(i + 1) mod buckets s"
    obtain r s2 where add: "BRSetAdd (s\<lparr>table := (table s)[i := None],
        itemCount := decr (itemCount s)\<rparr>) t = Some (r, s2)"
      and s2: "uses s2" "buckets s2 = buckets s" "cleaning s2 p q ?i" "members s2 = members s"
      using cleaning_step [OF less.prems Some] by blast
    have pos: "0 < buckets s" using C(3) by linarith
    have iq: "dist (buckets s) p i < dist (buckets s) p q"
      using C(4) Some C(5) dist_eq_iff [OF C(1,3,2)]
      by (metis le_neq_implies_less option.distinct(1))
    then have "dist (buckets s) p ?i = dist (buckets s) p i + 1"
      using dist_less [OF pos, of p q] by (intro dist_Suc C(1,3)) linarith
    then have "dist (buckets s2) p q - dist (buckets s2) p ?i
        < dist (buckets s) p q - dist (buckets s) p i"
      unfolding s2(2) using iq by linarith
    from less.hyps [OF this s2(3,1)] obtain s' where "cleanup (buckets s2) s2 ?i = Some s'"
      "uses s'" "set_inv s'" "members s' = members s2" by blast
    moreover have "cleanup (buckets s) s i = cleanup (buckets s) s2 ?i"
      by (subst cleanup.simps) (simp add: Some add)
    ultimately show ?thesis using s2(2,4) by simp
  qed
qed

lemma cleaning_start:
  assumes inv: "set_inv s" and s: "uses s" and p: "p < buckets s" and t: "table s ! p = Some t"
  defines "s0 \<equiv> s\<lparr>table := (table s)[p := None], itemCount := decr (itemCount s)\<rparr>"
  shows "\<exists>q. cleaning s0 p q ((p + 1) mod buckets s)" and "uses s0" and "members s0 = members s - {t}"
proof -
  let ?n = "buckets s" and ?T = "table s"
  have pinv: "probe_inv s" and n: "?n \<in> set (tl tableSizes)" and le: "itemCount s \<le> limit ?n"
    using inv by (simp_all add: set_inv_def)
  have pos: "0 < ?n" "1 < ?n" using sizes_bound [OF n] by linarith+
  have pocc: "p \<in> occupied ?T" using t p by (simp add: occupied_def)
  then have ne: "occupied ?T \<noteq> {}" by blast
  then have pc: "0 < card (occupied ?T)" by (simp add: card_gt_0_iff)
  have count: "itemCount s = card (occupied ?T)" using pinv by (simp add: probe_inv_def)
  have s0: "buckets s0 = ?n" "home s0 = home s" "itemCount s0 = card (occupied ?T) - 1"
    "eq s0 = eq s" "table s0 = ?T[p := None]"
    using pc ne count by (simp_all add: s0_def home_def fun_eq_iff decr_def)
  show "uses s0" using s by (simp add: s0_def uses_def)
  have T0: "table s0 ! k = (if k = p then None else ?T ! k)" if "k < ?n" for k
    using that s0(5) by (simp add: nth_list_update)
  have uniq: "j = k" if "j < ?n" "k < ?n" "?T ! j = Some x" "?T ! k = Some y" "eq s x y" for j k x y
    using that pinv by (simp add: probe_inv_def)
  show "members s0 = members s - {t}"
  proof (intro set_eqI iffI)
    fix u assume "u \<in> members s0"
    then obtain k where k: "k < ?n" "table s0 ! k = Some u" using s0(1) by (auto elim: members_nthE)
    then have "?T ! k = Some u" "k \<noteq> p" using T0 by (auto split: if_splits)
    moreover from this have "u \<noteq> t"
      using uniq [OF k(1) p _ t, of t] e_refl [of t] usesD(2) [OF s] by metis
    ultimately show "u \<in> members s - {t}" using k(1) members_nthI [of k s u] by simp
  next
    fix u assume u: "u \<in> members s - {t}"
    then obtain k where k: "k < ?n" "?T ! k = Some u" by (auto elim: members_nthE)
    then have "k \<noteq> p" using u t by auto
    then show "u \<in> members s0" using k T0 [OF k(1)] s0(1) members_nthI [of k s0 u] by simp
  qed
  let ?P = "\<lambda>d. d < ?n \<and> ?T ! ((p + d) mod ?n) = None"
  obtain z where z: "z < ?n" "?T ! z = None"
    using ex_empty_bucket [OF set_inv_not_full [OF inv]] by blast
  then have Pz: "?P (dist ?n p z)" using p dist_less [OF pos(1), of p z] by simp
  define d where "d = (LEAST d. ?P d)"
  have d: "d < ?n" "?T ! ((p + d) mod ?n) = None"
    using LeastI [of ?P, OF Pz] by (simp_all add: d_def)
  have least: "?T ! k \<noteq> None" if "k < ?n" "dist ?n p k < d" for k
    using not_less_Least [of "dist ?n p k" ?P] that p dist_less [OF pos(1), of p k]
    by (simp add: d_def)
  let ?q = "(p + d) mod ?n"
  have q: "?q < ?n" "dist ?n p ?q = d" using pos(1) p d(1) by (simp_all add: dist_add del: mod_less)
  have "?q \<noteq> p" using d(2) t by (metis option.distinct(1))
  then have d0: "0 < d" using q p dist_eq_iff [OF p q(1) p] by simp
  have i: "dist ?n p ((p + 1) mod ?n) = 1" using p pos(2) by (rule dist_add)
  have hole: "dist ?n p k < 1 \<and> 1 \<le> dist ?n p j \<and> dist ?n p j < d"
    if j: "j < ?n" "k < ?n" "table s0 ! j = Some u" "before ?n (home s u) k j" "table s0 ! k = None"
    for j k u
  proof -
    have ju: "?T ! j = Some u" "j \<noteq> p" using j T0 by (auto split: if_splits)
    then have path: "path_ok ?T (home s u) j" using pinv j(1) by (simp add: probe_inv_def)
    then have kp: "k = p" using j(2,4,5) T0 by (auto simp: path_ok_def split: if_splits)
    have b: "home s u < ?n" using pos by (simp only: home_def mod_less_divisor)
    have "\<not> before ?n (home s u) ?q j" using path q(1) d(2) by (auto simp: path_ok_def)
    then have "\<not> d < dist ?n p j"
      using passes [OF b p p j(1) q(1)] j(4) kp d0 q(2) p by auto
    moreover have "j \<noteq> ?q" using ju(1) d(2) by auto
    then have "dist ?n p j \<noteq> d" using dist_eq_iff [OF p j(1) q(1)] q(2) by simp
    moreover have "dist ?n p j \<noteq> 0" using dist_eq_iff [OF p j(1) p] p ju(2) by simp
    ultimately show ?thesis using kp p by simp
  qed
  have "cleaning s0 p ?q ((p + 1) mod ?n)"
    unfolding cleaning_def Let_def s0(1,2,3,4) i q(2)
  proof (intro conjI allI impI)
    show "(p + 1) mod ?n < ?n" using pos(1) by (rule mod_less_divisor)
    show "table s0 ! ?q = None" using T0 [OF q(1)] d(2) by simp
    show "card (occupied ?T) - 1 = card (occupied (table s0))"
      using p pocc by (simp add: s0(5) occupied_update_None)
    fix k assume "k < ?n" "1 \<le> dist ?n p k" "dist ?n p k < d"
    then show "table s0 ! k \<noteq> None" using least T0 p by auto
  next
    fix j k x y assume "j < ?n" "k < ?n" "table s0 ! j = Some x" "table s0 ! k = Some y" "eq s x y"
    then show "j = k" using uniq T0 by (auto split: if_splits)
  qed (use p q n d0 le count hole in auto)
  then show "\<exists>q. cleaning s0 p q ((p + 1) mod ?n)" by blast
qed

lemma remove_returns:
  assumes inv: "set_inv s" and s: "uses s"
  shows "\<exists>r s'. BRSetRemove s x = Some (r, s') \<and> set_inv s' \<and> uses s' \<and>
    members s' = {t \<in> members s. \<not> e t x} \<and> (\<forall>t. r = Some t \<longleftrightarrow> t \<in> members s \<and> e t x)"
proof -
  have pinv: "probe_inv s" using inv by (simp add: set_inv_def)
  obtain i where i: "probe s x = Some i" "i < buckets s"
    "(\<exists>t. table s ! i = Some t \<and> e t x) \<or> (table s ! i = None \<and> (\<forall>t \<in> members s. \<not> e t x))"
    using probe_spec [OF pinv set_inv_not_full [OF inv] s] by metis
  show ?thesis
  proof (cases "table s ! i")
    case None
    then have "{t \<in> members s. \<not> e t x} = members s" using i(3) by auto
    moreover have "BRSetRemove s x = Some (None, s)" using None i(1) by (simp add: BRSetRemove_def)
    ultimately show ?thesis using None i inv s by auto
  next
    case (Some t)
    then have t: "t \<in> members s" "e t x" using i(2,3) members_nthI [of i s t] by auto
    have only: "u = t" if "u \<in> members s" "e u x" for u
      using unique_member [OF pinv s that(1) t(1)] that(2) t(2) e_sym e_trans by blast
    let ?s0 = "s\<lparr>table := (table s)[i := None], itemCount := decr (itemCount s)\<rparr>"
    obtain q where "cleaning ?s0 i q ((i + 1) mod buckets s)"
      using cleaning_start(1) [OF inv s i(2) Some] by blast
    from cleanup_returns [OF this cleaning_start(2) [OF inv s i(2) Some]] obtain s' where
      s': "cleanup (buckets s) ?s0 ((i + 1) mod buckets s) = Some s'" "uses s'" "set_inv s'"
        "members s' = members s - {t}"
      using cleaning_start(3) [OF inv s i(2) Some] by auto
    have "members s' = {t \<in> members s. \<not> e t x}" unfolding s'(4) using only t by blast
    moreover have "BRSetRemove s x = Some (Some t, s')"
      using i(1) Some s'(1) by (simp add: BRSetRemove_def)
    moreover have "\<forall>u. Some t = Some u \<longleftrightarrow> u \<in> members s \<and> e u x" using only t by blast
    ultimately show ?thesis using s'(2,3) by blast
  qed
qed

end


section \<open>Whole-table operations\<close>

context item_equality
begin

lemma add_returns:
  assumes "set_inv s" and "uses s" and "BRSetCount s < max_items"
  shows "\<exists>r s'. BRSetAdd s x = Some (r, s') \<and> set_inv s' \<and> uses s' \<and>
    members s' = replace_item x (members s) \<and> (\<forall>t. r = Some t \<longleftrightarrow> t \<in> members s \<and> e t x)"
  using add_depth_spec [OF assms(1,2), of 50 x] assms(3) by (simp add: BRSetAdd_Suc BRSetCount_def)

lemma card_replace_item:
  assumes "set_inv s" and "uses s"
  shows "card (replace_item x (members s)) \<le> itemCount s + 1"
proof -
  have "finite (members s)" by (simp add: members_def flip: set_present)
  moreover have "card (members s) = itemCount s"
    using count_members assms by (simp add: set_inv_def)
  ultimately show ?thesis
    unfolding replace_item_def
    by (metis Suc_eq_plus1 card_insert_le_m1 card_mono diff_Suc_1 finite_Diff Diff_subset
        Suc_le_mono card_insert_if le_SucI)
qed

lemma union_loop_returns:
  assumes "set_inv s" and "uses s" and "itemCount s + length (present ts) \<le> max_items"
  shows "\<exists>s'. union_loop BRSetAdd ts s = Some s' \<and> set_inv s' \<and> uses s' \<and>
    members s' = fold replace_item (present ts) (members s)"
  using assms
proof (induction ts arbitrary: s rule: present.induct)
  case (3 t ts)
  have "BRSetCount s < max_items" using "3.prems"(3) by (simp add: BRSetCount_def)
  then obtain r s1 where s1: "BRSetAdd s t = Some (r, s1)" "set_inv s1" "uses s1"
    "members s1 = replace_item t (members s)"
    using add_returns [OF "3.prems"(1,2)] by metis
  have "itemCount s1 \<le> itemCount s + 1"
    using card_replace_item [OF "3.prems"(1,2), of t] count_members s1 by (simp add: set_inv_def)
  then have "itemCount s1 + length (present ts) \<le> max_items" using "3.prems"(3) by simp
  from "3.IH" [OF s1(2,3) this] show ?case using s1(1,4) by simp
qed simp_all

lemma fold_replace_items:
  assumes "pairwise (\<lambda>x y. \<not> e x y) (set xs)" and "distinct xs"
  shows "fold replace_item xs M = set xs \<union> {t \<in> M. \<forall>x \<in> set xs. \<not> e t x}"
  using assms
proof (induction xs arbitrary: M)
  case (Cons x xs)
  have pw: "pairwise (\<lambda>x y. \<not> e x y) (set xs)" "distinct xs" "x \<notin> set xs"
    using Cons.prems by (auto simp: pairwise_insert)
  have no: "\<And>y. y \<in> set xs \<Longrightarrow> \<not> e x y" using Cons.prems by (auto simp: pairwise_insert)
  show ?case
    using Cons.IH [OF pw(1,2)] no by (auto simp: replace_item_def)
qed simp

lemma union_returns:
  assumes "set_inv s" and "uses s" and "set_inv q" and "uses q"
    and "BRSetCount s + BRSetCount q \<le> max_items"
  shows "\<exists>s'. BRSetUnion s q = Some s' \<and> set_inv s' \<and> uses s' \<and>
    members s' = members q \<union> {t \<in> members s. \<forall>x \<in> members q. \<not> e t x}"
proof -
  have pw: "pairwise (\<lambda>x y. \<not> e x y) (set (present (table q)))" "distinct (present (table q))"
    using present_distinct [of q] assms(3,4) by (simp_all add: uses_def e_refl set_inv_def members_def)
  have "itemCount s + length (present (table q)) \<le> max_items"
    using assms(3,5) by (simp add: length_present set_inv_def probe_inv_def BRSetCount_def)
  from union_loop_returns [OF assms(1,2) this] show ?thesis
    using fold_replace_items [OF pw] by (auto simp: BRSetUnion_def members_def)
qed

lemma minus_loop_returns:
  assumes "set_inv s" and "uses s"
  shows "\<exists>s'. minus_loop ts s = Some s' \<and> set_inv s' \<and> uses s' \<and>
    members s' = {t \<in> members s. \<forall>x \<in> set (present ts). \<not> e t x}"
  using assms
proof (induction ts arbitrary: s rule: present.induct)
  case (3 u ts)
  obtain r s1 where s1: "BRSetRemove s u = Some (r, s1)" "set_inv s1" "uses s1"
    "members s1 = {t \<in> members s. \<not> e t u}"
    using remove_returns [OF "3.prems"] by blast
  from "3.IH" [OF s1(2,3)] show ?case using s1(1,4) by auto
qed simp_all

lemma minus_returns:
  assumes "set_inv s" and "uses s"
  shows "\<exists>s'. BRSetMinus s q = Some s' \<and> set_inv s' \<and> uses s' \<and>
    members s' = {t \<in> members s. \<forall>x \<in> members q. \<not> e t x}"
  using minus_loop_returns [OF assms, of "table q"] by (simp add: BRSetMinus_def members_def)

lemma intersects_loop_returns:
  assumes "set_inv s" and "uses s"
  shows "intersects_loop s ts = Some (\<exists>x \<in> set (present ts). \<exists>t \<in> members s. e t x)"
proof (induction ts rule: present.induct)
  case (3 u ts)
  obtain r where "BRSetGet s u = Some r" "\<forall>t. r = Some t \<longleftrightarrow> t \<in> members s \<and> e t u"
    using get_returns [OF assms] by blast
  then show ?case using "3.IH" by (cases r) auto
qed simp_all

lemma probe_member:
  assumes inv: "set_inv s" and s: "uses s" and j: "j < buckets s" "table s ! j = Some t"
  shows "probe s t = Some j"
proof -
  have pinv: "probe_inv s" using inv by (simp add: set_inv_def)
  obtain i where i: "probe s t = Some i" "i < buckets s"
    "(\<exists>u. table s ! i = Some u \<and> e u t) \<or> (table s ! i = None \<and> (\<forall>u \<in> members s. \<not> e u t))"
    using probe_spec [OF pinv set_inv_not_full [OF inv] s] by metis
  then obtain u where "table s ! i = Some u" "e u t"
    using members_nthI [OF j] e_refl by blast
  then have "i = j" using pinv i(2) j s by (simp add: probe_inv_def uses_def)
  then show ?thesis using i(1) by simp
qed

end

lemma all_loop_present: "length (present ts) \<le> c \<Longrightarrow> all_loop ts c = present ts"
proof (induction ts arbitrary: c rule: present.induct)
  case (3 t ts)
  then show ?case by (cases c) auto
next
  case (2 ts)
  then show ?case by (cases c) (auto simp: neq_Nil_conv)
qed simp

lemma present_append: "present (xs @ ys) = present xs @ present ys"
  by (induction xs rule: present.induct) simp_all

lemma first_item_present:
  "first_item ts = (case present ts of [] \<Rightarrow> None | x # _ \<Rightarrow> Some x)"
  by (induction ts rule: present.induct) simp_all

lemma all_present: "probe_inv s \<Longrightarrow> BRSetAll s (BRSetCount s) = present (table s)"
  by (simp add: BRSetAll_def BRSetCount_def probe_inv_def all_loop_present length_present)

lemma apply_present: "apply_loop f ts info = foldl f info (present ts)"
  by (induction f ts info rule: apply_loop.induct) simp_all

lemma present_nth:
  assumes "k < length (present T)"
  obtains j where "j < length T" and "T ! j = Some (present T ! k)"
    and "present (drop (j + 1) T) = drop (k + 1) (present T)"
  using assms
proof (induction T arbitrary: k thesis rule: present.induct)
  case (2 ts)
  obtain j where "j < length ts" "ts ! j = Some (present ts ! k)"
    "present (drop (j + 1) ts) = drop (k + 1) (present ts)"
    using "2.IH" "2.prems"(2) by auto
  then show ?case using "2.prems"(1) [of "Suc j"] by simp
next
  case (3 t ts)
  show ?case
  proof (cases k)
    case 0
    then show ?thesis using "3.prems"(1) [of 0] by simp
  next
    case (Suc m)
    then obtain j where "j < length ts" "ts ! j = Some (present ts ! m)"
      "present (drop (j + 1) ts) = drop (m + 1) (present ts)"
      using "3.IH" "3.prems"(2) by auto
    then show ?thesis using "3.prems"(1) [of "Suc j"] Suc by simp
  qed
qed simp

section \<open>The contract of the operations\<close>

lemma tl_tableSizesI: "0 < i \<Longrightarrow> i < 51 \<Longrightarrow> tableSizes ! i \<in> set (tl tableSizes)"
  using in_tl_tableSizes [of "tableSizes ! i"] by blast

lemma new_inv:
  assumes "capacity \<le> 2609407319"
  shows "set_inv (BRSetNew h e capacity)" and "members (BRSetNew h e capacity) = {}"
proof -
  let ?i = "size_index capacity 0"
  have cap: "capacity \<le> tableSizes ! 49" using assms by (simp add: tableSizes_def)
  have "?i \<le> 49"
    using size_index_bounds [of 0 49 capacity] cap by (simp add: length_tableSizes)
  then have i: "0 < ?i + 1" "?i + 1 < 51" by simp_all
  then have "BRSetInit capacity = Some (replicate (tableSizes ! (?i + 1)) None)"
    by (simp add: BRSetInit_def Let_def length_tableSizes)
  note init = this
  have m: "tableSizes ! (?i + 1) \<in> set (tl tableSizes)"
    using tl_tableSizesI [OF i] .
  have new: "BRSetNew h e capacity =
      \<lparr>table = replicate (tableSizes ! (?i + 1)) None, itemCount = 0, hash = h, eq = e\<rparr>"
    by (simp add: BRSetNew_def init)
  have "0 < tableSizes ! (?i + 1)" using sizes_bound [OF m] by linarith
  then show "set_inv (BRSetNew h e capacity)"
    using m probe_inv_fresh unfolding set_inv_def new by auto
  show "members (BRSetNew h e capacity) = {}" unfolding new by simp
qed

context item_equality
begin

text \<open>The operations with their contracts written out, for use outside the locale.\<close>

lemma add_contract:
  assumes "hash s = h" and "eq s = e" and "set_inv s" and "BRSetCount s < 2609407362"
  shows "\<exists>r s'. BRSetAdd s x = Some (r, s') \<and> set_inv s' \<and> hash s' = h \<and> eq s' = e \<and>
    members s' = insert x {t \<in> members s. \<not> e t x} \<and>
    (\<forall>t. r = Some t \<longleftrightarrow> t \<in> members s \<and> e t x)"
proof -
  have "replace_item x M = insert x {t \<in> M. \<not> e t x}" for M
    unfolding replace_item_def by blast
  then show ?thesis
    using add_returns [OF assms(3) _, of x] assms by (simp add: uses_def max_items_def)
qed

lemma remove_contract:
  assumes "hash s = h" and "eq s = e" and "set_inv s"
  shows "\<exists>r s'. BRSetRemove s x = Some (r, s') \<and> set_inv s' \<and> hash s' = h \<and> eq s' = e \<and>
    members s' = {t \<in> members s. \<not> e t x} \<and> (\<forall>t. r = Some t \<longleftrightarrow> t \<in> members s \<and> e t x)"
  using remove_returns [OF assms(3), of x] assms by (simp add: uses_def)

lemma get_contract:
  assumes "hash s = h" and "eq s = e" and "set_inv s"
  shows "\<exists>r. BRSetGet s x = Some r \<and> (\<forall>t. r = Some t \<longleftrightarrow> t \<in> members s \<and> e t x)"
  using get_returns [OF assms(3), of x] assms by (simp add: uses_def)

lemma contains_contract:
  assumes "hash s = h" and "eq s = e" and "set_inv s"
  shows "BRSetContains s x = Some (\<exists>t \<in> members s. e t x)"
  using contains_returns [OF assms(3), of x] assms by (simp add: uses_def)

lemma union_contract:
  assumes "hash s = h" and "eq s = e" and "set_inv s" and "hash q = h" and "eq q = e"
    and "set_inv q" and "BRSetCount s + BRSetCount q \<le> 2609407362"
  shows "\<exists>s'. BRSetUnion s q = Some s' \<and> set_inv s' \<and> hash s' = h \<and> eq s' = e \<and>
    members s' = members q \<union> {t \<in> members s. \<forall>x \<in> members q. \<not> e t x}"
  using union_returns [OF assms(3) _ assms(6)] assms by (simp add: uses_def max_items_def)

lemma minus_contract:
  assumes "hash s = h" and "eq s = e" and "set_inv s"
  shows "\<exists>s'. BRSetMinus s q = Some s' \<and> set_inv s' \<and> hash s' = h \<and> eq s' = e \<and>
    members s' = {t \<in> members s. \<forall>x \<in> members q. \<not> e t x}"
  using minus_returns [OF assms(3), of q] assms by (simp add: uses_def)

lemma intersects_contract:
  assumes "hash s = h" and "eq s = e" and "set_inv s"
  shows "BRSetIntersects s q = Some (\<exists>x \<in> members q. \<exists>t \<in> members s. e t x)"
  using intersects_loop_returns [OF assms(3), of "table q"] assms
  by (simp add: uses_def BRSetIntersects_def members_def)

lemma iterate_contract:
  assumes "hash s = h" and "eq s = e" and "set_inv s" and "k < length (present (table s))"
  shows "BRSetIterate s (Some (present (table s) ! k)) =
    Some (if k + 1 < length (present (table s)) then Some (present (table s) ! (k + 1)) else None)"
proof -
  obtain j where j: "j < buckets s" "table s ! j = Some (present (table s) ! k)"
    "present (drop (j + 1) (table s)) = drop (k + 1) (present (table s))"
    using present_nth [OF assms(4)] by blast
  then have "probe s (present (table s) ! k) = Some j"
    using probe_member [OF assms(3) _ j(1,2)] assms by (simp add: uses_def)
  then show ?thesis
    using j(3) by (simp add: BRSetIterate_def first_item_present split: list.split)
      (auto simp: drop_eq_Nil dest: arg_cong [of _ _ length] simp flip: Cons_nth_drop_Suc)
qed

lemma all_distinct:
  assumes "eq s = e" and "set_inv s"
  shows "distinct (present (table s))"
  using present_distinct [of s] assms by (simp add: set_inv_def e_refl)

end

lemma clear_inv:
  assumes "set_inv s"
  shows "set_inv (BRSetClear s)" and "members (BRSetClear s) = {}"
  using assms sizes_bound
  by (auto simp: set_inv_def probe_inv_def BRSetClear_def occupied_def members_def)

text \<open>
  \<open>BRSetAdd\<close> returns, keeps the invariant, and makes the item a member in place
  of the one it equals, which it returns; no other member is lost or moved out of reach,
  also when the table grows.
\<close>

theorem BRSetAdd_replaces:
  assumes "item_equality (hash s) (eq s)" and "set_inv s" and "BRSetCount s < 2609407362"
  shows "\<exists>r s'. BRSetAdd s x = Some (r, s') \<and> set_inv s' \<and> hash s' = hash s \<and> eq s' = eq s \<and>
    members s' = insert x {t \<in> members s. \<not> eq s t x} \<and>
    (\<forall>t. r = Some t \<longleftrightarrow> t \<in> members s \<and> eq s t x)"
  by (rule item_equality.add_contract [OF assms(1) refl refl assms(2,3)])

text \<open>
  \<open>BRSetRemove\<close> returns, keeps the invariant although it leaves a hole in the
  middle of other items' probe sequences, and removes exactly the item equal to the given
  one, which it returns.
\<close>

theorem BRSetRemove_removes:
  assumes "item_equality (hash s) (eq s)" and "set_inv s"
  shows "\<exists>r s'. BRSetRemove s x = Some (r, s') \<and> set_inv s' \<and> hash s' = hash s \<and> eq s' = eq s \<and>
    members s' = {t \<in> members s. \<not> eq s t x} \<and>
    (\<forall>t. r = Some t \<longleftrightarrow> t \<in> members s \<and> eq s t x)"
  by (rule item_equality.remove_contract [OF assms(1) refl refl assms(2)])

text \<open>
  \<open>BRSetGet\<close> returns the member equal to the given item, NULL when there is
  none, and \<open>BRSetContains\<close> agrees with it.
\<close>

theorem BRSetGet_finds:
  assumes "item_equality (hash s) (eq s)" and "set_inv s"
  shows "\<exists>r. BRSetGet s x = Some r \<and> (\<forall>t. r = Some t \<longleftrightarrow> t \<in> members s \<and> eq s t x) \<and>
    BRSetContains s x = Some (\<exists>t \<in> members s. eq s t x)"
  using item_equality.get_contract [OF assms(1) refl refl assms(2), of x]
    item_equality.contains_contract [OF assms(1) refl refl assms(2), of x] by auto

text \<open>
  \<open>BRSetUnion\<close>, \<open>BRSetMinus\<close> and \<open>BRSetIntersects\<close> compute union (the items of
  the other set winning), difference and a non-empty intersection, up to the sets' equality.
\<close>

theorem BRSet_algebra:
  assumes "item_equality (hash s) (eq s)" and "set_inv s" and "set_inv q"
    and "hash q = hash s" and "eq q = eq s" and "BRSetCount s + BRSetCount q \<le> 2609407362"
  shows "(\<exists>s'. BRSetUnion s q = Some s' \<and> set_inv s' \<and>
       members s' = members q \<union> {t \<in> members s. \<forall>x \<in> members q. \<not> eq s t x}) \<and>
    (\<exists>s'. BRSetMinus s q = Some s' \<and> set_inv s' \<and>
       members s' = {t \<in> members s. \<forall>x \<in> members q. \<not> eq s t x}) \<and>
    BRSetIntersects s q = Some (\<exists>x \<in> members q. \<exists>t \<in> members s. eq s t x)"
  using item_equality.union_contract [OF assms(1) refl refl assms(2,4,5,3,6)]
    item_equality.minus_contract [OF assms(1) refl refl assms(2), of q]
    item_equality.intersects_contract [OF assms(1) refl refl assms(2), of q] by auto

text \<open>
  Starting from NULL and passing each returned item back, \<open>BRSetIterate\<close> visits
  the items \<open>BRSetAll\<close> copies, in that order, and then returns NULL; these are the
  \<open>BRSetCount\<close> members of the set, each once.
\<close>

theorem BRSetIterate_enumerates:
  assumes "item_equality (hash s) (eq s)" and "set_inv s" and "xs = BRSetAll s (BRSetCount s)"
  shows "set xs = members s \<and> distinct xs \<and> length xs = BRSetCount s \<and>
    BRSetIterate s None = Some (if xs = [] then None else Some (hd xs)) \<and>
    (\<forall>k. k < length xs \<longrightarrow> BRSetIterate s (Some (xs ! k)) =
       Some (if k + 1 < length xs then Some (xs ! (k + 1)) else None))"
proof -
  have "probe_inv s" using assms(2) by (simp add: set_inv_def)
  then have xs: "xs = present (table s)" unfolding assms(3) by (rule all_present)
  have "length xs = BRSetCount s"
    using assms(2) by (simp add: xs length_present BRSetCount_def set_inv_def probe_inv_def)
  moreover have "distinct xs"
    unfolding xs by (rule item_equality.all_distinct [OF assms(1) refl assms(2)])
  moreover have "BRSetIterate s None = Some (if xs = [] then None else Some (hd xs))"
    by (simp add: BRSetIterate_def first_item_present xs split: list.split)
  ultimately show ?thesis
    using item_equality.iterate_contract [OF assms(1) refl refl assms(2)]
    by (simp add: xs members_def)
qed

section \<open>The theorems at concrete tables\<close>

lemma nat_items: "item_equality id ((=) :: nat \<Rightarrow> nat \<Rightarrow> bool)"
  by unfold_locales auto

text \<open>A table of 13 buckets where 2 and 15 collide.\<close>

lemma colliding_pair:
  obtains s :: "nat BRSet" where "set_inv s" and "item_equality (hash s) (eq s)" and "eq s = (=)"
    and "members s = {2, 15}" and "BRSetCount s = 2"
proof -
  let ?s0 = "BRSetNew id (=) 5 :: nat BRSet"
  have s0: "hash ?s0 = id" "eq ?s0 = (=)" "BRSetCount ?s0 < 2609407362"
    by (simp_all add: BRSetNew_def BRSetCount_def)
  have m0: "set_inv ?s0" "members ?s0 = {}" using new_inv [of 5 id "(=)"] by simp_all
  obtain r s1 where s1: "set_inv s1" "hash s1 = id" "eq s1 = (=)" "members s1 = {2}"
    using item_equality.add_contract [OF nat_items s0(1,2) m0(1) s0(3), of 2] m0(2) by auto
  have count: "BRSetCount s = card (members s)" if "set_inv s" "hash s = id" "eq s = (=)"
    for s :: "nat BRSet"
    using item_equality.count_members [OF nat_items, of s] that
    by (simp add: set_inv_def BRSetCount_def item_equality.uses_def [OF nat_items])
  have "BRSetCount s1 < 2609407362" using count [OF s1(1-3)] s1(4) by simp
  from item_equality.add_contract [OF nat_items s1(2,3,1) this, of 15] obtain s2 where
    s2: "set_inv s2" "hash s2 = id" "eq s2 = (=)" "members s2 = insert 15 {t \<in> {2}. t \<noteq> 15}"
    using s1(4) by auto
  then have m2: "members s2 = {2, 15}" by auto
  have "BRSetCount s2 = 2" using count [OF s2(1-3)] m2 by simp
  then show ?thesis using that [of s2] s2(1-3) m2 nat_items by simp
qed

lemma BRSetAdd_replaces_witness:
  "\<exists>r s'. BRSetAdd (BRSetNew id (=) 5) (4 :: nat) = Some (r, s') \<and> members s' = {4} \<and> r = None"
proof -
  let ?s = "BRSetNew id (=) 5 :: nat BRSet"
  have "item_equality (hash ?s) (eq ?s)" using nat_items by (simp add: BRSetNew_def)
  moreover have "BRSetCount ?s < 2609407362" by (simp add: BRSetNew_def BRSetCount_def)
  ultimately obtain r s' where "BRSetAdd ?s 4 = Some (r, s')"
    "members s' = insert 4 {t \<in> members ?s. \<not> eq ?s t 4}"
    "\<forall>t. r = Some t \<longleftrightarrow> t \<in> members ?s \<and> eq ?s t 4"
    using BRSetAdd_replaces [of ?s 4] new_inv(1) [of 5 id "(=)"] by auto
  then show ?thesis using new_inv(2) [of 5 id "(=)"] by (cases r) auto
qed

lemma BRSetRemove_removes_witness:
  "\<exists>s :: nat BRSet. members s = {2, 15} \<and>
     (\<exists>s'. BRSetRemove s 2 = Some (Some 2, s') \<and> members s' = {15})"
proof -
  obtain s :: "nat BRSet" where s: "set_inv s" "item_equality (hash s) (eq s)" "eq s = (=)"
    "members s = {2, 15}" by (rule colliding_pair)
  from BRSetRemove_removes [OF s(2,1), of 2] obtain r s' where r: "BRSetRemove s 2 = Some (r, s')"
    "members s' = {t \<in> {2, 15}. t \<noteq> 2}" "\<forall>t. r = Some t \<longleftrightarrow> t \<in> {2, 15} \<and> t = 2"
    unfolding s(3,4) by blast
  have "members s' = {15}" unfolding r(2) by auto
  moreover have "r = Some 2" using r(3) by simp
  ultimately show ?thesis using r(1) s(4) by blast
qed

lemma BRSetGet_finds_witness:
  "\<exists>s :: nat BRSet. members s = {2, 15} \<and> BRSetGet s 15 = Some (Some 15) \<and>
     BRSetContains s 28 = Some False"
proof -
  obtain s :: "nat BRSet" where s: "set_inv s" "item_equality (hash s) (eq s)" "eq s = (=)"
    "members s = {2, 15}" by (rule colliding_pair)
  obtain r where r: "BRSetGet s 15 = Some r" "\<forall>t. r = Some t \<longleftrightarrow> t \<in> {2, 15} \<and> t = 15"
    using BRSetGet_finds [OF s(2,1), of 15] unfolding s(3,4) by blast
  have "r = Some 15" using r(2) by simp
  moreover have "BRSetContains s 28 = Some False"
    using BRSetGet_finds [OF s(2,1), of 28] unfolding s(3,4) by auto
  ultimately show ?thesis using r(1) s(4) by blast
qed

lemma BRSet_algebra_witness:
  "\<exists>s :: nat BRSet. members s = {2, 15} \<and>
     (\<exists>s'. BRSetMinus s s = Some s' \<and> members s' = {}) \<and> BRSetIntersects s s = Some True"
proof -
  obtain s :: "nat BRSet" where s: "set_inv s" "item_equality (hash s) (eq s)" "eq s = (=)"
    "members s = {2, 15}" "BRSetCount s = 2" by (rule colliding_pair)
  have "BRSetCount s + BRSetCount s \<le> 2609407362" unfolding s(5) by simp
  note alg = BRSet_algebra [OF s(2,1,1) refl refl this]
  then obtain s' where "BRSetMinus s s = Some s'"
    "members s' = {t \<in> {2, 15}. \<forall>x \<in> {2, 15}. t \<noteq> x}"
    unfolding s(3,4) by blast
  moreover from this(2) have "members s' = {}" by auto
  moreover have "BRSetIntersects s s = Some True" using alg unfolding s(3,4) by auto
  ultimately show ?thesis using s(4) by blast
qed

lemma BRSetIterate_enumerates_witness:
  "\<exists>s :: nat BRSet. members s = {2, 15} \<and> set (BRSetAll s 2) = {2, 15} \<and>
     BRSetIterate s None = Some (Some (hd (BRSetAll s 2)))"
proof -
  obtain s :: "nat BRSet" where s: "set_inv s" "item_equality (hash s) (eq s)" "eq s = (=)"
    "members s = {2, 15}" "BRSetCount s = 2" by (rule colliding_pair)
  note all = BRSetIterate_enumerates [OF s(2,1) refl]
  have xs: "set (BRSetAll s 2) = {2, 15}" using all unfolding s(4,5) by blast
  then have "BRSetAll s 2 \<noteq> []" by auto
  then have "BRSetIterate s None = Some (Some (hd (BRSetAll s 2)))"
    using all unfolding s(4,5) by simp
  then show ?thesis using s(4) xs by blast
qed

end
