(* ===== verification/UtilMath.thy ===== *)
theory UtilMath
  imports Ints
begin

text \<open>
  \<^verbatim>\<open>ethereum/util/BRUtilMath.c\<close> and the inline comparisons of \<^verbatim>\<open>BRUtilMath.h\<close>: 256-bit
  arithmetic on the 32-bit limbs of the unions.  The \<open>for\<close> loops over \<open>u32[i]\<close> are
  recursions over the lists of limbs, least significant first; the accumulators are 64-bit
  words as in the code, and the lemmas show that none of them wraps.  An \<open>int *overflow\<close>
  or \<open>int *negative\<close> result is a \<open>bool\<close>.  The multiplication by a \<open>double\<close> is not modelled.
\<close>

unbundle bit_operations_syntax

section \<open>Limbs\<close>

definition u32s_of :: "'a::len word \<Rightarrow> u32 list" where
  "u32s_of u = map (u32_of u) [0..<LENGTH('a) div 32]"

fun word_of_u32s :: "u32 list \<Rightarrow> 'a::len word" where
  "word_of_u32s [] = 0"
| "word_of_u32s (d # ds) = ucast d OR push_bit 32 (word_of_u32s ds)"

text \<open>The number a list of limbs stands for.\<close>

fun limbs_val :: "u32 list \<Rightarrow> nat" where
  "limbs_val [] = 0"
| "limbs_val (d # ds) = unat d + 2 ^ 32 * limbs_val ds"

section \<open>The operations\<close>

definition createUInt256 :: "u64 \<Rightarrow> UInt256" where
  "createUInt256 value = ucast value"

fun power10_loop :: "nat \<Rightarrow> u64 \<Rightarrow> u64" where
  "power10_loop 0 value = value"
| "power10_loop (Suc digits) value = power10_loop digits (value * 10)"

definition createUInt256Power :: "byte \<Rightarrow> UInt256 \<times> bool" where
  "createUInt256Power digits =
     (if digits < 20 then (createUInt256 (power10_loop (unat digits) 1), False) else (0, True))"

text \<open>\<open>z.u64[power / 64] = 1 << (power % 64)\<close> on a zero \<open>z\<close>.\<close>

definition createUInt256Power2 :: "byte \<Rightarrow> UInt256" where
  "createUInt256Power2 p =
     (let wrd = p div 64; shift = p mod 64
      in push_bit (64 * unat wrd) (ucast (push_bit (unat shift) (1 :: u64))))"

fun add_loop :: "u32 list \<Rightarrow> u32 list \<Rightarrow> u64 \<Rightarrow> u32 list \<times> u64" where
  "add_loop (x # xs) (y # ys) carry =
     (let s = ucast x + ucast y + carry;
          (zs, carry') = add_loop xs ys (drop_bit 32 s)
      in (ucast s # zs, carry'))"
| "add_loop _ _ carry = ([], carry)"

definition addUInt256_Overflow :: "UInt256 \<Rightarrow> UInt256 \<Rightarrow> UInt256 \<times> bool" where
  "addUInt256_Overflow y x =
     (let (z, carry) = add_loop (u32s_of x) (u32s_of y) 0
      in (if carry \<noteq> 0 then 0 else word_of_u32s z, carry \<noteq> 0))"

definition addUInt256 :: "UInt256 \<Rightarrow> UInt256 \<Rightarrow> UInt512" where
  "addUInt256 x y =
     (let (z, carry) = add_loop (u32s_of x) (u32s_of y) 0 in word_of_u32s (z @ [ucast carry]))"

fun sub_loop :: "u32 list \<Rightarrow> u32 list \<Rightarrow> u64 \<Rightarrow> u32 list" where
  "sub_loop (x # xs) (y # ys) borrow =
     (if (ucast x :: u64) \<ge> ucast y + borrow
      then ucast ((ucast x :: u64) - (ucast y + borrow)) # sub_loop xs ys 0
      else ucast ((push_bit 32 1 + ucast x :: u64) - (ucast y + borrow)) # sub_loop xs ys 1)"
| "sub_loop _ _ _ = []"

definition subUInt256_x_gt_y :: "UInt256 \<Rightarrow> UInt256 \<Rightarrow> UInt256" where
  "subUInt256_x_gt_y x y = word_of_u32s (sub_loop (u32s_of x) (u32s_of y) 0)"

definition eqUInt256 :: "UInt256 \<Rightarrow> UInt256 \<Rightarrow> bool" where
  "eqUInt256 x y = UInt256Eq x y"

definition gtUInt256 :: "UInt256 \<Rightarrow> UInt256 \<Rightarrow> bool" where
  "gtUInt256 x y \<longleftrightarrow>
     u64_of x 3 > u64_of y 3 \<or> (u64_of x 3 = u64_of y 3 \<and>
       (u64_of x 2 > u64_of y 2 \<or> (u64_of x 2 = u64_of y 2 \<and>
         (u64_of x 1 > u64_of y 1 \<or> (u64_of x 1 = u64_of y 1 \<and> u64_of x 0 > u64_of y 0)))))"

definition geUInt256 :: "UInt256 \<Rightarrow> UInt256 \<Rightarrow> bool" where
  "geUInt256 x y \<longleftrightarrow> eqUInt256 x y \<or> gtUInt256 x y"

definition ltUInt256 :: "UInt256 \<Rightarrow> UInt256 \<Rightarrow> bool" where
  "ltUInt256 x y \<longleftrightarrow>
     u64_of x 3 < u64_of y 3 \<or> (u64_of x 3 = u64_of y 3 \<and>
       (u64_of x 2 < u64_of y 2 \<or> (u64_of x 2 = u64_of y 2 \<and>
         (u64_of x 1 < u64_of y 1 \<or> (u64_of x 1 = u64_of y 1 \<and> u64_of x 0 < u64_of y 0)))))"

definition leUInt256 :: "UInt256 \<Rightarrow> UInt256 \<Rightarrow> bool" where
  "leUInt256 x y \<longleftrightarrow> eqUInt256 x y \<or> ltUInt256 x y"

definition compareUInt256 :: "UInt256 \<Rightarrow> UInt256 \<Rightarrow> int" where
  "compareUInt256 x y = (if eqUInt256 x y then 0 else if gtUInt256 x y then 1 else -1)"

definition subUInt256_Negative :: "UInt256 \<Rightarrow> UInt256 \<Rightarrow> UInt256 \<times> bool" where
  "subUInt256_Negative x y =
     (if eqUInt256 x y then (0, False)
      else if gtUInt256 x y then (subUInt256_x_gt_y x y, False)
      else (subUInt256_x_gt_y y x, True))"

text \<open>
  One row of the long multiplication: \<open>zs\<close> is \<open>z.u32\<close> from index \<open>xi\<close> on.  After the loop
  over \<open>y\<close> the carry is added to \<open>z.u32[xi + count]\<close>.
\<close>

fun mul_row :: "u32 \<Rightarrow> u32 list \<Rightarrow> u32 list \<Rightarrow> u64 \<Rightarrow> u32 list" where
  "mul_row x (y # ys) (z # zs) carry =
     (let total = ucast z + carry + ucast y * ucast x
      in ucast total # mul_row x ys zs (drop_bit 32 total))"
| "mul_row x [] (z # zs) carry = (z + ucast carry) # zs"
| "mul_row x _ [] carry = []"

fun mul_loop :: "u32 list \<Rightarrow> u32 list \<Rightarrow> u32 list \<Rightarrow> u32 list" where
  "mul_loop [] ys zs = zs"
| "mul_loop (x # xs) ys zs =
     (let zs' = (if x = 0 then zs else mul_row x ys zs 0) in
      case zs' of [] \<Rightarrow> [] | z # rest \<Rightarrow> z # mul_loop xs ys rest)"

definition mulUInt256 :: "UInt256 \<Rightarrow> UInt256 \<Rightarrow> UInt512" where
  "mulUInt256 x y = word_of_u32s (mul_loop (u32s_of x) (u32s_of y) (replicate 16 0))"

definition tooBigUInt256 :: "UInt512 \<Rightarrow> bool" where
  "tooBigUInt256 x \<longleftrightarrow> 0 \<noteq> u64_of x 4 \<or> 0 \<noteq> u64_of x 5 \<or> 0 \<noteq> u64_of x 6 \<or> 0 \<noteq> u64_of x 7"

definition coerceUInt256 :: "UInt512 \<Rightarrow> UInt256 \<times> bool" where
  "coerceUInt256 x =
     (if tooBigUInt256 x then (0, True)
      else (ucast (u64_of x 0) OR push_bit 64 (ucast (u64_of x 1)) OR
            push_bit 128 (ucast (u64_of x 2)) OR push_bit 192 (ucast (u64_of x 3)), False))"

definition mulUInt256_Overflow :: "UInt256 \<Rightarrow> UInt256 \<Rightarrow> UInt256 \<times> bool" where
  "mulUInt256_Overflow x y = coerceUInt256 (mulUInt256 x y)"

definition mulUInt256_Small :: "UInt256 \<Rightarrow> u32 \<Rightarrow> UInt256 \<times> bool" where
  "mulUInt256_Small x y = mulUInt256_Overflow x (createUInt256 (ucast y))"

text \<open>The loop from limb 7 down to limb 0: the limbs come most significant first.\<close>

fun div_loop :: "u32 list \<Rightarrow> u32 \<Rightarrow> u64 \<Rightarrow> u32 list \<times> u64" where
  "div_loop [] y rem = ([], rem)"
| "div_loop (x # xs) y rem =
     (let val = ucast x + rem * push_bit 32 1;
          (zs, rem') = div_loop xs y (val mod ucast y)
      in (ucast (val div ucast y) # zs, rem'))"

text \<open>Division by zero is undefined.\<close>

definition divUInt256_Small :: "UInt256 \<Rightarrow> u32 \<Rightarrow> (UInt256 \<times> u32) option" where
  "divUInt256_Small x y =
     (if y = 0 then None
      else let (z, rem) = div_loop (rev (u32s_of x)) y 0
           in Some (word_of_u32s (rev z), ucast rem))"

definition coerceUInt64 :: "UInt256 \<Rightarrow> u64 \<times> bool" where
  "coerceUInt64 v =
     (let overflow = (0 \<noteq> u64_of v 3 \<or> 0 \<noteq> u64_of v 2 \<or> 0 \<noteq> u64_of v 1)
      in (if overflow then 0 else u64_of v 0, overflow))"

section \<open>Limbs and numbers\<close>

lemma limbs_val_append: "limbs_val (xs @ ys) = limbs_val xs + 2 ^ (32 * length xs) * limbs_val ys"
  by (induction xs) (simp_all add: power_add algebra_simps)

lemma limbs_val_bound: "limbs_val xs < 2 ^ (32 * length xs)"
proof (induction xs)
  case (Cons x xs)
  have "unat x < 2 ^ 32" using unat_bound [of x] by simp
  moreover have "limbs_val xs + 1 \<le> 2 ^ (32 * length xs)" using Cons.IH by simp
  then have "2 ^ 32 * (limbs_val xs + 1) \<le> 2 ^ 32 * 2 ^ (32 * length xs)" by (rule mult_le_mono2)
  ultimately show ?case by (simp add: power_add)
qed simp

lemma unat_u32_of: "unat (u32_of (u :: 'a::len word) i) = unat u div 2 ^ (32 * i) mod 2 ^ 32"
  by (simp add: u32_of_def unat_ucast_mod unat_drop_bit_div)

lemma limbs_val_u32s: "limbs_val (map (u32_of u) [0..<n]) = unat u mod 2 ^ (32 * n)"
  by (induction n)
    (simp_all add: limbs_val_append unat_u32_of power_add mod_mult2_eq mult.commute add.commute)

lemma length_u32s_of [simp]: "length (u32s_of (u :: UInt256)) = 8"
  by (simp add: u32s_of_def)

lemma limbs_val_u32s_of [simp]: "limbs_val (u32s_of (u :: UInt256)) = unat u"
  using unat_bound [of u] by (simp add: u32s_of_def limbs_val_u32s)

lemma unat_word_of_u32s:
  assumes "32 * length ds \<le> LENGTH('a)"
  shows "unat (word_of_u32s ds :: 'a::len word) = limbs_val ds"
  using assms
proof (induction ds)
  case (Cons d ds)
  have len: "32 * length ds + 32 \<le> LENGTH('a)" using Cons.prems by simp
  have IH: "unat (word_of_u32s ds :: 'a word) = limbs_val ds" using Cons by simp
  have "limbs_val ds * 2 ^ 32 < 2 ^ (32 * length ds) * 2 ^ 32"
    using limbs_val_bound [of ds] by simp
  also have "\<dots> = 2 ^ (32 * length ds + 32)" by (simp add: power_add)
  also have "\<dots> \<le> (2 :: nat) ^ LENGTH('a)" using len by (intro power_increasing) simp_all
  finally show ?case using len IH by (simp add: unat_or_push)
qed simp

section \<open>Addition and subtraction\<close>

lemma digit_step: "m + b * q = s \<Longrightarrow> m + b * (a + q) = s + b * a" for m b q s a :: nat
  by (simp add: distrib_left)

lemma add_loop_exact:
  assumes "length xs = length ys" and "unat carry \<le> 1" and "add_loop xs ys carry = (zs, carry')"
  shows "limbs_val zs + 2 ^ (32 * length xs) * unat carry' =
      limbs_val xs + limbs_val ys + unat carry \<and> unat carry' \<le> 1 \<and> length zs = length xs"
  using assms
proof (induction xs ys carry arbitrary: zs carry' rule: add_loop.induct)
  case (1 x xs y ys carry)
  define s where "s = (ucast x + ucast y + carry :: u64)"
  have x: "unat x < 2 ^ 32" "unat y < 2 ^ 32" using unat_bound [of x] unat_bound [of y] by simp_all
  then have s: "unat s = unat x + unat y + unat carry"
    using "1.prems"(2) by (simp add: s_def unat_add_mod unat_ucast_up)
  obtain zs2 c2 where rec: "add_loop xs ys (drop_bit 32 s) = (zs2, c2)" by fastforce
  have out: "zs = ucast s # zs2" "carry' = c2"
    using "1.prems"(3) rec by (simp_all add: Let_def flip: s_def)
  have "unat (drop_bit 32 s) \<le> 1"
    using s x "1.prems"(2) by (simp add: unat_drop_bit_div)
  from "1.IH" [OF s_def _ this rec] "1.prems"(1) have IH:
    "limbs_val zs2 + 2 ^ (32 * length xs) * unat c2 =
      limbs_val xs + limbs_val ys + unat s div 2 ^ 32" "unat c2 \<le> 1" "length zs2 = length xs"
    by (simp_all add: unat_drop_bit_div)
  have "limbs_val zs + 2 ^ (32 * length (x # xs)) * unat carry' =
      unat s mod 2 ^ 32 + 2 ^ 32 * (limbs_val zs2 + 2 ^ (32 * length xs) * unat c2)"
    by (simp add: out unat_ucast_mod power_add distrib_left mult.assoc)
  also have "\<dots> = unat s + 2 ^ 32 * (limbs_val xs + limbs_val ys)"
    unfolding IH(1) by (rule digit_step [OF mod_mult_div_eq])
  finally show ?case using IH(2,3) out s by simp
qed auto

lemma add_words:
  assumes "add_loop (u32s_of x) (u32s_of y) 0 = (z, carry)"
  shows "limbs_val z + 2 ^ 256 * unat carry = unat (x :: UInt256) + unat (y :: UInt256)"
    and "unat carry \<le> 1" and "length z = 8"
  using add_loop_exact [OF _ _ assms] by simp_all

lemma addUInt256_exact: "unat (addUInt256 x y) = unat x + unat y"
proof -
  obtain z carry where add: "add_loop (u32s_of x) (u32s_of y) 0 = (z, carry)" by fastforce
  have "unat (addUInt256 x y) = limbs_val (z @ [ucast carry])"
    using add_words(3) [OF add] by (simp add: addUInt256_def add unat_word_of_u32s)
  then show ?thesis
    using add_words [OF add] by (simp add: limbs_val_append unat_ucast_mod)
qed

lemma addUInt256_Overflow_exact:
  "addUInt256_Overflow y x = (if unat x + unat y < 2 ^ 256 then (x + y, False) else (0, True))"
proof -
  obtain z carry where add: "add_loop (u32s_of x) (u32s_of y) 0 = (z, carry)" by fastforce
  note a = add_words [OF add]
  have z: "unat (word_of_u32s z :: UInt256) = limbs_val z" using a(3) by (simp add: unat_word_of_u32s)
  have zb: "limbs_val z < 2 ^ 256" using limbs_val_bound [of z] a(3) by simp
  show ?thesis
  proof (cases "carry = 0")
    case True
    then have "unat (word_of_u32s z :: UInt256) = unat (x + y)"
      using a(1) z zb by (simp add: unat_add_mod)
    then have "(word_of_u32s z :: UInt256) = x + y" by (rule word_unat_eq_iff [THEN iffD2])
    then show ?thesis using True a(1) zb by (simp add: addUInt256_Overflow_def add)
  next
    case False
    then have "unat carry = 1" using a(2) by (simp add: unat_eq_zero le_Suc_eq)
    then show ?thesis using False a(1) by (simp add: addUInt256_Overflow_def add)
  qed
qed

lemma length_sub_loop: "length xs = length ys \<Longrightarrow> length (sub_loop xs ys borrow) = length xs"
  by (induction xs ys borrow rule: sub_loop.induct) auto

lemma sub_loop_exact:
  assumes "length xs = length ys" and "unat borrow \<le> 1"
  shows "\<exists>b. limbs_val (sub_loop xs ys borrow) + limbs_val ys + unat borrow =
      limbs_val xs + b * 2 ^ (32 * length xs)"
  using assms
proof (induction xs ys borrow rule: sub_loop.induct)
  case (1 x xs y ys borrow)
  have x: "unat x < 2 ^ 32" "unat y < 2 ^ 32" using unat_bound [of x] unat_bound [of y] by simp_all
  let ?xb = "ucast y + borrow :: u64" and ?x = "ucast x :: u64"
  have yb: "unat ?xb = unat y + unat borrow" "unat ?x = unat x"
    using x "1.prems"(2) by (simp_all add: unat_add_mod unat_ucast_up)
  show ?case
  proof (cases "?x \<ge> ?xb")
    case True
    obtain b where b: "limbs_val (sub_loop xs ys 0) + limbs_val ys =
        limbs_val xs + b * 2 ^ (32 * length xs)"
      using "1.IH"(1) [OF True] "1.prems"(1) by auto
    have "unat (ucast (?x - ?xb) :: u32) = unat x - (unat y + unat borrow)"
      using True x yb by (simp add: unat_ucast_mod unat_diff)
    moreover have "unat y + unat borrow \<le> unat x" using True yb by (simp add: word_le_nat_alt)
    ultimately have "limbs_val (sub_loop (x # xs) (y # ys) borrow) + limbs_val (y # ys) + unat borrow
        = unat x + 2 ^ 32 * (limbs_val (sub_loop xs ys 0) + limbs_val ys)"
      using True by (simp add: algebra_simps)
    then show ?thesis unfolding b by (auto simp: algebra_simps power_add intro!: exI [of _ b])
  next
    case False
    obtain b where b: "limbs_val (sub_loop xs ys 1) + limbs_val ys + 1 =
        limbs_val xs + b * 2 ^ (32 * length xs)"
      using "1.IH"(2) [OF False] "1.prems"(1) by auto
    have lt: "unat x < unat y + unat borrow" using False yb by (simp add: word_le_nat_alt)
    have "unat (push_bit 32 1 + ?x) = 2 ^ 32 + unat x"
      using x by (simp add: unat_add_mod unat_push_bit_mod unat_ucast_up)
    then have "unat (push_bit 32 1 + ?x - ?xb) = 2 ^ 32 + unat x - (unat y + unat borrow)"
      using yb x "1.prems"(2) by (subst unat_diff) (simp_all add: word_le_nat_alt)
    then have "unat (ucast (push_bit 32 1 + ?x - ?xb) :: u32) =
        2 ^ 32 + unat x - (unat y + unat borrow)"
      using lt x by (simp add: unat_ucast_mod)
    then have "limbs_val (sub_loop (x # xs) (y # ys) borrow) + limbs_val (y # ys) + unat borrow
        = unat x + 2 ^ 32 * (limbs_val (sub_loop xs ys 1) + limbs_val ys + 1)"
      using False x "1.prems"(2) by (simp add: algebra_simps)
    then show ?thesis unfolding b by (auto simp: algebra_simps power_add intro!: exI [of _ b])
  qed
qed auto

lemma subUInt256_x_gt_y_exact:
  assumes "y \<le> x"
  shows "subUInt256_x_gt_y x y = x - y"
proof -
  let ?z = "sub_loop (u32s_of x) (u32s_of y) 0"
  obtain b where b: "limbs_val ?z + unat y = unat x + b * 2 ^ 256" and len: "length ?z = 8"
    using sub_loop_exact [of "u32s_of x" "u32s_of y" 0] length_sub_loop [of "u32s_of x" "u32s_of y" 0]
    by auto
  have "limbs_val ?z < 2 ^ 256" using limbs_val_bound [of ?z] len by simp
  moreover have "unat y \<le> unat x" using assms by (simp add: word_le_nat_alt)
  ultimately have "b * 2 ^ 256 < 2 ^ 256" using b by linarith
  then have "limbs_val ?z = unat (x - y)" using b by (simp add: unat_diff [OF assms])
  then have "unat (word_of_u32s ?z :: UInt256) = unat (x - y)"
    using len by (simp add: unat_word_of_u32s)
  then show ?thesis unfolding subUInt256_x_gt_y_def by (rule word_unat_eq_iff [THEN iffD2])
qed

section \<open>Comparison\<close>

lemma digits4:
  fixes n b :: nat
  shows "n = n mod b + b * (n div b mod b) + b * b * (n div (b * b) mod b) +
    b * b * b * (n div (b * b * b))"
proof -
  have "n = n mod b + b * (n div b)" by simp
  also have "n div b = n div b mod b + b * (n div b div b)" by simp
  also have "n div b div b = n div b div b mod b + b * (n div b div b div b)" by simp
  finally have "n = n mod b + b * (n div b mod b + b * (n div b div b mod b +
      b * (n div b div b div b)))"
    by simp
  then show ?thesis by (simp only: div_mult2_eq distrib_left mult.assoc add.assoc)
qed

lemma unat_u64s: "unat (x :: UInt256) = unat (u64_of x 0) + 2 ^ 64 * unat (u64_of x 1) +
    2 ^ 128 * unat (u64_of x 2) + 2 ^ 192 * unat (u64_of x 3)"
proof -
  have "unat x div (2 ^ 64 * 2 ^ 64 * 2 ^ 64) < 2 ^ 64"
    using unat_bound [of x] by (simp add: less_mult_imp_div_less)
  then show ?thesis
    using digits4 [of "unat x" "2 ^ 64"]
    by (simp add: u64_of_def unat_ucast_mod unat_drop_bit_div)
qed

lemma lex4:
  fixes b :: nat
  assumes "a0 < b" "a1 < b" "a2 < b" "a3 < b" "c0 < b" "c1 < b" "c2 < b" "c3 < b"
  shows "a0 + b * a1 + b * b * a2 + b * b * b * a3 < c0 + b * c1 + b * b * c2 + b * b * b * c3 \<longleftrightarrow>
    a3 < c3 \<or> (a3 = c3 \<and> (a2 < c2 \<or> (a2 = c2 \<and> (a1 < c1 \<or> (a1 = c1 \<and> a0 < c0)))))"
proof -
  have lex: "x + b * y < x' + b * y' \<longleftrightarrow> y < y' \<or> (y = y' \<and> x < x')" if "x < b" "x' < b" for x x' y y'
  proof -
    have "y + 1 \<le> y' \<Longrightarrow> b * y + b \<le> b * y'" by (metis distrib_left mult.right_neutral mult_le_mono2)
    moreover have "y' + 1 \<le> y \<Longrightarrow> b * y' + b \<le> b * y"
      by (metis distrib_left mult.right_neutral mult_le_mono2)
    ultimately show ?thesis
      using that by (cases y y' rule: linorder_cases) auto
  qed
  have eq: "x + b * y = x' + b * y' \<longleftrightarrow> y = y' \<and> x = x'" if "x < b" "x' < b" for x x' y y'
    using lex [OF that, of y y'] lex [OF that(2,1), of y' y] by (metis nat_neq_iff)
  have assoc: "x0 + b * x1 + b * b * x2 + b * b * b * x3 = x0 + b * (x1 + b * (x2 + b * x3))"
    for x0 x1 x2 x3 by (simp add: algebra_simps)
  show ?thesis using assms by (auto simp: assoc lex eq)
qed

lemma gtUInt256_iff: "gtUInt256 x y \<longleftrightarrow> x > y"
proof -
  have b: "unat (u64_of u i) < 2 ^ 64" for u :: UInt256 and i
    using unat_bound [of "u64_of u i"] by simp
  show ?thesis
    unfolding gtUInt256_def word_less_nat_alt unat_u64s [of x] unat_u64s [of y]
    using lex4 [OF b b b b b b b b, of y 0 y 1 y 2 y 3 x 0 x 1 x 2 x 3]
    by (simp add: word_unat_eq_iff eq_commute)
qed

lemma ltUInt256_gt: "ltUInt256 x y \<longleftrightarrow> gtUInt256 y x"
  by (auto simp: ltUInt256_def gtUInt256_def)

lemma comparisons [simp]:
  "eqUInt256 x y \<longleftrightarrow> x = y" "gtUInt256 x y \<longleftrightarrow> x > y" "ltUInt256 x y \<longleftrightarrow> x < y"
  "geUInt256 x y \<longleftrightarrow> x \<ge> y" "leUInt256 x y \<longleftrightarrow> x \<le> y"
  by (auto simp: eqUInt256_def ltUInt256_gt gtUInt256_iff geUInt256_def leUInt256_def)

lemma compareUInt256_sgn: "compareUInt256 x y = sgn (uint x - uint y)"
  by (auto simp: compareUInt256_def word_less_def sgn_if word_uint_eq_iff)

lemma subUInt256_Negative_exact:
  "subUInt256_Negative x y = (if x < y then (y - x, True) else (x - y, False))"
  by (auto simp: subUInt256_Negative_def subUInt256_x_gt_y_exact)

section \<open>Multiplication and division\<close>

lemma mul_step:
  assumes "unat carry < 2 ^ 32"
  shows "unat (ucast (z :: u32) + carry + ucast (y :: u32) * ucast (x :: u32) :: u64) =
      unat z + unat carry + unat y * unat x"
    and "unat (drop_bit 32 (ucast z + carry + ucast y * ucast x :: u64)) < 2 ^ 32"
proof -
  let ?t = "unat z + unat carry + unat y * unat x"
  have b: "unat z < 2 ^ 32" "unat y < 2 ^ 32" "unat x < 2 ^ 32"
    using unat_bound [of z] unat_bound [of y] unat_bound [of x] by simp_all
  have "unat y * unat x \<le> (2 ^ 32 - 1) * (2 ^ 32 - 1)" using b by (intro mult_le_mono) simp_all
  then have t: "?t < 2 ^ 64" "unat y * unat x < 2 ^ 64" using b assms by simp_all
  then show eq: "unat (ucast z + carry + ucast y * ucast x :: u64) = ?t"
    by (simp add: unat_add_mod unat_mult_mod unat_ucast_up)
  show "unat (drop_bit 32 (ucast z + carry + ucast y * ucast x :: u64)) < 2 ^ 32"
    unfolding unat_drop_bit_div eq using t(1) by (simp add: less_mult_imp_div_less)
qed

lemma mul_row_exact:
  assumes "length ys < length zs" and "zs ! length ys = 0" and "unat carry < 2 ^ 32"
  shows "limbs_val (mul_row x ys zs carry) = limbs_val zs + unat x * limbs_val ys + unat carry \<and>
    length (mul_row x ys zs carry) = length zs \<and>
    (\<forall>i. length ys < i \<longrightarrow> mul_row x ys zs carry ! i = zs ! i)"
  using assms
proof (induction x ys zs carry rule: mul_row.induct)
  case (1 x y ys z zs carry)
  define t where "t = (ucast z + carry + ucast y * ucast x :: u64)"
  have t: "unat t = unat z + unat carry + unat y * unat x" "unat (drop_bit 32 t) < 2 ^ 32"
    using mul_step [OF "1.prems"(3)] by (simp_all add: t_def)
  from "1.IH" [OF t_def _ _ t(2)] "1.prems"(1,2) have IH:
    "limbs_val (mul_row x ys zs (drop_bit 32 t)) =
      limbs_val zs + unat x * limbs_val ys + unat t div 2 ^ 32"
    "length (mul_row x ys zs (drop_bit 32 t)) = length zs"
    "\<And>i. length ys < i \<Longrightarrow> mul_row x ys zs (drop_bit 32 t) ! i = zs ! i"
    by (simp_all add: unat_drop_bit_div)
  have row: "mul_row x (y # ys) (z # zs) carry = ucast t # mul_row x ys zs (drop_bit 32 t)"
    by (simp add: Let_def flip: t_def)
  have "limbs_val (mul_row x (y # ys) (z # zs) carry) =
      unat t mod 2 ^ 32 + 2 ^ 32 * ((limbs_val zs + unat x * limbs_val ys) + unat t div 2 ^ 32)"
    by (simp add: row IH(1) unat_ucast_mod del: mul_row.simps)
  also have "\<dots> = unat t + 2 ^ 32 * (limbs_val zs + unat x * limbs_val ys)"
    by (rule digit_step [OF mod_mult_div_eq])
  finally have "limbs_val (mul_row x (y # ys) (z # zs) carry) =
      limbs_val (z # zs) + unat x * limbs_val (y # ys) + unat carry"
    by (simp add: t(1) distrib_left mult.assoc mult.left_commute mult.commute
        del: mul_row.simps)
  moreover have "mul_row x (y # ys) (z # zs) carry ! i = (z # zs) ! i"
    if "length (y # ys) < i" for i
    using that IH(3) [of "i - 1"] by (simp add: row nth_Cons' del: mul_row.simps)
  ultimately show ?case using IH(2) by (simp add: row del: mul_row.simps)
next
  case (2 x z zs carry)
  then show ?case by (auto simp: unat_add_mod unat_ucast_mod nth_Cons')
qed simp_all

lemma mul_loop_exact:
  assumes "length xs + length ys \<le> length zs" and "\<forall>i < length zs. length ys \<le> i \<longrightarrow> zs ! i = 0"
    and "xs \<noteq> [] \<Longrightarrow> length ys < length zs"
  shows "limbs_val (mul_loop xs ys zs) = limbs_val zs + limbs_val xs * limbs_val ys \<and>
    length (mul_loop xs ys zs) = length zs"
  using assms
proof (induction xs ys zs rule: mul_loop.induct)
  case (2 x xs ys zs)
  define zs' where "zs' = (if x = 0 then zs else mul_row x ys zs 0)"
  have len: "length ys < length zs" using "2.prems"(3) by simp
  have zs': "limbs_val zs' = limbs_val zs + unat x * limbs_val ys" "length zs' = length zs"
    "\<And>i. length ys < i \<Longrightarrow> zs' ! i = zs ! i"
    using mul_row_exact [OF len, of 0 x] "2.prems"(2) len by (auto simp: zs'_def)
  then obtain z rest where z: "zs' = z # rest" using len by (cases zs') auto
  have "\<forall>i < length rest. length ys \<le> i \<longrightarrow> rest ! i = 0"
  proof (intro allI impI)
    fix i assume "i < length rest" "length ys \<le> i"
    then have "rest ! i = zs ! Suc i" "zs ! Suc i = 0"
      using zs'(2) zs'(3) [of "Suc i"] "2.prems"(2) z by auto
    then show "rest ! i = 0" by simp
  qed
  moreover have "length xs + length ys \<le> length rest" using "2.prems"(1) zs'(2) z by simp
  ultimately have IH: "limbs_val (mul_loop xs ys rest) = limbs_val rest + limbs_val xs * limbs_val ys"
    "length (mul_loop xs ys rest) = length rest"
    using "2.IH" [OF zs'_def z] by (cases xs; auto)+
  have "mul_loop (x # xs) ys zs = z # mul_loop xs ys rest"
    using z by (simp add: Let_def flip: zs'_def)
  then show ?case using IH zs' z by (simp add: distrib_left distrib_right mult.assoc)
qed simp

lemma mulUInt256_exact: "unat (mulUInt256 x y) = unat x * unat y"
proof -
  have "limbs_val (replicate n 0) = 0" for n by (induction n) simp_all
  then show ?thesis
    using mul_loop_exact [of "u32s_of x" "u32s_of y" "replicate 16 0"]
    by (simp add: mulUInt256_def unat_word_of_u32s)
qed

lemma u64_of_zero_iff: "u64_of (u :: 'a::len word) i = 0 \<longleftrightarrow> unat u div 2 ^ (64 * i) mod 2 ^ 64 = 0"
  by (simp add: word_unat_eq_iff u64_of_def unat_ucast_mod unat_drop_bit_div)

lemma high_words_zero:
  fixes n b k :: nat
  assumes "n < b * b * b * b * k" and "0 < b"
  shows "n div k mod b = 0 \<and> n div (b * k) mod b = 0 \<and> n div (b * b * k) mod b = 0 \<and>
    n div (b * b * b * k) mod b = 0 \<longleftrightarrow> n < k"
proof
  assume z: "n div k mod b = 0 \<and> n div (b * k) mod b = 0 \<and> n div (b * b * k) mod b = 0 \<and>
    n div (b * b * b * k) mod b = 0"
  have k: "0 < k" using assms(1) by (cases k) auto
  have "n div (b * b * b * k) < b"
    using assms(1) by (simp add: less_mult_imp_div_less mult.assoc)
  then have e3: "n div (b * b * b * k) = 0" using z by simp
  moreover have "n div (b * b * b * k) = n div (b * b * k) div b"
    by (simp add: mult.commute mult.left_commute flip: div_mult2_eq)
  ultimately have "n div (b * b * k) < b" using assms(2) by (simp add: div_eq_0_iff)
  then have "n div (b * b * k) = 0" using z by simp
  moreover have "n div (b * b * k) = n div (b * k) div b"
    by (simp add: mult.commute mult.left_commute flip: div_mult2_eq)
  ultimately have "n div (b * k) < b" using assms(2) by (simp add: div_eq_0_iff)
  then have "n div (b * k) = 0" using z by simp
  moreover have "n div (b * k) = n div k div b"
    by (simp add: mult.commute flip: div_mult2_eq)
  ultimately have "n div k < b" using assms(2) by (simp add: div_eq_0_iff)
  then have "n div k = 0" using z by simp
  then show "n < k" using k by (simp add: div_eq_0_iff)
next
  assume n: "n < k"
  then have "n < b * k" "n < b * b * k" "n < b * b * b * k"
    using assms(2) by (metis mult_le_mono1 Suc_leI mult_1 less_le_trans One_nat_def mult_pos_pos)+
  then show "n div k mod b = 0 \<and> n div (b * k) mod b = 0 \<and> n div (b * b * k) mod b = 0 \<and>
    n div (b * b * b * k) mod b = 0" using n by simp
qed

lemma tooBigUInt256_iff: "tooBigUInt256 x \<longleftrightarrow> 2 ^ 256 \<le> unat x"
proof -
  have "unat x < 2 ^ 64 * 2 ^ 64 * 2 ^ 64 * 2 ^ 64 * 2 ^ 256" using unat_bound [of x] by simp
  from high_words_zero [OF this] show ?thesis
    by (auto simp: tooBigUInt256_def u64_of_zero_iff eq_commute [of 0])
qed

lemma coerceUInt256_exact:
  "coerceUInt256 x = (if unat x < 2 ^ 256 then (ucast x, False) else (0, True))"
proof (cases "tooBigUInt256 x")
  case False
  let ?r = "ucast (u64_of x 0) OR push_bit 64 (ucast (u64_of x 1)) OR
    push_bit 128 (ucast (u64_of x 2)) OR push_bit 192 (ucast (u64_of x 3)) :: UInt256"
  have "?r = ucast x"
  proof (rule bit_word_eqI)
    fix k assume "k < LENGTH(256)"
    then consider "k < 64" | "64 \<le> k" "k < 128" | "128 \<le> k" "k < 192" | "192 \<le> k" "k < 256"
      by fastforce
    then show "bit ?r k = bit (ucast x :: UInt256) k"
      by cases (auto simp: bit_or_iff bit_ucast_iff bit_push_bit_iff bit_u64_of)
  qed
  then show ?thesis using False by (simp add: coerceUInt256_def tooBigUInt256_iff)
qed (auto simp: coerceUInt256_def tooBigUInt256_iff)

lemma mulUInt256_Overflow_exact:
  "mulUInt256_Overflow x y =
     (if unat x * unat y < 2 ^ 256 then (x * y, False) else (0, True))"
proof -
  have "ucast (mulUInt256 x y) = x * y" if "unat x * unat y < 2 ^ 256"
    using that by (intro word_unat_eq_iff [THEN iffD2])
      (simp add: unat_ucast_mod mulUInt256_exact unat_mult_mod)
  then show ?thesis by (simp add: mulUInt256_Overflow_def coerceUInt256_exact mulUInt256_exact)
qed

lemma quotient_digit:
  "\<lbrakk>a = b + p * q; b * y + r = x + m * p\<rbrakk> \<Longrightarrow> a * y + r = x + p * (q * y + m)"
  for a b p q y r x m :: nat
  by (simp add: algebra_simps)

lemma div_loop_exact:
  assumes "0 < unat y" and "unat rem < unat y" and "div_loop xs y rem = (zs, rem')"
  shows "limbs_val (rev zs) * unat y + unat rem' =
      limbs_val (rev xs) + unat rem * 2 ^ (32 * length xs) \<and>
    unat rem' < unat y \<and> length zs = length xs"
  using assms
proof (induction xs y rem arbitrary: zs rem' rule: div_loop.induct)
  case (2 x xs y rem)
  define v where "v = (ucast x + rem * push_bit 32 1 :: u64)"
  have b: "unat x < 2 ^ 32" "unat y < 2 ^ 32" using unat_bound [of x] unat_bound [of y] by simp_all
  then have r: "unat rem + 1 \<le> 2 ^ 32 - 1" "unat rem + 1 \<le> unat y" using "2.prems"(2) by simp_all
  then have v: "unat v = unat x + unat rem * 2 ^ 32"
    using b by (simp add: v_def unat_add_mod unat_mult_mod unat_push_bit_mod unat_ucast_up)
  have y: "unat (ucast y :: u64) = unat y" by (simp add: unat_ucast_up)
  have m: "unat (v mod ucast y) = unat v mod unat y" and d: "unat (v div ucast y) = unat v div unat y"
    by (simp_all add: unat_mod unat_div y)
  have "unat v < (unat rem + 1) * 2 ^ 32" using v b(1) by simp
  also have "\<dots> \<le> unat y * 2 ^ 32" using r(2) by (rule mult_le_mono1)
  finally have "unat v < unat y * 2 ^ 32" .
  then have q: "unat v div unat y < 2 ^ 32" by (simp add: less_mult_imp_div_less mult.commute)
  obtain zs2 where rec: "div_loop xs y (v mod ucast y) = (zs2, rem')"
    and zs: "zs = ucast (v div ucast y) # zs2"
    using "2.prems"(3) unfolding div_loop.simps(2) Let_def v_def [symmetric]
    by (auto split: prod.splits)
  have "unat (v mod ucast y) < unat y" using m "2.prems"(1) by simp
  from "2.IH" [OF v_def "2.prems"(1) this rec] m have IH:
    "limbs_val (rev zs2) * unat y + unat rem' =
      limbs_val (rev xs) + unat v mod unat y * 2 ^ (32 * length xs)"
    "unat rem' < unat y" "length zs2 = length xs" by simp_all
  have "limbs_val (rev zs) = limbs_val (rev zs2) + 2 ^ (32 * length xs) * (unat v div unat y)"
    using q IH(3) by (simp add: zs limbs_val_append unat_ucast_mod d)
  then have "limbs_val (rev zs) * unat y + unat rem' = limbs_val (rev xs) +
      2 ^ (32 * length xs) * (unat v div unat y * unat y + unat v mod unat y)"
    using IH(1) by (rule quotient_digit)
  also have "\<dots> = limbs_val (rev (x # xs)) + unat rem * 2 ^ (32 * length (x # xs))"
    by (simp add: v limbs_val_append distrib_left power_add mult.commute mult.left_commute)
  finally show ?case using IH(2,3) zs by simp
qed simp

lemma word_of_nat_unat: "word_of_nat (unat w) = w"
  by simp

lemma divUInt256_Small_exact:
  assumes "y \<noteq> 0"
  shows "divUInt256_Small x y = Some (word_of_nat (unat x div unat y), word_of_nat (unat x mod unat y))"
proof -
  have y: "0 < unat y" using assms by (simp add: unat_gt_0)
  obtain zs r where loop: "div_loop (rev (u32s_of x)) y 0 = (zs, r)" by fastforce
  have d: "limbs_val (rev zs) * unat y + unat r = unat x" "unat r < unat y" "length zs = 8"
    using div_loop_exact [OF y _ loop] y by simp_all
  have q: "limbs_val (rev zs) = unat x div unat y" "unat r = unat x mod unat y"
    using d(1,2) y by (metis add.commute div_mult_self1 div_less add_0 less_irrefl, metis mod_less mod_mult_self3)
  have "unat (word_of_u32s (rev zs) :: UInt256) = unat x div unat y"
    using d(3) q(1) by (simp add: unat_word_of_u32s)
  then have "(word_of_u32s (rev zs) :: UInt256) = word_of_nat (unat x div unat y)"
    by (metis word_of_nat_unat)
  moreover have "unat (ucast r :: u32) = unat x mod unat y"
    using d(2) unat_bound [of y] q(2) by (simp add: unat_ucast_mod)
  then have "(ucast r :: u32) = word_of_nat (unat x mod unat y)"
    by (metis word_of_nat_unat)
  ultimately show ?thesis using assms by (simp add: divUInt256_Small_def loop)
qed

lemma coerceUInt64_exact:
  "coerceUInt64 v = (if unat v < 2 ^ 64 then (ucast v, False) else (0, True))"
proof -
  have "unat v < 2 ^ 64 * 2 ^ 64 * 2 ^ 64 * 2 ^ 64 * 2 ^ 64" using unat_bound [of v] by simp
  from high_words_zero [OF this] unat_bound [of v]
  have "0 \<noteq> u64_of v 3 \<or> 0 \<noteq> u64_of v 2 \<or> 0 \<noteq> u64_of v 1 \<longleftrightarrow> \<not> unat v < 2 ^ 64"
    by (auto simp: u64_of_zero_iff eq_commute [of 0])
  then show ?thesis by (auto simp: coerceUInt64_def u64_of_def Let_def)
qed

lemma createUInt256_exact: "unat (createUInt256 v) = unat v"
  by (simp add: createUInt256_def unat_ucast_up)

lemma mulUInt256_Small_exact:
  "mulUInt256_Small x y = (if unat x * unat y < 2 ^ 256 then (x * ucast y, False) else (0, True))"
proof -
  have "createUInt256 (ucast y) = ucast y"
    by (intro word_unat_eq_iff [THEN iffD2]) (simp add: createUInt256_exact unat_ucast_up)
  then show ?thesis by (simp add: mulUInt256_Small_def mulUInt256_Overflow_exact unat_ucast_up)
qed

lemma power10_loop_exact: "power10_loop n v = v * 10 ^ n"
  by (induction n arbitrary: v) (simp_all add: mult.assoc)

lemma createUInt256Power_exact:
  "createUInt256Power d = (if unat d < 20 then (10 ^ unat d, False) else (0, True))"
proof (cases "unat d < 20")
  case True
  have "(10 :: nat) ^ unat d \<le> 10 ^ 19" using True by (intro power_increasing) simp_all
  then have "(10 :: nat) ^ unat d < 2 ^ 64" by simp
  then have "unat (word_of_nat (10 ^ unat d) :: u64) = 10 ^ unat d"
    by (simp add: unsigned_of_nat take_bit_eq_mod del: of_nat_power)
  then have "unat (10 ^ unat d :: u64) = 10 ^ unat d" by simp
  then have "createUInt256 (10 ^ unat d) = word_of_nat (10 ^ unat d)"
    by (metis createUInt256_exact word_of_nat_unat)
  then show ?thesis using True
    by (simp add: createUInt256Power_def power10_loop_exact word_less_nat_alt)
qed (simp add: createUInt256Power_def word_less_nat_alt)

lemma createUInt256Power2_exact: "createUInt256Power2 p = push_bit (unat p) 1"
proof (rule bit_word_eqI)
  fix k assume k: "k < LENGTH(256)"
  have m: "unat (p mod 64) = unat p mod 64" "unat (p div 64) = unat p div 64"
    by (simp_all add: unat_mod unat_div)
  show "bit (createUInt256Power2 p) k = bit (push_bit (unat p) 1 :: UInt256) k"
    using k unfolding createUInt256Power2_def Let_def
    by (auto simp: bit_push_bit_iff bit_ucast_iff bit_exp_iff m minus_mult_div_eq_mod
        dest: bit_imp_le_length) (use mult_div_mod_eq [of 64 "unat p"] in linarith)
qed

section \<open>The arithmetic is exact\<close>

text \<open>
  Addition into 512 bits is exact; the overflow-checked addition returns the sum
  when it fits 256 bits and otherwise zero with the flag set; subtraction returns the
  absolute difference and its sign; the comparison is that of the numbers.
\<close>

theorem UInt256_addition_correct:
  "unat (addUInt256 x y) = unat x + unat y \<and>
   addUInt256_Overflow x y = (if unat x + unat y < 2 ^ 256 then (x + y, False) else (0, True)) \<and>
   subUInt256_Negative x y = (if x < y then (y - x, True) else (x - y, False)) \<and>
   compareUInt256 x y = sgn (uint x - uint y)"
  by (simp add: addUInt256_exact addUInt256_Overflow_exact subUInt256_Negative_exact
      compareUInt256_sgn add.commute)

text \<open>
  The grade-school multiplication on 32-bit limbs computes the exact 512-bit
  product, so the checked variants report overflow exactly when the product needs more
  than 256 bits; no 64-bit accumulator wraps on the way.
\<close>

theorem UInt256_multiplication_correct:
  "unat (mulUInt256 x y) = unat x * unat y \<and>
   mulUInt256_Overflow x y = (if unat x * unat y < 2 ^ 256 then (x * y, False) else (0, True)) \<and>
   mulUInt256_Small x z = (if unat x * unat z < 2 ^ 256 then (x * ucast z, False) else (0, True))"
  by (simp add: mulUInt256_exact mulUInt256_Overflow_exact mulUInt256_Small_exact)

text \<open>
  The limb-wise long division returns quotient and remainder, and is undefined
  exactly for a zero divisor; narrowing reports overflow exactly when the value does not fit.
\<close>

lemma UInt256_division_correct:
  "divUInt256_Small x y =
     (if y = 0 then None
      else Some (word_of_nat (unat x div unat y), word_of_nat (unat x mod unat y))) \<and>
   coerceUInt256 w = (if unat w < 2 ^ 256 then (ucast w, False) else (0, True)) \<and>
   coerceUInt64 x = (if unat x < 2 ^ 64 then (ucast x, False) else (0, True))"
  by (cases "y = 0")
    (simp_all add: divUInt256_Small_exact coerceUInt256_exact coerceUInt64_exact,
      simp_all add: divUInt256_Small_def)

end
