(* ===== verification/UtilHex.thy ===== *)
theory UtilHex
  imports Ints
begin

text \<open>
  \<^verbatim>\<open>ethereum/util/BRUtilHex.c\<close>: bytes to hexadecimal digits and back.  A target buffer is
  returned as the list of the bytes written; a failed \<open>assert\<close> and a read past the end of
  the source are \<open>None\<close>.
\<close>

unbundle bit_operations_syntax

section \<open>The operations\<close>

fun decode_loop :: "cstring \<Rightarrow> byte list" where
  "decode_loop (a # b # s) = (push_bit 4 (hexu a) OR hexu b) # decode_loop s"
| "decode_loop _ = []"

definition decodeHex :: "nat \<Rightarrow> cstring \<Rightarrow> nat \<Rightarrow> byte list option" where
  "decodeHex targetLen source sourceLen =
     (if sourceLen mod 2 = 0 \<and> 2 * targetLen = sourceLen \<and> sourceLen \<le> length source
      then Some (decode_loop (take sourceLen source)) else None)"

definition decodeHexLength :: "nat \<Rightarrow> nat option" where
  "decodeHexLength stringLen = (if stringLen mod 2 = 0 then Some (stringLen div 2) else None)"

definition decodeHexCreate :: "cstring \<Rightarrow> nat \<Rightarrow> (byte list \<times> nat) option" where
  "decodeHexCreate source sourceLen =
     (case decodeHexLength sourceLen of
        None \<Rightarrow> None
      | Some len \<Rightarrow> map_option (\<lambda>target. (target, len)) (decodeHex len source sourceLen))"

fun encode_loop :: "byte list \<Rightarrow> cstring" where
  "encode_loop [] = []"
| "encode_loop (b # bs) = hexc (drop_bit 4 b) # hexc b # encode_loop bs"

text \<open>The target without its terminating NUL.\<close>

definition encodeHex :: "nat \<Rightarrow> byte list \<Rightarrow> nat \<Rightarrow> cstring option" where
  "encodeHex targetLen source sourceLen =
     (if targetLen = 2 * sourceLen + 1 \<and> sourceLen \<le> length source
      then Some (encode_loop (take sourceLen source)) else None)"

definition encodeHexLength :: "nat \<Rightarrow> nat" where
  "encodeHexLength byteArrayLen = 2 * byteArrayLen + 1"

definition encodeHexCreate :: "byte list \<Rightarrow> nat \<Rightarrow> (cstring \<times> nat) option" where
  "encodeHexCreate source sourceLen =
     (let len = encodeHexLength sourceLen
      in map_option (\<lambda>target. (target, len)) (encodeHex len source sourceLen))"

definition isxdigit :: "byte \<Rightarrow> bool" where
  "isxdigit c \<longleftrightarrow> (0x30 \<le> c \<and> c \<le> 0x39) \<or> (0x41 \<le> c \<and> c \<le> 0x46) \<or> (0x61 \<le> c \<and> c \<le> 0x66)"

definition encodeHexValidate :: "cstring option \<Rightarrow> bool" where
  "encodeHexValidate number =
     (case number of None \<Rightarrow> False
      | Some s \<Rightarrow> s \<noteq> [] \<and> length s mod 2 = 0 \<and> list_all isxdigit s)"

section \<open>Digits\<close>

lemma nibble_cases:
  assumes "list_all P (map word_of_nat [0..<16])"
  shows "P (b AND 0x0f :: byte)"
proof -
  have "unat (b AND 0x0f) < 16"
    by (rule le_less_trans [OF word_and_le1 [unfolded word_le_nat_alt]]) simp
  then have "unat (b AND 0x0f) \<in> set [0..<16]" by simp
  moreover have "b AND 0x0f = word_of_nat (unat (b AND 0x0f))" by simp
  ultimately have "b AND 0x0f \<in> set (map word_of_nat [0..<16])" by (metis image_eqI set_map)
  then show ?thesis using assms unfolding list_all_iff by blast
qed

lemma hexu_nibble: "hexu (hexc (b AND 0x0f)) = b AND 0x0f"
  by (rule nibble_cases [where P = "\<lambda>n. hexu (hexc n) = n"]) code_simp

lemma isxdigit_nibble: "isxdigit (hexc (b AND 0x0f))"
  by (rule nibble_cases [where P = "\<lambda>n. isxdigit (hexc n)"]) code_simp

lemma hexc_low: "hexc b = hexc (b AND 0x0f)"
  by (simp add: hexc_def and.assoc)

lemma hexu_hexc: "hexu (hexc b) = b AND 0x0f"
  by (subst hexc_low) (rule hexu_nibble)

lemma isxdigit_hexc: "isxdigit (hexc b)"
  by (subst hexc_low) (rule isxdigit_nibble)

lemma hex_digits: "push_bit 4 (hexu (hexc (drop_bit 4 b))) OR hexu (hexc b) = (b :: byte)"
proof -
  have "x AND 0x0f = take_bit 4 x" for x :: byte
    by (simp add: take_bit_eq_mask mask_eq_exp_minus_1)
  then show ?thesis
    unfolding hexu_hexc
    by (intro bit_word_eqI)
      (auto simp: bit_or_iff bit_push_bit_iff bit_take_bit_iff bit_drop_bit_eq dest: bit_imp_le_length)
qed

lemma decode_encode_loop: "decode_loop (encode_loop bs) = bs"
  by (induction bs) (simp_all add: hex_digits)

lemma length_encode_loop [simp, len_simps]: "length (encode_loop bs) = 2 * length bs"
  by (induction bs) simp_all

lemma list_all_encode_loop: "list_all isxdigit (encode_loop bs)"
  by (induction bs) (simp_all add: isxdigit_hexc)

text \<open>
  Hexadecimal round trip: what \<open>encodeHexCreate\<close> writes is accepted by
  \<open>encodeHexValidate\<close> when it is not empty, and \<open>decodeHexCreate\<close> gives back the bytes.
\<close>

lemma hex_roundtrip:
  "\<exists>s. encodeHexCreate bs (length bs) = Some (s, 2 * length bs + 1) \<and>
     encodeHexValidate (Some s) = (bs \<noteq> []) \<and>
     decodeHexCreate s (length s) = Some (bs, length bs)"
proof -
  have "encode_loop bs = [] \<longleftrightarrow> bs = []" by (cases bs) simp_all
  then show ?thesis
    by (simp add: encodeHexCreate_def encodeHexLength_def encodeHex_def encodeHexValidate_def
        decodeHexCreate_def decodeHexLength_def decodeHex_def list_all_encode_loop
        decode_encode_loop)
qed

end
