(* ===== verification/UtilMathParse.thy ===== *)
theory UtilMathParse
  imports UtilMath UtilHex
begin

text \<open>
  \<^verbatim>\<open>ethereum/util/BRUtilMathParse.c\<close>: decimal, hexadecimal and binary strings to 256-bit
  numbers and back.  A string is the list of its characters' codes without the NUL; a NULL
  string is \<open>None\<close> where the code tests for it.  The result \<open>None\<close> is a failed \<open>assert\<close> or
  \<open>BRFail\<close> (a base other than 2, 10 and 16).  \<open>strtoull\<close> is modelled as the C standard
  says, white space, sign and prefix included, because the code does not check the digits
  that it passes on.
\<close>

unbundle bit_operations_syntax

datatype BRCoreParseStatus =
    CORE_PARSE_OK
  | CORE_PARSE_STRANGE_DIGITS
  | CORE_PARSE_UNDERFLOW
  | CORE_PARSE_OVERFLOW

section \<open>The C library\<close>

definition isdigit :: "byte \<Rightarrow> bool" where
  "isdigit c \<longleftrightarrow> 0x30 \<le> c \<and> c \<le> 0x39"

definition isspace :: "byte \<Rightarrow> bool" where
  "isspace c \<longleftrightarrow> c = 0x20 \<or> (0x09 \<le> c \<and> c \<le> 0x0d)"

definition digit_value :: "byte \<Rightarrow> nat" where
  "digit_value c =
    (if 0x30 \<le> c \<and> c \<le> 0x39 then unat c - 0x30
     else if 0x61 \<le> c \<and> c \<le> 0x7a then unat c - 0x61 + 10
     else if 0x41 \<le> c \<and> c \<le> 0x5a then unat c - 0x41 + 10
     else 36)"

fun digits_value :: "nat \<Rightarrow> nat \<Rightarrow> cstring \<Rightarrow> nat" where
  "digits_value base acc [] = acc"
| "digits_value base acc (c # s) =
     (if digit_value c < base then digits_value base (acc * base + digit_value c) s else acc)"

definition strtoull :: "cstring \<Rightarrow> nat \<Rightarrow> u64" where
  "strtoull str base =
     (let s1 = dropWhile isspace str;
          (neg, s2) = (case s1 of c # s \<Rightarrow> if c = 0x2d then (True, s) else if c = 0x2b then (False, s)
                                         else (False, s1)
                       | [] \<Rightarrow> (False, []));
          s3 = (if base = 16 then
                  (case s2 of z # x # d # s \<Rightarrow>
                       if z = 0x30 \<and> (x = 0x78 \<or> x = 0x58) \<and> digit_value d < 16 then d # s else s2
                   | _ \<Rightarrow> s2)
                else s2);
          v = digits_value base 0 s3
      in if v \<ge> 2 ^ 64 then -1 else if neg then - word_of_nat v else word_of_nat v)"

section \<open>Parsing\<close>

fun all_digits :: "cstring \<Rightarrow> bool" where
  "all_digits [] = True"
| "all_digits (c # s) = (if \<not> isdigit c then False else all_digits s)"

definition parseIsInteger :: "cstring option \<Rightarrow> BRCoreParseStatus" where
  "parseIsInteger number =
     (case number of
        None \<Rightarrow> CORE_PARSE_STRANGE_DIGITS
      | Some [] \<Rightarrow> CORE_PARSE_STRANGE_DIGITS
      | Some s \<Rightarrow> if all_digits s then CORE_PARSE_OK else CORE_PARSE_STRANGE_DIGITS)"

text \<open>The loop of \<open>parseIsDecimal\<close>: the number of points, \<open>None\<close> at a strange character.\<close>

fun count_points :: "cstring \<Rightarrow> nat \<Rightarrow> nat option" where
  "count_points [] n = Some n"
| "count_points (c # s) n =
     (if \<not> isdigit c \<and> c \<noteq> 0x2e then None
      else count_points s (if c = 0x2e then n + 1 else n))"

definition parseIsDecimal :: "cstring option \<Rightarrow> BRCoreParseStatus" where
  "parseIsDecimal number =
     (case number of
        None \<Rightarrow> CORE_PARSE_STRANGE_DIGITS
      | Some [] \<Rightarrow> CORE_PARSE_STRANGE_DIGITS
      | Some (c # s) \<Rightarrow>
          if c = 0x2e then CORE_PARSE_STRANGE_DIGITS
          else (case count_points (c # s) 0 of
                  None \<Rightarrow> CORE_PARSE_STRANGE_DIGITS
                | Some n \<Rightarrow> if n > 1 then CORE_PARSE_STRANGE_DIGITS else CORE_PARSE_OK))"

definition parseMaximumDigitsForUInt64InBase :: "nat \<Rightarrow> nat option" where
  "parseMaximumDigitsForUInt64InBase base =
     (if base = 2 then Some 64 else if base = 10 then Some 19 else if base = 16 then Some 16
      else None)"

definition parseMaximumDigitsForUInt256InBase :: "nat \<Rightarrow> nat option" where
  "parseMaximumDigitsForUInt256InBase base =
     (if base = 2 then Some 256 else if base = 10 then Some 78 else if base = 16 then Some 64
      else None)"

fun power_loop :: "nat \<Rightarrow> nat \<Rightarrow> u64 \<Rightarrow> u64" where
  "power_loop base 0 value = value"
| "power_loop base (Suc p) value = power_loop base p (value * word_of_nat base)"

definition parseUInt256Power :: "nat \<Rightarrow> nat \<Rightarrow> (UInt256 \<times> bool) option" where
  "parseUInt256Power base p =
     (case parseMaximumDigitsForUInt64InBase base of
        None \<Rightarrow> None
      | Some maxPower \<Rightarrow>
          if p > maxPower then Some (0, True)
          else let value = power_loop base p 1
               in Some (if value = 0 then push_bit 64 1 else createUInt256 value, False))"

definition parseUInt256ScaleByPower :: "UInt256 \<Rightarrow> nat \<Rightarrow> nat \<Rightarrow> (UInt256 \<times> bool) option" where
  "parseUInt256ScaleByPower value base p =
     (case parseUInt256Power base p of
        None \<Rightarrow> None
      | Some (scale, overflow) \<Rightarrow>
          Some (if overflow then (0, True) else mulUInt256_Overflow value scale))"

definition parseUInt64 :: "cstring \<Rightarrow> nat \<Rightarrow> nat \<Rightarrow> UInt256 option" where
  "parseUInt64 string digits base =
     (case parseMaximumDigitsForUInt64InBase base of
        None \<Rightarrow> None
      | Some maxDigits \<Rightarrow>
          if digits \<le> maxDigits then Some (createUInt256 (strtoull (take maxDigits string) base))
          else None)"

text \<open>
  The chunks after the first: \<open>string\<close> is the rest of the string, so its length is
  \<open>remainingDigits\<close>.  An overflow ends the loop with the flag set.
\<close>

function chunk_loop :: "nat \<Rightarrow> nat \<Rightarrow> cstring \<Rightarrow> UInt256 \<Rightarrow> (UInt256 \<times> bool) option" where
  "chunk_loop base stringChunks string value =
     (if string = [] \<or> stringChunks = 0 then Some (value, False)
      else
        let scalingDigits = (if length string \<ge> stringChunks then stringChunks else length string)
        in (case parseUInt256ScaleByPower value base scalingDigits of
              None \<Rightarrow> None
            | Some (scaled, scaleOverflow) \<Rightarrow>
                (case parseUInt64 string stringChunks base of
                   None \<Rightarrow> None
                 | Some chunk \<Rightarrow>
                     let (sm, addOverflow) = addUInt256_Overflow scaled chunk
                     in if scaleOverflow \<or> addOverflow then Some (0, True)
                        else chunk_loop base stringChunks (drop stringChunks string) sm)))"
  by pat_completeness auto
termination
  by (relation "measure (\<lambda>(b, n, s, v). length s)") auto

declare chunk_loop.simps [simp del]

definition parse_stripped :: "cstring \<Rightarrow> nat \<Rightarrow> (UInt256 \<times> BRCoreParseStatus) option" where
  "parse_stripped string base =
     (case parseMaximumDigitsForUInt256InBase base of
        None \<Rightarrow> None
      | Some maxDigits \<Rightarrow>
          if length string > maxDigits then Some (0, CORE_PARSE_OVERFLOW)
          else if string = [] then Some (0, CORE_PARSE_OK)
          else
            (case parseMaximumDigitsForUInt64InBase base of
               None \<Rightarrow> None
             | Some stringChunks \<Rightarrow>
                 (case parseUInt64 string stringChunks base of
                    None \<Rightarrow> None
                  | Some value \<Rightarrow>
                      (case chunk_loop base stringChunks (drop stringChunks string) value of
                         None \<Rightarrow> None
                       | Some (value', overflow) \<Rightarrow>
                           Some (if overflow then (0, CORE_PARSE_OVERFLOW)
                                 else (value', CORE_PARSE_OK))))))"

definition createUInt256Parse :: "cstring \<Rightarrow> nat \<Rightarrow> (UInt256 \<times> BRCoreParseStatus) option" where
  "createUInt256Parse string base =
     (let prefix = (take 2 string = [0x30, 0x78]);
          base1 = (if prefix \<and> base = 0 then 16 else base)
      in if prefix \<and> base1 \<noteq> 16 then Some (0, CORE_PARSE_STRANGE_DIGITS)
         else let s1 = (if prefix then drop 2 string else string);
                  base2 = (if base1 = 0 then 10 else base1)
              in parse_stripped (dropWhile (\<lambda>c. c = 0x30) s1) base2)"

text \<open>
  \<open>strsep\<close> at the first point, then \<open>fract\<close> up to a second point (there is none after
  \<open>parseIsDecimal\<close>); trailing zeros go, padding zeros come.
\<close>

definition createUInt256ParseDecimal ::
    "cstring option \<Rightarrow> nat \<Rightarrow> (UInt256 \<times> BRCoreParseStatus) option" where
  "createUInt256ParseDecimal string decimals =
     (if parseIsDecimal string \<noteq> CORE_PARSE_OK then Some (0, CORE_PARSE_STRANGE_DIGITS)
      else let s = the string in
        if length s \<ge> 100 then Some (0, CORE_PARSE_OVERFLOW)
        else if decimals \<ge> 100 then Some (0, CORE_PARSE_UNDERFLOW)
        else
          let whole = takeWhile (\<lambda>c. c \<noteq> 0x2e) s;
              fract = takeWhile (\<lambda>c. c \<noteq> 0x2e) (drop 1 (dropWhile (\<lambda>c. c \<noteq> 0x2e) s));
              stripped = rev (dropWhile (\<lambda>c. c = 0x30) (rev fract))
          in if length stripped > decimals then Some (0, CORE_PARSE_UNDERFLOW)
             else createUInt256Parse
                    (whole @ stripped @ replicate (decimals - length stripped) 0x30) 10)"

section \<open>Printing\<close>

definition coerceReverseString :: "cstring \<Rightarrow> cstring" where
  "coerceReverseString s = rev s"

text \<open>At most \<open>n\<close> remainders, least significant first.\<close>

fun decimal_loop :: "nat \<Rightarrow> UInt256 \<Rightarrow> cstring option" where
  "decimal_loop 0 x = Some []"
| "decimal_loop (Suc n) x =
     (if eqUInt256 x 0 then Some []
      else (case divUInt256_Small x 10 of
              None \<Rightarrow> None
            | Some (q, rem) \<Rightarrow> map_option (\<lambda>r. (0x30 + ucast rem) # r) (decimal_loop n q)))"

definition hex2Binary :: "cstring list" where
  "hex2Binary = map (map (\<lambda>b. if b then 0x31 else 0x30))
     [[False, False, False, False], [False, False, False, True], [False, False, True, False],
      [False, False, True, True], [False, True, False, False], [False, True, False, True],
      [False, True, True, False], [False, True, True, True], [True, False, False, False],
      [True, False, False, True], [True, False, True, False], [True, False, True, True],
      [True, True, False, False], [True, True, False, True], [True, True, True, False],
      [True, True, True, True]]"

definition coerceString16 :: "UInt256 \<Rightarrow> cstring option" where
  "coerceString16 x =
     (let xr = UInt256Reverse x;
          bytes = dropWhile (\<lambda>b. b = 0) (map (u8_of xr) [0..<32])
      in map_option fst (encodeHexCreate bytes (length bytes)))"

definition coerceString :: "UInt256 \<Rightarrow> nat \<Rightarrow> cstring option" where
  "coerceString x base =
     (if eqUInt256 x 0 then Some [0x30]
      else if base = 16 then coerceString16 x
      else if base = 10 then map_option coerceReverseString (decimal_loop 256 x)
      else if base = 2 then
        map_option (\<lambda>base16. concat (map (\<lambda>c. hex2Binary ! unat (hexu c)) base16)) (coerceString16 x)
      else None)"

definition coerceStringPrefaced :: "UInt256 \<Rightarrow> nat \<Rightarrow> cstring option \<Rightarrow> cstring option" where
  "coerceStringPrefaced x base preface =
     (case coerceString x base of
        None \<Rightarrow> None
      | Some string \<Rightarrow>
          (case preface of
             None \<Rightarrow> Some string
           | Some p \<Rightarrow> if p = [] then Some string
                       else Some (p @ dropWhile (\<lambda>c. c = 0x30) string)))"

text \<open>\<open>sprintf ("%<decimals>s")\<close> pads with blanks on the left, which become zeros.\<close>

definition coerceStringDecimal :: "UInt256 \<Rightarrow> nat \<Rightarrow> cstring option" where
  "coerceStringDecimal x decimals =
     (case coerceString x 10 of
        None \<Rightarrow> None
      | Some string \<Rightarrow>
          if decimals = 0 then Some string
          else if decimals \<ge> length string
            then Some (map (\<lambda>c. if c = 0x20 then 0x30 else c)
                        ([0x30, 0x2e] @ replicate (decimals - length string) 0x20 @ string))
          else let dindex = length string - decimals
               in Some (take dindex string @ [0x2e] @ drop dindex string))"

definition coerceUInt256HashToString :: "UInt256 \<Rightarrow> cstring" where
  "coerceUInt256HashToString hash = [0x30, 0x78] @ u256hex hash"

section \<open>Digits\<close>

definition valid_digits :: "nat \<Rightarrow> cstring \<Rightarrow> bool" where
  "valid_digits base s = list_all (\<lambda>c. digit_value c < base) s"

lemma valid_digits_simps [simp]:
  "valid_digits base []"
  "valid_digits base (c # s) \<longleftrightarrow> digit_value c < base \<and> valid_digits base s"
  "valid_digits base (s @ t) \<longleftrightarrow> valid_digits base s \<and> valid_digits base t"
  by (simp_all add: valid_digits_def)

lemma valid_digits_take: "valid_digits base s \<Longrightarrow> valid_digits base (take n s)"
  by (metis append_take_drop_id valid_digits_simps(3))

lemma valid_digits_drop: "valid_digits base s \<Longrightarrow> valid_digits base (drop n s)"
  by (metis append_take_drop_id valid_digits_simps(3))

lemma digits_value_acc:
  "valid_digits base s \<Longrightarrow>
   digits_value base acc s = acc * base ^ length s + digits_value base 0 s"
proof (induction s arbitrary: acc)
  case (Cons c s)
  have s: "valid_digits base s" "digit_value c < base" using Cons.prems by simp_all
  have "digits_value base acc (c # s) =
      (acc * base + digit_value c) * base ^ length s + digits_value base 0 s"
    using s(2) Cons.IH [OF s(1), of "acc * base + digit_value c"] by simp
  moreover have "digits_value base 0 (c # s) = digit_value c * base ^ length s + digits_value base 0 s"
    using s(2) Cons.IH [OF s(1), of "digit_value c"] by simp
  ultimately show ?case by (simp only: distrib_right length_Cons power_Suc mult.assoc add.assoc)
qed simp

lemma digits_value_append:
  assumes "valid_digits base s" and "valid_digits base t"
  shows "digits_value base acc (s @ t) =
    digits_value base acc s * base ^ length t + digits_value base 0 t"
  using assms
proof (induction s arbitrary: acc)
  case Nil
  then show ?case using digits_value_acc [of base t acc] by simp
qed simp

lemma digits_value_bound:
  "valid_digits base s \<Longrightarrow> digits_value base 0 s < base ^ length s"
proof (induction s)
  case (Cons c s)
  have IH: "digits_value base 0 s + 1 \<le> base ^ length s" and d: "digit_value c + 1 \<le> base"
    using Cons by auto
  have "digits_value base 0 (c # s) = digit_value c * base ^ length s + digits_value base 0 s"
    using Cons.prems digits_value_acc [of base s "digit_value c"] by simp
  also have "\<dots> < (digit_value c + 1) * base ^ length s" using IH by simp
  also have "\<dots> \<le> base * base ^ length s" using d by (rule mult_le_mono1)
  finally show ?case by simp
qed simp

lemma digits_value_dropWhile:
  "0 < base \<Longrightarrow> digits_value base 0 (dropWhile (\<lambda>c. c = 0x30) s) = digits_value base 0 s"
  by (induction s) (auto simp: digit_value_def)

lemma valid_digits_dropWhile:
  "valid_digits base s \<Longrightarrow> valid_digits base (dropWhile P s)"
  by (metis valid_digits_drop dropWhile_eq_drop)

text \<open>A byte other than a digit in base 16 is not valid; so no sign, blank or prefix is.\<close>

lemma digit_value_blank: "isspace c \<Longrightarrow> digit_value c = 36"
  unfolding isspace_def digit_value_def word_le_nat_alt by (elim disjE) simp_all

lemma digit_value_special:
  "digit_value 0x2d = 36" "digit_value 0x2b = 36" "digit_value 0x78 = 33" "digit_value 0x58 = 33"
  "digit_value 0x2e = 36"
  by (simp_all add: digit_value_def)

lemma strtoull_valid:
  assumes "valid_digits base s" and "base \<le> 16" and "digits_value base 0 s < 2 ^ 64"
  shows "strtoull s base = word_of_nat (digits_value base 0 s)"
proof (cases s)
  case (Cons c t)
  have c: "digit_value c < 16" using assms(1,2) Cons by simp
  then have "\<not> isspace c" "c \<noteq> 0x2d" "c \<noteq> 0x2b"
    using digit_value_blank [of c] digit_value_special(1,2) by auto
  moreover have "x \<noteq> 0x78 \<and> x \<noteq> 0x58" if "t = x # r" for x r
  proof -
    have "digit_value x < 16" using assms(1,2) Cons that by simp
    then show ?thesis using digit_value_special(3,4) by auto
  qed
  ultimately show ?thesis
    using assms(3) Cons by (auto simp: strtoull_def Let_def split: list.split)
qed (simp add: strtoull_def)

section \<open>Powers and chunks\<close>

definition is_base :: "nat \<Rightarrow> bool" where
  "is_base base \<longleftrightarrow> base = 2 \<or> base = 10 \<or> base = 16"

text \<open>The chunk sizes fit 64 bits and the maximal lengths cover 256 bits.\<close>

lemma base_limits:
  assumes "is_base base"
  obtains c m where "parseMaximumDigitsForUInt64InBase base = Some c"
    and "parseMaximumDigitsForUInt256InBase base = Some m" and "0 < c" and "c < m"
    and "base ^ c \<le> 2 ^ 64" and "2 ^ 256 \<le> base ^ m" and "0 < base" and "base \<le> 16"
    and "\<And>p. p < c \<Longrightarrow> base ^ p < 2 ^ 64"
proof -
  have lt: "base ^ p < 2 ^ 64" if "p < c" "base ^ c \<le> 2 ^ 64" "2 \<le> base" for p c
  proof -
    have "base ^ p < base ^ c" using that by (intro power_strict_increasing) simp_all
    then show ?thesis using that(2) by (rule less_le_trans)
  qed
  consider "base = 2" | "base = 10" | "base = 16" using assms by (auto simp: is_base_def)
  then show ?thesis
  proof cases
    case 1
    then show ?thesis
      by (intro that [of 64 256] lt [of _ 64])
        (simp_all add: parseMaximumDigitsForUInt64InBase_def parseMaximumDigitsForUInt256InBase_def)
  next
    case 2
    then show ?thesis
      by (intro that [of 19 78] lt [of _ 19])
        (simp_all add: parseMaximumDigitsForUInt64InBase_def parseMaximumDigitsForUInt256InBase_def)
  next
    case 3
    then show ?thesis
      by (intro that [of 16 64] lt [of _ 16])
        (simp_all add: parseMaximumDigitsForUInt64InBase_def parseMaximumDigitsForUInt256InBase_def)
  qed
qed

lemma power_loop_exact: "power_loop base p v = v * word_of_nat (base ^ p)"
  by (induction p arbitrary: v) (simp_all add: mult.assoc)

lemma parseUInt256Power_exact:
  assumes "is_base base" and "parseMaximumDigitsForUInt64InBase base = Some c" and "p \<le> c"
  shows "\<exists>scale. parseUInt256Power base p = Some (scale, False) \<and> unat scale = base ^ p"
proof -
  let ?v = "power_loop base p 1"
  have v: "unat ?v = base ^ p mod 2 ^ 64"
    by (simp add: power_loop_exact unat_word_of_nat del: of_nat_power)
  have le: "base ^ p \<le> 2 ^ 64" and lt: "p < c \<Longrightarrow> base ^ p < 2 ^ 64" and pos: "0 < base"
    using base_limits [OF assms(1)] assms(2,3)
    by (metis option.inject le_neq_implies_less less_imp_le)+
  show ?thesis
  proof (cases "base ^ p = 2 ^ 64")
    case True
    then have "?v = 0" using v by (simp add: word_unat_eq_iff)
    then show ?thesis using assms(2,3) True
      by (simp add: parseUInt256Power_def unat_push_bit_mod)
  next
    case False
    then have "unat ?v = base ^ p" using v le by simp
    moreover from this have "?v \<noteq> 0" using pos by (simp add: word_unat_eq_iff)
    ultimately show ?thesis using assms(2,3)
      by (simp add: parseUInt256Power_def createUInt256_exact Let_def)
  qed
qed

lemma scale_exact:
  assumes "is_base base" and "parseMaximumDigitsForUInt64InBase base = Some c" and "p \<le> c"
  shows "parseUInt256ScaleByPower v base p =
    Some (if unat v * base ^ p < 2 ^ 256 then (word_of_nat (unat v * base ^ p), False) else (0, True))"
proof -
  obtain scale where s: "parseUInt256Power base p = Some (scale, False)" "unat scale = base ^ p"
    using parseUInt256Power_exact [OF assms] by blast
  have "v * scale = word_of_nat (unat v * base ^ p)"
    by (intro word_unat_eq_iff [THEN iffD2])
      (simp add: unat_mult_mod unat_word_of_nat s(2) del: of_nat_mult of_nat_power)
  then show ?thesis
    by (simp add: parseUInt256ScaleByPower_def s mulUInt256_Overflow_exact)
qed

lemma parseUInt64_valid:
  assumes "is_base base" and "parseMaximumDigitsForUInt64InBase base = Some c" and "valid_digits base s"
  shows "\<exists>v. parseUInt64 s c base = Some v \<and> unat v = digits_value base 0 (take c s)"
proof -
  let ?n = "digits_value base 0 (take c s)"
  have v: "valid_digits base (take c s)" by (rule valid_digits_take [OF assms(3)])
  have le: "base ^ c \<le> 2 ^ 64" "0 < base" "base \<le> 16"
    using base_limits [OF assms(1)] assms(2) by (metis option.inject)+
  have "?n < base ^ length (take c s)" by (rule digits_value_bound [OF v])
  also have "\<dots> \<le> base ^ c" using le(2) by (intro power_increasing) simp_all
  finally have n: "?n < 2 ^ 64" using le(1) by simp
  have "unat (word_of_nat ?n :: u64) = ?n" using n by (simp add: unat_word_of_nat)
  then show ?thesis
    using assms(2) strtoull_valid [OF v le(3) n]
    by (simp add: parseUInt64_def createUInt256_exact)
qed

lemma chunk_loop_exact:
  assumes "is_base base" and "parseMaximumDigitsForUInt64InBase base = Some c"
    and "valid_digits base s"
  shows "chunk_loop base c s v =
    (let n = unat v * base ^ length s + digits_value base 0 s
     in Some (if n < 2 ^ 256 then (word_of_nat n, False) else (0, True)))"
  using assms(3)
proof (induction "length s" arbitrary: s v rule: less_induct)
  case less
  show ?case
  proof (cases "s = []")
    case True
    then show ?thesis
      using unat_bound [of v] by (subst chunk_loop.simps) (simp add: Let_def)
  next
    case False
    have cm: "0 < c" "0 < base"
      using base_limits [OF assms(1)] assms(2) by (metis option.inject)+
    let ?a = "take c s" and ?b = "drop c s"
    let ?A = "digits_value base 0 ?a" and ?B = "digits_value base 0 ?b"
    define k where "k = (if length s \<ge> c then c else length s)"
    define V where "V = unat v * base ^ k"
    have k: "k \<le> c" "k = length ?a" by (auto simp: k_def)
    have va: "valid_digits base ?a" and vb: "valid_digits base ?b"
      using less.prems by (simp_all add: valid_digits_take valid_digits_drop)
    have split: "digits_value base 0 s = ?A * base ^ length ?b + ?B"
      using digits_value_append [OF va vb, of 0] by simp
    have n: "unat v * base ^ length s + digits_value base 0 s = (V + ?A) * base ^ length ?b + ?B"
    proof -
      have "base ^ length s = base ^ k * base ^ length ?b"
        unfolding k(2) by (metis append_take_drop_id length_append power_add)
      then show ?thesis unfolding split V_def by (simp add: distrib_right mult.assoc)
    qed
    obtain chunk where chunk: "parseUInt64 s c base = Some chunk" "unat chunk = ?A"
      using parseUInt64_valid [OF assms(1,2) less.prems] by blast
    note step = chunk_loop.simps [of base c s v]
    have pos: "1 \<le> base ^ length ?b" using cm(2) by simp
    show ?thesis
    proof (cases "V + ?A < 2 ^ 256")
      case True
      then have V: "V < 2 ^ 256" by simp
      have sum: "addUInt256_Overflow (word_of_nat V) chunk = (word_of_nat (V + ?A), False)"
      proof -
        have "unat (word_of_nat V :: UInt256) = V" using V by (simp add: unat_word_of_nat)
        moreover have "word_of_nat V + chunk = word_of_nat (V + ?A)"
          using chunk(2) by (simp add: word_unat_eq_iff flip: chunk(2))
        ultimately show ?thesis using True chunk(2)
          by (simp add: addUInt256_Overflow_exact add.commute)
      qed
      have len: "length ?b < length s" using False cm(1) by simp
      have "chunk_loop base c s v = chunk_loop base c ?b (word_of_nat (V + ?A))"
        using False cm(1) chunk(1) sum V
        by (subst step) (simp only: k_def [symmetric] scale_exact [OF assms(1,2) k(1)] V_def [symmetric] Let_def if_True if_False
          option.case prod.case simp_thms, simp)
      also have "\<dots> = (let n = (V + ?A) * base ^ length ?b + ?B
          in Some (if n < 2 ^ 256 then (word_of_nat n, False) else (0, True)))"
      proof -
        have u: "unat (word_of_nat (V + ?A) :: UInt256) = V + ?A"
          using True by (simp add: unat_word_of_nat del: of_nat_add)
        show ?thesis using less.hyps [OF len vb, of "word_of_nat (V + ?A)"] unfolding u .
      qed
      finally show ?thesis unfolding n .
    next
      case False2: False
      have "2 ^ 256 \<le> (V + ?A) * base ^ length ?b"
        using False2 pos by (metis mult.right_neutral mult_le_mono not_less)
      then have big: "\<not> (V + ?A) * base ^ length ?b + ?B < 2 ^ 256" by simp
      have "chunk_loop base c s v = Some (0, True)"
      proof (cases "V < 2 ^ 256")
        case True
        have "unat (word_of_nat V :: UInt256) = V" using True by (simp add: unat_word_of_nat)
        then have "addUInt256_Overflow (word_of_nat V) chunk = (0, True)"
          using False2 chunk(2) by (simp add: addUInt256_Overflow_exact add.commute)
        then show ?thesis
          using False cm(1) chunk(1) True
          by (subst step) (simp only: k_def [symmetric] scale_exact [OF assms(1,2) k(1)] V_def [symmetric] Let_def if_True if_False
            option.case prod.case simp_thms, simp)
      next
        case over: False
        then show ?thesis
          using False cm(1) chunk(1)
          by (subst step) (simp only: k_def [symmetric] scale_exact [OF assms(1,2) k(1)] V_def [symmetric] Let_def if_True if_False
            option.case prod.case simp_thms, simp split: prod.split)
      qed
      then show ?thesis unfolding n Let_def using big by simp
    qed
  qed
qed

lemma parse_stripped_exact:
  assumes "is_base base" and "valid_digits base s" and "s \<noteq> [] \<Longrightarrow> hd s \<noteq> 0x30"
  shows "parse_stripped s base =
    (let n = digits_value base 0 s
     in Some (if n < 2 ^ 256 then (word_of_nat n, CORE_PARSE_OK) else (0, CORE_PARSE_OVERFLOW)))"
proof -
  obtain c m where b: "parseMaximumDigitsForUInt64InBase base = Some c"
    "parseMaximumDigitsForUInt256InBase base = Some m" "2 ^ 256 \<le> base ^ m" "0 < base"
    "base ^ c \<le> 2 ^ 64"
    using base_limits [OF assms(1)] by metis
  show ?thesis
  proof (cases "length s > m")
    case True
    then obtain d t where s: "s = d # t" by (cases s) auto
    then have "digit_value d \<noteq> 0"
      using assms(2,3) by (auto simp: digit_value_def is_base_def word_le_nat_alt word_unat_eq_iff
        split: if_splits)
    then have d: "1 \<le> digit_value d" by simp
    have "base ^ m \<le> base ^ length t" using True s b(4) by (intro power_increasing) simp_all
    also have "\<dots> \<le> digit_value d * base ^ length t" using d by simp
    also have "\<dots> \<le> digits_value base 0 s"
      using assms(2) s digits_value_acc [of base t "digit_value d"] by simp
    finally have "\<not> digits_value base 0 s < 2 ^ 256" using b(3) by simp
    then show ?thesis using True b(2) by (simp add: parse_stripped_def)
  next
    case False
    show ?thesis
    proof (cases "s = []")
      case True
      then show ?thesis using b by (simp add: parse_stripped_def)
    next
      case ne: False
      have va: "valid_digits base (take c s)" and vb: "valid_digits base (drop c s)"
        using assms(2) by (simp_all add: valid_digits_take valid_digits_drop)
      obtain v where v: "parseUInt64 s c base = Some v" "unat v = digits_value base 0 (take c s)"
        using parseUInt64_valid [OF assms(1) b(1) assms(2)] by blast
      have "unat v * base ^ length (drop c s) + digits_value base 0 (drop c s) = digits_value base 0 s"
        unfolding v(2) using digits_value_append [OF va vb, of 0] by simp
      then show ?thesis
        using False ne b(1,2) v(1) chunk_loop_exact [OF assms(1) b(1) vb, of v]
        by (simp add: parse_stripped_def Let_def)
    qed
  qed
qed

lemma hd_dropWhile_zero: "dropWhile (\<lambda>c. c = x) s \<noteq> [] \<Longrightarrow> hd (dropWhile (\<lambda>c. c = x) s) \<noteq> x"
  by (induction s) auto

lemma parse_digits:
  assumes "is_base base" and "valid_digits base s"
  shows "createUInt256Parse s base =
    (let n = digits_value base 0 s
     in Some (if n < 2 ^ 256 then (word_of_nat n, CORE_PARSE_OK) else (0, CORE_PARSE_OVERFLOW)))"
proof -
  have base: "0 < base" "base \<le> 16" using assms(1) by (auto simp: is_base_def)
  have "take 2 s \<noteq> [0x30, 0x78]"
  proof
    assume "take 2 s = [0x30, 0x78]"
    then have "valid_digits base [0x30, 0x78]" using valid_digits_take [OF assms(2)] by metis
    then show False using base(2) by (simp add: digit_value_special)
  qed
  then have "createUInt256Parse s base = parse_stripped (dropWhile (\<lambda>c. c = 0x30) s) base"
    using base(1) by (simp add: createUInt256Parse_def)
  then show ?thesis
    using parse_stripped_exact [OF assms(1) valid_digits_dropWhile [OF assms(2)], of "\<lambda>c. c = 0x30"]
      hd_dropWhile_zero [of "0x30" s]
    by (simp add: digits_value_dropWhile [OF base(1)])
qed

lemma parse_prefixed:
  assumes "valid_digits 16 s" and "base = 0 \<or> base = 16"
  shows "createUInt256Parse ([0x30, 0x78] @ s) base = createUInt256Parse s 16"
proof -
  have "take 2 s \<noteq> [0x30, 0x78]"
  proof
    assume "take 2 s = [0x30, 0x78]"
    then have "valid_digits 16 [0x30, 0x78]" using valid_digits_take [OF assms(1)] by metis
    then show False by (simp add: digit_value_special)
  qed
  then show ?thesis using assms(2) by (auto simp: createUInt256Parse_def Let_def)
qed

section \<open>Printing\<close>

text \<open>What a printer must produce: valid digits that stand for the number, none missing.\<close>

definition prints :: "nat \<Rightarrow> cstring \<Rightarrow> nat \<Rightarrow> bool" where
  "prints base s n \<longleftrightarrow> valid_digits base s \<and> digits_value base 0 s = n"

lemma digit_value_decimal: "d < 10 \<Longrightarrow> digit_value (0x30 + word_of_nat d) = d"
proof -
  assume d: "d < 10"
  then have "unat (0x30 + word_of_nat d :: byte) = 48 + d"
    by (simp add: unat_add_mod unat_word_of_nat)
  then show ?thesis using d by (simp add: digit_value_def word_le_nat_alt)
qed

lemma decimal_loop_prints:
  "unat x < 10 ^ n \<Longrightarrow> \<exists>r. decimal_loop n x = Some r \<and> prints 10 (rev r) (unat x) \<and>
     list_all isdigit r \<and> (x \<noteq> 0 \<longrightarrow> r \<noteq> []) \<and> length r \<le> n"
proof (induction n arbitrary: x)
  case 0
  then have "x = 0" by (simp add: unat_eq_zero)
  then show ?case by (simp add: prints_def)
next
  case (Suc n)
  show ?case
  proof (cases "x = 0")
    case True
    then show ?thesis by (simp add: prints_def)
  next
    case False
    let ?q = "word_of_nat (unat x div 10) :: UInt256" and ?d = "unat x mod 10"
    have div: "divUInt256_Small x 10 = Some (?q, word_of_nat ?d)"
      by (simp add: divUInt256_Small_exact)
    have q: "unat ?q = unat x div 10" using unat_bound [of x] by (simp add: unat_word_of_nat)
    moreover have "unat x div 10 < 10 ^ n" using Suc.prems by (simp add: less_mult_imp_div_less)
    ultimately obtain r where r: "decimal_loop n ?q = Some r" "prints 10 (rev r) (unat x div 10)"
      "list_all isdigit r" "length r \<le> n"
      using Suc.IH [of ?q] by auto
    let ?c = "0x30 + ucast (word_of_nat ?d :: u32) :: byte"
    have "(ucast (word_of_nat ?d :: u32) :: byte) = word_of_nat ?d"
      by (simp add: word_unat_eq_iff unat_ucast_mod unat_word_of_nat)
    then have c: "?c = 0x30 + word_of_nat ?d" by simp
    have dv: "digit_value ?c = ?d" unfolding c by (rule digit_value_decimal) simp
    have "unat ?c = 48 + ?d" unfolding c by (simp add: unat_add_mod unat_word_of_nat)
    then have "isdigit ?c" by (simp add: isdigit_def word_le_nat_alt)
    moreover have "prints 10 (rev (?c # r)) (unat x)"
      using r(2) dv digits_value_append [of 10 "rev r" "[?c]" 0] by (simp add: prints_def)
    moreover have "decimal_loop (Suc n) x = Some (?c # r)"
      using False by (simp only: decimal_loop.simps comparisons div option.case prod.case r(1)
          option.map if_False)
    ultimately show ?thesis using r(3,4) by auto
  qed
qed

lemma digit_value_hexc: "digit_value (hexc b) = unat (b AND 0x0f)"
proof -
  have "digit_value (hexc (b AND 0x0f)) = unat (b AND 0x0f)"
    by (rule nibble_cases [where P = "\<lambda>n. digit_value (hexc n) = unat n"]) code_simp
  then show ?thesis by (simp flip: hexc_low)
qed

lemma unat_and_0x0f: "unat (b AND 0x0f :: byte) = unat b mod 16"
proof -
  have "b AND 0x0f = take_bit 4 b" by (simp add: take_bit_eq_mask mask_eq_exp_minus_1)
  then have "unat (b AND 0x0f) = take_bit 4 (unat b)" by (simp only: unsigned_take_bit_eq)
  then show ?thesis by (simp add: take_bit_eq_mod)
qed

fun be_val :: "nat \<Rightarrow> byte list \<Rightarrow> nat" where
  "be_val acc [] = acc"
| "be_val acc (b # bs) = be_val (acc * 256 + unat b) bs"

lemma be_val_append: "be_val acc (xs @ ys) = be_val (be_val acc xs) ys"
  by (induction xs arbitrary: acc) simp_all

lemma be_val_rev: "be_val 0 (rev bs) = le_val bs"
  by (induction bs) (simp_all add: be_val_append)

lemma be_val_dropWhile: "be_val 0 (dropWhile (\<lambda>b. b = 0) bs) = be_val 0 bs"
  by (induction bs) simp_all

lemma encode_loop_value:
  "valid_digits 16 (encode_loop bs) \<and> digits_value 16 acc (encode_loop bs) = be_val acc bs"
proof (induction bs arbitrary: acc)
  case (Cons b bs)
  have hi: "digit_value (hexc (drop_bit 4 b)) = unat b div 16" and lo: "digit_value (hexc b) = unat b mod 16"
    using unat_bound [of b]
    by (simp_all add: digit_value_hexc unat_and_0x0f unat_drop_bit_div less_mult_imp_div_less)
  have "(acc * 16 + unat b div 16) * 16 + unat b mod 16 = acc * 256 + unat b" by simp
  then show ?case
    using Cons.IH [of "acc * 256 + unat b"] unat_bound [of b] hi lo
    by (simp add: less_mult_imp_div_less add.commute mult.commute)
qed simp

lemma coerceString16_prints:
  "\<exists>s. coerceString16 x = Some s \<and> prints 16 s (unat x) \<and>
     (\<exists>bs. s = encode_loop bs) \<and> (x \<noteq> 0 \<longrightarrow> s \<noteq> [])"
proof -
  let ?bs = "dropWhile (\<lambda>b. b = 0) (map (u8_of (UInt256Reverse x)) [0..<32])"
  have bytes: "map (u8_of (UInt256Reverse x)) [0..<32] = rev (bytes_le 32 x)"
    using bytes_le_UInt256Reverse [of x] by (simp add: bytes_le_def u8_of_byte_at)
  have v: "be_val 0 ?bs = unat x"
    unfolding be_val_dropWhile bytes be_val_rev by (rule le_val_bytes_le) simp
  moreover have "?bs \<noteq> []" if "x \<noteq> 0" using v that by (metis be_val.simps(1) unat_eq_zero)
  moreover have "encode_loop bs = [] \<longleftrightarrow> bs = []" for bs by (cases bs) simp_all
  ultimately show ?thesis
    using encode_loop_value [of ?bs 0]
    by (auto simp: coerceString16_def encodeHexCreate_def encodeHex_def encodeHexLength_def
        prints_def)
qed

lemma binary_digit:
  "let t = hex2Binary ! unat (b AND 0x0f) in
   valid_digits 2 t \<and> length t = 4 \<and> digits_value 2 0 t = unat (b AND 0x0f :: byte)"
  by (rule nibble_cases [where P = "\<lambda>n. let t = hex2Binary ! unat n in
    valid_digits 2 t \<and> length t = 4 \<and> digits_value 2 0 t = unat n"]) code_simp

lemma binary_prints:
  fixes bs :: "byte list"
  defines "t \<equiv> \<lambda>s. concat (map (\<lambda>c. hex2Binary ! unat (hexu c)) s)"
  shows "valid_digits 2 (t (encode_loop bs)) \<and>
    digits_value 2 acc (t (encode_loop bs)) = digits_value 16 acc (encode_loop bs)"
proof (induction bs arbitrary: acc)
  case Nil
  then show ?case by (simp add: t_def)
next
  case (Cons b bs)
  let ?h = "hex2Binary ! unat (hexu (hexc (drop_bit 4 b)))" and ?l = "hex2Binary ! unat (hexu (hexc b))"
  have h: "valid_digits 2 ?h" "length ?h = 4" "digits_value 2 0 ?h = digit_value (hexc (drop_bit 4 b))"
    and l: "valid_digits 2 ?l" "length ?l = 4" "digits_value 2 0 ?l = digit_value (hexc b)"
    using binary_digit [of "drop_bit 4 b"] binary_digit [of b]
    by (simp_all add: hexu_hexc digit_value_hexc Let_def)
  have dv: "digit_value (hexc c) < 16" for c
    using encode_loop_value [of "[c]"] by simp
  let ?r = "t (encode_loop bs)"
  have r: "valid_digits 2 ?r" "\<And>a. digits_value 2 a ?r = digits_value 16 a (encode_loop bs)"
    using Cons.IH by simp_all
  have "digits_value 2 acc (?h @ ?l @ ?r) =
      digits_value 2 ((acc * 16 + digits_value 2 0 ?h) * 16 + digits_value 2 0 ?l) ?r"
  proof -
    have app: "digits_value 2 a (u @ v) = digits_value 2 (digits_value 2 a u) v"
      if "valid_digits 2 u" for a u v
      using that by (induction u arbitrary: a) simp_all
    show ?thesis
      using app [OF h(1)] app [OF l(1)] digits_value_acc [OF h(1), of acc]
        digits_value_acc [OF l(1), of "digits_value 2 acc ?h"] h(2) l(2) by simp
  qed
  then show ?case
    using h l r dv by (simp add: t_def)
qed

lemma coerceString_prints:
  assumes "is_base base"
  shows "\<exists>s. coerceString x base = Some s \<and> prints base s (unat x)"
proof (cases "x = 0")
  case True
  then show ?thesis using assms
    by (auto simp: coerceString_def prints_def is_base_def digit_value_def)
next
  case False
  consider "base = 2" | "base = 10" | "base = 16" using assms by (auto simp: is_base_def)
  then show ?thesis
  proof cases
    case 1
    then show ?thesis using False coerceString16_prints [of x] binary_prints [of _ 0]
      by (auto simp: coerceString_def prints_def)
  next
    case 2
    have "unat x < 2 ^ 256" using unat_bound [of x] by simp
    also have "\<dots> \<le> (10 :: nat) ^ 256" by (intro power_mono) simp_all
    finally show ?thesis using 2 False decimal_loop_prints [of x 256]
      by (auto simp: coerceString_def coerceReverseString_def)
  next
    case 3
    then show ?thesis using False coerceString16_prints [of x] by (auto simp: coerceString_def)
  qed
qed

section \<open>Decimal points\<close>

lemma decimal_loop_length:
  "\<lbrakk>unat x < 10 ^ k; decimal_loop n x = Some r\<rbrakk> \<Longrightarrow> length r \<le> k"
proof (induction n arbitrary: x k r)
  case (Suc n)
  show ?case
  proof (cases "x = 0")
    case False
    then obtain k' where k: "k = Suc k'" using Suc.prems(1) by (cases k) (auto simp: unat_eq_zero)
    let ?q = "word_of_nat (unat x div 10) :: UInt256"
    have "unat ?q = unat x div 10" using unat_bound [of x] by (simp add: unat_word_of_nat)
    then have q: "unat ?q < 10 ^ k'" using Suc.prems(1) k by (simp add: less_mult_imp_div_less)
    obtain r' where "decimal_loop n ?q = Some r'" "length r = Suc (length r')"
      using Suc.prems(2) False by (auto simp: divUInt256_Small_exact split: option.splits)
    then show ?thesis using Suc.IH [OF q] k by simp
  qed (use Suc.prems in simp)
qed simp

lemma coerceString_decimal:
  "\<exists>s. coerceString x 10 = Some s \<and> prints 10 s (unat x) \<and> list_all isdigit s \<and>
     s \<noteq> [] \<and> length s \<le> 78"
proof (cases "x = 0")
  case True
  then show ?thesis by (simp add: coerceString_def prints_def digit_value_def isdigit_def)
next
  case False
  have b: "unat x < 2 ^ 256" using unat_bound [of x] by simp
  also have "\<dots> \<le> (10 :: nat) ^ 256" by (intro power_mono) simp_all
  finally obtain r where r: "decimal_loop 256 x = Some r" "prints 10 (rev r) (unat x)"
    "list_all isdigit r" "r \<noteq> []"
    using decimal_loop_prints [of x 256] False by auto
  have "unat x < 10 ^ 78" using b by simp
  then have "length r \<le> 78" using decimal_loop_length r(1) by blast
  then show ?thesis
    using r False by (auto simp: coerceString_def coerceReverseString_def list_all_iff)
qed

lemma isdigit_not: "isdigit c \<Longrightarrow> c \<noteq> 0x2e \<and> c \<noteq> 0x20"
  by (auto simp: isdigit_def)

lemma count_points_digits: "list_all isdigit s \<Longrightarrow> count_points (s @ t) n = count_points t n"
  by (induction s) (auto dest: isdigit_not)

lemma takeWhile_digits:
  "list_all isdigit s \<Longrightarrow> takeWhile (\<lambda>c. c \<noteq> 0x2e) s = s \<and> dropWhile (\<lambda>c. c \<noteq> 0x2e) s = [] \<and>
   takeWhile (\<lambda>c. c \<noteq> 0x2e) (s @ 0x2e # t) = s \<and>
   dropWhile (\<lambda>c. c \<noteq> 0x2e) (s @ 0x2e # t) = 0x2e # t"
  by (induction s) (auto dest: isdigit_not)

lemma strip_pad:
  "length (rev (dropWhile (\<lambda>c. c = z) (rev f))) \<le> length f \<and>
   rev (dropWhile (\<lambda>c. c = z) (rev f)) @
     replicate (length f - length (rev (dropWhile (\<lambda>c. c = z) (rev f)))) z = f"
proof -
  have "takeWhile (\<lambda>c. c = z) g = replicate (length g - length (dropWhile (\<lambda>c. c = z) g)) z" for g
  proof (induction g)
    case (Cons a g)
    then show ?case using length_dropWhile_le [of "\<lambda>c. c = z" g] by (simp add: Suc_diff_le)
  qed simp
  then have "rev f = replicate (length f - length (dropWhile (\<lambda>c. c = z) (rev f))) z @
      dropWhile (\<lambda>c. c = z) (rev f)"
    by (metis length_rev takeWhile_dropWhile_id)
  then have "f = rev (dropWhile (\<lambda>c. c = z) (rev f)) @
      replicate (length f - length (dropWhile (\<lambda>c. c = z) (rev f))) z"
    by (metis rev_append rev_replicate rev_rev_ident)
  then show ?thesis using length_dropWhile_le [of "\<lambda>c. c = z" "rev f"] by simp
qed

lemma parse_decimal_parts:
  assumes w: "list_all isdigit w" "w \<noteq> []" and f: "list_all isdigit f"
    and len: "length w + length f < 99" "length f = decimals"
    and s: "s = w @ 0x2e # f \<or> (s = w \<and> f = [])"
  shows "createUInt256ParseDecimal (Some s) decimals = createUInt256Parse (w @ f) 10"
proof -
  obtain c t where ct: "w = c # t" "isdigit c" "c \<noteq> 0x2e"
    using w isdigit_not by (cases w) auto
  have cp: "count_points s 0 = Some 0 \<or> count_points s 0 = Some 1"
    using s count_points_digits [OF w(1), of "0x2e # f" 0] count_points_digits [OF w(1), of "[]" 0]
      count_points_digits [OF f, of "[]" 1] by auto
  obtain r where sc: "s = c # r" using s ct(1) by auto
  have ok: "parseIsDecimal (Some s) = CORE_PARSE_OK"
    using cp ct(2,3) unfolding sc parseIsDecimal_def by auto
  have split: "takeWhile (\<lambda>c. c \<noteq> 0x2e) s = w \<and>
    takeWhile (\<lambda>c. c \<noteq> 0x2e) (drop 1 (dropWhile (\<lambda>c. c \<noteq> 0x2e) s)) = f"
    using s
  proof
    assume "s = w @ 0x2e # f"
    then show ?thesis using takeWhile_digits [OF w(1), of f] takeWhile_digits [OF f] by simp
  next
    assume "s = w \<and> f = []"
    moreover have "takeWhile (\<lambda>c. c \<noteq> 0x2e) w = w" "dropWhile (\<lambda>c. c \<noteq> 0x2e) w = []"
      using takeWhile_digits [OF w(1)] by blast+
    ultimately show ?thesis by (simp del: dropWhile_eq_Nil_conv takeWhile_eq_all_conv)
  qed
  have small: "\<not> length s \<ge> 100" "\<not> decimals \<ge> 100" using s len by auto
  show ?thesis
    using small strip_pad [where z = "0x30 :: byte" and f = f]
    unfolding createUInt256ParseDecimal_def ok option.sel conjunct1 [OF split] conjunct2 [OF split] Let_def len(2) [symmetric]
    by simp
qed

lemma isdigit_valid: "list_all isdigit s \<Longrightarrow> valid_digits 10 s"
proof -
  have "isdigit c \<Longrightarrow> digit_value c < 10" for c
    by (auto simp: isdigit_def digit_value_def word_le_nat_alt)
  then show "list_all isdigit s \<Longrightarrow> valid_digits 10 s"
    by (auto simp: valid_digits_def list_all_iff)
qed

lemma isdigit_zero: "isdigit 0x30" "digit_value 0x30 = 0"
  by (simp_all add: isdigit_def digit_value_def)

lemma digits_value_leading_zeros: "digits_value 10 0 (replicate n 0x30 @ s) = digits_value 10 0 s"
  by (induction n) (simp_all add: isdigit_zero)

lemma parse_printed:
  assumes "prints 10 s (unat (x :: UInt256))"
  shows "createUInt256Parse s 10 = Some (x, CORE_PARSE_OK)"
  using parse_digits [of 10 s] assms unat_bound [of x]
  by (simp add: is_base_def prints_def)

section \<open>Parsing undoes printing\<close>

text \<open>
  On a string of digits of base 2, 10 or 16, of any length and with or without
  leading zeros, \<open>createUInt256Parse\<close> returns the number when it fits 256 bits and
  otherwise reports \<open>CORE_PARSE_OVERFLOW\<close>, although it works in 64-bit chunks.
\<close>

theorem createUInt256Parse_exact:
  assumes "base \<in> {2, 10, 16}" and "list_all (\<lambda>c. digit_value c < base) s"
  shows "createUInt256Parse s base =
    Some (if digits_value base 0 s < 2 ^ 256
          then (word_of_nat (digits_value base 0 s), CORE_PARSE_OK) else (0, CORE_PARSE_OVERFLOW))"
  using parse_digits [of base s] assms by (simp add: is_base_def valid_digits_def Let_def)

lemma createUInt256Parse_exact_witness:
  "createUInt256Parse [0x30, 0x66, 0x46, 0x31] 16 = Some (0xff1, CORE_PARSE_OK)"
  using createUInt256Parse_exact [of 16 "[0x30, 0x66, 0x46, 0x31]"]
  by (simp add: digit_value_def)

text \<open>
  \<open>createUInt256Parse\<close> reads back every number that \<open>coerceString\<close> prints, in
  each of the three bases.
\<close>

theorem coerceString_roundtrip:
  assumes "base \<in> {2, 10, 16}"
  shows "\<exists>s. coerceString x base = Some s \<and> createUInt256Parse s base = Some (x, CORE_PARSE_OK)"
proof -
  have base: "is_base base" using assms by (simp add: is_base_def)
  obtain s where s: "coerceString x base = Some s" "prints base s (unat x)"
    using coerceString_prints [OF base] by blast
  then show ?thesis
    using parse_digits [OF base, of s] unat_bound [of x] by (simp add: prints_def)
qed

lemma coerceString_roundtrip_witness:
  "\<exists>s. coerceString 255 2 = Some s \<and> createUInt256Parse s 2 = Some (255, CORE_PARSE_OK)"
  by (rule coerceString_roundtrip) simp

text \<open>
  A number printed with a decimal point is read back with the same number of
  decimals, also when it is smaller than one and is padded with zeros.
\<close>

theorem coerceStringDecimal_roundtrip:
  assumes "decimals < 20"
  shows "\<exists>s. coerceStringDecimal x decimals = Some s \<and>
    createUInt256ParseDecimal (Some s) decimals = Some (x, CORE_PARSE_OK)"
proof -
  obtain t where t: "coerceString x 10 = Some t" "prints 10 t (unat x)" "list_all isdigit t"
    "t \<noteq> []" "length t \<le> 78"
    using coerceString_decimal by blast
  consider "decimals = 0" | "decimals \<noteq> 0" "decimals \<ge> length t"
    | "decimals \<noteq> 0" "decimals < length t" by linarith
  then show ?thesis
  proof cases
    case 1
    have "createUInt256ParseDecimal (Some t) 0 = createUInt256Parse (t @ []) 10"
      using t by (intro parse_decimal_parts) simp_all
    then show ?thesis using 1 t(1) parse_printed [OF t(2)] by (simp add: coerceStringDecimal_def)
  next
    case 2
    let ?f = "replicate (decimals - length t) 0x30 @ t"
    have "map (\<lambda>c. if c = 0x20 then 0x30 else c) t = t"
      using t(3) isdigit_not by (intro map_idI) (auto simp: list_all_iff)
    then have "coerceStringDecimal x decimals = Some ([0x30] @ 0x2e # ?f)"
      using 2 t(1) by (simp add: coerceStringDecimal_def)
    moreover have "createUInt256ParseDecimal (Some ([0x30] @ 0x2e # ?f)) decimals =
        createUInt256Parse ([0x30] @ ?f) 10"
      using 2 t assms by (intro parse_decimal_parts) (auto simp: isdigit_zero list_all_iff)
    moreover have "prints 10 ([0x30] @ ?f) (unat x)"
      using t(2,3) digits_value_leading_zeros [of "decimals - length t" t]
        isdigit_valid [of "replicate (decimals - length t) 0x30"]
      by (simp add: prints_def isdigit_zero list_all_iff)
    ultimately show ?thesis using parse_printed by simp
  next
    case 3
    let ?n = "length t - decimals"
    have "coerceStringDecimal x decimals = Some (take ?n t @ 0x2e # drop ?n t)"
      using 3 t(1) by (simp add: coerceStringDecimal_def Let_def)
    moreover have "createUInt256ParseDecimal (Some (take ?n t @ 0x2e # drop ?n t)) decimals =
        createUInt256Parse (take ?n t @ drop ?n t) 10"
      using 3 t by (intro parse_decimal_parts) (auto simp: list_all_iff dest: in_set_takeD in_set_dropD)
    ultimately show ?thesis using parse_printed [OF t(2)] by simp
  qed
qed

lemma coerceStringDecimal_roundtrip_witness:
  "\<exists>s. coerceStringDecimal 1500000 18 = Some s \<and>
     createUInt256ParseDecimal (Some s) 18 = Some (1500000, CORE_PARSE_OK)"
  by (rule coerceStringDecimal_roundtrip) simp

end
