(* ===== verification/Rlp.thy ===== *)
theory Rlp
  imports UtilMath UtilHex
begin

text \<open>
  \<^verbatim>\<open>ethereum/rlp/BRRlpCoder.c\<close>: the recursive length prefix encoding of Ethereum.  An item
  is its encoding and, for a list, its sub-items; the pool from which items are taken is
  invisible here.  A \<open>uint8_t *\<close> is the memory from that address to the end of the
  allocation, a \<open>size_t\<close> length is a 64-bit word, and \<open>None\<close> is a failed \<open>assert\<close> or an
  access beyond the allocation.  A length argument that is the size of an existing buffer
  is the length of the list.
\<close>

unbundle bit_operations_syntax

section \<open>Items and data\<close>

datatype BRRlpItem =
    CODER_ITEM (bytes_of: "byte list")
  | CODER_LIST (bytes_of: "byte list") (items_of: "BRRlpItem list")

text \<open>\<open>BRRlpData\<close>: the memory from \<open>bytes\<close> on, and \<open>bytesCount\<close>.\<close>

record BRRlpData =
  bytesCount :: u64
  bytes :: "byte list"

definition RLP_PREFIX_BYTES :: byte where "RLP_PREFIX_BYTES = 0x80"
definition RLP_PREFIX_LIST :: byte where "RLP_PREFIX_LIST = 0xc0"

section \<open>Numbers and lengths\<close>

fun findNonZeroIndex :: "byte list \<Rightarrow> nat" where
  "findNonZeroIndex [] = 0"
| "findNonZeroIndex (b # bs) = (if b \<noteq> 0 then 0 else Suc (findNonZeroIndex bs))"

definition swapBytesIfLittleEndian :: "byte list \<Rightarrow> byte list" where
  "swapBytesIfLittleEndian source = map (\<lambda>i. source ! (length source - 1 - i)) [0..<length source]"

text \<open>The target, \<open>targetIndex\<close> and \<open>targetCount\<close>.\<close>

definition convertToBigEndianAndNormalize :: "byte list \<Rightarrow> (byte list \<times> nat \<times> nat) option" where
  "convertToBigEndianAndNormalize source =
     (if length source \<le> 256 div 8 then
        let target = swapBytesIfLittleEndian source;
            targetIndex = findNonZeroIndex target;
            targetCount = length source - targetIndex
        in Some (if targetCount = 0 then (target, 0, 1) else (target, targetIndex, targetCount))
      else None)"

definition convertFromBigEndian :: "nat \<Rightarrow> byte list \<Rightarrow> u64 \<Rightarrow> byte list option" where
  "convertFromBigEndian targetCount mem count =
     (if unat count \<le> targetCount \<and> unat count \<le> length mem
      then Some (swapBytesIfLittleEndian
                   (replicate (targetCount - unat count) 0 @ take (unat count) mem))
      else None)"

text \<open>The first \<open>bytes9Count\<close> bytes of \<open>bytes9\<close>.\<close>

definition encodeLengthIntoBytes :: "u64 \<Rightarrow> byte \<Rightarrow> byte list option" where
  "encodeLengthIntoBytes len baseline =
     (if len \<le> 55 then Some [baseline + ucast len]
      else (case convertToBigEndianAndNormalize (bytes_le 8 len) of
              None \<Rightarrow> None
            | Some (bytes9, bytesIndex, count) \<Rightarrow>
                Some ((baseline + 55 + word_of_nat count) # take count (drop bytesIndex bytes9))))"

text \<open>The length and the offset of what it counts.\<close>

definition decodeLength :: "byte list \<Rightarrow> byte \<Rightarrow> (u64 \<times> byte) option" where
  "decodeLength mem baseline =
     (case mem of
        [] \<Rightarrow> None
      | prefix # rest \<Rightarrow>
          if prefix < baseline then Some (1, 0)
          else let d = unat prefix - unat baseline in
            if d \<le> 55 then Some (word_of_nat d, 1)
            else let lengthByteCount = d - 55 in
              if lengthByteCount \<le> 8
              then (case convertFromBigEndian 8 rest (word_of_nat lengthByteCount) of
                      None \<Rightarrow> None
                    | Some target \<Rightarrow> Some (word_of_le target, 1 + word_of_nat lengthByteCount))
              else None)"

definition decodeNumber :: "nat \<Rightarrow> byte list \<Rightarrow> byte list option" where
  "decodeNumber targetCount mem =
     (case decodeLength mem RLP_PREFIX_BYTES of
        None \<Rightarrow> None
      | Some (len, offset) \<Rightarrow> convertFromBigEndian targetCount (drop (unat offset) mem) len)"

definition rlpDataDecodeUInt256 :: "BRRlpData \<Rightarrow> UInt256 option" where
  "rlpDataDecodeUInt256 data =
     map_option word_of_le (convertFromBigEndian 32 (bytes data) (bytesCount data))"

definition rlpDataDecodeUInt64 :: "BRRlpData \<Rightarrow> u64 option" where
  "rlpDataDecodeUInt64 data =
     map_option word_of_le (convertFromBigEndian 8 (bytes data) (bytesCount data))"

section \<open>Encoding\<close>

definition coderEncodeBytes :: "byte list \<Rightarrow> BRRlpItem option" where
  "coderEncodeBytes bs =
     (if length bs = 1 \<and> bs ! 0 < RLP_PREFIX_BYTES then Some (CODER_ITEM [bs ! 0])
      else map_option (\<lambda>bytes9. CODER_ITEM (bytes9 @ bs))
             (encodeLengthIntoBytes (word_of_nat (length bs)) RLP_PREFIX_BYTES))"

definition coderEncodeNumber :: "byte list \<Rightarrow> BRRlpItem option" where
  "coderEncodeNumber source =
     (case convertToBigEndianAndNormalize source of
        None \<Rightarrow> None
      | Some (target, bytesIndex, count) \<Rightarrow> coderEncodeBytes (take count (drop bytesIndex target)))"

definition coderEncodeUInt64 :: "u64 \<Rightarrow> BRRlpItem option" where
  "coderEncodeUInt64 value = coderEncodeNumber (bytes_le 8 value)"

definition coderDecodeUInt64 :: "BRRlpItem \<Rightarrow> u64 option" where
  "coderDecodeUInt64 item = map_option word_of_le (decodeNumber 8 (bytes_of item))"

definition coderEncodeUInt256 :: "UInt256 \<Rightarrow> BRRlpItem option" where
  "coderEncodeUInt256 value = coderEncodeNumber (bytes_le 32 value)"

definition coderDecodeUInt256 :: "BRRlpItem \<Rightarrow> UInt256 option" where
  "coderDecodeUInt256 item = map_option word_of_le (decodeNumber 32 (bytes_of item))"

definition coderEncodeList :: "BRRlpItem list \<Rightarrow> BRRlpItem option" where
  "coderEncodeList items =
     (let body = concat (map bytes_of items)
      in map_option (\<lambda>bytes9. CODER_LIST (bytes9 @ body) items)
           (encodeLengthIntoBytes (word_of_nat (length body)) RLP_PREFIX_LIST))"

section \<open>The public interface\<close>

definition rlpEncodeBytes :: "byte list \<Rightarrow> BRRlpItem option" where
  "rlpEncodeBytes = coderEncodeBytes"

definition rlpEncodeBytesPurgeLeadingZeros :: "byte list \<Rightarrow> BRRlpItem option" where
  "rlpEncodeBytesPurgeLeadingZeros bs = rlpEncodeBytes (drop (findNonZeroIndex bs) bs)"

definition rlpEncodeString :: "cstring option \<Rightarrow> BRRlpItem option" where
  "rlpEncodeString string = rlpEncodeBytes (case string of None \<Rightarrow> [] | Some s \<Rightarrow> s)"

definition rlpDecodeStringCheck :: "BRRlpItem \<Rightarrow> bool" where
  "rlpDecodeStringCheck item =
     (case item of
        CODER_ITEM bs \<Rightarrow> bs \<noteq> [] \<and> RLP_PREFIX_BYTES \<le> bs ! 0 \<and> bs ! 0 < RLP_PREFIX_LIST
      | CODER_LIST _ _ \<Rightarrow> False)"

definition rlpDecodeStringEmptyCheck :: "BRRlpItem \<Rightarrow> bool" where
  "rlpDecodeStringEmptyCheck item =
     (case item of
        CODER_ITEM bs \<Rightarrow> length bs = 1 \<and> RLP_PREFIX_BYTES \<le> bs ! 0
      | CODER_LIST _ _ \<Rightarrow> False)"

definition rlpEncodeUInt64 :: "u64 \<Rightarrow> bool \<Rightarrow> BRRlpItem option" where
  "rlpEncodeUInt64 value zeroAsEmptyString =
     (if zeroAsEmptyString \<and> value = 0 then rlpEncodeString (Some []) else coderEncodeUInt64 value)"

definition rlpDecodeUInt64 :: "BRRlpItem \<Rightarrow> bool \<Rightarrow> u64 option" where
  "rlpDecodeUInt64 item zeroAsEmptyString =
     (if zeroAsEmptyString \<and> rlpDecodeStringEmptyCheck item then Some 0 else coderDecodeUInt64 item)"

definition rlpEncodeUInt256 :: "UInt256 \<Rightarrow> bool \<Rightarrow> BRRlpItem option" where
  "rlpEncodeUInt256 value zeroAsEmptyString =
     (if zeroAsEmptyString \<and> compareUInt256 value 0 = 0 then rlpEncodeString (Some [])
      else coderEncodeUInt256 value)"

definition rlpDecodeUInt256 :: "BRRlpItem \<Rightarrow> bool \<Rightarrow> UInt256 option" where
  "rlpDecodeUInt256 item zeroAsEmptyString =
     (if zeroAsEmptyString \<and> rlpDecodeStringEmptyCheck item then Some 0 else coderDecodeUInt256 item)"

text \<open>The bytes that the item's length prefix counts, with the prefix of \<open>baseline\<close>.\<close>

definition decodeBytes :: "BRRlpItem \<Rightarrow> byte \<Rightarrow> byte list option" where
  "decodeBytes item baseline =
     (case decodeLength (bytes_of item) baseline of
        None \<Rightarrow> None
      | Some (len, offset) \<Rightarrow> rd (bytes_of item) (unat offset) (unat len))"

definition rlpDecodeBytes :: "BRRlpItem \<Rightarrow> byte list option" where
  "rlpDecodeBytes item = decodeBytes item RLP_PREFIX_BYTES"

definition rlpDecodeBytesSharedDontReleaseBaseline :: "BRRlpItem \<Rightarrow> byte \<Rightarrow> BRRlpData option" where
  "rlpDecodeBytesSharedDontReleaseBaseline item baseline =
     map_option (\<lambda>(len, offset). \<lparr>bytesCount = len, bytes = drop (unat offset) (bytes_of item)\<rparr>)
       (decodeLength (bytes_of item) baseline)"

definition rlpDecodeBytesSharedDontRelease :: "BRRlpItem \<Rightarrow> BRRlpData option" where
  "rlpDecodeBytesSharedDontRelease item =
     rlpDecodeBytesSharedDontReleaseBaseline item RLP_PREFIX_BYTES"

definition rlpDecodeListSharedDontRelease :: "BRRlpItem \<Rightarrow> BRRlpData option" where
  "rlpDecodeListSharedDontRelease item =
     rlpDecodeBytesSharedDontReleaseBaseline item RLP_PREFIX_LIST"

text \<open>The allocated result without its NUL (the bytes may contain another one).\<close>

definition rlpDecodeString :: "BRRlpItem \<Rightarrow> cstring option" where
  "rlpDecodeString item = decodeBytes item RLP_PREFIX_BYTES"

definition rlpEncodeHexString :: "cstring option \<Rightarrow> BRRlpItem option" where
  "rlpEncodeHexString string =
     (case string of
        None \<Rightarrow> rlpEncodeString (Some [])
      | Some s \<Rightarrow>
          if s = [] then rlpEncodeString (Some [])
          else let s1 = (if take 2 s = [0x30, 0x78] then drop 2 s else s) in
            if length s1 mod 2 \<noteq> 0 then None
            else if length s1 = 0 then rlpEncodeString (Some s1)
            else if length s1 < 16 * 1024
              then (case decodeHex (length s1 div 2) s1 (length s1) of
                      None \<Rightarrow> None | Some bs \<Rightarrow> rlpEncodeBytes bs)
            else (case decodeHexCreate s1 (length s1) of
                    None \<Rightarrow> None | Some (bs, _) \<Rightarrow> rlpEncodeBytes bs))"

definition rlpDecodeHexString :: "BRRlpItem \<Rightarrow> cstring option \<Rightarrow> cstring option" where
  "rlpDecodeHexString item prefix =
     (case rlpDecodeBytes item of
        None \<Rightarrow> None
      | Some bs \<Rightarrow>
          map_option (\<lambda>s. (case prefix of None \<Rightarrow> [] | Some p \<Rightarrow> p) @ s)
            (encodeHex (2 * length bs + 1) bs (length bs)))"

definition rlpEncodeList1 :: "BRRlpItem \<Rightarrow> BRRlpItem option" where
  "rlpEncodeList1 item = coderEncodeList [item]"

definition rlpEncodeList2 :: "BRRlpItem \<Rightarrow> BRRlpItem \<Rightarrow> BRRlpItem option" where
  "rlpEncodeList2 item1 item2 = coderEncodeList [item1, item2]"

definition rlpEncodeListItems :: "BRRlpItem list \<Rightarrow> BRRlpItem option" where
  "rlpEncodeListItems items = coderEncodeList items"

definition rlpDecodeList :: "BRRlpItem \<Rightarrow> BRRlpItem list option" where
  "rlpDecodeList item = (case item of CODER_ITEM _ \<Rightarrow> None | CODER_LIST _ items \<Rightarrow> Some items)"

definition rlpGetDataSharedDontRelease :: "BRRlpItem \<Rightarrow> BRRlpData" where
  "rlpGetDataSharedDontRelease item =
     \<lparr>bytesCount = word_of_nat (length (bytes_of item)), bytes = bytes_of item\<rparr>"

section \<open>Parsing\<close>

text \<open>\<open>bytesCount\<close> of the data at \<open>mem\<close>; the addition of the offset wraps.\<close>

definition rlpGetItem_FillData :: "byte list \<Rightarrow> u64 option" where
  "rlpGetItem_FillData mem =
     (case mem of
        [] \<Rightarrow> None
      | prefix # _ \<Rightarrow>
          if prefix \<ge> RLP_PREFIX_BYTES
          then map_option (\<lambda>(len, offset). len + ucast offset)
                 (decodeLength mem
                    (if prefix < RLP_PREFIX_LIST then RLP_PREFIX_BYTES else RLP_PREFIX_LIST))
          else Some 1)"

lemma decodeLength_offset:
  assumes "decodeLength mem baseline = Some (len, offset)" and "\<not> mem ! 0 < baseline"
  shows "0 < unat offset" and "mem \<noteq> []"
proof -
  obtain p rest where mem: "mem = p # rest" using assms(1) by (auto simp: decodeLength_def split: list.splits)
  then show "mem \<noteq> []" by simp
  have "unat (1 + word_of_nat k :: byte) = 1 + k" if "k \<le> 8" for k
    using that by (simp add: unat_add_mod unsigned_of_nat take_bit_eq_mod)
  moreover define d where "d = unat p - unat baseline"
  ultimately show "0 < unat offset"
    using assms unfolding mem decodeLength_def Let_def d_def [symmetric]
    by (auto split: if_splits option.splits simp del: of_nat_diff)
qed

text \<open>
  \<open>rlpGetItem\<close> on the data at \<open>mem\<close>, and its loop from the current \<open>bytes\<close> on, where \<open>left\<close>
  is \<open>bytesLimit - bytes\<close>.  Nothing keeps a sub-item within \<open>bytesLimit\<close>.
\<close>

function rlpGetItem_at :: "byte list \<Rightarrow> u64 \<Rightarrow> BRRlpItem option"
  and rlpGetItems :: "byte list \<Rightarrow> nat \<Rightarrow> BRRlpItem list option" where
  "rlpGetItem_at mem count =
     (if count = 0 \<or> length mem < unat count then None
      else if mem ! 0 < RLP_PREFIX_LIST then Some (CODER_ITEM (take (unat count) mem))
      else (case decodeLength mem RLP_PREFIX_LIST of
              None \<Rightarrow> None
            | Some (len, offset) \<Rightarrow>
                if count \<noteq> len + ucast offset then None
                else map_option (CODER_LIST (take (unat count) mem))
                       (rlpGetItems (drop (unat offset) mem) (unat count - unat offset))))"
| "rlpGetItems mem left =
     (if left = 0 then Some []
      else (case rlpGetItem_FillData mem of
              None \<Rightarrow> None
            | Some count \<Rightarrow>
                if count = 0 \<or> length mem < unat count then None
                else (case rlpGetItem_at mem count of
                        None \<Rightarrow> None
                      | Some item \<Rightarrow>
                          map_option ((#) item)
                            (rlpGetItems (drop (unat count) mem) (left - unat count)))))"
  by pat_completeness auto

termination
proof (relation "measure (\<lambda>x. case x of Inl (mem, count) \<Rightarrow> 2 * length mem
      | Inr (mem, left) \<Rightarrow> 2 * length mem + 1)", goal_cases)
  case (2 mem count x len offset)
  then show ?case using decodeLength_offset [of mem RLP_PREFIX_LIST len offset]
    by (cases "unat offset"; cases mem) auto
next
  case (4 mem left count item)
  then show ?case by (cases "unat count") (auto simp: unat_eq_zero)
qed auto

declare rlpGetItem_at.simps [simp del] rlpGetItems.simps [simp del]

definition rlpGetItem :: "BRRlpData \<Rightarrow> BRRlpItem option" where
  "rlpGetItem data = rlpGetItem_at (bytes data) (bytesCount data)"

end
