(* ===== verification/Rlp_Correct.thy ===== *)
theory Rlp_Correct
  imports Rlp
begin

text \<open>
  The RLP coder against the definition of RLP: an abstract item is a string or a list, its
  encoding is \<open>rlp_enc\<close>, the encoder's calls produce exactly that encoding, and
  \<open>rlpGetItem\<close> parses it back to the same tree of items.
\<close>

unbundle bit_operations_syntax

section \<open>The specification\<close>

text \<open>The shortest big-endian representation of a number.\<close>

fun nat_be :: "nat \<Rightarrow> byte list" where
  "nat_be n = (if n = 0 then [] else nat_be (n div 256) @ [word_of_nat n])"

declare nat_be.simps [simp del]

definition len_prefix :: "nat \<Rightarrow> nat \<Rightarrow> byte list" where
  "len_prefix base n =
     (if n \<le> 55 then [word_of_nat (base + n)]
      else word_of_nat (base + 55 + length (nat_be n)) # nat_be n)"

datatype rlp = RStr "byte list" | RList "rlp list"

fun rlp_enc :: "rlp \<Rightarrow> byte list" where
  "rlp_enc (RStr bs) =
     (if length bs = 1 \<and> hd bs < 0x80 then bs else len_prefix 0x80 (length bs) @ bs)"
| "rlp_enc (RList rs) =
     (let body = concat (map rlp_enc rs) in len_prefix 0xc0 (length body) @ body)"

text \<open>Building an item with the encoder's calls.\<close>

fun build :: "rlp \<Rightarrow> BRRlpItem option" where
  "build (RStr bs) = rlpEncodeBytes bs"
| "build (RList rs) =
     (case those (map build rs) of None \<Rightarrow> None | Some items \<Rightarrow> rlpEncodeListItems items)"

fun item_of :: "rlp \<Rightarrow> BRRlpItem" where
  "item_of (RStr bs) = CODER_ITEM (rlp_enc (RStr bs))"
| "item_of (RList rs) = CODER_LIST (rlp_enc (RList rs)) (map item_of rs)"

section \<open>Big-endian numbers\<close>

lemma swap_rev [simp]: "swapBytesIfLittleEndian source = rev source"
  by (rule nth_equalityI) (simp_all add: swapBytesIfLittleEndian_def rev_nth)

lemma findNonZeroIndex_eq: "findNonZeroIndex bs = length (takeWhile (\<lambda>b. b = 0) bs)"
  by (induction bs) simp_all

lemma drop_findNonZeroIndex: "drop (findNonZeroIndex bs) bs = dropWhile (\<lambda>b. b = 0) bs"
  by (simp add: findNonZeroIndex_eq dropWhile_eq_drop)

lemma nat_be_unique: "bs = [] \<or> hd bs \<noteq> 0 \<Longrightarrow> nat_be (le_val (rev bs)) = bs"
proof (induction bs rule: rev_induct)
  case (snoc b bs)
  have IH: "nat_be (le_val (rev bs)) = bs" using snoc by (cases bs) auto
  have b: "unat b < 256" using unat_bound [of b] by simp
  let ?n = "unat b + 256 * le_val (rev bs)"
  have "?n \<noteq> 0"
  proof
    assume "?n = 0"
    then have "b = 0" "le_val (rev bs) = 0" by (simp_all add: unat_eq_zero)
    then show False using IH snoc.prems by (cases bs) (simp_all add: nat_be.simps)
  qed
  moreover have "?n div 256 = le_val (rev bs)" using b by simp
  moreover have "(word_of_nat ?n :: byte) = b"
    using b by (intro word_unat_eq_iff [THEN iffD2])
      (simp add: unsigned_of_nat take_bit_eq_mod del: of_nat_add of_nat_mult)
  ultimately show ?case using IH nat_be.simps [of ?n] by simp
qed (simp add: nat_be.simps)

lemma le_val_rev_dropWhile: "le_val (rev (dropWhile (\<lambda>b. b = 0) bs)) = le_val (rev bs)"
proof -
  have "takeWhile (\<lambda>b. b = 0) bs = replicate (length (takeWhile (\<lambda>b. b = 0) bs)) 0"
    by (induction bs) simp_all
  then have "rev bs = rev (dropWhile (\<lambda>b. b = 0) bs) @ replicate (length (takeWhile (\<lambda>b. b = 0) bs)) 0"
    by (metis rev_append rev_replicate takeWhile_dropWhile_id)
  then show ?thesis by (metis le_val_zeros)
qed

lemma normalize_le:
  "dropWhile (\<lambda>b. b = 0) (rev bs) = nat_be (le_val bs)"
proof -
  let ?d = "dropWhile (\<lambda>b. b = 0) (rev bs)"
  have "?d = [] \<or> hd ?d \<noteq> 0" using hd_dropWhile [of "\<lambda>b. b = 0" "rev bs"] by auto
  then show ?thesis
    using nat_be_unique [of ?d] le_val_rev_dropWhile [of "rev bs"] by simp
qed

lemma le_val_nat_be: "le_val (rev (nat_be n)) = n"
proof (induction n rule: nat_be.induct)
  case (1 n)
  then show ?case
    by (subst nat_be.simps) (simp add: unsigned_of_nat take_bit_eq_mod)
qed

lemma nat_be_eq_Nil [simp]: "nat_be n = [] \<longleftrightarrow> n = 0"
  by (subst nat_be.simps) simp

lemma hd_nat_be: "n \<noteq> 0 \<Longrightarrow> hd (nat_be n) \<noteq> 0"
proof (induction n rule: nat_be.induct)
  case (1 n)
  show ?case
  proof (cases "n div 256 = 0")
    case True
    then have "n < 256" by (simp add: div_eq_0_iff)
    then have "(word_of_nat n :: byte) \<noteq> 0" using "1.prems"
      by (simp add: word_unat_eq_iff unsigned_of_nat take_bit_eq_mod)
    then show ?thesis using True "1.prems" by (subst nat_be.simps) (simp add: nat_be.simps)
  next
    case False
    then show ?thesis using "1.IH" "1.prems" by (subst nat_be.simps) simp
  qed
qed

lemma length_nat_be: "n < 256 ^ k \<Longrightarrow> length (nat_be n) \<le> k"
proof (induction k arbitrary: n)
  case (Suc k)
  then have "n div 256 < 256 ^ k" by (simp add: less_mult_imp_div_less mult.commute)
  then show ?case using Suc.IH by (subst nat_be.simps) simp
qed (simp add: nat_be.simps)

text \<open>What the encoder writes for a number: its bytes, and one zero byte for zero.\<close>

definition number_bytes :: "nat \<Rightarrow> byte list" where
  "number_bytes n = (if n = 0 then [0] else nat_be n)"

lemma normalized_bytes:
  assumes "source \<noteq> []" and "length source \<le> 32"
    and "convertToBigEndianAndNormalize source = Some (target, i, c)"
  shows "take c (drop i target) = number_bytes (le_val source)"
proof -
  let ?t = "rev source"
  have d: "drop (findNonZeroIndex ?t) ?t = nat_be (le_val source)"
    unfolding drop_findNonZeroIndex by (rule normalize_le)
  show ?thesis
  proof (cases "length source - findNonZeroIndex ?t = 0")
    case True
    then have z: "nat_be (le_val source) = []" using d by (metis diff_is_0_eq drop_all length_rev)
    then have "dropWhile (\<lambda>b. b = 0) ?t = []" using d by (simp add: drop_findNonZeroIndex)
    then have "\<forall>x \<in> set ?t. x = 0" by simp
    moreover have "?t ! 0 \<in> set ?t" using assms(1) by (intro nth_mem) simp
    ultimately have "?t ! 0 = 0" by blast
    moreover have "target = ?t" "i = 0" "c = 1"
      using True assms(2,3) by (simp_all add: convertToBigEndianAndNormalize_def Let_def)
    moreover have "?t = ?t ! 0 # tl ?t" using assms(1) by (cases ?t) auto
    ultimately show ?thesis using z
      by (metis One_nat_def drop_0 nat_be_eq_Nil number_bytes_def take0 take_Suc_Cons)
  next
    case False
    then have "convertToBigEndianAndNormalize source =
        Some (?t, findNonZeroIndex ?t, length source - findNonZeroIndex ?t)"
      using assms(2) by (simp add: convertToBigEndianAndNormalize_def Let_def)
    then have "target = ?t" "i = findNonZeroIndex ?t" "c = length source - findNonZeroIndex ?t"
      using assms(3) by simp_all
    moreover have "nat_be (le_val source) \<noteq> []" using d False by (metis diff_is_0_eq drop_eq_Nil length_rev)
    moreover have "length source - findNonZeroIndex ?t = length (nat_be (le_val source))"
      using arg_cong [OF d, of length] by simp
    ultimately show ?thesis using d by (simp add: number_bytes_def)
  qed
qed

lemma normalize_total:
  "length source \<le> 32 \<Longrightarrow> convertToBigEndianAndNormalize source \<noteq> None"
  by (simp add: convertToBigEndianAndNormalize_def Let_def)

lemma encodeLength_spec:
  assumes "n < 2 ^ 64" and "base + 63 < 256"
  shows "encodeLengthIntoBytes (word_of_nat n) (word_of_nat base) = Some (len_prefix base n)"
proof (cases "n \<le> 55")
  case True
  moreover have "(ucast (word_of_nat n :: u64) :: byte) = word_of_nat n"
    using True by (intro word_unat_eq_iff [THEN iffD2])
      (simp add: unat_ucast_mod unsigned_of_nat take_bit_eq_mod)
  ultimately show ?thesis using assms(1)
    by (simp add: encodeLengthIntoBytes_def len_prefix_def word_le_nat_alt unat_of_nat_small)
next
  case False
  let ?w = "word_of_nat n :: u64"
  obtain target i c where norm: "convertToBigEndianAndNormalize (bytes_le 8 ?w) = Some (target, i, c)"
    using normalize_total [of "bytes_le 8 ?w"] by (metis (full_types) length_bytes_le
      not_None_eq numeral_le_iff prod_cases3 semiring_norm(68,71,72))
  have v: "le_val (bytes_le 8 ?w) = n" using assms(1) by (simp add: le_val_bytes_le unat_of_nat_small)
  have "bytes_le 8 ?w \<noteq> []" by (metis length_bytes_le list.size(3) zero_neq_numeral)
  from normalized_bytes [OF this _ norm] have t: "take c (drop i target) = nat_be n"
    using False v by (simp add: number_bytes_def)
  have c: "c = length (nat_be n)"
  proof -
    have "c \<le> length target - i"
      using norm by (auto simp: convertToBigEndianAndNormalize_def Let_def split: if_splits)
    then show ?thesis unfolding t [symmetric] by simp
  qed
  then show ?thesis using False assms(1) norm t
    by (simp add: encodeLengthIntoBytes_def len_prefix_def word_le_nat_alt unat_of_nat_small)
qed

section \<open>Encoding\<close>

lemma length_len_prefix: "length (len_prefix base n) \<le> 1 + length (nat_be n)"
  by (simp add: len_prefix_def)

lemma len_prefix_nonempty [simp]: "len_prefix base n \<noteq> []"
  by (simp add: len_prefix_def)

lemma encodeBytes_spec:
  assumes "length bs < 2 ^ 64"
  shows "coderEncodeBytes bs = Some (CODER_ITEM (rlp_enc (RStr bs)))"
proof -
  have "(word_of_nat 128 :: byte) = RLP_PREFIX_BYTES" by (simp add: RLP_PREFIX_BYTES_def)
  then have "encodeLengthIntoBytes (word_of_nat (length bs)) RLP_PREFIX_BYTES =
      Some (len_prefix 128 (length bs))"
    using encodeLength_spec [OF assms, of 128] by simp
  then show ?thesis
    by (cases bs) (auto simp: coderEncodeBytes_def RLP_PREFIX_BYTES_def)
qed

lemma encodeList_spec:
  assumes "length (concat (map bytes_of items)) < 2 ^ 64"
  shows "coderEncodeList items =
    Some (CODER_LIST (len_prefix 0xc0 (length (concat (map bytes_of items))) @
      concat (map bytes_of items)) items)"
proof -
  have "(word_of_nat 192 :: byte) = RLP_PREFIX_LIST" by (simp add: RLP_PREFIX_LIST_def)
  then have "encodeLengthIntoBytes (word_of_nat (length (concat (map bytes_of items)))) RLP_PREFIX_LIST =
      Some (len_prefix 192 (length (concat (map bytes_of items))))"
    using encodeLength_spec [OF assms, of 192] by simp
  then show ?thesis by (simp add: coderEncodeList_def Let_def)
qed

lemma bytes_of_item [simp]: "bytes_of (item_of r) = rlp_enc r"
  by (cases r) simp_all

lemma length_le_concat: "x \<in> set xs \<Longrightarrow> length (f x) \<le> length (concat (map f xs))"
  by (induction xs) auto

lemma those_Some: "(\<And>x. x \<in> set xs \<Longrightarrow> f x = Some (g x)) \<Longrightarrow> those (map f xs) = Some (map g xs)"
  by (induction xs) simp_all

lemma sub_length:
  "r \<in> set rs \<Longrightarrow> length (rlp_enc (RList rs)) < m \<Longrightarrow> length (rlp_enc r) < m"
  using length_le_concat [of r rs rlp_enc] by (simp add: Let_def)

lemma build_item: "length (rlp_enc r) < 2 ^ 64 \<Longrightarrow> build r = Some (item_of r)"
proof (induction r)
  case (RStr bs)
  then have "length bs < 2 ^ 64" by (auto split: if_splits)
  then show ?case using encodeBytes_spec [of bs] by (simp add: rlpEncodeBytes_def)
next
  case (RList rs)
  have "those (map build rs) = Some (map item_of rs)"
    using RList sub_length by (intro those_Some) blast
  moreover have "length (concat (map rlp_enc rs)) < 2 ^ 64"
    using RList.prems by (simp add: Let_def)
  ultimately show ?case
    using encodeList_spec [of "map item_of rs"] by (simp add: rlpEncodeListItems_def Let_def o_def)
qed

section \<open>Decoding\<close>

lemma convertFromBigEndian_spec:
  assumes "length bs \<le> targetCount" and "length bs < 2 ^ 64"
  shows "convertFromBigEndian targetCount (bs @ rest) (word_of_nat (length bs)) =
    Some (rev bs @ replicate (targetCount - length bs) 0)"
  using assms by (simp add: convertFromBigEndian_def unat_of_nat_small)

lemma decodeLength_spec:
  assumes n: "n < 2 ^ 64" and base: "base + 63 < 256"
  shows "decodeLength (len_prefix base n @ rest) (word_of_nat base) =
    Some (word_of_nat n, word_of_nat (length (len_prefix base n)))"
proof (cases "n \<le> 55")
  case True
  have "unat (word_of_nat (base + n) :: byte) = base + n" "unat (word_of_nat base :: byte) = base"
    using base True by (simp_all add: unat_of_nat_small del: of_nat_add)
  then show ?thesis using True
    by (simp add: decodeLength_def len_prefix_def word_less_nat_alt Let_def del: of_nat_add)
next
  case False
  let ?be = "nat_be n"
  have len: "length ?be \<le> 8" using n by (intro length_nat_be) simp
  have pos: "0 < length ?be" using False by simp
  have p: "unat (word_of_nat (base + 55 + length ?be) :: byte) = base + 55 + length ?be"
    "unat (word_of_nat base :: byte) = base"
    using base len by (simp_all add: unat_of_nat_small del: of_nat_add)
  have conv: "convertFromBigEndian 8 (?be @ rest) (word_of_nat (length ?be)) =
      Some (rev ?be @ replicate (8 - length ?be) 0)"
    using len by (intro convertFromBigEndian_spec) simp_all
  have "unat (word_of_le (rev ?be @ replicate (8 - length ?be) 0) :: u64) = n"
    using len by (simp add: unat_word_of_le le_val_nat_be)
  then have w: "(word_of_le (rev ?be @ replicate (8 - length ?be) 0) :: u64) = word_of_nat n"
    by (metis word_of_nat_unat)
  show ?thesis using False len pos p conv w
    by (simp add: decodeLength_def len_prefix_def word_less_nat_alt Let_def del: of_nat_add)
qed

lemma prefix_byte:
  assumes "n < 2 ^ 64" and "base + 63 < 256"
  shows "base \<le> unat (len_prefix base n ! 0)" and "unat (len_prefix base n ! 0) \<le> base + 63"
proof -
  have "length (nat_be n) \<le> 8" using assms(1) by (intro length_nat_be) simp
  then show "base \<le> unat (len_prefix base n ! 0)" "unat (len_prefix base n ! 0) \<le> base + 63"
    using assms(2) by (simp_all add: len_prefix_def unat_of_nat_small del: of_nat_add)
qed

lemma offset_small: "n < 2 ^ 64 \<Longrightarrow> length (len_prefix base n) \<le> 9"
  using length_nat_be [of n 8] length_len_prefix [of base n] by simp

lemma prefix_offset:
  assumes "n < 2 ^ 64"
  shows "unat (word_of_nat (length (len_prefix base n)) :: byte) = length (len_prefix base n)"
    and "ucast (word_of_nat (length (len_prefix base n)) :: byte) =
      (word_of_nat (length (len_prefix base n)) :: u64)"
proof -
  show a: "unat (word_of_nat (length (len_prefix base n)) :: byte) = length (len_prefix base n)"
    using offset_small [OF assms, of base] by (simp add: unat_of_nat_small)
  show "ucast (word_of_nat (length (len_prefix base n)) :: byte) =
      (word_of_nat (length (len_prefix base n)) :: u64)"
    using offset_small [OF assms, of base] a
    by (intro word_unat_eq_iff [THEN iffD2]) (simp add: unat_ucast_mod unsigned_of_nat take_bit_eq_mod)
qed

lemma fillData_spec:
  assumes "length (rlp_enc r) < 2 ^ 64"
  shows "rlpGetItem_FillData (rlp_enc r @ rest) = Some (word_of_nat (length (rlp_enc r)))"
proof -
  have fill: "rlpGetItem_FillData (len_prefix base n @ body) =
      Some (word_of_nat (length (len_prefix base n) + n))"
    if "n < 2 ^ 64" "(base = 128 \<or> base = 192)" for base n body
  proof -
    have b: "base + 63 < 256" using that(2) by auto
    note p = prefix_byte [OF that(1) b]
    obtain q qs where q: "len_prefix base n = q # qs" by (cases "len_prefix base n") auto
    have big: "RLP_PREFIX_BYTES \<le> q" and lst: "q < RLP_PREFIX_LIST \<longleftrightarrow> base = 128"
      using p that(2) q by (auto simp: RLP_PREFIX_BYTES_def RLP_PREFIX_LIST_def word_le_nat_alt
          word_less_nat_alt)
    have "(if q < RLP_PREFIX_LIST then RLP_PREFIX_BYTES else RLP_PREFIX_LIST) = word_of_nat base"
      using lst that(2) by (auto simp: RLP_PREFIX_BYTES_def RLP_PREFIX_LIST_def)
    then show ?thesis
      using big decodeLength_spec [OF that(1) b, of body] prefix_offset(2) [OF that(1), of base] q
      by (simp add: rlpGetItem_FillData_def add.commute)
  qed
  show ?thesis
  proof (cases r)
    case (RStr bs)
    show ?thesis
    proof (cases "length bs = 1 \<and> hd bs < 0x80")
      case True
      then obtain b where "bs = [b]" "b < 0x80" by (cases bs) auto
      then have "\<not> RLP_PREFIX_BYTES \<le> b" by (simp add: RLP_PREFIX_BYTES_def not_le)
      then show ?thesis using RStr \<open>bs = [b]\<close> \<open>b < 0x80\<close> by (simp add: rlpGetItem_FillData_def)
    next
      case False
      then have "rlp_enc r = len_prefix 128 (length bs) @ bs" using RStr by auto
      then show ?thesis using fill [of "length bs" 128 "bs @ rest"] assms by simp
    qed
  next
    case (RList rs)
    then show ?thesis
      using fill [of "length (concat (map rlp_enc rs))" 192 "concat (map rlp_enc rs) @ rest"] assms
      by (simp add: Let_def)
  qed
qed

lemma rlp_enc_nonempty [simp]: "rlp_enc r \<noteq> []"
  by (cases r) (auto simp: Let_def)

lemma getItems_spec:
  assumes "\<And>r rest. r \<in> set rs \<Longrightarrow> rlpGetItem_at (rlp_enc r @ rest) (word_of_nat (length (rlp_enc r))) =
      Some (item_of r)"
    and "length (concat (map rlp_enc rs)) < 2 ^ 64"
  shows "rlpGetItems (concat (map rlp_enc rs) @ rest) (length (concat (map rlp_enc rs))) =
    Some (map item_of rs)"
  using assms
proof (induction rs)
  case (Cons r rs)
  let ?n = "length (rlp_enc r)" and ?m = "length (concat (map rlp_enc rs))"
  have n: "?n < 2 ^ 64" "?m < 2 ^ 64" "?n \<noteq> 0" using Cons.prems(2) by simp_all
  then have u: "unat (word_of_nat ?n :: u64) = ?n" "(word_of_nat ?n :: u64) \<noteq> 0"
    by (simp_all add: unat_of_nat_small word_unat_eq_iff)
  have IH: "rlpGetItems (concat (map rlp_enc rs) @ rest) ?m = Some (map item_of rs)"
    using Cons.IH Cons.prems(1) n(2) by simp
  have fill: "rlpGetItem_FillData (rlp_enc r @ concat (map rlp_enc rs) @ rest) = Some (word_of_nat ?n)"
    using n(1) by (rule fillData_spec)
  show ?case
    using u n(3) IH fill Cons.prems(1) [of r "concat (map rlp_enc rs) @ rest"]
    by (subst rlpGetItems.simps) simp
qed (simp add: rlpGetItems.simps)

lemma getItem_spec:
  "length (rlp_enc r) < 2 ^ 64 \<Longrightarrow>
   rlpGetItem_at (rlp_enc r @ rest) (word_of_nat (length (rlp_enc r))) = Some (item_of r)"
proof (induction r arbitrary: rest)
  case (RStr bs)
  let ?e = "rlp_enc (RStr bs)"
  have u: "unat (word_of_nat (length ?e) :: u64) = length ?e" "(word_of_nat (length ?e) :: u64) \<noteq> 0"
    using RStr rlp_enc_nonempty [of "RStr bs"]
    by (simp_all add: unat_of_nat_small word_unat_eq_iff del: rlp_enc.simps rlp_enc_nonempty)
  have "?e ! 0 < RLP_PREFIX_LIST"
  proof (cases "length bs = 1 \<and> hd bs < 0x80")
    case True
    then obtain b where "bs = [b]" "b < 0x80" by (cases bs) auto
    then show ?thesis by (simp add: RLP_PREFIX_LIST_def word_less_nat_alt)
  next
    case False
    then have e: "?e = len_prefix 128 (length bs) @ bs" by auto
    then have n: "length bs < 2 ^ 64" using RStr by simp
    have "?e ! 0 = len_prefix 128 (length bs) ! 0"
      unfolding e using len_prefix_nonempty [of 128 "length bs"] by (simp add: nth_append)
    then show ?thesis using prefix_byte(2) [OF n, of 128]
      by (simp add: RLP_PREFIX_LIST_def word_less_nat_alt)
  qed
  moreover have "(?e @ rest) ! 0 = ?e ! 0"
    using rlp_enc_nonempty [of "RStr bs"] by (simp add: nth_append del: rlp_enc.simps rlp_enc_nonempty)
  ultimately show ?case
    using u by (subst rlpGetItem_at.simps) (simp del: rlp_enc.simps)
next
  case (RList rs)
  let ?body = "concat (map rlp_enc rs)" and ?e = "rlp_enc (RList rs)"
  let ?p = "len_prefix 192 (length ?body)"
  have e: "?e = ?p @ ?body" by (simp add: Let_def)
  then have n: "length ?body < 2 ^ 64" using RList.prems by simp
  have u: "unat (word_of_nat (length ?e) :: u64) = length ?e" "(word_of_nat (length ?e) :: u64) \<noteq> 0"
    using RList.prems rlp_enc_nonempty [of "RList rs"]
    by (simp_all add: unat_of_nat_small word_unat_eq_iff del: rlp_enc.simps rlp_enc_nonempty)
  have items: "rlpGetItems (?body @ rest) (length ?body) = Some (map item_of rs)"
    using RList sub_length n by (intro getItems_spec) blast+
  have "(?e @ rest) ! 0 = ?p ! 0"
    unfolding e using len_prefix_nonempty [of 192 "length ?body"] by (simp add: nth_append)
  then have big: "\<not> (?e @ rest) ! 0 < RLP_PREFIX_LIST"
    using prefix_byte(1) [OF n, of 192] by (simp add: RLP_PREFIX_LIST_def word_less_nat_alt)
  have dec: "decodeLength (?e @ rest) RLP_PREFIX_LIST =
      Some (word_of_nat (length ?body), word_of_nat (length ?p))"
    using decodeLength_spec [OF n, of 192 "?body @ rest"]
    by (simp only: e RLP_PREFIX_LIST_def append_assoc of_nat_numeral)
  have count: "(word_of_nat (length ?e) :: u64) =
      word_of_nat (length ?body) + ucast (word_of_nat (length ?p) :: byte)"
    unfolding e length_append of_nat_add prefix_offset(2) [OF n] by (rule add.commute)
  have off: "unat (word_of_nat (length ?p) :: byte) = length ?p" by (rule prefix_offset(1) [OF n])
  have "drop (length ?p) (?e @ rest) = ?body @ rest" "length ?e - length ?p = length ?body"
    unfolding e by simp_all
  then show ?case
    using u big dec count off items
    by (subst rlpGetItem_at.simps) (simp del: rlp_enc.simps)
qed

section \<open>Strings and numbers\<close>

lemma rd_tail: "length pre = off \<Longrightarrow> length bs = n \<Longrightarrow> rd (pre @ bs) off n = Some bs"
  using rd_append [of pre off bs n "[]"] by simp

lemma decodeLength_enc:
  assumes "length bs < 2 ^ 64"
  shows "\<exists>offset. decodeLength (rlp_enc (RStr bs)) RLP_PREFIX_BYTES = Some (word_of_nat (length bs), offset) \<and>
    drop (unat offset) (rlp_enc (RStr bs)) = bs"
proof (cases "length bs = 1 \<and> hd bs < 0x80")
  case True
  then obtain b where "bs = [b]" "b < 0x80" by (cases bs) auto
  then show ?thesis by (simp add: decodeLength_def RLP_PREFIX_BYTES_def)
next
  case False
  then have e: "rlp_enc (RStr bs) = len_prefix 128 (length bs) @ bs" by auto
  have "(word_of_nat 128 :: byte) = RLP_PREFIX_BYTES" by (simp add: RLP_PREFIX_BYTES_def)
  then have "decodeLength (rlp_enc (RStr bs)) RLP_PREFIX_BYTES =
      Some (word_of_nat (length bs), word_of_nat (length (len_prefix 128 (length bs))))"
    unfolding e using decodeLength_spec [OF assms, of 128 bs] by simp
  moreover have "drop (length (len_prefix 128 (length bs))) (rlp_enc (RStr bs)) = bs"
    unfolding e by simp
  ultimately show ?thesis using prefix_offset(1) [OF assms, of 128] by metis
qed

lemma decodeBytes_enc:
  assumes "length bs < 2 ^ 64"
  shows "rlpDecodeBytes (CODER_ITEM (rlp_enc (RStr bs))) = Some bs"
proof -
  let ?e = "rlp_enc (RStr bs)"
  obtain offset where o: "decodeLength ?e RLP_PREFIX_BYTES = Some (word_of_nat (length bs), offset)"
    "drop (unat offset) ?e = bs"
    using decodeLength_enc [OF assms] by blast
  have len: "unat offset + length bs \<le> length ?e"
  proof (cases "bs = []")
    case True
    then show ?thesis using o(1) by (auto simp: decodeLength_def len_prefix_def RLP_PREFIX_BYTES_def)
  next
    case False
    have "length (drop (unat offset) ?e) = length bs" using o(2) by (rule arg_cong)
    then show ?thesis using False by (simp del: rlp_enc.simps) (cases "length bs"; simp)
  qed
  have "unat (word_of_nat (length bs) :: u64) = length bs" using assms by (simp add: unat_of_nat_small)
  then show ?thesis using o len
    by (simp add: rlpDecodeBytes_def decodeBytes_def rd_def del: rlp_enc.simps)
qed

lemma decodeNumber_enc:
  assumes "length bs < 2 ^ 64" and "length bs \<le> targetCount"
  shows "decodeNumber targetCount (rlp_enc (RStr bs)) =
    Some (rev bs @ replicate (targetCount - length bs) 0)"
proof -
  obtain offset where
    "decodeLength (rlp_enc (RStr bs)) RLP_PREFIX_BYTES = Some (word_of_nat (length bs), offset)"
    "drop (unat offset) (rlp_enc (RStr bs)) = bs"
    using decodeLength_enc [OF assms(1)] by blast
  then show ?thesis
    using convertFromBigEndian_spec [OF assms(2,1), of "[]"]
    by (simp add: decodeNumber_def del: rlp_enc.simps)
qed

lemma encodeNumber_enc:
  assumes "source \<noteq> []" and "length source \<le> 32"
  shows "coderEncodeNumber source = Some (CODER_ITEM (rlp_enc (RStr (number_bytes (le_val source)))))"
    and "length (number_bytes (le_val source)) \<le> length source"
proof -
  obtain target i c where norm: "convertToBigEndianAndNormalize source = Some (target, i, c)"
    using normalize_total [OF assms(2)] by (metis not_None_eq prod_cases3)
  have "length (nat_be (le_val source)) \<le> length source"
    using le_val_bound [of source] by (rule length_nat_be)
  then show len: "length (number_bytes (le_val source)) \<le> length source"
    using assms(1) by (cases source) (auto simp: number_bytes_def)
  then have "length (number_bytes (le_val source)) < 2 ^ 64" using assms(2) by simp
  then show "coderEncodeNumber source = Some (CODER_ITEM (rlp_enc (RStr (number_bytes (le_val source)))))"
    using encodeBytes_spec normalized_bytes [OF assms norm] norm
    by (simp add: coderEncodeNumber_def del: rlp_enc.simps)
qed

lemma le_val_number_bytes: "le_val (rev (number_bytes n)) = n"
  by (simp add: number_bytes_def le_val_nat_be)

lemma uint_number:
  assumes "LENGTH('a) = 8 * n" and "0 < n" and "n \<le> 32"
  shows "\<exists>item. coderEncodeNumber (bytes_le n (v :: 'a::len word)) = Some item \<and>
    map_option word_of_le (decodeNumber n (bytes_of item)) = Some v \<and>
    \<not> rlpDecodeStringEmptyCheck item"
proof -
  let ?s = "bytes_le n v" and ?b = "number_bytes (unat v)"
  have s: "?s \<noteq> []" "length ?s \<le> 32" "le_val ?s = unat v"
    using assms by (auto simp: le_val_bytes_le simp flip: length_0_conv)
  note enc = encodeNumber_enc [OF s(1,2), unfolded s(3)]
  have len: "length ?b < 2 ^ 64" "length ?b \<le> n" using enc(2) assms(3) by simp_all
  have "unat (word_of_le (rev ?b @ replicate (n - length ?b) 0) :: 'a word) = unat v"
    using assms(1) len(2) by (simp add: unat_word_of_le le_val_number_bytes)
  then have "(word_of_le (rev ?b @ replicate (n - length ?b) 0) :: 'a word) = v"
    by (rule word_unat_eq_iff [THEN iffD2])
  moreover have "\<not> rlpDecodeStringEmptyCheck (CODER_ITEM (rlp_enc (RStr ?b)))"
  proof (cases "length ?b = 1 \<and> hd ?b < 0x80")
    case True
    then obtain b where "?b = [b]" "b < 0x80" by (cases ?b) auto
    then show ?thesis by (simp add: rlpDecodeStringEmptyCheck_def RLP_PREFIX_BYTES_def not_le)
  next
    case False
    have "?b \<noteq> []" by (simp add: number_bytes_def)
    then have "length (rlp_enc (RStr ?b)) \<noteq> 1" using False
      by (cases "len_prefix 128 (length ?b)"; cases ?b) auto
    then show ?thesis by (simp add: rlpDecodeStringEmptyCheck_def)
  qed
  ultimately show ?thesis
    using enc(1) decodeNumber_enc [OF len] by (simp del: rlp_enc.simps)
qed

lemma item_of_inject:
  "\<lbrakk>item_of r = item_of r'; length (rlp_enc r) < 2 ^ 64; length (rlp_enc r') < 2 ^ 64\<rbrakk> \<Longrightarrow> r = r'"
proof (induction r arbitrary: r')
  case (RStr bs)
  then obtain bs' where r': "r' = RStr bs'" by (cases r') auto
  have len: "length bs < 2 ^ 64" "length bs' < 2 ^ 64"
    using RStr.prems(2,3) r' by (auto split: if_splits)
  have item: "CODER_ITEM (rlp_enc (RStr bs)) = CODER_ITEM (rlp_enc (RStr bs'))"
    using RStr.prems(1) unfolding r' item_of.simps .
  have "Some bs = Some bs'"
    using decodeBytes_enc [OF len(1)] decodeBytes_enc [OF len(2)] unfolding item by (rule trans [OF sym])
  then show ?case using r' by simp
next
  case (RList rs)
  then obtain rs' where r': "r' = RList rs'" by (cases r') auto
  then have map: "map item_of rs = map item_of rs'" using RList.prems(1) by simp
  have "rs = rs'"
  proof (rule nth_equalityI)
    show len: "length rs = length rs'" using map by (rule map_eq_imp_length_eq)
    fix i assume i: "i < length rs"
    have "item_of (rs ! i) = item_of (rs' ! i)" using map i len by (metis nth_map)
    moreover have "length (rlp_enc (rs ! i)) < 2 ^ 64" "length (rlp_enc (rs' ! i)) < 2 ^ 64"
      using sub_length [OF nth_mem] i len RList.prems(2,3) r' by metis+
    ultimately show "rs ! i = rs' ! i" using RList.IH i by simp
  qed
  then show ?case using r' by simp
qed

lemma empty_string: "rlpEncodeString (Some []) = Some (CODER_ITEM [0x80])"
  using encodeBytes_spec [of "[]"] by (simp add: rlpEncodeString_def rlpEncodeBytes_def len_prefix_def)

section \<open>The coder is correct\<close>

text \<open>
  Claim C20.  For every tree of strings and lists whose encoding fits memory, the encoder's
  calls produce the RLP encoding, and \<open>rlpGetItem\<close> on that encoding returns the same tree
  of items, every sub-item with its own encoding, whatever follows it in memory.
\<close>

theorem rlp_roundtrip:
  assumes "length (rlp_enc r) < 2 ^ 64"
  shows "build r = Some (item_of r) \<and> bytes_of (item_of r) = rlp_enc r \<and>
    rlpGetItem \<lparr>bytesCount = word_of_nat (length (rlp_enc r)), bytes = rlp_enc r @ rest\<rparr> =
      Some (item_of r)"
  using build_item [OF assms] getItem_spec [OF assms, of rest] by (simp add: rlpGetItem_def)

lemma rlp_roundtrip_witness:
  "rlpGetItem \<lparr>bytesCount = 9, bytes = [0xc8, 0x83, 1, 2, 3, 0xc1, 7, 0x80, 5, 99]\<rparr> =
    Some (CODER_LIST [0xc8, 0x83, 1, 2, 3, 0xc1, 7, 0x80, 5]
      [CODER_ITEM [0x83, 1, 2, 3], CODER_LIST [0xc1, 7] [CODER_ITEM [7]], CODER_ITEM [0x80],
       CODER_ITEM [5]])"
  using rlp_roundtrip [of "RList [RStr [1, 2, 3], RList [RStr [7]], RStr [], RStr [5]]" "[99]"]
  by (simp add: len_prefix_def)

text \<open>
  RLP is uniquely decodable: two encodings that agree as far as one of them goes
  are encodings of the same item.
\<close>

lemma rlp_prefix_free:
  assumes "rlp_enc r @ x = rlp_enc r' @ y"
    and "length (rlp_enc r) < 2 ^ 64" and "length (rlp_enc r') < 2 ^ 64"
  shows "r = r' \<and> x = y"
proof -
  let ?n = "length (rlp_enc r)" and ?n' = "length (rlp_enc r')"
  have "(word_of_nat ?n :: u64) = word_of_nat ?n'"
    using fillData_spec [OF assms(2), of x] fillData_spec [OF assms(3), of y] assms(1) by simp
  then have "unat (word_of_nat ?n :: u64) = unat (word_of_nat ?n' :: u64)" by (rule arg_cong)
  then have "?n = ?n'" using assms(2,3) by (simp add: unat_of_nat_small)
  then have eq: "rlp_enc r = rlp_enc r'" "x = y" using assms(1) by simp_all
  then have "item_of r = item_of r'"
    using getItem_spec [OF assms(2), of x] getItem_spec [OF assms(3), of x] by simp
  then show ?thesis using item_of_inject assms(2,3) eq(2) by blast
qed

text \<open>
  Every 64-bit and 256-bit number that is encoded is decoded again, with zero as
  the byte 0 or as the empty string, as long as both sides use the same convention.
\<close>

theorem rlp_number_roundtrip:
  "(\<exists>item. rlpEncodeUInt64 v z = Some item \<and> rlpDecodeUInt64 item z = Some v) \<and>
   (\<exists>item. rlpEncodeUInt256 w z = Some item \<and> rlpDecodeUInt256 item z = Some w)"
proof -
  obtain i where i: "coderEncodeNumber (bytes_le 8 v) = Some i" "\<not> rlpDecodeStringEmptyCheck i"
    "map_option word_of_le (decodeNumber 8 (bytes_of i)) = Some v"
    using uint_number [of 8 v] by auto
  obtain j where j: "coderEncodeNumber (bytes_le 32 w) = Some j" "\<not> rlpDecodeStringEmptyCheck j"
    "map_option word_of_le (decodeNumber 32 (bytes_of j)) = Some w"
    using uint_number [of 32 w] by auto
  have e: "rlpDecodeStringEmptyCheck (CODER_ITEM [0x80])"
    by (simp add: rlpDecodeStringEmptyCheck_def RLP_PREFIX_BYTES_def)
  have "\<exists>item. rlpEncodeUInt64 v z = Some item \<and> rlpDecodeUInt64 item z = Some v"
    using i e by (cases "z \<and> v = 0") (auto simp: rlpEncodeUInt64_def rlpDecodeUInt64_def
      coderEncodeUInt64_def coderDecodeUInt64_def empty_string)
  moreover have "\<exists>item. rlpEncodeUInt256 w z = Some item \<and> rlpDecodeUInt256 item z = Some w"
    using j e by (cases "z \<and> w = 0") (auto simp: rlpEncodeUInt256_def rlpDecodeUInt256_def
      coderEncodeUInt256_def coderDecodeUInt256_def empty_string compareUInt256_def)
  ultimately show ?thesis by blast
qed

text \<open>
  Byte strings survive \<open>rlpEncodeBytes\<close> and \<open>rlpDecodeBytes\<close>, and hexadecimal
  strings survive with or without the 0x that the encoder strips.
\<close>

theorem rlp_bytes_roundtrip:
  assumes "length bs < 2 ^ 62"
  shows "\<exists>item. rlpEncodeBytes bs = Some item \<and> rlpDecodeBytes item = Some bs \<and>
    (\<exists>s. encodeHexCreate bs (length bs) = Some (s, 2 * length bs + 1) \<and>
       rlpEncodeHexString (Some ([0x30, 0x78] @ s)) = Some item \<and>
       rlpDecodeHexString item (Some [0x30, 0x78]) = Some ([0x30, 0x78] @ s))"
proof -
  let ?i = "CODER_ITEM (rlp_enc (RStr bs))" and ?s = "encode_loop bs"
  have n: "length bs < 2 ^ 64" using assms by simp
  have enc: "rlpEncodeBytes bs = Some ?i" using encodeBytes_spec [OF n] by (simp add: rlpEncodeBytes_def)
  have dec: "rlpDecodeBytes ?i = Some bs" by (rule decodeBytes_enc [OF n])
  have s: "encodeHexCreate bs (length bs) = Some (?s, 2 * length bs + 1)"
    by (simp add: encodeHexCreate_def encodeHexLength_def encodeHex_def)
  have "rlpEncodeString (Some []) = rlpEncodeBytes []" by (simp add: rlpEncodeString_def)
  then have "rlpEncodeHexString (Some ([0x30, 0x78] @ ?s)) = Some ?i"
    using enc by (cases "bs = []") (simp_all add: rlpEncodeHexString_def Let_def decodeHex_def
      decodeHexCreate_def decodeHexLength_def decode_encode_loop del: rlp_enc.simps)
  moreover have "rlpDecodeHexString ?i (Some [0x30, 0x78]) = Some ([0x30, 0x78] @ ?s)"
    using dec by (simp add: rlpDecodeHexString_def encodeHex_def del: rlp_enc.simps)
  ultimately show ?thesis using enc dec s by blast
qed

lemma rlp_bytes_roundtrip_witness:
  "\<exists>item. rlpEncodeBytes [0xde, 0xad] = Some item \<and> rlpDecodeBytes item = Some [0xde, 0xad]"
  using rlp_bytes_roundtrip [of "[0xde, 0xad]"] by auto

text \<open>
  The parser does not keep a sub-item inside its list: on the two bytes 0xc1 0x83
  it returns a sub-item of four bytes, three of which lie behind the data it was given.
\<close>

theorem rlpGetItem_overread:
  "rlpGetItem \<lparr>bytesCount = 2, bytes = [0xc1, 0x83] @ [a, b, c]\<rparr> =
     Some (CODER_LIST [0xc1, 0x83] [CODER_ITEM [0x83, a, b, c]]) \<and>
   rlpGetItem \<lparr>bytesCount = 2, bytes = [0xc1, 0x83]\<rparr> = None"
  by (simp add: rlpGetItem_def rlpGetItem_at.simps rlpGetItems.simps rlpGetItem_FillData_def
      decodeLength_def RLP_PREFIX_LIST_def RLP_PREFIX_BYTES_def)

end
