(* ===== verification/RlpPool.thy ===== *)
theory RlpPool
  imports Rlp "HOL-Library.Monad_Syntax"
begin

text \<open>
  \<^verbatim>\<open>ethereum/rlp/BRRlpCoder.c\<close>, the other half: the coder as the owner of its items.  The heap
  maps the addresses of allocated items to their records; a pointer to an item is an address
  or NULL (\<open>None\<close>).  The coder keeps the items in use on the doubly linked list \<open>busy\<close> and the
  cleared ones on the singly linked list \<open>free\<close>.  An operation is \<open>None\<close> when an \<open>assert\<close>
  fails, an address is not allocated, or a loop does not end.  The mutex makes each operation
  atomic.  \<open>calloc\<close> is the allocator: the address it gives for the next item.
\<close>

type_synonym addr = nat

text \<open>The two constructors of the enum; 0, what \<open>memset\<close> leaves, is the item.\<close>

datatype BRRlpItemType = TYPE_CODER_ITEM | TYPE_CODER_LIST

text \<open>
  \<open>bytes\<close> and \<open>items\<close> are the arrays they point to, inline or allocated, and \<open>None\<close> for NULL.
\<close>

record BRRlpItemRecord =
  item_type :: BRRlpItemType
  bytesCount :: nat
  bytes :: "byte list option"
  itemsCount :: nat
  items :: "addr list option"
  nxt :: "addr option"
  prv :: "addr option"

type_synonym heap = "addr \<rightharpoonup> BRRlpItemRecord"

record BRRlpCoderRecord =
  failed :: bool
  free :: "addr option"
  busy :: "addr option"
  heap :: heap

definition zero_item :: BRRlpItemRecord where
  "zero_item = \<lparr>item_type = TYPE_CODER_ITEM, bytesCount = 0, bytes = None, itemsCount = 0, items = None,
     nxt = None, prv = None\<rparr>"

text \<open>A store through the pointer \<open>a\<close>.\<close>

definition upd :: "addr \<Rightarrow> (BRRlpItemRecord \<Rightarrow> BRRlpItemRecord) \<Rightarrow> BRRlpCoderRecord \<Rightarrow> BRRlpCoderRecord option" where
  "upd a f c = map_option (\<lambda>n. c\<lparr>heap := (heap c)(a \<mapsto> f n)\<rparr>) (heap c a)"

section \<open>The coder\<close>

definition rlpCoderCreate :: BRRlpCoderRecord where
  "rlpCoderCreate = \<lparr>failed = False, free = None, busy = None, heap = Map.empty\<rparr>"

definition rlpCoderSetFailed :: "BRRlpCoderRecord \<Rightarrow> BRRlpCoderRecord" where
  "rlpCoderSetFailed c = c\<lparr>failed := True\<rparr>"

definition rlpCoderClrFailed :: "BRRlpCoderRecord \<Rightarrow> BRRlpCoderRecord" where
  "rlpCoderClrFailed c = c\<lparr>failed := False\<rparr>"

definition rlpCoderHasFailed :: "BRRlpCoderRecord \<Rightarrow> bool" where
  "rlpCoderHasFailed c = failed c"

definition itemReleaseMemory :: "addr \<Rightarrow> BRRlpCoderRecord \<Rightarrow> BRRlpCoderRecord option" where
  "itemReleaseMemory item = upd item (\<lambda>_. zero_item)"

text \<open>The loop over the free list, from \<open>item\<close> on.\<close>

partial_function (option) reclaim_loop :: "addr option \<Rightarrow> BRRlpCoderRecord \<Rightarrow> BRRlpCoderRecord option" where
  "reclaim_loop item c =
     (case item of
        None \<Rightarrow> Some c
      | Some i \<Rightarrow> do {
          n \<leftarrow> heap c i;
          c' \<leftarrow> itemReleaseMemory i c;
          reclaim_loop (nxt n) (c'\<lparr>heap := (heap c')(i := None)\<rparr>)
        })"

definition rlpCoderReclaimInternal :: "BRRlpCoderRecord \<Rightarrow> BRRlpCoderRecord option" where
  "rlpCoderReclaimInternal c = map_option (\<lambda>c'. c'\<lparr>free := None\<rparr>) (reclaim_loop (free c) c)"

definition rlpCoderReclaim :: "BRRlpCoderRecord \<Rightarrow> BRRlpCoderRecord option" where
  "rlpCoderReclaim = rlpCoderReclaimInternal"

text \<open>What is still allocated after the coder itself has been freed.\<close>

definition rlpCoderRelease :: "BRRlpCoderRecord \<Rightarrow> heap option" where
  "rlpCoderRelease c = (if busy c = None then map_option heap (rlpCoderReclaimInternal c) else None)"

partial_function (option) busy_loop :: "heap \<Rightarrow> addr option \<Rightarrow> nat \<Rightarrow> nat option" where
  "busy_loop h found count =
     (case found of
        None \<Rightarrow> Some count
      | Some i \<Rightarrow> (case h i of None \<Rightarrow> None | Some n \<Rightarrow> busy_loop h (nxt n) (count + 1)))"

definition rlpCoderBusyCount :: "BRRlpCoderRecord \<Rightarrow> nat option" where
  "rlpCoderBusyCount c = busy_loop (heap c) (busy c) 0"

text \<open>\<open>assert\<close> that an item is cleared.\<close>

definition is_clear :: "BRRlpItemRecord \<Rightarrow> bool" where
  "is_clear n \<longleftrightarrow> nxt n = None \<and> prv n = None \<and> bytesCount n = 0 \<and> itemsCount n = 0"

definition take_item :: "(heap \<Rightarrow> addr) \<Rightarrow> BRRlpCoderRecord \<Rightarrow> (addr \<times> BRRlpCoderRecord) option" where
  "take_item calloc c =
     (case free c of
        Some i \<Rightarrow> do {
          n \<leftarrow> heap c i;
          c' \<leftarrow> upd i (nxt_update (\<lambda>_. None)) (c\<lparr>free := nxt n\<rparr>);
          Some (i, c')
        }
      | None \<Rightarrow> Some (calloc (heap c), c\<lparr>heap := (heap c)(calloc (heap c) \<mapsto> zero_item)\<rparr>))"

definition rlpCoderAcquireItem :: "(heap \<Rightarrow> addr) \<Rightarrow> BRRlpCoderRecord \<Rightarrow> (addr \<times> BRRlpCoderRecord) option" where
  "rlpCoderAcquireItem calloc c =
     do {
       (i, c1) \<leftarrow> take_item calloc c;
       n \<leftarrow> heap c1 i;
       if is_clear n then do {
         c2 \<leftarrow> (case busy c1 of None \<Rightarrow> Some c1 | Some b \<Rightarrow> upd b (prv_update (\<lambda>_. Some i)) c1);
         c3 \<leftarrow> upd i (nxt_update (\<lambda>_. busy c2)) c2;
         Some (i, c3\<lparr>busy := Some i\<rparr>)
       } else None
     }"

definition rlpCoderReturnItem :: "addr option \<Rightarrow> addr \<Rightarrow> addr option \<Rightarrow> BRRlpCoderRecord \<Rightarrow> BRRlpCoderRecord option" where
  "rlpCoderReturnItem prev item next c =
     do {
       n \<leftarrow> heap c item;
       if is_clear n then do {
         c1 \<leftarrow> (if Some item = busy c then Some (c\<lparr>busy := next\<rparr>)
           else do {
             c' \<leftarrow> (case prev of None \<Rightarrow> Some c | Some p \<Rightarrow> upd p (nxt_update (\<lambda>_. next)) c);
             (case next of None \<Rightarrow> Some c' | Some q \<Rightarrow> upd q (prv_update (\<lambda>_. prev)) c')
           });
         c2 \<leftarrow> upd item (prv_update (\<lambda>_. None)) c1;
         c3 \<leftarrow> upd item (nxt_update (\<lambda>_. free c2)) c2;
         Some (c3\<lparr>free := Some item\<rparr>)
       } else None
     }"

section \<open>Items\<close>

definition itemRelease :: "addr \<Rightarrow> BRRlpCoderRecord \<Rightarrow> BRRlpCoderRecord option" where
  "itemRelease item c =
     do {
       n \<leftarrow> heap c item;
       c' \<leftarrow> itemReleaseMemory item c;
       rlpCoderReturnItem (prv n) item (nxt n) c'
     }"

definition itemCreateEmpty :: "(heap \<Rightarrow> addr) \<Rightarrow> BRRlpItemType \<Rightarrow> BRRlpCoderRecord \<Rightarrow> (addr \<times> BRRlpCoderRecord) option" where
  "itemCreateEmpty calloc ty c =
     do {
       (i, c1) \<leftarrow> rlpCoderAcquireItem calloc c;
       c2 \<leftarrow> upd i (item_type_update (\<lambda>_. ty)) c1;
       Some (i, c2)
     }"

text \<open>With the bytes that the caller then copies to the array it got.\<close>

definition itemEnsureBytes :: "addr \<Rightarrow> byte list \<Rightarrow> BRRlpCoderRecord \<Rightarrow> BRRlpCoderRecord option" where
  "itemEnsureBytes item bs c =
     do {
       n \<leftarrow> heap c item;
       if bytes n = None then upd item (\<lambda>n. n\<lparr>bytesCount := length bs, bytes := Some bs\<rparr>) c else None
     }"

definition itemFillList :: "addr \<Rightarrow> addr list \<Rightarrow> BRRlpCoderRecord \<Rightarrow> BRRlpCoderRecord option" where
  "itemFillList item its = upd item (\<lambda>n. n\<lparr>item_type := TYPE_CODER_LIST, itemsCount := length its, items := Some its\<rparr>)"

text \<open>
  \<open>rlpReleaseItem\<close> at the turn \<open>index\<close> of its loop: the sub-items from there on are released
  first, then the item.
\<close>

partial_function (option) release_loop :: "addr \<Rightarrow> nat \<Rightarrow> BRRlpCoderRecord \<Rightarrow> BRRlpCoderRecord option" where
  "release_loop item index c =
     do {
       n \<leftarrow> heap c item;
       if index < itemsCount n then do {
         its \<leftarrow> items n;
         c' \<leftarrow> (if index < length its then release_loop (its ! index) 0 c else None);
         release_loop item (index + 1) c'
       } else itemRelease item c
     }"

definition rlpReleaseItem :: "addr \<Rightarrow> BRRlpCoderRecord \<Rightarrow> BRRlpCoderRecord option" where
  "rlpReleaseItem item = release_loop item 0"

section \<open>Encoding into the pool\<close>

definition pool_encodeBytes :: "(heap \<Rightarrow> addr) \<Rightarrow> byte list \<Rightarrow> BRRlpCoderRecord \<Rightarrow> (addr \<times> BRRlpCoderRecord) option" where
  "pool_encodeBytes calloc bs c =
     do {
       (i, c1) \<leftarrow> itemCreateEmpty calloc TYPE_CODER_ITEM c;
       c2 \<leftarrow> (if length bs = 1 \<and> bs ! 0 < RLP_PREFIX_BYTES then itemEnsureBytes i [bs ! 0] c1
         else do {
           bytes9 \<leftarrow> encodeLengthIntoBytes (word_of_nat (length bs)) RLP_PREFIX_BYTES;
           itemEnsureBytes i (bytes9 @ bs) c1
         });
       Some (i, c2)
     }"

text \<open>The bytes of the items pointed to, one after the other.\<close>

fun item_bodies :: "heap \<Rightarrow> addr list \<Rightarrow> byte list option" where
  "item_bodies h [] = Some []"
| "item_bodies h (i # is) =
     do {
       n \<leftarrow> h i;
       bs \<leftarrow> (case bytes n of None \<Rightarrow> if bytesCount n = 0 then Some [] else None
         | Some bs \<Rightarrow> if bytesCount n \<le> length bs then Some (take (bytesCount n) bs) else None);
       rest \<leftarrow> item_bodies h is;
       Some (bs @ rest)
     }"

definition pool_encodeList :: "(heap \<Rightarrow> addr) \<Rightarrow> addr list \<Rightarrow> BRRlpCoderRecord \<Rightarrow> (addr \<times> BRRlpCoderRecord) option" where
  "pool_encodeList calloc its c =
     do {
       (i, c1) \<leftarrow> rlpCoderAcquireItem calloc c;
       body \<leftarrow> item_bodies (heap c1) its;
       bytes9 \<leftarrow> encodeLengthIntoBytes (word_of_nat (length body)) RLP_PREFIX_LIST;
       c2 \<leftarrow> itemEnsureBytes i (bytes9 @ body) c1;
       c3 \<leftarrow> itemFillList i its c2;
       Some (i, c3)
     }"

section \<open>Parsing into the pool\<close>

text \<open>
  \<open>rlpGetItem\<close>: the item is acquired before those of its sub-items.  As in the model without
  the pool, \<open>mem\<close> is the memory at \<open>data.bytes\<close> and \<open>left\<close> what remains up to \<open>bytesLimit\<close>.
\<close>

function pool_getItem_at :: "(heap \<Rightarrow> addr) \<Rightarrow> byte list \<Rightarrow> u64 \<Rightarrow> BRRlpCoderRecord \<Rightarrow> (addr \<times> BRRlpCoderRecord) option"
  and pool_getItems :: "(heap \<Rightarrow> addr) \<Rightarrow> byte list \<Rightarrow> nat \<Rightarrow> BRRlpCoderRecord \<Rightarrow> (addr list \<times> BRRlpCoderRecord) option" where
  "pool_getItem_at calloc mem count c =
     (if count = 0 \<or> length mem < unat count then None
      else do {
        (i, c1) \<leftarrow> rlpCoderAcquireItem calloc c;
        c2 \<leftarrow> itemEnsureBytes i (take (unat count) mem) c1;
        if mem ! 0 < RLP_PREFIX_LIST then Some (i, c2)
        else (case decodeLength mem RLP_PREFIX_LIST of
                None \<Rightarrow> None
              | Some (len, offset) \<Rightarrow>
                  if count \<noteq> len + ucast offset then None
                  else (case pool_getItems calloc (drop (unat offset) mem) (unat count - unat offset) c2 of
                          None \<Rightarrow> None
                        | Some (its, c3) \<Rightarrow> map_option (Pair i) (itemFillList i its c3)))
      })"
| "pool_getItems calloc mem left c =
     (if left = 0 then Some ([], c)
      else (case rlpGetItem_FillData mem of
              None \<Rightarrow> None
            | Some count \<Rightarrow>
                if count = 0 \<or> length mem < unat count then None
                else (case pool_getItem_at calloc mem count c of
                        None \<Rightarrow> None
                      | Some (i, c1) \<Rightarrow>
                          map_option (\<lambda>(its, c2). (i # its, c2))
                            (pool_getItems calloc (drop (unat count) mem) (left - unat count) c1))))"
  by pat_completeness auto
termination
proof (relation "measure (\<lambda>x. case x of Inl (_, mem, count, _) \<Rightarrow> 2 * length mem
      | Inr (_, mem, left, _) \<Rightarrow> 2 * length mem + 1)", goal_cases)
  case (2 calloc mem count c x i c1 c2 y len offset)
  then show ?case using decodeLength_offset [of mem RLP_PREFIX_LIST len offset]
    by (cases "unat offset"; cases mem) auto
next
  case (4 calloc mem left c count x i c1)
  then show ?case by (cases "unat count") (auto simp: unat_eq_zero)
qed auto

declare pool_getItem_at.simps [simp del] pool_getItems.simps [simp del]

end
