(* ===== verification/RlpPool_Correct.thy ===== *)
theory RlpPool_Correct
  imports RlpPool Rlp_Correct
begin

text \<open>
  The pool of items refines two lists, those in use and those free; the coder run on the pool
  refines the coder on values, and what it acquires for a value is what releasing the value
  gives back.
\<close>

section \<open>Linked lists in the heap\<close>

fun path :: "heap \<Rightarrow> addr option \<Rightarrow> addr list \<Rightarrow> addr option \<Rightarrow> bool" where
  "path h p [] q \<longleftrightarrow> p = q"
| "path h p (a # ps) q \<longleftrightarrow> p = Some a \<and> (\<exists>n. h a = Some n \<and> path h (nxt n) ps q)"

text \<open>The items point back to the one before; \<open>p\<close> is before the first.\<close>

fun prevs :: "heap \<Rightarrow> addr option \<Rightarrow> addr list \<Rightarrow> bool" where
  "prevs h p [] \<longleftrightarrow> True"
| "prevs h p (a # ps) \<longleftrightarrow> (\<exists>n. h a = Some n \<and> prv n = p) \<and> prevs h (Some a) ps"

text \<open>The pointer of the first item is never used, and stale after a release.\<close>

fun backed :: "heap \<Rightarrow> addr list \<Rightarrow> bool" where
  "backed h [] \<longleftrightarrow> True"
| "backed h (a # ps) \<longleftrightarrow> prevs h (Some a) ps"

lemma path_append: "path h p (xs @ ys) q \<longleftrightarrow> (\<exists>r. path h p xs r \<and> path h r ys q)"
  by (induction h p xs q rule: path.induct) auto

lemma prevs_append: "prevs h p (xs @ ys) \<longleftrightarrow> prevs h p xs \<and> prevs h (if xs = [] then p else Some (last xs)) ys"
  by (induction h p xs rule: prevs.induct) auto

lemma path_cong: "(\<And>a. a \<in> set ps \<Longrightarrow> map_option nxt (h' a) = map_option nxt (h a)) \<Longrightarrow> path h' p ps q \<longleftrightarrow> path h p ps q"
proof (induction ps arbitrary: p)
  case (Cons a ps)
  from Cons.prems [of a] show ?case
    using Cons.IH [OF Cons.prems] by (cases "h a"; cases "h' a") auto
qed simp

lemma prevs_cong: "(\<And>a. a \<in> set ps \<Longrightarrow> map_option prv (h' a) = map_option prv (h a)) \<Longrightarrow> prevs h' p ps \<longleftrightarrow> prevs h p ps"
proof (induction ps arbitrary: p)
  case (Cons a ps)
  from Cons.prems [of a] show ?case
    using Cons.IH [OF Cons.prems] by (cases "h a"; cases "h' a") auto
qed simp

lemma path_fresh [simp]: "a \<notin> set ps \<Longrightarrow> path (h(a := x)) p ps q \<longleftrightarrow> path h p ps q"
  by (rule path_cong) auto

lemma prevs_fresh [simp]: "a \<notin> set ps \<Longrightarrow> prevs (h(a := x)) p ps \<longleftrightarrow> prevs h p ps"
  by (rule prevs_cong) auto

lemma backed_fresh [simp]: "a \<notin> set ps \<Longrightarrow> backed (h(a := x)) ps \<longleftrightarrow> backed h ps"
  by (cases ps) auto

lemma prevs_nxt [simp]: "h a = Some n \<Longrightarrow> prevs (h(a \<mapsto> nxt_update f n)) p ps \<longleftrightarrow> prevs h p ps"
  by (rule prevs_cong) auto

lemma backed_nxt [simp]: "h a = Some n \<Longrightarrow> backed (h(a \<mapsto> nxt_update f n)) ps \<longleftrightarrow> backed h ps"
  by (cases ps) simp_all

lemma path_prv [simp]: "h a = Some n \<Longrightarrow> path (h(a \<mapsto> prv_update f n)) p ps q \<longleftrightarrow> path h p ps q"
  by (rule path_cong) auto

lemma backed_append: "xs \<noteq> [] \<Longrightarrow> backed h (xs @ ys) \<longleftrightarrow> backed h xs \<and> prevs h (Some (last xs)) ys"
  by (cases xs) (auto simp: prevs_append)

lemma path_hd: "path h p ps None \<Longrightarrow> p = (case ps of [] \<Rightarrow> None | a # _ \<Rightarrow> Some a)"
  by (cases ps) auto

section \<open>The invariant of the pool\<close>

text \<open>What an item holds, apart from its links.\<close>

definition payload :: "BRRlpItemRecord \<Rightarrow> BRRlpItemRecord" where
  "payload n = n\<lparr>nxt := None, prv := None\<rparr>"

definition holds :: "heap \<Rightarrow> addr \<Rightarrow> BRRlpItemRecord option" where
  "holds h a = map_option payload (h a)"

definition pool :: "BRRlpCoderRecord \<Rightarrow> addr list \<Rightarrow> addr list \<Rightarrow> bool" where
  "pool c bs fs \<longleftrightarrow> distinct (bs @ fs) \<and> set (bs @ fs) = dom (heap c) \<and>
     path (heap c) (busy c) bs None \<and> backed (heap c) bs \<and> path (heap c) (free c) fs None \<and>
     (\<forall>a \<in> set fs. map_option (nxt_update (\<lambda>_. None)) (heap c a) = Some zero_item)"

text \<open>\<open>calloc\<close> gives the address of no item.\<close>

definition calloc_ok :: "(heap \<Rightarrow> addr) \<Rightarrow> bool" where
  "calloc_ok calloc \<longleftrightarrow> (\<forall>h. finite (dom h) \<longrightarrow> calloc h \<notin> dom h)"

lemma pool_finite: "pool c bs fs \<Longrightarrow> finite (dom (heap c))"
  unfolding pool_def by (metis List.finite_set)

lemma zero_item_simps [simp]: "payload zero_item = zero_item" "nxt zero_item = None" "prv zero_item = None"
  "zero_item\<lparr>prv := None\<rparr> = zero_item" "zero_item\<lparr>nxt := None\<rparr> = zero_item" "is_clear zero_item" "bytes zero_item = None" "itemsCount zero_item = 0"
  by (simp_all add: zero_item_def payload_def is_clear_def)

lemma payload_links [simp]: "payload (nxt_update f n) = payload n" "payload (prv_update f n) = payload n"
  by (simp_all add: payload_def)

lemma upd_Some: "heap c a = Some n \<Longrightarrow> upd a f c = Some (c\<lparr>heap := (heap c)(a \<mapsto> f n)\<rparr>)"
  by (simp add: upd_def)

lemma pool_create: "pool rlpCoderCreate [] []"
  by (simp add: pool_def rlpCoderCreate_def)

lemma take_item_pool:
  assumes "pool c bs fs" and "calloc_ok calloc"
  obtains i c' fs' where "take_item calloc c = Some (i, c')" "heap c' i = Some zero_item" "i \<notin> set bs"
    "busy c' = busy c" "failed c' = failed c" "heap c' = (heap c)(i \<mapsto> zero_item)" "pool (c'\<lparr>heap := (heap c')(i := None)\<rparr>) bs fs'"
    "fs = i # fs' \<or> fs = [] \<and> fs' = [] \<and> i = calloc (heap c) \<and> i \<notin> dom (heap c)"
proof (cases fs)
  case Nil
  let ?i = "calloc (heap c)"
  have f: "?i \<notin> dom (heap c)" using assms(2) pool_finite [OF assms(1)] by (simp add: calloc_ok_def)
  moreover have "free c = None" using assms(1) Nil by (simp add: pool_def)
  moreover have "(heap c)(?i := None) = heap c" using f by auto
  moreover have "?i \<notin> set bs" using f assms(1) by (auto simp: pool_def)
  ultimately show ?thesis using assms(1) Nil
    by (intro that [of ?i "c\<lparr>heap := (heap c)(?i \<mapsto> zero_item)\<rparr>" "[]"]) (auto simp: take_item_def)
next
  case (Cons i fs')
  then obtain n where n: "free c = Some i" "heap c i = Some n" "n\<lparr>nxt := None\<rparr> = zero_item"
    "path (heap c) (nxt n) fs' None" "i \<notin> set fs'" "i \<notin> set bs"
    using assms(1) by (auto simp: pool_def)
  have "pool (c\<lparr>free := nxt n, heap := (heap c)(i := None)\<rparr>) bs fs'"
    using assms(1) n unfolding pool_def Cons by (cases bs) (auto simp: n)
  then show ?thesis using n Cons
    by (intro that [of i "c\<lparr>free := nxt n, heap := (heap c)(i \<mapsto> zero_item)\<rparr>" fs'])
      (auto simp: take_item_def upd_def)
qed

lemma acquire_pool:
  assumes "pool c bs fs" and "calloc_ok calloc"
  obtains i c' fs' where "rlpCoderAcquireItem calloc c = Some (i, c')" "pool c' (i # bs) fs'" "i \<notin> set bs"
    "holds (heap c') = (holds (heap c))(i \<mapsto> zero_item)" "failed c' = failed c"
    "fs = i # fs' \<or> fs = [] \<and> fs' = [] \<and> i = calloc (heap c) \<and> i \<notin> dom (heap c)"
proof -
  from take_item_pool [OF assms] obtain i c1 fs' where
    t: "take_item calloc c = Some (i, c1)" "heap c1 i = Some zero_item" "i \<notin> set bs" "busy c1 = busy c"
      "failed c1 = failed c" "heap c1 = (heap c)(i \<mapsto> zero_item)" and
    p1: "pool (c1\<lparr>heap := (heap c1)(i := None)\<rparr>) bs fs'" and
    f: "fs = i # fs' \<or> fs = [] \<and> fs' = [] \<and> i = calloc (heap c) \<and> i \<notin> dom (heap c)"
    by blast
  have i: "i \<notin> set fs'" "set bs \<union> set fs' = dom (heap c1) - {i}" "distinct (bs @ fs')"
    using p1 by (auto simp: pool_def)
  have paths: "path (heap c1) (busy c1) bs None" "backed (heap c1) bs" "path (heap c1) (free c1) fs' None"
    "\<forall>a \<in> set fs'. map_option (nxt_update (\<lambda>_. None)) (heap c1 a) = Some zero_item"
    using p1 i(1) t(3) unfolding pool_def by (simp_all del: fun_upd_apply) (metis fun_upd_other)
  show thesis
  proof (cases bs)
    case Nil
    then have "busy c1 = None" using paths by simp
    moreover have "(heap c1)(i \<mapsto> zero_item) = heap c1" using t(2) by (rule fun_upd_idem)
    ultimately have "rlpCoderAcquireItem calloc c = Some (i, c1\<lparr>busy := Some i\<rparr>)"
      using t by (simp add: rlpCoderAcquireItem_def upd_def)
    moreover have "pool (c1\<lparr>busy := Some i\<rparr>) (i # bs) fs'"
      using t(2) i paths Nil unfolding pool_def by auto
    moreover have "holds (heap c1) = (holds (heap c))(i \<mapsto> zero_item)"
      using t(6) by (simp add: holds_def fun_eq_iff)
    ultimately show ?thesis using t f by (intro that [of i "c1\<lparr>busy := Some i\<rparr>" fs']) simp_all
  next
    case (Cons b bs')
    then obtain n where n: "busy c1 = Some b" "heap c1 b = Some n" "path (heap c1) (nxt n) bs' None" "b \<noteq> i"
      "b \<notin> set bs'" "b \<notin> set fs'" "i \<notin> set bs'"
      using paths t(3) i(3) by auto
    let ?h = "(heap c1)(b \<mapsto> prv_update (\<lambda>_. Some i) n, i \<mapsto> nxt_update (\<lambda>_. Some b) zero_item)"
    have "rlpCoderAcquireItem calloc c = Some (i, c1\<lparr>heap := ?h, busy := Some i\<rparr>)"
      using t(1,2) n by (simp add: rlpCoderAcquireItem_def upd_def)
    moreover have "pool (c1\<lparr>heap := ?h, busy := Some i\<rparr>) (i # bs) fs'"
    proof -
      have "set bs' \<union> set fs' \<union> {i, b} = dom ?h" using i(2) n(2) Cons by auto
      moreover have "path ?h (Some i) (i # b # bs') None" "backed ?h (i # b # bs')" "path ?h (free c1) fs' None"
        using paths n i(1) Cons by simp_all
      moreover have "\<forall>a \<in> set fs'. map_option (nxt_update (\<lambda>_. None)) (?h a) = Some zero_item"
        using paths(4) n(6) i(1) by auto
      moreover have "distinct ((i # b # bs') @ fs')" using i(1,3) t(3) Cons by auto
      ultimately show ?thesis unfolding pool_def Cons by auto
    qed
    moreover have "holds ?h = (holds (heap c))(i \<mapsto> zero_item)"
      using t(6) n by (auto simp: holds_def fun_eq_iff)
    ultimately show ?thesis using t f
      by (intro that [of i "c1\<lparr>heap := ?h, busy := Some i\<rparr>" fs']) simp_all
  qed
qed

lemma release_pool:
  assumes "pool c bs fs" and "i \<in> set bs"
  obtains c' where "itemRelease i c = Some c'" "pool c' (remove1 i bs) (i # fs)" "failed c' = failed c"
    "holds (heap c') = (holds (heap c))(i \<mapsto> zero_item)"
proof -
  obtain xs ys where bs: "bs = xs @ i # ys" "i \<notin> set xs" using assms(2) by (metis split_list_first)
  have d: "distinct (xs @ i # ys @ fs)" and dom: "set (xs @ i # ys @ fs) = dom (heap c)"
    using assms(1) bs by (auto simp: pool_def)
  obtain n where n: "heap c i = Some n" "path (heap c) (busy c) xs (Some i)" "path (heap c) (nxt n) ys None"
    "path (heap c) (free c) fs None" "\<forall>a \<in> set fs. map_option (nxt_update (\<lambda>_. None)) (heap c a) = Some zero_item"
    using assms(1) unfolding pool_def bs by (auto simp: path_append)
  have bk: "backed (heap c) (xs @ i # ys)" using assms(1) bs by (simp add: pool_def)
  show thesis
  proof (cases xs rule: rev_cases)
    case Nil
    let ?h = "(heap c)(i \<mapsto> nxt_update (\<lambda>_. free c) zero_item)"
    let ?c = "c\<lparr>busy := nxt n, heap := ?h, free := Some i\<rparr>"
    have "itemRelease i c = Some ?c"
      using n Nil by (simp add: itemRelease_def itemReleaseMemory_def upd_def rlpCoderReturnItem_def)
    moreover have "pool ?c (remove1 i bs) (i # fs)"
      using d dom n bk unfolding pool_def bs Nil by (cases ys) auto
    moreover have "holds (heap ?c) = (holds (heap c))(i \<mapsto> zero_item)"
      by (auto simp: holds_def fun_eq_iff)
    ultimately show ?thesis by (intro that [of ?c]) simp_all
  next
    case (snoc xs' p)
    then obtain m where m: "heap c p = Some m" "path (heap c) (busy c) xs' (Some p)" "nxt m = Some i" "prv n = Some p"
      using n backed_append [of "xs' @ [p]" "heap c" "i # ys"] bk unfolding snoc by (auto simp: path_append)
    have bk': "backed (heap c) (xs' @ [p])" "prevs (heap c) (Some i) ys"
      using backed_append [of "xs' @ [p]" "heap c" "i # ys"] bk unfolding snoc by simp_all
    from m have ne: "busy c \<noteq> Some i" using bs(2) snoc by (cases xs') auto
    show ?thesis
    proof (cases ys)
      case Nil
      then have nn: "nxt n = None" using n by simp
      let ?h = "(heap c)(p \<mapsto> nxt_update (\<lambda>_. None) m, i \<mapsto> nxt_update (\<lambda>_. free c) zero_item)"
      have "itemRelease i c = Some (c\<lparr>heap := ?h, free := Some i\<rparr>)"
        using n m ne nn d snoc by (simp add: itemRelease_def itemReleaseMemory_def upd_def rlpCoderReturnItem_def fun_upd_twist)
      moreover have "pool (c\<lparr>heap := ?h, free := Some i\<rparr>) (remove1 i bs) (i # fs)"
        using d dom n m bk' unfolding pool_def bs snoc Nil by (auto simp: path_append backed_append remove1_append)
      moreover have "holds ?h = (holds (heap c))(i \<mapsto> zero_item)"
        using m by (auto simp: holds_def fun_eq_iff)
      ultimately show ?thesis by (intro that [of "c\<lparr>heap := ?h, free := Some i\<rparr>"]) simp_all
    next
      case (Cons q ys')
      then obtain k where k: "heap c q = Some k" "nxt n = Some q" "path (heap c) (nxt k) ys' None"
        using n by auto
      let ?h = "(heap c)(p \<mapsto> nxt_update (\<lambda>_. Some q) m, q \<mapsto> prv_update (\<lambda>_. Some p) k,
          i \<mapsto> nxt_update (\<lambda>_. free c) zero_item)"
      have "itemRelease i c = Some (c\<lparr>heap := ?h, free := Some i\<rparr>)"
        using n m k ne d snoc Cons
        by (simp add: itemRelease_def itemReleaseMemory_def upd_def rlpCoderReturnItem_def fun_upd_twist)
      moreover have "pool (c\<lparr>heap := ?h, free := Some i\<rparr>) (remove1 i bs) (i # fs)"
      proof -
        have ds: "p \<noteq> q" "p \<noteq> i" "q \<noteq> i" "p \<notin> set xs'" "q \<notin> set xs'" "i \<notin> set xs'" "p \<notin> set ys'" "q \<notin> set ys'"
          "i \<notin> set ys'" "p \<notin> set fs" "q \<notin> set fs" "i \<notin> set fs" "distinct (xs' @ ys' @ fs)"
          using d snoc Cons by auto
        have pv: "prevs (heap c) (Some q) ys'" "backed (heap c) (xs' @ [p])" using bk' Cons by simp_all
        have rem: "remove1 i bs = (xs' @ [p]) @ q # ys'"
          using ds bs snoc Cons by (simp add: remove1_append)
        have "path ?h (busy c) (remove1 i bs) None"
          unfolding rem path_append using m k ds by simp
        moreover have "backed ?h (remove1 i bs)"
        proof -
          have "backed ?h (xs' @ [p])" using pv(2) m(1) ds by simp
          moreover have "prevs ?h (Some p) (q # ys')" using pv(1) k ds by simp
          ultimately show ?thesis
            unfolding rem by (metis append_is_Nil_conv backed_append last_snoc not_Cons_self2)
        qed
        moreover have "path ?h (Some i) (i # fs) None" using n(4) ds by simp
        moreover have "\<forall>a \<in> set (i # fs). map_option (nxt_update (\<lambda>_. None)) (?h a) = Some zero_item"
          using n(5) ds by auto
        moreover have "distinct (remove1 i bs @ i # fs)" unfolding rem using ds by auto
        moreover have "set (remove1 i bs @ i # fs) = dom ?h"
          unfolding rem using dom n(1) m(1) k(1) snoc Cons by auto
        ultimately show ?thesis unfolding pool_def by simp
      qed
      moreover have "holds ?h = (holds (heap c))(i \<mapsto> zero_item)"
        using m k by (auto simp: holds_def fun_eq_iff)
      ultimately show ?thesis by (intro that [of "c\<lparr>heap := ?h, free := Some i\<rparr>"]) simp_all
    qed
  qed
qed

lemma write_pool:
  assumes "pool c bs fs" and "i \<in> set bs" and "\<And>n. nxt (f n) = nxt n \<and> prv (f n) = prv n"
  obtains n where "heap c i = Some n" "upd i f c = Some (c\<lparr>heap := (heap c)(i \<mapsto> f n)\<rparr>)"
    "pool (c\<lparr>heap := (heap c)(i \<mapsto> f n)\<rparr>) bs fs"
proof -
  have "i \<in> dom (heap c)" using assms(1,2) unfolding pool_def by auto
  then obtain n where n: "heap c i = Some n" by blast
  let ?h = "(heap c)(i \<mapsto> f n)"
  have same: "path ?h p ps q \<longleftrightarrow> path (heap c) p ps q" "prevs ?h p ps \<longleftrightarrow> prevs (heap c) p ps" for p ps q
    using n assms(3) by (auto intro!: path_cong prevs_cong)
  have "backed ?h bs" using assms(1) same(2) by (cases bs) (auto simp: pool_def)
  moreover have "i \<notin> set fs" using assms(1,2) by (auto simp: pool_def)
  ultimately have "pool (c\<lparr>heap := ?h\<rparr>) bs fs" using assms(1) n same(1) by (auto simp: pool_def)
  then show thesis using that n by (simp add: upd_Some)
qed

lemma reclaim_loop_path:
  "path (heap c) p ps None \<Longrightarrow> distinct ps \<Longrightarrow> reclaim_loop p c = Some (c\<lparr>heap := heap c |` (- set ps)\<rparr>)"
proof (induction ps arbitrary: p c)
  case Nil
  then show ?case by (simp add: reclaim_loop.simps)
next
  case (Cons a ps)
  then obtain n where n: "p = Some a" "heap c a = Some n" "path (heap c) (nxt n) ps None" "a \<notin> set ps" by auto
  have "reclaim_loop p c = reclaim_loop (nxt n) (c\<lparr>heap := (heap c)(a := None)\<rparr>)"
    using n by (subst reclaim_loop.simps) (simp add: itemReleaseMemory_def upd_def)
  also have "\<dots> = Some (c\<lparr>heap := (heap c)(a := None) |` (- set ps)\<rparr>)"
    using Cons.IH [of "c\<lparr>heap := (heap c)(a := None)\<rparr>" "nxt n"] n Cons.prems(2) by (simp del: fun_upd_apply)
  also have "(heap c)(a := None) |` (- set ps) = heap c |` (- set (a # ps))"
    using n(4) by (auto simp: restrict_map_def fun_eq_iff)
  finally show ?case .
qed

lemma reclaim_pool:
  assumes "pool c bs fs"
  shows "rlpCoderReclaim c = Some (c\<lparr>heap := heap c |` set bs, free := None\<rparr>)"
    and "pool (c\<lparr>heap := heap c |` set bs, free := None\<rparr>) bs []"
proof -
  have "heap c |` (- set fs) = heap c |` set bs"
    using assms by (auto simp: pool_def restrict_map_def fun_eq_iff)
  then show "rlpCoderReclaim c = Some (c\<lparr>heap := heap c |` set bs, free := None\<rparr>)"
    using reclaim_loop_path [of c "free c" fs] assms
    by (simp add: pool_def rlpCoderReclaim_def rlpCoderReclaimInternal_def)
  have same: "path (heap c |` set bs) p ps q \<longleftrightarrow> path (heap c) p ps q"
    "prevs (heap c |` set bs) p ps \<longleftrightarrow> prevs (heap c) p ps" if "set ps \<subseteq> set bs" for p ps q
    using that by (auto intro!: path_cong prevs_cong simp: subset_iff)
  have "backed (heap c |` set bs) bs" using assms same(2) by (cases bs) (auto simp: pool_def)
  then show "pool (c\<lparr>heap := heap c |` set bs, free := None\<rparr>) bs []"
    using assms same(1) by (auto simp: pool_def)
qed

lemma busy_loop_path: "path h p ps None \<Longrightarrow> busy_loop h p k = Some (k + length ps)"
  by (induction ps arbitrary: p k) (auto simp: busy_loop.simps)

lemma busyCount_pool: "pool c bs fs \<Longrightarrow> rlpCoderBusyCount c = Some (length bs)"
  using busy_loop_path [of "heap c" "busy c" bs 0] by (simp add: rlpCoderBusyCount_def pool_def)

lemma rlpCoderRelease_pool:
  assumes "pool c bs fs"
  shows "rlpCoderRelease c = (if bs = [] then Some Map.empty else None)"
proof -
  have "busy c = None \<longleftrightarrow> bs = []" using assms by (cases bs) (auto simp: pool_def)
  then show ?thesis
    using reclaim_pool(1) [OF assms] by (auto simp: rlpCoderRelease_def rlpCoderReclaim_def)
qed

section \<open>Every history of a coder\<close>

text \<open>
  The states that the operations lead to, with the items the clients hold, newest first.  A
  client writes to the items it holds, but not to their links.
\<close>

inductive reachable :: "(heap \<Rightarrow> addr) \<Rightarrow> BRRlpCoderRecord \<Rightarrow> addr list \<Rightarrow> bool" for calloc where
  create: "reachable calloc rlpCoderCreate []"
| acquire: "reachable calloc c held \<Longrightarrow> rlpCoderAcquireItem calloc c = Some (i, c') \<Longrightarrow> reachable calloc c' (i # held)"
| release: "reachable calloc c held \<Longrightarrow> i \<in> set held \<Longrightarrow> itemRelease i c = Some c' \<Longrightarrow>
    reachable calloc c' (remove1 i held)"
| store: "reachable calloc c held \<Longrightarrow> i \<in> set held \<Longrightarrow> (\<And>n. nxt (f n) = nxt n \<and> prv (f n) = prv n) \<Longrightarrow>
    upd i f c = Some c' \<Longrightarrow> reachable calloc c' held"
| reclaim: "reachable calloc c held \<Longrightarrow> rlpCoderReclaim c = Some c' \<Longrightarrow> reachable calloc c' held"
| fail: "reachable calloc c held \<Longrightarrow> reachable calloc (rlpCoderSetFailed c) held"
| clear: "reachable calloc c held \<Longrightarrow> reachable calloc (rlpCoderClrFailed c) held"

lemma reachable_pool:
  assumes "reachable calloc c held" and "calloc_ok calloc"
  shows "\<exists>fs. pool c held fs"
  using assms(1)
proof induction
  case create
  then show ?case using pool_create by blast
next
  case (acquire c held i c')
  then show ?case by (metis acquire_pool [OF _ assms(2)] option.inject prod.inject)
next
  case (release c held i c')
  then show ?case by (metis release_pool option.inject)
next
  case (store c held i f c')
  then obtain fs where "pool c held fs" by blast
  from write_pool [OF this store.hyps(2,3)] show ?case using store.hyps(4) by auto
next
  case (reclaim c held c')
  then show ?case by (metis reclaim_pool option.inject)
qed (auto simp: pool_def rlpCoderSetFailed_def rlpCoderClrFailed_def)

text \<open>
  Claim C23.  Whatever the history of a coder, its busy list is the list of the items the
  clients hold, no assertion of an operation fails, an item that is acquired is one that
  nobody holds, and releasing the coder succeeds exactly when every item has been returned,
  and then leaves nothing allocated.
\<close>

theorem pool_invariant:
  assumes "reachable calloc c held" and "calloc_ok calloc"
  shows "distinct held \<and> path (heap c) (busy c) held None \<and> rlpCoderBusyCount c = Some (length held) \<and>
    (\<exists>i c'. rlpCoderAcquireItem calloc c = Some (i, c') \<and> i \<notin> set held \<and> holds (heap c') i = Some zero_item) \<and>
    (\<forall>i \<in> set held. \<exists>c'. itemRelease i c = Some c' \<and> (\<forall>a. a \<noteq> i \<longrightarrow> holds (heap c') a = holds (heap c) a)) \<and>
    rlpCoderRelease c = (if held = [] then Some Map.empty else None)"
proof -
  obtain fs where p: "pool c held fs" using reachable_pool [OF assms] by blast
  have "\<exists>i c'. rlpCoderAcquireItem calloc c = Some (i, c') \<and> i \<notin> set held \<and> holds (heap c') i = Some zero_item"
    using acquire_pool [OF p assms(2)] by (metis fun_upd_same)
  moreover have "\<exists>c'. itemRelease i c = Some c' \<and> (\<forall>a. a \<noteq> i \<longrightarrow> holds (heap c') a = holds (heap c) a)"
    if "i \<in> set held" for i
    using release_pool [OF p that] by (metis fun_upd_other)
  ultimately show ?thesis
    using p busyCount_pool [OF p] rlpCoderRelease_pool [OF p] by (simp add: pool_def)
qed

text \<open>An allocator: the address after the largest one in use.\<close>

definition next_addr :: "heap \<Rightarrow> addr" where
  "next_addr h = (if dom h = {} then 0 else Max (dom h) + 1)"

lemma next_addr_ok: "calloc_ok next_addr"
proof (unfold calloc_ok_def, intro allI impI)
  fix h :: heap assume "finite (dom h)"
  then have "Max (dom h) + 1 \<notin> dom h" using Max_ge [of "dom h" "Max (dom h) + 1"] by linarith
  then show "next_addr h \<notin> dom h" unfolding next_addr_def by (auto simp del: dom_eq_empty_conv)
qed

theorem pool_invariant_witness:
  "\<exists>i c. rlpCoderAcquireItem next_addr rlpCoderCreate = Some (i, c) \<and>
    rlpCoderBusyCount c = Some 1 \<and> rlpCoderRelease c = None \<and>
    rlpCoderRelease rlpCoderCreate = Some Map.empty"
proof -
  have r: "reachable next_addr rlpCoderCreate []" by (rule create)
  from pool_invariant [OF r next_addr_ok] obtain i c where i: "rlpCoderAcquireItem next_addr rlpCoderCreate = Some (i, c)" by blast
  from pool_invariant [OF acquire [OF r i] next_addr_ok] pool_invariant [OF r next_addr_ok] show ?thesis using i by auto
qed

section \<open>Values in the pool\<close>

text \<open>
  The item at \<open>i\<close> holds the value \<open>t\<close>, in the items \<open>ns\<close>: those of the sub-items, then \<open>i\<close>.
\<close>

fun rep :: "heap \<Rightarrow> addr \<Rightarrow> BRRlpItem \<Rightarrow> addr list \<Rightarrow> bool"
  and reps :: "heap \<Rightarrow> addr list \<Rightarrow> BRRlpItem list \<Rightarrow> addr list \<Rightarrow> bool" where
  "rep h i (CODER_ITEM bs) ns \<longleftrightarrow>
     ns = [i] \<and> holds h i = Some (zero_item\<lparr>bytesCount := length bs, bytes := Some bs\<rparr>)"
| "rep h i (CODER_LIST bs ts) ns \<longleftrightarrow>
     (\<exists>its ns'. ns = ns' @ [i] \<and> reps h its ts ns' \<and> holds h i =
        Some (zero_item\<lparr>item_type := TYPE_CODER_LIST, bytesCount := length bs, bytes := Some bs,
          itemsCount := length its, items := Some its\<rparr>))"
| "reps h its [] ns \<longleftrightarrow> its = [] \<and> ns = []"
| "reps h its (t # ts) ns \<longleftrightarrow>
     (\<exists>i its' n1 n2. its = i # its' \<and> ns = n1 @ n2 \<and> rep h i t n1 \<and> reps h its' ts n2)"

lemma rep_frame:
  "rep h i t ns \<Longrightarrow> (\<And>a. a \<in> set ns \<Longrightarrow> holds h' a = holds h a) \<Longrightarrow> rep h' i t ns"
  "reps h its ts ns \<Longrightarrow> (\<And>a. a \<in> set ns \<Longrightarrow> holds h' a = holds h a) \<Longrightarrow> reps h' its ts ns"
proof (induction h i t ns and h its ts ns rule: rep_reps.induct)
  case (2 h i bs ts ns)
  from "2.prems"(1) obtain its ns' where r: "ns = ns' @ [i]" "reps h its ts ns'" "holds h i =
      Some (zero_item\<lparr>item_type := TYPE_CODER_LIST, bytesCount := length bs, bytes := Some bs,
        itemsCount := length its, items := Some its\<rparr>)" unfolding rep.simps by blast
  have "reps h' its ts ns'" using "2.IH" [OF r(2)] "2.prems"(2) r(1) by simp
  then show ?case unfolding rep.simps using r "2.prems"(2) by (intro exI [of _ its] exI [of _ ns']) simp
next
  case (4 h its t ts ns)
  from "4.prems"(1) obtain i js n1 n2 where r: "its = i # js" "ns = n1 @ n2" "rep h i t n1" "reps h js ts n2"
    unfolding reps.simps by blast
  have "rep h' i t n1" using "4.IH"(1) [OF r(3)] "4.prems"(2) r(2) by simp
  moreover have "reps h' js ts n2" using "4.IH"(2) [OF r(4)] "4.prems"(2) r(2) by simp
  ultimately show ?case using r by auto
qed auto

lemma rep_last: "rep h i t ns \<Longrightarrow> i \<in> set ns"
  by (cases t) auto

lemma holds_Some:
  assumes "holds h i = Some m"
  obtains n where "h i = Some n" "bytes n = bytes m" "bytesCount n = bytesCount m" "items n = items m"
    "itemsCount n = itemsCount m" "item_type n = item_type m"
  using assms by (auto simp: holds_def payload_def)

subsection \<open>Release\<close>

text \<open>Releasing the items \<open>ns\<close> in this order.\<close>

definition released :: "addr list \<Rightarrow> BRRlpCoderRecord \<Rightarrow> addr list \<Rightarrow> addr list \<Rightarrow> BRRlpCoderRecord \<Rightarrow> bool" where
  "released ns c bs fs c' \<longleftrightarrow> pool c' (filter (\<lambda>a. a \<notin> set ns) bs) (rev ns @ fs) \<and> failed c' = failed c \<and>
     (\<forall>a. holds (heap c') a = (if a \<in> set ns then Some zero_item else holds (heap c) a))"

lemma released_Nil: "pool c bs fs \<Longrightarrow> released [] c bs fs c"
  by (simp add: released_def)

lemma released_append:
  assumes "released n1 c bs fs c1" and "released n2 c1 (filter (\<lambda>a. a \<notin> set n1) bs) (rev n1 @ fs) c2"
  shows "released (n1 @ n2) c bs fs c2"
  using assms by (auto simp: released_def conj_commute)

lemma released_item:
  assumes "pool c bs fs" and "i \<in> set bs"
  obtains c' where "itemRelease i c = Some c'" "released [i] c bs fs c'"
proof -
  have "remove1 i bs = filter (\<lambda>a. a \<notin> set [i]) bs"
    using assms(1) by (simp add: pool_def distinct_remove1_removeAll removeAll_filter_not_eq) metis
  then show thesis
    using release_pool [OF assms] that unfolding released_def by force
qed

lemma release_loop_turn:
  assumes "holds (heap c) i = Some m" and "items m = Some its" and "itemsCount m = length its" and "k < length its"
  shows "release_loop i k c = Option.bind (rlpReleaseItem (its ! k) c) (release_loop i (Suc k))"
proof -
  obtain n where "heap c i = Some n" "items n = items m" "itemsCount n = itemsCount m"
    using assms(1) by (rule holds_Some)
  then show ?thesis using assms by (subst release_loop.simps) (simp add: rlpReleaseItem_def)
qed

lemma release_loop_end:
  assumes "holds (heap c) i = Some m" and "itemsCount m = k"
  shows "release_loop i k c = itemRelease i c"
proof -
  obtain n where "heap c i = Some n" "itemsCount n = itemsCount m"
    using assms(1) by (rule holds_Some)
  then show ?thesis using assms by (subst release_loop.simps) simp
qed

lemma release_rep:
  "rep (heap c) i t ns \<Longrightarrow> pool c bs fs \<Longrightarrow> distinct ns \<Longrightarrow> set ns \<subseteq> set bs \<Longrightarrow>
     \<exists>c'. rlpReleaseItem i c = Some c' \<and> released ns c bs fs c'"
  "reps (heap c) its' ts ns \<Longrightarrow> pool c bs fs \<Longrightarrow> distinct (ns @ [i]) \<Longrightarrow> set (ns @ [i]) \<subseteq> set bs \<Longrightarrow>
     holds (heap c) i = Some m \<Longrightarrow> items m = Some its \<Longrightarrow> itemsCount m = length its \<Longrightarrow> drop k its = its' \<Longrightarrow> k \<le> length its \<Longrightarrow>
     \<exists>c'. release_loop i k c = Some c' \<and> released (ns @ [i]) c bs fs c'"
proof (induction "h :: heap" i t ns and "h :: heap" its' ts ns arbitrary: c bs fs and c bs fs i k its m rule: rep_reps.induct)
  case (1 h i b ns)
  then have ns: "ns = [i]" and hi: "holds (heap c) i = Some (zero_item\<lparr>bytesCount := length b, bytes := Some b\<rparr>)"
    by auto
  have "rlpReleaseItem i c = itemRelease i c" unfolding rlpReleaseItem_def by (rule release_loop_end [OF hi]) simp
  then show ?case using released_item [of c bs fs i] 1(2,4) ns by auto
next
  case (2 h i b ts ns)
  from "2.prems"(1) obtain its ns' where r: "ns = ns' @ [i]" "reps (heap c) its ts ns'" "holds (heap c) i =
      Some (zero_item\<lparr>item_type := TYPE_CODER_LIST, bytesCount := length b, bytes := Some b,
          itemsCount := length its, items := Some its\<rparr>)" unfolding rep.simps by blast
  have d: "drop 0 its = its" "0 \<le> length its" by simp_all
  show ?case
    using "2.IH" [OF r(2) "2.prems"(2) _ _ r(3) _ _ d] "2.prems"(3,4) unfolding r(1) rlpReleaseItem_def by simp
next
  case (3 h its' ns)
  then have "itemsCount m = k" by simp
  from release_loop_end [OF 3(5) this] show ?case using released_item [of c bs fs i] 3(1,2,4) by auto
next
  case (4 h its' t ts ns)
  from "4.prems"(1) obtain j js n1 n2 where r: "its' = j # js" "ns = n1 @ n2" "rep (heap c) j t n1" "reps (heap c) js ts n2"
    unfolding reps.simps by blast
  have k: "k < length its" using "4.prems"(8,9) r(1) by (cases "k = length its") auto
  have j: "its ! k = j" "drop (Suc k) its = js" "Suc k \<le> length its"
    using "4.prems"(8) r(1) Cons_nth_drop_Suc [OF k] k by simp_all
  obtain c1 where c1: "rlpReleaseItem j c = Some c1" "released n1 c bs fs c1"
    using "4.IH"(1) [OF r(3) "4.prems"(2)] "4.prems"(3,4) r(2) by auto
  let ?bs = "filter (\<lambda>a. a \<notin> set n1) bs"
  have same: "holds (heap c1) a = holds (heap c) a" if "a \<notin> set n1" for a
    using c1(2) that by (simp add: released_def)
  have "reps (heap c1) js ts n2" using r(4) by (rule rep_frame(2)) (use same "4.prems"(3) r(2) in auto)
  moreover have "pool c1 ?bs (rev n1 @ fs)" using c1(2) by (simp add: released_def)
  moreover have "distinct (n2 @ [i])" "set (n2 @ [i]) \<subseteq> set ?bs" using "4.prems"(3,4) r(2) by auto
  moreover have "holds (heap c1) i = Some m" using same [of i] "4.prems"(3,5) r(2) by simp
  ultimately obtain c2 where c2: "release_loop i (Suc k) c1 = Some c2" "released (n2 @ [i]) c1 ?bs (rev n1 @ fs) c2"
    using "4.IH"(2) [OF _ _ _ _ _ "4.prems"(6,7) j(2,3)] by blast
  have "release_loop i k c = Some c2"
    using release_loop_turn [OF "4.prems"(5,6,7) k] c1(1) c2(1) j(1) by simp
  then show ?case using released_append [OF c1(2) c2(2)] r(2) by auto
qed

subsection \<open>Encoding\<close>

text \<open>
  What an operation that returns a new item does to the pool: the items \<open>ns\<close> are new, the
  others hold what they held.
\<close>

definition grown :: "addr list \<Rightarrow> BRRlpCoderRecord \<Rightarrow> addr list \<Rightarrow> BRRlpCoderRecord \<Rightarrow> bool" where
  "grown ns c bs c' \<longleftrightarrow> (\<exists>new fs'. pool c' (new @ bs) fs' \<and> set new = set ns) \<and> distinct ns \<and> set ns \<inter> set bs = {} \<and>
     failed c' = failed c \<and> (\<forall>a. a \<notin> set ns \<longrightarrow> holds (heap c') a = holds (heap c) a)"

lemma acquire_holds:
  assumes "pool c bs fs" and "calloc_ok calloc"
  obtains i c' where "rlpCoderAcquireItem calloc c = Some (i, c')" "grown [i] c bs c'" "holds (heap c') i = Some zero_item"
proof -
  from acquire_pool [OF assms] obtain i c' fs' where a: "rlpCoderAcquireItem calloc c = Some (i, c')" "pool c' (i # bs) fs'"
    "i \<notin> set bs" "holds (heap c') = (holds (heap c))(i \<mapsto> zero_item)" "failed c' = failed c"
    "fs = i # fs' \<or> fs = [] \<and> fs' = [] \<and> i = calloc (heap c) \<and> i \<notin> dom (heap c)" .
  from a(2-5) have "grown [i] c bs c'"
    unfolding grown_def by (intro conjI exI [of _ "[i]"] exI [of _ fs']) simp_all
  then show thesis using that [OF a(1)] a(4) by simp
qed

text \<open>Writing an item that was just acquired.\<close>

lemma grown_write:
  assumes "grown ns c bs c'" and "i \<in> set ns" and "holds (heap c') i = Some m"
    and "\<And>n. nxt (f n) = nxt n \<and> prv (f n) = prv n \<and> payload (f n) = f (payload n)"
  obtains c'' where "upd i f c' = Some c''" "grown ns c bs c''" "holds (heap c'') = (holds (heap c'))(i \<mapsto> f m)"
proof -
  obtain new fs' where p: "pool c' (new @ bs) fs'" "set new = set ns" using assms(1) by (auto simp: grown_def)
  have "i \<in> set (new @ bs)" using p(2) assms(2) by simp
  from write_pool [OF p(1) this, of f] assms(4) obtain n where
    n: "heap c' i = Some n" "upd i f c' = Some (c'\<lparr>heap := (heap c')(i \<mapsto> f n)\<rparr>)"
      "pool (c'\<lparr>heap := (heap c')(i \<mapsto> f n)\<rparr>) (new @ bs) fs'" by blast
  have h: "holds ((heap c')(i \<mapsto> f n)) = (holds (heap c'))(i \<mapsto> f m)"
    using assms(3,4) n(1) by (auto simp: holds_def fun_eq_iff)
  show thesis using n(2) h p(2) n(3) assms(1,2)
    by (intro that [of "c'\<lparr>heap := (heap c')(i \<mapsto> f n)\<rparr>"]) (auto simp: grown_def)
qed

lemma ensure_bytes:
  assumes "grown ns c bs c'" and "i \<in> set ns" and "holds (heap c') i = Some m" and "bytes m = None"
  obtains c'' where "itemEnsureBytes i b c' = Some c''" "grown ns c bs c''"
    "holds (heap c'') = (holds (heap c'))(i \<mapsto> m\<lparr>bytesCount := length b, bytes := Some b\<rparr>)"
proof -
  obtain n where n: "heap c' i = Some n" "bytes n = None" using assms(3,4) by (metis holds_Some)
  from grown_write [OF assms(1-3), of "\<lambda>n. n\<lparr>bytesCount := length b, bytes := Some b\<rparr>"] obtain c'' where
    "upd i (\<lambda>n. n\<lparr>bytesCount := length b, bytes := Some b\<rparr>) c' = Some c''" "grown ns c bs c''"
    "holds (heap c'') = (holds (heap c'))(i \<mapsto> m\<lparr>bytesCount := length b, bytes := Some b\<rparr>)"
    by (auto simp: payload_def)
  then show thesis using n by (intro that) (auto simp: itemEnsureBytes_def)
qed

lemma fill_list:
  assumes "grown ns c bs c'" and "i \<in> set ns" and "holds (heap c') i = Some m"
  obtains c'' where "itemFillList i its c' = Some c''" "grown ns c bs c''"
    "holds (heap c'') = (holds (heap c'))(i \<mapsto> m\<lparr>item_type := TYPE_CODER_LIST, itemsCount := length its, items := Some its\<rparr>)"
  using grown_write [OF assms, of "\<lambda>n. n\<lparr>item_type := TYPE_CODER_LIST, itemsCount := length its, items := Some its\<rparr>"]
  by (auto simp: payload_def itemFillList_def)

lemma encodeBytes_rep:
  assumes "pool c bs fs" and "calloc_ok calloc" and "coderEncodeBytes b = Some t"
  obtains i c' where "pool_encodeBytes calloc b c = Some (i, c')" "rep (heap c') i t [i]" "grown [i] c bs c'"
proof -
  from acquire_holds [OF assms(1,2)] obtain i c1 where a: "rlpCoderAcquireItem calloc c = Some (i, c1)" "grown [i] c bs c1"
    "holds (heap c1) i = Some zero_item" .
  have z: "zero_item\<lparr>item_type := TYPE_CODER_ITEM\<rparr> = zero_item" by (simp add: zero_item_def)
  from grown_write [OF a(2) _ a(3), of "item_type_update (\<lambda>_. TYPE_CODER_ITEM)"] obtain c2 where
    c2: "upd i (item_type_update (\<lambda>_. TYPE_CODER_ITEM)) c1 = Some c2" "grown [i] c bs c2" "holds (heap c2) i = Some zero_item"
    unfolding z by (simp add: payload_def) (metis fun_upd_same)
  have create: "itemCreateEmpty calloc TYPE_CODER_ITEM c = Some (i, c2)" by (simp add: itemCreateEmpty_def a(1) c2(1))
  let ?b = "bytes_of t"
  from ensure_bytes [OF c2(2) _ c2(3), of ?b] obtain c3 where c3: "itemEnsureBytes i ?b c2 = Some c3" "grown [i] c bs c3"
    "holds (heap c3) = (holds (heap c2))(i \<mapsto> zero_item\<lparr>bytesCount := length ?b, bytes := Some ?b\<rparr>)" by auto
  obtain e where t: "t = CODER_ITEM e" using assms(3) by (auto simp: coderEncodeBytes_def split: if_splits)
  have "pool_encodeBytes calloc b c = Some (i, c3)"
    using assms(3) c3(1) t by (auto simp: pool_encodeBytes_def create coderEncodeBytes_def split: if_splits)
  moreover have "rep (heap c3) i t [i]" using c3(3) t by simp
  ultimately show thesis using that c3(2) by blast
qed

lemma bodies_rep:
  "reps h its ts ns \<Longrightarrow> item_bodies h its = Some (concat (map bytes_of ts))"
proof (induction ts arbitrary: its ns)
  case (Cons t ts)
  then obtain i js n1 n2 where r: "its = i # js" "rep h i t n1" "reps h js ts n2" by auto
  obtain m where m: "holds h i = Some m" "bytes m = Some (bytes_of t)" "bytesCount m = length (bytes_of t)"
    using r(2) by (cases t) auto
  obtain n where "h i = Some n" "bytes n = Some (bytes_of t)" "bytesCount n = length (bytes_of t)"
    using m by (metis holds_Some)
  then show ?case using Cons.IH [OF r(3)] r(1) by simp
qed simp

lemma encodeList_rep:
  assumes "pool c bs fs" and "calloc_ok calloc" and "coderEncodeList ts = Some t"
    and "reps (heap c) its ts ns" and "set ns \<subseteq> set bs"
  obtains i c' where "pool_encodeList calloc its c = Some (i, c')" "rep (heap c') i t (ns @ [i])" "grown [i] c bs c'"
proof -
  from acquire_holds [OF assms(1,2)] obtain i c1 where a: "rlpCoderAcquireItem calloc c = Some (i, c1)" "grown [i] c bs c1"
    "holds (heap c1) i = Some zero_item" .
  have i: "i \<notin> set bs" "\<And>a. a \<noteq> i \<Longrightarrow> holds (heap c1) a = holds (heap c) a" using a(2) by (auto simp: grown_def)
  have r1: "reps (heap c1) its ts ns" using assms(4) by (rule rep_frame(2)) (metis i assms(5) subset_iff)
  let ?b = "bytes_of t"
  from ensure_bytes [OF a(2) _ a(3), of ?b] obtain c2 where c2: "itemEnsureBytes i ?b c1 = Some c2" "grown [i] c bs c2"
    "holds (heap c2) = (holds (heap c1))(i \<mapsto> zero_item\<lparr>bytesCount := length ?b, bytes := Some ?b\<rparr>)" by auto
  from fill_list [OF c2(2), of i "zero_item\<lparr>bytesCount := length ?b, bytes := Some ?b\<rparr>" its] c2(3) obtain c3 where
    c3: "itemFillList i its c2 = Some c3" "grown [i] c bs c3" "holds (heap c3) = (holds (heap c2))(i \<mapsto>
      zero_item\<lparr>bytesCount := length ?b, bytes := Some ?b, item_type := TYPE_CODER_LIST, itemsCount := length its, items := Some its\<rparr>)"
    by auto
  have t: "t = CODER_LIST ?b ts" "pool_encodeList calloc its c = Some (i, c3)"
    using assms(3) a(1) c2(1) c3(1) bodies_rep [OF r1]
    by (auto simp: pool_encodeList_def coderEncodeList_def Let_def)
  have "reps (heap c3) its ts ns" using r1
    by (rule rep_frame(2)) (metis i(1) assms(5) subset_iff c2(3) c3(3) fun_upd_other)
  then have "rep (heap c3) i (CODER_LIST ?b ts) (ns @ [i])"
    unfolding rep.simps using c3(3) by (intro exI [of _ its] exI [of _ ns]) (simp add: zero_item_def)
  then show thesis using that t c3(2) by metis
qed

subsection \<open>Parsing\<close>

lemma grownE:
  assumes "grown ns c bs c'"
  obtains new fs' where "pool c' (new @ bs) fs'" "set new = set ns" "distinct ns" "set ns \<inter> set bs = {}"
    "failed c' = failed c" "\<And>a. a \<notin> set ns \<Longrightarrow> holds (heap c') a = holds (heap c) a"
  using assms by (auto simp: grown_def)

lemma grown_Nil: "pool c bs fs \<Longrightarrow> grown [] c bs c"
  by (auto simp: grown_def)

lemma grown_append:
  assumes "grown n1 c bs c1" and "set new = set n1" and "grown n2 c1 (new @ bs) c2"
  shows "grown (n1 @ n2) c bs c2"
proof -
  from assms(3) obtain new2 fs2 where g2: "pool c2 (new2 @ new @ bs) fs2" "set new2 = set n2" "distinct n2"
    "set n2 \<inter> set (new @ bs) = {}" "failed c2 = failed c1" "\<And>a. a \<notin> set n2 \<Longrightarrow> holds (heap c2) a = holds (heap c1) a"
    by (rule grownE) blast
  from assms(1) have g1: "distinct n1" "set n1 \<inter> set bs = {}" "failed c1 = failed c"
    "\<And>a. a \<notin> set n1 \<Longrightarrow> holds (heap c1) a = holds (heap c) a" by (auto elim: grownE)
  have "\<exists>new' fs'. pool c2 (new' @ bs) fs' \<and> set new' = set (n1 @ n2)"
    using g2(1,2) assms(2) by (intro exI [of _ "new2 @ new"] exI [of _ fs2]) auto
  then show ?thesis
    using g1 g2(2-6) assms(2) unfolding grown_def by auto
qed

lemma grown_perm: "grown ns c bs c' \<Longrightarrow> set ns' = set ns \<Longrightarrow> distinct ns' \<Longrightarrow> grown ns' c bs c'"
  by (simp add: grown_def)

text \<open>The list item \<open>i\<close> around the items \<open>ns\<close> that came after it.\<close>

lemma list_rep:
  assumes "grown [i] c bs c2" and "holds (heap c2) i = Some (zero_item\<lparr>bytesCount := length b, bytes := Some b\<rparr>)"
    and "set new = {i}" and "reps (heap c3) its ts ns" and "grown ns c2 (new @ bs) c3"
  obtains c4 where "itemFillList i its c3 = Some c4" "rep (heap c4) i (CODER_LIST b ts) (ns @ [i])" "grown (ns @ [i]) c bs c4"
proof -
  have i: "i \<notin> set ns" "distinct ns" "holds (heap c3) i = holds (heap c2) i"
    using assms(3,5) by (auto elim: grownE)
  have "grown ([i] @ ns) c bs c3" using assms(1,3,5) by (intro grown_append) auto
  then have g: "grown (ns @ [i]) c bs c3" by (rule grown_perm) (use i in auto)
  have h: "holds (heap c3) i = Some (zero_item\<lparr>bytesCount := length b, bytes := Some b\<rparr>)" using i assms(2) by simp
  from fill_list [OF g _ h, of its] obtain c4 where c4: "itemFillList i its c3 = Some c4" "grown (ns @ [i]) c bs c4"
    "holds (heap c4) = (holds (heap c3))(i \<mapsto> zero_item\<lparr>bytesCount := length b, bytes := Some b,
       item_type := TYPE_CODER_LIST, itemsCount := length its, items := Some its\<rparr>)" by auto
  have "reps (heap c4) its ts ns" using assms(4) by (rule rep_frame(2)) (metis c4(3) i(1) fun_upd_other)
  then have "rep (heap c4) i (CODER_LIST b ts) (ns @ [i])"
    unfolding rep.simps using c4(3) by (intro exI [of _ its] exI [of _ ns]) (simp add: zero_item_def)
  then show thesis using that c4 by blast
qed

text \<open>An item and those that came after it.\<close>

lemma reps_Cons:
  assumes "rep (heap c1) i t n1" and "grown n1 c bs c1" and "set new = set n1"
    and "reps (heap c2) its ts n2" and "grown n2 c1 (new @ bs) c2"
  shows "reps (heap c2) (i # its) (t # ts) (n1 @ n2)" and "grown (n1 @ n2) c bs c2"
proof -
  have disj: "a \<notin> set n2" if "a \<in> set n1" for a using assms(3,5) that by (elim grownE) auto
  have same: "\<And>a. a \<notin> set n2 \<Longrightarrow> holds (heap c2) a = holds (heap c1) a" using assms(5) by (elim grownE)
  have "rep (heap c2) i t n1" using assms(1) by (rule rep_frame(1)) (metis disj same)
  then show "reps (heap c2) (i # its) (t # ts) (n1 @ n2)" unfolding reps.simps using assms(4) by blast
  show "grown (n1 @ n2) c bs c2" using assms(2,3,5) by (rule grown_append)
qed

lemma acquire_bytes:
  assumes "pool c bs fs" and "calloc_ok calloc"
  obtains i c1 c2 where "rlpCoderAcquireItem calloc c = Some (i, c1)" "itemEnsureBytes i b c1 = Some c2" "grown [i] c bs c2"
    "holds (heap c2) i = Some (zero_item\<lparr>bytesCount := length b, bytes := Some b\<rparr>)"
proof -
  from acquire_holds [OF assms] obtain i c1 where a: "rlpCoderAcquireItem calloc c = Some (i, c1)" "grown [i] c bs c1"
    "holds (heap c1) i = Some zero_item" .
  from ensure_bytes [OF a(2) _ a(3), of b] obtain c2 where "itemEnsureBytes i b c1 = Some c2" "grown [i] c bs c2"
    "holds (heap c2) = (holds (heap c1))(i \<mapsto> zero_item\<lparr>bytesCount := length b, bytes := Some b\<rparr>)" by auto
  then show thesis using that a(1) by simp
qed

lemma getItem_rep:
  assumes "calloc_ok calloc"
  shows "rlpGetItem_at mem count = Some t \<Longrightarrow> pool c bs fs \<Longrightarrow>
      \<exists>i c' ns. pool_getItem_at calloc mem count c = Some (i, c') \<and> rep (heap c') i t ns \<and> grown ns c bs c'"
    and "rlpGetItems mem left = Some ts \<Longrightarrow> pool c bs fs \<Longrightarrow>
      \<exists>its c' ns. pool_getItems calloc mem left c = Some (its, c') \<and> reps (heap c') its ts ns \<and> grown ns c bs c'"
proof (induction mem count and mem left arbitrary: t c bs fs and ts c bs fs rule: rlpGetItem_at_rlpGetItems.induct)
  case (1 mem count)
  have ok: "\<not> (count = 0 \<or> length mem < unat count)"
    using "1.prems"(1) by (subst (asm) rlpGetItem_at.simps) (simp split: if_splits)
  let ?b = "take (unat count) mem"
  from acquire_bytes [OF "1.prems"(2) assms, of ?b] obtain i c1 c2 where
    c: "rlpCoderAcquireItem calloc c = Some (i, c1)" "itemEnsureBytes i ?b c1 = Some c2" "grown [i] c bs c2"
      "holds (heap c2) i = Some (zero_item\<lparr>bytesCount := length ?b, bytes := Some ?b\<rparr>)" .
  show ?case
  proof (cases "mem ! 0 < RLP_PREFIX_LIST")
    case True
    then have "t = CODER_ITEM ?b" using "1.prems"(1) ok by (subst (asm) rlpGetItem_at.simps) simp
    moreover have "pool_getItem_at calloc mem count c = Some (i, c2)"
      using True ok c by (subst pool_getItem_at.simps) simp
    ultimately show ?thesis using c(3,4) by (intro exI [of _ i] exI [of _ c2] exI [of _ "[i]"]) simp
  next
    case False
    then obtain len offset ts where p: "decodeLength mem RLP_PREFIX_LIST = Some (len, offset)" "count = len + ucast offset"
      "rlpGetItems (drop (unat offset) mem) (unat count - unat offset) = Some ts" "t = CODER_LIST ?b ts"
      using "1.prems"(1) ok by (subst (asm) rlpGetItem_at.simps) (auto split: option.splits if_splits)
    from c(3) obtain new fs2 where g: "pool c2 (new @ bs) fs2" "set new = {i}" by (rule grownE) simp
    obtain its c3 ns where r: "pool_getItems calloc (drop (unat offset) mem) (unat count - unat offset) c2 = Some (its, c3)"
      "reps (heap c3) its ts ns" "grown ns c2 (new @ bs) c3"
      using "1.IH" [OF ok False p(1) refl _ p(3) g(1)] p(2) by blast
    from list_rep [OF c(3,4) g(2) r(2,3)] obtain c4 where c4: "itemFillList i its c3 = Some c4"
      "rep (heap c4) i (CODER_LIST ?b ts) (ns @ [i])" "grown (ns @ [i]) c bs c4" .
    have "pool_getItem_at calloc mem count c = Some (i, c4)"
      using False ok c(1,2) p(1,2) r(1) c4(1) by (subst pool_getItem_at.simps) simp
    then show ?thesis using c4(2,3) p(4) by blast
  qed
next
  case (2 mem left)
  show ?case
  proof (cases "left = 0")
    case True
    then have "ts = []" using "2.prems"(1) by (subst (asm) rlpGetItems.simps) simp
    then show ?thesis using True grown_Nil [OF "2.prems"(2)] by (subst pool_getItems.simps) auto
  next
    case False
    then obtain count t ts' where p: "rlpGetItem_FillData mem = Some count" "\<not> (count = 0 \<or> length mem < unat count)"
      "rlpGetItem_at mem count = Some t" "rlpGetItems (drop (unat count) mem) (left - unat count) = Some ts'" "ts = t # ts'"
      using "2.prems"(1) by (subst (asm) rlpGetItems.simps) (auto split: option.splits if_splits)
    obtain i c1 n1 where r1: "pool_getItem_at calloc mem count c = Some (i, c1)" "rep (heap c1) i t n1" "grown n1 c bs c1"
      using "2.IH"(1) [OF False p(1,2) p(3) "2.prems"(2)] by blast
    from r1(3) obtain new fs1 where g: "pool c1 (new @ bs) fs1" "set new = set n1" by (rule grownE)
    obtain its c2 n2 where r2: "pool_getItems calloc (drop (unat count) mem) (left - unat count) c1 = Some (its, c2)"
      "reps (heap c2) its ts' n2" "grown n2 c1 (new @ bs) c2"
      using "2.IH"(2) [OF False p(1,2,3) p(4) g(1)] by blast
    from reps_Cons [OF r1(2,3) g(2) r2(2,3)] have "reps (heap c2) (i # its) ts (n1 @ n2)" "grown (n1 @ n2) c bs c2"
      using p(5) by simp_all
    moreover have "pool_getItems calloc mem left c = Some (i # its, c2)"
      using False p(1,2) r1(1) r2(1) by (subst pool_getItems.simps) simp
    ultimately show ?thesis by blast
  qed
qed

subsection \<open>A client\<close>

text \<open>The calls of \<open>build\<close>, on the pool.\<close>

fun pool_build :: "(heap \<Rightarrow> addr) \<Rightarrow> rlp \<Rightarrow> BRRlpCoderRecord \<Rightarrow> (addr \<times> BRRlpCoderRecord) option"
  and pool_builds :: "(heap \<Rightarrow> addr) \<Rightarrow> rlp list \<Rightarrow> BRRlpCoderRecord \<Rightarrow> (addr list \<times> BRRlpCoderRecord) option" where
  "pool_build calloc (RStr bs) c = pool_encodeBytes calloc bs c"
| "pool_build calloc (RList rs) c = Option.bind (pool_builds calloc rs c) (\<lambda>(its, c1). pool_encodeList calloc its c1)"
| "pool_builds calloc [] c = Some ([], c)"
| "pool_builds calloc (r # rs) c =
     Option.bind (pool_build calloc r c) (\<lambda>(i, c1).
     Option.bind (pool_builds calloc rs c1) (\<lambda>(its, c2). Some (i # its, c2)))"

lemma build_rep:
  "build r = Some t \<Longrightarrow> calloc_ok calloc \<Longrightarrow> pool c bs fs \<Longrightarrow>
     \<exists>i c' ns. pool_build calloc r c = Some (i, c') \<and> rep (heap c') i t ns \<and> grown ns c bs c'"
  "those (map build rs) = Some ts \<Longrightarrow> calloc_ok calloc \<Longrightarrow> pool c bs fs \<Longrightarrow>
     \<exists>its c' ns. pool_builds calloc rs c = Some (its, c') \<and> reps (heap c') its ts ns \<and> grown ns c bs c'"
proof (induction calloc r c and calloc rs c arbitrary: t bs fs and ts bs fs rule: pool_build_pool_builds.induct)
  case (1 calloc b c)
  then have "coderEncodeBytes b = Some t" by (simp add: rlpEncodeBytes_def)
  from encodeBytes_rep [OF 1(3,2) this] obtain i c' where "pool_encodeBytes calloc b c = Some (i, c')"
    "rep (heap c') i t [i]" "grown [i] c bs c'" .
  then show ?case unfolding pool_build.simps by blast
next
  case (2 calloc rs c)
  from "2.prems"(1) obtain ts where ts: "those (map build rs) = Some ts" "coderEncodeList ts = Some t"
    by (auto simp: rlpEncodeListItems_def split: option.splits)
  from "2.IH" [OF ts(1) "2.prems"(2,3)] obtain its c1 ns where
    r: "pool_builds calloc rs c = Some (its, c1)" "reps (heap c1) its ts ns" "grown ns c bs c1" by blast
  from r(3) obtain new fs1 where g: "pool c1 (new @ bs) fs1" "set new = set ns" by (rule grownE)
  have "set ns \<subseteq> set (new @ bs)" using g(2) by auto
  from encodeList_rep [OF g(1) "2.prems"(2) ts(2) r(2) this] obtain i c2 where
    e: "pool_encodeList calloc its c1 = Some (i, c2)" "rep (heap c2) i t (ns @ [i])" "grown [i] c1 (new @ bs) c2" .
  have "grown (ns @ [i]) c bs c2" using r(3) g(2) e(3) by (rule grown_append)
  then show ?case unfolding pool_build.simps using r(1) e(1,2) by auto
next
  case (3 calloc c)
  then show ?case using grown_Nil [OF 3(3)] by auto
next
  case (4 calloc r rs c)
  from "4.prems"(1) obtain t ts' where t: "build r = Some t" "those (map build rs) = Some ts'" "ts = t # ts'"
    by (auto split: option.splits)
  from "4.IH"(1) [OF t(1) "4.prems"(2,3)] obtain i c1 n1 where
    r1: "pool_build calloc r c = Some (i, c1)" "rep (heap c1) i t n1" "grown n1 c bs c1" by blast
  from r1(3) obtain new fs1 where g: "pool c1 (new @ bs) fs1" "set new = set n1" by (rule grownE)
  from "4.IH"(2) [OF r1(1) refl t(2) "4.prems"(2) g(1)] obtain its c2 n2 where
    r2: "pool_builds calloc rs c1 = Some (its, c2)" "reps (heap c2) its ts' n2" "grown n2 c1 (new @ bs) c2" by blast
  from reps_Cons [OF r1(2,3) g(2) r2(2,3)] show ?case
    unfolding pool_builds.simps t(3) using r1(1) r2(1) by auto
qed

lemma release_grown:
  assumes "grown ns c bs c1" and "rep (heap c1) i t ns"
  shows "\<exists>c2 fs. rlpReleaseItem i c1 = Some c2 \<and> pool c2 bs fs \<and> (\<forall>a \<in> set bs. holds (heap c2) a = holds (heap c) a)"
proof -
  from assms(1) obtain new fs1 where g: "pool c1 (new @ bs) fs1" "set new = set ns" "distinct ns" "set ns \<inter> set bs = {}"
    "\<And>a. a \<notin> set ns \<Longrightarrow> holds (heap c1) a = holds (heap c) a" by (rule grownE) blast
  from release_rep(1) [OF assms(2) g(1,3)] g(2) obtain c2 where
    c2: "rlpReleaseItem i c1 = Some c2" "released ns c1 (new @ bs) fs1 c2" by auto
  have "filter (\<lambda>a. a \<notin> set ns) (new @ bs) = bs"
    using g(2,4) by (auto simp: filter_empty_conv filter_id_conv)
  then show ?thesis using c2 g(4,5) by (auto simp: released_def)
qed

text \<open>
  Claim C24.  The coder on the pool refines the coder on values: in any reachable state the
  items that building an RLP value, or parsing data, leaves in the pool hold exactly the item
  the model on values gives, and releasing that item returns everything it acquired: the
  busy list is again the one before, and what the other clients hold is untouched.
\<close>

theorem pool_refines_values:
  assumes "reachable calloc c held" and "calloc_ok calloc"
  shows "(\<forall>r t. build r = Some t \<longrightarrow> (\<exists>i c1 ns c2. pool_build calloc r c = Some (i, c1) \<and> rep (heap c1) i t ns \<and>
      rlpReleaseItem i c1 = Some c2 \<and> path (heap c2) (busy c2) held None \<and>
      (\<forall>a \<in> set held. holds (heap c2) a = holds (heap c) a))) \<and>
    (\<forall>data t. rlpGetItem data = Some t \<longrightarrow> (\<exists>i c1 ns c2.
      pool_getItem_at calloc (BRRlpData.bytes data) (BRRlpData.bytesCount data) c = Some (i, c1) \<and> rep (heap c1) i t ns \<and>
      rlpReleaseItem i c1 = Some c2 \<and> path (heap c2) (busy c2) held None \<and>
      (\<forall>a \<in> set held. holds (heap c2) a = holds (heap c) a)))"
proof -
  obtain fs where p: "pool c held fs" using reachable_pool [OF assms] by blast
  have fin: "\<exists>c2. rlpReleaseItem i c1 = Some c2 \<and> path (heap c2) (busy c2) held None \<and>
      (\<forall>a \<in> set held. holds (heap c2) a = holds (heap c) a)" if "grown ns c held c1" "rep (heap c1) i t ns" for i c1 ns t
    using release_grown [OF that] by (auto simp: pool_def)
  show ?thesis
    using build_rep(1) [OF _ assms(2) p] getItem_rep(1) [OF assms(2) _ p] fin unfolding rlpGetItem_def by meson
qed

theorem pool_refines_values_witness:
  "\<exists>i c1 c2 ns. pool_build next_addr (RList [RStr [1], RStr [2, 3]]) rlpCoderCreate = Some (i, c1) \<and>
    rep (heap c1) i (CODER_LIST [0xc4, 1, 0x82, 2, 3] [CODER_ITEM [1], CODER_ITEM [0x82, 2, 3]]) ns \<and>
    rlpReleaseItem i c1 = Some c2 \<and> busy c2 = None"
proof -
  have "build (RList [RStr [1], RStr [2, 3]]) =
      Some (CODER_LIST [0xc4, 1, 0x82, 2, 3] [CODER_ITEM [1], CODER_ITEM [0x82, 2, 3]])"
    by code_simp
  then show ?thesis using pool_refines_values [OF create next_addr_ok] by fastforce
qed

end
