(* ===== verification/Crypto.thy ===== *)
theory Crypto
  imports Ints
begin

text \<open>
  \<^verbatim>\<open>support/BRCrypto.c\<close>: the hash functions on which addresses, transaction identifiers,
  block hashes and the hash tables rest, and the keyed and streaming constructions on top
  of them.  Macros are definitions of the same name, arrays of words are lists, and the
  block-wise driver that every Merkle-Damgard hash of the file repeats is the parametric
  \<open>md_hash\<close>.  The erasing of temporaries is not modelled.
\<close>

unbundle bit_operations_syntax

section \<open>Words and blocks\<close>

definition be32 :: "u32 \<Rightarrow> u32" where
  "be32 x = push_bit 24 (x AND 0xff) OR push_bit 8 (x AND 0xff00) OR
     drop_bit 8 (x AND 0xff0000) OR drop_bit 24 (x AND 0xff000000)"

text \<open>On a little-endian machine: \<open>{ be32(x >> 32), be32(x) }\<close> as a \<open>uint64_t\<close>.\<close>

definition be64 :: "u64 \<Rightarrow> u64" where
  "be64 x = ucast (be32 (ucast (drop_bit 32 x))) OR push_bit 32 (ucast (be32 (ucast x)))"

definition rol32 :: "u32 \<Rightarrow> nat \<Rightarrow> u32" where
  "rol32 a b = push_bit b a OR drop_bit (32 - b) a"

definition ror32 :: "u32 \<Rightarrow> nat \<Rightarrow> u32" where
  "ror32 a b = drop_bit b a OR push_bit (32 - b) a"

definition ror64 :: "u64 \<Rightarrow> nat \<Rightarrow> u64" where
  "ror64 a b = drop_bit b a OR push_bit (64 - b) a"

definition rol64 :: "u64 \<Rightarrow> nat \<Rightarrow> u64" where
  "rol64 a b = push_bit b a XOR drop_bit (64 - b) a"

fun words32 :: "byte list \<Rightarrow> u32 list" where
  "words32 (a # b # c # d # r) = word_of_le [a, b, c, d] # words32 r"
| "words32 _ = []"

fun words64 :: "byte list \<Rightarrow> u64 list" where
  "words64 (a # b # c # d # e # f # g # h # r) = word_of_le [a, b, c, d, e, f, g, h] # words64 r"
| "words64 _ = []"

definition bytes32 :: "u32 list \<Rightarrow> byte list" where
  "bytes32 ws = concat (map (bytes_le 4) ws)"

definition bytes64 :: "u64 list \<Rightarrow> byte list" where
  "bytes64 ws = concat (map (bytes_le 8) ws)"

text \<open>
  The loop over full blocks, which returns the bytes that do not fill another one, and
  the end of the message: the byte 0x80, zeros, and the length at the end of a block.
\<close>

function block_loop :: "nat \<Rightarrow> ('s \<Rightarrow> byte list \<Rightarrow> 's) \<Rightarrow> 's \<Rightarrow> byte list \<Rightarrow> 's \<times> byte list" where
  "block_loop bs compress r data =
     (if 0 < bs \<and> bs \<le> length data
      then block_loop bs compress (compress r (take bs data)) (drop bs data)
      else (r, data))"
  by pat_completeness auto
termination by (relation "measure (\<lambda>(bs, c, r, d). length d)") auto

declare block_loop.simps [simp del]

definition md_hash :: "nat \<Rightarrow> nat \<Rightarrow> ('s \<Rightarrow> byte list \<Rightarrow> 's) \<Rightarrow> 's \<Rightarrow> (nat \<Rightarrow> byte list) \<Rightarrow>
    byte list \<Rightarrow> 's" where
  "md_hash bs lengthAt compress init lengthBytes data =
     (let (r, rest) = block_loop bs compress init data;
          x = rest @ [0x80] @ replicate (bs - length rest - 1) 0;
          (r', x') = (if length rest \<ge> lengthAt then (compress r x, replicate bs 0) else (r, x))
      in compress r' (take lengthAt x' @ lengthBytes (length data)))"

text \<open>\<open>x[14] = be32(dataLen >> 29), x[15] = be32(dataLen << 3)\<close>, and its variants.\<close>

definition length_be32 :: "nat \<Rightarrow> byte list" where
  "length_be32 n = bytes_le 4 (be32 (ucast (drop_bit 29 (word_of_nat n :: u64)))) @
     bytes_le 4 (be32 (ucast (push_bit 3 (word_of_nat n :: u64))))"

definition length_le32 :: "nat \<Rightarrow> byte list" where
  "length_le32 n = bytes_le 4 (ucast (push_bit 3 (word_of_nat n :: u64)) :: u32) @
     bytes_le 4 (ucast (drop_bit 29 (word_of_nat n :: u64)) :: u32)"

definition length_be64 :: "nat \<Rightarrow> byte list" where
  "length_be64 n = bytes_le 8 (0 :: u64) @ bytes_le 8 (be64 (word_of_nat n * 8))"

section \<open>SHA-1\<close>

definition sha1_f1 :: "u32 \<Rightarrow> u32 \<Rightarrow> u32 \<Rightarrow> u32" where "sha1_f1 x y z = (x AND y) OR (NOT x AND z)"
definition sha1_f2 :: "u32 \<Rightarrow> u32 \<Rightarrow> u32 \<Rightarrow> u32" where "sha1_f2 x y z = x XOR y XOR z"
definition sha1_f3 :: "u32 \<Rightarrow> u32 \<Rightarrow> u32 \<Rightarrow> u32" where "sha1_f3 x y z = (x AND y) OR (x AND z) OR (y AND z)"

definition sha1_schedule :: "u32 list \<Rightarrow> u32 list" where
  "sha1_schedule x =
     foldl (\<lambda>w i. w @ [rol32 (w ! (i - 3) XOR w ! (i - 8) XOR w ! (i - 14) XOR w ! (i - 16)) 1])
       (map be32 x) [16..<80]"

definition sha1_round :: "u32 list \<Rightarrow> u32 \<times> u32 \<times> u32 \<times> u32 \<times> u32 \<Rightarrow> nat \<Rightarrow>
    u32 \<times> u32 \<times> u32 \<times> u32 \<times> u32" where
  "sha1_round w = (\<lambda>(a, b, c, d, e) i.
     let (f, k) = (if i < 20 then (sha1_f1 b c d, 0x5a827999) else if i < 40 then (sha1_f2 b c d, 0x6ed9eba1)
                   else if i < 60 then (sha1_f3 b c d, 0x8f1bbcdc) else (sha1_f2 b c d, 0xca62c1d6));
         t = rol32 a 5 + f + e + k + w ! i
     in (t, a, rol32 b 30, c, d))"

definition BRSHA1Compress :: "u32 list \<Rightarrow> byte list \<Rightarrow> u32 list" where
  "BRSHA1Compress r block =
     (let w = sha1_schedule (words32 block);
          (a, b, c, d, e) = foldl (sha1_round w) (r ! 0, r ! 1, r ! 2, r ! 3, r ! 4) [0..<80]
      in map2 (+) r [a, b, c, d, e])"

definition sha1_init :: "u32 list" where
  "sha1_init = [0x67452301, 0xefcdab89, 0x98badcfe, 0x10325476, 0xc3d2e1f0]"

definition BRSHA1 :: "byte list \<Rightarrow> byte list" where
  "BRSHA1 data = bytes32 (map be32 (md_hash 64 56 BRSHA1Compress sha1_init length_be32 data))"

section \<open>SHA-256\<close>

definition sha_ch :: "'a::len word \<Rightarrow> 'a word \<Rightarrow> 'a word \<Rightarrow> 'a word" where
  "sha_ch x y z = (x AND y) XOR (NOT x AND z)"
definition sha_maj :: "'a::len word \<Rightarrow> 'a word \<Rightarrow> 'a word \<Rightarrow> 'a word" where
  "sha_maj x y z = (x AND y) XOR (x AND z) XOR (y AND z)"
definition sha256_s0 :: "u32 \<Rightarrow> u32" where "sha256_s0 x = ror32 x 2 XOR ror32 x 13 XOR ror32 x 22"
definition sha256_s1 :: "u32 \<Rightarrow> u32" where "sha256_s1 x = ror32 x 6 XOR ror32 x 11 XOR ror32 x 25"
definition sha256_s2 :: "u32 \<Rightarrow> u32" where "sha256_s2 x = ror32 x 7 XOR ror32 x 18 XOR drop_bit 3 x"
definition sha256_s3 :: "u32 \<Rightarrow> u32" where "sha256_s3 x = ror32 x 17 XOR ror32 x 19 XOR drop_bit 10 x"

text \<open>The table, by the lines of the source.\<close>

definition sha256_k :: "u32 list" where
  "sha256_k =
    concat
      [[0x428a2f98, 0x71374491, 0xb5c0fbcf, 0xe9b5dba5, 0x3956c25b, 0x59f111f1, 0x923f82a4, 0xab1c5ed5],
       [0xd807aa98, 0x12835b01, 0x243185be, 0x550c7dc3, 0x72be5d74, 0x80deb1fe, 0x9bdc06a7, 0xc19bf174],
       [0xe49b69c1, 0xefbe4786, 0x0fc19dc6, 0x240ca1cc, 0x2de92c6f, 0x4a7484aa, 0x5cb0a9dc, 0x76f988da],
       [0x983e5152, 0xa831c66d, 0xb00327c8, 0xbf597fc7, 0xc6e00bf3, 0xd5a79147, 0x06ca6351, 0x14292967],
       [0x27b70a85, 0x2e1b2138, 0x4d2c6dfc, 0x53380d13, 0x650a7354, 0x766a0abb, 0x81c2c92e, 0x92722c85],
       [0xa2bfe8a1, 0xa81a664b, 0xc24b8b70, 0xc76c51a3, 0xd192e819, 0xd6990624, 0xf40e3585, 0x106aa070],
       [0x19a4c116, 0x1e376c08, 0x2748774c, 0x34b0bcb5, 0x391c0cb3, 0x4ed8aa4a, 0x5b9cca4f, 0x682e6ff3],
       [0x748f82ee, 0x78a5636f, 0x84c87814, 0x8cc70208, 0x90befffa, 0xa4506ceb, 0xbef9a3f7, 0xc67178f2]]"

definition sha256_schedule :: "u32 list \<Rightarrow> u32 list" where
  "sha256_schedule x =
     foldl (\<lambda>w i. w @ [sha256_s3 (w ! (i - 2)) + w ! (i - 7) + sha256_s2 (w ! (i - 15)) + w ! (i - 16)])
       (map be32 x) [16..<64]"

definition sha256_round :: "u32 list \<Rightarrow> u32 list \<Rightarrow> nat \<Rightarrow> u32 list" where
  "sha256_round w v i =
     (let a = v ! 0; b = v ! 1; c = v ! 2; d = v ! 3; e = v ! 4; f = v ! 5; g = v ! 6; h = v ! 7;
          t1 = h + sha256_s1 e + sha_ch e f g + sha256_k ! i + w ! i;
          t2 = sha256_s0 a + sha_maj a b c
      in [t1 + t2, a, b, c, d + t1, e, f, g])"

definition BRSHA256Compress :: "u32 list \<Rightarrow> byte list \<Rightarrow> u32 list" where
  "BRSHA256Compress r block =
     (let w = sha256_schedule (words32 block) in map2 (+) r (foldl (sha256_round w) r [0..<64]))"

definition sha224_init :: "u32 list" where
  "sha224_init = [0xc1059ed8, 0x367cd507, 0x3070dd17, 0xf70e5939, 0xffc00b31, 0x68581511,
     0x64f98fa7, 0xbefa4fa4]"

definition BRSHA224 :: "byte list \<Rightarrow> byte list" where
  "BRSHA224 data =
     take 28 (bytes32 (map be32 (md_hash 64 56 BRSHA256Compress sha224_init length_be32 data)))"

definition sha256_init :: "u32 list" where
  "sha256_init = [0x6a09e667, 0xbb67ae85, 0x3c6ef372, 0xa54ff53a, 0x510e527f, 0x9b05688c,
     0x1f83d9ab, 0x5be0cd19]"

definition BRSHA256 :: "byte list \<Rightarrow> byte list" where
  "BRSHA256 data = bytes32 (map be32 (md_hash 64 56 BRSHA256Compress sha256_init length_be32 data))"

definition BRSHA256_2 :: "byte list \<Rightarrow> byte list" where
  "BRSHA256_2 data = BRSHA256 (BRSHA256 data)"

section \<open>SHA-512\<close>

definition sha512_S0 :: "u64 \<Rightarrow> u64" where "sha512_S0 x = ror64 x 28 XOR ror64 x 34 XOR ror64 x 39"
definition sha512_S1 :: "u64 \<Rightarrow> u64" where "sha512_S1 x = ror64 x 14 XOR ror64 x 18 XOR ror64 x 41"
definition sha512_S2 :: "u64 \<Rightarrow> u64" where "sha512_S2 x = ror64 x 1 XOR ror64 x 8 XOR drop_bit 7 x"
definition sha512_S3 :: "u64 \<Rightarrow> u64" where "sha512_S3 x = ror64 x 19 XOR ror64 x 61 XOR drop_bit 6 x"

definition sha512_k :: "u64 list" where
  "sha512_k =
    concat
      [[0x428a2f98d728ae22, 0x7137449123ef65cd, 0xb5c0fbcfec4d3b2f, 0xe9b5dba58189dbbc, 0x3956c25bf348b538],
       [0x59f111f1b605d019, 0x923f82a4af194f9b, 0xab1c5ed5da6d8118, 0xd807aa98a3030242, 0x12835b0145706fbe],
       [0x243185be4ee4b28c, 0x550c7dc3d5ffb4e2, 0x72be5d74f27b896f, 0x80deb1fe3b1696b1, 0x9bdc06a725c71235],
       [0xc19bf174cf692694, 0xe49b69c19ef14ad2, 0xefbe4786384f25e3, 0x0fc19dc68b8cd5b5, 0x240ca1cc77ac9c65],
       [0x2de92c6f592b0275, 0x4a7484aa6ea6e483, 0x5cb0a9dcbd41fbd4, 0x76f988da831153b5, 0x983e5152ee66dfab],
       [0xa831c66d2db43210, 0xb00327c898fb213f, 0xbf597fc7beef0ee4, 0xc6e00bf33da88fc2, 0xd5a79147930aa725],
       [0x06ca6351e003826f, 0x142929670a0e6e70, 0x27b70a8546d22ffc, 0x2e1b21385c26c926, 0x4d2c6dfc5ac42aed],
       [0x53380d139d95b3df, 0x650a73548baf63de, 0x766a0abb3c77b2a8, 0x81c2c92e47edaee6, 0x92722c851482353b],
       [0xa2bfe8a14cf10364, 0xa81a664bbc423001, 0xc24b8b70d0f89791, 0xc76c51a30654be30, 0xd192e819d6ef5218],
       [0xd69906245565a910, 0xf40e35855771202a, 0x106aa07032bbd1b8, 0x19a4c116b8d2d0c8, 0x1e376c085141ab53],
       [0x2748774cdf8eeb99, 0x34b0bcb5e19b48a8, 0x391c0cb3c5c95a63, 0x4ed8aa4ae3418acb, 0x5b9cca4f7763e373],
       [0x682e6ff3d6b2b8a3, 0x748f82ee5defb2fc, 0x78a5636f43172f60, 0x84c87814a1f0ab72, 0x8cc702081a6439ec],
       [0x90befffa23631e28, 0xa4506cebde82bde9, 0xbef9a3f7b2c67915, 0xc67178f2e372532b, 0xca273eceea26619c],
       [0xd186b8c721c0c207, 0xeada7dd6cde0eb1e, 0xf57d4f7fee6ed178, 0x06f067aa72176fba, 0x0a637dc5a2c898a6],
       [0x113f9804bef90dae, 0x1b710b35131c471b, 0x28db77f523047d84, 0x32caab7b40c72493, 0x3c9ebe0a15c9bebc],
       [0x431d67c49c100d4c, 0x4cc5d4becb3e42b6, 0x597f299cfc657e2a, 0x5fcb6fab3ad6faec, 0x6c44198c4a475817]]"

definition sha512_schedule :: "u64 list \<Rightarrow> u64 list" where
  "sha512_schedule x =
     foldl (\<lambda>w i. w @ [sha512_S3 (w ! (i - 2)) + w ! (i - 7) + sha512_S2 (w ! (i - 15)) + w ! (i - 16)])
       (map be64 x) [16..<80]"

definition sha512_round :: "u64 list \<Rightarrow> u64 list \<Rightarrow> nat \<Rightarrow> u64 list" where
  "sha512_round w v i =
     (let a = v ! 0; b = v ! 1; c = v ! 2; d = v ! 3; e = v ! 4; f = v ! 5; g = v ! 6; h = v ! 7;
          t1 = h + sha512_S1 e + sha_ch e f g + sha512_k ! i + w ! i;
          t2 = sha512_S0 a + sha_maj a b c
      in [t1 + t2, a, b, c, d + t1, e, f, g])"

definition BRSHA512Compress :: "u64 list \<Rightarrow> byte list \<Rightarrow> u64 list" where
  "BRSHA512Compress r block =
     (let w = sha512_schedule (words64 block) in map2 (+) r (foldl (sha512_round w) r [0..<80]))"

definition sha384_init :: "u64 list" where
  "sha384_init = [0xcbbb9d5dc1059ed8, 0x629a292a367cd507, 0x9159015a3070dd17, 0x152fecd8f70e5939,
     0x67332667ffc00b31, 0x8eb44a8768581511, 0xdb0c2e0d64f98fa7, 0x47b5481dbefa4fa4]"

definition BRSHA384 :: "byte list \<Rightarrow> byte list" where
  "BRSHA384 data =
     take 48 (bytes64 (map be64 (md_hash 128 112 BRSHA512Compress sha384_init length_be64 data)))"

definition sha512_init :: "u64 list" where
  "sha512_init = [0x6a09e667f3bcc908, 0xbb67ae8584caa73b, 0x3c6ef372fe94f82b, 0xa54ff53a5f1d36f1,
     0x510e527fade682d1, 0x9b05688c2b3e6c1f, 0x1f83d9abfb41bd6b, 0x5be0cd19137e2179]"

definition BRSHA512 :: "byte list \<Rightarrow> byte list" where
  "BRSHA512 data = bytes64 (map be64 (md_hash 128 112 BRSHA512Compress sha512_init length_be64 data))"

section \<open>RIPEMD-160\<close>

text \<open>The five round functions \<open>f\<close>, \<open>g\<close>, \<open>h\<close>, \<open>i\<close>, \<open>j\<close>.\<close>

definition rmd_f :: "u32 \<Rightarrow> u32 \<Rightarrow> u32 \<Rightarrow> u32" where "rmd_f x y z = x XOR y XOR z"
definition rmd_g :: "u32 \<Rightarrow> u32 \<Rightarrow> u32 \<Rightarrow> u32" where "rmd_g x y z = (x AND y) OR (NOT x AND z)"
definition rmd_h :: "u32 \<Rightarrow> u32 \<Rightarrow> u32 \<Rightarrow> u32" where "rmd_h x y z = (x OR NOT y) XOR z"
definition rmd_i :: "u32 \<Rightarrow> u32 \<Rightarrow> u32 \<Rightarrow> u32" where "rmd_i x y z = (x AND z) OR (y AND NOT z)"
definition rmd_j :: "u32 \<Rightarrow> u32 \<Rightarrow> u32 \<Rightarrow> u32" where "rmd_j x y z = x XOR (y OR NOT z)"

definition rmd_rl :: "nat list list" where
  "rmd_rl =
    [[0, 1, 2, 3, 4, 5, 6, 7, 8, 9, 10, 11, 12, 13, 14, 15],
     [7, 4, 13, 1, 10, 6, 15, 3, 12, 0, 9, 5, 2, 14, 11, 8],
     [3, 10, 14, 4, 9, 15, 8, 1, 2, 7, 0, 6, 13, 11, 5, 12],
     [1, 9, 11, 10, 0, 8, 12, 4, 13, 3, 7, 15, 14, 5, 6, 2],
     [4, 0, 5, 9, 7, 12, 2, 10, 14, 1, 3, 8, 11, 6, 15, 13]]"

definition rmd_rr :: "nat list list" where
  "rmd_rr =
    [[5, 14, 7, 0, 9, 2, 11, 4, 13, 6, 15, 8, 1, 10, 3, 12],
     [6, 11, 3, 7, 0, 13, 5, 10, 14, 15, 8, 12, 4, 9, 1, 2],
     [15, 5, 1, 3, 7, 14, 6, 9, 11, 8, 12, 2, 10, 0, 4, 13],
     [8, 6, 4, 1, 3, 11, 15, 0, 5, 12, 2, 13, 9, 7, 10, 14],
     [12, 15, 10, 4, 1, 5, 8, 7, 6, 2, 13, 14, 0, 3, 9, 11]]"

definition rmd_sl :: "nat list list" where
  "rmd_sl =
    [[11, 14, 15, 12, 5, 8, 7, 9, 11, 13, 14, 15, 6, 7, 9, 8],
     [7, 6, 8, 13, 11, 9, 7, 15, 7, 12, 15, 9, 11, 7, 13, 12],
     [11, 13, 6, 7, 14, 9, 13, 15, 14, 8, 13, 6, 5, 12, 7, 5],
     [11, 12, 14, 15, 14, 15, 9, 8, 9, 14, 5, 6, 8, 6, 5, 12],
     [9, 15, 5, 11, 6, 8, 13, 12, 5, 12, 13, 14, 11, 8, 5, 6]]"

definition rmd_sr :: "nat list list" where
  "rmd_sr =
    [[8, 9, 9, 11, 13, 15, 15, 5, 7, 7, 8, 11, 14, 14, 12, 6],
     [9, 13, 15, 7, 12, 8, 9, 11, 7, 7, 12, 7, 6, 15, 13, 11],
     [9, 7, 15, 11, 8, 6, 6, 14, 12, 13, 5, 14, 13, 13, 7, 5],
     [15, 5, 8, 11, 14, 14, 6, 14, 6, 9, 12, 9, 12, 5, 15, 8],
     [8, 5, 12, 9, 12, 5, 14, 6, 8, 13, 6, 5, 15, 13, 11, 11]]"

definition rmd_step :: "(u32 \<Rightarrow> u32 \<Rightarrow> u32 \<Rightarrow> u32) \<Rightarrow> u32 \<Rightarrow> u32 list \<Rightarrow>
    u32 \<times> u32 \<times> u32 \<times> u32 \<times> u32 \<Rightarrow> nat \<times> nat \<Rightarrow> u32 \<times> u32 \<times> u32 \<times> u32 \<times> u32" where
  "rmd_step fn k x = (\<lambda>(a, b, c, d, e) (ri, si).
     let t = rol32 (a + fn b c d + x ! ri + k) si + e in (e, t, b, rol32 c 10, d))"

definition rmd_line :: "((u32 \<Rightarrow> u32 \<Rightarrow> u32 \<Rightarrow> u32) \<times> u32) list \<Rightarrow> nat list list \<Rightarrow> nat list list \<Rightarrow>
    u32 list \<Rightarrow> u32 \<times> u32 \<times> u32 \<times> u32 \<times> u32 \<Rightarrow> u32 \<times> u32 \<times> u32 \<times> u32 \<times> u32" where
  "rmd_line fks rs ss x v =
     foldl (\<lambda>v ((fn, k), ri, si). foldl (rmd_step fn k x) v (zip ri si)) v (zip fks (zip rs ss))"

definition BRRMDCompress :: "u32 list \<Rightarrow> byte list \<Rightarrow> u32 list" where
  "BRRMDCompress r block =
     (let x = words32 block;
          v = (r ! 0, r ! 1, r ! 2, r ! 3, r ! 4);
          (al, bl, cl, dl, el) = rmd_line [(rmd_f, 0x00000000), (rmd_g, 0x5a827999),
             (rmd_h, 0x6ed9eba1), (rmd_i, 0x8f1bbcdc), (rmd_j, 0xa953fd4e)] rmd_rl rmd_sl x v;
          (ar, br, cr, dr, er) = rmd_line [(rmd_j, 0x50a28be6), (rmd_i, 0x5c4dd124),
             (rmd_h, 0x6d703ef3), (rmd_g, 0x7a6d76e9), (rmd_f, 0x00000000)] rmd_rr rmd_sr x v
      in [r ! 1 + cl + dr, r ! 2 + dl + er, r ! 3 + el + ar, r ! 4 + al + br, r ! 0 + bl + cr])"

definition BRRMD160 :: "byte list \<Rightarrow> byte list" where
  "BRRMD160 data = bytes32 (md_hash 64 56 BRRMDCompress sha1_init length_le32 data)"

definition BRHash160 :: "byte list \<Rightarrow> byte list" where
  "BRHash160 data = BRRMD160 (BRSHA256 data)"

section \<open>Keccak\<close>

definition sha3_k :: "u64 list" where
  "sha3_k =
    [0x0000000000000001, 0x0000000000008082, 0x800000000000808a, 0x8000000080008000,
     0x000000000000808b, 0x0000000080000001, 0x8000000080008081, 0x8000000000008009,
     0x000000000000008a, 0x0000000000000088, 0x0000000080008009, 0x000000008000000a,
     0x000000008000808b, 0x800000000000008b, 0x8000000000008089, 0x8000000000008003,
     0x8000000000008002, 0x8000000000000080, 0x000000000000800a, 0x800000008000000a,
     0x8000000080008081, 0x8000000000008080, 0x0000000080000001, 0x8000000080008008]"

definition sha3_theta :: "u64 list \<Rightarrow> u64 list" where
  "sha3_theta r =
     (let a = map (\<lambda>j. r ! j XOR r ! (j + 5) XOR r ! (j + 10) XOR r ! (j + 15) XOR r ! (j + 20)) [0..<5];
          b = [rol64 (a ! 1) 1 XOR a ! 4, rol64 (a ! 2) 1 XOR a ! 0, rol64 (a ! 3) 1 XOR a ! 1,
               rol64 (a ! 4) 1 XOR a ! 2, rol64 (a ! 0) 1 XOR a ! 3]
      in map (\<lambda>j. r ! j XOR b ! (j mod 5)) [0..<25])"

definition sha3_rho :: "u64 list \<Rightarrow> u64 list" where
  "sha3_rho r = hd r # map2 rol64 (tl r)
     [1, 62, 28, 27, 36, 44, 6, 55, 20, 3, 10, 43, 25, 39, 41, 45, 15, 21, 8, 18, 2, 61, 56, 14]"

text \<open>The chain of moves: \<open>r[1] = r[6], r[6] = r[9], ...\<close>; the list gives each word's source.\<close>

definition sha3_pi :: "u64 list \<Rightarrow> u64 list" where
  "sha3_pi r = map ((!) r)
     [0, 6, 12, 18, 24, 3, 9, 10, 16, 22, 1, 7, 13, 19, 20, 4, 5, 11, 17, 23, 2, 8, 14, 15, 21]"

definition sha3_chi :: "u64 list \<Rightarrow> u64 list" where
  "sha3_chi r = concat (map (\<lambda>j.
     [r ! j XOR (NOT (r ! (1 + j)) AND r ! (2 + j)),
      r ! (1 + j) XOR (NOT (r ! (2 + j)) AND r ! (3 + j)),
      r ! (2 + j) XOR (NOT (r ! (3 + j)) AND r ! (4 + j)),
      r ! (3 + j) XOR (NOT (r ! (4 + j)) AND r ! j),
      r ! (4 + j) XOR (NOT (r ! j) AND r ! (1 + j))]) [0, 5, 10, 15, 20])"

definition sha3_round :: "u64 list \<Rightarrow> u64 \<Rightarrow> u64 list" where
  "sha3_round r k = (let s = sha3_chi (sha3_pi (sha3_rho (sha3_theta r))) in (hd s XOR k) # tl s)"

definition BRSHA3Compress :: "u64 list \<Rightarrow> byte list \<Rightarrow> u64 list" where
  "BRSHA3Compress r block =
     (let x = words64 block
      in foldl sha3_round (map2 (XOR) (take (length x) r) x @ drop (length x) r) sha3_k)"

text \<open>The two sponges differ in the first padding byte.\<close>

definition sponge256 :: "byte \<Rightarrow> byte list \<Rightarrow> byte list" where
  "sponge256 padding data =
     (let (r, rest) = block_loop 136 BRSHA3Compress (replicate 25 0) data;
          x = rest @ replicate (136 - length rest) 0;
          x1 = x[length rest := x ! length rest OR padding];
          x2 = x1[135 := x1 ! 135 OR 0x80]
      in bytes64 (take 4 (BRSHA3Compress r x2)))"

definition BRSHA3_256 :: "byte list \<Rightarrow> byte list" where "BRSHA3_256 = sponge256 0x06"
definition BRKeccak256 :: "byte list \<Rightarrow> byte list" where "BRKeccak256 = sponge256 0x01"

section \<open>MD5\<close>

definition md5_F :: "u32 \<Rightarrow> u32 \<Rightarrow> u32 \<Rightarrow> u32" where "md5_F x y z = z XOR (x AND (y XOR z))"
definition md5_G :: "u32 \<Rightarrow> u32 \<Rightarrow> u32 \<Rightarrow> u32" where "md5_G x y z = y XOR (z AND (x XOR y))"
definition md5_H :: "u32 \<Rightarrow> u32 \<Rightarrow> u32 \<Rightarrow> u32" where "md5_H x y z = x XOR y XOR z"
definition md5_I :: "u32 \<Rightarrow> u32 \<Rightarrow> u32 \<Rightarrow> u32" where "md5_I x y z = y XOR (x OR NOT z)"

definition md5_k :: "u32 list" where
  "md5_k =
    [0xd76aa478, 0xe8c7b756, 0x242070db, 0xc1bdceee, 0xf57c0faf, 0x4787c62a, 0xa8304613, 0xfd469501,
     0x698098d8, 0x8b44f7af, 0xffff5bb1, 0x895cd7be, 0x6b901122, 0xfd987193, 0xa679438e, 0x49b40821,
     0xf61e2562, 0xc040b340, 0x265e5a51, 0xe9b6c7aa, 0xd62f105d, 0x02441453, 0xd8a1e681, 0xe7d3fbc8,
     0x21e1cde6, 0xc33707d6, 0xf4d50d87, 0x455a14ed, 0xa9e3e905, 0xfcefa3f8, 0x676f02d9, 0x8d2a4c8a,
     0xfffa3942, 0x8771f681, 0x6d9d6122, 0xfde5380c, 0xa4beea44, 0x4bdecfa9, 0xf6bb4b60, 0xbebfbc70,
     0x289b7ec6, 0xeaa127fa, 0xd4ef3085, 0x04881d05, 0xd9d4d039, 0xe6db99e5, 0x1fa27cf8, 0xc4ac5665,
     0xf4292244, 0x432aff97, 0xab9423a7, 0xfc93a039, 0x655b59c3, 0x8f0ccc92, 0xffeff47d, 0x85845dd1,
     0x6fa87e4f, 0xfe2ce6e0, 0xa3014314, 0x4e0811a1, 0xf7537e82, 0xbd3af235, 0x2ad7d2bb, 0xeb86d391]"

definition md5_s :: "nat list" where
  "md5_s = [7, 12, 17, 22, 5, 9, 14, 20, 4, 11, 16, 23, 6, 10, 15, 21]"

definition md5_step :: "u32 list \<Rightarrow> u32 \<times> u32 \<times> u32 \<times> u32 \<Rightarrow> nat \<Rightarrow> u32 \<times> u32 \<times> u32 \<times> u32" where
  "md5_step x = (\<lambda>(a, b, c, d) i.
     let (fn, xi, si) =
           (if i < 16 then (md5_F, i, i mod 4)
            else if i < 32 then (md5_G, (5 * i + 1) mod 16, 4 + i mod 4)
            else if i < 48 then (md5_H, (3 * i + 5) mod 16, 8 + i mod 4)
            else (md5_I, (7 * i) mod 16, 12 + i mod 4));
         a' = rol32 (a + fn b c d + x ! xi + md5_k ! i) (md5_s ! si) + b
     in (d, a', b, c))"

definition BRMD5Compress :: "u32 list \<Rightarrow> byte list \<Rightarrow> u32 list" where
  "BRMD5Compress r block =
     (let (a, b, c, d) = foldl (md5_step (words32 block)) (r ! 0, r ! 1, r ! 2, r ! 3) [0..<64]
      in map2 (+) r [a, b, c, d])"

definition BRMD5 :: "byte list \<Rightarrow> byte list" where
  "BRMD5 data = bytes32 (md_hash 64 56 BRMD5Compress (take 4 sha1_init) length_le32 data)"

section \<open>Hashes for tables\<close>

definition murmur_C1 :: u32 where "murmur_C1 = 0xcc9e2d51"
definition murmur_C2 :: u32 where "murmur_C2 = 0x1b873593"

definition fmix32 :: "u32 \<Rightarrow> u32" where
  "fmix32 h0 =
     (let h1 = (h0 XOR drop_bit 16 h0) * 0x85ebca6b;
          h2 = (h1 XOR drop_bit 13 h1) * 0xc2b2ae35
      in h2 XOR drop_bit 16 h2)"

fun murmur_loop :: "byte list \<Rightarrow> u32 \<Rightarrow> u32 \<times> byte list" where
  "murmur_loop (d0 # d1 # d2 # d3 # rest) h =
     (let k = (push_bit 24 (ucast d3) OR push_bit 16 (ucast d2) OR push_bit 8 (ucast d1) OR ucast d0) * murmur_C1;
          k' = rol32 k 15 * murmur_C2;
          h' = rol32 (h XOR k') 13 * 5 + 0xe6546b64
      in murmur_loop rest h')"
| "murmur_loop rest h = (h, rest)"

definition BRMurmur3_32 :: "byte list \<Rightarrow> u32 \<Rightarrow> u32" where
  "BRMurmur3_32 data seed =
     (let (h, rest) = murmur_loop data seed;
          k3 = (if length rest \<ge> 3 then push_bit 16 (ucast (rest ! 2)) else 0);
          k2 = (if length rest \<ge> 2 then k3 XOR push_bit 8 (ucast (rest ! 1)) else k3);
          h' = (if length rest \<ge> 1 then h XOR rol32 ((k2 XOR ucast (rest ! 0)) * murmur_C1) 15 * murmur_C2 else h)
      in fmix32 (h' XOR word_of_nat (length data)))"

definition sipround :: "u64 \<times> u64 \<times> u64 \<times> u64 \<Rightarrow> u64 \<times> u64 \<times> u64 \<times> u64" where
  "sipround = (\<lambda>(a, b, c, d).
     let a1 = a + b; b1 = rol64 b 13 XOR a1; a2 = rol64 a1 32; c1 = c + d; d1 = rol64 d 16 XOR c1;
         a3 = a2 + d1; d2 = rol64 d1 21 XOR a3; c2 = c1 + b1; b2 = rol64 b1 17 XOR c2;
         c3 = rol64 c2 32
     in (a3, b2, c3, d2))"

fun sip_loop :: "byte list \<Rightarrow> u64 \<times> u64 \<times> u64 \<times> u64 \<Rightarrow> (u64 \<times> u64 \<times> u64 \<times> u64) \<times> byte list" where
  "sip_loop (x0 # x1 # x2 # x3 # x4 # x5 # x6 # x7 # rest) (a, b, c, d) =
     (let x = word_of_le [x0, x1, x2, x3, x4, x5, x6, x7];
          (a', b', c', d') = sipround (sipround (a, b, c, d XOR x))
      in sip_loop rest (a' XOR x, b', c', d'))"
| "sip_loop rest v = (v, rest)"

definition BRSip64 :: "byte list \<Rightarrow> byte list \<Rightarrow> u64" where
  "BRSip64 key16 data =
     (let x0 = word_of_le (take 8 key16); x1 = word_of_le (take 8 (drop 8 key16));
          ((a, b, c, d), rest) = sip_loop data
            (0x736f6d6570736575 XOR x0, 0x646f72616e646f6d XOR x1,
             0x6c7967656e657261 XOR x0, 0x7465646279746573 XOR x1);
          x = push_bit 56 (word_of_nat (length data)) OR word_of_le rest;
          (a1, b1, c1, d1) = sipround (sipround (a, b, c, d XOR x));
          (a2, b2, c2, d2) = (sipround ^^ 4) (a1 XOR x, b1, c1 XOR 0xff, d1)
      in a2 XOR b2 XOR c2 XOR d2)"

section \<open>HMAC\<close>

definition BRHMAC :: "(byte list \<Rightarrow> byte list) \<Rightarrow> nat \<Rightarrow> byte list \<Rightarrow> byte list \<Rightarrow> byte list" where
  "BRHMAC hash hashLen key data =
     (let blockLen = (if hashLen > 32 then 128 else 64);
          k = (if length key > blockLen then hash key else key);
          padded = k @ replicate (blockLen - length k) 0;
          kipad = map (\<lambda>b. b XOR 0x36) padded;
          kopad = map (\<lambda>b. b XOR 0x5c) padded
      in hash (kopad @ hash (kipad @ data)))"

end
