(* ===== verification/Crypto_Correct.thy ===== *)
theory Crypto_Correct
  imports Crypto
begin

text \<open>
  The block-wise hashes of \<^verbatim>\<open>support/BRCrypto.c\<close> never build the padded message: they
  process full blocks in place and assemble one or two final blocks.  The theorems here
  show that this equals compressing the blocks of the message padded as the standards say,
  and that the digests have their documented lengths.
\<close>

unbundle bit_operations_syntax

section \<open>Blocks\<close>

definition blocks :: "nat \<Rightarrow> 'b list \<Rightarrow> 'b list list" where
  "blocks bs data = map (\<lambda>i. take bs (drop (i * bs) data)) [0..<length data div bs]"

lemma blocks_step:
  assumes "0 < bs" and "bs \<le> length data"
  shows "blocks bs data = take bs data # blocks bs (drop bs data)"
proof -
  have n: "length data div bs = Suc (length (drop bs data) div bs)"
    using assms by (simp add: le_div_geq)
  have "map (\<lambda>i. take bs (drop (i * bs) data)) [0..<Suc (length (drop bs data) div bs)] =
      take bs data # map (\<lambda>i. take bs (drop (Suc i * bs) data)) [0..<length (drop bs data) div bs]"
    by (subst upt_conv_Cons) (simp_all add: map_Suc_upt [symmetric] del: upt_Suc)
  also have "map (\<lambda>i. take bs (drop (Suc i * bs) data)) [0..<length (drop bs data) div bs] =
      blocks bs (drop bs data)"
    by (simp add: blocks_def add.commute)
  finally show ?thesis unfolding blocks_def n .
qed

lemma blocks_short: "length data < bs \<Longrightarrow> blocks bs data = []"
  by (simp add: blocks_def)

lemma block_loop_append:
  assumes "0 < bs"
  shows "\<exists>full. data = full @ snd (block_loop bs f r data) \<and> bs dvd length full \<and>
    length (snd (block_loop bs f r data)) < bs \<and> fst (block_loop bs f r data) = foldl f r (blocks bs full)"
proof (induction "length data" arbitrary: data r rule: less_induct)
  case less
  show ?case
  proof (cases "bs \<le> length data")
    case True
    let ?r = "f r (take bs data)"
    have step: "block_loop bs f r data = block_loop bs f ?r (drop bs data)"
      using True assms by (subst block_loop.simps) simp
    have "length (drop bs data) < length data" using True assms by simp
    from less [OF this, of ?r] obtain full where full:
      "drop bs data = full @ snd (block_loop bs f ?r (drop bs data))" "bs dvd length full"
      "length (snd (block_loop bs f ?r (drop bs data))) < bs"
      "fst (block_loop bs f ?r (drop bs data)) = foldl f ?r (blocks bs full)"
      by blast
    have len: "length (take bs data) = bs" using True by simp
    have "data = (take bs data @ full) @ snd (block_loop bs f ?r (drop bs data))"
      using full(1) by (metis append_assoc append_take_drop_id)
    moreover have "blocks bs (take bs data @ full) = take bs data # blocks bs full"
      using blocks_step [OF assms, of "take bs data @ full"] len by simp
    moreover have "bs dvd length (take bs data @ full)" using full(2) len by simp
    ultimately show ?thesis unfolding step using full(3,4)
      by (intro exI [of _ "take bs data @ full"] conjI) simp_all
  next
    case False
    then have "block_loop bs f r data = (r, data)" by (subst block_loop.simps) simp
    then show ?thesis using False by (intro exI [of _ "[]"]) (simp add: blocks_short)
  qed
qed

lemma blocks_append: "0 < bs \<Longrightarrow> bs dvd length xs \<Longrightarrow> blocks bs (xs @ ys) = blocks bs xs @ blocks bs ys"
proof (induction "length xs" arbitrary: xs rule: less_induct)
  case less
  show ?case
  proof (cases "xs = []")
    case True
    then show ?thesis by (simp add: blocks_short less.prems(1))
  next
    case False
    then have le: "bs \<le> length xs" using less.prems by (simp add: dvd_imp_le)
    have "blocks bs (drop bs xs @ ys) = blocks bs (drop bs xs) @ blocks bs ys"
      using less.prems le by (intro less.hyps) (auto simp: dvd_diff_nat)
    then show ?thesis
      using blocks_step [OF less.prems(1) le] blocks_step [OF less.prems(1), of "xs @ ys"] le by simp
  qed
qed

section \<open>Padding\<close>

definition md_pad :: "nat \<Rightarrow> nat \<Rightarrow> (nat \<Rightarrow> byte list) \<Rightarrow> byte list \<Rightarrow> byte list" where
  "md_pad bs lengthAt lengthBytes data =
     data @ [0x80] @ replicate ((lengthAt + bs - 1 - length data mod bs) mod bs) 0 @
     lengthBytes (length data)"

lemma md_hash_pad:
  assumes len: "\<And>n. length (lengthBytes n) = bs - lengthAt" and at: "0 < lengthAt" "lengthAt < bs"
  shows "md_hash bs lengthAt f init lengthBytes data =
    foldl f init (blocks bs (md_pad bs lengthAt lengthBytes data))"
proof -
  have bs: "0 < bs" using at by simp
  obtain r rest where loop: "block_loop bs f init data = (r, rest)" by fastforce
  obtain full where full: "data = full @ rest" "bs dvd length full" "length rest < bs"
    "r = foldl f init (blocks bs full)"
    using block_loop_append [OF bs, of data f init] loop by auto
  let ?n = "length rest" and ?L = "lengthBytes (length data)"
  have mod: "length data mod bs = ?n" using full(1,2,3) by (simp add: mod_add_eq)
      (metis add.left_neutral dvd_imp_mod_0 mod_add_eq mod_less)
  have one: "blocks bs x = [x]" if "length x = bs" for x :: "byte list"
    using blocks_step [OF bs, of x] that blocks_short [of "drop bs x" bs] bs by simp
  show ?thesis
  proof (cases "?n \<ge> lengthAt")
    case True
    let ?a = "rest @ [0x80] @ replicate (bs - ?n - 1) 0" and ?b = "replicate lengthAt 0 @ ?L"
    have z: "(lengthAt + bs - 1 - ?n) mod bs = lengthAt + (bs - ?n - 1)"
      using True full(3) at by simp
    have ab: "length ?a = bs" "length ?b = bs" using full(3) len at by simp_all
    have "md_pad bs lengthAt lengthBytes data = full @ ?a @ ?b"
      unfolding md_pad_def mod z using full(1) by (simp add: replicate_add [symmetric] add.commute)
    then have "blocks bs (md_pad bs lengthAt lengthBytes data) = blocks bs full @ [?a, ?b]"
      using blocks_append [OF bs full(2)] blocks_append [OF bs, of ?a ?b] one [OF ab(1)] one [OF ab(2)] ab
      by simp
    moreover have "min lengthAt bs = lengthAt" using at by simp
    ultimately show ?thesis using True full(4) by (simp add: md_hash_def loop)
  next
    case False
    let ?a = "rest @ [0x80] @ replicate (lengthAt - 1 - ?n) 0 @ ?L"
    have z: "(lengthAt + bs - 1 - ?n) mod bs = lengthAt - 1 - ?n"
    proof -
      have eq: "lengthAt + bs - 1 - ?n = bs + (lengthAt - 1 - ?n)" using False at by simp
      show ?thesis unfolding eq using at by simp
    qed
    have a: "length ?a = bs" using False len at by simp
    have "md_pad bs lengthAt lengthBytes data = full @ ?a"
      unfolding md_pad_def mod z using full(1) by simp
    then have "blocks bs (md_pad bs lengthAt lengthBytes data) = blocks bs full @ [?a]"
      using blocks_append [OF bs full(2)] one [OF a] by simp
    moreover have "take lengthAt (rest @ [0x80] @ replicate (bs - ?n - 1) 0) =
        rest @ [0x80] @ replicate (lengthAt - 1 - ?n) 0"
      using False at by (simp add: take_Cons' min_def)
    ultimately show ?thesis using False full(4) by (simp add: md_hash_def loop)
  qed
qed

lemma be32_masks:
  "(0xff :: u32) = mask 8" "(0xff00 :: u32) = push_bit 8 (mask 8)"
  "(0xff0000 :: u32) = push_bit 16 (mask 8)" "(0xff000000 :: u32) = push_bit 24 (mask 8)"
  by (simp_all add: mask_eq_exp_minus_1 push_bit_eq_mult)

lemma bit_be32:
  assumes "i < 4" and "k < 8"
  shows "bit (be32 x) (8 * i + k) \<longleftrightarrow> bit x (8 * (3 - i) + k)"
proof -
  have "i = 0 \<or> i = 1 \<or> i = 2 \<or> i = 3" using assms(1) by linarith
  then show ?thesis
    using assms(2) unfolding be32_def be32_masks
    by (elim disjE) (auto simp: bit_or_iff bit_and_iff bit_push_bit_iff bit_drop_bit_eq bit_mask_iff)
qed

lemma be32_bytes: "bytes_le 4 (be32 x) = rev (bytes_le 4 x)"
proof -
  have "byte_at (be32 x) i = byte_at x (3 - i)" if "i < 4" for i
  proof (rule bit_word_eqI)
    fix k assume "k < LENGTH(8)"
    then have "k < 8" by simp
    then show "bit (byte_at (be32 x) i) k = bit (byte_at x (3 - i)) k"
      using that by (auto simp: bit_byte_at bit_be32)
  qed
  from this [of 0] this [of 1] this [of 2] this [of 3] show ?thesis
    by (simp add: bytes_le_def upt_conv_Cons numeral_2_eq_2 numeral_3_eq_3)
qed

text \<open>The bit length of the message as a 64-bit number, in either byte order.\<close>

definition bit_length :: "nat \<Rightarrow> u64" where
  "bit_length n = word_of_nat (8 * n)"

lemma bytes_le_split:
  "bytes_le 8 (x :: u64) = bytes_le 4 (ucast x :: u32) @ bytes_le 4 (ucast (drop_bit 32 x) :: u32)"
proof -
  have lo: "byte_at (ucast x :: u32) i = byte_at x i"
    and hi: "byte_at (ucast (drop_bit 32 x) :: u32) i = byte_at x (4 + i)" if "i < 4" for i
    using that by (auto intro!: bit_word_eqI simp: bit_byte_at bit_ucast_iff bit_drop_bit_eq ac_simps)
  have "[0..<8] = [0..<4] @ map ((+) 4) [0..<4]" by (simp add: upt_conv_Cons)
  then show ?thesis by (auto simp: bytes_le_def lo hi)
qed

lemma bit_length_words:
  "push_bit 3 (word_of_nat n) = bit_length n"
  "(ucast (drop_bit 29 (word_of_nat n :: u64)) :: u32) = ucast (drop_bit 32 (bit_length n))"
proof -
  show 1: "push_bit 3 (word_of_nat n) = bit_length n"
    by (simp add: bit_length_def push_bit_eq_mult)
  show "(ucast (drop_bit 29 (word_of_nat n :: u64)) :: u32) = ucast (drop_bit 32 (bit_length n))"
    unfolding 1 [symmetric]
    by (rule bit_word_eqI) (auto simp: bit_ucast_iff bit_drop_bit_eq bit_push_bit_iff)
qed

lemma length_le32_bits: "length_le32 n = bytes_le 8 (bit_length n)"
  by (simp add: length_le32_def bit_length_words bytes_le_split)

lemma length_be32_bits: "length_be32 n = rev (bytes_le 8 (bit_length n))"
  by (simp add: length_be32_def bit_length_words bytes_le_split be32_bytes)

lemma be64_bytes: "bytes_le 8 (be64 x) = rev (bytes_le 8 x)"
proof -
  have lo: "(ucast (be64 x) :: u32) = be32 (ucast (drop_bit 32 x))"
    by (rule bit_word_eqI) (auto simp: be64_def bit_ucast_iff bit_or_iff bit_push_bit_iff)
  have hi: "(ucast (drop_bit 32 (be64 x)) :: u32) = be32 (ucast x)"
    by (rule bit_word_eqI)
      (auto simp: be64_def bit_ucast_iff bit_or_iff bit_push_bit_iff bit_drop_bit_eq dest: bit_imp_le_length)
  show ?thesis by (simp add: bytes_le_split lo hi be32_bytes)
qed

lemma length_be64_bits: "length_be64 n = replicate 8 0 @ rev (bytes_le 8 (bit_length n))"
  by (simp add: length_be64_def be64_bytes bit_length_def mult.commute)
    (simp add: bytes_le_def byte_at_def upt_conv_Cons numeral_eq_Suc)

lemmas length_bits = length_le32_bits length_be32_bits length_be64_bits

section \<open>Shapes of states\<close>

lemma length_foldl_inv:
  assumes "\<And>r x. length r = n \<Longrightarrow> length (f r x) = n" and "length r = n"
  shows "length (foldl f r xs) = n"
  using assms(2) by (induction xs arbitrary: r) (simp_all add: assms(1))

lemma length_block_loop:
  assumes "\<And>r x. length r = n \<Longrightarrow> length (f r x) = n" and "length r = n" and "0 < bs"
  shows "length (fst (block_loop bs f r data)) = n"
  using block_loop_append [OF assms(3), of data f r] length_foldl_inv [OF assms(1,2)] by auto

lemma length_md_hash:
  assumes "\<And>r x. length r = n \<Longrightarrow> length (f r x) = n" and "length init = n" and "0 < bs"
  shows "length (md_hash bs at f init lb data) = n"
  using length_block_loop [where f = f and data = data, OF assms] assms(1)
  by (auto simp: md_hash_def Let_def split: prod.split)

lemma length_bytes32 [simp]: "length (bytes32 ws) = 4 * length ws"
  by (induction ws) (simp_all add: bytes32_def)

lemma length_bytes64 [simp]: "length (bytes64 ws) = 8 * length ws"
  by (induction ws) (simp_all add: bytes64_def)

lemma length_sha1: "length r = 5 \<Longrightarrow> length (BRSHA1Compress r x) = 5"
  by (simp add: BRSHA1Compress_def Let_def split: prod.split)

lemma length_sha256: "length r = 8 \<Longrightarrow> length (BRSHA256Compress r x) = 8"
  by (simp add: BRSHA256Compress_def length_foldl_inv sha256_round_def Let_def)

lemma length_sha512: "length r = 8 \<Longrightarrow> length (BRSHA512Compress r x) = 8"
  by (simp add: BRSHA512Compress_def length_foldl_inv sha512_round_def Let_def)

lemma length_rmd: "length (BRRMDCompress r x) = 5"
  by (simp add: BRRMDCompress_def Let_def split: prod.split)

lemma length_md5: "length r = 4 \<Longrightarrow> length (BRMD5Compress r x) = 4"
  by (simp add: BRMD5Compress_def Let_def split: prod.split)

lemma length_inits:
  "length sha1_init = 5" "length sha224_init = 8" "length sha256_init = 8"
  "length sha384_init = 8" "length sha512_init = 8"
  by (simp_all add: sha1_init_def sha224_init_def sha256_init_def sha384_init_def sha512_init_def)

lemma length_md_hashes:
  "length (md_hash 64 56 BRSHA1Compress sha1_init lb data) = 5"
  "length (md_hash 64 56 BRSHA256Compress sha224_init lb data) = 8"
  "length (md_hash 64 56 BRSHA256Compress sha256_init lb data) = 8"
  "length (md_hash 128 112 BRSHA512Compress sha384_init lb data) = 8"
  "length (md_hash 128 112 BRSHA512Compress sha512_init lb data) = 8"
  "length (md_hash 64 56 BRRMDCompress sha1_init lb data) = 5"
  "length (md_hash 64 56 BRMD5Compress (take 4 sha1_init) lb data) = 4"
  by (rule length_md_hash; simp add: length_sha1 length_sha256 length_sha512 length_rmd
      length_md5 length_inits)+

section \<open>What the hash functions compute\<close>

text \<open>
  Processing full blocks in place and assembling the last one or two blocks in
  the temporary is the same as compressing, one after the other, the blocks of the message
  padded as the standards prescribe: the byte 0x80, zeros, and the length of the message in
  bits, big-endian for SHA-1 and SHA-2 and little-endian for RIPEMD-160 and MD5.
\<close>

theorem hash_padding:
  "BRSHA1 data = bytes32 (map be32 (foldl BRSHA1Compress sha1_init
     (blocks 64 (md_pad 64 56 (\<lambda>n. rev (bytes_le 8 (bit_length n))) data)))) \<and>
   BRSHA224 data = take 28 (bytes32 (map be32 (foldl BRSHA256Compress sha224_init
     (blocks 64 (md_pad 64 56 (\<lambda>n. rev (bytes_le 8 (bit_length n))) data))))) \<and>
   BRSHA256 data = bytes32 (map be32 (foldl BRSHA256Compress sha256_init
     (blocks 64 (md_pad 64 56 (\<lambda>n. rev (bytes_le 8 (bit_length n))) data)))) \<and>
   BRSHA384 data = take 48 (bytes64 (map be64 (foldl BRSHA512Compress sha384_init
     (blocks 128 (md_pad 128 112 (\<lambda>n. replicate 8 0 @ rev (bytes_le 8 (bit_length n))) data))))) \<and>
   BRSHA512 data = bytes64 (map be64 (foldl BRSHA512Compress sha512_init
     (blocks 128 (md_pad 128 112 (\<lambda>n. replicate 8 0 @ rev (bytes_le 8 (bit_length n))) data)))) \<and>
   BRRMD160 data = bytes32 (foldl BRRMDCompress sha1_init
     (blocks 64 (md_pad 64 56 (\<lambda>n. bytes_le 8 (bit_length n)) data))) \<and>
   BRMD5 data = bytes32 (foldl BRMD5Compress (take 4 sha1_init)
     (blocks 64 (md_pad 64 56 (\<lambda>n. bytes_le 8 (bit_length n)) data)))"
proof -
  have 1: "length_be32 = (\<lambda>n. rev (bytes_le 8 (bit_length n)))"
    "length_le32 = (\<lambda>n. bytes_le 8 (bit_length n))"
    "length_be64 = (\<lambda>n. replicate 8 0 @ rev (bytes_le 8 (bit_length n)))"
    by (rule ext, rule length_bits)+
  show ?thesis
    unfolding BRSHA1_def BRSHA224_def BRSHA256_def BRSHA384_def BRSHA512_def BRRMD160_def BRMD5_def 1
    by (simp add: md_hash_pad)
qed

lemma length_sha3: "length r = 25 \<Longrightarrow> length (BRSHA3Compress r x) = 25"
proof -
  have round: "length (sha3_round r k) = 25" for r k
    by (simp add: sha3_round_def sha3_chi_def Let_def)
  assume "length r = 25"
  then show ?thesis
    unfolding BRSHA3Compress_def Let_def
    by (subst sha3_k_def, simp only: foldl_Cons foldl_Nil round)
qed

lemma length_sponge256: "length (sponge256 p data) = 32"
proof -
  have "length (fst (block_loop 136 BRSHA3Compress (replicate 25 0) data)) = 25"
    by (rule length_block_loop) (simp_all add: length_sha3)
  then show ?thesis
    by (auto simp: sponge256_def Let_def length_sha3 min_def split: prod.split)
qed

text \<open>
  The digests have the documented sizes, whatever the message.
\<close>

lemma digest_lengths:
  "length (BRSHA1 data) = 20 \<and> length (BRSHA224 data) = 28 \<and> length (BRSHA256 data) = 32 \<and>
   length (BRSHA384 data) = 48 \<and> length (BRSHA512 data) = 64 \<and> length (BRRMD160 data) = 20 \<and>
   length (BRHash160 data) = 20 \<and> length (BRMD5 data) = 16 \<and>
   length (BRSHA3_256 data) = 32 \<and> length (BRKeccak256 data) = 32"
  by (simp add: BRSHA1_def BRSHA224_def BRSHA256_def BRSHA384_def BRSHA512_def BRRMD160_def
      BRHash160_def BRMD5_def BRSHA3_256_def BRKeccak256_def length_sponge256 length_md_hashes)

end
