(* ===== verification/Ciphers.thy ===== *)
theory Ciphers
  imports Crypto
begin

text \<open>
  \<^verbatim>\<open>support/BRCrypto.c\<close>, second part: AES (key expansion, the block cipher and its inverse,
  ECB and counter mode), ChaCha20, Poly1305, the authenticated encryption built on them,
  HMAC-DRBG, PBKDF2, Salsa20/8 and scrypt.  A 16-byte block and an expanded key are byte
  lists; a caller's buffer is the list returned.  In scrypt the arrays of \<open>uint64_t\<close> that
  the code also reads as \<open>uint32_t\<close> are lists of 32-bit words.
\<close>

unbundle bit_operations_syntax

section \<open>AES\<close>

definition sbox :: "byte list" where
  "sbox =
    [0x63, 0x7c, 0x77, 0x7b, 0xf2, 0x6b, 0x6f, 0xc5, 0x30, 0x01, 0x67, 0x2b, 0xfe, 0xd7, 0xab, 0x76,
     0xca, 0x82, 0xc9, 0x7d, 0xfa, 0x59, 0x47, 0xf0, 0xad, 0xd4, 0xa2, 0xaf, 0x9c, 0xa4, 0x72, 0xc0,
     0xb7, 0xfd, 0x93, 0x26, 0x36, 0x3f, 0xf7, 0xcc, 0x34, 0xa5, 0xe5, 0xf1, 0x71, 0xd8, 0x31, 0x15,
     0x04, 0xc7, 0x23, 0xc3, 0x18, 0x96, 0x05, 0x9a, 0x07, 0x12, 0x80, 0xe2, 0xeb, 0x27, 0xb2, 0x75,
     0x09, 0x83, 0x2c, 0x1a, 0x1b, 0x6e, 0x5a, 0xa0, 0x52, 0x3b, 0xd6, 0xb3, 0x29, 0xe3, 0x2f, 0x84,
     0x53, 0xd1, 0x00, 0xed, 0x20, 0xfc, 0xb1, 0x5b, 0x6a, 0xcb, 0xbe, 0x39, 0x4a, 0x4c, 0x58, 0xcf,
     0xd0, 0xef, 0xaa, 0xfb, 0x43, 0x4d, 0x33, 0x85, 0x45, 0xf9, 0x02, 0x7f, 0x50, 0x3c, 0x9f, 0xa8,
     0x51, 0xa3, 0x40, 0x8f, 0x92, 0x9d, 0x38, 0xf5, 0xbc, 0xb6, 0xda, 0x21, 0x10, 0xff, 0xf3, 0xd2,
     0xcd, 0x0c, 0x13, 0xec, 0x5f, 0x97, 0x44, 0x17, 0xc4, 0xa7, 0x7e, 0x3d, 0x64, 0x5d, 0x19, 0x73,
     0x60, 0x81, 0x4f, 0xdc, 0x22, 0x2a, 0x90, 0x88, 0x46, 0xee, 0xb8, 0x14, 0xde, 0x5e, 0x0b, 0xdb,
     0xe0, 0x32, 0x3a, 0x0a, 0x49, 0x06, 0x24, 0x5c, 0xc2, 0xd3, 0xac, 0x62, 0x91, 0x95, 0xe4, 0x79,
     0xe7, 0xc8, 0x37, 0x6d, 0x8d, 0xd5, 0x4e, 0xa9, 0x6c, 0x56, 0xf4, 0xea, 0x65, 0x7a, 0xae, 0x08,
     0xba, 0x78, 0x25, 0x2e, 0x1c, 0xa6, 0xb4, 0xc6, 0xe8, 0xdd, 0x74, 0x1f, 0x4b, 0xbd, 0x8b, 0x8a,
     0x70, 0x3e, 0xb5, 0x66, 0x48, 0x03, 0xf6, 0x0e, 0x61, 0x35, 0x57, 0xb9, 0x86, 0xc1, 0x1d, 0x9e,
     0xe1, 0xf8, 0x98, 0x11, 0x69, 0xd9, 0x8e, 0x94, 0x9b, 0x1e, 0x87, 0xe9, 0xce, 0x55, 0x28, 0xdf,
     0x8c, 0xa1, 0x89, 0x0d, 0xbf, 0xe6, 0x42, 0x68, 0x41, 0x99, 0x2d, 0x0f, 0xb0, 0x54, 0xbb, 0x16]"

definition sboxi :: "byte list" where
  "sboxi =
    [0x52, 0x09, 0x6a, 0xd5, 0x30, 0x36, 0xa5, 0x38, 0xbf, 0x40, 0xa3, 0x9e, 0x81, 0xf3, 0xd7, 0xfb,
     0x7c, 0xe3, 0x39, 0x82, 0x9b, 0x2f, 0xff, 0x87, 0x34, 0x8e, 0x43, 0x44, 0xc4, 0xde, 0xe9, 0xcb,
     0x54, 0x7b, 0x94, 0x32, 0xa6, 0xc2, 0x23, 0x3d, 0xee, 0x4c, 0x95, 0x0b, 0x42, 0xfa, 0xc3, 0x4e,
     0x08, 0x2e, 0xa1, 0x66, 0x28, 0xd9, 0x24, 0xb2, 0x76, 0x5b, 0xa2, 0x49, 0x6d, 0x8b, 0xd1, 0x25,
     0x72, 0xf8, 0xf6, 0x64, 0x86, 0x68, 0x98, 0x16, 0xd4, 0xa4, 0x5c, 0xcc, 0x5d, 0x65, 0xb6, 0x92,
     0x6c, 0x70, 0x48, 0x50, 0xfd, 0xed, 0xb9, 0xda, 0x5e, 0x15, 0x46, 0x57, 0xa7, 0x8d, 0x9d, 0x84,
     0x90, 0xd8, 0xab, 0x00, 0x8c, 0xbc, 0xd3, 0x0a, 0xf7, 0xe4, 0x58, 0x05, 0xb8, 0xb3, 0x45, 0x06,
     0xd0, 0x2c, 0x1e, 0x8f, 0xca, 0x3f, 0x0f, 0x02, 0xc1, 0xaf, 0xbd, 0x03, 0x01, 0x13, 0x8a, 0x6b,
     0x3a, 0x91, 0x11, 0x41, 0x4f, 0x67, 0xdc, 0xea, 0x97, 0xf2, 0xcf, 0xce, 0xf0, 0xb4, 0xe6, 0x73,
     0x96, 0xac, 0x74, 0x22, 0xe7, 0xad, 0x35, 0x85, 0xe2, 0xf9, 0x37, 0xe8, 0x1c, 0x75, 0xdf, 0x6e,
     0x47, 0xf1, 0x1a, 0x71, 0x1d, 0x29, 0xc5, 0x89, 0x6f, 0xb7, 0x62, 0x0e, 0xaa, 0x18, 0xbe, 0x1b,
     0xfc, 0x56, 0x3e, 0x4b, 0xc6, 0xd2, 0x79, 0x20, 0x9a, 0xdb, 0xc0, 0xfe, 0x78, 0xcd, 0x5a, 0xf4,
     0x1f, 0xdd, 0xa8, 0x33, 0x88, 0x07, 0xc7, 0x31, 0xb1, 0x12, 0x10, 0x59, 0x27, 0x80, 0xec, 0x5f,
     0x60, 0x51, 0x7f, 0xa9, 0x19, 0xb5, 0x4a, 0x0d, 0x2d, 0xe5, 0x7a, 0x9f, 0x93, 0xc9, 0x9c, 0xef,
     0xa0, 0xe0, 0x3b, 0x4d, 0xae, 0x2a, 0xf5, 0xb0, 0xc8, 0xeb, 0xbb, 0x3c, 0x83, 0x53, 0x99, 0x61,
     0x17, 0x2b, 0x04, 0x7e, 0xba, 0x77, 0xd6, 0x26, 0xe1, 0x69, 0x14, 0x63, 0x55, 0x21, 0x0c, 0x7d]"

definition sub :: "byte \<Rightarrow> byte" where "sub x = sbox ! unat x"
definition subi :: "byte \<Rightarrow> byte" where "subi x = sboxi ! unat x"

definition xt :: "byte \<Rightarrow> byte" where
  "xt x = push_bit 1 x XOR (drop_bit 7 x AND 1) * 0x1b"

definition aes_rounds :: "nat \<Rightarrow> nat" where
  "aes_rounds kl = kl div 4 + 6"

text \<open>
  The expanded key \<open>k\<close> grows by \<open>kl\<close> bytes per iteration; byte \<open>j\<close> is computed from
  earlier ones.  \<open>expand_bytes\<close> is the inner loop over \<open>j\<close>, \<open>expand_loop\<close> the one over
  \<open>i\<close>, with the round constant \<open>r\<close>.
\<close>

definition expand_bytes :: "nat \<Rightarrow> nat \<Rightarrow> byte list \<Rightarrow> byte list" where
  "expand_bytes kl i k =
     foldl (\<lambda>k j. k @ [k ! (j - kl) XOR
         (if kl = 32 \<and> j mod 16 < 4 then sub (k ! (j - 4)) else k ! (j - 4))]) k [i + 4..<i + kl]"

function expand_loop :: "nat \<Rightarrow> nat \<Rightarrow> byte \<Rightarrow> byte list \<Rightarrow> byte list" where
  "expand_loop kl i r k =
     (if 0 < kl \<and> i \<le> 16 * aes_rounds kl
      then expand_loop kl (i + kl) (xt r) (expand_bytes kl i
        (k @ [k ! (i - kl) XOR sub (k ! (i - 3)) XOR r, k ! (i + 1 - kl) XOR sub (k ! (i - 2)),
              k ! (i + 2 - kl) XOR sub (k ! (i - 1)), k ! (i + 3 - kl) XOR sub (k ! (i - 4))]))
      else k)"
  by pat_completeness auto
termination by (relation "measure (\<lambda>(kl, i, r, k). 16 * aes_rounds kl + 1 - i)") auto

declare expand_loop.simps [simp del]

definition BRAESExpandKey :: "byte list \<Rightarrow> byte list" where
  "BRAESExpandKey key = expand_loop (length key) (length key) 1 key"

definition xor_bytes :: "byte list \<Rightarrow> byte list \<Rightarrow> byte list" where
  "xor_bytes xs ys = map2 (XOR) xs ys"

definition round_key :: "byte list \<Rightarrow> nat \<Rightarrow> byte list" where
  "round_key k i = take 16 (drop (i * 16) k)"

text \<open>The moves of the rows: entry \<open>j\<close> is the index whose byte ends up at \<open>j\<close>.\<close>

definition shift_rows :: "byte list \<Rightarrow> byte list" where
  "shift_rows x = map ((!) x) [0, 5, 10, 15, 4, 9, 14, 3, 8, 13, 2, 7, 12, 1, 6, 11]"

definition unshift_rows :: "byte list \<Rightarrow> byte list" where
  "unshift_rows x = map ((!) x) [0, 13, 10, 7, 4, 1, 14, 11, 8, 5, 2, 15, 12, 9, 6, 3]"

fun mix_columns :: "byte list \<Rightarrow> byte list" where
  "mix_columns (a # b # c # d # r) =
     (let e = a XOR b XOR c XOR d
      in (a XOR e XOR xt (a XOR b)) # (b XOR e XOR xt (b XOR c)) #
         (c XOR e XOR xt (c XOR d)) # (d XOR e XOR xt (d XOR a)) # mix_columns r)"
| "mix_columns _ = []"

fun unmix_columns :: "byte list \<Rightarrow> byte list" where
  "unmix_columns (a # b # c # d # r) =
     (let e = a XOR b XOR c XOR d;
          f = e XOR xt (xt (xt e XOR a XOR c));
          g = e XOR xt (xt (xt e XOR b XOR d))
      in (a XOR f XOR xt (a XOR b)) # (b XOR g XOR xt (b XOR c)) #
         (c XOR f XOR xt (c XOR d)) # (d XOR g XOR xt (d XOR a)) # unmix_columns r)"
| "unmix_columns _ = []"

definition aes_round :: "nat \<Rightarrow> byte list \<Rightarrow> byte list \<Rightarrow> nat \<Rightarrow> byte list" where
  "aes_round rounds k x i =
     (let x = shift_rows (map sub x); x = (if i < rounds - 1 then mix_columns x else x)
      in xor_bytes x (round_key k (i + 1)))"

definition BRAESCipher :: "byte list \<Rightarrow> byte list \<Rightarrow> nat \<Rightarrow> byte list" where
  "BRAESCipher x k kl =
     foldl (aes_round (aes_rounds kl) k) (xor_bytes x (round_key k 0)) [0..<aes_rounds kl]"

text \<open>The loop of the inverse runs \<open>i\<close> from \<open>rounds\<close> down to 1.\<close>

definition aes_unround :: "byte list \<Rightarrow> byte list \<Rightarrow> nat \<Rightarrow> byte list" where
  "aes_unround k x i =
     (let x = xor_bytes (map subi (unshift_rows x)) (round_key k (i - 1))
      in if i > 1 then unmix_columns x else x)"

definition BRAESDecipher :: "byte list \<Rightarrow> byte list \<Rightarrow> nat \<Rightarrow> byte list" where
  "BRAESDecipher x k kl =
     foldl (aes_unround k) (xor_bytes x (round_key k (aes_rounds kl))) (rev [1..<aes_rounds kl + 1])"

definition BRAESECBEncrypt :: "byte list \<Rightarrow> byte list \<Rightarrow> byte list option" where
  "BRAESECBEncrypt buf16 key =
     (if length key \<in> {16, 24, 32} then Some (BRAESCipher buf16 (BRAESExpandKey key) (length key)) else None)"

definition BRAESECBDecrypt :: "byte list \<Rightarrow> byte list \<Rightarrow> byte list option" where
  "BRAESECBDecrypt buf16 key =
     (if length key \<in> {16, 24, 32} then Some (BRAESDecipher buf16 (BRAESExpandKey key) (length key)) else None)"

text \<open>\<open>do { iv[--i]++; } while (iv[i] == 0 && i > 0)\<close> from \<open>i = 16\<close>.\<close>

fun inc_from :: "nat \<Rightarrow> byte list \<Rightarrow> byte list" where
  "inc_from (Suc i) iv =
     (let iv' = iv[i := iv ! i + 1] in if iv' ! i = 0 \<and> i > 0 then inc_from i iv' else iv')"
| "inc_from 0 iv = iv"

definition inc_iv :: "byte list \<Rightarrow> byte list" where
  "inc_iv = inc_from 16"

text \<open>
  The loop over the bytes: \<open>x\<close> is the current block of the key stream, \<open>off\<close> the index
  of the next byte.  The result carries the counter block after the loop, which
  \<open>BRAESCTR_OFFSET\<close> stores.
\<close>

fun ctr_loop :: "(byte list \<Rightarrow> byte list) \<Rightarrow> nat \<Rightarrow> nat \<Rightarrow> byte list \<Rightarrow> byte list \<Rightarrow> byte list \<Rightarrow>
    byte list \<times> byte list" where
  "ctr_loop cipher off idx iv x [] = ([], iv)"
| "ctr_loop cipher off idx iv x (d # ds) =
     (let (x, iv) = (if off mod 16 = 0 then (cipher iv, inc_iv iv) else (x, iv));
          (out, iv') = ctr_loop cipher (off + 1) (idx + 1) iv x ds
      in ((d XOR x ! (idx mod 16)) # out, iv'))"

definition BRAESCTR :: "byte list \<Rightarrow> byte list \<Rightarrow> byte list \<Rightarrow> byte list option" where
  "BRAESCTR key iv16 data =
     (if length key \<in> {16, 24, 32}
      then Some (fst (ctr_loop (\<lambda>iv. BRAESCipher iv (BRAESExpandKey key) (length key)) 0 0 iv16 [] data))
      else None)"

text \<open>
  \<open>out\<close> and \<open>data\<close> are the \<open>outLen\<close> bytes of a chunk that ends at \<open>dataLen\<close> of the
  stream; \<open>stack\<close> is what the uninitialised block \<open>x\<close> holds.
\<close>

definition BRAESCTR_OFFSET :: "byte list \<Rightarrow> nat \<Rightarrow> byte list \<Rightarrow> byte list \<Rightarrow> byte list \<Rightarrow> nat \<Rightarrow>
    (byte list \<times> byte list) option" where
  "BRAESCTR_OFFSET stack outLen key iv16 data dataLen =
     (if length key \<in> {16, 24, 32} \<and> outLen \<le> dataLen
      then Some (ctr_loop (\<lambda>iv. BRAESCipher iv (BRAESExpandKey key) (length key)) (dataLen - outLen) 0 iv16 stack
             (take outLen data))
      else None)"

section \<open>ChaCha20\<close>

definition qr :: "nat \<Rightarrow> nat \<Rightarrow> nat \<Rightarrow> nat \<Rightarrow> u32 list \<Rightarrow> u32 list" where
  "qr a b c d x =
     (let xa = x ! a + x ! b; xd = rol32 (x ! d XOR xa) 16; xc = x ! c + xd; xb = rol32 (x ! b XOR xc) 12;
          xa = xa + xb; xd = rol32 (xd XOR xa) 8; xc = xc + xd; xb = rol32 (xb XOR xc) 7
      in x[a := xa, b := xb, c := xc, d := xd])"

definition chacha_double :: "u32 list \<Rightarrow> u32 list" where
  "chacha_double x =
     qr 3 4 9 14 (qr 2 7 8 13 (qr 1 6 11 12 (qr 0 5 10 15
       (qr 3 7 11 15 (qr 2 6 10 14 (qr 1 5 9 13 (qr 0 4 8 12 x)))))))"

definition chacha_block :: "u32 list \<Rightarrow> byte list" where
  "chacha_block s = bytes32 (map2 (+) s ((chacha_double ^^ 10) s))"

definition chacha_next :: "u32 list \<Rightarrow> u32 list" where
  "chacha_next s = (let s = s[12 := s ! 12 + 1] in if s ! 12 = 0 then s[13 := s ! 13 + 1] else s)"

text \<open>\<open>"expand 32-byte k"\<close>\<close>

definition chacha_sigma :: "byte list" where
  "chacha_sigma = [0x65, 0x78, 0x70, 0x61, 0x6e, 0x64, 0x20, 0x33, 0x32, 0x2d, 0x62, 0x79, 0x74, 0x65, 0x20, 0x6b]"

definition chacha_init :: "byte list \<Rightarrow> byte list \<Rightarrow> u64 \<Rightarrow> u32 list" where
  "chacha_init key32 iv8 counter =
     words32 (chacha_sigma @ key32) @ [ucast counter, ucast (drop_bit 32 counter)] @ words32 iv8"

fun chacha_loop :: "nat \<Rightarrow> u32 list \<Rightarrow> byte list \<Rightarrow> byte list \<Rightarrow> byte list" where
  "chacha_loop i s b [] = []"
| "chacha_loop i s b (d # ds) =
     (let (b, s) = (if i mod 64 = 0 then (chacha_block s, chacha_next s) else (b, s))
      in (d XOR b ! (i mod 64)) # chacha_loop (i + 1) s b ds)"

definition BRChacha20 :: "byte list \<Rightarrow> byte list \<Rightarrow> byte list \<Rightarrow> u64 \<Rightarrow> byte list" where
  "BRChacha20 key32 iv8 data counter = chacha_loop 0 (chacha_init key32 iv8 counter) [] data"

section \<open>Poly1305\<close>

text \<open>The five limbs of 26 bits.\<close>

type_synonym limbs = "u32 \<times> u32 \<times> u32 \<times> u32 \<times> u32"

definition limbs_of :: "byte list \<Rightarrow> limbs" where
  "limbs_of x =
     (let t0 = word_of_le (take 4 x); t1 = word_of_le (take 4 (drop 4 x));
          t2 = word_of_le (take 4 (drop 8 x)); t3 = word_of_le (take 4 (drop 12 x))
      in (t0 AND 0x03ffffff, (drop_bit 26 t0 OR push_bit 6 t1) AND 0x03ffffff,
          (drop_bit 20 t1 OR push_bit 12 t2) AND 0x03ffffff, (drop_bit 14 t2 OR push_bit 18 t3) AND 0x03ffffff,
          drop_bit 8 t3))"

text \<open>\<open>r &= 0xffffffc0ffffffc0ffffffc0fffffff\<close>\<close>

definition poly_r :: "byte list \<Rightarrow> limbs" where
  "poly_r key32 =
     (let t0 = word_of_le (take 4 key32); t1 = word_of_le (take 4 (drop 4 key32));
          t2 = word_of_le (take 4 (drop 8 key32)); t3 = word_of_le (take 4 (drop 12 key32))
      in (t0 AND 0x03ffffff, (drop_bit 26 t0 OR push_bit 6 t1) AND 0x03ffff03,
          (drop_bit 20 t1 OR push_bit 12 t2) AND 0x03ffc0ff, (drop_bit 14 t2 OR push_bit 18 t3) AND 0x03f03fff,
          drop_bit 8 t3 AND 0x000fffff))"

text \<open>One block: \<open>h += x\<close>, \<open>h *= r\<close>, \<open>(partial) h %= p\<close>; \<open>hi\<close> is the bit above a full block.\<close>

definition poly_add :: "limbs \<Rightarrow> limbs \<Rightarrow> u32 \<Rightarrow> limbs" where
  "poly_add = (\<lambda>(h0, h1, h2, h3, h4) (x0, x1, x2, x3, x4) hi.
     (h0 + x0, h1 + x1, h2 + x2, h3 + x3, h4 + (x4 OR hi)))"

definition poly_mul :: "limbs \<Rightarrow> limbs \<Rightarrow> u64 \<times> u64 \<times> u64 \<times> u64 \<times> u64" where
  "poly_mul = (\<lambda>(h0, h1, h2, h3, h4) (r0, r1, r2, r3, r4).
     let w = (\<lambda>h r. ucast (h :: u32) * ucast (r :: u32) :: u64)
     in (w h0 r0 + w h1 r4 * 5 + w h2 r3 * 5 + w h3 r2 * 5 + w h4 r1 * 5,
         w h0 r1 + w h1 r0 + w h2 r4 * 5 + w h3 r3 * 5 + w h4 r2 * 5,
         w h0 r2 + w h1 r1 + w h2 r0 + w h3 r4 * 5 + w h4 r3 * 5,
         w h0 r3 + w h1 r2 + w h2 r1 + w h3 r0 + w h4 r4 * 5,
         w h0 r4 + w h1 r3 + w h2 r2 + w h3 r1 + w h4 r0))"

definition poly_carry :: "u64 \<times> u64 \<times> u64 \<times> u64 \<times> u64 \<Rightarrow> limbs" where
  "poly_carry = (\<lambda>(d0, d1, d2, d3, d4).
     let up = (\<lambda>d. ucast (ucast (drop_bit 26 d :: u64) :: u32) :: u64);
         lo = (\<lambda>d. ucast (d AND 0x03ffffff :: u64) :: u32);
         d1 = d1 + up d0; d2 = d2 + up d1; d3 = d3 + up d2; d4 = d4 + up d3;
         h0 = lo d0 + ucast (drop_bit 26 d4) * 5
     in (h0 AND 0x03ffffff, lo d1 + drop_bit 26 h0, lo d2, lo d3, lo d4))"

definition poly_block :: "limbs \<Rightarrow> limbs \<Rightarrow> byte list \<Rightarrow> u32 \<Rightarrow> limbs" where
  "poly_block r h x hi = poly_carry (poly_mul (poly_add h (limbs_of x) hi) r)"

text \<open>The last block, when shorter than 16 bytes, is padded with the byte 1 and zeros.\<close>

function poly_blocks :: "limbs \<Rightarrow> limbs \<Rightarrow> byte list \<Rightarrow> limbs" where
  "poly_blocks r h data =
     (if data = [] then h
      else if length data < 16 then poly_block r h (data @ [1] @ replicate (15 - length data) 0) 0
      else poly_blocks r (poly_block r h (take 16 data) (push_bit 24 1)) (drop 16 data))"
  by pat_completeness auto
termination by (relation "measure (\<lambda>(r, h, d). length d)") auto

declare poly_blocks.simps [simp del]

definition poly_final :: "byte list \<Rightarrow> limbs \<Rightarrow> byte list" where
  "poly_final key32 = (\<lambda>(h0, h1, h2, h3, h4).
     let m = 0x03ffffff;
         h2 = h2 + drop_bit 26 h1; h1 = h1 AND m; h3 = h3 + drop_bit 26 h2; h2 = h2 AND m;
         h4 = h4 + drop_bit 26 h3; h3 = h3 AND m; h0 = h0 + drop_bit 26 h4 * 5; h4 = h4 AND m;
         h1 = h1 + drop_bit 26 h0; h0 = h0 AND m;
         t0 = h0 + 5; t1 = h1 + drop_bit 26 t0; t0 = t0 AND m; t2 = h2 + drop_bit 26 t1; t1 = t1 AND m;
         t3 = h3 + drop_bit 26 t2; t2 = t2 AND m; t4 = h4 + drop_bit 26 t3 - push_bit 26 1; t3 = t3 AND m;
         b = drop_bit 31 t4 - 1;
         sel = (\<lambda>h t. (h AND NOT b) OR (t AND b));
         h0 = sel h0 t0; h1 = sel h1 t1; h2 = sel h2 t2; h3 = sel h3 t3; h4 = sel h4 t4;
         h0 = h0 OR push_bit 26 h1; h1 = drop_bit 6 h1 OR push_bit 20 h2;
         h2 = drop_bit 12 h2 OR push_bit 14 h3; h3 = drop_bit 18 h3 OR push_bit 8 h4;
         x = (\<lambda>i. ucast (word_of_le (take 4 (drop (16 + 4 * i) key32)) :: u32) :: u64);
         d0 = ucast h0 + x 0; d1 = ucast h1 + x 1 + drop_bit 32 d0;
         d2 = ucast h2 + x 2 + drop_bit 32 d1; d3 = ucast h3 + x 3 + drop_bit 32 d2
     in bytes32 [ucast d0, ucast d1, ucast d2, ucast d3])"

text \<open>\<open>_BRPoly1305Compress\<close> is \<open>poly_blocks\<close>, followed by \<open>poly_final\<close> when \<open>final\<close> is set.\<close>

definition BRPoly1305 :: "byte list \<Rightarrow> byte list \<Rightarrow> byte list" where
  "BRPoly1305 key32 data = poly_final key32 (poly_blocks (poly_r key32) (0, 0, 0, 0, 0) data)"

section \<open>ChaCha20-Poly1305\<close>

definition aead_counter :: "byte list \<Rightarrow> u64" where
  "aead_counter nonce12 = push_bit 32 (ucast (word_of_le (take 4 nonce12) :: u32))"

text \<open>The authenticated bytes: whole blocks, then the rest padded with zeros when there is one.\<close>

definition aead_absorb :: "limbs \<Rightarrow> limbs \<Rightarrow> byte list \<Rightarrow> limbs" where
  "aead_absorb r h data =
     (let n = length data; full = n div 16 * 16; h = poly_blocks r h (take full data)
      in if n mod 16 \<noteq> 0 then poly_blocks r h (drop full data @ replicate (16 - n mod 16) 0) else h)"

definition aead_mac :: "byte list \<Rightarrow> byte list \<Rightarrow> byte list \<Rightarrow> byte list \<Rightarrow> byte list" where
  "aead_mac key32 nonce12 ad cipher =
     (let macKey = BRChacha20 key32 (drop 4 nonce12) (replicate 32 0) (aead_counter nonce12);
          r = poly_r macKey;
          h = aead_absorb r (aead_absorb r (0, 0, 0, 0, 0) ad) cipher
      in poly_final macKey (poly_blocks r h
           (bytes_le 8 (word_of_nat (length ad) :: u64) @ bytes_le 8 (word_of_nat (length cipher) :: u64))))"

definition BRChacha20Poly1305AEADEncrypt :: "byte list option \<Rightarrow> byte list \<Rightarrow> byte list \<Rightarrow> byte list \<Rightarrow>
    byte list \<Rightarrow> nat \<times> byte list option" where
  "BRChacha20Poly1305AEADEncrypt out key32 nonce12 data ad =
     (case out of
        None \<Rightarrow> (length data + 16, None)
      | Some buf \<Rightarrow>
         (if length buf < length data + 16 \<or> length data div 64 \<ge> 0xffffffff then (0, Some buf)
          else let c = BRChacha20 key32 (drop 4 nonce12) data (aead_counter nonce12 + 1)
               in (length data + 16, Some (wr (wr buf 0 c) (length data) (aead_mac key32 nonce12 ad c)))))"

text \<open>Without enough room, or when the tag differs, nothing is written and the result is 0.\<close>

definition BRChacha20Poly1305AEADDecrypt :: "byte list option \<Rightarrow> byte list \<Rightarrow> byte list \<Rightarrow> byte list \<Rightarrow>
    byte list \<Rightarrow> nat \<times> byte list option" where
  "BRChacha20Poly1305AEADDecrypt out key32 nonce12 data ad =
     (case out of
        None \<Rightarrow> (if length data < 16 then 0 else length data - 16, None)
      | Some buf \<Rightarrow>
         (if length data < 16 \<or> (length data - 16) div 64 \<ge> 0xffffffff \<or> length buf + 16 < length data
          then (0, Some buf)
          else let c = take (length data - 16) data;
                   outLen = (if drop (length data - 16) data \<noteq> aead_mac key32 nonce12 ad c then 0 else length c)
               in (outLen, Some (wr buf 0
                    (BRChacha20 key32 (drop 4 nonce12) (take outLen c) (aead_counter nonce12 + 1))))))"

section \<open>HMAC-DRBG and PBKDF2\<close>

text \<open>\<open>V = HMAC(K, V)\<close> until \<open>outLen\<close> bytes are there; \<open>n\<close> more of them are wanted.\<close>

function drbg_loop :: "(byte list \<Rightarrow> byte list) \<Rightarrow> nat \<Rightarrow> byte list \<Rightarrow> byte list \<Rightarrow> nat \<Rightarrow>
    byte list \<times> byte list" where
  "drbg_loop hash hashLen K V n =
     (if n = 0 \<or> hashLen = 0 then ([], V)
      else let V = BRHMAC hash hashLen K V; (out, V') = drbg_loop hash hashLen K V (n - hashLen)
           in (take n V @ out, V'))"
  by pat_completeness auto
termination by (relation "measure (\<lambda>(h, l, K, V, n). n)") auto

declare drbg_loop.simps [simp del]

definition bytes_of_ptr :: "byte list option \<Rightarrow> byte list" where
  "bytes_of_ptr p = (case p of None \<Rightarrow> [] | Some d \<Rightarrow> d)"

text \<open>Returns the output and the new \<open>K\<close> and \<open>V\<close>.\<close>

definition BRHMACDRBG :: "nat \<Rightarrow> byte list \<Rightarrow> byte list \<Rightarrow> (byte list \<Rightarrow> byte list) \<Rightarrow> nat \<Rightarrow>
    byte list option \<Rightarrow> byte list option \<Rightarrow> byte list option \<Rightarrow> byte list \<times> byte list \<times> byte list" where
  "BRHMACDRBG outLen K V hash hashLen seed nonce ps =
     (let fresh = (seed \<noteq> None \<or> nonce \<noteq> None \<or> ps \<noteq> None);
          (K, V) = (if fresh then (replicate hashLen 0, replicate hashLen 1) else (K, V));
          entropy = bytes_of_ptr seed @ bytes_of_ptr nonce @ bytes_of_ptr ps;
          K = BRHMAC hash hashLen K (V @ [0] @ entropy);
          V = BRHMAC hash hashLen K V;
          (K, V) = (if fresh
                    then let K = BRHMAC hash hashLen K (V @ [1] @ entropy) in (K, BRHMAC hash hashLen K V)
                    else (K, V));
          (out, V) = drbg_loop hash hashLen K V outLen
      in (out, K, V))"

fun pbkdf2_rounds :: "(byte list \<Rightarrow> byte list) \<Rightarrow> nat \<Rightarrow> byte list \<Rightarrow> nat \<Rightarrow> byte list \<Rightarrow> byte list \<Rightarrow> byte list" where
  "pbkdf2_rounds hash hashLen pw 0 U T = T"
| "pbkdf2_rounds hash hashLen pw (Suc n) U T =
     (let U = BRHMAC hash hashLen pw U in pbkdf2_rounds hash hashLen pw n U (xor_bytes T U))"

definition pbkdf2_block :: "(byte list \<Rightarrow> byte list) \<Rightarrow> nat \<Rightarrow> byte list \<Rightarrow> byte list \<Rightarrow> nat \<Rightarrow> nat \<Rightarrow> byte list" where
  "pbkdf2_block hash hashLen pw salt rounds i =
     (let U = BRHMAC hash hashLen pw (salt @ bytes_le 4 (be32 (word_of_nat (i + 1))))
      in pbkdf2_rounds hash hashLen pw (rounds - 1) U U)"

definition BRPBKDF2 :: "nat \<Rightarrow> (byte list \<Rightarrow> byte list) \<Rightarrow> nat \<Rightarrow> byte list \<Rightarrow> byte list \<Rightarrow> nat \<Rightarrow> byte list option" where
  "BRPBKDF2 dkLen hash hashLen pw salt rounds =
     (if hashLen > 0 \<and> hashLen mod 4 = 0 \<and> rounds > 0
      then Some (concat (map (\<lambda>i. take (if i * hashLen + hashLen \<le> dkLen then hashLen else dkLen mod hashLen)
                   (pbkdf2_block hash hashLen pw salt rounds i)) [0..<(dkLen + hashLen - 1) div hashLen]))
      else None)"

section \<open>scrypt\<close>

definition salsa_op :: "u32 list \<Rightarrow> nat \<times> nat \<times> nat \<times> nat \<Rightarrow> u32 list" where
  "salsa_op x = (\<lambda>(i, a, b, n). x[i := x ! i XOR rol32 (x ! a + x ! b) n])"

definition salsa_ops :: "(nat \<times> nat \<times> nat \<times> nat) list" where
  "salsa_ops =
    [(4, 0, 12, 7), (8, 4, 0, 9), (12, 8, 4, 13), (0, 12, 8, 18),
     (9, 5, 1, 7), (13, 9, 5, 9), (1, 13, 9, 13), (5, 1, 13, 18),
     (14, 10, 6, 7), (2, 14, 10, 9), (6, 2, 14, 13), (10, 6, 2, 18),
     (3, 15, 11, 7), (7, 3, 15, 9), (11, 7, 3, 13), (15, 11, 7, 18),
     (1, 0, 3, 7), (2, 1, 0, 9), (3, 2, 1, 13), (0, 3, 2, 18),
     (6, 5, 4, 7), (7, 6, 5, 9), (4, 7, 6, 13), (5, 4, 7, 18),
     (11, 10, 9, 7), (8, 11, 10, 9), (9, 8, 11, 13), (10, 9, 8, 18),
     (12, 15, 14, 7), (13, 12, 15, 9), (14, 13, 12, 13), (15, 14, 13, 18)]"

definition salsa20_8 :: "u32 list \<Rightarrow> u32 list" where
  "salsa20_8 b = map2 (+) b (((\<lambda>x. foldl salsa_op x salsa_ops) ^^ 4) b)"

definition scrypt_chunk :: "u32 list \<Rightarrow> nat \<Rightarrow> u32 list" where
  "scrypt_chunk src i = take 16 (drop (i * 16) src)"

text \<open>The even blocks go to the first half of \<open>dest\<close>, the odd ones to the second.\<close>

fun blockmix_loop :: "u32 list \<Rightarrow> nat \<Rightarrow> nat \<Rightarrow> u32 list \<Rightarrow> u32 list \<Rightarrow> u32 list \<Rightarrow> u32 list" where
  "blockmix_loop src i 0 b lo hi = lo @ hi"
| "blockmix_loop src i (Suc n) b lo hi =
     (let b0 = salsa20_8 (map2 (XOR) b (scrypt_chunk src i));
          b1 = salsa20_8 (map2 (XOR) b0 (scrypt_chunk src (i + 1)))
      in blockmix_loop src (i + 2) n b1 (lo @ b0) (hi @ b1))"

definition blockmix_salsa8 :: "nat \<Rightarrow> u32 list \<Rightarrow> u32 list" where
  "blockmix_salsa8 r src = blockmix_loop src 0 r (scrypt_chunk src (2 * r - 1)) [] []"

text \<open>The first loop fills \<open>v\<close>, two entries per iteration; the second reads it.\<close>

fun scrypt_fill :: "nat \<Rightarrow> nat \<Rightarrow> u32 list \<Rightarrow> u32 list list \<Rightarrow> u32 list \<times> u32 list list" where
  "scrypt_fill r 0 x v = (x, v)"
| "scrypt_fill r (Suc n) x v =
     (let y = blockmix_salsa8 r x in scrypt_fill r n (blockmix_salsa8 r y) (v @ [x, y]))"

definition scrypt_index :: "nat \<Rightarrow> nat \<Rightarrow> u32 list \<Rightarrow> nat" where
  "scrypt_index r n x =
     unat ((ucast (x ! (16 * (2 * r - 1))) OR push_bit 32 (ucast (x ! (16 * (2 * r - 1) + 1))) :: u64) AND
       ucast (word_of_nat n - 1 :: u32))"

fun scrypt_mix :: "nat \<Rightarrow> nat \<Rightarrow> u32 list list \<Rightarrow> nat \<Rightarrow> u32 list \<Rightarrow> u32 list" where
  "scrypt_mix r n v 0 x = x"
| "scrypt_mix r n v (Suc k) x =
     (let y = blockmix_salsa8 r (map2 (XOR) x (v ! scrypt_index r n x))
      in scrypt_mix r n v k (blockmix_salsa8 r (map2 (XOR) y (v ! scrypt_index r n y))))"

definition scrypt_romix :: "nat \<Rightarrow> nat \<Rightarrow> u32 list \<Rightarrow> u32 list" where
  "scrypt_romix r n x = (let (x', v) = scrypt_fill r (n div 2) x [] in scrypt_mix r n v (n div 2) x')"

text \<open>With an odd \<open>n\<close> the code writes one entry past the end of \<open>v\<close>.\<close>

definition BRScrypt :: "nat \<Rightarrow> byte list \<Rightarrow> byte list \<Rightarrow> nat \<Rightarrow> nat \<Rightarrow> nat \<Rightarrow> byte list option" where
  "BRScrypt dkLen pw salt n r p =
     (if n > 0 \<and> even n \<and> r > 0 \<and> p > 0
      then case BRPBKDF2 (128 * r * p) BRSHA256 32 pw salt 1 of
          None \<Rightarrow> None
        | Some b \<Rightarrow> BRPBKDF2 dkLen BRSHA256 32 pw
            (concat (map (\<lambda>i. bytes32 (scrypt_romix r n (words32 (take (128 * r) (drop (i * (128 * r)) b))))) [0..<p])) 1
      else None)"

end
