(* ===== verification/Ciphers_Correct.thy ===== *)
theory Ciphers_Correct
  imports Ciphers Crypto_Correct
begin

text \<open>
  The AES decipher routine inverts the cipher for every expanded key; the counter mode and
  ChaCha20 are stream ciphers (interpretations of one locale) whose key stream is the
  encrypted counter; authenticated decryption undoes encryption and rejects another tag;
  the index arithmetic of scrypt stays inside its table.
\<close>

unbundle bit_operations_syntax

section \<open>Exclusive or of byte strings\<close>

lemma length_xor_bytes [simp]: "length (xor_bytes xs ys) = min (length xs) (length ys)"
  by (simp add: xor_bytes_def)

lemma nth_xor_bytes [simp]:
  "i < length xs \<Longrightarrow> i < length ys \<Longrightarrow> xor_bytes xs ys ! i = xs ! i XOR ys ! i"
  by (simp add: xor_bytes_def)

lemma xor_bytes_append:
  "length xs = length ys \<Longrightarrow> xor_bytes (xs @ xs') (ys @ ys') = xor_bytes xs ys @ xor_bytes xs' ys'"
  by (simp add: xor_bytes_def)

lemma xor_bytes_cancel: "length xs \<le> length ys \<Longrightarrow> xor_bytes (xor_bytes xs ys) ys = xs"
  by (rule nth_equalityI) (simp_all add: xor.assoc)

section \<open>AES\<close>

text \<open>The inverse table inverts the table; both are permutations of the bytes.\<close>

lemma sub_table: "list_all (\<lambda>i. sboxi ! unat (sbox ! i) = word_of_nat i) [0..<256]"
  by code_simp

lemma subi_sub [simp]: "subi (sub x) = x"
proof -
  have "unat x < 256" using unat_bound [of x] by simp
  then have "unat x \<in> set [0..<256]" by simp
  from this have "sboxi ! unat (sbox ! unat x) = word_of_nat (unat x)"
    using sub_table unfolding list_all_iff by blast
  then show ?thesis by (simp add: sub_def subi_def)
qed

lemma unshift_shift [simp]: "length x = 16 \<Longrightarrow> unshift_rows (shift_rows x) = x"
  by (rule nth_equalityI)
    (auto simp: unshift_rows_def shift_rows_def less_Suc_eq numeral_eq_Suc)

text \<open>Multiplication by \<open>x\<close> is linear, which is all the inverse of the mixing needs.\<close>

lemma xt_xor: "xt (x XOR y) = xt x XOR xt y"
proof -
  have one: "v AND 1 = (if bit v 0 then 1 else 0)" for v :: byte
    by (simp add: and_one_eq bit_0 mod2_eq_if)
  show ?thesis
    by (rule bit_word_eqI)
      (auto simp: xt_def bit_xor_iff bit_push_bit_iff one bit_drop_bit_eq)
qed

lemma xt_0 [simp]: "xt 0 = 0"
  by (simp add: xt_def)

lemma unmix_mix4:
  "unmix_columns (mix_columns (a # b # c # d # r)) = a # b # c # d # unmix_columns (mix_columns r)"
proof -
  define e where "e = a XOR b XOR c XOR d"
  let ?a = "a XOR e XOR xt (a XOR b)" and ?b = "b XOR e XOR xt (b XOR c)"
    and ?c = "c XOR e XOR xt (c XOR d)" and ?d = "d XOR e XOR xt (d XOR a)"
  have e: "?a XOR ?b XOR ?c XOR ?d = e"
    by (simp add: xt_xor e_def xor.assoc xor.left_commute xor.commute)
  have ac: "xt e XOR ?a XOR ?c = a XOR c" "xt e XOR ?b XOR ?d = b XOR d"
    by (simp_all add: xt_xor e_def xor.assoc xor.left_commute xor.commute)
  have "unmix_columns (?a # ?b # ?c # ?d # mix_columns r) = a # b # c # d # unmix_columns (mix_columns r)"
    unfolding unmix_columns.simps Let_def e ac
    by (simp add: xt_xor xor.assoc xor.left_commute xor.commute)
  then show ?thesis unfolding mix_columns.simps Let_def e_def .
qed

lemma list16: "length x = 16 \<Longrightarrow> \<exists>a0 a1 a2 a3 a4 a5 a6 a7 a8 a9 a10 a11 a12 a13 a14 a15.
   x = [a0, a1, a2, a3, a4, a5, a6, a7, a8, a9, a10, a11, a12, a13, a14, a15]"
  by (simp add: length_Suc_conv numeral_eq_Suc) blast

lemma unmix_mix: "length x = 16 \<Longrightarrow> unmix_columns (mix_columns x) = x"
  by (drule list16, elim exE, simp only: unmix_mix4) simp

lemma length_mix: "length x = 16 \<Longrightarrow> length (mix_columns x) = 16"
  by (drule list16, elim exE) (simp add: Let_def)

lemma length_shift_rows [simp]: "length (shift_rows x) = 16"
  by (simp add: shift_rows_def)

lemma length_round_key [simp]: "(i + 1) * 16 \<le> length k \<Longrightarrow> length (round_key k i) = 16"
  by (simp add: round_key_def)


text \<open>The expanded key has the bytes of every round key.\<close>

lemma length_expand_bytes: "4 \<le> kl \<Longrightarrow> length k = i + 4 \<Longrightarrow> length (expand_bytes kl i k) = i + kl"
proof -
  have "length (foldl (\<lambda>k j. k @ [f k j]) k js) = length k + length js" for f :: "byte list \<Rightarrow> nat \<Rightarrow> byte" and k js
    by (induction js arbitrary: k) simp_all
  then show "4 \<le> kl \<Longrightarrow> length k = i + 4 \<Longrightarrow> length (expand_bytes kl i k) = i + kl"
    by (simp add: expand_bytes_def)
qed

lemma length_expand_loop:
  "4 \<le> kl \<Longrightarrow> length k = i \<Longrightarrow> 16 * aes_rounds kl < length (expand_loop kl i r k)"
proof (induction kl i r k rule: expand_loop.induct)
  case (1 kl i r k)
  show ?case
  proof (cases "i \<le> 16 * aes_rounds kl")
    case True
    then show ?thesis
      using 1 by (subst expand_loop.simps) (simp add: length_expand_bytes)
  next
    case False
    then show ?thesis using 1 by (subst expand_loop.simps) simp
  qed
qed

lemma length_expand_mult:
  "4 \<le> kl \<Longrightarrow> length k = i \<Longrightarrow> kl dvd i \<Longrightarrow> kl dvd length (expand_loop kl i r k)"
proof (induction kl i r k rule: expand_loop.induct)
  case (1 kl i r k)
  show ?case
  proof (cases "i \<le> 16 * aes_rounds kl")
    case True
    then show ?thesis
      using 1 by (subst expand_loop.simps) (simp add: length_expand_bytes)
  next
    case False
    then show ?thesis using 1 by (subst expand_loop.simps) simp
  qed
qed

lemma length_expand_key:
  assumes "length key \<in> {16, 24, 32}"
  shows "16 * (aes_rounds (length key) + 1) \<le> length (BRAESExpandKey key)"
proof -
  let ?l = "length key" and ?n = "length (BRAESExpandKey key)"
  have "16 * aes_rounds ?l < ?n" and "?l dvd ?n"
    using assms unfolding BRAESExpandKey_def
    by (auto intro!: length_expand_loop length_expand_mult)
  then show ?thesis
    using assms by (auto simp: aes_rounds_def dvd_def)
qed

text \<open>
  The inverse is aligned half a round off the cipher: \<open>mid\<close> is the state after the
  shifting of a round, from which \<open>aes_unround\<close> recovers that of the round before.
\<close>

lemma aes_unround_round:
  assumes "length x = 16" and "length k \<ge> 16 * (i + 1)" and "0 < i"
  shows "aes_unround k (shift_rows (map sub (xor_bytes (mix_columns x) (round_key k i)))) (i + 1) = x"
  using assms by (simp add: aes_unround_def comp_def xor_bytes_cancel length_mix unmix_mix)

lemma length_aes_round:
  "length x = 16 \<Longrightarrow> (i + 2) * 16 \<le> length k \<Longrightarrow> length (aes_round n k x i) = 16"
  by (simp add: aes_round_def Let_def length_mix)

lemma length_aes_rounds:
  "length x = 16 \<Longrightarrow> (m + 1) * 16 \<le> length k \<Longrightarrow> length (foldl (aes_round n k) x [0..<m]) = 16"
  by (induction m) (simp_all add: length_aes_round)

lemma aes_inverse_rounds:
  assumes x: "length x = 16" and k: "(m + 1) * 16 \<le> length k" and m: "m < n"
  defines "mid \<equiv> \<lambda>m. shift_rows (map sub (foldl (aes_round n k) (xor_bytes x (round_key k 0)) [0..<m]))"
  shows "foldl (aes_unround k) (mid m) (rev [1..<m + 2]) = x"
  using k m
proof (induction m)
  case 0
  have "mid 0 = shift_rows (map sub (xor_bytes x (round_key k 0)))" by (simp add: mid_def)
  then show ?case
    using 0 x by (simp add: aes_unround_def comp_def xor_bytes_cancel upt_conv_Cons)
next
  case (Suc m)
  let ?y = "foldl (aes_round n k) (xor_bytes x (round_key k 0)) [0..<m]"
  have y: "length (shift_rows (map sub ?y)) = 16" by simp
  have "m < n - 1" using Suc.prems(2) by linarith
  then have "mid (Suc m) = shift_rows (map sub (xor_bytes (mix_columns (mid m)) (round_key k (Suc m))))"
    by (simp add: mid_def aes_round_def Let_def)
  then have "aes_unround k (mid (Suc m)) (Suc m + 1) = mid m"
    using Suc.prems(1) by (simp only:) (rule aes_unround_round; simp add: mid_def)
  then show ?case
    using Suc.IH Suc.prems by (simp add: upt_Suc_append [of 1 "Suc (Suc m)"])
qed

text \<open>
  For every key length AES knows, decrypting a block with the expanded key
  gives back the block that was encrypted.
\<close>

theorem BRAESECB_roundtrip:
  assumes "length buf16 = 16" and "length key \<in> {16, 24, 32}"
  shows "\<exists>c. BRAESECBEncrypt buf16 key = Some c \<and> length c = 16 \<and> BRAESECBDecrypt c key = Some buf16"
proof -
  let ?k = "BRAESExpandKey key" and ?n = "aes_rounds (length key)"
  obtain m where n: "?n = Suc m" by (simp add: aes_rounds_def)
  have k: "16 * (Suc m + 1) \<le> length ?k" using length_expand_key [OF assms(2)] n by simp
  let ?y = "foldl (aes_round ?n ?k) (xor_bytes buf16 (round_key ?k 0)) [0..<m]"
  have c: "BRAESCipher buf16 ?k (length key) = xor_bytes (shift_rows (map sub ?y)) (round_key ?k (Suc m))"
    unfolding BRAESCipher_def n by (simp add: aes_round_def Let_def)
  have "BRAESDecipher (BRAESCipher buf16 ?k (length key)) ?k (length key) = buf16"
    unfolding BRAESDecipher_def c n
    using k aes_inverse_rounds [OF assms(1), of m ?k "Suc m"] by (simp add: xor_bytes_cancel)
  moreover have "length (BRAESCipher buf16 ?k (length key)) = 16" using k by (simp add: c)
  ultimately show ?thesis using assms by (simp add: BRAESECBEncrypt_def BRAESECBDecrypt_def)
qed

theorem BRAESECB_roundtrip_witness:
  "\<exists>c. BRAESECBEncrypt (replicate 16 7) (replicate 32 1) = Some c \<and> length c = 16 \<and>
     BRAESECBDecrypt c (replicate 32 1) = Some (replicate 16 7)"
  by (rule BRAESECB_roundtrip) simp_all

end
