(* ===== verification/Streams_Correct.thy ===== *)
theory Streams_Correct
  imports Ciphers_Correct
begin

text \<open>
  Counter mode and ChaCha20 are stream ciphers: both interpret the locale
  \<open>stream_cipher\<close>, whose key stream is here written out as the encrypted counter.  Then
  the chunked counter mode, authenticated encryption, PBKDF2 and scrypt.
\<close>

unbundle bit_operations_syntax

section \<open>The contract of a stream cipher\<close>

locale stream_cipher =
  fixes wf :: "'k \<Rightarrow> bool"
    and crypt :: "'k \<Rightarrow> byte list \<Rightarrow> byte list"
    and pad :: "'k \<Rightarrow> nat \<Rightarrow> byte"
  assumes crypt_pad: "wf k \<Longrightarrow> crypt k data = xor_bytes data (map (pad k) [0..<length data])"
begin

lemma length_crypt: "wf k \<Longrightarrow> length (crypt k data) = length data"
  by (simp add: crypt_pad)

lemma involution: "wf k \<Longrightarrow> crypt k (crypt k data) = data"
  by (simp add: crypt_pad xor_bytes_cancel)

lemma crypt_nth: "wf k \<Longrightarrow> i < length data \<Longrightarrow> crypt k data ! i = data ! i XOR pad k i"
  by (simp add: crypt_pad)

lemma crypt_inject: "wf k \<Longrightarrow> crypt k xs = crypt k ys \<longleftrightarrow> xs = ys"
  using involution by metis

lemma crypt_take: "wf k \<Longrightarrow> crypt k (take n data) = take n (crypt k data)"
  by (rule nth_equalityI) (simp_all add: crypt_pad)

end

section \<open>Counter mode\<close>

text \<open>
  After \<open>off\<close> bytes, \<open>(off + 15) div 16\<close> counter blocks have been consumed, and the block
  \<open>x\<close> is the last of them.
\<close>

lemma ctr_loop_spec:
  assumes "off mod 16 \<noteq> 0 \<Longrightarrow> x = cipher ((inc_iv ^^ (off div 16)) iv0)" and "idx mod 16 = off mod 16"
  shows "ctr_loop cipher off idx ((inc_iv ^^ ((off + 15) div 16)) iv0) x data =
    (xor_bytes data (map (\<lambda>i. cipher ((inc_iv ^^ (i div 16)) iv0) ! (i mod 16)) [off..<off + length data]),
     (inc_iv ^^ ((off + length data + 15) div 16)) iv0)"
  using assms
proof (induction data arbitrary: off idx x)
  case Nil
  then show ?case by (simp add: xor_bytes_def)
next
  case (Cons d ds)
  let ?it = "\<lambda>m. (inc_iv ^^ m) iv0"
  have idx: "(idx + 1) mod 16 = (off + 1) mod 16" using Cons.prems(2) by (metis mod_add_left_eq)
  have up: "[off..<off + length (d # ds)] = off # [off + 1..<off + 1 + length ds]"
    by (subst upt_conv_Cons) simp_all
  show ?case
  proof (cases "off mod 16 = 0")
    case True
    then obtain q where q: "off = 16 * q" by fastforce
    then have n: "(off + 15) div 16 = off div 16" "(off + 1 + 15) div 16 = Suc (off div 16)"
      "(off + 1) div 16 = off div 16" by simp_all
    have "ctr_loop cipher (off + 1) (idx + 1) (?it ((off + 1 + 15) div 16)) (cipher (?it (off div 16))) ds =
      (xor_bytes ds (map (\<lambda>i. cipher (?it (i div 16)) ! (i mod 16)) [off + 1..<off + 1 + length ds]),
       ?it ((off + 1 + length ds + 15) div 16))"
      using idx n(3) by (intro Cons.IH) simp_all
    then show ?thesis
      using True n(2) Cons.prems(2) unfolding up n(1) by (simp add: xor_bytes_def)
  next
    case False
    define q r where "q = off div 16" and "r = off mod 16"
    then have off: "off = 16 * q + r" "r < 16" "r \<noteq> 0" using False by simp_all
    then obtain r' where r': "r = Suc r'" "r' < 15" by (cases r) simp_all
    have eq: "off + 15 = r' + 16 * Suc q" "off + 1 + 15 = (r' + 1) + 16 * Suc q" "off + 1 = (r' + 2) + 16 * q"
      using off(1) r'(1) by simp_all
    have n: "(off + 15) div 16 = Suc (off div 16)" and m2: "(off + 1 + 15) div 16 = Suc (off div 16)"
      unfolding eq using r'(2) by (simp_all add: q_def)
    have m1: "(off + 1) mod 16 \<noteq> 0 \<Longrightarrow> (off + 1) div 16 = off div 16"
      unfolding eq using r'(2) by (cases "r' = 14") (simp_all add: q_def)
    note m = m1 m2
    have "ctr_loop cipher (off + 1) (idx + 1) (?it ((off + 1 + 15) div 16)) x ds =
      (xor_bytes ds (map (\<lambda>i. cipher (?it (i div 16)) ! (i mod 16)) [off + 1..<off + 1 + length ds]),
       ?it ((off + 1 + length ds + 15) div 16))"
      using idx m(1) Cons.prems(1) False by (intro Cons.IH) simp_all
    then show ?thesis
      using False m(2) Cons.prems unfolding up n by (simp add: xor_bytes_def)
  qed
qed

type_synonym ctr_key = "(byte list \<Rightarrow> byte list) \<times> byte list"

definition ctr_crypt :: "ctr_key \<Rightarrow> byte list \<Rightarrow> byte list" where
  "ctr_crypt = (\<lambda>(cipher, iv) data. fst (ctr_loop cipher 0 0 iv [] data))"

definition ctr_pad :: "ctr_key \<Rightarrow> nat \<Rightarrow> byte" where
  "ctr_pad = (\<lambda>(cipher, iv) i. cipher ((inc_iv ^^ (i div 16)) iv) ! (i mod 16))"

interpretation ctr: stream_cipher "\<lambda>_. True" ctr_crypt ctr_pad
proof
  fix k :: ctr_key and data :: "byte list"
  obtain cipher iv where k: "k = (cipher, iv)" by fastforce
  show "ctr_crypt k data = xor_bytes data (map (ctr_pad k) [0..<length data])"
    using ctr_loop_spec [of 0 "[]" cipher iv 0 data] by (simp add: k ctr_crypt_def ctr_pad_def)
qed

text \<open>The counter block is a big-endian number, incremented modulo \<open>2 ^ 128\<close>.\<close>

lemma inc_from_value:
  assumes "length xs = n" and "0 < n"
  shows "\<exists>zs. inc_from n (xs @ ys) = zs @ ys \<and> length zs = n \<and>
    le_val (rev zs) = (le_val (rev xs) + 1) mod 256 ^ n"
  using assms
proof (induction n arbitrary: xs ys)
  case (Suc n)
  then obtain ws b where xs: "xs = ws @ [b]" and ws: "length ws = n" by (cases xs rule: rev_cases) auto
  have b: "unat b < 256" using unat_bound [of b] by simp
  have val: "le_val (rev xs) = unat b + 256 * le_val (rev ws)" by (simp add: xs)
  have wsb: "le_val (rev ws) < 256 ^ n" using le_val_bound [of "rev ws"] ws by simp
  have upd: "(xs @ ys)[n := (xs @ ys) ! n + 1] = ws @ (b + 1) # ys"
    using ws by (simp add: xs nth_append list_update_append)
  show ?case
  proof (cases "b + 1 = 0")
    case True
    have "(unat b + 1) mod 256 = 0" using arg_cong [OF True, of unat] by (simp add: unat_add_mod)
    then have b255: "unat b = 255" using b by presburger
    show ?thesis
    proof (cases "n = 0")
      case True
      then show ?thesis using \<open>b + 1 = 0\<close> b255 ws upd by (auto simp: val Let_def)
    next
      case False
      have "inc_from (Suc n) (xs @ ys) = inc_from n (ws @ (b + 1) # ys)"
        using True False upd ws by (simp add: Let_def nth_append)
      moreover obtain zs where "inc_from n (ws @ (b + 1) # ys) = zs @ (b + 1) # ys" "length zs = n"
        "le_val (rev zs) = (le_val (rev ws) + 1) mod 256 ^ n"
        using Suc.IH [OF ws, of "(b + 1) # ys"] False by auto
      ultimately show ?thesis
        using True by (intro exI [of _ "zs @ [b + 1]"]) (simp add: val b255 mult_mod_right)
    qed
  next
    case False
    have u0: "unat (b + 1) = (unat b + 1) mod 256" by (simp add: unat_add_mod)
    have "unat b \<noteq> 255"
    proof
      assume "unat b = 255"
      then have "b = word_of_nat 255" by (simp add: word_unat_eq_iff)
      then show False using False by simp
    qed
    then have u: "unat (b + 1) = unat b + 1" using b u0 by simp
    have "unat b + 1 < 256" using u unat_bound [of "b + 1"] by simp
    moreover have "256 * (le_val (rev ws) + 1) \<le> 256 * 256 ^ n" using wsb by simp
    ultimately have "le_val (rev xs) + 1 < 256 ^ Suc n" unfolding val by simp
    then show ?thesis
      using False upd ws u by (intro exI [of _ "ws @ [b + 1]"]) (simp add: val Let_def nth_append)
  qed
qed simp

lemma inc_iv_value:
  assumes "length iv = 16"
  shows "length ((inc_iv ^^ j) iv) = 16 \<and> le_val (rev ((inc_iv ^^ j) iv)) = (le_val (rev iv) + j) mod 2 ^ 128"
proof -
  define M :: nat where "M = 256 ^ 16"
  have step: "length (inc_iv c) = 16 \<and> le_val (rev (inc_iv c)) = (le_val (rev c) + 1) mod M"
    if "length c = 16" for c
    using inc_from_value [of c 16 "[]"] that unfolding inc_iv_def M_def by auto
  have "length ((inc_iv ^^ j) iv) = 16 \<and> le_val (rev ((inc_iv ^^ j) iv)) = (le_val (rev iv) + j) mod M"
  proof (induction j)
    case 0
    then show ?case using assms le_val_bound [of "rev iv"] by (simp add: M_def)
  next
    case (Suc j)
    then show ?case using step [of "(inc_iv ^^ j) iv"] by (simp add: mod_Suc_eq)
  qed
  moreover have "M = 2 ^ 128" by (simp add: M_def)
  ultimately show ?thesis by metis
qed

abbreviation aes_of :: "byte list \<Rightarrow> byte list \<Rightarrow> byte list" where
  "aes_of key \<equiv> (\<lambda>iv. BRAESCipher iv (BRAESExpandKey key) (length key))"

lemma BRAESCTR_crypt:
  "length key \<in> {16, 24, 32} \<Longrightarrow> BRAESCTR key iv data = Some (ctr_crypt (aes_of key, iv) data)"
  by (simp add: BRAESCTR_def ctr_crypt_def)

text \<open>
  Counter mode adds to byte \<open>i\<close> of the data byte \<open>i mod 16\<close> of the encryption
  of the counter block \<open>iv + i div 16\<close> (as a 128-bit big-endian number), and applying it
  twice gives the data back.
\<close>

theorem BRAESCTR_correct:
  assumes "length key \<in> {16, 24, 32}" and "length iv = 16"
  shows "\<exists>out. BRAESCTR key iv data = Some out \<and> length out = length data \<and>
    BRAESCTR key iv out = Some data \<and>
    (\<forall>i < length data. \<exists>c. length c = 16 \<and> le_val (rev c) = (le_val (rev iv) + i div 16) mod 2 ^ 128 \<and>
       out ! i = data ! i XOR BRAESCipher c (BRAESExpandKey key) (length key) ! (i mod 16))"
proof -
  let ?out = "ctr_crypt (aes_of key, iv) data"
  have "\<exists>c. length c = 16 \<and> le_val (rev c) = (le_val (rev iv) + i div 16) mod 2 ^ 128 \<and>
       ?out ! i = data ! i XOR aes_of key c ! (i mod 16)" if "i < length data" for i
    using ctr.crypt_nth [of i data "(aes_of key, iv)"] that inc_iv_value [OF assms(2), of "i div 16"]
    by (intro exI [of _ "(inc_iv ^^ (i div 16)) iv"]) (simp add: ctr_pad_def)
  then show ?thesis
    using assms(1) by (simp add: BRAESCTR_crypt ctr.length_crypt ctr.involution)
qed

theorem BRAESCTR_correct_witness:
  "\<exists>out c. BRAESCTR (replicate 32 1) (replicate 16 255) [5, 6, 7] = Some out \<and> length out = 3 \<and>
    BRAESCTR (replicate 32 1) (replicate 16 255) out = Some [5, 6, 7] \<and> length c = 16 \<and>
    out ! 2 = 7 XOR BRAESCipher c (BRAESExpandKey (replicate 32 1)) 32 ! 2"
proof -
  have "length (replicate 32 (1 :: byte)) \<in> {16, 24, 32}" "length (replicate 16 (255 :: byte)) = 16" by simp_all
  from BRAESCTR_correct [OF this, of "[5, 6, 7]"] show ?thesis by (auto dest!: spec [of _ 2])
qed

text \<open>Encrypting a stream chunk by chunk, with the counter block the previous call left.\<close>

fun offset_calls :: "(nat \<Rightarrow> byte list) \<Rightarrow> byte list \<Rightarrow> byte list \<Rightarrow> nat \<Rightarrow> byte list list \<Rightarrow> byte list option" where
  "offset_calls stack key iv off [] = Some []"
| "offset_calls stack key iv off (d # ds) =
     (case BRAESCTR_OFFSET (stack off) (length d) key iv d (off + length d) of
        None \<Rightarrow> None
      | Some (out, iv') \<Rightarrow> map_option ((@) out) (offset_calls stack key iv' (off + length d) ds))"

lemma offset_calls_spec:
  assumes "length key \<in> {16, 24, 32}" and "16 dvd off" and "\<forall>c \<in> set (butlast ds). 16 dvd length c"
  shows "offset_calls stack key ((inc_iv ^^ (off div 16)) iv) off ds =
    Some (xor_bytes (concat ds) (map (ctr_pad (aes_of key, iv)) [off..<off + length (concat ds)]))"
  using assms(2,3)
proof (induction ds arbitrary: off)
  case Nil
  then show ?case by (simp add: xor_bytes_def)
next
  case (Cons d ds)
  let ?p = "ctr_pad (aes_of key, iv)"
  obtain q where q: "off = 16 * q" using Cons.prems(1) by blast
  have "(off + 15) div 16 = off div 16" by (simp add: q)
  then have call: "BRAESCTR_OFFSET (stack off) (length d) key ((inc_iv ^^ (off div 16)) iv) d (off + length d) =
    Some (xor_bytes d (map ?p [off..<off + length d]), (inc_iv ^^ ((off + length d + 15) div 16)) iv)"
    using ctr_loop_spec [of off "stack off" "aes_of key" iv 0 d] assms(1) Cons.prems(1)
    by (simp add: BRAESCTR_OFFSET_def ctr_pad_def)
  show ?case
  proof (cases "ds = []")
    case True
    then show ?thesis by (simp add: call)
  next
    case False
    then have d: "16 dvd length d" and ds: "\<forall>c \<in> set (butlast ds). 16 dvd length c"
      using Cons.prems(2) by simp_all
    then obtain q' where q': "length d = 16 * q'" by blast
    have "(off + length d + 15) div 16 = (off + length d) div 16" by (simp add: q q')
    moreover have "offset_calls stack key ((inc_iv ^^ ((off + length d) div 16)) iv) (off + length d) ds =
      Some (xor_bytes (concat ds) (map ?p [off + length d..<off + length d + length (concat ds)]))"
      using d ds Cons.prems(1) by (intro Cons.IH) simp_all
    moreover have "[off..<off + length (concat (d # ds))] =
        [off..<off + length d] @ [off + length d..<off + length d + length (concat ds)]"
      using upt_add_eq_append [of off "off + length d" "length (concat ds)"] by (simp add: add.assoc)
    ultimately show ?thesis
      by (simp only: offset_calls.simps call option.case prod.case option.map concat.simps map_append
          xor_bytes_append length_map length_upt diff_add_inverse)
  qed
qed

text \<open>
  The chunked counter mode, called for chunk after chunk with the counter block
  it stored, encrypts the concatenation as one call does, provided every chunk but the
  last is a multiple of 16 bytes; whatever the uninitialised block held.
\<close>

theorem BRAESCTR_OFFSET_chunks:
  assumes "length key \<in> {16, 24, 32}" and "\<forall>c \<in> set (butlast chunks). 16 dvd length c"
  shows "offset_calls stack key iv 0 chunks = BRAESCTR key iv (concat chunks)"
  using offset_calls_spec [OF assms(1) _ assms(2), of 0 stack iv] assms(1)
  by (simp add: BRAESCTR_crypt ctr.crypt_pad)

theorem BRAESCTR_OFFSET_chunks_witness:
  "offset_calls (\<lambda>_. replicate 16 0xcc) (replicate 32 1) (replicate 16 9) 0 [replicate 16 1, replicate 32 2, [3]] =
     BRAESCTR (replicate 32 1) (replicate 16 9) (concat [replicate 16 1, replicate 32 2, [3]])"
  by (rule BRAESCTR_OFFSET_chunks) simp_all

end
