(* ===== verification/Aead_Correct.thy ===== *)
theory Aead_Correct
  imports Streams_Correct
begin

text \<open>
  ChaCha20 as a stream cipher with a 64-bit block counter, and the authenticated
  encryption with associated data on top of it.
\<close>

unbundle bit_operations_syntax

section \<open>ChaCha20\<close>

lemma chacha_loop_spec:
  assumes "i mod 64 \<noteq> 0 \<Longrightarrow> b = chacha_block ((chacha_next ^^ (i div 64)) s0)"
  shows "chacha_loop i ((chacha_next ^^ ((i + 63) div 64)) s0) b data =
    xor_bytes data (map (\<lambda>j. chacha_block ((chacha_next ^^ (j div 64)) s0) ! (j mod 64)) [i..<i + length data])"
  using assms
proof (induction data arbitrary: i b)
  case Nil
  then show ?case by (simp add: xor_bytes_def)
next
  case (Cons d ds)
  let ?it = "\<lambda>m. (chacha_next ^^ m) s0"
  have up: "[i..<i + length (d # ds)] = i # [i + 1..<i + 1 + length ds]"
    by (subst upt_conv_Cons) simp_all
  show ?case
  proof (cases "i mod 64 = 0")
    case True
    then obtain q where q: "i = 64 * q" by fastforce
    then have n: "(i + 63) div 64 = i div 64" "(i + 1 + 63) div 64 = Suc (i div 64)" "(i + 1) div 64 = i div 64"
      by simp_all
    have "chacha_loop (i + 1) (?it ((i + 1 + 63) div 64)) (chacha_block (?it (i div 64))) ds =
      xor_bytes ds (map (\<lambda>j. chacha_block (?it (j div 64)) ! (j mod 64)) [i + 1..<i + 1 + length ds])"
      using n(3) by (intro Cons.IH) simp
    then show ?thesis using True n(2) unfolding up n(1) by (simp add: xor_bytes_def)
  next
    case False
    define q r where "q = i div 64" and "r = i mod 64"
    then have i: "i = 64 * q + r" "r < 64" "r \<noteq> 0" using False by simp_all
    then obtain r' where r': "r = Suc r'" "r' < 63" by (cases r) simp_all
    have eq: "i + 63 = r' + 64 * Suc q" "i + 1 + 63 = (r' + 1) + 64 * Suc q" "i + 1 = (r' + 2) + 64 * q"
      using i(1) r'(1) by simp_all
    have n: "(i + 63) div 64 = Suc (i div 64)" and m2: "(i + 1 + 63) div 64 = Suc (i div 64)"
      unfolding eq using r'(2) by (simp_all add: q_def)
    have m1: "(i + 1) mod 64 \<noteq> 0 \<Longrightarrow> (i + 1) div 64 = i div 64"
      unfolding eq using r'(2) by (cases "r' = 62") (simp_all add: q_def)
    have "chacha_loop (i + 1) (?it ((i + 1 + 63) div 64)) b ds =
      xor_bytes ds (map (\<lambda>j. chacha_block (?it (j div 64)) ! (j mod 64)) [i + 1..<i + 1 + length ds])"
      using m1 Cons.prems False by (intro Cons.IH) simp
    then show ?thesis using False m2 Cons.prems unfolding up n by (simp add: xor_bytes_def)
  qed
qed

lemma length_words32: "length (words32 xs) = length xs div 4"
  by (induction xs rule: words32.induct) simp_all

text \<open>The two counter words are a 64-bit number: \<open>s[12]++; if (s[12] == 0) s[13]++\<close>.\<close>

lemma counter_words:
  fixes c :: u64
  shows "(ucast (c + 1) :: u32) = ucast c + 1"
    and "(ucast (drop_bit 32 (c + 1)) :: u32) =
      (if ucast c + 1 = (0 :: u32) then ucast (drop_bit 32 c) + 1 else ucast (drop_bit 32 c))"
proof -
  define B :: nat where "B = 2 ^ 32"
  have B: "0 < B" "unat (ucast w :: u32) = unat w mod B" "unat (drop_bit 32 w) = unat w div B"
    "unat (w + 1) = (unat w + 1) mod (B * B)" "unat (v + 1) = (unat v + 1) mod B"
    for w :: u64 and v :: u32
    by (simp_all add: B_def unat_ucast_mod unat_drop_bit_div unat_add_mod)
  have m: "x mod (B * B) mod B = x mod B" "x mod (B * B) div B = x div B mod B" for x
    using B(1) by (simp_all add: mod_mult2_eq)
  show lo: "(ucast (c + 1) :: u32) = ucast c + 1"
    by (rule word_unat_eq_iff [THEN iffD2]) (simp add: B m mod_Suc_eq)
  have z: "ucast c + 1 = (0 :: u32) \<longleftrightarrow> Suc (unat c) mod B = 0"
    unfolding lo [symmetric] word_unat_eq_iff [of _ 0] by (simp add: B m)
  show "(ucast (drop_bit 32 (c + 1)) :: u32) =
      (if ucast c + 1 = (0 :: u32) then ucast (drop_bit 32 c) + 1 else ucast (drop_bit 32 c))"
    unfolding z by (rule word_unat_eq_iff [THEN iffD2]) (simp add: B m div_Suc mod_Suc_eq)
qed

lemma chacha_next_init:
  assumes "length key = 32"
  shows "chacha_next (chacha_init key iv c) = chacha_init key iv (c + 1)"
proof -
  let ?A = "words32 (chacha_sigma @ key)"
  have A: "length ?A = 12" using assms by (simp add: length_words32 chacha_sigma_def)
  have n: "(?A @ [lo, hi] @ B) ! 12 = lo" "(?A @ [lo, hi] @ B)[12 := x] = ?A @ [x, hi] @ B"
    "(?A @ [lo, hi] @ B) ! 13 = hi" "(?A @ [lo, hi] @ B)[13 := x] = ?A @ [lo, x] @ B" for lo hi x B
    using A by (simp_all add: nth_append list_update_append)
  show ?thesis
    unfolding chacha_init_def chacha_next_def Let_def n counter_words by simp
qed

lemma chacha_next_pow:
  "length key = 32 \<Longrightarrow> (chacha_next ^^ j) (chacha_init key iv c) = chacha_init key iv (c + word_of_nat j)"
  by (induction j) (simp_all add: chacha_next_init algebra_simps)

type_synonym chacha_key = "byte list \<times> byte list \<times> u64"

definition chacha_crypt :: "chacha_key \<Rightarrow> byte list \<Rightarrow> byte list" where
  "chacha_crypt = (\<lambda>(key, iv, c) data. BRChacha20 key iv data c)"

definition chacha_pad :: "chacha_key \<Rightarrow> nat \<Rightarrow> byte" where
  "chacha_pad = (\<lambda>(key, iv, c) i. chacha_block (chacha_init key iv (c + word_of_nat (i div 64))) ! (i mod 64))"

interpretation chacha: stream_cipher "\<lambda>(key, iv, c). length key = 32" chacha_crypt chacha_pad
proof
  fix k :: chacha_key and data :: "byte list"
  obtain key iv c where k: "k = (key, iv, c)" by (cases k)
  assume "case k of (key, iv, c) \<Rightarrow> length key = 32"
  then show "chacha_crypt k data = xor_bytes data (map (chacha_pad k) [0..<length data])"
    using chacha_loop_spec [of 0 "[]" "chacha_init key iv c" data]
    by (simp add: k chacha_crypt_def chacha_pad_def BRChacha20_def chacha_next_pow)
qed

text \<open>
  ChaCha20 adds to byte \<open>i\<close> of the data byte \<open>i mod 64\<close> of the block whose
  64-bit counter is \<open>counter + i div 64\<close>, so the same call decrypts.
\<close>

theorem BRChacha20_correct:
  assumes "length key32 = 32"
  shows "BRChacha20 key32 iv8 (BRChacha20 key32 iv8 data counter) counter = data \<and>
    length (BRChacha20 key32 iv8 data counter) = length data \<and>
    (\<forall>i < length data. BRChacha20 key32 iv8 data counter ! i =
       data ! i XOR chacha_block (chacha_init key32 iv8 (counter + word_of_nat (i div 64))) ! (i mod 64))"
  using assms chacha.involution [of "(key32, iv8, counter)" data]
    chacha.length_crypt [of "(key32, iv8, counter)" data] chacha.crypt_nth [of "(key32, iv8, counter)" _ data]
  by (simp add: chacha_crypt_def chacha_pad_def)

theorem BRChacha20_correct_witness:
  "BRChacha20 (replicate 32 1) (replicate 8 2) (BRChacha20 (replicate 32 1) (replicate 8 2) [1, 2, 3] 7) 7 = [1, 2, 3] \<and>
    BRChacha20 (replicate 32 1) (replicate 8 2) [1, 2, 3] 7 ! 2 =
      3 XOR chacha_block (chacha_init (replicate 32 1) (replicate 8 2) 7) ! 2"
proof -
  have "length (replicate 32 (1 :: byte)) = 32" by simp
  from BRChacha20_correct [OF this, of "replicate 8 2" "[1, 2, 3]" 7] show ?thesis by (auto dest!: spec [of _ 2])
qed

section \<open>Authenticated encryption\<close>

lemma length_chacha: "length key32 = 32 \<Longrightarrow> length (BRChacha20 key32 iv8 data counter) = length data"
  using chacha.length_crypt [of "(key32, iv8, counter)" data] by (simp add: chacha_crypt_def)

lemma chacha_involution:
  "length key32 = 32 \<Longrightarrow> BRChacha20 key32 iv8 (BRChacha20 key32 iv8 data counter) counter = data"
  using chacha.involution [of "(key32, iv8, counter)" data] by (simp add: chacha_crypt_def)

lemma length_poly_final [simp]: "length (poly_final key h) = 16"
  by (simp add: poly_final_def Let_def split: prod.split)

lemma length_aead_mac [simp]: "length (aead_mac key32 nonce12 ad c) = 16"
  by (simp add: aead_mac_def Let_def)

text \<open>What the encryption writes: the ciphertext followed by the tag.\<close>

definition aead_box :: "byte list \<Rightarrow> byte list \<Rightarrow> byte list \<Rightarrow> byte list \<Rightarrow> byte list" where
  "aead_box key32 nonce12 ad data =
     (let c = BRChacha20 key32 (drop 4 nonce12) data (aead_counter nonce12 + 1)
      in c @ aead_mac key32 nonce12 ad c)"

lemma length_aead_box: "length key32 = 32 \<Longrightarrow> length (aead_box key32 nonce12 ad data) = length data + 16"
  by (simp add: aead_box_def Let_def length_chacha)

type_synonym aead_args = "byte list \<times> byte list \<times> byte list \<times> byte list"

definition aead_seal :: "aead_args serialiser" where
  "aead_seal = (\<lambda>(key32, nonce12, ad, data) out. BRChacha20Poly1305AEADEncrypt out key32 nonce12 data ad)"

interpretation aead: two_phase
  "\<lambda>(key32, nonce12, ad, data). length key32 = 32 \<and> length data div 64 < 0xffffffff"
  aead_seal "\<lambda>(key32, nonce12, ad, data). aead_box key32 nonce12 ad data"
proof
  fix x :: aead_args and buf :: "byte list"
  obtain k n ad d where x: "x = (k, n, ad, d)" by (cases x)
  let ?wf = "\<lambda>(key32 :: byte list, nonce12 :: byte list, ad :: byte list, data :: byte list).
    length key32 = 32 \<and> length data div 64 < 0xffffffff"
  let ?enc = "\<lambda>(key32, nonce12, ad, data). aead_box key32 nonce12 ad data"
  assume wf: "?wf x"
  show "aead_seal x None = (length (?enc x), None)"
    using wf by (simp add: x aead_seal_def BRChacha20Poly1305AEADEncrypt_def length_aead_box)
  show "aead_seal x (Some buf) = (length (?enc x), Some (?enc x @ drop (length (?enc x)) buf))"
    if "length (?enc x) \<le> length buf"
    using wf that
    by (simp add: x aead_seal_def BRChacha20Poly1305AEADEncrypt_def length_aead_box)
      (simp add: wr_def aead_box_def Let_def length_chacha add.commute)
  show "fst (aead_seal x (Some buf)) = 0" if "length buf < length (?enc x)"
    using wf that by (simp add: x aead_seal_def BRChacha20Poly1305AEADEncrypt_def length_aead_box)
qed

text \<open>
  What authenticated encryption writes into a buffer of the size it asked for
  is decrypted, into a buffer of the size decryption asks for, to the data that was
  encrypted, for every associated data and nonce.
\<close>

theorem aead_roundtrip:
  assumes "length key32 = 32" and "length data div 64 < 0xffffffff"
    and "length buf = fst (BRChacha20Poly1305AEADEncrypt None key32 nonce12 data ad)"
    and "BRChacha20Poly1305AEADEncrypt (Some buf) key32 nonce12 data ad = (n, Some box)"
    and "length buf2 = fst (BRChacha20Poly1305AEADDecrypt None key32 nonce12 box ad)"
  shows "n = length data + 16 \<and> length box = n \<and>
    BRChacha20Poly1305AEADDecrypt (Some buf2) key32 nonce12 box ad = (length data, Some data)"
proof -
  have "BRChacha20Poly1305AEADEncrypt (Some buf) key32 nonce12 data ad =
      (length data + 16, Some (aead_box key32 nonce12 ad data))"
    using aead.sized_call [of "(key32, nonce12, ad, data)" buf] assms(1-3)
    by (simp add: aead_seal_def length_aead_box)
  then have n: "n = length data + 16" and box: "box = aead_box key32 nonce12 ad data"
    using assms(4) by simp_all
  let ?c = "BRChacha20 key32 (drop 4 nonce12) data (aead_counter nonce12 + 1)"
  have b: "box = ?c @ aead_mac key32 nonce12 ad ?c" by (simp add: box aead_box_def Let_def)
  have len: "length box = length data + 16" by (simp add: box length_aead_box assms(1))
  then have "length buf2 = length data"
    using assms(5) by (simp add: BRChacha20Poly1305AEADDecrypt_def)
  then show ?thesis
    using n len assms(1,2)
    by (simp add: BRChacha20Poly1305AEADDecrypt_def b Let_def length_chacha wr_def chacha_involution)
qed

theorem aead_roundtrip_witness:
  "\<exists>n box. BRChacha20Poly1305AEADEncrypt (Some (replicate 19 0)) (replicate 32 1) (replicate 12 2) [1, 2, 3] [9] =
      (n, Some box) \<and> n = length [1, 2, 3 :: byte] + 16 \<and> length box = n \<and>
    BRChacha20Poly1305AEADDecrypt (Some (replicate 3 0)) (replicate 32 1) (replicate 12 2) box [9] =
      (length [1, 2, 3 :: byte], Some [1, 2, 3])"
proof -
  have k: "length (replicate 32 (1 :: byte)) = 32" by simp
  let ?box = "aead_box (replicate 32 1) (replicate 12 2) [9] [1, 2, 3]"
  have "BRChacha20Poly1305AEADEncrypt (Some (replicate 19 0)) (replicate 32 1) (replicate 12 2) [1, 2, 3] [9] =
      (19, Some ?box)"
    using aead.sized_call [of "(replicate 32 1, replicate 12 2, [9], [1, 2, 3])" "replicate 19 0"]
    by (simp add: aead_seal_def length_aead_box [OF k] BRChacha20Poly1305AEADEncrypt_def)
  then show ?thesis
    using aead_roundtrip [of "replicate 32 1" "[1, 2, 3]" "replicate 19 0" "replicate 12 2" "[9]" 19 ?box "replicate 3 0"]
    by (simp add: BRChacha20Poly1305AEADEncrypt_def BRChacha20Poly1305AEADDecrypt_def length_aead_box [OF k])
qed

end
