(* ===== verification/Poly1305_Correct.thy ===== *)
theory Poly1305_Correct
  imports Aead_Correct
begin

text \<open>
  The Poly1305 authenticator: the five limbs of 26 bits of \<open>_BRPoly1305Compress\<close>, with their delayed
  carries, compute the numbers modulo \<open>2\<^sup>1\<^sup>3\<^sup>0 - 5\<close> that RFC 8439 defines, and the tag of the
  authenticated encryption is the one of that RFC.
\<close>

unbundle bit_operations_syntax

section \<open>The specification\<close>

text \<open>RFC 8439, section 2.5.1: the clamped multiplier, the polynomial over the blocks and the tag.\<close>

abbreviation p1305 :: nat where
  "p1305 \<equiv> 2 ^ 130 - 5"

definition rfc_clamp :: "byte list \<Rightarrow> nat" where
  "rfc_clamp key = unat ((word_of_le (take 16 key) :: 128 word) AND 0x0ffffffc0ffffffc0ffffffc0fffffff)"

function rfc_poly :: "nat \<Rightarrow> nat \<Rightarrow> byte list \<Rightarrow> nat" where
  "rfc_poly r a msg =
     (if msg = [] then a
      else rfc_poly r ((a + le_val (take 16 msg @ [1])) * r mod p1305) (drop 16 msg))"
  by pat_completeness auto
termination by (relation "measure (\<lambda>(r, a, msg). length msg)") auto

declare rfc_poly.simps [simp del]

definition rfc_tag :: "byte list \<Rightarrow> byte list \<Rightarrow> nat" where
  "rfc_tag key msg = (rfc_poly (rfc_clamp key) 0 msg + le_val (drop 16 key)) mod 2 ^ 128"

section \<open>Limbs as numbers\<close>

fun num5 :: "limbs \<Rightarrow> nat" where
  "num5 (h0, h1, h2, h3, h4) =
     unat h0 + 2 ^ 26 * unat h1 + 2 ^ 52 * unat h2 + 2 ^ 78 * unat h3 + 2 ^ 104 * unat h4"

lemma word_slice:
  assumes "length x = 16" and "i + 4 \<le> 16"
  shows "(word_of_le (take 4 (drop i x)) :: u32) = ucast (drop_bit (8 * i) (word_of_le x :: 128 word))"
proof (rule bit_word_eqI)
  fix k assume "k < LENGTH(32)"
  then have k: "k < 32" by simp
  have "(8 * i + k) div 8 = i + k div 8" "(8 * i + k) mod 8 = k mod 8" by simp_all
  moreover have "k div 8 < 4" using k by simp
  ultimately show "bit (word_of_le (take 4 (drop i x)) :: u32) k = bit (ucast (drop_bit (8 * i) (word_of_le x :: 128 word)) :: u32) k"
    using assms k by (auto simp: bit_word_of_le bit_ucast_iff bit_drop_bit_eq)
qed

lemma splice:
  assumes "s \<le> 32" and "p + 64 \<le> 128"
  shows "drop_bit s (ucast (drop_bit p n) :: u32) OR push_bit (32 - s) (ucast (drop_bit (p + 32) n)) =
    ucast (drop_bit (p + s) (n :: 128 word))"
proof (rule bit_word_eqI)
  fix k assume "k < LENGTH(32)"
  then have k: "k < 32" by simp
  show "bit (drop_bit s (ucast (drop_bit p n) :: u32) OR push_bit (32 - s) (ucast (drop_bit (p + 32) n))) k =
    bit (ucast (drop_bit (p + s) n) :: u32) k"
  proof (cases "s + k < 32")
    case True
    then show ?thesis using k assms
      by (auto simp: bit_or_iff bit_drop_bit_eq bit_ucast_iff bit_push_bit_iff add.assoc)
  next
    case False
    then have "p + 32 + (k - (32 - s)) = p + s + k" using assms(1) by simp
    then show ?thesis using False k assms
      by (auto simp: bit_or_iff bit_drop_bit_eq bit_ucast_iff bit_push_bit_iff ac_simps)
  qed
qed

text \<open>The limbs of a 128-bit number.\<close>

definition limbs128 :: "128 word \<Rightarrow> limbs" where
  "limbs128 n =
     (ucast n AND 0x03ffffff, ucast (drop_bit 26 n) AND 0x03ffffff, ucast (drop_bit 52 n) AND 0x03ffffff,
      ucast (drop_bit 78 n) AND 0x03ffffff, ucast (drop_bit 104 n))"

lemma limbs_of_128:
  assumes "length x = 16"
  shows "limbs_of x = limbs128 (word_of_le x)"
proof -
  let ?n = "word_of_le x :: 128 word"
  have t: "(word_of_le (take 4 x) :: u32) = ucast (drop_bit 0 ?n)" "(word_of_le (take 4 (drop 4 x)) :: u32) = ucast (drop_bit 32 ?n)"
    "(word_of_le (take 4 (drop 8 x)) :: u32) = ucast (drop_bit 64 ?n)" "(word_of_le (take 4 (drop 12 x)) :: u32) = ucast (drop_bit 96 ?n)"
    using word_slice [OF assms, of 0] word_slice [OF assms, of 4] word_slice [OF assms, of 8] word_slice [OF assms, of 12] by simp_all
  have "drop_bit 8 (ucast (drop_bit 96 ?n) :: u32) = ucast (drop_bit 104 ?n)"
    by (rule bit_word_eqI) (auto simp: bit_drop_bit_eq bit_ucast_iff dest: bit_imp_le_length)
  then show ?thesis
    using splice [of 26 0 ?n] splice [of 20 32 ?n] splice [of 14 64 ?n]
    unfolding limbs_of_def t Let_def limbs128_def by simp
qed

lemma poly_r_128:
  assumes "16 \<le> length key"
  shows "poly_r key = limbs128 (word_of_le (take 16 key) AND 0x0ffffffc0ffffffc0ffffffc0fffffff)"
proof -
  let ?n = "word_of_le (take 16 key) :: 128 word" and ?c = "0x0ffffffc0ffffffc0ffffffc0fffffff :: 128 word"
  have len: "length (take 16 key) = 16" using assms by simp
  have t: "(word_of_le (take 4 key) :: u32) = ucast (drop_bit 0 ?n)" "(word_of_le (take 4 (drop 4 key)) :: u32) = ucast (drop_bit 32 ?n)"
    "(word_of_le (take 4 (drop 8 key)) :: u32) = ucast (drop_bit 64 ?n)" "(word_of_le (take 4 (drop 12 key)) :: u32) = ucast (drop_bit 96 ?n)"
    using word_slice [OF len, of 0] word_slice [OF len, of 4] word_slice [OF len, of 8] word_slice [OF len, of 12]
    by (simp_all add: take_drop min_def)
  have d: "drop_bit 8 (ucast (drop_bit 96 ?n) :: u32) = ucast (drop_bit 104 ?n)"
    by (rule bit_word_eqI) (auto simp: bit_drop_bit_eq bit_ucast_iff dest: bit_imp_le_length)
  have c: "ucast (drop_bit p (?n AND ?c)) = (ucast (drop_bit p ?n) AND ucast (drop_bit p ?c) :: u32)" for p
    by (rule bit_word_eqI) (auto simp: bit_and_iff bit_drop_bit_eq bit_ucast_iff)
  have cs: "ucast (drop_bit 0 ?c) AND 0x03ffffff = (0x03ffffff :: u32)" "ucast (drop_bit 26 ?c) AND 0x03ffffff = (0x03ffff03 :: u32)"
    "ucast (drop_bit 52 ?c) AND 0x03ffffff = (0x03ffc0ff :: u32)" "ucast (drop_bit 78 ?c) AND 0x03ffffff = (0x03f03fff :: u32)"
    "ucast (drop_bit 104 ?c) = (0x000fffff :: u32)" by simp_all
  have c0: "ucast (?n AND ?c) AND 0x03ffffff = (ucast ?n AND 0x03ffffff :: u32)"
    using c [of 0] unfolding drop_bit_0 id_apply by (simp only: and.assoc) simp
  show ?thesis
    using splice [of 26 0 ?n] splice [of 20 32 ?n] splice [of 14 64 ?n]
    unfolding poly_r_def t Let_def limbs128_def c0 c d and.assoc cs by simp
qed

text \<open>Four limbs of at most 26 bits, and the second with at most 64 more.\<close>

fun lim_ok :: "limbs \<Rightarrow> bool" where
  "lim_ok (h0, h1, h2, h3, h4) \<longleftrightarrow>
     unat h0 < 2 ^ 26 \<and> unat h1 < 2 ^ 26 + 64 \<and> unat h2 < 2 ^ 26 \<and> unat h3 < 2 ^ 26 \<and> unat h4 < 2 ^ 26"

lemma unat_mask26: "unat (w AND 0x03ffffff :: u32) = unat w mod 2 ^ 26"
proof -
  have e: "w AND 0x03ffffff = take_bit 26 w" by (simp add: take_bit_eq_mask mask_eq_exp_minus_1)
  show ?thesis unfolding e unsigned_take_bit_eq by (rule take_bit_eq_mod)
qed

lemma unat_mask26_64: "unat (w AND 0x03ffffff :: u64) = unat w mod 2 ^ 26"
proof -
  have e: "w AND 0x03ffffff = take_bit 26 w" by (simp add: take_bit_eq_mask mask_eq_exp_minus_1)
  show ?thesis unfolding e unsigned_take_bit_eq by (rule take_bit_eq_mod)
qed

lemma digits26:
  fixes n :: nat
  assumes "n = a0 + 2 ^ 26 * q0" and "q0 = a1 + 2 ^ 26 * q1" and "q1 = a2 + 2 ^ 26 * q2" and "q2 = a3 + 2 ^ 26 * a4"
  shows "a0 + 2 ^ 26 * a1 + 2 ^ 52 * a2 + 2 ^ 78 * a3 + 2 ^ 104 * a4 = n"
  using assms by simp

lemma limbs128_num:
  "num5 (limbs128 n) = unat n" "lim_ok (limbs128 n)" "limbs128 n = (a, b, c, d, e) \<Longrightarrow> unat a < 2 ^ 26 \<and> unat b < 2 ^ 26 \<and> unat c < 2 ^ 26 \<and> unat d < 2 ^ 26 \<and> unat e < 2 ^ 24"
proof -
  have m: "unat (ucast (drop_bit p n) AND 0x03ffffff :: u32) = unat n div 2 ^ p mod 2 ^ 26" for p
  proof -
    have "unat n div 2 ^ p mod 2 ^ 32 mod 2 ^ 26 = unat n div 2 ^ p mod 2 ^ 26" by (rule mod_mod_cancel) simp
    then show ?thesis by (simp add: unat_mask26 unat_ucast_mod unat_drop_bit_div)
  qed
  have top: "unat (ucast (drop_bit 104 n) :: u32) = unat n div 2 ^ 104"
  proof -
    have "unat n < 2 ^ 128" using unat_bound [of n] by simp
    then have "unat n div 2 ^ 104 < 2 ^ 24" by (simp add: less_mult_imp_div_less)
    then show ?thesis by (simp add: unat_ucast_mod unat_drop_bit_div)
  qed
  have b: "unat n div 2 ^ 104 < 2 ^ 24" using unat_bound [of n] by (simp add: less_mult_imp_div_less)
  have m0: "unat (ucast n AND 0x03ffffff :: u32) = unat n mod 2 ^ 26" using m [of 0] by simp
  note um = m0 m [of 26] m [of 52] m [of 78] top
  show "num5 (limbs128 n) = unat n"
  proof -
    define N where "N = unat n"
    have "N = N mod 2 ^ 26 + 2 ^ 26 * (N div 2 ^ 26)" by (simp add: mod_mult_div_eq)
    moreover have "N div 2 ^ 26 = N div 2 ^ 26 mod 2 ^ 26 + 2 ^ 26 * (N div 2 ^ 52)" by (simp add: div_mult2_eq [of N "2 ^ 26" "2 ^ 26", simplified] mod_mult_div_eq)
    moreover have "N div 2 ^ 52 = N div 2 ^ 52 mod 2 ^ 26 + 2 ^ 26 * (N div 2 ^ 78)" by (simp add: div_mult2_eq [of N "2 ^ 52" "2 ^ 26", simplified] mod_mult_div_eq)
    moreover have "N div 2 ^ 78 = N div 2 ^ 78 mod 2 ^ 26 + 2 ^ 26 * (N div 2 ^ 104)" by (simp add: div_mult2_eq [of N "2 ^ 78" "2 ^ 26", simplified] mod_mult_div_eq)
    ultimately show ?thesis unfolding limbs128_def num5.simps um N_def [symmetric] by (rule digits26)
  qed
  show "lim_ok (limbs128 n)" unfolding limbs128_def lim_ok.simps um using b
    by (simp add: less_trans [OF mod_less_divisor])
  show "limbs128 n = (a, b, c, d, e) \<Longrightarrow> unat a < 2 ^ 26 \<and> unat b < 2 ^ 26 \<and> unat c < 2 ^ 26 \<and> unat d < 2 ^ 26 \<and> unat e < 2 ^ 24"
    using b um by (auto simp: limbs128_def)
qed

section \<open>One block\<close>

lemma block_identity:
  fixes B :: nat
  shows "(h0 + B * h1 + B ^ 2 * h2 + B ^ 3 * h3 + B ^ 4 * h4) * (r0 + B * r1 + B ^ 2 * r2 + B ^ 3 * r3 + B ^ 4 * r4) +
      5 * ((h1 * r4 + h2 * r3 + h3 * r2 + h4 * r1) + B * (h2 * r4 + h3 * r3 + h4 * r2) + B ^ 2 * (h3 * r4 + h4 * r3) + B ^ 3 * (h4 * r4)) =
    (h0 * r0 + h1 * r4 * 5 + h2 * r3 * 5 + h3 * r2 * 5 + h4 * r1 * 5) +
    B * (h0 * r1 + h1 * r0 + h2 * r4 * 5 + h3 * r3 * 5 + h4 * r2 * 5) +
    B ^ 2 * (h0 * r2 + h1 * r1 + h2 * r0 + h3 * r4 * 5 + h4 * r3 * 5) +
    B ^ 3 * (h0 * r3 + h1 * r2 + h2 * r1 + h3 * r0 + h4 * r4 * 5) +
    B ^ 4 * (h0 * r4 + h1 * r3 + h2 * r2 + h3 * r1 + h4 * r0) +
    B ^ 5 * ((h1 * r4 + h2 * r3 + h3 * r2 + h4 * r1) + B * (h2 * r4 + h3 * r3 + h4 * r2) + B ^ 2 * (h3 * r4 + h4 * r3) + B ^ 3 * (h4 * r4))"
  by (simp add: algebra_simps power2_eq_square power3_eq_cube eval_nat_numeral)

text \<open>The five sums of products, as numbers that fit 64 bits.\<close>

definition sums :: "nat \<times> nat \<times> nat \<times> nat \<times> nat \<Rightarrow> nat \<times> nat \<times> nat \<times> nat \<times> nat \<Rightarrow> nat \<times> nat \<times> nat \<times> nat \<times> nat" where
  "sums = (\<lambda>(h0, h1, h2, h3, h4) (r0, r1, r2, r3, r4).
     (h0 * r0 + h1 * r4 * 5 + h2 * r3 * 5 + h3 * r2 * 5 + h4 * r1 * 5,
      h0 * r1 + h1 * r0 + h2 * r4 * 5 + h3 * r3 * 5 + h4 * r2 * 5,
      h0 * r2 + h1 * r1 + h2 * r0 + h3 * r4 * 5 + h4 * r3 * 5,
      h0 * r3 + h1 * r2 + h2 * r1 + h3 * r0 + h4 * r4 * 5,
      h0 * r4 + h1 * r3 + h2 * r2 + h3 * r1 + h4 * r0))"

fun num5n :: "nat \<times> nat \<times> nat \<times> nat \<times> nat \<Rightarrow> nat" where
  "num5n (h0, h1, h2, h3, h4) = h0 + 2 ^ 26 * h1 + 2 ^ 52 * h2 + 2 ^ 78 * h3 + 2 ^ 104 * h4"

fun unat5 :: "limbs \<Rightarrow> nat \<times> nat \<times> nat \<times> nat \<times> nat" where
  "unat5 (h0, h1, h2, h3, h4) = (unat h0, unat h1, unat h2, unat h3, unat h4)"

lemma num5_unat5: "num5 h = num5n (unat5 h)"
  by (cases h) simp

lemma sums_num: "\<exists>X. num5n h * num5n r = num5n (sums h r) + p1305 * X"
proof -
  obtain h0 h1 h2 h3 h4 where h: "h = (h0, h1, h2, h3, h4)" by (cases h)
  obtain r0 r1 r2 r3 r4 where r: "r = (r0, r1, r2, r3, r4)" by (cases r)
  define X where "X = (h1 * r4 + h2 * r3 + h3 * r2 + h4 * r1) + 2 ^ 26 * (h2 * r4 + h3 * r3 + h4 * r2) +
    (2 ^ 26) ^ 2 * (h3 * r4 + h4 * r3) + (2 ^ 26) ^ 3 * (h4 * r4)"
  have "num5n h * num5n r + 5 * X = num5n (sums h r) + 2 ^ 130 * X"
    using block_identity [of h0 "2 ^ 26" h1 h2 h3 h4 r0 r1 r2 r3 r4]
    unfolding X_def h r by (simp add: sums_def flip: power_mult)
  moreover have "(2 :: nat) ^ 130 * X = p1305 * X + 5 * X" by simp
  ultimately show ?thesis by (intro exI [of _ X]) linarith
qed

text \<open>The bound on a product of limbs.\<close>

lemma limb_product:
  assumes "a < 2 ^ 27 + 64" and "b < 2 ^ 26"
  shows "a * b \<le> (9007203549708288 :: nat)"
proof -
  have "a * b \<le> (2 ^ 27 + 64) * 2 ^ 26" by (rule mult_le_mono) (use assms in auto)
  then show ?thesis by simp
qed

lemma poly_mul_unat:
  assumes "unat h0 < 2 ^ 27 + 64" "unat h1 < 2 ^ 27 + 64" "unat h2 < 2 ^ 27 + 64" "unat h3 < 2 ^ 27 + 64" "unat h4 < 2 ^ 27 + 64"
    and "unat r0 < 2 ^ 26" "unat r1 < 2 ^ 26" "unat r2 < 2 ^ 26" "unat r3 < 2 ^ 26" "unat r4 < 2 ^ 26"
  shows "\<exists>d0 d1 d2 d3 d4. poly_mul (h0, h1, h2, h3, h4) (r0, r1, r2, r3, r4) = (d0, d1, d2, d3, d4) \<and>
    sums (unat5 (h0, h1, h2, h3, h4)) (unat5 (r0, r1, r2, r3, r4)) = (unat d0, unat d1, unat d2, unat d3, unat d4) \<and>
    unat d0 \<le> 21 * 9007203549708288 \<and> unat d1 \<le> 17 * 9007203549708288 \<and> unat d2 \<le> 13 * 9007203549708288 \<and>
    unat d3 \<le> 9 * 9007203549708288 \<and> unat d4 \<le> 5 * 9007203549708288"
proof -
  have bound: "unat h * unat r \<le> 9007203549708288" if "h \<in> {h0, h1, h2, h3, h4}" "r \<in> {r0, r1, r2, r3, r4}" for h r :: u32
    using that assms by (intro limb_product) auto
  note b = bound [of h0 r0] bound [of h0 r1] bound [of h0 r2] bound [of h0 r3] bound [of h0 r4]
    bound [of h1 r0] bound [of h1 r1] bound [of h1 r2] bound [of h1 r3] bound [of h1 r4]
    bound [of h2 r0] bound [of h2 r1] bound [of h2 r2] bound [of h2 r3] bound [of h2 r4]
    bound [of h3 r0] bound [of h3 r1] bound [of h3 r2] bound [of h3 r3] bound [of h3 r4]
    bound [of h4 r0] bound [of h4 r1] bound [of h4 r2] bound [of h4 r3] bound [of h4 r4]
  have w: "ucast h * ucast r = (word_of_nat (unat h * unat r) :: u64)" for h r :: u32 by simp
  have p: "a * (5 :: u64) = word_of_nat (n * 5)" if "a = word_of_nat n" for a n using that by simp
  have u: "unat (word_of_nat n :: u64) = n" if "n \<le> 21 * 9007203549708288" for n
    using that by (intro unat_of_nat_small) simp
  define D0 where "D0 = unat h0 * unat r0 + unat h1 * unat r4 * 5 + unat h2 * unat r3 * 5 + unat h3 * unat r2 * 5 + unat h4 * unat r1 * 5"
  define D1 where "D1 = unat h0 * unat r1 + unat h1 * unat r0 + unat h2 * unat r4 * 5 + unat h3 * unat r3 * 5 + unat h4 * unat r2 * 5"
  define D2 where "D2 = unat h0 * unat r2 + unat h1 * unat r1 + unat h2 * unat r0 + unat h3 * unat r4 * 5 + unat h4 * unat r3 * 5"
  define D3 where "D3 = unat h0 * unat r3 + unat h1 * unat r2 + unat h2 * unat r1 + unat h3 * unat r0 + unat h4 * unat r4 * 5"
  define D4 where "D4 = unat h0 * unat r4 + unat h1 * unat r3 + unat h2 * unat r2 + unat h3 * unat r1 + unat h4 * unat r0"
  have le: "D0 \<le> 21 * 9007203549708288" "D1 \<le> 17 * 9007203549708288" "D2 \<le> 13 * 9007203549708288"
    "D3 \<le> 9 * 9007203549708288" "D4 \<le> 5 * 9007203549708288"
    unfolding D0_def D1_def D2_def D3_def D4_def using b by simp_all
  have m: "poly_mul (h0, h1, h2, h3, h4) (r0, r1, r2, r3, r4) = (word_of_nat D0, word_of_nat D1, word_of_nat D2, word_of_nat D3, word_of_nat D4)"
    unfolding poly_mul_def D0_def D1_def D2_def D3_def D4_def by (simp add: Let_def)
  have us: "unat (word_of_nat D0 :: u64) = D0" "unat (word_of_nat D1 :: u64) = D1" "unat (word_of_nat D2 :: u64) = D2"
    "unat (word_of_nat D3 :: u64) = D3" "unat (word_of_nat D4 :: u64) = D4" by (rule u, use le in simp)+
  have s: "sums (unat5 (h0, h1, h2, h3, h4)) (unat5 (r0, r1, r2, r3, r4)) = (D0, D1, D2, D3, D4)"
    by (simp add: sums_def D0_def D1_def D2_def D3_def D4_def)
  show ?thesis by (intro exI conjI, rule m, unfold us, rule s, rule le(1), rule le(2), rule le(3), rule le(4), rule le(5))
qed

text \<open>The carries, and five times the last one added at the bottom.\<close>

lemma carry_up: "unat d < 2 ^ 58 \<Longrightarrow> unat (ucast (ucast (drop_bit 26 d :: u64) :: u32) :: u64) = unat d div 2 ^ 26"
  by (simp add: unat_ucast_mod unat_drop_bit_div less_mult_imp_div_less)

lemma carry_lo: "unat (ucast (d AND 0x03ffffff :: u64) :: u32) = unat d mod 2 ^ 26"
proof -
  have "unat d mod 2 ^ 26 < 2 ^ 32" by (rule less_trans [OF mod_less_divisor]) simp_all
  then show ?thesis by (simp only: unat_ucast_mod unat_mask26_64) simp
qed

lemma add_no_wrap: "unat a + unat b < 2 ^ LENGTH('a) \<Longrightarrow> unat (a + b :: 'a::len word) = unat a + unat b"
  by (simp add: unat_add_mod)

lemma carry_identity:
  fixes d0 :: nat
  assumes "d0 = a0 + 2 ^ 26 * q0" and "e1 = d1 + q0" "e1 = a1 + 2 ^ 26 * q1" and "e2 = d2 + q1" "e2 = a2 + 2 ^ 26 * q2"
    and "e3 = d3 + q2" "e3 = a3 + 2 ^ 26 * q3" and "e4 = d4 + q3" "e4 = a4 + 2 ^ 26 * q" and "h = a0 + q * 5" "h = b0 + 2 ^ 26 * f"
  shows "d0 + 2 ^ 26 * d1 + 2 ^ 52 * d2 + 2 ^ 78 * d3 + 2 ^ 104 * d4 =
    b0 + 2 ^ 26 * (a1 + f) + 2 ^ 52 * a2 + 2 ^ 78 * a3 + 2 ^ 104 * a4 + p1305 * q"
  using assms by simp

lemma poly_carry_num:
  assumes "unat d0 \<le> 21 * 9007203549708288" "unat d1 \<le> 17 * 9007203549708288" "unat d2 \<le> 13 * 9007203549708288"
    "unat d3 \<le> 9 * 9007203549708288" "unat d4 \<le> 5 * 9007203549708288"
  shows "\<exists>q. num5n (unat d0, unat d1, unat d2, unat d3, unat d4) = num5 (poly_carry (d0, d1, d2, d3, d4)) + p1305 * q"
    and "lim_ok (poly_carry (d0, d1, d2, d3, d4))"
proof -
  define up where "up = (\<lambda>d. ucast (ucast (drop_bit 26 d :: u64) :: u32) :: u64)"
  define lo where "lo = (\<lambda>d. ucast (d AND 0x03ffffff :: u64) :: u32)"
  define e1 e2 e3 e4 where "e1 = d1 + up d0" and "e2 = d2 + up e1" and "e3 = d3 + up e2" and "e4 = d4 + up e3"
  define h where "h = lo d0 + ucast (drop_bit 26 e4) * 5"
  have pc: "poly_carry (d0, d1, d2, d3, d4) = (h AND 0x03ffffff, lo e1 + drop_bit 26 h, lo e2, lo e3, lo e4)"
    unfolding poly_carry_def prod.case Let_def up_def [symmetric] lo_def [symmetric] e1_def [symmetric] e2_def [symmetric]
      e3_def [symmetric] e4_def [symmetric] h_def [symmetric] ..
  have up: "unat (up d) = unat d div 2 ^ 26" if "unat d < 2 ^ 58" for d unfolding up_def by (rule carry_up [OF that])
  have lo: "unat (lo d) = unat d mod 2 ^ 26" for d unfolding lo_def by (rule carry_lo)
  have small: "n div 2 ^ 26 < 2 ^ 32" if "n < 2 ^ 58" for n :: nat using that by (simp add: less_mult_imp_div_less)
  have add: "unat (d + up e) = unat d + unat e div 2 ^ 26 \<and> unat (d + up e) < 2 ^ 58"
    if "unat d \<le> 17 * 9007203549708288" "unat e < 2 ^ 58" for d e
  proof -
    have u: "unat (up e) = unat e div 2 ^ 26" "unat e div 2 ^ 26 < 2 ^ 32" using up small that(2) by auto
    then have "unat (d + up e) = unat d + unat (up e)" using that(1) by (intro add_no_wrap) simp
    then show ?thesis using u that(1) by simp
  qed
  have d0: "unat d0 < 2 ^ 58" using assms(1) by simp
  have e1: "unat e1 = unat d1 + unat d0 div 2 ^ 26" "unat e1 < 2 ^ 58" using add [OF assms(2) d0] by (simp_all add: e1_def)
  have e2: "unat e2 = unat d2 + unat e1 div 2 ^ 26" "unat e2 < 2 ^ 58" using add [of d2 e1] assms(3) e1(2) by (simp_all add: e2_def)
  have e3: "unat e3 = unat d3 + unat e2 div 2 ^ 26" "unat e3 < 2 ^ 58" using add [of d3 e2] assms(4) e2(2) by (simp_all add: e3_def)
  have e4: "unat e4 = unat d4 + unat e3 div 2 ^ 26" "unat e4 < 2 ^ 58" using add [of d4 e3] assms(5) e3(2) by (simp_all add: e4_def)
  have q: "unat e4 div 2 ^ 26 \<le> 671153000"
  proof -
    have "unat e4 \<le> 671153000 * 2 ^ 26" using e4(1) assms(5) small [OF e3(2)] by simp
    then have "unat e4 div 2 ^ 26 \<le> 671153000 * 2 ^ 26 div 2 ^ 26" by (rule div_le_mono)
    then show ?thesis by simp
  qed
  define q where "q = unat e4 div 2 ^ 26"
  have ql: "q \<le> 671153000" using q unfolding q_def .
  have m: "unat d0 mod 2 ^ 26 < 2 ^ 26" by simp
  have h: "unat h = unat d0 mod 2 ^ 26 + q * 5"
  proof -
    have u: "unat (ucast (drop_bit 26 e4) :: u32) = q" using q by (simp add: unat_ucast_mod unat_drop_bit_div q_def)
    have five: "unat (ucast (drop_bit 26 e4) * 5 :: u32) = q * 5"
      using ql u by (simp add: unat_mult_mod)
    then have "unat h = unat (lo d0) + unat (ucast (drop_bit 26 e4) * 5 :: u32)"
      unfolding h_def using ql m lo [of d0] by (intro add_no_wrap) simp
    then show ?thesis using five lo by simp
  qed
  have hb: "unat h < 2 ^ 32" using unat_bound [of h] by simp
  then have hd: "unat h div 2 ^ 26 < 64" by (simp add: less_mult_imp_div_less)
  have h1: "unat (lo e1 + drop_bit 26 h) = unat e1 mod 2 ^ 26 + unat h div 2 ^ 26"
  proof -
    have "unat (drop_bit 26 h) = unat h div 2 ^ 26" by (rule unat_drop_bit_div)
    moreover have "unat e1 mod 2 ^ 26 < 2 ^ 26" by simp
    ultimately show ?thesis using hd lo [of e1] by (subst add_no_wrap) simp_all
  qed
  note um = unat_mask26 h1 lo
  show "lim_ok (poly_carry (d0, d1, d2, d3, d4))"
  proof -
    have "unat e1 mod 2 ^ 26 < 2 ^ 26" by simp
    then show ?thesis unfolding pc lim_ok.simps um using hd by simp
  qed
  have split: "n = n mod 2 ^ 26 + 2 ^ 26 * (n div 2 ^ 26)" for n :: nat by (simp add: mod_mult_div_eq)
  have "num5n (unat d0, unat d1, unat d2, unat d3, unat d4) = num5 (poly_carry (d0, d1, d2, d3, d4)) + p1305 * q"
    unfolding pc num5.simps num5n.simps um
    by (rule carry_identity [of _ _ "unat d0 div 2 ^ 26" _ _ _ "unat e1 div 2 ^ 26" _ _ _ "unat e2 div 2 ^ 26" _ _ _ "unat e3 div 2 ^ 26"])
      (use split [of "unat d0"] split [of "unat e1"] split [of "unat e2"] split [of "unat e3"] split [of "unat e4"] split [of "unat h"]
        e1(1) e2(1) e3(1) e4(1) h in \<open>simp_all only: q_def\<close>)
  then show "\<exists>q. num5n (unat d0, unat d1, unat d2, unat d3, unat d4) = num5 (poly_carry (d0, d1, d2, d3, d4)) + p1305 * q" ..
qed

text \<open>A block adds its number to the accumulator and multiplies by the clamped number.\<close>

definition block_num :: "byte list \<Rightarrow> u32 \<Rightarrow> nat" where
  "block_num x hi = le_val x + 2 ^ 104 * unat hi"

lemma poly_add_unat:
  assumes ok: "lim_ok h" and x: "limbs_of x = (x0, x1, x2, x3, x4)" "length x = 16" and hi: "hi = 0 \<or> hi = push_bit 24 1"
  shows "\<exists>g0 g1 g2 g3 g4. poly_add h (limbs_of x) hi = (g0, g1, g2, g3, g4) \<and> unat g0 < 2 ^ 27 + 64 \<and> unat g1 < 2 ^ 27 + 64 \<and>
    unat g2 < 2 ^ 27 + 64 \<and> unat g3 < 2 ^ 27 + 64 \<and> unat g4 < 2 ^ 27 + 64 \<and>
    num5 (g0, g1, g2, g3, g4) = num5 h + block_num x hi"
proof -
  obtain h0 h1 h2 h3 h4 where h: "h = (h0, h1, h2, h3, h4)" by (cases h)
  have l: "limbs128 (word_of_le x) = (x0, x1, x2, x3, x4)" using x limbs_of_128 by simp
  then have xb: "unat x0 < 2 ^ 26" "unat x1 < 2 ^ 26" "unat x2 < 2 ^ 26" "unat x3 < 2 ^ 26" "unat x4 < 2 ^ 24"
    using limbs128_num(3) by blast+
  have xn: "num5 (x0, x1, x2, x3, x4) = le_val x"
    using limbs128_num(1) [of "word_of_le x"] x(2) unfolding l by (simp add: unat_word_of_le)
  have hb: "unat h0 < 2 ^ 26" "unat h1 < 2 ^ 26 + 64" "unat h2 < 2 ^ 26" "unat h3 < 2 ^ 26" "unat h4 < 2 ^ 26" using ok by (simp_all add: h)
  have hiu: "unat hi \<le> 2 ^ 24" using hi by auto
  have top: "unat (x4 OR hi) = unat x4 + unat hi"
  proof -
    have "x4 AND hi = 0"
    proof (rule bit_word_eqI)
      fix k assume "k < LENGTH(32)"
      have "\<not> bit x4 24"
      proof -
        have "take_bit 24 x4 = x4" using xb(5) by (simp add: word_unat_eq_iff unsigned_take_bit_eq take_bit_nat_eq_self)
        then show ?thesis by (metis bit_take_bit_iff less_irrefl)
      qed
      moreover have "k = 24" if "bit hi k"
        using hi that by (elim disjE) (simp_all only: bit_0_eq bot_apply bot_bool_def bit_push_bit_iff bit_1_iff, simp_all)
      ultimately show "bit (x4 AND hi) k = bit (0 :: u32) k" by (auto simp: bit_and_iff)
    qed
    then have "x4 OR hi = x4 + hi" by (simp add: disjunctive_add_eq_or)
    then show ?thesis using xb(5) hiu by (simp add: add_no_wrap)
  qed
  have sums: "unat (h0 + x0) = unat h0 + unat x0" "unat (h1 + x1) = unat h1 + unat x1" "unat (h2 + x2) = unat h2 + unat x2"
    "unat (h3 + x3) = unat h3 + unat x3" "unat (h4 + (x4 OR hi)) = unat h4 + (unat x4 + unat hi)"
    using hb xb hiu top by (simp_all add: add_no_wrap)
  have "poly_add h (limbs_of x) hi = (h0 + x0, h1 + x1, h2 + x2, h3 + x3, h4 + (x4 OR hi))" by (simp add: poly_add_def h x(1))
  moreover have "num5 (h0 + x0, h1 + x1, h2 + x2, h3 + x3, h4 + (x4 OR hi)) = num5 h + block_num x hi"
    unfolding num5.simps sums h block_num_def using xn by (simp add: algebra_simps)
  ultimately show ?thesis using sums hb xb hiu by (intro exI conjI) (assumption, simp_all)
qed

lemma poly_block_num:
  assumes ok: "lim_ok h" and r: "r = limbs128 n" and x: "length x = 16" and hi: "hi = 0 \<or> hi = push_bit 24 1"
  shows "num5 (poly_block r h x hi) mod p1305 = (num5 h + block_num x hi) * unat n mod p1305" and "lim_ok (poly_block r h x hi)"
proof -
  obtain x0 x1 x2 x3 x4 where xs: "limbs_of x = (x0, x1, x2, x3, x4)" by (cases "limbs_of x")
  obtain g0 g1 g2 g3 g4 where g: "poly_add h (limbs_of x) hi = (g0, g1, g2, g3, g4)" "unat g0 < 2 ^ 27 + 64" "unat g1 < 2 ^ 27 + 64"
    "unat g2 < 2 ^ 27 + 64" "unat g3 < 2 ^ 27 + 64" "unat g4 < 2 ^ 27 + 64" "num5 (g0, g1, g2, g3, g4) = num5 h + block_num x hi"
    using poly_add_unat [OF ok xs x hi] by blast
  obtain r0 r1 r2 r3 r4 where rs: "limbs128 n = (r0, r1, r2, r3, r4)" by (cases "limbs128 n")
  have rb: "unat r0 < 2 ^ 26" "unat r1 < 2 ^ 26" "unat r2 < 2 ^ 26" "unat r3 < 2 ^ 26" "unat r4 < 2 ^ 26"
    using limbs128_num(2) [of n] limbs128_num(3) [OF rs] unfolding rs by (auto intro: less_trans)
  obtain d0 d1 d2 d3 d4 where d: "poly_mul (g0, g1, g2, g3, g4) (r0, r1, r2, r3, r4) = (d0, d1, d2, d3, d4)"
    "sums (unat5 (g0, g1, g2, g3, g4)) (unat5 (r0, r1, r2, r3, r4)) = (unat d0, unat d1, unat d2, unat d3, unat d4)"
    "unat d0 \<le> 21 * 9007203549708288" "unat d1 \<le> 17 * 9007203549708288" "unat d2 \<le> 13 * 9007203549708288"
    "unat d3 \<le> 9 * 9007203549708288" "unat d4 \<le> 5 * 9007203549708288"
    using poly_mul_unat [OF g(2-6) rb] by blast
  have b: "poly_block r h x hi = poly_carry (d0, d1, d2, d3, d4)" by (simp add: poly_block_def r rs g(1) d(1))
  show "lim_ok (poly_block r h x hi)" unfolding b by (rule poly_carry_num(2) [OF d(3-7)])
  obtain q where q: "num5n (unat d0, unat d1, unat d2, unat d3, unat d4) = num5 (poly_carry (d0, d1, d2, d3, d4)) + p1305 * q"
    using poly_carry_num(1) [OF d(3-7)] by blast
  obtain X where X: "num5n (unat5 (g0, g1, g2, g3, g4)) * num5n (unat5 (r0, r1, r2, r3, r4)) =
      num5n (unat d0, unat d1, unat d2, unat d3, unat d4) + p1305 * X" using sums_num d(2) by metis
  have n: "num5 (r0, r1, r2, r3, r4) = unat n" using limbs128_num(1) [of n] unfolding rs .
  have "(num5 h + block_num x hi) * unat n = num5 (poly_block r h x hi) + p1305 * q + p1305 * X"
    using X unfolding b q num5_unat5 [symmetric] g(7) n .
  then show "num5 (poly_block r h x hi) mod p1305 = (num5 h + block_num x hi) * unat n mod p1305"
    by (simp only: mod_mult_self2)
qed

lemma block_num_whole: "length x = 16 \<Longrightarrow> block_num x (push_bit 24 1) = le_val (x @ [1])"
  by (simp add: block_num_def le_val_append)

lemma block_num_rest: "length x < 16 \<Longrightarrow> block_num (x @ [1] @ replicate (15 - length x) 0) 0 = le_val (x @ [1])"
  using le_val_zeros [of "x @ [1]" "15 - length x"] by (simp add: block_num_def)

lemma poly_blocks_num:
  assumes "r = limbs128 n"
  shows "lim_ok h \<Longrightarrow> lim_ok (poly_blocks r h msg) \<and> num5 (poly_blocks r h msg) mod p1305 = rfc_poly (unat n) (num5 h mod p1305) msg"
proof (induction "length msg" arbitrary: h msg rule: less_induct)
  case less
  show ?case
  proof (cases "msg = []")
    case True
    then show ?thesis using less.prems by (simp add: poly_blocks.simps rfc_poly.simps)
  next
    case ne: False
    define x hi where "x = (if length msg < 16 then msg @ [1] @ replicate (15 - length msg) 0 else take 16 msg)"
      and "hi = (if length msg < 16 then 0 else push_bit 24 1 :: u32)"
    have x: "length x = 16" "hi = 0 \<or> hi = push_bit 24 1" by (simp_all add: x_def hi_def min_def)
    have num: "block_num x hi = le_val (take 16 msg @ [1])"
      using block_num_whole [of "take 16 msg"] block_num_rest [of msg] by (simp add: x_def hi_def min_def)
    have blocks: "poly_blocks r h msg = poly_blocks r (poly_block r h x hi) (drop 16 msg)"
      using ne by (subst poly_blocks.simps) (simp add: x_def hi_def poly_blocks.simps [of r _ "[]"])
    have "length (drop 16 msg) < length msg" using ne by (cases msg) simp_all
    from less.hyps [OF this poly_block_num(2) [OF less.prems assms x]]
    have IH: "lim_ok (poly_blocks r h msg)" "num5 (poly_blocks r h msg) mod p1305 =
        rfc_poly (unat n) (num5 (poly_block r h x hi) mod p1305) (drop 16 msg)" unfolding blocks by simp_all
    have "num5 (poly_block r h x hi) mod p1305 = (num5 h mod p1305 + le_val (take 16 msg @ [1])) * unat n mod p1305"
      unfolding poly_block_num(1) [OF less.prems assms x] num by (metis mod_add_left_eq mod_mult_left_eq)
    then show ?thesis using IH ne by (subst rfc_poly.simps) simp
  qed
qed

section \<open>The tag\<close>

text \<open>The full carry: afterwards all five limbs have at most 26 bits.\<close>

lemma full_carry:
  fixes h0 :: nat
  assumes "h0 < 2 ^ 26" "h1 < 2 ^ 26 + 64" "h2 < 2 ^ 26" "h3 < 2 ^ 26" "h4 < 2 ^ 26"
    and "h1 = a1 + 2 ^ 26 * c1" "a1 < 2 ^ 26" and "h2 + c1 = a2 + 2 ^ 26 * c2" "a2 < 2 ^ 26" and "h3 + c2 = a3 + 2 ^ 26 * c3" "a3 < 2 ^ 26"
    and "h4 + c3 = a4 + 2 ^ 26 * q" "a4 < 2 ^ 26" and "h0 + q * 5 = b0 + 2 ^ 26 * f" "b0 < 2 ^ 26"
  shows "a1 + f < 2 ^ 26"
    and "h0 + 2 ^ 26 * h1 + 2 ^ 52 * h2 + 2 ^ 78 * h3 + 2 ^ 104 * h4 =
      b0 + 2 ^ 26 * (a1 + f) + 2 ^ 52 * a2 + 2 ^ 78 * a3 + 2 ^ 104 * a4 + p1305 * q"
proof -
  have c: "c1 \<le> 1" "c2 \<le> 1" "c3 \<le> 1" "q \<le> 1" "f \<le> 1" using assms by simp_all
  have "f = 0" if "q = 0" using that assms(1,14,15) by simp
  moreover have "a1 < 64" if "q = 1"
  proof -
    have "c3 = 1" using that assms(5,12) c(3) by simp
    then have "c2 = 1" using assms(4,10) c(2) by simp
    then have "c1 = 1" using assms(3,8) c(1) by simp
    then show ?thesis using assms(2,6) by simp
  qed
  moreover have "q = 0 \<or> q = 1" using c(4) by auto
  ultimately show "a1 + f < 2 ^ 26" using assms(7) c(5) by auto
  show "h0 + 2 ^ 26 * h1 + 2 ^ 52 * h2 + 2 ^ 78 * h3 + 2 ^ 104 * h4 =
      b0 + 2 ^ 26 * (a1 + f) + 2 ^ 52 * a2 + 2 ^ 78 * a3 + 2 ^ 104 * a4 + p1305 * q"
    using assms by simp
qed

lemma mod26: "n = n mod 2 ^ 26 + 2 ^ 26 * (n div 2 ^ 26)" "n mod 2 ^ 26 < 2 ^ 26" for n :: nat
  by (simp_all add: mod_mult_div_eq)

lemma drop26: "unat (drop_bit 26 w) = unat w div 2 ^ 26" "unat w div 2 ^ 26 \<le> 63" for w :: u32
proof -
  show "unat (drop_bit 26 w) = unat w div 2 ^ 26" by (rule unat_drop_bit_div)
  have "unat w < 2 ^ 32" using unat_bound [of w] by simp
  then have "unat w div 2 ^ 26 < 64" by (simp add: less_mult_imp_div_less)
  then show "unat w div 2 ^ 26 \<le> 63" by simp
qed

lemma add_carry26: "unat a < 2 ^ 26 + 64 \<Longrightarrow> unat (a + drop_bit 26 b) = unat a + unat b div 2 ^ 26" for a b :: u32
proof -
  assume "unat a < 2 ^ 26 + 64"
  then have "unat a + unat (drop_bit 26 b) < 2 ^ 32" unfolding drop26(1) using drop26(2) [of b] by simp
  then show ?thesis using drop26(1) [of b] by (subst add_no_wrap) simp_all
qed

definition carried5 :: "limbs \<Rightarrow> limbs" where
  "carried5 = (\<lambda>(h0, h1, h2, h3, h4).
     let m = 0x03ffffff;
         h2 = h2 + drop_bit 26 h1; h1 = h1 AND m; h3 = h3 + drop_bit 26 h2; h2 = h2 AND m;
         h4 = h4 + drop_bit 26 h3; h3 = h3 AND m; h0 = h0 + drop_bit 26 h4 * 5; h4 = h4 AND m;
         h1 = h1 + drop_bit 26 h0; h0 = h0 AND m
     in (h0, h1, h2, h3, h4))"

fun lim26 :: "limbs \<Rightarrow> bool" where
  "lim26 (h0, h1, h2, h3, h4) \<longleftrightarrow>
     unat h0 < 2 ^ 26 \<and> unat h1 < 2 ^ 26 \<and> unat h2 < 2 ^ 26 \<and> unat h3 < 2 ^ 26 \<and> unat h4 < 2 ^ 26"

lemma carried5_num:
  assumes "lim_ok h"
  shows "lim26 (carried5 h)" and "\<exists>q. num5 h = num5 (carried5 h) + p1305 * q"
proof -
  obtain h0 h1 h2 h3 h4 where h: "h = (h0, h1, h2, h3, h4)" by (cases h)
  have hb: "unat h0 < 2 ^ 26" "unat h1 < 2 ^ 26 + 64" "unat h2 < 2 ^ 26" "unat h3 < 2 ^ 26" "unat h4 < 2 ^ 26"
    using assms by (simp_all add: h)
  define g2 g3 g4 g0 where "g2 = h2 + drop_bit 26 h1" and "g3 = h3 + drop_bit 26 g2" and "g4 = h4 + drop_bit 26 g3"
    and "g0 = h0 + drop_bit 26 g4 * 5"
  have ch: "carried5 h = (g0 AND 0x03ffffff, (h1 AND 0x03ffffff) + drop_bit 26 g0, g2 AND 0x03ffffff, g3 AND 0x03ffffff, g4 AND 0x03ffffff)"
    unfolding carried5_def h prod.case Let_def g2_def [symmetric] g3_def [symmetric] g4_def [symmetric] g0_def [symmetric] ..
  note d = drop26 and add = add_carry26
  have g: "unat g2 = unat h2 + unat h1 div 2 ^ 26" "unat g3 = unat h3 + unat g2 div 2 ^ 26" "unat g4 = unat h4 + unat g3 div 2 ^ 26"
    unfolding g2_def g3_def g4_def using hb by (simp_all only: add)
  have g0: "unat g0 = unat h0 + unat g4 div 2 ^ 26 * 5"
  proof -
    have "unat (drop_bit 26 g4 * 5) = unat g4 div 2 ^ 26 * 5"
      using d(2) [of g4] unfolding unat_mult_mod d(1) by simp
    moreover have "unat h0 + unat g4 div 2 ^ 26 * 5 < 2 ^ 32" using hb(1) d(2) [of g4] by simp
    ultimately show ?thesis unfolding g0_def by (subst add_no_wrap) simp_all
  qed
  note fc = full_carry [OF hb mod26 trans [OF g(1) [symmetric] mod26(1)] mod26(2) trans [OF g(2) [symmetric] mod26(1)] mod26(2)
    trans [OF g(3) [symmetric] mod26(1)] mod26(2) trans [OF g0 [symmetric] mod26(1)] mod26(2)]
  have h1: "unat ((h1 AND 0x03ffffff) + drop_bit 26 g0) = unat h1 mod 2 ^ 26 + unat g0 div 2 ^ 26"
    unfolding unat_mask26 [symmetric] by (rule add) (use mod26(2) [of "unat h1"] in \<open>simp add: unat_mask26\<close>)
  show "lim26 (carried5 h)" unfolding ch lim26.simps unat_mask26 h1 using fc(1) mod26(2) by simp
  show "\<exists>q. num5 h = num5 (carried5 h) + p1305 * q"
    unfolding ch unfolding h num5.simps unat_mask26 h1 using fc(2) by blast
qed

text \<open>The selection of the limbs less \<open>2\<^sup>1\<^sup>3\<^sup>0 - 5\<close> when there is no borrow.\<close>

definition selected5 :: "limbs \<Rightarrow> limbs" where
  "selected5 = (\<lambda>(h0, h1, h2, h3, h4).
     let m = 0x03ffffff;
         t0 = h0 + 5; t1 = h1 + drop_bit 26 t0; t0 = t0 AND m; t2 = h2 + drop_bit 26 t1; t1 = t1 AND m;
         t3 = h3 + drop_bit 26 t2; t2 = t2 AND m; t4 = h4 + drop_bit 26 t3 - push_bit 26 1; t3 = t3 AND m;
         b = drop_bit 31 t4 - 1;
         sel = (\<lambda>h t. (h AND NOT b) OR (t AND b))
     in (sel h0 t0, sel h1 t1, sel h2 t2, sel h3 t3, sel h4 t4))"

lemma reduced_number:
  fixes h0 :: nat
  assumes "h0 < 2 ^ 26" "h1 < 2 ^ 26" "h2 < 2 ^ 26" "h3 < 2 ^ 26" "h4 < 2 ^ 26"
    and "h0 + 5 = a0 + 2 ^ 26 * c0" "a0 < 2 ^ 26" and "h1 + c0 = a1 + 2 ^ 26 * c1" "a1 < 2 ^ 26" and "h2 + c1 = a2 + 2 ^ 26 * c2" "a2 < 2 ^ 26"
    and "h3 + c2 = a3 + 2 ^ 26 * c3" "a3 < 2 ^ 26"
  defines "n \<equiv> h0 + 2 ^ 26 * h1 + 2 ^ 52 * h2 + 2 ^ 78 * h3 + 2 ^ 104 * h4"
  shows "h4 + c3 \<le> 2 ^ 26"
    and "h4 + c3 = 2 ^ 26 \<Longrightarrow> n mod p1305 = a0 + 2 ^ 26 * a1 + 2 ^ 52 * a2 + 2 ^ 78 * a3"
    and "h4 + c3 < 2 ^ 26 \<Longrightarrow> n mod p1305 = n"
proof -
  have c: "c0 \<le> 1" "c1 \<le> 1" "c2 \<le> 1" "c3 \<le> 1" using assms by simp_all
  then show "h4 + c3 \<le> 2 ^ 26" using assms(5) by simp
  have sum: "n + 5 = a0 + 2 ^ 26 * a1 + 2 ^ 52 * a2 + 2 ^ 78 * a3 + 2 ^ 104 * (h4 + c3)" unfolding n_def using assms by simp
  have low: "a0 + 2 ^ 26 * a1 + 2 ^ 52 * a2 + 2 ^ 78 * a3 < 2 ^ 104" using assms(7,9,11,13) by simp
  show "n mod p1305 = a0 + 2 ^ 26 * a1 + 2 ^ 52 * a2 + 2 ^ 78 * a3" if "h4 + c3 = 2 ^ 26"
  proof -
    have "n = a0 + 2 ^ 26 * a1 + 2 ^ 52 * a2 + 2 ^ 78 * a3 + p1305" using sum unfolding that by simp
    moreover have "a0 + 2 ^ 26 * a1 + 2 ^ 52 * a2 + 2 ^ 78 * a3 < p1305" using low by simp
    ultimately show ?thesis by simp
  qed
  show "n mod p1305 = n" if "h4 + c3 < 2 ^ 26"
  proof -
    have "n < p1305" using sum low that by simp
    then show ?thesis by simp
  qed
qed

lemma selected5_num:
  assumes "lim26 h"
  shows "lim26 (selected5 h)" and "num5 (selected5 h) = num5 h mod p1305"
proof -
  obtain h0 h1 h2 h3 h4 where h: "h = (h0, h1, h2, h3, h4)" by (cases h)
  have hb: "unat h0 < 2 ^ 26" "unat h1 < 2 ^ 26" "unat h2 < 2 ^ 26" "unat h3 < 2 ^ 26" "unat h4 < 2 ^ 26"
    using assms by (simp_all add: h)
  define t0 t1 t2 t3 t4 where "t0 = h0 + 5" and "t1 = h1 + drop_bit 26 t0" and "t2 = h2 + drop_bit 26 t1"
    and "t3 = h3 + drop_bit 26 t2" and "t4 = h4 + drop_bit 26 t3 - push_bit 26 1"
  define b where "b = drop_bit 31 t4 - 1"
  have sh: "selected5 h = ((h0 AND NOT b) OR ((t0 AND 0x03ffffff) AND b), (h1 AND NOT b) OR ((t1 AND 0x03ffffff) AND b),
      (h2 AND NOT b) OR ((t2 AND 0x03ffffff) AND b), (h3 AND NOT b) OR ((t3 AND 0x03ffffff) AND b), (h4 AND NOT b) OR (t4 AND b))"
    unfolding selected5_def h prod.case Let_def t0_def [symmetric] t1_def [symmetric] t2_def [symmetric] t3_def [symmetric]
      t4_def [symmetric] b_def [symmetric] ..
  have add: "unat (a + drop_bit 26 b) = unat a + unat b div 2 ^ 26" if "unat a < 2 ^ 26" for a b :: u32
    by (rule add_carry26) (use that in simp)
  have t0: "unat t0 = unat h0 + 5" unfolding t0_def using hb(1) by (subst add_no_wrap) simp_all
  have t: "unat t1 = unat h1 + unat t0 div 2 ^ 26" "unat t2 = unat h2 + unat t1 div 2 ^ 26" "unat t3 = unat h3 + unat t2 div 2 ^ 26"
    unfolding t1_def t2_def t3_def using hb by (simp_all only: add)
  have s: "unat (h4 + drop_bit 26 t3) = unat h4 + unat t3 div 2 ^ 26" by (rule add [OF hb(5)])
  note rn = reduced_number [OF hb trans [OF t0 [symmetric] mod26(1)] mod26(2) trans [OF t(1) [symmetric] mod26(1)] mod26(2)
    trans [OF t(2) [symmetric] mod26(1)] mod26(2) trans [OF t(3) [symmetric] mod26(1)] mod26(2)]
  consider (above) "unat h4 + unat t3 div 2 ^ 26 = 2 ^ 26" | (below) "unat h4 + unat t3 div 2 ^ 26 < 2 ^ 26" using rn(1) by fastforce
  then have "lim26 (selected5 h) \<and> num5 (selected5 h) = num5 h mod p1305"
  proof cases
    case above
    then have "unat (h4 + drop_bit 26 t3) = unat (push_bit 26 1 :: u32)" unfolding s by simp
    then have t4: "t4 = 0" unfolding t4_def word_unat_eq_iff [symmetric] by simp
    then have "b = - 1" by (simp add: b_def)
    then have sel: "selected5 h = (t0 AND 0x03ffffff, t1 AND 0x03ffffff, t2 AND 0x03ffffff, t3 AND 0x03ffffff, 0)"
      unfolding sh t4 by simp
    have "num5 (selected5 h) = num5 h mod p1305"
      unfolding sel unfolding h num5.simps unat_mask26 rn(2) [OF above] by simp
    moreover have "lim26 (selected5 h)" unfolding sel lim26.simps unat_mask26 using mod26(2) by simp
    ultimately show ?thesis by simp
  next
    case below
    have "drop_bit 31 t4 = 1"
    proof -
      have "unat (h4 + drop_bit 26 t3) < unat (push_bit 26 1 :: u32)" using below unfolding s by simp
      then have "\<not> push_bit 26 1 \<le> h4 + drop_bit 26 t3" unfolding word_le_nat_alt by simp
      then have "unat t4 = unat (h4 + drop_bit 26 t3) + 2 ^ 32 - unat (push_bit 26 1 :: u32)"
        unfolding t4_def by (simp add: unat_sub_if' word_le_nat_alt)
      then have "unat t4 = unat h4 + unat t3 div 2 ^ 26 + 2 ^ 32 - 2 ^ 26" unfolding s by simp
      then have "2 ^ 31 \<le> unat t4" by simp
      moreover have "unat t4 < 2 ^ 32" using unat_bound [of t4] by simp
      ultimately have "unat t4 div 2 ^ 31 = 1" by (intro div_nat_eqI) simp_all
      then show ?thesis by (simp add: word_unat_eq_iff unat_drop_bit_div)
    qed
    then have "b = 0" by (simp add: b_def)
    then have sel: "selected5 h = h" unfolding sh unfolding h by simp
    have "num5 h mod p1305 = num5 h" unfolding h num5.simps by (rule rn(3) [OF below])
    then show ?thesis unfolding sel using assms by simp
  qed
  then show "lim26 (selected5 h)" "num5 (selected5 h) = num5 h mod p1305" by simp_all
qed

text \<open>The limbs put together into four words of 32 bits.\<close>

lemma bit_limb:
  assumes "lim26 (z0, z1, z2, z3, z4)"
  shows "bit z0 k \<longleftrightarrow> k < 26 \<and> bit (num5 (z0, z1, z2, z3, z4)) k"
    and "bit z1 k \<longleftrightarrow> k < 26 \<and> bit (num5 (z0, z1, z2, z3, z4)) (26 + k)"
    and "bit z2 k \<longleftrightarrow> k < 26 \<and> bit (num5 (z0, z1, z2, z3, z4)) (52 + k)"
    and "bit z3 k \<longleftrightarrow> k < 26 \<and> bit (num5 (z0, z1, z2, z3, z4)) (78 + k)"
    and "bit z4 k \<longleftrightarrow> k < 26 \<and> bit (num5 (z0, z1, z2, z3, z4)) (104 + k)"
proof -
  let ?n = "num5 (z0, z1, z2, z3, z4)"
  have b: "unat z0 < 2 ^ 26" "unat z1 < 2 ^ 26" "unat z2 < 2 ^ 26" "unat z3 < 2 ^ 26" "unat z4 < 2 ^ 26" using assms by simp_all
  have at: "bit z k \<longleftrightarrow> k < 26 \<and> bit n (p + k)" if "unat z = n div 2 ^ p mod 2 ^ 26" for z :: u32 and n p :: nat
  proof -
    have "bit z k \<longleftrightarrow> bit (unat z) k" by (simp add: bit_unsigned_iff bit_imp_possible_bit)
    also have "unat z = take_bit 26 (drop_bit p n)" using that by (simp add: take_bit_eq_mod drop_bit_eq_div)
    finally show ?thesis by (simp add: bit_take_bit_iff bit_drop_bit_eq)
  qed
  have dg: "z = n div 2 ^ p mod 2 ^ 26" if "n = l + 2 ^ p * (z + 2 ^ 26 * u)" "l < 2 ^ p" "z < 2 ^ 26" for n l p z u :: nat
  proof -
    have "n div 2 ^ p = z + 2 ^ 26 * u" unfolding that(1) using that(2) by simp
    then show ?thesis using that(3) by simp
  qed
  have "unat z0 = ?n div 2 ^ 0 mod 2 ^ 26"
    by (rule dg [of _ 0 _ _ "unat z1 + 2 ^ 26 * unat z2 + 2 ^ 52 * unat z3 + 2 ^ 78 * unat z4"]) (use b in simp_all)
  moreover have "unat z1 = ?n div 2 ^ 26 mod 2 ^ 26"
    by (rule dg [of _ "unat z0" _ _ "unat z2 + 2 ^ 26 * unat z3 + 2 ^ 52 * unat z4"]) (use b in simp_all)
  moreover have "unat z2 = ?n div 2 ^ 52 mod 2 ^ 26"
    by (rule dg [of _ "unat z0 + 2 ^ 26 * unat z1" _ _ "unat z3 + 2 ^ 26 * unat z4"]) (use b in simp_all)
  moreover have "unat z3 = ?n div 2 ^ 78 mod 2 ^ 26"
    by (rule dg [of _ "unat z0 + 2 ^ 26 * unat z1 + 2 ^ 52 * unat z2" _ _ "unat z4"]) (use b in simp_all)
  moreover have "unat z4 = ?n div 2 ^ 104 mod 2 ^ 26"
    by (rule dg [of _ "unat z0 + 2 ^ 26 * unat z1 + 2 ^ 52 * unat z2 + 2 ^ 78 * unat z3" _ _ 0]) (use b in simp_all)
  ultimately have "unat z0 = ?n div 2 ^ 0 mod 2 ^ 26" "unat z1 = ?n div 2 ^ 26 mod 2 ^ 26" "unat z2 = ?n div 2 ^ 52 mod 2 ^ 26"
    "unat z3 = ?n div 2 ^ 78 mod 2 ^ 26" "unat z4 = ?n div 2 ^ 104 mod 2 ^ 26" .
  from at [OF this(1)] at [OF this(2)] at [OF this(3)] at [OF this(4)] at [OF this(5)]
  show "bit z0 k \<longleftrightarrow> k < 26 \<and> bit ?n k" "bit z1 k \<longleftrightarrow> k < 26 \<and> bit ?n (26 + k)" "bit z2 k \<longleftrightarrow> k < 26 \<and> bit ?n (52 + k)"
    "bit z3 k \<longleftrightarrow> k < 26 \<and> bit ?n (78 + k)" "bit z4 k \<longleftrightarrow> k < 26 \<and> bit ?n (104 + k)" by simp_all
qed

lemma packed_words:
  assumes "lim26 (z0, z1, z2, z3, z4)"
  defines "n \<equiv> num5 (z0, z1, z2, z3, z4)"
  shows "unat (z0 OR push_bit 26 z1) = n mod 2 ^ 32" and "unat (drop_bit 6 z1 OR push_bit 20 z2) = n div 2 ^ 32 mod 2 ^ 32"
    and "unat (drop_bit 12 z2 OR push_bit 14 z3) = n div 2 ^ 64 mod 2 ^ 32"
    and "unat (drop_bit 18 z3 OR push_bit 8 z4) = n div 2 ^ 96 mod 2 ^ 32"
proof -
  note z = bit_limb [OF assms(1), folded n_def]
  have word: "unat w = n div 2 ^ p mod 2 ^ 32" if "\<And>k. k < 32 \<Longrightarrow> bit w k = bit n (p + k)" for w :: u32 and p
  proof -
    have "unat w = take_bit 32 (drop_bit p n)"
    proof (rule bit_eqI)
      fix k
      show "bit (unat w) k = bit (take_bit 32 (drop_bit p n)) k"
        using that [of k] bit_imp_le_length [of w k] by (auto simp: bit_unsigned_iff bit_take_bit_iff bit_drop_bit_eq)
    qed
    then show ?thesis by (simp add: take_bit_eq_mod drop_bit_eq_div)
  qed
  have "unat (z0 OR push_bit 26 z1) = n div 2 ^ 0 mod 2 ^ 32"
    by (rule word) (auto simp: bit_or_iff bit_push_bit_iff z)
  then show "unat (z0 OR push_bit 26 z1) = n mod 2 ^ 32" by simp
  have *: "p + (k - m) = q + k" if "m \<le> k" "p = q + m" for p k m q :: nat using that by simp
  show "unat (drop_bit 6 z1 OR push_bit 20 z2) = n div 2 ^ 32 mod 2 ^ 32"
  proof (rule word)
    fix k :: nat assume k: "k < 32"
    show "bit (drop_bit 6 z1 OR push_bit 20 z2) k = bit n (32 + k)"
    proof (cases "k < 20")
      case False
      then have "52 + (k - 20) = 32 + k" by simp
      then show ?thesis using k False by (auto simp: bit_or_iff bit_push_bit_iff bit_drop_bit_eq z)
    qed (auto simp: bit_or_iff bit_push_bit_iff bit_drop_bit_eq z add.commute)
  qed
  show "unat (drop_bit 12 z2 OR push_bit 14 z3) = n div 2 ^ 64 mod 2 ^ 32"
  proof (rule word)
    fix k :: nat assume k: "k < 32"
    show "bit (drop_bit 12 z2 OR push_bit 14 z3) k = bit n (64 + k)"
    proof (cases "k < 14")
      case False
      then have "78 + (k - 14) = 64 + k" by simp
      then show ?thesis using k False by (auto simp: bit_or_iff bit_push_bit_iff bit_drop_bit_eq z)
    qed (auto simp: bit_or_iff bit_push_bit_iff bit_drop_bit_eq z)
  qed
  show "unat (drop_bit 18 z3 OR push_bit 8 z4) = n div 2 ^ 96 mod 2 ^ 32"
  proof (rule word)
    fix k :: nat assume k: "k < 32"
    show "bit (drop_bit 18 z3 OR push_bit 8 z4) k = bit n (96 + k)"
    proof (cases "k < 8")
      case False
      then have "104 + (k - 8) = 96 + k" by simp
      then show ?thesis using k False by (auto simp: bit_or_iff bit_push_bit_iff bit_drop_bit_eq z)
    qed (auto simp: bit_or_iff bit_push_bit_iff bit_drop_bit_eq z)
  qed
qed

lemma mod32: "n = n mod 2 ^ 32 + 2 ^ 32 * (n div 2 ^ 32)" "n mod 2 ^ 32 < 2 ^ 32" for n :: nat
  by (simp_all add: mod_mult_div_eq)

text \<open>Adding the second half of the key, with the carries in 64 bits.\<close>

lemma sum_words:
  fixes n0 :: nat
  assumes "n0 + x0 = a0 + 2 ^ 32 * c0" "a0 < 2 ^ 32" and "n1 + x1 + c0 = a1 + 2 ^ 32 * c1" "a1 < 2 ^ 32"
    and "n2 + x2 + c1 = a2 + 2 ^ 32 * c2" "a2 < 2 ^ 32" and "n3 + x3 + c2 = a3 + 2 ^ 32 * c3" "a3 < 2 ^ 32"
  shows "a0 + 2 ^ 32 * a1 + 2 ^ 64 * a2 + 2 ^ 96 * a3 =
    ((n0 + 2 ^ 32 * n1 + 2 ^ 64 * n2 + 2 ^ 96 * n3) + (x0 + 2 ^ 32 * x1 + 2 ^ 64 * x2 + 2 ^ 96 * x3)) mod 2 ^ 128"
proof -
  define r where "r = a0 + 2 ^ 32 * a1 + 2 ^ 64 * a2 + 2 ^ 96 * a3"
  have "(n0 + 2 ^ 32 * n1 + 2 ^ 64 * n2 + 2 ^ 96 * n3) + (x0 + 2 ^ 32 * x1 + 2 ^ 64 * x2 + 2 ^ 96 * x3) = r + 2 ^ 128 * c3"
    unfolding r_def using assms by simp
  moreover have "r < 2 ^ 128" unfolding r_def using assms(2,4,6,8) by simp
  ultimately show ?thesis unfolding r_def [symmetric] by simp
qed

lemma digits32_sum:
  fixes n :: nat
  assumes "n = a0 + 2 ^ 32 * q1" "q1 = a1 + 2 ^ 32 * q2" "q2 = a2 + 2 ^ 32 * q3" "q3 = a3 + 2 ^ 32 * c"
  shows "n = (a0 + 2 ^ 32 * a1 + 2 ^ 64 * a2 + 2 ^ 96 * a3) + 2 ^ 128 * c"
  using assms by simp

lemma digits32:
  fixes n :: nat
  shows "n mod 2 ^ 32 + 2 ^ 32 * (n div 2 ^ 32 mod 2 ^ 32) + 2 ^ 64 * (n div 2 ^ 64 mod 2 ^ 32) + 2 ^ 96 * (n div 2 ^ 96 mod 2 ^ 32) =
    n mod 2 ^ 128"
proof -
  define q1 q2 q3 where "q1 = n div 2 ^ 32" and "q2 = n div 2 ^ 64" and "q3 = n div 2 ^ 96"
  have "q2 = q1 div 2 ^ 32" "q3 = q2 div 2 ^ 32" by (simp_all add: q1_def q2_def q3_def div_mult2_eq [symmetric])
  then have "n = n mod 2 ^ 32 + 2 ^ 32 * q1" "q1 = q1 mod 2 ^ 32 + 2 ^ 32 * q2" "q2 = q2 mod 2 ^ 32 + 2 ^ 32 * q3"
    "q3 = q3 mod 2 ^ 32 + 2 ^ 32 * (q3 div 2 ^ 32)"
    using mod32(1) [of n] mod32(1) [of q1] mod32(1) [of q2] mod32(1) [of q3] by (simp_all add: q1_def)
  then have "n = (n mod 2 ^ 32 + 2 ^ 32 * (q1 mod 2 ^ 32) + 2 ^ 64 * (q2 mod 2 ^ 32) + 2 ^ 96 * (q3 mod 2 ^ 32)) + 2 ^ 128 * (q3 div 2 ^ 32)"
    by (rule digits32_sum)
  moreover have "n mod 2 ^ 32 + 2 ^ 32 * (q1 mod 2 ^ 32) + 2 ^ 64 * (q2 mod 2 ^ 32) + 2 ^ 96 * (q3 mod 2 ^ 32) < 2 ^ 128"
    using mod32(2) [of n] mod32(2) [of q1] mod32(2) [of q2] mod32(2) [of q3] by simp
  ultimately show ?thesis unfolding q1_def [symmetric] q2_def [symmetric] q3_def [symmetric]
    by (metis mod_less mod_mult_self2)
qed

definition finish5 :: "byte list \<Rightarrow> limbs \<Rightarrow> byte list" where
  "finish5 key32 = (\<lambda>(h0, h1, h2, h3, h4).
     let w0 = h0 OR push_bit 26 h1; w1 = drop_bit 6 h1 OR push_bit 20 h2;
         w2 = drop_bit 12 h2 OR push_bit 14 h3; w3 = drop_bit 18 h3 OR push_bit 8 h4;
         x = (\<lambda>i. ucast (word_of_le (take 4 (drop (16 + 4 * i) key32)) :: u32) :: u64);
         d0 = ucast w0 + x 0; d1 = ucast w1 + x 1 + drop_bit 32 d0;
         d2 = ucast w2 + x 2 + drop_bit 32 d1; d3 = ucast w3 + x 3 + drop_bit 32 d2
     in bytes32 [ucast d0, ucast d1, ucast d2, ucast d3])"

lemma poly_final_steps: "poly_final key h = finish5 key (selected5 (carried5 h))"
  by (cases h) (simp only: poly_final_def finish5_def carried5_def selected5_def Let_def prod.case)

lemma le_val_inject: "le_val xs = le_val ys \<Longrightarrow> length xs = length ys \<Longrightarrow> xs = ys"
proof (induction xs arbitrary: ys)
  case (Cons x xs)
  then obtain y ys' where ys: "ys = y # ys'" by (cases ys) auto
  have b: "unat x < 256" "unat y < 256" using unat_bound [of x] unat_bound [of y] by simp_all
  have eq: "unat x + 256 * le_val xs = unat y + 256 * le_val ys'" using Cons.prems(1) by (simp add: ys)
  have "unat x = (unat x + 256 * le_val xs) mod 256" using b by simp
  also have "\<dots> = unat y" unfolding eq using b by simp
  finally have "unat x = unat y" "le_val xs = le_val ys'" using eq by simp_all
  then show ?case using Cons.IH [of ys'] Cons.prems(2) by (simp add: ys word_unat_eq_iff)
qed simp

lemma le_val_bytes32: "le_val (bytes32 [a, b, c, d]) = unat a + 2 ^ 32 * unat b + 2 ^ 64 * unat c + 2 ^ 96 * unat d"
  by (simp add: bytes32_def le_val_append le_val_bytes_le)

lemma key_words:
  assumes "length key = 32"
  shows "le_val (take 4 (drop 16 key)) + 2 ^ 32 * le_val (take 4 (drop 20 key)) + 2 ^ 64 * le_val (take 4 (drop 24 key)) +
    2 ^ 96 * le_val (take 4 (drop 28 key)) = le_val (drop 16 key)"
proof -
  have cut: "drop n key = take 4 (drop n key) @ drop (n + 4) key" for n
    by (metis add.commute append_take_drop_id drop_drop)
  have four: "le_val (drop n key) = le_val (take 4 (drop n key)) + 2 ^ 32 * le_val (drop (n + 4) key)" if "n + 4 \<le> 32" for n
  proof -
    have "le_val (drop n key) = le_val (take 4 (drop n key)) + 256 ^ length (take 4 (drop n key)) * le_val (drop (n + 4) key)"
      by (subst cut) (rule le_val_append)
    then show ?thesis using assms that by simp
  qed
  have f: "le_val (drop 16 key) = le_val (take 4 (drop 16 key)) + 2 ^ 32 * le_val (drop 20 key)"
    "le_val (drop 20 key) = le_val (take 4 (drop 20 key)) + 2 ^ 32 * le_val (drop 24 key)"
    "le_val (drop 24 key) = le_val (take 4 (drop 24 key)) + 2 ^ 32 * le_val (drop 28 key)"
    "le_val (drop 28 key) = le_val (take 4 (drop 28 key)) + 2 ^ 32 * le_val (drop 32 key)"
    using four [of 16] four [of 20] four [of 24] four [of 28] by (simp_all del: drop_drop)
  have "le_val (drop 32 key) = 0" using assms by simp
  then show ?thesis using digits32_sum [OF f] by simp
qed

lemma finish5_num:
  assumes z: "lim26 z" and key: "length key = 32"
  shows "le_val (finish5 key z) = (num5 z + le_val (drop 16 key)) mod 2 ^ 128"
proof -
  obtain z0 z1 z2 z3 z4 where zs: "z = (z0, z1, z2, z3, z4)" by (cases z)
  define w0 w1 w2 w3 where "w0 = z0 OR push_bit 26 z1" and "w1 = drop_bit 6 z1 OR push_bit 20 z2"
    and "w2 = drop_bit 12 z2 OR push_bit 14 z3" and "w3 = drop_bit 18 z3 OR push_bit 8 z4"
  define x where "x = (\<lambda>i. ucast (word_of_le (take 4 (drop (16 + 4 * i) key)) :: u32) :: u64)"
  define d0 d1 d2 d3 where "d0 = ucast w0 + x 0" and "d1 = ucast w1 + x 1 + drop_bit 32 d0"
    and "d2 = ucast w2 + x 2 + drop_bit 32 d1" and "d3 = ucast w3 + x 3 + drop_bit 32 d2"
  have f: "finish5 key z = bytes32 [ucast d0, ucast d1, ucast d2, ucast d3]"
    unfolding finish5_def zs prod.case Let_def w0_def [symmetric] w1_def [symmetric] w2_def [symmetric] w3_def [symmetric]
      x_def [symmetric] d0_def [symmetric] d1_def [symmetric] d2_def [symmetric] d3_def [symmetric] ..
  have xl: "unat (x i) = le_val (take 4 (drop (16 + 4 * i) key))" for i
    unfolding x_def by (simp add: unat_ucast_up unat_word_of_le)
  have small: "unat (ucast w :: u64) = unat w" "unat w < 2 ^ 32" "unat (x i) < 2 ^ 32" "unat (drop_bit 32 d) = unat d div 2 ^ 32"
    "unat d div 2 ^ 32 < 2 ^ 32" for w :: u32 and i and d :: u64
  proof -
    show "unat (ucast w :: u64) = unat w" by (rule unat_ucast_up) simp
    show "unat w < 2 ^ 32" using unat_bound [of w] by simp
    show "unat (x i) < 2 ^ 32" unfolding x_def using unat_bound [of "word_of_le (take 4 (drop (16 + 4 * i) key)) :: u32"]
      by (subst unat_ucast_up) simp_all
    show "unat (drop_bit 32 d) = unat d div 2 ^ 32" by (rule unat_drop_bit_div)
    show "unat d div 2 ^ 32 < 2 ^ 32" using unat_bound [of d] by (simp add: less_mult_imp_div_less)
  qed
  have two: "unat (ucast w + x i) = unat w + unat (x i)" for w :: u32 and i
    using small(2) [of w] small(3) [of i] by (subst add_no_wrap) (simp_all only: small(1), simp)
  have three: "unat (ucast w + x i + drop_bit 32 d) = unat w + unat (x i) + unat d div 2 ^ 32" for w :: u32 and i d
    using small(2) [of w] small(3) [of i] small(5) [of d] by (subst add_no_wrap) (simp_all only: two small(4), simp)
  have lo: "unat (ucast d :: u32) = unat d mod 2 ^ 32" for d :: u64 by (simp add: unat_ucast_mod)
  have e0: "unat w0 + unat (x 0) = unat d0 mod 2 ^ 32 + 2 ^ 32 * (unat d0 div 2 ^ 32)"
    unfolding two [symmetric] d0_def [symmetric] by (rule mod32(1))
  have e1: "unat w1 + unat (x 1) + unat d0 div 2 ^ 32 = unat d1 mod 2 ^ 32 + 2 ^ 32 * (unat d1 div 2 ^ 32)"
    unfolding three [symmetric] d1_def [symmetric] by (rule mod32(1))
  have e2: "unat w2 + unat (x 2) + unat d1 div 2 ^ 32 = unat d2 mod 2 ^ 32 + 2 ^ 32 * (unat d2 div 2 ^ 32)"
    unfolding three [symmetric] d2_def [symmetric] by (rule mod32(1))
  have e3: "unat w3 + unat (x 3) + unat d2 div 2 ^ 32 = unat d3 mod 2 ^ 32 + 2 ^ 32 * (unat d3 div 2 ^ 32)"
    unfolding three [symmetric] d3_def [symmetric] by (rule mod32(1))
  note sum_words [OF e0 mod32(2) e1 mod32(2) e2 mod32(2) e3 mod32(2)]
  also have "unat w0 + 2 ^ 32 * unat w1 + 2 ^ 64 * unat w2 + 2 ^ 96 * unat w3 = num5 z mod 2 ^ 128"
    using digits32 [of "num5 z"] packed_words [of z0 z1 z2 z3 z4] z
    unfolding zs w0_def w1_def w2_def w3_def by (simp only:)
  also have "unat (x 0) + 2 ^ 32 * unat (x 1) + 2 ^ 64 * unat (x 2) + 2 ^ 96 * unat (x 3) = le_val (drop 16 key)"
    unfolding xl using key_words [OF key] by simp
  finally show ?thesis unfolding f le_val_bytes32 lo by (simp only: mod_add_left_eq)
qed

lemma poly_final_num:
  assumes "lim_ok h" and "length key = 32"
  shows "le_val (poly_final key h) = (num5 h mod p1305 + le_val (drop 16 key)) mod 2 ^ 128"
proof -
  obtain q where "num5 h = num5 (carried5 h) + p1305 * q" using carried5_num(2) [OF assms(1)] by blast
  then have "num5 (selected5 (carried5 h)) = num5 h mod p1305"
    using selected5_num(2) [OF carried5_num(1) [OF assms(1)]] by (simp only: mod_mult_self2)
  then show ?thesis
    unfolding poly_final_steps finish5_num [OF selected5_num(1) [OF carried5_num(1) [OF assms(1)]] assms(2)] by (simp only:)
qed

section \<open>The authenticator\<close>

lemma rfc_poly_bound: "a < p1305 \<Longrightarrow> rfc_poly r a msg < p1305"
proof (induction "length msg" arbitrary: a msg rule: less_induct)
  case less
  show ?case
  proof (cases "msg = []")
    case False
    then have "length (drop 16 msg) < length msg" by (cases msg) simp_all
    then show ?thesis using less.hyps False by (subst rfc_poly.simps) simp
  qed (use less.prems in \<open>simp add: rfc_poly.simps\<close>)
qed

lemma poly_tag:
  assumes "length key = 32"
  shows "le_val (poly_final key (poly_blocks (poly_r key) (0, 0, 0, 0, 0) msg)) = rfc_tag key msg"
proof -
  have r: "poly_r key = limbs128 (word_of_le (take 16 key) AND 0x0ffffffc0ffffffc0ffffffc0fffffff)"
    using assms by (intro poly_r_128) simp
  have z: "lim_ok (0, 0, 0, 0, 0)" "num5 (0, 0, 0, 0, 0) mod p1305 = 0" by simp_all
  from poly_blocks_num [OF r z(1), of msg] show ?thesis
    unfolding rfc_tag_def rfc_clamp_def poly_final_num [OF conjunct1 [OF poly_blocks_num [OF r z(1), of msg]] assms] z(2) by (simp only:)
qed

text \<open>
  The authenticator is the one of RFC 8439: its 16 bytes are the number that the polynomial over the
  blocks gives modulo \<open>2\<^sup>1\<^sup>3\<^sup>0 - 5\<close>, plus the second half of the key, modulo \<open>2\<^sup>1\<^sup>2\<^sup>8\<close>.
\<close>

lemma BRPoly1305_tag: "length key = 32 \<Longrightarrow> length (BRPoly1305 key msg) = 16 \<and> le_val (BRPoly1305 key msg) = rfc_tag key msg"
  by (simp add: BRPoly1305_def poly_tag)

lemma poly_blocks_append: "length xs = 16 * m \<Longrightarrow> poly_blocks r h (xs @ ys) = poly_blocks r (poly_blocks r h xs) ys"
proof (induction m arbitrary: xs h)
  case 0
  then show ?case by (simp add: poly_blocks.simps [of _ _ "[]"])
next
  case (Suc m)
  then have l: "16 \<le> length xs" "xs \<noteq> []" by auto
  have whole: "poly_blocks r h zs = poly_blocks r (poly_block r h (take 16 zs) (push_bit 24 1)) (drop 16 zs)" if "16 \<le> length zs" for zs
    using that by (subst poly_blocks.simps) (auto simp del: push_bit_of_1)
  have "poly_blocks r h (xs @ ys) = poly_blocks r (poly_block r h (take 16 xs) (push_bit 24 1)) (drop 16 xs @ ys)"
    "poly_blocks r h xs = poly_blocks r (poly_block r h (take 16 xs) (push_bit 24 1)) (drop 16 xs)"
    using whole [of "xs @ ys"] whole [of xs] l by simp_all
  then show ?case using Suc.IH [of "drop 16 xs"] Suc.prems by simp
qed

definition pad16 :: "byte list \<Rightarrow> byte list" where
  "pad16 x = x @ replicate ((16 - length x mod 16) mod 16) 0"

lemma length_pad16: "\<exists>m. length (pad16 x) = 16 * m"
proof -
  define q r where "q = length x div 16" and "r = length x mod 16"
  have x: "length x = 16 * q + r" "r < 16" by (simp_all add: q_def r_def)
  have "length (pad16 x) = 16 * (if r = 0 then q else q + 1)"
    unfolding pad16_def length_append length_replicate r_def [symmetric] using x by simp
  then show ?thesis ..
qed

lemma aead_absorb_pad: "aead_absorb r h x = poly_blocks r h (pad16 x)"
proof -
  have w: "length (take (length x div 16 * 16) x) = 16 * (length x div 16)" by simp
  show ?thesis
  proof (cases "length x mod 16 = 0")
    case True
    then have "length x div 16 * 16 = length x" by (metis add.right_neutral div_mult_mod_eq)
    then show ?thesis using True by (simp add: aead_absorb_def pad16_def Let_def)
  next
    case False
    then have "pad16 x = take (length x div 16 * 16) x @ (drop (length x div 16 * 16) x @ replicate (16 - length x mod 16) 0)"
      unfolding pad16_def append.assoc [symmetric] append_take_drop_id by simp
    then show ?thesis using False by (simp add: aead_absorb_def Let_def poly_blocks_append [OF w])
  qed
qed

section \<open>Authenticated encryption\<close>

text \<open>RFC 8439, section 2.3: the block with a 32-bit counter and a 96-bit nonce, and section 2.8: what is authenticated.\<close>

definition rfc_block :: "byte list \<Rightarrow> byte list \<Rightarrow> nat \<Rightarrow> byte list" where
  "rfc_block key nonce n = chacha_block (words32 (chacha_sigma @ key) @ [word_of_nat n] @ words32 nonce)"

definition rfc_mac_data :: "byte list \<Rightarrow> byte list \<Rightarrow> byte list" where
  "rfc_mac_data ad c = pad16 ad @ pad16 c @ bytes_le 8 (word_of_nat (length ad) :: u64) @ bytes_le 8 (word_of_nat (length c) :: u64)"

definition rfc_aead_tag :: "byte list \<Rightarrow> byte list \<Rightarrow> byte list \<Rightarrow> byte list \<Rightarrow> nat" where
  "rfc_aead_tag key nonce ad c = rfc_tag (take 32 (rfc_block key nonce 0)) (rfc_mac_data ad c)"

definition rfc_stream :: "byte list \<Rightarrow> byte list \<Rightarrow> byte list \<Rightarrow> byte list" where
  "rfc_stream key nonce c = map (\<lambda>i. c ! i XOR rfc_block key nonce (1 + i div 64) ! (i mod 64)) [0..<length c]"

lemma length_qr: "length (qr a b c d x) = length x"
  by (simp add: qr_def Let_def)

lemma length_chacha_double: "length (chacha_double x) = length x"
  by (simp add: chacha_double_def length_qr)

lemma length_chacha_block: "length (chacha_block s) = 4 * length s"
proof -
  have "length ((chacha_double ^^ n) s) = length s" for n by (induction n) (simp_all add: length_chacha_double)
  then show ?thesis by (simp add: chacha_block_def)
qed

lemma chacha_init_rfc:
  assumes "length nonce = 12" and "n < 2 ^ 32"
  shows "chacha_block (chacha_init key (drop 4 nonce) (aead_counter nonce + word_of_nat n)) = rfc_block key nonce n"
proof -
  let ?t = "word_of_le (take 4 nonce) :: u32" and ?c = "aead_counter nonce + word_of_nat n"
  obtain a b c d rest where nonce: "nonce = a # b # c # d # rest" using assms(1) by (auto simp: numeral_eq_Suc length_Suc_conv)
  have split: "words32 nonce = ?t # words32 (drop 4 nonce)" by (simp add: nonce)
  have "unat (push_bit 32 (ucast ?t) :: u64) = unat ?t * 2 ^ 32"
  proof -
    have "unat ?t < 2 ^ 32" using unat_bound [of ?t] by simp
    then show ?thesis by (simp add: unat_push_bit_mod unat_ucast_up)
  qed
  then have u: "unat (aead_counter nonce) = unat ?t * 2 ^ 32" unfolding aead_counter_def .
  have nn: "unat (word_of_nat n :: u64) = n" using assms(2) by (intro unat_of_nat_small) simp
  have "unat ?t < 2 ^ 32" using unat_bound [of ?t] by simp
  then have c: "unat ?c = unat ?t * 2 ^ 32 + n" using assms(2) by (subst add_no_wrap) (simp_all only: u nn, simp)
  have "unat (ucast ?c :: u32) = unat (word_of_nat n :: u32)"
    unfolding unat_ucast_mod unat_word_of_nat c by simp
  moreover have "unat (ucast (drop_bit 32 ?c) :: u32) = unat ?t"
    unfolding unat_ucast_mod unat_drop_bit_div c using assms(2) \<open>unat ?t < 2 ^ 32\<close> by simp
  ultimately have "(ucast ?c :: u32) = word_of_nat n" "(ucast (drop_bit 32 ?c) :: u32) = ?t" by (simp_all only: word_unat_eq_iff)
  then show ?thesis unfolding chacha_init_def rfc_block_def split by simp
qed

lemma aead_mac_rfc:
  assumes "length key = 32" and "length nonce = 12"
  shows "le_val (aead_mac key nonce ad c) = rfc_aead_tag key nonce ad c"
proof -
  let ?k = "BRChacha20 key (drop 4 nonce) (replicate 32 0) (aead_counter nonce)"
  have len: "length ?k = 32" using length_chacha [OF assms(1)] by simp
  have blk: "length (rfc_block key nonce 0) = 64"
  proof -
    have "length (words32 (chacha_sigma @ key)) = 12" "length (words32 nonce) = 3" using assms by (simp_all add: length_words32 chacha_sigma_def)
    then show ?thesis unfolding rfc_block_def length_chacha_block by simp
  qed
  have "?k = take 32 (rfc_block key nonce 0)"
  proof (rule nth_equalityI)
    show "length ?k = length (take 32 (rfc_block key nonce 0))" using len blk by simp
    fix i assume "i < length ?k"
    then have i: "i < 32" using len by simp
    then have "?k ! i = chacha_block (chacha_init key (drop 4 nonce) (aead_counter nonce)) ! i"
      using chacha.crypt_nth [of "(key, drop 4 nonce, aead_counter nonce)" i "replicate 32 0"] assms(1)
      by (simp add: chacha_crypt_def chacha_pad_def)
    then show "?k ! i = take 32 (rfc_block key nonce 0) ! i" using chacha_init_rfc [OF assms(2), of 0 key] i by simp
  qed
  moreover have "aead_mac key nonce ad c = poly_final ?k (poly_blocks (poly_r ?k) (0, 0, 0, 0, 0) (rfc_mac_data ad c))"
  proof -
    obtain m m' where "length (pad16 ad) = 16 * m" "length (pad16 c) = 16 * m'" using length_pad16 by metis
    then show ?thesis unfolding aead_mac_def Let_def aead_absorb_pad rfc_mac_data_def by (simp only: poly_blocks_append)
  qed
  ultimately show ?thesis using poly_tag [OF len, of "rfc_mac_data ad c"] unfolding rfc_aead_tag_def by (simp only:)
qed

lemma BRChacha20_rfc:
  assumes "length key = 32" and "length nonce = 12" and "length c div 64 < 0xffffffff"
  shows "BRChacha20 key (drop 4 nonce) c (aead_counter nonce + 1) = rfc_stream key nonce c"
proof (rule nth_equalityI)
  show "length (BRChacha20 key (drop 4 nonce) c (aead_counter nonce + 1)) = length (rfc_stream key nonce c)"
    by (simp add: length_chacha [OF assms(1)] rfc_stream_def)
  fix i assume "i < length (BRChacha20 key (drop 4 nonce) c (aead_counter nonce + 1))"
  then have i: "i < length c" by (simp add: length_chacha [OF assms(1)])
  then have "i div 64 \<le> length c div 64" by (simp add: div_le_mono)
  then have n: "1 + i div 64 < 2 ^ 32" using assms(3) by simp
  have "BRChacha20 key (drop 4 nonce) c (aead_counter nonce + 1) ! i =
      c ! i XOR chacha_block (chacha_init key (drop 4 nonce) (aead_counter nonce + 1 + word_of_nat (i div 64))) ! (i mod 64)"
    using chacha.crypt_nth [of "(key, drop 4 nonce, aead_counter nonce + 1)" i c] assms(1) i
    by (simp add: chacha_crypt_def chacha_pad_def)
  also have "aead_counter nonce + 1 + word_of_nat (i div 64) = aead_counter nonce + word_of_nat (1 + i div 64)" by simp
  finally show "BRChacha20 key (drop 4 nonce) c (aead_counter nonce + 1) ! i = rfc_stream key nonce c ! i"
    unfolding chacha_init_rfc [OF assms(2) n] rfc_stream_def using i by simp
qed

text \<open>
  Claim C21.  Decryption accepts exactly the boxes whose last 16 bytes are, as a little-endian number, the
  tag that RFC 8439 defines for the associated data and the ciphertext: with the one-time key
  from block 0, the clamped multiplier, the polynomial over the padded data and the two lengths
  modulo \<open>2\<^sup>1\<^sup>3\<^sup>0 - 5\<close>, and the sum modulo \<open>2\<^sup>1\<^sup>2\<^sup>8\<close>.  Such a box is decrypted with the key stream of the
  blocks from 1 on; for any other the result is 0 and the buffer of the caller is left as it was.
  The limbs of 26 bits never lose a carry.
\<close>

theorem aead_accepts_rfc8439:
  assumes "length key32 = 32" and "length nonce12 = 12" and "16 \<le> length box" and "length box \<le> length buf + 16"
    and "(length box - 16) div 64 < 0xffffffff"
  defines "c \<equiv> take (length box - 16) box"
  shows "BRChacha20Poly1305AEADDecrypt (Some buf) key32 nonce12 box ad =
    (if le_val (drop (length box - 16) box) = rfc_aead_tag key32 nonce12 ad c
     then (length c, Some (rfc_stream key32 nonce12 c @ drop (length c) buf)) else (0, Some buf))"
proof -
  let ?tag = "drop (length box - 16) box"
  have len: "length ?tag = 16" "length c = length box - 16" using assms(3) by (simp_all add: c_def)
  have "?tag = aead_mac key32 nonce12 ad c \<longleftrightarrow> le_val ?tag = le_val (aead_mac key32 nonce12 ad c)"
    using len(1) by (auto dest: le_val_inject)
  then have tag: "?tag = aead_mac key32 nonce12 ad c \<longleftrightarrow> le_val ?tag = rfc_aead_tag key32 nonce12 ad c"
    unfolding aead_mac_rfc [OF assms(1,2)] .
  have "wr buf 0 (BRChacha20 key32 (drop 4 nonce12) [] x) = buf" for x
    using length_chacha [OF assms(1), of "drop 4 nonce12" "[]"] by (simp add: wr_def)
  moreover have "BRChacha20 key32 (drop 4 nonce12) c (aead_counter nonce12 + 1) = rfc_stream key32 nonce12 c"
    using assms(5) len(2) by (intro BRChacha20_rfc [OF assms(1,2)]) simp
  moreover have "length (rfc_stream key32 nonce12 c) = length c" by (simp add: rfc_stream_def)
  ultimately show ?thesis
    using assms(3-5) tag by (auto simp: BRChacha20Poly1305AEADDecrypt_def Let_def c_def [symmetric] wr_def len(2))
qed

theorem aead_accepts_rfc8439_witness:
  "\<exists>t t' x. length t = 16 \<and> length t' = 16 \<and> length x = 3 \<and>
    BRChacha20Poly1305AEADDecrypt (Some [7, 7, 7, 7]) (replicate 32 1) (replicate 12 2) ([1, 2, 3] @ t) [9] = (3, Some (x @ [7])) \<and>
    BRChacha20Poly1305AEADDecrypt (Some [7, 7, 7, 7]) (replicate 32 1) (replicate 12 2) ([1, 2, 3] @ t') [9] = (0, Some [7, 7, 7, 7])"
proof -
  define n where "n = rfc_aead_tag (replicate 32 1) (replicate 12 2) [9] [1, 2, 3]"
  define t t' where "t = bytes_le 16 (word_of_nat n :: 128 word)" and "t' = bytes_le 16 (word_of_nat n + 1 :: 128 word)"
  have len: "length t = 16" "length t' = 16" by (simp_all add: t_def t'_def)
  have "n < 2 ^ 128" by (simp add: n_def rfc_aead_tag_def rfc_tag_def)
  then have u: "unat (word_of_nat n :: 128 word) = n" by (intro unat_of_nat_small) simp
  have "le_val t = n" unfolding t_def using u by (subst le_val_bytes_le) simp_all
  moreover have "le_val t' \<noteq> n"
  proof -
    have "unat (word_of_nat n + 1 :: 128 word) \<noteq> unat (word_of_nat n :: 128 word)" by (simp add: word_unat_eq_iff [symmetric])
    then show ?thesis unfolding t'_def using u by (subst le_val_bytes_le) simp_all
  qed
  ultimately show ?thesis
    using aead_accepts_rfc8439 [of "replicate 32 1" "replicate 12 2" "[1, 2, 3] @ t" "[7, 7, 7, 7]" "[9]"]
      aead_accepts_rfc8439 [of "replicate 32 1" "replicate 12 2" "[1, 2, 3] @ t'" "[7, 7, 7, 7]" "[9]"] len
    by (intro exI [of _ t] exI [of _ t'] exI [of _ "rfc_stream (replicate 32 1) (replicate 12 2) [1, 2, 3]"])
      (simp add: n_def [symmetric] rfc_stream_def)
qed

end
