(* ===== verification/Kdf_Correct.thy ===== *)
theory Kdf_Correct
  imports Ciphers_Correct
begin

text \<open>
  The key derivations: PBKDF2 returns exactly the bytes asked for and asking for fewer
  gives a prefix; scrypt never reads outside its table.
\<close>

unbundle bit_operations_syntax

section \<open>PBKDF2\<close>

lemma length_BRHMAC: "(\<And>x. length (hash x) = n) \<Longrightarrow> length (BRHMAC hash m key data) = n"
  by (simp add: BRHMAC_def Let_def)

lemma length_pbkdf2_rounds:
  assumes "\<And>x. length (hash x) = n"
  shows "length U = n \<Longrightarrow> length T = n \<Longrightarrow> length (pbkdf2_rounds hash n pw k U T) = n"
  by (induction k arbitrary: U T) (simp_all add: Let_def length_BRHMAC [OF assms])

lemma length_pbkdf2_block:
  assumes "\<And>x. length (hash x) = n"
  shows "length (pbkdf2_block hash n pw salt rounds i) = n"
  by (simp add: pbkdf2_block_def Let_def length_BRHMAC [OF assms] length_pbkdf2_rounds [OF assms])

text \<open>The blocks the standard concatenates, as one stream of bytes.\<close>

lemma take_concat_blocks:
  assumes "\<And>i. length (blk i) = n" and "0 < n" and "dk \<le> n * m"
  shows "take dk (concat (map blk [0..<m])) =
    concat (map (\<lambda>i. take (if i * n + n \<le> dk then n else dk mod n) (blk i)) [0..<(dk + n - 1) div n])"
  using assms(3)
proof (induction m arbitrary: dk)
  case 0
  then show ?case using assms(2) by simp
next
  case (Suc m)
  have len: "length (concat (map blk [0..<k])) = n * k" for k
    by (induction k) (simp_all add: assms(1))
  show ?case
  proof (cases "dk \<le> n * m")
    case True
    then show ?thesis using Suc.IH [OF True] by (simp add: len)
  next
    case False
    then obtain e where e: "dk = n * m + e" "0 < e" by (metis less_imp_add_positive not_le)
    then have en: "e \<le> n" using Suc.prems by simp
    have cnt: "(dk + n - 1) div n = Suc m"
    proof -
      have eq: "dk + n - 1 = (e - 1) + n * Suc m" using e(2) by (simp add: e(1))
      show ?thesis unfolding eq using en e(2) assms(2) by (subst div_mult_self2) simp_all
    qed
    have full: "map (\<lambda>i. take (if i * n + n \<le> dk then n else dk mod n) (blk i)) [0..<m] = map blk [0..<m]"
    proof (rule map_cong)
      fix i assume "i \<in> set [0..<m]"
      then have "Suc i * n \<le> m * n" by (intro mult_le_mono1) simp
      then show "take (if i * n + n \<le> dk then n else dk mod n) (blk i) = blk i"
        using e(1) assms(1) by (simp add: algebra_simps)
    qed simp
    have last: "take (if m * n + n \<le> dk then n else dk mod n) (blk m) = take e (blk m)"
      using e en assms(1) by (cases "e = n") (simp_all add: algebra_simps)
    have "take dk (concat (map blk [0..<Suc m])) = concat (map blk [0..<m]) @ take e (blk m)"
      using e(1) by (simp add: len)
    also have "\<dots> = concat (map (\<lambda>i. take (if i * n + n \<le> dk then n else dk mod n) (blk i)) [0..<Suc m])"
      unfolding upt_Suc_append [OF le0] map_append full concat_append by (simp add: last)
    finally show ?thesis unfolding cnt .
  qed
qed

lemma BRPBKDF2_stream:
  assumes "\<And>x. length (hash x) = n" and "0 < n" and "n mod 4 = 0" and "0 < rounds" and "dkLen \<le> n * m"
  shows "BRPBKDF2 dkLen hash n pw salt rounds =
    Some (take dkLen (concat (map (pbkdf2_block hash n pw salt rounds) [0..<m])))"
  using take_concat_blocks [of "pbkdf2_block hash n pw salt rounds" n dkLen m] assms
  by (simp add: BRPBKDF2_def length_pbkdf2_block)

lemma length_concat_blocks:
  "(\<And>i. length (blk i) = n) \<Longrightarrow> length (concat (map blk [0..<k])) = n * k"
  by (induction k) simp_all

text \<open>
  With a hash of \<open>n\<close> bytes, PBKDF2 fills exactly the bytes asked for; they are
  the first bytes of \<open>T1 || T2 || ...\<close>, so that a shorter key is a prefix of a longer one.
\<close>

theorem BRPBKDF2_prefix:
  assumes "\<And>x. length (hash x) = n" and "0 < n" and "n mod 4 = 0" and "0 < rounds" and "dkLen \<le> dkLen'"
  shows "\<exists>dk dk'. BRPBKDF2 dkLen hash n pw salt rounds = Some dk \<and> length dk = dkLen \<and>
    BRPBKDF2 dkLen' hash n pw salt rounds = Some dk' \<and> dk = take dkLen dk'"
proof -
  let ?s = "concat (map (pbkdf2_block hash n pw salt rounds) [0..<dkLen'])"
  have le: "dkLen' \<le> n * dkLen'" using assms(2) by simp
  then have "dkLen \<le> n * dkLen'" using assms(5) by linarith
  moreover have "length ?s = n * dkLen'"
    by (rule length_concat_blocks) (rule length_pbkdf2_block, rule assms(1))
  ultimately show ?thesis
    using BRPBKDF2_stream [OF assms(1-4), of dkLen dkLen'] BRPBKDF2_stream [OF assms(1-4) le] assms(5)
    by simp
qed

theorem BRPBKDF2_prefix_witness:
  "\<exists>dk dk'. BRPBKDF2 40 BRSHA512 64 [1] [2, 3] 2048 = Some dk \<and> length dk = 40 \<and>
    BRPBKDF2 100 BRSHA512 64 [1] [2, 3] 2048 = Some dk' \<and> dk = take 40 dk'"
  by (rule BRPBKDF2_prefix)
    (simp_all add: BRSHA512_def length_md_hashes)

section \<open>scrypt\<close>

lemma length_scrypt_fill: "length (snd (scrypt_fill r k x v)) = length v + 2 * k"
  by (induction k arbitrary: x v) (simp_all add: Let_def)

lemma and_le_right: "unat (a AND b :: 'a::len word) \<le> unat b"
  by (metis word_and_le1 word_le_nat_alt)

text \<open>
  For every even cost parameter, the index that scrypt reads from the data it
  mixes is below the number of entries its first loop stored, so no read leaves the table.
\<close>

theorem scrypt_index_in_table:
  assumes "even n" and "0 < n" and "n < 2 ^ 32"
  shows "scrypt_index r n x < length (snd (scrypt_fill r (n div 2) x0 []))"
proof -
  have one: "(1 :: u32) \<le> word_of_nat n"
    using assms(2,3) by (simp add: word_le_nat_alt unat_of_nat_small)
  have "unat (ucast (word_of_nat n - 1 :: u32) :: u64) = n - 1"
    using assms(3) by (simp add: unat_ucast_up unat_diff [OF one] unat_of_nat_small)
  then have "scrypt_index r n x \<le> n - 1"
    unfolding scrypt_index_def using and_le_right by metis
  then show ?thesis using assms(1,2) by (simp add: length_scrypt_fill)
qed

theorem scrypt_index_in_table_witness:
  "scrypt_index 8 16384 (replicate 256 0xffffffff) < length (snd (scrypt_fill 8 (16384 div 2) (replicate 256 1) []))"
  by (rule scrypt_index_in_table) simp_all

end
