(* ===== verification/Base58.thy ===== *)
theory Base58
  imports Crypto
begin

text \<open>
  \<^verbatim>\<open>support/BRBase58.c\<close>: base58 and base58check.  The buffer of digits is kept least
  significant digit first, the order in which the inner loops walk it.  A string that is
  written includes the terminating NUL; a string that is read is given without it.
\<close>

unbundle bit_operations_syntax

definition b58_chars :: "byte list" where
  "b58_chars =
    [0x31, 0x32, 0x33, 0x34, 0x35, 0x36, 0x37, 0x38, 0x39, 0x41, 0x42, 0x43, 0x44, 0x45, 0x46, 0x47,
     0x48, 0x4a, 0x4b, 0x4c, 0x4d, 0x4e, 0x50, 0x51, 0x52, 0x53, 0x54, 0x55, 0x56, 0x57, 0x58, 0x59,
     0x5a, 0x61, 0x62, 0x63, 0x64, 0x65, 0x66, 0x67, 0x68, 0x69, 0x6a, 0x6b, 0x6d, 0x6e, 0x6f, 0x70,
     0x71, 0x72, 0x73, 0x74, 0x75, 0x76, 0x77, 0x78, 0x79, 0x7a]"

text \<open>One pass of the inner loops: \<open>buf * 256 + carry\<close> in base 58, \<open>buf * 58 + carry\<close> in base 256.\<close>

fun enc58 :: "u32 \<Rightarrow> byte list \<Rightarrow> byte list" where
  "enc58 carry [] = []"
| "enc58 carry (b # bs) =
     (let c = carry + push_bit 8 (ucast b) in ucast (c mod 58) # enc58 (c div 58) bs)"

fun dec58 :: "u32 \<Rightarrow> byte list \<Rightarrow> byte list" where
  "dec58 carry [] = []"
| "dec58 carry (b # bs) =
     (let c = carry + ucast b * 58 in ucast (c AND 0xff) # dec58 (drop_bit 8 c) bs)"

text \<open>Returns the number of characters written, the terminating NUL included.\<close>

definition BRBase58Encode :: "byte list serialiser" where
  "BRBase58Encode data str =
     (let zeros = takeWhile (\<lambda>b. b = 0) data; rest = dropWhile (\<lambda>b. b = 0) data;
          buf = foldl (\<lambda>buf b. enc58 (ucast b) buf) (replicate (length rest * 138 div 100 + 1) 0) rest;
          digits = dropWhile (\<lambda>b. b = 0) (rev buf);
          len = length zeros + length digits + 1;
          s = map (\<lambda>_. b58_chars ! 0) zeros @ map (\<lambda>d. b58_chars ! unat d) digits @ [0]
      in case str of None \<Rightarrow> (len, None)
         | Some out \<Rightarrow> if len \<le> length out then (len, Some (wr out 0 s)) else (0, Some out))"

text \<open>The value of a character, or \<open>UINT32_MAX\<close>.\<close>

definition b58_digit :: "byte \<Rightarrow> u32" where
  "b58_digit ch =
     (let c = ucast ch
      in if 0x31 \<le> ch \<and> ch \<le> 0x39 then c - 0x31
         else if 0x41 \<le> ch \<and> ch \<le> 0x48 then c + (9 - 0x41)
         else if 0x4a \<le> ch \<and> ch \<le> 0x4e then c + (17 - 0x4a)
         else if 0x50 \<le> ch \<and> ch \<le> 0x5a then c + (22 - 0x50)
         else if 0x61 \<le> ch \<and> ch \<le> 0x6b then c + (33 - 0x61)
         else if 0x6d \<le> ch \<and> ch \<le> 0x7a then c + (44 - 0x6d)
         else 0xffffffff)"

text \<open>The loop over the characters stops, without an error, at the first that is no digit.\<close>

fun dec58_loop :: "byte list \<Rightarrow> byte list \<Rightarrow> byte list" where
  "dec58_loop buf [] = buf"
| "dec58_loop buf (ch # str) = (if b58_digit ch \<ge> 58 then buf else dec58_loop (dec58 (b58_digit ch) buf) str)"

definition b58_decoded :: "cstring \<Rightarrow> byte list" where
  "b58_decoded str =
     (let ones = takeWhile (\<lambda>c. c = 0x31) str; rest = dropWhile (\<lambda>c. c = 0x31) str;
          buf = dec58_loop (replicate (length rest * 733 div 1000 + 1) 0) rest
      in map (\<lambda>_. 0) ones @ dropWhile (\<lambda>b. b = 0) (rev buf))"

definition BRBase58Decode :: "cstring \<Rightarrow> byte list option \<Rightarrow> nat \<times> byte list option" where
  "BRBase58Decode str data =
     (let d = b58_decoded str; len = length d
      in case data of None \<Rightarrow> (len, None)
         | Some out \<Rightarrow> if len \<le> length out then (len, Some (wr out 0 d)) else (0, Some out))"

definition BRBase58CheckEncode :: "byte list serialiser" where
  "BRBase58CheckEncode data str = BRBase58Encode (data @ take 4 (BRSHA256_2 data)) str"

text \<open>
  The string is decoded into a buffer of its own length; a wrong checksum gives the
  length 0, with which nothing is copied.
\<close>

definition BRBase58CheckDecode :: "cstring \<Rightarrow> byte list option \<Rightarrow> nat \<times> byte list option" where
  "BRBase58CheckDecode str data =
     (let (n, buf) = BRBase58Decode str (Some (replicate (length str) 0));
          d = (case buf of Some b \<Rightarrow> take n b | None \<Rightarrow> []);
          payload = take (n - 4) d;
          len = (if 4 \<le> n \<and> drop (n - 4) d = take 4 (BRSHA256_2 payload) then n - 4 else 0)
      in case data of None \<Rightarrow> (len, None)
         | Some out \<Rightarrow> if len \<le> length out then (len, Some (wr out 0 (take len payload))) else (0, Some out))"

end
