(* ===== verification/Base58_Correct.thy ===== *)
theory Base58_Correct
  imports Base58 Crypto_Correct
begin

text \<open>
  Base58 is a positional system: the loops compute \<open>256 * n + b\<close> in base 58 and
  \<open>58 * n + d\<close> in base 256, their buffers are large enough, and decoding undoes encoding.
  It also ignores whatever follows the first character that is no digit.
\<close>

unbundle bit_operations_syntax

section \<open>Positional values\<close>

text \<open>Least significant digit first.\<close>

fun dval :: "nat \<Rightarrow> byte list \<Rightarrow> nat" where
  "dval B [] = 0"
| "dval B (d # ds) = unat d + B * dval B ds"

abbreviation digits_below :: "nat \<Rightarrow> byte list \<Rightarrow> bool" where
  "digits_below B ds \<equiv> (\<forall>d \<in> set ds. unat d < B)"

lemma dval_append: "dval B (xs @ ys) = dval B xs + B ^ length xs * dval B ys"
  by (induction xs) (simp_all add: algebra_simps)

lemma dval_zeros [simp]: "dval B (replicate n 0) = 0"
  by (induction n) simp_all

lemma dval_bound: "0 < B \<Longrightarrow> digits_below B ds \<Longrightarrow> dval B ds < B ^ length ds"
proof (induction ds)
  case (Cons d ds)
  have "B * (dval B ds + 1) \<le> B * B ^ length ds"
    using Cons by (intro mult_le_mono2) simp
  then show ?case using Cons.prems(2) by simp
qed simp

lemma dval_inject:
  "length xs = length ys \<Longrightarrow> digits_below B xs \<Longrightarrow> digits_below B ys \<Longrightarrow> dval B xs = dval B ys \<Longrightarrow> xs = ys"
proof (induction xs ys rule: list_induct2)
  case (Cons x xs y ys)
  have "unat x = (unat x + B * dval B xs) mod B" using Cons.prems(1) by simp
  moreover have "unat y = (unat y + B * dval B ys) mod B" using Cons.prems(2) by simp
  ultimately have "unat x = unat y" using Cons.prems(3) by (metis dval.simps(2))
  then have xy: "x = y" by (simp add: word_unat_eq_iff)
  then have "B * dval B xs = B * dval B ys" using Cons.prems(3) by simp
  moreover have "B \<noteq> 0" using Cons.prems(1) by auto
  ultimately have "dval B xs = dval B ys" by simp
  then show ?case using Cons xy by simp
qed simp

text \<open>A number has one representation without leading zeros.\<close>

lemma dval_lower:
  assumes "ds \<noteq> []" and "last ds \<noteq> 0"
  shows "B ^ (length ds - 1) \<le> dval B ds"
proof -
  obtain es d where ds: "ds = es @ [d]" using assms(1) by (cases ds rule: rev_cases) auto
  have "1 \<le> unat d" using assms(2) ds by (simp add: Suc_le_eq unat_gt_0)
  then have "B ^ length es * 1 \<le> B ^ length es * unat d" by (intro mult_le_mono2)
  then have "B ^ length es \<le> dval B es + B ^ length es * unat d" by linarith
  moreover have "dval B ds = dval B es + B ^ length es * unat d" by (simp add: ds dval_append)
  moreover have "length ds - 1 = length es" by (simp add: ds)
  ultimately show ?thesis by (simp only:)
qed

lemma canonical_unique:
  assumes "1 < B" and "digits_below B xs" and "digits_below B ys"
    and "xs \<noteq> [] \<longrightarrow> last xs \<noteq> 0" and "ys \<noteq> [] \<longrightarrow> last ys \<noteq> 0" and "dval B xs = dval B ys"
  shows "xs = ys"
proof -
  have le: "length us \<le> length vs"
    if "digits_below B vs" "us \<noteq> [] \<longrightarrow> last us \<noteq> 0" "dval B us = dval B vs" for us vs
  proof (cases "us = []")
    case False
    then have "B ^ (length us - 1) \<le> dval B us" using that(2) by (intro dval_lower) simp_all
    also have "dval B us < B ^ length vs" unfolding that(3) using assms(1) by (intro dval_bound that(1)) simp
    finally have "length us - 1 < length vs" by (rule power_less_imp_less_exp [OF assms(1)])
    then show ?thesis using False by (cases us) simp_all
  qed simp
  have "length xs = length ys"
    using le [OF assms(3,4,6)] le [OF assms(2,5) assms(6) [symmetric]] by (rule le_antisym)
  then show ?thesis using assms(2,3,6) by (rule dval_inject)
qed

text \<open>Stripping the zeros in front.\<close>

lemma dval_strip: "dval B (rev (dropWhile (\<lambda>b. b = 0) (rev buf))) = dval B buf"
proof -
  have "rev buf = takeWhile (\<lambda>b. b = 0) (rev buf) @ dropWhile (\<lambda>b. b = 0) (rev buf)" by simp
  then have "buf = rev (dropWhile (\<lambda>b. b = 0) (rev buf)) @ rev (takeWhile (\<lambda>b. b = 0) (rev buf))"
    by (metis rev_append rev_rev_ident)
  moreover have "dval B (rev (takeWhile (\<lambda>b. b = 0) ws)) = 0" for ws
  proof -
    have "\<forall>b \<in> set (rev (takeWhile (\<lambda>b. b = 0) ws)). b = 0" by (auto dest: set_takeWhileD)
    then have "replicate (length (rev (takeWhile (\<lambda>b. b = 0) ws))) 0 = rev (takeWhile (\<lambda>b. b = 0) ws)"
      by (intro replicate_length_same)
    then show ?thesis by (metis dval_zeros)
  qed
  ultimately show ?thesis by (metis dval_append add.right_neutral mult_0_right)
qed

lemma strip_canonical:
  "rev (dropWhile (\<lambda>b. b = 0) ws) \<noteq> [] \<longrightarrow> last (rev (dropWhile (\<lambda>b. b = 0) ws)) \<noteq> 0"
  by (metis (mono_tags, lifting) hd_dropWhile last_rev rev_is_Nil_conv)

lemma digit_carry:
  "0 < B \<Longrightarrow> (c mod B) + B * ((c div B + m * v) mod M) = (c + B * (m * v)) mod (B * M)" for B :: nat
  using mod_mult2_eq [of "c + B * (m * v)" B M] by (simp add: add.commute)

section \<open>The inner loops\<close>

lemma enc58_value:
  assumes "digits_below 58 buf" and "unat c < 256 * 58"
  shows "length (enc58 c buf) = length buf \<and> digits_below 58 (enc58 c buf) \<and>
    dval 58 (enc58 c buf) = (unat c + 256 * dval 58 buf) mod 58 ^ length buf"
  using assms
proof (induction buf arbitrary: c)
  case (Cons b bs)
  let ?c = "c + push_bit 8 (ucast b) :: u32"
  have b: "unat b < 58" using Cons.prems(1) by simp
  have c: "unat ?c = unat c + 256 * unat b"
    using b Cons.prems(2) by (simp add: unat_add_mod unat_push_bit_mod unat_ucast_up mult.commute)
  have d: "unat (ucast (?c mod 58) :: byte) = unat ?c mod 58"
    by (simp add: unat_ucast_mod unat_mod)
  have q: "unat (?c div 58) = unat ?c div 58" by (simp add: unat_div)
  have "unat (?c div 58) < 256 * 58" unfolding q c using b Cons.prems(2) by simp
  then have IH: "length (enc58 (?c div 58) bs) = length bs" "digits_below 58 (enc58 (?c div 58) bs)"
    "dval 58 (enc58 (?c div 58) bs) = (unat ?c div 58 + 256 * dval 58 bs) mod 58 ^ length bs"
    using Cons.IH [of "?c div 58"] Cons.prems(1) unfolding q by auto
  have "dval 58 (enc58 c (b # bs)) = unat ?c mod 58 + 58 * ((unat ?c div 58 + 256 * dval 58 bs) mod 58 ^ length bs)"
    by (simp add: Let_def d IH(3))
  also have "\<dots> = (unat ?c + 58 * (256 * dval 58 bs)) mod (58 * 58 ^ length bs)"
    by (rule digit_carry) simp
  finally have "dval 58 (enc58 c (b # bs)) = (unat c + 256 * dval 58 (b # bs)) mod 58 ^ length (b # bs)"
    by (simp add: c algebra_simps)
  moreover have "unat (ucast (?c mod 58) :: byte) < 58" unfolding d by simp
  ultimately show ?case using IH(1,2) by (simp add: Let_def)
qed simp

lemma dec58_value:
  assumes "unat c < 256 * 58"
  shows "length (dec58 c buf) = length buf \<and>
    dval 256 (dec58 c buf) = (unat c + 58 * dval 256 buf) mod 256 ^ length buf"
  using assms
proof (induction buf arbitrary: c)
  case (Cons b bs)
  let ?c = "c + ucast b * 58 :: u32"
  have b: "unat b < 256" using unat_bound [of b] by simp
  have c: "unat ?c = unat c + 58 * unat b"
    using b Cons.prems by (simp add: unat_add_mod unat_mult_mod unat_ucast_up mult.commute)
  have d: "unat (ucast (?c AND 0xff) :: byte) = unat ?c mod 256"
  proof -
    have "?c AND 0xff = take_bit 8 ?c" by (simp add: take_bit_eq_mask mask_eq_exp_minus_1)
    moreover have "unat (take_bit 8 ?c) = unat ?c mod 256"
      using unsigned_take_bit_eq [of 8 ?c, where ?'a = nat] by (simp add: take_bit_eq_mod)
    ultimately show ?thesis by (simp add: unat_ucast_mod)
  qed
  have q: "unat (drop_bit 8 ?c) = unat ?c div 256" by (simp add: unat_drop_bit_div)
  have "unat (drop_bit 8 ?c) < 256 * 58" unfolding q c using b Cons.prems by simp
  then have IH: "length (dec58 (drop_bit 8 ?c) bs) = length bs"
    "dval 256 (dec58 (drop_bit 8 ?c) bs) = (unat ?c div 256 + 58 * dval 256 bs) mod 256 ^ length bs"
    using Cons.IH [of "drop_bit 8 ?c"] unfolding q by auto
  have "dval 256 (dec58 c (b # bs)) = unat ?c mod 256 + 256 * ((unat ?c div 256 + 58 * dval 256 bs) mod 256 ^ length bs)"
    by (simp add: Let_def d IH(2))
  also have "\<dots> = (unat ?c + 256 * (58 * dval 256 bs)) mod (256 * 256 ^ length bs)"
    by (rule digit_carry) simp
  finally have "dval 256 (dec58 c (b # bs)) = (unat c + 58 * dval 256 (b # bs)) mod 256 ^ length (b # bs)"
    by (simp add: c algebra_simps)
  then show ?case using IH(1) by (simp add: Let_def)
qed simp

section \<open>Whole strings\<close>

text \<open>The value of a list of digits, most significant first.\<close>

abbreviation bval :: "nat \<Rightarrow> byte list \<Rightarrow> nat" where
  "bval B ds \<equiv> dval B (rev ds)"

lemma bval_snoc: "bval B (ds @ [d]) = unat d + B * bval B ds"
  by simp

lemma enc58_loop_value:
  assumes "(256 :: nat) ^ length data \<le> 58 ^ n"
  shows "length (foldl (\<lambda>buf b. enc58 (ucast b) buf) (replicate n 0) data) = n \<and>
    digits_below 58 (foldl (\<lambda>buf b. enc58 (ucast b) buf) (replicate n 0) data) \<and>
    dval 58 (foldl (\<lambda>buf b. enc58 (ucast b) buf) (replicate n 0) data) = bval 256 data"
  using assms
proof (induction data rule: rev_induct)
  case (snoc b data)
  let ?buf = "foldl (\<lambda>buf b. enc58 (ucast b) buf) (replicate n 0) data"
  have b256: "digits_below 256 ds" for ds using unat_bound [where ?'a = 8] by simp
  have le: "(256 :: nat) ^ length data \<le> 256 ^ length (data @ [b])" by simp
  then have IH: "length ?buf = n" "digits_below 58 ?buf" "dval 58 ?buf = bval 256 data"
    using snoc.IH [OF le_trans [OF le snoc.prems]] by blast+
  have u: "unat (ucast b :: u32) = unat b" by (simp add: unat_ucast_up)
  have "unat b < 256" using unat_bound [of b] by simp
  then have c: "unat (ucast b :: u32) < 256 * 58" unfolding u by simp
  have "bval 256 (data @ [b]) < 256 ^ length (rev (data @ [b]))" by (rule dval_bound [OF _ b256]) simp
  then have "bval 256 (data @ [b]) < 58 ^ n" using snoc.prems by simp
  then show ?case
    using enc58_value [OF IH(2) c] IH(1,3) by (simp add: u)
qed simp

text \<open>Characters of digits and back; no digit is written as NUL, and only 0 as \<open>1\<close>.\<close>

lemma b58_table:
  "list_all (\<lambda>i. b58_digit (b58_chars ! i) = word_of_nat i \<and> b58_chars ! i \<noteq> 0 \<and> (b58_chars ! i = 0x31 \<longleftrightarrow> i = 0)) [0..<58]"
  by code_simp

lemma b58_char:
  assumes "unat d < 58"
  shows "unat (b58_digit (b58_chars ! unat d)) = unat d \<and> b58_chars ! unat d \<noteq> 0 \<and> (b58_chars ! unat d = 0x31 \<longleftrightarrow> d = 0)"
proof -
  have "unat d \<in> set [0..<58]" using assms by simp
  then have "b58_digit (b58_chars ! unat d) = word_of_nat (unat d) \<and> b58_chars ! unat d \<noteq> 0 \<and>
      (b58_chars ! unat d = 0x31 \<longleftrightarrow> unat d = 0)"
    using b58_table unfolding list_all_iff by blast
  moreover have "unat (word_of_nat (unat d) :: u32) = unat d" using assms by (intro unat_of_nat_small) simp
  ultimately show ?thesis by (simp add: unat_eq_zero)
qed

text \<open>The rest of a string at which the loop stops.\<close>

definition no_digit_first :: "cstring \<Rightarrow> bool" where
  "no_digit_first junk \<longleftrightarrow> junk = [] \<or> b58_digit (hd junk) \<ge> 58"

lemma dec58_loop_value:
  assumes "digits_below 58 ds" and "no_digit_first junk" and "58 ^ length ds * (dval 256 buf + 1) \<le> 256 ^ length buf"
  shows "length (dec58_loop buf (map (\<lambda>d. b58_chars ! unat d) ds @ junk)) = length buf \<and>
    dval 256 (dec58_loop buf (map (\<lambda>d. b58_chars ! unat d) ds @ junk)) = dval 256 buf * 58 ^ length ds + bval 58 ds"
  using assms(1,3)
proof (induction ds arbitrary: buf)
  case Nil
  then show ?case using assms(2) by (cases junk) (simp_all add: no_digit_first_def)
next
  case (Cons d ds)
  let ?c = "b58_digit (b58_chars ! unat d)" and ?m = "58 ^ length ds :: nat"
  have c: "unat ?c = unat d" "unat ?c < 58" using b58_char [of d] Cons.prems(1) by simp_all
  then have stop: "\<not> 58 \<le> ?c" by (simp add: word_le_nat_alt)
  have "unat d + 58 * dval 256 buf + 1 \<le> 58 * (dval 256 buf + 1)" using c by simp
  then have "?m * (unat d + 58 * dval 256 buf + 1) \<le> ?m * (58 * (dval 256 buf + 1))" by (rule mult_le_mono2)
  also have "\<dots> = 58 ^ length (d # ds) * (dval 256 buf + 1)" by (simp add: algebra_simps)
  also have "\<dots> \<le> 256 ^ length buf" by (rule Cons.prems(2))
  finally have le: "?m * (unat d + 58 * dval 256 buf + 1) \<le> 256 ^ length buf" .
  have "1 * (unat d + 58 * dval 256 buf + 1) \<le> ?m * (unat d + 58 * dval 256 buf + 1)"
    by (intro mult_le_mono1) simp
  then have small: "unat d + 58 * dval 256 buf < 256 ^ length buf"
    using le_trans [OF _ le] unfolding mult_1 by (metis Suc_eq_plus1 Suc_le_eq)
  have step: "length (dec58 ?c buf) = length buf" "dval 256 (dec58 ?c buf) = unat d + 58 * dval 256 buf"
    using dec58_value [of ?c buf] c small by simp_all
  have IH: "length (dec58_loop (dec58 ?c buf) (map (\<lambda>d. b58_chars ! unat d) ds @ junk)) = length (dec58 ?c buf) \<and>
    dval 256 (dec58_loop (dec58 ?c buf) (map (\<lambda>d. b58_chars ! unat d) ds @ junk)) =
      dval 256 (dec58 ?c buf) * 58 ^ length ds + bval 58 ds"
    using Cons.prems(1) le by (intro Cons.IH) (simp_all add: step)
  have val: "bval 58 (d # ds) = bval 58 ds + ?m * unat d" by (simp add: dval_append)
  show ?case
    using IH stop unfolding val by (simp add: step algebra_simps)
qed

section \<open>The buffers are large enough\<close>

lemma power_root_le:
  fixes a b :: nat
  assumes "a ^ p \<le> b ^ q" and "q * n \<le> p * k" and "0 < p" and "0 < b"
  shows "a ^ n \<le> b ^ k"
proof -
  obtain p' where p: "p = Suc p'" using assms(3) by (cases p) simp_all
  have "(a ^ n) ^ p = (a ^ p) ^ n" by (simp add: power_mult [symmetric] mult.commute)
  also have "\<dots> \<le> (b ^ q) ^ n" using assms(1) by (rule power_mono) simp
  also have "\<dots> = b ^ (q * n)" by (simp add: power_mult)
  also have "\<dots> \<le> b ^ (p * k)" using assms(2,4) by (intro power_increasing) simp_all
  also have "\<dots> = (b ^ k) ^ p" by (simp add: power_mult [symmetric] mult.commute)
  finally show ?thesis unfolding p by (rule power_le_imp_le_base) simp
qed

lemma enc_size: "(256 :: nat) ^ n \<le> 58 ^ (n * 138 div 100 + 1)"
proof (rule power_root_le)
  show "(256 :: nat) ^ 8 \<le> 58 ^ 11" by simp
  show "11 * n \<le> 8 * (n * 138 div 100 + 1)"
  proof -
    define q where "q = n * 138 div 100"
    have "n * 138 < 100 + 100 * q" unfolding q_def by (rule dividend_less_times_div) simp
    then show ?thesis unfolding q_def [symmetric] by simp
  qed
qed simp_all

lemma dec_size:
  assumes "n \<le> m" shows "(58 :: nat) ^ n \<le> 256 ^ (m * 733 div 1000 + 1)"
proof (rule power_root_le)
  show "(58 :: nat) ^ 71 \<le> 256 ^ 52" by simp
  show "52 * n \<le> 71 * (m * 733 div 1000 + 1)"
  proof -
    define q where "q = m * 733 div 1000"
    have "m * 733 < 1000 + 1000 * q" unfolding q_def by (rule dividend_less_times_div) simp
    then have "52 * m \<le> 71 * (q + 1)" by simp
    then show ?thesis unfolding q_def [symmetric] using assms by simp
  qed
qed simp_all

section \<open>Encoding and decoding\<close>

definition b58_digits :: "byte list \<Rightarrow> byte list" where
  "b58_digits data =
     (let rest = dropWhile (\<lambda>b. b = 0) data
      in dropWhile (\<lambda>b. b = 0) (rev (foldl (\<lambda>buf b. enc58 (ucast b) buf)
           (replicate (length rest * 138 div 100 + 1) 0) rest)))"

text \<open>The text of an encoding, without its NUL.\<close>

definition b58_encoded :: "byte list \<Rightarrow> cstring" where
  "b58_encoded data = map (\<lambda>_. 0x31) (takeWhile (\<lambda>b. b = 0) data) @ map (\<lambda>d. b58_chars ! unat d) (b58_digits data)"

lemma b58_digits_value:
  "digits_below 58 (b58_digits data) \<and> bval 58 (b58_digits data) = bval 256 (dropWhile (\<lambda>b. b = 0) data) \<and>
   (b58_digits data \<noteq> [] \<longrightarrow> hd (b58_digits data) \<noteq> 0)"
proof -
  let ?rest = "dropWhile (\<lambda>b. b = 0) data"
  let ?buf = "foldl (\<lambda>buf b. enc58 (ucast b) buf) (replicate (length ?rest * 138 div 100 + 1) 0) ?rest"
  have buf: "digits_below 58 ?buf" "dval 58 ?buf = bval 256 ?rest"
    using enc58_loop_value [OF enc_size, of ?rest] by blast+
  have d: "b58_digits data = dropWhile (\<lambda>b. b = 0) (rev ?buf)" by (simp only: b58_digits_def Let_def)
  have "digits_below 58 (b58_digits data)"
    unfolding d using buf(1) by (auto dest: set_dropWhileD)
  moreover have "bval 58 (b58_digits data) = bval 256 ?rest" unfolding d dval_strip by (rule buf(2))
  moreover have "b58_digits data \<noteq> [] \<longrightarrow> hd (b58_digits data) \<noteq> 0"
    unfolding d by (metis (mono_tags) hd_dropWhile)
  ultimately show ?thesis by blast
qed

lemma b58_encoded_no_NUL: "0 \<notin> set (b58_encoded data)"
  using b58_digits_value [of data] b58_char by (fastforce simp: b58_encoded_def)

interpretation b58: two_phase "\<lambda>_. True" BRBase58Encode "\<lambda>data. b58_encoded data @ [0]"
proof -
  have eq: "BRBase58Encode data out =
     (let len = length (b58_encoded data @ [0])
      in case out of None \<Rightarrow> (len, None)
         | Some b \<Rightarrow> if len \<le> length b then (len, Some (wr b 0 (b58_encoded data @ [0]))) else (0, Some b))"
    for data out
  proof -
    have "length (b58_encoded data @ [0]) = length (takeWhile (\<lambda>b. b = 0) data) + length (b58_digits data) + 1"
      by (simp add: b58_encoded_def)
    moreover have "b58_encoded data @ [0] = map (\<lambda>_. b58_chars ! 0) (takeWhile (\<lambda>b. b = 0) data) @
        map (\<lambda>d. b58_chars ! unat d) (b58_digits data) @ [0]"
      by (simp add: b58_encoded_def b58_chars_def)
    ultimately show ?thesis by (simp only: BRBase58Encode_def b58_digits_def Let_def)
  qed
  show "two_phase (\<lambda>_. True) BRBase58Encode (\<lambda>data. b58_encoded data @ [0])"
    by unfold_locales (simp_all add: eq wr_def)
qed

text \<open>Decoding what was encoded, followed or not by other text.\<close>

lemma b58_decoded_encoded:
  assumes "no_digit_first junk"
  shows "b58_decoded (b58_encoded data @ junk) = data"
proof -
  let ?z = "takeWhile (\<lambda>b. b = 0) data" and ?rest = "dropWhile (\<lambda>b. b = 0) data"
  let ?ds = "b58_digits data"
  let ?cs = "map (\<lambda>d. b58_chars ! unat d) ?ds @ junk"
  have ds: "digits_below 58 ?ds" "bval 58 ?ds = bval 256 ?rest" "?ds \<noteq> [] \<longrightarrow> hd ?ds \<noteq> 0"
    using b58_digits_value [of data] by blast+
  have hd: "?cs \<noteq> [] \<longrightarrow> hd ?cs \<noteq> 0x31"
  proof (cases "?ds")
    case Nil
    have "b58_digit 0x31 = 0" by (simp add: b58_digit_def)
    then show ?thesis using Nil assms by (auto simp: no_digit_first_def)
  next
    case (Cons d ds')
    then show ?thesis using ds b58_char [of d] by simp
  qed
  then have tw: "takeWhile (\<lambda>c. c = 0x31) ?cs = []" "dropWhile (\<lambda>c. c = 0x31) ?cs = ?cs"
    by (cases ?cs; simp)+
  have split: "takeWhile (\<lambda>c. c = 0x31) (map (\<lambda>_. 0x31) ?z @ ?cs) = map (\<lambda>_. 0x31) ?z"
    "dropWhile (\<lambda>c. c = 0x31) (map (\<lambda>_. 0x31) ?z @ ?cs) = ?cs"
  proof -
    have "takeWhile (\<lambda>c. c = a) (map (\<lambda>_. a) zs @ cs) = map (\<lambda>_. a) zs @ takeWhile (\<lambda>c. c = a) cs"
      "dropWhile (\<lambda>c. c = a) (map (\<lambda>_. a) zs @ cs) = dropWhile (\<lambda>c. c = a) cs" for a :: byte and zs :: "byte list" and cs
      by (induction zs) simp_all
    then show "takeWhile (\<lambda>c. c = 0x31) (map (\<lambda>_. 0x31) ?z @ ?cs) = map (\<lambda>_. 0x31) ?z"
      "dropWhile (\<lambda>c. c = 0x31) (map (\<lambda>_. 0x31) ?z @ ?cs) = ?cs" using tw by simp_all
  qed
  let ?n = "length ?cs * 733 div 1000 + 1"
  let ?buf = "dec58_loop (replicate ?n 0) ?cs"
  have "58 ^ length ?ds * (dval 256 (replicate ?n 0) + 1) \<le> 256 ^ length (replicate ?n (0 :: byte))"
    using dec_size [of "length ?ds" "length ?cs"] by simp
  then have val: "dval 256 ?buf = bval 256 ?rest"
    using dec58_loop_value [OF ds(1) assms, of "replicate ?n 0"] ds(2) by simp
  have b256: "digits_below 256 xs" for xs using unat_bound [where ?'a = 8] by simp
  have "rev (dropWhile (\<lambda>b. b = 0) (rev ?buf)) = rev ?rest"
  proof (rule canonical_unique [OF _ b256 b256])
    show "dval 256 (rev (dropWhile (\<lambda>b. b = 0) (rev ?buf))) = bval 256 ?rest"
      unfolding dval_strip by (rule val)
  qed (simp, (rule strip_canonical)+)
  then have "dropWhile (\<lambda>b. b = 0) (rev ?buf) = ?rest" by simp
  moreover have "map (\<lambda>_. 0 :: byte) (map (\<lambda>_. 0x31 :: byte) ?z) = ?z"
    by (induction data) auto
  ultimately show ?thesis
    unfolding b58_encoded_def append_assoc b58_decoded_def split Let_def by simp
qed

text \<open>An encoding is never shorter than the data, so the buffer of base58check is large enough.\<close>

lemma length_b58_encoded: "length data \<le> length (b58_encoded data)"
proof -
  let ?rest = "dropWhile (\<lambda>b. b = 0) data" and ?ds = "b58_digits data"
  have ds: "digits_below 58 ?ds" "bval 58 ?ds = bval 256 ?rest" using b58_digits_value [of data] by blast+
  have "length ?rest \<le> length ?ds"
  proof (cases "?rest = []")
    case False
    have "(58 :: nat) ^ (length ?rest - 1) \<le> 256 ^ (length ?rest - 1)" by (rule power_mono) simp_all
    also have "\<dots> \<le> bval 256 ?rest"
      using dval_lower [of "rev ?rest" 256] strip_canonical [of data] False by simp
    also have "\<dots> = bval 58 ?ds" by (rule ds(2) [symmetric])
    also have "\<dots> < 58 ^ length (rev ?ds)" using ds(1) by (intro dval_bound) simp_all
    finally have "length ?rest - 1 < length (rev ?ds)" by (rule power_less_imp_less_exp [rotated]) simp
    then show ?thesis by simp
  next
    case True
    then show ?thesis unfolding True by simp
  qed
  moreover have "length data = length (takeWhile (\<lambda>b. b = 0) data) + length ?rest"
    by (metis length_append takeWhile_dropWhile_id)
  ultimately show ?thesis by (simp add: b58_encoded_def)
qed

lemma BRBase58Decode_encoded:
  assumes "no_digit_first junk"
  shows "BRBase58Decode (b58_encoded data @ junk) None = (length data, None)"
    and "length data \<le> length buf \<Longrightarrow>
      BRBase58Decode (b58_encoded data @ junk) (Some buf) = (length data, Some (data @ drop (length data) buf))"
  using b58_decoded_encoded [OF assms, of data] by (simp_all add: BRBase58Decode_def Let_def wr_def)

lemma BRSHA256_2_length [simp]: "length (BRSHA256_2 data) = 32"
  by (simp add: BRSHA256_2_def BRSHA256_def length_md_hashes)

lemma BRBase58CheckDecode_encoded:
  assumes "no_digit_first junk" and "length data \<le> length buf"
  shows "BRBase58CheckDecode (b58_encoded (data @ take 4 (BRSHA256_2 data)) @ junk) (Some buf) =
    (length data, Some (data @ drop (length data) buf))"
proof -
  let ?d = "data @ take 4 (BRSHA256_2 data)"
  let ?str = "b58_encoded ?d @ junk"
  have "length ?d \<le> length (replicate (length ?str) (0 :: byte))" using length_b58_encoded [of ?d] by simp
  from BRBase58Decode_encoded(2) [OF assms(1) this] show ?thesis
    using assms(2) by (simp add: BRBase58CheckDecode_def wr_def Let_def)
qed

lemma length_b58_encoded_le: "length (b58_encoded data) \<le> length data + length data * 138 div 100 + 1"
proof -
  let ?rest = "dropWhile (\<lambda>b. b = 0) data"
  let ?buf = "foldl (\<lambda>buf b. enc58 (ucast b) buf) (replicate (length ?rest * 138 div 100 + 1) 0) ?rest"
  have "length (b58_digits data) \<le> length (rev ?buf)"
    unfolding b58_digits_def Let_def by (rule length_dropWhile_le)
  also have "\<dots> = length ?rest * 138 div 100 + 1"
    using enc58_loop_value [OF enc_size, of ?rest] by simp
  also have "\<dots> \<le> length data * 138 div 100 + 1"
    using length_dropWhile_le [of "\<lambda>b. b = 0" data] by (simp add: div_le_mono)
  finally show ?thesis
    using length_takeWhile_le [of "\<lambda>b. b = 0" data] by (simp add: b58_encoded_def)
qed

lemma BRBase58CheckEncode_fits:
  assumes "length data + 5 + (length data + 4) * 138 div 100 < length buf"
  shows "BRBase58CheckEncode data (Some buf) =
    (length (b58_encoded (data @ take 4 (BRSHA256_2 data))) + 1,
     Some (b58_encoded (data @ take 4 (BRSHA256_2 data)) @ 0 #
       drop (length (b58_encoded (data @ take 4 (BRSHA256_2 data))) + 1) buf))"
  using b58.fits [of "data @ take 4 (BRSHA256_2 data)" buf]
    length_b58_encoded_le [of "data @ take 4 (BRSHA256_2 data)"] assms
  by (simp add: BRBase58CheckEncode_def)

text \<open>What a call that returns a non-zero length has written.\<close>

lemma BRBase58Encode_written:
  assumes "BRBase58Encode data (Some buf) = (n, Some out)" and "n \<noteq> 0"
  shows "n = length (b58_encoded data) + 1" and "out = b58_encoded data @ 0 # drop n buf"
proof -
  show n: "n = length (b58_encoded data) + 1"
    using b58.returned_length [of data buf] b58.null_call [of data] assms by simp
  have "\<not> length buf < length (b58_encoded data @ [0])"
    using b58.too_small [of buf data] assms by auto
  then show "out = b58_encoded data @ 0 # drop n buf"
    using b58.fits [of data buf] assms(1) n by simp
qed

lemmas BRBase58CheckEncode_written =
  BRBase58Encode_written [of "data @ take 4 (BRSHA256_2 data)" for data, folded BRBase58CheckEncode_def]

lemma no_digit_first_Nil [simp]: "no_digit_first []"
  by (simp add: no_digit_first_def)

text \<open>
  Base58 decoding gives back every byte string that encoding wrote, leading
  zeros included: the text encoding puts into the buffer, up to its NUL, decodes to the
  data, in the length query as in the call with a buffer.
\<close>

lemma base58_roundtrip:
  assumes "BRBase58Encode data (Some buf) = (n, Some out)" and "n \<noteq> 0"
  shows "\<exists>str. out = str @ 0 # drop n buf \<and> n = length str + 1 \<and> 0 \<notin> set str \<and>
    BRBase58Decode str None = (length data, None) \<and>
    (\<forall>buf2. length data \<le> length buf2 \<longrightarrow>
       BRBase58Decode str (Some buf2) = (length data, Some (data @ drop (length data) buf2)))"
  using BRBase58Encode_written [OF assms] b58_encoded_no_NUL [of data]
    BRBase58Decode_encoded [OF no_digit_first_Nil, of data] by auto

text \<open>
  Base58check decoding gives back the payload that base58check encoding wrote,
  in any buffer large enough for it, and leaves the rest of that buffer alone.
\<close>

theorem base58check_roundtrip:
  assumes "BRBase58CheckEncode data (Some buf) = (n, Some out)" and "n \<noteq> 0" and "length data \<le> length buf2"
  shows "\<exists>str. out = str @ 0 # drop n buf \<and> n = length str + 1 \<and> 0 \<notin> set str \<and>
    BRBase58CheckDecode str (Some buf2) = (length data, Some (data @ drop (length data) buf2))"
  using BRBase58CheckEncode_written [OF assms(1,2)] b58_encoded_no_NUL [of "data @ take 4 (BRSHA256_2 data)"]
    BRBase58CheckDecode_encoded [OF no_digit_first_Nil assms(3)] by auto

theorem base58check_roundtrip_witness:
  "\<exists>n out str. BRBase58CheckEncode [7] (Some (replicate 100 1)) = (n, Some out) \<and>
    out = str @ 0 # drop n (replicate 100 1) \<and> n = length str + 1 \<and> 0 \<notin> set str \<and>
    BRBase58CheckDecode str (Some [9]) = (length [7 :: byte], Some ([7] @ drop (length [7 :: byte]) [9]))"
proof -
  obtain n out where e: "BRBase58CheckEncode [7] (Some (replicate 100 1)) = (n, Some out)" "n \<noteq> 0"
    using BRBase58CheckEncode_fits [of "[7]" "replicate 100 1"] by auto
  have "\<exists>str. out = str @ 0 # drop n (replicate 100 1) \<and> n = length str + 1 \<and> 0 \<notin> set str \<and>
    BRBase58CheckDecode str (Some [9]) = (length [7 :: byte], Some ([7] @ drop (length [7 :: byte]) [9]))"
    by (rule base58check_roundtrip [OF e]) simp
  then show ?thesis using e by blast
qed

text \<open>
  Text after a base58check string goes unnoticed when it starts with a character
  that is no base58 digit: decoding stops there and reports success.
\<close>

theorem base58check_trailing_text:
  assumes "BRBase58CheckEncode data (Some buf) = (n, Some (str @ 0 # rest))" and "n = length str + 1"
    and "b58_digit c \<ge> 58" and "length data \<le> length buf2"
  shows "BRBase58CheckDecode (str @ c # junk) (Some buf2) = (length data, Some (data @ drop (length data) buf2))"
proof -
  have "n \<noteq> 0" using assms(2) by simp
  from BRBase58CheckEncode_written [OF assms(1) this]
  have "str = b58_encoded (data @ take 4 (BRSHA256_2 data))" using assms(2) by simp
  then show ?thesis
    using BRBase58CheckDecode_encoded [of "c # junk" data buf2] assms(3,4) by (simp add: no_digit_first_def)
qed

theorem base58check_trailing_text_witness:
  "\<exists>n str rest. BRBase58CheckEncode [7] (Some (replicate 100 1)) = (n, Some (str @ 0 # rest)) \<and>
    BRBase58CheckDecode (str @ 0x30 # [0x31, 0x32]) (Some [9]) = (length [7 :: byte], Some ([7] @ drop (length [7 :: byte]) [9]))"
proof -
  let ?str = "b58_encoded ([7] @ take 4 (BRSHA256_2 [7]))"
  have e: "BRBase58CheckEncode [7] (Some (replicate 100 1)) =
      (length ?str + 1, Some (?str @ 0 # drop (length ?str + 1) (replicate 100 1)))"
    by (rule BRBase58CheckEncode_fits) simp
  have "BRBase58CheckDecode (?str @ 0x30 # [0x31, 0x32]) (Some [9]) =
      (length [7 :: byte], Some ([7] @ drop (length [7 :: byte]) [9]))"
    by (rule base58check_trailing_text [OF e]) (simp_all add: b58_digit_def)
  then show ?thesis using e by blast
qed

end
