(* ===== verification/Bech32.thy ===== *)
theory Bech32
  imports Prelude
begin

text \<open>
  \<^verbatim>\<open>support/BRBech32.c\<close>: the address format of witness programs.  A decoded address is
  the pair of its prefix \<open>hrp84\<close> and the bytes written to \<open>data42\<close>, whose number is the
  return value; \<open>None\<close> is the return value 0.  The result of the encoder is the text it
  writes, its NUL included, empty when it returns 0; \<open>None\<close> is undefined behaviour.
  Characters are classified as in the C locale.
\<close>

unbundle bit_operations_syntax

definition polymod :: "u32 \<Rightarrow> u32" where
  "polymod x =
     push_bit 5 (x AND 0x1ffffff) XOR (- (drop_bit 25 x AND 1) AND 0x3b6a57b2) XOR
     (- (drop_bit 26 x AND 1) AND 0x26508e6d) XOR (- (drop_bit 27 x AND 1) AND 0x1ea119fa) XOR
     (- (drop_bit 28 x AND 1) AND 0x3d4233dd) XOR (- (drop_bit 29 x AND 1) AND 0x2a1462b3)"

definition islower :: "byte \<Rightarrow> bool" where "islower c \<longleftrightarrow> 0x61 \<le> c \<and> c \<le> 0x7a"
definition isupper :: "byte \<Rightarrow> bool" where "isupper c \<longleftrightarrow> 0x41 \<le> c \<and> c \<le> 0x5a"
definition tolower :: "byte \<Rightarrow> byte" where "tolower c = (if isupper c then c + 0x20 else c)"

definition b32_chars :: "byte list" where
  "b32_chars =
    [0x71, 0x70, 0x7a, 0x72, 0x79, 0x39, 0x78, 0x38, 0x67, 0x66, 0x32, 0x74, 0x76, 0x64, 0x77, 0x30,
     0x73, 0x33, 0x6a, 0x6e, 0x35, 0x34, 0x6b, 0x68, 0x63, 0x65, 0x36, 0x6d, 0x75, 0x61, 0x37, 0x6c]"

text \<open>The \<open>switch\<close> of the decoder: the index of a character in the alphabet, if any.\<close>

definition b32_digit :: "byte \<Rightarrow> byte option" where
  "b32_digit ch = map_option fst (find (\<lambda>(i, c). c = ch) (zip (map word_of_nat [0..<32]) b32_chars))"

section \<open>Decoding\<close>

text \<open>\<open>while (sep > 0 && addr[sep] != '1') sep--\<close> from the end of the string.\<close>

fun find_sep :: "cstring \<Rightarrow> nat \<Rightarrow> nat" where
  "find_sep addr 0 = 0"
| "find_sep addr (Suc n) = (if n + 1 < length addr \<and> addr ! (n + 1) = 0x31 then n + 1 else find_sep addr n)"

definition hrp_chk :: "cstring \<Rightarrow> u32" where
  "hrp_chk hrp =
     foldl (\<lambda>chk c. polymod chk XOR (ucast c AND 0x1f))
       (polymod (foldl (\<lambda>chk c. polymod chk XOR drop_bit 5 (ucast (tolower c))) 1 hrp)) hrp"

text \<open>The five bits \<open>c\<close> at position \<open>j\<close> go to one or two bytes.\<close>

definition b32_put :: "nat \<Rightarrow> byte \<Rightarrow> byte list \<Rightarrow> byte list" where
  "b32_put j c buf =
     (let x = j mod 8 * 5 - j mod 8 * 5 div 8 * 8; k = j div 8 * 5 + j mod 8 * 5 div 8;
          buf = buf[k := buf ! k OR drop_bit x (push_bit 3 c)]
      in if x > 3 then buf[k + 1 := buf ! (k + 1) OR push_bit (11 - x) c] else buf)"

text \<open>The last six characters are the checksum: they are not stored.\<close>

fun b32_loop :: "cstring \<Rightarrow> nat \<Rightarrow> u32 \<Rightarrow> byte list \<Rightarrow> (u32 \<times> byte list) option" where
  "b32_loop [] j chk buf = Some (chk, buf)"
| "b32_loop (ch # rest) j chk buf =
     (case b32_digit (tolower ch) of
        None \<Rightarrow> None
      | Some c \<Rightarrow> b32_loop rest (j + 1) (polymod chk XOR ucast c)
                    (if length rest < 6 then buf else b32_put j c buf))"

definition BRBech32Decode :: "cstring \<Rightarrow> (cstring \<times> byte list) option" where
  "BRBech32Decode addr =
     (if \<exists>c \<in> set addr. c < 33 \<or> c > 126 then None
      else let addrLen = length addr; sep = find_sep addr addrLen
      in if addrLen < 8 \<or> addrLen > 90 \<or> sep < 1 \<or> sep + 2 + 6 > addrLen \<or>
            ((\<exists>c \<in> set addr. isupper c) \<and> (\<exists>c \<in> set addr. islower c)) then None
         else let hrp = take sep addr
         in case b32_digit (tolower (addr ! (sep + 1))) of
              None \<Rightarrow> None
            | Some ver \<Rightarrow>
               (case b32_loop (drop (sep + 2) addr) 0 (polymod (hrp_chk hrp) XOR ucast ver) (replicate 52 0) of
                  None \<Rightarrow> None
                | Some (chk, buf) \<Rightarrow>
                   (let bufLen = (addrLen - (sep + 2 + 6)) * 5 div 8
                    in if chk \<noteq> 1 \<or> ver > 16 \<or> bufLen < 2 \<or> bufLen > 40 then None
                       else Some (map tolower hrp,
                         (if ver = 0 then 0 else ver + 0x51 - 1) # word_of_nat bufLen # take bufLen buf))))"

section \<open>Encoding\<close>

text \<open>The bytes regrouped by five bits; \<open>a\<close> is the byte before.\<close>

definition b32_split :: "nat \<Rightarrow> byte \<Rightarrow> byte \<Rightarrow> byte" where
  "b32_split x a b = (push_bit (5 - x) a OR drop_bit (3 + x) b) AND 0x1f"

fun b32_enc :: "nat \<Rightarrow> byte \<Rightarrow> byte list \<Rightarrow> byte list" where
  "b32_enc j a [] = (let x = j mod 5 * 8 - j mod 5 * 8 div 5 * 5 in if j mod 5 > 0 then [b32_split x a 0] else [])"
| "b32_enc j a (b # bs) =
     (let x = j mod 5 * 8 - j mod 5 * 8 div 5 * 5
      in b32_split x a b # (if x \<ge> 2 then [drop_bit (x - 2) b AND 0x1f] else []) @ b32_enc (j + 1) b bs)"

definition b32_checksum :: "u32 \<Rightarrow> byte list" where
  "b32_checksum chk =
     (let chk = (polymod ^^ 6) chk XOR 1 in map (\<lambda>j. ucast (drop_bit ((5 - j) * 5) chk) AND 0x1f) [0..<6])"

definition BRBech32Encode :: "cstring \<Rightarrow> byte list \<Rightarrow> byte list option" where
  "BRBech32Encode hrp data =
     (if length hrp > 84 \<or> (\<exists>c \<in> set hrp. c < 33 \<or> c > 126 \<or> isupper c) then Some []
      else if length data < 2 then None
      else if data ! 0 > 0 \<and> data ! 0 < 0x51 then Some []
      else let ver = (if data ! 0 \<ge> 0x51 then data ! 0 + 1 - 0x51 else 0); len = unat (data ! 1)
      in if ver > 16 \<or> len < 2 \<or> len > 40 \<or> length hrp + 1 + 1 + len + 6 \<ge> 91 then Some []
         else if length data < 2 + len then None
         else let vals = b32_enc 0 0 (take len (drop 2 data));
                  chk = foldl (\<lambda>chk c. polymod chk XOR ucast c) (hrp_chk hrp) (ver # vals);
                  addr = hrp @ [0x31] @ map (\<lambda>c. b32_chars ! unat c) (ver # vals @ b32_checksum chk) @ [0]
         in if length addr > 91 then None else Some addr)"

end
