(* ===== verification/Bech32_Correct.thy ===== *)
theory Bech32_Correct
  imports Bech32
begin

text \<open>
  The checksum is linear over bit vectors, so appending the six groups the encoder computes
  makes the decoder's checksum 1, and changing one character changes it; the regrouping
  of bits is undone by the decoder.
\<close>

unbundle bit_operations_syntax

section \<open>The checksum\<close>

definition sel :: "nat \<Rightarrow> u32 \<Rightarrow> u32 \<Rightarrow> u32" where
  "sel n K x = (if bit x n then K else 0)"

lemma sel_xor: "sel n K (x XOR y) = sel n K x XOR sel n K y"
  by (simp add: sel_def bit_xor_iff)

lemma neg_bit_and: "(- (drop_bit n x AND 1) AND K) = sel n K x" for x :: u32
proof -
  have "drop_bit n x AND 1 = (if bit x n then 1 else 0)"
    by (simp add: and_one_eq bit_iff_odd_drop_bit mod2_eq_if)
  then show ?thesis by (simp add: sel_def)
qed

lemma polymod_sel:
  "polymod x = push_bit 5 (x AND mask 25) XOR sel 25 0x3b6a57b2 x XOR sel 26 0x26508e6d x XOR
     sel 27 0x1ea119fa x XOR sel 28 0x3d4233dd x XOR sel 29 0x2a1462b3 x"
proof -
  have "(0x1ffffff :: u32) = mask 25" by (simp add: mask_eq_exp_minus_1)
  then show ?thesis by (simp add: polymod_def neg_bit_and)
qed

lemma polymod_xor: "polymod (x XOR y) = polymod x XOR polymod y"
proof -
  have "push_bit 5 ((x XOR y) AND mask 25) = push_bit 5 (x AND mask 25) XOR push_bit 5 (y AND mask 25)"
    by (rule bit_word_eqI) (auto simp: bit_push_bit_iff bit_and_iff bit_xor_iff)
  then show ?thesis
    by (simp only: polymod_sel sel_xor xor.assoc xor.left_commute xor.commute)
qed

lemma polymod_0 [simp]: "polymod 0 = 0"
  by (simp add: polymod_sel sel_def)

lemma polymod_pow_xor: "(polymod ^^ n) (x XOR y) = (polymod ^^ n) x XOR (polymod ^^ n) y"
  by (induction n) (simp_all add: polymod_xor)

text \<open>\<open>below n x\<close>: no bit of \<open>x\<close> at or above \<open>n\<close>.\<close>

definition below :: "nat \<Rightarrow> 'a::len word \<Rightarrow> bool" where
  "below n x \<longleftrightarrow> (\<forall>k. bit x k \<longrightarrow> k < n)"

lemma below_xor: "below n x \<Longrightarrow> below n y \<Longrightarrow> below n (x XOR y)"
  by (auto simp: below_def bit_xor_iff)

lemma below_take: "below n x \<longleftrightarrow> take_bit n x = x"
  by (metis below_def bit_take_bit_iff bit_word_eqI bit_imp_le_length)

lemma polymod_small: "below 25 x \<Longrightarrow> polymod x = push_bit 5 x"
proof -
  assume b: "below 25 x"
  then have "x AND mask 25 = x" by (simp add: below_take take_bit_eq_mask)
  moreover have "\<not> bit x n" if "25 \<le> n" for n using b that by (auto simp: below_def)
  ultimately show ?thesis by (simp add: polymod_sel sel_def)
qed

lemma below_polymod: "below 30 (polymod x)"
proof -
  have sel: "below 30 (sel n K x)" if "below 30 K" for n K using that by (simp add: sel_def below_def)
  have "below 30 (push_bit 5 (x AND mask 25))"
    by (auto simp: below_def bit_push_bit_iff bit_and_iff bit_mask_iff)
  moreover have "below 30 (0x3b6a57b2 :: u32)" "below 30 (0x26508e6d :: u32)" "below 30 (0x1ea119fa :: u32)"
    "below 30 (0x3d4233dd :: u32)" "below 30 (0x2a1462b3 :: u32)"
    by (simp_all add: below_take)
  ultimately show ?thesis unfolding polymod_sel by (intro below_xor sel)
qed

text \<open>The kernel is trivial: the low bits of the five constants are independent.\<close>

lemma take_bit_push: "take_bit n (push_bit n a XOR b) = take_bit n (b :: 'a::len word)"
  by (rule bit_word_eqI) (auto simp: bit_take_bit_iff bit_xor_iff bit_push_bit_iff)

lemma polymod_eq_0:
  assumes "below 30 x" and "polymod x = 0"
  shows "x = 0"
proof -
  have low: "take_bit 5 (polymod x) =
      take_bit 5 (sel 25 0x3b6a57b2 x XOR sel 26 0x26508e6d x XOR sel 27 0x1ea119fa x XOR
        sel 28 0x3d4233dd x XOR sel 29 0x2a1462b3 x)"
    unfolding polymod_sel by (rule take_bit_push)
  have hi: "\<not> bit x 25 \<and> \<not> bit x 26 \<and> \<not> bit x 27 \<and> \<not> bit x 28 \<and> \<not> bit x 29"
    using low unfolding assms(2) sel_def
    by (cases "bit x 25"; cases "bit x 26"; cases "bit x 27"; cases "bit x 28"; cases "bit x 29") simp_all
  have "k < 25" if "bit x k" for k
  proof (rule ccontr)
    assume "\<not> k < 25"
    moreover have "k < 30" using assms(1) that by (auto simp: below_def)
    ultimately have "k = 25 \<or> k = 26 \<or> k = 27 \<or> k = 28 \<or> k = 29" by arith
    then show False using hi that by auto
  qed
  then have b: "below 25 x" by (auto simp: below_def)
  then have "push_bit 5 x = 0" using polymod_small assms(2) by simp
  have "\<not> bit x k" for k
  proof
    assume k: "bit x k"
    then have "k < 25" using b by (auto simp: below_def)
    then have "bit (push_bit 5 x) (5 + k)" using k by (simp add: bit_push_bit_iff)
    then show False using \<open>push_bit 5 x = 0\<close> by simp
  qed
  then show ?thesis by (intro bit_word_eqI) simp
qed

abbreviation pm_step :: "u32 \<Rightarrow> byte \<Rightarrow> u32" where
  "pm_step chk c \<equiv> polymod chk XOR ucast c"

lemma pm_fold_xor: "foldl pm_step (x XOR e) cs = foldl pm_step x cs XOR (polymod ^^ length cs) e"
proof (induction cs arbitrary: x e)
  case (Cons c cs)
  have "pm_step (x XOR e) c = pm_step x c XOR polymod e"
    by (simp only: polymod_xor xor.assoc xor.left_commute xor.commute)
  then have "foldl pm_step (x XOR e) (c # cs) = foldl pm_step (pm_step x c) cs XOR (polymod ^^ length cs) (polymod e)"
    by (simp only: foldl_Cons Cons.IH)
  then show ?case by (simp only: foldl_Cons list.size funpow_Suc_right comp_apply add_0_right add_Suc_right)
qed simp

lemma polymod_pow_neq_0: "below 30 e \<Longrightarrow> e \<noteq> 0 \<Longrightarrow> (polymod ^^ n) e \<noteq> 0"
proof (induction n)
  case (Suc n)
  have "below 30 ((polymod ^^ n) e)" using Suc.prems(1) below_polymod by (cases n) simp_all
  then show ?case using Suc polymod_eq_0 by auto
qed simp

text \<open>The six groups of the encoder bring the decoder's checksum to 1.\<close>

lemma drop_push_take:
  "push_bit n (drop_bit (n + m) x) XOR take_bit n (drop_bit m x) = drop_bit m (x :: 'a::len word)"
  by (rule bit_word_eqI) (auto simp: bit_xor_iff bit_push_bit_iff bit_drop_bit_eq bit_take_bit_iff dest: bit_imp_le_length)

lemma mask5: "(0x1f :: byte) = mask 5"
  by (simp add: mask_eq_exp_minus_1)

lemma ucast_group: "(ucast (ucast y AND 0x1f :: byte) :: u32) = take_bit 5 y"
proof -
  show ?thesis unfolding mask5
    by (intro bit_word_eqI) (auto simp: bit_ucast_iff bit_and_iff bit_mask_iff bit_take_bit_iff)
qed

lemma checksum_one: "foldl pm_step C (b32_checksum C) = 1"
proof -
  define T where "T = (polymod ^^ 6) C XOR 1"
  define g :: "nat \<Rightarrow> byte" where "g j = ucast (drop_bit ((5 - j) * 5) T) AND 0x1f" for j
  have "below 30 (1 :: u32)" by (simp add: below_take)
  moreover have "below 30 ((polymod ^^ 6) C)" using below_polymod [of "(polymod ^^ 5) C"] by (simp add: numeral_eq_Suc)
  ultimately have T: "below 30 T" unfolding T_def by (intro below_xor)
  have "foldl pm_step C (map g [0..<j]) = (polymod ^^ j) C XOR drop_bit (30 - 5 * j) T" if "j \<le> 6" for j
    using that
  proof (induction j)
    case 0
    have "drop_bit 30 T = 0"
      using T by (intro bit_word_eqI) (auto simp: bit_drop_bit_eq below_def)
    then show ?case by simp
  next
    case (Suc j)
    let ?V = "drop_bit (30 - 5 * j) T" and ?m = "25 - 5 * j"
    have b: "below 25 ?V"
    proof -
      have "k < 25" if "bit T (30 - 5 * j + k)" for k
        using T that Suc.prems by (auto simp: below_def) 
      then show ?thesis by (auto simp: below_def bit_drop_bit_eq)
    qed
    have m: "30 - 5 * j = 5 + ?m" "30 - 5 * Suc j = ?m" "(5 - j) * 5 = ?m" using Suc.prems by auto
    have "foldl pm_step C (map g [0..<Suc j]) = polymod ((polymod ^^ j) C XOR ?V) XOR ucast (g j)"
      using Suc by simp
    also have "\<dots> = (polymod ^^ Suc j) C XOR (push_bit 5 ?V XOR take_bit 5 (drop_bit ?m T))"
      unfolding polymod_xor polymod_small [OF b] g_def ucast_group m(3) by (simp add: xor.assoc)
    also have "\<dots> = (polymod ^^ Suc j) C XOR drop_bit (30 - 5 * Suc j) T"
      unfolding m(1,2) drop_push_take ..
    finally show ?case .
  qed
  from this [of 6] have "foldl pm_step C (map g [0..<6]) = (polymod ^^ 6) C XOR T" by simp
  moreover have "b32_checksum C = map g [0..<6]" by (simp add: b32_checksum_def T_def g_def Let_def)
  ultimately show ?thesis by (simp add: T_def xor.assoc [symmetric])
qed

section \<open>Regrouping\<close>

fun b32_puts :: "nat \<Rightarrow> byte list \<Rightarrow> byte list \<Rightarrow> byte list" where
  "b32_puts j [] buf = buf"
| "b32_puts j (c # cs) buf = b32_puts (j + 1) cs (b32_put j c buf)"

lemma b32_puts_append: "b32_puts j (xs @ ys) buf = b32_puts (j + length xs) ys (b32_puts j xs buf)"
  by (induction xs arbitrary: j buf) simp_all

lemma b32_put_0: "b32_put j 0 buf = buf"
  by (simp add: b32_put_def Let_def)

lemma b32_puts_0: "b32_puts j (replicate n 0) buf = buf"
  by (induction n arbitrary: j) (simp_all add: b32_put_0)

text \<open>The eight groups of five bytes, wherever the block stands.\<close>

definition block_groups :: "byte \<Rightarrow> byte \<Rightarrow> byte \<Rightarrow> byte \<Rightarrow> byte \<Rightarrow> byte list" where
  "block_groups b0 b1 b2 b3 b4 =
     [b32_split 0 0 b0, b32_split 3 b0 b1, drop_bit 1 b1 AND 0x1f, b32_split 1 b1 b2, b32_split 4 b2 b3,
      drop_bit 2 b3 AND 0x1f, b32_split 2 b3 b4, b4 AND 0x1f]"

lemma b32_split_0: "b32_split 0 a b = b32_split 0 0 b"
proof -
  show ?thesis unfolding b32_split_def mask5
    by (intro bit_word_eqI) (auto simp: bit_and_iff bit_or_iff bit_push_bit_iff bit_mask_iff)
qed

lemma b32_enc_steps:
  "b32_enc (5 * q) a (b # bs) = b32_split 0 0 b # b32_enc (5 * q + 1) b bs"
  "b32_enc (5 * q + 1) a (b # bs) = b32_split 3 a b # (drop_bit 1 b AND 0x1f) # b32_enc (5 * q + 2) b bs"
  "b32_enc (5 * q + 2) a (b # bs) = b32_split 1 a b # b32_enc (5 * q + 3) b bs"
  "b32_enc (5 * q + 3) a (b # bs) = b32_split 4 a b # (drop_bit 2 b AND 0x1f) # b32_enc (5 * q + 4) b bs"
  "b32_enc (5 * q + 4) a (b # bs) = b32_split 2 a b # (b AND 0x1f) # b32_enc (5 * Suc q) b bs"
  "b32_enc (5 * q) a [] = []"
  "b32_enc (5 * q + 1) a [] = [b32_split 3 a 0]"
  "b32_enc (5 * q + 2) a [] = [b32_split 1 a 0]"
  "b32_enc (5 * q + 3) a [] = [b32_split 4 a 0]"
  "b32_enc (5 * q + 4) a [] = [b32_split 2 a 0]"
proof -
  have m: "(5 * q) mod 5 = 0" "(5 * q + 1) mod 5 = 1" "(5 * q + 2) mod 5 = 2" "(5 * q + 3) mod 5 = 3"
    "(5 * q + 4) mod 5 = 4" by (simp_all del: add_2_eq_Suc add_2_eq_Suc')
  have n: "5 * q + 1 + 1 = 5 * q + 2" "5 * q + 2 + 1 = 5 * q + 3" "5 * q + 3 + 1 = 5 * q + 4"
    "5 * q + 4 + 1 = 5 * Suc q" by simp_all
  show "b32_enc (5 * q) a (b # bs) = b32_split 0 0 b # b32_enc (5 * q + 1) b bs"
    "b32_enc (5 * q + 1) a (b # bs) = b32_split 3 a b # (drop_bit 1 b AND 0x1f) # b32_enc (5 * q + 2) b bs"
    "b32_enc (5 * q + 2) a (b # bs) = b32_split 1 a b # b32_enc (5 * q + 3) b bs"
    "b32_enc (5 * q + 3) a (b # bs) = b32_split 4 a b # (drop_bit 2 b AND 0x1f) # b32_enc (5 * q + 4) b bs"
    "b32_enc (5 * q + 4) a (b # bs) = b32_split 2 a b # (b AND 0x1f) # b32_enc (5 * Suc q) b bs"
    "b32_enc (5 * q) a [] = []"
    "b32_enc (5 * q + 1) a [] = [b32_split 3 a 0]"
    "b32_enc (5 * q + 2) a [] = [b32_split 1 a 0]"
    "b32_enc (5 * q + 3) a [] = [b32_split 4 a 0]"
    "b32_enc (5 * q + 4) a [] = [b32_split 2 a 0]"
    unfolding b32_enc.simps m n by (simp_all add: b32_split_0 [of a] del: b32_enc.simps)
qed

lemma b32_enc_block:
  "b32_enc (5 * q) a (b0 # b1 # b2 # b3 # b4 # bs) = block_groups b0 b1 b2 b3 b4 @ b32_enc (5 * Suc q) b4 bs"
  by (simp only: b32_enc_steps block_groups_def append.simps)

lemma b32_enc_tail:
  assumes "length bs < 5"
  shows "b32_enc (5 * q) a bs = take ((length bs * 8 + 4) div 5) (let b = (\<lambda>i. (bs @ replicate 5 0) ! i)
     in block_groups (b 0) (b 1) (b 2) (b 3) (b 4))"
proof -
  consider "bs = []" | b0 where "bs = [b0]" | b0 b1 where "bs = [b0, b1]" | b0 b1 b2 where "bs = [b0, b1, b2]"
    | b0 b1 b2 b3 where "bs = [b0, b1, b2, b3]"
    using assms by (auto simp: less_Suc_eq length_Suc_conv numeral_eq_Suc)
  then show ?thesis
    by cases (simp_all add: b32_enc_steps b32_enc_steps [unfolded One_nat_def add_Suc_right add_0_right]
        block_groups_def del: b32_enc.simps add_2_eq_Suc add_2_eq_Suc')
qed

lemma list_update_Cons_numeral: "(x # xs)[numeral v := y] = x # xs[pred_numeral v := y]"
  by (simp add: numeral_eq_Suc)

lemma put_steps:
  assumes "length out = 5 * q"
  shows
    "b32_put (8 * q) c (out @ a # z) = out @ (a OR push_bit 3 c) # z"
    "b32_put (8 * q + 1) c (out @ a # b # z) = out @ (a OR drop_bit 5 (push_bit 3 c)) # (b OR push_bit 6 c) # z"
    "b32_put (8 * q + 2) c (out @ a # b # z) = out @ a # (b OR drop_bit 2 (push_bit 3 c)) # z"
    "b32_put (8 * q + 3) c (out @ a # b # d # z) =
       out @ a # (b OR drop_bit 7 (push_bit 3 c)) # (d OR push_bit 4 c) # z"
    "b32_put (8 * q + 4) c (out @ a # b # d # e # z) =
       out @ a # b # (d OR drop_bit 4 (push_bit 3 c)) # (e OR push_bit 7 c) # z"
    "b32_put (8 * q + 5) c (out @ a # b # d # e # z) = out @ a # b # d # (e OR drop_bit 1 (push_bit 3 c)) # z"
    "b32_put (8 * q + 6) c (out @ a # b # d # e # f # z) =
       out @ a # b # d # (e OR drop_bit 6 (push_bit 3 c)) # (f OR push_bit 5 c) # z"
    "b32_put (8 * q + 7) c (out @ a # b # d # e # f # z) =
       out @ a # b # d # e # (f OR drop_bit 3 (push_bit 3 c)) # z"
proof -
  have m: "(8 * q) mod 8 = 0" "(8 * q + 1) mod 8 = 1" "(8 * q + 2) mod 8 = 2" "(8 * q + 3) mod 8 = 3"
    "(8 * q + 4) mod 8 = 4" "(8 * q + 5) mod 8 = 5" "(8 * q + 6) mod 8 = 6" "(8 * q + 7) mod 8 = 7"
    "(8 * q) div 8 = q" "(8 * q + 1) div 8 = q" "(8 * q + 2) div 8 = q" "(8 * q + 3) div 8 = q"
    "(8 * q + 4) div 8 = q" "(8 * q + 5) div 8 = q" "(8 * q + 6) div 8 = q" "(8 * q + 7) div 8 = q"
    by (simp_all del: add_2_eq_Suc add_2_eq_Suc')
  have n: "q * 5 = length out" using assms by simp
  show
    "b32_put (8 * q) c (out @ a # z) = out @ (a OR push_bit 3 c) # z"
    "b32_put (8 * q + 1) c (out @ a # b # z) = out @ (a OR drop_bit 5 (push_bit 3 c)) # (b OR push_bit 6 c) # z"
    "b32_put (8 * q + 2) c (out @ a # b # z) = out @ a # (b OR drop_bit 2 (push_bit 3 c)) # z"
    "b32_put (8 * q + 3) c (out @ a # b # d # z) =
       out @ a # (b OR drop_bit 7 (push_bit 3 c)) # (d OR push_bit 4 c) # z"
    "b32_put (8 * q + 4) c (out @ a # b # d # e # z) =
       out @ a # b # (d OR drop_bit 4 (push_bit 3 c)) # (e OR push_bit 7 c) # z"
    "b32_put (8 * q + 5) c (out @ a # b # d # e # z) = out @ a # b # d # (e OR drop_bit 1 (push_bit 3 c)) # z"
    "b32_put (8 * q + 6) c (out @ a # b # d # e # f # z) =
       out @ a # b # d # (e OR drop_bit 6 (push_bit 3 c)) # (f OR push_bit 5 c) # z"
    "b32_put (8 * q + 7) c (out @ a # b # d # e # f # z) =
       out @ a # b # d # e # (f OR drop_bit 3 (push_bit 3 c)) # z"
    unfolding b32_put_def m n
    by (simp_all add: Let_def nth_append list_update_append list_update_Cons_numeral)
qed

lemma byte_high: "8 \<le> n \<Longrightarrow> \<not> bit (b :: byte) n"
  by (auto dest: bit_imp_le_length)

lemma byte_eqI:
  fixes a b :: byte
  assumes "bit a 0 = bit b 0" "bit a 1 = bit b 1" "bit a 2 = bit b 2" "bit a 3 = bit b 3"
    "bit a 4 = bit b 4" "bit a 5 = bit b 5" "bit a 6 = bit b 6" "bit a 7 = bit b 7"
  shows "a = b"
proof (rule bit_word_eqI)
  fix n assume "n < LENGTH(8)"
  then have "n = 0 \<or> n = 1 \<or> n = 2 \<or> n = 3 \<or> n = 4 \<or> n = 5 \<or> n = 6 \<or> n = 7" by auto
  then show "bit a n = bit b n" using assms by (elim disjE) simp_all
qed

text \<open>The eight groups of a block put its five bytes back together.\<close>

lemma regroup:
  fixes b0 b1 b2 b3 b4 :: byte
  shows
    "push_bit 3 (b32_split 0 0 b0) OR drop_bit 5 (push_bit 3 (b32_split 3 b0 b1)) = b0"
    "push_bit 6 (b32_split 3 b0 b1) OR drop_bit 2 (push_bit 3 (drop_bit 1 b1 AND 0x1f)) OR
       drop_bit 7 (push_bit 3 (b32_split 1 b1 b2)) = b1"
    "push_bit 4 (b32_split 1 b1 b2) OR drop_bit 4 (push_bit 3 (b32_split 4 b2 b3)) = b2"
    "push_bit 7 (b32_split 4 b2 b3) OR drop_bit 1 (push_bit 3 (drop_bit 2 b3 AND 0x1f)) OR
       drop_bit 6 (push_bit 3 (b32_split 2 b3 b4)) = b3"
    "push_bit 5 (b32_split 2 b3 b4) OR drop_bit 3 (push_bit 3 (b4 AND 0x1f)) = b4"
  unfolding b32_split_def mask5
  by (rule byte_eqI; simp add: bit_or_iff bit_and_iff bit_push_bit_iff bit_drop_bit_eq bit_mask_iff byte_high
      del: push_bit_Suc drop_bit_Suc; simp add: numeral_2_eq_2 numeral_3_eq_3)+

lemma puts_block:
  assumes "length out = 5 * q"
  shows "b32_puts (8 * q) (block_groups b0 b1 b2 b3 b4) (out @ 0 # 0 # 0 # 0 # 0 # z) = out @ b0 # b1 # b2 # b3 # b4 # z"
proof -
  have n: "8 * q + 1 + 1 = 8 * q + 2" "8 * q + 2 + 1 = 8 * q + 3" "8 * q + 3 + 1 = 8 * q + 4"
    "8 * q + 4 + 1 = 8 * q + 5" "8 * q + 5 + 1 = 8 * q + 6" "8 * q + 6 + 1 = 8 * q + 7" by simp_all
  show ?thesis
    unfolding block_groups_def b32_puts.simps n put_steps [OF assms] or.left_neutral or.assoc regroup ..
qed

lemma block_groups_zeros:
  "block_groups 0 0 0 0 0 = replicate 8 0"
  "drop 2 (block_groups b0 0 0 0 0) = replicate 6 0"
  "drop 4 (block_groups b0 b1 0 0 0) = replicate 4 0"
  "drop 5 (block_groups b0 b1 b2 0 0) = replicate 3 0"
  "drop 7 (block_groups b0 b1 b2 b3 0) = replicate 1 0"
  by (simp_all add: block_groups_def b32_split_def numeral_eq_Suc)

lemma puts_tail:
  assumes "length out = 5 * q" and "drop m (block_groups b0 b1 b2 b3 b4) = replicate n 0"
  shows "b32_puts (8 * q) (take m (block_groups b0 b1 b2 b3 b4)) (out @ 0 # 0 # 0 # 0 # 0 # z) =
    out @ b0 # b1 # b2 # b3 # b4 # z"
proof -
  let ?g = "block_groups b0 b1 b2 b3 b4"
  have "b32_puts (8 * q) (take m ?g @ drop m ?g) buf = b32_puts (8 * q) (take m ?g) buf" for buf
    unfolding b32_puts_append assms(2) b32_puts_0 ..
  from this [of "out @ 0 # 0 # 0 # 0 # 0 # z"] show ?thesis
    using puts_block [OF assms(1), of b0 b1 b2 b3 b4 z] by simp
qed

lemma replicate_numeral: "replicate (numeral k) x = x # replicate (pred_numeral k) x"
  by (simp add: numeral_eq_Suc)

lemma puts_enc:
  "length out = 5 * q \<Longrightarrow> length bs + 5 \<le> n \<Longrightarrow>
   b32_puts (8 * q) (b32_enc (5 * q) a bs) (out @ replicate n 0) = out @ bs @ replicate (n - length bs) 0"
proof (induction "length bs" arbitrary: bs out q n a rule: less_induct)
  case less
  obtain n' where n: "n = 5 + n'" using less.prems(2) by (metis le_add_diff_inverse add_leD2)
  then have rep: "replicate n 0 = 0 # 0 # 0 # 0 # 0 # replicate n' (0 :: byte)" by (simp add: numeral_eq_Suc)
  show ?case
  proof (cases "length bs < 5")
    case True
    consider "bs = []" | b0 where "bs = [b0]" | b0 b1 where "bs = [b0, b1]" | b0 b1 b2 where "bs = [b0, b1, b2]"
      | b0 b1 b2 b3 where "bs = [b0, b1, b2, b3]"
      using True by (auto simp: less_Suc_eq length_Suc_conv numeral_eq_Suc)
    then show ?thesis
      unfolding b32_enc_tail [OF True] rep
      using puts_tail [OF less.prems(1) block_groups_zeros(2)] puts_tail [OF less.prems(1) block_groups_zeros(3)]
        puts_tail [OF less.prems(1) block_groups_zeros(4)] puts_tail [OF less.prems(1) block_groups_zeros(5)]
      by cases (simp_all add: Let_def n replicate_add [of _ n' 0] replicate_numeral)
  next
    case False
    then obtain b0 b1 b2 b3 b4 r where bs: "bs = b0 # b1 # b2 # b3 # b4 # r"
      by (auto simp: not_less Suc_le_length_iff numeral_eq_Suc)
    have "b32_puts (8 * Suc q) (b32_enc (5 * Suc q) b4 r) ((out @ [b0, b1, b2, b3, b4]) @ replicate n' 0) =
        (out @ [b0, b1, b2, b3, b4]) @ r @ replicate (n' - length r) 0"
      using less.prems n by (intro less.hyps) (simp_all add: bs)
    moreover have "length (block_groups b0 b1 b2 b3 b4) = 8" by (simp add: block_groups_def)
    ultimately show ?thesis
      unfolding bs b32_enc_block b32_puts_append rep puts_block [OF less.prems(1)]
      by (simp add: n add.commute)
  qed
qed

lemma length_b32_enc: "length (b32_enc (5 * q) a bs) = (8 * length bs + 4) div 5"
proof (induction "length bs" arbitrary: bs q a rule: less_induct)
  case less
  show ?case
  proof (cases "length bs < 5")
    case True
    then have "(length bs * 8 + 4) div 5 \<le> 8" by simp
    then show ?thesis unfolding b32_enc_tail [OF True] by (simp add: block_groups_def Let_def mult.commute)
  next
    case False
    then obtain b0 b1 b2 b3 b4 r where bs: "bs = b0 # b1 # b2 # b3 # b4 # r"
      by (auto simp: not_less Suc_le_length_iff numeral_eq_Suc)
    have "length (b32_enc (5 * Suc q) b4 r) = (8 * length r + 4) div 5" by (rule less.hyps) (simp add: bs)
    then show ?thesis unfolding bs b32_enc_block by (simp add: block_groups_def)
  qed
qed

lemma and_31: "unat (x AND 0x1f :: byte) < 32"
proof -
  have "x AND 0x1f = take_bit 5 x" unfolding mask5 by (simp add: take_bit_eq_mask)
  then show ?thesis
    using unsigned_take_bit_eq [of 5 x, where ?'a = nat] by (simp add: take_bit_eq_mod)
qed

lemma b32_enc_digits: "v \<in> set (b32_enc j a bs) \<Longrightarrow> unat v < 32"
  by (induction j a bs rule: b32_enc.induct) (auto simp: Let_def b32_split_def and_31 split: if_splits)

section \<open>Characters\<close>

abbreviation b32_char :: "byte \<Rightarrow> byte" where
  "b32_char v \<equiv> b32_chars ! unat v"

lemma b32_table:
  "list_all (\<lambda>i. let ch = b32_chars ! i in tolower ch = ch \<and> b32_digit ch = Some (word_of_nat i) \<and>
     ch \<noteq> 0 \<and> ch \<noteq> 0x31 \<and> 33 \<le> ch \<and> ch \<le> 126 \<and> \<not> isupper ch) [0..<32]"
  by code_simp

lemma b32_char:
  assumes "unat v < 32"
  shows "b32_digit (tolower (b32_char v)) = Some v" and "b32_char v \<noteq> 0" and "b32_char v \<noteq> 0x31"
    and "33 \<le> b32_char v" and "b32_char v \<le> 126" and "\<not> isupper (b32_char v)"
proof -
  have "unat v \<in> set [0..<32]" using assms by simp
  then show "b32_digit (tolower (b32_char v)) = Some v" "b32_char v \<noteq> 0" "b32_char v \<noteq> 0x31"
    "33 \<le> b32_char v" "b32_char v \<le> 126" "\<not> isupper (b32_char v)"
    using b32_table unfolding list_all_iff Let_def by auto
qed

lemma b32_digit_nth: "b32_digit ch = Some v \<Longrightarrow> ch = b32_char v \<and> unat v < 32"
proof -
  assume "b32_digit ch = Some v"
  then obtain c where "find (\<lambda>(i, c). c = ch) (zip (map word_of_nat [0..<32]) b32_chars) = Some (v, c)"
    by (auto simp: b32_digit_def)
  then have "\<exists>i < length (zip (map word_of_nat [0..<32] :: byte list) b32_chars).
      snd (zip (map word_of_nat [0..<32] :: byte list) b32_chars ! i) = ch \<and>
      (v, c) = zip (map word_of_nat [0..<32]) b32_chars ! i"
    unfolding find_Some_iff by (fastforce simp: case_prod_beta)
  then obtain i where "i < length (zip (map word_of_nat [0..<32] :: byte list) b32_chars)"
    "snd (zip (map word_of_nat [0..<32] :: byte list) b32_chars ! i) = ch"
    "(v, c) = zip (map word_of_nat [0..<32]) b32_chars ! i" by blast
  moreover have "length b32_chars = 32" by (simp add: b32_chars_def)
  ultimately have i: "i < 32" "v = word_of_nat i" "b32_chars ! i = ch" by auto
  moreover from i(1) have "unat (word_of_nat i :: byte) = i" by (intro unat_of_nat_small) simp
  ultimately show ?thesis by simp
qed

lemma find_sep_last:
  assumes "hrp \<noteq> []" and "0x31 \<notin> set d"
  shows "find_sep (hrp @ 0x31 # d) (length (hrp @ 0x31 # d)) = length hrp"
proof -
  have "find_sep (hrp @ 0x31 # d) (length hrp + n) = length hrp" for n
  proof (induction n)
    case 0
    then show ?case using assms(1) by (cases "length hrp") (simp_all add: nth_append)
  next
    case (Suc n)
    have "(hrp @ 0x31 # d) ! (length hrp + n + 1) \<noteq> 0x31" if "length hrp + n + 1 < length (hrp @ 0x31 # d)"
    proof -
      have "(hrp @ 0x31 # d) ! (length hrp + n + 1) = d ! n" by (simp add: nth_append)
      moreover have "d ! n \<in> set d" using that by simp
      ultimately show ?thesis using assms(2) by metis
    qed
    then show ?case using Suc.IH by simp
  qed
  from this [of "length d + 1"] show ?thesis by simp
qed

lemma find_sep_split:
  assumes "find_sep addr n = sep" and "0 < sep" and "n = length addr"
  shows "\<exists>hrp d. addr = hrp @ 0x31 # d \<and> length hrp = sep \<and> 0x31 \<notin> set d"
proof -
  have "sep < length addr \<and> addr ! sep = 0x31 \<and> (\<forall>i. sep < i \<and> i \<le> n \<and> i < length addr \<longrightarrow> addr ! i \<noteq> 0x31)"
    using assms(1,2) by (induction n) (auto split: if_splits simp: le_Suc_eq)
  then have "addr = take sep addr @ 0x31 # drop (Suc sep) addr"
    using id_take_nth_drop [of sep addr] by simp
  moreover have "0x31 \<notin> set (drop (Suc sep) addr)"
  proof
    assume "0x31 \<in> set (drop (Suc sep) addr)"
    then obtain i where "i < length addr - Suc sep" "addr ! (Suc sep + i) = 0x31"
      by (auto simp: in_set_conv_nth)
    then show False using \<open>sep < length addr \<and> _\<close> assms(3) by (auto dest!: spec [of _ "Suc sep + i"])
  qed
  moreover have "length (take sep addr) = sep"
    using \<open>sep < length addr \<and> _\<close> by simp
  ultimately show ?thesis by blast
qed

section \<open>The loop of the decoder\<close>

lemma b32_loop_chars:
  "\<forall>v \<in> set vs. unat v < 32 \<Longrightarrow>
   b32_loop (map b32_char vs) j chk buf = Some (foldl pm_step chk vs, b32_puts j (take (length vs - 6) vs) buf)"
proof (induction vs arbitrary: j chk buf)
  case (Cons v vs)
  then have "b32_digit (tolower (b32_char v)) = Some v" using b32_char by simp
  moreover have "take (length (v # vs) - 6) (v # vs) =
      (if length vs < 6 then [] else v # take (length vs - 6) vs)"
  proof (cases "length vs < 6")
    case False
    then have "length (v # vs) - 6 = Suc (length vs - 6)" by simp
    then show ?thesis using False by (simp only: take_Suc_Cons if_False)
  qed simp
  ultimately show ?case using Cons by auto
qed simp

lemma b32_loop_Some:
  "b32_loop cs j chk buf = Some (chk', buf') \<Longrightarrow>
   \<exists>vs. map (\<lambda>c. b32_digit (tolower c)) cs = map Some vs \<and> chk' = foldl pm_step chk vs"
proof (induction cs arbitrary: j chk buf)
  case (Cons c cs)
  then obtain v where v: "b32_digit (tolower c) = Some v"
    and rec: "b32_loop cs (j + 1) (pm_step chk v) (if length cs < 6 then buf else b32_put j v buf) = Some (chk', buf')"
    by (auto split: option.splits)
  from Cons.IH [OF rec] obtain vs where
    "map (\<lambda>c. b32_digit (tolower c)) cs = map Some vs \<and> chk' = foldl pm_step (pm_step chk v) vs" by blast
  then show ?case using v by (intro exI [of _ "v # vs"]) simp
qed (intro exI [of _ "[]"], simp)

section \<open>Round trip\<close>

lemma length_checksum [simp]: "length (b32_checksum chk) = 6"
  by (simp add: b32_checksum_def Let_def)

lemma checksum_digits: "v \<in> set (b32_checksum chk) \<Longrightarrow> unat v < 32"
  by (auto simp: b32_checksum_def Let_def and_31)

lemma decode_intro:
  assumes "\<not> (\<exists>c \<in> set addr. c < 33 \<or> c > 126)" and "find_sep addr (length addr) = sep"
    and "\<not> (length addr < 8 \<or> length addr > 90 \<or> sep < 1 \<or> sep + 2 + 6 > length addr)"
    and "\<not> (\<exists>c \<in> set addr. isupper c)" and "b32_digit (tolower (addr ! (sep + 1))) = Some ver"
    and "b32_loop (drop (sep + 2) addr) 0 (pm_step (hrp_chk (take sep addr)) ver) (replicate 52 0) = Some (1, buf)"
    and "ver \<le> 16" and "(length addr - (sep + 2 + 6)) * 5 div 8 = n" and "2 \<le> n" and "n \<le> 40"
  shows "BRBech32Decode addr = Some (map tolower (take sep addr),
    (if ver = 0 then 0 else ver + 0x51 - 1) # word_of_nat n # take n buf)"
  using assms by (simp add: BRBech32Decode_def Let_def not_less)

lemma decode_Some:
  assumes "BRBech32Decode addr = Some y" and "find_sep addr (length addr) = sep"
  shows "1 \<le> sep \<and> (\<exists>ver buf. b32_digit (tolower (addr ! (sep + 1))) = Some ver \<and>
    b32_loop (drop (sep + 2) addr) 0 (pm_step (hrp_chk (take sep addr)) ver) (replicate 52 0) = Some (1, buf))"
  using assms by (auto simp: BRBech32Decode_def Let_def split: if_splits option.splits)

text \<open>What decoding does with a prefix, a separator and the groups of a witness program.\<close>

lemma decode_groups:
  assumes hrp: "hrp \<noteq> []" "\<forall>c \<in> set hrp. 33 \<le> c \<and> c \<le> 126 \<and> \<not> isupper c"
    and ver: "ver \<le> 16" and prog: "2 \<le> length prog" "length prog \<le> 40"
    and len: "length hrp + 8 + length (b32_enc 0 0 prog) \<le> 90"
  defines "vals \<equiv> b32_enc 0 0 prog"
  defines "cks \<equiv> b32_checksum (foldl pm_step (hrp_chk hrp) (ver # vals))"
  shows "BRBech32Decode (hrp @ 0x31 # map b32_char (ver # vals @ cks)) =
    Some (hrp, (if ver = 0 then 0 else ver + 0x51 - 1) # word_of_nat (length prog) # prog)"
proof -
  let ?d = "map b32_char (ver # vals @ cks)"
  let ?addr = "hrp @ 0x31 # ?d"
  have dig: "\<forall>v \<in> set (ver # vals @ cks). unat v < 32"
    using ver b32_enc_digits checksum_digits by (auto simp: vals_def cks_def word_le_nat_alt)
  then have chars: "0x31 \<notin> set ?d" "\<forall>c \<in> set ?d. 33 \<le> c \<and> c \<le> 126 \<and> \<not> isupper c"
    using b32_char by fastforce+
  have sep: "find_sep ?addr (length ?addr) = length hrp" using find_sep_last [OF hrp(1) chars(1)] .
  have n: "length vals = (8 * length prog + 4) div 5" using length_b32_enc [of 0 0 prog] by (simp add: vals_def)
  have total: "length ?addr = length hrp + 8 + length vals" by (simp add: cks_def)
  have ok: "\<not> (\<exists>c \<in> set ?addr. c < 33 \<or> c > 126)" "\<not> (\<exists>c \<in> set ?addr. isupper c)"
    using hrp(2) chars(2) by (auto simp: isupper_def not_less)
  have range: "\<not> (length ?addr < 8 \<or> length ?addr > 90 \<or> length hrp < 1 \<or> length hrp + 2 + 6 > length ?addr)"
    using len hrp(1) unfolding total by (simp add: vals_def Suc_le_eq)
  have first: "b32_digit (tolower (?addr ! (length hrp + 1))) = Some ver"
    using b32_char(1) [of ver] dig by (simp add: nth_append)
  have rest: "drop (length hrp + 2) ?addr = map b32_char (vals @ cks)" by simp
  have tak: "take (length (vals @ cks) - 6) (vals @ cks) = vals" by (simp add: cks_def)
  have chk: "foldl pm_step (pm_step (hrp_chk hrp) ver) (vals @ cks) = 1"
    using checksum_one [of "foldl pm_step (hrp_chk hrp) (ver # vals)"] by (simp add: cks_def)
  have "replicate 52 (0 :: byte) = [] @ replicate 52 0" by simp
  then have puts: "b32_puts 0 vals (replicate 52 0) = prog @ replicate (52 - length prog) 0"
    using puts_enc [of "[]" 0 prog 52 0] prog(2) by (simp add: vals_def)
  have loop: "b32_loop (drop (length hrp + 2) ?addr) 0 (polymod (hrp_chk hrp) XOR ucast ver) (replicate 52 0) =
      Some (1, prog @ replicate (52 - length prog) 0)"
    unfolding rest using b32_loop_chars [of "vals @ cks" 0 "pm_step (hrp_chk hrp) ver" "replicate 52 0"] dig chk
    unfolding tak puts by simp
  have bl: "(length ?addr - (length hrp + 2 + 6)) * 5 div 8 = length prog"
  proof -
    have "(8 * p + 4) div 5 * 5 div 8 = p" for p :: nat by arith
    then show ?thesis unfolding total by (simp add: n)
  qed
  have low: "map tolower (take (length hrp) ?addr) = hrp"
    using hrp(2) by (simp add: tolower_def map_idI)
  have take: "take (length prog) (prog @ replicate (52 - length prog) 0) = prog" by simp
  show ?thesis
    using decode_intro [OF ok(1) sep range ok(2) first _ ver bl prog, of "prog @ replicate (52 - length prog) 0"] loop
    unfolding low take by simp
qed

text \<open>
  When the encoder writes an address for a non-empty prefix, decoding that text,
  up to its NUL, gives back the prefix and the witness program it was given.
\<close>

theorem bech32_roundtrip:
  assumes "BRBech32Encode hrp data = Some s" and "s \<noteq> []" and "hrp \<noteq> []"
  shows "\<exists>str. s = str @ [0] \<and> 0 \<notin> set str \<and>
    BRBech32Decode str = Some (hrp, take (2 + unat (data ! 1)) data)"
proof -
  define ver where "ver = (if data ! 0 \<ge> 0x51 then data ! 0 + 1 - 0x51 else 0)"
  define len where "len = unat (data ! 1)"
  define prog where "prog = take len (drop 2 data)"
  define vals where "vals = b32_enc 0 0 prog"
  define cks where "cks = b32_checksum (foldl pm_step (hrp_chk hrp) (ver # vals))"
  define addr where "addr = hrp @ [0x31] @ map b32_char (ver # vals @ cks) @ [0]"
  have ok: "length hrp \<le> 84" "\<forall>c \<in> set hrp. 33 \<le> c \<and> c \<le> 126 \<and> \<not> isupper c" "2 \<le> length data"
    "\<not> (data ! 0 > 0 \<and> data ! 0 < 0x51)" "ver \<le> 16" "2 \<le> len" "len \<le> 40" "2 + len \<le> length data"
    "length addr \<le> 91" and s: "s = addr"
    using assms(1,2)
    by (auto simp: BRBech32Encode_def Let_def ver_def len_def prog_def vals_def cks_def addr_def not_less not_le
        split: if_splits)
  have prog: "length prog = len" using ok by (simp add: prog_def)
  have "length hrp + 8 + length vals \<le> 90" using ok(9) by (simp add: addr_def cks_def)
  then have dec: "BRBech32Decode (hrp @ 0x31 # map b32_char (ver # vals @ cks)) =
      Some (hrp, (if ver = 0 then 0 else ver + 0x51 - 1) # word_of_nat len # prog)"
    using decode_groups [OF assms(3) ok(2,5), of prog] prog ok(6,7) by (simp add: vals_def cks_def)
  have d0: "(if ver = 0 then 0 else ver + 0x51 - 1) = data ! 0"
    using ok(4,5) by (auto simp: ver_def not_less split: if_splits)
  obtain x y zs where "data = x # y # zs"
    using ok(3) by (auto simp: Suc_le_length_iff numeral_2_eq_2)
  then have "take (2 + len) data = data ! 0 # word_of_nat len # prog"
    by (simp add: prog_def len_def)
  moreover have "0 \<notin> set (hrp @ 0x31 # map b32_char (ver # vals @ cks))"
  proof -
    have "\<forall>v \<in> set (ver # vals @ cks). unat v < 32"
      using ok(5) b32_enc_digits checksum_digits by (auto simp: vals_def cks_def word_le_nat_alt)
    then show ?thesis using ok(2) b32_char(2) by fastforce
  qed
  ultimately show ?thesis
    using dec unfolding s addr_def d0 len_def by auto
qed

theorem bech32_roundtrip_witness:
  "\<exists>s str. BRBech32Encode [0x62] [0, 2, 1, 2] = Some s \<and> s = str @ [0] \<and> 0 \<notin> set str \<and>
    BRBech32Decode str = Some ([0x62], take (2 + unat ([0, 2, 1, 2 :: byte] ! 1)) [0, 2, 1, 2])"
proof -
  obtain s where s: "BRBech32Encode [0x62] [0, 2, 1, 2] = Some s" "s \<noteq> []"
    by (simp add: BRBech32Encode_def Let_def isupper_def)
  show ?thesis using bech32_roundtrip [OF s] s by blast
qed

text \<open>
  Claim C22.  The checksum detects a substitution: when an address decodes, the text with
  one character after the separator replaced by another letter or digit, not merely the
  same letter in the other case, does not.
\<close>

theorem bech32_detects_substitution:
  assumes "BRBech32Decode (p @ c # t) = Some r" and "0x31 \<in> set p" and "0x31 \<notin> set t"
    and "c \<noteq> 0x31" and "c' \<noteq> 0x31" and "tolower c \<noteq> tolower c'"
  shows "BRBech32Decode (p @ c' # t) = None"
proof (rule ccontr)
  assume "BRBech32Decode (p @ c' # t) \<noteq> None"
  then obtain r' where r': "BRBech32Decode (p @ c' # t) = Some r'" by blast
  obtain hrp m where p: "p = hrp @ 0x31 # m" "0x31 \<notin> set m"
    using split_list_last [OF assms(2)] by blast
  have groups: "\<exists>vs. map (\<lambda>c. b32_digit (tolower c)) (m @ x # t) = map Some vs \<and> foldl pm_step (hrp_chk hrp) vs = 1"
    if dec: "BRBech32Decode (p @ x # t) = Some y" and x: "x \<noteq> 0x31" for x y
  proof -
    let ?d = "m @ x # t"
    have d: "0x31 \<notin> set ?d" using p(2) assms(3) x by simp
    have addr: "p @ x # t = hrp @ 0x31 # ?d" by (simp add: p(1))
    have hrp: "hrp \<noteq> []"
    proof
      assume "hrp = []"
      then have addr': "p @ x # t = 0x31 # ?d" using addr by simp
      have "find_sep (0x31 # d) n = 0" if "0x31 \<notin> set d" for n and d
        using that by (induction n) (auto dest: nth_mem)
      then have "find_sep (p @ x # t) (length (p @ x # t)) = 0" unfolding addr' using d by blast
      then show False using decode_Some [OF dec] by fastforce
    qed
    have sep: "find_sep (hrp @ 0x31 # ?d) (length (hrp @ 0x31 # ?d)) = length hrp" by (rule find_sep_last [OF hrp d])
    obtain e es where e: "?d = e # es" by (cases ?d) simp_all
    have "\<exists>ver buf. b32_digit (tolower e) = Some ver \<and>
        b32_loop es 0 (pm_step (hrp_chk hrp) ver) (replicate 52 0) = Some (1, buf)"
      using decode_Some [OF dec [unfolded addr] sep] unfolding e by (simp add: nth_append)
    then obtain ver buf where v: "b32_digit (tolower e) = Some ver"
      "b32_loop es 0 (pm_step (hrp_chk hrp) ver) (replicate 52 0) = Some (1, buf)" by blast
    from b32_loop_Some [OF v(2)] obtain vs where
      "map (\<lambda>c. b32_digit (tolower c)) es = map Some vs" "foldl pm_step (pm_step (hrp_chk hrp) ver) vs = 1" by auto
    then show ?thesis unfolding e using v(1) by (intro exI [of _ "ver # vs"]) simp
  qed
  obtain vs where vs: "map (\<lambda>c. b32_digit (tolower c)) (m @ c # t) = map Some vs" "foldl pm_step (hrp_chk hrp) vs = 1"
    using groups [OF assms(1,4)] by blast
  obtain ws where ws: "map (\<lambda>c. b32_digit (tolower c)) (m @ c' # t) = map Some ws" "foldl pm_step (hrp_chk hrp) ws = 1"
    using groups [OF r' assms(5)] by blast
  obtain a v b where vs': "vs = a @ v # b" "map Some a = map (\<lambda>c. b32_digit (tolower c)) m"
    "Some v = b32_digit (tolower c)" "map Some b = map (\<lambda>c. b32_digit (tolower c)) t"
    using vs(1) by (auto simp: map_eq_append_conv append_eq_map_conv Cons_eq_map_conv)
  obtain a' w b' where ws': "ws = a' @ w # b'" "map Some a' = map (\<lambda>c. b32_digit (tolower c)) m"
    "Some w = b32_digit (tolower c')" "map Some b' = map (\<lambda>c. b32_digit (tolower c)) t"
    using ws(1) by (auto simp: map_eq_append_conv append_eq_map_conv Cons_eq_map_conv)
  have same: "a' = a" "b' = b" using vs'(2,4) ws'(2,4) by (metis map_injective option.inject injI)+
  have dig: "unat v < 32" "unat w < 32" "v \<noteq> w"
    using b32_digit_nth [OF vs'(3) [symmetric]] b32_digit_nth [OF ws'(3) [symmetric]] assms(6) by auto
  let ?x = "foldl pm_step (hrp_chk hrp) a" and ?e = "(ucast v XOR ucast w) :: u32"
  have e0: "?e \<noteq> 0"
  proof
    assume "?e = 0"
    then have "(ucast v XOR ucast w) XOR ucast w = (0 XOR ucast w :: u32)" by (rule arg_cong)
    then have "(ucast v :: u32) = ucast w" by (simp add: xor.assoc)
    then have "unat (ucast v :: u32) = unat (ucast w :: u32)" by (rule arg_cong)
    then have "v = w" by (simp add: unat_ucast_up word_unat_eq_iff)
    then show False using dig(3) by simp
  qed
  have e30: "below 30 ?e"
    by (intro below_xor) (auto simp: below_def bit_ucast_iff dest: bit_imp_le_length)
  have "pm_step ?x w = pm_step ?x v XOR ?e" by (simp add: xor.assoc bit.xor_left_self)
  then have "foldl pm_step (hrp_chk hrp) ws = foldl pm_step (hrp_chk hrp) vs XOR (polymod ^^ length b) ?e"
    by (simp add: vs'(1) ws'(1) same pm_fold_xor)
  then have "1 = 1 XOR (polymod ^^ length b) ?e" using vs(2) ws(2) by simp
  then have "1 XOR 1 = 1 XOR (1 XOR (polymod ^^ length b) ?e)" by (rule arg_cong)
  then have "(polymod ^^ length b) ?e = 0" by (simp only: bit.xor_left_self xor_self_eq)
  then show False using polymod_pow_neq_0 [OF e30 e0] by blast
qed

theorem bech32_detects_substitution_witness:
  "\<exists>t r. BRBech32Decode ([0x62, 0x31] @ 0x71 # t) = Some r \<and> BRBech32Decode ([0x62, 0x31] @ 0x70 # t) = None"
proof -
  define vals where "vals = b32_enc 0 0 [1, 2]"
  define cks where "cks = b32_checksum (foldl pm_step (hrp_chk [0x62]) (0 # vals))"
  define t where "t = map b32_char (vals @ cks)"
  have vals: "length vals = 4" using length_b32_enc [of 0 0 "[1, 2]"] by (simp add: vals_def)
  have "BRBech32Decode ([0x62] @ 0x31 # map b32_char (0 # vals @ cks)) =
      Some ([0x62], (if (0 :: byte) = 0 then 0 else 0 + 0x51 - 1) # word_of_nat (length [1, 2 :: byte]) # [1, 2])"
    unfolding vals_def cks_def
    by (rule decode_groups) (use vals in \<open>simp_all add: isupper_def vals_def\<close>)
  moreover have "b32_char 0 = 0x71" by (simp add: b32_chars_def)
  ultimately have dec: "BRBech32Decode ([0x62, 0x31] @ 0x71 # t) = Some ([0x62], [0, 2, 1, 2])"
    by (simp add: t_def)
  have "\<forall>v \<in> set (vals @ cks). unat v < 32"
    using b32_enc_digits checksum_digits unfolding vals_def cks_def set_append by blast
  then have "0x31 \<notin> set t" using b32_char(3) by (fastforce simp: t_def)
  then have "BRBech32Decode ([0x62, 0x31] @ 0x70 # t) = None"
    by (intro bech32_detects_substitution [OF dec]) (simp_all add: tolower_def isupper_def)
  then show ?thesis using dec by blast
qed

end
