(* ===== verification/Address.thy ===== *)
theory Address
  imports Base58 Bech32 Ints
begin

text \<open>
  \<^verbatim>\<open>support/BRAddress.c\<close>: variable-length integers, the elements of a script, and the two
  translations between output scripts and addresses.  The model is the main network's
  (\<open>BITCOIN_TESTNET\<close> is not defined).  A pointer into a script is the list of the bytes
  from there on; \<open>None\<close> is a read past the end.
\<close>

unbundle bit_operations_syntax

section \<open>Variable-length integers\<close>

definition VAR_INT16_HEADER :: byte where "VAR_INT16_HEADER = 0xfd"
definition VAR_INT32_HEADER :: byte where "VAR_INT32_HEADER = 0xfe"
definition VAR_INT64_HEADER :: byte where "VAR_INT64_HEADER = 0xff"

text \<open>
  The value and \<open>*intLen\<close>, of the first \<open>bufLen\<close> bytes (\<open>buf\<close> holds exactly those); a
  buffer that is too short has the value 0.
\<close>

definition BRVarInt :: "byte list \<Rightarrow> u64 \<times> nat" where
  "BRVarInt buf =
     (let h = (if 1 \<le> length buf then buf ! 0 else 0)
      in if h = VAR_INT16_HEADER
         then ((if 1 + 2 \<le> length buf then ucast (word_of_le (take 2 (drop 1 buf)) :: u16) else 0), 1 + 2)
         else if h = VAR_INT32_HEADER
         then ((if 1 + 4 \<le> length buf then ucast (word_of_le (take 4 (drop 1 buf)) :: u32) else 0), 1 + 4)
         else if h = VAR_INT64_HEADER
         then ((if 1 + 8 \<le> length buf then word_of_le (take 8 (drop 1 buf)) else 0), 1 + 8)
         else (ucast h, 1))"

definition BRVarIntSet :: "u64 serialiser" where
  "BRVarIntSet i buf =
     (let put = (\<lambda>bs. case buf of None \<Rightarrow> (length bs, None)
                  | Some b \<Rightarrow> if length bs \<le> length b then (length bs, Some (wr b 0 bs)) else (0, Some b))
      in if i < ucast VAR_INT16_HEADER then put [ucast i]
         else if i \<le> 0xffff then put (VAR_INT16_HEADER # UInt16SetLE (ucast i))
         else if i \<le> 0xffffffff then put (VAR_INT32_HEADER # UInt32SetLE (ucast i))
         else put (VAR_INT64_HEADER # UInt64SetLE i))"

definition BRVarIntSize :: "u64 \<Rightarrow> nat" where
  "BRVarIntSize i = fst (BRVarIntSet i None)"

section \<open>Script elements\<close>

definition OP_0 :: byte where "OP_0 = 0x00"
definition OP_PUSHDATA1 :: byte where "OP_PUSHDATA1 = 0x4c"
definition OP_PUSHDATA2 :: byte where "OP_PUSHDATA2 = 0x4d"
definition OP_PUSHDATA4 :: byte where "OP_PUSHDATA4 = 0x4e"
definition OP_1 :: byte where "OP_1 = 0x51"
definition OP_16 :: byte where "OP_16 = 0x60"
definition OP_DUP :: byte where "OP_DUP = 0x76"
definition OP_EQUAL :: byte where "OP_EQUAL = 0x87"
definition OP_EQUALVERIFY :: byte where "OP_EQUALVERIFY = 0x88"
definition OP_HASH160 :: byte where "OP_HASH160 = 0xa9"
definition OP_CHECKSIG :: byte where "OP_CHECKSIG = 0xac"

text \<open>
  One turn of the loop: the offset and the length after the element at \<open>off\<close>.  When the
  bytes of a length are missing, \<open>len\<close> keeps the length of the element before.
\<close>

definition elem_step :: "byte list \<Rightarrow> nat \<Rightarrow> nat \<Rightarrow> nat \<times> nat" where
  "elem_step script off len =
     (let h = script ! off;
          lens = (\<lambda>n. if off + 1 + n \<le> length script then le_val (take n (drop (off + 1) script)) else len);
          (n, l) = (if h = OP_PUSHDATA1 then (1, lens 1) else if h = OP_PUSHDATA2 then (2, lens 2)
                    else if h = OP_PUSHDATA4 then (4, lens 4)
                    else (0, if h > OP_PUSHDATA4 then 0 else unat h))
      in (off + 1 + n + l, l))"

lemma elem_step_progress: "off < fst (elem_step script off len)"
  unfolding elem_step_def Let_def case_prod_beta fst_conv by linarith

text \<open>The offsets of the elements, and where the loop stopped.\<close>

function elem_loop :: "byte list \<Rightarrow> nat \<Rightarrow> nat \<Rightarrow> nat list \<times> nat" where
  "elem_loop script off len =
     (if off < length script
      then let next = elem_step script off len; (offs, end') = elem_loop script (fst next) (snd next)
           in (off # offs, end')
      else ([], off))"
  by pat_completeness auto
termination
  by (relation "measure (\<lambda>t. length (fst t) - fst (snd t))")
    (simp_all add: diff_less_mono2 elem_step_progress)

declare elem_loop.simps [simp del]

text \<open>The number returned, and the elements written to an array with room for \<open>elemsCount\<close> (NULL: \<open>None\<close>).\<close>

definition BRScriptElements :: "nat option \<Rightarrow> byte list \<Rightarrow> nat \<times> nat list" where
  "BRScriptElements elemsCount script =
     (let (offs, off) = elem_loop script 0 0
      in (if (case elemsCount of None \<Rightarrow> True | Some n \<Rightarrow> length offs \<le> n) \<and> off = length script
          then length offs else 0,
          case elemsCount of None \<Rightarrow> [] | Some n \<Rightarrow> take n offs))"

text \<open>The two calls every caller makes: count, then fill an array of that size.\<close>

definition script_elems :: "byte list \<Rightarrow> byte list list" where
  "script_elems script =
     (let n = fst (BRScriptElements None script); (count, offs) = BRScriptElements (Some n) script
      in map (\<lambda>off. drop off script) (take count offs))"

text \<open>\<open>*dataLen\<close> and the pointer to the data, NULL when there is none.\<close>

definition BRScriptData :: "byte list \<Rightarrow> (nat \<times> byte list option) option" where
  "BRScriptData elem =
     (let res = (\<lambda>n. case rd elem 1 n of None \<Rightarrow> None
                   | Some bs \<Rightarrow> Some (le_val bs, if le_val bs > 0 then Some (drop (1 + n) elem) else None))
      in case elem of [] \<Rightarrow> None
         | h # rest \<Rightarrow>
            (if h = OP_PUSHDATA1 then res 1 else if h = OP_PUSHDATA2 then res 2 else if h = OP_PUSHDATA4 then res 4
             else let l = (if h > OP_PUSHDATA4 then 0 else unat h) in Some (l, if l > 0 then Some rest else None)))"

definition push_header :: "nat \<Rightarrow> byte list" where
  "push_header dataLen =
     (if dataLen < 0x4c then [word_of_nat dataLen]
      else if dataLen < 0xff then [OP_PUSHDATA1, word_of_nat dataLen]
      else if dataLen < 0xffff then OP_PUSHDATA2 # UInt16SetLE (word_of_nat dataLen)
      else OP_PUSHDATA4 # UInt32SetLE (word_of_nat dataLen))"

definition BRScriptPushData :: "byte list serialiser" where
  "BRScriptPushData data script =
     (let h = push_header (length data); len = length h + length data
      in case script of None \<Rightarrow> (len, None)
         | Some s \<Rightarrow> if len \<le> length s then (len, Some (wr (wr s 0 h) (len - length data) data)) else (0, Some s))"

section \<open>Addresses\<close>

definition MAX_SCRIPT_LENGTH :: nat where "MAX_SCRIPT_LENGTH = 0x100"
definition BITCOIN_PUBKEY_ADDRESS :: byte where "BITCOIN_PUBKEY_ADDRESS = 106"
definition BITCOIN_SCRIPT_ADDRESS :: byte where "BITCOIN_SCRIPT_ADDRESS = 19"

text \<open>\<open>*elems[i]\<close>\<close>

abbreviation op :: "byte list list \<Rightarrow> nat \<Rightarrow> byte" where
  "op elems i \<equiv> elems ! i ! 0"

definition is_p2pkh :: "byte list list \<Rightarrow> bool" where
  "is_p2pkh elems \<longleftrightarrow> length elems = 5 \<and> op elems 0 = OP_DUP \<and> op elems 1 = OP_HASH160 \<and> op elems 2 = 20 \<and>
     op elems 3 = OP_EQUALVERIFY \<and> op elems 4 = OP_CHECKSIG"

definition is_p2sh :: "byte list list \<Rightarrow> bool" where
  "is_p2sh elems \<longleftrightarrow> length elems = 3 \<and> op elems 0 = OP_HASH160 \<and> op elems 1 = 20 \<and> op elems 2 = OP_EQUAL"

text \<open>The pointer to the key hash; NULL is \<open>Some None\<close>.\<close>

definition BRScriptPKH :: "byte list \<Rightarrow> byte list option option" where
  "BRScriptPKH script =
     (if script = [] \<or> length script > MAX_SCRIPT_LENGTH then Some None
      else let elems = script_elems script
      in if is_p2pkh elems then map_option snd (BRScriptData (elems ! 2))
         else if is_p2sh elems then map_option snd (BRScriptData (elems ! 1))
         else if length elems = 2 \<and> (op elems 0 = OP_0 \<or> op elems 0 \<ge> OP_1 \<and> op elems 0 \<le> OP_16) \<and> op elems 1 = 20
         then map_option snd (BRScriptData (elems ! 1))
         else Some None)"

text \<open>\<open>memcpy(&data[1], p, 20)\<close> and base58check of the 21 bytes.\<close>

definition encode_hash :: "byte \<Rightarrow> byte list option \<Rightarrow> byte list option \<Rightarrow> (nat \<times> byte list option) option" where
  "encode_hash version p addr =
     (case p of None \<Rightarrow> None
      | Some d \<Rightarrow> map_option (\<lambda>md. BRBase58CheckEncode (version # md) addr) (rd d 0 20))"

text \<open>\<open>"bc"\<close>\<close>

definition bech32Prefix :: cstring where "bech32Prefix = [0x62, 0x63]"

definition BRAddressFromScriptPubKey :: "byte list \<Rightarrow> byte list option \<Rightarrow> (nat \<times> byte list option) option" where
  "BRAddressFromScriptPubKey script addr =
     (if script = [] \<or> length script > MAX_SCRIPT_LENGTH then Some (0, addr)
      else let elems = script_elems script
      in if is_p2pkh elems
         then Option.bind (BRScriptData (elems ! 2)) (\<lambda>(l, p). encode_hash BITCOIN_PUBKEY_ADDRESS p addr)
         else if is_p2sh elems
         then Option.bind (BRScriptData (elems ! 1)) (\<lambda>(l, p). encode_hash BITCOIN_SCRIPT_ADDRESS p addr)
         else if length elems = 2 \<and> (op elems 0 = 65 \<or> op elems 0 = 33) \<and> op elems 1 = OP_CHECKSIG
         then Option.bind (BRScriptData (elems ! 0)) (\<lambda>(l, p).
                Option.bind (rd (case p of None \<Rightarrow> [] | Some d \<Rightarrow> d) 0 l) (\<lambda>key.
                  Some (BRBase58CheckEncode (BITCOIN_PUBKEY_ADDRESS # BRHash160 key) addr)))
         else if length elems = 2 \<and> ((op elems 0 = OP_0 \<and> (op elems 1 = 20 \<or> op elems 1 = 32)) \<or>
                (op elems 0 \<ge> OP_1 \<and> op elems 0 \<le> OP_16 \<and> op elems 1 \<ge> 2 \<and> op elems 1 \<le> 40))
         then Option.bind (BRBech32Encode bech32Prefix script) (\<lambda>a.
                case addr of None \<Rightarrow> Some (length a, None)
                | Some buf \<Rightarrow> let r = (if length a > length buf then 0 else length a)
                             in Some (r, Some (wr buf 0 (take r a))))
         else Some (0, addr))"

definition BRAddressFromScriptSig :: "byte list \<Rightarrow> byte list option \<Rightarrow> (nat \<times> byte list option) option" where
  "BRAddressFromScriptSig script addr =
     (if script = [] \<or> length script > MAX_SCRIPT_LENGTH then Some (0, addr)
      else let elems = script_elems script; count = length elems
      in if count \<ge> 2 \<and> op elems (count - 2) \<le> OP_PUSHDATA4 \<and>
            (op elems (count - 1) = 65 \<or> op elems (count - 1) = 33)
         then Option.bind (BRScriptData (elems ! (count - 1))) (\<lambda>(l, p).
                case (if l \<noteq> 65 \<and> l \<noteq> 33 then None else p) of
                  None \<Rightarrow> Some (0, addr)
                | Some d \<Rightarrow> Option.bind (rd d 0 l) (\<lambda>key.
                    Some (BRBase58CheckEncode (BITCOIN_PUBKEY_ADDRESS # BRHash160 key) addr)))
         else if count \<ge> 2 \<and> op elems (count - 2) \<le> OP_PUSHDATA4 \<and> op elems (count - 1) \<le> OP_PUSHDATA4 \<and>
            op elems (count - 1) > 0
         then Option.bind (BRScriptData (elems ! (count - 1))) (\<lambda>(l, p).
                case p of
                  None \<Rightarrow> Some (0, addr)
                | Some d \<Rightarrow> Option.bind (rd d 0 l) (\<lambda>key.
                    Some (BRBase58CheckEncode (BITCOIN_SCRIPT_ADDRESS # BRHash160 key) addr)))
         else Some (0, addr))"

definition BRAddressFromWitness :: "byte list \<Rightarrow> byte list option \<Rightarrow> nat \<times> byte list option" where
  "BRAddressFromWitness witness addr = (0, addr)"

definition BRAddressFromHash160 :: "byte list \<Rightarrow> byte list option \<Rightarrow> (nat \<times> byte list option) option" where
  "BRAddressFromHash160 md20 addr =
     Option.bind (rd md20 0 20) (\<lambda>md. Option.bind (BRBech32Encode bech32Prefix (0 # 20 # md)) (\<lambda>a.
       case addr of None \<Rightarrow> Some (length a, None)
       | Some buf \<Rightarrow> if length a \<le> length buf then Some (length a, Some (wr buf 0 a)) else Some (0, Some buf)))"

text \<open>The bytes put into a caller's buffer when they fit.\<close>

definition put_script :: "byte list \<Rightarrow> byte list option \<Rightarrow> nat \<times> byte list option" where
  "put_script bs script =
     (case script of None \<Rightarrow> (length bs, None)
      | Some s \<Rightarrow> if length bs \<le> length s then (length bs, Some (wr s 0 bs)) else (0, Some s))"

text \<open>The contents of \<open>data\<close> when base58check decoding returns 21.\<close>

definition decode21 :: "cstring \<Rightarrow> byte list option" where
  "decode21 addr =
     (case BRBase58CheckDecode addr (Some (replicate 42 0)) of
        (n, Some data) \<Rightarrow> if n = 21 then Some (take 21 data) else None
      | _ \<Rightarrow> None)"

definition witness_ok :: "cstring \<times> byte list \<Rightarrow> bool" where
  "witness_ok = (\<lambda>(hrp, data). length data > 2 \<and> hrp = bech32Prefix \<and>
     (data ! 0 \<noteq> OP_0 \<or> data ! 1 = 20 \<or> data ! 1 = 32))"

definition BRAddressScriptPubKey :: "cstring \<Rightarrow> byte list option \<Rightarrow> nat \<times> byte list option" where
  "BRAddressScriptPubKey addr script =
     (case decode21 addr of
        Some data \<Rightarrow>
          (if data ! 0 = BITCOIN_PUBKEY_ADDRESS
           then put_script ([OP_DUP, OP_HASH160, 20] @ drop 1 data @ [OP_EQUALVERIFY, OP_CHECKSIG]) script
           else if data ! 0 = BITCOIN_SCRIPT_ADDRESS
           then put_script ([OP_HASH160, 20] @ drop 1 data @ [OP_EQUAL]) script
           else (0, script))
      | None \<Rightarrow>
          (case BRBech32Decode addr of
             None \<Rightarrow> (0, script)
           | Some (hrp, data) \<Rightarrow> if witness_ok (hrp, data) then put_script data script else (0, script)))"

definition BRAddressHash160 :: "cstring \<Rightarrow> byte list option" where
  "BRAddressHash160 addr =
     (case decode21 addr of
        Some data \<Rightarrow> Some (drop 1 data)
      | None \<Rightarrow> (case BRBech32Decode addr of
                  Some (hrp, data) \<Rightarrow> if length data = 22 then Some (drop 2 data) else None
                | None \<Rightarrow> None))"

definition BRAddressIsValid :: "cstring \<Rightarrow> bool" where
  "BRAddressIsValid addr =
     (case decode21 addr of
        Some data \<Rightarrow> data ! 0 = BITCOIN_PUBKEY_ADDRESS \<or> data ! 0 = BITCOIN_SCRIPT_ADDRESS
      | None \<Rightarrow> (case BRBech32Decode addr of None \<Rightarrow> False | Some d \<Rightarrow> witness_ok d))"

text \<open>The hash and the equality of addresses in a hash table.\<close>

definition BRAddressHash :: "cstring \<Rightarrow> nat" where
  "BRAddressHash addr = unat (BRMurmur3_32 addr 0)"

definition BRAddressEq :: "cstring \<Rightarrow> cstring \<Rightarrow> bool" where
  "BRAddressEq addr otherAddr \<longleftrightarrow> take 75 addr = take 75 otherAddr"

end
