(* ===== verification/Address_Correct.thy ===== *)
theory Address_Correct
  imports Address Base58_Correct Bech32_Correct
begin

text \<open>
  Variable-length integers and data pushes are serialisers of the two-phase kind and are
  read back as written; the output scripts the wallet recognises and the addresses written
  for them determine each other.
\<close>

unbundle bit_operations_syntax

section \<open>Variable-length integers\<close>

definition varint :: "u64 \<Rightarrow> byte list" where
  "varint i = (if i < 0xfd then bytes_le 1 i else if i \<le> 0xffff then 0xfd # bytes_le 2 i
     else if i \<le> 0xffffffff then 0xfe # bytes_le 4 i else 0xff # bytes_le 8 i)"

lemma length_varint: "length (varint i) \<le> 9" "0 < length (varint i)"
  by (simp_all add: varint_def bytes_le_def)

lemma bytes_le_ucast: "8 * n \<le> LENGTH('b) \<Longrightarrow> bytes_le n (ucast (w :: 'a::len word) :: 'b::len word) = bytes_le n w"
proof (rule nth_equalityI)
  fix i assume n: "8 * n \<le> LENGTH('b)" and "i < length (bytes_le n (ucast w :: 'b word))"
  then have i: "i < n" by simp
  then have "8 * i + k < LENGTH('b)" if "k < 8" for k using n that by linarith
  then have "byte_at (ucast w :: 'b word) i = byte_at w i"
    by (intro bit_word_eqI) (auto simp: bit_byte_at bit_ucast_iff dest: bit_imp_le_length)
  then show "bytes_le n (ucast w :: 'b word) ! i = bytes_le n w ! i" using i by simp
qed simp

lemma bytes_le_1: "bytes_le 1 (w :: u64) = [ucast w]"
  by (simp add: bytes_le_def byte_at_def)

lemma BRVarIntSet_put:
  "BRVarIntSet i buf = (case buf of None \<Rightarrow> (length (varint i), None)
     | Some b \<Rightarrow> if length (varint i) \<le> length b then (length (varint i), Some (wr b 0 (varint i))) else (0, Some b))"
  by (cases buf) (simp_all add: BRVarIntSet_def varint_def Let_def VAR_INT16_HEADER_def VAR_INT32_HEADER_def VAR_INT64_HEADER_def
      UInt16SetLE_bytes UInt32SetLE_bytes UInt64SetLE_bytes bytes_le_ucast bytes_le_1 [simplified])

interpretation varint: two_phase "\<lambda>_. True" BRVarIntSet varint
  by unfold_locales (simp_all add: BRVarIntSet_put wr_def)

lemma BRVarIntSize_varint: "BRVarIntSize i = length (varint i)"
  by (simp add: BRVarIntSize_def varint.null_call)

lemma word_of_le_small:
  assumes "unat (i :: u64) < 2 ^ (8 * n)" and "LENGTH('b) = 8 * n"
  shows "ucast (word_of_le (bytes_le n i) :: 'b::len word) = i"
proof -
  have "le_val (bytes_le n i) = le_val (bytes_le n (ucast i :: 'b word))"
    using assms(2) by (simp add: bytes_le_ucast)
  also have "\<dots> = unat (ucast i :: 'b word)" using assms(2) by (rule le_val_bytes_le)
  also have "\<dots> = unat i" using assms by (simp add: unat_ucast_mod)
  finally have "unat (word_of_le (bytes_le n i) :: 'b word) = unat i"
    using assms(2) by (simp add: unat_word_of_le)
  moreover have "unat i < 2 ^ 64" using unat_bound [of i] by simp
  ultimately show ?thesis
    by (intro word_unat_eq_iff [THEN iffD2]) (simp add: unat_ucast_mod)
qed

lemma BRVarInt_varint: "BRVarInt (varint i @ rest) = (i, length (varint i))"
proof -
  consider "unat i < 253" | "253 \<le> unat i" "unat i < 2 ^ 16" | "2 ^ 16 \<le> unat i" "unat i < 2 ^ 32"
    | "2 ^ 32 \<le> unat i" by linarith
  then show ?thesis
  proof cases
    case 1
    then have h: "unat (ucast i :: byte) = unat i" by (simp add: unat_ucast_mod)
    then have "(ucast i :: byte) \<notin> {0xfd, 0xfe, 0xff}" using 1 by (auto simp: word_unat_eq_iff)
    moreover have "(ucast (ucast i :: byte) :: u64) = i"
      using h by (intro word_unat_eq_iff [THEN iffD2]) (simp add: unat_ucast_mod)
    ultimately show ?thesis using 1
      by (simp add: BRVarInt_def varint_def word_less_nat_alt bytes_le_1 [simplified]
          VAR_INT16_HEADER_def VAR_INT32_HEADER_def VAR_INT64_HEADER_def Let_def)
  next
    case 2
    then show ?thesis using word_of_le_small [of i 2, where ?'b = 16]
      by (simp add: BRVarInt_def varint_def word_less_nat_alt word_le_nat_alt VAR_INT16_HEADER_def Let_def)
  next
    case 3
    then show ?thesis using word_of_le_small [of i 4, where ?'b = 32]
      by (simp add: BRVarInt_def varint_def word_less_nat_alt word_le_nat_alt VAR_INT16_HEADER_def
          VAR_INT32_HEADER_def Let_def)
  next
    case 4
    then show ?thesis
      by (simp add: BRVarInt_def varint_def word_less_nat_alt word_le_nat_alt VAR_INT16_HEADER_def
          VAR_INT32_HEADER_def VAR_INT64_HEADER_def Let_def word_of_le_bytes_le)
  qed
qed

text \<open>
  A variable-length integer is read back as it was written, whatever follows it,
  with the length that \<open>BRVarIntSize\<close> announces, and the encoding is the shortest of the
  four forms.
\<close>

theorem varint_roundtrip:
  assumes "BRVarIntSet i (Some buf) = (n, Some out)" and "n \<noteq> 0"
  shows "n = BRVarIntSize i \<and> BRVarInt out = (i, n) \<and> BRVarInt (take n out) = (i, n) \<and>
    n = (if unat i < 253 then 1 else if unat i < 2 ^ 16 then 3 else if unat i < 2 ^ 32 then 5 else 9)"
proof -
  have le: "length (varint i) \<le> length buf" using assms by (auto simp: BRVarIntSet_put split: if_splits)
  then have n: "n = length (varint i)" and out: "out = varint i @ drop n buf"
    using varint.fits [of i buf] assms(1) by auto
  have "length (varint i) = (if unat i < 253 then 1 else if unat i < 2 ^ 16 then 3 else if unat i < 2 ^ 32 then 5 else 9)"
    by (auto simp: varint_def word_less_nat_alt word_le_nat_alt)
  then show ?thesis
    using BRVarInt_varint [of i "drop n buf"] BRVarInt_varint [of i "[]"] unfolding out n BRVarIntSize_varint by simp
qed

theorem varint_roundtrip_witness:
  "BRVarInt [0xfd, 0x39, 0x30, 7] = (12345, 3)"
proof -
  have "BRVarIntSet 12345 (Some [0, 0, 0, 7]) = (3, Some [0xfd, 0x39, 0x30, 7])"
    by code_simp
  from varint_roundtrip [OF this] show ?thesis by simp
qed

section \<open>Scripts\<close>

text \<open>A script as a list of items: an opcode that pushes nothing, or a push of data.\<close>

datatype script_item = Op byte | Push "byte list"

fun item_ok :: "script_item \<Rightarrow> bool" where
  "item_ok (Op b) \<longleftrightarrow> b > OP_PUSHDATA4"
| "item_ok (Push d) \<longleftrightarrow> length d < 2 ^ 32"

fun item_bytes :: "script_item \<Rightarrow> byte list" where
  "item_bytes (Op b) = [b]"
| "item_bytes (Push d) = push_header (length d) @ d"

definition script_bytes :: "script_item list \<Rightarrow> byte list" where
  "script_bytes its = concat (map item_bytes its)"

lemma script_bytes_simps [simp]:
  "script_bytes [] = []" "script_bytes (it # its) = item_bytes it @ script_bytes its"
  by (simp_all add: script_bytes_def)

interpretation push: two_phase "\<lambda>_. True" BRScriptPushData "\<lambda>d. item_bytes (Push d)"
proof
  fix d buf :: "byte list"
  let ?h = "push_header (length d)"
  show "BRScriptPushData d None = (length (item_bytes (Push d)), None)"
    by (simp add: BRScriptPushData_def Let_def)
  show "BRScriptPushData d (Some buf) =
      (length (item_bytes (Push d)), Some (item_bytes (Push d) @ drop (length (item_bytes (Push d))) buf))"
    if "length (item_bytes (Push d)) \<le> length buf"
    using that by (simp add: BRScriptPushData_def Let_def wr_def add.commute)
  show "fst (BRScriptPushData d (Some buf)) = 0" if "length buf < length (item_bytes (Push d))"
    using that by (simp add: BRScriptPushData_def Let_def)
qed

lemma unat_of_nat_8: "n < 256 \<Longrightarrow> unat (word_of_nat n :: byte) = n"
  by (intro unat_of_nat_small) simp

lemma op_defs: "OP_PUSHDATA1 = 0x4c" "OP_PUSHDATA2 = 0x4d" "OP_PUSHDATA4 = 0x4e"
  by (simp_all add: OP_PUSHDATA1_def OP_PUSHDATA2_def OP_PUSHDATA4_def)

text \<open>The header of a push, seen by the two readers.\<close>

lemma push_header_cases:
  assumes "n < 2 ^ 32"
  obtains (small) h where "push_header n = [h]" "unat h = n" "n < 0x4c"
    | (one) bs where "push_header n = OP_PUSHDATA1 # bs" "length bs = 1" "le_val bs = n" "0x4c \<le> n"
    | (two) bs where "push_header n = OP_PUSHDATA2 # bs" "length bs = 2" "le_val bs = n" "0x4c \<le> n"
    | (four) bs where "push_header n = OP_PUSHDATA4 # bs" "length bs = 4" "le_val bs = n" "0x4c \<le> n"
proof -
  consider "n < 0x4c" | "0x4c \<le> n" "n < 0xff" | "0xff \<le> n" "n < 0xffff" | "0xffff \<le> n" by linarith
  then show thesis
  proof cases
    case 1
    then show ?thesis by (intro small [of "word_of_nat n"]) (simp_all add: push_header_def unat_of_nat_8)
  next
    case 2
    then show ?thesis by (intro one [of "[word_of_nat n]"]) (simp_all add: push_header_def unat_of_nat_8)
  next
    case 3
    then show ?thesis
      by (intro two [of "bytes_le 2 (word_of_nat n :: u16)"])
        (simp_all add: push_header_def UInt16SetLE_bytes le_val_bytes_le unat_of_nat_small)
  next
    case 4
    then show ?thesis
      using assms by (intro four [of "bytes_le 4 (word_of_nat n :: u32)"])
        (simp_all add: push_header_def UInt32SetLE_bytes le_val_bytes_le unat_of_nat_small)
  qed
qed

lemma elem_step_item:
  assumes "item_ok it" and "off = length pre"
  shows "fst (elem_step (pre @ item_bytes it @ post) off len) = off + length (item_bytes it)"
proof (cases it)
  case (Op b)
  then show ?thesis using assms by (auto simp: elem_step_def Let_def op_defs nth_append)
next
  case (Push d)
  then have "length d < 2 ^ 32" using assms(1) by simp
  then show ?thesis
  proof (cases rule: push_header_cases)
    case (small h)
    then have "h \<noteq> 0x4c \<and> h \<noteq> 0x4d \<and> h \<noteq> 0x4e \<and> \<not> h > 0x4e"
      by (auto simp: word_less_nat_alt)
    then show ?thesis using small assms(2) by (simp add: elem_step_def Let_def Push op_defs nth_append)
  next
    case (one bs)
    then show ?thesis using assms(2) by (simp add: elem_step_def Let_def Push op_defs nth_append)
  next
    case (two bs)
    then show ?thesis using assms(2) by (simp add: elem_step_def Let_def Push op_defs nth_append)
  next
    case (four bs)
    then show ?thesis using assms(2) by (simp add: elem_step_def Let_def Push op_defs nth_append)
  qed
qed

lemma BRScriptData_push:
  assumes "length d < 2 ^ 32"
  shows "BRScriptData (item_bytes (Push d) @ rest) = Some (length d, if d = [] then None else Some (d @ rest))"
  using assms
proof (cases rule: push_header_cases)
  case (small h)
  then have "h \<noteq> 0x4c \<and> h \<noteq> 0x4d \<and> h \<noteq> 0x4e \<and> \<not> h > 0x4e"
    by (auto simp: word_less_nat_alt)
  then show ?thesis using small by (simp add: BRScriptData_def Let_def op_defs)
next
  case (one bs)
  then show ?thesis by (auto simp: BRScriptData_def Let_def op_defs rd_def)
next
  case (two bs)
  then show ?thesis by (auto simp: BRScriptData_def Let_def op_defs rd_def)
next
  case (four bs)
  then show ?thesis by (auto simp: BRScriptData_def Let_def op_defs rd_def)
qed

text \<open>Where the items of a script start.\<close>

fun starts :: "nat \<Rightarrow> script_item list \<Rightarrow> nat list" where
  "starts off [] = []"
| "starts off (it # its) = off # starts (off + length (item_bytes it)) its"

lemma item_bytes_pos [simp]: "item_ok it \<Longrightarrow> 0 < length (item_bytes it)"
  by (cases it) (auto simp: push_header_def)

lemma elem_loop_items:
  assumes "\<forall>it \<in> set its. item_ok it" and "off = length pre"
  shows "elem_loop (pre @ script_bytes its) off len = (starts off its, off + length (script_bytes its))"
  using assms
proof (induction its arbitrary: pre off len)
  case Nil
  then show ?case by (subst elem_loop.simps) simp
next
  case (Cons it its)
  let ?s = "pre @ item_bytes it @ script_bytes its"
  have step: "fst (elem_step ?s off len) = length (pre @ item_bytes it)"
    using elem_step_item [of it off pre "script_bytes its" len] Cons.prems by simp
  have "elem_loop ((pre @ item_bytes it) @ script_bytes its) (length (pre @ item_bytes it)) l =
      (starts (length (pre @ item_bytes it)) its, length (pre @ item_bytes it) + length (script_bytes its))" for l
    using Cons.prems by (intro Cons.IH) simp_all
  then have rec: "elem_loop ?s (fst (elem_step ?s off len)) l =
      (starts (off + length (item_bytes it)) its, length ?s)" for l
    unfolding step using Cons.prems(2) by simp
  have off: "off < length ?s" using Cons.prems item_bytes_pos [of it] by simp
  have len: "length ?s = off + length (script_bytes (it # its))" using Cons.prems(2) by simp
  have "elem_loop ?s off len = (starts off (it # its), length ?s)"
    by (subst elem_loop.simps) (simp only: off if_True Let_def rec prod.case starts.simps)
  then show ?case unfolding len by simp
qed

lemma length_starts [simp]: "length (starts off its) = length its"
  by (induction its arbitrary: off) simp_all

lemma script_elems_items:
  assumes "\<forall>it \<in> set its. item_ok it"
  shows "script_elems (script_bytes its) = map (\<lambda>off. drop off (script_bytes its)) (starts 0 its)"
  using elem_loop_items [OF assms, of 0 "[]" 0]
  by (simp add: script_elems_def BRScriptElements_def Let_def)

lemma nth_starts: "k < length its \<Longrightarrow> starts off its ! k = off + length (script_bytes (take k its))"
  by (induction its arbitrary: off k) (auto simp: nth_Cons split: nat.split)

lemma drop_script: "drop (length (script_bytes (take k its))) (script_bytes its) = script_bytes (drop k its)"
  by (metis append_eq_conv_conj append_take_drop_id concat_append map_append script_bytes_def)

text \<open>
  The parser of scripts finds exactly the items of a script built from opcodes
  and data pushes, and reading the data of a push element gives the data that was pushed.
\<close>

theorem script_items_parse:
  assumes "\<forall>it \<in> set its. item_ok it"
  shows "fst (BRScriptElements None (script_bytes its)) = length its \<and>
    length (script_elems (script_bytes its)) = length its \<and>
    (\<forall>k < length its. script_elems (script_bytes its) ! k = script_bytes (drop k its) \<and>
       (\<forall>d. its ! k = Push d \<longrightarrow> BRScriptData (script_elems (script_bytes its) ! k) =
          Some (length d, if d = [] then None else Some (d @ script_bytes (drop (k + 1) its)))))"
proof -
  have el: "script_elems (script_bytes its) ! k = script_bytes (drop k its)" if "k < length its" for k
    using that by (simp add: script_elems_items [OF assms] nth_starts drop_script)
  moreover have "BRScriptData (script_bytes (drop k its)) =
      Some (length d, if d = [] then None else Some (d @ script_bytes (drop (k + 1) its)))"
    if "k < length its" "its ! k = Push d" for k d
  proof -
    have "drop k its = Push d # drop (k + 1) its" using that by (metis Cons_nth_drop_Suc Suc_eq_plus1)
    moreover have "length d < 2 ^ 32" using assms that nth_mem by fastforce
    ultimately show ?thesis by (simp only: script_bytes_simps BRScriptData_push)
  qed
  moreover have "fst (BRScriptElements None (script_bytes its)) = length its"
    using elem_loop_items [OF assms, of 0 "[]" 0] by (simp add: BRScriptElements_def)
  ultimately show ?thesis by (simp add: script_elems_items [OF assms])
qed

theorem script_items_parse_witness:
  "length (script_elems (script_bytes [Op OP_DUP, Push (replicate 300 7)])) = 2 \<and>
    BRScriptData (script_elems (script_bytes [Op OP_DUP, Push (replicate 300 7)]) ! 1) =
      Some (300, Some (replicate 300 7))"
proof -
  have "\<forall>it \<in> set [Op OP_DUP, Push (replicate 300 7)]. item_ok it"
    by (simp add: OP_DUP_def OP_PUSHDATA4_def)
  from script_items_parse [OF this] show ?thesis by (auto dest: spec [of _ 1])
qed

section \<open>Addresses\<close>

definition pkh_script :: "byte list \<Rightarrow> byte list" where
  "pkh_script h = [OP_DUP, OP_HASH160, 20] @ h @ [OP_EQUALVERIFY, OP_CHECKSIG]"

definition sh_script :: "byte list \<Rightarrow> byte list" where
  "sh_script h = [OP_HASH160, 20] @ h @ [OP_EQUAL]"

lemmas opcode_defs = OP_0_def OP_PUSHDATA1_def OP_PUSHDATA2_def OP_PUSHDATA4_def OP_1_def OP_16_def OP_DUP_def
  OP_EQUAL_def OP_EQUALVERIFY_def OP_HASH160_def OP_CHECKSIG_def

lemma push20: "length h = 20 \<Longrightarrow> item_bytes (Push h) = 20 # h"
  by (simp add: push_header_def)

lemma pkh_script_elems:
  assumes "length h = 20"
  shows "script_elems (pkh_script h) =
    [pkh_script h, drop 1 (pkh_script h), 20 # h @ [OP_EQUALVERIFY, OP_CHECKSIG], [OP_EQUALVERIFY, OP_CHECKSIG], [OP_CHECKSIG]]"
proof -
  let ?its = "[Op OP_DUP, Op OP_HASH160, Push h, Op OP_EQUALVERIFY, Op OP_CHECKSIG]"
  have "script_bytes ?its = pkh_script h" using push20 [OF assms] by (simp add: pkh_script_def)
  moreover have "\<forall>it \<in> set ?its. item_ok it" using assms by (simp add: opcode_defs)
  ultimately show ?thesis
    using script_elems_items [of ?its] push20 [OF assms] assms by (simp add: pkh_script_def)
qed

lemma sh_script_elems:
  assumes "length h = 20"
  shows "script_elems (sh_script h) = [sh_script h, 20 # h @ [OP_EQUAL], [OP_EQUAL]]"
proof -
  let ?its = "[Op OP_HASH160, Push h, Op OP_EQUAL]"
  have "script_bytes ?its = sh_script h" using push20 [OF assms] by (simp add: sh_script_def)
  moreover have "\<forall>it \<in> set ?its. item_ok it" using assms by (simp add: opcode_defs)
  ultimately show ?thesis
    using script_elems_items [of ?its] push20 [OF assms] assms by (simp add: sh_script_def)
qed

lemma data20: "length h = 20 \<Longrightarrow> BRScriptData (20 # h @ rest) = Some (20, Some (h @ rest))"
  using BRScriptData_push [of h rest] push20 [of h] by auto

lemma BRAddressFromScriptPubKey_scripts:
  assumes "length h = 20"
  shows "BRAddressFromScriptPubKey (pkh_script h) addr = Some (BRBase58CheckEncode (BITCOIN_PUBKEY_ADDRESS # h) addr)"
    and "BRAddressFromScriptPubKey (sh_script h) addr = Some (BRBase58CheckEncode (BITCOIN_SCRIPT_ADDRESS # h) addr)"
    and "BRScriptPKH (pkh_script h) = Some (Some (h @ [OP_EQUALVERIFY, OP_CHECKSIG]))"
    and "BRScriptPKH (sh_script h) = Some (Some (h @ [OP_EQUAL]))"
proof -
  have p: "is_p2pkh (script_elems (pkh_script h))" "length (pkh_script h) = 25" "pkh_script h \<noteq> []"
    "script_elems (pkh_script h) ! 2 = 20 # h @ [OP_EQUALVERIFY, OP_CHECKSIG]"
    using assms unfolding pkh_script_elems [OF assms] by (simp_all add: is_p2pkh_def pkh_script_def)
  have s: "\<not> is_p2pkh (script_elems (sh_script h))" "is_p2sh (script_elems (sh_script h))"
    "length (sh_script h) = 23" "sh_script h \<noteq> []" "script_elems (sh_script h) ! 1 = 20 # h @ [OP_EQUAL]"
    using assms unfolding sh_script_elems [OF assms] by (simp_all add: is_p2pkh_def is_p2sh_def sh_script_def)
  show "BRAddressFromScriptPubKey (pkh_script h) addr = Some (BRBase58CheckEncode (BITCOIN_PUBKEY_ADDRESS # h) addr)"
    using p assms
    by (simp add: BRAddressFromScriptPubKey_def MAX_SCRIPT_LENGTH_def Let_def data20 encode_hash_def rd_def)
  show "BRAddressFromScriptPubKey (sh_script h) addr = Some (BRBase58CheckEncode (BITCOIN_SCRIPT_ADDRESS # h) addr)"
    using s assms
    by (simp add: BRAddressFromScriptPubKey_def MAX_SCRIPT_LENGTH_def Let_def data20 encode_hash_def rd_def)
  show "BRScriptPKH (pkh_script h) = Some (Some (h @ [OP_EQUALVERIFY, OP_CHECKSIG]))"
    using p assms by (simp add: BRScriptPKH_def MAX_SCRIPT_LENGTH_def Let_def data20)
  show "BRScriptPKH (sh_script h) = Some (Some (h @ [OP_EQUAL]))"
    using s assms by (simp add: BRScriptPKH_def MAX_SCRIPT_LENGTH_def Let_def data20)
qed

text \<open>Reading back what base58check wrote for 21 bytes.\<close>

lemma decode21_encoded:
  assumes "length d = 21" and "no_digit_first junk"
  shows "decode21 (b58_encoded (d @ take 4 (BRSHA256_2 d)) @ junk) = Some d"
  using BRBase58CheckDecode_encoded [OF assms(2), of d "replicate 42 0"] assms(1)
  by (simp add: decode21_def)

lemma version_bytes: "BITCOIN_PUBKEY_ADDRESS \<noteq> BITCOIN_SCRIPT_ADDRESS"
  by (simp add: BITCOIN_PUBKEY_ADDRESS_def BITCOIN_SCRIPT_ADDRESS_def)

text \<open>
  The address written for a pay-to-pubkey-hash or pay-to-script-hash output is
  valid, its hash is the one in the script, which \<open>BRScriptPKH\<close> also finds, and the script
  rebuilt from the address is the script it was written for.
\<close>

theorem address_script_roundtrip:
  assumes "length h = 20" and "script \<in> {pkh_script h, sh_script h}"
    and "BRAddressFromScriptPubKey script (Some buf) = Some (n, Some out)" and "n \<noteq> 0"
  shows "\<exists>str rest. out = str @ 0 # drop n buf \<and> n = length str + 1 \<and> 0 \<notin> set str \<and>
    BRAddressIsValid str \<and> BRAddressHash160 str = Some h \<and> BRScriptPKH script = Some (Some (h @ rest)) \<and>
    BRAddressScriptPubKey str None = (length script, None) \<and>
    (\<forall>buf2. length script \<le> length buf2 \<longrightarrow>
       BRAddressScriptPubKey str (Some buf2) = (length script, Some (script @ drop (length script) buf2)))"
proof -
  obtain v where v: "BRBase58CheckEncode (v # h) (Some buf) = (n, Some out)"
    "script = pkh_script h \<and> v = BITCOIN_PUBKEY_ADDRESS \<or> script = sh_script h \<and> v = BITCOIN_SCRIPT_ADDRESS"
    using assms(2,3) BRAddressFromScriptPubKey_scripts(1,2) [OF assms(1), of "Some buf"] by auto
  define str where "str = b58_encoded ((v # h) @ take 4 (BRSHA256_2 (v # h)))"
  have written: "BRBase58CheckEncode (v # h) (Some buf) = (length str + 1, Some (str @ 0 # drop n buf))"
    "n = length str + 1" "0 \<notin> set str" "out = str @ 0 # drop n buf"
    using BRBase58CheckEncode_written [OF v(1) assms(4)] b58_encoded_no_NUL v(1) unfolding str_def by auto
  have dec: "decode21 str = Some (v # h)"
    using decode21_encoded [of "v # h" "[]"] assms(1) unfolding str_def by simp
  have put: "BRAddressScriptPubKey str b = put_script script b" for b
    using v(2) version_bytes by (auto simp: BRAddressScriptPubKey_def dec pkh_script_def sh_script_def)
  obtain rest where "BRScriptPKH script = Some (Some (h @ rest))"
    using v(2) BRAddressFromScriptPubKey_scripts(3,4) [OF assms(1)] by auto
  then show ?thesis
    using v(2) dec written(2,3,4)
    by - (rule exI [of _ str], rule exI [of _ rest],
        auto simp: put put_script_def wr_def BRAddressIsValid_def BRAddressHash160_def)
qed

theorem address_script_roundtrip_witness:
  "\<exists>n out str rest. BRAddressFromScriptPubKey (pkh_script (replicate 20 7)) (Some (replicate 100 1)) = Some (n, Some out) \<and>
    out = str @ 0 # drop n (replicate 100 1) \<and> n = length str + 1 \<and> 0 \<notin> set str \<and>
    BRAddressIsValid str \<and> BRAddressHash160 str = Some (replicate 20 7) \<and>
    BRScriptPKH (pkh_script (replicate 20 7)) = Some (Some (replicate 20 7 @ rest)) \<and>
    BRAddressScriptPubKey str None = (25, None)"
proof -
  have len: "length (replicate 20 (7 :: byte)) = 20" by simp
  obtain n out where e: "BRAddressFromScriptPubKey (pkh_script (replicate 20 7)) (Some (replicate 100 1)) = Some (n, Some out)"
    "n \<noteq> 0"
    using BRBase58CheckEncode_fits [of "BITCOIN_PUBKEY_ADDRESS # replicate 20 7" "replicate 100 1"]
    by (auto simp: BRAddressFromScriptPubKey_scripts [OF len])
  have "length (pkh_script (replicate 20 7)) = 25" by (simp add: pkh_script_def)
  then show ?thesis
    using address_script_roundtrip [OF len _ e] e by fastforce
qed

end
