(* ===== verification/MerkleBlock.thy ===== *)
theory MerkleBlock
  imports Address "HOL-Library.Monad_Syntax"
begin

text \<open>
  \<^verbatim>\<open>bitcoin/BRMerkleBlock.c\<close>: block headers with a partial Merkle tree, the part of the proof
  of work that a light client checks.  A pointer to an allocated array is the list of its
  elements, NULL is \<open>None\<close>; the counts kept beside the arrays are words of their own, because
  nothing makes them agree with the arrays.  A result \<open>None\<close> is a failed \<open>assert\<close>, an access
  outside an array, or a call that does not return.
\<close>

unbundle bit_operations_syntax

definition MAX_PROOF_OF_WORK :: u32 where "MAX_PROOF_OF_WORK = 0x1e0ffff0"
definition TARGET_TIMESPAN :: int where "TARGET_TIMESPAN = 14 * 24 * 60 * 60"
definition BLOCK_DIFFICULTY_INTERVAL :: u32 where "BLOCK_DIFFICULTY_INTERVAL = 2016"
definition BLOCK_UNKNOWN_HEIGHT :: u32 where "BLOCK_UNKNOWN_HEIGHT = 0x7fffffff"
definition BLOCK_MAX_TIME_DRIFT :: u32 where "BLOCK_MAX_TIME_DRIFT = 2 * 60 * 60"

record BRMerkleBlock =
  blockHash :: UInt256
  version :: u32
  prevBlock :: UInt256
  merkleRoot :: UInt256
  timestamp :: u32
  target :: u32
  nonce :: u32
  totalTx :: u32
  hashes :: "UInt256 list option"
  hashesCount :: u64
  flags :: "byte list option"
  flagsLen :: u64
  height :: u32

text \<open>The loop \<open>while ((x >>= 1) != 0) r++\<close> on a signed \<open>x\<close>: for a negative one it never ends.\<close>

partial_function (option) log2_loop :: "int \<Rightarrow> nat \<Rightarrow> nat option" where
  "log2_loop x r = (let x' = x div 2 in if x' \<noteq> 0 then log2_loop x' (r + 1) else Some r)"

definition ceil_log2 :: "int \<Rightarrow> nat option" where
  "ceil_log2 x = log2_loop x (if and x (x - 1) \<noteq> 0 then 1 else 0)"

section \<open>Construction\<close>

definition BRMerkleBlockNew :: BRMerkleBlock where
  "BRMerkleBlockNew =
     \<lparr>blockHash = 0, version = 0, prevBlock = 0, merkleRoot = 0, timestamp = 0, target = 0, nonce = 0, totalTx = 0,
      hashes = None, hashesCount = 0, flags = None, flagsLen = 0, height = BLOCK_UNKNOWN_HEIGHT\<rparr>"

text \<open>\<open>memcpy\<close> of \<open>n\<close> elements of an array to a new one; none is allocated when \<open>n\<close> is 0.\<close>

definition copy_array :: "'a list option \<Rightarrow> u64 \<Rightarrow> 'a list option option" where
  "copy_array src n =
     (if n = 0 then Some None
      else case src of None \<Rightarrow> None | Some xs \<Rightarrow> if unat n \<le> length xs then Some (Some (take (unat n) xs)) else None)"

definition BRMerkleBlockSetTxHashes ::
    "BRMerkleBlock \<Rightarrow> UInt256 list option \<Rightarrow> u64 \<Rightarrow> byte list option \<Rightarrow> u64 \<Rightarrow> BRMerkleBlock option" where
  "BRMerkleBlockSetTxHashes block hs hsCount fs fsLen =
     do {
       hs' \<leftarrow> copy_array hs hsCount;
       fs' \<leftarrow> copy_array fs fsLen;
       Some (block\<lparr>hashes := hs', flags := fs'\<rparr>)
     }"

definition BRMerkleBlockCopy :: "BRMerkleBlock \<Rightarrow> BRMerkleBlock option" where
  "BRMerkleBlockCopy block =
     BRMerkleBlockSetTxHashes (block\<lparr>hashes := None, flags := None\<rparr>)
       (hashes block) (hashesCount block) (flags block) (flagsLen block)"

section \<open>Parsing and serialising\<close>

fun u256s :: "byte list \<Rightarrow> UInt256 list" where
  "u256s bs = (if length bs < 32 then [] else word_of_le (take 32 bs) # u256s (drop 32 bs))"

declare u256s.simps [simp del]

text \<open>
  \<open>(off + len <= bufLen) ? malloc(len) : NULL\<close>, and the copy of \<open>len\<close> bytes.  The sum wraps
  around; \<open>malloc\<close> fails for the sizes of \<open>2 ^ 63\<close> and more that this would let through.
\<close>

definition grab :: "byte list \<Rightarrow> u64 \<Rightarrow> u64 \<Rightarrow> byte list option" where
  "grab buf off len =
     (if unat (off + len) \<le> length buf \<and> unat len < 2 ^ 63 then Some (take (unat len) (drop (unat off) buf)) else None)"

definition BRMerkleBlockParse :: "byte list \<Rightarrow> BRMerkleBlock option option" where
  "BRMerkleBlockParse buf =
     (if length buf < 80 then Some None
      else do {
        ver \<leftarrow> UInt32GetLE buf;
        prev \<leftarrow> UInt256Get (drop 4 buf);
        root \<leftarrow> UInt256Get (drop 36 buf);
        time \<leftarrow> UInt32GetLE (drop 68 buf);
        tgt \<leftarrow> UInt32GetLE (drop 72 buf);
        non \<leftarrow> UInt32GetLE (drop 76 buf);
        let block = BRMerkleBlockNew\<lparr>version := ver, prevBlock := prev, merkleRoot := root, timestamp := time,
          target := tgt, nonce := non\<rparr>;
        block \<leftarrow> (if 80 + 4 \<le> length buf then do {
          total \<leftarrow> UInt32GetLE (drop 80 buf);
          let (hsCount, len) = BRVarInt (drop 84 buf);
          let off = 84 + word_of_nat len;
          let hs = grab buf off (hsCount * 32);
          let off = off + hsCount * 32;
          let (fsLen, len) = BRVarInt (drop (unat off) buf);
          let off = off + word_of_nat len;
          let fs = grab buf off fsLen;
          Some (block\<lparr>totalTx := total, hashes := map_option u256s hs, hashesCount := hsCount, flags := fs, flagsLen := fsLen\<rparr>)
        } else Some block);
        Some (Some (block\<lparr>blockHash := word_of_le (BRSHA256_2 (take 80 buf))\<rparr>))
      })"

text \<open>The bytes of the header, and of \<open>n\<close> elements of an array; nothing is copied from NULL.\<close>

definition header_bytes :: "BRMerkleBlock \<Rightarrow> byte list" where
  "header_bytes block = UInt32SetLE (version block) @ UInt256Set (prevBlock block) @ UInt256Set (merkleRoot block) @
     UInt32SetLE (timestamp block) @ UInt32SetLE (target block) @ UInt32SetLE (nonce block)"

definition put_array :: "('a \<Rightarrow> byte list) \<Rightarrow> 'a list option \<Rightarrow> u64 \<Rightarrow> nat \<Rightarrow> byte list \<Rightarrow> byte list option" where
  "put_array enc src n off buf =
     (case src of None \<Rightarrow> Some buf
      | Some xs \<Rightarrow> if unat n \<le> length xs then Some (wr buf off (concat (map enc (take (unat n) xs)))) else None)"

text \<open>A varint at an offset of the buffer: the number of bytes and the buffer.\<close>

definition put_varint :: "u64 \<Rightarrow> nat \<Rightarrow> byte list \<Rightarrow> nat \<times> byte list" where
  "put_varint i off buf =
     (case BRVarIntSet i (Some (drop off buf)) of
        (n, Some rest) \<Rightarrow> (n, take off buf @ rest)
      | (n, None) \<Rightarrow> (n, buf))"

definition serialized_len :: "BRMerkleBlock \<Rightarrow> u64" where
  "serialized_len block =
     80 + (if totalTx block > 0
       then 4 + word_of_nat (BRVarIntSize (hashesCount block)) + hashesCount block * 32 +
         word_of_nat (BRVarIntSize (flagsLen block)) + flagsLen block
       else 0)"

definition BRMerkleBlockSerialize :: "BRMerkleBlock \<Rightarrow> byte list option \<Rightarrow> (nat \<times> byte list option) option" where
  "BRMerkleBlockSerialize block buf =
     (let len = unat (serialized_len block)
      in case buf of
           None \<Rightarrow> Some (len, None)
         | Some b \<Rightarrow>
             if length b < len then Some (0, Some b)
             else let b = wr b 0 (header_bytes block)
             in if totalTx block > 0 then do {
                  let b = wr b 80 (UInt32SetLE (totalTx block));
                  let (n, b) = put_varint (hashesCount block) 84 b;
                  b \<leftarrow> put_array UInt256Set (hashes block) (hashesCount block) (84 + n) b;
                  let off = 84 + n + unat (hashesCount block * 32);
                  let (m, b) = put_varint (flagsLen block) off b;
                  b \<leftarrow> put_array (\<lambda>f. [f]) (flags block) (flagsLen block) (off + m) b;
                  Some (len, Some b)
                } else Some (len, Some b))"

section \<open>The walk for the transaction hashes\<close>

record tx_walk =
  txHashes :: "UInt256 list"
  idx :: nat
  hashIdx :: nat
  flagIdx :: nat

definition flag_at :: "BRMerkleBlock \<Rightarrow> nat \<Rightarrow> bool option" where
  "flag_at block i =
     (case flags block of None \<Rightarrow> None
      | Some fs \<Rightarrow> if i div 8 < length fs then Some (fs ! (i div 8) AND push_bit (i mod 8) 1 \<noteq> 0) else None)"

definition hash_at :: "BRMerkleBlock \<Rightarrow> nat \<Rightarrow> UInt256 option" where
  "hash_at block i = (case hashes block of None \<Rightarrow> None | Some hs \<Rightarrow> if i < length hs then Some (hs ! i) else None)"

text \<open>\<open>room\<close> is the size of the caller's array, \<open>None\<close> for NULL.\<close>

partial_function (option) tx_hashes_R :: "BRMerkleBlock \<Rightarrow> nat option \<Rightarrow> nat \<Rightarrow> tx_walk \<Rightarrow> tx_walk option" where
  "tx_hashes_R block room depth w =
     (if flagIdx w div 8 < unat (flagsLen block) \<and> hashIdx w < unat (hashesCount block) then do {
        flag \<leftarrow> flag_at block (flagIdx w);
        let w = w\<lparr>flagIdx := flagIdx w + 1\<rparr>;
        stop \<leftarrow> (if \<not> flag then Some True else map_option (\<lambda>d. depth = d) (ceil_log2 (sint (totalTx block))));
        if stop then do {
          w \<leftarrow> (if flag \<and> idx w < (case room of None \<Rightarrow> 2 ^ 64 - 1 | Some n \<Rightarrow> n) then do {
             h \<leftarrow> (if room = None then Some [] else map_option (\<lambda>h. [h]) (hash_at block (hashIdx w)));
             Some (w\<lparr>txHashes := txHashes w @ h, idx := idx w + 1\<rparr>)
           } else Some w);
          Some (w\<lparr>hashIdx := hashIdx w + 1\<rparr>)
        } else do {
          w \<leftarrow> tx_hashes_R block room (depth + 1) w;
          tx_hashes_R block room (depth + 1) w
        }
      } else Some w)"

definition BRMerkleBlockTxHashes :: "BRMerkleBlock \<Rightarrow> nat option \<Rightarrow> (nat \<times> UInt256 list) option" where
  "BRMerkleBlockTxHashes block room =
     map_option (\<lambda>w. (idx w, txHashes w))
       (tx_hashes_R block room 0 \<lparr>txHashes = [], idx = 0, hashIdx = 0, flagIdx = 0\<rparr>)"

section \<open>The Merkle root\<close>

text \<open>\<open>BRSHA256_2\<close> of the concatenation of two hashes.\<close>

definition hash_pair :: "UInt256 \<Rightarrow> UInt256 \<Rightarrow> UInt256" where
  "hash_pair a b = word_of_le (BRSHA256_2 (bytes_le 32 a @ bytes_le 32 b))"

partial_function (option) root_R :: "BRMerkleBlock \<Rightarrow> nat \<Rightarrow> nat \<Rightarrow> nat \<Rightarrow> (UInt256 \<times> nat \<times> nat) option" where
  "root_R block depth hIdx fIdx =
     (if fIdx div 8 < unat (flagsLen block) \<and> hIdx < unat (hashesCount block) then do {
        flag \<leftarrow> flag_at block fIdx;
        let fIdx = fIdx + 1;
        inner \<leftarrow> (if flag then map_option (\<lambda>d. depth \<noteq> d) (ceil_log2 (sint (totalTx block))) else Some False);
        if inner then do {
          (left, hIdx, fIdx) \<leftarrow> root_R block (depth + 1) hIdx fIdx;
          (right, hIdx, fIdx) \<leftarrow> root_R block (depth + 1) hIdx fIdx;
          if \<not> UInt256IsZero left \<and> \<not> UInt256Eq left right
          then Some (hash_pair left (if UInt256IsZero right then left else right), hIdx, fIdx)
          else Some (0, SIZE_MAX, fIdx)
        } else map_option (\<lambda>h. (h, hIdx + 1, fIdx)) (hash_at block hIdx)
      } else Some (0, hIdx, fIdx))"

declare log2_loop.simps [code] tx_hashes_R.simps [code] root_R.simps [code]

section \<open>Validity\<close>

text \<open>The proof-of-work loop on the bytes from the most significant one down.\<close>

fun pow_loop :: "byte list \<Rightarrow> byte list \<Rightarrow> bool" where
  "pow_loop (h # hs) (t # ts) = (if h < t then True else if h > t then False else pow_loop hs ts)"
| "pow_loop _ _ = True"

text \<open>The 32 bytes of \<open>t\<close>; for a size above 32 the four bytes go past its end.\<close>

definition target_bytes :: "u32 \<Rightarrow> byte list option" where
  "target_bytes compact =
     (let size = unat (drop_bit 24 compact); tgt = compact AND 0x007fffff
      in if size > 3
         then (if size - 3 + 4 \<le> 32 then Some (wr (replicate 32 0) (size - 3) (UInt32SetLE tgt)) else None)
         else Some (wr (replicate 32 0) 0 (UInt32SetLE (drop_bit ((3 - size) * 8) tgt))))"

definition BRMerkleBlockIsValid :: "BRMerkleBlock \<Rightarrow> u32 \<Rightarrow> bool option" where
  "BRMerkleBlockIsValid block currentTime =
     do {
       (root, _, _) \<leftarrow> root_R block 0 0 0;
       let tgt = target block AND 0x007fffff;
       let r = (\<not> (totalTx block > 0 \<and> \<not> UInt256Eq root (merkleRoot block)) \<and>
         \<not> timestamp block > currentTime + BLOCK_MAX_TIME_DRIFT \<and>
         \<not> (tgt = 0 \<or> target block AND 0x00800000 \<noteq> 0 \<or> target block > MAX_PROOF_OF_WORK));
       t \<leftarrow> target_bytes (target block);
       Some (r \<and> pow_loop (rev (bytes_le 32 (blockHash block))) (rev t))
     }"

text \<open>The loop over the hashes.\<close>

definition BRMerkleBlockContainsTxHash :: "BRMerkleBlock \<Rightarrow> UInt256 \<Rightarrow> bool option" where
  "BRMerkleBlockContainsTxHash block txHash =
     (if UInt256IsZero txHash then None
      else let n = unat (hashesCount block); hs = (case hashes block of None \<Rightarrow> [] | Some hs \<Rightarrow> hs)
      in if \<exists>h \<in> set (take n hs). UInt256Eq h txHash then Some True
         else if length hs < n then None else Some False)"

section \<open>The difficulty\<close>

function normalize_loop :: "int \<Rightarrow> u64 \<Rightarrow> int \<times> u64" where
  "normalize_loop sz tgt =
     (if sz < 1 \<or> tgt > 0x007fffff then normalize_loop (sz + 1) (drop_bit 8 tgt) else (sz, tgt))"
  by pat_completeness auto
termination
proof (relation "measure (\<lambda>(sz, tgt). nat (1 - sz) + unat tgt)", goal_cases)
  case (2 sz tgt)
  have "unat (drop_bit 8 tgt) \<le> unat tgt" by (simp add: unat_drop_bit_div)
  moreover have "unat (drop_bit 8 tgt) < unat tgt" if "tgt > 0x007fffff"
    using that by (simp add: unat_drop_bit_div word_less_nat_alt)
  ultimately show ?case using 2 by (cases "sz < 1") auto
qed simp

declare normalize_loop.simps [simp del]

definition clamp_timespan :: "int \<Rightarrow> int" where
  "clamp_timespan timespan =
     (let t = (if timespan < TARGET_TIMESPAN div 4 then TARGET_TIMESPAN div 4 else timespan)
      in if t > TARGET_TIMESPAN * 4 then TARGET_TIMESPAN * 4 else t)"

text \<open>The compact target after a transition.\<close>

definition next_target :: "BRMerkleBlock \<Rightarrow> u32 \<Rightarrow> u64" where
  "next_target previous transitionTime =
     (let sz = uint (drop_bit 24 (target previous));
          tgt = ucast (target previous AND 0x007fffff) :: u64;
          timespan = clamp_timespan (uint (timestamp previous) - uint transitionTime);
          tgt = tgt * word_of_int timespan div word_of_int (TARGET_TIMESPAN div 256);
          (sz, tgt) = normalize_loop (sz - 1) tgt;
          tgt = tgt OR push_bit 24 (word_of_int sz)
      in if tgt > ucast MAX_PROOF_OF_WORK then ucast MAX_PROOF_OF_WORK else tgt)"

definition BRMerkleBlockVerifyDifficulty :: "BRMerkleBlock \<Rightarrow> BRMerkleBlock \<Rightarrow> u32 \<Rightarrow> bool" where
  "BRMerkleBlockVerifyDifficulty block previous transitionTime =
     (if \<not> UInt256Eq (prevBlock block) (blockHash previous) \<or> height block \<noteq> height previous + 1 then False
      else if height block mod BLOCK_DIFFICULTY_INTERVAL = 0
      then transitionTime \<noteq> 0 \<and> ucast (target block) = next_target previous transitionTime
      else target block = target previous)"

definition BRMerkleBlockHash :: "BRMerkleBlock \<Rightarrow> nat" where
  "BRMerkleBlockHash block = unat (u32_of (blockHash block) 0)"

definition BRMerkleBlockEq :: "BRMerkleBlock \<Rightarrow> BRMerkleBlock \<Rightarrow> bool" where
  "BRMerkleBlockEq block otherBlock \<longleftrightarrow> UInt256Eq (blockHash block) (blockHash otherBlock)"

end
