(* ===== verification/MerkleBlock_Correct.thy ===== *)
theory MerkleBlock_Correct
  imports MerkleBlock Address_Correct
begin

text \<open>
  What a light client may conclude from a block with a partial Merkle tree, and what it may
  not; the two walks return, parsing undoes serialising, and the proof-of-work loop compares
  numbers.
\<close>

unbundle bit_operations_syntax

section \<open>The height of the tree\<close>

lemma log2_loop_pos: "0 < x \<Longrightarrow> \<exists>k. log2_loop x r = Some (r + k) \<and> 2 ^ k \<le> x \<and> x < 2 ^ (k + 1)"
proof (induction "nat x" arbitrary: x r rule: less_induct)
  case less
  show ?case
  proof (cases "x = 1")
    case True
    then show ?thesis by (subst log2_loop.simps) (auto intro!: exI [of _ 0])
  next
    case False
    then have "0 < x div 2" "nat (x div 2) < nat x" using less.prems by auto
    from less.hyps [OF this(2,1), of "r + 1"] obtain k where
      k: "log2_loop (x div 2) (r + 1) = Some (r + 1 + k)" "2 ^ k \<le> x div 2" "x div 2 < 2 ^ (k + 1)" by auto
    have "2 * p \<le> x \<longleftrightarrow> p \<le> x div 2" for p by presburger
    from this [of "2 ^ k"] this [of "2 ^ (k + 1)"] have "2 ^ (k + 1) \<le> x" "x < 2 ^ (k + 2)" using k(2,3) by simp_all
    moreover have "log2_loop x r = Some (r + (k + 1))"
      using \<open>0 < x div 2\<close> k(1) by (subst log2_loop.simps) (simp add: Let_def)
    ultimately show ?thesis by (intro exI [of _ "k + 1"]) simp
  qed
qed

lemma ceil_log2_nonneg: "0 \<le> x \<Longrightarrow> \<exists>d. ceil_log2 x = Some d"
proof (cases "x = 0")
  case True
  then show ?thesis unfolding ceil_log2_def by (subst log2_loop.simps) simp
next
  case False
  assume "0 \<le> x"
  then show ?thesis using log2_loop_pos [of x] False by (force simp: ceil_log2_def)
qed

text \<open>The shift of a negative number never reaches 0.\<close>

lemma log2_loop_Some:
  assumes "log2_loop x r = Some y"
  shows "0 \<le> x"
proof -
  have "(case (x, r) of (x, r) \<Rightarrow> \<lambda>y. 0 \<le> x) y"
  proof (rule log2_loop.raw_induct [of "\<lambda>x r y. 0 \<le> x"], goal_cases)
    case (1 f x r y)
    then show ?case using "1"(1) [of "x div 2" "r + 1" y] by (cases "x div 2 = 0") (auto simp: Let_def)
  next
    case 2
    then show ?case using assms by simp
  qed
  then show ?thesis by simp
qed

lemma ceil_log2_neg: "x < 0 \<Longrightarrow> ceil_log2 x = None"
  using log2_loop_Some unfolding ceil_log2_def by (meson not_None_eq not_le)

lemma sint_neg_u32: "sint (x :: u32) < 0 \<longleftrightarrow> 2 ^ 31 \<le> unat x"
proof -
  have "sint x < 0 \<longleftrightarrow> bit (uint x) 31" by (simp add: sint_uint)
  also have "\<dots> \<longleftrightarrow> bit (unat x) 31" by (simp add: bit_unsigned_iff)
  also have "\<dots> \<longleftrightarrow> odd (unat x div 2 ^ 31)" by (rule bit_iff_odd)
  also have "\<dots> \<longleftrightarrow> 2 ^ 31 \<le> unat x"
  proof -
    have "unat x < 2 ^ 32" using unat_bound [of x] by simp
    then have "unat x div 2 ^ 31 < 2" by simp
    then have "odd (unat x div 2 ^ 31) \<longleftrightarrow> unat x div 2 ^ 31 \<noteq> 0" by (metis One_nat_def less_2_cases odd_one even_zero)
    then show ?thesis by (simp add: div_greater_zero_iff)
  qed
  finally show ?thesis .
qed

section \<open>The walks return\<close>

text \<open>The arrays are as long as the counts say.\<close>

definition arrays_ok :: "BRMerkleBlock \<Rightarrow> bool" where
  "arrays_ok block \<longleftrightarrow>
     (hashesCount block \<noteq> 0 \<longrightarrow> (\<exists>hs. hashes block = Some hs \<and> unat (hashesCount block) \<le> length hs)) \<and>
     (flagsLen block \<noteq> 0 \<longrightarrow> (\<exists>fs. flags block = Some fs \<and> unat (flagsLen block) \<le> length fs))"

text \<open>A node is there at these positions.\<close>

definition avail :: "BRMerkleBlock \<Rightarrow> nat \<Rightarrow> nat \<Rightarrow> bool" where
  "avail block hi fi \<longleftrightarrow> fi div 8 < unat (flagsLen block) \<and> hi < unat (hashesCount block)"

lemma arrays_at:
  assumes "arrays_ok block" and "avail block hi fi"
  shows "\<exists>f. flag_at block fi = Some f" and "\<exists>h. hash_at block hi = Some h"
proof -
  have "flagsLen block \<noteq> 0" "hashesCount block \<noteq> 0" using assms(2) by (auto simp: avail_def)
  then show "\<exists>f. flag_at block fi = Some f" "\<exists>h. hash_at block hi = Some h"
    using assms unfolding arrays_ok_def avail_def flag_at_def hash_at_def by (fastforce, fastforce)
qed

lemma root_R_returns:
  assumes "arrays_ok block" and "ceil_log2 (sint (totalTx block)) = Some D"
  shows "\<exists>md hi' fi'. root_R block depth hi fi = Some (md, hi', fi') \<and> fi \<le> fi'"
proof (induction "8 * unat (flagsLen block) - fi" arbitrary: depth hi fi rule: less_induct)
  case less
  show ?case
  proof (cases "avail block hi fi")
    case False
    then show ?thesis by (subst root_R.simps) (auto simp: avail_def)
  next
    case True
    then obtain f h where fh: "flag_at block fi = Some f" "hash_at block hi = Some h" using arrays_at [OF assms(1)] by blast
    have dec: "8 * unat (flagsLen block) - fi' < 8 * unat (flagsLen block) - fi" if "fi + 1 \<le> fi'" for fi'
      using True that by (auto simp: avail_def)
    obtain l hi1 fi1 where l: "root_R block (depth + 1) hi (fi + 1) = Some (l, hi1, fi1)" "fi + 1 \<le> fi1"
      using less [OF dec [of "fi + 1"], of "depth + 1" hi] by auto
    obtain r hi2 fi2 where "root_R block (depth + 1) hi1 fi1 = Some (r, hi2, fi2)" "fi1 \<le> fi2"
      using less [OF dec [OF l(2)], of "depth + 1" hi1] by auto
    then show ?thesis
      using True fh l assms(2) by (subst root_R.simps) (auto simp: avail_def Let_def)
  qed
qed

lemma tx_hashes_R_returns:
  assumes "arrays_ok block" and "ceil_log2 (sint (totalTx block)) = Some D"
  shows "\<exists>w'. tx_hashes_R block room depth w = Some w' \<and> flagIdx w \<le> flagIdx w'"
proof (induction "8 * unat (flagsLen block) - flagIdx w" arbitrary: depth w rule: less_induct)
  case less
  show ?case
  proof (cases "avail block (hashIdx w) (flagIdx w)")
    case False
    then show ?thesis by (subst tx_hashes_R.simps) (auto simp: avail_def)
  next
    case True
    let ?w = "w\<lparr>flagIdx := flagIdx w + 1\<rparr>"
    obtain f h where fh: "flag_at block (flagIdx w) = Some f" "hash_at block (hashIdx w) = Some h"
      using arrays_at [OF assms(1) True] by blast
    have dec: "8 * unat (flagsLen block) - fi' < 8 * unat (flagsLen block) - flagIdx w" if "flagIdx w + 1 \<le> fi'" for fi'
      using True that by (auto simp: avail_def)
    obtain w1 where l: "tx_hashes_R block room (depth + 1) ?w = Some w1" "flagIdx w + 1 \<le> flagIdx w1"
      using less [of ?w "depth + 1"] dec by auto
    obtain w2 where "tx_hashes_R block room (depth + 1) w1 = Some w2" "flagIdx w1 \<le> flagIdx w2"
      using less [of w1 "depth + 1"] dec [OF l(2)] by auto
    then show ?thesis
      using True fh l assms(2)
      by (subst tx_hashes_R.simps) (cases f; cases "depth = D"; auto simp: avail_def Let_def)
  qed
qed

text \<open>
  The two walks of the partial tree return whatever the flags are, when the block
  states fewer than \<open>2 ^ 31\<close> transactions and its arrays are as long as it says; with more,
  the height computed from the signed count does not exist and both walks hang as soon as
  the root is flagged.
\<close>

theorem merkle_walks_return:
  assumes "arrays_ok block"
  shows "(unat (totalTx block) < 2 ^ 31 \<longrightarrow>
      BRMerkleBlockTxHashes block room \<noteq> None \<and> root_R block 0 0 0 \<noteq> None) \<and>
    (2 ^ 31 \<le> unat (totalTx block) \<and> avail block 0 0 \<and> flag_at block 0 = Some True \<longrightarrow>
      BRMerkleBlockTxHashes block room = None \<and> BRMerkleBlockIsValid block now = None)"
proof (intro conjI impI)
  assume "unat (totalTx block) < 2 ^ 31"
  then have "0 \<le> sint (totalTx block)" using sint_neg_u32 [of "totalTx block"] by simp
  then obtain D where "ceil_log2 (sint (totalTx block)) = Some D" using ceil_log2_nonneg by blast
  from root_R_returns [OF assms this, of 0 0 0]
    tx_hashes_R_returns [OF assms this, of room 0 "\<lparr>txHashes = [], idx = 0, hashIdx = 0, flagIdx = 0\<rparr>"]
  show "BRMerkleBlockTxHashes block room \<noteq> None" "root_R block 0 0 0 \<noteq> None"
    by (auto simp: BRMerkleBlockTxHashes_def)
next
  assume b: "2 ^ 31 \<le> unat (totalTx block) \<and> avail block 0 0 \<and> flag_at block 0 = Some True"
  then have "sint (totalTx block) < 0" by (simp add: sint_neg_u32)
  then have "ceil_log2 (sint (totalTx block)) = None" by (rule ceil_log2_neg)
  then have none: "map_option f (ceil_log2 (sint (totalTx block))) = None" for f :: "nat \<Rightarrow> bool" by simp
  have "tx_hashes_R block room 0 \<lparr>txHashes = [], idx = 0, hashIdx = 0, flagIdx = 0\<rparr> = None"
    using b none by (subst tx_hashes_R.simps) (simp add: avail_def Let_def)
  moreover have "root_R block 0 0 0 = None"
    using b none by (subst root_R.simps) (simp add: avail_def Let_def)
  ultimately show "BRMerkleBlockTxHashes block room = None" "BRMerkleBlockIsValid block now = None"
    by (simp_all add: BRMerkleBlockTxHashes_def BRMerkleBlockIsValid_def)
qed

section \<open>Partial trees\<close>

text \<open>
  A node whose subtree is not told, a leaf that is told, and inner nodes with a right branch
  or without one.
\<close>

datatype ptree = Stub UInt256 | Leaf UInt256 | Node ptree ptree | Half ptree

fun root_of :: "ptree \<Rightarrow> UInt256" where
  "root_of (Stub h) = h"
| "root_of (Leaf h) = h"
| "root_of (Node l r) = hash_pair (root_of l) (if root_of r = 0 then root_of l else root_of r)"
| "root_of (Half l) = hash_pair (root_of l) (root_of l)"

fun told :: "ptree \<Rightarrow> UInt256 list" where
  "told (Stub h) = []"
| "told (Leaf h) = [h]"
| "told (Node l r) = told l @ told r"
| "told (Half l) = told l"

fun n_hashes :: "ptree \<Rightarrow> nat" where
  "n_hashes (Node l r) = n_hashes l + n_hashes r"
| "n_hashes (Half l) = n_hashes l"
| "n_hashes t = 1"

fun n_flags :: "ptree \<Rightarrow> nat" where
  "n_flags (Node l r) = 1 + n_flags l + n_flags r"
| "n_flags (Half l) = 1 + n_flags l"
| "n_flags t = 1"

text \<open>The tree of height at most \<open>d\<close> stands in the block from these positions on.\<close>

fun stands :: "BRMerkleBlock \<Rightarrow> nat \<Rightarrow> nat \<Rightarrow> nat \<Rightarrow> ptree \<Rightarrow> bool" where
  "stands b d hi fi (Stub h) \<longleftrightarrow> avail b hi fi \<and> flag_at b fi = Some False \<and> hash_at b hi = Some h"
| "stands b d hi fi (Leaf h) \<longleftrightarrow> avail b hi fi \<and> flag_at b fi = Some True \<and> hash_at b hi = Some h \<and> d = 0"
| "stands b d hi fi (Node l r) \<longleftrightarrow> avail b hi fi \<and> flag_at b fi = Some True \<and> 0 < d \<and>
     stands b (d - 1) hi (fi + 1) l \<and> stands b (d - 1) (hi + n_hashes l) (fi + 1 + n_flags l) r"
| "stands b d hi fi (Half l) \<longleftrightarrow> avail b hi fi \<and> flag_at b fi = Some True \<and> 0 < d \<and>
     stands b (d - 1) hi (fi + 1) l \<and> \<not> avail b (hi + n_hashes l) (fi + 1 + n_flags l)"

text \<open>No two siblings are equal, and no left one is missing.\<close>

fun sound :: "ptree \<Rightarrow> bool" where
  "sound (Node l r) \<longleftrightarrow> sound l \<and> sound r \<and> root_of l \<noteq> 0 \<and> root_of l \<noteq> root_of r"
| "sound (Half l) \<longleftrightarrow> sound l \<and> root_of l \<noteq> 0"
| "sound t \<longleftrightarrow> True"

lemma root_R_none: "\<not> avail b hi fi \<Longrightarrow> root_R b depth hi fi = Some (0, hi, fi)"
  by (subst root_R.simps) (auto simp: avail_def)

lemma root_R_tree:
  assumes "ceil_log2 (sint (totalTx b)) = Some D"
  shows "stands b d hi fi t \<Longrightarrow> sound t \<Longrightarrow> depth + d = D \<Longrightarrow>
    root_R b depth hi fi = Some (root_of t, hi + n_hashes t, fi + n_flags t)"
proof (induction t arbitrary: d depth hi fi)
  case (Stub h)
  then show ?case by (subst root_R.simps) (auto simp: avail_def Let_def)
next
  case (Leaf h)
  then show ?case using assms by (subst root_R.simps) (auto simp: avail_def Let_def)
next
  case (Node l r)
  then have "root_R b (depth + 1) hi (fi + 1) = Some (root_of l, hi + n_hashes l, fi + 1 + n_flags l)"
    "root_R b (depth + 1) (hi + n_hashes l) (fi + 1 + n_flags l) =
      Some (root_of r, hi + n_hashes l + n_hashes r, fi + 1 + n_flags l + n_flags r)"
    using Node.IH(1) [of "d - 1" hi "fi + 1" "depth + 1"]
      Node.IH(2) [of "d - 1" "hi + n_hashes l" "fi + 1 + n_flags l" "depth + 1"] by simp_all
  then show ?case using Node.prems assms
    by (subst root_R.simps) (simp add: avail_def Let_def add.assoc)
next
  case (Half l)
  then have "root_R b (depth + 1) hi (fi + 1) = Some (root_of l, hi + n_hashes l, fi + 1 + n_flags l)"
    using Half.IH [of "d - 1" hi "fi + 1" "depth + 1"] by simp
  then show ?case using Half.prems assms root_R_none [of b "hi + n_hashes l" "fi + 1 + n_flags l"]
    by (subst root_R.simps) (simp add: avail_def Let_def add.assoc)
qed

lemma tx_hashes_R_none: "\<not> avail b (hashIdx w) (flagIdx w) \<Longrightarrow> tx_hashes_R b room depth w = Some w"
  by (subst tx_hashes_R.simps) (auto simp: avail_def)

abbreviation room_for :: "nat option \<Rightarrow> nat" where
  "room_for room \<equiv> (case room of None \<Rightarrow> 2 ^ 64 - 1 | Some n \<Rightarrow> n)"

lemma tx_hashes_R_tree:
  assumes "ceil_log2 (sint (totalTx b)) = Some D"
  shows "stands b d (hashIdx w) (flagIdx w) t \<Longrightarrow> depth + d = D \<Longrightarrow> idx w + length (told t) \<le> room_for room \<Longrightarrow>
    tx_hashes_R b room depth w = Some (w\<lparr>txHashes := txHashes w @ (if room = None then [] else told t),
      idx := idx w + length (told t), hashIdx := hashIdx w + n_hashes t, flagIdx := flagIdx w + n_flags t\<rparr>)"
proof (induction t arbitrary: d depth w)
  case (Stub h)
  then show ?case by (subst tx_hashes_R.simps) (auto simp: avail_def Let_def)
next
  case (Leaf h)
  then show ?case using assms by (subst tx_hashes_R.simps) (auto simp: avail_def Let_def)
next
  case (Node l r)
  let ?w = "w\<lparr>flagIdx := flagIdx w + 1\<rparr>"
  let ?w1 = "?w\<lparr>txHashes := txHashes w @ (if room = None then [] else told l), idx := idx w + length (told l),
      hashIdx := hashIdx w + n_hashes l, flagIdx := flagIdx w + 1 + n_flags l\<rparr>"
  have "tx_hashes_R b room (depth + 1) ?w = Some ?w1"
    using Node.prems by (subst Node.IH(1) [of "d - 1"]) simp_all
  moreover have "tx_hashes_R b room (depth + 1) ?w1 = Some (?w1\<lparr>txHashes := txHashes ?w1 @ (if room = None then [] else told r),
      idx := idx ?w1 + length (told r), hashIdx := hashIdx ?w1 + n_hashes r, flagIdx := flagIdx ?w1 + n_flags r\<rparr>)"
    using Node.prems by (intro Node.IH(2) [of "d - 1"]) simp_all
  ultimately show ?case using Node.prems assms
    by (subst tx_hashes_R.simps) (simp add: avail_def Let_def add.assoc)
next
  case (Half l)
  let ?w = "w\<lparr>flagIdx := flagIdx w + 1\<rparr>"
  let ?w1 = "?w\<lparr>txHashes := txHashes w @ (if room = None then [] else told l), idx := idx w + length (told l),
      hashIdx := hashIdx w + n_hashes l, flagIdx := flagIdx w + 1 + n_flags l\<rparr>"
  have "tx_hashes_R b room (depth + 1) ?w = Some ?w1"
    using Half.prems by (subst Half.IH [of "d - 1"]) simp_all
  moreover have "tx_hashes_R b room (depth + 1) ?w1 = Some ?w1"
    using Half.prems by (intro tx_hashes_R_none) simp
  ultimately show ?case using Half.prems assms
    by (subst tx_hashes_R.simps) (simp add: avail_def Let_def add.assoc)
qed

lemma stands_bound: "stands b d hi fi t \<Longrightarrow> hi + n_hashes t \<le> unat (hashesCount b)"
  by (induction t arbitrary: d hi fi) (auto simp: avail_def, fastforce)

lemma told_n_hashes: "length (told t) \<le> n_hashes t"
  by (induction t) auto

lemma TxHashes_tree:
  assumes "ceil_log2 (sint (totalTx b)) = Some D" and "stands b D 0 0 t"
  shows "BRMerkleBlockTxHashes b None = Some (length (told t), [])"
    and "length (told t) \<le> n \<Longrightarrow> BRMerkleBlockTxHashes b (Some n) = Some (length (told t), told t)"
proof -
  have "length (told t) \<le> 2 ^ 64 - 1"
    using stands_bound [OF assms(2)] told_n_hashes [of t] unat_bound [of "hashesCount b"] by simp
  then show "BRMerkleBlockTxHashes b None = Some (length (told t), [])"
    using tx_hashes_R_tree [OF assms(1), of D "\<lparr>txHashes = [], idx = 0, hashIdx = 0, flagIdx = 0\<rparr>" t 0 None] assms(2)
    by (simp add: BRMerkleBlockTxHashes_def)
  show "BRMerkleBlockTxHashes b (Some n) = Some (length (told t), told t)" if "length (told t) \<le> n"
    using tx_hashes_R_tree [OF assms(1), of D "\<lparr>txHashes = [], idx = 0, hashIdx = 0, flagIdx = 0\<rparr>" t 0 "Some n"] assms(2) that
    by (simp add: BRMerkleBlockTxHashes_def)
qed

text \<open>
  Claim C26.  For a block that carries a partial tree, laid out as the walk of BIP 37 writes
  it, without equal siblings, the computed root is the root of that tree, and the
  hashes found, in the call that counts as in the call that fills, are exactly its told
  leaves in order.
\<close>

theorem merkle_walk_complete:
  assumes "ceil_log2 (sint (totalTx block)) = Some D" and "stands block D 0 0 t" and "sound t"
  shows "root_R block 0 0 0 = Some (root_of t, n_hashes t, n_flags t) \<and>
    BRMerkleBlockTxHashes block None = Some (length (told t), []) \<and>
    BRMerkleBlockTxHashes block (Some (length (told t))) = Some (length (told t), told t)"
  using root_R_tree [OF assms(1,2,3), of 0] TxHashes_tree [OF assms(1,2)] by simp

section \<open>Soundness\<close>

lemma count_le: "unat (hashesCount b) \<le> SIZE_MAX"
  using unat_bound [of "hashesCount b"] by (simp add: SIZE_MAX_def)

lemma root_R_sound:
  assumes "ceil_log2 (sint (totalTx b)) = Some D"
  shows "root_R b depth hi fi = Some (md, hi', fi') \<Longrightarrow> hi' \<noteq> SIZE_MAX \<Longrightarrow> avail b hi fi \<Longrightarrow> depth + d = D \<Longrightarrow>
    \<exists>t. stands b d hi fi t \<and> root_of t = md \<and> hi' = hi + n_hashes t \<and> fi' = fi + n_flags t"
proof (induction d arbitrary: depth hi fi md hi' fi')
  case 0
  from 0(1) 0(3) assms 0(4) obtain f where "flag_at b fi = Some f" "hash_at b hi = Some md" "hi' = hi + 1" "fi' = fi + 1"
    by (subst (asm) root_R.simps) (auto simp: avail_def Let_def split: bind_splits if_splits)
  then show ?case using 0(3) by (cases f) (auto intro: exI [of _ "Leaf md"] exI [of _ "Stub md"])
next
  case (Suc d)
  have ne: "depth \<noteq> D" using Suc.prems(4) by simp
  obtain f where f: "flag_at b fi = Some f"
    using Suc.prems(1,3) by (subst (asm) root_R.simps) (auto simp: avail_def split: bind_splits)
  show ?case
  proof (cases f)
    case False
    then have "hash_at b hi = Some md" "hi' = hi + 1" "fi' = fi + 1"
      using Suc.prems(1,3) f by (subst (asm) root_R.simps, auto simp: avail_def Let_def)+
    then show ?thesis using Suc.prems(3) f False by (intro exI [of _ "Stub md"]) simp
  next
    case True
    then obtain l hi1 fi1 r hi2 fi2 where
      l: "root_R b (depth + 1) hi (fi + 1) = Some (l, hi1, fi1)" and
      r: "root_R b (depth + 1) hi1 fi1 = Some (r, hi2, fi2)" and
      res: "(if l \<noteq> 0 \<and> l \<noteq> r then (hash_pair l (if r = 0 then l else r), hi2, fi2) else (0, SIZE_MAX, fi2)) = (md, hi', fi')"
      using Suc.prems(1,3) f ne assms
      by (subst (asm) root_R.simps) (auto simp: avail_def Let_def split: bind_splits if_splits)
    have nz: "l \<noteq> 0" "l \<noteq> r" "md = hash_pair l (if r = 0 then l else r)" "hi2 = hi'" "fi2 = fi'"
      using res Suc.prems(2) by (auto split: if_splits)
    have al: "avail b hi (fi + 1)" using l nz(1) root_R_none by fastforce
    have h1: "hi1 \<noteq> SIZE_MAX"
    proof
      assume "hi1 = SIZE_MAX"
      then have "\<not> avail b hi1 fi1" using count_le [of b] by (simp add: avail_def)
      then show False using root_R_none r \<open>hi1 = SIZE_MAX\<close> nz(4) Suc.prems(2) by fastforce
    qed
    from Suc.IH [OF l h1 al] Suc.prems(4) obtain tl where
      tl: "stands b d hi (fi + 1) tl" "root_of tl = l" "hi1 = hi + n_hashes tl" "fi1 = fi + 1 + n_flags tl" by auto
    show ?thesis
    proof (cases "avail b hi1 fi1")
      case a: True
      from Suc.IH [OF r _ a] Suc.prems(2,4) nz(4) obtain tr where
        "stands b d hi1 fi1 tr" "root_of tr = r" "hi2 = hi1 + n_hashes tr" "fi2 = fi1 + n_flags tr" by auto
      then show ?thesis using tl nz Suc.prems(3) f True by (intro exI [of _ "Node tl tr"]) simp
    next
      case a: False
      then have "r = 0" "hi2 = hi1" "fi2 = fi1" using r root_R_none by fastforce+
      then show ?thesis using a tl nz Suc.prems(3) f True by (intro exI [of _ "Half tl"]) simp
    qed
  qed
qed

text \<open>A Merkle branch: the siblings on the way up, and whether they stand on the left.\<close>

definition branch_step :: "UInt256 \<Rightarrow> bool \<times> UInt256 \<Rightarrow> UInt256" where
  "branch_step h s = (if fst s then hash_pair (snd s) h else hash_pair h (snd s))"

lemma branch_step_Pair [simp]: "branch_step h (b, s) = (if b then hash_pair s h else hash_pair h s)"
  by (simp add: branch_step_def)

text \<open>The hashes a block carries, and those that can be hashed together from them.\<close>

definition carried :: "BRMerkleBlock \<Rightarrow> UInt256 set" where
  "carried b = set (take (unat (hashesCount b)) (case hashes b of None \<Rightarrow> [] | Some hs \<Rightarrow> hs))"

inductive_set built :: "UInt256 set \<Rightarrow> UInt256 set" for H where
  carried: "h \<in> H \<Longrightarrow> h \<in> built H"
| paired: "l \<in> built H \<Longrightarrow> r \<in> built H \<Longrightarrow> hash_pair l r \<in> built H"

lemma carried_at: "avail b hi fi \<Longrightarrow> hash_at b hi = Some h \<Longrightarrow> h \<in> carried b"
  by (auto simp: carried_def avail_def hash_at_def in_set_conv_nth split: option.splits if_splits)

lemma root_of_built: "stands b d hi fi t \<Longrightarrow> root_of t \<in> built (carried b)"
  by (induction t arbitrary: d hi fi) (auto intro: built.intros carried_at)

lemma told_carried: "stands b d hi fi t \<Longrightarrow> h \<in> set (told t) \<Longrightarrow> h \<in> carried b"
  by (induction t arbitrary: d hi fi) (auto intro: carried_at)

text \<open>A branch to the root, or one that is cut short at a hash that is zero.\<close>

definition leads_to :: "UInt256 set \<Rightarrow> nat \<Rightarrow> UInt256 \<Rightarrow> UInt256 \<Rightarrow> (bool \<times> UInt256) list \<Rightarrow> bool" where
  "leads_to H d h root br \<longleftrightarrow> snd ` set br \<subseteq> built H \<and>
     (length br = d \<and> foldl branch_step h br = root \<or> length br < d \<and> foldl branch_step h br = 0)"

lemma leads_to_snoc:
  assumes "leads_to H (d - 1) h m br" and "0 < d" and "snd s \<in> built H"
  shows "leads_to H d h (branch_step m s) (br @ [s]) \<or> leads_to H d h root br \<and> foldl branch_step h br = 0"
  using assms by (auto simp: leads_to_def)

lemma told_branch:
  shows "stands b d hi fi t \<Longrightarrow> h \<in> set (told t) \<Longrightarrow> \<exists>br. leads_to (carried b) d h (root_of t) br"
proof (induction t arbitrary: d hi fi)
  case (Leaf x)
  then show ?case by (intro exI [of _ "[]"]) (simp add: leads_to_def)
next
  case (Node l r)
  have bl: "root_of l \<in> built (carried b)" and br: "root_of r \<in> built (carried b)"
    using Node.prems(1) by (auto intro: root_of_built)
  show ?case
  proof (cases "h \<in> set (told l)")
    case True
    with Node.IH(1) [of "d - 1" hi "fi + 1"] Node.prems obtain br where "leads_to (carried b) (d - 1) h (root_of l) br" by auto
    from leads_to_snoc [OF this, of "(False, if root_of r = 0 then root_of l else root_of r)" "root_of (Node l r)"]
    show ?thesis using Node.prems(1) bl br by auto
  next
    case False
    with Node.IH(2) [of "d - 1" "hi + n_hashes l" "fi + 1 + n_flags l"] Node.prems
    obtain br where led: "leads_to (carried b) (d - 1) h (root_of r) br" by auto
    show ?thesis
    proof (cases "root_of r = 0")
      case True
      then have "leads_to (carried b) d h (root_of (Node l r)) br" using led Node.prems(1) by (auto simp: leads_to_def)
      then show ?thesis by blast
    next
      case False
      with leads_to_snoc [OF led, of "(True, root_of l)" "root_of (Node l r)"] show ?thesis using Node.prems(1) bl by auto
    qed
  qed
next
  case (Half l)
  have bl: "root_of l \<in> built (carried b)" using Half.prems(1) by (auto intro: root_of_built)
  from Half.IH [of "d - 1" hi "fi + 1"] Half.prems obtain br where "leads_to (carried b) (d - 1) h (root_of l) br" by auto
  from leads_to_snoc [OF this, of "(False, root_of l)" "root_of (Half l)"] show ?case using Half.prems(1) bl by auto
qed simp

text \<open>
  Claim C9.  When the walk for the root ends without having met equal siblings, every hash that
  the other walk finds is one that the block carries, and has a Merkle branch whose siblings
  are hashes of the block or hashed together from them: one of the height of the
  tree that leads to the root, so that a client that checks the root may rely on the transaction
  being in the block; or, where the walk took a right subtree whose hash is zero for a missing one, a shorter one
  that exhibits this preimage of zero.
\<close>

theorem merkle_branch_sound:
  assumes "root_R block 0 0 0 = Some (root, hi, fi)" and "hi \<noteq> SIZE_MAX" and "root \<noteq> 0"
    and "ceil_log2 (sint (totalTx block)) = Some D"
    and "BRMerkleBlockTxHashes block None = Some (n, x)" and "BRMerkleBlockTxHashes block (Some n) = Some (k, hs)"
    and "h \<in> set hs"
  shows "h \<in> carried block \<and> (\<exists>branch. snd ` set branch \<subseteq> built (carried block) \<and>
    (length branch = D \<and> foldl branch_step h branch = root \<or> length branch < D \<and> foldl branch_step h branch = 0))"
proof -
  have "avail block 0 0" using assms(1,3) root_R_none by fastforce
  from root_R_sound [OF assms(4,1,2) this] obtain t where t: "stands block D 0 0 t" "root_of t = root" by auto
  have "hs = told t" using TxHashes_tree [OF assms(4) t(1)] assms(5,6) by simp
  then show ?thesis
    using told_branch [OF t(1), of h] told_carried [OF t(1), of h] assms(7) t(2) unfolding leads_to_def by blast
qed

text \<open>Two transactions of which the second is told: the block with the branch of length 1.\<close>

definition two_tx_block :: BRMerkleBlock where
  "two_tx_block = BRMerkleBlockNew\<lparr>totalTx := 2, hashes := Some [5, 6], hashesCount := 2, flags := Some [5], flagsLen := 1,
     merkleRoot := hash_pair 5 6\<rparr>"

lemma two_tx_block_stands:
  "stands two_tx_block 1 0 0 (Node (Stub 5) (Leaf 6))" "ceil_log2 (sint (totalTx two_tx_block)) = Some 1"
proof -
  have "\<not> bit (5 :: byte) 1" "bit (5 :: byte) 0" "bit (5 :: byte) 2" by simp_all
  then show "stands two_tx_block 1 0 0 (Node (Stub 5) (Leaf 6))"
    by (simp add: two_tx_block_def avail_def flag_at_def hash_at_def)
  have "log2_loop 1 1 = Some 1" "log2_loop 2 0 = Some 1"
    by (subst log2_loop.simps, simp)+
  show "ceil_log2 (sint (totalTx two_tx_block)) = Some 1"
    by (simp add: two_tx_block_def ceil_log2_def log2_loop.simps)
qed

theorem merkle_walk_complete_witness:
  "root_R two_tx_block 0 0 0 = Some (merkleRoot two_tx_block, 2, 3) \<and>
    BRMerkleBlockTxHashes two_tx_block None = Some (1, []) \<and>
    BRMerkleBlockTxHashes two_tx_block (Some 1) = Some (1, [6])"
  using merkle_walk_complete [OF two_tx_block_stands(2,1)] by (simp add: two_tx_block_def)

definition one_tx_block :: BRMerkleBlock where
  "one_tx_block = BRMerkleBlockNew\<lparr>totalTx := 1, hashes := Some [6], hashesCount := 1, flags := Some [1], flagsLen := 1,
     merkleRoot := 6\<rparr>"

lemma one_tx_block_stands: "stands one_tx_block 0 0 0 (Leaf 6)" "ceil_log2 (sint (totalTx one_tx_block)) = Some 0"
proof -
  show "stands one_tx_block 0 0 0 (Leaf 6)" by (simp add: one_tx_block_def avail_def flag_at_def hash_at_def)
  have "log2_loop 1 0 = Some 0" by (subst log2_loop.simps, simp)
  then show "ceil_log2 (sint (totalTx one_tx_block)) = Some 0"
    by (simp add: one_tx_block_def ceil_log2_def log2_loop.simps)
qed

theorem merkle_branch_sound_witness:
  "(6 \<in> carried one_tx_block \<and> (\<exists>branch. snd ` set branch \<subseteq> built (carried one_tx_block) \<and> branch = [] \<and>
      foldl branch_step 6 branch = merkleRoot one_tx_block)) \<and>
   (hash_pair 5 6 = 0 \<or> (6 \<in> carried two_tx_block \<and> (\<exists>branch. snd ` set branch \<subseteq> built (carried two_tx_block) \<and>
      (length branch = 1 \<and> foldl branch_step 6 branch = hash_pair 5 6 \<or> length branch < 1 \<and> foldl branch_step 6 branch = 0))))"
proof
  have r: "root_R one_tx_block 0 0 0 = Some (6, 1, 1)"
    using root_R_tree [OF one_tx_block_stands(2,1), of 0] by simp
  have t: "BRMerkleBlockTxHashes one_tx_block None = Some (1, [])" "BRMerkleBlockTxHashes one_tx_block (Some 1) = Some (1, [6])"
    using TxHashes_tree [OF one_tx_block_stands(2,1)] by simp_all
  from merkle_branch_sound [OF r _ _ one_tx_block_stands(2) t, of 6]
  show "6 \<in> carried one_tx_block \<and> (\<exists>branch. snd ` set branch \<subseteq> built (carried one_tx_block) \<and> branch = [] \<and>
      foldl branch_step 6 branch = merkleRoot one_tx_block)" by (simp add: SIZE_MAX_def one_tx_block_def)
next
  show "hash_pair 5 6 = 0 \<or> (6 \<in> carried two_tx_block \<and> (\<exists>branch. snd ` set branch \<subseteq> built (carried two_tx_block) \<and>
      (length branch = 1 \<and> foldl branch_step 6 branch = hash_pair 5 6 \<or> length branch < 1 \<and> foldl branch_step 6 branch = 0)))"
  proof (cases "hash_pair 5 6 = 0")
    case False
    have r: "root_R two_tx_block 0 0 0 = Some (hash_pair 5 6, 2, 3)"
      using root_R_tree [OF two_tx_block_stands(2,1), of 0] by simp
    have t: "BRMerkleBlockTxHashes two_tx_block None = Some (1, [])" "BRMerkleBlockTxHashes two_tx_block (Some 1) = Some (1, [6])"
      using TxHashes_tree [OF two_tx_block_stands(2,1)] by simp_all
    from merkle_branch_sound [OF r _ False two_tx_block_stands(2) t, of 6] show ?thesis by (simp add: SIZE_MAX_def)
  qed simp
qed

section \<open>A forged transaction\<close>

text \<open>
  A subtree with equal siblings is answered with the root 0, which the node above takes for
  a missing right branch.  On the right edge of the tree, where a real block repeats the
  left hash, such a subtree stands for nothing, and its leaves can be anything.
\<close>

definition forged :: "BRMerkleBlock \<Rightarrow> UInt256 \<Rightarrow> UInt256 \<Rightarrow> UInt256 \<Rightarrow> BRMerkleBlock" where
  "forged hdr ab c x = hdr\<lparr>totalTx := 8, hashes := Some [ab, c, x, x], hashesCount := 4, flags := Some [117], flagsLen := 1\<rparr>"

definition header_only :: "BRMerkleBlock \<Rightarrow> BRMerkleBlock" where
  "header_only hdr = hdr\<lparr>totalTx := 0, hashes := None, hashesCount := 0, flags := None, flagsLen := 0\<rparr>"

lemma root_R_inner:
  assumes "avail b hi fi" and "flag_at b fi = Some True" and "ceil_log2 (sint (totalTx b)) = Some D" and "depth \<noteq> D"
    and "root_R b (depth + 1) hi (fi + 1) = Some (l, hi1, fi1)" and "root_R b (depth + 1) hi1 fi1 = Some (r, hi2, fi2)"
  shows "root_R b depth hi fi = Some (if l \<noteq> 0 \<and> l \<noteq> r then (hash_pair l (if r = 0 then l else r), hi2, fi2) else (0, SIZE_MAX, fi2))"
  using assms by (subst root_R.simps) (auto simp: avail_def Let_def)

lemma forged_at:
  "hi < 4 \<Longrightarrow> fi < 8 \<Longrightarrow> avail (forged hdr ab c x) hi fi"
  "flag_at (forged hdr ab c x) 0 = Some True" "flag_at (forged hdr ab c x) 1 = Some False"
  "flag_at (forged hdr ab c x) 2 = Some True" "flag_at (forged hdr ab c x) 3 = Some False"
  "flag_at (forged hdr ab c x) 4 = Some True" "flag_at (forged hdr ab c x) 5 = Some True"
  "flag_at (forged hdr ab c x) 6 = Some True"
  "hash_at (forged hdr ab c x) 0 = Some ab" "hash_at (forged hdr ab c x) 1 = Some c"
  "hash_at (forged hdr ab c x) 2 = Some x" "hash_at (forged hdr ab c x) 3 = Some x"
  by (simp_all add: forged_def avail_def flag_at_def hash_at_def)

lemma forged_height: "ceil_log2 (sint (totalTx (forged hdr ab c x))) = Some 3"
  by (simp add: forged_def ceil_log2_def log2_loop.simps)

lemma forged_stands: "stands (forged hdr ab c x) 3 0 0 (Node (Stub ab) (Node (Stub c) (Node (Leaf x) (Leaf x))))"
  by (simp add: forged_at [simplified] numeral_2_eq_2 [symmetric])

lemma forged_root:
  assumes "ab \<noteq> 0" and "c \<noteq> 0" and "hash_pair c c \<noteq> 0" and "ab \<noteq> hash_pair c c"
  shows "\<exists>hi fi. root_R (forged hdr ab c x) 0 0 0 = Some (hash_pair ab (hash_pair c c), hi, fi)"
proof -
  let ?b = "forged hdr ab c x"
  note at = forged_at [where hdr = hdr and ab = ab and c = c and x = x] and h = forged_height [of hdr ab c x]
  have l: "root_R ?b 1 0 1 = Some (ab, 1, 2)" "root_R ?b 2 1 3 = Some (c, 2, 4)"
    "root_R ?b 3 2 5 = Some (x, 3, 6)" "root_R ?b 3 3 6 = Some (x, 4, 7)"
    using root_R_tree [OF h, of 2 0 1 "Stub ab" 1] root_R_tree [OF h, of 1 1 3 "Stub c" 2]
      root_R_tree [OF h, of 0 2 5 "Leaf x" 3] root_R_tree [OF h, of 0 3 6 "Leaf x" 3] at by simp_all
  have "root_R ?b 2 2 4 = Some (0, SIZE_MAX, 7)"
    using root_R_inner [of ?b 2 4 3 2 x 3 6 x 4 7] l(3,4) at h by simp
  then have "root_R ?b 1 1 2 = Some (hash_pair c c, SIZE_MAX, 7)"
    using root_R_inner [of ?b 1 2 3 1 c 2 4 0 SIZE_MAX 7] l(2) at h assms(2) by (simp add: numeral_2_eq_2 [symmetric])
  then show ?thesis
    using root_R_inner [of ?b 0 0 3 0 ab 1 2 "hash_pair c c" SIZE_MAX 7] l(1) at h assms by simp
qed

text \<open>
  Claim C25.  A block of three transactions can be made to tell any transaction: with the
  root of a real block over \<open>a\<close>, \<open>b\<close>, \<open>c\<close>, which repeats \<open>c\<close>, there is a partial tree that is
  accepted exactly when the header is, and whose told leaves are two copies of an arbitrary
  hash \<open>x\<close> (unless the hash function has a collision or a zero there).
\<close>

theorem merkle_forged_tx:
  assumes "merkleRoot hdr = hash_pair (hash_pair a b) (hash_pair c c)" and "c \<noteq> 0" and "x \<noteq> 0"
  defines "block \<equiv> forged hdr (hash_pair a b) c x"
  shows "hash_pair a b = 0 \<or> hash_pair c c = 0 \<or> hash_pair a b = hash_pair c c \<or>
    BRMerkleBlockIsValid block now = BRMerkleBlockIsValid (header_only hdr) now \<and>
    BRMerkleBlockTxHashes block None = Some (2, []) \<and> BRMerkleBlockTxHashes block (Some 2) = Some (2, [x, x]) \<and>
    BRMerkleBlockContainsTxHash block x = Some True"
proof (cases "hash_pair a b = 0 \<or> hash_pair c c = 0 \<or> hash_pair a b = hash_pair c c")
  case False
  with forged_root [of "hash_pair a b" c hdr x] assms(2) obtain hi fi where
    "root_R block 0 0 0 = Some (hash_pair (hash_pair a b) (hash_pair c c), hi, fi)" unfolding block_def by blast
  moreover have "root_R (header_only hdr) 0 0 0 = Some (0, 0, 0)"
    by (rule root_R_none) (simp add: avail_def header_only_def)
  ultimately have "BRMerkleBlockIsValid block now = BRMerkleBlockIsValid (header_only hdr) now"
    using assms(1) by (simp add: BRMerkleBlockIsValid_def block_def forged_def header_only_def)
  moreover have "BRMerkleBlockContainsTxHash block x = Some True"
    using assms(3) by (simp add: BRMerkleBlockContainsTxHash_def block_def forged_def Let_def)
  ultimately show ?thesis
    using TxHashes_tree [OF forged_height forged_stands] by (simp add: block_def numeral_2_eq_2)
qed auto

theorem merkle_forged_tx_witness:
  "hash_pair 1 2 = 0 \<or> hash_pair 3 3 = 0 \<or> hash_pair 1 2 = hash_pair 3 3 \<or>
    BRMerkleBlockTxHashes (forged (BRMerkleBlockNew\<lparr>merkleRoot := hash_pair (hash_pair 1 2) (hash_pair 3 3)\<rparr>)
      (hash_pair 1 2) 3 666) (Some 2) = Some (2, [666, 666])"
proof -
  have "merkleRoot (BRMerkleBlockNew\<lparr>merkleRoot := hash_pair (hash_pair 1 2) (hash_pair 3 3)\<rparr>) =
      hash_pair (hash_pair 1 2) (hash_pair 3 3)" by simp
  from merkle_forged_tx [OF this, of 666 0] show ?thesis by auto
qed

theorem merkle_walks_return_witness:
  "BRMerkleBlockTxHashes two_tx_block None \<noteq> None \<and> BRMerkleBlockTxHashes (two_tx_block\<lparr>totalTx := 0x80000000\<rparr>) None = None"
proof -
  have "arrays_ok two_tx_block" "arrays_ok (two_tx_block\<lparr>totalTx := 0x80000000\<rparr>)"
    by (simp_all add: arrays_ok_def two_tx_block_def)
  from this [THEN merkle_walks_return] show ?thesis
    by (simp add: two_tx_block_def avail_def flag_at_def)
qed

end
