(* ===== verification/MerkleHeader_Correct.thy ===== *)
theory MerkleHeader_Correct
  imports MerkleBlock Address_Correct
begin

text \<open>
  The wire format of headers with a partial tree, and the proof of work as a comparison of
  numbers.
\<close>

unbundle bit_operations_syntax

section \<open>Writing one field after the other\<close>

lemma wr_next: "length a = off \<Longrightarrow> off + length b \<le> length buf \<Longrightarrow> wr (wr buf 0 a) off b = wr buf 0 (a @ b)"
  by (simp add: wr_def ac_simps)

lemma put_varint_next:
  assumes "length a = off" and "off + length (varint i) \<le> length buf"
  shows "put_varint i off (wr buf 0 a) = (length (varint i), wr buf 0 (a @ varint i))"
proof -
  have "length (varint i) \<le> length buf - off" using assms(2) by linarith
  then show ?thesis using assms by (simp add: put_varint_def BRVarIntSet_put wr_def ac_simps)
qed

lemma put_array_next:
  "length a = off \<Longrightarrow> length xs = unat n \<Longrightarrow> off + length (concat (map enc xs)) \<le> length buf \<Longrightarrow>
     put_array enc (Some xs) n off (wr buf 0 a) = Some (wr buf 0 (a @ concat (map enc xs)))"
  by (simp add: put_array_def wr_next)

section \<open>Serialising\<close>

definition tree_bytes :: "BRMerkleBlock \<Rightarrow> byte list" where
  "tree_bytes block = UInt32SetLE (totalTx block) @ varint (hashesCount block) @
     concat (map UInt256Set (the (hashes block))) @ varint (flagsLen block) @ the (flags block)"

definition block_bytes :: "BRMerkleBlock \<Rightarrow> byte list" where
  "block_bytes block = header_bytes block @ (if totalTx block > 0 then tree_bytes block else [])"

text \<open>
  A block whose arrays are as long as it says and of a size that can be allocated; one
  without transactions has no arrays.
\<close>

definition block_wf :: "BRMerkleBlock \<Rightarrow> bool" where
  "block_wf block \<longleftrightarrow>
     (if totalTx block > 0
      then (\<exists>hs fs. hashes block = Some hs \<and> flags block = Some fs \<and> length hs = unat (hashesCount block) \<and>
        length fs = unat (flagsLen block) \<and> 32 * length hs + length fs + 102 < 2 ^ 63)
      else hashes block = None \<and> hashesCount block = 0 \<and> flags block = None \<and> flagsLen block = 0)"

lemma length_header [simp]: "length (header_bytes block) = 80"
  by (simp add: header_bytes_def len_simps)

lemma length_hash_bytes [simp]: "length (concat (map UInt256Set hs)) = 32 * length hs"
  by (induction hs) (simp_all add: len_simps)

lemma unat_times32:
  assumes "32 * unat (n :: u64) < 2 ^ 63"
  shows "unat (n * 32) = 32 * unat n"
  using assms by (simp add: unat_mult_mod)

lemma serialized_len_bytes:
  assumes "block_wf block"
  shows "unat (serialized_len block) = length (block_bytes block)"
proof (cases "totalTx block > 0")
  case True
  then obtain hs fs where w: "hashes block = Some hs" "flags block = Some fs" "length hs = unat (hashesCount block)"
    "length fs = unat (flagsLen block)" "32 * length hs + length fs + 102 < 2 ^ 63"
    using assms by (auto simp: block_wf_def)
  have "serialized_len block = word_of_nat (length (block_bytes block))"
    using True w by (simp add: serialized_len_def BRVarIntSize_varint block_bytes_def tree_bytes_def len_simps mult.commute)
  moreover have "length (block_bytes block) < 2 ^ 64"
    using True w length_varint(1) [of "hashesCount block"] length_varint(1) [of "flagsLen block"]
    by (simp add: block_bytes_def tree_bytes_def len_simps)
  ultimately show ?thesis by (simp add: unat_of_nat_small)
qed (simp add: serialized_len_def block_bytes_def)

lemma BRMerkleBlockSerialize_bytes:
  assumes "block_wf block"
  shows "BRMerkleBlockSerialize block None = Some (length (block_bytes block), None)"
    and "length (block_bytes block) \<le> length buf \<Longrightarrow> BRMerkleBlockSerialize block (Some buf) =
      Some (length (block_bytes block), Some (block_bytes block @ drop (length (block_bytes block)) buf))"
    and "length buf < length (block_bytes block) \<Longrightarrow> BRMerkleBlockSerialize block (Some buf) = Some (0, Some buf)"
proof -
  note len = serialized_len_bytes [OF assms]
  show "BRMerkleBlockSerialize block None = Some (length (block_bytes block), None)"
    by (simp add: BRMerkleBlockSerialize_def len)
  show "BRMerkleBlockSerialize block (Some buf) = Some (0, Some buf)" if "length buf < length (block_bytes block)"
    using that by (simp add: BRMerkleBlockSerialize_def len)
  assume fits: "length (block_bytes block) \<le> length buf"
  show "BRMerkleBlockSerialize block (Some buf) =
      Some (length (block_bytes block), Some (block_bytes block @ drop (length (block_bytes block)) buf))"
  proof (cases "totalTx block > 0")
    case True
    then obtain hs fs where w: "hashes block = Some hs" "flags block = Some fs" "length hs = unat (hashesCount block)"
      "length fs = unat (flagsLen block)" "32 * length hs + length fs + 102 < 2 ^ 63"
      using assms by (auto simp: block_wf_def)
    let ?H = "header_bytes block" and ?T = "UInt32SetLE (totalTx block)" and ?v = "varint (hashesCount block)"
      and ?h = "concat (map UInt256Set hs)" and ?w = "varint (flagsLen block)"
    have all: "block_bytes block = ?H @ ?T @ ?v @ ?h @ ?w @ fs" using True w by (simp add: block_bytes_def tree_bytes_def)
    have mul: "unat (hashesCount block * 32) = length ?h" using w by (simp add: unat_times32)
    have l: "length ?T = 4" by (simp add: len_simps)
    have room: "80 + 4 + length ?v + length ?h + length ?w + length fs \<le> length buf"
      using fits unfolding all by (simp add: len_simps)
    have "wr (wr buf 0 ?H) 80 ?T = wr buf 0 (?H @ ?T)"
      using room l by (intro wr_next) simp_all
    moreover have "put_varint (hashesCount block) 84 (wr buf 0 (?H @ ?T)) = (length ?v, wr buf 0 ((?H @ ?T) @ ?v))"
      using room l by (intro put_varint_next) simp_all
    moreover have "put_array UInt256Set (hashes block) (hashesCount block) (84 + length ?v) (wr buf 0 ((?H @ ?T) @ ?v)) =
        Some (wr buf 0 (((?H @ ?T) @ ?v) @ ?h))"
      unfolding w(1) using room l w(3) by (intro put_array_next) simp_all
    moreover have "put_varint (flagsLen block) (84 + length ?v + length ?h) (wr buf 0 (((?H @ ?T) @ ?v) @ ?h)) =
        (length ?w, wr buf 0 ((((?H @ ?T) @ ?v) @ ?h) @ ?w))"
      using room l by (intro put_varint_next) simp_all
    moreover have "put_array (\<lambda>f. [f]) (flags block) (flagsLen block) (84 + length ?v + length ?h + length ?w)
        (wr buf 0 ((((?H @ ?T) @ ?v) @ ?h) @ ?w)) = Some (wr buf 0 (((((?H @ ?T) @ ?v) @ ?h) @ ?w) @ concat (map (\<lambda>f. [f]) fs)))"
      unfolding w(2) using room l w(4) by (intro put_array_next) simp_all
    ultimately show ?thesis
      using True fits by (simp add: BRMerkleBlockSerialize_def len mul wr_0 all Let_def)
  next
    case False
    then show ?thesis using fits by (simp add: BRMerkleBlockSerialize_def len block_bytes_def wr_0)
  qed
qed

section \<open>Parsing\<close>

lemma u256s_bytes: "u256s (concat (map UInt256Set hs)) = hs"
proof -
  have "u256s (concat (map (bytes_le 32) hs)) = hs"
  proof (induction hs)
    case Nil
    then show ?case by (subst u256s.simps) simp
  next
    case (Cons h hs)
    then show ?case by (subst u256s.simps) (simp add: word_of_le_bytes_le)
  qed
  moreover have "UInt256Set = bytes_le 32" by (rule ext) (rule UInt256Set_bytes)
  ultimately show ?thesis by simp
qed

lemma grab_at:
  assumes "length pre = unat off" and "length bs = unat len" and "length pre + length bs < 2 ^ 63"
  shows "grab (pre @ bs @ post) off len = Some bs"
  using assms by (simp add: grab_def unat_add_mod)

lemma header_fields:
  "UInt32GetLE (header_bytes block @ t) = Some (version block)"
  "UInt256Get (drop 4 (header_bytes block @ t)) = Some (prevBlock block)"
  "UInt256Get (drop 36 (header_bytes block @ t)) = Some (merkleRoot block)"
  "UInt32GetLE (drop 68 (header_bytes block @ t)) = Some (timestamp block)"
  "UInt32GetLE (drop 72 (header_bytes block @ t)) = Some (target block)"
  "UInt32GetLE (drop 76 (header_bytes block @ t)) = Some (nonce block)"
  by (simp_all add: header_bytes_def len_simps roundtrip_simps)

text \<open>The hash that names a block.\<close>

definition header_hash :: "BRMerkleBlock \<Rightarrow> UInt256" where
  "header_hash block = word_of_le (BRSHA256_2 (header_bytes block))"

lemma Parse_header:
  "BRMerkleBlockParse (header_bytes block) =
     Some (Some (BRMerkleBlockNew\<lparr>version := version block, prevBlock := prevBlock block, merkleRoot := merkleRoot block,
       timestamp := timestamp block, target := target block, nonce := nonce block, blockHash := header_hash block\<rparr>))"
  using header_fields [of block "[]"] by (simp add: BRMerkleBlockParse_def Let_def header_hash_def)

lemma Parse_tree:
  assumes "length hsb = unat (hc * 32)" and "length fs = unat fl" and "length hsb + length fs + 102 < 2 ^ 63"
  shows "BRMerkleBlockParse (header_bytes block @ UInt32SetLE tot @ varint hc @ hsb @ varint fl @ fs) =
     Some (Some (BRMerkleBlockNew\<lparr>version := version block, prevBlock := prevBlock block, merkleRoot := merkleRoot block,
       timestamp := timestamp block, target := target block, nonce := nonce block, totalTx := tot,
       hashes := Some (u256s hsb), hashesCount := hc, flags := Some fs, flagsLen := fl, blockHash := header_hash block\<rparr>))"
proof -
  let ?pre = "header_bytes block @ UInt32SetLE tot" and ?v = "varint hc" and ?w = "varint fl"
  let ?buf = "header_bytes block @ UInt32SetLE tot @ ?v @ hsb @ ?w @ fs"
  have l: "length ?pre = 84" by (simp add: len_simps)
  have len: "length ?v \<le> 9" "length ?w \<le> 9" by (rule length_varint)+
  have off1: "unat (84 + word_of_nat (length ?v) :: u64) = 84 + length ?v"
    using len by (simp add: unat_add_mod unat_word_of_nat)
  have off2: "unat (84 + word_of_nat (length ?v) + hc * 32 :: u64) = 84 + length ?v + length hsb"
    using len assms(1,3) off1 by (simp add: unat_add_mod)
  have off3: "unat (84 + word_of_nat (length ?v) + hc * 32 + word_of_nat (length ?w) :: u64) = 84 + length ?v + length hsb + length ?w"
    using len assms(1,3) off2 by (simp add: unat_add_mod unat_word_of_nat)
  have "BRVarInt (drop 84 ?buf) = (hc, length ?v)"
    using BRVarInt_varint [of hc "hsb @ ?w @ fs"] l by simp
  moreover have "grab ?buf (84 + word_of_nat (length ?v)) (hc * 32) = Some hsb"
    using grab_at [of "?pre @ ?v" "84 + word_of_nat (length ?v)" hsb "hc * 32" "?w @ fs"] l off1 assms len by simp
  moreover have "BRVarInt (drop (84 + length ?v + length hsb) ?buf) = (fl, length ?w)"
    using BRVarInt_varint [of fl fs] l by simp
  moreover have "grab ?buf (84 + word_of_nat (length ?v) + hc * 32 + word_of_nat (length ?w)) fl = Some fs"
    using grab_at [of "?pre @ ?v @ hsb @ ?w" "84 + word_of_nat (length ?v) + hc * 32 + word_of_nat (length ?w)" fs fl "[]"]
      l off3 assms len by simp
  moreover have "UInt32GetLE (drop 80 ?buf) = Some tot" by (simp add: roundtrip_simps)
  ultimately show ?thesis
    using header_fields [of block "UInt32SetLE tot @ ?v @ hsb @ ?w @ fs"] off2
    by (simp add: BRMerkleBlockParse_def Let_def header_hash_def len_simps)
qed

text \<open>
  Claim C27.  A block whose arrays agree with their counts is announced with the number of
  bytes that are then written, nothing beyond them is touched, and parsing them gives the
  block back, with the hash of its header and an unknown height.
\<close>

theorem merkle_block_roundtrip:
  assumes "block_wf block" and "BRMerkleBlockSerialize block (Some buf) = Some (n, Some out)" and "n \<noteq> 0"
  shows "BRMerkleBlockSerialize block None = Some (n, None) \<and> drop n out = drop n buf \<and>
    BRMerkleBlockParse (take n out) =
      Some (Some (block\<lparr>blockHash := header_hash block, height := BLOCK_UNKNOWN_HEIGHT\<rparr>))"
proof -
  have n: "n = length (block_bytes block)" "out = block_bytes block @ drop n buf"
    using assms BRMerkleBlockSerialize_bytes(2,3) [OF assms(1), of buf]
    by (cases "length (block_bytes block) \<le> length buf"; simp)+
  have "BRMerkleBlockParse (block_bytes block) =
      Some (Some (block\<lparr>blockHash := header_hash block, height := BLOCK_UNKNOWN_HEIGHT\<rparr>))"
  proof (cases "totalTx block > 0")
    case True
    then obtain hs fs where w: "hashes block = Some hs" "flags block = Some fs" "length hs = unat (hashesCount block)"
      "length fs = unat (flagsLen block)" "32 * length hs + length fs + 102 < 2 ^ 63"
      using assms(1) by (auto simp: block_wf_def)
    have "length (concat (map UInt256Set hs)) = unat (hashesCount block * 32)" using w by (simp add: unat_times32)
    from Parse_tree [OF this w(4), of block "totalTx block"] show ?thesis
      using True w by (simp add: block_bytes_def tree_bytes_def u256s_bytes BRMerkleBlockNew_def)
  next
    case False
    then have "totalTx block = 0" by (simp add: word_gt_0)
    then show ?thesis using assms(1) Parse_header [of block]
      by (cases block) (simp add: block_bytes_def block_wf_def BRMerkleBlockNew_def)
  qed
  then show ?thesis using n BRMerkleBlockSerialize_bytes(1) [OF assms(1)] by simp
qed

theorem merkle_block_roundtrip_witness:
  "\<exists>out. BRMerkleBlockParse out = Some (Some (BRMerkleBlockNew\<lparr>totalTx := 2, hashes := Some [5, 6], hashesCount := 2,
      flags := Some [5], flagsLen := 1, blockHash := header_hash BRMerkleBlockNew\<rparr>)) \<and> length out = 151"
proof -
  let ?b = "BRMerkleBlockNew\<lparr>totalTx := 2, hashes := Some [5, 6], hashesCount := 2, flags := Some [5], flagsLen := 1\<rparr>"
  have wf: "block_wf ?b" by (simp add: block_wf_def)
  have len: "length (block_bytes ?b) = 151"
    by (simp add: block_bytes_def tree_bytes_def len_simps varint_def)
  have h: "header_hash ?b = header_hash BRMerkleBlockNew" by (simp add: header_hash_def header_bytes_def)
  from BRMerkleBlockSerialize_bytes(2) [OF wf, of "replicate 200 0"] len obtain out where
    o: "BRMerkleBlockSerialize ?b (Some (replicate 200 0)) = Some (151, Some out)" "length out = 200" by simp
  from merkle_block_roundtrip [OF wf o(1)] show ?thesis
    using o(2) h by (intro exI [of _ "take 151 out"]) (simp add: BRMerkleBlockNew_def)
qed

section \<open>Malformed counts\<close>

text \<open>
  The number of bytes of the hashes wraps around: a message that announces
  \<open>2 ^ 59\<close> hashes and carries none is parsed without complaint into a block with an empty
  array and that count, and checking the block reads beyond the array.  The check also
  writes beyond the 32 bytes of the target when the first byte of the compact target is
  above 31.
\<close>

theorem merkle_malformed:
  "(\<exists>block. BRMerkleBlockParse (header_bytes hdr @ UInt32SetLE 1 @ varint (2 ^ 59) @ varint 1 @ [0]) = Some (Some block) \<and>
      hashes block = Some [] \<and> hashesCount block = 2 ^ 59 \<and> BRMerkleBlockIsValid block now = None) \<and>
    (31 < unat (drop_bit 24 (target hdr)) \<longrightarrow> BRMerkleBlockIsValid hdr now = None)"
proof (intro conjI impI)
  let ?block = "BRMerkleBlockNew\<lparr>version := version hdr, prevBlock := prevBlock hdr, merkleRoot := merkleRoot hdr,
       timestamp := timestamp hdr, target := target hdr, nonce := nonce hdr, totalTx := 1,
       hashes := Some [], hashesCount := 2 ^ 59, flags := Some [0], flagsLen := 1, blockHash := header_hash hdr\<rparr>"
  have "u256s [] = []" by (subst u256s.simps) simp
  then have "BRMerkleBlockParse (header_bytes hdr @ UInt32SetLE 1 @ varint (2 ^ 59) @ varint 1 @ [0]) = Some (Some ?block)"
    using Parse_tree [of "[]" "2 ^ 59" "[0]" 1 hdr 1] by simp
  moreover have "root_R ?block 0 0 0 = None"
    by (subst root_R.simps) (simp add: flag_at_def hash_at_def)
  then have "BRMerkleBlockIsValid ?block now = None" by (simp add: BRMerkleBlockIsValid_def)
  ultimately show "\<exists>block. BRMerkleBlockParse (header_bytes hdr @ UInt32SetLE 1 @ varint (2 ^ 59) @ varint 1 @ [0]) = Some (Some block) \<and>
      hashes block = Some [] \<and> hashesCount block = 2 ^ 59 \<and> BRMerkleBlockIsValid block now = None"
    by (intro exI [of _ ?block]) simp
next
  assume "31 < unat (drop_bit 24 (target hdr))"
  then have "target_bytes (target hdr) = None" by (simp add: target_bytes_def Let_def)
  then show "BRMerkleBlockIsValid hdr now = None"
    by (simp add: BRMerkleBlockIsValid_def Let_def split: bind_splits)
qed

theorem merkle_malformed_witness:
  "(\<exists>block. BRMerkleBlockParse (header_bytes BRMerkleBlockNew @ UInt32SetLE 1 @ varint (2 ^ 59) @ varint 1 @ [0]) =
      Some (Some block) \<and> BRMerkleBlockIsValid block 0 = None) \<and>
    BRMerkleBlockIsValid (BRMerkleBlockNew\<lparr>target := 0xff000000\<rparr>) 0 = None"
proof -
  have "31 < unat (drop_bit 24 (0xff000000 :: u32))" by (simp add: unat_drop_bit_div)
  then show ?thesis
    using merkle_malformed [of BRMerkleBlockNew 0] merkle_malformed [of "BRMerkleBlockNew\<lparr>target := 0xff000000\<rparr>" 0]
    by auto
qed

section \<open>Proof of work\<close>

lemma pow_loop_le:
  "length hs = length ts \<Longrightarrow> pow_loop hs ts \<longleftrightarrow> le_val (rev hs) \<le> le_val (rev ts)"
proof (induction hs ts rule: pow_loop.induct)
  case (1 h hs t ts)
  have b: "le_val (rev hs) < 256 ^ length ts" "le_val (rev ts) < 256 ^ length ts"
    using le_val_bound [of "rev hs"] le_val_bound [of "rev ts"] "1.prems" by simp_all
  have less: "u + p * a < v + p * c" if "a < c" "u < p" for u v p a c :: nat
  proof -
    have "u + p * a < p * (a + 1)" using that(2) by simp
    also have "\<dots> \<le> p * c" using that(1) by (intro mult_le_mono2) simp
    finally show ?thesis by simp
  qed
  consider "h < t" | "t < h" | "h = t" by (rule linorder_cases)
  then show ?case
  proof cases
    case 1
    with less [of "unat h" "unat t" "le_val (rev hs)" "256 ^ length ts" "le_val (rev ts)"] b "1.prems" show ?thesis
      by (simp add: le_val_append word_less_nat_alt)
  next
    case 2
    with less [of "unat t" "unat h" "le_val (rev ts)" "256 ^ length ts" "le_val (rev hs)"] b "1.prems" show ?thesis
      by (simp add: le_val_append word_less_nat_alt)
  next
    case 3
    then show ?thesis using "1.IH" "1.prems" by (simp add: le_val_append)
  qed
qed auto

text \<open>The number a compact target stands for.\<close>

definition target_value :: "u32 \<Rightarrow> nat" where
  "target_value compact =
     (let e = unat (drop_bit 24 compact); m = unat (compact AND 0x007fffff)
      in if e > 3 then m * 256 ^ (e - 3) else m div 256 ^ (3 - e))"

lemma target_bytes_value:
  assumes "unat (drop_bit 24 compact) \<le> 31"
  shows "\<exists>t. target_bytes compact = Some t \<and> length t = 32 \<and> le_val t = target_value compact"
proof (cases "unat (drop_bit 24 compact) > 3")
  case True
  define e where "e = unat (drop_bit 24 compact) - 3"
  have e: "unat (drop_bit 24 compact) = e + 3" "0 < e" "e \<le> 28" using assms True by (simp_all add: e_def)
  let ?b = "UInt32SetLE (compact AND 0x007fffff)"
  have "wr (replicate 32 0) e ?b = replicate e 0 @ ?b @ replicate (28 - e) 0"
    using e(3) by (simp add: wr_def len_simps min_def)
  moreover have "le_val (replicate n 0) = 0" for n using le_val_zeros [of "[]" n] by simp
  ultimately show ?thesis
    using e(2,3) by (simp add: target_bytes_def target_value_def Let_def e(1) len_simps le_val_append UInt32SetLE_bytes
        le_val_bytes_le mult.commute)
next
  case False
  have "(256 :: nat) ^ k = 2 ^ (k * 8)" for k by (simp add: mult.commute [of k] power_mult)
  then have "le_val (UInt32SetLE (drop_bit (k * 8) m)) = unat m div 256 ^ k" for m :: u32 and k
    by (simp add: UInt32SetLE_bytes le_val_bytes_le unat_drop_bit_div)
  then show ?thesis
    using False by (simp add: target_bytes_def target_value_def Let_def wr_0 len_simps del: drop_bit_and)
qed

text \<open>
  Claim C28.  A block is accepted exactly when the computed root is the stated one (if there
  are transactions), its time is not too far ahead, its compact target is positive and
  not above the limit, and its hash, as a number, is at most the target.
\<close>

theorem merkle_valid_iff:
  "BRMerkleBlockIsValid block now = Some True \<longleftrightarrow>
    (\<exists>root hi fi. root_R block 0 0 0 = Some (root, hi, fi) \<and> (totalTx block = 0 \<or> root = merkleRoot block)) \<and>
    timestamp block \<le> now + BLOCK_MAX_TIME_DRIFT \<and>
    target block AND 0x007fffff \<noteq> 0 \<and> target block AND 0x00800000 = 0 \<and> target block \<le> MAX_PROOF_OF_WORK \<and>
    unat (blockHash block) \<le> target_value (target block)"
proof (cases "target block \<le> MAX_PROOF_OF_WORK")
  case True
  then have "unat (drop_bit 24 (target block)) \<le> 31"
    by (simp add: unat_drop_bit_div word_le_nat_alt MAX_PROOF_OF_WORK_def)
  then obtain t where t: "target_bytes (target block) = Some t" "length t = 32" "le_val t = target_value (target block)"
    using target_bytes_value by blast
  have "pow_loop (rev (bytes_le 32 (blockHash block))) (rev t) \<longleftrightarrow> unat (blockHash block) \<le> target_value (target block)"
    using t(2,3) by (simp add: pow_loop_le le_val_bytes_le)
  then show ?thesis
    using True t(1) by (auto simp: BRMerkleBlockIsValid_def Let_def word_gt_0 not_less split: bind_splits)
next
  case False
  then show ?thesis by (auto simp: BRMerkleBlockIsValid_def Let_def split: bind_splits)
qed

end
