(* ===== verification/Transaction.thy ===== *)
theory Transaction
  imports Address "HOL-Library.Monad_Syntax"
begin

text \<open>
  \<^verbatim>\<open>bitcoin/BRTransaction.c\<close>: inputs, outputs and transactions, the bytes a transaction is
  sent as and the bytes a signature covers, and the parser of what a peer sends.  A pointer
  to an array of bytes is the list of its elements, NULL is \<open>None\<close>; the length kept beside
  each (\<open>scriptLen\<close>, \<open>sigLen\<close>, \<open>witLen\<close>) is the length of the list, to which every setter
  sets it.  An \<open>address\<close> is the string in the field.  A result \<open>None\<close> is a failed \<open>assert\<close>, an
  access outside an allocation, or a call that does not return; NULL as a result is
  \<open>Some None\<close>.
\<close>

unbundle bit_operations_syntax

definition TX_VERSION :: u32 where "TX_VERSION = 1"
definition TX_LOCKTIME :: u32 where "TX_LOCKTIME = 0"
definition SIGHASH_ALL :: u32 where "SIGHASH_ALL = 0x01"
definition SIGHASH_NONE :: u32 where "SIGHASH_NONE = 0x02"
definition SIGHASH_SINGLE :: u32 where "SIGHASH_SINGLE = 0x03"
definition SIGHASH_ANYONECANPAY :: u32 where "SIGHASH_ANYONECANPAY = 0x80"
definition SIGHASH_FORKID :: u32 where "SIGHASH_FORKID = 0x40"
definition TX_FEE_PER_KB :: u64 where "TX_FEE_PER_KB = 1000"
definition TX_OUTPUT_SIZE :: nat where "TX_OUTPUT_SIZE = 34"
definition TX_INPUT_SIZE :: nat where "TX_INPUT_SIZE = 148"
definition TX_MIN_OUTPUT_AMOUNT :: u64 where
  "TX_MIN_OUTPUT_AMOUNT = TX_FEE_PER_KB * 3 * word_of_nat (TX_OUTPUT_SIZE + TX_INPUT_SIZE) div 1000"
definition TX_MAX_SIZE :: nat where "TX_MAX_SIZE = 100000"
definition TX_UNCONFIRMED :: u32 where "TX_UNCONFIRMED = 0x7fffffff"
definition TX_MAX_LOCK_HEIGHT :: u32 where "TX_MAX_LOCK_HEIGHT = 500000000"
definition TXIN_SEQUENCE :: u32 where "TXIN_SEQUENCE = 0xffffffff"

record BRTxInput =
  in_txHash :: UInt256
  in_index :: u32
  in_address :: cstring
  in_amount :: u64
  in_script :: "byte list option"
  in_signature :: "byte list option"
  in_witness :: "byte list option"
  in_sequence :: u32

record BRTxOutput =
  out_address :: cstring
  out_amount :: u64
  out_script :: "byte list option"

record BRTransaction =
  txHash :: UInt256
  wtxHash :: UInt256
  tx_version :: u32
  inputs :: "BRTxInput list"
  outputs :: "BRTxOutput list"
  lockTime :: u32
  blockHeight :: u32
  tx_timestamp :: u32

text \<open>The elements behind a pointer; NULL has none.\<close>

definition array_of :: "byte list option \<Rightarrow> byte list" where
  "array_of p = (case p of None \<Rightarrow> [] | Some bs \<Rightarrow> bs)"

section \<open>Inputs and outputs\<close>

text \<open>The string that a call leaves in the zeroed address field of 75 characters.\<close>

definition address_field :: "(byte list option \<Rightarrow> (nat \<times> byte list option) option) \<Rightarrow> cstring option" where
  "address_field f =
     (case f (Some (replicate 75 0)) of
        Some (_, Some addr) \<Rightarrow> Some (takeWhile (\<lambda>c. c \<noteq> 0) addr)
      | _ \<Rightarrow> None)"

text \<open>The script of an address, in an array of the size asked for.\<close>

definition address_script :: "cstring \<Rightarrow> byte list option" where
  "address_script addr =
     snd (BRAddressScriptPubKey addr (Some (replicate (fst (BRAddressScriptPubKey addr None)) 0)))"

definition BRTxInputSetAddress :: "cstring option \<Rightarrow> BRTxInput \<Rightarrow> BRTxInput option" where
  "BRTxInputSetAddress address input =
     (case address of
        None \<Rightarrow> Some (input\<lparr>in_script := None, in_address := []\<rparr>)
      | Some a \<Rightarrow>
          if \<not> BRAddressIsValid a then None
          else Some (input\<lparr>in_address := take 74 a, in_script := address_script a\<rparr>))"

definition BRTxInputSetScript :: "byte list option \<Rightarrow> BRTxInput \<Rightarrow> BRTxInput option" where
  "BRTxInputSetScript script input =
     (case script of
        None \<Rightarrow> Some (input\<lparr>in_script := None, in_address := []\<rparr>)
      | Some s \<Rightarrow>
          map_option (\<lambda>a. input\<lparr>in_script := Some s, in_address := a\<rparr>) (address_field (BRAddressFromScriptPubKey s)))"

definition BRTxInputSetSignature :: "byte list option \<Rightarrow> BRTxInput \<Rightarrow> BRTxInput option" where
  "BRTxInputSetSignature signature input =
     (case signature of
        None \<Rightarrow> Some (input\<lparr>in_signature := None\<rparr>)
      | Some s \<Rightarrow>
          if in_address input = []
          then map_option (\<lambda>a. input\<lparr>in_signature := Some s, in_address := a\<rparr>) (address_field (BRAddressFromScriptSig s))
          else Some (input\<lparr>in_signature := Some s\<rparr>))"

definition BRTxInputSetWitness :: "byte list option \<Rightarrow> BRTxInput \<Rightarrow> BRTxInput option" where
  "BRTxInputSetWitness witness input =
     (case witness of
        None \<Rightarrow> Some (input\<lparr>in_witness := None\<rparr>)
      | Some w \<Rightarrow>
          if in_address input = []
          then map_option (\<lambda>a. input\<lparr>in_witness := Some w, in_address := a\<rparr>)
            (address_field (\<lambda>b. Some (BRAddressFromWitness w b)))
          else Some (input\<lparr>in_witness := Some w\<rparr>))"

definition BRTxOutputSetAddress :: "cstring option \<Rightarrow> BRTxOutput \<Rightarrow> BRTxOutput option" where
  "BRTxOutputSetAddress address output =
     (case address of
        None \<Rightarrow> Some (output\<lparr>out_script := None, out_address := []\<rparr>)
      | Some a \<Rightarrow>
          if \<not> BRAddressIsValid a then None
          else Some (output\<lparr>out_address := take 74 a, out_script := address_script a\<rparr>))"

definition BRTxOutputSetScript :: "byte list option \<Rightarrow> BRTxOutput \<Rightarrow> BRTxOutput option" where
  "BRTxOutputSetScript script output =
     (case script of
        None \<Rightarrow> Some (output\<lparr>out_script := None, out_address := []\<rparr>)
      | Some s \<Rightarrow>
          map_option (\<lambda>a. output\<lparr>out_script := Some s, out_address := a\<rparr>) (address_field (BRAddressFromScriptPubKey s)))"

section \<open>Writing\<close>

text \<open>
  The state of a serialiser: \<open>off\<close> and the caller's buffer.  \<open>put\<close> copies bytes if they fit
  and always advances; \<open>call\<close> calls another serialiser on the rest of the buffer and advances by
  what it returns, which is 0 when its bytes do not fit; \<open>written\<close> is the result.
\<close>

type_synonym writer = "nat \<times> byte list option"

definition put :: "byte list \<Rightarrow> writer \<Rightarrow> writer" where
  "put bs w =
     (fst w + length bs,
      case snd w of None \<Rightarrow> None
      | Some d \<Rightarrow> Some (if fst w + length bs \<le> length d then wr d (fst w) bs else d))"

definition call :: "(byte list option \<Rightarrow> nat \<times> byte list option) \<Rightarrow> writer \<Rightarrow> writer" where
  "call f w =
     (let (n, d) = f (map_option (drop (fst w)) (snd w))
      in (fst w + n, case snd w of None \<Rightarrow> None | Some b \<Rightarrow> Some (take (fst w) b @ array_of d)))"

definition written :: "writer \<Rightarrow> writer" where
  "written w = (case snd w of None \<Rightarrow> w | Some d \<Rightarrow> (if fst w \<le> length d then fst w else 0, Some d))"

definition BRTxInputData :: "BRTxInput serialiser" where
  "BRTxInputData input data =
     (let w = put (UInt256Set (in_txHash input)) (0, data);
          w = put (UInt32SetLE (in_index input)) w;
          w = call (BRVarIntSet (word_of_nat (length (array_of (in_signature input))))) w;
          w = put (array_of (in_signature input)) w;
          w = (if in_amount input \<noteq> 0 then put (UInt64SetLE (in_amount input)) w else w)
      in written (put (UInt32SetLE (in_sequence input)) w))"

text \<open>One turn of the loop over the outputs.\<close>

definition put_output :: "BRTxOutput \<Rightarrow> writer \<Rightarrow> writer" where
  "put_output output w =
     (let w = put (UInt64SetLE (out_amount output)) w;
          w = call (BRVarIntSet (word_of_nat (length (array_of (out_script output))))) w
      in put (array_of (out_script output)) w)"

text \<open>All outputs for the index \<open>SIZE_MAX\<close>, otherwise the one at the index, if there is one.\<close>

definition BRTransactionOutputData :: "nat \<Rightarrow> BRTransaction serialiser" where
  "BRTransactionOutputData index tx data =
     written (fold put_output
       (if index = SIZE_MAX then outputs tx else if index < length (outputs tx) then [outputs tx ! index] else []) (0, data))"

text \<open>\<open>BRSHA256_2\<close> of what a sizing call and a filling call of a serialiser give.\<close>

definition output_hash :: "nat \<Rightarrow> BRTransaction \<Rightarrow> byte list" where
  "output_hash index tx =
     (let n = fst (BRTransactionOutputData index tx None);
          (n, buf) = BRTransactionOutputData index tx (Some (replicate n 0))
      in BRSHA256_2 (take n (array_of buf)))"

text \<open>The hashes are only written when all their 32 bytes fit, so they are \<open>put\<close>s.\<close>

definition BRTransactionWitnessData :: "nat \<Rightarrow> u32 \<Rightarrow> BRTransaction serialiser" where
  "BRTransactionWitnessData index hashType tx data =
     (let anyoneCanPay = (hashType AND SIGHASH_ANYONECANPAY \<noteq> 0);
          sigHash = hashType AND 0x1f;
          all = (sigHash \<noteq> SIGHASH_SINGLE \<and> sigHash \<noteq> SIGHASH_NONE);
          zero = UInt256Set 0
      in if index \<ge> length (inputs tx) then (0, data)
         else
           let w = put (UInt32SetLE (tx_version tx)) (0, data);
               w = put (if \<not> anyoneCanPay
                    then BRSHA256_2 (concat (map (\<lambda>i. UInt256Set (in_txHash i) @ UInt32SetLE (in_index i)) (inputs tx)))
                    else zero) w;
               w = put (if \<not> anyoneCanPay \<and> all
                    then BRSHA256_2 (concat (map (\<lambda>i. UInt32SetLE (in_sequence i)) (inputs tx)))
                    else zero) w;
               input = inputs tx ! index;
               script = array_of (in_script input);
               input = input\<lparr>in_signature :=
                 (if length script = 22 \<and> script ! 0 = OP_0 \<and> script ! 1 = 20
                  then Some ([OP_DUP, OP_HASH160, 20] @ take 20 (drop 2 script) @ [OP_EQUALVERIFY, OP_CHECKSIG])
                  else in_script input)\<rparr>;
               w = call (BRTxInputData input) w;
               w = put (if all then output_hash SIZE_MAX tx
                    else if sigHash = SIGHASH_SINGLE \<and> index < length (outputs tx) then output_hash index tx
                    else zero) w;
               w = put (UInt32SetLE (lockTime tx)) w
           in written (put (UInt32SetLE hashType) w))"

text \<open>The copy of an input that is written for the signature of input \<open>index\<close>, or to be sent.\<close>

definition sig_input :: "nat \<Rightarrow> u32 \<Rightarrow> nat \<Rightarrow> BRTxInput \<Rightarrow> BRTxInput" where
  "sig_input index sigHash i input =
     (if index = i \<or> (index = SIZE_MAX \<and> in_signature input = None)
      then input\<lparr>in_signature := in_script input, in_amount := (if index = i then 0 else in_amount input)\<rparr>
      else if index \<noteq> SIZE_MAX
      then input\<lparr>in_signature := None,
             in_sequence := (if sigHash = SIGHASH_NONE \<or> sigHash = SIGHASH_SINGLE then 0 else in_sequence input),
             in_amount := 0\<rparr>
      else input\<lparr>in_amount := 0\<rparr>)"

text \<open>The number of items of a witness; the sums wrap around, so the loop need not end.\<close>

partial_function (option) wit_count :: "byte list \<Rightarrow> u64 \<Rightarrow> nat \<Rightarrow> nat option" where
  "wit_count wit woff count =
     (if unat woff < length wit
      then let (v, len) = BRVarInt (drop (unat woff) wit) in wit_count wit (woff + v + word_of_nat len) (count + 1)
      else Some count)"

declare wit_count.simps [code]

definition put_witness :: "BRTxInput \<Rightarrow> writer \<Rightarrow> writer option" where
  "put_witness input w =
     map_option (\<lambda>count. put (array_of (in_witness input)) (call (BRVarIntSet (word_of_nat count)) w))
       (wit_count (array_of (in_witness input)) 0 0)"

definition BRTransactionData :: "nat \<Rightarrow> u32 \<Rightarrow> BRTransaction \<Rightarrow> byte list option \<Rightarrow> (nat \<times> byte list option) option" where
  "BRTransactionData index hashType tx data =
     (let anyoneCanPay = (hashType AND SIGHASH_ANYONECANPAY \<noteq> 0);
          sigHash = hashType AND 0x1f;
          inCount = length (inputs tx);
          outCount = length (outputs tx);
          witnessFlag = (index = SIZE_MAX \<and> (\<exists>i \<in> set (inputs tx). length (array_of (in_witness i)) > 0))
      in if hashType AND SIGHASH_FORKID \<noteq> 0 then Some (BRTransactionWitnessData index hashType tx data)
         else if anyoneCanPay \<and> index \<ge> inCount then Some (0, data)
         else
           let w = put (UInt32SetLE (tx_version tx)) (0, data);
               w = (if \<not> anyoneCanPay
                    then let w = (if witnessFlag then put [0, 1] w else w);
                             w = call (BRVarIntSet (word_of_nat inCount)) w
                         in fold (\<lambda>(i, input). call (BRTxInputData (sig_input index sigHash i input)))
                              (enumerate 0 (inputs tx)) w
                    else let w = call (BRVarIntSet 1) w; input = inputs tx ! index
                         in call (BRTxInputData (input\<lparr>in_signature := in_script input, in_amount := 0\<rparr>)) w);
               w = (if sigHash \<noteq> SIGHASH_SINGLE \<and> sigHash \<noteq> SIGHASH_NONE
                    then call (BRTransactionOutputData SIZE_MAX tx) (call (BRVarIntSet (word_of_nat outCount)) w)
                    else if sigHash = SIGHASH_SINGLE \<and> index < outCount
                    then let w = call (BRVarIntSet (word_of_nat (index + 1))) w;
                             w = fold (\<lambda>_ w. call (BRVarIntSet 0) (put (UInt64SetLE (- 1)) w)) [0..<index] w
                         in call (BRTransactionOutputData index tx) w
                    else call (BRVarIntSet 0) w)
           in do {
             w \<leftarrow> (if witnessFlag then for_each (inputs tx) put_witness w else Some w);
             let w = put (UInt32SetLE (lockTime tx)) w;
             Some (written (if index \<noteq> SIZE_MAX then put (UInt32SetLE hashType) w else w))
           })"

definition BRTransactionSerialize :: "BRTransaction \<Rightarrow> byte list option \<Rightarrow> (nat \<times> byte list option) option" where
  "BRTransactionSerialize = BRTransactionData SIZE_MAX SIGHASH_ALL"

section \<open>Construction\<close>

definition BRTransactionNew :: BRTransaction where
  "BRTransactionNew =
     \<lparr>txHash = 0, wtxHash = 0, tx_version = TX_VERSION, inputs = [], outputs = [], lockTime = TX_LOCKTIME,
      blockHeight = TX_UNCONFIRMED, tx_timestamp = 0\<rparr>"

definition BRTransactionAddInput ::
    "UInt256 \<Rightarrow> u32 \<Rightarrow> u64 \<Rightarrow> byte list option \<Rightarrow> byte list option \<Rightarrow> byte list option \<Rightarrow> u32 \<Rightarrow>
     BRTransaction \<Rightarrow> BRTransaction option" where
  "BRTransactionAddInput hash index amount script signature witness sequence tx =
     (let input = \<lparr>in_txHash = hash, in_index = index, in_address = [], in_amount = amount, in_script = None,
            in_signature = None, in_witness = None, in_sequence = sequence\<rparr>
      in if UInt256IsZero hash then None
         else do {
           input \<leftarrow> (if script \<noteq> None then BRTxInputSetScript script input else Some input);
           input \<leftarrow> (if signature \<noteq> None then BRTxInputSetSignature signature input else Some input);
           input \<leftarrow> (if witness \<noteq> None then BRTxInputSetWitness witness input else Some input);
           Some (tx\<lparr>inputs := inputs tx @ [input]\<rparr>)
         })"

definition BRTransactionAddOutput :: "u64 \<Rightarrow> byte list option \<Rightarrow> BRTransaction \<Rightarrow> BRTransaction option" where
  "BRTransactionAddOutput amount script tx =
     map_option (\<lambda>output. tx\<lparr>outputs := outputs tx @ [output]\<rparr>)
       (BRTxOutputSetScript script \<lparr>out_address = [], out_amount = amount, out_script = None\<rparr>)"

definition BRTransactionCopy :: "BRTransaction \<Rightarrow> BRTransaction option" where
  "BRTransactionCopy tx =
     do {
       cpy \<leftarrow> for_each (inputs tx)
         (\<lambda>i. BRTransactionAddInput (in_txHash i) (in_index i) (in_amount i) (in_script i) (in_signature i)
           (in_witness i) (in_sequence i))
         (tx\<lparr>inputs := [], outputs := []\<rparr>);
       for_each (outputs tx) (\<lambda>output. BRTransactionAddOutput (out_amount output) (out_script output)) cpy
     }"

text \<open>
  The loop of the shuffle from \<open>i\<close> on; \<open>rand k u\<close> is what the \<open>k\<close>-th call of \<open>BRRand\<close> with
  the bound \<open>u\<close> returns.
\<close>

function shuffle_loop :: "(nat \<Rightarrow> nat \<Rightarrow> nat) \<Rightarrow> nat \<Rightarrow> BRTxOutput list \<Rightarrow> BRTxOutput list" where
  "shuffle_loop rand i outs =
     (if i + 1 < length outs
      then let j = i + rand i (length outs - i)
           in shuffle_loop rand (i + 1) (if j \<noteq> i then outs[i := outs ! j, j := outs ! i] else outs)
      else outs)"
  by pat_completeness auto
termination
  by (relation "measure (\<lambda>(r, i, outs). length outs - i)") (auto simp: Let_def)

declare shuffle_loop.simps [simp del]

definition BRTransactionShuffleOutputs :: "(nat \<Rightarrow> nat \<Rightarrow> nat) \<Rightarrow> BRTransaction \<Rightarrow> BRTransaction" where
  "BRTransactionShuffleOutputs rand tx = tx\<lparr>outputs := shuffle_loop rand 0 (outputs tx)\<rparr>"

section \<open>Size\<close>

definition is_p2wpkh_input :: "BRTxInput \<Rightarrow> bool" where
  "is_p2wpkh_input input \<longleftrightarrow> (case in_script input of None \<Rightarrow> False | Some s \<Rightarrow> length s > 0 \<and> s ! 0 = OP_0)"

text \<open>What an input adds to \<open>size\<close> and to \<open>witSize\<close>.\<close>

definition input_size :: "BRTxInput \<Rightarrow> nat \<times> nat" where
  "input_size input =
     (if in_signature input \<noteq> None \<and> in_witness input \<noteq> None
      then (let sigLen = length (array_of (in_signature input))
            in (32 + 4 + BRVarIntSize (word_of_nat sigLen) + sigLen + 4, length (array_of (in_witness input))))
      else if is_p2wpkh_input input then (0, TX_INPUT_SIZE)
      else (TX_INPUT_SIZE, 0))"

definition output_size :: "BRTxOutput \<Rightarrow> nat" where
  "output_size output =
     (let scriptLen = length (array_of (out_script output)) in 8 + BRVarIntSize (word_of_nat scriptLen) + scriptLen)"

definition tx_sizes :: "BRTransaction \<Rightarrow> nat \<times> nat" where
  "tx_sizes tx =
     (let size = 8 + BRVarIntSize (word_of_nat (length (inputs tx))) + BRVarIntSize (word_of_nat (length (outputs tx)));
          size = size + sum_list (map (\<lambda>i. fst (input_size i)) (inputs tx));
          witSize = sum_list (map (\<lambda>i. snd (input_size i)) (inputs tx));
          size = size + sum_list (map output_size (outputs tx))
      in (size, if witSize > 0 then witSize + 2 + length (inputs tx) else witSize))"

definition BRTransactionSize :: "BRTransaction \<Rightarrow> nat" where
  "BRTransactionSize tx = fst (tx_sizes tx) + snd (tx_sizes tx)"

definition BRTransactionVSize :: "BRTransaction \<Rightarrow> nat" where
  "BRTransactionVSize tx = (fst (tx_sizes tx) * 4 + snd (tx_sizes tx) + 3) div 4"

definition BRTransactionStandardFee :: "BRTransaction \<Rightarrow> u64" where
  "BRTransactionStandardFee tx = word_of_nat (BRTransactionVSize tx) * TX_FEE_PER_KB div 1000"

definition BRTransactionIsSigned :: "BRTransaction \<Rightarrow> bool" where
  "BRTransactionIsSigned tx \<longleftrightarrow> (\<forall>i \<in> set (inputs tx). in_signature i \<noteq> None \<and> in_witness i \<noteq> None)"

definition BRTransactionIsStandard :: "BRTransaction \<Rightarrow> bool" where
  "BRTransactionIsStandard tx = True"

definition BRTransactionHash :: "BRTransaction \<Rightarrow> nat" where
  "BRTransactionHash tx = unat (u32_of (txHash tx) 0)"

definition BRTransactionEq :: "BRTransaction \<Rightarrow> BRTransaction \<Rightarrow> bool" where
  "BRTransactionEq tx otherTx \<longleftrightarrow> UInt256Eq (txHash tx) (txHash otherTx)"

end
