(* ===== verification/TransactionParse.thy ===== *)
theory TransactionParse
  imports Transaction
begin

text \<open>
  \<^verbatim>\<open>BRTransactionParse\<close>: a transaction as a peer sends it.  Offsets and lengths are 64-bit
  words that wrap around, because lengths are taken from the message and added to offsets
  before they are compared with the length of the buffer.
\<close>

unbundle bit_operations_syntax

section \<open>Growing an array\<close>

text \<open>
  \<^verbatim>\<open>array_set_count\<close> of \<^verbatim>\<open>support/BRArray.h\<close> on an empty array with room for \<open>cap\<close> elements of
  \<open>sz\<close> bytes: the number of elements that fit into the memory afterwards.  The size asked of
  \<open>realloc\<close> wraps around; \<open>realloc\<close> fails for the sizes of \<open>2 ^ 63\<close> and more, and a size too
  small for the elements that were there makes the \<open>memset\<close> run over all of memory.
\<close>

definition array_set_count :: "nat \<Rightarrow> nat \<Rightarrow> nat \<Rightarrow> nat option" where
  "array_set_count cap sz count =
     (if count \<le> cap then Some cap
      else let bytes = (count * sz + 16) mod 2 ^ 64
      in if bytes < 2 ^ 63 \<and> cap * sz + 16 \<le> bytes then Some ((bytes - 16) div sz) else None)"

definition sizeof_BRTxInput :: nat where "sizeof_BRTxInput = 176"
definition sizeof_BRTxOutput :: nat where "sizeof_BRTxOutput = 104"

section \<open>Reading\<close>

text \<open>
  \<open>n\<close> bytes at \<open>off\<close> if \<open>off + n <= bufLen\<close>, which holds of some \<open>off\<close> and \<open>n\<close> beyond the
  buffer because the sum wraps around.
\<close>

definition fetch :: "byte list \<Rightarrow> u64 \<Rightarrow> u64 \<Rightarrow> byte list option option" where
  "fetch buf off n =
     (if unat (off + n) \<le> length buf then map_option Some (rd buf (unat off) (unat n)) else Some None)"

definition fetch_le :: "byte list \<Rightarrow> u64 \<Rightarrow> u64 \<Rightarrow> 'a::len word option" where
  "fetch_le buf off n = map_option (\<lambda>r. case r of None \<Rightarrow> 0 | Some bs \<Rightarrow> word_of_le bs) (fetch buf off n)"

text \<open>A variable-length integer at \<open>off\<close>, and the offset after it.\<close>

definition varint_at :: "byte list \<Rightarrow> u64 \<Rightarrow> u64 \<times> u64" where
  "varint_at buf off = (let (v, len) = BRVarInt (drop (unat off) buf) in (v, off + word_of_nat len))"

definition BRTxInputZero :: BRTxInput where
  "BRTxInputZero =
     \<lparr>in_txHash = 0, in_index = 0, in_address = [], in_amount = 0, in_script = None, in_signature = None,
      in_witness = None, in_sequence = 0\<rparr>"

text \<open>One turn of the loop over the inputs: the input, \<open>off\<close>, and \<open>isSigned\<close>.\<close>

definition parse_input :: "bool \<Rightarrow> byte list \<Rightarrow> u64 \<Rightarrow> bool \<Rightarrow> (BRTxInput \<times> u64 \<times> bool) option" where
  "parse_input witnessFlag buf off isSigned =
     do {
       hash \<leftarrow> fetch_le buf off 32;
       let off = off + 32;
       index \<leftarrow> fetch_le buf off 4;
       let off = off + 4;
       let (sLen, off) = varint_at buf off;
       let input = BRTxInputZero\<lparr>in_txHash := hash, in_index := index\<rparr>;
       script \<leftarrow> fetch buf off sLen;
       (input, off, isSigned) \<leftarrow>
         (case script of
            None \<Rightarrow> Some (input, off, isSigned)
          | Some s \<Rightarrow> do {
              (addrLen, _) \<leftarrow> BRAddressFromScriptPubKey s None;
              if addrLen > 0 then do {
                input \<leftarrow> BRTxInputSetScript (Some s) input;
                amount \<leftarrow> fetch_le buf (off + sLen) 8;
                Some (input\<lparr>in_amount := amount\<rparr>, off + 8, False)
              } else do {
                input \<leftarrow> BRTxInputSetSignature (Some s) input;
                Some (input, off, isSigned)
              }
            });
       let off = off + sLen;
       input \<leftarrow> (if \<not> witnessFlag then BRTxInputSetWitness (Some []) input else Some input);
       sequence \<leftarrow> fetch_le buf off 4;
       Some (input\<lparr>in_sequence := sequence\<rparr>, off + 4, isSigned)
     }"

text \<open>The loop, with \<open>k\<close> inputs to go and room for \<open>room\<close> in the array.\<close>

fun parse_inputs :: "bool \<Rightarrow> byte list \<Rightarrow> nat \<Rightarrow> nat \<Rightarrow> BRTxInput list \<times> u64 \<times> bool \<Rightarrow>
    (BRTxInput list \<times> u64 \<times> bool) option" where
  "parse_inputs witnessFlag buf room 0 (ins, off, isSigned) = Some (ins, off, isSigned)"
| "parse_inputs witnessFlag buf room (Suc k) (ins, off, isSigned) =
     (if unat off \<le> length buf then
        if length ins < room then do {
          (input, off, isSigned) \<leftarrow> parse_input witnessFlag buf off isSigned;
          parse_inputs witnessFlag buf room k (ins @ [input], off, isSigned)
        } else None
      else Some (ins, off, isSigned))"

definition parse_output :: "byte list \<Rightarrow> u64 \<Rightarrow> (BRTxOutput \<times> u64) option" where
  "parse_output buf off =
     do {
       amount \<leftarrow> fetch_le buf off 8;
       let off = off + 8;
       let (sLen, off) = varint_at buf off;
       let output = \<lparr>out_address = [], out_amount = amount, out_script = None\<rparr>;
       script \<leftarrow> fetch buf off sLen;
       output \<leftarrow> (case script of None \<Rightarrow> Some output | Some s \<Rightarrow> BRTxOutputSetScript (Some s) output);
       Some (output, off + sLen)
     }"

fun parse_outputs :: "byte list \<Rightarrow> nat \<Rightarrow> nat \<Rightarrow> BRTxOutput list \<times> u64 \<Rightarrow> (BRTxOutput list \<times> u64) option" where
  "parse_outputs buf room 0 (outs, off) = Some (outs, off)"
| "parse_outputs buf room (Suc k) (outs, off) =
     (if unat off \<le> length buf then
        if length outs < room then do {
          (output, off) \<leftarrow> parse_output buf off;
          parse_outputs buf room k (outs @ [output], off)
        } else None
      else Some (outs, off))"

text \<open>The length of \<open>count\<close> items of a witness.\<close>

fun wit_skip :: "byte list \<Rightarrow> u64 \<Rightarrow> nat \<Rightarrow> u64 \<Rightarrow> u64" where
  "wit_skip buf off 0 sLen = sLen"
| "wit_skip buf off (Suc j) sLen =
     (let (v, len) = BRVarInt (drop (unat (off + sLen)) buf) in wit_skip buf off j (sLen + v + word_of_nat len))"

definition parse_witness :: "byte list \<Rightarrow> BRTxInput \<Rightarrow> u64 \<Rightarrow> (BRTxInput \<times> u64) option" where
  "parse_witness buf input off =
     do {
       let (count, off) = varint_at buf off;
       let sLen = wit_skip buf off (unat count) 0;
       wit \<leftarrow> fetch buf off sLen;
       input \<leftarrow> (case wit of None \<Rightarrow> Some input | Some w \<Rightarrow> BRTxInputSetWitness (Some w) input);
       Some (input, off + sLen)
     }"

fun parse_witnesses :: "byte list \<Rightarrow> BRTxInput list \<Rightarrow> u64 \<Rightarrow> (BRTxInput list \<times> u64) option" where
  "parse_witnesses buf [] off = Some ([], off)"
| "parse_witnesses buf (input # ins) off =
     (if unat off \<le> length buf then do {
        (input, off) \<leftarrow> parse_witness buf input off;
        (ins, off) \<leftarrow> parse_witnesses buf ins off;
        Some (input # ins, off)
      } else Some (input # ins, off))"

text \<open>The two hashes of a transaction that ends at \<open>off\<close>, with its witnesses at \<open>witnessOff\<close>.\<close>

definition parse_hashes :: "byte list \<Rightarrow> bool \<Rightarrow> bool \<Rightarrow> nat \<Rightarrow> nat \<Rightarrow> BRTransaction \<Rightarrow> BRTransaction" where
  "parse_hashes buf isSigned witnessFlag witnessOff off tx =
     (if isSigned \<and> witnessFlag
      then tx\<lparr>wtxHash := word_of_le (BRSHA256_2 (take off buf)),
             txHash := word_of_le (BRSHA256_2 (UInt32SetLE (tx_version tx) @ take (witnessOff - 6) (drop 6 buf) @
               UInt32SetLE (lockTime tx)))\<rparr>
      else if isSigned
      then tx\<lparr>txHash := word_of_le (BRSHA256_2 (take off buf)), wtxHash := word_of_le (BRSHA256_2 (take off buf))\<rparr>
      else tx)"

text \<open>From the inputs on.\<close>

definition parse_rest :: "byte list \<Rightarrow> u32 \<Rightarrow> bool \<Rightarrow> u64 \<Rightarrow> u64 \<Rightarrow> BRTransaction option option" where
  "parse_rest buf version witnessFlag inCount off =
     do {
       room \<leftarrow> array_set_count 1 sizeof_BRTxInput (unat inCount);
       (ins, off, isSigned) \<leftarrow> parse_inputs witnessFlag buf room (unat inCount) ([], off, True);
       let (outCount, off) = varint_at buf off;
       room \<leftarrow> array_set_count 2 sizeof_BRTxOutput (unat outCount);
       (outs, off) \<leftarrow> parse_outputs buf room (unat outCount) ([], off);
       let witnessOff = off;
       (ins, off) \<leftarrow> (if witnessFlag then parse_witnesses buf ins off else Some (ins, off));
       lock \<leftarrow> fetch_le buf off 4;
       let off = off + 4;
       let tx = BRTransactionNew\<lparr>tx_version := version, inputs := ins, outputs := outs, lockTime := lock\<rparr>;
       if inCount = 0 \<or> unat off > length buf then Some None
       else Some (Some (parse_hashes buf isSigned witnessFlag (unat witnessOff) (unat off) tx))
     }"

definition BRTransactionParse :: "byte list \<Rightarrow> BRTransaction option option" where
  "BRTransactionParse buf =
     do {
       version \<leftarrow> fetch_le buf 0 4;
       let (inCount, off) = varint_at buf 4;
       let (witnessFlag, off) =
         (if inCount = 0 \<and> unat (off + 1) \<le> length buf then (buf ! unat off \<noteq> 0, off + 1) else (False, off));
       let (inCount, off) = (if witnessFlag then varint_at buf off else (inCount, off));
       parse_rest buf version witnessFlag inCount off
     }"

end
