(* ===== verification/Transaction_Correct.thy ===== *)
theory Transaction_Correct
  imports TransactionParse Address_Correct
begin

text \<open>
  What is written for a transaction, how long it is, that parsing undoes it, what a
  signature covers, and what malformed messages and short buffers do.
\<close>

unbundle bit_operations_syntax

section \<open>Serialisers as encoders\<close>

text \<open>\<open>emits f bs\<close>: the step \<open>f\<close> of a serialiser adds \<open>bs\<close> to what has been written.\<close>

definition emits :: "(writer \<Rightarrow> writer) \<Rightarrow> byte list \<Rightarrow> bool" where
  "emits f bs \<longleftrightarrow> (\<forall>n. f (n, None) = (n + length bs, None)) \<and>
     (\<forall>pre rest. length bs \<le> length rest \<longrightarrow>
        f (length pre, Some (pre @ rest)) = (length (pre @ bs), Some ((pre @ bs) @ drop (length bs) rest)))"

named_theorems emits_intros \<open>what the steps of a serialiser add\<close>

lemma emits_null: "emits f bs \<Longrightarrow> f (n, None) = (n + length bs, None)"
  by (simp add: emits_def)

lemma emits_fit:
  "emits f bs \<Longrightarrow> length bs \<le> length rest \<Longrightarrow>
     f (length pre, Some (pre @ rest)) = (length (pre @ bs), Some ((pre @ bs) @ drop (length bs) rest))"
  by (simp add: emits_def)

lemma emits_put [emits_intros]: "emits (put bs) bs"
  by (simp add: emits_def put_def wr_def)

lemma emits_id [emits_intros]: "emits (\<lambda>w. w) []"
  by (simp add: emits_def)

lemma emits_comp [emits_intros]:
  assumes f: "emits f a" and g: "emits g b"
  shows "emits (\<lambda>w. g (f w)) (a @ b)"
  unfolding emits_def
proof (intro conjI allI impI)
  fix n
  show "g (f (n, None)) = (n + length (a @ b), None)" using f g by (simp add: emits_null)
next
  fix pre rest :: "byte list"
  assume le: "length (a @ b) \<le> length rest"
  have "f (length pre, Some (pre @ rest)) = (length (pre @ a), Some ((pre @ a) @ drop (length a) rest))"
    using le by (intro emits_fit [OF f]) simp
  moreover have "g (length (pre @ a), Some ((pre @ a) @ drop (length a) rest)) =
      (length ((pre @ a) @ b), Some (((pre @ a) @ b) @ drop (length b) (drop (length a) rest)))"
    using le by (intro emits_fit [OF g]) simp
  ultimately show "g (f (length pre, Some (pre @ rest))) =
      (length (pre @ a @ b), Some ((pre @ a @ b) @ drop (length (a @ b)) rest))"
    by (simp only: append.assoc drop_drop length_append add.commute)
qed

lemma emits_if: "emits f a \<Longrightarrow> emits (\<lambda>w. if c then f w else w) (if c then a else [])"
  by (simp add: emits_id)

lemma emits_cond: "(c \<Longrightarrow> emits f a) \<Longrightarrow> (\<not> c \<Longrightarrow> emits g b) \<Longrightarrow> emits (\<lambda>w. if c then f w else g w) (if c then a else b)"
  by simp

lemma emits_fold [emits_intros]:
  "(\<And>x. x \<in> set xs \<Longrightarrow> emits (f x) (enc x)) \<Longrightarrow> emits (fold f xs) (concat (map enc xs))"
proof (induction xs)
  case (Cons x xs)
  have "emits (\<lambda>w. fold f xs (f x w)) (enc x @ concat (map enc xs))"
    by (intro emits_comp) (simp_all add: Cons)
  then show ?case by (simp add: comp_def)
qed (simp add: emits_def)

text \<open>A nested serialiser, which only needs to behave when its bytes fit.\<close>

definition encodes :: "(byte list option \<Rightarrow> nat \<times> byte list option) \<Rightarrow> byte list \<Rightarrow> bool" where
  "encodes f bs \<longleftrightarrow> f None = (length bs, None) \<and>
     (\<forall>rest. length bs \<le> length rest \<longrightarrow> f (Some rest) = (length bs, Some (bs @ drop (length bs) rest)))"

lemma emits_call [emits_intros]: "encodes f bs \<Longrightarrow> emits (call f) bs"
  by (simp add: encodes_def emits_def call_def array_of_def)

lemma encodes_written:
  assumes "emits f bs" and "\<And>data. g data = written (f (0, data))"
  shows "encodes g bs"
proof -
  have "f (0, Some rest) = (length bs, Some (bs @ drop (length bs) rest))" if "length bs \<le> length rest" for rest
    using emits_fit [OF assms(1) that, of "[]"] by simp
  then show ?thesis
    using assms by (simp add: encodes_def emits_null written_def)
qed

lemma encodes_sized:
  assumes "encodes f bs"
  shows "fst (f None) = length bs" and "f (Some (replicate (length bs) 0)) = (length bs, Some bs)"
  using assms by (simp_all add: encodes_def)

lemma encodes_varint [emits_intros]: "encodes (BRVarIntSet i) (varint i)"
  using varint.null_call [of i] varint.fits [of i] by (simp add: encodes_def)

section \<open>Inputs and outputs\<close>

definition len_varint :: "byte list \<Rightarrow> byte list" where
  "len_varint bs = varint (word_of_nat (length bs))"

definition input_bytes :: "BRTxInput \<Rightarrow> byte list" where
  "input_bytes i = bytes_le 32 (in_txHash i) @ bytes_le 4 (in_index i) @ len_varint (array_of (in_signature i)) @
     array_of (in_signature i) @ (if in_amount i \<noteq> 0 then bytes_le 8 (in_amount i) else []) @ bytes_le 4 (in_sequence i)"

definition output_bytes :: "BRTxOutput \<Rightarrow> byte list" where
  "output_bytes output = bytes_le 8 (out_amount output) @ len_varint (array_of (out_script output)) @ array_of (out_script output)"

lemma encodes_input [emits_intros]: "encodes (BRTxInputData i) (input_bytes i)"
proof (rule encodes_written)
  let ?f = "\<lambda>w. put (UInt32SetLE (in_sequence i)) ((\<lambda>w. if in_amount i \<noteq> 0 then put (UInt64SetLE (in_amount i)) w else w)
      (put (array_of (in_signature i)) (call (BRVarIntSet (word_of_nat (length (array_of (in_signature i)))))
        (put (UInt32SetLE (in_index i)) (put (UInt256Set (in_txHash i)) w)))))"
  have "emits ?f (((((UInt256Set (in_txHash i) @ UInt32SetLE (in_index i)) @ varint (word_of_nat (length (array_of (in_signature i))))) @
      array_of (in_signature i)) @ (if in_amount i \<noteq> 0 then UInt64SetLE (in_amount i) else [])) @ UInt32SetLE (in_sequence i))"
    by (intro emits_comp emits_if emits_call emits_put emits_intros)
  then show "emits ?f (input_bytes i)" by (simp add: input_bytes_def le_simps len_varint_def cong: if_cong)
  show "BRTxInputData i data = written (?f (0, data))" for data by (simp add: BRTxInputData_def Let_def)
qed

lemma emits_output [emits_intros]: "emits (put_output out) (output_bytes out)"
proof -
  have "emits (\<lambda>w. put (array_of (out_script out)) (call (BRVarIntSet (word_of_nat (length (array_of (out_script out)))))
      (put (UInt64SetLE (out_amount out)) w)))
    ((UInt64SetLE (out_amount out) @ varint (word_of_nat (length (array_of (out_script out))))) @ array_of (out_script out))"
    by (intro emits_intros)
  then show ?thesis by (simp add: put_output_def [abs_def] Let_def output_bytes_def le_simps len_varint_def)
qed

definition selected_outputs :: "nat \<Rightarrow> BRTransaction \<Rightarrow> BRTxOutput list" where
  "selected_outputs index tx =
     (if index = SIZE_MAX then outputs tx else if index < length (outputs tx) then [outputs tx ! index] else [])"

lemma encodes_outputs [emits_intros]:
  "encodes (BRTransactionOutputData index tx) (concat (map output_bytes (selected_outputs index tx)))"
  by (rule encodes_written [OF emits_fold]) (simp_all add: emits_output BRTransactionOutputData_def selected_outputs_def)

lemma output_hash_bytes:
  "output_hash index tx = BRSHA256_2 (concat (map output_bytes (selected_outputs index tx)))"
proof -
  let ?bs = "concat (map output_bytes (selected_outputs index tx))"
  have "fst (BRTransactionOutputData index tx None) = length ?bs"
    "BRTransactionOutputData index tx (Some (replicate (length ?bs) 0)) = (length ?bs, Some ?bs)"
    using encodes_sized [OF encodes_outputs [of index tx]] by blast+
  then show ?thesis by (simp add: output_hash_def Let_def array_of_def)
qed

section \<open>Witnesses\<close>

text \<open>The items of a witness, each with its length.\<close>

definition stack_bytes :: "byte list list \<Rightarrow> byte list" where
  "stack_bytes items = concat (map (\<lambda>it. len_varint it @ it) items)"

lemma stack_bytes_simps [simp]:
  "stack_bytes [] = []" "stack_bytes (it # items) = len_varint it @ it @ stack_bytes items"
  by (simp_all add: stack_bytes_def)

lemma len_varint_pos [simp]: "0 < length (len_varint bs)" "len_varint bs \<noteq> []"
  by (simp_all add: len_varint_def varint_def bytes_le_def)

lemma BRVarInt_len: "BRVarInt (len_varint bs @ rest) = (word_of_nat (length bs), length (len_varint bs))"
  by (simp add: len_varint_def BRVarInt_varint)

lemma of_nat_unat_small: "n < 2 ^ 64 \<Longrightarrow> unat (word_of_nat n :: u64) = n"
  by (intro unat_of_nat_small) simp

lemma word_of_nat_pow64: "(word_of_nat (2 ^ 64) :: u64) = 0"
  by (intro word_unat_eq_iff [THEN iffD2]) (simp add: unat_word_of_nat)

lemma wit_count_stack:
  assumes "length (pre @ stack_bytes items) < 2 ^ 64"
  shows "wit_count (pre @ stack_bytes items) (word_of_nat (length pre)) count = Some (count + length items)"
  using assms
proof (induction items arbitrary: pre count)
  case Nil
  then show ?case by (subst wit_count.simps) (simp add: unat_of_nat_small)
next
  case (Cons it items)
  let ?wit = "pre @ stack_bytes (it # items)" and ?pre = "pre @ len_varint it @ it"
  have "wit_count (?pre @ stack_bytes items) (word_of_nat (length ?pre)) (count + 1) = Some (count + 1 + length items)"
    using Cons.prems by (intro Cons.IH) simp
  moreover have "unat (word_of_nat (length pre) :: u64) = length pre" using Cons.prems by (intro of_nat_unat_small) simp
  moreover have "length pre < length ?wit" using len_varint_pos(1) [of it] by (simp del: len_varint_pos)
  moreover have "BRVarInt (drop (length pre) ?wit) = (word_of_nat (length it), length (len_varint it))"
    using BRVarInt_len [of it "it @ stack_bytes items"] by simp
  ultimately show ?case
    by (subst wit_count.simps) (simp only: Let_def prod.case if_True, simp add: ac_simps)
qed

section \<open>Serialising\<close>

text \<open>The input as it is sent: an unsigned one carries its script, and then its amount.\<close>

definition sent_input :: "BRTxInput \<Rightarrow> BRTxInput" where
  "sent_input i =
     (if in_signature i = None then i\<lparr>in_signature := in_script i\<rparr> else i\<lparr>in_amount := 0\<rparr>)"

lemma sig_input_sent: "i < SIZE_MAX \<Longrightarrow> sig_input SIZE_MAX sigHash i input = sent_input input"
  by (simp add: sig_input_def sent_input_def)

definition has_witness :: "BRTransaction \<Rightarrow> bool" where
  "has_witness tx \<longleftrightarrow> (\<exists>i \<in> set (inputs tx). length (array_of (in_witness i)) > 0)"

definition witness_bytes :: "byte list list \<Rightarrow> byte list" where
  "witness_bytes items = varint (word_of_nat (length items)) @ stack_bytes items"

text \<open>
  The witness of each input is a list of items; without any, an input still has the empty
  witness.  The total length can be allocated.
\<close>

definition stacks_ok :: "byte list list list \<Rightarrow> BRTransaction \<Rightarrow> bool" where
  "stacks_ok stacks tx \<longleftrightarrow> map in_witness (inputs tx) = map (\<lambda>s. Some (stack_bytes s)) stacks"

definition body_bytes :: "BRTransaction \<Rightarrow> byte list" where
  "body_bytes tx = varint (word_of_nat (length (inputs tx))) @ concat (map (\<lambda>i. input_bytes (sent_input i)) (inputs tx)) @
     varint (word_of_nat (length (outputs tx))) @ concat (map output_bytes (outputs tx))"

definition tx_bytes :: "byte list list list \<Rightarrow> BRTransaction \<Rightarrow> byte list" where
  "tx_bytes stacks tx = bytes_le 4 (tx_version tx) @ (if has_witness tx then [0, 1] else []) @ body_bytes tx @
     (if has_witness tx then concat (map witness_bytes stacks) else []) @ bytes_le 4 (lockTime tx)"

lemma emits_witness:
  assumes "in_witness i = Some (stack_bytes items)" and "length (stack_bytes items) < 2 ^ 64"
  shows "\<exists>f. (\<forall>w. put_witness i w = Some (f w)) \<and> emits f (witness_bytes items)"
proof -
  let ?f = "\<lambda>w. put (stack_bytes items) (call (BRVarIntSet (word_of_nat (length items))) w)"
  have "wit_count (stack_bytes items) 0 0 = Some (length items)"
    using wit_count_stack [of "[]" items 0] assms(2) by simp
  then have "put_witness i w = Some (?f w)" for w using assms(1) by (simp add: put_witness_def array_of_def)
  moreover have "emits ?f (witness_bytes items)" unfolding witness_bytes_def by (intro emits_intros)
  ultimately show ?thesis by (intro exI [of _ ?f]) blast
qed

lemma emits_witnesses:
  assumes "map in_witness ins = map (\<lambda>s. Some (stack_bytes s)) stacks" and "\<forall>s \<in> set stacks. length (stack_bytes s) < 2 ^ 64"
  shows "\<exists>f. (\<forall>w. for_each ins put_witness w = Some (f w)) \<and> emits f (concat (map witness_bytes stacks))"
  using assms
proof (induction ins arbitrary: stacks)
  case Nil
  then show ?case using emits_id by (intro exI [of _ "\<lambda>w. w"]) simp
next
  case (Cons i ins)
  then obtain s ss where s: "stacks = s # ss" "in_witness i = Some (stack_bytes s)"
    "map in_witness ins = map (\<lambda>s. Some (stack_bytes s)) ss" by (cases stacks) auto
  obtain f where f: "\<And>w. put_witness i w = Some (f w)" "emits f (witness_bytes s)"
    using emits_witness [OF s(2)] Cons.prems(2) s(1) by auto
  obtain g where g: "\<And>w. for_each ins put_witness w = Some (g w)" "emits g (concat (map witness_bytes ss))"
    using Cons.IH [OF s(3)] Cons.prems(2) s(1) by auto
  have "emits (\<lambda>w. g (f w)) (concat (map witness_bytes stacks))"
    using emits_comp [OF f(2) g(2)] s(1) by simp
  then show ?case using f(1) g(1) by (intro exI [of _ "\<lambda>w. g (f w)"]) simp
qed

lemma fold_enumerate_sent:
  assumes "n + length ins \<le> SIZE_MAX"
  shows "fold (\<lambda>(i, input). call (BRTxInputData (sig_input SIZE_MAX h i input))) (enumerate n ins) =
    fold (\<lambda>input. call (BRTxInputData (sent_input input))) ins"
  using assms by (induction ins arbitrary: n) (simp_all add: sig_input_sent)

lemma sighash_all: "SIGHASH_ALL AND SIGHASH_FORKID = 0" "SIGHASH_ALL AND SIGHASH_ANYONECANPAY = 0"
  "SIGHASH_ALL AND 0x1f = SIGHASH_ALL" "SIGHASH_ALL \<noteq> SIGHASH_SINGLE" "SIGHASH_ALL \<noteq> SIGHASH_NONE"
  by (simp_all add: SIGHASH_ALL_def SIGHASH_FORKID_def SIGHASH_ANYONECANPAY_def SIGHASH_SINGLE_def SIGHASH_NONE_def)

lemma length_concat_ge:
  "(\<And>x. x \<in> set xs \<Longrightarrow> f x \<noteq> []) \<Longrightarrow> length xs \<le> length (concat (map f xs))"
proof (induction xs)
  case (Cons x xs)
  then have "0 < length (f x)" "length xs \<le> length (concat (map f xs))" by simp_all
  then show ?case unfolding list.map concat.simps length_append list.size by linarith
qed simp

lemma length_concat_member: "x \<in> set xs \<Longrightarrow> length (f x) \<le> length (concat (map f xs))"
  by (induction xs) auto

lemma input_bytes_nonempty [simp]: "input_bytes i \<noteq> []"
  by (simp add: input_bytes_def)

lemma BRTransactionSerialize_encodes:
  assumes "stacks_ok stacks tx" and "length (tx_bytes stacks tx) < 2 ^ 63"
  shows "\<exists>g. (\<forall>data. BRTransactionSerialize tx data = Some (g data)) \<and> encodes g (tx_bytes stacks tx)"
proof -
  let ?n = "length (inputs tx)" and ?m = "length (outputs tx)"
  have "?n \<le> length (concat (map (\<lambda>i. input_bytes (sent_input i)) (inputs tx)))"
    by (rule length_concat_ge) simp
  then have n: "?n \<le> SIZE_MAX" using assms(2) by (simp add: tx_bytes_def body_bytes_def SIZE_MAX_def)
  have small: "\<forall>s \<in> set stacks. length (stack_bytes s) < 2 ^ 64" if "has_witness tx"
  proof
    fix s assume "s \<in> set stacks"
    then have "length (stack_bytes s) \<le> length (concat (map witness_bytes stacks))"
      using length_concat_member [of s stacks witness_bytes] by (simp add: witness_bytes_def)
    then show "length (stack_bytes s) < 2 ^ 64" using assms(2) that by (simp add: tx_bytes_def)
  qed
  let ?f = "\<lambda>w. call (BRTransactionOutputData SIZE_MAX tx) (call (BRVarIntSet (word_of_nat ?m))
      (fold (\<lambda>input. call (BRTxInputData (sent_input input))) (inputs tx) (call (BRVarIntSet (word_of_nat ?n))
        ((\<lambda>w. if has_witness tx then put [0, 1] w else w) (put (UInt32SetLE (tx_version tx)) w)))))"
  have "emits ?f ((((((UInt32SetLE (tx_version tx)) @ (if has_witness tx then [0, 1] else [])) @ varint (word_of_nat ?n)) @
      concat (map (\<lambda>i. input_bytes (sent_input i)) (inputs tx))) @ varint (word_of_nat ?m)) @
      concat (map output_bytes (selected_outputs SIZE_MAX tx)))"
    by (intro emits_comp emits_if emits_call emits_put emits_fold encodes_input encodes_outputs encodes_varint)
  then have f: "emits ?f (bytes_le 4 (tx_version tx) @ (if has_witness tx then [0, 1] else []) @ body_bytes tx)"
    by (simp add: body_bytes_def selected_outputs_def le_simps cong: if_cong)
  obtain h where h: "\<And>w. (if has_witness tx then for_each (inputs tx) put_witness w else Some w) = Some (h w)"
    "emits h (if has_witness tx then concat (map witness_bytes stacks) else [])"
  proof (cases "has_witness tx")
    case True
    with emits_witnesses [OF _ small, of "inputs tx"] assms(1) that show ?thesis by (auto simp: stacks_ok_def)
  next
    case False
    then show ?thesis using that [of "\<lambda>w. w"] emits_id by simp
  qed
  let ?g = "\<lambda>w. put (UInt32SetLE (lockTime tx)) (h (?f w))"
  have g: "emits ?g (tx_bytes stacks tx)"
    using emits_comp [OF emits_comp [OF f h(2)] emits_put [of "UInt32SetLE (lockTime tx)"]]
    by (simp add: tx_bytes_def le_simps cong: if_cong)
  have "BRTransactionSerialize tx data = Some (written (?g (0, data)))" for data
    using h(1) unfolding BRTransactionSerialize_def BRTransactionData_def Let_def has_witness_def [symmetric]
    by (cases "has_witness tx") (simp_all add: sighash_all fold_enumerate_sent [of 0, simplified, OF n])
  moreover have "encodes (\<lambda>data. written (?g (0, data))) (tx_bytes stacks tx)"
    by (rule encodes_written [OF g]) simp
  ultimately show ?thesis by (intro exI [of _ "\<lambda>data. written (?g (0, data))"]) simp
qed

end
