(* ===== verification/TransactionParse_Correct.thy ===== *)
theory TransactionParse_Correct
  imports Transaction_Correct
begin

text \<open>
  Parsing undoes serialising, on unsigned transactions, which carry their scripts and
  amounts, on signed ones and on ones with witnesses; and what counts and lengths that wrap
  around do to the parser.
\<close>

unbundle bit_operations_syntax

section \<open>Reading at an offset\<close>

lemma fetch_at:
  assumes "buf = p @ bs @ q" and "off = word_of_nat (length p)" and "n = word_of_nat (length bs)"
    and "length p + length bs < 2 ^ 64"
  shows "fetch buf off n = Some (Some bs)"
proof -
  have "unat off = length p" "unat n = length bs" using assms by (simp_all add: of_nat_unat_small)
  moreover have "off + n = word_of_nat (length p + length bs)" using assms(2,3) by simp
  then have "unat (off + n) = length p + length bs" using assms(4) by (simp only: of_nat_unat_small)
  ultimately show ?thesis using assms(1) by (simp add: fetch_def)
qed

lemma fetch_le_at:
  fixes w :: "'a::len word"
  assumes "buf = p @ bytes_le m w @ q" and "off = word_of_nat (length p)" and "n = word_of_nat m"
    and "length p + m < 2 ^ 64" and "LENGTH('a) = 8 * m"
  shows "fetch_le buf off n = Some w"
  using fetch_at [of buf p "bytes_le m w" q off n] assms by (simp add: fetch_le_def word_of_le_bytes_le)

lemma varint_at_varint:
  assumes "buf = p @ varint v @ q" and "off = word_of_nat (length p)" and "length p < 2 ^ 64"
  shows "varint_at buf off = (v, word_of_nat (length (p @ varint v)))"
  using assms BRVarInt_varint [of v q] by (simp add: varint_at_def of_nat_unat_small)

section \<open>Inputs and outputs\<close>

lemma SetWitness_Some: "BRTxInputSetWitness (Some w) input = Some (input\<lparr>in_witness := Some w\<rparr>)"
  by (simp add: BRTxInputSetWitness_def address_field_def BRAddressFromWitness_def)

text \<open>
  An input as the setters leave it: either signed, with an unlocking script that is not
  itself an output script, or unsigned, with the output script it spends and its amount.
\<close>

definition input_ok :: "BRTxInput \<Rightarrow> bool" where
  "input_ok i \<longleftrightarrow>
     (case in_signature i of
        Some s \<Rightarrow> in_script i = None \<and> in_amount i = 0 \<and> (\<exists>b. BRAddressFromScriptPubKey s None = Some (0, b)) \<and>
          address_field (BRAddressFromScriptSig s) = Some (in_address i)
      | None \<Rightarrow> \<exists>s n b. in_script i = Some s \<and> in_amount i \<noteq> 0 \<and> BRAddressFromScriptPubKey s None = Some (n, b) \<and> n > 0 \<and>
          address_field (BRAddressFromScriptPubKey s) = Some (in_address i))"

definition output_ok :: "BRTxOutput \<Rightarrow> bool" where
  "output_ok out \<longleftrightarrow> (\<exists>s. out_script out = Some s \<and> address_field (BRAddressFromScriptPubKey s) = Some (out_address out))"

lemma parse_input_bytes:
  assumes ok: "input_ok i" and buf: "buf = pre @ input_bytes (sent_input i) @ post" and len: "length buf < 2 ^ 63"
  shows "parse_input flag buf (word_of_nat (length pre)) signed0 =
    Some (i\<lparr>in_witness := (if flag then None else Some [])\<rparr>, word_of_nat (length (pre @ input_bytes (sent_input i))),
      signed0 \<and> in_signature i \<noteq> None)"
proof -
  define p where "p = array_of (in_signature (sent_input i))"
  define A where "A = (if in_amount (sent_input i) \<noteq> 0 then bytes_le 8 (in_amount (sent_input i)) else [])"
  let ?H = "bytes_le 32 (in_txHash i)" and ?I = "bytes_le 4 (in_index i)" and ?V = "len_varint p" and ?Q = "bytes_le 4 (in_sequence i)"
  have same: "in_txHash (sent_input i) = in_txHash i" "in_index (sent_input i) = in_index i"
    "in_sequence (sent_input i) = in_sequence i" by (simp_all add: sent_input_def)
  have bytes: "input_bytes (sent_input i) = ?H @ ?I @ ?V @ p @ A @ ?Q"
    by (simp add: input_bytes_def p_def A_def same)
  have buf': "buf = pre @ ?H @ ?I @ ?V @ p @ A @ ?Q @ post" using buf by (simp add: bytes)
  have l: "length pre + 36 + length ?V + length p + length A + 4 + length post < 2 ^ 63"
    using len unfolding buf' by simp
  let ?off = "word_of_nat (length pre) :: u64"
  have f1: "fetch_le buf ?off 32 = Some (in_txHash i)"
    using l by (intro fetch_le_at [of _ pre 32 _ "?I @ ?V @ p @ A @ ?Q @ post"]) (simp_all add: buf')
  have f2: "fetch_le buf (?off + 32) 4 = Some (in_index i)"
    using l by (intro fetch_le_at [of _ "pre @ ?H" 4 _ "?V @ p @ A @ ?Q @ post"]) (simp_all add: buf')
  have f3: "varint_at buf (?off + 32 + 4) = (word_of_nat (length p), ?off + 32 + 4 + word_of_nat (length ?V))"
    using l varint_at_varint [of buf "pre @ ?H @ ?I" "word_of_nat (length p)" "p @ A @ ?Q @ post" "?off + 32 + 4"]
    by (simp add: buf' len_varint_def ac_simps)
  have f4: "fetch buf (?off + 32 + 4 + word_of_nat (length ?V)) (word_of_nat (length p)) = Some (Some p)"
    using l by (intro fetch_at [of _ "pre @ ?H @ ?I @ ?V" _ "A @ ?Q @ post"]) (simp_all add: buf' ac_simps)
  have f5: "fetch_le buf (?off + 32 + 4 + word_of_nat (length ?V) + word_of_nat (length p) + word_of_nat (length A)) 4 =
      Some (in_sequence i)"
    using l by (intro fetch_le_at [of _ "pre @ ?H @ ?I @ ?V @ p @ A" 4 _ post]) (simp_all add: buf' ac_simps)
  show ?thesis
  proof (cases "in_signature i")
    case (Some s)
    then have s: "p = s" "A = []" "in_script i = None" "in_amount i = 0" "\<exists>b. BRAddressFromScriptPubKey s None = Some (0, b)"
      "address_field (BRAddressFromScriptSig s) = Some (in_address i)"
      using ok by (simp_all add: input_ok_def p_def A_def sent_input_def array_of_def)
    obtain b where "BRAddressFromScriptPubKey s None = Some (0, b)" using s(5) by blast
    then show ?thesis using f1 f2 f3 f4 f5 s Some
      unfolding parse_input_def bytes
      by (simp add: SetWitness_Some BRTxInputSetSignature_def BRTxInputZero_def Let_def ac_simps)
  next
    case None
    then obtain s n b where s: "p = s" "in_script i = Some s" "in_amount i \<noteq> 0"
      "BRAddressFromScriptPubKey s None = Some (n, b)" "n > 0"
      "address_field (BRAddressFromScriptPubKey s) = Some (in_address i)" "A = bytes_le 8 (in_amount i)"
      using ok by (auto simp: input_ok_def p_def A_def sent_input_def array_of_def)
    have f6: "fetch_le buf (?off + 32 + 4 + word_of_nat (length ?V) + word_of_nat (length p)) 8 = Some (in_amount i)"
      using l by (intro fetch_le_at [of _ "pre @ ?H @ ?I @ ?V @ p" 8 _ "?Q @ post"]) (simp_all add: buf' s(7) ac_simps)
    show ?thesis using f1 f2 f3 f4 f5 f6 s None
      unfolding parse_input_def bytes
      by (simp add: SetWitness_Some BRTxInputSetScript_def BRTxInputZero_def Let_def ac_simps)
  qed
qed

lemma parse_inputs_bytes:
  assumes "\<forall>i \<in> set ins. input_ok i" and "buf = pre @ concat (map (\<lambda>i. input_bytes (sent_input i)) ins) @ post"
    and "length buf < 2 ^ 63" and "length acc + length ins \<le> room"
  shows "parse_inputs flag buf room (length ins) (acc, word_of_nat (length pre), signed0) =
    Some (acc @ map (\<lambda>i. i\<lparr>in_witness := (if flag then None else Some [])\<rparr>) ins,
      word_of_nat (length (pre @ concat (map (\<lambda>i. input_bytes (sent_input i)) ins))),
      signed0 \<and> (\<forall>i \<in> set ins. in_signature i \<noteq> None))"
  using assms
proof (induction ins arbitrary: pre acc signed0)
  case (Cons i ins)
  let ?b = "input_bytes (sent_input i)" and ?w = "i\<lparr>in_witness := (if flag then None else Some [])\<rparr>"
  have "unat (word_of_nat (length pre) :: u64) \<le> length buf"
    using Cons.prems(2,3) by (subst of_nat_unat_small) simp_all
  moreover have "parse_input flag buf (word_of_nat (length pre)) signed0 =
      Some (?w, word_of_nat (length (pre @ ?b)), signed0 \<and> in_signature i \<noteq> None)"
    using Cons.prems by (intro parse_input_bytes) simp_all
  moreover have "parse_inputs flag buf room (length ins) (acc @ [?w], word_of_nat (length (pre @ ?b)), signed0 \<and> in_signature i \<noteq> None) =
      Some ((acc @ [?w]) @ map (\<lambda>i. i\<lparr>in_witness := (if flag then None else Some [])\<rparr>) ins,
        word_of_nat (length ((pre @ ?b) @ concat (map (\<lambda>i. input_bytes (sent_input i)) ins))),
        (signed0 \<and> in_signature i \<noteq> None) \<and> (\<forall>i \<in> set ins. in_signature i \<noteq> None))"
    using Cons.prems by (intro Cons.IH) simp_all
  ultimately show ?case using Cons.prems(4) by (simp add: ac_simps)
qed simp

lemma parse_output_bytes:
  assumes ok: "output_ok out" and buf: "buf = pre @ output_bytes out @ post" and len: "length buf < 2 ^ 63"
  shows "parse_output buf (word_of_nat (length pre)) = Some (out, word_of_nat (length (pre @ output_bytes out)))"
proof -
  obtain s where s: "out_script out = Some s" "address_field (BRAddressFromScriptPubKey s) = Some (out_address out)"
    using ok by (auto simp: output_ok_def)
  let ?A = "bytes_le 8 (out_amount out)" and ?V = "len_varint s"
  have bytes: "output_bytes out = ?A @ ?V @ s" by (simp add: output_bytes_def s array_of_def)
  have buf': "buf = pre @ ?A @ ?V @ s @ post" using buf by (simp add: bytes)
  have l: "length pre + 8 + length ?V + length s + length post < 2 ^ 63" using len unfolding buf' by simp
  let ?off = "word_of_nat (length pre) :: u64"
  have "fetch_le buf ?off 8 = Some (out_amount out)"
    using l by (intro fetch_le_at [of _ pre 8 _ "?V @ s @ post"]) (simp_all add: buf')
  moreover have "varint_at buf (?off + 8) = (word_of_nat (length s), ?off + 8 + word_of_nat (length ?V))"
    using l varint_at_varint [of buf "pre @ ?A" "word_of_nat (length s)" "s @ post" "?off + 8"]
    by (simp add: buf' len_varint_def ac_simps)
  moreover have "fetch buf (?off + 8 + word_of_nat (length ?V)) (word_of_nat (length s)) = Some (Some s)"
    using l by (intro fetch_at [of _ "pre @ ?A @ ?V" _ post]) (simp_all add: buf' ac_simps)
  ultimately show ?thesis
    using s unfolding parse_output_def bytes by (simp add: BRTxOutputSetScript_def Let_def ac_simps)
qed

lemma parse_outputs_bytes:
  assumes "\<forall>out \<in> set outs. output_ok out" and "buf = pre @ concat (map output_bytes outs) @ post"
    and "length buf < 2 ^ 63" and "length acc + length outs \<le> room"
  shows "parse_outputs buf room (length outs) (acc, word_of_nat (length pre)) =
    Some (acc @ outs, word_of_nat (length (pre @ concat (map output_bytes outs))))"
  using assms
proof (induction outs arbitrary: pre acc)
  case (Cons out outs)
  have "unat (word_of_nat (length pre) :: u64) \<le> length buf"
    using Cons.prems(2,3) by (subst of_nat_unat_small) simp_all
  moreover have "parse_output buf (word_of_nat (length pre)) = Some (out, word_of_nat (length (pre @ output_bytes out)))"
    using Cons.prems by (intro parse_output_bytes) simp_all
  moreover have "parse_outputs buf room (length outs) (acc @ [out], word_of_nat (length (pre @ output_bytes out))) =
      Some ((acc @ [out]) @ outs, word_of_nat (length ((pre @ output_bytes out) @ concat (map output_bytes outs))))"
    using Cons.prems by (intro Cons.IH) simp_all
  ultimately show ?case using Cons.prems(4) by (simp add: ac_simps)
qed simp

section \<open>Witnesses\<close>

lemma wit_skip_stack:
  assumes "buf = pre @ done0 @ stack_bytes items @ post" and "length buf < 2 ^ 63"
  shows "wit_skip buf (word_of_nat (length pre)) (length items) (word_of_nat (length done0)) =
    word_of_nat (length (done0 @ stack_bytes items))"
  using assms
proof (induction items arbitrary: done0)
  case (Cons it items)
  have "unat (word_of_nat (length pre) + word_of_nat (length done0) :: u64) = length (pre @ done0)"
    using Cons.prems of_nat_unat_small [of "length (pre @ done0)"] by simp
  moreover have "drop (length (pre @ done0)) buf = len_varint it @ it @ stack_bytes items @ post"
    using Cons.prems(1) by simp
  moreover have "wit_skip buf (word_of_nat (length pre)) (length items) (word_of_nat (length (done0 @ len_varint it @ it))) =
      word_of_nat (length ((done0 @ len_varint it @ it) @ stack_bytes items))"
    using Cons.prems by (intro Cons.IH) simp_all
  ultimately show ?case by (simp add: BRVarInt_len ac_simps)
qed simp

lemma parse_witness_bytes:
  assumes "buf = pre @ witness_bytes items @ post" and "length buf < 2 ^ 63" and "length items < 2 ^ 64"
  shows "parse_witness buf i (word_of_nat (length pre)) =
    Some (i\<lparr>in_witness := Some (stack_bytes items)\<rparr>, word_of_nat (length (pre @ witness_bytes items)))"
proof -
  let ?V = "varint (word_of_nat (length items))" and ?S = "stack_bytes items"
  have buf: "buf = pre @ ?V @ ?S @ post" using assms(1) by (simp add: witness_bytes_def)
  have l: "length pre + length ?V + length ?S + length post < 2 ^ 63" using assms(2) unfolding buf by simp
  let ?off = "word_of_nat (length (pre @ ?V)) :: u64"
  have "varint_at buf (word_of_nat (length pre)) = (word_of_nat (length items), ?off)"
    using l by (intro varint_at_varint [of _ _ _ "?S @ post"]) (simp_all add: buf)
  moreover have "unat (word_of_nat (length items) :: u64) = length items" using assms(3) by (intro of_nat_unat_small)
  moreover have "wit_skip buf ?off (length items) 0 = word_of_nat (length ?S)"
    using wit_skip_stack [of buf "pre @ ?V" "[]" items post] assms(2) by (simp add: buf)
  moreover have "fetch buf ?off (word_of_nat (length ?S)) = Some (Some ?S)"
    using l by (intro fetch_at [of _ "pre @ ?V" _ post]) (simp_all add: buf)
  ultimately show ?thesis by (simp add: parse_witness_def SetWitness_Some witness_bytes_def Let_def ac_simps)
qed

lemma length_stack: "length items \<le> length (stack_bytes items)"
  unfolding stack_bytes_def by (rule length_concat_ge) simp

lemma parse_witnesses_bytes:
  assumes "map in_witness ins = map (\<lambda>s. Some (stack_bytes s)) stacks"
    and "buf = pre @ concat (map witness_bytes stacks) @ post" and "length buf < 2 ^ 63"
  shows "parse_witnesses buf (map (\<lambda>i. i\<lparr>in_witness := None\<rparr>) ins) (word_of_nat (length pre)) =
    Some (ins, word_of_nat (length (pre @ concat (map witness_bytes stacks))))"
  using assms
proof (induction ins arbitrary: pre stacks)
  case (Cons i ins)
  then obtain s ss where s: "stacks = s # ss" "in_witness i = Some (stack_bytes s)"
    "map in_witness ins = map (\<lambda>s. Some (stack_bytes s)) ss" by (cases stacks) auto
  have same: "i\<lparr>in_witness := Some (stack_bytes s)\<rparr> = i" using s(2) by (cases i) simp
  have "unat (word_of_nat (length pre) :: u64) \<le> length buf"
    using Cons.prems(2,3) by (subst of_nat_unat_small) simp_all
  moreover have "length s < 2 ^ 64"
    using length_stack [of s] Cons.prems(2,3) s(1) by (simp add: witness_bytes_def)
  then have "parse_witness buf (i\<lparr>in_witness := None\<rparr>) (word_of_nat (length pre)) =
      Some (i, word_of_nat (length (pre @ witness_bytes s)))"
    using Cons.prems s parse_witness_bytes [of buf pre s "concat (map witness_bytes ss) @ post" "i\<lparr>in_witness := None\<rparr>"]
    by (simp add: same)
  moreover have "parse_witnesses buf (map (\<lambda>i. i\<lparr>in_witness := None\<rparr>) ins) (word_of_nat (length (pre @ witness_bytes s))) =
      Some (ins, word_of_nat (length ((pre @ witness_bytes s) @ concat (map witness_bytes ss))))"
    using Cons.prems s by (intro Cons.IH) simp_all
  ultimately show ?case using s(1) by (simp add: ac_simps)
qed simp

section \<open>Whole transactions\<close>

definition hash256 :: "byte list \<Rightarrow> UInt256" where
  "hash256 bs = word_of_le (BRSHA256_2 bs)"

text \<open>What is hashed for the name of a transaction: the bytes without marker and witnesses.\<close>

definition legacy_bytes :: "BRTransaction \<Rightarrow> byte list" where
  "legacy_bytes tx = bytes_le 4 (tx_version tx) @ body_bytes tx @ bytes_le 4 (lockTime tx)"

definition all_signed :: "BRTransaction \<Rightarrow> bool" where
  "all_signed tx \<longleftrightarrow> (\<forall>i \<in> set (inputs tx). in_signature i \<noteq> None)"

text \<open>The transaction as the parser returns it: unconfirmed, with its hashes if it is signed.\<close>

definition received :: "byte list list list \<Rightarrow> BRTransaction \<Rightarrow> BRTransaction" where
  "received stacks tx = tx\<lparr>
     txHash := (if all_signed tx then hash256 (legacy_bytes tx) else 0),
     wtxHash := (if all_signed tx then hash256 (tx_bytes stacks tx) else 0),
     blockHeight := TX_UNCONFIRMED, tx_timestamp := 0\<rparr>"

definition tx_ok :: "byte list list list \<Rightarrow> BRTransaction \<Rightarrow> bool" where
  "tx_ok stacks tx \<longleftrightarrow> inputs tx \<noteq> [] \<and> (\<forall>i \<in> set (inputs tx). input_ok i) \<and> (\<forall>out \<in> set (outputs tx). output_ok out) \<and>
     stacks_ok stacks tx"

lemma no_witness_stacks:
  assumes "stacks_ok stacks tx" and "\<not> has_witness tx"
  shows "\<forall>i \<in> set (inputs tx). in_witness i = Some []"
proof
  fix i assume i: "i \<in> set (inputs tx)"
  then have "in_witness i \<in> set (map (\<lambda>s. Some (stack_bytes s)) stacks)"
    using assms(1) by (metis image_eqI list.set_map stacks_ok_def)
  then obtain s where "in_witness i = Some (stack_bytes s)" by auto
  moreover have "array_of (in_witness i) = []" using assms(2) i by (simp add: has_witness_def)
  ultimately show "in_witness i = Some []" by (simp add: array_of_def)
qed

lemma array_set_count_small:
  assumes "count * sz < 2 ^ 62" and "0 < sz"
  shows "\<exists>room. array_set_count cap sz count = Some room \<and> count \<le> room"
proof (cases "count \<le> cap")
  case False
  then have "cap * sz \<le> count * sz" by (intro mult_le_mono1) simp
  moreover have "count * sz div sz = count" using assms(2) by simp
  ultimately show ?thesis using False assms by (simp add: array_set_count_def)
qed (simp add: array_set_count_def)

lemma parse_rest_bytes:
  assumes ok: "tx_ok stacks tx" and len: "length buf < 2 ^ 54" and pre: "length pre = (if has_witness tx then 6 else 4)"
    and buf: "buf = pre @ body_bytes tx @ (if has_witness tx then concat (map witness_bytes stacks) else []) @
      bytes_le 4 (lockTime tx) @ rest"
  shows "parse_rest buf (tx_version tx) (has_witness tx) (word_of_nat (length (inputs tx)))
      (word_of_nat (length (pre @ varint (word_of_nat (length (inputs tx)))))) =
    Some (Some (parse_hashes buf (all_signed tx) (has_witness tx) (length (pre @ body_bytes tx))
      (length buf - length rest) (tx\<lparr>txHash := 0, wtxHash := 0, blockHeight := TX_UNCONFIRMED, tx_timestamp := 0\<rparr>)))"
proof -
  let ?n = "length (inputs tx)" and ?m = "length (outputs tx)"
  let ?N = "varint (word_of_nat ?n)" and ?M = "varint (word_of_nat ?m)"
  let ?I = "concat (map (\<lambda>i. input_bytes (sent_input i)) (inputs tx))" and ?O = "concat (map output_bytes (outputs tx))"
  let ?W = "if has_witness tx then concat (map witness_bytes stacks) else []" and ?L = "bytes_le 4 (lockTime tx)"
  let ?strip = "\<lambda>i. i\<lparr>in_witness := (if has_witness tx then None else Some [])\<rparr>"
  have buf': "buf = pre @ ?N @ ?I @ ?M @ ?O @ ?W @ ?L @ rest" using buf by (simp add: body_bytes_def)
  have l: "length pre + length ?N + length ?I + length ?M + length ?O + length ?W + 4 + length rest < 2 ^ 54"
    using len unfolding buf' by simp
  have n: "?n \<le> length ?I" by (rule length_concat_ge) simp
  have m: "?m \<le> length ?O" by (rule length_concat_ge) (simp add: output_bytes_def)
  have small: "unat (word_of_nat ?n :: u64) = ?n" "unat (word_of_nat ?m :: u64) = ?m"
    using n m l by (auto intro!: of_nat_unat_small)
  obtain r1 where r1: "array_set_count 1 sizeof_BRTxInput ?n = Some r1" "?n \<le> r1"
    using array_set_count_small [of ?n sizeof_BRTxInput 1] n l by (auto simp: sizeof_BRTxInput_def)
  obtain r2 where r2: "array_set_count 2 sizeof_BRTxOutput ?m = Some r2" "?m \<le> r2"
    using array_set_count_small [of ?m sizeof_BRTxOutput 2] m l by (auto simp: sizeof_BRTxOutput_def)
  have ins: "parse_inputs (has_witness tx) buf r1 ?n ([], word_of_nat (length (pre @ ?N)), True) =
      Some (map ?strip (inputs tx), word_of_nat (length (pre @ ?N @ ?I)), all_signed tx)"
    using parse_inputs_bytes [of "inputs tx" buf "pre @ ?N" "?M @ ?O @ ?W @ ?L @ rest" "[]" r1 "has_witness tx" True] ok l r1(2)
    by (simp add: tx_ok_def buf' all_signed_def)
  have cnt: "varint_at buf (word_of_nat (length (pre @ ?N @ ?I))) = (word_of_nat ?m, word_of_nat (length (pre @ ?N @ ?I @ ?M)))"
    using varint_at_varint [of buf "pre @ ?N @ ?I" "word_of_nat ?m" "?O @ ?W @ ?L @ rest"] l by (simp add: buf')
  have outs: "parse_outputs buf r2 ?m ([], word_of_nat (length (pre @ ?N @ ?I @ ?M))) =
      Some (outputs tx, word_of_nat (length (pre @ ?N @ ?I @ ?M @ ?O)))"
    using parse_outputs_bytes [of "outputs tx" buf "pre @ ?N @ ?I @ ?M" "?W @ ?L @ rest" "[]" r2] ok l r2(2)
    by (simp add: tx_ok_def buf')
  have wits: "(if has_witness tx then parse_witnesses buf (map ?strip (inputs tx)) (word_of_nat (length (pre @ ?N @ ?I @ ?M @ ?O)))
      else Some (map ?strip (inputs tx), word_of_nat (length (pre @ ?N @ ?I @ ?M @ ?O)))) =
      Some (inputs tx, word_of_nat (length (pre @ ?N @ ?I @ ?M @ ?O @ ?W)))"
  proof (cases "has_witness tx")
    case True
    then show ?thesis
      using parse_witnesses_bytes [of "inputs tx" stacks buf "pre @ ?N @ ?I @ ?M @ ?O" "?L @ rest"] ok l
      by (simp add: tx_ok_def stacks_ok_def buf')
  next
    case False
    then have "map ?strip (inputs tx) = inputs tx"
      using no_witness_stacks [of stacks tx] ok by (intro map_idI) (simp add: tx_ok_def)
    then show ?thesis using False by simp
  qed
  have lock: "fetch_le buf (word_of_nat (length (pre @ ?N @ ?I @ ?M @ ?O @ ?W))) 4 = Some (lockTime tx)"
    using l by (intro fetch_le_at [of _ "pre @ ?N @ ?I @ ?M @ ?O @ ?W" 4 _ rest]) (simp_all add: buf')
  have nz: "(word_of_nat ?n :: u64) \<noteq> 0" using ok small(1) by (metis length_0_conv tx_ok_def unat_0)
  have off: "unat (word_of_nat (length (pre @ ?N @ ?I @ ?M @ ?O @ ?W)) + 4 :: u64) = length buf - length rest"
    "unat (word_of_nat (length (pre @ ?N @ ?I @ ?M @ ?O)) :: u64) = length (pre @ body_bytes tx)"
    using l of_nat_unat_small [of "length (pre @ ?N @ ?I @ ?M @ ?O @ ?W @ ?L)"]
      of_nat_unat_small [of "length (pre @ ?N @ ?I @ ?M @ ?O)"] by (simp_all add: buf' body_bytes_def ac_simps)
  have tx: "BRTransactionNew\<lparr>tx_version := tx_version tx, inputs := inputs tx, outputs := outputs tx, lockTime := lockTime tx\<rparr> =
      tx\<lparr>txHash := 0, wtxHash := 0, blockHeight := TX_UNCONFIRMED, tx_timestamp := 0\<rparr>"
    by (cases tx) (simp add: BRTransactionNew_def)
  show ?thesis
    unfolding parse_rest_def small r1(1) ins cnt outs wits lock bind.bind_lunit prod.case Let_def off tx r2(1)
    using nz by simp
qed

lemma BRTransactionParse_bytes:
  assumes ok: "tx_ok stacks tx" and len: "length (tx_bytes stacks tx @ rest) < 2 ^ 54"
  shows "BRTransactionParse (tx_bytes stacks tx @ rest) = Some (Some (received stacks tx))"
proof -
  let ?buf = "tx_bytes stacks tx @ rest" and ?N = "varint (word_of_nat (length (inputs tx)))"
  let ?V = "bytes_le 4 (tx_version tx)" and ?B = "body_bytes tx" and ?L = "bytes_le 4 (lockTime tx)"
  let ?W = "if has_witness tx then concat (map witness_bytes stacks) else []"
  let ?pre = "?V @ (if has_witness tx then [0, 1] else [])"
  have buf: "?buf = ?pre @ ?B @ ?W @ ?L @ rest" by (simp add: tx_bytes_def)
  obtain b where b: "?B = ?N @ b" by (simp add: body_bytes_def)
  have n: "length (inputs tx) < 2 ^ 64"
    using len length_concat_ge [of "inputs tx" "\<lambda>i. input_bytes (sent_input i)"] by (simp add: tx_bytes_def body_bytes_def)
  have nz: "(word_of_nat (length (inputs tx)) :: u64) \<noteq> 0"
    using ok of_nat_unat_small [OF n] by (metis length_0_conv tx_ok_def unat_0)
  have version: "fetch_le ?buf 0 4 = Some (tx_version tx)"
    by (rule fetch_le_at [of _ "[]" 4]) (simp_all add: tx_bytes_def)
  have head: "BRTransactionParse ?buf = parse_rest ?buf (tx_version tx) (has_witness tx) (word_of_nat (length (inputs tx)))
      (word_of_nat (length (?pre @ ?N)))"
  proof (cases "has_witness tx")
    case True
    have "varint 0 = [0]" by (simp add: varint_def bytes_le_def byte_at_def)
    then have "varint_at ?buf 4 = (0, word_of_nat (length (?V @ varint 0)))"
      using True b by (intro varint_at_varint [of _ _ _ "1 # ?B @ ?W @ ?L @ rest"]) (simp_all add: buf)
    then have "varint_at ?buf 4 = (0, 5)" using \<open>varint 0 = [0]\<close> by simp
    moreover have "varint_at ?buf 6 = (word_of_nat (length (inputs tx)), word_of_nat (length (?pre @ ?N)))"
      using True b by (intro varint_at_varint [of _ _ _ "b @ ?W @ ?L @ rest"]) (simp_all add: buf)
    moreover have "?buf ! 5 = 1" "6 \<le> length ?buf" using True by (simp_all add: buf nth_append)
    ultimately show ?thesis using True version by (simp add: BRTransactionParse_def)
  next
    case False
    then have "varint_at ?buf 4 = (word_of_nat (length (inputs tx)), word_of_nat (length (?pre @ ?N)))"
      using b by (intro varint_at_varint [of _ _ _ "b @ ?W @ ?L @ rest"]) (simp_all add: buf)
    then show ?thesis using False version nz by (simp add: BRTransactionParse_def)
  qed
  have body: "take (length ?B) (drop 6 ?buf) = ?B" if "has_witness tx"
    using that by (simp add: buf)
  have whole: "take (length ?buf - length rest) ?buf = tx_bytes stacks tx" by simp
  have legacy: "tx_bytes stacks tx = legacy_bytes tx" if "\<not> has_witness tx"
    using that by (simp add: tx_bytes_def legacy_bytes_def)
  show ?thesis
    unfolding head using parse_rest_bytes [OF ok len _ buf] body legacy
    by (simp add: parse_hashes_def whole received_def hash256_def legacy_bytes_def UInt32SetLE_bytes)
qed

text \<open>
  Claim C1.  A transaction whose inputs and outputs are as the setters leave them, signed or
  not, with or without witnesses, is announced with the number of bytes that are then
  written, nothing beyond them is touched, and parsing them gives the transaction back,
  whatever follows, with the hash of its bytes without witnesses as its name if all inputs
  are signed.
\<close>

theorem transaction_roundtrip:
  assumes "tx_ok stacks tx" and "length (tx_bytes stacks tx) \<le> length buf" and "length buf + length rest < 2 ^ 54"
  shows "\<exists>out n. BRTransactionSerialize tx None = Some (n, None) \<and> length out = n \<and>
    BRTransactionSerialize tx (Some buf) = Some (n, Some (out @ drop n buf)) \<and>
    BRTransactionParse (out @ rest) = Some (Some (received stacks tx))"
proof -
  let ?bs = "tx_bytes stacks tx"
  have len: "length (?bs @ rest) < 2 ^ 54" using assms(2,3) by simp
  obtain g where "\<And>data. BRTransactionSerialize tx data = Some (g data)" "encodes g ?bs"
    using BRTransactionSerialize_encodes [of stacks tx] assms(1) len by (auto simp: tx_ok_def)
  then have "BRTransactionSerialize tx None = Some (length ?bs, None)"
    "BRTransactionSerialize tx (Some buf) = Some (length ?bs, Some (?bs @ drop (length ?bs) buf))"
    using assms(2) by (simp_all add: encodes_def)
  then show ?thesis
    using BRTransactionParse_bytes [OF assms(1) len] by (intro exI [of _ ?bs] exI [of _ "length ?bs"]) simp
qed

definition example_input :: BRTxInput where
  "example_input = \<lparr>in_txHash = 5, in_index = 1, in_address = [], in_amount = 0, in_script = None, in_signature = Some [],
     in_witness = Some (stack_bytes [[7, 8], []]), in_sequence = TXIN_SEQUENCE\<rparr>"

definition example_tx :: BRTransaction where
  "example_tx = \<lparr>txHash = 0, wtxHash = 0, tx_version = 2, inputs = [example_input],
     outputs = [\<lparr>out_address = [], out_amount = 600, out_script = Some []\<rparr>], lockTime = 3, blockHeight = 0, tx_timestamp = 9\<rparr>"

lemma example_tx_ok: "tx_ok [[[7, 8], []]] example_tx"
  by (simp add: tx_ok_def example_tx_def example_input_def input_ok_def output_ok_def stacks_ok_def address_field_def
      BRAddressFromScriptPubKey_def BRAddressFromScriptSig_def)

theorem transaction_roundtrip_witness:
  "\<exists>out. length out = 67 \<and> BRTransactionSerialize example_tx (Some (replicate 100 0)) = Some (67, Some (out @ replicate 33 0)) \<and>
    BRTransactionParse (out @ [1, 2]) = Some (Some (received [[[7, 8], []]] example_tx)) \<and>
    txHash (received [[[7, 8], []]] example_tx) = hash256 (legacy_bytes example_tx)"
proof -
  have len: "length (tx_bytes [[[7, 8], []]] example_tx) = 67"
    by (simp add: tx_bytes_def body_bytes_def has_witness_def example_tx_def example_input_def sent_input_def input_bytes_def
        output_bytes_def len_varint_def varint_def array_of_def witness_bytes_def stack_bytes_def)
  obtain g where "\<And>data. BRTransactionSerialize example_tx data = Some (g data)" "encodes g (tx_bytes [[[7, 8], []]] example_tx)"
    using BRTransactionSerialize_encodes [of "[[[7, 8], []]]" example_tx] example_tx_ok len by (auto simp: tx_ok_def)
  then have "BRTransactionSerialize example_tx None = Some (67, None)" using len by (simp add: encodes_def)
  moreover have "all_signed example_tx" by (simp add: all_signed_def example_tx_def example_input_def)
  ultimately show ?thesis
    using transaction_roundtrip [OF example_tx_ok, of "replicate 100 0" "[1, 2]"] len by (auto simp: received_def)
qed

end
