(* ===== verification/TransactionData_Correct.thy ===== *)
theory TransactionData_Correct
  imports TransactionParse_Correct
begin

text \<open>
  The size of a transaction before it is written, the data a signature covers, and what
  happens with short buffers and with counts that wrap around.
\<close>

unbundle bit_operations_syntax

section \<open>Size\<close>

lemma length_input_bytes:
  "length (input_bytes (sent_input i)) = fst (input_size i)" if "in_signature i \<noteq> None" "in_witness i \<noteq> None"
  using that by (auto simp: input_size_def sent_input_def input_bytes_def len_varint_def BRVarIntSize_varint Let_def)

lemma length_output_bytes: "length (output_bytes out) = output_size out"
  by (simp add: output_size_def output_bytes_def len_varint_def BRVarIntSize_varint Let_def)

lemma sum_list_pos: "0 < sum_list (map f xs) \<longleftrightarrow> (\<exists>x \<in> set xs. 0 < (f x :: nat))"
  by (induction xs) auto

lemma stacks_witness_sum:
  assumes "map in_witness ins = map (\<lambda>s. Some (stack_bytes s)) stacks" and "\<forall>i \<in> set ins. in_signature i \<noteq> None"
    and "\<forall>s \<in> set stacks. length s < 253"
  shows "length (concat (map witness_bytes stacks)) = sum_list (map (\<lambda>i. snd (input_size i)) ins) + length ins"
  using assms
proof (induction ins arbitrary: stacks)
  case (Cons i ins)
  then obtain s ss where s: "stacks = s # ss" "in_witness i = Some (stack_bytes s)"
    "map in_witness ins = map (\<lambda>s. Some (stack_bytes s)) ss" by (cases stacks) auto
  have "length (witness_bytes s) = 1 + length (stack_bytes s)"
    using Cons.prems(3) s(1) by (simp add: witness_bytes_def varint_def word_less_nat_alt of_nat_unat_small)
  moreover have "snd (input_size i) = length (stack_bytes s)"
    using Cons.prems(2) s(2) by (auto simp: input_size_def array_of_def Let_def)
  moreover have "length (concat (map witness_bytes ss)) = sum_list (map (\<lambda>i. snd (input_size i)) ins) + length ins"
    using Cons.prems s by (intro Cons.IH) simp_all
  ultimately show ?case using s(1) by simp
qed simp

text \<open>
  For a signed transaction with fewer than 253 witness items per input,
  \<open>BRTransactionSize\<close> is the number of bytes that are written, and \<open>BRTransactionVSize\<close> is
  the virtual size of BIP 141: a quarter, rounded up, of three times the size without
  witnesses plus the size with them.
\<close>

theorem transaction_size:
  assumes "tx_ok stacks tx" and "all_signed tx" and "\<forall>s \<in> set stacks. length s < 253"
  shows "BRTransactionSize tx = length (tx_bytes stacks tx) \<and>
    BRTransactionVSize tx = (3 * length (legacy_bytes tx) + length (tx_bytes stacks tx) + 3) div 4"
proof -
  let ?wit = "sum_list (map (\<lambda>i. snd (input_size i)) (inputs tx))"
  have st: "map in_witness (inputs tx) = map (\<lambda>s. Some (stack_bytes s)) stacks" using assms(1) by (simp add: tx_ok_def stacks_ok_def)
  have each: "in_signature i \<noteq> None" "in_witness i \<noteq> None" if "i \<in> set (inputs tx)" for i
  proof -
    show "in_signature i \<noteq> None" using assms(2) that by (simp add: all_signed_def)
    have "in_witness i \<in> set (map (\<lambda>s. Some (stack_bytes s)) stacks)" using st that by (metis image_eqI list.set_map)
    then show "in_witness i \<noteq> None" by auto
  qed
  have "length (concat (map (\<lambda>i. input_bytes (sent_input i)) ins)) = sum_list (map (\<lambda>i. fst (input_size i)) ins)"
    if "set ins \<subseteq> set (inputs tx)" for ins
    using that by (induction ins) (simp_all add: length_input_bytes each)
  moreover have "length (concat (map output_bytes outs)) = sum_list (map output_size outs)" for outs
    by (induction outs) (simp_all add: length_output_bytes)
  ultimately have legacy: "length (legacy_bytes tx) = fst (tx_sizes tx)"
    by (simp add: legacy_bytes_def body_bytes_def tx_sizes_def Let_def BRVarIntSize_varint)
  have wit: "has_witness tx \<longleftrightarrow> ?wit > 0"
  proof -
    have "snd (input_size i) = length (array_of (in_witness i))" if "i \<in> set (inputs tx)" for i
      using each [OF that] by (simp add: input_size_def Let_def)
    then show ?thesis unfolding has_witness_def sum_list_pos by (intro bex_cong) simp_all
  qed
  have "length (tx_bytes stacks tx) = length (legacy_bytes tx) +
      (if has_witness tx then 2 + length (concat (map witness_bytes stacks)) else 0)"
    by (simp add: tx_bytes_def legacy_bytes_def)
  moreover have "length (concat (map witness_bytes stacks)) = ?wit + length (inputs tx)"
    using stacks_witness_sum [OF st _ assms(3)] each by blast
  moreover have "snd (tx_sizes tx) = (if has_witness tx then ?wit + 2 + length (inputs tx) else 0)"
    unfolding wit tx_sizes_def Let_def snd_conv
    by (cases "0 < ?wit") (simp_all only: if_True if_False simp_thms neq0_conv [symmetric])
  ultimately have "length (tx_bytes stacks tx) = fst (tx_sizes tx) + snd (tx_sizes tx)" using legacy by simp
  then show ?thesis using legacy by (simp add: BRTransactionSize_def BRTransactionVSize_def)
qed

theorem transaction_size_witness: "BRTransactionSize example_tx = 67 \<and> BRTransactionVSize example_tx = 62"
proof -
  have "all_signed example_tx" by (simp add: all_signed_def example_tx_def example_input_def)
  moreover have "length (tx_bytes [[[7, 8], []]] example_tx) = 67" "length (legacy_bytes example_tx) = 60"
    by (simp_all add: tx_bytes_def legacy_bytes_def body_bytes_def has_witness_def example_tx_def example_input_def sent_input_def
        input_bytes_def output_bytes_def len_varint_def varint_def array_of_def witness_bytes_def stack_bytes_def)
  ultimately show ?thesis using transaction_size [OF example_tx_ok] by simp
qed

section \<open>The data of a signature\<close>

text \<open>The preimage as BIP 143 defines it, for every combination of the flags.\<close>

definition script_code :: "byte list \<Rightarrow> byte list" where
  "script_code script =
     (if length script = 22 \<and> take 2 script = [OP_0, 20]
      then [25] @ pkh_script (drop 2 script) else len_varint script @ script)"

definition outpoint :: "BRTxInput \<Rightarrow> byte list" where
  "outpoint i = bytes_le 32 (in_txHash i) @ bytes_le 4 (in_index i)"

lemma signed_input_bytes:
  assumes "script = array_of (in_script i)"
  shows "input_bytes (i\<lparr>in_signature := (if length script = 22 \<and> script ! 0 = OP_0 \<and> script ! 1 = 20
        then Some ([OP_DUP, OP_HASH160, 20] @ take 20 (drop 2 script) @ [OP_EQUALVERIFY, OP_CHECKSIG])
        else in_script i)\<rparr>) =
    outpoint i @ script_code script @ (if in_amount i \<noteq> 0 then bytes_le 8 (in_amount i) else []) @ bytes_le 4 (in_sequence i)"
proof (cases "length script = 22 \<and> take 2 script = [OP_0, 20]")
  case True
  then obtain a b h where h: "script = a # b # h" "length h = 20" by (cases script; cases "tl script") auto
  have "len_varint ([OP_DUP, OP_HASH160, 20] @ h @ [OP_EQUALVERIFY, OP_CHECKSIG]) = [25]"
    using h(2) by (simp add: len_varint_def varint_def bytes_le_def byte_at_def)
  then show ?thesis using True h
    by (simp add: input_bytes_def outpoint_def script_code_def pkh_script_def array_of_def)
next
  case False
  have "take 2 script = [script ! 0, script ! 1]" if "length script = 22"
    using that by (cases script; cases "tl script") auto
  then have "\<not> (length script = 22 \<and> script ! 0 = OP_0 \<and> script ! 1 = 20)" using False by auto
  then show ?thesis using False assms by (auto simp: input_bytes_def outpoint_def script_code_def)
qed

definition digest_parts :: "nat \<Rightarrow> u32 \<Rightarrow> BRTransaction \<Rightarrow> byte list \<Rightarrow> byte list" where
  "digest_parts index hashType tx amount =
     (let i = inputs tx ! index;
          any = (hashType AND 0x80 \<noteq> 0); none = (hashType AND 0x1f = 2); single = (hashType AND 0x1f = 3);
          zero = replicate 32 0
      in bytes_le 4 (tx_version tx) @
         (if any then zero else BRSHA256_2 (concat (map outpoint (inputs tx)))) @
         (if any \<or> none \<or> single then zero else BRSHA256_2 (concat (map (\<lambda>i. bytes_le 4 (in_sequence i)) (inputs tx)))) @
         outpoint i @ script_code (array_of (in_script i)) @ amount @ bytes_le 4 (in_sequence i) @
         (if single then (if index < length (outputs tx) then BRSHA256_2 (output_bytes (outputs tx ! index)) else zero)
          else if none then zero else BRSHA256_2 (concat (map output_bytes (outputs tx)))) @
         bytes_le 4 (lockTime tx) @ bytes_le 4 hashType)"

definition bip143 :: "nat \<Rightarrow> u32 \<Rightarrow> BRTransaction \<Rightarrow> byte list" where
  "bip143 index hashType tx = digest_parts index hashType tx (bytes_le 8 (in_amount (inputs tx ! index)))"

lemma zero_hash: "UInt256Set 0 = replicate 32 0"
  by (rule nth_equalityI) (simp_all add: UInt256Set_def)

lemma encodes_witness_data:
  assumes "index < length (inputs tx)" and "length (outputs tx) \<le> SIZE_MAX"
  shows "encodes (BRTransactionWitnessData index hashType tx) (digest_parts index hashType tx
    (if in_amount (inputs tx ! index) \<noteq> 0 then bytes_le 8 (in_amount (inputs tx ! index)) else []))"
proof -
  define i where "i = inputs tx ! index"
  define any where "any \<longleftrightarrow> hashType AND SIGHASH_ANYONECANPAY \<noteq> 0"
  define none where "none \<longleftrightarrow> hashType AND 0x1f = SIGHASH_NONE"
  define single where "single \<longleftrightarrow> hashType AND 0x1f = SIGHASH_SINGLE"
  define script where "script = array_of (in_script i)"
  define si where "si = i\<lparr>in_signature := (if length script = 22 \<and> script ! 0 = OP_0 \<and> script ! 1 = 20
    then Some ([OP_DUP, OP_HASH160, 20] @ take 20 (drop 2 script) @ [OP_EQUALVERIFY, OP_CHECKSIG]) else in_script i)\<rparr>"
  define prevouts where "prevouts = (if \<not> any then BRSHA256_2 (concat (map (\<lambda>i. UInt256Set (in_txHash i) @ UInt32SetLE (in_index i)) (inputs tx)))
    else UInt256Set 0)"
  define sequences where "sequences = (if \<not> any \<and> \<not> single \<and> \<not> none
    then BRSHA256_2 (concat (map (\<lambda>i. UInt32SetLE (in_sequence i)) (inputs tx))) else UInt256Set 0)"
  define outs where "outs = (if \<not> single \<and> \<not> none then output_hash SIZE_MAX tx
    else if single \<and> index < length (outputs tx) then output_hash index tx else UInt256Set 0)"
  let ?f = "\<lambda>w. put (UInt32SetLE hashType) (put (UInt32SetLE (lockTime tx)) (put outs (call (BRTxInputData si)
    (put sequences (put prevouts (put (UInt32SetLE (tx_version tx)) w))))))"
  have f: "emits ?f ((((((UInt32SetLE (tx_version tx) @ prevouts) @ sequences) @ input_bytes si) @ outs) @
      UInt32SetLE (lockTime tx)) @ UInt32SetLE hashType)"
    by (intro emits_comp emits_put emits_call encodes_input)
  have "BRTransactionWitnessData index hashType tx data = written (?f (0, data))" for data
    using assms(1) unfolding BRTransactionWitnessData_def Let_def si_def script_def i_def prevouts_def sequences_def outs_def
      any_def none_def single_def by (simp del: BRTxInput.update_convs)
  then have enc: "encodes (BRTransactionWitnessData index hashType tx) ((((((UInt32SetLE (tx_version tx) @ prevouts) @ sequences) @
      input_bytes si) @ outs) @ UInt32SetLE (lockTime tx)) @ UInt32SetLE hashType)"
    using encodes_written [OF f] by blast
  have o: "selected_outputs SIZE_MAX tx = outputs tx" "index < length (outputs tx) \<Longrightarrow> selected_outputs index tx = [outputs tx ! index]"
    using assms(2) by (auto simp: selected_outputs_def)
  have si: "input_bytes si = outpoint i @ script_code script @ (if in_amount i \<noteq> 0 then bytes_le 8 (in_amount i) else []) @
      bytes_le 4 (in_sequence i)"
    unfolding si_def by (rule signed_input_bytes [OF script_def])
  have "prevouts = (if any then replicate 32 0 else BRSHA256_2 (concat (map outpoint (inputs tx))))"
    by (simp add: prevouts_def zero_hash outpoint_def [abs_def] UInt32SetLE_bytes UInt256Set_bytes [of "in_txHash _"])
  moreover have "sequences = (if any \<or> none \<or> single then replicate 32 0
      else BRSHA256_2 (concat (map (\<lambda>i. bytes_le 4 (in_sequence i)) (inputs tx))))"
    by (auto simp: sequences_def zero_hash UInt32SetLE_bytes)
  moreover have "\<not> (none \<and> single)" by (simp add: none_def single_def SIGHASH_NONE_def SIGHASH_SINGLE_def)
  then have "outs = (if single then (if index < length (outputs tx) then BRSHA256_2 (output_bytes (outputs tx ! index)) else replicate 32 0)
      else if none then replicate 32 0 else BRSHA256_2 (concat (map output_bytes (outputs tx))))"
    by (auto simp: outs_def zero_hash output_hash_bytes o)
  ultimately show ?thesis
    using enc unfolding digest_parts_def Let_def i_def [symmetric] script_def [symmetric] si
    by (simp add: any_def none_def single_def SIGHASH_NONE_def SIGHASH_SINGLE_def SIGHASH_ANYONECANPAY_def UInt32SetLE_bytes
        cong: if_cong)
qed

text \<open>
  Claim C12.  For an input with a nonzero amount the data signed is the preimage of BIP 143,
  for every type of signature; for an amount of zero the eight bytes of the amount are
  missing from it.
\<close>

theorem witness_data_bip143:
  assumes "index < length (inputs tx)" and "length (outputs tx) \<le> SIZE_MAX"
    and "n = length (bip143 index hashType tx) - (if in_amount (inputs tx ! index) = 0 then 8 else 0)"
  shows "BRTransactionWitnessData index hashType tx None = (n, None) \<and>
    BRTransactionWitnessData index hashType tx (Some (replicate n 0)) = (n, Some (
      if in_amount (inputs tx ! index) = 0 then digest_parts index hashType tx [] else bip143 index hashType tx))"
proof -
  have len: "length (digest_parts index hashType tx a) = length (digest_parts index hashType tx []) + length a" for a
    by (simp add: digest_parts_def Let_def)
  show ?thesis
    using encodes_sized [OF encodes_witness_data [OF assms(1,2), of hashType]] encodes_witness_data [OF assms(1,2), of hashType]
      len [of "bytes_le 8 (in_amount (inputs tx ! index))"] assms(3)
    by (auto simp: bip143_def encodes_def)
qed

theorem witness_data_bip143_witness:
  "BRTransactionWitnessData 0 SIGHASH_ALL (example_tx\<lparr>inputs := [example_input\<lparr>in_amount := 77\<rparr>]\<rparr>) (Some (replicate 157 0)) =
    (157, Some (bip143 0 SIGHASH_ALL (example_tx\<lparr>inputs := [example_input\<lparr>in_amount := 77\<rparr>]\<rparr>)))"
proof -
  let ?tx = "example_tx\<lparr>inputs := [example_input\<lparr>in_amount := 77\<rparr>]\<rparr>"
  have "length (outputs ?tx) \<le> SIZE_MAX" by (simp add: example_tx_def SIZE_MAX_def)
  moreover have "length (bip143 0 SIGHASH_ALL ?tx) = 157"
    by (simp add: bip143_def digest_parts_def Let_def example_tx_def example_input_def script_code_def outpoint_def array_of_def
        len_varint_def varint_def SIGHASH_ALL_def len_simps)
  ultimately show ?thesis using witness_data_bip143 [of 0 ?tx 157 SIGHASH_ALL] by simp
qed

section \<open>Short buffers\<close>

text \<open>\<open>at n L w\<close>: the offset is \<open>n\<close> and the buffer has \<open>L\<close> bytes.\<close>

definition at :: "nat \<Rightarrow> nat \<Rightarrow> writer \<Rightarrow> bool" where
  "at n L w \<longleftrightarrow> (\<exists>d. w = (n, Some d) \<and> length d = L)"

lemma at_put: "at n L w \<Longrightarrow> at (n + length bs) L (put bs w)"
  by (auto simp: at_def put_def)

lemma at_varint:
  assumes "at n L w"
  shows "at (n + (if n + length (varint v) \<le> L then length (varint v) else 0)) L (call (BRVarIntSet v) w)"
proof -
  obtain d where d: "w = (n, Some d)" "length d = L" using assms by (auto simp: at_def)
  have "n + length (varint v) \<le> L \<longleftrightarrow> length (varint v) \<le> L - n" using length_varint(2) [of v] by linarith
  then show ?thesis using d length_varint(2) [of v] by (auto simp: at_def call_def BRVarIntSet_put array_of_def)
qed

lemma at_written: "at n L w \<Longrightarrow> \<exists>d. written w = (if n \<le> L then n else 0, Some d) \<and> length d = L"
  by (auto simp: at_def written_def)

lemma length_len_varint: "length (len_varint bs) \<le> length bs + 4"
proof (cases "length bs < 253")
  case True
  then show ?thesis by (simp add: len_varint_def varint_def word_less_nat_alt of_nat_unat_small)
next
  case False
  then show ?thesis by (auto simp: len_varint_def varint_def)
qed

lemma BRTxInputData_short:
  assumes "length buf < length (input_bytes i)"
  shows "\<exists>out. BRTxInputData i (Some buf) = (0, Some out) \<and> length out = length buf"
proof -
  let ?L = "length buf" and ?sig = "array_of (in_signature i)" and ?A = "if in_amount i \<noteq> 0 then UInt64SetLE (in_amount i) else []"
  define k where "k = (if 36 + length (len_varint ?sig) \<le> ?L then length (len_varint ?sig) else 0)"
  let ?w = "put (UInt32SetLE (in_sequence i)) (if in_amount i \<noteq> 0 then put (UInt64SetLE (in_amount i)) (put ?sig (call (BRVarIntSet (word_of_nat (length ?sig)))
      (put (UInt32SetLE (in_index i)) (put (UInt256Set (in_txHash i)) (0, Some buf))))) else put ?sig (call (BRVarIntSet (word_of_nat (length ?sig)))
      (put (UInt32SetLE (in_index i)) (put (UInt256Set (in_txHash i)) (0, Some buf)))))"
  have "at 0 ?L (0, Some buf)" by (simp add: at_def)
  from at_put [OF at_put [OF this, of "UInt256Set (in_txHash i)"], of "UInt32SetLE (in_index i)"]
  have "at 36 ?L (put (UInt32SetLE (in_index i)) (put (UInt256Set (in_txHash i)) (0, Some buf)))" by (simp add: len_simps)
  from at_put [OF at_varint [OF this, of "word_of_nat (length ?sig)"], of ?sig]
  have "at (36 + k + length ?sig) ?L (put ?sig (call (BRVarIntSet (word_of_nat (length ?sig)))
      (put (UInt32SetLE (in_index i)) (put (UInt256Set (in_txHash i)) (0, Some buf)))))"
    unfolding k_def len_varint_def .
  then have "at (36 + k + length ?sig + length ?A) ?L (if in_amount i \<noteq> 0 then put (UInt64SetLE (in_amount i)) (put ?sig (call (BRVarIntSet (word_of_nat (length ?sig)))
      (put (UInt32SetLE (in_index i)) (put (UInt256Set (in_txHash i)) (0, Some buf))))) else put ?sig (call (BRVarIntSet (word_of_nat (length ?sig)))
      (put (UInt32SetLE (in_index i)) (put (UInt256Set (in_txHash i)) (0, Some buf)))))"
    using at_put [of "36 + k + length ?sig" ?L _ "UInt64SetLE (in_amount i)"] by (simp add: ac_simps len_simps)
  from at_put [OF this, of "UInt32SetLE (in_sequence i)"]
  have w: "at (36 + k + length ?sig + length ?A + 4) ?L ?w" by (simp add: len_simps)
  have "?L < 36 + k + length ?sig + length ?A + 4"
    using assms length_len_varint [of ?sig] by (auto simp: input_bytes_def k_def len_simps)
  then show ?thesis using at_written [OF w] by (simp add: BRTxInputData_def Let_def)
qed

interpretation tx_input: two_phase "\<lambda>_. True" BRTxInputData input_bytes
proof
  fix i :: BRTxInput and buf :: "byte list"
  show "BRTxInputData i None = (length (input_bytes i), None)" using encodes_input [of i] by (simp add: encodes_def)
  show "BRTxInputData i (Some buf) = (length (input_bytes i), Some (input_bytes i @ drop (length (input_bytes i)) buf))"
    if "length (input_bytes i) \<le> length buf" using that encodes_input [of i] by (simp add: encodes_def)
  show "fst (BRTxInputData i (Some buf)) = 0" if "length buf < length (input_bytes i)"
    using BRTxInputData_short [OF that] by auto
qed

text \<open>
  A buffer that is too short for the input of a transaction without outputs is
  not refused: the serialiser leaves the input out, although the count before it announces
  it, and reports 10 bytes written.
\<close>

theorem transaction_short_buffer:
  assumes "inputs tx = [i]" and "outputs tx = []" and "array_of (in_witness i) = []"
    and "10 \<le> length buf" and "length buf < 5 + length (input_bytes (sent_input i))"
  shows "\<exists>out. BRTransactionSerialize tx (Some buf) = Some (10, Some out) \<and> length out = length buf \<and>
    BRTransactionSerialize tx None = Some (10 + length (input_bytes (sent_input i)), None)"
proof -
  let ?L = "length buf"
  let ?w = "\<lambda>data. call (BRTxInputData (sent_input i)) (call (BRVarIntSet 1) (put (UInt32SetLE (tx_version tx)) (0, data)))"
  let ?f = "\<lambda>data. put (UInt32SetLE (lockTime tx)) (call (BRTransactionOutputData SIZE_MAX tx) (call (BRVarIntSet 0) (?w data)))"
  have "sig_input SIZE_MAX h 0 i = sent_input i" for h by (rule sig_input_sent) (simp add: SIZE_MAX_def)
  then have ser: "BRTransactionSerialize tx data = Some (written (?f data))" for data
    using assms(1,2,3) by (simp add: BRTransactionSerialize_def BRTransactionData_def Let_def sighash_all)
  have one: "length (varint 0) = 1" "length (varint 1) = 1" by (simp_all add: varint_def)
  have "at 0 ?L (0, Some buf)" by (simp add: at_def)
  from at_varint [OF at_put [OF this, of "UInt32SetLE (tx_version tx)"], of 1]
  have "at 5 ?L (call (BRVarIntSet 1) (put (UInt32SetLE (tx_version tx)) (0, Some buf)))"
    using assms(4) one by (simp add: len_simps)
  then obtain d where d: "call (BRVarIntSet 1) (put (UInt32SetLE (tx_version tx)) (0, Some buf)) = (5, Some d)" "length d = ?L"
    by (auto simp: at_def)
  have "length (drop 5 d) < length (input_bytes (sent_input i))"
    unfolding length_drop d(2) using assms(4,5) by linarith
  from BRTxInputData_short [OF this] obtain rest where
    "BRTxInputData (sent_input i) (Some (drop 5 d)) = (0, Some rest)" "length rest = ?L - 5" using d(2) by auto
  then have "at 5 ?L (?w (Some buf))" using d assms(4) by (simp add: call_def at_def array_of_def)
  from at_varint [OF this, of 0] have "at 6 ?L (call (BRVarIntSet 0) (?w (Some buf)))" using assms(4) one by simp
  then obtain e where e: "call (BRVarIntSet 0) (?w (Some buf)) = (6, Some e)" "length e = ?L" by (auto simp: at_def)
  have "BRTransactionOutputData SIZE_MAX tx (Some x) = (0, Some x)" for x
    using assms(2) by (simp add: BRTransactionOutputData_def written_def)
  then have "at 6 ?L (call (BRTransactionOutputData SIZE_MAX tx) (call (BRVarIntSet 0) (?w (Some buf))))"
    using e assms(4) by (simp add: call_def at_def array_of_def)
  from at_put [OF this, of "UInt32SetLE (lockTime tx)"] have "at 10 ?L (?f (Some buf))" by (simp add: len_simps)
  from at_written [OF this] have "\<exists>out. BRTransactionSerialize tx (Some buf) = Some (10, Some out) \<and> length out = ?L"
    using assms(4) by (simp add: ser)
  moreover have "BRTransactionSerialize tx None = Some (10 + length (input_bytes (sent_input i)), None)"
    using one assms(2) by (simp add: ser call_def put_def tx_input.null_call varint.null_call BRTransactionOutputData_def written_def len_simps)
  ultimately show ?thesis by blast
qed

theorem transaction_short_buffer_witness:
  "\<exists>out. BRTransactionSerialize (BRTransactionNew\<lparr>inputs := [BRTxInputZero]\<rparr>) (Some (replicate 40 1)) = Some (10, Some out)"
  using transaction_short_buffer [of "BRTransactionNew\<lparr>inputs := [BRTxInputZero]\<rparr>" BRTxInputZero "replicate 40 1"]
  by (auto simp: BRTransactionNew_def BRTxInputZero_def array_of_def sent_input_def input_bytes_def len_varint_def varint_def)

section \<open>Counts and lengths that wrap around\<close>

text \<open>
  Claim C13.  A message that announces \<open>2 ^ 60 + 1\<close> inputs has the parser allocate room for one,
  because the size of the array wraps around, and write the second input beyond it; one
  whose unlocking script is \<open>2 ^ 64 - 1\<close> bytes long passes the check of the length, because
  the end wraps around, and has the parser read beyond the message.
\<close>

theorem transaction_parse_overrun:
  "BRTransactionParse (bytes_le 4 (v :: u32) @ varint (2 ^ 60 + 1) @ bytes_le 32 (hash :: UInt256) @ bytes_le 4 (index :: u32) @
      [0] @ bytes_le 4 (sequence :: u32)) = None \<and>
   BRTransactionParse (bytes_le 4 v @ [1] @ bytes_le 32 hash @ bytes_le 4 index @ varint (- 1)) = None"
proof
  let ?i = "BRTxInputZero\<lparr>in_txHash := hash, in_index := index, in_signature := Some [], in_sequence := sequence\<rparr>"
  define N :: u64 where "N = 2 ^ 60 + 1"
  define K :: nat where "K = 2 ^ 60 - 1"
  let ?N = "varint N"
  let ?buf = "bytes_le 4 v @ ?N @ input_bytes (sent_input ?i)"
  have bytes: "input_bytes (sent_input ?i) = bytes_le 32 hash @ bytes_le 4 index @ [0] @ bytes_le 4 sequence"
    by (simp add: sent_input_def input_bytes_def BRTxInputZero_def array_of_def len_varint_def varint_def bytes_le_def byte_at_def)
  have ok: "input_ok ?i"
    by (simp add: input_ok_def BRTxInputZero_def address_field_def BRAddressFromScriptPubKey_def BRAddressFromScriptSig_def)
  have n: "length ?N = 9" "unat N = Suc (Suc K)" "N \<noteq> 0" by (simp_all add: varint_def N_def K_def)
  have "fetch_le ?buf 0 4 = Some v" by (rule fetch_le_at [of _ "[]" 4]) simp_all
  moreover have "varint_at ?buf 4 = (N, word_of_nat (length (bytes_le 4 v @ ?N)))"
    by (rule varint_at_varint) simp_all
  moreover have "parse_input False ?buf (word_of_nat (length (bytes_le 4 v @ ?N))) True =
      Some (?i\<lparr>in_witness := Some []\<rparr>, word_of_nat (length ?buf), True)"
    using parse_input_bytes [OF ok, of ?buf "bytes_le 4 v @ ?N" "[]" False True] n(1)
    by (simp add: bytes)
  moreover have "array_set_count 1 sizeof_BRTxInput (Suc (Suc K)) = Some 1"
    by (simp add: array_set_count_def sizeof_BRTxInput_def K_def)
  ultimately have "BRTransactionParse ?buf = None"
    using n by (simp add: BRTransactionParse_def parse_rest_def bytes)
  then show "BRTransactionParse (bytes_le 4 v @ varint (2 ^ 60 + 1) @ bytes_le 32 hash @ bytes_le 4 index @ [0] @
      bytes_le 4 sequence) = None"
    unfolding bytes N_def .
next
  let ?V = "varint (- 1)"
  let ?buf = "bytes_le 4 v @ varint 1 @ bytes_le 32 hash @ bytes_le 4 index @ ?V"
  have one: "varint 1 = [1]" by (simp add: varint_def bytes_le_def byte_at_def)
  have len: "length ?V = 9"
    by (simp add: varint_def word_le_nat_alt word_less_nat_alt unsigned_minus_1_eq_mask mask_eq_exp_minus_1)
  have "fetch_le ?buf 0 4 = Some v" by (rule fetch_le_at [of _ "[]" 4]) simp_all
  moreover have "varint_at ?buf 4 = (1, 5)"
    using varint_at_varint [of ?buf "bytes_le 4 v" 1 "bytes_le 32 hash @ bytes_le 4 index @ ?V" 4] one by simp
  moreover have "fetch_le ?buf 5 32 = Some hash"
    by (rule fetch_le_at [of _ "bytes_le 4 v @ varint 1" 32 _ "bytes_le 4 index @ ?V"]) (simp_all add: one)
  moreover have "fetch_le ?buf 37 4 = Some index"
    by (rule fetch_le_at [of _ "bytes_le 4 v @ varint 1 @ bytes_le 32 hash" 4 _ ?V]) (simp_all add: one)
  moreover have "varint_at ?buf 41 = (- 1, 50)"
    using varint_at_varint [of ?buf "bytes_le 4 v @ varint 1 @ bytes_le 32 hash @ bytes_le 4 index" "- 1" "[]" 41] one len by simp
  moreover have "fetch ?buf 50 (- 1) = None"
    using len by (simp add: fetch_def rd_def one unsigned_minus_1_eq_mask mask_eq_exp_minus_1)
  ultimately have "BRTransactionParse ?buf = None"
    using len by (simp add: BRTransactionParse_def parse_rest_def parse_input_def one array_set_count_def)
  then show "BRTransactionParse (bytes_le 4 v @ [1] @ bytes_le 32 hash @ bytes_le 4 index @ ?V) = None" unfolding one .
qed

end
