(* ===== verification/Wallet.thy ===== *)
theory Wallet
  imports Transaction HashSet
begin

text \<open>
  \<^verbatim>\<open>bitcoin/BRWallet.c\<close>: the wallet's state, its chains of addresses, the order of its
  transactions, and the computation of the balance.  A transaction the wallet owns is
  named by its hash, which is what every lookup goes by; \<open>txs\<close> are the objects behind the
  pointers.  The sets are the hash tables of \<open>HashSet\<close>: of transaction hashes, of outpoints
  and of key hashes.  Deriving a key hash from the master public key is a parameter.  A
  result \<open>None\<close> is a call that does not return, a failed \<open>assert\<close> or a bad access.
\<close>

unbundle bit_operations_syntax

section \<open>State\<close>

record BRUTXO =
  u_hash :: UInt256
  u_n :: u32

definition BRUTXOHash :: "BRUTXO \<Rightarrow> nat" where
  "BRUTXOHash utxo = unat ((u32_of (u_hash utxo) 0 XOR u_n utxo) * 0x01000193)"

definition BRUTXOEq :: "BRUTXO \<Rightarrow> BRUTXO \<Rightarrow> bool" where
  "BRUTXOEq utxo otherUtxo \<longleftrightarrow> UInt256Eq (u_hash utxo) (u_hash otherUtxo) \<and> u_n utxo = u_n otherUtxo"

definition pkhHash :: "UInt160 \<Rightarrow> nat" where "pkhHash pkh = unat (u32_of pkh 0)"
definition pkhEq :: "UInt160 \<Rightarrow> UInt160 \<Rightarrow> bool" where "pkhEq pkh otherPkh = UInt160Eq pkh otherPkh"

text \<open>\<open>BRTransactionHash\<close> and \<open>BRTransactionEq\<close> read nothing but the hash at the pointer.\<close>

definition txKeyHash :: "UInt256 \<Rightarrow> nat" where "txKeyHash h = unat (u32_of h 0)"
definition txKeyEq :: "UInt256 \<Rightarrow> UInt256 \<Rightarrow> bool" where "txKeyEq h h' = UInt256Eq h h'"

definition DEFAULT_FEE_PER_KB :: u64 where "DEFAULT_FEE_PER_KB = TX_FEE_PER_KB * 10"
definition MIN_FEE_PER_KB :: u64 where "MIN_FEE_PER_KB = TX_FEE_PER_KB"
definition SEQUENCE_GAP_LIMIT_EXTERNAL :: nat where "SEQUENCE_GAP_LIMIT_EXTERNAL = 10"
definition SEQUENCE_GAP_LIMIT_INTERNAL :: nat where "SEQUENCE_GAP_LIMIT_INTERNAL = 5"

text \<open>Which callbacks are set.\<close>

record wallet_callbacks =
  on_balanceChanged :: bool
  on_txAdded :: bool
  on_txUpdated :: bool
  on_txDeleted :: bool

record BRWallet =
  balance :: u64
  totalSent :: u64
  totalReceived :: u64
  feePerKb :: u64
  balanceHist :: "u64 list"
  w_blockHeight :: u32
  utxos :: "BRUTXO list"
  transactions :: "UInt256 list"
  forkId :: u32
  internalChain :: "UInt160 list"
  externalChain :: "UInt160 list"
  allTx :: "UInt256 BRSet"
  invalidTx :: "UInt256 BRSet"
  pendingTx :: "UInt256 BRSet"
  spentOutputs :: "BRUTXO BRSet"
  usedPKH :: "UInt160 BRSet"
  allPKH :: "UInt160 BRSet"
  txs :: "UInt256 \<Rightarrow> BRTransaction"
  callbacks :: wallet_callbacks

text \<open>
  What the wallet calls on: the key hash that the master public key gives for an index of a
  chain (\<open>None\<close> when it gives no key), whether growing a chain to a length moves its array,
  and the time.
\<close>

record wallet_env =
  derive :: "u32 \<Rightarrow> u32 \<Rightarrow> UInt160 option"
  moved :: "u32 \<Rightarrow> nat \<Rightarrow> bool"
  now :: int

definition txFee :: "u64 \<Rightarrow> nat \<Rightarrow> u64" where
  "txFee fee_per_kb sz =
     (let standardFee = word_of_nat sz * TX_FEE_PER_KB div 1000;
          fee = ((word_of_nat sz * fee_per_kb div 1000 + 99) div 100) * 100
      in if fee > standardFee then fee else standardFee)"

text \<open>The key hash an output pays to; \<open>None\<close> for NULL.\<close>

definition script_pkh :: "byte list option \<Rightarrow> UInt160 option option" where
  "script_pkh script =
     (case BRScriptPKH (array_of script) of
        None \<Rightarrow> None
      | Some None \<Rightarrow> Some None
      | Some (Some p) \<Rightarrow> map_option Some (UInt160Get p))"

section \<open>The order of transactions\<close>

text \<open>Is one of the outputs paid to the key hash?\<close>

definition pays :: "BRTransaction \<Rightarrow> UInt160 \<Rightarrow> bool option" where
  "pays tx h = any_loop (\<lambda>out. map_option (\<lambda>p. case p of None \<Rightarrow> False | Some k \<Rightarrow> pkhEq k h) (script_pkh (out_script out))) (outputs tx)"

text \<open>The loop from the end of the chain down; \<open>None\<close> as index is \<open>-1\<close>.\<close>

fun chain_index :: "BRTransaction \<Rightarrow> UInt160 list \<Rightarrow> nat \<Rightarrow> nat option option" where
  "chain_index tx chain 0 = Some None"
| "chain_index tx chain (Suc i) =
     (case pays tx (chain ! i) of
        None \<Rightarrow> None
      | Some p \<Rightarrow> if p then Some (Some i) else chain_index tx chain i)"

definition txChainIndex :: "BRTransaction \<Rightarrow> UInt160 list \<Rightarrow> nat option option" where
  "txChainIndex tx chain = chain_index tx chain (length chain)"

definition spends :: "BRTransaction \<Rightarrow> BRTransaction \<Rightarrow> bool" where
  "spends tx1 tx2 \<longleftrightarrow> (\<exists>i \<in> set (inputs tx1). UInt256Eq (in_txHash i) (txHash tx2))"

text \<open>A transaction that is not found is NULL, for which the answer is no.\<close>

partial_function (option) tx_ascending :: "BRWallet \<Rightarrow> BRTransaction \<Rightarrow> BRTransaction \<Rightarrow> bool option" where
  "tx_ascending w tx1 tx2 =
     (if blockHeight tx1 > blockHeight tx2 then Some True
      else if blockHeight tx1 < blockHeight tx2 then Some False
      else if spends tx1 tx2 then Some True
      else if spends tx2 tx1 then Some False
      else any_loop (\<lambda>i. do {
          t \<leftarrow> BRSetGet (allTx w) (in_txHash i);
          (case t of None \<Rightarrow> Some False | Some h \<Rightarrow> tx_ascending w (txs w h) tx2)
        }) (inputs tx1))"

definition BRWalletTxIsAscending :: "BRWallet \<Rightarrow> BRTransaction \<Rightarrow> BRTransaction \<Rightarrow> bool option" where
  "BRWalletTxIsAscending w tx1 tx2 = tx_ascending w tx1 tx2"

text \<open>
  The comparison: 1, -1 or 0.  An index of \<open>-1\<close> is \<open>None\<close>; \<open>i\<close> keeps the index of \<open>tx1\<close> in
  the chain looked at last.
\<close>

definition BRWalletTxCompare :: "BRWallet \<Rightarrow> BRTransaction \<Rightarrow> BRTransaction \<Rightarrow> int option" where
  "BRWalletTxCompare w tx1 tx2 =
     do {
       a \<leftarrow> BRWalletTxIsAscending w tx1 tx2;
       if a then Some 1
       else do {
         b \<leftarrow> BRWalletTxIsAscending w tx2 tx1;
         if b then Some (- 1)
         else do {
           i \<leftarrow> txChainIndex tx1 (internalChain w);
           j \<leftarrow> (if i \<noteq> None then txChainIndex tx2 (internalChain w) else Some None);
           i \<leftarrow> (if j = None then txChainIndex tx1 (externalChain w) else Some i);
           j \<leftarrow> (if j = None \<and> i \<noteq> None then txChainIndex tx2 (externalChain w) else Some j);
           Some (case (i, j) of (Some i, Some j) \<Rightarrow> if i \<noteq> j then (if i > j then 1 else - 1) else 0 | _ \<Rightarrow> 0)
         }
       }
     }"

text \<open>The insertion sort from the end: \<open>n\<close> elements are before the gap.\<close>

fun insert_loop :: "(UInt256 \<Rightarrow> int option) \<Rightarrow> UInt256 \<Rightarrow> UInt256 list \<Rightarrow> nat \<Rightarrow> UInt256 list option" where
  "insert_loop cmp tx ts 0 = Some (tx # ts)"
| "insert_loop cmp tx ts (Suc i) =
     (case cmp (ts ! i) of
        None \<Rightarrow> None
      | Some c \<Rightarrow> if c > 0 then insert_loop cmp tx ts i else Some (take (Suc i) ts @ tx # drop (Suc i) ts))"

definition BRWalletInsertTx :: "BRWallet \<Rightarrow> UInt256 \<Rightarrow> BRWallet option" where
  "BRWalletInsertTx w tx =
     map_option (\<lambda>ts. w\<lparr>transactions := ts\<rparr>)
       (insert_loop (\<lambda>t. BRWalletTxCompare w (txs w t) (txs w tx)) tx (transactions w) (length (transactions w)))"

section \<open>Is a transaction the wallet's?\<close>

text \<open>Is there a key hash, and one of the wallet's?\<close>

definition own_pkh :: "BRWallet \<Rightarrow> BRTxOutput \<Rightarrow> bool option" where
  "own_pkh w out =
     do {
       pkh \<leftarrow> script_pkh (out_script out);
       (case pkh of None \<Rightarrow> Some False | Some k \<Rightarrow> BRSetContains (allPKH w) k)
     }"

text \<open>The output an input spends, if its transaction is known.\<close>

definition spent_output :: "BRWallet \<Rightarrow> BRTxInput \<Rightarrow> BRTxOutput option option" where
  "spent_output w i =
     map_option (\<lambda>t. case t of None \<Rightarrow> None
       | Some h \<Rightarrow> if unat (in_index i) < length (outputs (txs w h)) then Some (outputs (txs w h) ! unat (in_index i)) else None)
     (BRSetGet (allTx w) (in_txHash i))"

definition BRWalletContainsTx :: "BRWallet \<Rightarrow> BRTransaction \<Rightarrow> bool option" where
  "BRWalletContainsTx w tx =
     do {
       r \<leftarrow> any_loop (own_pkh w) (outputs tx);
       if r then Some True
       else any_loop (\<lambda>i. do {
           out \<leftarrow> spent_output w i;
           (case out of None \<Rightarrow> Some False | Some out \<Rightarrow> own_pkh w out)
         }) (inputs tx)
     }"

section \<open>The balance\<close>

definition utxo_of_input :: "BRTxInput \<Rightarrow> BRUTXO" where
  "utxo_of_input i = \<lparr>u_hash = in_txHash i, u_n = in_index i\<rparr>"

definition input_invalid :: "BRWallet \<Rightarrow> BRTxInput \<Rightarrow> bool option" where
  "input_invalid w i = or_opt (BRSetContains (spentOutputs w) (utxo_of_input i)) (BRSetContains (invalidTx w) (in_txHash i))"

definition input_pending :: "wallet_env \<Rightarrow> BRWallet \<Rightarrow> BRTransaction \<Rightarrow> BRTxInput \<Rightarrow> bool option" where
  "input_pending env w tx i =
     or_opt (Some (in_sequence i < 0xffffffff - 1 \<or>
         in_sequence i < 0xffffffff \<and> lockTime tx < TX_MAX_LOCK_HEIGHT \<and> lockTime tx > w_blockHeight w + 1 \<or>
         in_sequence i < 0xffffffff \<and> uint (lockTime tx) > now env))
       (BRSetContains (pendingTx w) (in_txHash i))"

definition tx_pending :: "wallet_env \<Rightarrow> BRWallet \<Rightarrow> BRTransaction \<Rightarrow> bool option" where
  "tx_pending env w tx =
     or_opt (Some (BRTransactionVSize tx > TX_MAX_SIZE \<or> (\<exists>out \<in> set (outputs tx). out_amount out < TX_MIN_OUTPUT_AMOUNT)))
       (any_loop (input_pending env w tx) (inputs tx))"

text \<open>The locals of the loop beside the wallet.\<close>

record balance_loop =
  wal :: BRWallet
  bal :: u64
  prevBal :: u64

definition skip_tx :: "balance_loop \<Rightarrow> balance_loop" where
  "skip_tx s = s\<lparr>wal := wal s\<lparr>balanceHist := balanceHist (wal s) @ [bal s]\<rparr>\<rparr>"

definition add_utxo :: "UInt256 \<Rightarrow> nat \<times> BRTxOutput \<Rightarrow> balance_loop \<Rightarrow> balance_loop option" where
  "add_utxo tx = (\<lambda>(j, out) s.
     if out_address out = [] then Some s
     else do {
       pkh \<leftarrow> script_pkh (out_script out);
       (case pkh of
          None \<Rightarrow> Some s
        | Some k \<Rightarrow> do {
            c \<leftarrow> BRSetContains (allPKH (wal s)) k;
            if \<not> c then Some s
            else do {
              (_, used) \<leftarrow> BRSetAdd (usedPKH (wal s)) k;
              Some (s\<lparr>wal := (wal s)\<lparr>usedPKH := used, utxos := utxos (wal s) @ [\<lparr>u_hash = tx, u_n = word_of_nat j\<rparr>]\<rparr>,
                      bal := bal s + out_amount out\<rparr>)
            }
          })
     })"

text \<open>The sweep over the unspent outputs from the last to the first; \<open>kept\<close> are those behind.\<close>

definition sweep_utxo :: "BRWallet \<Rightarrow> BRUTXO \<Rightarrow> BRUTXO list \<times> u64 \<Rightarrow> (BRUTXO list \<times> u64) option" where
  "sweep_utxo w u = (\<lambda>(kept, b).
     do {
       c \<leftarrow> BRSetContains (spentOutputs w) u;
       if \<not> c then Some (u # kept, b)
       else do {
         t \<leftarrow> BRSetGet (allTx w) (u_hash u);
         h \<leftarrow> t;
         if unat (u_n u) < length (outputs (txs w h))
         then Some (kept, b - out_amount (outputs (txs w h) ! unat (u_n u))) else None
       }
     })"

text \<open>A transaction that is neither invalid nor pending.\<close>

definition accept_tx :: "UInt256 \<Rightarrow> balance_loop \<Rightarrow> balance_loop option" where
  "accept_tx h s =
     do {
       s \<leftarrow> for_each (enumerate 0 (outputs (txs (wal s) h))) (add_utxo h) s;
       (us, b) \<leftarrow> for_each (rev (utxos (wal s))) (sweep_utxo (wal s)) ([], bal s);
       let w = (wal s)\<lparr>utxos := us\<rparr>;
       let w = (if prevBal s < b then w\<lparr>totalReceived := totalReceived w + (b - prevBal s)\<rparr> else w);
       let w = (if b < prevBal s then w\<lparr>totalSent := totalSent w + (prevBal s - b)\<rparr> else w);
       Some \<lparr>wal = w\<lparr>balanceHist := balanceHist w @ [b]\<rparr>, bal = b, prevBal = b\<rparr>
     }"

text \<open>One turn of the loop over the transactions.\<close>

definition update_tx :: "wallet_env \<Rightarrow> UInt256 \<Rightarrow> balance_loop \<Rightarrow> balance_loop option" where
  "update_tx env h s =
     (let tx = txs (wal s) h; unconfirmed = (blockHeight tx = TX_UNCONFIRMED)
      in do {
        isInvalid \<leftarrow> (if unconfirmed then any_loop (input_invalid (wal s)) (inputs tx) else Some False);
        if isInvalid then do {
          (_, inv) \<leftarrow> BRSetAdd (invalidTx (wal s)) h;
          Some (skip_tx (s\<lparr>wal := (wal s)\<lparr>invalidTx := inv\<rparr>\<rparr>))
        } else do {
          spent \<leftarrow> for_each (inputs tx) (\<lambda>i spent. map_option snd (BRSetAdd spent (utxo_of_input i))) (spentOutputs (wal s));
          let s = s\<lparr>wal := (wal s)\<lparr>spentOutputs := spent\<rparr>\<rparr>;
          isPending \<leftarrow> (if unconfirmed then tx_pending env (wal s) tx else Some False);
          if isPending then do {
            (_, pend) \<leftarrow> BRSetAdd (pendingTx (wal s)) h;
            Some (skip_tx (s\<lparr>wal := (wal s)\<lparr>pendingTx := pend\<rparr>\<rparr>))
          } else accept_tx h s
        }
      })"

definition BRWalletUpdateBalance :: "wallet_env \<Rightarrow> BRWallet \<Rightarrow> BRWallet option" where
  "BRWalletUpdateBalance env w =
     do {
       let w = w\<lparr>utxos := [], balanceHist := [], spentOutputs := BRSetClear (spentOutputs w),
         invalidTx := BRSetClear (invalidTx w), pendingTx := BRSetClear (pendingTx w), usedPKH := BRSetClear (usedPKH w),
         totalSent := 0, totalReceived := 0\<rparr>;
       s \<leftarrow> for_each (transactions w) (update_tx env) \<lparr>wal = w, bal = 0, prevBal = 0\<rparr>;
       if length (balanceHist (wal s)) = length (transactions (wal s)) then Some ((wal s)\<lparr>balance := bal s\<rparr>) else None
     }"

end
