(* ===== verification/WalletOps.thy ===== *)
theory WalletOps
  imports Wallet
begin

text \<open>
  \<^verbatim>\<open>bitcoin/BRWallet.c\<close>: the operations of the wallet.  An operation that changes the wallet
  returns it after the call; callbacks are returned as the list of the calls that are made.
  \<open>BRWalletSignTransaction\<close>, which needs private keys, and the two functions on \<open>double\<close>
  prices are left out, as are the locks: every operation runs alone.
\<close>

unbundle bit_operations_syntax

section \<open>Addresses\<close>

definition SEQUENCE_EXTERNAL_CHAIN :: u32 where "SEQUENCE_EXTERNAL_CHAIN = 0"
definition SEQUENCE_INTERNAL_CHAIN :: u32 where "SEQUENCE_INTERNAL_CHAIN = 1"

text \<open>What is in the buffer \<open>addr\<close> after the call.\<close>

definition BRWalletAddressFromHash160 :: "BRWallet \<Rightarrow> byte list \<Rightarrow> UInt160 \<Rightarrow> byte list option" where
  "BRWalletAddressFromHash160 w addr h =
     Option.bind
       (if forkId w \<noteq> 0
        then BRAddressFromScriptPubKey ([OP_DUP, OP_HASH160, 20] @ bytes_le 20 h @ [OP_EQUALVERIFY, OP_CHECKSIG]) (Some addr)
        else BRAddressFromHash160 (bytes_le 20 h) (Some addr))
       snd"

text \<open>Writing the addresses of key hashes to the array, from the index \<open>off\<close> on.\<close>

definition write_addrs :: "BRWallet \<Rightarrow> nat \<Rightarrow> UInt160 list \<Rightarrow> byte list list \<Rightarrow> byte list list option" where
  "write_addrs w off hs addrs =
     for_each (enumerate off hs)
       (\<lambda>(j, h) addrs. if j < length addrs
          then map_option (\<lambda>a. addrs[j := a]) (BRWalletAddressFromHash160 w (addrs ! j) h) else None) addrs"

text \<open>The first index of the trailing block of addresses that are not used.\<close>

fun unused_from :: "UInt160 BRSet \<Rightarrow> UInt160 list \<Rightarrow> nat \<Rightarrow> nat option" where
  "unused_from used chain 0 = Some 0"
| "unused_from used chain (Suc i) =
     (case BRSetContains used (chain ! i) of
        None \<Rightarrow> None
      | Some c \<Rightarrow> if c then Some (Suc i) else unused_from used chain i)"

text \<open>Generating addresses up to the gap limit.\<close>

partial_function (option) extend_chain ::
    "wallet_env \<Rightarrow> UInt160 BRSet \<Rightarrow> u32 \<Rightarrow> u32 \<Rightarrow> UInt160 list \<Rightarrow> nat \<Rightarrow> (UInt160 list \<times> nat) option" where
  "extend_chain env used internal gapLimit chain i =
     (if i + unat gapLimit > length chain
      then (case derive env internal (word_of_nat (length chain)) of
              None \<Rightarrow> Some (chain, i)
            | Some k \<Rightarrow> do {
                c \<leftarrow> BRSetContains used k;
                extend_chain env used internal gapLimit (chain @ [k]) (if c then length chain + 1 else i)
              })
      else Some (chain, i))"

definition add_keys :: "UInt160 list \<Rightarrow> UInt160 BRSet \<Rightarrow> UInt160 BRSet option" where
  "add_keys ks s = for_each ks (\<lambda>k s. map_option snd (BRSetAdd s k)) s"

definition set_chain :: "u32 \<Rightarrow> UInt160 list \<Rightarrow> BRWallet \<Rightarrow> BRWallet" where
  "set_chain internal chain w =
     (if internal = SEQUENCE_INTERNAL_CHAIN then w\<lparr>internalChain := chain\<rparr> else w\<lparr>externalChain := chain\<rparr>)"

text \<open>The number of addresses written, what they are, and the wallet.\<close>

definition BRWalletUnusedAddrs ::
    "wallet_env \<Rightarrow> BRWallet \<Rightarrow> byte list list option \<Rightarrow> u32 \<Rightarrow> u32 \<Rightarrow> (nat \<times> byte list list option \<times> BRWallet) option" where
  "BRWalletUnusedAddrs env w addrs gapLimit internal =
     (if gapLimit = 0 \<or> internal \<noteq> SEQUENCE_EXTERNAL_CHAIN \<and> internal \<noteq> SEQUENCE_INTERNAL_CHAIN then None
      else do {
        let origChain = (if internal = SEQUENCE_INTERNAL_CHAIN then internalChain w else externalChain w);
        let startCount = length origChain;
        i \<leftarrow> unused_from (usedPKH w) origChain startCount;
        (chain, i) \<leftarrow> extend_chain env (usedPKH w) internal gapLimit origChain i;
        let count = length chain;
        (j, addrs) \<leftarrow> (case addrs of
            None \<Rightarrow> Some (0, None)
          | Some a \<Rightarrow> if i + unat gapLimit \<le> count
              then map_option (\<lambda>a. (unat gapLimit, Some a)) (write_addrs w 0 (take (unat gapLimit) (drop i chain)) a)
              else Some (0, Some a));
        let w = set_chain internal chain w;
        all \<leftarrow> (if count = startCount \<or> \<not> moved env internal count
          then add_keys (drop startCount chain) (allPKH w)
          else Option.bind (add_keys (rev (internalChain w)) (BRSetClear (allPKH w))) (add_keys (rev (externalChain w))));
        Some (j, addrs, w\<lparr>allPKH := all\<rparr>)
      })"

definition BRWalletReceiveAddress :: "wallet_env \<Rightarrow> BRWallet \<Rightarrow> (byte list \<times> BRWallet) option" where
  "BRWalletReceiveAddress env w =
     do {
       (_, addrs, w) \<leftarrow> BRWalletUnusedAddrs env w (Some [replicate 75 0]) 1 0;
       addrs \<leftarrow> addrs;
       Some (addrs ! 0, w)
     }"

definition BRWalletLegacyAddress :: "wallet_env \<Rightarrow> BRWallet \<Rightarrow> (byte list \<times> BRWallet) option" where
  "BRWalletLegacyAddress env w =
     do {
       (addr, w) \<leftarrow> BRWalletReceiveAddress env w;
       (case BRAddressHash160 (takeWhile (\<lambda>c. c \<noteq> 0) addr) of
          None \<Rightarrow> Some (addr, w)
        | Some h \<Rightarrow> do {
            (_, addr) \<leftarrow> BRAddressFromScriptPubKey ([OP_DUP, OP_HASH160, 20] @ h @ [OP_EQUALVERIFY, OP_CHECKSIG]) (Some addr);
            addr \<leftarrow> addr;
            Some (addr, w)
          })
     }"

definition BRWalletAllAddrs :: "BRWallet \<Rightarrow> byte list list option \<Rightarrow> nat \<Rightarrow> (nat \<times> byte list list option) option" where
  "BRWalletAllAddrs w addrs addrsCount =
     (case addrs of
        None \<Rightarrow> Some (length (internalChain w) + length (externalChain w), None)
      | Some a \<Rightarrow> do {
          let internalCount = (if length (internalChain w) < addrsCount then length (internalChain w) else addrsCount);
          a \<leftarrow> write_addrs w 0 (take internalCount (internalChain w)) a;
          let externalCount = (if length (externalChain w) < addrsCount - internalCount
            then length (externalChain w) else addrsCount - internalCount);
          a \<leftarrow> write_addrs w internalCount (take externalCount (externalChain w)) a;
          Some (internalCount + externalCount, Some a)
        })"

text \<open>The key hash of an address; zero when it has none.\<close>

definition address_pkh :: "cstring \<Rightarrow> UInt160 option" where
  "address_pkh addr = (case BRAddressHash160 addr of None \<Rightarrow> Some 0 | Some h \<Rightarrow> UInt160Get h)"

definition BRWalletContainsAddress :: "BRWallet \<Rightarrow> cstring \<Rightarrow> bool option" where
  "BRWalletContainsAddress w addr = Option.bind (address_pkh addr) (BRSetContains (allPKH w))"

definition BRWalletAddressIsUsed :: "BRWallet \<Rightarrow> cstring \<Rightarrow> bool option" where
  "BRWalletAddressIsUsed w addr = Option.bind (address_pkh addr) (BRSetContains (usedPKH w))"

section \<open>Reading the wallet\<close>

text \<open>Copying to an array of the caller's, or counting when there is none.\<close>

definition copy_out :: "'a list \<Rightarrow> 'a list option \<Rightarrow> nat \<Rightarrow> nat \<times> 'a list option" where
  "copy_out xs buf n =
     (let n = (if buf = None \<or> length xs < n then length xs else n)
      in (n, map_option (\<lambda>b. take n xs @ drop n b) buf))"

definition BRWalletUTXOs :: "BRWallet \<Rightarrow> BRUTXO list option \<Rightarrow> nat \<Rightarrow> nat \<times> BRUTXO list option" where
  "BRWalletUTXOs w us utxosCount = copy_out (utxos w) us utxosCount"

definition BRWalletTransactions :: "BRWallet \<Rightarrow> UInt256 list option \<Rightarrow> nat \<Rightarrow> nat \<times> UInt256 list option" where
  "BRWalletTransactions w ts txCount = copy_out (transactions w) ts txCount"

definition BRWalletTxUnconfirmedBefore :: "BRWallet \<Rightarrow> UInt256 list option \<Rightarrow> nat \<Rightarrow> u32 \<Rightarrow> nat \<times> UInt256 list option" where
  "BRWalletTxUnconfirmedBefore w ts txCount height =
     (let n = length (takeWhile (\<lambda>t. blockHeight (txs w t) \<ge> height) (rev (transactions w)))
      in copy_out (drop (length (transactions w) - n) (transactions w)) ts txCount)"

definition BRWalletBalance :: "BRWallet \<Rightarrow> u64" where "BRWalletBalance w = balance w"
definition BRWalletTotalSent :: "BRWallet \<Rightarrow> u64" where "BRWalletTotalSent w = totalSent w"
definition BRWalletTotalReceived :: "BRWallet \<Rightarrow> u64" where "BRWalletTotalReceived w = totalReceived w"
definition BRWalletFeePerKb :: "BRWallet \<Rightarrow> u64" where "BRWalletFeePerKb w = feePerKb w"
definition BRWalletSetFeePerKb :: "BRWallet \<Rightarrow> u64 \<Rightarrow> BRWallet" where "BRWalletSetFeePerKb w fee = w\<lparr>feePerKb := fee\<rparr>"

definition BRWalletContainsTransaction :: "BRWallet \<Rightarrow> BRTransaction \<Rightarrow> bool option" where
  "BRWalletContainsTransaction w tx = BRWalletContainsTx w tx"

definition BRWalletTransactionForHash :: "BRWallet \<Rightarrow> UInt256 \<Rightarrow> UInt256 option option" where
  "BRWalletTransactionForHash w h = (if UInt256IsZero h then None else BRSetGet (allTx w) h)"

definition BRWalletAmountReceivedFromTx :: "BRWallet \<Rightarrow> BRTransaction \<Rightarrow> u64 option" where
  "BRWalletAmountReceivedFromTx w tx =
     for_each (outputs tx) (\<lambda>out amount. map_option (\<lambda>c. if c then amount + out_amount out else amount) (own_pkh w out)) 0"

definition BRWalletAmountSentByTx :: "BRWallet \<Rightarrow> BRTransaction \<Rightarrow> u64 option" where
  "BRWalletAmountSentByTx w tx =
     for_each (inputs tx) (\<lambda>i amount. do {
         out \<leftarrow> spent_output w i;
         (case out of
            None \<Rightarrow> Some amount
          | Some out \<Rightarrow> map_option (\<lambda>c. if c then amount + out_amount out else amount) (own_pkh w out))
       }) 0"

definition UINT64_MAX :: u64 where "UINT64_MAX = 0xffffffffffffffff"

definition BRWalletFeeForTx :: "BRWallet \<Rightarrow> BRTransaction \<Rightarrow> u64 option" where
  "BRWalletFeeForTx w tx =
     do {
       amount \<leftarrow> for_each (inputs tx) (\<lambda>i amount.
         if amount = UINT64_MAX then Some amount
         else map_option (\<lambda>out. case out of None \<Rightarrow> UINT64_MAX | Some out \<Rightarrow> amount + out_amount out) (spent_output w i)) 0;
       Some (fold (\<lambda>out amount. if amount = UINT64_MAX then amount else amount - out_amount out) (outputs tx) amount)
     }"

definition BRWalletBalanceAfterTx :: "BRWallet \<Rightarrow> BRTransaction \<Rightarrow> u64 option" where
  "BRWalletBalanceAfterTx w tx =
     (if \<not> BRTransactionIsSigned tx then None
      else case rev (filter (\<lambda>i. txKeyEq (txHash tx) (transactions w ! i)) [0..<length (transactions w)]) of
        [] \<Rightarrow> Some (balance w)
      | i # _ \<Rightarrow> if i < length (balanceHist w) then Some (balanceHist w ! i) else None)"

section \<open>The state of a transaction\<close>

partial_function (option) BRWalletTransactionIsValid :: "BRWallet \<Rightarrow> BRTransaction \<Rightarrow> bool option" where
  "BRWalletTransactionIsValid w tx =
     (if \<not> BRTransactionIsSigned tx then None
      else if blockHeight tx \<noteq> TX_UNCONFIRMED then Some True
      else do {
        known \<leftarrow> BRSetContains (allTx w) (txHash tx);
        bad \<leftarrow> (if \<not> known then any_loop (\<lambda>i. BRSetContains (spentOutputs w) (utxo_of_input i)) (inputs tx)
          else BRSetContains (invalidTx w) (txHash tx));
        if bad then Some False
        else do {
          bad \<leftarrow> any_loop (\<lambda>i. do {
              t \<leftarrow> BRWalletTransactionForHash w (in_txHash i);
              (case t of None \<Rightarrow> Some False
               | Some h \<Rightarrow> do { v \<leftarrow> BRWalletTransactionIsValid w (txs w h); Some (\<not> v) })
            }) (inputs tx);
          Some (\<not> bad)
        }
      })"

definition input_locked :: "wallet_env \<Rightarrow> BRWallet \<Rightarrow> BRTransaction \<Rightarrow> BRTxInput \<Rightarrow> bool" where
  "input_locked env w tx i \<longleftrightarrow>
     in_sequence i < 0xffffffff - 1 \<or>
     in_sequence i < 0xffffffff \<and> lockTime tx < TX_MAX_LOCK_HEIGHT \<and> lockTime tx > w_blockHeight w + 1 \<or>
     in_sequence i < 0xffffffff \<and> uint (lockTime tx) > now env"

partial_function (option) BRWalletTransactionIsPending :: "wallet_env \<Rightarrow> BRWallet \<Rightarrow> BRTransaction \<Rightarrow> bool option" where
  "BRWalletTransactionIsPending env w tx =
     (if \<not> BRTransactionIsSigned tx then None
      else if blockHeight tx \<noteq> TX_UNCONFIRMED then Some False
      else if BRTransactionVSize tx > TX_MAX_SIZE \<or> (\<exists>i \<in> set (inputs tx). input_locked env w tx i) \<or>
          (\<exists>out \<in> set (outputs tx). out_amount out < TX_MIN_OUTPUT_AMOUNT) then Some True
      else any_loop (\<lambda>i. do {
          t \<leftarrow> BRWalletTransactionForHash w (in_txHash i);
          (case t of None \<Rightarrow> Some False | Some h \<Rightarrow> BRWalletTransactionIsPending env w (txs w h))
        }) (inputs tx))"

partial_function (option) BRWalletTransactionIsVerified :: "wallet_env \<Rightarrow> BRWallet \<Rightarrow> BRTransaction \<Rightarrow> bool option" where
  "BRWalletTransactionIsVerified env w tx =
     (if \<not> BRTransactionIsSigned tx then None
      else if blockHeight tx \<noteq> TX_UNCONFIRMED then Some True
      else do {
        bad \<leftarrow> (if tx_timestamp tx = 0 then Some True
          else do {
            v \<leftarrow> BRWalletTransactionIsValid w tx;
            if \<not> v then Some True else BRWalletTransactionIsPending env w tx
          });
        if bad then Some False
        else do {
          bad \<leftarrow> any_loop (\<lambda>i. do {
              t \<leftarrow> BRWalletTransactionForHash w (in_txHash i);
              (case t of None \<Rightarrow> Some False
               | Some h \<Rightarrow> do { v \<leftarrow> BRWalletTransactionIsVerified env w (txs w h); Some (\<not> v) })
            }) (inputs tx);
          Some (\<not> bad)
        }
      })"

end
