(* ===== verification/WalletTx.thy ===== *)
theory WalletTx
  imports WalletOps
begin

text \<open>
  \<^verbatim>\<open>bitcoin/BRWallet.c\<close>: creating a wallet, registering, removing and updating its
  transactions, and making a transaction that pays given outputs.
\<close>

unbundle bit_operations_syntax

section \<open>Callbacks\<close>

datatype wallet_event =
  BalanceChanged u64
  | TxAdded UInt256
  | TxUpdated "UInt256 list" u32 u32
  | TxDeleted UInt256 bool bool

definition BRWalletSetCallbacks :: "BRWallet \<Rightarrow> wallet_callbacks \<Rightarrow> BRWallet" where
  "BRWalletSetCallbacks w cbs = w\<lparr>callbacks := cbs\<rparr>"

definition balanceChanged :: "BRWallet \<Rightarrow> wallet_event list" where
  "balanceChanged w = (if on_balanceChanged (callbacks w) then [BalanceChanged (balance w)] else [])"

definition txAdded :: "BRWallet \<Rightarrow> UInt256 \<Rightarrow> wallet_event list" where
  "txAdded w h = (if on_txAdded (callbacks w) then [TxAdded h] else [])"

definition txUpdated :: "BRWallet \<Rightarrow> UInt256 list \<Rightarrow> u32 \<Rightarrow> u32 \<Rightarrow> wallet_event list" where
  "txUpdated w hs height ts = (if hs \<noteq> [] \<and> on_txUpdated (callbacks w) then [TxUpdated hs height ts] else [])"

definition txDeleted :: "BRWallet \<Rightarrow> UInt256 \<Rightarrow> bool \<Rightarrow> bool \<Rightarrow> wallet_event list" where
  "txDeleted w h notifyUser recommendRescan = (if on_txDeleted (callbacks w) then [TxDeleted h notifyUser recommendRescan] else [])"

section \<open>Creating a wallet\<close>

text \<open>\<open>BRSetAdd(wallet->allTx, tx)\<close>: the table holds the pointer to the object.\<close>

definition store_tx :: "BRWallet \<Rightarrow> BRTransaction \<Rightarrow> BRWallet option" where
  "store_tx w tx =
     map_option (\<lambda>(_, all). w\<lparr>allTx := all, txs := (txs w)(txHash tx := tx)\<rparr>) (BRSetAdd (allTx w) (txHash tx))"

definition use_output :: "BRTxOutput \<Rightarrow> UInt160 BRSet \<Rightarrow> UInt160 BRSet option" where
  "use_output out used =
     do {
       pkh \<leftarrow> script_pkh (out_script out);
       (case pkh of None \<Rightarrow> Some used | Some k \<Rightarrow> map_option snd (BRSetAdd used k))
     }"

definition load_tx :: "BRTransaction \<Rightarrow> BRWallet \<Rightarrow> BRWallet option" where
  "load_tx tx w =
     (if \<not> BRTransactionIsSigned tx then Some w
      else do {
        known \<leftarrow> BRSetContains (allTx w) (txHash tx);
        if known then Some w
        else do {
          w \<leftarrow> store_tx w tx;
          w \<leftarrow> BRWalletInsertTx w (txHash tx);
          used \<leftarrow> for_each (outputs tx) use_output (usedPKH w);
          Some (w\<lparr>usedPKH := used\<rparr>)
        }
      })"

definition empty_wallet :: "nat \<Rightarrow> u32 \<Rightarrow> BRWallet" where
  "empty_wallet txCount fork =
     \<lparr>balance = 0, totalSent = 0, totalReceived = 0, feePerKb = DEFAULT_FEE_PER_KB, balanceHist = [], w_blockHeight = 0,
      utxos = [], transactions = [], forkId = fork, internalChain = [], externalChain = [],
      allTx = BRSetNew txKeyHash txKeyEq (txCount + 100), invalidTx = BRSetNew txKeyHash txKeyEq 10,
      pendingTx = BRSetNew txKeyHash txKeyEq 10, spentOutputs = BRSetNew BRUTXOHash BRUTXOEq (txCount + 100),
      usedPKH = BRSetNew pkhHash pkhEq (txCount + 100), allPKH = BRSetNew pkhHash pkhEq (txCount + 100),
      txs = (\<lambda>h. BRTransactionNew),
      callbacks = \<lparr>on_balanceChanged = False, on_txAdded = False, on_txUpdated = False, on_txDeleted = False\<rparr>\<rparr>"

definition BRWalletNew :: "wallet_env \<Rightarrow> BRTransaction list \<Rightarrow> u32 \<Rightarrow> BRWallet option option" where
  "BRWalletNew env ts fork =
     do {
       w \<leftarrow> for_each ts load_tx (empty_wallet (length ts) fork);
       (_, _, w) \<leftarrow> BRWalletUnusedAddrs env w None (word_of_nat SEQUENCE_GAP_LIMIT_EXTERNAL) SEQUENCE_EXTERNAL_CHAIN;
       (_, _, w) \<leftarrow> BRWalletUnusedAddrs env w None (word_of_nat SEQUENCE_GAP_LIMIT_INTERNAL) SEQUENCE_INTERNAL_CHAIN;
       w \<leftarrow> BRWalletUpdateBalance env w;
       own \<leftarrow> (case ts of [] \<Rightarrow> Some True | tx # _ \<Rightarrow> BRWalletContainsTx w tx);
       Some (if own then Some w else None)
     }"

section \<open>Registering\<close>

definition BRWalletRegisterTransaction ::
    "wallet_env \<Rightarrow> BRWallet \<Rightarrow> BRTransaction \<Rightarrow> (bool \<times> wallet_event list \<times> BRWallet) option" where
  "BRWalletRegisterTransaction env w tx =
     (if \<not> BRTransactionIsSigned tx then None
      else do {
        known \<leftarrow> BRSetContains (allTx w) (txHash tx);
        if known then Some (True, [], w)
        else do {
          own \<leftarrow> BRWalletContainsTx w tx;
          if own then do {
            w \<leftarrow> store_tx w tx;
            w \<leftarrow> BRWalletInsertTx w (txHash tx);
            w \<leftarrow> BRWalletUpdateBalance env w;
            (_, _, w) \<leftarrow> BRWalletUnusedAddrs env w None (word_of_nat SEQUENCE_GAP_LIMIT_EXTERNAL) 0;
            (_, _, w) \<leftarrow> BRWalletUnusedAddrs env w None (word_of_nat SEQUENCE_GAP_LIMIT_INTERNAL) 1;
            Some (True, balanceChanged w @ txAdded w (txHash tx), w)
          }
          else if blockHeight tx = TX_UNCONFIRMED then map_option (\<lambda>w. (False, [], w)) (store_tx w tx)
          else Some (False, [], w)
        }
      })"

section \<open>Removing\<close>

text \<open>\<open>array_rm\<close> of the last element that is the transaction.\<close>

definition remove_last :: "UInt256 \<Rightarrow> UInt256 list \<Rightarrow> UInt256 list" where
  "remove_last h ts = rev (remove1 h (rev ts))"

text \<open>The transactions that spend an output of \<open>h\<close>; the list is walked from its end.\<close>

fun dependents :: "BRWallet \<Rightarrow> UInt256 \<Rightarrow> UInt256 list \<Rightarrow> UInt256 list" where
  "dependents w h [] = []"
| "dependents w h (t # ts) =
     (if blockHeight (txs w t) < blockHeight (txs w h) then []
      else if t \<noteq> h \<and> (\<exists>i \<in> set (inputs (txs w t)). UInt256Eq (in_txHash i) h) then t # dependents w h ts
      else dependents w h ts)"

text \<open>\<open>notifyUser\<close> and \<open>recommendRescan\<close>.\<close>

definition removal_notice :: "BRWallet \<Rightarrow> BRTransaction \<Rightarrow> (bool \<times> bool) option" where
  "removal_notice w tx =
     do {
       sent \<leftarrow> BRWalletAmountSentByTx w tx;
       valid \<leftarrow> (if sent > 0 then BRWalletTransactionIsValid w tx else Some False);
       if \<not> valid then Some (False, False)
       else do {
         unconfirmed \<leftarrow> any_loop (\<lambda>i. do {
             t \<leftarrow> BRWalletTransactionForHash w (in_txHash i);
             Some (case t of None \<Rightarrow> True | Some h \<Rightarrow> blockHeight (txs w h) = TX_UNCONFIRMED)
           }) (inputs tx);
         Some (True, \<not> unconfirmed)
       }
     }"

partial_function (option) BRWalletRemoveTransaction ::
    "wallet_env \<Rightarrow> BRWallet \<Rightarrow> UInt256 \<Rightarrow> (wallet_event list \<times> BRWallet) option" where
  "BRWalletRemoveTransaction env w h =
     (if UInt256IsZero h then None
      else do {
        t \<leftarrow> BRSetGet (allTx w) h;
        (case t of
           None \<Rightarrow> Some ([], w)
         | Some _ \<Rightarrow>
             (let hashes = dependents w h (rev (transactions w))
              in if hashes \<noteq> [] then do {
                  s \<leftarrow> for_each (rev hashes) (\<lambda>d s. do {
                      r \<leftarrow> BRWalletRemoveTransaction env (snd s) d;
                      Some (fst s @ fst r, snd r)
                    }) ([], w);
                  r \<leftarrow> BRWalletRemoveTransaction env (snd s) h;
                  Some (fst s @ fst r, snd r)
                }
                else do {
                  w \<leftarrow> BRWalletUpdateBalance env (w\<lparr>transactions := remove_last h (transactions w)\<rparr>);
                  n \<leftarrow> removal_notice w (txs w h);
                  Some (balanceChanged w @ txDeleted w h (fst n) (snd n), w)
                }))
      })"

section \<open>Confirming\<close>

text \<open>One hash of the loop of \<open>BRWalletUpdateTransactions\<close>, with \<open>hashes\<close> and \<open>needsUpdate\<close>.\<close>

definition update_one ::
    "u32 \<Rightarrow> u32 \<Rightarrow> UInt256 \<Rightarrow> BRWallet \<times> UInt256 list \<times> bool \<Rightarrow> (BRWallet \<times> UInt256 list \<times> bool) option" where
  "update_one height ts h = (\<lambda>(w, hashes, needsUpdate).
     do {
       t \<leftarrow> BRSetGet (allTx w) h;
       if t = None \<or> blockHeight (txs w h) = height \<and> tx_timestamp (txs w h) = ts then Some (w, hashes, needsUpdate)
       else do {
         let w = w\<lparr>txs := (txs w)(h := (txs w h)\<lparr>tx_timestamp := ts, blockHeight := height\<rparr>)\<rparr>;
         own \<leftarrow> BRWalletContainsTx w (txs w h);
         if own then do {
           w \<leftarrow> (if h \<in> set (transactions w)
             then BRWalletInsertTx (w\<lparr>transactions := remove_last h (transactions w)\<rparr>) h else Some w);
           p \<leftarrow> or_opt (BRSetContains (pendingTx w) h) (BRSetContains (invalidTx w) h);
           Some (w, hashes @ [h], needsUpdate \<or> p)
         }
         else if height \<noteq> TX_UNCONFIRMED
         then map_option (\<lambda>(_, all). (w\<lparr>allTx := all\<rparr>, hashes, needsUpdate)) (BRSetRemove (allTx w) h)
         else Some (w, hashes, needsUpdate)
       }
     })"

definition BRWalletUpdateTransactions ::
    "wallet_env \<Rightarrow> BRWallet \<Rightarrow> UInt256 list \<Rightarrow> u32 \<Rightarrow> u32 \<Rightarrow> (wallet_event list \<times> BRWallet) option" where
  "BRWalletUpdateTransactions env w txHashes height ts =
     do {
       let w = (if height > w_blockHeight w then w\<lparr>w_blockHeight := height\<rparr> else w);
       (w, hashes, needsUpdate) \<leftarrow> for_each txHashes (update_one height ts) (w, [], False);
       w \<leftarrow> (if needsUpdate then BRWalletUpdateBalance env w else Some w);
       Some (txUpdated w hashes height ts, w)
     }"

definition set_unconfirmed :: "UInt256 \<Rightarrow> BRWallet \<Rightarrow> BRWallet" where
  "set_unconfirmed h w = w\<lparr>txs := (txs w)(h := (txs w h)\<lparr>blockHeight := TX_UNCONFIRMED\<rparr>)\<rparr>"

definition BRWalletSetTxUnconfirmedAfter :: "wallet_env \<Rightarrow> BRWallet \<Rightarrow> u32 \<Rightarrow> (wallet_event list \<times> BRWallet) option" where
  "BRWalletSetTxUnconfirmedAfter env w height =
     do {
       let w = w\<lparr>w_blockHeight := height\<rparr>;
       let hashes = rev (takeWhile (\<lambda>t. blockHeight (txs w t) > height) (rev (transactions w)));
       let w = fold set_unconfirmed hashes w;
       w \<leftarrow> (if hashes \<noteq> [] then BRWalletUpdateBalance env w else Some w);
       Some (txUpdated w hashes TX_UNCONFIRMED 0, w)
     }"

section \<open>Fees and amounts\<close>

definition BRWalletFeeForTxSize :: "BRWallet \<Rightarrow> nat \<Rightarrow> u64" where
  "BRWalletFeeForTxSize w sz = txFee (feePerKb w) sz"

definition BRWalletMinOutputAmount :: "BRWallet \<Rightarrow> u64" where
  "BRWalletMinOutputAmount w =
     (let amount = (TX_MIN_OUTPUT_AMOUNT * feePerKb w + MIN_FEE_PER_KB - 1) div MIN_FEE_PER_KB
      in if amount > TX_MIN_OUTPUT_AMOUNT then amount else TX_MIN_OUTPUT_AMOUNT)"

text \<open>The output behind an unspent output, if its transaction is known; with the transaction's hash.\<close>

definition utxo_output :: "BRWallet \<Rightarrow> BRUTXO \<Rightarrow> (UInt256 \<times> BRTxOutput) option option" where
  "utxo_output w u =
     map_option (\<lambda>t. case t of
         None \<Rightarrow> None
       | Some h \<Rightarrow> if unat (u_n u) < length (outputs (txs w h)) then Some (txHash (txs w h), outputs (txs w h) ! unat (u_n u)) else None)
     (BRSetGet (allTx w) (u_hash u))"

definition BRWalletMaxOutputAmount :: "BRWallet \<Rightarrow> u64 option" where
  "BRWalletMaxOutputAmount w =
     do {
       (inCount, amount) \<leftarrow> for_each (rev (utxos w)) (\<lambda>u (inCount, amount).
         map_option (\<lambda>out. case out of None \<Rightarrow> (inCount, amount) | Some (_, out) \<Rightarrow> (inCount + 1, amount + out_amount out))
           (utxo_output w u)) (0, 0);
       let fee = txFee (feePerKb w)
         (8 + BRVarIntSize (word_of_nat inCount) + TX_INPUT_SIZE * inCount + BRVarIntSize 2 + TX_OUTPUT_SIZE * 2);
       Some (if amount > fee then amount - fee else 0)
     }"

section \<open>Making a transaction\<close>

text \<open>
  The loop that adds unspent outputs as inputs: whether it stopped because the transaction
  is too large, the transaction, what its inputs are worth before that input, and the fee.
\<close>

fun select_utxos ::
    "BRWallet \<Rightarrow> u64 \<Rightarrow> u64 \<Rightarrow> BRUTXO list \<Rightarrow> BRTransaction \<Rightarrow> u64 \<Rightarrow> u64 \<Rightarrow> (bool \<times> BRTransaction \<times> u64 \<times> u64) option" where
  "select_utxos w amount minAmount [] tx funds fee = Some (False, tx, funds, fee)"
| "select_utxos w amount minAmount (u # us) tx funds fee =
     (case utxo_output w u of
        None \<Rightarrow> None
      | Some None \<Rightarrow> select_utxos w amount minAmount us tx funds fee
      | Some (Some (h, out)) \<Rightarrow>
          (case BRTransactionAddInput h (u_n u) (out_amount out) (out_script out) None None TXIN_SEQUENCE tx of
             None \<Rightarrow> None
           | Some tx \<Rightarrow>
               if BRTransactionVSize tx + TX_OUTPUT_SIZE > TX_MAX_SIZE then Some (True, tx, funds, fee)
               else
                 (let funds = funds + out_amount out;
                      fee = txFee (feePerKb w) (BRTransactionVSize tx + TX_OUTPUT_SIZE);
                      fee = (if balance w > amount + fee then fee + (balance w - (amount + fee)) mod 100 else fee)
                  in if funds = amount + fee \<or> funds \<ge> amount + fee + minAmount then Some (False, tx, funds, fee)
                     else select_utxos w amount minAmount us tx funds fee)))"

definition add_outputs :: "BRTxOutput list \<Rightarrow> BRTransaction option" where
  "add_outputs outs =
     for_each outs (\<lambda>out tx. if array_of (out_script out) = [] then None
       else BRTransactionAddOutput (out_amount out) (out_script out) tx) BRTransactionNew"

text \<open>The change output: to the first unused address of the internal chain.\<close>

definition add_change ::
    "wallet_env \<Rightarrow> (nat \<Rightarrow> nat \<Rightarrow> nat) \<Rightarrow> BRWallet \<Rightarrow> u64 \<Rightarrow> BRTransaction \<Rightarrow> (BRTransaction \<times> BRWallet) option" where
  "add_change env rand w change tx =
     do {
       (_, addrs, w) \<leftarrow> BRWalletUnusedAddrs env w (Some [replicate 75 0]) 1 1;
       addrs \<leftarrow> addrs;
       let addr = takeWhile (\<lambda>c. c \<noteq> 0) (addrs ! 0);
       let scriptLen = fst (BRAddressScriptPubKey addr None);
       script \<leftarrow> snd (BRAddressScriptPubKey addr (Some (replicate scriptLen 0)));
       tx \<leftarrow> BRTransactionAddOutput change (Some script) tx;
       Some (BRTransactionShuffleOutputs rand tx, w)
     }"

partial_function (option) BRWalletCreateTxForOutputs ::
    "wallet_env \<Rightarrow> (nat \<Rightarrow> nat \<Rightarrow> nat) \<Rightarrow> BRWallet \<Rightarrow> BRTxOutput list \<Rightarrow> (BRTransaction option \<times> BRWallet) option" where
  "BRWalletCreateTxForOutputs env rand w outs =
     (if outs = [] then None
      else do {
        tx \<leftarrow> add_outputs outs;
        let amount = sum_list (map out_amount outs);
        let minAmount = BRWalletMinOutputAmount w;
        let fee = txFee (feePerKb w) (BRTransactionVSize tx + TX_OUTPUT_SIZE);
        r \<leftarrow> select_utxos w amount minAmount (utxos w) tx 0 fee;
        (case r of (large, tx, funds, fee) \<Rightarrow>
          if large then
            (if balance w < amount + txFee (feePerKb w) (10 + length (utxos w) * TX_INPUT_SIZE + (length outs + 1) * TX_OUTPUT_SIZE)
             then Some (None, w)
             else if out_amount (last outs) > amount + fee + minAmount - funds
             then BRWalletCreateTxForOutputs env rand w
               (butlast outs @ [(last outs)\<lparr>out_amount := out_amount (last outs) - (amount + fee - funds)\<rparr>])
             else BRWalletCreateTxForOutputs env rand w (butlast outs))
          else if funds < amount + fee then Some (None, w)
          else if funds - (amount + fee) > minAmount
          then map_option (\<lambda>(tx, w). (Some tx, w)) (add_change env rand w (funds - (amount + fee)) tx)
          else Some (Some tx, w))
      })"

definition BRWalletCreateTransaction ::
    "wallet_env \<Rightarrow> (nat \<Rightarrow> nat \<Rightarrow> nat) \<Rightarrow> BRWallet \<Rightarrow> u64 \<Rightarrow> cstring \<Rightarrow> (BRTransaction option \<times> BRWallet) option" where
  "BRWalletCreateTransaction env rand w amount addr =
     (if amount = 0 \<or> \<not> BRAddressIsValid addr then None
      else do {
        out \<leftarrow> BRTxOutputSetAddress (Some addr) \<lparr>out_address = [], out_amount = amount, out_script = None\<rparr>;
        BRWalletCreateTxForOutputs env rand w [out]
      })"

definition dummyScript :: "byte list" where
  "dummyScript = [OP_DUP, OP_HASH160, 20] @ replicate 20 0 @ [OP_EQUALVERIFY, OP_CHECKSIG]"

definition BRWalletFeeForTxAmount ::
    "wallet_env \<Rightarrow> (nat \<Rightarrow> nat \<Rightarrow> nat) \<Rightarrow> BRWallet \<Rightarrow> u64 \<Rightarrow> (u64 \<times> BRWallet) option" where
  "BRWalletFeeForTxAmount env rand w amount =
     (if amount = 0 then None
      else do {
        maxAmount \<leftarrow> BRWalletMaxOutputAmount w;
        out \<leftarrow> BRTxOutputSetScript (Some dummyScript)
          \<lparr>out_address = [], out_amount = (if amount < maxAmount then amount else maxAmount), out_script = None\<rparr>;
        (tx, w) \<leftarrow> BRWalletCreateTxForOutputs env rand w [out];
        (case tx of None \<Rightarrow> Some (0, w) | Some tx \<Rightarrow> map_option (\<lambda>fee. (fee, w)) (BRWalletFeeForTx w tx))
      })"

end
