(* ===== verification/KeySets.thy ===== *)
theory KeySets
  imports Wallet HashSet_Correct
begin

text \<open>
  The wallet's hash tables as finite sets.  All of them compare items by value, so the
  contracts of the hash table become those of a set; the code's three pairs of a hash
  function and an equality meet them.
\<close>

unbundle bit_operations_syntax

locale key_items = item_equality +
  assumes e_eq: "e x y \<Longrightarrow> x = y"
begin

definition rep :: "'a BRSet \<Rightarrow> 'a set \<Rightarrow> bool" where
  "rep s M \<longleftrightarrow> set_inv s \<and> hash s = h \<and> eq s = e \<and> members s = M"

lemma e_iff: "e x y \<longleftrightarrow> x = y"
  using e_eq e_refl by blast

lemma rep_count: "rep s M \<Longrightarrow> BRSetCount s = card M"
  using count_members [of s] by (simp add: rep_def set_inv_def BRSetCount_def uses_def)

lemma rep_finite: "rep s M \<Longrightarrow> finite M"
  using finite_vimageI [of "set (table s)" Some] by (auto simp: rep_def members_def vimage_def)

lemma rep_contains: "rep s M \<Longrightarrow> BRSetContains s x = Some (x \<in> M)"
  using contains_contract [of s x] by (auto simp: rep_def e_iff)

lemma rep_get: "rep s M \<Longrightarrow> BRSetGet s x = Some (if x \<in> M then Some x else None)"
proof -
  assume "rep s M"
  then obtain r where r: "BRSetGet s x = Some r" "\<forall>t. r = Some t \<longleftrightarrow> t \<in> M \<and> t = x"
    using get_contract [of s x] by (auto simp: rep_def e_iff)
  then show ?thesis by (cases r) auto
qed

lemma rep_add:
  assumes "rep s M" and "card M < 2609407362"
  shows "\<exists>r s'. BRSetAdd s x = Some (r, s') \<and> rep s' (insert x M)"
proof -
  obtain r s' where s': "BRSetAdd s x = Some (r, s')" "set_inv s'" "hash s' = h" "eq s' = e"
    "members s' = insert x {t \<in> M. \<not> e t x}"
    using add_contract [of s x] assms by (auto simp: rep_def rep_count [OF assms(1)])
  moreover have "insert x {t \<in> M. \<not> e t x} = insert x M" by (auto simp: e_iff)
  ultimately show ?thesis by (simp add: rep_def)
qed

lemma rep_remove:
  assumes "rep s M"
  shows "\<exists>r s'. BRSetRemove s x = Some (r, s') \<and> rep s' (M - {x})"
proof -
  obtain r s' where s': "BRSetRemove s x = Some (r, s')" "set_inv s'" "hash s' = h" "eq s' = e"
    "members s' = {t \<in> M. \<not> e t x}"
    using remove_contract [of s x] assms by (auto simp: rep_def)
  moreover have "{t \<in> M. \<not> e t x} = M - {x}" by (auto simp: e_iff)
  ultimately show ?thesis by (simp add: rep_def)
qed

lemma rep_clear: "rep s M \<Longrightarrow> rep (BRSetClear s) {}"
  using clear_inv [of s] by (simp add: rep_def) (simp add: BRSetClear_def)

lemma rep_new: "capacity \<le> 2609407319 \<Longrightarrow> rep (BRSetNew h e capacity) {}"
  using new_inv [of capacity h e] by (simp add: rep_def) (simp add: BRSetNew_def)

text \<open>Adding the items of a list one after the other.\<close>

lemma rep_add_all:
  assumes "rep s M" and "M \<union> f ` set xs \<subseteq> U" and "finite U" and "card U < 2609407362"
  shows "\<exists>s'. for_each xs (\<lambda>x s. map_option snd (BRSetAdd s (f x))) s = Some s' \<and> rep s' (M \<union> f ` set xs)"
  using assms(1,2)
proof (induction xs arbitrary: s M)
  case (Cons x xs)
  have "card M < 2609407362" using Cons.prems(2) assms(3,4) by (meson card_mono le_less_trans le_supE)
  then obtain r s1 where s1: "BRSetAdd s (f x) = Some (r, s1)" "rep s1 (insert (f x) M)"
    using rep_add [OF Cons.prems(1), of "f x"] by auto
  show ?case using Cons.IH [OF s1(2)] Cons.prems(2) s1(1) by auto
qed simp

lemma rep_of_list:
  assumes "card (f ` set xs) < 2609407362"
  shows "rep (the (for_each xs (\<lambda>x s. map_option snd (BRSetAdd s (f x))) (BRSetNew h e 10))) (f ` set xs)"
  using rep_add_all [OF rep_new, of 10 f xs "f ` set xs"] assms by auto

end

interpretation tx_set: key_items txKeyHash txKeyEq
  by unfold_locales (simp_all add: txKeyHash_def txKeyEq_def)

interpretation utxo_set: key_items BRUTXOHash BRUTXOEq
  by unfold_locales (auto simp: BRUTXOHash_def BRUTXOEq_def)

interpretation pkh_set: key_items pkhHash pkhEq
  by unfold_locales (simp_all add: pkhHash_def pkhEq_def)

end
