(* ===== verification/Wallet_Correct.thy ===== *)
theory Wallet_Correct
  imports KeySets Address_Correct
begin

text \<open>
  The balance: what the loop over the transactions computes, as a function on finite sets,
  and what that means for the unspent outputs, the totals and the balance.
\<close>

unbundle bit_operations_syntax

section \<open>Finding the key hash of an output never reads beyond the script\<close>

lemma elem_loop_stop: "\<not> off < length script \<Longrightarrow> elem_loop script off len = ([], off)"
  by (subst elem_loop.simps) simp

lemma elem_loop_go:
  "off < length script \<Longrightarrow> elem_loop script (fst (elem_step script off len)) (snd (elem_step script off len)) = (offs, e) \<Longrightarrow>
     elem_loop script off len = (off # offs, e)"
  by (subst elem_loop.simps) (simp add: Let_def)

lemma elem_loop_first: "elem_loop script off len = (offs, e) \<Longrightarrow> (if offs = [] then e else hd offs) = off"
proof (cases "off < length script")
  case True
  assume l: "elem_loop script off len = (offs, e)"
  obtain offs' e' where "elem_loop script (fst (elem_step script off len)) (snd (elem_step script off len)) = (offs', e')" by fastforce
  from elem_loop_go [OF True this] l show ?thesis by auto
qed (auto simp: elem_loop_stop)

lemma elem_loop_next:
  "elem_loop script off len = (offs, e) \<Longrightarrow> k < length offs \<Longrightarrow>
     offs ! k < length script \<and> (\<exists>l. (if Suc k < length offs then offs ! Suc k else e) = fst (elem_step script (offs ! k) l))"
proof (induction "length script - off" arbitrary: off len offs e k rule: less_induct)
  case less
  have off: "off < length script" using less.prems by (cases "off < length script") (auto simp: elem_loop_stop)
  let ?n = "elem_step script off len"
  obtain offs' e' where rec: "elem_loop script (fst ?n) (snd ?n) = (offs', e')" by fastforce
  from elem_loop_go [OF off this] less.prems(1) have offs: "offs = off # offs'" "e = e'" by auto
  show ?case
  proof (cases k)
    case 0
    have "(if offs' = [] then e' else hd offs') = fst ?n" by (rule elem_loop_first [OF rec])
    then show ?thesis using 0 offs off by (cases offs') auto
  next
    case (Suc j)
    have "length script - fst ?n < length script - off" using off elem_step_progress [of off script len] by linarith
    from less.hyps [OF this rec, of j] show ?thesis using Suc offs less.prems(2) by auto
  qed
qed

lemma script_elems_nth:
  assumes "k < length (script_elems script)" and "op (script_elems script) k = 20"
  shows "\<exists>p. BRScriptData (script_elems script ! k) = Some (20, Some p) \<and> 20 \<le> length p"
proof -
  obtain offs e where l: "elem_loop script 0 0 = (offs, e)" by fastforce
  then have e: "e = length script" and el: "script_elems script = map (\<lambda>off. drop off script) offs"
    using assms(1) by (auto simp: script_elems_def BRScriptElements_def Let_def split: if_splits)
  have k: "k < length offs" using assms(1) el by simp
  from elem_loop_next [OF l k] obtain l' where
    off: "offs ! k < length script" "(if Suc k < length offs then offs ! Suc k else e) = fst (elem_step script (offs ! k) l')" by blast
  have "script ! (offs ! k) = 20" using assms(2) el k off(1) by simp
  then have "fst (elem_step script (offs ! k) l') = offs ! k + 21"
    by (simp add: elem_step_def Let_def op_defs)
  moreover have "(if Suc k < length offs then offs ! Suc k else e) \<le> length script"
    using elem_loop_next [OF l, of "Suc k"] e by (auto intro: less_imp_le)
  ultimately have len: "offs ! k + 21 \<le> length script" using off(2) by simp
  define d where "d = drop (Suc (offs ! k)) script"
  have "script_elems script ! k = 20 # d"
    using el k off(1) \<open>script ! (offs ! k) = 20\<close> by (simp add: d_def Cons_nth_drop_Suc [symmetric])
  then show ?thesis
    using len by (intro exI [of _ d]) (simp add: BRScriptData_def op_defs Let_def d_def)
qed

lemma script_pkh_total: "\<exists>r. script_pkh script = Some r"
proof -
  let ?s = "array_of script"
  have "\<exists>r. BRScriptPKH ?s = Some r \<and> (\<forall>p. r = Some p \<longrightarrow> 20 \<le> length p)"
  proof (cases "?s = [] \<or> length ?s > MAX_SCRIPT_LENGTH")
    case False
    consider "is_p2pkh (script_elems ?s)" | "\<not> is_p2pkh (script_elems ?s)" "is_p2sh (script_elems ?s)"
      | "\<not> is_p2pkh (script_elems ?s)" "\<not> is_p2sh (script_elems ?s)" by blast
    then show ?thesis
    proof cases
      case 1
      then have "\<exists>p. BRScriptData (script_elems ?s ! 2) = Some (20, Some p) \<and> 20 \<le> length p"
        by (intro script_elems_nth) (simp_all add: is_p2pkh_def)
      then show ?thesis using 1 False by (auto simp: BRScriptPKH_def Let_def)
    next
      case 2
      then have "\<exists>p. BRScriptData (script_elems ?s ! 1) = Some (20, Some p) \<and> 20 \<le> length p"
        by (intro script_elems_nth) (simp_all add: is_p2sh_def)
      then show ?thesis using 2 False by (auto simp: BRScriptPKH_def Let_def)
    next
      case 3
      have "\<exists>p. BRScriptData (script_elems ?s ! 1) = Some (20, Some p) \<and> 20 \<le> length p"
        if "length (script_elems ?s) = 2" "op (script_elems ?s) 1 = 20"
        using that by (intro script_elems_nth) simp_all
      then show ?thesis using 3 False by (auto simp: BRScriptPKH_def Let_def)
    qed
  qed (auto simp: BRScriptPKH_def)
  then obtain r where r: "BRScriptPKH ?s = Some r" "\<forall>p. r = Some p \<longrightarrow> 20 \<le> length p" by blast
  then show ?thesis by (cases r) (auto simp: script_pkh_def UInt160Get_def)
qed

section \<open>The ledger\<close>

text \<open>
  What the loop keeps, with sets for the hash tables and the value of the unspent outputs
  for the running balance.
\<close>

record ledger =
  spent :: "BRUTXO set"
  invalid :: "UInt256 set"
  pending :: "UInt256 set"
  used :: "UInt160 set"
  unspent :: "BRUTXO list"
  hist :: "u64 list"
  sent :: u64
  received_total :: u64

definition pkh_of :: "BRTxOutput \<Rightarrow> UInt160 option" where
  "pkh_of out = the (script_pkh (out_script out))"

text \<open>An output paid to the wallet.\<close>

definition own :: "UInt160 set \<Rightarrow> BRTxOutput \<Rightarrow> bool" where
  "own K out \<longleftrightarrow> out_address out \<noteq> [] \<and> (\<exists>k \<in> K. pkh_of out = Some k)"

definition tx_utxos :: "UInt160 set \<Rightarrow> UInt256 \<Rightarrow> (nat \<times> BRTxOutput) list \<Rightarrow> BRUTXO list" where
  "tx_utxos K h outs = map (\<lambda>(j, out). \<lparr>u_hash = h, u_n = word_of_nat j\<rparr>) (filter (\<lambda>(j, out). own K out) outs)"

definition amount_of :: "(UInt256 \<Rightarrow> BRTransaction) \<Rightarrow> BRUTXO \<Rightarrow> u64" where
  "amount_of T u = out_amount (outputs (T (u_hash u)) ! unat (u_n u))"

definition value_of :: "(UInt256 \<Rightarrow> BRTransaction) \<Rightarrow> BRUTXO list \<Rightarrow> u64" where
  "value_of T us = sum_list (map (amount_of T) us)"

text \<open>When an unconfirmed transaction is held back, given those already held back.\<close>

definition held_back :: "wallet_env \<Rightarrow> u32 \<Rightarrow> BRTransaction \<Rightarrow> UInt256 set \<Rightarrow> bool" where
  "held_back env height tx P \<longleftrightarrow>
     BRTransactionVSize tx > TX_MAX_SIZE \<or> (\<exists>out \<in> set (outputs tx). out_amount out < TX_MIN_OUTPUT_AMOUNT) \<or>
     (\<exists>i \<in> set (inputs tx).
        in_sequence i < 0xffffffff - 1 \<or>
        in_sequence i < 0xffffffff \<and> lockTime tx < TX_MAX_LOCK_HEIGHT \<and> lockTime tx > height + 1 \<or>
        in_sequence i < 0xffffffff \<and> uint (lockTime tx) > now env \<or> in_txHash i \<in> P)"

definition conflicts :: "BRTransaction \<Rightarrow> ledger \<Rightarrow> bool" where
  "conflicts tx L \<longleftrightarrow> (\<exists>i \<in> set (inputs tx). utxo_of_input i \<in> spent L \<or> in_txHash i \<in> invalid L)"

definition inputs_of :: "BRTransaction \<Rightarrow> BRUTXO set" where
  "inputs_of tx = utxo_of_input ` set (inputs tx)"

definition settle :: "(UInt256 \<Rightarrow> BRTransaction) \<Rightarrow> UInt160 set \<Rightarrow> UInt256 \<Rightarrow> ledger \<Rightarrow> ledger" where
  "settle T K h L =
     (let us = filter (\<lambda>u. u \<notin> spent L) (unspent L @ tx_utxos K h (enumerate 0 (outputs (T h))));
          v = value_of T (unspent L); v' = value_of T us
      in L\<lparr>used := used L \<union> {k \<in> K. \<exists>out \<in> set (outputs (T h)). out_address out \<noteq> [] \<and> pkh_of out = Some k},
           unspent := us, hist := hist L @ [v'],
           received_total := (if v < v' then received_total L + (v' - v) else received_total L),
           sent := (if v' < v then sent L + (v - v') else sent L)\<rparr>)"

definition ledger_step :: "wallet_env \<Rightarrow> BRWallet \<Rightarrow> UInt160 set \<Rightarrow> UInt256 \<Rightarrow> ledger \<Rightarrow> ledger" where
  "ledger_step env w K h L =
     (let tx = txs w h; unconfirmed = (blockHeight tx = TX_UNCONFIRMED)
      in if unconfirmed \<and> conflicts tx L
         then L\<lparr>invalid := insert h (invalid L), hist := hist L @ [value_of (txs w) (unspent L)]\<rparr>
         else let L = L\<lparr>spent := spent L \<union> inputs_of tx\<rparr>
         in if unconfirmed \<and> held_back env (w_blockHeight w) tx (pending L)
            then L\<lparr>pending := insert h (pending L), hist := hist L @ [value_of (txs w) (unspent L)]\<rparr>
            else settle (txs w) K h L)"

definition ledger_of :: "wallet_env \<Rightarrow> BRWallet \<Rightarrow> UInt160 set \<Rightarrow> UInt256 list \<Rightarrow> ledger" where
  "ledger_of env w K ts = fold (ledger_step env w K) ts
     \<lparr>spent = {}, invalid = {}, pending = {}, used = {}, unspent = [], hist = [], sent = 0, received_total = 0\<rparr>"

section \<open>One transaction\<close>

lemma own_pkh_rep: "pkh_set.rep (allPKH w) K \<Longrightarrow> own_pkh w out = Some (\<exists>k \<in> K. pkh_of out = Some k)"
  using script_pkh_total [of "out_script out"]
  by (auto simp: own_pkh_def pkh_of_def pkh_set.rep_contains split: option.split)

text \<open>Adding the wallet's outputs of a transaction.\<close>

lemma add_utxo_loop:
  assumes "pkh_set.rep (allPKH (wal s)) K" and "pkh_set.rep (usedPKH (wal s)) M" and "M \<subseteq> K" and "card K < 2609407362"
  shows "\<exists>u. for_each outs (add_utxo h) s = Some (s\<lparr>wal := (wal s)\<lparr>usedPKH := u, utxos := utxos (wal s) @ tx_utxos K h outs\<rparr>,
      bal := bal s + sum_list (map (\<lambda>(j, out). out_amount out) (filter (\<lambda>(j, out). own K out) outs))\<rparr>) \<and>
    pkh_set.rep u (M \<union> {k \<in> K. \<exists>out \<in> snd ` set outs. out_address out \<noteq> [] \<and> pkh_of out = Some k})"
  using assms(1,2,3)
proof (induction outs arbitrary: s M)
  case Nil
  then show ?case by (intro exI [of _ "usedPKH (wal s)"]) (simp add: tx_utxos_def)
next
  case (Cons o1 outs)
  obtain j out where o: "o1 = (j, out)" by fastforce
  have fin: "finite K" by (rule pkh_set.rep_finite [OF Cons.prems(1)])
  show ?case
  proof (cases "own K out")
    case True
    then obtain k where k: "out_address out \<noteq> []" "k \<in> K" "script_pkh (out_script out) = Some (Some k)"
      using script_pkh_total [of "out_script out"] by (auto simp: own_def pkh_of_def)
    have "card M < 2609407362" using card_mono [OF fin Cons.prems(3)] assms(4) by simp
    then obtain r u where u: "BRSetAdd (usedPKH (wal s)) k = Some (r, u)" "pkh_set.rep u (insert k M)"
      using pkh_set.rep_add [OF Cons.prems(2), of k] by auto
    let ?s = "s\<lparr>wal := (wal s)\<lparr>usedPKH := u, utxos := utxos (wal s) @ [\<lparr>u_hash = h, u_n = word_of_nat j\<rparr>]\<rparr>, bal := bal s + out_amount out\<rparr>"
    have step: "add_utxo h o1 s = Some ?s"
      using k u(1) Cons.prems(1) by (simp add: add_utxo_def o pkh_set.rep_contains)
    have "pkh_set.rep (allPKH (wal ?s)) K" "pkh_set.rep (usedPKH (wal ?s)) (insert k M)" "insert k M \<subseteq> K"
      using Cons.prems u(2) k(2) by simp_all
    from Cons.IH [OF this] obtain u' where u': "for_each outs (add_utxo h) ?s =
        Some (?s\<lparr>wal := (wal ?s)\<lparr>usedPKH := u', utxos := utxos (wal ?s) @ tx_utxos K h outs\<rparr>,
          bal := bal ?s + sum_list (map (\<lambda>(j, out). out_amount out) (filter (\<lambda>(j, out). own K out) outs))\<rparr>)"
      "pkh_set.rep u' (insert k M \<union> {k \<in> K. \<exists>out \<in> snd ` set outs. out_address out \<noteq> [] \<and> pkh_of out = Some k})" by blast
    have "insert k M \<union> {k \<in> K. \<exists>out \<in> snd ` set outs. out_address out \<noteq> [] \<and> pkh_of out = Some k} =
        M \<union> {k \<in> K. \<exists>out \<in> snd ` set (o1 # outs). out_address out \<noteq> [] \<and> pkh_of out = Some k}"
      using k by (auto simp: o pkh_of_def)
    then show ?thesis using u' True
      by (intro exI [of _ u']) (simp add: step [unfolded o] o tx_utxos_def add.assoc)
  next
    case False
    then have step: "add_utxo h o1 s = Some s"
      using script_pkh_total [of "out_script out"] Cons.prems(1)
      by (auto simp: add_utxo_def o own_def pkh_of_def pkh_set.rep_contains split: option.split)
    have "{k \<in> K. \<exists>out \<in> snd ` set outs. out_address out \<noteq> [] \<and> pkh_of out = Some k} =
        {k \<in> K. \<exists>out \<in> snd ` set (o1 # outs). out_address out \<noteq> [] \<and> pkh_of out = Some k}"
      using False by (auto simp: o own_def)
    then show ?thesis using Cons.IH [OF Cons.prems] False by (simp add: step [unfolded o] o tx_utxos_def)
  qed
qed

lemma value_of_simps [simp]:
  "value_of T [] = 0" "value_of T (u # us) = amount_of T u + value_of T us" "value_of T (us @ vs) = value_of T us + value_of T vs"
  by (simp_all add: value_of_def)

lemma value_of_split: "value_of T us = value_of T (filter P us) + value_of T (filter (\<lambda>u. \<not> P u) us)"
  by (induction us) (simp_all add: algebra_simps)

text \<open>An unspent output that can be looked up.\<close>

definition known :: "UInt256 set \<Rightarrow> (UInt256 \<Rightarrow> BRTransaction) \<Rightarrow> BRUTXO \<Rightarrow> bool" where
  "known A T u \<longleftrightarrow> u_hash u \<in> A \<and> unat (u_n u) < length (outputs (T (u_hash u)))"

lemma sweep_loop:
  assumes "utxo_set.rep (spentOutputs w) S" and "tx_set.rep (allTx w) A" and "\<forall>u \<in> set us. known A (txs w) u"
  shows "for_each (rev us) (sweep_utxo w) (kept, b) =
    Some (filter (\<lambda>u. u \<notin> S) us @ kept, b - value_of (txs w) (filter (\<lambda>u. u \<in> S) us))"
  using assms(3)
proof (induction us arbitrary: kept b rule: rev_induct)
  case (snoc u us)
  have "sweep_utxo w u (kept, b) = Some (if u \<in> S then (kept, b - amount_of (txs w) u) else (u # kept, b))"
    using snoc.prems assms(1,2)
    by (simp add: sweep_utxo_def utxo_set.rep_contains tx_set.rep_get known_def amount_of_def)
  then show ?case using snoc by (simp add: algebra_simps)
qed simp

definition outs_ok :: "BRWallet \<Rightarrow> UInt256 \<Rightarrow> bool" where
  "outs_ok w h \<longleftrightarrow> length (outputs (txs w h)) < 2 ^ 32"

lemma tx_utxos_known:
  assumes "h \<in> A" and "outs_ok w h" and "u \<in> set (tx_utxos K h (enumerate 0 (outputs (txs w h))))"
  shows "known A (txs w) u"
  using assms by (auto simp: tx_utxos_def known_def outs_ok_def in_set_enumerate_eq unat_of_nat_small)

lemma tx_utxos_value:
  assumes "outs_ok w h"
  shows "value_of (txs w) (tx_utxos K h (enumerate 0 (outputs (txs w h)))) =
    sum_list (map (\<lambda>(j, out). out_amount out) (filter (\<lambda>(j, out). own K out) (enumerate 0 (outputs (txs w h)))))"
  using assms unfolding tx_utxos_def value_of_def map_map
  by (intro arg_cong [of _ _ sum_list] map_cong)
    (auto simp: amount_of_def outs_ok_def in_set_enumerate_eq unat_of_nat_small)

text \<open>The state of the loop stands for a ledger.\<close>

definition stands_for :: "BRWallet \<Rightarrow> UInt256 set \<Rightarrow> UInt160 set \<Rightarrow> BRUTXO set \<Rightarrow> balance_loop \<Rightarrow> ledger \<Rightarrow> bool" where
  "stands_for W A K U s L \<longleftrightarrow>
     (\<exists>sp iv pe us. wal s = W\<lparr>utxos := unspent L, balanceHist := hist L, spentOutputs := sp, invalidTx := iv, pendingTx := pe,
        usedPKH := us, totalSent := sent L, totalReceived := received_total L\<rparr> \<and>
        utxo_set.rep sp (spent L) \<and> tx_set.rep iv (invalid L) \<and> tx_set.rep pe (pending L) \<and> pkh_set.rep us (used L)) \<and>
     bal s = value_of (txs W) (unspent L) \<and> prevBal s = value_of (txs W) (unspent L) \<and>
     spent L \<subseteq> U \<and> invalid L \<subseteq> A \<and> pending L \<subseteq> A \<and> used L \<subseteq> K \<and> (\<forall>u \<in> set (unspent L). known A (txs W) u)"

lemma accept_tx_settles:
  assumes R: "stands_for W A K U s L" and W: "tx_set.rep (allTx W) A" "pkh_set.rep (allPKH W) K" "card K < 2609407362"
    and h: "h \<in> A" "outs_ok W h"
  shows "\<exists>s'. accept_tx h s = Some s' \<and> stands_for W A K U s' (settle (txs W) K h L)"
proof -
  obtain sp iv pe us where w: "wal s = W\<lparr>utxos := unspent L, balanceHist := hist L, spentOutputs := sp, invalidTx := iv,
      pendingTx := pe, usedPKH := us, totalSent := sent L, totalReceived := received_total L\<rparr>"
    and reps: "utxo_set.rep sp (spent L)" "tx_set.rep iv (invalid L)" "tx_set.rep pe (pending L)" "pkh_set.rep us (used L)"
    and b: "bal s = value_of (txs W) (unspent L)" "prevBal s = value_of (txs W) (unspent L)"
    and sub: "spent L \<subseteq> U" "invalid L \<subseteq> A" "pending L \<subseteq> A" "used L \<subseteq> K" "\<forall>u \<in> set (unspent L). known A (txs W) u"
    using R unfolding stands_for_def by blast
  let ?outs = "enumerate 0 (outputs (txs W h))" and ?T = "txs W"
  let ?new = "tx_utxos K h ?outs" and ?used = "used L \<union> {k \<in> K. \<exists>out \<in> snd ` set ?outs. out_address out \<noteq> [] \<and> pkh_of out = Some k}"
  have "pkh_set.rep (allPKH (wal s)) K" "pkh_set.rep (usedPKH (wal s)) (used L)" using W(2) reps(4) by (simp_all add: w)
  from add_utxo_loop [OF this sub(4) W(3), of ?outs h] obtain u where
    u: "for_each ?outs (add_utxo h) s = Some (s\<lparr>wal := (wal s)\<lparr>usedPKH := u, utxos := unspent L @ ?new\<rparr>,
      bal := value_of ?T (unspent L @ ?new)\<rparr>)" "pkh_set.rep u ?used"
    by (auto simp: w b tx_utxos_value [OF h(2)])
  define s1 where "s1 = s\<lparr>wal := (wal s)\<lparr>usedPKH := u, utxos := unspent L @ ?new\<rparr>, bal := value_of ?T (unspent L @ ?new)\<rparr>"
  define kept where "kept = filter (\<lambda>v. v \<notin> spent L) (unspent L @ ?new)"
  define v v' where "v = value_of ?T (unspent L)" and "v' = value_of ?T kept"
  have s1: "wal s1 = W\<lparr>utxos := unspent L @ ?new, balanceHist := hist L, spentOutputs := sp, invalidTx := iv, pendingTx := pe,
      usedPKH := u, totalSent := sent L, totalReceived := received_total L\<rparr>" "bal s1 = value_of ?T (unspent L @ ?new)" "prevBal s1 = v"
    by (simp_all add: s1_def w b v_def)
  have kn: "\<forall>v \<in> set (unspent L @ ?new). known A ?T v"
    using sub(5) tx_utxos_known [OF h] by auto
  have sweep: "for_each (rev (utxos (wal s1))) (sweep_utxo (wal s1)) ([], bal s1) = Some (kept, v')"
    using sweep_loop [of "wal s1" "spent L" A "unspent L @ ?new" "[]" "bal s1"] reps(1) W(1) kn
      value_of_split [of ?T "unspent L @ ?new" "\<lambda>v. v \<in> spent L"] by (simp add: s1 kept_def v'_def)
  have snds: "snd ` set ?outs = set (outputs (txs W h))" by (metis list.set_map map_snd_enumerate)
  have txs: "txs (wal s) = ?T" by (simp add: w)
  have settle: "settle ?T K h L = L\<lparr>used := ?used, unspent := kept, hist := hist L @ [v'],
      received_total := (if v < v' then received_total L + (v' - v) else received_total L),
      sent := (if v' < v then sent L + (v - v') else sent L)\<rparr>"
    unfolding settle_def Let_def snds by (simp add: kept_def v_def v'_def)
  let ?s' = "\<lparr>wal = W\<lparr>utxos := kept, balanceHist := hist L @ [v'], spentOutputs := sp, invalidTx := iv,
      pendingTx := pe, usedPKH := u, totalSent := sent (settle ?T K h L), totalReceived := received_total (settle ?T K h L)\<rparr>,
      bal = v', prevBal = v'\<rparr>"
  have "accept_tx h s = Some ?s'"
    unfolding accept_tx_def txs u(1) bind.bind_lunit s1_def [symmetric] sweep prod.case Let_def
    by (simp add: s1 settle)
  moreover have "stands_for W A K U ?s' (settle ?T K h L)"
  proof -
    have "?used \<subseteq> K" using sub(4) by auto
    moreover have "\<forall>u \<in> set kept. known A ?T u" using kn by (auto simp: kept_def)
    ultimately show ?thesis
      using reps u(2) sub(1-3) unfolding stands_for_def settle
      by (intro conjI exI [of _ sp] exI [of _ iv] exI [of _ pe] exI [of _ u]) (simp_all add: v'_def)
  qed
  ultimately show ?thesis by blast
qed

lemma tx_pending_held:
  assumes "tx_set.rep (pendingTx w) P"
  shows "tx_pending env w tx = Some (held_back env (w_blockHeight w) tx P)"
proof -
  have "any_loop (input_pending env w tx) (inputs tx) = Some (\<exists>i \<in> set (inputs tx). in_sequence i < 0xffffffff - 1 \<or>
      in_sequence i < 0xffffffff \<and> lockTime tx < TX_MAX_LOCK_HEIGHT \<and> lockTime tx > w_blockHeight w + 1 \<or>
      in_sequence i < 0xffffffff \<and> uint (lockTime tx) > now env \<or> in_txHash i \<in> P)"
    by (rule any_loop_total) (simp only: input_pending_def tx_set.rep_contains [OF assms] or_opt_Some disj_assoc)
  then show ?thesis by (simp only: tx_pending_def or_opt_Some held_back_def disj_assoc)
qed

lemma input_invalid_conflicts:
  assumes "utxo_set.rep (spentOutputs w) S" and "tx_set.rep (invalidTx w) I"
  shows "any_loop (input_invalid w) (inputs tx) = Some (\<exists>i \<in> set (inputs tx). utxo_of_input i \<in> S \<or> in_txHash i \<in> I)"
  by (rule any_loop_total) (simp add: input_invalid_def utxo_set.rep_contains [OF assms(1)] tx_set.rep_contains [OF assms(2)])

lemma update_tx_step:
  assumes R: "stands_for W A K U s L" and W: "tx_set.rep (allTx W) A" "pkh_set.rep (allPKH W) K" "card K < 2609407362"
    and U: "finite U" "card U < 2609407362" "card A < 2609407362"
    and h: "h \<in> A" "outs_ok W h" "inputs_of (txs W h) \<subseteq> U"
  shows "\<exists>s'. update_tx env h s = Some s' \<and> stands_for W A K U s' (ledger_step env W K h L)"
proof -
  obtain sp iv pe us where w: "wal s = W\<lparr>utxos := unspent L, balanceHist := hist L, spentOutputs := sp, invalidTx := iv,
      pendingTx := pe, usedPKH := us, totalSent := sent L, totalReceived := received_total L\<rparr>"
    and reps: "utxo_set.rep sp (spent L)" "tx_set.rep iv (invalid L)" "tx_set.rep pe (pending L)" "pkh_set.rep us (used L)"
    and b: "bal s = value_of (txs W) (unspent L)" "prevBal s = value_of (txs W) (unspent L)"
    and sub: "spent L \<subseteq> U" "invalid L \<subseteq> A" "pending L \<subseteq> A" "used L \<subseteq> K" "\<forall>u \<in> set (unspent L). known A (txs W) u"
    using R unfolding stands_for_def by blast
  have A: "finite A" by (rule tx_set.rep_finite [OF W(1)])
  let ?tx = "txs W h" and ?un = "blockHeight (txs W h) = TX_UNCONFIRMED"
  have small: "card (invalid L) < 2609407362" "card (pending L) < 2609407362"
    using card_mono [OF A sub(2)] card_mono [OF A sub(3)] U(3) by simp_all
  have inv: "any_loop (input_invalid (wal s)) (inputs ?tx) = Some (conflicts ?tx L)"
    using input_invalid_conflicts [of "wal s" "spent L" "invalid L" ?tx] reps(1,2) by (simp add: w conflicts_def)
  show ?thesis
  proof (cases "?un \<and> conflicts ?tx L")
    case True
    obtain r iv' where iv': "BRSetAdd iv h = Some (r, iv')" "tx_set.rep iv' (insert h (invalid L))"
      using tx_set.rep_add [OF reps(2) small(1), of h] by blast
    have "update_tx env h s = Some (skip_tx (s\<lparr>wal := (wal s)\<lparr>invalidTx := iv'\<rparr>\<rparr>))"
      using True inv iv'(1) by (simp add: update_tx_def w Let_def)
    moreover have "stands_for W A K U (skip_tx (s\<lparr>wal := (wal s)\<lparr>invalidTx := iv'\<rparr>\<rparr>)) (ledger_step env W K h L)"
      using True reps iv'(2) b sub h(1) unfolding stands_for_def
      by (intro conjI exI [of _ sp] exI [of _ iv'] exI [of _ pe] exI [of _ us]) (simp_all add: skip_tx_def ledger_step_def w)
    ultimately show ?thesis by blast
  next
    case False
    have "spent L \<union> utxo_of_input ` set (inputs ?tx) \<subseteq> U" using sub(1) h(3) by (simp add: inputs_of_def)
    from utxo_set.rep_add_all [OF reps(1) this U(1,2)] obtain sp' where
      sp': "for_each (inputs ?tx) (\<lambda>i spent. map_option snd (BRSetAdd spent (utxo_of_input i))) sp = Some sp'"
      "utxo_set.rep sp' (spent L \<union> inputs_of ?tx)" unfolding inputs_of_def by blast
    define s1 where "s1 = s\<lparr>wal := (wal s)\<lparr>spentOutputs := sp'\<rparr>\<rparr>"
    define L1 where "L1 = L\<lparr>spent := spent L \<union> inputs_of ?tx\<rparr>"
    have R1: "stands_for W A K U s1 L1"
      using reps sp'(2) b sub h(3) unfolding stands_for_def L1_def
      by (intro conjI exI [of _ sp'] exI [of _ iv] exI [of _ pe] exI [of _ us]) (simp_all add: s1_def w)
    have pend: "tx_pending env (wal s1) ?tx = Some (held_back env (w_blockHeight W) ?tx (pending L))"
      using tx_pending_held [of "wal s1" "pending L" env ?tx] reps(3) by (simp add: s1_def w)
    have balance_loop: "update_tx env h s = (if ?un \<and> held_back env (w_blockHeight W) ?tx (pending L)
        then do { (_, pend) \<leftarrow> BRSetAdd pe h; Some (skip_tx (s1\<lparr>wal := (wal s1)\<lparr>pendingTx := pend\<rparr>\<rparr>)) }
        else accept_tx h s1)"
      using False inv sp'(1) pend by (cases ?un) (simp_all add: update_tx_def w Let_def s1_def)
    show ?thesis
    proof (cases "?un \<and> held_back env (w_blockHeight W) ?tx (pending L)")
      case True
      obtain r pe' where pe': "BRSetAdd pe h = Some (r, pe')" "tx_set.rep pe' (insert h (pending L))"
        using tx_set.rep_add [OF reps(3) small(2), of h] by blast
      have "update_tx env h s = Some (skip_tx (s1\<lparr>wal := (wal s1)\<lparr>pendingTx := pe'\<rparr>\<rparr>))"
        unfolding balance_loop using True pe'(1) by simp
      moreover have "stands_for W A K U (skip_tx (s1\<lparr>wal := (wal s1)\<lparr>pendingTx := pe'\<rparr>\<rparr>)) (ledger_step env W K h L)"
        using False True reps sp'(2) pe'(2) b sub h(1,3) unfolding stands_for_def
        by (intro conjI exI [of _ sp'] exI [of _ iv] exI [of _ pe'] exI [of _ us])
          (simp_all add: skip_tx_def ledger_step_def s1_def Let_def w)
      ultimately show ?thesis by blast
    next
      case ok: False
      have "ledger_step env W K h L = settle (txs W) K h L1"
        using False ok by (auto simp: ledger_step_def L1_def Let_def)
      then show ?thesis using accept_tx_settles [OF R1 W h(1,2)] ok unfolding balance_loop by auto
    qed
  qed
qed

section \<open>The whole computation\<close>

text \<open>
  A wallet of which the loop can be computed: the hash tables are sound, every transaction
  of the list can be looked up, and nothing is larger than the tables can hold.
\<close>

definition wallet_ok :: "BRWallet \<Rightarrow> UInt256 set \<Rightarrow> UInt160 set \<Rightarrow> bool" where
  "wallet_ok w A K \<longleftrightarrow>
     tx_set.rep (allTx w) A \<and> pkh_set.rep (allPKH w) K \<and>
     (\<exists>S I P M. utxo_set.rep (spentOutputs w) S \<and> tx_set.rep (invalidTx w) I \<and> tx_set.rep (pendingTx w) P \<and> pkh_set.rep (usedPKH w) M) \<and>
     set (transactions w) \<subseteq> A \<and> (\<forall>h \<in> set (transactions w). outs_ok w h) \<and>
     card A < 2609407362 \<and> card K < 2609407362 \<and> card (\<Union>h \<in> set (transactions w). inputs_of (txs w h)) < 2609407362"

lemma length_hist: "length (hist (fold (ledger_step env w K) ts L)) = length (hist L) + length ts"
proof (induction ts arbitrary: L)
  case (Cons h ts)
  have "length (hist (ledger_step env w K h L)) = Suc (length (hist L))"
    by (simp add: ledger_step_def settle_def Let_def)
  then show ?case using Cons by simp
qed simp

lemma UpdateBalance_ledger:
  assumes "wallet_ok w A K"
  shows "\<exists>sp iv pe us. BRWalletUpdateBalance env w = Some (w\<lparr>
      utxos := unspent (ledger_of env w K (transactions w)), balanceHist := hist (ledger_of env w K (transactions w)),
      spentOutputs := sp, invalidTx := iv, pendingTx := pe, usedPKH := us, totalSent := sent (ledger_of env w K (transactions w)),
      totalReceived := received_total (ledger_of env w K (transactions w)),
      balance := value_of (txs w) (unspent (ledger_of env w K (transactions w)))\<rparr>) \<and>
    utxo_set.rep sp (spent (ledger_of env w K (transactions w))) \<and> tx_set.rep iv (invalid (ledger_of env w K (transactions w))) \<and>
    tx_set.rep pe (pending (ledger_of env w K (transactions w))) \<and> pkh_set.rep us (used (ledger_of env w K (transactions w)))"
  (is "\<exists>sp iv pe us. BRWalletUpdateBalance env w = Some (?w' sp iv pe us) \<and> ?reps sp iv pe us")
proof -
  let ?U = "\<Union>h \<in> set (transactions w). inputs_of (txs w h)" and ?L = "ledger_of env w K (transactions w)"
  let ?cleared = "w\<lparr>utxos := [], balanceHist := [], spentOutputs := BRSetClear (spentOutputs w),
    invalidTx := BRSetClear (invalidTx w), pendingTx := BRSetClear (pendingTx w), usedPKH := BRSetClear (usedPKH w),
    totalSent := 0, totalReceived := 0\<rparr>"
  let ?start = "\<lparr>wal = ?cleared, bal = 0, prevBal = 0\<rparr>"
  let ?empty = "\<lparr>spent = {}, invalid = {}, pending = {}, used = {}, unspent = [], hist = [], sent = 0, received_total = 0\<rparr>"
  have ok: "tx_set.rep (allTx w) A" "pkh_set.rep (allPKH w) K" "card K < 2609407362" "card A < 2609407362" "card ?U < 2609407362"
    "set (transactions w) \<subseteq> A" "\<forall>h \<in> set (transactions w). outs_ok w h"
    using assms by (simp_all add: wallet_ok_def)
  obtain S I P M where sets: "utxo_set.rep (spentOutputs w) S" "tx_set.rep (invalidTx w) I" "tx_set.rep (pendingTx w) P" "pkh_set.rep (usedPKH w) M"
    using assms unfolding wallet_ok_def by blast
  have U: "finite ?U" by (simp add: inputs_of_def)
  have R0: "stands_for w A K ?U ?start ?empty"
    using utxo_set.rep_clear [OF sets(1)] tx_set.rep_clear [OF sets(2)] tx_set.rep_clear [OF sets(3)] pkh_set.rep_clear [OF sets(4)]
    unfolding stands_for_def
    by (intro conjI exI [of _ "BRSetClear (spentOutputs w)"] exI [of _ "BRSetClear (invalidTx w)"]
        exI [of _ "BRSetClear (pendingTx w)"] exI [of _ "BRSetClear (usedPKH w)"]) simp_all
  have "\<exists>s'. for_each (transactions w) (update_tx env) ?start = Some s' \<and> stands_for w A K ?U s' ?L"
    unfolding ledger_of_def
  proof (rule for_each_refines [where R = "stands_for w A K ?U" and step = "ledger_step env w K", OF R0])
    fix h s L assume h: "h \<in> set (transactions w)" and R: "stands_for w A K ?U s L"
    have "h \<in> A" "outs_ok w h" "inputs_of (txs w h) \<subseteq> ?U" using h ok(6,7) by auto
    from update_tx_step [OF R ok(1-3) U ok(5,4) this]
    show "\<exists>s'. update_tx env h s = Some s' \<and> stands_for w A K ?U s' (ledger_step env w K h L)" .
  qed
  then obtain s' where s': "for_each (transactions w) (update_tx env) ?start = Some s'" "stands_for w A K ?U s' ?L" by (elim exE conjE)
  then obtain sp iv pe us where w': "wal s' = w\<lparr>utxos := unspent ?L, balanceHist := hist ?L, spentOutputs := sp, invalidTx := iv,
      pendingTx := pe, usedPKH := us, totalSent := sent ?L, totalReceived := received_total ?L\<rparr>" "bal s' = value_of (txs w) (unspent ?L)"
    and reps: "utxo_set.rep sp (spent ?L)" "tx_set.rep iv (invalid ?L)" "tx_set.rep pe (pending ?L)" "pkh_set.rep us (used ?L)"
    unfolding stands_for_def by blast
  have "length (hist ?L) = length (transactions w)" by (simp add: ledger_of_def length_hist)
  then have "BRWalletUpdateBalance env w = Some (?w' sp iv pe us)"
    using s'(1) by (simp add: BRWalletUpdateBalance_def Let_def w')
  then show ?thesis using reps by blast
qed

end
