(* ===== verification/WalletBalance_Correct.thy ===== *)
theory WalletBalance_Correct
  imports Wallet_Correct
begin

text \<open>
  What the ledger of \<open>Wallet_Correct\<close> means for the wallet: which outputs are unspent, how
  the totals and the history relate to the balance, and what a transaction that is held
  back does.
\<close>

unbundle bit_operations_syntax

section \<open>The ledger after a list of transactions\<close>

lemma ledger_step_cases:
  obtains (invalid) "blockHeight (txs w h) = TX_UNCONFIRMED" "conflicts (txs w h) L"
      "ledger_step env w K h L = L\<lparr>invalid := insert h (invalid L), hist := hist L @ [value_of (txs w) (unspent L)]\<rparr>"
    | (pending) "\<not> (blockHeight (txs w h) = TX_UNCONFIRMED \<and> conflicts (txs w h) L)"
      "blockHeight (txs w h) = TX_UNCONFIRMED" "held_back env (w_blockHeight w) (txs w h) (pending L)"
      "ledger_step env w K h L = L\<lparr>spent := spent L \<union> inputs_of (txs w h), pending := insert h (pending L),
         hist := hist L @ [value_of (txs w) (unspent L)]\<rparr>"
    | (accepted) "\<not> (blockHeight (txs w h) = TX_UNCONFIRMED \<and> conflicts (txs w h) L)"
      "\<not> (blockHeight (txs w h) = TX_UNCONFIRMED \<and> held_back env (w_blockHeight w) (txs w h) (pending L))"
      "ledger_step env w K h L = settle (txs w) K h (L\<lparr>spent := spent L \<union> inputs_of (txs w h)\<rparr>)"
proof (cases "blockHeight (txs w h) = TX_UNCONFIRMED \<and> conflicts (txs w h) L")
  case True
  then show thesis by (intro invalid) (simp_all add: ledger_step_def)
next
  case False
  then have *: "ledger_step env w K h L =
    (if blockHeight (txs w h) = TX_UNCONFIRMED \<and> held_back env (w_blockHeight w) (txs w h) (pending L)
     then L\<lparr>spent := spent L \<union> inputs_of (txs w h), pending := insert h (pending L),
       hist := hist L @ [value_of (txs w) (unspent L)]\<rparr>
     else settle (txs w) K h (L\<lparr>spent := spent L \<union> inputs_of (txs w h)\<rparr>))"
    by (simp only: ledger_step_def Let_def if_False) simp
  show thesis
  proof (cases "blockHeight (txs w h) = TX_UNCONFIRMED \<and> held_back env (w_blockHeight w) (txs w h) (pending L)")
    case True
    then show thesis using False * by (intro pending) simp_all
  next
    case nh: False
    then show thesis using False * by (intro accepted) auto
  qed
qed

text \<open>The outputs of the transactions \<open>H\<close> that are paid to the wallet.\<close>

definition owned :: "(UInt256 \<Rightarrow> BRTransaction) \<Rightarrow> UInt160 set \<Rightarrow> UInt256 set \<Rightarrow> BRUTXO set" where
  "owned T K H = (\<Union>h \<in> H. set (tx_utxos K h (enumerate 0 (outputs (T h)))))"

definition accepted :: "UInt256 list \<Rightarrow> ledger \<Rightarrow> UInt256 set" where
  "accepted ts L = set ts - (invalid L \<union> pending L)"

definition ledger_inv :: "BRWallet \<Rightarrow> UInt160 set \<Rightarrow> UInt256 list \<Rightarrow> ledger \<Rightarrow> bool" where
  "ledger_inv w K ts L \<longleftrightarrow>
     invalid L \<union> pending L \<subseteq> set ts \<and> spent L = (\<Union>h \<in> set ts - invalid L. inputs_of (txs w h)) \<and>
     set (unspent L) \<subseteq> owned (txs w) K (accepted ts L) \<and> owned (txs w) K (accepted ts L) - spent L \<subseteq> set (unspent L) \<and>
     distinct (unspent L) \<and> received_total L - sent L = value_of (txs w) (unspent L) \<and>
     length (hist L) = length ts \<and> (ts \<noteq> [] \<longrightarrow> last (hist L) = value_of (txs w) (unspent L))"

lemma u_hash_tx_utxos: "u \<in> set (tx_utxos K h outs) \<Longrightarrow> u_hash u = h"
  by (auto simp: tx_utxos_def)

lemma distinct_tx_utxos:
  assumes "length outs < 2 ^ 32"
  shows "distinct (tx_utxos K h (enumerate 0 outs))"
proof -
  have "inj_on (\<lambda>(j, out). \<lparr>u_hash = h, u_n = word_of_nat j\<rparr>) (set (enumerate 0 outs))"
  proof (rule inj_onI)
    fix x y assume x: "x \<in> set (enumerate 0 outs)" and y: "y \<in> set (enumerate 0 outs)"
      and eq: "(\<lambda>(j, out). \<lparr>u_hash = h, u_n = word_of_nat j\<rparr>) x = (\<lambda>(j, out). \<lparr>u_hash = h, u_n = word_of_nat j\<rparr>) y"
    have "unat (word_of_nat (fst x) :: u32) = fst x" "unat (word_of_nat (fst y) :: u32) = fst y"
      using x y assms by (simp_all add: in_set_enumerate_eq unat_of_nat_small)
    moreover have "(word_of_nat (fst x) :: u32) = word_of_nat (fst y)" using eq by (simp add: case_prod_beta)
    ultimately have "fst x = fst y" by metis
    then show "x = y" using x y by (simp add: in_set_enumerate_eq prod_eq_iff)
  qed
  then have "inj_on (\<lambda>(j, out). \<lparr>u_hash = h, u_n = word_of_nat j\<rparr>) (set (filter (\<lambda>(j, out). own K out) (enumerate 0 outs)))"
    by (rule inj_on_subset) auto
  then show ?thesis unfolding tx_utxos_def by (simp add: distinct_map)
qed

lemma owned_insert: "owned T K (insert h H) = set (tx_utxos K h (enumerate 0 (outputs (T h)))) \<union> owned T K H"
  by (auto simp: owned_def)

lemma owned_hash: "u \<in> owned T K H \<Longrightarrow> u_hash u \<in> H"
  by (auto simp: owned_def dest: u_hash_tx_utxos)

text \<open>A transaction that is not accepted adds nothing but its mark and its inputs.\<close>

lemma not_accepted_inv:
  assumes inv: "ledger_inv w K ts L" and h: "h \<notin> set ts" "h \<in> iv \<union> pe"
    and marks: "iv \<union> pe = insert h (invalid L \<union> pending L)" "invalid L \<subseteq> iv" "iv \<subseteq> insert h (invalid L)"
    and sp: "sp = spent L \<union> (if h \<in> iv then {} else inputs_of (txs w h))"
  shows "ledger_inv w K (ts @ [h]) (L\<lparr>spent := sp, invalid := iv, pending := pe, hist := hist L @ [value_of (txs w) (unspent L)]\<rparr>)"
proof -
  let ?L = "L\<lparr>spent := sp, invalid := iv, pending := pe, hist := hist L @ [value_of (txs w) (unspent L)]\<rparr>"
  have acc: "accepted (ts @ [h]) ?L = accepted ts L" using h marks(1) by (auto simp: accepted_def)
  have "sp = (\<Union>h \<in> set (ts @ [h]) - iv. inputs_of (txs w h))"
  proof (cases "h \<in> iv")
    case True
    then have "set (ts @ [h]) - iv = set ts - invalid L" using marks(2,3) h(1) by auto
    then show ?thesis using True inv sp by (simp add: ledger_inv_def)
  next
    case False
    then have "set (ts @ [h]) - iv = insert h (set ts - invalid L)" using marks(2,3) h(1) by auto
    then show ?thesis using False inv sp by (auto simp: ledger_inv_def)
  qed
  moreover have "owned (txs w) K (accepted ts L) - sp \<subseteq> set (unspent L)" using inv sp unfolding ledger_inv_def by blast
  moreover have "iv \<union> pe \<subseteq> set (ts @ [h])" using inv marks(1) by (auto simp: ledger_inv_def)
  ultimately show ?thesis using inv unfolding ledger_inv_def acc by simp
qed

lemma settle_inv:
  assumes inv: "ledger_inv w K ts L" and h: "h \<notin> set ts" "outs_ok w h"
  shows "ledger_inv w K (ts @ [h]) (settle (txs w) K h (L\<lparr>spent := spent L \<union> inputs_of (txs w h)\<rparr>))"
proof -
  let ?new = "tx_utxos K h (enumerate 0 (outputs (txs w h)))" and ?sp = "spent L \<union> inputs_of (txs w h)"
  let ?us = "filter (\<lambda>u. u \<notin> ?sp) (unspent L @ ?new)"
  let ?v = "value_of (txs w) (unspent L)" and ?v' = "value_of (txs w) ?us"
  let ?L = "settle (txs w) K h (L\<lparr>spent := ?sp\<rparr>)"
  have fields: "invalid ?L = invalid L" "pending ?L = pending L" "spent ?L = ?sp" "unspent ?L = ?us" "hist ?L = hist L @ [?v']"
    "received_total ?L = (if ?v < ?v' then received_total L + (?v' - ?v) else received_total L)"
    "sent ?L = (if ?v' < ?v then sent L + (?v - ?v') else sent L)"
    by (simp_all add: settle_def Let_def)
  have marks: "h \<notin> invalid L" "h \<notin> pending L" using inv h(1) by (auto simp: ledger_inv_def)
  then have acc: "accepted (ts @ [h]) ?L = insert h (accepted ts L)" by (auto simp: accepted_def fields)
  have "received_total ?L - sent ?L = ?v'"
  proof -
    have *: "received_total L = ?v + sent L" using inv by (simp add: ledger_inv_def algebra_simps)
    consider "?v < ?v'" | "?v' < ?v" | "?v = ?v'" by fastforce
    then show ?thesis using * by cases (auto simp: fields)
  qed
  moreover have "distinct ?us"
  proof -
    have "u \<notin> set (unspent L)" if "u \<in> set ?new" for u
      using that inv h(1) owned_hash [of u "txs w" K "accepted ts L"] u_hash_tx_utxos [OF that]
      by (auto simp: ledger_inv_def accepted_def)
    then have "distinct (unspent L @ ?new)"
      using inv distinct_tx_utxos [of "outputs (txs w h)" K h] h(2) by (auto simp: ledger_inv_def outs_ok_def)
    then show ?thesis by (rule distinct_filter)
  qed
  moreover have "set ?us \<subseteq> owned (txs w) K (insert h (accepted ts L))" using inv by (auto simp: ledger_inv_def owned_insert)
  moreover have "owned (txs w) K (insert h (accepted ts L)) - ?sp \<subseteq> set ?us" using inv by (auto simp: ledger_inv_def owned_insert)
  moreover have "?sp = (\<Union>h \<in> set (ts @ [h]) - invalid L. inputs_of (txs w h))" using inv marks by (auto simp: ledger_inv_def)
  moreover have "invalid L \<union> pending L \<subseteq> set (ts @ [h])" "length (hist L) = length ts" using inv by (auto simp: ledger_inv_def)
  ultimately show ?thesis unfolding ledger_inv_def acc fields(1-5) by (simp add: fields)
qed

lemma ledger_of_inv:
  assumes "distinct ts" and "\<forall>h \<in> set ts. outs_ok w h"
  shows "ledger_inv w K ts (ledger_of env w K ts)"
  using assms
proof (induction ts rule: rev_induct)
  case Nil
  show ?case by (simp add: ledger_inv_def ledger_of_def accepted_def owned_def)
next
  case (snoc h ts)
  let ?L = "ledger_of env w K ts"
  have IH: "ledger_inv w K ts ?L" and h: "h \<notin> set ts" "outs_ok w h" using snoc by auto
  have "ledger_of env w K (ts @ [h]) = ledger_step env w K h ?L" by (simp add: ledger_of_def)
  moreover have "ledger_inv w K (ts @ [h]) (ledger_step env w K h ?L)"
  proof (cases rule: ledger_step_cases [of w h ?L env K])
    case invalid
    show ?thesis unfolding invalid(3)
      using not_accepted_inv [OF IH h(1), of "insert h (invalid ?L)" "pending ?L" "spent ?L"] by auto
  next
    case pending
    have "h \<notin> ledger.invalid ?L" using IH h(1) by (auto simp: ledger_inv_def)
    then show ?thesis unfolding pending(4)
      using not_accepted_inv [OF IH h(1), of "ledger.invalid ?L" "insert h (ledger.pending ?L)" "spent ?L \<union> inputs_of (txs w h)"]
      by auto
  next
    case accepted
    then show ?thesis using settle_inv [OF IH h] by simp
  qed
  ultimately show ?case by simp
qed

section \<open>The marks and the sweep\<close>

text \<open>
  Which transactions of a list are invalid and which are held back, without the ledger: an
  unconfirmed transaction is invalid when it spends what an earlier one spends that is not
  invalid, or an output of an earlier invalid one; otherwise it is held back for its size, its
  outputs, its locks or an earlier transaction that is held back.
\<close>

definition clashes :: "BRWallet \<Rightarrow> UInt256 set \<Rightarrow> UInt256 list \<Rightarrow> UInt256 \<Rightarrow> bool" where
  "clashes w I hs h \<longleftrightarrow> blockHeight (txs w h) = TX_UNCONFIRMED \<and>
     (\<exists>i \<in> set (inputs (txs w h)). utxo_of_input i \<in> (\<Union>g \<in> set hs - I. inputs_of (txs w g)) \<or> in_txHash i \<in> I \<inter> set hs)"

definition marked :: "wallet_env \<Rightarrow> BRWallet \<Rightarrow> UInt256 list \<Rightarrow> UInt256 set \<Rightarrow> UInt256 set \<Rightarrow> bool" where
  "marked env w ts I P \<longleftrightarrow> I \<union> P \<subseteq> set ts \<and>
     (\<forall>hs h gs. ts = hs @ h # gs \<longrightarrow>
        (h \<in> I \<longleftrightarrow> clashes w I hs h) \<and>
        (h \<in> P \<longleftrightarrow> h \<notin> I \<and> blockHeight (txs w h) = TX_UNCONFIRMED \<and>
           held_back env (w_blockHeight w) (txs w h) (P \<inter> set hs)))"

text \<open>
  The outputs that are left: those of the other transactions that are paid to the wallet, in
  their order, less what has been spent when the last of them is reached.
\<close>

definition swept :: "BRWallet \<Rightarrow> UInt256 list \<Rightarrow> UInt256 set \<Rightarrow> UInt256 set \<Rightarrow> BRUTXO set" where
  "swept w ts I P = (\<Union>h \<in> set (rev (dropWhile (\<lambda>h. h \<in> I \<union> P) (rev ts))) - I. inputs_of (txs w h))"

definition left_over :: "BRWallet \<Rightarrow> UInt160 set \<Rightarrow> UInt256 list \<Rightarrow> UInt256 set \<Rightarrow> UInt256 set \<Rightarrow> BRUTXO list" where
  "left_over w K ts I P = filter (\<lambda>u. u \<notin> swept w ts I P)
     (concat (map (\<lambda>h. tx_utxos K h (enumerate 0 (outputs (txs w h)))) (filter (\<lambda>h. h \<notin> I \<union> P) ts)))"

lemma marked_snoc:
  assumes m: "marked env w ts I P" and h: "h \<notin> set ts" and sub: "I \<subseteq> I'" "I' \<subseteq> insert h I" "P \<subseteq> P'" "P' \<subseteq> insert h P"
    and last: "h \<in> I' \<longleftrightarrow> clashes w I ts h"
      "h \<in> P' \<longleftrightarrow> h \<notin> I' \<and> blockHeight (txs w h) = TX_UNCONFIRMED \<and> held_back env (w_blockHeight w) (txs w h) P"
  shows "marked env w (ts @ [h]) I' P'"
proof -
  have old: "I \<union> P \<subseteq> set ts" using m by (simp add: marked_def)
  have same: "set bs - I' = set bs - I" "I' \<inter> set bs = I \<inter> set bs" "P' \<inter> set bs = P \<inter> set bs" if "set bs \<subseteq> set ts" for bs
    using that sub h by auto
  have cl: "clashes w I' bs g = clashes w I bs g" if "set bs \<subseteq> set ts" for bs g
    using same [OF that] by (simp add: clashes_def)
  have "(g \<in> I' \<longleftrightarrow> clashes w I' bs g) \<and>
      (g \<in> P' \<longleftrightarrow> g \<notin> I' \<and> blockHeight (txs w g) = TX_UNCONFIRMED \<and> held_back env (w_blockHeight w) (txs w g) (P' \<inter> set bs))"
    if split: "ts @ [h] = bs @ g # as" for bs g as
  proof (cases as rule: rev_cases)
    case Nil
    then have "bs = ts" "g = h" using split by simp_all
    moreover have "P' \<inter> set ts = P" using same(3) [of ts] old by auto
    ultimately show ?thesis using last cl [of ts h] by simp
  next
    case (snoc as' x)
    then have ts: "ts = bs @ g # as'" using split by simp
    then have "g \<noteq> h" using h by auto
    then have "g \<in> I' \<longleftrightarrow> g \<in> I" "g \<in> P' \<longleftrightarrow> g \<in> P" using sub by auto
    moreover have "set bs \<subseteq> set ts" using ts by auto
    ultimately show ?thesis using m ts same(3) [of bs] cl [of bs g] unfolding marked_def by metis
  qed
  moreover have "I' \<union> P' \<subseteq> set (ts @ [h])" using old sub by auto
  ultimately show ?thesis unfolding marked_def by blast
qed

text \<open>A transaction with a mark leaves what is left as it is, another sweeps.\<close>

lemma left_over_marked:
  assumes "h \<in> I' \<union> P'" and "h \<notin> set ts" and "I' \<union> P' = insert h (I \<union> P)" and "I \<subseteq> I'" "I' \<subseteq> insert h I"
  shows "left_over w K (ts @ [h]) I' P' = left_over w K ts I P"
proof -
  have "dropWhile (\<lambda>h. h \<in> I' \<union> P') (rev ts) = dropWhile (\<lambda>h. h \<in> I \<union> P) (rev ts)"
    by (rule dropWhile_cong) (use assms in auto)
  moreover have "set (rev (dropWhile (\<lambda>h. h \<in> I \<union> P) (rev ts))) - I' = set (rev (dropWhile (\<lambda>h. h \<in> I \<union> P) (rev ts))) - I"
    using assms set_dropWhileD [of _ "\<lambda>h. h \<in> I \<union> P" "rev ts"] by (simp only: set_rev) blast
  ultimately have "swept w (ts @ [h]) I' P' = swept w ts I P" using assms(1) by (simp add: swept_def)
  moreover have "filter (\<lambda>h. h \<notin> I' \<union> P') (ts @ [h]) = filter (\<lambda>h. h \<notin> I \<union> P) ts"
    using assms by (auto intro: filter_cong)
  ultimately show ?thesis by (simp only: left_over_def)
qed

lemma swept_subset: "swept w ts I P \<subseteq> (\<Union>h \<in> set ts - I. inputs_of (txs w h))"
  using set_dropWhileD [of _ "\<lambda>h. h \<in> I \<union> P" "rev ts"] by (simp only: swept_def set_rev) blast

lemma left_over_snoc:
  assumes "h \<notin> I \<union> P"
  shows "left_over w K (ts @ [h]) I P = filter (\<lambda>u. u \<notin> (\<Union>g \<in> set (ts @ [h]) - I. inputs_of (txs w g)))
    (left_over w K ts I P @ tx_utxos K h (enumerate 0 (outputs (txs w h))))"
proof -
  have "swept w (ts @ [h]) I P = (\<Union>g \<in> set (ts @ [h]) - I. inputs_of (txs w g))"
    using assms by (auto simp: swept_def)
  moreover have "filter (\<lambda>u. u \<notin> (\<Union>g \<in> set (ts @ [h]) - I. inputs_of (txs w g))) (filter (\<lambda>u. u \<notin> swept w ts I P) us) =
      filter (\<lambda>u. u \<notin> (\<Union>g \<in> set (ts @ [h]) - I. inputs_of (txs w g))) us" for us
    using swept_subset [of w ts I P] by (auto intro!: filter_cong)
  ultimately show ?thesis using assms unfolding left_over_def by simp
qed

lemma ledger_of_marked:
  assumes "distinct ts" and "\<forall>h \<in> set ts. outs_ok w h"
  shows "marked env w ts (invalid (ledger_of env w K ts)) (pending (ledger_of env w K ts)) \<and>
    unspent (ledger_of env w K ts) = left_over w K ts (invalid (ledger_of env w K ts)) (pending (ledger_of env w K ts))"
  using assms
proof (induction ts rule: rev_induct)
  case Nil
  show ?case by (simp add: marked_def ledger_of_def left_over_def)
next
  case (snoc h ts)
  let ?L = "ledger_of env w K ts"
  have IH: "marked env w ts (invalid ?L) (pending ?L)" "unspent ?L = left_over w K ts (invalid ?L) (pending ?L)"
    and h: "h \<notin> set ts" using snoc by auto
  have inv: "ledger_inv w K ts ?L" using ledger_of_inv [of ts w K env] snoc.prems by simp
  have old: "h \<notin> invalid ?L" "h \<notin> pending ?L" and sub: "invalid ?L \<subseteq> set ts" and sp: "spent ?L = (\<Union>h \<in> set ts - invalid ?L. inputs_of (txs w h))"
    using inv h by (auto simp: ledger_inv_def)
  have cl: "clashes w (invalid ?L) ts h \<longleftrightarrow> blockHeight (txs w h) = TX_UNCONFIRMED \<and> conflicts (txs w h) ?L"
    using sub unfolding clashes_def conflicts_def sp by auto
  have L: "ledger_of env w K (ts @ [h]) = ledger_step env w K h ?L" by (simp add: ledger_of_def)
  show ?case
  proof (cases rule: ledger_step_cases [of w h ?L env K])
    case invalid
    have "marked env w (ts @ [h]) (insert h (ledger.invalid ?L)) (pending ?L)"
      by (rule marked_snoc [OF IH(1) h]) (use invalid(1,2) cl old in auto)
    moreover have "left_over w K (ts @ [h]) (insert h (ledger.invalid ?L)) (pending ?L) = unspent ?L"
      unfolding IH(2) by (rule left_over_marked) (use h in auto)
    ultimately show ?thesis unfolding L invalid(3) by simp
  next
    case pending
    have "marked env w (ts @ [h]) (invalid ?L) (insert h (ledger.pending ?L))"
      by (rule marked_snoc [OF IH(1) h]) (use pending(1-3) cl old in auto)
    moreover have "left_over w K (ts @ [h]) (invalid ?L) (insert h (ledger.pending ?L)) = unspent ?L"
      unfolding IH(2) by (rule left_over_marked) (use h in auto)
    ultimately show ?thesis unfolding L pending(4) by simp
  next
    case accepted
    have "marked env w (ts @ [h]) (invalid ?L) (pending ?L)"
      by (rule marked_snoc [OF IH(1) h]) (use accepted(1,2) cl old in auto)
    moreover have "unspent (ledger_step env w K h ?L) = left_over w K (ts @ [h]) (invalid ?L) (pending ?L)"
    proof -
      have "spent ?L \<union> inputs_of (txs w h) = (\<Union>g \<in> set (ts @ [h]) - invalid ?L. inputs_of (txs w g))"
        using old sp by auto
      then show ?thesis
        using left_over_snoc [of h "invalid ?L" "pending ?L" w K ts] old IH(2) unfolding accepted(3) by (simp add: settle_def Let_def)
    qed
    ultimately show ?thesis unfolding L accepted(3) by (simp add: settle_def Let_def)
  qed
qed

section \<open>The balance\<close>

text \<open>
  Claim C10.  The call returns, and leaves two sets: the invalid transactions, which are unconfirmed and
  spend what an earlier one spends or an output of an earlier invalid one, and the pending ones, which are held
  back.  The outputs counted are exactly the ones that the other transactions pay to the
  wallet, in their order, less those spent by a transaction that is not invalid and stands no
  later than the last of these others; no output is counted twice, and no output is lost that only an invalid
  transaction spends.  The balance is their sum, is what the totals say, and is the last of a
  history with one entry for each transaction.
\<close>

theorem UpdateBalance_balance:
  assumes "wallet_ok w A K" and "distinct (transactions w)"
  shows "\<exists>w' I P. BRWalletUpdateBalance env w = Some w' \<and>
    tx_set.rep (invalidTx w') I \<and> tx_set.rep (pendingTx w') P \<and> marked env w (transactions w) I P \<and>
    utxo_set.rep (spentOutputs w') (\<Union>h \<in> set (transactions w) - I. inputs_of (txs w h)) \<and>
    utxos w' = left_over w K (transactions w) I P \<and> distinct (utxos w') \<and>
    owned (txs w) K (set (transactions w) - (I \<union> P)) - (\<Union>h \<in> set (transactions w) - I. inputs_of (txs w h)) \<subseteq> set (utxos w') \<and>
    balance w' = (\<Sum>u \<leftarrow> utxos w'. amount_of (txs w) u) \<and> balance w' = totalReceived w' - totalSent w' \<and>
    length (balanceHist w') = length (transactions w) \<and> (transactions w \<noteq> [] \<longrightarrow> last (balanceHist w') = balance w')"
proof -
  define L where "L = ledger_of env w K (transactions w)"
  have outs: "\<forall>h \<in> set (transactions w). outs_ok w h" using assms(1) by (simp add: wallet_ok_def)
  have "ledger_inv w K (transactions w) L" unfolding L_def by (rule ledger_of_inv [OF assms(2) outs])
  then have inv: "spent L = (\<Union>h \<in> set (transactions w) - invalid L. inputs_of (txs w h))" "distinct (unspent L)"
    "owned (txs w) K (set (transactions w) - (invalid L \<union> pending L)) - spent L \<subseteq> set (unspent L)"
    "received_total L - sent L = value_of (txs w) (unspent L)" "length (hist L) = length (transactions w)"
    "transactions w \<noteq> [] \<longrightarrow> last (hist L) = value_of (txs w) (unspent L)"
    unfolding ledger_inv_def accepted_def by blast+
  have marks: "marked env w (transactions w) (invalid L) (pending L)" "unspent L = left_over w K (transactions w) (invalid L) (pending L)"
    using ledger_of_marked [OF assms(2) outs, of env K] unfolding L_def by blast+
  obtain sp iv pe us where w': "BRWalletUpdateBalance env w = Some (w\<lparr>utxos := unspent L, balanceHist := hist L,
      spentOutputs := sp, invalidTx := iv, pendingTx := pe, usedPKH := us, totalSent := sent L,
      totalReceived := received_total L, balance := value_of (txs w) (unspent L)\<rparr>)"
    and reps: "utxo_set.rep sp (spent L)" "tx_set.rep iv (invalid L)" "tx_set.rep pe (pending L)"
    using UpdateBalance_ledger [OF assms(1), of env] unfolding L_def [symmetric] by blast
  show ?thesis
    by (intro exI conjI, rule w')
      (use reps inv marks in \<open>simp_all add: value_of_def\<close>)
qed

section \<open>A transaction that is held back\<close>

lemma wallet_ok_prefix:
  assumes "wallet_ok w A K" and "transactions w = ts @ us"
  shows "wallet_ok (w\<lparr>transactions := ts\<rparr>) A K"
proof -
  have "card (\<Union>h \<in> set ts. inputs_of (txs w h)) \<le> card (\<Union>h \<in> set (transactions w). inputs_of (txs w h))"
    by (rule card_mono) (auto simp: assms(2) inputs_of_def)
  then show ?thesis using assms by (auto simp: wallet_ok_def outs_ok_def)
qed

lemma ledger_of_transactions: "ledger_of env (w\<lparr>transactions := ts\<rparr>) K us = ledger_of env w K us"
proof -
  have "ledger_step env (w\<lparr>transactions := ts\<rparr>) K = ledger_step env w K"
    by (intro ext) (simp add: ledger_step_def Let_def)
  then show ?thesis by (simp add: ledger_of_def)
qed

text \<open>
  When the last transaction is held back, its inputs are marked as spent but nothing is
  swept: the balance and the unspent outputs are those before it.
\<close>

theorem UpdateBalance_pending:
  assumes ok: "wallet_ok w A K" and ts: "transactions w = ts @ [h]" "h \<notin> set ts" "distinct ts"
    and w1: "BRWalletUpdateBalance env (w\<lparr>transactions := ts\<rparr>) = Some w1"
    and w2: "BRWalletUpdateBalance env w = Some w2" and held: "BRSetContains (pendingTx w2) h = Some True"
  shows "utxos w2 = utxos w1 \<and> balance w2 = balance w1 \<and>
    (\<forall>i \<in> set (inputs (txs w h)). BRSetContains (spentOutputs w2) (utxo_of_input i) = Some True)"
proof -
  define L1 L2 where "L1 = ledger_of env w K ts" and "L2 = ledger_of env w K (ts @ [h])"
  have L2: "L2 = ledger_step env w K h L1" by (simp add: L1_def L2_def ledger_of_def)
  have u1: "utxos w1 = unspent L1" "balance w1 = value_of (txs w) (unspent L1)"
    using UpdateBalance_ledger [OF wallet_ok_prefix [OF ok ts(1)], of env] w1 by (auto simp: ledger_of_transactions L1_def)
  have u2: "utxos w2 = unspent L2" "balance w2 = value_of (txs w) (unspent L2)"
    and reps: "utxo_set.rep (spentOutputs w2) (spent L2)" "tx_set.rep (pendingTx w2) (pending L2)"
    using UpdateBalance_ledger [OF ok, of env] w2 by (auto simp: ts L2_def)
  have "ledger_inv w K ts L1" unfolding L1_def
    using ledger_of_inv [OF ts(3)] ok by (auto simp: wallet_ok_def ts)
  then have "h \<notin> pending L1" using ts(2) by (auto simp: ledger_inv_def)
  moreover have "h \<in> pending L2" using held tx_set.rep_contains [OF reps(2)] by simp
  ultimately have "pending L2 \<noteq> pending L1" by blast
  then have "unspent L2 = unspent L1" "spent L2 = spent L1 \<union> inputs_of (txs w h)"
    unfolding L2 by (cases rule: ledger_step_cases [of w h L1 env K]; simp add: settle_def Let_def)+
  then show ?thesis using u1 u2 utxo_set.rep_contains [OF reps(1)] by (auto simp: inputs_of_def)
qed

section \<open>An example\<close>

text \<open>
  A wallet with one key, paid 9000 by the transaction 1, and the transaction 2, which sends
  5000 of it away and can be replaced when its sequence number is 0.
\<close>

definition example_pays :: "u64 \<Rightarrow> BRTxOutput" where
  "example_pays amount = \<lparr>out_address = [0x31], out_amount = amount,
     out_script = Some ([OP_DUP, OP_HASH160, 20] @ replicate 20 7 @ [OP_EQUALVERIFY, OP_CHECKSIG])\<rparr>"

definition example_txs :: "u32 \<Rightarrow> UInt256 \<Rightarrow> BRTransaction" where
  "example_txs sequence h =
     (if h = 2 then \<lparr>txHash = 2, wtxHash = 2, tx_version = 1, inputs = [\<lparr>in_txHash = 1, in_index = 0, in_address = [], in_amount = 9000, in_script = None, in_signature = Some [],
           in_witness = Some [], in_sequence = sequence\<rparr>],
        outputs = [example_pays 4000, \<lparr>out_address = [0x32], out_amount = 5000, out_script = None\<rparr>],
        lockTime = 0, blockHeight = TX_UNCONFIRMED, tx_timestamp = 0\<rparr>
      else \<lparr>txHash = h, wtxHash = h, tx_version = 1, inputs = [], outputs = [example_pays 9000], lockTime = 0,
        blockHeight = 100, tx_timestamp = 0\<rparr>)"

definition example_table :: "('a \<Rightarrow> nat) \<Rightarrow> ('a \<Rightarrow> 'a \<Rightarrow> bool) \<Rightarrow> 'a list \<Rightarrow> 'a BRSet" where
  "example_table h e xs = the (for_each xs (\<lambda>x s. map_option snd (BRSetAdd s (id x))) (BRSetNew h e 10))"

definition example_wallet :: "u32 \<Rightarrow> BRWallet" where
  "example_wallet sequence = \<lparr>balance = 0, totalSent = 0, totalReceived = 0, feePerKb = DEFAULT_FEE_PER_KB, balanceHist = [],
     w_blockHeight = 100, utxos = [], transactions = [1, 2], forkId = 0, internalChain = [],
     externalChain = [word_of_le (replicate 20 7)], allTx = example_table txKeyHash txKeyEq [1, 2],
     invalidTx = BRSetNew txKeyHash txKeyEq 10, pendingTx = BRSetNew txKeyHash txKeyEq 10,
     spentOutputs = BRSetNew BRUTXOHash BRUTXOEq 10, usedPKH = BRSetNew pkhHash pkhEq 10,
     allPKH = example_table pkhHash pkhEq [word_of_le (replicate 20 7)], txs = example_txs sequence,
     callbacks = \<lparr>on_balanceChanged = True, on_txAdded = True, on_txUpdated = True, on_txDeleted = True\<rparr>\<rparr>"

definition example_env :: wallet_env where
  "example_env = \<lparr>derive = (\<lambda>chain i. Some (ucast i)), moved = (\<lambda>chain n. False), now = 1000\<rparr>"

lemma example_tables:
  "card (set xs) < 2609407362 \<Longrightarrow> tx_set.rep (example_table txKeyHash txKeyEq xs) (set xs)"
  "card (set ks) < 2609407362 \<Longrightarrow> pkh_set.rep (example_table pkhHash pkhEq ks) (set ks)"
  using tx_set.rep_of_list [of id xs] pkh_set.rep_of_list [of id ks] by (simp_all add: example_table_def)

lemma example_wallet_ok: "wallet_ok (example_wallet sequence) {1, 2} {word_of_le (replicate 20 7)}"
proof -
  have "tx_set.rep (example_table txKeyHash txKeyEq [1, 2]) {1, 2}"
    "pkh_set.rep (example_table pkhHash pkhEq [word_of_le (replicate 20 7)]) {word_of_le (replicate 20 7)}"
    using example_tables(1) [of "[1, 2]"] example_tables(2) [of "[word_of_le (replicate 20 7)]"] by simp_all
  then show ?thesis
    using utxo_set.rep_new [of 10] tx_set.rep_new [of 10] pkh_set.rep_new [of 10]
    by (auto simp: wallet_ok_def example_wallet_def outs_ok_def example_txs_def inputs_of_def)
qed

lemma example_pkh: "pkh_of (example_pays amount) = Some (word_of_le (replicate 20 7))"
  by (simp add: pkh_of_def example_pays_def script_pkh_def) code_simp

abbreviation example_keys :: "UInt160 set" where "example_keys \<equiv> {word_of_le (replicate 20 7)}"

lemma example_own: "own example_keys (example_pays amount)" "out_amount (example_pays amount) = amount"
  by (simp_all add: own_def example_pkh) (simp_all add: example_pays_def)

lemma example_first:
  "settle (example_txs sequence) example_keys 1 (\<lparr>spent = {}, invalid = {}, pending = {}, used = {}, unspent = [], hist = [],
      sent = 0, received_total = 0\<rparr>) =
   \<lparr>spent = {}, invalid = {}, pending = {}, used = example_keys, unspent = [\<lparr>u_hash = 1, u_n = 0\<rparr>], hist = [9000],
      sent = 0, received_total = 9000\<rparr>"
proof -
  have "tx_utxos example_keys 1 (enumerate 0 (outputs (example_txs sequence 1))) = [\<lparr>u_hash = 1, u_n = 0\<rparr>]"
    by (simp add: tx_utxos_def example_txs_def example_own)
  moreover have "value_of (example_txs sequence) [\<lparr>u_hash = 1, u_n = 0\<rparr>] = 9000"
    by (simp add: amount_of_def example_txs_def example_own)
  moreover have "out_address (example_pays 9000) \<noteq> []" by (simp add: example_pays_def)
  ultimately show ?thesis
    by (simp add: settle_def Let_def) (auto simp: example_txs_def example_pkh)
qed

lemma example_ledger:
  "ledger_of example_env (example_wallet sequence) example_keys [1] =
   \<lparr>spent = {}, invalid = {}, pending = {}, used = example_keys, unspent = [\<lparr>u_hash = 1, u_n = 0\<rparr>], hist = [9000],
      sent = 0, received_total = 9000\<rparr>"
proof -
  have "txs (example_wallet sequence) = example_txs sequence" by (simp add: example_wallet_def)
  moreover have "blockHeight (example_txs sequence 1) \<noteq> TX_UNCONFIRMED" "inputs_of (example_txs sequence 1) = {}"
    by (simp_all add: example_txs_def TX_UNCONFIRMED_def inputs_of_def)
  ultimately show ?thesis by (simp add: ledger_of_def ledger_step_def Let_def example_first)
qed

lemma example_held:
  "held_back example_env 100 (example_txs sequence 2) {} \<longleftrightarrow> sequence < 0xfffffffe"
proof -
  have "BRTransactionVSize (example_txs sequence 2) \<le> TX_MAX_SIZE"
    by (simp add: BRTransactionVSize_def tx_sizes_def example_txs_def example_pays_def TX_MAX_SIZE_def input_size_def
        output_size_def is_p2wpkh_input_def array_of_def TX_INPUT_SIZE_def BRVarIntSize_def BRVarIntSet_def VAR_INT16_HEADER_def Let_def)
  moreover have "\<not> (\<exists>out \<in> set (outputs (example_txs sequence 2)). out_amount out < TX_MIN_OUTPUT_AMOUNT)"
    by (simp add: example_txs_def example_pays_def TX_MIN_OUTPUT_AMOUNT_def TX_FEE_PER_KB_def TX_OUTPUT_SIZE_def TX_INPUT_SIZE_def)
  ultimately show ?thesis
    by (auto simp: held_back_def example_txs_def example_env_def)
qed

lemma example_step:
  "ledger_of example_env (example_wallet sequence) example_keys [1, 2] =
   (if sequence < 0xfffffffe
    then \<lparr>spent = {\<lparr>u_hash = 1, u_n = 0\<rparr>}, invalid = {}, pending = {2}, used = example_keys,
      unspent = [\<lparr>u_hash = 1, u_n = 0\<rparr>], hist = [9000, 9000], sent = 0, received_total = 9000\<rparr>
    else \<lparr>spent = {\<lparr>u_hash = 1, u_n = 0\<rparr>}, invalid = {}, pending = {}, used = example_keys,
      unspent = [\<lparr>u_hash = 2, u_n = 0\<rparr>], hist = [9000, 4000], sent = 5000, received_total = 9000\<rparr>)"
proof -
  let ?T = "example_txs sequence"
  have w: "txs (example_wallet sequence) = ?T" "w_blockHeight (example_wallet sequence) = 100" by (simp_all add: example_wallet_def)
  have ins: "inputs_of (?T 2) = {\<lparr>u_hash = 1, u_n = 0\<rparr>}" "blockHeight (?T 2) = TX_UNCONFIRMED"
    by (simp_all add: inputs_of_def example_txs_def utxo_of_input_def)
  have new: "tx_utxos example_keys 2 (enumerate 0 (outputs (?T 2))) = [\<lparr>u_hash = 2, u_n = 0\<rparr>]"
    by (simp add: tx_utxos_def example_txs_def example_own) (simp add: own_def pkh_of_def script_pkh_def array_of_def BRScriptPKH_def)
  have val: "amount_of ?T \<lparr>u_hash = 1, u_n = 0\<rparr> = 9000" "amount_of ?T \<lparr>u_hash = 2, u_n = 0\<rparr> = 4000"
    by (simp_all add: amount_of_def example_txs_def example_own)
  have used: "example_keys \<union> {k \<in> example_keys. P k} = example_keys" for P by auto
  have "ledger_of example_env (example_wallet sequence) example_keys [1, 2] =
    ledger_step example_env (example_wallet sequence) example_keys 2 (ledger_of example_env (example_wallet sequence) example_keys [1])"
    by (simp add: ledger_of_def)
  also have "\<dots> = (if sequence < 0xfffffffe
    then \<lparr>spent = {\<lparr>u_hash = 1, u_n = 0\<rparr>}, invalid = {}, pending = {2}, used = example_keys,
      unspent = [\<lparr>u_hash = 1, u_n = 0\<rparr>], hist = [9000, 9000], sent = 0, received_total = 9000\<rparr>
    else \<lparr>spent = {\<lparr>u_hash = 1, u_n = 0\<rparr>}, invalid = {}, pending = {}, used = example_keys,
      unspent = [\<lparr>u_hash = 2, u_n = 0\<rparr>], hist = [9000, 4000], sent = 5000, received_total = 9000\<rparr>)"
    unfolding example_ledger ledger_step_def Let_def w ins conflicts_def
    by (simp add: settle_def Let_def new val example_held used) auto
  finally show ?thesis .
qed

lemma example_simps:
  "transactions (example_wallet sequence) = [1, 2]" "txs (example_wallet sequence) = example_txs sequence"
  "set (transactions (example_wallet sequence)) = {1, 2}"
  by (simp_all add: example_wallet_def)

lemma example_update:
  "\<exists>w'. BRWalletUpdateBalance example_env (example_wallet sequence) = Some w' \<and>
     utxos w' = (if sequence < 0xfffffffe then [\<lparr>u_hash = 1, u_n = 0\<rparr>] else [\<lparr>u_hash = 2, u_n = 0\<rparr>]) \<and>
     totalSent w' = (if sequence < 0xfffffffe then 0 else 5000) \<and> totalReceived w' = 9000 \<and>
     BRSetContains (pendingTx w') 2 = Some (sequence < 0xfffffffe)"
proof -
  let ?L = "ledger_of example_env (example_wallet sequence) example_keys [1, 2]"
  obtain sp iv pe us where w': "BRWalletUpdateBalance example_env (example_wallet sequence) = Some ((example_wallet sequence)\<lparr>utxos := unspent ?L,
      balanceHist := hist ?L, spentOutputs := sp, invalidTx := iv, pendingTx := pe, usedPKH := us, totalSent := sent ?L,
      totalReceived := received_total ?L, balance := value_of (example_txs sequence) (unspent ?L)\<rparr>)"
    and pe: "tx_set.rep pe (pending ?L)"
    using UpdateBalance_ledger [OF example_wallet_ok [of sequence], of example_env] unfolding example_simps by blast
  show ?thesis
    by (intro exI conjI, rule w') (use tx_set.rep_contains [OF pe] in \<open>simp_all add: example_step\<close>)
qed

theorem UpdateBalance_balance_witness:
  "\<exists>w'. BRWalletUpdateBalance example_env (example_wallet 0xffffffff) = Some w' \<and> utxos w' = [\<lparr>u_hash = 2, u_n = 0\<rparr>] \<and>
     balance w' = 4000 \<and> last (balanceHist w') = 4000"
proof -
  obtain w' where w': "BRWalletUpdateBalance example_env (example_wallet 0xffffffff) = Some w'" "utxos w' = [\<lparr>u_hash = 2, u_n = 0\<rparr>]"
    "totalSent w' = 5000" "totalReceived w' = 9000"
    using example_update [of "0xffffffff"] by auto
  then show ?thesis
    using UpdateBalance_balance [OF example_wallet_ok [of "0xffffffff"], of example_env] by (auto simp: example_simps)
qed

theorem UpdateBalance_pending_witness:
  "\<exists>w2. BRWalletUpdateBalance example_env (example_wallet 0) = Some w2 \<and> utxos w2 = [\<lparr>u_hash = 1, u_n = 0\<rparr>] \<and>
     BRSetContains (spentOutputs w2) \<lparr>u_hash = 1, u_n = 0\<rparr> = Some True"
proof -
  let ?w = "example_wallet 0"
  obtain w2 where w2: "BRWalletUpdateBalance example_env ?w = Some w2" "utxos w2 = [\<lparr>u_hash = 1, u_n = 0\<rparr>]"
    "BRSetContains (pendingTx w2) 2 = Some True"
    using example_update [of 0] by auto
  obtain w1 where w1: "BRWalletUpdateBalance example_env (?w\<lparr>transactions := [1]\<rparr>) = Some w1"
    using UpdateBalance_ledger [OF wallet_ok_prefix [OF example_wallet_ok [of 0], of "[1]" "[2]"], of example_env]
    by (auto simp: example_simps)
  have "\<forall>i \<in> set (inputs (txs ?w 2)). BRSetContains (spentOutputs w2) (utxo_of_input i) = Some True"
    using UpdateBalance_pending [OF example_wallet_ok [of 0], of "[1]" 2, OF _ _ _ w1 w2(1,3)] by (simp add: example_simps)
  then show ?thesis using w2 by (simp add: example_simps example_txs_def utxo_of_input_def)
qed

section \<open>The ledger is what the code computes\<close>

definition shows_ledger :: "BRWallet \<Rightarrow> ledger \<Rightarrow> BRWallet \<Rightarrow> bool" where
  "shows_ledger w L w' \<longleftrightarrow>
     (\<exists>sp iv pe us. w' = w\<lparr>utxos := unspent L, balanceHist := hist L, spentOutputs := sp, invalidTx := iv, pendingTx := pe,
        usedPKH := us, totalSent := sent L, totalReceived := received_total L, balance := value_of (txs w) (unspent L)\<rparr> \<and>
        utxo_set.rep sp (spent L) \<and> tx_set.rep iv (invalid L) \<and> tx_set.rep pe (pending L) \<and> pkh_set.rep us (used L))"

text \<open>
  Claim C2.  For a wallet with sound tables of which every listed transaction can be looked
  up, the computation of the balance returns, and the wallet it leaves shows the ledger that
  the fold over finite sets computes: it reads no memory out of bounds, however the hash
  tables are laid out.
\<close>

theorem UpdateBalance_refines:
  assumes "wallet_ok w A K"
  shows "\<exists>w'. BRWalletUpdateBalance env w = Some w' \<and> shows_ledger w (ledger_of env w K (transactions w)) w'"
  using UpdateBalance_ledger [OF assms, of env] unfolding shows_ledger_def by blast

theorem UpdateBalance_refines_witness:
  "\<exists>w'. BRWalletUpdateBalance example_env (example_wallet 0) = Some w' \<and>
     shows_ledger (example_wallet 0) \<lparr>spent = {\<lparr>u_hash = 1, u_n = 0\<rparr>}, invalid = {}, pending = {2}, used = example_keys,
       unspent = [\<lparr>u_hash = 1, u_n = 0\<rparr>], hist = [9000, 9000], sent = 0, received_total = 9000\<rparr> w'"
  using UpdateBalance_refines [OF example_wallet_ok [of 0], of example_env] by (simp add: example_simps example_step)

end
