(* ===== verification/WalletOrder_Correct.thy ===== *)
theory WalletOrder_Correct
  imports WalletBalance_Correct "HOL-Library.Multiset"
begin

text \<open>
  The order of the wallet's transactions: the comparison always answers when no transaction
  spends its own descendants, and inserting keeps the list sorted by block height.
\<close>

section \<open>When a transaction comes after another\<close>

inductive ascending :: "BRWallet \<Rightarrow> UInt256 set \<Rightarrow> BRTransaction \<Rightarrow> BRTransaction \<Rightarrow> bool" for w A where
  later: "blockHeight t2 < blockHeight t1 \<Longrightarrow> ascending w A t1 t2"
| direct: "blockHeight t1 = blockHeight t2 \<Longrightarrow> spends t1 t2 \<Longrightarrow> ascending w A t1 t2"
| through: "blockHeight t1 = blockHeight t2 \<Longrightarrow> \<not> spends t2 t1 \<Longrightarrow> i \<in> set (inputs t1) \<Longrightarrow> in_txHash i \<in> A \<Longrightarrow>
    ascending w A (txs w (in_txHash i)) t2 \<Longrightarrow> ascending w A t1 t2"

inductive_cases ascendingE: "ascending w A t1 t2"

lemma ascending_height: "ascending w A t1 t2 \<Longrightarrow> blockHeight t2 \<le> blockHeight t1"
  by (erule ascendingE) auto

text \<open>Each known transaction, with the known transactions it spends.\<close>

definition spend_order :: "BRWallet \<Rightarrow> UInt256 set \<Rightarrow> (UInt256 \<times> UInt256) set" where
  "spend_order w A = {(in_txHash i, h) | h i. h \<in> A \<and> i \<in> set (inputs (txs w h)) \<and> in_txHash i \<in> A}"

lemma finite_spend_order: "finite A \<Longrightarrow> finite (spend_order w A)"
  by (rule finite_subset [of _ "A \<times> A"]) (auto simp: spend_order_def)

lemma tx_ascending_unfold:
  assumes rep: "tx_set.rep (allTx w) A"
    and IH: "\<And>i. i \<in> set (inputs t1) \<Longrightarrow> in_txHash i \<in> A \<Longrightarrow>
      tx_ascending w (txs w (in_txHash i)) t2 = Some (ascending w A (txs w (in_txHash i)) t2)"
  shows "tx_ascending w t1 t2 = Some (ascending w A t1 t2)"
proof -
  have loop: "any_loop (\<lambda>i. do { t \<leftarrow> BRSetGet (allTx w) (in_txHash i);
      (case t of None \<Rightarrow> Some False | Some h \<Rightarrow> tx_ascending w (txs w h) t2) }) (inputs t1) =
    Some (\<exists>i \<in> set (inputs t1). in_txHash i \<in> A \<and> ascending w A (txs w (in_txHash i)) t2)"
    by (rule any_loop_total) (simp add: tx_set.rep_get [OF rep] IH)
  consider "blockHeight t2 < blockHeight t1" | "blockHeight t1 < blockHeight t2"
    | "blockHeight t1 = blockHeight t2" "spends t1 t2" | "blockHeight t1 = blockHeight t2" "\<not> spends t1 t2" "spends t2 t1"
    | "blockHeight t1 = blockHeight t2" "\<not> spends t1 t2" "\<not> spends t2 t1" by fastforce
  then show ?thesis
  proof cases
    case 1
    then show ?thesis by (subst tx_ascending.simps) (simp add: later)
  next
    case 2
    then have "\<not> ascending w A t1 t2" using ascending_height [of w A t1 t2] by auto
    then show ?thesis using 2 by (subst tx_ascending.simps) simp
  next
    case 3
    then show ?thesis by (subst tx_ascending.simps) (simp add: direct)
  next
    case 4
    then have "\<not> ascending w A t1 t2" by (auto elim: ascendingE)
    then show ?thesis using 4 by (subst tx_ascending.simps) simp
  next
    case 5
    then have "ascending w A t1 t2 \<longleftrightarrow> (\<exists>i \<in> set (inputs t1). in_txHash i \<in> A \<and> ascending w A (txs w (in_txHash i)) t2)"
      by (auto elim: ascendingE intro: through)
    then show ?thesis using 5 loop by (subst tx_ascending.simps) simp
  qed
qed

lemma tx_ascending_decides:
  assumes rep: "tx_set.rep (allTx w) A" and ac: "acyclic (spend_order w A)"
  shows "tx_ascending w t1 t2 = Some (ascending w A t1 t2)"
proof -
  have "wf (spend_order w A)"
    using finite_acyclic_wf [OF finite_spend_order ac] tx_set.rep_finite [OF rep] by blast
  then have "h \<in> A \<longrightarrow> tx_ascending w (txs w h) t2 = Some (ascending w A (txs w h) t2)" for h
  proof (induction h rule: wf_induct_rule)
    case (less h)
    show ?case
    proof (rule impI, rule tx_ascending_unfold [OF rep])
      fix i assume h: "h \<in> A" and i: "i \<in> set (inputs (txs w h))" "in_txHash i \<in> A"
      then have "(in_txHash i, h) \<in> spend_order w A" unfolding spend_order_def by blast
      from less [OF this] i(2)
      show "tx_ascending w (txs w (in_txHash i)) t2 = Some (ascending w A (txs w (in_txHash i)) t2)" by blast
    qed
  qed
  then have "in_txHash i \<in> A \<Longrightarrow> tx_ascending w (txs w (in_txHash i)) t2 = Some (ascending w A (txs w (in_txHash i)) t2)" for i
    by (rule mp)
  then show ?thesis by (rule tx_ascending_unfold [OF rep])
qed

section \<open>The comparison\<close>

lemma pays_total: "\<exists>b. pays tx k = Some b"
  unfolding pays_def
proof (rule exI, rule any_loop_total)
  fix out
  show "map_option (\<lambda>p. case p of None \<Rightarrow> False | Some k' \<Rightarrow> pkhEq k' k) (script_pkh (out_script out)) =
      Some (case pkh_of out of None \<Rightarrow> False | Some k' \<Rightarrow> pkhEq k' k)"
    using script_pkh_total [of "out_script out"] by (auto simp: pkh_of_def)
qed

lemma txChainIndex_total: "\<exists>i. txChainIndex tx chain = Some i"
proof -
  have "\<exists>r. chain_index tx chain n = Some r" for n
  proof (induction n)
    case (Suc n)
    then show ?case using pays_total [of tx "chain ! n"] by auto
  qed simp
  then show ?thesis by (simp add: txChainIndex_def)
qed

lemma TxCompare_heights:
  assumes "tx_set.rep (allTx w) A" and "acyclic (spend_order w A)"
  shows "\<exists>c. BRWalletTxCompare w t1 t2 = Some c \<and> (c > 0 \<longrightarrow> blockHeight t2 \<le> blockHeight t1) \<and>
    (c \<le> 0 \<longrightarrow> blockHeight t1 \<le> blockHeight t2) \<and> (ascending w A t1 t2 \<longrightarrow> c = 1)"
proof -
  note asc = tx_ascending_decides [OF assms]
  have neq: "blockHeight t1 = blockHeight t2" if "\<not> ascending w A t1 t2" "\<not> ascending w A t2 t1"
    using that later [of t1 t2 w A] later [of t2 t1 w A] by fastforce
  obtain i1 i2 e1 e2 where ci: "txChainIndex t1 (internalChain w) = Some i1" "txChainIndex t2 (internalChain w) = Some i2"
    "txChainIndex t1 (externalChain w) = Some e1" "txChainIndex t2 (externalChain w) = Some e2"
    using txChainIndex_total by meson
  consider "ascending w A t1 t2" | "\<not> ascending w A t1 t2" "ascending w A t2 t1"
    | "\<not> ascending w A t1 t2" "\<not> ascending w A t2 t1" by blast
  then show ?thesis
  proof cases
    case 1
    then show ?thesis using ascending_height by (simp add: BRWalletTxCompare_def BRWalletTxIsAscending_def asc)
  next
    case 2
    then show ?thesis using ascending_height by (simp add: BRWalletTxCompare_def BRWalletTxIsAscending_def asc)
  next
    case 3
    have "\<exists>c. BRWalletTxCompare w t1 t2 = Some c"
      using 3 by (auto simp: BRWalletTxCompare_def BRWalletTxIsAscending_def asc ci)
    then show ?thesis using neq [OF 3] 3(1) by auto
  qed
qed

section \<open>Inserting\<close>

lemma insert_loop_place:
  assumes "\<And>t. t \<in> set ts \<Longrightarrow> \<exists>c. cmp t = Some c" and "n \<le> length ts"
  shows "\<exists>k \<le> n. insert_loop cmp tx ts n = Some (take k ts @ tx # drop k ts) \<and>
    (\<forall>j. k \<le> j \<and> j < n \<longrightarrow> the (cmp (ts ! j)) > 0) \<and> (k > 0 \<longrightarrow> the (cmp (ts ! (k - 1))) \<le> 0)"
  using assms(2)
proof (induction n)
  case (Suc n)
  obtain c where c: "cmp (ts ! n) = Some c" using assms(1) [of "ts ! n"] Suc.prems by auto
  show ?case
  proof (cases "c > 0")
    case True
    obtain k where "k \<le> n" "insert_loop cmp tx ts n = Some (take k ts @ tx # drop k ts)"
      "\<forall>j. k \<le> j \<and> j < n \<longrightarrow> the (cmp (ts ! j)) > 0" "k > 0 \<longrightarrow> the (cmp (ts ! (k - 1))) \<le> 0"
      using Suc by auto
    then show ?thesis using c True by (intro exI [of _ k]) (auto simp: less_Suc_eq)
  next
    case False
    then show ?thesis using c by (intro exI [of _ "Suc n"]) auto
  qed
qed simp

abbreviation height :: "BRWallet \<Rightarrow> UInt256 \<Rightarrow> u32" where
  "height w h \<equiv> blockHeight (txs w h)"

lemma InsertTx_place:
  assumes rep: "tx_set.rep (allTx w) A" and ac: "acyclic (spend_order w A)"
  shows "\<exists>k. BRWalletInsertTx w tx = Some (w\<lparr>transactions := take k (transactions w) @ tx # drop k (transactions w)\<rparr>) \<and>
    (\<forall>t \<in> set (drop k (transactions w)). the (BRWalletTxCompare w (txs w t) (txs w tx)) > 0) \<and>
    (k > 0 \<longrightarrow> k \<le> length (transactions w) \<and> the (BRWalletTxCompare w (txs w (transactions w ! (k - 1))) (txs w tx)) \<le> 0)"
proof -
  let ?ts = "transactions w"
  obtain k where k: "k \<le> length ?ts"
    "insert_loop (\<lambda>t. BRWalletTxCompare w (txs w t) (txs w tx)) tx ?ts (length ?ts) = Some (take k ?ts @ tx # drop k ?ts)"
    "\<forall>j. k \<le> j \<and> j < length ?ts \<longrightarrow> the (BRWalletTxCompare w (txs w (?ts ! j)) (txs w tx)) > 0"
    "k > 0 \<longrightarrow> the (BRWalletTxCompare w (txs w (?ts ! (k - 1))) (txs w tx)) \<le> 0"
    using insert_loop_place [of ?ts "\<lambda>t. BRWalletTxCompare w (txs w t) (txs w tx)" "length ?ts" tx] TxCompare_heights [OF rep ac]
    by blast
  then show ?thesis
    by (intro exI [of _ k]) (auto simp: BRWalletInsertTx_def in_set_conv_nth)
qed

lemma sorted_insert_at:
  assumes "sorted (map f xs)" and "\<forall>t \<in> set (drop k xs). f x \<le> f t" and "k > 0 \<longrightarrow> k \<le> length xs \<and> f (xs ! (k - 1)) \<le> f x"
  shows "sorted (map f (take k xs @ x # drop k xs))"
proof -
  have st: "sorted (map f (take k xs @ drop k xs))" using assms(1) by simp
  have "f t \<le> f x" if t: "t \<in> set (take k xs)" for t
  proof -
    obtain j where j: "j < k" "j < length xs" "t = xs ! j" using t by (auto simp: in_set_conv_nth)
    then have "f (xs ! j) \<le> f (xs ! (k - 1))"
      using sorted_nth_mono [OF assms(1), of j "k - 1"] assms(3) by auto
    moreover have "f (xs ! (k - 1)) \<le> f x" using assms(3) j(1) by blast
    ultimately show ?thesis using j(3) by simp
  qed
  then show ?thesis using st assms(2) by (auto simp: sorted_append simp del: append_take_drop_id)
qed

lemma InsertTx_sorted:
  assumes "tx_set.rep (allTx w) A" and "acyclic (spend_order w A)" and sorted: "sorted (map (height w) (transactions w))"
  shows "\<exists>ts. BRWalletInsertTx w tx = Some (w\<lparr>transactions := ts\<rparr>) \<and> sorted (map (height w) ts) \<and>
    mset ts = add_mset tx (mset (transactions w))"
proof -
  obtain k where k: "BRWalletInsertTx w tx = Some (w\<lparr>transactions := take k (transactions w) @ tx # drop k (transactions w)\<rparr>)"
    "\<forall>t \<in> set (drop k (transactions w)). the (BRWalletTxCompare w (txs w t) (txs w tx)) > 0"
    "k > 0 \<longrightarrow> k \<le> length (transactions w) \<and> the (BRWalletTxCompare w (txs w (transactions w ! (k - 1))) (txs w tx)) \<le> 0"
    using InsertTx_place [OF assms(1,2), of tx] by blast
  have c: "the (BRWalletTxCompare w t1 t2) > 0 \<Longrightarrow> blockHeight t2 \<le> blockHeight t1"
    "the (BRWalletTxCompare w t1 t2) \<le> 0 \<Longrightarrow> blockHeight t1 \<le> blockHeight t2" for t1 t2
    using TxCompare_heights [OF assms(1,2), of t1 t2] by auto
  have "sorted (map (height w) (take k (transactions w) @ tx # drop k (transactions w)))"
    by (rule sorted_insert_at [OF sorted]) (use k(2,3) c in auto)
  moreover have "mset (take k (transactions w) @ tx # drop k (transactions w)) = add_mset tx (mset (transactions w))"
    by simp (metis append_take_drop_id mset_append)
  ultimately show ?thesis using k(1) by blast
qed

section \<open>The order of the wallet's transactions\<close>

lemma example_acyclic: "acyclic (spend_order (example_wallet sequence) {1, 2})"
proof -
  have "spend_order (example_wallet sequence) {1, 2} \<subseteq> {(1, 2)}"
    by (auto simp: spend_order_def example_wallet_def example_txs_def)
  moreover have "acyclic {(1 :: UInt256, 2 :: UInt256)}"
    by (simp add: acyclic_insert) (simp add: acyclic_def)
  ultimately show ?thesis by (rule acyclic_subset [rotated])
qed

lemma example_rep: "tx_set.rep (allTx (example_wallet sequence)) {1, 2}"
  using example_wallet_ok [of sequence] by (simp add: wallet_ok_def)

text \<open>
  Claim C16.  The comparison of two transactions returns when no known transaction spends one of its
  own descendants, and says that the first comes later exactly when it is in a later block
  or, in the same block, spends the second directly or through transactions of that block,
  none of which the second spends.
\<close>

theorem TxIsAscending_decides:
  assumes "tx_set.rep (allTx w) A" and "acyclic (spend_order w A)"
  shows "BRWalletTxIsAscending w t1 t2 = Some (ascending w A t1 t2)"
  unfolding BRWalletTxIsAscending_def by (rule tx_ascending_decides [OF assms])

theorem TxIsAscending_decides_witness:
  "BRWalletTxIsAscending (example_wallet 0) ((example_txs 0 2)\<lparr>blockHeight := 100\<rparr>) (example_txs 0 1) = Some True"
proof -
  have "ascending (example_wallet 0) {1, 2} ((example_txs 0 2)\<lparr>blockHeight := 100\<rparr>) (example_txs 0 1)"
    by (rule direct) (simp_all add: example_txs_def spends_def)
  then show ?thesis using TxIsAscending_decides [OF example_rep [of 0] example_acyclic [of 0]] by simp
qed

text \<open>
  Claim C15.  Inserting a transaction into a list that is sorted by block height returns, adds exactly
  that transaction, and leaves the list sorted; those behind it compare as later than it and
  the one before it does not.
\<close>

theorem InsertTx_keeps_order:
  assumes "tx_set.rep (allTx w) A" and "acyclic (spend_order w A)" and "sorted (map (\<lambda>h. blockHeight (txs w h)) (transactions w))"
  shows "(\<exists>k. BRWalletInsertTx w tx = Some (w\<lparr>transactions := take k (transactions w) @ tx # drop k (transactions w)\<rparr>) \<and>
      (\<forall>t \<in> set (drop k (transactions w)). the (BRWalletTxCompare w (txs w t) (txs w tx)) > 0) \<and>
      (k > 0 \<longrightarrow> k \<le> length (transactions w) \<and> the (BRWalletTxCompare w (txs w (transactions w ! (k - 1))) (txs w tx)) \<le> 0)) \<and>
    (\<exists>ts. BRWalletInsertTx w tx = Some (w\<lparr>transactions := ts\<rparr>) \<and> sorted (map (\<lambda>h. blockHeight (txs w h)) ts) \<and>
      mset ts = add_mset tx (mset (transactions w)))"
  using InsertTx_place [OF assms(1,2)] InsertTx_sorted [OF assms] by blast

theorem InsertTx_keeps_order_witness:
  "\<exists>ts. BRWalletInsertTx ((example_wallet 0)\<lparr>transactions := [2]\<rparr>) 1 = Some ((example_wallet 0)\<lparr>transactions := ts\<rparr>) \<and>
     mset ts = {#1, 2#}"
proof -
  let ?w = "(example_wallet 0)\<lparr>transactions := [2]\<rparr>"
  have "tx_set.rep (allTx ?w) {1, 2}" using example_rep [of 0] by simp
  moreover have "spend_order ?w {1, 2} = spend_order (example_wallet 0) {1, 2}" by (simp add: spend_order_def)
  then have "acyclic (spend_order ?w {1, 2})" using example_acyclic [of 0] by simp
  ultimately show ?thesis using InsertTx_keeps_order [of ?w "{1, 2}" 1] by auto
qed

end
