(* ===== verification/WalletAddrs_Correct.thy ===== *)
theory WalletAddrs_Correct
  imports WalletTx WalletOrder_Correct Bech32_Correct
begin

text \<open>
  The wallet's chains of addresses: the addresses the wallet hands out are unused, their
  number is what was asked for, and the table of the wallet's key hashes holds both chains,
  whether or not growing a chain moved it.
\<close>

unbundle bit_operations_syntax

section \<open>The address of a key hash\<close>

lemma BRAddressFromHash160_fits:
  assumes "length h = 20" and "43 \<le> length buf"
  shows "\<exists>str. BRAddressFromHash160 h (Some buf) = Some (length str + 1, Some (str @ 0 # drop (length str + 1) buf)) \<and>
    0 \<notin> set str \<and> BRBech32Decode str = Some (bech32Prefix, 0 # 20 # h) \<and> length str = 42"
proof -
  define vals where "vals = b32_enc 0 0 h"
  define cks where "cks = b32_checksum (foldl pm_step (hrp_chk bech32Prefix) (0 # vals))"
  define str where "str = bech32Prefix @ 0x31 # map b32_char (0 # vals @ cks)"
  have "length vals = 32" using length_b32_enc [of 0 0 h] assms(1) by (simp add: vals_def)
  then have len: "length str = 42" by (simp add: str_def bech32Prefix_def cks_def)
  have hrp: "bech32Prefix \<noteq> []" "\<forall>c \<in> set bech32Prefix. 33 \<le> c \<and> c \<le> 126 \<and> \<not> isupper c"
    by (simp_all add: bech32Prefix_def isupper_def)
  have "length bech32Prefix + 8 + length (b32_enc 0 0 h) \<le> 90" using \<open>length vals = 32\<close> by (simp add: bech32Prefix_def vals_def)
  then have dec: "BRBech32Decode str = Some (bech32Prefix, 0 # 20 # h)"
    using decode_groups [OF hrp, of 0 h] assms(1) by (simp add: str_def vals_def cks_def)
  have enc: "BRBech32Encode bech32Prefix (0 # 20 # h) = Some (str @ [0])"
    using assms(1) \<open>length vals = 32\<close>
    by (simp add: BRBech32Encode_def Let_def vals_def [symmetric] cks_def str_def bech32Prefix_def isupper_def)
  have "unat v < 32" if "v \<in> set vals \<or> v \<in> set cks" for v
    using that b32_enc_digits checksum_digits by (auto simp: vals_def cks_def)
  then have "b32_char v \<noteq> 0" if "v \<in> set (0 # vals @ cks)" for v using that b32_char(2) [of v] by auto
  then have "0 \<notin> set (map b32_char (0 # vals @ cks))" unfolding set_map by (metis imageE)
  then have "0 \<notin> set str" by (simp add: str_def bech32Prefix_def)
  moreover have "rd h 0 20 = Some h" using assms(1) by (simp add: rd_def)
  then have "BRAddressFromHash160 h (Some buf) = Some (length str + 1, Some (str @ 0 # drop (length str + 1) buf))"
    using enc assms(2) len by (simp add: BRAddressFromHash160_def wr_def)
  ultimately show ?thesis using dec len by blast
qed

lemma wallet_address:
  assumes "75 \<le> length buf"
  shows "\<exists>str rest. BRWalletAddressFromHash160 w buf k = Some (str @ 0 # rest) \<and> length (str @ 0 # rest) = length buf \<and>
    0 \<notin> set str \<and> (forkId w \<noteq> 0 \<or> decode21 str = None \<longrightarrow> address_pkh str = Some k)"
proof -
  let ?h = "bytes_le 20 k"
  have h: "length ?h = 20" "UInt160Get ?h = Some k"
    by (simp_all add: UInt160Get_def word_of_le_bytes_le)
  show ?thesis
  proof (cases "forkId w = 0")
    case True
    obtain str where str: "BRAddressFromHash160 ?h (Some buf) = Some (length str + 1, Some (str @ 0 # drop (length str + 1) buf))"
      "0 \<notin> set str" "BRBech32Decode str = Some (bech32Prefix, 0 # 20 # ?h)" "length str = 42"
      using BRAddressFromHash160_fits [OF h(1), of buf] assms by auto
    then have "length (str @ 0 # drop (length str + 1) buf) = length buf" using assms by simp
    then show ?thesis using True str h
      by (intro exI [of _ str] exI [of _ "drop (length str + 1) buf"])
        (auto simp: BRWalletAddressFromHash160_def address_pkh_def BRAddressHash160_def)
  next
    case False
    define str where "str = b58_encoded ((BITCOIN_PUBKEY_ADDRESS # ?h) @ take 4 (BRSHA256_2 (BITCOIN_PUBKEY_ADDRESS # ?h)))"
    have enc: "BRAddressFromScriptPubKey ([OP_DUP, OP_HASH160, 20] @ ?h @ [OP_EQUALVERIFY, OP_CHECKSIG]) (Some buf) =
        Some (length str + 1, Some (str @ 0 # drop (length str + 1) buf))"
      using BRAddressFromScriptPubKey_scripts(1) [OF h(1), of "Some buf"] assms
        BRBase58CheckEncode_fits [of "BITCOIN_PUBKEY_ADDRESS # ?h" buf] h(1) by (simp add: pkh_script_def str_def)
    have "length str + 1 \<le> length buf"
      using length_b58_encoded_le [of "(BITCOIN_PUBKEY_ADDRESS # ?h) @ take 4 (BRSHA256_2 (BITCOIN_PUBKEY_ADDRESS # ?h))"] assms h(1)
      by (simp add: str_def)
    moreover have "decode21 str = Some (BITCOIN_PUBKEY_ADDRESS # ?h)"
      using decode21_encoded [of "BITCOIN_PUBKEY_ADDRESS # ?h" "[]"] h(1) by (simp add: str_def no_digit_first_def)
    moreover have "0 \<notin> set str" unfolding str_def by (rule b58_encoded_no_NUL)
    ultimately show ?thesis using False enc h
      by (intro exI [of _ str] exI [of _ "drop (length str + 1) buf"])
        (auto simp: BRWalletAddressFromHash160_def address_pkh_def BRAddressHash160_def)
  qed
qed

text \<open>The text in a buffer.\<close>

definition text_of :: "byte list \<Rightarrow> cstring" where
  "text_of buf = takeWhile (\<lambda>c. c \<noteq> 0) buf"

lemma text_of_prefix: "0 \<notin> set str \<Longrightarrow> text_of (str @ 0 # rest) = str"
  by (simp add: text_of_def takeWhile_append)

text \<open>A buffer with an address of a key hash.\<close>

definition holds_address :: "BRWallet \<Rightarrow> UInt160 \<Rightarrow> byte list \<Rightarrow> bool" where
  "holds_address w k buf \<longleftrightarrow> 0 \<in> set buf \<and>
     (forkId w \<noteq> 0 \<or> decode21 (text_of buf) = None \<longrightarrow> address_pkh (text_of buf) = Some k)"

lemma write_addrs_holds:
  assumes "off + length hs \<le> length addrs" and "\<forall>a \<in> set addrs. 75 \<le> length a"
  shows "\<exists>addrs'. write_addrs w off hs addrs = Some addrs' \<and> length addrs' = length addrs \<and> (\<forall>a \<in> set addrs'. 75 \<le> length a) \<and>
    (\<forall>j < length hs. holds_address w (hs ! j) (addrs' ! (off + j))) \<and>
    (\<forall>j < length addrs. j < off \<or> off + length hs \<le> j \<longrightarrow> addrs' ! j = addrs ! j)"
  using assms
proof (induction hs arbitrary: off addrs)
  case Nil
  then show ?case by (simp add: write_addrs_def)
next
  case (Cons h hs)
  have off: "off < length addrs" "75 \<le> length (addrs ! off)" using Cons.prems by simp_all
  obtain str rest where a: "BRWalletAddressFromHash160 w (addrs ! off) h = Some (str @ 0 # rest)"
    "length (str @ 0 # rest) = length (addrs ! off)" "0 \<notin> set str" "forkId w \<noteq> 0 \<or> decode21 str = None \<longrightarrow> address_pkh str = Some h"
    using wallet_address [OF off(2), of w h] by (elim exE conjE) (rule that)
  let ?addrs = "addrs[off := str @ 0 # rest]"
  have "holds_address w h (str @ 0 # rest)" using a(3,4) by (simp add: holds_address_def text_of_prefix)
  moreover have "\<forall>x \<in> set ?addrs. 75 \<le> length x" using Cons.prems(2) a(2) off by (auto dest!: subsetD [OF set_update_subset_insert])
  then obtain addrs' where "write_addrs w (Suc off) hs ?addrs = Some addrs'" "length addrs' = length addrs"
    "\<forall>a \<in> set addrs'. 75 \<le> length a" "\<forall>j < length hs. holds_address w (hs ! j) (addrs' ! (Suc off + j))"
    "\<forall>j < length addrs. j < Suc off \<or> Suc off + length hs \<le> j \<longrightarrow> addrs' ! j = ?addrs ! j"
    using Cons.IH [of "Suc off" ?addrs] Cons.prems(1) by auto
  moreover have "write_addrs w off (h # hs) addrs = write_addrs w (Suc off) hs ?addrs"
    using off a(1) by (simp add: write_addrs_def)
  ultimately show ?case using off
    by (intro exI [of _ addrs']) (auto simp: nth_Cons split: nat.split)
qed

section \<open>Growing a chain\<close>

text \<open>No key hash from \<open>i\<close> on is used, and the one before \<open>i\<close> is.\<close>

definition gap_at :: "UInt160 set \<Rightarrow> UInt160 list \<Rightarrow> nat \<Rightarrow> bool" where
  "gap_at M chain i \<longleftrightarrow> i \<le> length chain \<and> (\<forall>k \<in> set (drop i chain). k \<notin> M) \<and> (i > 0 \<longrightarrow> chain ! (i - 1) \<in> M)"

definition key_at :: "wallet_env \<Rightarrow> u32 \<Rightarrow> nat \<Rightarrow> UInt160" where
  "key_at env c j = the (derive env c (word_of_nat j))"

lemma unused_from_gap:
  assumes rep: "pkh_set.rep us M" and "n \<le> length chain" and "\<forall>k \<in> set (drop n chain). k \<notin> M"
  shows "\<exists>i \<le> n. unused_from us chain n = Some i \<and> gap_at M chain i"
  using assms(2,3)
proof (induction n)
  case 0
  then show ?case by (simp add: gap_at_def)
next
  case (Suc n)
  have d: "drop n chain = chain ! n # drop (Suc n) chain" using Suc.prems(1) by (simp add: Cons_nth_drop_Suc)
  show ?case
  proof (cases "chain ! n \<in> M")
    case True
    then show ?thesis using Suc.prems by (intro exI [of _ "Suc n"]) (simp add: pkh_set.rep_contains [OF rep] gap_at_def)
  next
    case False
    then obtain i where "i \<le> n" "unused_from us chain n = Some i" "gap_at M chain i"
      using Suc d by auto
    then show ?thesis using False by (intro exI [of _ i]) (simp add: pkh_set.rep_contains [OF rep])
  qed
qed

lemma extend_chain_gap:
  assumes rep: "pkh_set.rep us M" and total: "\<forall>j. derive env c j \<noteq> None"
    and fresh: "\<forall>j. N \<le> j \<and> j < 2 ^ 32 \<longrightarrow> key_at env c j \<notin> M"
    and bound: "N \<le> B" "B + unat gap \<le> 2 ^ 32"
    and inv: "gap_at M chain i" "i \<le> B"
  shows "\<exists>chain' i'. extend_chain env us c gap chain i = Some (chain', i') \<and> gap_at M chain' i' \<and>
    i' + unat gap \<le> length chain' \<and> chain' = chain @ map (key_at env c) [length chain..<length chain'] \<and>
    length chain \<le> length chain' \<and> (length chain' = length chain \<and> i' = i \<or> length chain' = i' + unat gap) \<and> i' \<le> B"
  using inv
proof (induction "B + unat gap - length chain" arbitrary: chain i rule: less_induct)
  case less
  show ?case
  proof (cases "i + unat gap > length chain")
    case False
    then show ?thesis using less.prems by (subst extend_chain.simps) (intro exI [of _ chain] exI [of _ i], simp)
  next
    case True
    let ?n = "length chain"
    define k where "k = key_at env c ?n"
    define i1 where "i1 = (if k \<in> M then ?n + 1 else i)"
    have n: "?n < 2 ^ 32" "?n < B + unat gap" using True less.prems(2) bound(2) by linarith+
    have k: "derive env c (word_of_nat ?n) = Some k" using total by (auto simp: k_def key_at_def)
    have "?n + 1 \<le> B" if "k \<in> M"
    proof -
      have "\<not> N \<le> ?n" using that fresh n(1) unfolding k_def by blast
      then show ?thesis using bound(1) by simp
    qed
    then have i1: "i1 \<le> B" using less.prems(2) by (simp add: i1_def)
    have gap1: "gap_at M (chain @ [k]) i1"
      using less.prems(1) by (auto simp: gap_at_def i1_def nth_append)
    have step: "extend_chain env us c gap chain i = extend_chain env us c gap (chain @ [k]) i1"
      using True k by (subst extend_chain.simps) (simp add: pkh_set.rep_contains [OF rep] i1_def)
    have "B + unat gap - length (chain @ [k]) < B + unat gap - ?n" using n(2) by simp
    from less.hyps [OF this gap1 i1] obtain chain' i' where IH:
      "extend_chain env us c gap (chain @ [k]) i1 = Some (chain', i')" "gap_at M chain' i'" "i' + unat gap \<le> length chain'"
      "chain' = (chain @ [k]) @ map (key_at env c) [length (chain @ [k])..<length chain']" "length (chain @ [k]) \<le> length chain'"
      "length chain' = length (chain @ [k]) \<and> i' = i1 \<or> length chain' = i' + unat gap" "i' \<le> B" by blast
    have len: "length chain' = i' + unat gap"
      using IH(3,6) True less.prems(1) by (auto simp: i1_def gap_at_def split: if_splits)
    have ch: "chain' = chain @ map (key_at env c) [?n..<length chain']"
    proof -
      have "[?n..<length chain'] = ?n # [Suc ?n..<length chain']" using IH(5) by (simp add: upt_conv_Cons)
      then show ?thesis using IH(4) by (simp add: k_def)
    qed
    show ?thesis
      unfolding step by (intro exI conjI, rule IH(1), rule IH(2), rule IH(3), rule ch, use IH(5) in simp, rule disjI2, rule len, rule IH(7))
  qed
qed

section \<open>Unused addresses\<close>

lemma add_keys_rep:
  assumes "pkh_set.rep s M" and "card (M \<union> set ks) < 2609407362"
  shows "\<exists>s'. add_keys ks s = Some s' \<and> pkh_set.rep s' (M \<union> set ks)"
proof -
  have "finite (M \<union> set ks)" using pkh_set.rep_finite [OF assms(1)] by simp
  from pkh_set.rep_add_all [OF assms(1) _ this assms(2), of "\<lambda>k. k" ks] show ?thesis by (simp add: add_keys_def)
qed

text \<open>The table of the wallet's key hashes holds the two chains.\<close>

definition chains_ok :: "BRWallet \<Rightarrow> bool" where
  "chains_ok w \<longleftrightarrow> pkh_set.rep (allPKH w) (set (internalChain w) \<union> set (externalChain w))"

text \<open>The chain that is asked for, and the other one.\<close>

definition chain_of :: "u32 \<Rightarrow> BRWallet \<Rightarrow> UInt160 list" where
  "chain_of internal w = (if internal = SEQUENCE_INTERNAL_CHAIN then internalChain w else externalChain w)"

definition derives :: "wallet_env \<Rightarrow> UInt160 set \<Rightarrow> u32 \<Rightarrow> nat \<Rightarrow> bool" where
  "derives env M internal N \<longleftrightarrow> (\<forall>j. derive env internal j \<noteq> None) \<and> (\<forall>j. N \<le> j \<and> j < 2 ^ 32 \<longrightarrow> key_at env internal j \<notin> M)"

lemma set_chain_simps [simp]:
  "chain_of internal (set_chain internal c w) = c" "set (chain_of internal w) \<subseteq> set (internalChain w) \<union> set (externalChain w)"
  "usedPKH (set_chain internal c w) = usedPKH w" "allPKH (set_chain internal c w) = allPKH w" "forkId (set_chain internal c w) = forkId w"
  by (auto simp: set_chain_def chain_of_def)

lemma UnusedAddrs_grows:
  assumes ok: "chains_ok w" "pkh_set.rep (usedPKH w) M" and der: "derives env M internal N"
    and c: "internal \<in> {SEQUENCE_EXTERNAL_CHAIN, SEQUENCE_INTERNAL_CHAIN}" and gap: "0 < gap"
    and bound: "max N (length (chain_of internal w)) + unat gap \<le> 2 ^ 32"
    and card: "card (set (internalChain w) \<union> set (externalChain w)) + max N (length (chain_of internal w)) + unat gap < 2609407362"
    and addrs: "\<forall>a. addrs = Some a \<longrightarrow> unat gap \<le> length a \<and> (\<forall>b \<in> set a. 75 \<le> length b)"
  shows "\<exists>chain i all addrs'. BRWalletUnusedAddrs env w addrs gap internal =
      Some (if addrs = None then 0 else unat gap, addrs', (set_chain internal chain w)\<lparr>allPKH := all\<rparr>) \<and>
    chains_ok ((set_chain internal chain w)\<lparr>allPKH := all\<rparr>) \<and> gap_at M chain i \<and> i + unat gap \<le> length chain \<and>
    chain = chain_of internal w @ map (key_at env internal) [length (chain_of internal w)..<length chain] \<and>
    length chain \<le> max N (length (chain_of internal w)) + unat gap \<and> (addrs = None \<longrightarrow> addrs' = None) \<and>
    (\<forall>a. addrs = Some a \<longrightarrow> (\<exists>a'. addrs' = Some a' \<and> length a' = length a \<and>
      (\<forall>j < unat gap. holds_address w (chain ! (i + j)) (a' ! j))))"
proof -
  let ?C = "chain_of internal w"
  let ?keys = "set (internalChain w) \<union> set (externalChain w)"
  define B where "B = max N (length ?C)"
  obtain i where i: "i \<le> length ?C" "unused_from (usedPKH w) ?C (length ?C) = Some i" "gap_at M ?C i"
    using unused_from_gap [OF ok(2), of "length ?C" ?C] by auto
  have der': "\<forall>j. derive env internal j \<noteq> None" "\<forall>j. N \<le> j \<and> j < 2 ^ 32 \<longrightarrow> key_at env internal j \<notin> M"
    using der by (auto simp: derives_def)
  have "N \<le> B" "B + unat gap \<le> 2 ^ 32" "i \<le> B" using bound i(1) by (simp_all add: B_def)
  from extend_chain_gap [OF ok(2) der' this(1,2) i(3) this(3)] obtain chain i' where
    ext: "extend_chain env (usedPKH w) internal gap ?C i = Some (chain, i')" and g: "gap_at M chain i'" "i' + unat gap \<le> length chain"
    and chain: "chain = ?C @ map (key_at env internal) [length ?C..<length chain]" "length ?C \<le> length chain"
    and len: "length chain = length ?C \<and> i' = i \<or> length chain = i' + unat gap" and i': "i' \<le> B" by blast
  let ?new = "map (key_at env internal) [length ?C..<length chain]" and ?w = "set_chain internal chain w"
  have new: "drop (length ?C) chain = ?new" using chain by (metis append_eq_conv_conj)
  have keys: "set (internalChain ?w) \<union> set (externalChain ?w) = ?keys \<union> set ?new"
  proof -
    have "set chain = set ?C \<union> set ?new" using chain(1) by (metis set_append)
    then show ?thesis by (auto simp: set_chain_def chain_of_def)
  qed
  have "card (set ?new) \<le> length ?new" by (rule card_length)
  also have "length ?new \<le> B + unat gap" using len i' by auto
  finally have small: "card (?keys \<union> set ?new) < 2609407362"
    using card card_Un_le [of ?keys "set ?new"] by (simp add: B_def)
  obtain all where all: "(if length chain = length ?C \<or> \<not> moved env internal (length chain)
      then add_keys (drop (length ?C) chain) (allPKH ?w)
      else Option.bind (add_keys (rev (internalChain ?w)) (BRSetClear (allPKH ?w))) (add_keys (rev (externalChain ?w)))) = Some all"
    "pkh_set.rep all (?keys \<union> set ?new)"
  proof (cases "length chain = length ?C \<or> \<not> moved env internal (length chain)")
    case True
    then show ?thesis using that add_keys_rep [of "allPKH w" ?keys ?new] ok(1) small new by (auto simp: chains_ok_def)
  next
    case False
    have small': "card (set (internalChain ?w)) < 2609407362" "card (set (internalChain ?w) \<union> set (externalChain ?w)) < 2609407362"
    proof -
      have "set (internalChain ?w) \<subseteq> ?keys \<union> set ?new" using keys by blast
      then have "card (set (internalChain ?w)) \<le> card (?keys \<union> set ?new)" by (intro card_mono) simp_all
      then show "card (set (internalChain ?w)) < 2609407362" using small by linarith
      show "card (set (internalChain ?w) \<union> set (externalChain ?w)) < 2609407362" unfolding keys by (rule small)
    qed
    have "pkh_set.rep (BRSetClear (allPKH w)) {}" using ok(1) pkh_set.rep_clear by (auto simp: chains_ok_def)
    then obtain s1 where s1: "add_keys (rev (internalChain ?w)) (BRSetClear (allPKH ?w)) = Some s1" "pkh_set.rep s1 (set (internalChain ?w))"
      using add_keys_rep [of "BRSetClear (allPKH w)" "{}" "rev (internalChain ?w)"] small'(1) by auto
    then obtain s2 where "add_keys (rev (externalChain ?w)) s1 = Some s2" "pkh_set.rep s2 (set (internalChain ?w) \<union> set (externalChain ?w))"
      using add_keys_rep [OF s1(2), of "rev (externalChain ?w)"] small'(2) by auto
    then show ?thesis using that False s1(1) keys by auto
  qed
  have long: "length chain \<le> max N (length ?C) + unat gap" using len i' by (auto simp: B_def)
  have inv: "chains_ok (?w\<lparr>allPKH := all\<rparr>)" using all(2) keys by (simp add: chains_ok_def)
  have start: "BRWalletUnusedAddrs env w addrs gap internal =
    do { (j, addrs) \<leftarrow> (case addrs of None \<Rightarrow> Some (0, None)
          | Some a \<Rightarrow> map_option (\<lambda>a. (unat gap, Some a)) (write_addrs w 0 (take (unat gap) (drop i' chain)) a));
         Some (j, addrs, ?w\<lparr>allPKH := all\<rparr>) }"
  proof -
    have "(gap = 0 \<or> internal \<noteq> SEQUENCE_EXTERNAL_CHAIN \<and> internal \<noteq> SEQUENCE_INTERNAL_CHAIN) = False"
      using c gap by auto
    then show ?thesis
      unfolding BRWalletUnusedAddrs_def Let_def chain_of_def [symmetric] using i(2) ext all(1) g(2)
      by (auto split: option.split)
  qed
  show ?thesis
  proof (cases addrs)
    case None
    then show ?thesis using inv g chain(1) long unfolding start
      by (intro exI [of _ chain] exI [of _ i'] exI [of _ all] exI [of _ None]) simp
  next
    case (Some a)
    have "length (take (unat gap) (drop i' chain)) = unat gap" using g(2) by simp
    then obtain a' where a': "write_addrs w 0 (take (unat gap) (drop i' chain)) a = Some a'" "length a' = length a"
      "\<forall>j < unat gap. holds_address w (take (unat gap) (drop i' chain) ! j) (a' ! j)"
      using write_addrs_holds [of 0 "take (unat gap) (drop i' chain)" a w] addrs Some by auto
    then show ?thesis using Some inv g chain(1) long unfolding start
      by (intro exI [of _ chain] exI [of _ i'] exI [of _ all] exI [of _ "Some a'"]) simp
  qed
qed

text \<open>
  Claim C11.  When the master public key gives a key for every index and only finitely many of them are
  used, a call for \<open>gap\<close> addresses returns, writes that many, and every address written is
  one the wallet contains and none is used; that is so whether or not the chain was moved.
\<close>

theorem UnusedAddrs_hands_out:
  assumes ok: "chains_ok w" "pkh_set.rep (usedPKH w) M" and der: "derives env M internal N"
    and c: "internal \<in> {SEQUENCE_EXTERNAL_CHAIN, SEQUENCE_INTERNAL_CHAIN}" and gap: "0 < gap"
    and bound: "max N (length (chain_of internal w)) + unat gap \<le> 2 ^ 32"
    and card: "card (set (internalChain w) \<union> set (externalChain w)) + max N (length (chain_of internal w)) + unat gap < 2609407362"
    and addrs: "unat gap \<le> length a" "\<forall>b \<in> set a. 75 \<le> length b"
  shows "\<exists>a' w'. BRWalletUnusedAddrs env w (Some a) gap internal = Some (unat gap, Some a', w') \<and> chains_ok w' \<and>
    (\<forall>j < unat gap. forkId w \<noteq> 0 \<or> decode21 (text_of (a' ! j)) = None \<longrightarrow>
       BRWalletContainsAddress w' (text_of (a' ! j)) = Some True \<and> BRWalletAddressIsUsed w' (text_of (a' ! j)) = Some False)"
proof -
  obtain chain i all a' where r: "BRWalletUnusedAddrs env w (Some a) gap internal =
      Some (unat gap, Some a', (set_chain internal chain w)\<lparr>allPKH := all\<rparr>)"
    and inv: "chains_ok ((set_chain internal chain w)\<lparr>allPKH := all\<rparr>)" and g: "gap_at M chain i" "i + unat gap \<le> length chain"
    and holds: "\<forall>j < unat gap. holds_address w (chain ! (i + j)) (a' ! j)"
    using UnusedAddrs_grows [OF ok der c gap bound card, of "Some a"] addrs by auto
  let ?w = "(set_chain internal chain w)\<lparr>allPKH := all\<rparr>"
  have "BRWalletContainsAddress ?w (text_of (a' ! j)) = Some True \<and> BRWalletAddressIsUsed ?w (text_of (a' ! j)) = Some False"
    if j: "j < unat gap" and dec: "forkId w \<noteq> 0 \<or> decode21 (text_of (a' ! j)) = None" for j
  proof -
    let ?k = "chain ! (i + j)"
    have "address_pkh (text_of (a' ! j)) = Some ?k" using holds j dec by (simp add: holds_address_def)
    moreover have "?k = drop i chain ! j" "j < length (drop i chain)" using g(2) j by simp_all
    then have "?k \<in> set (drop i chain)" using nth_mem [of j "drop i chain"] by metis
    then have "?k \<notin> M" "?k \<in> set chain" using g(1) in_set_dropD [of ?k i chain] by (auto simp: gap_at_def)
    moreover have "set chain \<subseteq> set (internalChain ?w) \<union> set (externalChain ?w)" by (auto simp: set_chain_def)
    ultimately show ?thesis
      using inv ok(2) by (auto simp: BRWalletContainsAddress_def BRWalletAddressIsUsed_def chains_ok_def pkh_set.rep_contains)
  qed
  then show ?thesis using r inv by blast
qed

theorem UnusedAddrs_hands_out_witness:
  "\<exists>a' w'. BRWalletUnusedAddrs example_env ((example_wallet 0)\<lparr>forkId := 0x40\<rparr>) (Some [replicate 75 0, replicate 75 0]) 2 1 =
      Some (2, Some a', w') \<and>
    BRWalletContainsAddress w' (text_of (a' ! 1)) = Some True \<and> BRWalletAddressIsUsed w' (text_of (a' ! 1)) = Some False"
proof -
  let ?w = "(example_wallet 0)\<lparr>forkId := 0x40\<rparr>" and ?a = "[replicate 75 0, replicate 75 (0 :: byte)]"
  have "chains_ok ?w"
    using example_tables(2) [of "[word_of_le (replicate 20 7)]"] by (simp add: chains_ok_def example_wallet_def)
  moreover have "pkh_set.rep (usedPKH ?w) {}" using pkh_set.rep_new [of 10] by (simp add: example_wallet_def)
  moreover have "derives example_env {} 1 0" by (simp add: derives_def example_env_def)
  moreover have "length (chain_of 1 ?w) = 0" "card (set (internalChain ?w) \<union> set (externalChain ?w)) = 1"
    by (simp_all add: chain_of_def example_wallet_def SEQUENCE_INTERNAL_CHAIN_def)
  moreover have "forkId ?w \<noteq> 0" by simp
  moreover have "(1 :: u32) \<in> {SEQUENCE_EXTERNAL_CHAIN, SEQUENCE_INTERNAL_CHAIN}" by (simp add: SEQUENCE_INTERNAL_CHAIN_def)
  ultimately obtain a' w' where "BRWalletUnusedAddrs example_env ?w (Some ?a) 2 1 = Some (2, Some a', w')"
    "\<forall>j < 2. BRWalletContainsAddress w' (text_of (a' ! j)) = Some True \<and> BRWalletAddressIsUsed w' (text_of (a' ! j)) = Some False"
    using UnusedAddrs_hands_out [of ?w "{}" example_env 1 0 2 ?a] by auto
  then show ?thesis by (intro exI [of _ a'] exI [of _ w']) auto
qed

end
