(* ===== verification/WalletRegister_Correct.thy ===== *)
theory WalletRegister_Correct
  imports WalletAddrs_Correct
begin

text \<open>
  Registering and removing transactions: the invariant of the whole wallet, that registering
  a transaction of the wallet keeps it and adds exactly that transaction, and that a removed
  transaction cannot be registered again.
\<close>

unbundle bit_operations_syntax

section \<open>The wallet's invariant\<close>

definition wallet_keys :: "BRWallet \<Rightarrow> UInt160 set" where
  "wallet_keys w = set (internalChain w) \<union> set (externalChain w)"

definition wallet_inv :: "BRWallet \<Rightarrow> UInt256 set \<Rightarrow> bool" where
  "wallet_inv w A \<longleftrightarrow>
     wallet_ok w A (wallet_keys w) \<and> distinct (transactions w) \<and> sorted (map (height w) (transactions w)) \<and>
     acyclic (spend_order w A) \<and> (\<forall>h \<in> A. txHash (txs w h) = h)"

lemma ledger_step_used: "used L \<subseteq> K \<Longrightarrow> used (ledger_step env w K h L) \<subseteq> K"
  by (cases rule: ledger_step_cases [of w h L env K]; auto simp: settle_def Let_def)

lemma ledger_used: "used (ledger_of env w K ts) \<subseteq> K"
proof (induction ts rule: rev_induct)
  case (snoc h ts)
  then show ?case using ledger_step_used [of "ledger_of env w K ts" K env w h] by (simp add: ledger_of_def)
qed (simp add: ledger_of_def)

lemma set_chain_fields [simp]:
  "transactions (set_chain c ks w) = transactions w" "allTx (set_chain c ks w) = allTx w" "txs (set_chain c ks w) = txs w"
  "utxos (set_chain c ks w) = utxos w" "balance (set_chain c ks w) = balance w" "callbacks (set_chain c ks w) = callbacks w"
  "spentOutputs (set_chain c ks w) = spentOutputs w" "invalidTx (set_chain c ks w) = invalidTx w"
  "pendingTx (set_chain c ks w) = pendingTx w"
  by (simp_all add: set_chain_def)

lemma derives_subset: "derives env K c N \<Longrightarrow> M \<subseteq> K \<Longrightarrow> derives env M c N"
  by (auto simp: derives_def)

text \<open>Computing the balance keeps the invariant of the wallet, and what else it leaves alone.\<close>

lemma wallet_inv_balance:
  assumes "wallet_inv w A" and "utxo_set.rep sp S" and "tx_set.rep iv I" and "tx_set.rep pe P" and "pkh_set.rep us M"
  shows "wallet_inv (w\<lparr>utxos := u, balanceHist := bh, spentOutputs := sp, invalidTx := iv, pendingTx := pe, usedPKH := us,
    totalSent := ts, totalReceived := tr, balance := b\<rparr>) A" (is "wallet_inv ?w A")
proof -
  have w: "outs_ok ?w = outs_ok w" "wallet_keys ?w = wallet_keys w" "spend_order ?w A = spend_order w A"
    by (simp_all add: outs_ok_def wallet_keys_def spend_order_def fun_eq_iff)
  have "\<exists>S I P M. utxo_set.rep (spentOutputs ?w) S \<and> tx_set.rep (invalidTx ?w) I \<and> tx_set.rep (pendingTx ?w) P \<and> pkh_set.rep (usedPKH ?w) M"
    using assms(2-5) by auto
  then have "wallet_ok ?w A (wallet_keys w)" using assms(1) unfolding wallet_inv_def wallet_ok_def w by simp
  then show ?thesis using assms(1) unfolding wallet_inv_def w by simp
qed

lemma UpdateBalance_inv:
  assumes "wallet_inv w A"
  shows "\<exists>u bh sp iv pe us ts tr. BRWalletUpdateBalance env w = Some (w\<lparr>utxos := u, balanceHist := bh, spentOutputs := sp,
      invalidTx := iv, pendingTx := pe, usedPKH := us, totalSent := ts, totalReceived := tr, balance := value_of (txs w) u\<rparr>) \<and>
    wallet_inv (w\<lparr>utxos := u, balanceHist := bh, spentOutputs := sp, invalidTx := iv, pendingTx := pe, usedPKH := us,
      totalSent := ts, totalReceived := tr, balance := value_of (txs w) u\<rparr>) A \<and>
    (\<exists>M \<subseteq> wallet_keys w. pkh_set.rep us M)"
proof -
  define L where "L = ledger_of env w (wallet_keys w) (transactions w)"
  have ok: "wallet_ok w A (wallet_keys w)" using assms by (simp add: wallet_inv_def)
  obtain sp iv pe us where w': "BRWalletUpdateBalance env w = Some (w\<lparr>utxos := unspent L, balanceHist := hist L,
      spentOutputs := sp, invalidTx := iv, pendingTx := pe, usedPKH := us, totalSent := sent L,
      totalReceived := received_total L, balance := value_of (txs w) (unspent L)\<rparr>)"
    and reps: "utxo_set.rep sp (spent L)" "tx_set.rep iv (invalid L)" "tx_set.rep pe (pending L)" "pkh_set.rep us (used L)"
    using UpdateBalance_ledger [OF ok, of env] unfolding L_def [symmetric] by blast
  have "used L \<subseteq> wallet_keys w" unfolding L_def by (rule ledger_used)
  then show ?thesis using w' wallet_inv_balance [OF assms reps] reps(4) by blast
qed

text \<open>Generating addresses on one chain keeps the invariant of the wallet.\<close>

lemma UnusedAddrs_inv:
  assumes inv: "wallet_inv w A" and M: "pkh_set.rep (usedPKH w) M" and der: "derives env M c N"
    and c: "c \<in> {SEQUENCE_EXTERNAL_CHAIN, SEQUENCE_INTERNAL_CHAIN}" and gap: "0 < gap" "unat gap \<le> 20"
    and len: "length (internalChain w) \<le> N + 20" "length (externalChain w) \<le> N + 20" "length (chain_of c w) \<le> N" "N \<le> 2 ^ 29"
  shows "\<exists>chain all. BRWalletUnusedAddrs env w None gap c = Some (0, None, (set_chain c chain w)\<lparr>allPKH := all\<rparr>) \<and>
    wallet_inv ((set_chain c chain w)\<lparr>allPKH := all\<rparr>) A \<and> length chain \<le> N + unat gap \<and> set (chain_of c w) \<subseteq> set chain"
proof -
  have ok: "chains_ok w" using inv by (simp add: wallet_inv_def wallet_ok_def chains_ok_def wallet_keys_def)
  have keys: "card (set xs \<union> set ys) \<le> length xs + length ys" for xs ys :: "UInt160 list"
    using card_Un_le [of "set xs" "set ys"] card_length [of xs] card_length [of ys] by linarith
  have few: "card (set (internalChain w) \<union> set (externalChain w)) \<le> 2 * (N + 20)"
    using keys [of "internalChain w" "externalChain w"] len(1,2) by simp
  have bounds: "max N (length (chain_of c w)) + unat gap \<le> 2 ^ 32"
    "card (set (internalChain w) \<union> set (externalChain w)) + max N (length (chain_of c w)) + unat gap < 2609407362"
    using few len(3,4) gap(2) by simp_all
  obtain chain i all where r: "BRWalletUnusedAddrs env w None gap c = Some (0, None, (set_chain c chain w)\<lparr>allPKH := all\<rparr>)"
    and ok': "chains_ok ((set_chain c chain w)\<lparr>allPKH := all\<rparr>)" and l: "length chain \<le> max N (length (chain_of c w)) + unat gap"
    and ch: "chain = chain_of c w @ map (key_at env c) [length (chain_of c w)..<length chain]"
    using UnusedAddrs_grows [OF ok M der c gap(1) bounds, of None] by auto
  let ?w = "(set_chain c chain w)\<lparr>allPKH := all\<rparr>"
  have sub: "set (chain_of c w) \<subseteq> set chain" using ch by (metis Un_upper1 set_append)
  have "card (wallet_keys ?w) \<le> length (internalChain ?w) + length (externalChain ?w)"
    unfolding wallet_keys_def by (rule keys)
  also have "\<dots> \<le> 2 * (N + 20)" using l len gap(2) by (auto simp: set_chain_def)
  finally have "card (wallet_keys ?w) < 2609407362" using len(4) by simp
  moreover have "outs_ok ?w = outs_ok w" "spend_order ?w A = spend_order w A" "usedPKH ?w = usedPKH w"
    by (simp_all add: outs_ok_def fun_eq_iff spend_order_def)
  ultimately have "wallet_inv ?w A"
    using inv ok' by (simp add: wallet_inv_def wallet_ok_def chains_ok_def wallet_keys_def)
  then show ?thesis using r l len(3) sub by (intro exI [of _ chain] exI [of _ all]) simp
qed

section \<open>Registering a transaction\<close>

lemma chains_generate:
  assumes inv: "wallet_inv w A" and M: "pkh_set.rep (usedPKH w) M" and der: "derives env M 0 N" "derives env M 1 N"
    and len: "length (internalChain w) \<le> N" "length (externalChain w) \<le> N" "N \<le> 2 ^ 29"
  shows "\<exists>w1 w2 internal external all. BRWalletUnusedAddrs env w None (word_of_nat SEQUENCE_GAP_LIMIT_EXTERNAL) 0 = Some (0, None, w1) \<and>
    BRWalletUnusedAddrs env w1 None (word_of_nat SEQUENCE_GAP_LIMIT_INTERNAL) 1 = Some (0, None, w2) \<and> wallet_inv w2 A \<and>
    w2 = w\<lparr>internalChain := internal, externalChain := external, allPKH := all\<rparr> \<and>
    set (internalChain w) \<subseteq> set internal \<and> set (externalChain w) \<subseteq> set external"
proof -
  have gaps: "(word_of_nat SEQUENCE_GAP_LIMIT_EXTERNAL :: u32) = 10" "(word_of_nat SEQUENCE_GAP_LIMIT_INTERNAL :: u32) = 5"
    "(0 :: u32) \<in> {SEQUENCE_EXTERNAL_CHAIN, SEQUENCE_INTERNAL_CHAIN}" "(1 :: u32) \<in> {SEQUENCE_EXTERNAL_CHAIN, SEQUENCE_INTERNAL_CHAIN}"
    "chain_of 0 w = externalChain w" "chain_of 1 v = internalChain v" for v
    by (simp_all add: SEQUENCE_GAP_LIMIT_EXTERNAL_def SEQUENCE_GAP_LIMIT_INTERNAL_def SEQUENCE_EXTERNAL_CHAIN_def
        SEQUENCE_INTERNAL_CHAIN_def chain_of_def)
  obtain ext all where e: "BRWalletUnusedAddrs env w None 10 0 = Some (0, None, (set_chain 0 ext w)\<lparr>allPKH := all\<rparr>)"
    "wallet_inv ((set_chain 0 ext w)\<lparr>allPKH := all\<rparr>) A" "length ext \<le> N + 10" "set (externalChain w) \<subseteq> set ext"
    using UnusedAddrs_inv [OF inv M der(1) gaps(3), of 10] len gaps(5) by auto
  let ?w1 = "(set_chain 0 ext w)\<lparr>allPKH := all\<rparr>"
  have w1: "?w1 = w\<lparr>externalChain := ext, allPKH := all\<rparr>" by (simp add: set_chain_def SEQUENCE_INTERNAL_CHAIN_def)
  have "pkh_set.rep (usedPKH ?w1) M" using M by simp
  moreover have "length (internalChain ?w1) \<le> N + 20" "length (externalChain ?w1) \<le> N + 20" "length (chain_of 1 ?w1) \<le> N"
    using len e(3) by (simp_all add: w1 gaps(6))
  ultimately obtain int all' where i: "BRWalletUnusedAddrs env ?w1 None 5 1 = Some (0, None, (set_chain 1 int ?w1)\<lparr>allPKH := all'\<rparr>)"
    "wallet_inv ((set_chain 1 int ?w1)\<lparr>allPKH := all'\<rparr>) A" "set (chain_of 1 ?w1) \<subseteq> set int"
    using UnusedAddrs_inv [OF e(2) _ der(2) gaps(4), of 5] len(3) by auto
  have w2: "(set_chain 1 int ?w1)\<lparr>allPKH := all'\<rparr> = w\<lparr>internalChain := int, externalChain := ext, allPKH := all'\<rparr>"
    unfolding w1 by (simp add: set_chain_def SEQUENCE_INTERNAL_CHAIN_def)
  have "set (internalChain w) \<subseteq> set int" using i(3) by (simp add: w1 gaps(6))
  then show ?thesis
    using e(1,4) i(1,2) unfolding gaps(1,2) w2
    by (intro exI [of _ ?w1] exI [of _ "w\<lparr>internalChain := int, externalChain := ext, allPKH := all'\<rparr>"] exI [of _ int]
        exI [of _ ext] exI [of _ all']) simp
qed

lemma store_tx_stores:
  assumes "tx_set.rep (allTx w) A" and "card A < 2609407362"
  shows "\<exists>all. store_tx w tx = Some (w\<lparr>allTx := all, txs := (txs w)(txHash tx := tx)\<rparr>) \<and> tx_set.rep all (insert (txHash tx) A)"
  using tx_set.rep_add [OF assms, of "txHash tx"] by (auto simp: store_tx_def)

text \<open>
  Claim C3.  Registering a signed transaction of the wallet that is not yet known returns true:
  the transaction is added to the list and nothing else is, the invariant of the wallet holds
  afterwards, the balance is the sum of the unspent outputs, the wallet keeps its addresses,
  and the callbacks are told.
\<close>

theorem Register_adds:
  assumes inv: "wallet_inv w A" and tx: "BRTransactionIsSigned tx" "txHash tx \<notin> A" "length (outputs tx) < 2 ^ 32"
    and own: "BRWalletContainsTx w tx = Some True"
    and ac: "acyclic (spend_order (w\<lparr>txs := (txs w)(txHash tx := tx)\<rparr>) (insert (txHash tx) A))"
    and size: "card A + 1 < 2609407362" "card (\<Union>t \<in> insert tx (txs w ` set (transactions w)). inputs_of t) < 2609407362"
    and der: "derives env (wallet_keys w) 0 N" "derives env (wallet_keys w) 1 N"
    and len: "length (internalChain w) \<le> N" "length (externalChain w) \<le> N" "N \<le> 2 ^ 29"
  shows "\<exists>w'. BRWalletRegisterTransaction env w tx = Some (True, balanceChanged w' @ txAdded w' (txHash tx), w') \<and>
    wallet_inv w' (insert (txHash tx) A) \<and> mset (transactions w') = add_mset (txHash tx) (mset (transactions w)) \<and>
    txs w' = (txs w)(txHash tx := tx) \<and> wallet_keys w \<subseteq> wallet_keys w' \<and>
    balance w' = (\<Sum>u \<leftarrow> utxos w'. amount_of (txs w') u)"
proof -
  let ?h = "txHash tx" and ?T = "(txs w)(txHash tx := tx)" and ?K = "wallet_keys w"
  have w: "wallet_ok w A ?K" "distinct (transactions w)" "sorted (map (height w) (transactions w))" "\<forall>h \<in> A. txHash (txs w h) = h"
    using inv by (simp_all add: wallet_inv_def)
  have rep: "tx_set.rep (allTx w) A" and ts: "set (transactions w) \<subseteq> A" using w(1) by (simp_all add: wallet_ok_def)
  have fin: "finite A" by (rule tx_set.rep_finite [OF rep])
  obtain all where all: "store_tx w tx = Some (w\<lparr>allTx := all, txs := ?T\<rparr>)" "tx_set.rep all (insert ?h A)"
    using store_tx_stores [OF rep, of tx] size(1) by auto
  let ?w1 = "w\<lparr>allTx := all, txs := ?T\<rparr>"
  have old: "?T h = txs w h" if "h \<in> A" for h using that tx(2) by auto
  have "sorted (map (height ?w1) (transactions ?w1))"
  proof -
    have eq: "map (height ?w1) (transactions w) = map (height w) (transactions w)" using tx(2) ts by (intro map_cong) auto
    have "sorted (map (height ?w1) (transactions w))" unfolding eq by (rule w(3))
    then show ?thesis by simp
  qed
  moreover have "acyclic (spend_order ?w1 (insert ?h A))" using ac by (simp add: spend_order_def)
  ultimately obtain ts' where ins: "BRWalletInsertTx ?w1 ?h = Some (?w1\<lparr>transactions := ts'\<rparr>)" "sorted (map (height ?w1) ts')"
    "mset ts' = add_mset ?h (mset (transactions w))"
    using InsertTx_sorted [of ?w1 "insert ?h A" ?h] all(2) by auto
  have set': "set ts' = insert ?h (set (transactions w))" using ins(3) by (metis set_mset_add_mset_insert set_mset_mset)
  have dist': "distinct ts'"
    using mset_eq_imp_distinct_iff [of ts' "?h # transactions w"] ins(3) w(2) ts tx(2) by auto
  let ?w2 = "?w1\<lparr>transactions := ts'\<rparr>"
  have cards: "card (insert ?h A) < 2609407362" using size(1) fin tx(2) by simp
  have "(\<Union>h \<in> set ts'. inputs_of (?T h)) = (\<Union>t \<in> insert tx (txs w ` set (transactions w)). inputs_of t)"
  proof -
    have "(\<Union>h \<in> set (transactions w). inputs_of (?T h)) = (\<Union>h \<in> set (transactions w). inputs_of (txs w h))"
      using tx(2) ts by (intro SUP_cong) auto
    then show ?thesis by (simp add: set')
  qed
  then have ok2: "wallet_ok ?w2 (insert ?h A) ?K"
    using w(1) all(2) cards size(2) tx(3) old ts by (auto simp: wallet_ok_def set' outs_ok_def)
  have "wallet_inv ?w2 (insert ?h A)"
  proof -
    have "wallet_keys ?w2 = ?K" "spend_order ?w2 (insert ?h A) = spend_order (w\<lparr>txs := ?T\<rparr>) (insert ?h A)"
      by (simp_all add: wallet_keys_def spend_order_def)
    then show ?thesis using ok2 dist' ins(2) ac w(4) by (simp add: wallet_inv_def)
  qed
  then obtain w3 M where w3: "BRWalletUpdateBalance env ?w2 = Some w3" "wallet_inv w3 (insert ?h A)" "pkh_set.rep (usedPKH w3) M"
    "M \<subseteq> ?K" "internalChain w3 = internalChain w" "externalChain w3 = externalChain w" "txs w3 = ?T" "transactions w3 = ts'"
    "balance w3 = value_of ?T (utxos w3)"
    using UpdateBalance_inv [of ?w2 "insert ?h A" env] by (auto simp: wallet_keys_def)
  have "derives env M 0 N" "derives env M 1 N" using der w3(4) derives_subset by blast+
  then obtain w4 w5 internal external all' where w5: "BRWalletUnusedAddrs env w3 None (word_of_nat SEQUENCE_GAP_LIMIT_EXTERNAL) 0 = Some (0, None, w4)"
    "BRWalletUnusedAddrs env w4 None (word_of_nat SEQUENCE_GAP_LIMIT_INTERNAL) 1 = Some (0, None, w5)" "wallet_inv w5 (insert ?h A)"
    "w5 = w3\<lparr>internalChain := internal, externalChain := external, allPKH := all'\<rparr>"
    "set (internalChain w3) \<subseteq> set internal" "set (externalChain w3) \<subseteq> set external"
    using chains_generate [OF w3(2,3), of env N] len w3(5,6) by auto
  have "BRSetContains (allTx w) ?h = Some False" using tx_set.rep_contains [OF rep] tx(2) by simp
  then have "BRWalletRegisterTransaction env w tx = Some (True, balanceChanged w5 @ txAdded w5 ?h, w5)"
    using tx(1) own all(1) ins(1) w3(1) w5(1,2) by (simp add: BRWalletRegisterTransaction_def)
  moreover have "wallet_keys w \<subseteq> wallet_keys w5" using w5(4-6) w3(5,6) by (auto simp: wallet_keys_def)
  moreover have "balance w5 = (\<Sum>u \<leftarrow> utxos w5. amount_of (txs w5) u)" by (simp add: w5(4) w3(7,9) value_of_def)
  ultimately show ?thesis using w5(3,4) w3(7,8) ins(3) by (intro exI [of _ w5]) simp
qed

text \<open>The example wallet before it knows the transaction 2.\<close>

definition example_before :: "u32 \<Rightarrow> BRWallet" where
  "example_before sequence = (example_wallet sequence)\<lparr>transactions := [1], allTx := example_table txKeyHash txKeyEq [1]\<rparr>"

lemma example_before_inv: "wallet_inv (example_before sequence) {1}"
proof -
  have "tx_set.rep (example_table txKeyHash txKeyEq [1]) {1}" using example_tables(1) [of "[1]"] by simp
  moreover have "wallet_keys (example_before sequence) = example_keys"
    by (simp add: wallet_keys_def example_before_def example_wallet_def)
  ultimately have "wallet_ok (example_before sequence) {1} (wallet_keys (example_before sequence))"
    using example_wallet_ok [of sequence]
    by (simp add: wallet_ok_def example_before_def outs_ok_def example_simps example_txs_def inputs_of_def)
  moreover have "spend_order (example_before sequence) {1} = {}"
    by (simp add: spend_order_def example_before_def example_simps example_txs_def)
  ultimately show ?thesis
    by (simp add: wallet_inv_def example_before_def example_simps example_txs_def) (simp add: acyclic_def)
qed

lemma example_derives: "c \<in> {0, 1} \<Longrightarrow> derives example_env example_keys c 1"
proof -
  have "(ucast (word_of_nat j :: u32) :: UInt160) \<noteq> word_of_le (replicate 20 7)" for j
  proof
    assume eq: "(ucast (word_of_nat j :: u32) :: UInt160) = word_of_le (replicate 20 7)"
    have "bit (word_of_le (replicate 20 7) :: UInt160) 40" by (simp add: bit_word_of_le)
    then have "bit (ucast (word_of_nat j :: u32) :: UInt160) 40" unfolding eq .
    then show False by (auto simp: bit_ucast_iff dest: bit_imp_le_length)
  qed
  then show ?thesis by (simp add: derives_def key_at_def example_env_def)
qed

theorem Register_adds_witness:
  "\<exists>w'. BRWalletRegisterTransaction example_env (example_before 0xffffffff) (example_txs 0xffffffff 2) =
      Some (True, balanceChanged w' @ txAdded w' 2, w') \<and>
    mset (transactions w') = {#1, 2#} \<and> wallet_inv w' {1, 2}"
proof -
  let ?w = "example_before 0xffffffff" and ?tx = "example_txs 0xffffffff 2"
  have tx: "BRTransactionIsSigned ?tx" "txHash ?tx = 2" "length (outputs ?tx) < 2 ^ 32"
    by (simp_all add: BRTransactionIsSigned_def example_txs_def)
  have keys: "wallet_keys ?w = example_keys" by (simp add: wallet_keys_def example_before_def example_wallet_def)
  have "pkh_set.rep (allPKH ?w) example_keys"
    using example_wallet_ok [of "0xffffffff"] by (simp add: wallet_ok_def example_before_def)
  then have "any_loop (own_pkh ?w) (outputs ?tx) = Some (\<exists>out \<in> set (outputs ?tx). \<exists>k \<in> example_keys. pkh_of out = Some k)"
    by (intro any_loop_total own_pkh_rep)
  moreover have "example_pays 4000 \<in> set (outputs ?tx)" by (simp add: example_txs_def)
  ultimately have own: "BRWalletContainsTx ?w ?tx = Some True"
    using example_pkh [of 4000] by (auto simp: BRWalletContainsTx_def)
  have T: "(txs ?w)(2 := ?tx) = txs ?w" by (rule fun_upd_idem) (simp add: example_before_def example_simps)
  have "spend_order (?w\<lparr>txs := txs ?w\<rparr>) {2, 1} = spend_order (example_wallet 0xffffffff) {1, 2}"
    by (simp add: spend_order_def example_before_def insert_commute)
  then have ac: "acyclic (spend_order (?w\<lparr>txs := (txs ?w)(2 := ?tx)\<rparr>) {2, 1})" using example_acyclic T by simp
  have ins: "card (\<Union>t \<in> insert ?tx (txs ?w ` set (transactions ?w)). inputs_of t) < 2609407362"
    by (simp add: example_before_def example_simps inputs_of_def example_txs_def)
  have len: "length (internalChain ?w) \<le> 1" "length (externalChain ?w) \<le> 1" by (simp_all add: example_before_def example_wallet_def)
  have ts: "transactions ?w = [1]" by (simp add: example_before_def)
  show ?thesis
    using Register_adds [OF example_before_inv, of ?tx "0xffffffff" example_env 1] tx own ac ins len example_derives
    unfolding keys tx(2) ts by (auto simp: insert_commute add_mset_commute)
qed

section \<open>Removing a transaction\<close>

lemma for_each_inv:
  "for_each xs body s = Some s' \<Longrightarrow> Inv s \<Longrightarrow> (\<And>x s s'. x \<in> set xs \<Longrightarrow> Inv s \<Longrightarrow> body x s = Some s' \<Longrightarrow> Inv s') \<Longrightarrow> Inv s'"
proof (induction xs arbitrary: s)
  case (Cons x xs)
  obtain s1 where s1: "body x s = Some s1" "for_each xs body s1 = Some s'" using Cons.prems(1) by (auto split: option.splits)
  have "Inv s1" by (rule Cons.prems(3) [OF _ Cons.prems(2) s1(1)]) simp
  then show ?case by (rule Cons.IH [OF s1(2)]) (use Cons.prems(3) in auto)
qed simp

text \<open>Computing the balance, when it returns, leaves the list, the table and the objects alone.\<close>

definition same_txs :: "BRWallet \<Rightarrow> BRWallet \<Rightarrow> bool" where
  "same_txs w w' \<longleftrightarrow> transactions w' = transactions w \<and> allTx w' = allTx w \<and> txs w' = txs w"

lemma add_utxo_same: "add_utxo h jo s = Some s' \<Longrightarrow> same_txs (wal s) (wal s')"
  by (cases jo) (auto simp: add_utxo_def same_txs_def bind_eq_Some_conv split: if_splits option.splits)

lemma accept_tx_same: "accept_tx h s = Some s' \<Longrightarrow> same_txs (wal s) (wal s')"
proof -
  assume "accept_tx h s = Some s'"
  then obtain s1 where s1: "for_each (enumerate 0 (outputs (txs (wal s) h))) (add_utxo h) s = Some s1"
    "same_txs (wal s1) (wal s')"
    by (auto simp: accept_tx_def bind_eq_Some_conv same_txs_def Let_def)
  have "same_txs (wal s) (wal s1)"
    by (rule for_each_inv [OF s1(1), of "\<lambda>s1. same_txs (wal s) (wal s1)"])
      (auto simp: same_txs_def dest!: add_utxo_same)
  then show ?thesis using s1(2) by (simp add: same_txs_def)
qed

lemma update_tx_same:
  assumes "update_tx env h s = Some s'"
  shows "same_txs (wal s) (wal s')"
proof -
  let ?un = "blockHeight (txs (wal s) h) = TX_UNCONFIRMED"
  obtain isInvalid where r: "(if isInvalid then do {
          (_, inv) \<leftarrow> BRSetAdd (invalidTx (wal s)) h;
          Some (skip_tx (s\<lparr>wal := (wal s)\<lparr>invalidTx := inv\<rparr>\<rparr>))
        } else do {
          y \<leftarrow> for_each (inputs (txs (wal s) h)) (\<lambda>i sp. map_option snd (BRSetAdd sp (utxo_of_input i))) (spentOutputs (wal s));
          isPending \<leftarrow> (if ?un then tx_pending env (wal (s\<lparr>wal := (wal s)\<lparr>spentOutputs := y\<rparr>\<rparr>)) (txs (wal s) h) else Some False);
          if isPending then do {
            (_, pend) \<leftarrow> BRSetAdd (pendingTx (wal (s\<lparr>wal := (wal s)\<lparr>spentOutputs := y\<rparr>\<rparr>))) h;
            Some (skip_tx ((s\<lparr>wal := (wal s)\<lparr>spentOutputs := y\<rparr>\<rparr>)\<lparr>wal := (wal (s\<lparr>wal := (wal s)\<lparr>spentOutputs := y\<rparr>\<rparr>))\<lparr>pendingTx := pend\<rparr>\<rparr>))
          } else accept_tx h (s\<lparr>wal := (wal s)\<lparr>spentOutputs := y\<rparr>\<rparr>)
        }) = Some s'"
    using assms unfolding update_tx_def Let_def bind_eq_Some_conv by blast
  show ?thesis
  proof (cases isInvalid)
    case True
    then show ?thesis using r by (auto simp: bind_eq_Some_conv same_txs_def skip_tx_def)
  next
    case False
    then obtain y isPending where r2: "(if isPending then do {
            (_, pend) \<leftarrow> BRSetAdd (pendingTx (wal (s\<lparr>wal := (wal s)\<lparr>spentOutputs := y\<rparr>\<rparr>))) h;
            Some (skip_tx ((s\<lparr>wal := (wal s)\<lparr>spentOutputs := y\<rparr>\<rparr>)\<lparr>wal := (wal (s\<lparr>wal := (wal s)\<lparr>spentOutputs := y\<rparr>\<rparr>))\<lparr>pendingTx := pend\<rparr>\<rparr>))
          } else accept_tx h (s\<lparr>wal := (wal s)\<lparr>spentOutputs := y\<rparr>\<rparr>)) = Some s'"
      using r unfolding if_not_P [OF False] bind_eq_Some_conv by blast
    show ?thesis
    proof (cases isPending)
      case True
      then show ?thesis using r2 by (auto simp: bind_eq_Some_conv same_txs_def skip_tx_def)
    next
      case False
      then have "accept_tx h (s\<lparr>wal := (wal s)\<lparr>spentOutputs := y\<rparr>\<rparr>) = Some s'" using r2 by simp
      from accept_tx_same [OF this] show ?thesis by (simp add: same_txs_def)
    qed
  qed
qed

lemma UpdateBalance_same: "BRWalletUpdateBalance env w = Some w' \<Longrightarrow> same_txs w w'"
proof -
  assume "BRWalletUpdateBalance env w = Some w'"
  then obtain s where s: "for_each (transactions w) (update_tx env) \<lparr>wal = w\<lparr>utxos := [], balanceHist := [],
      spentOutputs := BRSetClear (spentOutputs w), invalidTx := BRSetClear (invalidTx w), pendingTx := BRSetClear (pendingTx w),
      usedPKH := BRSetClear (usedPKH w), totalSent := 0, totalReceived := 0\<rparr>, bal = 0, prevBal = 0\<rparr> = Some s"
    "same_txs (wal s) w'"
    by (auto simp: BRWalletUpdateBalance_def Let_def bind_eq_Some_conv same_txs_def split: if_splits)
  have "same_txs w (wal s)"
    by (rule for_each_inv [OF s(1), of "\<lambda>s. same_txs w (wal s)"])
      (auto simp: same_txs_def dest!: update_tx_same)
  then show ?thesis using s(2) by (simp add: same_txs_def)
qed

text \<open>What a removal that returns leaves.\<close>

definition removed :: "UInt256 \<Rightarrow> BRWallet \<Rightarrow> BRWallet \<Rightarrow> bool" where
  "removed h w w' \<longleftrightarrow> allTx w' = allTx w \<and> txs w' = txs w \<and>
     (distinct (transactions w) \<longrightarrow> distinct (transactions w') \<and> set (transactions w') \<subseteq> set (transactions w) \<and>
       (BRSetGet (allTx w) h \<noteq> Some None \<longrightarrow> h \<notin> set (transactions w')))"

lemma remove_last_distinct: "distinct ts \<Longrightarrow> distinct (remove_last h ts) \<and> set (remove_last h ts) = set ts - {h}"
  by (simp add: remove_last_def)

lemma RemoveTransaction_removed:
  assumes "BRWalletRemoveTransaction env w h = Some r"
  shows "removed h w (snd r)"
proof (rule BRWalletRemoveTransaction.raw_induct [where P = "\<lambda>env w h r. removed h w (snd r)", OF _ assms])
  fix rem :: "wallet_env \<Rightarrow> BRWallet \<Rightarrow> UInt256 \<Rightarrow> (wallet_event list \<times> BRWallet) option" and env w h r
  assume IH: "\<And>env w h r. rem env w h = Some r \<Longrightarrow> removed h w (snd r)"
    and body: "(if UInt256IsZero h then None
      else do {
        t \<leftarrow> BRSetGet (allTx w) h;
        (case t of
           None \<Rightarrow> Some ([], w)
         | Some _ \<Rightarrow>
             (let hashes = dependents w h (rev (transactions w))
              in if hashes \<noteq> [] then do {
                  s \<leftarrow> for_each (rev hashes) (\<lambda>d s. do { r \<leftarrow> rem env (snd s) d; Some (fst s @ fst r, snd r) }) ([], w);
                  r \<leftarrow> rem env (snd s) h;
                  Some (fst s @ fst r, snd r)
                }
                else do {
                  w \<leftarrow> BRWalletUpdateBalance env (w\<lparr>transactions := remove_last h (transactions w)\<rparr>);
                  n \<leftarrow> removal_notice w (txs w h);
                  Some (balanceChanged w @ txDeleted w h (fst n) (snd n), w)
                }))
      }) = Some r"
  obtain t where t: "BRSetGet (allTx w) h = Some t"
    using body by (auto simp: bind_eq_Some_conv split: if_splits)
  show "removed h w (snd r)"
  proof (cases "t = None")
    case True
    then have "r = ([], w)" using body t by (simp split: if_splits)
    then show ?thesis using True t by (simp add: removed_def)
  next
    case False
    let ?hs = "dependents w h (rev (transactions w))"
    show ?thesis
    proof (cases "?hs = []")
      case True
      obtain w' where w': "BRWalletUpdateBalance env (w\<lparr>transactions := remove_last h (transactions w)\<rparr>) = Some w'" "snd r = w'"
        using body t False True by (auto simp: bind_eq_Some_conv split: if_splits)
      show ?thesis using UpdateBalance_same [OF w'(1)] remove_last_distinct [of "transactions w" h] w'(2)
        by (auto simp: same_txs_def removed_def)
    next
      case deps: False
      obtain s r' where s: "for_each (rev ?hs) (\<lambda>d s. do { r \<leftarrow> rem env (snd s) d; Some (fst s @ fst r, snd r) }) ([], w) = Some s"
        and r': "rem env (snd s) h = Some r'" "snd r = snd r'"
        using body t False deps by (auto simp: bind_eq_Some_conv Let_def split: if_splits)
      have "allTx (snd s) = allTx w \<and> txs (snd s) = txs w \<and> (distinct (transactions w) \<longrightarrow> distinct (transactions (snd s)) \<and>
          set (transactions (snd s)) \<subseteq> set (transactions w))" (is "?I s")
      proof (rule for_each_inv [OF s, of ?I])
        fix x s s' assume I: "?I s" and body: "(do { r \<leftarrow> rem env (snd s) x; Some (fst s @ fst r, snd r) }) = Some s'"
        obtain r1 where r1: "rem env (snd s) x = Some r1" "snd s' = snd r1" using body by (auto simp: bind_eq_Some_conv)
        from IH [OF r1(1)] I r1(2) show "?I s'" by (auto simp: removed_def)
      qed simp
      then show ?thesis using IH [OF r'(1)] r'(2) by (auto simp: removed_def)
    qed
  qed
qed

text \<open>
  Claim C17.  When a removal returns, the transaction is no longer in the list of the wallet,
  nothing was added to it, and yet the wallet still finds the transaction by its hash: so
  registering it again answers true and changes nothing.
\<close>

theorem Remove_then_register:
  assumes rep: "tx_set.rep (allTx w) A" and h: "h \<in> A" "distinct (transactions w)"
    and tx: "BRTransactionIsSigned (txs w h)" "txHash (txs w h) = h"
    and r: "BRWalletRemoveTransaction env w h = Some (ev, w')"
  shows "h \<notin> set (transactions w') \<and> set (transactions w') \<subseteq> set (transactions w) \<and>
    BRWalletTransactionForHash w' h = Some (Some h) \<and>
    BRWalletRegisterTransaction env' w' (txs w h) = Some (True, [], w')"
proof -
  have get: "BRSetGet (allTx w) h = Some (Some h)" using tx_set.rep_get [OF rep] h(1) by simp
  have rm: "removed h w w'" using RemoveTransaction_removed [OF r] by simp
  have "h \<noteq> 0" using r by (subst (asm) BRWalletRemoveTransaction.simps) (auto simp: UInt256IsZero_def split: if_splits)
  then have "BRWalletTransactionForHash w' h = Some (Some h)"
    using rm get by (simp add: BRWalletTransactionForHash_def removed_def UInt256IsZero_def)
  moreover have "BRSetContains (allTx w') h = Some True" using rm h(1) tx_set.rep_contains [OF rep] by (simp add: removed_def)
  ultimately show ?thesis using rm h(2) tx get by (auto simp: removed_def BRWalletRegisterTransaction_def)
qed

lemma example_removal:
  "\<exists>w'. BRWalletRemoveTransaction example_env (example_wallet 0xffffffff) 2 = Some (balanceChanged w' @ txDeleted w' 2 True True, w')"
proof -
  let ?w = "example_wallet 0xffffffff" and ?T = "example_txs 0xffffffff"
  let ?L = "ledger_of example_env ?w example_keys [1]"
  have pre: "wallet_ok (?w\<lparr>transactions := [1]\<rparr>) {1, 2} example_keys"
    by (rule wallet_ok_prefix [OF example_wallet_ok, of _ _ "[2]"]) (simp add: example_simps)
  have led: "ledger_of example_env (?w\<lparr>transactions := [1]\<rparr>) example_keys (transactions (?w\<lparr>transactions := [1]\<rparr>)) = ?L"
    by (simp add: ledger_of_transactions)
  obtain w1 where w1: "BRWalletUpdateBalance example_env (?w\<lparr>transactions := [1]\<rparr>) = Some w1" "tx_set.rep (invalidTx w1) {}"
    "allTx w1 = allTx ?w" "txs w1 = ?T" "allPKH w1 = allPKH ?w"
    using UpdateBalance_ledger [OF pre, of example_env] unfolding led example_ledger by (auto simp: example_simps)
  have rep: "tx_set.rep (allTx w1) {1, 2}" "pkh_set.rep (allPKH w1) example_keys"
    using example_wallet_ok [of "0xffffffff"] by (simp_all add: w1 wallet_ok_def)
  have own: "own_pkh w1 (example_pays 9000) = Some True"
    unfolding own_pkh_rep [OF rep(2)] example_pkh by simp
  have tx1: "BRWalletTransactionIsValid w1 (?T 1) = Some True"
    by (subst BRWalletTransactionIsValid.simps) (simp add: example_txs_def BRTransactionIsSigned_def TX_UNCONFIRMED_def)
  have get: "BRSetGet (allTx w1) 1 = Some (Some 1)" "BRSetGet (allTx w1) 2 = Some (Some 2)" "BRSetContains (allTx w1) 2 = Some True"
    "BRSetContains (invalidTx w1) 2 = Some False"
    using tx_set.rep_get [OF rep(1)] tx_set.rep_contains [OF rep(1)] tx_set.rep_contains [OF w1(2)] by simp_all
  have ins: "inputs (?T 2) = [\<lparr>in_txHash = 1, in_index = 0, in_address = [], in_amount = 9000, in_script = None,
      in_signature = Some [], in_witness = Some [], in_sequence = 0xffffffff\<rparr>]" "outputs (?T 1) = [example_pays 9000]"
    "blockHeight (?T 1) \<noteq> TX_UNCONFIRMED" "blockHeight (?T 2) = TX_UNCONFIRMED" "txHash (?T 2) = 2" "BRTransactionIsSigned (?T 2)"
    by (simp_all add: example_txs_def TX_UNCONFIRMED_def BRTransactionIsSigned_def)
  have sent: "BRWalletAmountSentByTx w1 (?T 2) = Some 9000"
    using own by (simp add: BRWalletAmountSentByTx_def ins spent_output_def get(1) w1(4) example_own)
  have "BRWalletTransactionIsValid w1 (?T 2) = Some True"
    by (subst BRWalletTransactionIsValid.simps) (simp add: ins get BRWalletTransactionForHash_def w1(4) tx1)
  then have notice: "removal_notice w1 (?T 2) = Some (True, True)"
    by (simp add: removal_notice_def sent ins BRWalletTransactionForHash_def get w1(4))
  have "dependents ?w 2 [2, 1] = []"
    by (simp add: example_simps example_txs_def TX_UNCONFIRMED_def)
  moreover have "remove_last 2 [1, 2] = [1 :: UInt256]" by (simp add: remove_last_def)
  moreover have "BRSetGet (allTx ?w) 2 = Some (Some 2)" using get(2) by (simp add: w1)
  ultimately show ?thesis
    by (subst BRWalletRemoveTransaction.simps) (simp add: example_simps w1(1,4) notice)
qed

theorem Remove_then_register_witness:
  "\<exists>ev w'. BRWalletRemoveTransaction example_env (example_wallet 0xffffffff) 2 = Some (ev, w') \<and> 2 \<notin> set (transactions w') \<and>
     BRWalletRegisterTransaction example_env w' (example_txs 0xffffffff 2) = Some (True, [], w')"
proof -
  obtain w' where w': "BRWalletRemoveTransaction example_env (example_wallet 0xffffffff) 2 = Some (balanceChanged w' @ txDeleted w' 2 True True, w')"
    using example_removal by blast
  have "BRTransactionIsSigned (txs (example_wallet 0xffffffff) 2)" "txHash (txs (example_wallet 0xffffffff) 2) = 2"
    "distinct (transactions (example_wallet 0xffffffff))"
    by (simp_all add: example_simps example_txs_def BRTransactionIsSigned_def)
  from Remove_then_register [OF example_rep _ this(3,1,2) w', of example_env] w'
  show ?thesis by (auto simp: example_simps)
qed

end
