(* ===== verification/WalletCreate_Correct.thy ===== *)
theory WalletCreate_Correct
  imports WalletRegister_Correct "HOL-Library.Sublist"
begin

text \<open>
  Making a transaction that pays given outputs: what the selected inputs are worth, and a
  wallet for which the call never returns.
\<close>

unbundle bit_operations_syntax

section \<open>Adding inputs and outputs with a script to a key hash\<close>

lemma address_field_pkh:
  assumes "length h = 20"
  shows "\<exists>a. address_field (BRAddressFromScriptPubKey (pkh_script h)) = Some a"
  using BRBase58CheckEncode_fits [of "BITCOIN_PUBKEY_ADDRESS # h" "replicate 75 0"] assms
  by (simp add: address_field_def BRAddressFromScriptPubKey_scripts(1) [OF assms])

lemma AddOutput_pkh:
  assumes "length h = 20"
  shows "\<exists>a. BRTransactionAddOutput amount (Some (pkh_script h)) tx =
    Some (tx\<lparr>outputs := outputs tx @ [\<lparr>out_address = a, out_amount = amount, out_script = Some (pkh_script h)\<rparr>]\<rparr>)"
  using address_field_pkh [OF assms] by (auto simp: BRTransactionAddOutput_def BRTxOutputSetScript_def)

lemma AddInput_pkh:
  assumes "length h = 20" and "prev \<noteq> 0"
  shows "\<exists>a. BRTransactionAddInput prev n amount (Some (pkh_script h)) None None sequence tx =
    Some (tx\<lparr>inputs := inputs tx @ [\<lparr>in_txHash = prev, in_index = n, in_address = a, in_amount = amount,
      in_script = Some (pkh_script h), in_signature = None, in_witness = None, in_sequence = sequence\<rparr>]\<rparr>)"
  using address_field_pkh [OF assms(1)] assms(2) by (auto simp: BRTransactionAddInput_def BRTxInputSetScript_def Let_def)

section \<open>Fees\<close>

lemma txFee_exact:
  assumes "sz * unat f + 100000 < 2 ^ 64" and "sz * 1000 < 2 ^ 64"
  shows "unat (txFee f sz) = max sz ((sz * unat f div 1000 + 99) div 100 * 100)"
proof -
  have sz: "unat (word_of_nat sz :: u64) = sz" using assms(2) by (intro unat_of_nat_small) simp
  have std: "unat (word_of_nat sz * TX_FEE_PER_KB div 1000 :: u64) = sz"
    using assms(2) by (simp add: unat_div unat_mult_mod sz TX_FEE_PER_KB_def)
  have "unat (word_of_nat sz * f div 1000 :: u64) = sz * unat f div 1000"
    using assms(1) by (simp add: unat_div unat_mult_mod sz)
  moreover have "sz * unat f div 1000 \<le> sz * unat f" by (rule div_le_dividend)
  ultimately have "unat (word_of_nat sz * f div 1000 + 99 :: u64) = sz * unat f div 1000 + 99"
    using assms(1) by (simp add: unat_add_mod)
  moreover have "(sz * unat f div 1000 + 99) div 100 * 100 < 2 ^ 64"
    using assms(1) \<open>sz * unat f div 1000 \<le> sz * unat f\<close> by linarith
  ultimately have fee: "unat ((word_of_nat sz * f div 1000 + 99) div 100 * 100 :: u64) = (sz * unat f div 1000 + 99) div 100 * 100"
    by (simp add: unat_div unat_mult_mod)
  show ?thesis
    unfolding txFee_def Let_def by (simp add: word_less_nat_alt std fee)
qed

section \<open>A wallet for which the call does not return\<close>

text \<open>700 outputs of 1000001 satoshis each: more inputs than fit into one transaction.\<close>

abbreviation big_script :: "byte list" where "big_script \<equiv> pkh_script (replicate 20 7)"

definition big_txs :: "UInt256 \<Rightarrow> BRTransaction" where
  "big_txs h = \<lparr>txHash = h, wtxHash = h, tx_version = 1, inputs = [], outputs = replicate 700 (example_pays 1000001),
     lockTime = 0, blockHeight = 100, tx_timestamp = 0\<rparr>"

definition big_wallet :: BRWallet where
  "big_wallet = (example_before 0)\<lparr>txs := big_txs, utxos := map (\<lambda>j. \<lparr>u_hash = 1, u_n = word_of_nat j\<rparr>) [0..<700],
     balance := 700000700\<rparr>"

lemma example_script: "out_script (example_pays v) = Some big_script"
  by (simp add: example_pays_def pkh_script_def)

lemma big_wallet_fields:
  "feePerKb big_wallet = 10000" "balance big_wallet = 700000700" "length (utxos big_wallet) = 700"
  "BRWalletMinOutputAmount big_wallet = 5460"
  by (simp_all add: big_wallet_def example_before_def example_wallet_def DEFAULT_FEE_PER_KB_def TX_FEE_PER_KB_def
      BRWalletMinOutputAmount_def TX_MIN_OUTPUT_AMOUNT_def TX_OUTPUT_SIZE_def TX_INPUT_SIZE_def MIN_FEE_PER_KB_def Let_def)

lemma big_utxo:
  assumes "u \<in> set (utxos big_wallet)"
  shows "utxo_output big_wallet u = Some (Some (1, example_pays 1000001))"
proof -
  obtain j where j: "j < 700" "u = \<lparr>u_hash = 1, u_n = word_of_nat j\<rparr>" using assms by (auto simp: big_wallet_def)
  have "unat (word_of_nat j :: u32) = j" using j(1) by (intro unat_of_nat_small) simp
  moreover have "tx_set.rep (allTx big_wallet) {1}"
    using example_before_inv [of 0] by (simp add: wallet_inv_def wallet_ok_def big_wallet_def)
  ultimately show ?thesis
    using j tx_set.rep_get [of "allTx big_wallet" "{1}" 1] by (simp add: utxo_output_def) (simp add: big_wallet_def big_txs_def)
qed

text \<open>A transaction with \<open>n\<close> unsigned inputs and one output.\<close>

definition big_tx :: "nat \<Rightarrow> BRTransaction \<Rightarrow> bool" where
  "big_tx n tx \<longleftrightarrow> length (inputs tx) = n \<and> (\<forall>i \<in> set (inputs tx). input_size i = (TX_INPUT_SIZE, 0)) \<and>
     map output_size (outputs tx) = [34]"

lemma big_tx_size:
  assumes "big_tx n tx" and "n < 1000"
  shows "BRTransactionVSize tx = 43 + (if n < 253 then 1 else 3) + 148 * n"
proof -
  have "map (\<lambda>i. fst (input_size i)) (inputs tx) = replicate n 148" "map (\<lambda>i. snd (input_size i)) (inputs tx) = replicate n 0"
    using assms(1) by (auto simp: big_tx_def TX_INPUT_SIZE_def map_replicate_const [symmetric] intro!: replicate_eqI)
  moreover have "BRVarIntSize (word_of_nat n) = (if n < 253 then 1 else 3)"
  proof -
    have "unat (word_of_nat n :: u64) = n" using assms(2) by (intro unat_of_nat_small) simp
    then show ?thesis using assms(2) by (simp add: BRVarIntSize_varint varint_def word_less_nat_alt word_le_nat_alt)
  qed
  moreover have "length (outputs tx) = 1" using assms(1) by (metis big_tx_def length_map list.size(3,4) One_nat_def add.left_neutral plus_1_eq_Suc)
  moreover have "BRVarIntSize 1 = 1" by (simp add: BRVarIntSize_varint varint_def)
  ultimately show ?thesis
    using assms(1) by (simp add: BRTransactionVSize_def tx_sizes_def Let_def big_tx_def sum_list_replicate)
qed

definition big_amounts :: "u64 set" where
  "big_amounts = {698000000, 674000875, 674000850, 674000825, 674000800}"

definition big_fee :: "u64 \<Rightarrow> u64" where
  "big_fee amount = 999800 + (700000700 - (amount + 999800)) mod 100"

lemma big_bound:
  assumes "s \<le> 100000"
  shows "unat (txFee 10000 s) \<le> 1000100"
  using txFee_exact [of s 10000] assms by simp

text \<open>Before the input 675 the selection does not stop.\<close>

lemma big_continues:
  assumes "amount \<in> big_amounts" and "n \<le> 674" and "unat (fee :: u64) \<le> 1000100"
  shows "\<not> (word_of_nat (n * 1000001) = amount + (fee + m mod 100) \<or> word_of_nat (n * 1000001) \<ge> amount + (fee + m mod 100) + 5460)"
    and "\<not> (word_of_nat (n * 1000001) = amount + fee \<or> word_of_nat (n * 1000001) \<ge> amount + fee + 5460)"
proof -
  have n: "unat (word_of_nat (n * 1000001) :: u64) = n * 1000001" using assms(2) by (intro unat_of_nat_small) simp
  have am: "674000800 \<le> unat amount" "unat amount \<le> 698000000" using assms(1) by (auto simp: big_amounts_def)
  have "unat (m mod 100) < 100" by (simp add: unat_mod)
  then have f: "unat (fee + m mod 100) \<le> 1000200" using assms(3) by (simp add: unat_add_mod)
  have *: "\<not> (word_of_nat (n * 1000001) = amount + x \<or> word_of_nat (n * 1000001) \<ge> amount + x + 5460)" if x: "unat x \<le> 1000200" for x :: u64
  proof -
    have "unat (amount + x) = unat amount + unat x" using am x by (simp add: unat_add_mod)
    moreover have "unat (amount + x + 5460) = unat amount + unat x + 5460" using calculation am x by (simp add: unat_add_mod)
    ultimately show ?thesis using n am assms(2) by (auto simp: word_le_nat_alt dest!: arg_cong [of _ _ unat])
  qed
  show "\<not> (word_of_nat (n * 1000001) = amount + (fee + m mod 100) \<or> word_of_nat (n * 1000001) \<ge> amount + (fee + m mod 100) + 5460)"
    by (rule * [OF f])
  show "\<not> (word_of_nat (n * 1000001) = amount + fee \<or> word_of_nat (n * 1000001) \<ge> amount + fee + 5460)"
    using assms(3) by (intro *) simp
qed

lemma big_last:
  assumes "amount \<in> big_amounts"
  shows "txFee 10000 99980 = 999800" "700000700 > amount + 999800" "999800 + (700000700 - (amount + 999800)) mod 100 = big_fee amount"
    "\<not> (675000675 = amount + big_fee amount \<or> 675000675 \<ge> amount + big_fee amount + 5460)"
  using assms by (auto simp: txFee_def TX_FEE_PER_KB_def big_amounts_def big_fee_def)

lemma select_continue:
  assumes "utxo_output w u = Some (Some (h, out))"
    and "BRTransactionAddInput h (u_n u) (out_amount out) (out_script out) None None TXIN_SEQUENCE tx = Some tx1"
    and "BRTransactionVSize tx1 + TX_OUTPUT_SIZE \<le> TX_MAX_SIZE" and "bal1 = funds + out_amount out"
    and "F = txFee (feePerKb w) (BRTransactionVSize tx1 + TX_OUTPUT_SIZE)"
    and "fee1 = (if balance w > amount + F then F + (balance w - (amount + F)) mod 100 else F)"
    and "\<not> (bal1 = amount + fee1 \<or> bal1 \<ge> amount + fee1 + minAmount)"
  shows "select_utxos w amount minAmount (u # us) tx funds fee = select_utxos w amount minAmount us tx1 bal1 fee1"
  unfolding select_utxos.simps assms(1) option.case prod.case assms(2) Let_def assms(4,5) [symmetric] assms(6) [symmetric]
    if_not_P [OF assms(7)] using assms(3) by simp

lemma big_select:
  assumes amount: "amount \<in> big_amounts"
  shows "big_tx n tx \<Longrightarrow> n \<le> 675 \<Longrightarrow> n + length us = 700 \<Longrightarrow> set us \<subseteq> set (utxos big_wallet) \<Longrightarrow> (n = 675 \<longrightarrow> fee = big_fee amount) \<Longrightarrow>
    \<exists>tx'. select_utxos big_wallet amount 5460 us tx (word_of_nat (n * 1000001)) fee = Some (True, tx', 675000675, big_fee amount)"
proof (induction us arbitrary: n tx fee)
  case (Cons u us)
  obtain a where a: "BRTransactionAddInput 1 (u_n u) 1000001 (Some big_script) None None TXIN_SEQUENCE tx =
      Some (tx\<lparr>inputs := inputs tx @ [\<lparr>in_txHash = 1, in_index = u_n u, in_address = a, in_amount = 1000001,
        in_script = Some big_script, in_signature = None, in_witness = None, in_sequence = TXIN_SEQUENCE\<rparr>]\<rparr>)"
    using AddInput_pkh [of "replicate 20 7" 1] by fastforce
  define tx1 where "tx1 = tx\<lparr>inputs := inputs tx @ [\<lparr>in_txHash = 1, in_index = u_n u, in_address = a, in_amount = 1000001,
        in_script = Some big_script, in_signature = None, in_witness = None, in_sequence = TXIN_SEQUENCE\<rparr>]\<rparr>"
  have tx1: "big_tx (Suc n) tx1"
    using Cons.prems(1) by (simp add: tx1_def big_tx_def input_size_def is_p2wpkh_input_def pkh_script_def OP_DUP_def OP_0_def)
  have utxo: "utxo_output big_wallet u = Some (Some (1, example_pays 1000001))" using Cons.prems(4) by (intro big_utxo) simp
  have sz: "BRTransactionVSize tx1 = 43 + (if Suc n < 253 then 1 else 3) + 148 * Suc n"
    using Cons.prems(2) by (intro big_tx_size [OF tx1]) simp
  show ?case
  proof (cases "n = 675")
    case True
    then show ?thesis
      using Cons.prems(5) sz a
      by (simp add: utxo example_own example_script tx1_def [symmetric] TX_OUTPUT_SIZE_def TX_MAX_SIZE_def Let_def)
  next
    case False
    let ?fee = "txFee 10000 (BRTransactionVSize tx1 + 34)" and ?bal = "word_of_nat (Suc n * 1000001) :: u64"
    define fee1 where "fee1 = (if 700000700 > amount + ?fee then ?fee + (700000700 - (amount + ?fee)) mod 100 else ?fee)"
    have n: "Suc n \<le> 675" using False Cons.prems(2) by simp
    then have small: "BRTransactionVSize tx1 + 34 \<le> 100000" unfolding sz by simp
    have bal: "word_of_nat (n * 1000001) + 1000001 = ?bal" by (simp add: algebra_simps)
    have "Suc n = 675 \<longrightarrow> fee1 = big_fee amount \<and> ?bal = 675000675"
    proof
      assume "Suc n = 675"
      then show "fee1 = big_fee amount \<and> ?bal = 675000675"
        using big_last [OF amount] unfolding fee1_def sz by simp
    qed
    moreover have "\<not> (?bal = amount + fee1 \<or> ?bal \<ge> amount + fee1 + 5460)"
    proof (cases "Suc n = 675")
      case True
      then have "fee1 = big_fee amount" "?bal = 675000675" using calculation by blast+
      then show ?thesis using big_last(4) [OF amount] by (simp only: not_False_eq_True)
    next
      case False
      then have less: "Suc n \<le> 674" using n by simp
      have "fee1 = ?fee + (700000700 - (amount + ?fee)) mod 100 \<or> fee1 = ?fee" by (simp add: fee1_def)
      then show ?thesis
        using big_continues(1) [OF amount less big_bound [OF small]] big_continues(2) [OF amount less big_bound [OF small]]
        by (elim disjE) (simp_all only: not_False_eq_True)
    qed
    moreover obtain tx' where "select_utxos big_wallet amount 5460 us tx1 ?bal fee1 = Some (True, tx', 675000675, big_fee amount)"
      using Cons.IH [OF tx1 n, of fee1] Cons.prems(3,4) calculation(1) by auto
    moreover have "select_utxos big_wallet amount 5460 (u # us) tx (word_of_nat (n * 1000001)) fee = select_utxos big_wallet amount 5460 us tx1 ?bal fee1"
    proof (rule select_continue [OF utxo])
      show "BRTransactionAddInput 1 (u_n u) (out_amount (example_pays 1000001)) (out_script (example_pays 1000001)) None None
          TXIN_SEQUENCE tx = Some tx1"
        using a by (simp add: example_own example_script tx1_def)
      show "BRTransactionVSize tx1 + TX_OUTPUT_SIZE \<le> TX_MAX_SIZE" using small by (simp add: TX_OUTPUT_SIZE_def TX_MAX_SIZE_def)
      show "?bal = word_of_nat (n * 1000001) + out_amount (example_pays 1000001)" using bal by (simp add: example_own)
      show "?fee = txFee (feePerKb big_wallet) (BRTransactionVSize tx1 + TX_OUTPUT_SIZE)" by (simp add: big_wallet_fields TX_OUTPUT_SIZE_def)
      show "fee1 = (if balance big_wallet > amount + ?fee then ?fee + (balance big_wallet - (amount + ?fee)) mod 100 else ?fee)"
        by (simp add: fee1_def big_wallet_fields)
      show "\<not> (?bal = amount + fee1 \<or> ?bal \<ge> amount + fee1 + 5460)" by fact
    qed
    ultimately show ?thesis by auto
  qed
qed simp

definition big_next :: "u64 \<Rightarrow> u64" where
  "big_next amount = 675000675 - big_fee amount"

lemma big_next_again:
  assumes "amount \<in> big_amounts"
  shows "big_next amount \<in> big_amounts" "amount - (amount + big_fee amount - 675000675) = big_next amount"
    "amount > amount + big_fee amount + 5460 - 675000675" "\<not> 700000700 < amount + 1036800"
  using assms by (auto simp: big_amounts_def big_next_def big_fee_def)

lemma big_outputs: "\<exists>tx. add_outputs [example_pays v] = Some tx \<and> big_tx 0 tx"
proof -
  obtain a where "BRTransactionAddOutput v (Some big_script) BRTransactionNew =
      Some (BRTransactionNew\<lparr>outputs := [\<lparr>out_address = a, out_amount = v, out_script = Some big_script\<rparr>]\<rparr>)"
    using AddOutput_pkh [of "replicate 20 7" v BRTransactionNew] by (auto simp: BRTransactionNew_def)
  then show ?thesis
    by (auto simp: add_outputs_def example_script example_own array_of_def pkh_script_def big_tx_def BRTransactionNew_def output_size_def
        BRVarIntSize_varint varint_def Let_def)
qed

lemma big_body:
  assumes amount: "amount \<in> big_amounts"
  shows "(if [example_pays amount] = [] then None
      else do {
        tx \<leftarrow> add_outputs [example_pays amount];
        let amount' = sum_list (map out_amount [example_pays amount]);
        let minAmount = BRWalletMinOutputAmount big_wallet;
        let fee = txFee (feePerKb big_wallet) (BRTransactionVSize tx + TX_OUTPUT_SIZE);
        r \<leftarrow> select_utxos big_wallet amount' minAmount (utxos big_wallet) tx 0 fee;
        (case r of (large, tx, funds, fee) \<Rightarrow>
          if large then
            (if balance big_wallet < amount' + txFee (feePerKb big_wallet)
                (10 + length (utxos big_wallet) * TX_INPUT_SIZE + (length [example_pays amount] + 1) * TX_OUTPUT_SIZE)
             then Some (None, big_wallet)
             else if out_amount (last [example_pays amount]) > amount' + fee + minAmount - funds
             then f env rand big_wallet
               (butlast [example_pays amount] @ [(last [example_pays amount])\<lparr>out_amount := out_amount (last [example_pays amount]) - (amount' + fee - funds)\<rparr>])
             else f env rand big_wallet (butlast [example_pays amount]))
          else if funds < amount' + fee then Some (None, big_wallet)
          else if funds - (amount' + fee) > minAmount
          then map_option (\<lambda>(tx, w). (Some tx, w)) (add_change env rand big_wallet (funds - (amount' + fee)) tx)
          else Some (Some tx, big_wallet))
      }) = f env rand big_wallet [example_pays (big_next amount)]"
proof -
  obtain tx where tx: "add_outputs [example_pays amount] = Some tx" "big_tx 0 tx" using big_outputs by blast
  have "\<exists>tx'. select_utxos big_wallet amount 5460 (utxos big_wallet) tx 0 fee = Some (True, tx', 675000675, big_fee amount)" for fee
    using big_select [OF amount tx(2), of "utxos big_wallet" fee] big_wallet_fields(3) by simp
  then obtain g where sel: "select_utxos big_wallet amount 5460 (utxos big_wallet) tx 0 fee = Some (True, g fee, 675000675, big_fee amount)" for fee
    by metis
  have fee: "txFee 10000 (10 + 700 * TX_INPUT_SIZE + (1 + 1) * TX_OUTPUT_SIZE) = 1036800"
    by (simp add: txFee_def TX_FEE_PER_KB_def TX_INPUT_SIZE_def TX_OUTPUT_SIZE_def)
  have upd: "(example_pays v)\<lparr>out_amount := v'\<rparr> = example_pays v'" for v v' by (simp add: example_pays_def)
  show ?thesis
    using big_next_again(2-4) [OF amount] fee
    by (simp add: tx(1) sel big_wallet_fields example_own Let_def upd)
qed

text \<open>
  Claim C14.  A wallet holds 700 outputs of 1000001 satoshis and is asked to pay 698000000 of its
  700000700.  The inputs do not fit into one transaction, so the function calls itself with
  the amount reduced to what fits; but rounding the fee to the rest of the balance gives
  another fee there, the amount is reduced again, and after four calls it is back where it
  was: the function calls itself for ever.
\<close>

theorem CreateTx_never_returns:
  "BRWalletCreateTxForOutputs env rand big_wallet [example_pays 698000000] = BRWalletCreateTxForOutputs env rand big_wallet [example_pays 674000875] \<and>
   BRWalletCreateTxForOutputs env rand big_wallet [example_pays 674000875] = BRWalletCreateTxForOutputs env rand big_wallet [example_pays 674000850] \<and>
   BRWalletCreateTxForOutputs env rand big_wallet [example_pays 674000850] = BRWalletCreateTxForOutputs env rand big_wallet [example_pays 674000825] \<and>
   BRWalletCreateTxForOutputs env rand big_wallet [example_pays 674000825] = BRWalletCreateTxForOutputs env rand big_wallet [example_pays 674000800] \<and>
   BRWalletCreateTxForOutputs env rand big_wallet [example_pays 674000800] = BRWalletCreateTxForOutputs env rand big_wallet [example_pays 674000875] \<and>
   BRWalletCreateTxForOutputs env rand big_wallet [example_pays 698000000] = None"
proof -
  have again: "BRWalletCreateTxForOutputs env rand big_wallet [example_pays v] = BRWalletCreateTxForOutputs env rand big_wallet [example_pays (big_next v)]"
    if "v \<in> big_amounts" for v
    by (subst BRWalletCreateTxForOutputs.simps) (rule big_body [OF that])
  have nexts: "big_next 698000000 = 674000875" "big_next 674000875 = 674000850" "big_next 674000850 = 674000825"
    "big_next 674000825 = 674000800" "big_next 674000800 = 674000875"
    by (simp_all add: big_next_def big_fee_def)
  have amounts: "698000000 \<in> big_amounts" "674000875 \<in> big_amounts" "674000850 \<in> big_amounts" "674000825 \<in> big_amounts" "674000800 \<in> big_amounts"
    by (simp_all add: big_amounts_def)
  note calls = again [OF amounts(1), unfolded nexts(1)] again [OF amounts(2), unfolded nexts(2)] again [OF amounts(3), unfolded nexts(3)]
    again [OF amounts(4), unfolded nexts(4)] again [OF amounts(5), unfolded nexts(5)]
  have none: "BRWalletCreateTxForOutputs env rand big_wallet [example_pays v] \<noteq> Some r" if "v \<in> big_amounts" for v r
  proof
    assume "BRWalletCreateTxForOutputs env rand big_wallet [example_pays v] = Some r"
    then have "big_wallet = big_wallet \<longrightarrow> (\<forall>v' \<in> big_amounts. [example_pays v] \<noteq> [example_pays v'])"
    proof (rule BRWalletCreateTxForOutputs.raw_induct
        [where P = "\<lambda>env rand w outs r. w = big_wallet \<longrightarrow> (\<forall>v' \<in> big_amounts. outs \<noteq> [example_pays v'])", rotated], goal_cases)
      case (1 f env rand w outs r)
      show ?case
      proof (intro impI ballI notI)
        fix v' assume w: "w = big_wallet" and v': "v' \<in> big_amounts" and outs: "outs = [example_pays v']"
        have "f env rand big_wallet [example_pays (big_next v')] = Some r"
          using 1(2) unfolding w outs big_body [OF v'] .
        from 1(1) [OF this] show False using big_next_again(1) [OF v'] by blast
      qed
    qed
    then show False using that by blast
  qed
  have "BRWalletCreateTxForOutputs env rand big_wallet [example_pays 698000000] = None"
    using none [OF amounts(1)] by (metis not_None_eq)
  then show ?thesis by (intro conjI calls)
qed

section \<open>What a transaction that is returned pays\<close>























end
