(* ===== verification/WalletHeights_Correct.thy ===== *)
theory WalletHeights_Correct
  imports WalletCreate_Correct
begin

text \<open>
  Confirming transactions, and the fee for a size.
\<close>

unbundle bit_operations_syntax

section \<open>The fee for a size\<close>

text \<open>
  Claim C19.  The fee for a transaction of a given size is the larger of one satoshi for each
  byte and the fee of the wallet's rate rounded up to a multiple of 100; so it is at least
  both, and at most 99 satoshis more than the larger, as long as the products fit.
\<close>

theorem FeeForTxSize_bounds:
  assumes "sz * unat (feePerKb w) + 100000 < 2 ^ 64" and "sz * 1000 < 2 ^ 64"
  shows "sz \<le> unat (BRWalletFeeForTxSize w sz) \<and> sz * unat (feePerKb w) div 1000 \<le> unat (BRWalletFeeForTxSize w sz) \<and>
    unat (BRWalletFeeForTxSize w sz) \<le> max sz (sz * unat (feePerKb w) div 1000 + 99) \<and>
    (unat (BRWalletFeeForTxSize w sz) = sz \<or> unat (BRWalletFeeForTxSize w sz) mod 100 = 0)"
proof -
  define r where "r = sz * unat (feePerKb w) div 1000"
  have fee: "unat (BRWalletFeeForTxSize w sz) = max sz ((r + 99) div 100 * 100)"
    unfolding BRWalletFeeForTxSize_def r_def by (rule txFee_exact [OF assms])
  define q where "q = (r + 99) div 100 * 100"
  have "q + (r + 99) mod 100 = r + 99" "(r + 99) mod 100 < 100" by (simp_all add: q_def)
  then have "r \<le> q" "q \<le> r + 99" by linarith+
  moreover have "q mod 100 = 0" by (simp add: q_def)
  ultimately show ?thesis
    unfolding fee r_def [symmetric] q_def [symmetric] by (auto simp: max_def)
qed

theorem FeeForTxSize_bounds_witness:
  "2260 \<le> unat (BRWalletFeeForTxSize (example_wallet 0) 226) \<and> unat (BRWalletFeeForTxSize (example_wallet 0) 226) \<le> 2359"
proof -
  have "feePerKb (example_wallet 0) = 10000" by (simp add: example_wallet_def DEFAULT_FEE_PER_KB_def TX_FEE_PER_KB_def)
  then show ?thesis using FeeForTxSize_bounds [of 226 "example_wallet 0"] by simp
qed

section \<open>Confirming transactions\<close>

text \<open>A wallet whose list and whose transactions' heights and times have changed, and nothing else.\<close>

definition restamped :: "BRWallet \<Rightarrow> BRWallet \<Rightarrow> bool" where
  "restamped w w' \<longleftrightarrow> w' = w\<lparr>transactions := transactions w', txs := txs w'\<rparr> \<and> mset (transactions w') = mset (transactions w) \<and>
     (\<forall>h. txs w' h = (txs w h)\<lparr>tx_timestamp := tx_timestamp (txs w' h), blockHeight := blockHeight (txs w' h)\<rparr>)"

definition stamp :: "u32 \<Rightarrow> u32 \<Rightarrow> BRTransaction \<Rightarrow> BRTransaction" where
  "stamp bh ts tx = tx\<lparr>tx_timestamp := ts, blockHeight := bh\<rparr>"

lemma restamped_fields:
  assumes "restamped w w'"
  shows "inputs (txs w' h) = inputs (txs w h)" "outputs (txs w' h) = outputs (txs w h)" "txHash (txs w' h) = txHash (txs w h)"
    "allTx w' = allTx w" "allPKH w' = allPKH w" "internalChain w' = internalChain w" "externalChain w' = externalChain w"
    "spentOutputs w' = spentOutputs w" "pendingTx w' = pendingTx w" "invalidTx w' = invalidTx w" "usedPKH w' = usedPKH w"
    "set (transactions w') = set (transactions w)" "length (transactions w') = length (transactions w)"
    "balanceHist w' = balanceHist w" "balance w' = balance w" "utxos w' = utxos w"
proof -
  have h: "txs w' h = (txs w h)\<lparr>tx_timestamp := tx_timestamp (txs w' h), blockHeight := blockHeight (txs w' h)\<rparr>"
    using assms by (simp add: restamped_def)
  show "inputs (txs w' h) = inputs (txs w h)" "outputs (txs w' h) = outputs (txs w h)" "txHash (txs w' h) = txHash (txs w h)"
    by (subst h, simp)+
  have w: "w' = w\<lparr>transactions := transactions w', txs := txs w'\<rparr>" using assms by (simp add: restamped_def)
  show "allTx w' = allTx w" "allPKH w' = allPKH w" "internalChain w' = internalChain w" "externalChain w' = externalChain w"
    "spentOutputs w' = spentOutputs w" "pendingTx w' = pendingTx w" "invalidTx w' = invalidTx w" "usedPKH w' = usedPKH w"
    "balanceHist w' = balanceHist w" "balance w' = balance w" "utxos w' = utxos w"
    by (subst w, simp)+
  show "set (transactions w') = set (transactions w)" "length (transactions w') = length (transactions w)"
    using assms by (auto simp: restamped_def dest: mset_eq_setD mset_eq_length)
qed

lemma restamped_refl: "restamped w w"
  by (simp add: restamped_def)

lemma restamped_trans:
  assumes "restamped w1 w2" and "restamped w2 w3"
  shows "restamped w1 w3"
proof -
  have h: "txs w3 h = (txs w1 h)\<lparr>tx_timestamp := tx_timestamp (txs w3 h), blockHeight := blockHeight (txs w3 h)\<rparr>" for h
  proof -
    have "txs w3 h = (txs w2 h)\<lparr>tx_timestamp := tx_timestamp (txs w3 h), blockHeight := blockHeight (txs w3 h)\<rparr>"
      using assms(2) by (simp add: restamped_def)
    also have "txs w2 h = (txs w1 h)\<lparr>tx_timestamp := tx_timestamp (txs w2 h), blockHeight := blockHeight (txs w2 h)\<rparr>"
      using assms(1) by (simp add: restamped_def)
    finally show ?thesis by simp
  qed
  have "w3 = w2\<lparr>transactions := transactions w3, txs := txs w3\<rparr>" using assms(2) by (simp add: restamped_def)
  also have "w2 = w1\<lparr>transactions := transactions w2, txs := txs w2\<rparr>" using assms(1) by (simp add: restamped_def)
  finally have "w3 = w1\<lparr>transactions := transactions w3, txs := txs w3\<rparr>" by simp
  then show ?thesis using assms h unfolding restamped_def by simp
qed

lemma ContainsTx_restamped:
  assumes "restamped w w'"
  shows "BRWalletContainsTx w' (txs w' h) = BRWalletContainsTx w (txs w h)"
proof -
  have "own_pkh w' = own_pkh w" by (rule ext) (unfold own_pkh_def restamped_fields(5) [OF assms], rule refl)
  moreover have "spent_output w' = spent_output w"
    by (rule ext) (unfold spent_output_def restamped_fields(2,4) [OF assms], rule refl)
  ultimately show ?thesis unfolding BRWalletContainsTx_def restamped_fields(1,2) [OF assms] by (simp only:)
qed

lemma wallet_inv_restamped:
  assumes "wallet_inv w A" and r: "restamped w w'" and "sorted (map (height w') (transactions w'))"
  shows "wallet_inv w' A"
proof -
  note f = restamped_fields [OF r]
  have "wallet_keys w' = wallet_keys w" by (simp add: wallet_keys_def f)
  moreover have "inputs_of (txs w' h) = inputs_of (txs w h)" for h by (simp add: inputs_of_def f)
  ultimately have "wallet_ok w' A (wallet_keys w')"
    using assms(1) unfolding wallet_inv_def wallet_ok_def by (simp add: outs_ok_def f)
  moreover have "spend_order w' A = spend_order w A" by (simp add: spend_order_def f)
  moreover have "distinct (transactions w')"
    using assms(1) r by (metis mset_eq_imp_distinct_iff restamped_def wallet_inv_def)
  ultimately show ?thesis using assms(1,3) by (simp add: wallet_inv_def f)
qed

text \<open>One hash of the loop: the transaction is stamped, taken out and inserted where its height puts it.\<close>

lemma update_one_restamps:
  assumes inv: "wallet_inv w A" and h: "h \<in> set (transactions w)"
    and flags: "BRSetContains (pendingTx w) h = Some False" "BRSetContains (invalidTx w) h = Some False"
    and own: "BRWalletContainsTx w (txs w h) = Some True"
  shows "\<exists>w' acc'. update_one bh ts h (w, acc, False) = Some (w', acc', False) \<and> restamped w w' \<and> wallet_inv w' A \<and>
    txs w' = (txs w)(h := stamp bh ts (txs w h))"
proof (cases "blockHeight (txs w h) = bh \<and> tx_timestamp (txs w h) = ts")
  case True
  have rep: "tx_set.rep (allTx w) A" "h \<in> A" using inv h by (auto simp: wallet_inv_def wallet_ok_def)
  then have "BRSetGet (allTx w) h = Some (Some h)" using tx_set.rep_get [OF rep(1)] by simp
  then have "update_one bh ts h (w, acc, False) = Some (w, acc, False)" using True by (simp add: update_one_def)
  moreover have "(txs w)(h := stamp bh ts (txs w h)) = txs w" using True by (auto simp: stamp_def)
  ultimately show ?thesis using inv restamped_refl by metis
next
  case False
  have rep: "tx_set.rep (allTx w) A" "h \<in> A" using inv h by (auto simp: wallet_inv_def wallet_ok_def)
  have get: "BRSetGet (allTx w) h = Some (Some h)" using tx_set.rep_get [OF rep(1)] rep(2) by simp
  define w1 where "w1 = w\<lparr>txs := (txs w)(h := stamp bh ts (txs w h))\<rparr>"
  have r1: "restamped w w1" by (auto simp: restamped_def w1_def stamp_def)
  have own1: "BRWalletContainsTx w1 (stamp bh ts (txs w h)) = Some True"
    using ContainsTx_restamped [OF r1, of h] own by (simp add: w1_def)
  let ?rest = "remove_last h (transactions w)"
  have d: "distinct (transactions w)" and st: "sorted (map (height w) (transactions w))" using inv by (simp_all add: wallet_inv_def)
  have rest: "?rest = filter (\<lambda>t. t \<noteq> h) (transactions w)"
    using d by (simp add: remove_last_def distinct_remove1_removeAll removeAll_filter_not_eq rev_filter neq_commute)
  have same: "map (height w1) ?rest = map (height w) ?rest" by (simp add: rest w1_def)
  have "sorted (map (height w1) ?rest)" unfolding same unfolding rest by (rule sorted_filter [OF st])
  moreover have "spend_order (w1\<lparr>transactions := ?rest\<rparr>) A = spend_order w A"
    by (auto simp: spend_order_def w1_def stamp_def)
  moreover have "tx_set.rep (allTx (w1\<lparr>transactions := ?rest\<rparr>)) A" using rep(1) by (simp add: w1_def)
  ultimately obtain tss where ins: "BRWalletInsertTx (w1\<lparr>transactions := ?rest\<rparr>) h = Some (w1\<lparr>transactions := tss\<rparr>)"
    "sorted (map (height w1) tss)" "mset tss = add_mset h (mset ?rest)"
    using InsertTx_sorted [of "w1\<lparr>transactions := ?rest\<rparr>" A h] inv by (auto simp: wallet_inv_def)
  have ms: "mset tss = mset (transactions w)"
    using ins(3) h d by (simp add: remove_last_def)
  have flags1: "BRSetContains (pendingTx w1) h = Some False" "BRSetContains (invalidTx w1) h = Some False"
    using flags by (simp_all add: w1_def)
  have "update_one bh ts h (w, acc, False) = Some (w1\<lparr>transactions := tss\<rparr>, acc @ [h], False)"
  proof -
    have w1': "w\<lparr>txs := (txs w)(h := (txs w h)\<lparr>tx_timestamp := ts, blockHeight := bh\<rparr>)\<rparr> = w1" by (simp add: w1_def stamp_def)
    have at: "txs w1 h = stamp bh ts (txs w h)" and tw: "transactions w1 = transactions w" by (simp_all add: w1_def)
    have ne: "(Some h = None \<or> blockHeight (txs w h) = bh \<and> tx_timestamp (txs w h) = ts) = False" using False by simp
    show ?thesis
      unfolding update_one_def prod.case get bind.bind_lunit ne if_False Let_def w1' at own1 tw
      using h ins(1) flags1 by simp
  qed
  moreover have r: "restamped w (w1\<lparr>transactions := tss\<rparr>)" using r1 ms by (simp add: restamped_def w1_def)
  moreover have "wallet_inv (w1\<lparr>transactions := tss\<rparr>) A" by (rule wallet_inv_restamped [OF inv r]) (use ins(2) in simp)
  ultimately show ?thesis by (intro exI [of _ "w1\<lparr>transactions := tss\<rparr>"] exI [of _ "acc @ [h]"]) (simp add: w1_def)
qed

lemma update_all_restamps:
  assumes "wallet_inv w A" and "set hs \<subseteq> set (transactions w)"
    and "\<forall>h \<in> set hs. BRSetContains (pendingTx w) h = Some False \<and> BRSetContains (invalidTx w) h = Some False \<and>
      BRWalletContainsTx w (txs w h) = Some True"
  shows "\<exists>w' acc'. for_each hs (update_one bh ts) (w, acc, False) = Some (w', acc', False) \<and> restamped w w' \<and> wallet_inv w' A \<and>
    (\<forall>h. txs w' h = (if h \<in> set hs then stamp bh ts (txs w h) else txs w h))"
  using assms
proof (induction hs arbitrary: w acc)
  case Nil
  then show ?case by (simp add: restamped_refl)
next
  case (Cons h hs)
  obtain w1 acc1 where w1: "update_one bh ts h (w, acc, False) = Some (w1, acc1, False)" "restamped w w1" "wallet_inv w1 A"
    "txs w1 = (txs w)(h := stamp bh ts (txs w h))"
    using update_one_restamps [OF Cons.prems(1), of h bh ts acc] Cons.prems(2,3) by auto
  have "\<forall>h \<in> set hs. BRSetContains (pendingTx w1) h = Some False \<and> BRSetContains (invalidTx w1) h = Some False \<and>
      BRWalletContainsTx w1 (txs w1 h) = Some True"
    using Cons.prems(3) by (simp add: restamped_fields [OF w1(2)] ContainsTx_restamped [OF w1(2)])
  moreover have "set hs \<subseteq> set (transactions w1)" using Cons.prems(2) by (simp add: restamped_fields [OF w1(2)])
  ultimately obtain w' acc' where w': "for_each hs (update_one bh ts) (w1, acc1, False) = Some (w', acc', False)" "restamped w1 w'"
    "wallet_inv w' A" "\<forall>g. txs w' g = (if g \<in> set hs then stamp bh ts (txs w1 g) else txs w1 g)"
    using Cons.IH [OF w1(3)] by blast
  have "\<forall>g. txs w' g = (if g \<in> set (h # hs) then stamp bh ts (txs w g) else txs w g)"
    by (simp add: w'(4) w1(4)) (simp add: stamp_def)
  then show ?case using w1(1) w' restamped_trans [OF w1(2) w'(2)] by auto
qed

lemma BalanceAfterTx_at:
  assumes "distinct (transactions w)" and "k < length (transactions w)" and "length (balanceHist w) = length (transactions w)"
    and "txHash (txs w (transactions w ! k)) = transactions w ! k" and "BRTransactionIsSigned (txs w (transactions w ! k))"
  shows "BRWalletBalanceAfterTx w (txs w (transactions w ! k)) = Some (balanceHist w ! k)"
proof -
  have "filter (\<lambda>i. txKeyEq (transactions w ! k) (transactions w ! i)) [0..<length (transactions w)] = filter (\<lambda>i. i = k) [0..<length (transactions w)]"
    by (rule filter_cong) (use assms(1,2) in \<open>auto simp: txKeyEq_def UInt256Eq_def nth_eq_iff_index_eq\<close>)
  also have "\<dots> = [k]"
  proof -
    have "[0..<length (transactions w)] = [0..<k] @ k # [Suc k..<length (transactions w)]"
      using assms(2) by (metis less_imp_le_nat upt_add_eq_append upt_conv_Cons le_add_diff_inverse zero_le)
    then show ?thesis by simp
  qed
  finally show ?thesis using assms by (simp add: BRWalletBalanceAfterTx_def)
qed

text \<open>
  Claim C18.  Confirming transactions of the wallet that are neither pending nor invalid returns, gives them
  their height and time, and puts the list into an order sorted by the new heights, with the same
  transactions; the invariant of the wallet holds.  The balance, the unspent outputs and the
  history stay as they are.  The history is read by the place in the list: before and after,
  the balance after the k-th transaction is said to be the k-th entry, so that a transaction that is moved is
  told with the balance of another.
\<close>

theorem UpdateTransactions_keeps_history:
  assumes inv: "wallet_inv w A" and hs: "set hs \<subseteq> set (transactions w)"
    and ok: "\<forall>h \<in> set hs. BRSetContains (pendingTx w) h = Some False \<and> BRSetContains (invalidTx w) h = Some False \<and>
      BRWalletContainsTx w (txs w h) = Some True"
    and hist: "length (balanceHist w) = length (transactions w)" and signed: "\<forall>h \<in> set (transactions w). BRTransactionIsSigned (txs w h)"
  shows "\<exists>ev w'. BRWalletUpdateTransactions env w hs bh ts = Some (ev, w') \<and> wallet_inv w' A \<and>
    (\<forall>h. txs w' h = (if h \<in> set hs then (txs w h)\<lparr>tx_timestamp := ts, blockHeight := bh\<rparr> else txs w h)) \<and>
    mset (transactions w') = mset (transactions w) \<and> sorted (map (\<lambda>h. blockHeight (txs w' h)) (transactions w')) \<and>
    balanceHist w' = balanceHist w \<and> balance w' = balance w \<and> utxos w' = utxos w \<and>
    (\<forall>k < length (transactions w). BRWalletBalanceAfterTx w (txs w (transactions w ! k)) = Some (balanceHist w ! k) \<and>
      BRWalletBalanceAfterTx w' (txs w' (transactions w' ! k)) = Some (balanceHist w ! k))"
proof -
  let ?w = "if bh > w_blockHeight w then w\<lparr>w_blockHeight := bh\<rparr> else w"
  have f: "transactions ?w = transactions w" "txs ?w = txs w" "pendingTx ?w = pendingTx w" "invalidTx ?w = invalidTx w"
    "balanceHist ?w = balanceHist w" "balance ?w = balance w" "utxos ?w = utxos w" by simp_all
  have "allPKH ?w = allPKH w" "allTx ?w = allTx w" by simp_all
  then have "own_pkh ?w = own_pkh w" "spent_output ?w = spent_output w"
    unfolding own_pkh_def [abs_def] spent_output_def [abs_def] by (simp_all only: f(2))
  then have c: "BRWalletContainsTx ?w tx = BRWalletContainsTx w tx" for tx unfolding BRWalletContainsTx_def by (simp only:)
  have "wallet_inv ?w A" using inv
    by (simp add: wallet_inv_def wallet_ok_def wallet_keys_def outs_ok_def spend_order_def)
  from update_all_restamps [OF this, of hs bh ts "[]"] hs ok obtain w' acc' where
    w': "for_each hs (update_one bh ts) (?w, [], False) = Some (w', acc', False)" "restamped ?w w'" "wallet_inv w' A"
      "\<forall>h. txs w' h = (if h \<in> set hs then stamp bh ts (txs w h) else txs w h)"
    unfolding f c by blast
  have same: "balanceHist w' = balanceHist w" "balance w' = balance w" "utxos w' = utxos w"
    using restamped_fields(14-16) [OF w'(2)] f(5-7) by simp_all
  note r = restamped_fields [OF w'(2), unfolded f]
  have d: "distinct (transactions w)" "distinct (transactions w')" and st: "sorted (map (height w') (transactions w'))"
    using inv w'(3) by (simp_all add: wallet_inv_def)
  have hash: "txHash (txs w h) = h" if "h \<in> set (transactions w)" for h
    using inv that by (auto simp: wallet_inv_def wallet_ok_def)
  have s': "BRTransactionIsSigned (txs w' h) = BRTransactionIsSigned (txs w h)" for h by (simp add: BRTransactionIsSigned_def r)
  have before: "BRWalletBalanceAfterTx w (txs w (transactions w ! k)) = Some (balanceHist w ! k)" if "k < length (transactions w)" for k
    using BalanceAfterTx_at [OF d(1) that hist] hash [of "transactions w ! k"] signed that by simp
  have after: "BRWalletBalanceAfterTx w' (txs w' (transactions w' ! k)) = Some (balanceHist w ! k)" if k: "k < length (transactions w)" for k
  proof -
    have k': "k < length (transactions w')" "length (balanceHist w') = length (transactions w')" using k hist r(13) same(1) by simp_all
    have m: "transactions w' ! k \<in> set (transactions w)" using nth_mem [OF k'(1)] r(12) by simp
    have "txHash (txs w' (transactions w' ! k)) = transactions w' ! k" using hash [OF m] r(3) by metis
    moreover have "BRTransactionIsSigned (txs w' (transactions w' ! k))" using signed m s' by metis
    ultimately have "BRWalletBalanceAfterTx w' (txs w' (transactions w' ! k)) = Some (balanceHist w' ! k)"
      by (rule BalanceAfterTx_at [OF d(2) k'])
    then show ?thesis unfolding same(1) .
  qed
  have up: "BRWalletUpdateTransactions env w hs bh ts = Some (txUpdated w' acc' bh ts, w')"
    by (simp add: BRWalletUpdateTransactions_def w'(1) Let_def)
  have ms: "mset (transactions w') = mset (transactions w)" using w'(2) f(1) by (simp add: restamped_def)
  have stamps: "txs w' h = (if h \<in> set hs then (txs w h)\<lparr>tx_timestamp := ts, blockHeight := bh\<rparr> else txs w h)" for h
    using w'(4) by (simp add: stamp_def)
  show ?thesis
    by (intro exI conjI allI impI, rule up) (assumption | rule w'(3) stamps ms st same before after)+
qed

text \<open>Two unconfirmed transactions, of which the second is confirmed first.\<close>

definition swap_txs :: "UInt256 \<Rightarrow> BRTransaction" where
  "swap_txs h = \<lparr>txHash = h, wtxHash = h, tx_version = 1, inputs = [], outputs = [example_pays (if h = 1 then 9000 else 4000)],
     lockTime = 0, blockHeight = TX_UNCONFIRMED, tx_timestamp = 0\<rparr>"

definition swap_wallet :: BRWallet where
  "swap_wallet = (example_wallet 0)\<lparr>txs := swap_txs, balanceHist := [9000, 13000], balance := 13000\<rparr>"

lemma swap_wallet_inv: "wallet_inv swap_wallet {1, 2}"
proof -
  have keys: "wallet_keys swap_wallet = example_keys" by (simp add: wallet_keys_def swap_wallet_def example_wallet_def)
  have "wallet_ok swap_wallet {1, 2} (wallet_keys swap_wallet)"
    unfolding keys using example_wallet_ok [of 0]
    by (simp add: wallet_ok_def swap_wallet_def outs_ok_def swap_txs_def inputs_of_def example_simps)
  moreover have "spend_order swap_wallet {1, 2} = {}" by (simp add: spend_order_def swap_wallet_def swap_txs_def)
  ultimately show ?thesis
    by (simp add: wallet_inv_def) (simp add: swap_wallet_def example_simps swap_txs_def acyclic_def)
qed

theorem UpdateTransactions_keeps_history_witness:
  "\<exists>ev w'. BRWalletUpdateTransactions example_env swap_wallet [2] 100 5 = Some (ev, w') \<and> transactions swap_wallet = [1, 2] \<and>
     transactions w' = [2, 1] \<and> balanceHist w' = [9000, 13000] \<and>
     BRWalletBalanceAfterTx swap_wallet (txs swap_wallet 2) = Some 13000 \<and> BRWalletBalanceAfterTx w' (txs w' 2) = Some 9000"
proof -
  have w: "transactions swap_wallet = [1, 2]" "txs swap_wallet = swap_txs" "balanceHist swap_wallet = [9000, 13000]"
    by (simp_all add: swap_wallet_def example_simps)
  have sets: "tx_set.rep (pendingTx swap_wallet) {}" "tx_set.rep (invalidTx swap_wallet) {}" "pkh_set.rep (allPKH swap_wallet) example_keys"
    using example_wallet_ok [of 0] tx_set.rep_new [of 10]
    by (simp_all add: swap_wallet_def wallet_ok_def) (simp_all add: example_wallet_def)
  have "own_pkh swap_wallet (example_pays 4000) = Some True"
    using own_pkh_rep [OF sets(3), of "example_pays 4000"] example_pkh by simp
  then have own: "BRWalletContainsTx swap_wallet (swap_txs 2) = Some True" by (simp add: BRWalletContainsTx_def swap_txs_def)
  have "BRSetContains (pendingTx swap_wallet) 2 = Some False" "BRSetContains (invalidTx swap_wallet) 2 = Some False"
    using tx_set.rep_contains [OF sets(1)] tx_set.rep_contains [OF sets(2)] by simp_all
  with UpdateTransactions_keeps_history [OF swap_wallet_inv, of "[2]" example_env 100 5] own obtain ev w' where
    up: "BRWalletUpdateTransactions example_env swap_wallet [2] 100 5 = Some (ev, w')"
    and tx: "\<forall>h. txs w' h = (if h = 2 then (swap_txs h)\<lparr>tx_timestamp := 5, blockHeight := 100\<rparr> else swap_txs h)"
    and ms: "mset (transactions w') = {#1, 2#}" and st: "sorted (map (\<lambda>h. blockHeight (txs w' h)) (transactions w'))"
    and hist: "balanceHist w' = [9000, 13000]"
    and told: "\<forall>k < 2. BRWalletBalanceAfterTx swap_wallet (swap_txs ([1, 2] ! k)) = Some ([9000, 13000] ! k) \<and>
      BRWalletBalanceAfterTx w' (txs w' (transactions w' ! k)) = Some ([9000, 13000] ! k)"
    unfolding w by (force simp: BRTransactionIsSigned_def swap_txs_def)
  have "transactions w' = [1, 2] \<or> transactions w' = [2, 1]"
  proof -
    have "length (transactions w') = 2" using arg_cong [OF ms, of size] by simp
    then obtain a b where "transactions w' = [a, b]" by (auto simp: length_Suc_conv numeral_2_eq_2)
    moreover from this have "{a, b} = {1, 2}" using arg_cong [OF ms, of set_mset] by simp
    ultimately show ?thesis by (auto simp: doubleton_eq_iff)
  qed
  then have ord: "transactions w' = [2, 1]" using st tx by (auto simp: swap_txs_def TX_UNCONFIRMED_def)
  show ?thesis
    using up w(1,2) ord hist told [rule_format, of 0] told [rule_format, of 1] by (intro exI [of _ ev] exI [of _ w']) simp
qed

end
