(* ===== verification/Double.thy ===== *)
theory Double
  imports Prelude Complex_Main
begin

text \<open>
  The C type \<open>double\<close>, taken as the real numbers: rounding is not modelled.  The code uses it
  for clocks, for rates of false positives and for the size of a filter.  A conversion of a
  value outside the range of an integer type is undefined.
\<close>

type_synonym double = real

definition DBL_MAX :: double where "DBL_MAX = (2 - 1 / 2 ^ 52) * 2 ^ 1023"
definition DBL_EPSILON :: double where "DBL_EPSILON = 1 / 2 ^ 52"
definition M_LN2 :: double where "M_LN2 = 69314718055994530942 / 10 ^ 20"

definition trunc_to :: "nat \<Rightarrow> double \<Rightarrow> nat option" where
  "trunc_to bits x = (if - 1 < x \<and> x < 2 ^ bits then Some (nat \<lfloor>x\<rfloor>) else None)"

lemma trunc_to_nat: "real n \<le> x \<Longrightarrow> x < real n + 1 \<Longrightarrow> n < 2 ^ bits \<Longrightarrow> trunc_to bits x = Some n"
proof -
  assume a: "real n \<le> x" "x < real n + 1" "n < 2 ^ bits"
  have "\<lfloor>x\<rfloor> = int n" using a by (simp add: floor_eq_iff)
  moreover have "n + 1 \<le> 2 ^ bits" using a(3) by simp
  then have "real n + 1 \<le> 2 ^ bits" using of_nat_le_iff [of "n + 1" "2 ^ bits", where ?'a = real] by simp
  then have "x < 2 ^ bits" using a(2) by linarith
  ultimately show ?thesis using a(1) by (simp add: trunc_to_def)
qed

end
