(* ===== verification/BloomFilter.thy ===== *)
theory BloomFilter
  imports Double Address Crypto "HOL-Library.Monad_Syntax"
begin

text \<open>
  \<^verbatim>\<open>bitcoin/BRBloomFilter.c\<close>: the filter by which a peer selects the transactions it relays.
  The field \<open>length\<close> of the struct is \<open>bitsLen\<close>.  A result \<open>None\<close> is a failed \<open>assert\<close>, a
  division by zero, an access outside the array, or a conversion of a \<open>double\<close> out of range.
\<close>

unbundle bit_operations_syntax

definition BLOOM_MAX_HASH_FUNCS :: nat where "BLOOM_MAX_HASH_FUNCS = 50"
definition BLOOM_DEFAULT_FALSEPOSITIVE_RATE :: double where "BLOOM_DEFAULT_FALSEPOSITIVE_RATE = 5 / 10000"
definition BLOOM_REDUCED_FALSEPOSITIVE_RATE :: double where "BLOOM_REDUCED_FALSEPOSITIVE_RATE = 5 / 100000"
definition BLOOM_UPDATE_NONE :: byte where "BLOOM_UPDATE_NONE = 0"
definition BLOOM_UPDATE_ALL :: byte where "BLOOM_UPDATE_ALL = 1"
definition BLOOM_MAX_FILTER_LENGTH :: nat where "BLOOM_MAX_FILTER_LENGTH = 36000"

record BRBloomFilter =
  bits :: "byte list"
  bitsLen :: nat
  hashFuncs :: u32
  elemCount :: nat
  tweak :: u32
  updateFlags :: byte

definition BR_BLOOM_FILTER_FULL :: BRBloomFilter where
  "BR_BLOOM_FILTER_FULL =
     \<lparr>bits = [0xff], bitsLen = 1, hashFuncs = 0, elemCount = 0, tweak = 0, updateFlags = BLOOM_UPDATE_NONE\<rparr>"

definition BRBloomFilterHash :: "BRBloomFilter \<Rightarrow> byte list \<Rightarrow> u32 \<Rightarrow> u32 option" where
  "BRBloomFilterHash bf data hashNum =
     (if bitsLen bf = 0 then None
      else Some (word_of_nat (unat (BRMurmur3_32 data (hashNum * 0xfba4c795 + tweak bf)) mod (bitsLen bf * 8))))"

section \<open>Creation\<close>

definition filter_length :: "double \<Rightarrow> nat \<Rightarrow> nat option" where
  "filter_length rate n =
     (if rate < DBL_EPSILON then Some BLOOM_MAX_FILTER_LENGTH
      else trunc_to 64 (- 1 / (M_LN2 * M_LN2) * real n * ln rate / 8))"

definition BRBloomFilterNew :: "double \<Rightarrow> nat \<Rightarrow> u32 \<Rightarrow> byte \<Rightarrow> BRBloomFilter option" where
  "BRBloomFilterNew falsePositiveRate count twk flgs =
     do {
       len \<leftarrow> filter_length falsePositiveRate count;
       let len = (if len > BLOOM_MAX_FILTER_LENGTH then BLOOM_MAX_FILTER_LENGTH else len);
       let len = (if len < 1 then 1 else len);
       funcs \<leftarrow> (if count = 0 then None else trunc_to 32 (real len * 8 / real count * M_LN2));
       let funcs = (if funcs > BLOOM_MAX_HASH_FUNCS then BLOOM_MAX_HASH_FUNCS else funcs);
       Some \<lparr>bits = replicate len 0, bitsLen = len, hashFuncs = word_of_nat funcs, elemCount = 0, tweak = twk, updateFlags = flgs\<rparr>
     }"

section \<open>Wire format\<close>

text \<open>
  A field of \<open>n\<close> bytes at an offset, \<open>(off + n <= bufLen) ? ... : 0\<close>: the sum wraps around, so
  an offset near \<open>2 ^ 64\<close> passes the test and the bytes before the buffer are read.
\<close>

definition field_at :: "byte list \<Rightarrow> u64 \<Rightarrow> nat \<Rightarrow> byte list option" where
  "field_at buf off n =
     (if unat (off + word_of_nat n) \<le> length buf then rd buf (unat off) n else Some (replicate n 0))"

text \<open>
  A missing field is 0, and a filter that does not fit is NULL, but only after the fields
  behind it have been read.  \<open>malloc(0)\<close> is not NULL, so a filter without bits is accepted.
\<close>

definition BRBloomFilterParse :: "byte list \<Rightarrow> BRBloomFilter option option" where
  "BRBloomFilterParse buf =
     (let (len, n) = BRVarInt buf;
          off = word_of_nat n;
          fits = (unat len \<le> BLOOM_MAX_FILTER_LENGTH \<and> unat (off + len) \<le> length buf);
          bs = take (unat len) (drop (unat off) buf);
          off = off + len
      in do {
        funcs \<leftarrow> field_at buf off 4;
        twk \<leftarrow> field_at buf (off + 4) 4;
        flgs \<leftarrow> field_at buf (off + 8) 1;
        Some (if fits then Some \<lparr>bits = bs, bitsLen = unat len, hashFuncs = word_of_le funcs, elemCount = 0,
            tweak = word_of_le twk, updateFlags = word_of_le flgs\<rparr>
          else None)
      })"

text \<open>\<open>memcpy\<close> of the bits reads \<open>bitsLen\<close> bytes of the array.\<close>

definition BRBloomFilterSerialize :: "BRBloomFilter \<Rightarrow> byte list option \<Rightarrow> (nat \<times> byte list option) option" where
  "BRBloomFilterSerialize bf buf =
     (let len = BRVarIntSize (word_of_nat (bitsLen bf)) + bitsLen bf + 4 + 4 + 1
      in case buf of
           None \<Rightarrow> Some (len, None)
         | Some b \<Rightarrow>
             if length b < len then Some (0, Some b)
             else do {
               let (off, b') = (case BRVarIntSet (word_of_nat (bitsLen bf)) (Some b) of
                 (n, Some b') \<Rightarrow> (n, b') | (n, None) \<Rightarrow> (n, b));
               src \<leftarrow> rd (bits bf) 0 (bitsLen bf);
               let b = wr b' off src;
               let off = off + bitsLen bf;
               let b = wr b off (UInt32SetLE (hashFuncs bf));
               let b = wr b (off + 4) (UInt32SetLE (tweak bf));
               let b = wr b (off + 8) [updateFlags bf];
               Some (len, Some b)
             })"

section \<open>Membership\<close>

text \<open>A byte of the array and the bit of it that \<open>idx\<close> names.\<close>

definition test_bit :: "BRBloomFilter \<Rightarrow> u32 \<Rightarrow> bool option" where
  "test_bit bf idx =
     (let i = unat (drop_bit 3 idx)
      in if i < length (bits bf) then Some (bits bf ! i AND push_bit (unat (7 AND idx)) 1 \<noteq> 0) else None)"

definition set_bit_at :: "BRBloomFilter \<Rightarrow> u32 \<Rightarrow> BRBloomFilter option" where
  "set_bit_at bf idx =
     (let i = unat (drop_bit 3 idx)
      in if i < length (bits bf)
         then Some (bf\<lparr>bits := (bits bf)[i := bits bf ! i OR push_bit (unat (7 AND idx)) 1]\<rparr>) else None)"

fun contains_loop :: "BRBloomFilter \<Rightarrow> byte list \<Rightarrow> u32 list \<Rightarrow> bool option" where
  "contains_loop bf data [] = Some True"
| "contains_loop bf data (i # is) =
     do {
       idx \<leftarrow> BRBloomFilterHash bf data i;
       b \<leftarrow> test_bit bf idx;
       if b then contains_loop bf data is else Some False
     }"

definition hash_nums :: "BRBloomFilter \<Rightarrow> u32 list" where
  "hash_nums bf = map word_of_nat [0..<unat (hashFuncs bf)]"

definition BRBloomFilterContainsData :: "BRBloomFilter \<Rightarrow> byte list option \<Rightarrow> bool option" where
  "BRBloomFilterContainsData bf data =
     (case data of None \<Rightarrow> Some False | Some d \<Rightarrow> contains_loop bf d (hash_nums bf))"

definition insert_bit :: "byte list \<Rightarrow> u32 \<Rightarrow> BRBloomFilter \<Rightarrow> BRBloomFilter option" where
  "insert_bit data i bf =
     do {
       idx \<leftarrow> BRBloomFilterHash bf data i;
       set_bit_at bf idx
     }"

definition BRBloomFilterInsertData :: "BRBloomFilter \<Rightarrow> byte list option \<Rightarrow> BRBloomFilter option" where
  "BRBloomFilterInsertData bf data =
     (case data of None \<Rightarrow> Some bf
      | Some d \<Rightarrow> map_option (\<lambda>f. f\<lparr>elemCount := elemCount f + 1\<rparr>)
          (for_each (hash_nums bf) (insert_bit d) bf))"

end
