(* ===== verification/BloomFilter_Correct.thy ===== *)
theory BloomFilter_Correct
  imports BloomFilter MerkleHeader_Correct
begin

text \<open>
  A filter never forgets: whatever else is inserted, an element that was inserted is found.
  The wire format keeps everything but the count of the elements.
\<close>

unbundle bit_operations_syntax

section \<open>Bits\<close>

definition bloom_wf :: "BRBloomFilter \<Rightarrow> bool" where
  "bloom_wf bf \<longleftrightarrow> length (bits bf) = bitsLen bf \<and> 0 < bitsLen bf"

text \<open>The filter that results when more bits are set.\<close>

definition grows_to :: "BRBloomFilter \<Rightarrow> BRBloomFilter \<Rightarrow> bool" where
  "grows_to bf bf' \<longleftrightarrow>
     bitsLen bf' = bitsLen bf \<and> length (bits bf') = length (bits bf) \<and> hashFuncs bf' = hashFuncs bf \<and> tweak bf' = tweak bf \<and>
     updateFlags bf' = updateFlags bf \<and> elemCount bf \<le> elemCount bf' \<and>
     (\<forall>ix. test_bit bf ix = Some True \<longrightarrow> test_bit bf' ix = Some True)"

lemma grows_refl [simp]: "grows_to bf bf"
  by (simp add: grows_to_def)

lemma grows_trans [trans]: "grows_to a b \<Longrightarrow> grows_to b c \<Longrightarrow> grows_to a c"
  by (auto simp: grows_to_def)

lemma grows_wf: "grows_to a b \<Longrightarrow> bloom_wf a \<Longrightarrow> bloom_wf b"
  by (simp add: grows_to_def bloom_wf_def)

lemma grows_hash: "grows_to a b \<Longrightarrow> BRBloomFilterHash b d i = BRBloomFilterHash a d i"
  by (simp add: grows_to_def BRBloomFilterHash_def)

lemma grows_nums: "grows_to a b \<Longrightarrow> hash_nums b = hash_nums a"
  by (simp add: grows_to_def hash_nums_def)

lemma hash_in_range:
  assumes "bloom_wf bf"
  obtains ix where "BRBloomFilterHash bf d i = Some ix" "unat (drop_bit 3 ix) < length (bits bf)"
proof -
  let ?m = "BRMurmur3_32 d (i * 0xfba4c795 + tweak bf)" and ?n = "bitsLen bf * 8"
  have "unat ?m mod ?n \<le> unat ?m" by simp
  also have "\<dots> < 2 ^ 32" using unat_bound [of ?m] by simp
  finally have "unat (word_of_nat (unat ?m mod ?n) :: u32) = unat ?m mod ?n" by (simp add: unat_of_nat_small)
  moreover have "unat ?m mod ?n < ?n" using assms by (simp add: bloom_wf_def)
  ultimately have "unat (drop_bit 3 (word_of_nat (unat ?m mod ?n) :: u32)) < length (bits bf)"
    using assms by (simp add: unat_drop_bit_div bloom_wf_def less_mult_imp_div_less)
  then show ?thesis using that [of "word_of_nat (unat ?m mod ?n)"] assms
    by (simp add: BRBloomFilterHash_def bloom_wf_def)
qed

lemma unat_and7: "unat (7 AND ix :: u32) < 8"
proof -
  have "7 AND ix = take_bit 3 ix" by (simp add: take_bit_eq_mask mask_eq_exp_minus_1 ac_simps)
  moreover have "unat (take_bit 3 ix) = unat ix mod 2 ^ 3"
    unfolding unsigned_take_bit_eq by (rule take_bit_eq_mod)
  ultimately show ?thesis by simp
qed

lemma test_bit_iff: "test_bit bf ix = Some True \<longleftrightarrow>
    unat (drop_bit 3 ix) < length (bits bf) \<and> bit (bits bf ! unat (drop_bit 3 ix)) (unat (7 AND ix))"
  using and_exp_eq_0_iff_not_bit [of "bits bf ! unat (drop_bit 3 ix)" "unat (7 AND ix)"]
  by (simp add: test_bit_def Let_def push_bit_eq_mult)

lemma test_bit_count [simp]: "test_bit (bf\<lparr>elemCount := n\<rparr>) = test_bit bf"
  by (simp add: test_bit_def fun_eq_iff Let_def)

lemma set_bit_grows:
  assumes "unat (drop_bit 3 ix) < length (bits bf)"
  shows "\<exists>bf'. set_bit_at bf ix = Some bf' \<and> grows_to bf bf' \<and> test_bit bf' ix = Some True"
  using assms unat_and7 [of ix]
  by (auto simp: set_bit_at_def test_bit_iff grows_to_def Let_def nth_list_update bit_or_iff
      bit_push_bit_iff bit_exp_iff possible_bit_def)

lemma insert_bit_grows:
  assumes "bloom_wf bf"
  shows "\<exists>bf' ix. insert_bit d i bf = Some bf' \<and> grows_to bf bf' \<and>
    BRBloomFilterHash bf' d i = Some ix \<and> test_bit bf' ix = Some True"
proof -
  obtain ix where h: "BRBloomFilterHash bf d i = Some ix" "unat (drop_bit 3 ix) < length (bits bf)"
    using hash_in_range [OF assms] .
  obtain bf' where b: "set_bit_at bf ix = Some bf'" "grows_to bf bf'" "test_bit bf' ix = Some True"
    using set_bit_grows [OF h(2)] by blast
  show ?thesis using h b grows_hash [OF b(2)] by (auto simp: insert_bit_def)
qed

section \<open>Membership\<close>

lemma contains_loop_iff:
  assumes "bloom_wf bf"
  shows "contains_loop bf d is = Some (\<forall>i \<in> set is. \<exists>ix. BRBloomFilterHash bf d i = Some ix \<and> test_bit bf ix = Some True)"
proof (induction "is")
  case (Cons i "is")
  obtain ix where h: "BRBloomFilterHash bf d i = Some ix" "unat (drop_bit 3 ix) < length (bits bf)"
    using hash_in_range [OF assms] .
  then obtain b where "test_bit bf ix = Some b" by (simp add: test_bit_def Let_def)
  then show ?case using h Cons.IH by (cases b) simp_all
qed simp

lemma contains_iff:
  assumes "bloom_wf bf"
  shows "BRBloomFilterContainsData bf (Some d) = Some True \<longleftrightarrow>
    (\<forall>i \<in> set (hash_nums bf). \<exists>ix. BRBloomFilterHash bf d i = Some ix \<and> test_bit bf ix = Some True)"
  by (simp add: BRBloomFilterContainsData_def contains_loop_iff [OF assms])

lemma growsD: "grows_to a b \<Longrightarrow> test_bit a ix = Some True \<Longrightarrow> test_bit b ix = Some True"
  by (simp add: grows_to_def)

lemma contains_grows:
  assumes "bloom_wf bf" and g: "grows_to bf bf'" and "BRBloomFilterContainsData bf (Some d) = Some True"
  shows "BRBloomFilterContainsData bf' (Some d) = Some True"
  using assms(3) growsD [OF g]
  unfolding contains_iff [OF assms(1)] contains_iff [OF grows_wf [OF g assms(1)]] grows_nums [OF g] grows_hash [OF g]
  by blast

lemma insert_loop_grows:
  assumes "bloom_wf bf"
  shows "\<exists>bf'. for_each is (insert_bit d) bf = Some bf' \<and> grows_to bf bf' \<and>
    (\<forall>i \<in> set is. \<exists>ix. BRBloomFilterHash bf' d i = Some ix \<and> test_bit bf' ix = Some True)"
  using assms
proof (induction "is" arbitrary: bf)
  case (Cons i "is")
  obtain b1 ix where b1: "insert_bit d i bf = Some b1" "grows_to bf b1" "BRBloomFilterHash b1 d i = Some ix"
    "test_bit b1 ix = Some True"
    using insert_bit_grows [OF Cons.prems] by blast
  obtain b2 where b2: "for_each is (insert_bit d) b1 = Some b2" "grows_to b1 b2"
    "\<forall>i \<in> set is. \<exists>ix. BRBloomFilterHash b2 d i = Some ix \<and> test_bit b2 ix = Some True"
    using Cons.IH [OF grows_wf [OF b1(2) Cons.prems]] by blast
  have "BRBloomFilterHash b2 d i = Some ix \<and> test_bit b2 ix = Some True"
    using b1(3,4) b2(2) grows_hash [OF b2(2)] by (simp add: grows_to_def)
  then show ?case using b1(1) b2 grows_trans [OF b1(2) b2(2)] by auto
qed simp

lemma grows_count: "grows_to a b \<Longrightarrow> grows_to a (b\<lparr>elemCount := elemCount b + 1\<rparr>)"
  by (simp add: grows_to_def)

lemma contains_count [simp]:
  "BRBloomFilterContainsData (b\<lparr>elemCount := n\<rparr>) d = BRBloomFilterContainsData b d"
proof -
  have "contains_loop (b\<lparr>elemCount := n\<rparr>) x is = contains_loop b x is" for x "is"
    by (induction "is") (simp_all add: BRBloomFilterHash_def test_bit_def Let_def)
  then show ?thesis by (simp add: BRBloomFilterContainsData_def hash_nums_def split: option.split)
qed

lemma insert_contains:
  assumes "bloom_wf bf"
  shows "\<exists>bf'. BRBloomFilterInsertData bf (Some d) = Some bf' \<and> grows_to bf bf' \<and>
    BRBloomFilterContainsData bf' (Some d) = Some True"
proof -
  obtain b where b: "for_each (hash_nums bf) (insert_bit d) bf = Some b" "grows_to bf b"
    "\<forall>i \<in> set (hash_nums bf). \<exists>ix. BRBloomFilterHash b d i = Some ix \<and> test_bit b ix = Some True"
    using insert_loop_grows [OF assms] by blast
  have "BRBloomFilterContainsData b (Some d) = Some True"
    using b by (simp add: BRBloomFilterContainsData_def contains_loop_iff [OF grows_wf [OF b(2) assms]] grows_nums)
  then show ?thesis using b grows_count by (simp add: BRBloomFilterInsertData_def)
qed

text \<open>
  Claim C29.  A filter has no false negatives.  Whatever list of elements is inserted one after
  the other, every insertion succeeds within the bounds of the array, and afterwards the filter
  still contains each of them and everything it contained before; its size, its number of
  hash functions and its tweak are unchanged.
\<close>

theorem bloom_no_false_negatives:
  assumes "length (bits bf) = bitsLen bf" and "0 < bitsLen bf"
  shows "\<exists>bf'. for_each ds (\<lambda>d bf. BRBloomFilterInsertData bf (Some d)) bf = Some bf' \<and>
    (\<forall>d. d \<in> set ds \<or> BRBloomFilterContainsData bf (Some d) = Some True \<longrightarrow>
       BRBloomFilterContainsData bf' (Some d) = Some True) \<and>
    length (bits bf') = bitsLen bf \<and> bitsLen bf' = bitsLen bf \<and> hashFuncs bf' = hashFuncs bf \<and> tweak bf' = tweak bf"
proof -
  have "\<exists>bf'. for_each ds (\<lambda>d bf. BRBloomFilterInsertData bf (Some d)) bf = Some bf' \<and> grows_to bf bf' \<and>
      (\<forall>d \<in> set ds. BRBloomFilterContainsData bf' (Some d) = Some True)" if "bloom_wf bf" for bf
    using that
  proof (induction ds arbitrary: bf)
    case (Cons d ds)
    obtain b1 where b1: "BRBloomFilterInsertData bf (Some d) = Some b1" "grows_to bf b1"
      "BRBloomFilterContainsData b1 (Some d) = Some True"
      using insert_contains [OF Cons.prems] by blast
    have wf: "bloom_wf b1" by (rule grows_wf [OF b1(2) Cons.prems])
    obtain b2 where b2: "for_each ds (\<lambda>d bf. BRBloomFilterInsertData bf (Some d)) b1 = Some b2" "grows_to b1 b2"
      "\<forall>d \<in> set ds. BRBloomFilterContainsData b2 (Some d) = Some True"
      using Cons.IH [OF wf] by blast
    show ?case using b1(1) b2 grows_trans [OF b1(2) b2(2)] contains_grows [OF wf b2(2) b1(3)] by auto
  qed simp
  moreover have wf: "bloom_wf bf" using assms by (simp add: bloom_wf_def)
  ultimately obtain bf' where r: "for_each ds (\<lambda>d bf. BRBloomFilterInsertData bf (Some d)) bf = Some bf'" "grows_to bf bf'"
    "\<forall>d \<in> set ds. BRBloomFilterContainsData bf' (Some d) = Some True" by blast
  have "\<forall>d. d \<in> set ds \<or> BRBloomFilterContainsData bf (Some d) = Some True \<longrightarrow>
      BRBloomFilterContainsData bf' (Some d) = Some True"
    using r(3) contains_grows [OF wf r(2)] by blast
  moreover have "length (bits bf') = bitsLen bf \<and> bitsLen bf' = bitsLen bf \<and> hashFuncs bf' = hashFuncs bf \<and> tweak bf' = tweak bf"
    using r(2) assms(1) by (simp add: grows_to_def)
  ultimately show ?thesis using r(1) by blast
qed

lemma bloom_no_false_negatives_witness:
  "\<exists>bf'. for_each [[1, 2], [3 :: byte]] (\<lambda>d bf. BRBloomFilterInsertData bf (Some d))
      \<lparr>bits = [0, 0], bitsLen = 2, hashFuncs = 3, elemCount = 0, tweak = 5, updateFlags = 1\<rparr> = Some bf' \<and>
    BRBloomFilterContainsData bf' (Some [1, 2]) = Some True \<and> BRBloomFilterContainsData bf' (Some [3]) = Some True"
  using bloom_no_false_negatives [of "\<lparr>bits = [0, 0], bitsLen = 2, hashFuncs = 3, elemCount = 0, tweak = 5, updateFlags = 1\<rparr>"
    "[[1, 2], [3]]"] by auto

section \<open>Wire format\<close>

definition bloom_bytes :: "BRBloomFilter \<Rightarrow> byte list" where
  "bloom_bytes bf = varint (word_of_nat (bitsLen bf)) @ bits bf @ UInt32SetLE (hashFuncs bf) @ UInt32SetLE (tweak bf) @ [updateFlags bf]"

lemma length_bloom_bytes: "length (bits bf) = bitsLen bf \<Longrightarrow>
    length (bloom_bytes bf) = length (varint (word_of_nat (bitsLen bf))) + bitsLen bf + 9"
  by (simp add: bloom_bytes_def len_simps)

lemma BRBloomFilterSerialize_bytes:
  assumes "length (bits bf) = bitsLen bf"
  shows "BRBloomFilterSerialize bf None = Some (length (bloom_bytes bf), None)"
    and "length (bloom_bytes bf) \<le> length buf \<Longrightarrow> BRBloomFilterSerialize bf (Some buf) =
      Some (length (bloom_bytes bf), Some (bloom_bytes bf @ drop (length (bloom_bytes bf)) buf))"
    and "length buf < length (bloom_bytes bf) \<Longrightarrow> BRBloomFilterSerialize bf (Some buf) = Some (0, Some buf)"
proof -
  note len = length_bloom_bytes [OF assms]
  show "BRBloomFilterSerialize bf None = Some (length (bloom_bytes bf), None)"
    by (simp add: BRBloomFilterSerialize_def len BRVarIntSize_varint)
  show "BRBloomFilterSerialize bf (Some buf) = Some (0, Some buf)" if "length buf < length (bloom_bytes bf)"
    using that by (simp add: BRBloomFilterSerialize_def len BRVarIntSize_varint)
  assume fits: "length (bloom_bytes bf) \<le> length buf"
  let ?v = "varint (word_of_nat (bitsLen bf))"
  have room: "length ?v + bitsLen bf + 9 \<le> length buf" using fits by (simp add: len)
  have v: "BRVarIntSet (word_of_nat (bitsLen bf)) (Some buf) = (length ?v, Some (wr buf 0 ?v))"
    using room by (simp add: BRVarIntSet_put wr_def)
  have r: "rd (bits bf) 0 (bitsLen bf) = Some (bits bf)" using assms by (simp add: rd_def)
  let ?f = "UInt32SetLE (hashFuncs bf)" and ?t = "UInt32SetLE (tweak bf)"
  have l4: "length (UInt32SetLE x) = 4" for x by (simp add: len_simps)
  have "wr (wr buf 0 ?v) (length ?v) (bits bf) = wr buf 0 (?v @ bits bf)"
    using room assms by (intro wr_next) simp_all
  moreover have "wr (wr buf 0 (?v @ bits bf)) (length ?v + bitsLen bf) ?f = wr buf 0 ((?v @ bits bf) @ ?f)"
    using room assms l4 by (intro wr_next) simp_all
  moreover have "wr (wr buf 0 ((?v @ bits bf) @ ?f)) (length ?v + bitsLen bf + 4) ?t = wr buf 0 (((?v @ bits bf) @ ?f) @ ?t)"
    using room assms l4 by (intro wr_next) simp_all
  moreover have "wr (wr buf 0 (((?v @ bits bf) @ ?f) @ ?t)) (length ?v + bitsLen bf + 8) [updateFlags bf] =
      wr buf 0 ((((?v @ bits bf) @ ?f) @ ?t) @ [updateFlags bf])"
    using room assms l4 by (intro wr_next) simp_all
  ultimately show "BRBloomFilterSerialize bf (Some buf) =
      Some (length (bloom_bytes bf), Some (bloom_bytes bf @ drop (length (bloom_bytes bf)) buf))"
    using room assms by (simp add: BRBloomFilterSerialize_def BRVarIntSize_varint v r wr_0 bloom_bytes_def len_simps Let_def)
qed

text \<open>
  A filter no larger than the limit is written with the announced size and read back from
  what was written, whatever follows it; only the count of the elements is lost.
\<close>

theorem bloom_roundtrip:
  assumes "length (bits bf) = bitsLen bf" and "bitsLen bf \<le> 36000"
    and "BRBloomFilterSerialize bf None = Some (n, None)" and "n \<le> length buf" and "length buf < 2 ^ 63"
  shows "\<exists>out. BRBloomFilterSerialize bf (Some buf) = Some (n, Some out) \<and>
    BRBloomFilterParse out = Some (Some (bf\<lparr>elemCount := 0\<rparr>))"
proof -
  let ?l = "word_of_nat (bitsLen bf) :: u64" let ?v = "varint ?l" let ?rest = "drop n buf"
  have n: "n = length (bloom_bytes bf)" using assms(3) by (simp add: BRBloomFilterSerialize_bytes(1) [OF assms(1)])
  define out where "out = bloom_bytes bf @ ?rest"
  have ser: "BRBloomFilterSerialize bf (Some buf) = Some (n, Some out)"
    using BRBloomFilterSerialize_bytes(2) [OF assms(1), of buf] assms(4) unfolding n out_def by simp
  have lout: "length out < 2 ^ 63" using assms(4,5) by (simp add: out_def n)
  have len: "length out = length ?v + bitsLen bf + 9 + length ?rest"
    by (simp add: out_def length_bloom_bytes [OF assms(1)])
  have vi: "BRVarInt out = (?l, length ?v)"
    using BRVarInt_varint [of ?l] by (simp add: out_def bloom_bytes_def)
  have ul: "unat ?l = bitsLen bf" using assms(2) by (simp add: unat_of_nat_small)
  have small: "k \<le> length out \<Longrightarrow> unat (word_of_nat k :: u64) = k" for k
    using lout by (simp add: unat_of_nat_small)
  have off: "word_of_nat (length ?v) + ?l = (word_of_nat (length ?v + bitsLen bf) :: u64)" by simp
  have add: "word_of_nat (length ?v + bitsLen bf) + (word_of_nat k :: u64) = word_of_nat (length ?v + bitsLen bf + k)" for k
    by simp
  have fld: "field_at out (word_of_nat k) (length bs) = Some bs" if "out = pre @ bs @ post" "length pre = k" for pre bs post k
    using that small [of k] small [of "k + length bs"] by (simp add: field_at_def flip: of_nat_add)
  have l4: "length (UInt32SetLE x) = 4" for x by (simp add: len_simps)
  have f1: "field_at out (word_of_nat (length ?v + bitsLen bf)) 4 = Some (UInt32SetLE (hashFuncs bf))"
    using fld [of "?v @ bits bf" "UInt32SetLE (hashFuncs bf)" _ "length ?v + bitsLen bf"] assms(1) l4
    by (simp add: out_def bloom_bytes_def)
  have f2: "field_at out (word_of_nat (length ?v + bitsLen bf + 4)) 4 = Some (UInt32SetLE (tweak bf))"
    using fld [of "?v @ bits bf @ UInt32SetLE (hashFuncs bf)" "UInt32SetLE (tweak bf)" _ "length ?v + bitsLen bf + 4"] assms(1) l4
    by (simp add: out_def bloom_bytes_def)
  have f3: "field_at out (word_of_nat (length ?v + bitsLen bf + 8)) 1 = Some [updateFlags bf]"
    using fld [of "?v @ bits bf @ UInt32SetLE (hashFuncs bf) @ UInt32SetLE (tweak bf)" "[updateFlags bf]" _ "length ?v + bitsLen bf + 8"]
      assms(1) l4 by (simp add: out_def bloom_bytes_def)
  have w1: "word_of_le [b] = (b :: byte)" for b by simp
  have w4: "word_of_le (UInt32SetLE x) = x" for x by (simp add: le_simps roundtrip_simps)
  have fits: "unat ?l \<le> BLOOM_MAX_FILTER_LENGTH \<and> unat (word_of_nat (length ?v + bitsLen bf) :: u64) \<le> length out"
    using small [of "length ?v + bitsLen bf"] assms(2) len by (simp add: BLOOM_MAX_FILTER_LENGTH_def ul)
  have bs: "take (bitsLen bf) (drop (length ?v) out) = bits bf"
    using assms(1) by (simp add: out_def bloom_bytes_def)
  have "BRBloomFilterParse out = Some (Some (bf\<lparr>elemCount := 0\<rparr>))"
    using fits f1 f2 f3 add [of 4] add [of 8] bs small [of "length ?v"] len
    unfolding BRBloomFilterParse_def vi Let_def prod.case off
    by (simp add: ul w1 w4 del: of_nat_add word_of_le.simps)
  then show ?thesis using ser by blast
qed

text \<open>
  A length near \<open>2 ^ 64\<close> makes the offset of the fields wrap around: the parser reads before
  the buffer, although it then finds that the filter does not fit.
\<close>

lemma bloom_parse_overread: "BRBloomFilterParse (0xff # UInt64SetLE (- 11)) = None"
  by (simp add: BRBloomFilterParse_def BRVarInt_def UInt64SetLE_def field_at_def rd_def VAR_INT16_HEADER_def VAR_INT32_HEADER_def
      VAR_INT64_HEADER_def)

end
