(* ===== verification/Mnemonic.thy ===== *)
theory Mnemonic
  imports Ints Ciphers "HOL-Library.Monad_Syntax"
begin

text \<open>
  \<^verbatim>\<open>support/BRBIP39Mnemonic.c\<close>: a wallet's seed as a phrase of words.  The word list is an
  argument of the code as of the model.  An array of variable length may have no elements
  (ISO C asks for one).  A word that is NULL is \<open>None\<close>; a result \<open>None\<close> is a
  failed \<open>assert\<close> or an access outside an array.
\<close>

unbundle bit_operations_syntax

definition BIP39_WORDLIST_COUNT :: nat where "BIP39_WORDLIST_COUNT = 2048"
definition SPACE :: byte where "SPACE = 0x20"

section \<open>Encoding\<close>

text \<open>\<open>strncpy(&phrase[len], word, phraseLen - len)\<close>, which fills the rest with NULs.\<close>

definition strncpy_at :: "byte list \<Rightarrow> nat \<Rightarrow> cstring \<Rightarrow> byte list" where
  "strncpy_at phrase len word =
     (let n = length phrase - len in take len phrase @ take n (word @ replicate n 0))"

definition word_at :: "cstring list \<Rightarrow> byte list \<Rightarrow> nat \<Rightarrow> cstring option" where
  "word_at wordList buf i =
     do {
       x \<leftarrow> UInt32GetBE (drop (i * 11 div 8) buf);
       let k = unat (drop_bit (32 - (11 + (i * 11) mod 8)) x) mod BIP39_WORDLIST_COUNT;
       if k < length wordList then Some (wordList ! k) else None
     }"

text \<open>One turn of the loop on the caller's buffer and the length so far.\<close>

definition put_word :: "cstring list \<Rightarrow> byte list \<Rightarrow> nat \<Rightarrow> byte list option \<times> nat \<Rightarrow> (byte list option \<times> nat) option" where
  "put_word wordList buf i = (\<lambda>(phrase, len).
     do {
       word \<leftarrow> word_at wordList buf i;
       let phrase = (if i > 0 then map_option (\<lambda>p. if len < length p then p[len := SPACE] else p) phrase else phrase);
       let len = (if i > 0 then len + 1 else len);
       let phrase = map_option (\<lambda>p. if len < length p then strncpy_at p len word else p) phrase;
       Some (phrase, len + length word)
     })"

definition BRBIP39Encode :: "byte list option \<Rightarrow> cstring list \<Rightarrow> byte list \<Rightarrow> (nat \<times> byte list option) option" where
  "BRBIP39Encode phrase wordList data =
     (if length data = 0 \<or> length data mod 4 \<noteq> 0 then None
      else do {
        (phrase, len) \<leftarrow> for_each [0..<length data * 3 div 4] (put_word wordList (data @ BRSHA256 data)) (phrase, 0);
        Some ((case phrase of None \<Rightarrow> len + 1 | Some p \<Rightarrow> if len + 1 \<le> length p then len + 1 else 0), phrase)
      })"

section \<open>Decoding\<close>

text \<open>The word of the list at the beginning of the phrase, ended by a space or the end.\<close>

definition starts_with :: "cstring \<Rightarrow> cstring \<Rightarrow> bool" where
  "starts_with word w \<longleftrightarrow>
     take (length w) word = w \<and> (length word = length w \<or> word ! length w = SPACE)"

fun find_word :: "cstring list \<Rightarrow> cstring \<Rightarrow> nat \<Rightarrow> nat option" where
  "find_word [] word i = None"
| "find_word (w # ws) word i = (if starts_with word w then Some i else find_word ws word (i + 1))"

text \<open>\<open>word = strchr(word, ' '); if (word) word++;\<close>\<close>

definition next_word :: "cstring \<Rightarrow> cstring option" where
  "next_word word = (case dropWhile (\<lambda>c. c \<noteq> SPACE) word of [] \<Rightarrow> None | _ # rest \<Rightarrow> Some rest)"

text \<open>The loop: the indices found, and whether the phrase was read to its end.\<close>

fun word_loop :: "cstring list \<Rightarrow> cstring option \<Rightarrow> nat \<Rightarrow> nat list \<times> bool" where
  "word_loop wordList None n = ([], True)"
| "word_loop wordList (Some []) n = ([], True)"
| "word_loop wordList (Some (c # cs)) 0 = ([], False)"
| "word_loop wordList (Some (c # cs)) (Suc n) =
     (case find_word (take BIP39_WORDLIST_COUNT wordList) (c # cs) 0 of
        None \<Rightarrow> ([], False)
      | Some i \<Rightarrow> (let (is, done) = word_loop wordList (next_word (c # cs)) n in (i # is, done)))"

text \<open>A byte of the data: parts of one or two indices.\<close>

definition byte_of_words :: "nat list \<Rightarrow> nat \<Rightarrow> byte" where
  "byte_of_words idx i =
     (let x = word_of_nat (idx ! (i * 8 div 11)) :: u32;
          y = (if i * 8 div 11 + 1 < length idx then word_of_nat (idx ! (i * 8 div 11 + 1)) else 0)
      in ucast (drop_bit ((i * 8 div 11 + 2) * 11 - (i + 1) * 8) (x * word_of_nat BIP39_WORDLIST_COUNT + y) AND 0xff))"

definition BRBIP39Decode :: "byte list option \<Rightarrow> cstring list \<Rightarrow> cstring \<Rightarrow> (nat \<times> byte list option) option" where
  "BRBIP39Decode data wordList phrase =
     (if length wordList < BIP39_WORDLIST_COUNT then None
      else let (idx, done) = word_loop wordList (Some phrase) 24;
               count = length idx;
               buf = map (byte_of_words idx) [0..<(count * 11 + 7) div 8];
               b = (if buf = [] then 0 else last buf);
               entropy = take (count * 4 div 3) buf;
               ok = (count mod 3 = 0 \<and> done \<and>
                 drop_bit (8 - count div 3) b = drop_bit (8 - count div 3) (BRSHA256 entropy ! 0));
               r = (if ok then count * 4 div 3 else 0)
           in Some (case data of
                None \<Rightarrow> (r, None)
              | Some d \<Rightarrow> if r \<le> length d then (r, Some (wr d 0 (take r buf))) else (0, Some d)))"

definition BRBIP39PhraseIsValid :: "cstring list \<Rightarrow> cstring \<Rightarrow> bool option" where
  "BRBIP39PhraseIsValid wordList phrase = map_option (\<lambda>(r, _). r > 0) (BRBIP39Decode None wordList phrase)"

text \<open>The bytes of \<open>"mnemonic"\<close>.\<close>

definition MNEMONIC_SALT :: cstring where
  "MNEMONIC_SALT = [0x6d, 0x6e, 0x65, 0x6d, 0x6f, 0x6e, 0x69, 0x63]"

definition BRBIP39DeriveKey :: "cstring \<Rightarrow> cstring option \<Rightarrow> byte list option" where
  "BRBIP39DeriveKey phrase passphrase =
     BRPBKDF2 64 BRSHA512 64 phrase (MNEMONIC_SALT @ (case passphrase of None \<Rightarrow> [] | Some p \<Rightarrow> p)) 2048"

end
