(* ===== verification/Mnemonic_Correct.thy ===== *)
theory Mnemonic_Correct
  imports Mnemonic Crypto_Correct
begin

text \<open>
  A phrase is the data and its checksum regrouped into 11 bits per word.  The theory states
  this on single bits, counted from the most significant one of the first byte, shows that
  decoding regroups back, and concludes which phrases are accepted.
\<close>

unbundle bit_operations_syntax

section \<open>Bits of bytes and of words\<close>

definition byte_bit :: "byte list \<Rightarrow> nat \<Rightarrow> bool" where
  "byte_bit bs p = bit (bs ! (p div 8)) (7 - p mod 8)"

definition word_bit :: "nat list \<Rightarrow> nat \<Rightarrow> bool" where
  "word_bit ws p = bit (ws ! (p div 11)) (10 - p mod 11)"

lemma bytes_eqI:
  assumes "length xs = length ys" and "\<And>p. p < 8 * length xs \<Longrightarrow> byte_bit xs p = byte_bit ys p"
  shows "xs = ys"
proof (rule nth_equalityI [OF assms(1)])
  fix i assume i: "i < length xs"
  show "xs ! i = ys ! i"
  proof (rule bit_word_eqI)
    fix n assume "n < LENGTH(8)"
    then have n: "n < 8" by simp
    define m where "m = 7 - n"
    have m: "m < 8" "7 - m = n" using n by (simp_all add: m_def)
    then have "8 * i + m < 8 * length xs" using i by linarith
    then have "byte_bit xs (8 * i + m) = byte_bit ys (8 * i + m)" by (rule assms(2))
    moreover have "(8 * i + m) div 8 = i" "7 - (8 * i + m) mod 8 = n" using m by simp_all
    ultimately show "bit (xs ! i) n = bit (ys ! i) n" by (simp add: byte_bit_def)
  qed
qed

lemma words_eqI:
  assumes "length xs = length ys" and "\<And>i. i < length xs \<Longrightarrow> xs ! i < 2048" and "\<And>i. i < length ys \<Longrightarrow> ys ! i < 2048"
    and "\<And>p. p < 11 * length xs \<Longrightarrow> word_bit xs p = word_bit ys p"
  shows "xs = ys"
proof (rule nth_equalityI [OF assms(1)])
  fix i assume i: "i < length xs"
  have high: "\<not> bit (m :: nat) n" if "m < 2048" "11 \<le> n" for m n
  proof -
    have "(2048 :: nat) = 2 ^ 11" by simp
    also have "\<dots> \<le> 2 ^ n" using that(2) by (intro power_increasing) simp_all
    finally show ?thesis using that(1) by (simp add: bit_iff_odd)
  qed
  show "xs ! i = ys ! i"
  proof (rule bit_eqI)
    fix n
    show "bit (xs ! i) n = bit (ys ! i) n"
    proof (cases "n < 11")
      case True
      define m where "m = 10 - n"
      have m: "m < 11" "10 - m = n" using True by (simp_all add: m_def)
      then have "11 * i + m < 11 * length xs" using i by linarith
      then have "word_bit xs (11 * i + m) = word_bit ys (11 * i + m)" by (rule assms(4))
      moreover have "(11 * i + m) div 11 = i" "10 - (11 * i + m) mod 11 = n" using m by simp_all
      ultimately show ?thesis by (simp add: word_bit_def)
    next
      case False
      then show ?thesis using high i assms(1,2,3) by simp
    qed
  qed
qed

section \<open>Encoding\<close>

lemma bit_UInt32GetBE:
  assumes "UInt32GetBE bs = Some x" and "n < 32"
  shows "bit x n \<longleftrightarrow> bit (bs ! (3 - n div 8)) (n mod 8)"
proof -
  obtain b0 b1 b2 b3 rest where bs: "bs = b0 # b1 # b2 # b3 # rest"
    using assms(1) by (cases bs rule: UInt32GetBE.cases) auto
  have x: "x = push_bit 24 (ucast b0) OR push_bit 16 (ucast b1) OR push_bit 8 (ucast b2) OR ucast b3"
    using assms(1) by (simp add: bs)
  have b: "bit (b :: byte) k \<Longrightarrow> k < 8" for b k using bit_imp_le_length [of b k] by simp
  consider "n < 8" | "8 \<le> n" "n < 16" | "16 \<le> n" "n < 24" | "24 \<le> n" using assms(2) by linarith
  then show ?thesis
  proof cases
    case 1 then show ?thesis by (auto simp: x bs bit_or_iff bit_push_bit_iff bit_ucast_iff)
  next
    case 2
    then have "n div 8 = 1" "n mod 8 = n - 8" by (simp_all add: div_nat_eqI mod_nat_eqI)
    then show ?thesis using 2 by (auto simp: x bs bit_or_iff bit_push_bit_iff bit_ucast_iff dest: b)
  next
    case 3
    then have "n div 8 = 2" "n mod 8 = n - 16" by (simp_all add: div_nat_eqI mod_nat_eqI)
    then show ?thesis using 3 by (auto simp: x bs bit_or_iff bit_push_bit_iff bit_ucast_iff dest: b)
  next
    case 4
    then have "n div 8 = 3" "n mod 8 = n - 24" using assms(2) by (simp_all add: div_nat_eqI mod_nat_eqI)
    then show ?thesis using 4 assms(2) by (auto simp: x bs bit_or_iff bit_push_bit_iff bit_ucast_iff dest: b)
  qed
qed

text \<open>The index of the \<open>i\<close>-th word of a buffer.\<close>

definition word_index :: "byte list \<Rightarrow> nat \<Rightarrow> nat" where
  "word_index buf i =
     unat (drop_bit (32 - (11 + (i * 11) mod 8)) (the (UInt32GetBE (drop (i * 11 div 8) buf)))) mod 2048"

lemma UInt32GetBE_defined: "4 \<le> length bs \<Longrightarrow> \<exists>x. UInt32GetBE bs = Some x"
  by (cases bs rule: UInt32GetBE.cases) auto

lemma word_index_bit:
  assumes "i * 11 div 8 + 4 \<le> length buf" and "j < 11"
  shows "bit (word_index buf i) (10 - j) = byte_bit buf (11 * i + j)"
proof -
  define o' r where "o' = i * 11 div 8" and "r = (i * 11) mod 8"
  have or: "8 * o' + r = 11 * i" "r < 8" by (simp_all add: o'_def r_def)
  obtain x where x: "UInt32GetBE (drop o' buf) = Some x"
    using UInt32GetBE_defined [of "drop o' buf"] assms(1) by (fastforce simp: o'_def)
  have "unat (drop_bit (21 - r) x) mod 2048 = take_bit 11 (unat (drop_bit (21 - r) x))"
    by (simp add: take_bit_eq_mod)
  then have wi: "word_index buf i = take_bit 11 (unat (drop_bit (21 - r) x))"
    using x or(2) by (simp add: word_index_def o'_def r_def)
  have "10 - j < 11" by linarith
  then have "bit (word_index buf i) (10 - j) = bit x (31 - r - j)"
    using assms(2) or(2) by (simp add: wi bit_take_bit_iff bit_unsigned_iff bit_drop_bit_eq add.commute)
  also have "\<dots> = bit (drop o' buf ! (3 - (31 - r - j) div 8)) ((31 - r - j) mod 8)"
    by (rule bit_UInt32GetBE [OF x]) simp
  also have "\<dots> = bit (drop o' buf ! ((r + j) div 8)) (7 - (r + j) mod 8)"
  proof -
    define a b where "a = (r + j) div 8" and "b = (r + j) mod 8"
    have "r + j = 8 * a + b" "b < 8" by (simp_all add: a_def b_def)
    moreover have "a \<le> 3" using assms(2) or(2) by (simp add: a_def)
    ultimately have "31 - (r + j) = 8 * (3 - a) + (7 - b)" by linarith
    moreover define c where "c = 7 - b"
    ultimately have "31 - (r + j) = 8 * (3 - a) + c" "c < 8" by simp_all
    then have "(31 - (r + j)) mod 8 = c" "(31 - (r + j)) div 8 = 3 - a" by simp_all
    then have "(31 - (r + j)) mod 8 = 7 - (r + j) mod 8" "(31 - (r + j)) div 8 = 3 - (r + j) div 8"
      by (simp_all only: a_def b_def c_def)
    moreover have "(r + j) div 8 \<le> 3" using assms(2) or(2) by simp
    ultimately have "(31 - r - j) mod 8 = 7 - (r + j) mod 8" "3 - (31 - r - j) div 8 = (r + j) div 8" by simp_all
    then show ?thesis by (simp only:)
  qed
  also have "bit (drop o' buf ! ((r + j) div 8)) (7 - (r + j) mod 8) = byte_bit buf (11 * i + j)"
  proof -
    define m where "m = r + j"
    have "11 * i + j = m + 8 * o'" using or(1) by (simp add: m_def)
    then have "(11 * i + j) div 8 = o' + m div 8" "(11 * i + j) mod 8 = m mod 8" by simp_all
    then have "(11 * i + j) div 8 = o' + (r + j) div 8" "(11 * i + j) mod 8 = (r + j) mod 8" by (simp_all only: m_def)
    then show ?thesis using assms(1) by (simp add: byte_bit_def o'_def)
  qed
  finally show ?thesis .
qed

section \<open>Decoding\<close>

lemma byte_of_words_bit:
  assumes "\<And>k. k < length ws \<Longrightarrow> ws ! k < 2048" and "i * 8 div 11 < length ws" and "t < 8"
  shows "bit (byte_of_words ws i) (7 - t) \<longleftrightarrow> 8 * i + t < 11 * length ws \<and> word_bit ws (8 * i + t)"
proof -
  define q r where "q = i * 8 div 11" and "r = (i * 8) mod 11"
  have qr: "11 * q + r = 8 * i" "r < 11" by (simp_all add: q_def r_def)
  have sh: "(q + 2) * 11 - (i + 1) * 8 = 14 - r" using qr by simp
  have q: "q < length ws" using assms(2) by (simp add: q_def)
  define y where "y = (if q + 1 < length ws then ws ! (q + 1) else 0)"
  have x: "ws ! q < 2048" and y: "y < 2048" using assms(1) q by (simp_all add: y_def)
  have small: "m < 2048 \<Longrightarrow> unat (word_of_nat m :: u32) = m" for m by (simp add: unat_of_nat_small)
  have sum: "(word_of_nat (ws ! q) * word_of_nat 2048 + word_of_nat y :: u32) = word_of_nat (ws ! q * 2 ^ 11 + y)" by simp
  have bnd: "ws ! q * 2 ^ 11 + y < 2 ^ 32" using x y by simp
  have disj: "bit (ws ! q * 2 ^ 11 + y) n = (if n < 11 then bit y n else bit (ws ! q) (n - 11))" for n
  proof -
    have "y = take_bit 11 y" using take_bit_nat_eq_self [of y 11] y by simp
    moreover have "push_bit 11 (ws ! q) AND take_bit 11 y = 0"
      by (rule bit_eqI) (auto simp: bit_and_iff bit_push_bit_iff_nat bit_take_bit_iff)
    then have "ws ! q * 2 ^ 11 + take_bit 11 y = push_bit 11 (ws ! q) OR take_bit 11 y"
      unfolding push_bit_eq_mult [symmetric] by (rule disjunctive_add_eq_or)
    ultimately have "bit (ws ! q * 2 ^ 11 + y) n = bit (push_bit 11 (ws ! q) OR take_bit 11 y) n" by simp
    then show ?thesis using \<open>y = take_bit 11 y\<close> by (auto simp: bit_or_iff bit_push_bit_iff_nat bit_take_bit_iff
      dest: arg_cong [where f = "\<lambda>z. bit z n"])
  qed
  have bw: "byte_of_words ws i = ucast (drop_bit (14 - r) (word_of_nat (ws ! q * 2 ^ 11 + y) :: u32) AND 0xff)"
    unfolding byte_of_words_def Let_def q_def [symmetric] sh BIP39_WORDLIST_COUNT_def sum [symmetric]
    by (simp add: y_def)
  have "bit (byte_of_words ws i) (7 - t) = bit (word_of_nat (ws ! q * 2 ^ 11 + y) :: u32) (21 - r - t)"
    using assms(3) qr(2) unfolding bw and_mask8
    by (auto simp: bit_ucast_iff bit_take_bit_iff bit_drop_bit_eq add.commute)
  also have "\<dots> = bit (ws ! q * 2 ^ 11 + y) (21 - r - t)"
    unfolding bit_of_nat_iff by auto
  also have "\<dots> = (8 * i + t < 11 * length ws \<and> word_bit ws (8 * i + t))"
  proof (cases "r + t < 11")
    case True
    define m where "m = r + t"
    have "8 * i + t = 11 * q + m" "m < 11" using qr True by (simp_all add: m_def)
    then have "(8 * i + t) div 11 = q" "(8 * i + t) mod 11 = r + t" by (simp_all add: m_def [symmetric])
    moreover have "8 * i + t < 11 * length ws" using True q qr by linarith
    moreover have e: "21 - r - t = (10 - (r + t)) + 11" using True by linarith
    ultimately show ?thesis using True unfolding e disj by (auto simp: word_bit_def)
  next
    case False
    define s where "s = r + t - 11"
    have s: "s < 11" "r + t = 11 + s" using False qr(2) assms(3) by (simp_all add: s_def)
    have "8 * i + t = 11 * (q + 1) + s" using qr s by simp
    then have "(8 * i + t) div 11 = q + 1" "(8 * i + t) mod 11 = s" "8 * i + t < 11 * length ws \<longleftrightarrow> q + 1 < length ws"
      using s(1) by (simp_all add: div_nat_eqI mod_nat_eqI) linarith
    moreover have "21 - r - t = 10 - s" using s by simp
    then have "bit (ws ! q * 2 ^ 11 + y) (21 - r - t) = bit y (10 - s)"
      using disj [of "10 - s"] by (simp only:) auto
    ultimately show ?thesis by (simp add: word_bit_def y_def)
  qed
  finally show ?thesis .
qed

section \<open>Regrouping\<close>

definition mnemonic_words :: "byte list \<Rightarrow> nat list" where
  "mnemonic_words d = map (word_index (d @ BRSHA256 d)) [0..<length d * 3 div 4]"

definition decode_bytes :: "nat list \<Rightarrow> byte list" where
  "decode_bytes ws = map (byte_of_words ws) [0..<(length ws * 11 + 7) div 8]"

lemma length_SHA256 [simp]: "length (BRSHA256 d) = 32"
  using digest_lengths by blast

lemma word_index_bound: "word_index buf i < 2048"
  by (simp add: word_index_def)

lemma mnemonic_words_bit:
  assumes "length d = 4 * k" and "k \<le> 8" and "p < 33 * k"
  shows "word_bit (mnemonic_words d) p = byte_bit (d @ BRSHA256 d) p"
proof -
  define i j where "i = p div 11" and "j = p mod 11"
  have p: "p = 11 * i + j" "j < 11" by (simp_all add: i_def j_def)
  have i: "i < 3 * k" using assms(3) by (simp add: i_def less_mult_imp_div_less)
  then have "i * 11 div 8 + 4 \<le> length (d @ BRSHA256 d)" using assms(1,2) by simp
  from word_index_bit [OF this p(2)] have "bit (word_index (d @ BRSHA256 d) i) (10 - j) = byte_bit (d @ BRSHA256 d) p"
    by (simp add: p(1))
  then show ?thesis using i assms(1) by (simp add: word_bit_def mnemonic_words_def i_def [symmetric] j_def [symmetric])
qed

lemma decode_bytes_bit:
  assumes "\<forall>w \<in> set ws. w < 2048" and "p < 8 * length (decode_bytes ws)"
  shows "byte_bit (decode_bytes ws) p \<longleftrightarrow> p < 11 * length ws \<and> word_bit ws p"
proof -
  define i t where "i = p div 8" and "t = p mod 8"
  have p: "p = 8 * i + t" "t < 8" by (simp_all add: i_def t_def)
  have i: "i < (length ws * 11 + 7) div 8" using assms(2) by (simp add: i_def decode_bytes_def less_mult_imp_div_less)
  then have "i * 8 div 11 < length ws" by (simp add: less_mult_imp_div_less)
  from byte_of_words_bit [OF _ this p(2)] have "bit (byte_of_words ws i) (7 - t) \<longleftrightarrow> p < 11 * length ws \<and> word_bit ws p"
    using assms(1) by (simp add: p(1))
  then show ?thesis using i by (simp add: byte_bit_def decode_bytes_def i_def [symmetric] t_def [symmetric])
qed

lemma byte_bit_append: "byte_bit (xs @ ys) p = (if p < 8 * length xs then byte_bit xs p else byte_bit ys (p - 8 * length xs))"
proof -
  have "p div 8 < length xs \<longleftrightarrow> p < 8 * length xs" by (auto simp: less_mult_imp_div_less)
  moreover have "\<not> p < 8 * length xs \<Longrightarrow> p div 8 - length xs = (p - 8 * length xs) div 8 \<and> p mod 8 = (p - 8 * length xs) mod 8"
    by (metis add_diff_inverse_nat div_mult_self4 diff_add_inverse mod_mult_self4 zero_neq_numeral)
  ultimately show ?thesis by (auto simp: byte_bit_def nth_append)
qed

lemma top_bits_eq:
  assumes "k \<le> 8"
  shows "drop_bit (8 - k) b = drop_bit (8 - k) (c :: byte) \<longleftrightarrow> (\<forall>j < k. bit b (7 - j) = bit c (7 - j))"
proof
  assume eq: "drop_bit (8 - k) b = drop_bit (8 - k) c"
  show "\<forall>j < k. bit b (7 - j) = bit c (7 - j)"
  proof (intro allI impI)
    fix j assume j: "j < k"
    have "bit (drop_bit (8 - k) b) (k - 1 - j) = bit (drop_bit (8 - k) c) (k - 1 - j)" by (simp add: eq)
    moreover have "8 - k + (k - 1 - j) = 7 - j" using j assms by linarith
    ultimately show "bit b (7 - j) = bit c (7 - j)" by (simp add: bit_drop_bit_eq)
  qed
next
  assume eq: "\<forall>j < k. bit b (7 - j) = bit c (7 - j)"
  show "drop_bit (8 - k) b = drop_bit (8 - k) c"
  proof (rule bit_word_eqI)
    fix n assume "n < LENGTH(8)"
    show "bit (drop_bit (8 - k) b) n = bit (drop_bit (8 - k) c) n"
    proof (cases "n < k")
      case True
      then have "k - 1 - n < k" by linarith
      from eq [rule_format, OF this] have "bit b (7 - (k - 1 - n)) = bit c (7 - (k - 1 - n))" .
      moreover have "7 - (k - 1 - n) = 8 - k + n" using True assms by linarith
      ultimately show ?thesis by (simp only: bit_drop_bit_eq comp_def)
    next
      case False
      then have "\<not> 8 - k + n < 8" using assms by linarith
      then have "\<not> bit x (8 - k + n)" for x :: byte using bit_imp_le_length [of x] by fastforce
      then show ?thesis by (simp add: bit_drop_bit_eq)
    qed
  qed
qed

text \<open>The checksum test of the decoder holds for exactly the words of some data.\<close>

lemma checksum_iff:
  assumes "\<forall>w \<in> set ws. w < 2048" and "length ws = 3 * k" and "1 \<le> k" and "k \<le> 8"
  shows "drop_bit (8 - k) (last (decode_bytes ws)) = drop_bit (8 - k) (BRSHA256 (take (4 * k) (decode_bytes ws)) ! 0) \<longleftrightarrow>
    mnemonic_words (take (4 * k) (decode_bytes ws)) = ws"
proof -
  let ?b = "decode_bytes ws" let ?d = "take (4 * k) ?b" let ?h = "BRSHA256 ?d"
  have len: "length ?b = 4 * k + 1" using assms(2-4) by (simp add: decode_bytes_def)
  then have ld: "length ?d = 4 * k" by simp
  have last: "last ?b = ?b ! (4 * k)" using len by (simp add: last_conv_nth flip: length_greater_0_conv)
  have bits: "byte_bit ?b p \<longleftrightarrow> word_bit ws p" if "p < 33 * k" for p
    using decode_bytes_bit [OF assms(1), of p] that assms(2,4) by (simp add: len)
  have low: "byte_bit (?d @ ?h) p = byte_bit ?b p" if "p < 32 * k" for p
  proof -
    have "p div 8 < 4 * k" using that by (simp add: less_mult_imp_div_less)
    then show ?thesis using that ld by (simp add: byte_bit_def nth_append)
  qed
  have top: "bit (?b ! (4 * k)) (7 - j) = byte_bit ?b (32 * k + j)" "bit (?h ! 0) (7 - j) = byte_bit (?d @ ?h) (32 * k + j)"
    if "j < k" for j
  proof -
    have "(32 * k + j) div 8 = 4 * k" "(32 * k + j) mod 8 = j" using that assms(4)
      by (simp_all add: div_nat_eqI mod_nat_eqI)
    then show "bit (?b ! (4 * k)) (7 - j) = byte_bit ?b (32 * k + j)" by (simp add: byte_bit_def)
    have "byte_bit (?d @ ?h) (32 * k + j) = byte_bit ?h j" using ld by (simp add: byte_bit_append)
    moreover have "j div 8 = 0" "j mod 8 = j" using that assms(4) by simp_all
    ultimately show "bit (?h ! 0) (7 - j) = byte_bit (?d @ ?h) (32 * k + j)" by (simp add: byte_bit_def)
  qed
  have "drop_bit (8 - k) (last ?b) = drop_bit (8 - k) (?h ! 0) \<longleftrightarrow> (\<forall>j < k. byte_bit ?b (32 * k + j) = byte_bit (?d @ ?h) (32 * k + j))"
    unfolding top_bits_eq [OF assms(4)] last using top by simp
  also have "\<dots> \<longleftrightarrow> (\<forall>p < 33 * k. word_bit ws p = byte_bit (?d @ ?h) p)"
  proof
    assume a: "\<forall>j < k. byte_bit ?b (32 * k + j) = byte_bit (?d @ ?h) (32 * k + j)"
    show "\<forall>p < 33 * k. word_bit ws p = byte_bit (?d @ ?h) p"
    proof (intro allI impI)
      fix p assume p: "p < 33 * k"
      show "word_bit ws p = byte_bit (?d @ ?h) p"
      proof (cases "p < 32 * k")
        case False
        then obtain j where "p = 32 * k + j" by (metis le_Suc_ex not_less)
        then show ?thesis using a p bits [OF p] by auto
      qed (use low bits [OF p] in simp)
    qed
  next
    assume "\<forall>p < 33 * k. word_bit ws p = byte_bit (?d @ ?h) p"
    then show "\<forall>j < k. byte_bit ?b (32 * k + j) = byte_bit (?d @ ?h) (32 * k + j)" using bits by simp
  qed
  also have "\<dots> \<longleftrightarrow> mnemonic_words ?d = ws"
  proof
    assume a: "\<forall>p < 33 * k. word_bit ws p = byte_bit (?d @ ?h) p"
    show "mnemonic_words ?d = ws"
    proof (rule words_eqI)
      show "length (mnemonic_words ?d) = length ws" using ld assms(2) by (simp add: mnemonic_words_def)
      show "word_bit (mnemonic_words ?d) p = word_bit ws p" if "p < 11 * length (mnemonic_words ?d)" for p
        using that a mnemonic_words_bit [OF ld assms(4)] ld by (simp add: mnemonic_words_def)
    qed (use assms(1) word_index_bound ld in \<open>auto simp: mnemonic_words_def\<close>)
  qed (use mnemonic_words_bit [OF ld assms(4)] in simp)
  finally show ?thesis .
qed

lemma decode_mnemonic:
  assumes "length d = 4 * k" and "1 \<le> k" and "k \<le> 8"
  shows "take (4 * k) (decode_bytes (mnemonic_words d)) = d"
proof -
  let ?ws = "mnemonic_words d"
  have lw: "length ?ws = 3 * k" using assms(1) by (simp add: mnemonic_words_def)
  have b: "\<forall>w \<in> set ?ws. w < 2048" using word_index_bound by (auto simp: mnemonic_words_def)
  have len: "length (decode_bytes ?ws) = 4 * k + 1" using lw assms(2,3) by (simp add: decode_bytes_def)
  show ?thesis
  proof (rule bytes_eqI)
    show "length (take (4 * k) (decode_bytes ?ws)) = length d" using len assms(1) by simp
    fix p assume "p < 8 * length (take (4 * k) (decode_bytes ?ws))"
    then have p: "p < 32 * k" using len by simp
    then have "p div 8 < 4 * k" by (simp add: less_mult_imp_div_less)
    then have "byte_bit (take (4 * k) (decode_bytes ?ws)) p = byte_bit (decode_bytes ?ws) p"
      by (simp add: byte_bit_def)
    also have "\<dots> = word_bit ?ws p" using decode_bytes_bit [OF b, of p] p len lw by simp
    also have "\<dots> = byte_bit (d @ BRSHA256 d) p" using mnemonic_words_bit [OF assms(1,3)] p by simp
    also have "\<dots> = byte_bit d p" using p assms(1) by (simp add: byte_bit_append)
    finally show "byte_bit (take (4 * k) (decode_bytes ?ws)) p = byte_bit d p" .
  qed
qed

section \<open>The text\<close>

fun unwords :: "cstring list \<Rightarrow> cstring" where
  "unwords [] = []"
| "unwords [w] = w"
| "unwords (w # ws) = w @ SPACE # unwords ws"

definition phrase_of :: "cstring list \<Rightarrow> nat list \<Rightarrow> cstring" where
  "phrase_of wordList ws = unwords (map (\<lambda>i. wordList ! i) ws)"

text \<open>The phrase of some data, as BIP 39 defines it.\<close>

definition mnemonic :: "cstring list \<Rightarrow> byte list \<Rightarrow> cstring" where
  "mnemonic wordList d = phrase_of wordList (mnemonic_words d)"

text \<open>What the code needs of a word list.\<close>

definition word_list :: "cstring list \<Rightarrow> bool" where
  "word_list wordList \<longleftrightarrow> length wordList = 2048 \<and> distinct wordList \<and> (\<forall>w \<in> set wordList. w \<noteq> [] \<and> SPACE \<notin> set w)"

lemma unwords_snoc: "ws \<noteq> [] \<Longrightarrow> unwords (ws @ [w]) = unwords ws @ SPACE # w"
  by (induction ws rule: unwords.induct) simp_all

lemma phrase_Cons: "phrase_of wl (i # is) = (wl ! i) @ (if is = [] then [] else SPACE # phrase_of wl is)"
  by (cases "is") (simp_all add: phrase_of_def)

subsection \<open>Writing\<close>

lemma strncpy_text:
  assumes "len = length text" "length p \<le> length text + length zs" "len < length p"
  shows "strncpy_at (take (length p) (text @ zs)) len w = take (length p) (text @ w @ replicate (length p) 0)"
proof -
  have "length (take (length p) (text @ zs)) = length p" using assms(2) by simp
  moreover have "take n (w @ replicate n 0) = take n (w @ replicate (length p) 0)" if "n \<le> length p" for n
    using that by (auto simp: take_replicate min_def)
  ultimately show ?thesis using assms by (simp add: strncpy_at_def Let_def)
qed

lemma put_words:
  assumes "\<And>i. i < n \<Longrightarrow> word_at wl buf i = Some (ws ! i)" and "length ws = n"
  shows "for_each [0..<n] (put_word wl buf) (p, 0) =
    Some (if n = 0 then p else map_option (\<lambda>p. take (length p) (unwords ws @ replicate (length p) 0)) p, length (unwords ws))"
  using assms
proof (induction n arbitrary: ws)
  case (Suc n)
  define us where "us = butlast ws"
  have ws: "ws = us @ [ws ! n]" "length us = n"
    using Suc.prems(2) by (simp_all add: us_def flip: append_butlast_last_id) (metis append_butlast_last_id diff_Suc_1 last_conv_nth length_0_conv nat.simps(3))
  have us: "us ! i = ws ! i" if "i < n" for i using that ws by (metis nth_append)
  have IH: "for_each [0..<n] (put_word wl buf) (p, 0) =
      Some (if n = 0 then p else map_option (\<lambda>p. take (length p) (unwords us @ replicate (length p) 0)) p, length (unwords us))"
    using Suc.prems(1) us ws(2) by (intro Suc.IH) simp_all
  have w: "word_at wl buf n = Some (ws ! n)" by (rule Suc.prems(1)) simp
  show ?case
  proof (cases "n = 0")
    case True
    then have "us = []" "ws = [ws ! 0]" using ws by simp_all
    then have "unwords ws = ws ! 0" by (metis unwords.simps(2))
    then show ?thesis using True w by (cases p) (auto simp: put_word_def strncpy_at_def Let_def)
  next
    case False
    then have eqt: "unwords ws = unwords us @ SPACE # ws ! n" using ws by (metis length_0_conv unwords_snoc)
    have step: "put_word wl buf n (map_option (\<lambda>p. take (length p) (unwords us @ replicate (length p) 0)) p, length (unwords us)) =
        Some (map_option (\<lambda>p. take (length p) (unwords ws @ replicate (length p) 0)) p, length (unwords ws))"
    proof (cases p)
      case (Some q)
      define u where "u = unwords us"
      define q1 where "q1 = take (length q) (u @ replicate (length q) 0)"
      define q2 where "q2 = take (length q) ((u @ [SPACE]) @ replicate (length q - 1) 0)"
      have l: "length q1 = length q" "length q2 = length q" by (auto simp: q1_def q2_def)
      have q2: "(if length u < length q1 then q1[length u := SPACE] else q1) = q2"
      proof (cases "length u < length q")
        case True
        then have "replicate (length q) (0 :: byte) = 0 # replicate (length q - 1) 0"
          by (metis Suc_diff_1 gr_implies_not0 neq0_conv replicate_Suc)
        moreover have "length q - length u = Suc (length q - length u - 1)" using True by linarith
        ultimately show ?thesis using True unfolding l by (simp add: q1_def q2_def list_update_append take_Cons')
      qed (simp add: q1_def q2_def)
      have "(if length u + 1 < length q2 then strncpy_at q2 (length u + 1) (ws ! n) else q2) =
          take (length q) (unwords ws @ replicate (length q) 0)"
      proof (cases "length u + 1 < length q")
        case True
        then show ?thesis
          using strncpy_text [of "length u + 1" "u @ [SPACE]" q "replicate (length q - 1) 0" "ws ! n"] unfolding l
          by (simp add: eqt q2_def u_def)
      next
        case False
        then show ?thesis unfolding l by (simp add: eqt q2_def u_def take_Cons')
      qed
      moreover have "put_word wl buf n (Some q1, length u) =
          Some (Some (if length u + 1 < length q2 then strncpy_at q2 (length u + 1) (ws ! n) else q2), length u + 1 + length (ws ! n))"
        using w False by (simp add: put_word_def q2 Let_def)
      ultimately show ?thesis by (simp add: Some eqt u_def q1_def)
    qed (use w False eqt in \<open>simp add: put_word_def\<close>)
    show ?thesis using IH step False by (simp add: for_each_append)
  qed
qed simp

lemma word_at_mnemonic:
  assumes "length d = 4 * k" "k \<le> 8" "i < 3 * k" "word_list wl"
  shows "word_at wl (d @ BRSHA256 d) i = Some (map ((!) wl) (mnemonic_words d) ! i)"
proof -
  have "i * 11 div 8 + 4 \<le> length (d @ BRSHA256 d)" using assms(1-3) by simp
  then have "4 \<le> length (drop (i * 11 div 8) (d @ BRSHA256 d))" by simp
  then obtain x where x: "UInt32GetBE (drop (i * 11 div 8) (d @ BRSHA256 d)) = Some x"
    using UInt32GetBE_defined by blast
  then have "word_index (d @ BRSHA256 d) i = unat (drop_bit (32 - (11 + (i * 11) mod 8)) x) mod 2048"
    by (simp add: word_index_def)
  then show ?thesis
    using x assms word_index_bound [of "d @ BRSHA256 d" i]
    by (simp add: word_at_def mnemonic_words_def word_list_def BIP39_WORDLIST_COUNT_def Let_def)
qed

lemma encode_mnemonic:
  assumes "length d = 4 * k" "1 \<le> k" "k \<le> 8" "word_list wl"
  shows "BRBIP39Encode phrase wl d =
    Some (case phrase of None \<Rightarrow> length (mnemonic wl d) + 1
          | Some p \<Rightarrow> if length (mnemonic wl d) + 1 \<le> length p then length (mnemonic wl d) + 1 else 0,
       map_option (\<lambda>p. take (length p) (mnemonic wl d @ replicate (length p) 0)) phrase)"
proof -
  have "length d * 3 div 4 = 3 * k" using assms(1) by simp
  moreover have "length (map ((!) wl) (mnemonic_words d)) = 3 * k" using assms(1) by (simp add: mnemonic_words_def)
  ultimately show ?thesis
    using put_words [of "3 * k" wl "d @ BRSHA256 d" "map ((!) wl) (mnemonic_words d)" phrase]
      word_at_mnemonic [OF assms(1,3) _ assms(4)] assms(1,2)
    by (cases phrase) (simp_all add: BRBIP39Encode_def mnemonic_def phrase_of_def)
qed

subsection \<open>Reading\<close>

lemma starts_with_iff:
  "starts_with p w \<longleftrightarrow> p = w \<or> (\<exists>rest. p = w @ SPACE # rest)"
proof
  assume s: "starts_with p w"
  then have p: "p = w @ drop (length w) p" by (metis append_take_drop_id starts_with_def)
  show "p = w \<or> (\<exists>rest. p = w @ SPACE # rest)"
  proof (cases "drop (length w) p")
    case (Cons c rest)
    then have q: "p = w @ c # rest" using p by simp
    then have "c = SPACE" using s by (simp add: starts_with_def)
    then show ?thesis using q by blast
  next
    case Nil
    then have "p = w" using p by simp
    then show ?thesis by blast
  qed
qed (auto simp: starts_with_def)

lemma starts_with_unique:
  assumes "starts_with p w" "starts_with p w'" "SPACE \<notin> set w" "SPACE \<notin> set w'"
  shows "w = w'"
proof -
  have "takeWhile (\<lambda>c. c \<noteq> SPACE) p = w" if "starts_with p w" "SPACE \<notin> set w" for w
  proof -
    have "\<forall>c \<in> set w. c \<noteq> SPACE" using that(2) by blast
    then show ?thesis using that(1) by (auto simp: starts_with_iff takeWhile_append2 intro: takeWhile_eq_all_conv [THEN iffD2])
  qed
  then show ?thesis using assms by metis
qed

lemma find_word_iff:
  assumes "distinct ws" "\<forall>w \<in> set ws. SPACE \<notin> set w"
  shows "find_word ws p k = Some i \<longleftrightarrow> (\<exists>j < length ws. i = k + j \<and> starts_with p (ws ! j))"
  using assms
proof (induction ws arbitrary: k)
  case (Cons w ws)
  show ?case
  proof (cases "starts_with p w")
    case True
    have "j = 0" if "j < length (w # ws)" "starts_with p ((w # ws) ! j)" for j
    proof (rule ccontr)
      assume "j \<noteq> 0"
      then have "(w # ws) ! j \<in> set ws" using that(1) by (cases j) simp_all
      moreover have "(w # ws) ! j = w"
        using that True Cons.prems(2) \<open>(w # ws) ! j \<in> set ws\<close> by (intro starts_with_unique [of p]) auto
      ultimately show False using Cons.prems(1) by simp
    qed
    then show ?thesis using True by auto
  next
    case False
    have "(\<exists>j < length (w # ws). i = k + j \<and> starts_with p ((w # ws) ! j)) \<longleftrightarrow>
        (\<exists>j < length ws. i = (k + 1) + j \<and> starts_with p (ws ! j))"
      using False by (auto simp: less_Suc_eq_0_disj)
    then show ?thesis using False Cons by simp
  qed
qed simp

lemma find_word_list:
  assumes "word_list wl"
  shows "find_word (take BIP39_WORDLIST_COUNT wl) p 0 = Some i \<longleftrightarrow> i < 2048 \<and> starts_with p (wl ! i)"
  using assms find_word_iff [of wl p 0 i] by (auto simp: word_list_def BIP39_WORDLIST_COUNT_def)

lemma next_word_end: "SPACE \<notin> set w \<Longrightarrow> next_word w = None"
proof -
  assume "SPACE \<notin> set w"
  then have "dropWhile (\<lambda>c. c \<noteq> SPACE) w = []" by (auto simp: dropWhile_eq_Nil_conv)
  then show ?thesis by (simp only: next_word_def list.case)
qed

lemma next_word_space: "SPACE \<notin> set w \<Longrightarrow> next_word (w @ SPACE # rest) = Some rest"
proof -
  assume "SPACE \<notin> set w"
  then have "\<forall>c \<in> set w. c \<noteq> SPACE" by blast
  then have "dropWhile (\<lambda>c. c \<noteq> SPACE) (w @ SPACE # rest) = SPACE # rest" by (simp add: dropWhile_append2)
  then show ?thesis by (simp add: next_word_def)
qed

text \<open>What the loop reads to its end: the words, and possibly one more space.\<close>

lemma word_loop_iff:
  assumes "word_list wl"
  shows "p \<noteq> [] \<Longrightarrow> word_loop wl (Some p) n = (is, True) \<longleftrightarrow>
    is \<noteq> [] \<and> length is \<le> n \<and> (\<forall>i \<in> set is. i < 2048) \<and> (p = phrase_of wl is \<or> p = phrase_of wl is @ [SPACE])"
proof (induction n arbitrary: p "is")
  case 0
  then show ?case by (cases p) auto
next
  case (Suc n)
  obtain c cs where p: "p = c # cs" using Suc.prems by (cases p) auto
  have nosp: "SPACE \<notin> set (wl ! i)" "wl ! i \<noteq> []" if "i < 2048" for i using that assms by (simp_all add: word_list_def)
  show ?case (is "?L \<longleftrightarrow> ?R")
  proof
    assume L: ?L
    obtain i where i: "find_word (take BIP39_WORDLIST_COUNT wl) p 0 = Some i"
      using L by (simp add: p split: option.splits)
    then have i2: "i < 2048" "starts_with p (wl ! i)" by (simp_all add: find_word_list [OF assms])
    obtain js where js: "word_loop wl (next_word p) n = (js, True)" "is = i # js"
      using L i by (auto simp: p split: prod.splits)
    consider "p = wl ! i" | "p = wl ! i @ [SPACE]" | rest where "p = wl ! i @ SPACE # rest" "rest \<noteq> []"
      using i2(2) by (metis starts_with_iff)
    then show ?R
    proof cases
      case 1
      then have "js = []" using js(1) nosp [OF i2(1)] by (simp add: next_word_end)
      then show ?thesis using 1 js(2) i2(1) by (simp add: phrase_of_def)
    next
      case 2
      then have "js = []" using js(1) nosp [OF i2(1)] by (simp add: next_word_space)
      then show ?thesis using 2 js(2) i2(1) by (simp add: phrase_of_def)
    next
      case 3
      then have "word_loop wl (Some rest) n = (js, True)" using js(1) nosp [OF i2(1)] by (simp add: next_word_space)
      then show ?thesis using Suc.IH [OF 3(2)] 3(1) js(2) i2(1) by (auto simp: phrase_Cons)
    qed
  next
    assume R: ?R
    then obtain i js where ijs: "is = i # js" by (cases "is") auto
    have i2: "i < 2048" using R ijs by simp
    have tail: "p = wl ! i \<and> js = [] \<or> (\<exists>rest. p = wl ! i @ SPACE # rest \<and> (rest = [] \<and> js = [] \<or>
        js \<noteq> [] \<and> (rest = phrase_of wl js \<or> rest = phrase_of wl js @ [SPACE])))"
      using R by (auto simp: ijs phrase_Cons split: if_splits)
    then have "starts_with p (wl ! i)" by (auto simp: starts_with_iff)
    then have f: "find_word (take BIP39_WORDLIST_COUNT wl) p 0 = Some i" using i2 by (simp add: find_word_list [OF assms])
    have "word_loop wl (next_word p) n = (js, True)"
      using tail
    proof
      assume "p = wl ! i \<and> js = []"
      then show ?thesis using nosp [OF i2] by (simp add: next_word_end)
    next
      assume "\<exists>rest. p = wl ! i @ SPACE # rest \<and> (rest = [] \<and> js = [] \<or>
        js \<noteq> [] \<and> (rest = phrase_of wl js \<or> rest = phrase_of wl js @ [SPACE]))"
      then obtain rest where rest: "p = wl ! i @ SPACE # rest" "rest = [] \<and> js = [] \<or>
        js \<noteq> [] \<and> (rest = phrase_of wl js \<or> rest = phrase_of wl js @ [SPACE])" by blast
      have nw: "next_word p = Some rest" using nosp [OF i2] rest(1) by (simp add: next_word_space)
      show ?thesis
      proof (cases "rest = []")
        case True
        have "phrase_of wl js \<noteq> []" if ne: "js \<noteq> []"
        proof -
          obtain j ks where "js = j # ks" using ne by (cases js) auto
          then show ?thesis using nosp(2) [of j] R ijs by (simp add: phrase_Cons)
        qed
        then have "js = []" using True rest(2) by auto
        then show ?thesis using True nw by simp
      next
        case False
        then show ?thesis using Suc.IH [OF False, of js] R rest(2) ijs nw by auto
      qed
    qed
    then show ?L using f by (simp add: p ijs)
  qed
qed

section \<open>Phrases and data\<close>

lemma mnemonic_words_range: "w \<in> set (mnemonic_words d) \<Longrightarrow> w < 2048"
  using word_index_bound by (auto simp: mnemonic_words_def)

lemma mnemonic_nonempty:
  assumes "length d = 4 * k" "1 \<le> k" "word_list wl"
  shows "mnemonic wl d \<noteq> []" "mnemonic_words d \<noteq> []"
proof -
  have "length (mnemonic_words d) = 3 * k" using assms(1) by (simp add: mnemonic_words_def)
  then obtain i "is" where m: "mnemonic_words d = i # is" using assms(2) by (cases "mnemonic_words d") auto
  then have "i < 2048" using mnemonic_words_range [of i d] by simp
  then show "mnemonic wl d \<noteq> []" "mnemonic_words d \<noteq> []" using assms(3) m by (auto simp: mnemonic_def phrase_Cons word_list_def)
qed

text \<open>The decoder's answer for the words it read.\<close>

definition decoded :: "nat list \<Rightarrow> byte list" where
  "decoded ws = take (length ws * 4 div 3) (decode_bytes ws)"

lemma decode_result:
  assumes "word_list wl" "word_loop wl (Some p) 24 = (ws, done)" "\<forall>w \<in> set ws. w < 2048" "length ws \<le> 24"
  defines "ok \<equiv> done \<and> length ws mod 3 = 0 \<and> ws \<noteq> [] \<and> mnemonic_words (decoded ws) = ws"
  defines "r \<equiv> (if ok then length ws * 4 div 3 else 0)"
  shows "BRBIP39Decode out wl p = Some (case out of None \<Rightarrow> (r, None)
    | Some o' \<Rightarrow> if r \<le> length o' then (r, Some (wr o' 0 (take r (decode_bytes ws)))) else (0, Some o'))"
proof -
  let ?b = "decode_bytes ws"
  have test: "(length ws mod 3 = 0 \<and> done \<and>
      drop_bit (8 - length ws div 3) (if ?b = [] then 0 else last ?b) =
      drop_bit (8 - length ws div 3) (BRSHA256 (take (length ws * 4 div 3) ?b) ! 0)) \<longleftrightarrow> ok" if "ws \<noteq> []"
  proof (cases "length ws mod 3 = 0")
    case True
    obtain k where k0: "length ws = 3 * k" using True by auto
    then have k: "length ws = 3 * k" "1 \<le> k" "k \<le> 8" using that assms(4) by (cases k; simp)+
    then have "?b \<noteq> []" by (simp add: decode_bytes_def)
    then show ?thesis using checksum_iff [OF assms(3) k] k that by (auto simp: ok_def decoded_def)
  qed (simp add: ok_def)
  show ?thesis
  proof (cases "ws = []")
    case True
    then show ?thesis using assms(1,2)
      by (cases out) (simp_all add: BRBIP39Decode_def word_list_def BIP39_WORDLIST_COUNT_def r_def ok_def Let_def)
  next
    case False
    have "\<not> length wl < BIP39_WORDLIST_COUNT" using assms(1) by (simp add: word_list_def BIP39_WORDLIST_COUNT_def)
    then show ?thesis unfolding BRBIP39Decode_def assms(2) Let_def prod.case decode_bytes_def [symmetric] test [OF False] r_def [symmetric]
      by simp
  qed
qed

lemma word_loop_range:
  assumes "word_list wl"
  shows "word_loop wl w n = (ws, done) \<Longrightarrow> (\<forall>i \<in> set ws. i < 2048) \<and> length ws \<le> n"
proof (induction n arbitrary: w ws)
  case 0
  then show ?case by (cases w; cases "the w") auto
next
  case (Suc n)
  show ?case
  proof (cases "w = None \<or> w = Some []")
    case False
    then obtain c cs where w: "w = Some (c # cs)" by (metis list.exhaust option.exhaust)
    show ?thesis
    proof (cases "find_word (take BIP39_WORDLIST_COUNT wl) (c # cs) 0")
      case (Some i)
      obtain js where "word_loop wl (next_word (c # cs)) n = (js, done)" "ws = i # js"
        using Suc.prems Some by (auto simp: w split: prod.splits)
      then show ?thesis using Suc.IH [of "next_word (c # cs)" js] Some find_word_list [OF assms] by auto
    qed (use Suc.prems in \<open>simp add: w\<close>)
  qed (use Suc.prems in auto)
qed

lemma seed_size: "n mod 4 = 0 \<Longrightarrow> 0 < n \<Longrightarrow> n \<le> 32 \<Longrightarrow> \<exists>k. n = 4 * k \<and> 1 \<le> k \<and> k \<le> (8 :: nat)"
  by presburger

text \<open>
  The phrase of a seed of 4 to 32 bytes: it is announced with its length, it is
  written into any buffer of that size, the rest of which is cleared, and a decoder reads it
  back to the seed.
\<close>

theorem mnemonic_roundtrip:
  assumes "word_list wl" and "length d mod 4 = 0" and "0 < length d" and "length d \<le> 32"
    and "BRBIP39Encode None wl d = Some (n, None)" and "n \<le> length buf" and "length d \<le> length out"
  shows "\<exists>p. length p + 1 = n \<and> BRBIP39Encode (Some buf) wl d = Some (n, Some (p @ replicate (length buf - length p) 0)) \<and>
    BRBIP39Decode (Some out) wl p = Some (length d, Some (d @ drop (length d) out)) \<and> BRBIP39PhraseIsValid wl p = Some True"
proof -
  obtain k where k: "length d = 4 * k" "1 \<le> k" "k \<le> 8" using seed_size [OF assms(2-4)] by blast
  let ?p = "mnemonic wl d" let ?ws = "mnemonic_words d"
  note enc = encode_mnemonic [OF k assms(1)]
  have n: "n = length ?p + 1" using assms(5) enc [of None] by simp
  have lw: "length ?ws = 3 * k" using k(1) by (simp add: mnemonic_words_def)
  have range: "\<forall>w \<in> set ?ws. w < 2048" using mnemonic_words_range by blast
  have read: "word_loop wl (Some ?p) 24 = (?ws, True)"
    using word_loop_iff [OF assms(1) mnemonic_nonempty(1) [OF k(1,2) assms(1)], of 24 ?ws] mnemonic_nonempty(2) [OF k(1,2) assms(1)]
      range lw k(3) by (simp add: mnemonic_def)
  have r: "length ?ws * 4 div 3 = length d" using lw k(1) by simp
  have dec: "decoded ?ws = d" using decode_mnemonic [OF k] lw by (simp add: decoded_def)
  have R: "(if True \<and> length ?ws mod 3 = 0 \<and> ?ws \<noteq> [] \<and> mnemonic_words (decoded ?ws) = ?ws then length ?ws * 4 div 3 else 0) = length d"
    using dec r lw mnemonic_nonempty(2) [OF k(1,2) assms(1)] by simp
  have "BRBIP39Decode o' wl ?p = Some (case o' of None \<Rightarrow> (length d, None)
      | Some o' \<Rightarrow> if length d \<le> length o' then (length d, Some (wr o' 0 (take (length d) (decode_bytes ?ws)))) else (0, Some o'))" for o'
  proof -
    have "length ?ws \<le> 24" using lw k(3) by simp
    from decode_result [OF assms(1) read range this, of o'] show ?thesis unfolding R .
  qed
  moreover have "take (length d) (decode_bytes ?ws) = d" using dec lw k(1) by (simp add: decoded_def)
  ultimately have "BRBIP39Decode (Some out) wl ?p = Some (length d, Some (d @ drop (length d) out))"
    "BRBIP39PhraseIsValid wl ?p = Some True"
    using assms(3,7) by (simp_all add: wr_0 BRBIP39PhraseIsValid_def)
  then show ?thesis using enc [of "Some buf"] assms(6) n by (intro exI [of _ ?p]) simp
qed

text \<open>A word list: two characters for each index.\<close>

definition example_words :: "cstring list" where
  "example_words = map (\<lambda>i. [word_of_nat (64 + i div 64), word_of_nat (64 + i mod 64)]) [0..<2048]"

lemma example_word_list: "word_list example_words"
proof -
  have small: "unat (word_of_nat (64 + m) :: byte) = 64 + m" if "m < 64" for m
    using that by (intro unat_of_nat_small) simp
  have "inj_on (\<lambda>i. [word_of_nat (64 + i div 64) :: byte, word_of_nat (64 + i mod 64)]) (set [0..<2048])"
  proof (rule inj_onI)
    fix i j :: nat
    assume ij: "i \<in> set [0..<2048]" "j \<in> set [0..<2048]"
      and "[word_of_nat (64 + i div 64) :: byte, word_of_nat (64 + i mod 64)] = [word_of_nat (64 + j div 64), word_of_nat (64 + j mod 64)]"
    then have "unat (word_of_nat (64 + i div 64) :: byte) = unat (word_of_nat (64 + j div 64) :: byte)"
      "unat (word_of_nat (64 + i mod 64) :: byte) = unat (word_of_nat (64 + j mod 64) :: byte)" by (simp_all only: list.inject)
    then have "i div 64 = j div 64" "i mod 64 = j mod 64"
      using ij small [of "i div 64"] small [of "j div 64"] small [of "i mod 64"] small [of "j mod 64"] by simp_all
    then show "i = j" by (metis div_mult_mod_eq)
  qed
  then have "distinct example_words" unfolding example_words_def distinct_map by simp
  moreover have "SPACE \<notin> set w \<and> w \<noteq> []" if w: "w \<in> set example_words" for w
  proof -
    obtain i where i: "i < 2048" "w = [word_of_nat (64 + i div 64), word_of_nat (64 + i mod 64)]"
      using w by (auto simp: example_words_def)
    have "unat SPACE = 32" by (simp add: SPACE_def)
    then have "SPACE \<noteq> word_of_nat (64 + m)" if "m < 64" for m using small [OF that] by (metis add_lessD1 less_irrefl_nat not_add_less1 numeral_less_iff semiring_norm(68,75,76,78) trans_less_add1)
    then show ?thesis using i by simp
  qed
  ultimately show ?thesis by (simp add: word_list_def example_words_def)
qed

lemma mnemonic_roundtrip_witness:
  "\<exists>n p. BRBIP39Encode (Some (replicate n 1)) example_words (replicate 16 7) = Some (n, Some (p @ [0])) \<and>
    BRBIP39Decode (Some (replicate 16 1)) example_words p = Some (16, Some (replicate 16 7))"
proof -
  let ?d = "replicate 16 7 :: byte list"
  obtain n where n: "BRBIP39Encode None example_words ?d = Some (n, None)"
    using encode_mnemonic [of ?d 4 example_words None] example_word_list by auto
  obtain p where "length p + 1 = n" "BRBIP39Encode (Some (replicate n 1)) example_words ?d = Some (n, Some (p @ replicate (n - length p) 0))"
    "BRBIP39Decode (Some (replicate 16 1)) example_words p = Some (16, Some ?d)"
    using mnemonic_roundtrip [of example_words ?d n "replicate n 1" "replicate 16 1"] example_word_list n by auto
  moreover from this have "n - length p = 1" by linarith
  ultimately show ?thesis by auto
qed

lemma phrase_valid_mnemonic:
  assumes "word_list wl"
  shows "BRBIP39PhraseIsValid wl p =
    Some (\<exists>d. length d mod 4 = 0 \<and> 0 < length d \<and> length d \<le> 32 \<and> (p = mnemonic wl d \<or> p = mnemonic wl d @ [SPACE]))"
proof -
  obtain ws "done" where read: "word_loop wl (Some p) 24 = (ws, done)" by fastforce
  note range = word_loop_range [OF assms read]
  define ok where "ok \<longleftrightarrow> done \<and> length ws mod 3 = 0 \<and> ws \<noteq> [] \<and> mnemonic_words (decoded ws) = ws"
  have "ok \<Longrightarrow> 0 < length ws * 4 div 3" by (cases ws) (auto simp: ok_def)
  then have "BRBIP39PhraseIsValid wl p = Some ok"
    using decode_result [OF assms read, of None] range by (simp add: BRBIP39PhraseIsValid_def ok_def [symmetric])
  moreover have "ok \<longleftrightarrow> (\<exists>d. length d mod 4 = 0 \<and> 0 < length d \<and> length d \<le> 32 \<and> (p = mnemonic wl d \<or> p = mnemonic wl d @ [SPACE]))"
    (is "_ \<longleftrightarrow> ?R")
  proof
    assume ok
    then have o: "done" "length ws mod 3 = 0" "ws \<noteq> []" "mnemonic_words (decoded ws) = ws" by (simp_all add: ok_def)
    obtain k where k: "length ws = 3 * k" using o(2) by auto
    have k': "1 \<le> k" "k \<le> 8" using k o(3) range by (cases k; simp)+
    have "length (decoded ws) = 4 * k" using k k' by (simp add: decoded_def decode_bytes_def)
    moreover have "p \<noteq> []" using read o(3) by auto
    then have "p = phrase_of wl ws \<or> p = phrase_of wl ws @ [SPACE]"
      using word_loop_iff [OF assms, of p 24 ws] read o(1) by simp
    ultimately show ?R using k' o(4) by (intro exI [of _ "decoded ws"]) (simp add: mnemonic_def)
  next
    assume ?R
    then obtain d where d0: "length d mod 4 = 0" "0 < length d" "length d \<le> 32"
      and p: "p = mnemonic wl d \<or> p = mnemonic wl d @ [SPACE]" by metis
    obtain k where d: "length d = 4 * k" "1 \<le> k" "k \<le> 8" "p = mnemonic wl d \<or> p = mnemonic wl d @ [SPACE]"
      using seed_size [OF d0] p by blast
    have lw: "length (mnemonic_words d) = 3 * k" using d(1) by (simp add: mnemonic_words_def)
    have "p \<noteq> []" using d(4) mnemonic_nonempty(1) [OF d(1,2) assms] by auto
    then have "word_loop wl (Some p) 24 = (mnemonic_words d, True)"
      using word_loop_iff [OF assms, of p 24 "mnemonic_words d"] mnemonic_nonempty(2) [OF d(1,2) assms] mnemonic_words_range [of _ d]
        lw d(3,4) by (auto simp: mnemonic_def)
    then have "ws = mnemonic_words d" "done" using read by simp_all
    moreover from this have "decoded ws = d" using decode_mnemonic [OF d(1-3)] lw by (simp add: decoded_def)
    ultimately show ok using lw d(2) by (auto simp: ok_def)
  qed
  ultimately show ?thesis by simp
qed

lemma encode_text_iff:
  assumes "length d = 4 * k" "1 \<le> k" "k \<le> 8" "word_list wl"
  shows "BRBIP39Encode (Some (replicate (length q + 1) 0)) wl d = Some (length q + 1, Some (q @ [0])) \<longleftrightarrow> q = mnemonic wl d"
proof
  assume e: "BRBIP39Encode (Some (replicate (length q + 1) 0)) wl d = Some (length q + 1, Some (q @ [0]))"
  then have "length (mnemonic wl d) = length q" using encode_mnemonic [OF assms] by (auto split: if_splits)
  then show "q = mnemonic wl d" using e encode_mnemonic [OF assms] by auto
qed (use encode_mnemonic [OF assms] in simp)

text \<open>
  Claim C30.  The decoder accepts exactly the phrases of BIP 39: a phrase is valid if and only
  if the encoder writes it for some seed of 4 to 32 bytes, a multiple of 4, or it is such a
  phrase with one space behind it.  In particular a phrase with a wrong checksum, an unknown word or another number
  of words is rejected.
\<close>

theorem phrase_valid_iff:
  assumes "word_list wl"
  shows "BRBIP39PhraseIsValid wl p =
    Some (\<exists>d q. length d mod 4 = 0 \<and> 0 < length d \<and> length d \<le> 32 \<and> (p = q \<or> p = q @ [SPACE]) \<and>
      BRBIP39Encode (Some (replicate (length q + 1) 0)) wl d = Some (length q + 1, Some (q @ [0])))"
proof -
  have "BRBIP39Encode (Some (replicate (length q + 1) 0)) wl d = Some (length q + 1, Some (q @ [0])) \<longleftrightarrow> q = mnemonic wl d"
    if "length d mod 4 = 0" "0 < length d" "length d \<le> 32" for d q
    using seed_size [OF that] encode_text_iff [OF _ _ _ assms] by blast
  then show ?thesis unfolding phrase_valid_mnemonic [OF assms] option.inject by (metis (no_types, lifting))
qed

lemma phrase_valid_iff_witness: "BRBIP39PhraseIsValid example_words (mnemonic example_words (replicate 16 7)) = Some True"
proof -
  have "length (replicate 16 (7 :: byte)) = 4 * 4" by simp
  from encode_text_iff [OF this _ _ example_word_list, of "mnemonic example_words (replicate 16 7)"]
  have "BRBIP39Encode (Some (replicate (length (mnemonic example_words (replicate 16 7)) + 1) 0)) example_words (replicate 16 7) =
      Some (length (mnemonic example_words (replicate 16 7)) + 1, Some (mnemonic example_words (replicate 16 7) @ [0]))" by simp
  then show ?thesis unfolding phrase_valid_iff [OF example_word_list]
    by (subst option.inject, subst eq_True, intro exI [of _ "replicate 16 7"] exI [of _ "mnemonic example_words (replicate 16 7)"]) simp
qed

end
