(* ===== verification/Peer.thy ===== *)
theory Peer
  imports Double MerkleBlock TransactionParse Wallet
begin

text \<open>
  \<^verbatim>\<open>bitcoin/BRPeer.c\<close>, first part: the state of a connection and the messages it sends.

  \<^item> \<open>BRPeerContext\<close> is the struct of that name; its first component is the public \<open>BRPeer\<close>.
    The fields \<open>pongInfo\<close> and \<open>pongCallback\<close> are one list \<open>pongs\<close> of closures of the type
    \<open>'k\<close> (NULL is \<open>None\<close>), and \<open>mempoolInfo\<close> with \<open>mempoolCallback\<close> is one closure.
  \<^item> What the socket does is recorded beside the struct: \<open>sent\<close> are the frames written to it,
    \<open>closes\<close> counts the calls of \<open>close\<close>.  Whether a \<open>send\<close> succeeds, the clocks, random
    numbers, reachability and whether \<open>realloc\<close> moves an array come from \<open>peer_env\<close>; the
    clocks stand still during one operation.
  \<^item> \<open>None\<close> of an operation is an access outside a buffer or a call that does not return.
    Log messages are left out.
\<close>

unbundle bit_operations_syntax

section \<open>Constants\<close>

definition HEADER_LENGTH :: nat where "HEADER_LENGTH = 24"
definition MAX_MSG_LENGTH :: nat where "MAX_MSG_LENGTH = 0x02000000"
definition MAX_GETDATA_HASHES :: nat where "MAX_GETDATA_HASHES = 50000"
definition ENABLED_SERVICES :: u64 where "ENABLED_SERVICES = 0"
definition PROTOCOL_VERSION :: u32 where "PROTOCOL_VERSION = 70015"
definition MIN_PROTO_VERSION :: u32 where "MIN_PROTO_VERSION = 70002"
definition LOCAL_HOST :: UInt128 where
  "LOCAL_HOST = word_of_le [0, 0, 0, 0, 0, 0, 0, 0, 0, 0, 0xff, 0xff, 0x7f, 0x00, 0x00, 0x01]"
definition CONNECT_TIMEOUT :: double where "CONNECT_TIMEOUT = 3"
definition MESSAGE_TIMEOUT :: double where "MESSAGE_TIMEOUT = 10"
definition WITNESS_FLAG :: u32 where "WITNESS_FLAG = 0x40000000"
definition SERVICES_NODE_NETWORK :: u64 where "SERVICES_NODE_NETWORK = 0x01"
definition SERVICES_NODE_BLOOM :: u64 where "SERVICES_NODE_BLOOM = 0x04"

definition inv_tx :: u32 where "inv_tx = 1"
definition inv_block :: u32 where "inv_block = 2"
definition inv_filtered_block :: u32 where "inv_filtered_block = 3"
definition inv_witness_block :: u32 where "inv_witness_block = inv_block OR WITNESS_FLAG"
definition inv_witness_tx :: u32 where "inv_witness_tx = inv_tx OR WITNESS_FLAG"
definition inv_filtered_witness_block :: u32 where "inv_filtered_witness_block = inv_filtered_block OR WITNESS_FLAG"

definition ascii :: "string \<Rightarrow> cstring" where
  "ascii s = map (\<lambda>c. word_of_nat (of_char c)) s"

definition MSG_VERSION :: cstring where "MSG_VERSION = ascii ''version''"
definition MSG_VERACK :: cstring where "MSG_VERACK = ascii ''verack''"
definition MSG_ADDR :: cstring where "MSG_ADDR = ascii ''addr''"
definition MSG_INV :: cstring where "MSG_INV = ascii ''inv''"
definition MSG_GETDATA :: cstring where "MSG_GETDATA = ascii ''getdata''"
definition MSG_NOTFOUND :: cstring where "MSG_NOTFOUND = ascii ''notfound''"
definition MSG_GETBLOCKS :: cstring where "MSG_GETBLOCKS = ascii ''getblocks''"
definition MSG_GETHEADERS :: cstring where "MSG_GETHEADERS = ascii ''getheaders''"
definition MSG_TX :: cstring where "MSG_TX = ascii ''tx''"
definition MSG_HEADERS :: cstring where "MSG_HEADERS = ascii ''headers''"
definition MSG_GETADDR :: cstring where "MSG_GETADDR = ascii ''getaddr''"
definition MSG_MEMPOOL :: cstring where "MSG_MEMPOOL = ascii ''mempool''"
definition MSG_PING :: cstring where "MSG_PING = ascii ''ping''"
definition MSG_PONG :: cstring where "MSG_PONG = ascii ''pong''"
definition MSG_FILTERLOAD :: cstring where "MSG_FILTERLOAD = ascii ''filterload''"
definition MSG_MERKLEBLOCK :: cstring where "MSG_MERKLEBLOCK = ascii ''merkleblock''"
definition MSG_REJECT :: cstring where "MSG_REJECT = ascii ''reject''"
definition MSG_FEEFILTER :: cstring where "MSG_FEEFILTER = ascii ''feefilter''"
definition USER_AGENT :: cstring where "USER_AGENT = ascii ''/bread:2.1/''"

section \<open>State\<close>

datatype BRPeerStatus = Disconnected | Connecting | Connected

record BRPeer =
  peer_address :: UInt128
  peer_port :: u16
  peer_services :: u64
  peer_timestamp :: u64
  peer_flags :: byte

record 'k BRPeerContext =
  pub :: BRPeer
  magicNumber :: u32
  status :: BRPeerStatus
  waitingForNetwork :: bool
  needsFilterUpdate :: bool
  ctx_nonce :: u64
  ctx_feePerKb :: u64
  useragent :: "byte list"
  ctx_version :: u32
  lastblock :: u32
  ctx_earliestKeyTime :: u32
  currentBlockHeight :: u32
  startTime :: double
  pingTime :: double
  disconnectTime :: double
  mempoolTime :: double
  sentVerack :: bool
  gotVerack :: bool
  sentGetaddr :: bool
  sentFilter :: bool
  sentGetdata :: bool
  sentMempool :: bool
  sentGetblocks :: bool
  lastBlockHash :: UInt256
  currentBlock :: "BRMerkleBlock option"
  currentBlockTxHashes :: "UInt256 list"
  knownBlockHashes :: "UInt256 list"
  knownTxHashes :: "UInt256 list"
  knownTxHashSet :: "UInt256 BRSet"
  pongs :: "'k option list"
  mempoolCallback :: "'k option"
  socket :: int
  sent :: "byte list list"
  closes :: nat

record peer_env =
  clock :: double
  unixTime :: int
  randoms :: u64
  sendOk :: "nat \<Rightarrow> bool"
  reachable :: bool
  threadOk :: bool
  movesTo :: "nat \<Rightarrow> bool"
  junkFlags :: byte

definition BR_PEER_NONE :: BRPeer where
  "BR_PEER_NONE = \<lparr>peer_address = 0, peer_port = 0, peer_services = 0, peer_timestamp = 0, peer_flags = 0\<rparr>"

definition BRPeerNew :: "u32 \<Rightarrow> 'k BRPeerContext" where
  "BRPeerNew magic =
     \<lparr>pub = BR_PEER_NONE, magicNumber = magic, status = Disconnected, waitingForNetwork = False, needsFilterUpdate = False,
      ctx_nonce = 0, ctx_feePerKb = 0, useragent = [], ctx_version = 0, lastblock = 0, ctx_earliestKeyTime = 0,
      currentBlockHeight = 0, startTime = 0, pingTime = DBL_MAX, disconnectTime = DBL_MAX, mempoolTime = DBL_MAX,
      sentVerack = False, gotVerack = False, sentGetaddr = False, sentFilter = False, sentGetdata = False,
      sentMempool = False, sentGetblocks = False, lastBlockHash = 0, currentBlock = None, currentBlockTxHashes = [],
      knownBlockHashes = [], knownTxHashes = [], knownTxHashSet = BRSetNew txKeyHash txKeyEq 10, pongs = [],
      mempoolCallback = None, socket = - 1, sent = [], closes = 0\<rparr>"

section \<open>Peers\<close>

text \<open>The component \<open>u16[i]\<close> of the union.\<close>

definition u16_of :: "UInt128 \<Rightarrow> nat \<Rightarrow> u16" where
  "u16_of u i = ucast (drop_bit (16 * i) u)"

definition BRPeerIsIPv4 :: "BRPeer \<Rightarrow> bool" where
  "BRPeerIsIPv4 peer \<longleftrightarrow>
     u64_of (peer_address peer) 0 = 0 \<and> u16_of (peer_address peer) 4 = 0 \<and> u16_of (peer_address peer) 5 = 0xffff"

definition BRPeerHash :: "BRPeer \<Rightarrow> u32" where
  "BRPeerHash peer = (((0x811C9dc5 XOR u32_of (peer_address peer) 3) * 0x01000193) XOR ucast (peer_port peer)) * 0x01000193"

definition BRPeerEq :: "BRPeer \<Rightarrow> BRPeer \<Rightarrow> bool" where
  "BRPeerEq peer otherPeer \<longleftrightarrow>
     UInt128Eq (peer_address peer) (peer_address otherPeer) \<and> peer_port peer = peer_port otherPeer"

section \<open>Bookkeeping\<close>

text \<open>\<open>BRSetAdd\<close> of every hash of an array.\<close>

definition add_hashes :: "UInt256 list \<Rightarrow> UInt256 BRSet \<Rightarrow> UInt256 BRSet option" where
  "add_hashes hs s = for_each hs (\<lambda>h s. map_option snd (BRSetAdd s h)) s"

definition add_known :: "peer_env \<Rightarrow> UInt256 \<Rightarrow> 'k BRPeerContext \<Rightarrow> 'k BRPeerContext option" where
  "add_known env h ctx =
     do {
       known \<leftarrow> BRSetContains (knownTxHashSet ctx) h;
       if known then Some ctx
       else do {
         let hs = knownTxHashes ctx @ [h];
         s \<leftarrow> (if movesTo env (length (knownTxHashes ctx)) then add_hashes (rev hs) (BRSetClear (knownTxHashSet ctx))
              else add_hashes [h] (knownTxHashSet ctx));
         Some (ctx\<lparr>knownTxHashes := hs, knownTxHashSet := s\<rparr>)
       }
     }"

definition BRPeerAddKnownTxHashes :: "peer_env \<Rightarrow> UInt256 list \<Rightarrow> 'k BRPeerContext \<Rightarrow> 'k BRPeerContext option" where
  "BRPeerAddKnownTxHashes env hs ctx = for_each hs (add_known env) ctx"

definition BRPeerSetEarliestKeyTime :: "u32 \<Rightarrow> 'k BRPeerContext \<Rightarrow> 'k BRPeerContext" where
  "BRPeerSetEarliestKeyTime t ctx = ctx\<lparr>ctx_earliestKeyTime := t\<rparr>"

definition BRPeerSetCurrentBlockHeight :: "u32 \<Rightarrow> 'k BRPeerContext \<Rightarrow> 'k BRPeerContext" where
  "BRPeerSetCurrentBlockHeight h ctx = ctx\<lparr>currentBlockHeight := h\<rparr>"

definition BRPeerSetNeedsFilterUpdate :: "bool \<Rightarrow> 'k BRPeerContext \<Rightarrow> 'k BRPeerContext" where
  "BRPeerSetNeedsFilterUpdate b ctx = ctx\<lparr>needsFilterUpdate := b\<rparr>"

text \<open>\<open>seconds < 0\<close> cancels the timeout.\<close>

definition BRPeerScheduleDisconnect :: "peer_env \<Rightarrow> double \<Rightarrow> 'k BRPeerContext \<Rightarrow> 'k BRPeerContext" where
  "BRPeerScheduleDisconnect env seconds ctx =
     ctx\<lparr>disconnectTime := (if seconds < 0 then DBL_MAX else clock env + seconds)\<rparr>"

section \<open>Connecting and disconnecting\<close>

text \<open>The result says whether a thread was started.\<close>

definition BRPeerConnect :: "peer_env \<Rightarrow> 'k BRPeerContext \<Rightarrow> bool \<times> 'k BRPeerContext" where
  "BRPeerConnect env ctx =
     (if status ctx = Disconnected \<or> waitingForNetwork ctx
      then let ctx = ctx\<lparr>status := Connecting\<rparr>
           in if \<not> reachable env then (False, ctx\<lparr>waitingForNetwork := True\<rparr>)
              else let ctx = ctx\<lparr>waitingForNetwork := False, disconnectTime := clock env + CONNECT_TIMEOUT\<rparr>
                   in if threadOk env then (True, ctx) else (False, ctx\<lparr>status := Disconnected\<rparr>)
      else (False, ctx))"

text \<open>The field \<open>socket\<close> keeps its value after the socket was closed.\<close>

definition BRPeerDisconnect :: "'k BRPeerContext \<Rightarrow> 'k BRPeerContext" where
  "BRPeerDisconnect ctx = (if socket ctx \<ge> 0 then ctx\<lparr>status := Disconnected, closes := closes ctx + 1\<rparr> else ctx)"

section \<open>Sending\<close>

text \<open>\<open>strncpy(buf, type, 12)\<close>.\<close>

definition type_field :: "cstring \<Rightarrow> byte list" where
  "type_field t = take 12 (t @ replicate 12 0)"

definition frame :: "u32 \<Rightarrow> cstring \<Rightarrow> byte list \<Rightarrow> byte list" where
  "frame magic t msg =
     UInt32SetLE magic @ type_field t @ UInt32SetLE (word_of_nat (length msg)) @ take 4 (BRSHA256_2 msg) @ msg"

definition BRPeerSendMessage :: "peer_env \<Rightarrow> byte list \<Rightarrow> cstring \<Rightarrow> 'k BRPeerContext \<Rightarrow> 'k BRPeerContext" where
  "BRPeerSendMessage env msg t ctx =
     (if length msg > MAX_MSG_LENGTH \<or> socket ctx < 0 then ctx
      else if sendOk env (length (sent ctx))
      then let ctx = ctx\<lparr>sent := sent ctx @ [frame (magicNumber ctx) t msg]\<rparr>
           in if clock env \<ge> disconnectTime ctx then BRPeerDisconnect ctx else ctx
      else BRPeerDisconnect ctx)"

definition varint_bytes :: "nat \<Rightarrow> byte list" where
  "varint_bytes n = (case BRVarIntSet (word_of_nat n) (Some (replicate 9 0)) of
     (k, Some buf) \<Rightarrow> take k buf | (k, None) \<Rightarrow> [])"

definition version_message :: "peer_env \<Rightarrow> u64 \<Rightarrow> BRPeer \<Rightarrow> byte list" where
  "version_message env non peer =
     UInt32SetLE PROTOCOL_VERSION @ UInt64SetLE ENABLED_SERVICES @ UInt64SetLE (word_of_int (unixTime env)) @
     UInt64SetLE (peer_services peer) @ UInt128Set (peer_address peer) @ UInt16SetBE (peer_port peer) @
     UInt64SetLE ENABLED_SERVICES @ UInt128Set LOCAL_HOST @ UInt16SetBE (peer_port peer) @ UInt64SetLE non @
     varint_bytes (length USER_AGENT) @ USER_AGENT @ UInt32SetLE 0 @ [0]"

definition BRPeerSendVersionMessage :: "peer_env \<Rightarrow> 'k BRPeerContext \<Rightarrow> 'k BRPeerContext" where
  "BRPeerSendVersionMessage env ctx =
     (let ctx = ctx\<lparr>ctx_nonce := randoms env\<rparr>
      in BRPeerSendMessage env (version_message env (ctx_nonce ctx) (pub ctx)) MSG_VERSION ctx)"

definition BRPeerSendVerackMessage :: "peer_env \<Rightarrow> 'k BRPeerContext \<Rightarrow> 'k BRPeerContext" where
  "BRPeerSendVerackMessage env ctx = (BRPeerSendMessage env [] MSG_VERACK ctx)\<lparr>sentVerack := True\<rparr>"

definition BRPeerSendAddr :: "peer_env \<Rightarrow> 'k BRPeerContext \<Rightarrow> 'k BRPeerContext" where
  "BRPeerSendAddr env ctx = BRPeerSendMessage env (varint_bytes 0) MSG_ADDR ctx"

definition BRPeerSendFilterload :: "peer_env \<Rightarrow> byte list \<Rightarrow> 'k BRPeerContext \<Rightarrow> 'k BRPeerContext" where
  "BRPeerSendFilterload env filt ctx = BRPeerSendMessage env filt MSG_FILTERLOAD (ctx\<lparr>sentFilter := True, sentMempool := False\<rparr>)"

text \<open>
  The result is also the completion callback that is called at once with \<open>success = 0\<close>, when
  the request was already sent.
\<close>

definition BRPeerSendMempool ::
    "peer_env \<Rightarrow> UInt256 list \<Rightarrow> 'k option \<Rightarrow> 'k BRPeerContext \<Rightarrow> ('k option \<times> 'k BRPeerContext) option" where
  "BRPeerSendMempool env hs completion ctx =
     (let already = sentMempool ctx; ctx = ctx\<lparr>sentMempool := True\<rparr>
      in if \<not> already \<and> mempoolCallback ctx = None
         then do {
           ctx \<leftarrow> BRPeerAddKnownTxHashes env hs ctx;
           let ctx = (if completion = None then ctx else ctx\<lparr>mempoolTime := clock env + 10, mempoolCallback := completion\<rparr>);
           Some (None, BRPeerSendMessage env [] MSG_MEMPOOL ctx)
         }
         else Some (completion, ctx))"

definition locators_message :: "UInt256 list \<Rightarrow> UInt256 \<Rightarrow> byte list" where
  "locators_message locators hashStop =
     UInt32SetLE PROTOCOL_VERSION @ varint_bytes (length locators) @ concat (map UInt256Set locators) @ UInt256Set hashStop"

definition BRPeerSendGetheaders :: "peer_env \<Rightarrow> UInt256 list \<Rightarrow> UInt256 \<Rightarrow> 'k BRPeerContext \<Rightarrow> 'k BRPeerContext" where
  "BRPeerSendGetheaders env locators hashStop ctx =
     (if locators \<noteq> [] then BRPeerSendMessage env (locators_message locators hashStop) MSG_GETHEADERS ctx else ctx)"

definition BRPeerSendGetblocks :: "peer_env \<Rightarrow> UInt256 list \<Rightarrow> UInt256 \<Rightarrow> 'k BRPeerContext \<Rightarrow> 'k BRPeerContext" where
  "BRPeerSendGetblocks env locators hashStop ctx =
     (if locators \<noteq> [] then BRPeerSendMessage env (locators_message locators hashStop) MSG_GETBLOCKS ctx else ctx)"

definition inv_item :: "u32 \<Rightarrow> UInt256 \<Rightarrow> byte list" where
  "inv_item t h = UInt32SetLE t @ UInt256Set h"

definition BRPeerSendInv :: "peer_env \<Rightarrow> UInt256 list \<Rightarrow> 'k BRPeerContext \<Rightarrow> 'k BRPeerContext option" where
  "BRPeerSendInv env hs ctx =
     do {
       let knownCount = length (knownTxHashes ctx);
       ctx \<leftarrow> BRPeerAddKnownTxHashes env hs ctx;
       let new = drop knownCount (knownTxHashes ctx);
       Some (if new \<noteq> []
         then BRPeerSendMessage env (varint_bytes (length new) @ concat (map (inv_item inv_tx) new)) MSG_INV ctx else ctx)
     }"

definition BRPeerSendGetdata :: "peer_env \<Rightarrow> UInt256 list \<Rightarrow> UInt256 list \<Rightarrow> 'k BRPeerContext \<Rightarrow> 'k BRPeerContext" where
  "BRPeerSendGetdata env ths bhs ctx =
     (let count = length ths + length bhs
      in if count > MAX_GETDATA_HASHES \<or> count = 0 then ctx
         else BRPeerSendMessage env
           (varint_bytes count @ concat (map (inv_item inv_witness_tx) ths) @ concat (map (inv_item inv_filtered_block) bhs))
           MSG_GETDATA (ctx\<lparr>sentGetdata := True\<rparr>))"

definition BRPeerSendGetaddr :: "peer_env \<Rightarrow> 'k BRPeerContext \<Rightarrow> 'k BRPeerContext" where
  "BRPeerSendGetaddr env ctx = BRPeerSendMessage env [] MSG_GETADDR (ctx\<lparr>sentGetaddr := True\<rparr>)"

definition BRPeerSendPing :: "peer_env \<Rightarrow> 'k option \<Rightarrow> 'k BRPeerContext \<Rightarrow> 'k BRPeerContext" where
  "BRPeerSendPing env k ctx =
     BRPeerSendMessage env (UInt64SetLE (ctx_nonce ctx)) MSG_PING (ctx\<lparr>startTime := clock env, pongs := pongs ctx @ [k]\<rparr>)"

text \<open>The loop from the end of the known hashes: the hashes from the last occurrence on.\<close>

fun from_last :: "UInt256 \<Rightarrow> UInt256 list \<Rightarrow> UInt256 list option" where
  "from_last h [] = None"
| "from_last h (x # xs) =
     (case from_last h xs of Some ys \<Rightarrow> Some ys | None \<Rightarrow> if UInt256Eq x h then Some (x # xs) else None)"

definition BRPeerRerequestBlocks :: "peer_env \<Rightarrow> UInt256 \<Rightarrow> 'k BRPeerContext \<Rightarrow> 'k BRPeerContext" where
  "BRPeerRerequestBlocks env fromBlock ctx =
     (case from_last fromBlock (knownBlockHashes ctx) of
        None \<Rightarrow> ctx
      | Some hs \<Rightarrow> BRPeerSendGetdata env [] hs (ctx\<lparr>knownBlockHashes := hs\<rparr>))"

end
