(* ===== verification/PeerMsg.thy ===== *)
theory PeerMsg
  imports Peer
begin

text \<open>
  \<^verbatim>\<open>bitcoin/BRPeer.c\<close>, second part: what a peer does with the messages it receives.

  \<^item> A handler works on the context and on the owner's state \<open>'m\<close>, which the callbacks of
    \<open>BRPeerSetCallbacks\<close> change; a callback may change the context too, as the peer manager's
    do.  A callback that is not set is \<open>None\<close>; \<open>runPong\<close> is the call through the function
    pointer of a pending ping.
  \<^item> The result says whether the message was accepted; an unacceptable message ends the
    connection.  A result \<open>None\<close> is a read outside the message or a copy larger than memory.
  \<^item> Lengths and offsets are 64-bit words, because the counts come from the peer.
\<close>

unbundle bit_operations_syntax

type_synonym ('k, 'm) peer_state = "'k BRPeerContext \<times> 'm"

record ('k, 'm) peer_owner =
  onConnected :: "(('k, 'm) peer_state \<Rightarrow> ('k, 'm) peer_state option) option"
  onDisconnected :: "(int \<Rightarrow> ('k, 'm) peer_state \<Rightarrow> ('k, 'm) peer_state option) option"
  onRelayedPeers :: "(BRPeer list \<Rightarrow> ('k, 'm) peer_state \<Rightarrow> ('k, 'm) peer_state option) option"
  onRelayedTx :: "(BRTransaction \<Rightarrow> ('k, 'm) peer_state \<Rightarrow> ('k, 'm) peer_state option) option"
  onHasTx :: "(UInt256 \<Rightarrow> ('k, 'm) peer_state \<Rightarrow> ('k, 'm) peer_state option) option"
  onRejectedTx :: "(UInt256 \<Rightarrow> byte \<Rightarrow> ('k, 'm) peer_state \<Rightarrow> ('k, 'm) peer_state option) option"
  onRelayedBlock :: "(BRMerkleBlock \<Rightarrow> ('k, 'm) peer_state \<Rightarrow> ('k, 'm) peer_state option) option"
  onNotfound :: "(UInt256 list \<Rightarrow> UInt256 list \<Rightarrow> ('k, 'm) peer_state \<Rightarrow> ('k, 'm) peer_state option) option"
  onSetFeePerKb :: "(u64 \<Rightarrow> ('k, 'm) peer_state \<Rightarrow> ('k, 'm) peer_state option) option"
  onRequestedTx :: "(UInt256 \<Rightarrow> ('k, 'm) peer_state \<Rightarrow> (BRTransaction option \<times> ('k, 'm) peer_state) option) option"
  runPong :: "'k \<Rightarrow> bool \<Rightarrow> ('k, 'm) peer_state \<Rightarrow> ('k, 'm) peer_state option"

text \<open>\<open>if (f) f(...)\<close>.\<close>

definition callback :: "('s \<Rightarrow> 's option) option \<Rightarrow> 's \<Rightarrow> 's option" where
  "callback f s = (case f of None \<Rightarrow> Some s | Some g \<Rightarrow> g s)"

abbreviation on_ctx :: "('k BRPeerContext \<Rightarrow> 'k BRPeerContext) \<Rightarrow> ('k, 'm) peer_state \<Rightarrow> ('k, 'm) peer_state" where
  "on_ctx f \<equiv> map_prod f id"

section \<open>Reading a message\<close>

definition msg_le :: "byte list \<Rightarrow> u64 \<Rightarrow> nat \<Rightarrow> 'a::len word option" where
  "msg_le msg off n = map_option word_of_le (rd msg (unat off) n)"

text \<open>\<open>BRVarInt(&msg[off], (off <= msgLen ? msgLen - off : 0), &len)\<close>, and the offset behind it.\<close>

definition msg_varint :: "byte list \<Rightarrow> u64 \<Rightarrow> u64 \<times> u64" where
  "msg_varint msg off = (let (v, n) = BRVarInt (drop (unat off) msg) in (v, off + word_of_nat n))"

text \<open>A C string of at most \<open>n\<close> characters, as \<open>strncpy\<close> reads it.\<close>

definition msg_string :: "byte list \<Rightarrow> u64 \<Rightarrow> nat \<Rightarrow> cstring option" where
  "msg_string msg off n =
     (if unat off > length msg then None
      else let s = takeWhile (\<lambda>c. c \<noteq> 0) (take n (drop (unat off) msg))
           in if length s < n \<and> unat off + length s \<ge> length msg then None else Some s)"

text \<open>The \<open>i\<close>-th item of an inventory: its type and its hash.\<close>

definition inv_at :: "byte list \<Rightarrow> u64 \<Rightarrow> (u32 \<times> UInt256) option" where
  "inv_at msg off =
     do {
       t \<leftarrow> msg_le msg off 4;
       h \<leftarrow> msg_le msg (off + 4) 32;
       Some (t, h)
     }"

primrec inv_items :: "byte list \<Rightarrow> u64 \<Rightarrow> nat \<Rightarrow> (u32 \<times> UInt256) list option" where
  "inv_items msg off 0 = Some []"
| "inv_items msg off (Suc n) =
     do {
       i \<leftarrow> inv_at msg off;
       is \<leftarrow> inv_items msg (off + 36) n;
       Some (i # is)
     }"

section \<open>Handshake\<close>

definition BRPeerDidConnect :: "('k, 'm) peer_owner \<Rightarrow> ('k, 'm) peer_state \<Rightarrow> ('k, 'm) peer_state option" where
  "BRPeerDidConnect owner = (\<lambda>(ctx, m).
     if status ctx = Connecting \<and> sentVerack ctx \<and> gotVerack ctx
     then callback (onConnected owner) (ctx\<lparr>disconnectTime := DBL_MAX, status := Connected\<rparr>, m)
     else Some (ctx, m))"

definition BRPeerAcceptVersionMessage :: "peer_env \<Rightarrow> byte list \<Rightarrow> ('k, 'm) peer_state \<Rightarrow> (bool \<times> ('k, 'm) peer_state) option" where
  "BRPeerAcceptVersionMessage env msg = (\<lambda>(ctx, m).
     if 85 > length msg then Some (False, (ctx, m))
     else do {
       ver \<leftarrow> msg_le msg 0 4;
       services \<leftarrow> msg_le msg 4 8;
       time \<leftarrow> msg_le msg 12 8;
       let ctx = ctx\<lparr>ctx_version := ver, pub := (pub ctx)\<lparr>peer_services := services, peer_timestamp := time\<rparr>\<rparr>;
       let (strLen, off) = msg_varint msg 80;
       if off + strLen + 4 > word_of_nat (length msg) then Some (False, (ctx, m))
       else if ctx_version ctx < MIN_PROTO_VERSION then Some (False, (ctx, m))
       else do {
         agent \<leftarrow> rd msg (unat off) (unat strLen);
         last \<leftarrow> msg_le msg (off + strLen) 4;
         Some (True, (BRPeerSendVerackMessage env (ctx\<lparr>useragent := agent @ [0], lastblock := last\<rparr>), m))
       }
     })"

definition BRPeerAcceptVerackMessage ::
    "peer_env \<Rightarrow> ('k, 'm) peer_owner \<Rightarrow> ('k, 'm) peer_state \<Rightarrow> (bool \<times> ('k, 'm) peer_state) option" where
  "BRPeerAcceptVerackMessage env owner = (\<lambda>(ctx, m).
     if gotVerack ctx then Some (True, (ctx, m))
     else map_option (Pair True) (BRPeerDidConnect owner
       (ctx\<lparr>pingTime := clock env - startTime ctx, startTime := 0, gotVerack := True\<rparr>, m)))"

section \<open>Addresses\<close>

text \<open>
  An entry of 30 bytes.  The variable \<open>p\<close> of the code is not initialised, so the flags are
  arbitrary; the timestamp is unsigned and two hours are taken off it.
\<close>

definition addr_at :: "peer_env \<Rightarrow> byte list \<Rightarrow> u64 \<Rightarrow> BRPeer option" where
  "addr_at env msg off =
     do {
       time \<leftarrow> msg_le msg off 4;
       services \<leftarrow> msg_le msg (off + 4) 8;
       addr \<leftarrow> msg_le msg (off + 12) 16;
       port \<leftarrow> map_option word_of_le (map_option rev (rd msg (unat (off + 28)) 2));
       Some \<lparr>peer_address = addr, peer_port = port, peer_services = services,
         peer_timestamp = ucast (time :: u32), peer_flags = junkFlags env\<rparr>
     }"

definition addr_time :: "peer_env \<Rightarrow> u64 \<Rightarrow> u64" where
  "addr_time env t =
     (let now = word_of_int (unixTime env)
      in (if t > now + 10 * 60 \<or> t = 0 then now - 5 * 24 * 60 * 60 else t) - 2 * 60 * 60)"

primrec addr_items :: "peer_env \<Rightarrow> byte list \<Rightarrow> u64 \<Rightarrow> nat \<Rightarrow> BRPeer list option" where
  "addr_items env msg off 0 = Some []"
| "addr_items env msg off (Suc n) =
     do {
       p \<leftarrow> addr_at env msg off;
       ps \<leftarrow> addr_items env msg (off + 30) n;
       Some (if peer_services p AND SERVICES_NODE_NETWORK = 0 \<or> \<not> BRPeerIsIPv4 p then ps
         else p\<lparr>peer_timestamp := addr_time env (peer_timestamp p)\<rparr> # ps)
     }"

definition BRPeerAcceptAddrMessage ::
    "peer_env \<Rightarrow> ('k, 'm) peer_owner \<Rightarrow> byte list \<Rightarrow> ('k, 'm) peer_state \<Rightarrow> (bool \<times> ('k, 'm) peer_state) option" where
  "BRPeerAcceptAddrMessage env owner msg s =
     (let (count, off) = msg_varint msg 0
      in if off = 0 \<or> off + count * 30 > word_of_nat (length msg) then Some (False, s)
         else if count > 1000 then Some (True, s)
         else if sentGetaddr (fst s)
         then do {
           peers \<leftarrow> addr_items env msg off (unat count);
           map_option (Pair True) (if peers \<noteq> [] then callback (map_option (\<lambda>f. f peers) (onRelayedPeers owner)) s else Some s)
         }
         else Some (True, s))"

section \<open>Inventories\<close>

definition of_type :: "u32 \<Rightarrow> (u32 \<times> UInt256) list \<Rightarrow> UInt256 list" where
  "of_type t items = map snd (filter (\<lambda>i. fst i = t) items)"

text \<open>\<open>while (array_count(a) > MAX_GETDATA_HASHES) array_rm_range(a, 0, array_count(a)/3)\<close>.\<close>

function trim_known :: "UInt256 list \<Rightarrow> UInt256 list" where
  "trim_known hs = (if length hs > MAX_GETDATA_HASHES then trim_known (drop (length hs div 3) hs) else hs)"
  by pat_completeness auto
termination
  by (relation "measure length") (auto simp: MAX_GETDATA_HASHES_def)

declare trim_known.simps [simp del]

text \<open>The loop over the announced transactions: known ones are reported, the others collected.\<close>

fun sort_tx :: "('k, 'm) peer_owner \<Rightarrow> UInt256 list \<Rightarrow> ('k, 'm) peer_state \<Rightarrow> (UInt256 list \<times> ('k, 'm) peer_state) option" where
  "sort_tx owner [] s = Some ([], s)"
| "sort_tx owner (h # hs) s =
     do {
       known \<leftarrow> BRSetContains (knownTxHashSet (fst s)) h;
       s \<leftarrow> (if known then callback (map_option (\<lambda>f. f h) (onHasTx owner)) s else Some s);
       (new, s) \<leftarrow> sort_tx owner hs s;
       Some (if known then new else h # new, s)
     }"

definition inv_unexpected :: "'k BRPeerContext \<Rightarrow> nat \<Rightarrow> nat \<Rightarrow> bool" where
  "inv_unexpected ctx txCount blockCount \<longleftrightarrow>
     txCount > 0 \<and> \<not> sentFilter ctx \<and> \<not> sentMempool ctx \<and> \<not> sentGetblocks ctx \<or>
     txCount > 10000 \<or>
     currentBlockHeight ctx > 0 \<and> blockCount > 2 \<and> blockCount < 500 \<and>
       unat (currentBlockHeight ctx) + length (knownBlockHashes ctx) + blockCount < unat (lastblock ctx)"

definition BRPeerAcceptInvMessage ::
    "peer_env \<Rightarrow> ('k, 'm) peer_owner \<Rightarrow> byte list \<Rightarrow> ('k, 'm) peer_state \<Rightarrow> (bool \<times> ('k, 'm) peer_state) option" where
  "BRPeerAcceptInvMessage env owner msg s =
     (let (count, off) = msg_varint msg 0
      in if off = 0 \<or> off + count * 36 > word_of_nat (length msg) then Some (False, s)
         else if unat count > MAX_GETDATA_HASHES then Some (True, s)
         else do {
           items \<leftarrow> inv_items msg off (unat count);
           let txs = of_type inv_tx items;
           let blocks = of_type inv_block items;
           if inv_unexpected (fst s) (length txs) (length blocks) then Some (False, s)
           else do {
             let blocks = (if \<not> sentFilter (fst s) \<and> \<not> sentGetblocks (fst s) then [] else blocks);
             let blocks = (if length blocks = 1 \<and> UInt256Eq (lastBlockHash (fst s)) (blocks ! 0) then [] else blocks);
             let s = on_ctx (\<lambda>c. (if length blocks = 1 then c\<lparr>lastBlockHash := blocks ! 0\<rparr> else c)) s;
             let s = on_ctx (\<lambda>c. c\<lparr>knownBlockHashes := trim_known (knownBlockHashes c @ blocks)\<rparr>) s;
             let blocks = (if needsFilterUpdate (fst s) then [] else blocks);
             (new, s) \<leftarrow> sort_tx owner txs s;
             ctx \<leftarrow> BRPeerAddKnownTxHashes env new (fst s);
             let ctx = (if new \<noteq> [] \<or> blocks \<noteq> [] then BRPeerSendGetdata env new blocks ctx else ctx);
             let ctx = (if length blocks \<ge> 500 then BRPeerSendGetblocks env [last blocks, hd blocks] 0 ctx else ctx);
             let ctx = (if txs \<noteq> [] \<and> mempoolCallback ctx \<noteq> None
               then (BRPeerSendPing env (mempoolCallback ctx) ctx)\<lparr>mempoolCallback := None, mempoolTime := DBL_MAX\<rparr> else ctx);
             Some (True, (ctx, snd s))
           }
         })"

definition BRPeerAcceptNotfoundMessage ::
    "('k, 'm) peer_owner \<Rightarrow> byte list \<Rightarrow> ('k, 'm) peer_state \<Rightarrow> (bool \<times> ('k, 'm) peer_state) option" where
  "BRPeerAcceptNotfoundMessage owner msg s =
     (let (count, off) = msg_varint msg 0
      in if off = 0 \<or> off + count * 36 > word_of_nat (length msg) then Some (False, s)
         else if unat count > MAX_GETDATA_HASHES then Some (True, s)
         else do {
           items \<leftarrow> inv_items msg off (unat count);
           let txs = map snd (filter (\<lambda>i. fst i \<in> {inv_witness_tx, inv_tx}) items);
           let blocks = map snd (filter (\<lambda>i. fst i \<in>
             {inv_filtered_witness_block, inv_witness_block, inv_filtered_block, inv_block}) items);
           map_option (Pair True) (callback (map_option (\<lambda>f. f txs blocks) (onNotfound owner)) s)
         })"

text \<open>
  The loop over the requested items, of which the loop returns those not found, as the 36
  bytes of the request.
\<close>

definition requested :: "('k, 'm) peer_owner \<Rightarrow> UInt256 \<Rightarrow> ('k, 'm) peer_state \<Rightarrow> (BRTransaction option \<times> ('k, 'm) peer_state) option" where
  "requested owner h s = (case onRequestedTx owner of None \<Rightarrow> Some (None, s) | Some f \<Rightarrow> f h s)"

definition serialized_tx :: "BRTransaction \<Rightarrow> byte list option" where
  "serialized_tx tx =
     do {
       (n, _) \<leftarrow> BRTransactionSerialize tx None;
       (m, out) \<leftarrow> BRTransactionSerialize tx (Some (replicate n 0));
       Some (case out of None \<Rightarrow> [] | Some b \<Rightarrow> take m b)
     }"

primrec serve_items ::
    "peer_env \<Rightarrow> ('k, 'm) peer_owner \<Rightarrow> byte list \<Rightarrow> u64 \<Rightarrow> nat \<Rightarrow> ('k, 'm) peer_state \<Rightarrow> (byte list list \<times> ('k, 'm) peer_state) option" where
  "serve_items env owner msg off 0 s = Some ([], s)"
| "serve_items env owner msg off (Suc n) s =
     do {
       (t, h) \<leftarrow> inv_at msg off;
       item \<leftarrow> rd msg (unat off) 36;
       (tx, s) \<leftarrow> (if t \<in> {inv_witness_tx, inv_tx} then requested owner h s else Some (None, s));
       (found, s) \<leftarrow> (case tx of
           None \<Rightarrow> Some (False, s)
         | Some tx \<Rightarrow> if BRTransactionVSize tx < TX_MAX_SIZE
             then map_option (\<lambda>bs. (True, on_ctx (BRPeerSendMessage env bs MSG_TX) s)) (serialized_tx tx)
             else Some (False, s));
       (notfound, s) \<leftarrow> serve_items env owner msg (off + 36) n s;
       Some (if found then notfound else item # notfound, s)
     }"

definition BRPeerAcceptGetdataMessage ::
    "peer_env \<Rightarrow> ('k, 'm) peer_owner \<Rightarrow> byte list \<Rightarrow> ('k, 'm) peer_state \<Rightarrow> (bool \<times> ('k, 'm) peer_state) option" where
  "BRPeerAcceptGetdataMessage env owner msg s =
     (let (count, off) = msg_varint msg 0
      in if off = 0 \<or> off + count * 36 > word_of_nat (length msg) then Some (False, s)
         else if unat count > MAX_GETDATA_HASHES then Some (True, s)
         else do {
           (notfound, s) \<leftarrow> serve_items env owner msg off (unat count) s;
           Some (True, if notfound = [] then s
             else on_ctx (BRPeerSendMessage env (varint_bytes (length notfound) @ concat notfound) MSG_NOTFOUND) s)
         })"

section \<open>Transactions\<close>

text \<open>The loop that removes the last occurrence of a hash.\<close>

fun remove_hash :: "UInt256 \<Rightarrow> UInt256 list \<Rightarrow> UInt256 list" where
  "remove_hash h [] = []"
| "remove_hash h (x # xs) = (if UInt256Eq h x \<and> \<not> (\<exists>y \<in> set xs. UInt256Eq h y) then xs else x # remove_hash h xs)"

text \<open>A transaction that completes the block being collected passes the block on.\<close>

definition collect_tx :: "('k, 'm) peer_owner \<Rightarrow> UInt256 \<Rightarrow> ('k, 'm) peer_state \<Rightarrow> ('k, 'm) peer_state option" where
  "collect_tx owner h s =
     (case currentBlock (fst s) of
        None \<Rightarrow> Some s
      | Some block \<Rightarrow>
          let s = on_ctx (\<lambda>c. c\<lparr>currentBlockTxHashes := remove_hash h (currentBlockTxHashes c)\<rparr>) s
          in if currentBlockTxHashes (fst s) = []
             then callback (map_option (\<lambda>f. f block) (onRelayedBlock owner)) (on_ctx (\<lambda>c. c\<lparr>currentBlock := None\<rparr>) s)
             else Some s)"

definition BRPeerAcceptTxMessage ::
    "('k, 'm) peer_owner \<Rightarrow> byte list \<Rightarrow> ('k, 'm) peer_state \<Rightarrow> (bool \<times> ('k, 'm) peer_state) option" where
  "BRPeerAcceptTxMessage owner msg s =
     do {
       tx \<leftarrow> BRTransactionParse msg;
       case tx of
         None \<Rightarrow> Some (False, s)
       | Some tx \<Rightarrow>
           if \<not> sentFilter (fst s) \<and> \<not> sentGetdata (fst s) then Some (False, s)
           else do {
             s \<leftarrow> callback (map_option (\<lambda>f. f tx) (onRelayedTx owner)) s;
             s \<leftarrow> collect_tx owner (txHash tx) s;
             Some (True, s)
           }
     }"

section \<open>Headers\<close>

definition header_hash_at :: "byte list \<Rightarrow> u64 \<Rightarrow> UInt256 option" where
  "header_hash_at msg off = map_option (\<lambda>bs. word_of_le (BRSHA256_2 bs)) (rd msg (unat off) 80)"

definition header_time_at :: "byte list \<Rightarrow> u64 \<Rightarrow> u64 \<Rightarrow> u32 option" where
  "header_time_at msg off i = msg_le msg (off + 81 * i + 68) 4"

text \<open>\<open>timestamp + 7*24*60*60 + BLOCK_MAX_TIME_DRIFT\<close> in 32 bits.\<close>

definition week_later :: "u32 \<Rightarrow> u32" where
  "week_later t = t + 7 * 24 * 60 * 60 + BLOCK_MAX_TIME_DRIFT"

text \<open>\<open>timestamp = (++last < count) ? ... : 0\<close>, repeated while the header is old.\<close>

function skip_old :: "byte list \<Rightarrow> u64 \<Rightarrow> u64 \<Rightarrow> u32 \<Rightarrow> nat \<Rightarrow> nat option" where
  "skip_old msg off count earliest k =
     (if k + 1 < unat count
      then (case header_time_at msg off (word_of_nat (k + 1)) of
          None \<Rightarrow> None
        | Some t \<Rightarrow> if t > 0 \<and> week_later t < earliest then skip_old msg off count earliest (k + 1) else Some (k + 1))
      else Some (k + 1))"
  by pat_completeness auto
termination
  by (relation "measure (\<lambda>(msg, off, count, earliest, k). unat count - k)") auto

declare skip_old.simps [simp del]

text \<open>The loop over the headers; it stops at the first that is not valid.\<close>

primrec relay_headers ::
    "peer_env \<Rightarrow> ('k, 'm) peer_owner \<Rightarrow> byte list \<Rightarrow> u64 \<Rightarrow> nat \<Rightarrow> ('k, 'm) peer_state \<Rightarrow> (bool \<times> ('k, 'm) peer_state) option" where
  "relay_headers env owner msg off 0 s = Some (True, s)"
| "relay_headers env owner msg off (Suc n) s =
     do {
       bs \<leftarrow> rd msg (unat off) 81;
       block \<leftarrow> BRMerkleBlockParse bs;
       block \<leftarrow> block;
       valid \<leftarrow> BRMerkleBlockIsValid block (word_of_int (unixTime env));
       if valid then do {
         s \<leftarrow> callback (map_option (\<lambda>f. f block) (onRelayedBlock owner)) s;
         relay_headers env owner msg (off + 81) n s
       } else Some (False, s)
     }"

definition BRPeerAcceptHeadersMessage ::
    "peer_env \<Rightarrow> ('k, 'm) peer_owner \<Rightarrow> byte list \<Rightarrow> ('k, 'm) peer_state \<Rightarrow> (bool \<times> ('k, 'm) peer_state) option" where
  "BRPeerAcceptHeadersMessage env owner msg s =
     (let (count, off) = msg_varint msg 0; earliest = ctx_earliestKeyTime (fst s)
      in if off = 0 \<or> off + 81 * count > word_of_nat (length msg) then Some (False, s)
         else do {
           t \<leftarrow> (if count > 0 then header_time_at msg off (count - 1) else Some 0);
           let recent = (t > 0 \<and> week_later t \<ge> earliest);
           if count \<ge> 2000 \<or> recent then do {
             newest \<leftarrow> header_hash_at msg (off + 81 * (count - 1));
             oldest \<leftarrow> header_hash_at msg off;
             s \<leftarrow> (if recent then do {
                 last \<leftarrow> skip_old msg off count earliest 0;
                 newest \<leftarrow> header_hash_at msg (off + 81 * (word_of_nat last - 1));
                 Some (on_ctx (BRPeerSendGetblocks env [newest, oldest] 0) s)
               } else Some (on_ctx (BRPeerSendGetheaders env [newest, oldest] 0) s));
             relay_headers env owner msg off (unat count) s
           } else Some (False, s)
         })"

section \<open>Pings\<close>

definition BRPeerAcceptGetaddrMessage :: "peer_env \<Rightarrow> ('k, 'm) peer_state \<Rightarrow> (bool \<times> ('k, 'm) peer_state) option" where
  "BRPeerAcceptGetaddrMessage env s = Some (True, on_ctx (BRPeerSendAddr env) s)"

definition BRPeerAcceptPingMessage :: "peer_env \<Rightarrow> byte list \<Rightarrow> ('k, 'm) peer_state \<Rightarrow> (bool \<times> ('k, 'm) peer_state) option" where
  "BRPeerAcceptPingMessage env msg s =
     (if 8 > length msg then Some (False, s) else Some (True, on_ctx (BRPeerSendMessage env msg MSG_PONG) s))"

definition run_pong :: "('k, 'm) peer_owner \<Rightarrow> 'k option \<Rightarrow> bool \<Rightarrow> ('k, 'm) peer_state \<Rightarrow> ('k, 'm) peer_state option" where
  "run_pong owner k success s = (case k of None \<Rightarrow> Some s | Some k \<Rightarrow> runPong owner k success s)"

definition BRPeerAcceptPongMessage ::
    "peer_env \<Rightarrow> ('k, 'm) peer_owner \<Rightarrow> byte list \<Rightarrow> ('k, 'm) peer_state \<Rightarrow> (bool \<times> ('k, 'm) peer_state) option" where
  "BRPeerAcceptPongMessage env owner msg = (\<lambda>(ctx, m).
     if 8 > length msg then Some (False, (ctx, m))
     else do {
       non \<leftarrow> msg_le msg 0 8;
       if non \<noteq> ctx_nonce ctx then Some (False, (ctx, m))
       else case pongs ctx of
           [] \<Rightarrow> Some (False, (ctx, m))
         | k # ks \<Rightarrow>
             let ctx = (if startTime ctx > 1
               then ctx\<lparr>pingTime := pingTime ctx / 2 + (clock env - startTime ctx) / 2, startTime := 0\<rparr> else ctx)
             in map_option (Pair True) (run_pong owner k True (ctx\<lparr>pongs := ks\<rparr>, m))
     })"

section \<open>Blocks with a partial Merkle tree\<close>

text \<open>The hashes of the block's transactions that are not known, the last one first.\<close>

fun unknown_hashes :: "UInt256 BRSet \<Rightarrow> UInt256 list \<Rightarrow> UInt256 list option" where
  "unknown_hashes s [] = Some []"
| "unknown_hashes s (h # hs) =
     do {
       known \<leftarrow> BRSetContains s h;
       rest \<leftarrow> unknown_hashes s hs;
       Some (if known then rest else h # rest)
     }"

definition block_tx_hashes :: "BRMerkleBlock \<Rightarrow> UInt256 list option" where
  "block_tx_hashes block =
     do {
       (count, _) \<leftarrow> BRMerkleBlockTxHashes block None;
       (count, hs) \<leftarrow> BRMerkleBlockTxHashes block (Some count);
       Some (take count hs)
     }"

definition BRPeerAcceptMerkleblockMessage ::
    "peer_env \<Rightarrow> ('k, 'm) peer_owner \<Rightarrow> byte list \<Rightarrow> ('k, 'm) peer_state \<Rightarrow> (bool \<times> ('k, 'm) peer_state) option" where
  "BRPeerAcceptMerkleblockMessage env owner msg s =
     do {
       block \<leftarrow> BRMerkleBlockParse msg;
       case block of
         None \<Rightarrow> Some (False, s)
       | Some block \<Rightarrow> do {
           valid \<leftarrow> BRMerkleBlockIsValid block (word_of_int (unixTime env));
           if \<not> valid then Some (False, s)
           else if \<not> sentFilter (fst s) \<and> \<not> sentGetdata (fst s) then Some (False, s)
           else do {
             hs \<leftarrow> block_tx_hashes block;
             new \<leftarrow> unknown_hashes (knownTxHashSet (fst s)) (rev hs);
             let s = on_ctx (\<lambda>c. c\<lparr>currentBlockTxHashes := currentBlockTxHashes c @ new\<rparr>) s;
             s \<leftarrow> (if currentBlockTxHashes (fst s) \<noteq> [] then Some (on_ctx (\<lambda>c. c\<lparr>currentBlock := Some block\<rparr>) s)
               else callback (map_option (\<lambda>f. f block) (onRelayedBlock owner)) s);
             Some (True, s)
           }
         }
     }"

section \<open>Rejections and fees\<close>

definition BRPeerAcceptRejectMessage ::
    "('k, 'm) peer_owner \<Rightarrow> byte list \<Rightarrow> ('k, 'm) peer_state \<Rightarrow> (bool \<times> ('k, 'm) peer_state) option" where
  "BRPeerAcceptRejectMessage owner msg s =
     (let (strLen, off) = msg_varint msg 0; limit = (\<lambda>n. if unat n < 0x1000 then unat n else 0xfff)
      in if off + strLen + 1 > word_of_nat (length msg) then Some (False, s)
         else do {
           t \<leftarrow> msg_string msg off (limit strLen);
           let off = off + strLen;
           code \<leftarrow> msg_le msg off 1;
           let (strLen, off) = msg_varint msg (off + 1);
           let hashLen = (if t = MSG_TX then 32 else 0);
           if off + strLen + hashLen > word_of_nat (length msg) then Some (False, s)
           else do {
             _ \<leftarrow> msg_string msg off (limit strLen);
             h \<leftarrow> (if hashLen = 32 then msg_le msg (off + strLen) 32 else Some 0);
             map_option (Pair True)
               (if UInt256IsZero h then Some s else callback (map_option (\<lambda>f. f h code) (onRejectedTx owner)) s)
           }
         })"

definition BRPeerAcceptFeeFilterMessage ::
    "('k, 'm) peer_owner \<Rightarrow> byte list \<Rightarrow> ('k, 'm) peer_state \<Rightarrow> (bool \<times> ('k, 'm) peer_state) option" where
  "BRPeerAcceptFeeFilterMessage owner msg s =
     (if 8 > length msg then Some (False, s)
      else do {
        fee \<leftarrow> msg_le msg 0 8;
        map_option (Pair True)
          (callback (map_option (\<lambda>f. f fee) (onSetFeePerKb owner)) (on_ctx (\<lambda>c. c\<lparr>ctx_feePerKb := fee\<rparr>) s))
      })"

section \<open>Dispatch\<close>

definition BRPeerAcceptMessage ::
    "peer_env \<Rightarrow> ('k, 'm) peer_owner \<Rightarrow> byte list \<Rightarrow> cstring \<Rightarrow> ('k, 'm) peer_state \<Rightarrow> (bool \<times> ('k, 'm) peer_state) option" where
  "BRPeerAcceptMessage env owner msg t s =
     (if currentBlock (fst s) \<noteq> None \<and> t \<noteq> MSG_TX
      then Some (False, on_ctx (\<lambda>c. c\<lparr>currentBlockTxHashes := [], currentBlock := None\<rparr>) s)
      else if t = MSG_VERSION then BRPeerAcceptVersionMessage env msg s
      else if t = MSG_VERACK then BRPeerAcceptVerackMessage env owner s
      else if t = MSG_ADDR then BRPeerAcceptAddrMessage env owner msg s
      else if t = MSG_INV then BRPeerAcceptInvMessage env owner msg s
      else if t = MSG_TX then BRPeerAcceptTxMessage owner msg s
      else if t = MSG_HEADERS then BRPeerAcceptHeadersMessage env owner msg s
      else if t = MSG_GETADDR then BRPeerAcceptGetaddrMessage env s
      else if t = MSG_GETDATA then BRPeerAcceptGetdataMessage env owner msg s
      else if t = MSG_NOTFOUND then BRPeerAcceptNotfoundMessage owner msg s
      else if t = MSG_PING then BRPeerAcceptPingMessage env msg s
      else if t = MSG_PONG then BRPeerAcceptPongMessage env owner msg s
      else if t = MSG_MERKLEBLOCK then BRPeerAcceptMerkleblockMessage env owner msg s
      else if t = MSG_REJECT then BRPeerAcceptRejectMessage owner msg s
      else if t = MSG_FEEFILTER then BRPeerAcceptFeeFilterMessage owner msg s
      else Some (True, s))"

end
