(* ===== verification/PeerThread.thy ===== *)
theory PeerThread
  imports PeerMsg
begin

text \<open>
  \<^verbatim>\<open>_peerThreadRoutine\<close> of \<^verbatim>\<open>bitcoin/BRPeer.c\<close>: from the bytes of the connection to messages.
  The input is the sequence of what \<open>read\<close> finds, each with the clock behind the call; a
  call takes at most the bytes it has room for and leaves the others to the next one.
  Between two calls the routine is reading a header or a payload.
\<close>

unbundle bit_operations_syntax

definition ECONNRESET :: int where "ECONNRESET = 104"
definition ETIMEDOUT :: int where "ETIMEDOUT = 110"
definition EPROTO :: int where "EPROTO = 71"
definition ENOTCONN :: int where "ENOTCONN = 107"

datatype input = Bytes "byte list" | WouldBlock | Eof | ReadError int

datatype phase = Header "byte list" | Payload cstring nat u32 "byte list" double

record ('k, 'm) thread =
  peer :: "('k, 'm) peer_state"
  phase :: phase
  error :: int

section \<open>The header\<close>

text \<open>One byte is consumed at a time until the magic number is found.\<close>

fun resync :: "byte list \<Rightarrow> byte list \<Rightarrow> byte list" where
  "resync magic (b # bs) = (if 4 \<le> length (b # bs) \<and> take 4 (b # bs) \<noteq> magic then resync magic bs else b # bs)"
| "resync magic [] = []"

text \<open>A complete payload: its checksum, and the handler.\<close>

definition accept_payload ::
    "peer_env \<Rightarrow> ('k, 'm) peer_owner \<Rightarrow> cstring \<Rightarrow> u32 \<Rightarrow> byte list \<Rightarrow> ('k, 'm) thread \<Rightarrow> ('k, 'm) thread option" where
  "accept_payload env owner t checksum msg th =
     (if word_of_le (take 4 (BRSHA256_2 msg)) \<noteq> checksum then Some (th\<lparr>error := EPROTO, phase := Header []\<rparr>)
      else do {
        (r, s) \<leftarrow> BRPeerAcceptMessage env owner msg t (peer th);
        Some (th\<lparr>peer := s, phase := Header [], error := (if r then 0 else EPROTO)\<rparr>)
      })"

text \<open>A complete header.\<close>

definition accept_header :: "peer_env \<Rightarrow> ('k, 'm) peer_owner \<Rightarrow> byte list \<Rightarrow> ('k, 'm) thread \<Rightarrow> ('k, 'm) thread option" where
  "accept_header env owner header th =
     (let t = takeWhile (\<lambda>c. c \<noteq> 0) (take 12 (drop 4 header));
          msgLen = le_val (take 4 (drop 16 header));
          checksum = word_of_le (take 4 (drop 20 header))
      in if header ! 15 \<noteq> 0 then Some (th\<lparr>error := EPROTO\<rparr>)
         else if msgLen > MAX_MSG_LENGTH then Some (th\<lparr>error := EPROTO\<rparr>)
         else if msgLen = 0 then accept_payload env owner t checksum [] th
         else Some (th\<lparr>phase := Payload t msgLen checksum [] (clock env + MESSAGE_TIMEOUT)\<rparr>))"

section \<open>One call of \<open>read\<close>\<close>

definition wanted :: "('k, 'm) thread \<Rightarrow> nat" where
  "wanted th = (case phase th of Header h \<Rightarrow> HEADER_LENGTH - length h | Payload t n c p d \<Rightarrow> n - length p)"

definition read_error :: "input \<Rightarrow> int" where
  "read_error i = (case i of Eof \<Rightarrow> ECONNRESET | ReadError e \<Rightarrow> e | _ \<Rightarrow> 0)"

text \<open>The pending mempool request is given up when its time has come.\<close>

definition mempool_timeout :: "peer_env \<Rightarrow> 'k BRPeerContext \<Rightarrow> 'k BRPeerContext" where
  "mempool_timeout env ctx =
     (if clock env \<ge> mempoolTime ctx
      then (BRPeerSendPing env (mempoolCallback ctx) ctx)\<lparr>mempoolCallback := None, mempoolTime := DBL_MAX\<rparr> else ctx)"

definition thread_step ::
    "peer_env \<Rightarrow> ('k, 'm) peer_owner \<Rightarrow> input \<Rightarrow> ('k, 'm) thread \<Rightarrow> ('k, 'm) thread option" where
  "thread_step env owner inp th =
     (let got = (case inp of Bytes bs \<Rightarrow> bs | _ \<Rightarrow> []); err = read_error inp
      in case phase th of
           Header h \<Rightarrow>
             let err = (if err = 0 \<and> clock env \<ge> disconnectTime (fst (peer th)) then ETIMEDOUT else err);
                 th = (if err = 0 then th\<lparr>peer := on_ctx (mempool_timeout env) (peer th)\<rparr> else th);
                 h = resync (UInt32SetLE (magicNumber (fst (peer th)))) (h @ got)
             in if err \<noteq> 0 then Some (th\<lparr>error := err\<rparr>)
                else if length h = HEADER_LENGTH then accept_header env owner h th
                else Some (th\<lparr>phase := Header h\<rparr>)
         | Payload t n checksum p timeout \<Rightarrow>
             let timeout = (if got \<noteq> [] then clock env + MESSAGE_TIMEOUT else timeout);
                 err = (if err = 0 \<and> clock env \<ge> timeout then ETIMEDOUT else err)
             in if err \<noteq> 0 then Some (th\<lparr>error := err\<rparr>)
                else if length (p @ got) = n then accept_payload env owner t checksum (p @ got) th
                else Some (th\<lparr>phase := Payload t n checksum (p @ got) timeout\<rparr>))"

section \<open>The routine\<close>

text \<open>Bytes are taken as far as there is room; the routine ends at an error or without a socket.\<close>

definition running :: "('k, 'm) thread \<Rightarrow> bool" where
  "running th \<longleftrightarrow> error th = 0 \<and> socket (fst (peer th)) \<ge> 0"

function read_bytes ::
    "peer_env \<Rightarrow> ('k, 'm) peer_owner \<Rightarrow> byte list \<Rightarrow> ('k, 'm) thread \<Rightarrow> ('k, 'm) thread option" where
  "read_bytes env owner bs th =
     (if bs = [] \<or> \<not> running th \<or> wanted th = 0 then Some th
      else do {
        th' \<leftarrow> thread_step env owner (Bytes (take (wanted th) bs)) th;
        read_bytes env owner (drop (wanted th) bs) th'
      })"
  by pat_completeness auto
termination
  by (relation "measure (\<lambda>(env, owner, bs, th). length bs)") auto

declare read_bytes.simps [simp del]

text \<open>All the input: the thread as it is when the input is used up or the routine has ended.\<close>

fun read_inputs ::
    "peer_env \<Rightarrow> ('k, 'm) peer_owner \<Rightarrow> (double \<times> input) list \<Rightarrow> ('k, 'm) thread \<Rightarrow> ('k, 'm) thread option" where
  "read_inputs env owner [] th = Some th"
| "read_inputs env owner ((time, inp) # inps) th =
     (if \<not> running th then Some th
      else do {
        let env' = env\<lparr>clock := time\<rparr>;
        th \<leftarrow> (case inp of Bytes bs \<Rightarrow> read_bytes env' owner bs th | _ \<Rightarrow> thread_step env' owner inp th);
        read_inputs env owner inps th
      })"

text \<open>The end: the pending callbacks are told that they failed.\<close>

partial_function (option) drain_pongs :: "('k, 'm) peer_owner \<Rightarrow> ('k, 'm) peer_state \<Rightarrow> ('k, 'm) peer_state option" where
  "drain_pongs owner s =
     (case pongs (fst s) of
        [] \<Rightarrow> Some s
      | k # ks \<Rightarrow> do {
          s \<leftarrow> run_pong owner k False (on_ctx (\<lambda>c. c\<lparr>pongs := ks\<rparr>) s);
          drain_pongs owner s
        })"

definition thread_end :: "('k, 'm) peer_owner \<Rightarrow> int \<Rightarrow> ('k, 'm) peer_state \<Rightarrow> ('k, 'm) peer_state option" where
  "thread_end owner err s =
     do {
       let s = on_ctx (\<lambda>c. c\<lparr>status := Disconnected, closes := closes c + (if socket c \<ge> 0 then 1 else 0)\<rparr>) s;
       s \<leftarrow> drain_pongs owner s;
       s \<leftarrow> run_pong owner (mempoolCallback (fst s)) False s;
       let s = on_ctx (\<lambda>c. c\<lparr>mempoolCallback := None\<rparr>) s;
       callback (map_option (\<lambda>f. f err) (onDisconnected owner)) s
     }"

text \<open>
  The routine on a connection attempt, which gives a socket or an error, and on its input.  A
  routine that is still running when the input is used up has not ended.
\<close>

definition peerThreadRoutine ::
    "peer_env \<Rightarrow> ('k, 'm) peer_owner \<Rightarrow> int + int \<Rightarrow> (double \<times> input) list \<Rightarrow> ('k, 'm) peer_state \<Rightarrow> ('k, 'm) peer_state option" where
  "peerThreadRoutine env owner opened inps s =
     (case opened of
        Inl err \<Rightarrow> thread_end owner err s
      | Inr sock \<Rightarrow> do {
          let s = on_ctx (\<lambda>c. BRPeerSendVersionMessage env (c\<lparr>socket := sock, startTime := clock env\<rparr>)) s;
          th \<leftarrow> read_inputs env owner inps \<lparr>peer = s, phase = Header [], error = 0\<rparr>;
          if running th then Some (peer th) else thread_end owner (error th) (peer th)
        })"

end
