(* ===== verification/Post.thy ===== *)
theory Post
  imports Prelude
begin

text \<open>
  Postconditions of operations that may fail: \<open>post P x\<close> says that \<open>P\<close> holds of the result if
  there is one.  The rules in \<open>wp\<close> take an operation apart along its \<open>do\<close> block and keep the
  values bound on the way as variables with their equations.
\<close>

named_theorems wp \<open>rules that decompose a postcondition along the structure of an operation\<close>

definition post :: "('a \<Rightarrow> bool) \<Rightarrow> 'a option \<Rightarrow> bool" where
  "post P x \<longleftrightarrow> (\<forall>a. x = Some a \<longrightarrow> P a)"

lemma postD: "post P x \<Longrightarrow> x = Some a \<Longrightarrow> P a"
  by (simp add: post_def)

lemma postI: "(\<And>a. x = Some a \<Longrightarrow> P a) \<Longrightarrow> post P x"
  by (simp add: post_def)

lemma post_mono: "post P x \<Longrightarrow> (\<And>a. P a \<Longrightarrow> Q a) \<Longrightarrow> post Q x"
  by (simp add: post_def)

lemma post_None [simp, wp]: "post P None"
  by (simp add: post_def)

lemma post_Some [simp]: "post P (Some a) \<longleftrightarrow> P a"
  by (simp add: post_def)

lemma post_SomeI [wp]: "P a \<Longrightarrow> post P (Some a)"
  by simp

lemma post_bind [wp]: "(\<And>a. x = Some a \<Longrightarrow> post P (f a)) \<Longrightarrow> post P (Option.bind x f)"
  by (cases x) (simp_all add: post_def)

lemma post_bind_rule: "post Q x \<Longrightarrow> (\<And>a. Q a \<Longrightarrow> post P (f a)) \<Longrightarrow> post P (Option.bind x f)"
  by (cases x) (simp_all add: post_def)

lemma post_bind_pair: "post (\<lambda>r. Q (snd r)) x \<Longrightarrow> (\<And>a s. Q s \<Longrightarrow> post P (f a s)) \<Longrightarrow> post P (Option.bind x (\<lambda>(a, s). f a s))"
  by (cases x) (auto simp: post_def)

lemma post_let_rule: "Q e \<Longrightarrow> (\<And>a. Q a \<Longrightarrow> post P (f a)) \<Longrightarrow> post P (Let e f)"
  by simp

lemma post_let_any: "(\<And>a. post P (f a)) \<Longrightarrow> post P (Let e f)"
  by simp

lemma post_bind_any: "(\<And>a. post P (f a)) \<Longrightarrow> post P (Option.bind x f)"
  by (cases x) simp_all

lemma post_if [wp]: "(b \<Longrightarrow> post P x) \<Longrightarrow> (\<not> b \<Longrightarrow> post P y) \<Longrightarrow> post P (if b then x else y)"
  by simp

lemma post_let [wp]: "(\<And>a. a = e \<Longrightarrow> post P (f a)) \<Longrightarrow> post P (Let e f)"
  by simp

lemma post_prod [wp]: "(\<And>a b. p = (a, b) \<Longrightarrow> post P (f a b)) \<Longrightarrow> post P (case_prod f p)"
  by (cases p) simp

lemma post_option [wp]:
  "(x = None \<Longrightarrow> post P a) \<Longrightarrow> (\<And>y. x = Some y \<Longrightarrow> post P (f y)) \<Longrightarrow> post P (case x of None \<Rightarrow> a | Some y \<Rightarrow> f y)"
  by (cases x) simp_all

lemma post_map [wp]: "post (\<lambda>a. P (f a)) x \<Longrightarrow> post P (map_option f x)"
  by (cases x) (simp_all add: post_def)

lemma post_for_each:
  assumes "I s" "\<And>x s. x \<in> set xs \<Longrightarrow> I s \<Longrightarrow> post I (body x s)"
  shows "post I (for_each xs body s)"
  using assms
proof (induction xs arbitrary: s)
  case (Cons x xs)
  show ?case
  proof (cases "body x s")
    case (Some s')
    then have "I s'" using Cons.prems(2) [of x s] Cons.prems(1) by (auto dest: postD)
    then show ?thesis using Cons.IH [of s'] Cons.prems(2) Some by simp
  qed simp
qed simp

end
