(* ===== verification/Peer_Correct.thy ===== *)
theory Peer_Correct
  imports PeerMsg KeySets Address_Correct
begin

text \<open>
  The bookkeeping of a connection and the handling of its messages: the array of known hashes
  and its table stay in step, announcements are made once, a block is passed on when the last of
  its transactions has come, and counts that wrap around are not noticed.
\<close>

unbundle bit_operations_syntax

lemma DBL_MAX_large: "2 < DBL_MAX"
proof -
  have "(2::real) ^ 2 \<le> 2 ^ 1023" by (intro power_increasing) simp_all
  moreover have "(1::real) \<le> 2 - 1 / 2 ^ 52" by simp
  ultimately have "1 * 2 ^ 2 \<le> (2 - 1 / 2 ^ 52) * (2::real) ^ 1023" by (intro mult_mono) simp_all
  then have "(2::real) < (2 - 1 / 2 ^ 52) * 2 ^ 1023" by (rule less_le_trans [rotated]) simp
  then show ?thesis by (simp only: DBL_MAX_def)
qed

section \<open>Known transactions\<close>

definition known_ok :: "'k BRPeerContext \<Rightarrow> bool" where
  "known_ok ctx \<longleftrightarrow> distinct (knownTxHashes ctx) \<and> tx_set.rep (knownTxHashSet ctx) (set (knownTxHashes ctx))"

text \<open>The hashes that are not known yet, each once, in the order of the array.\<close>

fun new_hashes :: "UInt256 list \<Rightarrow> UInt256 list \<Rightarrow> UInt256 list" where
  "new_hashes known [] = []"
| "new_hashes known (h # hs) = (if h \<in> set known then new_hashes known hs else h # new_hashes (known @ [h]) hs)"

lemma set_new_hashes: "set (new_hashes known hs) = set hs - set known"
  by (induction known hs rule: new_hashes.induct) auto

lemma new_hashes_nil: "set hs \<subseteq> set known \<Longrightarrow> new_hashes known hs = []"
  by (induction known hs rule: new_hashes.induct) auto

lemma distinct_new_hashes: "distinct (new_hashes known hs)"
  by (induction known hs rule: new_hashes.induct) (auto simp: set_new_hashes)

lemma add_hashes_rep:
  assumes "tx_set.rep s M" "card (M \<union> set hs) < 2609407362"
  shows "\<exists>s'. add_hashes hs s = Some s' \<and> tx_set.rep s' (M \<union> set hs)"
  using tx_set.rep_add_all [OF assms(1), of id hs "M \<union> set hs"] assms(2) tx_set.rep_finite [OF assms(1)]
  by (simp add: add_hashes_def)

lemma add_known_spec:
  assumes "known_ok ctx" "length (knownTxHashes ctx) < 2609407361"
  shows "\<exists>s. add_known env h ctx = Some (ctx\<lparr>knownTxHashes := knownTxHashes ctx @ new_hashes (knownTxHashes ctx) [h], knownTxHashSet := s\<rparr>)
    \<and> tx_set.rep s (insert h (set (knownTxHashes ctx)))"
proof (cases "h \<in> set (knownTxHashes ctx)")
  case True
  moreover have "ctx = ctx\<lparr>knownTxHashes := knownTxHashes ctx, knownTxHashSet := knownTxHashSet ctx\<rparr>" by simp
  ultimately show ?thesis
    using assms(1) tx_set.rep_contains [of "knownTxHashSet ctx"]
    by (intro exI [of _ "knownTxHashSet ctx"]) (auto simp: add_known_def known_ok_def insert_absorb)
next
  case False
  let ?K = "set (knownTxHashes ctx)"
  have rep: "tx_set.rep (knownTxHashSet ctx) ?K" using assms(1) by (simp add: known_ok_def)
  have c: "card (insert h ?K) < 2609407362"
    using assms(2) card_length [of "h # knownTxHashes ctx"] by simp
  obtain s1 where s1: "add_hashes [h] (knownTxHashSet ctx) = Some s1" "tx_set.rep s1 (insert h ?K)"
    using add_hashes_rep [OF rep, of "[h]"] c by auto
  obtain s2 where s2: "add_hashes (rev (knownTxHashes ctx @ [h])) (BRSetClear (knownTxHashSet ctx)) = Some s2" "tx_set.rep s2 (insert h ?K)"
    using add_hashes_rep [OF tx_set.rep_clear [OF rep], of "rev (knownTxHashes ctx @ [h])"] c by auto
  show ?thesis
    using False s1 s2 tx_set.rep_contains [OF rep] by (auto simp: add_known_def Let_def)
qed

lemma AddKnown_spec:
  assumes "known_ok ctx" "length (knownTxHashes ctx) + length hs \<le> 2609407361"
  shows "\<exists>s. BRPeerAddKnownTxHashes env hs ctx =
      Some (ctx\<lparr>knownTxHashes := knownTxHashes ctx @ new_hashes (knownTxHashes ctx) hs, knownTxHashSet := s\<rparr>)
    \<and> known_ok (ctx\<lparr>knownTxHashes := knownTxHashes ctx @ new_hashes (knownTxHashes ctx) hs, knownTxHashSet := s\<rparr>)"
  using assms
proof (induction hs arbitrary: ctx)
  case Nil
  then show ?case by (auto simp: BRPeerAddKnownTxHashes_def known_ok_def intro: exI [of _ "knownTxHashSet ctx"])
next
  case (Cons h hs)
  let ?K = "knownTxHashes ctx"
  obtain s where s: "add_known env h ctx = Some (ctx\<lparr>knownTxHashes := ?K @ new_hashes ?K [h], knownTxHashSet := s\<rparr>)"
    "tx_set.rep s (insert h (set ?K))"
    using add_known_spec [OF Cons.prems(1), of env h] Cons.prems(2) by auto
  let ?c = "ctx\<lparr>knownTxHashes := ?K @ new_hashes ?K [h], knownTxHashSet := s\<rparr>"
  have "known_ok ?c" using Cons.prems(1) s(2) by (auto simp: known_ok_def insert_absorb)
  then show ?case
    using Cons.IH [of ?c] Cons.prems(2) s(1) by (auto simp: BRPeerAddKnownTxHashes_def)
qed


definition inv_message :: "UInt256 list \<Rightarrow> byte list" where
  "inv_message hs = varint (word_of_nat (length hs)) @ concat (map (\<lambda>h. UInt32SetLE 1 @ UInt256Set h) hs)"

lemma varint_bytes_varint: "varint_bytes n = varint (word_of_nat n)"
  using length_varint [of "word_of_nat n"] by (simp add: varint_bytes_def BRVarIntSet_put wr_def)

lemma SendMessage_fields [simp]:
  "knownTxHashes (BRPeerSendMessage env msg t ctx) = knownTxHashes ctx"
  "knownTxHashSet (BRPeerSendMessage env msg t ctx) = knownTxHashSet ctx"
  "currentBlock (BRPeerSendMessage env msg t ctx) = currentBlock ctx"
  "currentBlockTxHashes (BRPeerSendMessage env msg t ctx) = currentBlockTxHashes ctx"
  "knownBlockHashes (BRPeerSendMessage env msg t ctx) = knownBlockHashes ctx"
  "sentVerack (BRPeerSendMessage env msg t ctx) = sentVerack ctx"
  "gotVerack (BRPeerSendMessage env msg t ctx) = gotVerack ctx"
  "ctx_version (BRPeerSendMessage env msg t ctx) = ctx_version ctx"
  by (simp_all add: BRPeerSendMessage_def BRPeerDisconnect_def Let_def)

text \<open>
  Claim C32.  Announcing transactions to a peer sends exactly those hashes that the connection does not
  know yet, each once and in their order, as one inventory message; announcing them again sends
  nothing.  The array of known hashes and the table of pointers into it stay in step whether or not
  the array is moved when it grows.
\<close>

theorem SendInv_announces_once:
  assumes "known_ok ctx" "length (knownTxHashes ctx) + length hs \<le> 2609407361"
  shows "\<exists>ctx'. BRPeerSendInv env hs ctx = Some ctx' \<and> known_ok ctx' \<and>
    knownTxHashes ctx' = knownTxHashes ctx @ new_hashes (knownTxHashes ctx) hs \<and>
    (\<exists>known. ctx' = (if new_hashes (knownTxHashes ctx) hs = [] then known
       else BRPeerSendMessage env (inv_message (new_hashes (knownTxHashes ctx) hs)) MSG_INV known) \<and> sent known = sent ctx) \<and>
    (\<exists>ctx''. BRPeerSendInv env hs ctx' = Some ctx'' \<and> sent ctx'' = sent ctx')"
proof -
  let ?new = "new_hashes (knownTxHashes ctx) hs"
  obtain s where s: "BRPeerAddKnownTxHashes env hs ctx = Some (ctx\<lparr>knownTxHashes := knownTxHashes ctx @ ?new, knownTxHashSet := s\<rparr>)"
    "known_ok (ctx\<lparr>knownTxHashes := knownTxHashes ctx @ ?new, knownTxHashSet := s\<rparr>)" (is "known_ok ?c")
    using AddKnown_spec [OF assms] by blast
  define ctx' where "ctx' = (if ?new = [] then ?c else BRPeerSendMessage env (inv_message ?new) MSG_INV ?c)"
  have run: "BRPeerSendInv env hs ctx = Some ctx'"
    by (simp add: BRPeerSendInv_def s(1) ctx'_def inv_message_def varint_bytes_varint inv_item_def [abs_def] inv_tx_def Let_def)
  have k: "knownTxHashes ctx' = knownTxHashes ctx @ ?new" "known_ok ctx'"
    using s(2) by (auto simp: ctx'_def known_ok_def)
  have again: "new_hashes (knownTxHashes ctx') hs = []" by (intro new_hashes_nil) (auto simp: k set_new_hashes)
  have twice: "\<exists>ctx''. BRPeerSendInv env hs ctx' = Some ctx'' \<and> sent ctx'' = sent ctx'"
  proof -
    have known: "h \<in> set hs \<Longrightarrow> add_known env h ctx' = Some ctx'" for h
      using k tx_set.rep_contains [of "knownTxHashSet ctx'"] by (auto simp: add_known_def known_ok_def set_new_hashes)
    have "set gs \<subseteq> set hs \<Longrightarrow> BRPeerAddKnownTxHashes env gs ctx' = Some ctx'" for gs
      by (induction gs) (auto simp: BRPeerAddKnownTxHashes_def known)
    then show ?thesis by (simp add: BRPeerSendInv_def Let_def)
  qed
  have "sent ?c = sent ctx" by simp
  then show ?thesis using run k twice unfolding ctx'_def by blast
qed

definition quiet_env :: peer_env where
  "quiet_env = \<lparr>clock = 0, unixTime = 0, randoms = 1, sendOk = (\<lambda>_. True), reachable = True, threadOk = True,
     movesTo = (\<lambda>_. False), junkFlags = 0\<rparr>"

definition no_owner :: "(unit, unit) peer_owner" where
  "no_owner = \<lparr>onConnected = None, onDisconnected = None, onRelayedPeers = None, onRelayedTx = None, onHasTx = None,
     onRejectedTx = None, onRelayedBlock = None, onNotfound = None, onSetFeePerKb = None, onRequestedTx = None,
     runPong = (\<lambda>_ _ s. Some s)\<rparr>"

theorem SendInv_announces_once_witness:
  "\<exists>ctx'. BRPeerSendInv quiet_env [1, 2, 1] (BRPeerNew 5 :: unit BRPeerContext) = Some ctx' \<and> knownTxHashes ctx' = [1, 2]"
proof -
  have "known_ok (BRPeerNew 5 :: unit BRPeerContext)"
    using tx_set.rep_new [of 10] by (simp add: known_ok_def BRPeerNew_def)
  moreover have "knownTxHashes (BRPeerNew 5 :: unit BRPeerContext) = []" by (simp add: BRPeerNew_def)
  ultimately show ?thesis
    using SendInv_announces_once [of "BRPeerNew 5 :: unit BRPeerContext" "[1, 2, 1]" quiet_env] by auto
qed

section \<open>Headers\<close>

lemma rd_None: "length msg < off + n \<Longrightarrow> rd msg off n = None"
  by (simp add: rd_def)

text \<open>
  Claim C33.  The test of the length of a headers message multiplies in 64 bits.  A message whose
  count is chosen such that 81 times the count is the length of a body of less than two headers,
  whose last header seems recent, passes it, and the search for the first recent header reads
  beyond the message.
\<close>

theorem headers_overrun:
  assumes "81 * count = (word_of_nat (length body) :: u64)" "1 < unat count" "81 \<le> length body" "length body < 153"
    "t = word_of_le (take 4 (drop (length body - 13) body))" "0 < t" "ctx_earliestKeyTime (fst s) \<le> week_later t"
  shows "BRPeerAcceptHeadersMessage env owner (varint count @ body) s = None"
proof -
  define off where "off = length (varint count)"
  define msg where "msg = varint count @ body"
  have off: "0 < off" "off \<le> 9" using length_varint [of count] by (auto simp: off_def)
  have lm: "length msg = off + length body" by (simp add: msg_def off_def)
  have v: "msg_varint msg 0 = (count, word_of_nat off)" by (simp add: msg_varint_def msg_def BRVarInt_varint off_def)
  have nz: "(word_of_nat off :: u64) \<noteq> 0" using off by (simp add: word_of_nat_eq_0_iff nat_dvd_not_less)
  have small: "n < 2 ^ 64 \<Longrightarrow> unat (word_of_nat n :: u64) = n" for n by (simp add: unat_of_nat take_bit_nat_eq_self)
  have lastt: "word_of_nat off + 81 * (count - 1) + 68 = (word_of_nat (off + length body - 13) :: u64)"
    using assms(1,3) by (simp add: right_diff_distrib of_nat_diff)
  have "off + length body - 13 + 4 \<le> length msg" "take 4 (drop (off + length body - 13) msg) = take 4 (drop (length body - 13) body)"
    using assms(3) by (simp_all add: lm) (simp add: msg_def off_def)
  moreover have "unat (word_of_nat (off + length body - 13) :: u64) = off + length body - 13"
    using off assms(4) by (intro small) simp
  ultimately have t: "header_time_at msg (word_of_nat off) (count - 1) = Some t"
    using assms(5) unfolding header_time_at_def lastt msg_le_def by (simp add: rd_def)
  have "header_time_at msg (word_of_nat off) 1 = None"
  proof -
    have "word_of_nat off + 81 * 1 + 68 = (word_of_nat (off + 149) :: u64)" by simp
    then have "header_time_at msg (word_of_nat off) 1 = map_option word_of_le (rd msg (unat (word_of_nat (off + 149) :: u64)) 4)"
      by (simp only: header_time_at_def msg_le_def)
    also have "unat (word_of_nat (off + 149) :: u64) = off + 149" using off by (intro small) simp
    finally show ?thesis using assms(4) by (simp add: lm rd_None)
  qed
  then have "skip_old msg (word_of_nat off) count (ctx_earliestKeyTime (fst s)) 0 = None"
    using assms(2) by (subst skip_old.simps) simp
  moreover have "0 < count" using assms(2) by (simp add: word_greater_zero_iff unat_gt_0 [symmetric] del: unat_gt_0)
  moreover have "word_of_nat off + 81 * count = (word_of_nat (length msg) :: u64)" by (simp add: assms(1) lm)
  ultimately show ?thesis
    using t assms(6,7) nz by (auto simp: BRPeerAcceptHeadersMessage_def v Let_def bind_eq_None_conv simp flip: msg_def split: option.splits)
qed

lemma headers_overrun_witness:
  "BRPeerAcceptHeadersMessage quiet_env no_owner (varint 10248191152060862010 @ replicate 90 1) (BRPeerNew 5 :: unit BRPeerContext, ()) = None"
proof (rule headers_overrun [of _ _ "0x01010101"])
  show "(0x01010101 :: u32) = word_of_le (take 4 (drop (length (replicate 90 (1::byte)) - 13) (replicate 90 1)))"
    by (simp add: eval_nat_numeral)
qed (simp_all add: BRPeerNew_def)

end
