(* ===== verification/PeerThread_Correct.thy ===== *)
theory PeerThread_Correct
  imports PeerThread Peer_Correct
begin

text \<open>
  Messages over a connection: what \<open>BRPeerSendMessage\<close> writes is handed to the handler of the
  other side once and whole, however the bytes are cut up and whatever precedes them.
\<close>

section \<open>Finding the magic number\<close>

lemma resync_drop:
  "n \<le> length p - 3 \<Longrightarrow> \<forall>i<n. take 4 (drop i p) \<noteq> M \<Longrightarrow> resync M p = resync M (drop n p)"
proof (induction n arbitrary: p)
  case (Suc n)
  then obtain b bs where p: "p = b # bs" by (cases p) auto
  have "3 \<le> length bs" using Suc.prems(1) p by simp
  then have "resync M p = resync M bs" using Suc.prems(2) [rule_format, of 0] p by simp
  also have "\<dots> = resync M (drop n bs)"
  proof (rule Suc.IH)
    show "\<forall>i<n. take 4 (drop i bs) \<noteq> M"
    proof (intro allI impI)
      fix i assume "i < n"
      then show "take 4 (drop i bs) \<noteq> M" using Suc.prems(2) [rule_format, of "Suc i"] p by simp
    qed
  qed (use Suc.prems(1) p in simp)
  finally show ?case using p by simp
qed simp

lemma resync_short: "length p \<le> 3 \<Longrightarrow> resync M p = p"
  by (cases p) auto

lemma resync_hit: "take 4 p = M \<Longrightarrow> resync M p = p"
  by (cases p) auto

lemma resync_append: "resync M (resync M p @ q) = resync M (p @ q)"
proof (induction M p rule: resync.induct)
  case (1 M b bs)
  show ?case
  proof (cases "4 \<le> length (b # bs) \<and> take 4 (b # bs) \<noteq> M")
    case True
    then have "4 \<le> length ((b # bs) @ q) \<and> take 4 ((b # bs) @ q) \<noteq> M" by simp
    then show ?thesis using True 1 by simp
  qed auto
qed simp

text \<open>What is kept of the first \<open>n\<close> bytes, when the magic number does not occur too early.\<close>

lemma resync_prefix:
  assumes "take 4 (drop (length J) X) = M" "\<forall>i<length J. take 4 (drop i X) \<noteq> M" "n \<le> length X"
  shows "resync M (take n X) = drop (min (length J) (n - 3)) (take n X)"
proof -
  define k where "k = min (length J) (n - 3)"
  have early: "\<forall>i<k. take 4 (drop i (take n X)) \<noteq> M"
  proof (intro allI impI)
    fix i assume "i < k"
    then have "4 \<le> n - i" "i < length J" by (auto simp: k_def)
    moreover from this have "take 4 (drop i (take n X)) = take 4 (drop i X)" by (simp add: drop_take min_def)
    ultimately show "take 4 (drop i (take n X)) \<noteq> M" using assms(2) by simp
  qed
  have "resync M (take n X) = resync M (drop k (take n X))"
    using assms(3) early by (intro resync_drop) (auto simp: k_def)
  also have "\<dots> = drop k (take n X)"
  proof (cases "n - 3 \<le> length J")
    case True
    then show ?thesis by (intro resync_short) (simp add: k_def)
  next
    case False
    then have "take 4 (drop k (take n X)) = take 4 (drop (length J) X)" by (simp add: k_def drop_take min_def)
    then show ?thesis using assms(1) by (intro resync_hit) simp
  qed
  finally show ?thesis by (simp add: k_def)
qed

section \<open>The header of a frame\<close>

definition frame_header :: "u32 \<Rightarrow> cstring \<Rightarrow> byte list \<Rightarrow> byte list" where
  "frame_header magic t msg =
     UInt32SetLE magic @ type_field t @ UInt32SetLE (word_of_nat (length msg)) @ take 4 (BRSHA256_2 msg)"

lemma frame_split: "frame magic t msg = frame_header magic t msg @ msg"
  by (simp add: frame_def frame_header_def)

lemma length_type_field [simp]: "length (type_field t) = 12"
  by (simp add: type_field_def)

lemma length_frame_header [simp]: "length (frame_header magic t msg) = 24"
  by (simp add: frame_header_def)

lemma type_field_read:
  assumes "0 \<notin> set t" "length t \<le> 11"
  shows "takeWhile (\<lambda>c. c \<noteq> 0) (type_field t) = t" "type_field t ! 11 = 0"
proof -
  have tf: "type_field t = t @ replicate (12 - length t) 0" using assms(2) by (simp add: type_field_def)
  have r: "replicate (12 - length t) (0::byte) = 0 # replicate (11 - length t) 0"
    using assms(2) by (simp add: Suc_diff_le flip: replicate_Suc)
  show "takeWhile (\<lambda>c. c \<noteq> 0) (type_field t) = t" using assms(1) by (auto simp: tf r takeWhile_append)
  show "type_field t ! 11 = 0" using assms(2) by (simp add: tf nth_append)
qed

lemma accept_frame_header:
  assumes "0 \<notin> set t" "length t \<le> 11" "length msg \<le> MAX_MSG_LENGTH"
  shows "accept_header env owner (frame_header magic t msg) th =
    (if msg = [] then accept_payload env owner t (word_of_le (take 4 (BRSHA256_2 msg))) [] th
     else Some (th\<lparr>phase := Payload t (length msg) (word_of_le (take 4 (BRSHA256_2 msg))) [] (clock env + MESSAGE_TIMEOUT)\<rparr>))"
proof -
  let ?h = "frame_header magic t msg"
  have n: "length msg < 2 ^ 32" using assms(3) by (simp add: MAX_MSG_LENGTH_def)
  have "le_val (UInt32SetLE (word_of_nat (length msg))) = length msg"
    using n by (simp add: UInt32SetLE_bytes le_val_bytes_le unat_of_nat take_bit_nat_eq_self)
  moreover have "take 12 (drop 4 ?h) = type_field t" "take 4 (drop 20 ?h) = take 4 (BRSHA256_2 msg)"
    "take 4 (drop 16 ?h) = UInt32SetLE (word_of_nat (length msg))" "?h ! 15 = type_field t ! 11"
    by (simp_all add: frame_header_def nth_append)
  ultimately show ?thesis
    using type_field_read [OF assms(1,2)] assms(3) by (simp add: accept_header_def)
qed

section \<open>Feeding the bytes of a frame\<close>

text \<open>
  The state of the thread after \<open>n\<close> bytes of \<open>J @ frame\<close>, for a context with a socket, no
  error so far and bytes \<open>J\<close> before the frame.
\<close>

definition stream :: "('k, 'm) peer_state \<Rightarrow> byte list \<Rightarrow> cstring \<Rightarrow> byte list \<Rightarrow> byte list" where
  "stream s J t msg = J @ frame (magicNumber (fst s)) t msg"

text \<open>The bytes before the frame do not hold its magic number, and the message is one that can be sent.\<close>

definition deliverable :: "('k, 'm) peer_state \<Rightarrow> byte list \<Rightarrow> cstring \<Rightarrow> byte list \<Rightarrow> bool" where
  "deliverable s J t msg \<longleftrightarrow>
     (\<forall>i<length J. take 4 (drop i (stream s J t msg)) \<noteq> UInt32SetLE (magicNumber (fst s))) \<and>
     0 \<notin> set t \<and> length t \<le> 11 \<and> length msg \<le> MAX_MSG_LENGTH"

definition fed :: "('k, 'm) peer_state \<Rightarrow> byte list \<Rightarrow> cstring \<Rightarrow> byte list \<Rightarrow> nat \<Rightarrow> ('k, 'm) thread \<Rightarrow> bool" where
  "fed s J t msg n th \<longleftrightarrow>
     (if n < length J + 24
      then th = \<lparr>peer = s, phase = Header (resync (UInt32SetLE (magicNumber (fst s))) (take n (stream s J t msg))), error = 0\<rparr>
      else \<exists>d. th = \<lparr>peer = s, phase = Payload t (length msg) (word_of_le (take 4 (BRSHA256_2 msg)))
                (take (n - (length J + 24)) msg) d, error = 0\<rparr>)"

definition finished ::
    "peer_env \<Rightarrow> ('k, 'm) peer_owner \<Rightarrow> cstring \<Rightarrow> byte list \<Rightarrow> ('k, 'm) peer_state \<Rightarrow> ('k, 'm) thread option" where
  "finished env owner t msg s =
     do {
       (r, s) \<leftarrow> BRPeerAcceptMessage env owner msg t s;
       Some \<lparr>peer = s, phase = Header [], error = (if r then 0 else EPROTO)\<rparr>
     }"

definition quiet :: "peer_env \<Rightarrow> ('k, 'm) peer_state \<Rightarrow> bool" where
  "quiet env s \<longleftrightarrow> socket (fst s) \<ge> 0 \<and> clock env < disconnectTime (fst s) \<and> clock env < mempoolTime (fst s)"

lemma accept_payload_finished:
  "peer th = s \<Longrightarrow> accept_payload env owner t (word_of_le (take 4 (BRSHA256_2 msg))) msg th = finished env owner t msg s"
  by (cases th) (auto simp: accept_payload_def finished_def split: option.splits)

lemma header_step:
  assumes "quiet env s"
  shows "thread_step env owner (Bytes got) \<lparr>peer = s, phase = Header h, error = 0\<rparr> =
    (let h' = resync (UInt32SetLE (magicNumber (fst s))) (h @ got)
     in if length h' = HEADER_LENGTH then accept_header env owner h' \<lparr>peer = s, phase = Header h, error = 0\<rparr>
        else Some \<lparr>peer = s, phase = Header h', error = 0\<rparr>)"
  using assms by (cases s) (simp add: thread_step_def quiet_def read_error_def mempool_timeout_def Let_def)

lemma payload_step:
  assumes "got \<noteq> []"
  shows "thread_step env owner (Bytes got) \<lparr>peer = s, phase = Payload t n c p d, error = 0\<rparr> =
    (if length (p @ got) = n then accept_payload env owner t c (p @ got) \<lparr>peer = s, phase = Payload t n c p d, error = 0\<rparr>
     else Some \<lparr>peer = s, phase = Payload t n c (p @ got) (clock env + MESSAGE_TIMEOUT), error = 0\<rparr>)"
  using assms by (simp add: thread_step_def read_error_def MESSAGE_TIMEOUT_def)

lemma running_fed: "quiet env s \<Longrightarrow> fed s J t msg n th \<Longrightarrow> running th"
  by (auto simp: fed_def running_def quiet_def split: if_splits)

lemma read_bytes_nil [simp]: "read_bytes env owner [] th = Some th"
  by (simp add: read_bytes.simps)

abbreviation magic_bytes :: "('k, 'm) peer_state \<Rightarrow> byte list" where
  "magic_bytes s \<equiv> UInt32SetLE (magicNumber (fst s))"

lemma kept:
  assumes "deliverable s J t msg" "n \<le> length (stream s J t msg)"
  shows "resync (magic_bytes s) (take n (stream s J t msg)) = drop (min (length J) (n - 3)) (take n (stream s J t msg))"
  by (rule resync_prefix) (use assms in \<open>simp_all add: deliverable_def stream_def frame_def\<close>)

lemma length_stream: "length (stream s J t msg) = length J + 24 + length msg"
  by (simp add: stream_def frame_split)

text \<open>One call of \<open>read\<close>: either all the bytes are taken, or as many as there is room for.\<close>

lemma feed_header:
  assumes "quiet env s" "n < length J + 24" "bs \<noteq> []" "n + length bs \<le> length (stream s J t msg)"
    "bs = take (length bs) (drop n (stream s J t msg))" "fed s J t msg n th" "deliverable s J t msg"
  defines "w \<equiv> min (length bs) (wanted th)"
  shows "0 < w" "n + w \<le> length J + 24"
    "n + w < length (stream s J t msg) \<Longrightarrow> \<exists>th'. thread_step env owner (Bytes (take w bs)) th = Some th' \<and> fed s J t msg (n + w) th'"
    "n + w = length (stream s J t msg) \<Longrightarrow> thread_step env owner (Bytes (take w bs)) th = finished env owner t msg s"
proof -
  define X where "X = stream s J t msg"
  define magic where "magic = magic_bytes s"
  note length_X = length_stream [of s J t msg, folded X_def]
  note kept = kept [OF assms(7), folded X_def magic_def]
  have t: "0 \<notin> set t" "length t \<le> 11" and msg: "length msg \<le> MAX_MSG_LENGTH" using assms(7) by (simp_all add: deliverable_def)
  have th: "th = \<lparr>peer = s, phase = Header (resync magic (take n X)), error = 0\<rparr>"
    using assms(2,6) by (simp add: fed_def X_def magic_def)
  have wanted: "wanted th = 24 - (n - min (length J) (n - 3))"
    using assms(2) kept [of n] length_X by (simp add: th wanted_def HEADER_LENGTH_def)
  show w: "0 < w" "n + w \<le> length J + 24" using assms(2,3) wanted by (auto simp: w_def)
  have "take w bs = take w (drop n X)" using assms(5) by (metis X_def take_take min.absorb1 min.cobounded1 w_def)
  then have got: "resync magic (resync magic (take n X) @ take w bs) = resync magic (take (n + w) X)"
    by (simp add: resync_append take_add)
  have k: "resync magic (take (n + w) X) = drop (min (length J) (n + w - 3)) (take (n + w) X)"
    using w(2) length_X by (intro kept) simp
  have len: "length (resync magic (take (n + w) X)) = HEADER_LENGTH \<longleftrightarrow> n + w = length J + 24"
    using w length_X by (auto simp: k HEADER_LENGTH_def)
  have hdr: "resync magic (take (length J + 24) X) = frame_header (magicNumber (fst s)) t msg"
    using kept [of "length J + 24"] length_X by (simp add: X_def stream_def frame_split)
  have stp: "thread_step env owner (Bytes (take w bs)) th =
      (if n + w = length J + 24
       then accept_header env owner (frame_header (magicNumber (fst s)) t msg) th
       else Some \<lparr>peer = s, phase = Header (resync magic (take (n + w) X)), error = 0\<rparr>)"
    using len hdr by (simp add: th header_step [OF assms(1)] Let_def got flip: magic_def)
  show "n + w < length (stream s J t msg) \<Longrightarrow> \<exists>th'. thread_step env owner (Bytes (take w bs)) th = Some th' \<and> fed s J t msg (n + w) th'"
    using w(2) length_stream [of s J t msg] unfolding stp
    by (cases "n + w = length J + 24") (auto simp: accept_frame_header [OF t msg] fed_def th X_def magic_def)
  show "thread_step env owner (Bytes (take w bs)) th = finished env owner t msg s" if "n + w = length (stream s J t msg)"
  proof -
    have e: "msg = []" "n + w = length J + 24" using that w(2) length_stream [of s J t msg] by auto
    have "accept_header env owner (frame_header (magicNumber (fst s)) t msg) th =
        accept_payload env owner t (word_of_le (take 4 (BRSHA256_2 msg))) msg th"
      using accept_frame_header [OF t msg, of env owner "magicNumber (fst s)" th] unfolding e(1) by simp
    then show ?thesis unfolding stp using e(2) accept_payload_finished [of th s env owner t msg] by (simp add: th)
  qed
qed


lemma feed_payload:
  assumes "length J + 24 \<le> n" "n < length (stream s J t msg)" "bs \<noteq> []" "n + length bs \<le> length (stream s J t msg)"
    "bs = take (length bs) (drop n (stream s J t msg))" "fed s J t msg n th"
  shows "length bs \<le> wanted th"
    "n + length bs < length (stream s J t msg) \<Longrightarrow>
      \<exists>th'. thread_step env owner (Bytes bs) th = Some th' \<and> fed s J t msg (n + length bs) th'"
    "n + length bs = length (stream s J t msg) \<Longrightarrow> thread_step env owner (Bytes bs) th = finished env owner t msg s"
proof -
  define k where "k = n - (length J + 24)"
  obtain d where th: "th = \<lparr>peer = s, phase = Payload t (length msg) (word_of_le (take 4 (BRSHA256_2 msg))) (take k msg) d, error = 0\<rparr>"
    using assms(1,6) by (auto simp: fed_def k_def)
  have k: "k < length msg" "k + length bs \<le> length msg" using assms(1,2,4) by (auto simp: k_def length_stream)
  show "length bs \<le> wanted th" using k by (simp add: th wanted_def)
  have "drop n (stream s J t msg) = drop k msg" using assms(1) by (simp add: stream_def frame_split k_def)
  then have "bs = take (length bs) (drop k msg)" using assms(5) by simp
  then have got: "take k msg @ bs = take (k + length bs) msg" by (metis take_add)
  show "\<exists>th'. thread_step env owner (Bytes bs) th = Some th' \<and> fed s J t msg (n + length bs) th'"
    if "n + length bs < length (stream s J t msg)"
  proof -
    have m: "n + length bs - (length J + 24) = k + length bs" "k + length bs < length msg"
      using that assms(1) by (auto simp: k_def length_stream)
    have "\<not> n + length bs < length J + 24" using assms(1) by simp
    then show ?thesis using m by (simp add: th payload_step [OF assms(3)] got fed_def)
  qed
  show "thread_step env owner (Bytes bs) th = finished env owner t msg s" if "n + length bs = length (stream s J t msg)"
  proof -
    have "k + length bs = length msg" using that assms(1) by (auto simp: k_def length_stream)
    then have "thread_step env owner (Bytes bs) th = accept_payload env owner t (word_of_le (take 4 (BRSHA256_2 msg))) msg th"
      using got by (simp add: th payload_step [OF assms(3)])
    then show ?thesis by (simp add: accept_payload_finished th)
  qed
qed

text \<open>One chunk.\<close>

lemma feed_chunk:
  assumes "quiet env s" "deliverable s J t msg" "n < length (stream s J t msg)" "n + length bs \<le> length (stream s J t msg)"
    "bs = take (length bs) (drop n (stream s J t msg))" "fed s J t msg n th" "bs \<noteq> []"
  shows "n + length bs < length (stream s J t msg) \<Longrightarrow> \<exists>th'. read_bytes env owner bs th = Some th' \<and> fed s J t msg (n + length bs) th'"
    "n + length bs = length (stream s J t msg) \<Longrightarrow> read_bytes env owner bs th = finished env owner t msg s"
proof -
  let ?L = "length (stream s J t msg)"
  have "if n + length bs < ?L then \<exists>th'. read_bytes env owner bs th = Some th' \<and> fed s J t msg (n + length bs) th'
    else read_bytes env owner bs th = finished env owner t msg s"
    using assms(3-)
  proof (induction bs arbitrary: n th rule: length_induct)
    case (1 bs)
    define w where "w = min (length bs) (wanted th)"
    note run = running_fed [OF assms(1) \<open>fed s J t msg n th\<close>]
    have tk: "take (wanted th) bs = take w bs" "drop (wanted th) bs = drop w bs" by (simp_all add: w_def min_def)
    have w: "0 < w" "w \<le> length bs" "n + w < ?L \<Longrightarrow> \<exists>th'. thread_step env owner (Bytes (take w bs)) th = Some th' \<and> fed s J t msg (n + w) th'"
      "n + w = ?L \<Longrightarrow> thread_step env owner (Bytes (take w bs)) th = finished env owner t msg s"
    proof -
      have "0 < w \<and> w \<le> length bs \<and>
        (n + w < ?L \<longrightarrow> (\<exists>th'. thread_step env owner (Bytes (take w bs)) th = Some th' \<and> fed s J t msg (n + w) th')) \<and>
        (n + w = ?L \<longrightarrow> thread_step env owner (Bytes (take w bs)) th = finished env owner t msg s)"
      proof (cases "n < length J + 24")
        case True
        note F = feed_header [OF assms(1) True 1(6,3,4,5) assms(2), folded w_def]
        show ?thesis using F by (simp add: w_def)
      next
        case False
        then have "length J + 24 \<le> n" by simp
        note F = feed_payload [OF this 1(2,6,3,4,5)]
        have "w = length bs" using F(1) by (simp add: w_def)
        then show ?thesis using F 1(6) by simp
      qed
      then show "0 < w" "w \<le> length bs" "n + w < ?L \<Longrightarrow> \<exists>th'. thread_step env owner (Bytes (take w bs)) th = Some th' \<and> fed s J t msg (n + w) th'"
        "n + w = ?L \<Longrightarrow> thread_step env owner (Bytes (take w bs)) th = finished env owner t msg s" by simp_all
    qed
    have r: "read_bytes env owner bs th = do { th' \<leftarrow> thread_step env owner (Bytes (take w bs)) th; read_bytes env owner (drop w bs) th' }"
      using run w(1) 1(6) by (subst read_bytes.simps) (simp add: tk w_def)
    show ?case
    proof (cases "n + w < ?L")
      case False
      then have "n + w = ?L" "drop w bs = []" using w(2) 1(3) by auto
      then show ?thesis using w 1(3) by (auto simp: r bind_eq_Some_conv split: option.splits)
    next
      case True
      then obtain th' where th': "thread_step env owner (Bytes (take w bs)) th = Some th'" "fed s J t msg (n + w) th'" using w(3) by blast
      show ?thesis
      proof (cases "drop w bs = []")
        case True
        then have "w = length bs" using w(2) by simp
        then show ?thesis using th' \<open>n + w < ?L\<close> by (simp add: r)
      next
        case rest: False
        have e: "drop w bs = take (length (drop w bs)) (drop (n + w) (stream s J t msg))"
          using 1(4) by (metis drop_drop drop_take length_drop add.commute)
        have "length (drop w bs) < length bs" using w(1,2) by simp
        moreover have ln: "n + w + length (drop w bs) = n + length bs" using w(2) by simp
        ultimately have "if n + length bs < ?L then \<exists>th''. read_bytes env owner (drop w bs) th' = Some th'' \<and> fed s J t msg (n + length bs) th''
            else read_bytes env owner (drop w bs) th' = finished env owner t msg s"
          using 1(1) [rule_format, of "drop w bs" "n + w" th', unfolded ln] True 1(3) th'(2) rest e by blast
        then show ?thesis by (simp add: r th'(1))
      qed
    qed
  qed
  then show "n + length bs < ?L \<Longrightarrow> \<exists>th'. read_bytes env owner bs th = Some th' \<and> fed s J t msg (n + length bs) th'"
    "n + length bs = ?L \<Longrightarrow> read_bytes env owner bs th = finished env owner t msg s"
    by (simp_all split: if_splits)
qed


section \<open>Delivery\<close>

text \<open>Chunks of bytes, none of which arrives at or after one of the timeouts.\<close>

definition in_time :: "('k, 'm) peer_state \<Rightarrow> (double \<times> byte list) list \<Rightarrow> bool" where
  "in_time s chunks \<longleftrightarrow>
     (\<forall>(time, bs) \<in> set chunks. bs \<noteq> [] \<and> time < disconnectTime (fst s) \<and> time < mempoolTime (fst s))"

abbreviation inputs :: "(double \<times> byte list) list \<Rightarrow> (double \<times> input) list" where
  "inputs \<equiv> map (\<lambda>(time, bs). (time, Bytes bs))"

lemma read_chunks:
  assumes "in_time s chunks" "socket (fst s) \<ge> 0" "deliverable s J t msg" "n < length (stream s J t msg)"
    "concat (map snd chunks) = drop n (stream s J t msg)" "fed s J t msg n th"
  shows "read_inputs env owner (inputs chunks) th = finished (env\<lparr>clock := fst (last chunks)\<rparr>) owner t msg s"
  using assms(1,4-)
proof (induction chunks arbitrary: n th)
  case (Cons c cs)
  obtain time bs where c: "c = (time, bs)" by (cases c)
  let ?L = "length (stream s J t msg)" and ?env = "env\<lparr>clock := time\<rparr>"
  have q: "quiet ?env s" "bs \<noteq> []" using Cons.prems(1) assms(2) by (auto simp: in_time_def quiet_def c)
  have cat: "drop n (stream s J t msg) = bs @ concat (map snd cs)" using Cons.prems(3) by (simp add: c)
  then have "length bs \<le> ?L - n" by (metis length_drop length_append le_add1)
  then have b: "n + length bs \<le> ?L" "bs = take (length bs) (drop n (stream s J t msg))"
    using Cons.prems(2) cat by auto
  note F = feed_chunk [OF q(1) assms(3) Cons.prems(2) b Cons.prems(4) q(2)]
  note run = running_fed [OF q(1) Cons.prems(4)]
  have rest: "concat (map snd cs) = drop (n + length bs) (stream s J t msg)"
    using cat by (metis append_eq_conv_conj drop_drop add.commute)
  show ?case
  proof (cases "n + length bs < ?L")
    case True
    then obtain th' where th': "read_bytes ?env owner bs th = Some th'" "fed s J t msg (n + length bs) th'" using F(1) by blast
    have "cs \<noteq> []" using rest True by auto
    moreover have "in_time s cs" using Cons.prems(1) by (simp add: in_time_def)
    ultimately show ?thesis using Cons.IH [OF _ True rest th'(2)] run th'(1) by (simp add: c)
  next
    case False
    then have e: "n + length bs = ?L" using b(1) by simp
    then have "concat (map snd cs) = []" using rest by simp
    then have "cs = []" using Cons.prems(1) by (cases cs) (auto simp: in_time_def)
    moreover have "read_inputs env owner [] = Some" by (rule ext) simp
    ultimately show ?thesis using F(2) [of owner] e run by (simp add: c)
  qed
qed simp

text \<open>
  Claim C7.  A message that \<^verbatim>\<open>BRPeerSendMessage\<close> writes is delivered: whatever chunks \<^verbatim>\<open>read\<close> returns
  it in, and whatever bytes without the magic number precede it, the thread of the other side passes
  exactly its type and its payload to the handler, once, with the clock of the last chunk, and is
  ready for the next message, or ends with \<^verbatim>\<open>EPROTO\<close> when the handler refuses it.  The type has at
  most 11 characters, and no chunk comes after a timeout.
\<close>

theorem message_delivered:
  assumes "sent (BRPeerSendMessage senv msg t sender) = sent sender @ [wire]" "magicNumber sender = magicNumber (fst s)"
    "0 \<notin> set t" "length t \<le> 11"
    "\<forall>i<length junk. take 4 (drop i (junk @ wire)) \<noteq> UInt32SetLE (magicNumber (fst s))"
    "socket (fst s) \<ge> 0" "in_time s chunks" "concat (map snd chunks) = junk @ wire"
  shows "read_inputs env owner (inputs chunks) \<lparr>peer = s, phase = Header [], error = 0\<rparr> =
    do {
      (r, s) \<leftarrow> BRPeerAcceptMessage (env\<lparr>clock := fst (last chunks)\<rparr>) owner msg t s;
      Some \<lparr>peer = s, phase = Header [], error = (if r then 0 else EPROTO)\<rparr>
    }"
proof -
  have w: "wire = frame (magicNumber (fst s)) t msg" "length msg \<le> MAX_MSG_LENGTH"
    using assms(1,2) by (auto simp: BRPeerSendMessage_def BRPeerDisconnect_def Let_def split: if_splits)
  then have st: "stream s junk t msg = junk @ wire" by (simp add: stream_def)
  have d: "deliverable s junk t msg" using assms(3-5) w(2) by (simp add: deliverable_def st)
  have "0 < length (stream s junk t msg)" by (simp add: length_stream)
  moreover have "fed s junk t msg 0 \<lparr>peer = s, phase = Header [], error = 0\<rparr>" by (simp add: fed_def)
  ultimately show ?thesis
    using read_chunks [OF assms(7,6) d, of 0] assms(8) by (simp add: st finished_def)
qed


definition env0 :: peer_env where
  "env0 = \<lparr>clock = 0, unixTime = 0, randoms = 7, sendOk = (\<lambda>_. True), reachable = True, threadOk = True,
     movesTo = (\<lambda>_. False), junkFlags = 0\<rparr>"

definition owner0 :: "(unit, unit) peer_owner" where
  "owner0 = \<lparr>onConnected = None, onDisconnected = None, onRelayedPeers = None, onRelayedTx = None, onHasTx = None,
     onRejectedTx = None, onRelayedBlock = None, onNotfound = None, onSetFeePerKb = None, onRequestedTx = None,
     runPong = (\<lambda>_ _ s. Some s)\<rparr>"

definition ctx0 :: "unit BRPeerContext" where
  "ctx0 = (BRPeerNew 5)\<lparr>socket := 3\<rparr>"

theorem message_delivered_witness:
  "\<exists>th. read_inputs env0 owner0 [(1, Bytes [1]), (2, Bytes (frame 5 MSG_VERACK []))]
     \<lparr>peer = (ctx0, ()), phase = Header [], error = 0\<rparr> = Some th \<and> gotVerack (fst (peer th)) \<and> error th = 0"
proof -
  let ?wire = "frame 5 MSG_VERACK []" and ?chunks = "[(1, [1]), (2, frame 5 MSG_VERACK [])]"
  have m: "magicNumber ctx0 = 5" "socket ctx0 = 3" "disconnectTime ctx0 = DBL_MAX" "mempoolTime ctx0 = DBL_MAX"
    "sent ctx0 = []" "currentBlock ctx0 = None" "gotVerack ctx0 = False" "status ctx0 = Disconnected"
    by (simp_all add: ctx0_def BRPeerNew_def)
  note big = DBL_MAX_large
  have t: "MSG_VERACK = [118, 101, 114, 97, 99, 107]" by (simp add: MSG_VERACK_def ascii_def)
  have "sent (BRPeerSendMessage env0 [] MSG_VERACK ctx0) = sent ctx0 @ [?wire]"
    using big by (simp add: BRPeerSendMessage_def m env0_def MAX_MSG_LENGTH_def Let_def)
  moreover have "\<forall>i<length [1::byte]. take 4 (drop i ([1] @ ?wire)) \<noteq> UInt32SetLE (magicNumber (fst (ctx0, ())))"
    by (simp add: m frame_def UInt32SetLE_def)
  moreover have "in_time (ctx0, ()) ?chunks" using big by (simp add: in_time_def m frame_def UInt32SetLE_def)
  ultimately have "read_inputs env0 owner0 (inputs ?chunks) \<lparr>peer = (ctx0, ()), phase = Header [], error = 0\<rparr> =
    do {
      (r, s) \<leftarrow> BRPeerAcceptMessage (env0\<lparr>clock := fst (last ?chunks)\<rparr>) owner0 [] MSG_VERACK (ctx0, ());
      Some \<lparr>peer = s, phase = Header [], error = (if r then 0 else EPROTO)\<rparr>
    }"
    using message_delivered [of env0 "[]" MSG_VERACK ctx0 ?wire "(ctx0, ())" "[1]" ?chunks env0 owner0]
    by (simp add: t m)
  then show ?thesis
    by (simp add: BRPeerAcceptMessage_def m t MSG_VERSION_def ascii_def BRPeerAcceptVerackMessage_def BRPeerDidConnect_def)
qed

end
