(* ===== verification/PeerInvariant_Correct.thy ===== *)
theory PeerInvariant_Correct
  imports Peer_Correct PeerThread Post
begin

text \<open>
  What holds of a connection whatever the other side sends: a block is being collected exactly
  while transactions of it are missing, the remembered block hashes are bounded, and a
  connection that counts as connected has completed the handshake with a supported version.
\<close>

section \<open>The invariant\<close>

definition peer_ok :: "'k BRPeerContext \<Rightarrow> bool" where
  "peer_ok c \<longleftrightarrow>
     (currentBlock c = None \<longleftrightarrow> currentBlockTxHashes c = []) \<and> length (knownBlockHashes c) \<le> MAX_GETDATA_HASHES \<and>
     (status c = Connected \<longrightarrow> sentVerack c \<and> gotVerack c) \<and> (sentVerack c \<longrightarrow> MIN_PROTO_VERSION \<le> ctx_version c)"

text \<open>The callbacks of the owner keep a property of the context.\<close>

definition callbacks_keep :: "('k BRPeerContext \<Rightarrow> bool) \<Rightarrow> ('k, 'm) peer_owner \<Rightarrow> bool" where
  "callbacks_keep P owner \<longleftrightarrow>
     (\<forall>s. P (fst s) \<longrightarrow>
        (let keeps = (\<lambda>f. post (\<lambda>s'. P (fst s')) (callback f s))
         in keeps (onConnected owner) \<and> (\<forall>ps. keeps (map_option (\<lambda>f. f ps) (onRelayedPeers owner))) \<and>
            (\<forall>tx. keeps (map_option (\<lambda>f. f tx) (onRelayedTx owner))) \<and> (\<forall>h. keeps (map_option (\<lambda>f. f h) (onHasTx owner))) \<and>
            (\<forall>h code. keeps (map_option (\<lambda>f. f h code) (onRejectedTx owner))) \<and>
            (\<forall>b. keeps (map_option (\<lambda>f. f b) (onRelayedBlock owner))) \<and>
            (\<forall>ts bs. keeps (map_option (\<lambda>f. f ts bs) (onNotfound owner))) \<and>
            (\<forall>fee. keeps (map_option (\<lambda>f. f fee) (onSetFeePerKb owner))) \<and>
            (\<forall>h. post (\<lambda>r. P (fst (snd r))) (requested owner h s)) \<and>
            (\<forall>k ok. post (\<lambda>s'. P (fst s')) (run_pong owner k ok s))))"

named_theorems peer_simps

lemma peer_ok_irrelevant [peer_simps]:
  "peer_ok (c\<lparr>pub := p\<rparr>) = peer_ok c" "peer_ok (c\<lparr>ctx_nonce := n\<rparr>) = peer_ok c" "peer_ok (c\<lparr>ctx_feePerKb := n\<rparr>) = peer_ok c"
  "peer_ok (c\<lparr>useragent := u\<rparr>) = peer_ok c" "peer_ok (c\<lparr>lastblock := l\<rparr>) = peer_ok c" "peer_ok (c\<lparr>startTime := d\<rparr>) = peer_ok c"
  "peer_ok (c\<lparr>pingTime := d\<rparr>) = peer_ok c" "peer_ok (c\<lparr>disconnectTime := d\<rparr>) = peer_ok c" "peer_ok (c\<lparr>mempoolTime := d\<rparr>) = peer_ok c"
  "peer_ok (c\<lparr>sentGetaddr := b\<rparr>) = peer_ok c" "peer_ok (c\<lparr>sentFilter := b\<rparr>) = peer_ok c" "peer_ok (c\<lparr>sentGetdata := b\<rparr>) = peer_ok c"
  "peer_ok (c\<lparr>sentMempool := b\<rparr>) = peer_ok c" "peer_ok (c\<lparr>lastBlockHash := h\<rparr>) = peer_ok c" "peer_ok (c\<lparr>knownTxHashes := hs\<rparr>) = peer_ok c"
  "peer_ok (c\<lparr>knownTxHashSet := s\<rparr>) = peer_ok c" "peer_ok (c\<lparr>pongs := ps\<rparr>) = peer_ok c" "peer_ok (c\<lparr>mempoolCallback := k\<rparr>) = peer_ok c"
  "peer_ok (c\<lparr>socket := i\<rparr>) = peer_ok c" "peer_ok (c\<lparr>sent := fs\<rparr>) = peer_ok c" "peer_ok (c\<lparr>closes := j\<rparr>) = peer_ok c"
  by (simp_all add: peer_ok_def)

lemma peer_ok_new: "peer_ok (BRPeerNew magic)"
  by (simp add: peer_ok_def BRPeerNew_def MAX_GETDATA_HASHES_def)

lemma peer_ok_send [peer_simps]: "peer_ok c \<Longrightarrow> peer_ok (BRPeerSendMessage env msg t c)"
  by (auto simp: BRPeerSendMessage_def BRPeerDisconnect_def peer_ok_def Let_def)

lemma peer_ok_sends [peer_simps]:
  assumes "peer_ok c"
  shows "peer_ok (BRPeerSendGetdata env ts bs c)" "peer_ok (BRPeerSendGetblocks env ls h c)" "peer_ok (BRPeerSendGetheaders env ls h c)"
    "peer_ok (BRPeerSendPing env k c)" "peer_ok (BRPeerSendAddr env c)"
  using assms by (simp_all add: BRPeerSendGetdata_def BRPeerSendGetblocks_def BRPeerSendGetheaders_def BRPeerSendPing_def
    BRPeerSendAddr_def peer_simps Let_def)

lemma add_known_ok: "add_known env h c = Some c' \<Longrightarrow> peer_ok c' = peer_ok c"
  by (auto simp: add_known_def peer_simps bind_eq_Some_conv Let_def split: if_splits)

lemma AddKnown_ok: "BRPeerAddKnownTxHashes env hs c = Some c' \<Longrightarrow> peer_ok c' = peer_ok c"
  unfolding BRPeerAddKnownTxHashes_def
  by (induction hs arbitrary: c) (auto dest: add_known_ok split: option.splits)

lemma length_trim_known: "length (trim_known hs) \<le> MAX_GETDATA_HASHES"
  by (induction hs rule: trim_known.induct) (subst trim_known.simps, simp)

section \<open>The handlers\<close>

lemma callbacks:
  assumes "callbacks_keep P owner" "P (fst s)"
  shows "post (\<lambda>s'. P (fst s')) (callback (onConnected owner) s)"
    "post (\<lambda>s'. P (fst s')) (callback (map_option (\<lambda>f. f ps) (onRelayedPeers owner)) s)"
    "post (\<lambda>s'. P (fst s')) (callback (map_option (\<lambda>f. f tx) (onRelayedTx owner)) s)"
    "post (\<lambda>s'. P (fst s')) (callback (map_option (\<lambda>f. f h) (onHasTx owner)) s)"
    "post (\<lambda>s'. P (fst s')) (callback (map_option (\<lambda>f. f h code) (onRejectedTx owner)) s)"
    "post (\<lambda>s'. P (fst s')) (callback (map_option (\<lambda>f. f b) (onRelayedBlock owner)) s)"
    "post (\<lambda>s'. P (fst s')) (callback (map_option (\<lambda>f. f ts bs) (onNotfound owner)) s)"
    "post (\<lambda>s'. P (fst s')) (callback (map_option (\<lambda>f. f fee) (onSetFeePerKb owner)) s)"
    "post (\<lambda>r. P (fst (snd r))) (requested owner h s)"
    "post (\<lambda>s'. P (fst s')) (run_pong owner k ok s)"
  using assms(1) [unfolded callbacks_keep_def Let_def, rule_format, OF assms(2)] by blast+

abbreviation kept :: "'k BRPeerContext \<times> 'm \<Rightarrow> bool" where
  "kept \<equiv> \<lambda>s. peer_ok (fst s)"

text \<open>The result of a handler: nothing is said of a connection that is about to end.\<close>

abbreviation accepted :: "bool \<times> ('k, 'm) peer_state \<Rightarrow> bool" where
  "accepted \<equiv> \<lambda>(r, s). r \<longrightarrow> peer_ok (fst s)"

lemma peer_ok_status [peer_simps]:
  "peer_ok c \<Longrightarrow> sentVerack c \<Longrightarrow> gotVerack c \<Longrightarrow> peer_ok (c\<lparr>status := Connected\<rparr>)"
  "peer_ok c \<Longrightarrow> peer_ok (c\<lparr>gotVerack := True\<rparr>)" "peer_ok c \<Longrightarrow> peer_ok (c\<lparr>status := Disconnected\<rparr>)"
  "peer_ok c \<Longrightarrow> peer_ok (c\<lparr>knownBlockHashes := trim_known hs\<rparr>)"
  "peer_ok c \<Longrightarrow> peer_ok (c\<lparr>currentBlockTxHashes := [], currentBlock := None\<rparr>)"
  using length_trim_known by (auto simp: peer_ok_def)

lemma peer_ok_verack:
  assumes "peer_ok c" "MIN_PROTO_VERSION \<le> v"
  shows "peer_ok (BRPeerSendVerackMessage env (c\<lparr>ctx_version := v, pub := p, useragent := u, lastblock := l\<rparr>))"
  using assms by (auto simp: BRPeerSendVerackMessage_def BRPeerSendMessage_def BRPeerDisconnect_def peer_ok_def Let_def)

lemma DidConnect_ok: "callbacks_keep peer_ok owner \<Longrightarrow> kept s \<Longrightarrow> post kept (BRPeerDidConnect owner s)"
  unfolding BRPeerDidConnect_def by (intro wp callbacks) (auto simp: peer_simps)

lemma Version_ok: "kept s \<Longrightarrow> post accepted (BRPeerAcceptVersionMessage env msg s)"
  unfolding BRPeerAcceptVersionMessage_def by (intro wp) (auto intro: peer_ok_verack simp: not_less)

lemma Verack_ok: "callbacks_keep peer_ok owner \<Longrightarrow> kept s \<Longrightarrow> post accepted (BRPeerAcceptVerackMessage env owner s)"
  unfolding BRPeerAcceptVerackMessage_def by (intro wp) (auto intro!: DidConnect_ok simp: peer_simps)

lemma Addr_ok: "callbacks_keep peer_ok owner \<Longrightarrow> kept s \<Longrightarrow> post accepted (BRPeerAcceptAddrMessage env owner msg s)"
  unfolding BRPeerAcceptAddrMessage_def by (intro wp) (auto intro: callbacks)

lemma on_ctx_iff [peer_simps]: "on_ctx f s = (c, m) \<longleftrightarrow> c = f (fst s) \<and> m = snd s"
  by (cases s) auto

text \<open>Rules for the steps of the longer handlers, which forget how a value came about.\<close>

lemmas let_state = post_let_rule [where Q = kept]
lemmas let_ctx = post_let_rule [where Q = peer_ok]

lemma let_hashes: "(\<And>a. post P (f a)) \<Longrightarrow> post P (Let (e :: UInt256 list) f)"
  by simp

lemma call_bind:
  assumes "post kept x" "\<And>s. kept s \<Longrightarrow> post P (f s)"
  shows "post P (Option.bind x f)"
  using assms by (rule post_bind_rule)

lemma known_bind: "peer_ok c \<Longrightarrow> (\<And>c. peer_ok c \<Longrightarrow> post P (f c)) \<Longrightarrow> post P (Option.bind (BRPeerAddKnownTxHashes env hs c) f)"
  by (rule post_bind) (simp add: AddKnown_ok)

lemma sort_tx_ok:
  "callbacks_keep peer_ok owner \<Longrightarrow> kept s \<Longrightarrow> post (\<lambda>r. kept (snd r)) (sort_tx owner hs s)"
proof (induction hs arbitrary: s)
  case (Cons h hs)
  have c: "post kept (if known then callback (map_option (\<lambda>f. f h) (onHasTx owner)) s else Some s)" for known
    using callbacks(4) [OF Cons.prems] Cons.prems(2) by simp
  show ?case
    unfolding sort_tx.simps
    by (rule post_bind_any, rule call_bind [OF c], rule post_bind_pair [OF Cons.IH [OF Cons.prems(1)]]) simp_all
qed simp

lemma Inv_ok:
  assumes "callbacks_keep peer_ok owner" "kept s"
  shows "post accepted (BRPeerAcceptInvMessage env owner msg s)"
  unfolding BRPeerAcceptInvMessage_def
  apply (rule post_let_any, rule post_prod, rule post_if, simp, rule post_if, simp add: assms, rule post_bind_any)
  apply (rule let_hashes, rule let_hashes, rule post_if, simp add: assms, rule let_hashes, rule let_hashes)
  apply (rule let_state, use assms in \<open>simp add: peer_simps\<close>, rule let_state, simp add: peer_simps, rule let_hashes)
  apply (rule post_bind_pair [OF sort_tx_ok [OF assms(1)]], assumption, rule known_bind, assumption)
  by (rule let_ctx, simp add: peer_simps)+ (simp add: peer_simps)

lemma Notfound_ok: "callbacks_keep peer_ok owner \<Longrightarrow> kept s \<Longrightarrow> post accepted (BRPeerAcceptNotfoundMessage owner msg s)"
  unfolding BRPeerAcceptNotfoundMessage_def by (intro wp) (auto intro: callbacks)

lemma serve_items_ok:
  "callbacks_keep peer_ok owner \<Longrightarrow> kept s \<Longrightarrow> post (\<lambda>r. peer_ok (fst (snd r))) (serve_items env owner msg off n s)"
proof (induction n arbitrary: s off)
  case (Suc n)
  have tx: "post (\<lambda>r. kept (snd r)) (if t \<in> {inv_witness_tx, inv_tx} then requested owner h s else Some (None, s))" for t h
    using callbacks(9) [OF Suc.prems] Suc.prems(2) by simp
  have found: "post (\<lambda>r. kept (snd r)) (case tx of None \<Rightarrow> Some (False, s)
      | Some tx \<Rightarrow> if BRTransactionVSize tx < TX_MAX_SIZE
          then map_option (\<lambda>bs. (True, on_ctx (BRPeerSendMessage env bs MSG_TX) s)) (serialized_tx tx)
          else Some (False, s))" if "kept s" for tx and s :: "('a, 'b) peer_state"
    using that by (auto simp: post_def peer_simps split: option.splits if_splits)
  show ?case
    unfolding serve_items.simps
    by (rule post_bind_any, rule post_prod, rule post_bind_any, rule post_bind_pair [OF tx], rule post_bind_pair [OF found],
        assumption, rule post_bind_pair [OF Suc.IH [OF Suc.prems(1)]]) simp_all
qed simp

lemma Getdata_ok: "callbacks_keep peer_ok owner \<Longrightarrow> kept s \<Longrightarrow> post accepted (BRPeerAcceptGetdataMessage env owner msg s)"
  unfolding BRPeerAcceptGetdataMessage_def
  by (intro wp) (auto simp: peer_simps dest!: postD [OF serve_items_ok])

lemma relay_headers_ok:
  "callbacks_keep peer_ok owner \<Longrightarrow> kept s \<Longrightarrow> post accepted (relay_headers env owner msg off n s)"
proof (induction n arbitrary: s off)
  case (Suc n)
  show ?case
    unfolding relay_headers.simps
    by (intro wp) (auto dest!: postD [OF callbacks(6) [OF Suc.prems]] intro: Suc.IH [OF Suc.prems(1)])
qed simp

lemma Headers_ok: "callbacks_keep peer_ok owner \<Longrightarrow> kept s \<Longrightarrow> post accepted (BRPeerAcceptHeadersMessage env owner msg s)"
  unfolding BRPeerAcceptHeadersMessage_def
  by (intro wp) (auto simp: peer_simps bind_eq_Some_conv split: if_splits intro!: relay_headers_ok)

lemma Pong_ok: "callbacks_keep peer_ok owner \<Longrightarrow> kept s \<Longrightarrow> post accepted (BRPeerAcceptPongMessage env owner msg s)"
  unfolding BRPeerAcceptPongMessage_def
  by (intro wp) (auto simp: peer_simps intro!: post_map post_mono [OF callbacks(10)] split: list.splits)

lemma Reject_ok: "callbacks_keep peer_ok owner \<Longrightarrow> kept s \<Longrightarrow> post accepted (BRPeerAcceptRejectMessage owner msg s)"
  unfolding BRPeerAcceptRejectMessage_def by (intro wp) (auto intro: callbacks)

lemma FeeFilter_ok: "callbacks_keep peer_ok owner \<Longrightarrow> kept s \<Longrightarrow> post accepted (BRPeerAcceptFeeFilterMessage owner msg s)"
  unfolding BRPeerAcceptFeeFilterMessage_def by (intro wp) (auto intro!: callbacks simp: peer_simps)


lemma tx_bind: "(\<And>a. post P (f a)) \<Longrightarrow> post P (Option.bind (x :: BRTransaction option option) f)"
  by (rule post_bind_any)

lemma remove_hash_nil: "remove_hash h hs = [] \<Longrightarrow> hs = [] \<or> hs = [h]"
  by (induction hs) (auto simp: UInt256Eq_def split: if_splits)

lemma collect_tx_ok:
  assumes "callbacks_keep peer_ok owner" "kept s"
  shows "post kept (collect_tx owner h s)"
proof (cases "currentBlock (fst s)")
  case (Some block)
  let ?s = "on_ctx (\<lambda>c. c\<lparr>currentBlockTxHashes := remove_hash h (currentBlockTxHashes c)\<rparr>) s"
  show ?thesis
  proof (cases "remove_hash h (currentBlockTxHashes (fst s)) = []")
    case True
    then have "kept (on_ctx (\<lambda>c. c\<lparr>currentBlock := None\<rparr>) ?s)" using assms(2) by (auto simp: peer_ok_def)
    then show ?thesis using callbacks(6) [OF assms(1)] True by (simp add: collect_tx_def Some)
  next
    case False
    then have "kept ?s" using assms(2) Some by (auto simp: peer_ok_def)
    then show ?thesis using False by (simp add: collect_tx_def Some)
  qed
qed (use assms in \<open>simp add: collect_tx_def\<close>)

lemma Tx_ok:
  assumes "callbacks_keep peer_ok owner" "kept s"
  shows "post accepted (BRPeerAcceptTxMessage owner msg s)"
proof -
  have "post accepted (do { s \<leftarrow> callback (map_option (\<lambda>f. f tx) (onRelayedTx owner)) s; s \<leftarrow> collect_tx owner (txHash tx) s; Some (True, s) })" for tx
    by (rule call_bind [OF callbacks(3) [OF assms]], rule call_bind [OF collect_tx_ok [OF assms(1)]]) simp_all
  then show ?thesis
    unfolding BRPeerAcceptTxMessage_def using assms(2) by (intro tx_bind post_option post_if) simp_all
qed

lemma Merkleblock_ok:
  assumes "callbacks_keep peer_ok owner" "kept s" "currentBlock (fst s) = None"
  shows "post accepted (BRPeerAcceptMerkleblockMessage env owner msg s)"
proof -
  let ?add = "\<lambda>new. on_ctx (\<lambda>c. c\<lparr>currentBlockTxHashes := currentBlockTxHashes c @ new\<rparr>)"
  have step: "post kept (if currentBlockTxHashes (fst (?add new s)) \<noteq> [] then Some (on_ctx (\<lambda>c. c\<lparr>currentBlock := Some block\<rparr>) (?add new s))
      else callback (map_option (\<lambda>f. f block) (onRelayedBlock owner)) (?add new s))" for new block
  proof (cases "new = []")
    case True
    have "currentBlockTxHashes (fst s) = []" using assms(2,3) by (simp add: peer_ok_def)
    then have "?add new s = s" using True by (cases s) simp
    then show ?thesis using callbacks(6) [OF assms(1,2)] \<open>currentBlockTxHashes (fst s) = []\<close> by simp
  next
    case False
    then show ?thesis using assms(2) by (auto simp: peer_ok_def)
  qed
  show ?thesis
    unfolding BRPeerAcceptMerkleblockMessage_def Let_def
    by (rule post_bind_any, rule post_option, simp, rule post_bind_any, rule post_if, simp, rule post_if, simp,
        rule post_bind_any, rule post_bind_any, rule call_bind, rule step, simp)
qed

text \<open>What is kept by every message that is accepted.\<close>

lemma AcceptMessage_ok:
  assumes "callbacks_keep peer_ok owner" "kept s"
  shows "post accepted (BRPeerAcceptMessage env owner msg t s)"
proof (cases "currentBlock (fst s) \<noteq> None \<and> t \<noteq> MSG_TX")
  case False
  have "MSG_MERKLEBLOCK \<noteq> MSG_TX" by (simp add: MSG_MERKLEBLOCK_def MSG_TX_def ascii_def)
  then have m: "t = MSG_MERKLEBLOCK \<Longrightarrow> currentBlock (fst s) = None" using False by auto
  note handlers = Version_ok [OF assms(2)] Verack_ok [OF assms] Addr_ok [OF assms] Inv_ok [OF assms] Tx_ok [OF assms]
    Headers_ok [OF assms] Getdata_ok [OF assms] Notfound_ok [OF assms] Pong_ok [OF assms] Reject_ok [OF assms] FeeFilter_ok [OF assms]
  have "post accepted (BRPeerAcceptGetaddrMessage env s)" "post accepted (BRPeerAcceptPingMessage env msg s)"
    using assms(2) by (simp_all add: BRPeerAcceptGetaddrMessage_def BRPeerAcceptPingMessage_def peer_simps split: prod.splits)
  then show ?thesis
    unfolding BRPeerAcceptMessage_def using False assms(2) m Merkleblock_ok [OF assms]
    by (intro post_if handlers) simp_all
qed (simp add: BRPeerAcceptMessage_def split: prod.splits)


section \<open>The thread\<close>

text \<open>A thread without error is in a state that satisfies the invariant.\<close>

abbreviation thread_ok :: "('k, 'm) thread \<Rightarrow> bool" where
  "thread_ok \<equiv> \<lambda>th. error th = 0 \<longrightarrow> kept (peer th)"

lemma accept_payload_ok:
  "callbacks_keep peer_ok owner \<Longrightarrow> kept (peer th) \<Longrightarrow> post thread_ok (accept_payload env owner t checksum msg th)"
  unfolding accept_payload_def
  by (intro post_if post_bind) (auto simp: EPROTO_def dest!: postD [OF AcceptMessage_ok] split: prod.splits)

lemma accept_header_ok:
  "callbacks_keep peer_ok owner \<Longrightarrow> kept (peer th) \<Longrightarrow> post thread_ok (accept_header env owner header th)"
  unfolding accept_header_def Let_def
  by (intro post_if accept_payload_ok) (simp_all add: EPROTO_def)

lemma mempool_timeout_ok: "peer_ok c \<Longrightarrow> peer_ok (mempool_timeout env c)"
  by (simp add: mempool_timeout_def peer_simps)

lemma thread_step_ok:
  assumes "callbacks_keep peer_ok owner" "kept (peer th)"
  shows "post thread_ok (thread_step env owner inp th)"
proof (cases "phase th")
  case (Header h)
  show ?thesis
    unfolding thread_step_def Let_def Header phase.case
    by (intro post_if accept_header_ok assms(1)) (simp_all add: assms(2) mempool_timeout_ok)
next
  case (Payload t n c p d)
  then show ?thesis
    using assms by (simp add: thread_step_def Let_def accept_payload_ok)
qed

lemma read_bytes_ok:
  "callbacks_keep peer_ok owner \<Longrightarrow> thread_ok th \<Longrightarrow> post thread_ok (read_bytes env owner bs th)"
proof (induction env owner bs th rule: read_bytes.induct)
  case (1 env owner bs th)
  show ?case
  proof (cases "bs = [] \<or> \<not> running th \<or> wanted th = 0")
    case False
    then have "kept (peer th)" using "1.prems"(2) by (simp add: running_def)
    then have "post thread_ok (thread_step env owner (Bytes (take (wanted th) bs)) th)" by (intro thread_step_ok "1.prems"(1))
    then show ?thesis
      using False "1.IH" [OF False _ "1.prems"(1)] by (subst read_bytes.simps) (auto intro: post_bind dest: postD)
  qed (use 1 in \<open>subst read_bytes.simps, simp\<close>)
qed

text \<open>
  Claim C8.  Whatever the other side of a connection sends, in whatever chunks, timeouts and
  failures included: while the thread reports no error, a block is being collected exactly when
  transactions of it are missing, at most 50,000 block hashes are remembered, and a connection
  with the status \<^verbatim>\<open>BRPeerStatusConnected\<close> has sent and received a verack and speaks a supported
  version of the protocol.  The callbacks of the owner must keep this of the context.
\<close>

theorem connection_invariant:
  assumes "callbacks_keep peer_ok owner" "peer_ok (fst s)"
    "read_inputs env owner inps \<lparr>peer = s, phase = Header [], error = 0\<rparr> = Some th" "error th = 0"
  shows "peer_ok (fst (peer th))"
proof -
  have "thread_ok th0 \<Longrightarrow> post thread_ok (read_inputs env owner inps th0)" for th0
    using assms(1)
  proof (induction env owner inps th0 rule: read_inputs.induct)
    case (2 env owner time inp inps th0)
    show ?case
    proof (cases "running th0")
      case True
      then have k: "kept (peer th0)" using "2.prems"(1) by (simp add: running_def)
      have "post thread_ok (case inp of Bytes bs \<Rightarrow> read_bytes (env\<lparr>clock := time\<rparr>) owner bs th0 | _ \<Rightarrow> thread_step (env\<lparr>clock := time\<rparr>) owner inp th0)"
        using thread_step_ok [OF "2.prems"(2) k] read_bytes_ok [OF "2.prems"(2,1)] by (cases inp) auto
      then show ?thesis using True "2.IH" "2.prems"(2) by (auto simp: Let_def intro!: post_bind dest: postD)
    qed (use "2.prems" in simp)
  qed simp
  from this [of "\<lparr>peer = s, phase = Header [], error = 0\<rparr>"] show ?thesis
    using assms(2) by (auto dest!: postD [OF _ assms(3)] simp: assms(4))
qed


definition silent_owner :: "peer_env \<Rightarrow> (unit, unit) peer_owner" where
  "silent_owner env = \<lparr>onConnected = None, onDisconnected = None, onRelayedPeers = None, onRelayedTx = None, onHasTx = None,
     onRejectedTx = None, onRelayedBlock = Some (\<lambda>_ (c, m). Some (BRPeerSendGetblocks env [1] 0 c, m)), onNotfound = None,
     onSetFeePerKb = None, onRequestedTx = None, runPong = (\<lambda>_ _ s. Some s)\<rparr>"

lemma silent_owner_keeps: "callbacks_keep peer_ok (silent_owner env)"
  by (simp add: callbacks_keep_def silent_owner_def callback_def requested_def run_pong_def peer_simps
    split: prod.splits option.splits)

theorem connection_invariant_witness:
  "\<exists>th. read_inputs (quiet_env\<lparr>clock := 0\<rparr>) (silent_owner quiet_env) [(1, Bytes [1, 2])]
       \<lparr>peer = ((BRPeerNew 5)\<lparr>socket := 3\<rparr>, ()), phase = Header [], error = 0\<rparr> = Some th
     \<and> phase th = Header [1, 2] \<and> peer_ok (fst (peer th))"
proof -
  let ?c = "(BRPeerNew 5)\<lparr>socket := 3\<rparr> :: unit BRPeerContext"
  have "thread_step (quiet_env\<lparr>clock := 1\<rparr>) (silent_owner quiet_env) (Bytes [1, 2]) \<lparr>peer = (?c, ()), phase = Header [], error = 0\<rparr> =
      Some \<lparr>peer = (?c, ()), phase = Header [1, 2], error = 0\<rparr>"
    using DBL_MAX_large by (simp add: thread_step_def read_error_def BRPeerNew_def mempool_timeout_def HEADER_LENGTH_def)
  then have r: "read_inputs (quiet_env\<lparr>clock := 0\<rparr>) (silent_owner quiet_env) [(1, Bytes [1, 2])] \<lparr>peer = (?c, ()), phase = Header [], error = 0\<rparr> =
      Some \<lparr>peer = (?c, ()), phase = Header [1, 2], error = 0\<rparr>"
    by (simp add: running_def BRPeerNew_def, subst read_bytes.simps) (simp add: running_def wanted_def HEADER_LENGTH_def read_bytes.simps)
  have "peer_ok (fst (?c, ()))" by (simp add: peer_ok_new peer_simps)
  then show ?thesis using connection_invariant [OF silent_owner_keeps _ r] r by simp
qed

end
