(* ===== verification/PeerBlocks_Correct.thy ===== *)
theory PeerBlocks_Correct
  imports Peer_Correct TransactionParse_Correct
begin

text \<open>A block and its transactions: the block is passed on behind the last transaction it needs.\<close>

lemma unknown_hashes_filter:
  "tx_set.rep s K \<Longrightarrow> unknown_hashes s hs = Some (filter (\<lambda>h. h \<notin> K) hs)"
  using tx_set.rep_contains [of s K] by (induction hs) auto

lemma remove_hash_filter: "distinct hs \<Longrightarrow> remove_hash h hs = filter (\<lambda>x. x \<noteq> h) hs"
proof (induction hs)
  case (Cons x hs)
  have "h = x \<Longrightarrow> filter (\<lambda>y. y \<noteq> h) hs = hs" using Cons.prems by (auto simp: filter_id_conv)
  then show ?case using Cons by (auto simp: UInt256Eq_def)
qed simp

abbreviation accept_all ::
    "peer_env \<Rightarrow> ('k, 'm) peer_owner \<Rightarrow> (byte list \<times> cstring) list \<Rightarrow> ('k, 'm) peer_state \<Rightarrow> ('k, 'm) peer_state option" where
  "accept_all env owner msgs \<equiv> for_each msgs (\<lambda>(msg, t) s. map_option snd (BRPeerAcceptMessage env owner msg t s))"

lemma accept_tx:
  assumes "BRTransactionParse msg = Some (Some tx)" "sentFilter c \<or> sentGetdata c"
    "onRelayedTx owner = Some relay" "relay tx (c, m) = Some (c, m')"
  shows "BRPeerAcceptMessage env owner msg MSG_TX (c, m) = map_option (Pair True) (collect_tx owner (txHash tx) (c, m'))"
proof -
  have "MSG_TX \<noteq> MSG_VERSION" "MSG_TX \<noteq> MSG_VERACK" "MSG_TX \<noteq> MSG_ADDR" "MSG_TX \<noteq> MSG_INV"
    by (simp_all add: MSG_TX_def MSG_VERSION_def MSG_VERACK_def MSG_ADDR_def MSG_INV_def ascii_def)
  then show ?thesis
    using assms by (auto simp: BRPeerAcceptMessage_def BRPeerAcceptTxMessage_def callback_def map_option_case bind_eq_None_conv
      split: option.split)
qed

lemma collect_one:
  assumes "currentBlock c = Some block" "distinct (currentBlockTxHashes c)"
  shows "collect_tx owner h (c, m) =
    (let rest = filter (\<lambda>x. x \<noteq> h) (currentBlockTxHashes c)
     in if rest = [] then callback (map_option (\<lambda>f. f block) (onRelayedBlock owner)) (c\<lparr>currentBlockTxHashes := [], currentBlock := None\<rparr>, m)
        else Some (c\<lparr>currentBlockTxHashes := rest\<rparr>, m))"
  using assms by (simp add: collect_tx_def remove_hash_filter Let_def)

text \<open>The transactions before the last one that is needed.\<close>

lemma collect_some:
  assumes "list_all2 (\<lambda>msg tx. BRTransactionParse msg = Some (Some tx)) msgs xs"
    "currentBlock c = Some block" "distinct (currentBlockTxHashes c)" "sentFilter c \<or> sentGetdata c"
    "onRelayedTx owner = Some relay" "\<And>tx c m. relay tx (c, m) = Some (c, g tx m)"
    "h \<in> set (currentBlockTxHashes c)" "h \<notin> txHash ` set xs"
  shows "accept_all env owner (map (\<lambda>msg. (msg, MSG_TX)) msgs) (c, m) =
    Some (c\<lparr>currentBlockTxHashes := filter (\<lambda>x. x \<notin> txHash ` set xs) (currentBlockTxHashes c)\<rparr>, fold g xs m)"
  using assms(1-4,7,8)
proof (induction msgs xs arbitrary: c m rule: list_all2_induct)
  case (Cons msg msgs tx xs)
  let ?rest = "filter (\<lambda>x. x \<noteq> txHash tx) (currentBlockTxHashes c)"
  have r: "h \<in> set ?rest" using Cons.prems(4,5) by auto
  then have ne: "?rest \<noteq> []" by force
  have "filter (\<lambda>x. x \<notin> txHash ` set xs) ?rest = filter (\<lambda>x. x \<notin> txHash ` set (tx # xs)) (currentBlockTxHashes c)"
    by (auto intro: filter_cong)
  moreover have "accept_all env owner (map (\<lambda>msg. (msg, MSG_TX)) msgs) (c\<lparr>currentBlockTxHashes := ?rest\<rparr>, g tx m) =
    Some (c\<lparr>currentBlockTxHashes := filter (\<lambda>x. x \<notin> txHash ` set xs) ?rest\<rparr>, fold g xs (g tx m))"
    using Cons.IH [of "c\<lparr>currentBlockTxHashes := ?rest\<rparr>" "g tx m"] Cons.prems r by simp
  ultimately show ?case
    using accept_tx [OF Cons.hyps(1) Cons.prems(3) assms(5,6)] ne
    by (simp add: collect_one [OF Cons.prems(1,2)] Let_def)
qed simp

text \<open>A valid block with transactions that are not known is kept until they have come.\<close>

lemma merkleblock_waits:
  assumes "BRMerkleBlockParse msg = Some (Some block)" "BRMerkleBlockIsValid block (word_of_int (unixTime env)) = Some True"
    "block_tx_hashes block = Some hs" "known_ok c" "currentBlock c = None" "currentBlockTxHashes c = []" "sentFilter c \<or> sentGetdata c"
    "\<not> set hs \<subseteq> set (knownTxHashes c)"
  shows "BRPeerAcceptMessage env owner msg MSG_MERKLEBLOCK (c, m) = Some (True,
    (c\<lparr>currentBlockTxHashes := filter (\<lambda>h. h \<notin> set (knownTxHashes c)) (rev hs), currentBlock := Some block\<rparr>, m))"
proof -
  let ?new = "filter (\<lambda>h. h \<notin> set (knownTxHashes c)) (rev hs)"
  have ne: "?new \<noteq> []" using assms(8) by (auto simp: filter_empty_conv)
  have unk: "unknown_hashes (knownTxHashSet c) (rev hs) = Some ?new"
    using assms(4) unknown_hashes_filter by (simp add: known_ok_def)
  have "MSG_MERKLEBLOCK \<notin> {MSG_VERSION, MSG_VERACK, MSG_ADDR, MSG_INV, MSG_TX, MSG_HEADERS, MSG_GETADDR, MSG_GETDATA,
      MSG_NOTFOUND, MSG_PING, MSG_PONG}"
    by (simp add: MSG_MERKLEBLOCK_def MSG_TX_def MSG_VERSION_def MSG_VERACK_def MSG_ADDR_def MSG_INV_def MSG_HEADERS_def
      MSG_GETADDR_def MSG_GETDATA_def MSG_NOTFOUND_def MSG_PING_def MSG_PONG_def ascii_def)
  then show ?thesis
    using assms(1-3,5-7) unk ne by (simp add: BRPeerAcceptMessage_def BRPeerAcceptMerkleblockMessage_def Let_def)
qed

text \<open>
  Claim C31.  A block that waits for transactions is passed to the owner once, behind the last of the
  transactions it needs, whatever order they come in and whatever other transactions come between
  them; each transaction has been passed on before it, and the connection then collects no block.
\<close>

theorem block_relayed_with_transactions:
  assumes "currentBlock c = Some block" "distinct (currentBlockTxHashes c)" "sentFilter c \<or> sentGetdata c"
    "list_all2 (\<lambda>msg tx. BRTransactionParse msg = Some (Some tx)) msgs (xs @ [tx])"
    "onRelayedTx owner = Some relay" "\<And>tx c m. relay tx (c, m) = Some (c, g tx m)"
    "set (currentBlockTxHashes c) \<subseteq> txHash ` set (xs @ [tx])" "txHash tx \<in> set (currentBlockTxHashes c) - txHash ` set xs"
  shows "accept_all env owner (map (\<lambda>msg. (msg, MSG_TX)) msgs) (c, m) =
    callback (map_option (\<lambda>f. f block) (onRelayedBlock owner))
      (c\<lparr>currentBlockTxHashes := [], currentBlock := None\<rparr>, fold g (xs @ [tx]) m)"
proof -
  let ?missing = "currentBlockTxHashes c"
  let ?c2 = "c\<lparr>currentBlockTxHashes := filter (\<lambda>x. x \<notin> txHash ` set xs) ?missing\<rparr>"
  obtain pre l where msgs: "msgs = pre @ [l]" "list_all2 (\<lambda>msg tx. BRTransactionParse msg = Some (Some tx)) pre xs"
    "BRTransactionParse l = Some (Some tx)"
    using assms(4) by (auto simp: list_all2_append2 list_all2_Cons2)
  have pre: "accept_all env owner (map (\<lambda>msg. (msg, MSG_TX)) pre) (c, m) = Some (?c2, fold g xs m)"
    using assms(8) by (intro collect_some [OF msgs(2) assms(1-3,5,6), of "txHash tx"]) simp_all
  have last_one: "BRPeerAcceptMessage env owner l MSG_TX (?c2, fold g xs m) =
      map_option (Pair True) (collect_tx owner (txHash tx) (?c2, g tx (fold g xs m)))"
    using accept_tx [OF msgs(3) _ assms(5,6)] assms(3) by simp
  have "filter (\<lambda>x. x \<noteq> txHash tx) (filter (\<lambda>x. x \<notin> txHash ` set xs) ?missing) = []"
    using assms(7) by (auto simp: filter_empty_conv)
  then have "collect_tx owner (txHash tx) (?c2, g tx (fold g xs m)) =
      callback (map_option (\<lambda>f. f block) (onRelayedBlock owner))
        (c\<lparr>currentBlockTxHashes := [], currentBlock := None\<rparr>, g tx (fold g xs m))"
    using assms(1,2) by (subst collect_one [of _ block]) (simp_all add: Let_def)
  then show ?thesis
    using pre last_one by (simp add: msgs(1) for_each_append option.map_comp comp_def) (simp add: map_option_case split: option.split)
qed

definition counting_owner :: "(unit, nat) peer_owner" where
  "counting_owner = \<lparr>onConnected = None, onDisconnected = None, onRelayedPeers = None,
     onRelayedTx = Some (\<lambda>tx (c, m). Some (c, m + length (inputs tx))), onHasTx = None, onRejectedTx = None,
     onRelayedBlock = Some (\<lambda>b (c, m). Some (c, m + 100)), onNotfound = None,
     onSetFeePerKb = None, onRequestedTx = None, runPong = (\<lambda>_ _ s. Some s)\<rparr>"

theorem block_relayed_with_transactions_witness:
  "let tx = received [[[7, 8], []]] example_tx;
       c = (BRPeerNew 5)\<lparr>sentFilter := True, currentBlock := Some BRMerkleBlockNew, currentBlockTxHashes := [txHash tx]\<rparr>
   in accept_all quiet_env counting_owner [(tx_bytes [[[7, 8], []]] example_tx, MSG_TX)] (c, 0) =
      Some (c\<lparr>currentBlockTxHashes := [], currentBlock := None\<rparr>, 101)"
proof -
  let ?tx = "received [[[7, 8], []]] example_tx" and ?bs = "tx_bytes [[[7, 8], []]] example_tx"
  let ?c = "(BRPeerNew 5)\<lparr>sentFilter := True, currentBlock := Some BRMerkleBlockNew, currentBlockTxHashes := [txHash ?tx]\<rparr> :: unit BRPeerContext"
  have "length (?bs @ []) < 2 ^ 54"
    by (simp add: tx_bytes_def body_bytes_def has_witness_def example_tx_def example_input_def sent_input_def input_bytes_def
        output_bytes_def len_varint_def varint_def array_of_def witness_bytes_def stack_bytes_def)
  then have "BRTransactionParse ?bs = Some (Some ?tx)" using BRTransactionParse_bytes [OF example_tx_ok] by fastforce
  moreover have "length (inputs ?tx) = 1" by (simp add: received_def example_tx_def)
  ultimately show ?thesis
    using block_relayed_with_transactions [of ?c BRMerkleBlockNew "[?bs]" "[]" ?tx counting_owner
        "\<lambda>tx (c, m). Some (c, m + length (inputs tx))" "\<lambda>tx m. m + length (inputs tx)" quiet_env 0]
    by (simp add: counting_owner_def callback_def Let_def)
qed

end
