(* ===== verification/PeerManager.thy ===== *)
theory PeerManager
  imports PeerMsg WalletTx BloomFilter
begin

text \<open>
  \<^verbatim>\<open>bitcoin/BRPeerManager.c\<close> and \<^verbatim>\<open>bitcoin/BRChainParams.c\<close>: the state of the peer manager, its
  lists of peers by transaction, the list of transactions to publish, and block locators.

  \<^item> A peer is a number; \<open>m_heap\<close> holds the contexts of the peers that are not freed, and an access
    to a freed one is \<open>None\<close>.  The closures of pending pings are the constructors of \<open>pong\<close>, with the
    peer of the \<open>BRPeerCallbackInfo\<close>.
  \<^item> A block is a pointer: its address and what it holds, which does not change once it is in a
    set.  \<open>freedBlocks\<close> are the addresses given to \<open>BRMerkleBlockFree\<close>; reading or freeing such a block is \<open>None\<close>.
  \<^item> The calls of the client's callbacks are recorded in \<open>m_events\<close>.  An operation runs under the
    manager's lock; what other threads do while a callback of the client runs is not modelled.
\<close>

unbundle bit_operations_syntax

section \<open>Chain parameters\<close>

record BRCheckPoint =
  cp_height :: u32
  cp_hash :: UInt256
  cp_timestamp :: u32
  cp_target :: u32

type_synonym block_ptr = "nat \<times> BRMerkleBlock"

record BRChainParams =
  dnsSeeds :: "string option list"
  standardPort :: u16
  params_magic :: u32
  params_services :: u64
  verifyDifficulty :: "BRMerkleBlock \<Rightarrow> block_ptr BRSet \<Rightarrow> bool option"
  checkpoints :: "BRCheckPoint list"

section \<open>State\<close>

definition PROTOCOL_TIMEOUT :: double where "PROTOCOL_TIMEOUT = 20"
definition MAX_CONNECT_FAILURES :: nat where "MAX_CONNECT_FAILURES = 20"
definition PEER_FLAG_SYNCED :: byte where "PEER_FLAG_SYNCED = 0x01"
definition PEER_FLAG_NEEDSUPDATE :: byte where "PEER_FLAG_NEEDSUPDATE = 0x02"
definition PEER_MAX_CONNECTIONS :: nat where "PEER_MAX_CONNECTIONS = 3"

datatype pong =
    FilterRerequestDone nat
  | FilterLoadDone nat
  | FilterPingDone nat
  | UnrelayedGetdataDone nat
  | MempoolDone nat
  | BloomLoadDone nat
  | PublishInvDone nat

type_synonym peer_ctx = "pong BRPeerContext"

datatype manager_event =
    SyncStarted
  | SyncStopped int
  | TxStatusUpdate
  | SaveBlocks bool "BRMerkleBlock list"
  | SavePeers bool "BRPeer list"
  | TxPublished nat int
  | WalletEvent wallet_event

record BRTxPeerList =
  l_txHash :: UInt256
  l_peers :: "BRPeer list"

record BRPublishedTx =
  p_tx :: BRTransaction
  p_callback :: "nat option"

record BRPeerManager =
  m_params :: BRChainParams
  m_wallet :: BRWallet
  isConnected :: bool
  connectFailureCount :: nat
  misbehavinCount :: nat
  peerThreadCount :: int
  maxConnectCount :: nat
  m_peers :: "BRPeer list"
  downloadPeer :: "nat option"
  fixedPeer :: BRPeer
  connectedPeers :: "nat list"
  m_earliestKeyTime :: u32
  syncStartHeight :: u32
  filterUpdateHeight :: u32
  estimatedHeight :: u32
  bloomFilter :: "BRBloomFilter option"
  fpRate :: double
  averageTxPerBlock :: double
  blocks :: "block_ptr BRSet"
  orphans :: "block_ptr BRSet"
  m_checkpoints :: "block_ptr BRSet"
  lastBlock :: block_ptr
  lastOrphan :: "block_ptr option"
  txRelays :: "BRTxPeerList list"
  txRequests :: "BRTxPeerList list"
  publishedTx :: "BRPublishedTx list"
  publishedTxHashes :: "UInt256 list"
  m_heap :: "nat \<Rightarrow> peer_ctx option"
  nextPeer :: nat
  freedBlocks :: "nat set"
  nextBlock :: nat
  m_draws :: nat
  m_events :: "manager_event list"

text \<open>
  What the manager finds outside: \<open>dnsLookup\<close> gives the addresses of a host and \<open>answered\<close> the hosts
  whose thread is done when the others stop waiting, \<open>dnsAge\<close> the random ages of the addresses, and
  \<open>rand k n\<close> is the \<open>k\<close>-th random number, below \<open>n\<close>.
\<close>

record manager_env =
  penv :: peer_env
  wenv :: wallet_env
  dnsLookup :: "string \<Rightarrow> UInt128 list"
  dnsAge :: "nat \<Rightarrow> u64"
  answered :: "string \<Rightarrow> bool"
  rand :: "nat \<Rightarrow> nat \<Rightarrow> nat"

definition now :: "manager_env \<Rightarrow> u64" where
  "now env = word_of_int (unixTime (penv env))"

section \<open>Lists of peers by transaction\<close>

text \<open>
  The loops run from the end of the arrays; \<open>update_last\<close> changes the last element that
  satisfies \<open>P\<close>.
\<close>

fun update_last :: "('a \<Rightarrow> bool) \<Rightarrow> ('a \<Rightarrow> 'a) \<Rightarrow> 'a list \<Rightarrow> 'a list option" where
  "update_last P f [] = None"
| "update_last P f (x # xs) =
     (case update_last P f xs of Some ys \<Rightarrow> Some (x # ys) | None \<Rightarrow> if P x then Some (f x # xs) else None)"

fun remove_last_if :: "('a \<Rightarrow> bool) \<Rightarrow> 'a list \<Rightarrow> 'a list" where
  "remove_last_if P [] = []"
| "remove_last_if P (x # xs) = (if P x \<and> \<not> (\<exists>y \<in> set xs. P y) then xs else x # remove_last_if P xs)"

definition find_last :: "('a \<Rightarrow> bool) \<Rightarrow> 'a list \<Rightarrow> 'a option" where
  "find_last P xs = List.find P (rev xs)"

definition BRTxPeerListHasPeer :: "BRTxPeerList list \<Rightarrow> UInt256 \<Rightarrow> BRPeer \<Rightarrow> bool" where
  "BRTxPeerListHasPeer list h peer =
     (case find_last (\<lambda>l. UInt256Eq (l_txHash l) h) list of None \<Rightarrow> False
      | Some l \<Rightarrow> \<exists>p \<in> set (l_peers l). BRPeerEq p peer)"

definition BRTxPeerListCount :: "BRTxPeerList list \<Rightarrow> UInt256 \<Rightarrow> nat" where
  "BRTxPeerListCount list h =
     (case find_last (\<lambda>l. UInt256Eq (l_txHash l) h) list of None \<Rightarrow> 0 | Some l \<Rightarrow> length (l_peers l))"

definition BRTxPeerListAddPeer :: "BRTxPeerList list \<Rightarrow> UInt256 \<Rightarrow> BRPeer \<Rightarrow> nat \<times> BRTxPeerList list" where
  "BRTxPeerListAddPeer list h peer =
     (case find_last (\<lambda>l. UInt256Eq (l_txHash l) h) list of
        None \<Rightarrow> (1, list @ [\<lparr>l_txHash = h, l_peers = [peer]\<rparr>])
      | Some l \<Rightarrow>
          if \<exists>p \<in> set (l_peers l). BRPeerEq p peer then (length (l_peers l), list)
          else (length (l_peers l) + 1,
            the (update_last (\<lambda>l. UInt256Eq (l_txHash l) h) (\<lambda>l. l\<lparr>l_peers := l_peers l @ [peer]\<rparr>) list)))"

definition BRTxPeerListRemovePeer :: "BRTxPeerList list \<Rightarrow> UInt256 \<Rightarrow> BRPeer \<Rightarrow> bool \<times> BRTxPeerList list" where
  "BRTxPeerListRemovePeer list h peer =
     (if BRTxPeerListHasPeer list h peer
      then (True, the (update_last (\<lambda>l. UInt256Eq (l_txHash l) h)
        (\<lambda>l. l\<lparr>l_peers := remove_last_if (\<lambda>p. BRPeerEq p peer) (l_peers l)\<rparr>) list))
      else (False, list))"

section \<open>Sets of blocks\<close>

definition BRPrevBlockHash :: "block_ptr \<Rightarrow> nat" where
  "BRPrevBlockHash b = unat (u32_of (prevBlock (snd b)) 0)"

definition BRPrevBlockEq :: "block_ptr \<Rightarrow> block_ptr \<Rightarrow> bool" where
  "BRPrevBlockEq b b' \<longleftrightarrow> UInt256Eq (prevBlock (snd b)) (prevBlock (snd b'))"

definition BRBlockHeightHash :: "block_ptr \<Rightarrow> nat" where
  "BRBlockHeightHash b = unat ((0x811C9dc5 XOR height (snd b)) * 0x01000193)"

definition BRBlockHeightEq :: "block_ptr \<Rightarrow> block_ptr \<Rightarrow> bool" where
  "BRBlockHeightEq b b' \<longleftrightarrow> height (snd b) = height (snd b')"

text \<open>A pointer to a hash, taken for a pointer to a block, whose first field is the hash.\<close>

definition hash_key :: "UInt256 \<Rightarrow> block_ptr" where
  "hash_key h = (0, BRMerkleBlockNew\<lparr>blockHash := h\<rparr>)"

definition orphan_key :: "UInt256 \<Rightarrow> block_ptr" where
  "orphan_key h = (0, BRMerkleBlockNew\<lparr>prevBlock := h\<rparr>)"

text \<open>\<open>b->field\<close>.\<close>

definition deref :: "BRPeerManager \<Rightarrow> block_ptr \<Rightarrow> BRMerkleBlock option" where
  "deref m b = (if fst b \<in> freedBlocks m then None else Some (snd b))"

definition get_block :: "BRPeerManager \<Rightarrow> UInt256 \<Rightarrow> block_ptr option option" where
  "get_block m h = BRSetGet (blocks m) (hash_key h)"

definition free_block :: "block_ptr \<Rightarrow> BRPeerManager \<Rightarrow> BRPeerManager option" where
  "free_block b m = (if fst b \<in> freedBlocks m then None else Some (m\<lparr>freedBlocks := insert (fst b) (freedBlocks m)\<rparr>))"

section \<open>Peers\<close>

definition with_peer :: "nat \<Rightarrow> (peer_ctx \<Rightarrow> peer_ctx) \<Rightarrow> BRPeerManager \<Rightarrow> BRPeerManager option" where
  "with_peer p f m = map_option (\<lambda>c. m\<lparr>m_heap := (m_heap m)(p \<mapsto> f c)\<rparr>) (m_heap m p)"

definition with_peer_opt :: "nat \<Rightarrow> (peer_ctx \<Rightarrow> peer_ctx option) \<Rightarrow> BRPeerManager \<Rightarrow> BRPeerManager option" where
  "with_peer_opt p f m =
     do {
       c \<leftarrow> m_heap m p;
       c' \<leftarrow> f c;
       Some (m\<lparr>m_heap := (m_heap m)(p \<mapsto> c')\<rparr>)
     }"

abbreviation set_flags :: "(byte \<Rightarrow> byte) \<Rightarrow> peer_ctx \<Rightarrow> peer_ctx" where
  "set_flags f c \<equiv> c\<lparr>pub := (pub c)\<lparr>peer_flags := f (peer_flags (pub c))\<rparr>\<rparr>"

definition BRPeerManagerPeerMisbehavin :: "nat \<Rightarrow> BRPeerManager \<Rightarrow> BRPeerManager option" where
  "BRPeerManagerPeerMisbehavin p m =
     do {
       c \<leftarrow> m_heap m p;
       let m = m\<lparr>m_peers := filter (\<lambda>q. \<not> BRPeerEq q (pub c)) (m_peers m)\<rparr>;
       let m = (if misbehavinCount m + 1 \<ge> 10 then m\<lparr>misbehavinCount := 0, m_peers := []\<rparr>
         else m\<lparr>misbehavinCount := misbehavinCount m + 1\<rparr>);
       with_peer p BRPeerDisconnect m
     }"

definition pending_callback :: "BRPeerManager \<Rightarrow> bool" where
  "pending_callback m \<longleftrightarrow> (\<exists>p \<in> set (publishedTx m). p_callback p \<noteq> None)"

definition BRPeerManagerSyncStopped :: "manager_env \<Rightarrow> BRPeerManager \<Rightarrow> BRPeerManager option" where
  "BRPeerManagerSyncStopped env m =
     (let m = m\<lparr>syncStartHeight := 0\<rparr>
      in case downloadPeer m of
           None \<Rightarrow> Some m
         | Some d \<Rightarrow> if pending_callback m then Some m else with_peer d (BRPeerScheduleDisconnect (penv env) (- 1)) m)"

section \<open>Transactions to publish\<close>

partial_function (option) BRPeerManagerAddTxToPublishList ::
    "BRTransaction option \<Rightarrow> nat option \<Rightarrow> BRPeerManager \<Rightarrow> BRPeerManager option" where
  "BRPeerManagerAddTxToPublishList tx k m =
     (case tx of
        None \<Rightarrow> Some m
      | Some tx \<Rightarrow>
          if blockHeight tx = TX_UNCONFIRMED \<and> \<not> (\<exists>p \<in> set (publishedTx m). txKeyEq (txHash (p_tx p)) (txHash tx))
          then for_each (inputs tx)
            (\<lambda>i m. do {
               t \<leftarrow> BRWalletTransactionForHash (m_wallet m) (in_txHash i);
               BRPeerManagerAddTxToPublishList (map_option (txs (m_wallet m)) t) None m
             })
            (m\<lparr>publishedTx := publishedTx m @ [\<lparr>p_tx = tx, p_callback = k\<rparr>],
               publishedTxHashes := publishedTxHashes m @ [txHash tx]\<rparr>)
          else Some m)"

section \<open>Block locators\<close>

text \<open>\<open>for (j = 0; block && j < step; j++) block = BRSetGet(blocks, &block->prevBlock)\<close>.\<close>

fun go_back :: "BRPeerManager \<Rightarrow> nat \<Rightarrow> block_ptr option \<Rightarrow> block_ptr option option" where
  "go_back m 0 b = Some b"
| "go_back m (Suc n) None = Some None"
| "go_back m (Suc n) (Some b) =
     do {
       block \<leftarrow> deref m b;
       b' \<leftarrow> get_block m (prevBlock block);
       go_back m n b'
     }"

text \<open>A step beyond \<open>INT32_MAX\<close> is an overflow of a signed integer.\<close>

partial_function (option) locator_loop :: "BRPeerManager \<Rightarrow> block_ptr option \<Rightarrow> nat \<Rightarrow> nat \<Rightarrow> UInt256 list option" where
  "locator_loop m b step i =
     (case b of
        None \<Rightarrow> Some []
      | Some b \<Rightarrow> do {
          block \<leftarrow> deref m b;
          if height block > 0
          then let step = (if i + 1 \<ge> 10 then 2 * step else step)
            in if step \<ge> 2 ^ 31 then None
               else do {
                 b' \<leftarrow> go_back m step (Some b);
                 hs \<leftarrow> locator_loop m b' step (i + 1);
                 Some (blockHash block # hs)
               }
          else Some []
        })"

definition genesis_block_hash :: "BRChainParams \<Rightarrow> UInt256 option" where
  "genesis_block_hash params = (case checkpoints params of [] \<Rightarrow> None | c # _ \<Rightarrow> Some (UInt256Reverse (cp_hash c)))"

text \<open>The number of locators and what is written to an array of the given length.\<close>

definition BRPeerManagerBlockLocators :: "BRPeerManager \<Rightarrow> nat option \<Rightarrow> (nat \<times> UInt256 list) option" where
  "BRPeerManagerBlockLocators m locatorsCount =
     do {
       hs \<leftarrow> locator_loop m (Some (lastBlock m)) 1 0;
       gs \<leftarrow> (case locatorsCount of None \<Rightarrow> Some []
         | Some n \<Rightarrow> if length hs < n then map_option (\<lambda>g. [g]) (genesis_block_hash (m_params m)) else Some []);
       Some (length hs + 1, case locatorsCount of None \<Rightarrow> [] | Some n \<Rightarrow> take n hs @ gs)
     }"

text \<open>The two calls of the callers.\<close>

definition block_locators :: "BRPeerManager \<Rightarrow> UInt256 list option" where
  "block_locators m =
     do {
       (n, _) \<leftarrow> BRPeerManagerBlockLocators m None;
       (count, hs) \<leftarrow> BRPeerManagerBlockLocators m (Some n);
       Some (take count hs)
     }"

end
