(* ===== verification/PeerManagerSync.thy ===== *)
theory PeerManagerSync
  imports PeerManager
begin

text \<open>
  \<^verbatim>\<open>bitcoin/BRPeerManager.c\<close>: loading Bloom filters and mempools, and the callbacks of the pings
  that wait for them.
\<close>

unbundle bit_operations_syntax

section \<open>The wallet\<close>

definition wallet_op ::
    "(BRWallet \<Rightarrow> (wallet_event list \<times> BRWallet) option) \<Rightarrow> BRPeerManager \<Rightarrow> BRPeerManager option" where
  "wallet_op f m =
     map_option (\<lambda>(evs, w). m\<lparr>m_wallet := w, m_events := m_events m @ map WalletEvent evs\<rparr>) (f (m_wallet m))"

text \<open>The two calls for an array of addresses, and for the transactions that are not confirmed.\<close>

definition all_addrs :: "BRWallet \<Rightarrow> cstring list option" where
  "all_addrs w =
     do {
       (n, _) \<leftarrow> BRWalletAllAddrs w None 0;
       (n, addrs) \<leftarrow> BRWalletAllAddrs w (Some (replicate n (replicate 75 0))) n;
       addrs \<leftarrow> addrs;
       Some (map (takeWhile (\<lambda>c. c \<noteq> 0)) (take n addrs))
     }"

definition unconfirmed_before :: "BRWallet \<Rightarrow> nat \<Rightarrow> u32 \<Rightarrow> UInt256 list" where
  "unconfirmed_before w room h =
     (let n = fst (BRWalletTxUnconfirmedBefore w None 0 h); n = (if n \<le> room then n else room)
      in case BRWalletTxUnconfirmedBefore w (Some (replicate n 0)) n h of
           (k, Some ts) \<Rightarrow> take k ts | (k, None) \<Rightarrow> [])"

section \<open>Bloom filters\<close>

definition watch :: "byte list \<Rightarrow> BRBloomFilter \<Rightarrow> BRBloomFilter option" where
  "watch data filt =
     do {
       known \<leftarrow> BRBloomFilterContainsData filt (Some data);
       if known then Some filt else BRBloomFilterInsertData filt (Some data)
     }"

definition outpoint_bytes :: "UInt256 \<Rightarrow> u32 \<Rightarrow> byte list" where
  "outpoint_bytes h n = UInt256Set h @ UInt32SetLE n"

definition watch_address :: "cstring \<Rightarrow> BRBloomFilter \<Rightarrow> BRBloomFilter option" where
  "watch_address addr filt =
     do {
       h \<leftarrow> address_pkh addr;
       if UInt160IsZero h then Some filt else watch (UInt160Set h) filt
     }"

definition watch_input :: "BRWallet \<Rightarrow> BRTxInput \<Rightarrow> BRBloomFilter \<Rightarrow> BRBloomFilter option" where
  "watch_input w i filt =
     do {
       t \<leftarrow> BRWalletTransactionForHash w (in_txHash i);
       case t of
         None \<Rightarrow> Some filt
       | Some h \<Rightarrow>
           let outs = outputs (txs w h)
           in if unat (in_index i) < length outs
              then do {
                own \<leftarrow> BRWalletContainsAddress w (out_address (outs ! unat (in_index i)));
                if own then watch (outpoint_bytes (in_txHash i) (in_index i)) filt else Some filt
              }
              else Some filt
     }"

text \<open>The filter for a wallet and a block height.\<close>

definition wallet_filter :: "BRWallet \<Rightarrow> double \<Rightarrow> u32 \<Rightarrow> u32 \<Rightarrow> BRBloomFilter option" where
  "wallet_filter w rate h twk =
     do {
       addrs \<leftarrow> all_addrs w;
       let us = utxos w;
       let ts = unconfirmed_before w SIZE_MAX (if h > 100 then h - 100 else 0);
       filt \<leftarrow> BRBloomFilterNew rate (length addrs + length us + length ts + 100) twk BLOOM_UPDATE_ALL;
       filt \<leftarrow> for_each addrs watch_address filt;
       filt \<leftarrow> for_each us (\<lambda>u. watch (outpoint_bytes (u_hash u) (u_n u))) filt;
       for_each ts (\<lambda>t. for_each (inputs (txs w t)) (watch_input w)) filt
     }"

definition filter_bytes :: "BRBloomFilter \<Rightarrow> byte list option" where
  "filter_bytes filt =
     do {
       (n, _) \<leftarrow> BRBloomFilterSerialize filt None;
       (len, data) \<leftarrow> BRBloomFilterSerialize filt (Some (replicate n 0));
       data \<leftarrow> data;
       Some (take len data)
     }"

definition clear_orphans :: "BRPeerManager \<Rightarrow> BRPeerManager option" where
  "clear_orphans m =
     map_option (\<lambda>m. m\<lparr>orphans := BRSetClear (orphans m), lastOrphan := None\<rparr>)
       (BRSetApply (orphans m) (Some m) (\<lambda>m b. Option.bind m (free_block b)))"

definition BRPeerManagerLoadBloomFilter :: "manager_env \<Rightarrow> nat \<Rightarrow> BRPeerManager \<Rightarrow> BRPeerManager option" where
  "BRPeerManagerLoadBloomFilter env p m =
     do {
       (_, _, w) \<leftarrow> BRWalletUnusedAddrs (wenv env) (m_wallet m) None (word_of_nat (SEQUENCE_GAP_LIMIT_EXTERNAL + 100)) 0;
       (_, _, w) \<leftarrow> BRWalletUnusedAddrs (wenv env) w None (word_of_nat (SEQUENCE_GAP_LIMIT_INTERNAL + 100)) 1;
       m \<leftarrow> clear_orphans (m\<lparr>m_wallet := w\<rparr>);
       top \<leftarrow> deref m (lastBlock m);
       let m = m\<lparr>filterUpdateHeight := height top, fpRate := BLOOM_REDUCED_FALSEPOSITIVE_RATE\<rparr>;
       c \<leftarrow> m_heap m p;
       filt \<leftarrow> wallet_filter w (fpRate m) (height top) (BRPeerHash (pub c));
       data \<leftarrow> filter_bytes filt;
       with_peer p (BRPeerSendFilterload (penv env) data) (m\<lparr>bloomFilter := Some filt\<rparr>)
     }"

section \<open>Requests for transactions\<close>

definition BRPeerManagerRequestUnrelayedTx :: "manager_env \<Rightarrow> nat \<Rightarrow> BRPeerManager \<Rightarrow> BRPeerManager option" where
  "BRPeerManagerRequestUnrelayedTx env p m =
     do {
       c \<leftarrow> m_heap m p;
       let (hs, requests) = fold (\<lambda>h (hs, requests).
           if \<not> BRTxPeerListHasPeer (txRelays m) h (pub c) \<and> \<not> BRTxPeerListHasPeer requests h (pub c)
           then (hs @ [h], snd (BRTxPeerListAddPeer requests h (pub c))) else (hs, requests))
         (unconfirmed_before (m_wallet m) SIZE_MAX TX_UNCONFIRMED) ([], txRequests m);
       let m = m\<lparr>txRequests := requests\<rparr>;
       if hs \<noteq> []
       then do {
         m \<leftarrow> with_peer p (BRPeerSendGetdata (penv env) hs []) m;
         if peer_flags (pub c) AND PEER_FLAG_SYNCED = 0
         then with_peer p (BRPeerSendPing (penv env) (Some (UnrelayedGetdataDone p))) m else Some m
       }
       else with_peer p (set_flags (\<lambda>f. f OR PEER_FLAG_SYNCED)) m
     }"

text \<open>The number of connected peers when all are synchronised, else 0.\<close>

fun synced_count :: "BRPeerManager \<Rightarrow> nat \<Rightarrow> nat list \<Rightarrow> nat option" where
  "synced_count m count [] = Some count"
| "synced_count m count (q # qs) =
     do {
       c \<leftarrow> m_heap m q;
       if peer_flags (pub c) AND PEER_FLAG_SYNCED \<noteq> 0
       then synced_count m (if status c = Connected then count + 1 else count) qs else Some 0
     }"

definition drop_unrelayed :: "manager_env \<Rightarrow> UInt256 \<Rightarrow> BRPeerManager \<Rightarrow> BRPeerManager option" where
  "drop_unrelayed env h m =
     (let isPublishing = (\<exists>p \<in> set (publishedTx m). txKeyEq (txHash (p_tx p)) h \<and> p_callback p \<noteq> None)
      in if \<not> isPublishing \<and> BRTxPeerListCount (txRelays m) h = 0 \<and> BRTxPeerListCount (txRequests m) h = 0
         then if blockHeight (txs (m_wallet m) h) = TX_UNCONFIRMED
              then wallet_op (\<lambda>w. BRWalletRemoveTransaction (wenv env) w h) m else None
         else if \<not> isPublishing \<and> BRTxPeerListCount (txRelays m) h < maxConnectCount m
         then wallet_op (\<lambda>w. BRWalletUpdateTransactions (wenv env) w [h] TX_UNCONFIRMED 0) m
         else Some m)"

definition requestUnrelayedTxGetdataDone :: "manager_env \<Rightarrow> nat \<Rightarrow> bool \<Rightarrow> BRPeerManager \<Rightarrow> BRPeerManager option" where
  "requestUnrelayedTxGetdataDone env p success m =
     do {
       m \<leftarrow> (if success then with_peer p (set_flags (\<lambda>f. f OR PEER_FLAG_SYNCED)) m else Some m);
       count \<leftarrow> synced_count m 0 (rev (connectedPeers m));
       if count \<ge> maxConnectCount m
       then for_each (rev (unconfirmed_before (m_wallet m) 512 TX_UNCONFIRMED)) (drop_unrelayed env) m
       else Some m
     }"

definition BRPeerManagerPublishPendingTx :: "manager_env \<Rightarrow> nat \<Rightarrow> BRPeerManager \<Rightarrow> BRPeerManager option" where
  "BRPeerManagerPublishPendingTx env p m =
     do {
       m \<leftarrow> (if pending_callback m then with_peer p (BRPeerScheduleDisconnect (penv env) PROTOCOL_TIMEOUT) m else Some m);
       with_peer_opt p (BRPeerSendInv (penv env) (publishedTxHashes m)) m
     }"

section \<open>Mempools\<close>

definition mempoolDone :: "manager_env \<Rightarrow> nat \<Rightarrow> bool \<Rightarrow> BRPeerManager \<Rightarrow> BRPeerManager option" where
  "mempoolDone env p success m =
     (if success
      then do {
        let syncFinished = (syncStartHeight m > 0);
        m \<leftarrow> (if syncFinished then BRPeerManagerSyncStopped env m else Some m);
        m \<leftarrow> BRPeerManagerRequestUnrelayedTx env p m;
        m \<leftarrow> with_peer p (BRPeerSendGetaddr (penv env)) m;
        Some (m\<lparr>m_events := m_events m @ [TxStatusUpdate] @ (if syncFinished then [SyncStopped 0] else [])\<rparr>)
      }
      else Some m)"

text \<open>A request that was sent before calls the completion callback at once.\<close>

definition send_mempool :: "manager_env \<Rightarrow> nat \<Rightarrow> UInt256 list \<Rightarrow> pong option \<Rightarrow> BRPeerManager \<Rightarrow> BRPeerManager option" where
  "send_mempool env p hs completion m =
     do {
       c \<leftarrow> m_heap m p;
       (now, c) \<leftarrow> BRPeerSendMempool (penv env) hs completion c;
       let m = m\<lparr>m_heap := (m_heap m)(p \<mapsto> c)\<rparr>;
       case now of Some (MempoolDone q) \<Rightarrow> mempoolDone env q False m | _ \<Rightarrow> Some m
     }"

definition loadBloomFilterDone :: "manager_env \<Rightarrow> nat \<Rightarrow> bool \<Rightarrow> BRPeerManager \<Rightarrow> BRPeerManager option" where
  "loadBloomFilterDone env p success m =
     (if success then send_mempool env p (publishedTxHashes m) (Some (MempoolDone p)) m
      else if downloadPeer m = Some p
      then map_option (\<lambda>m. m\<lparr>m_events := m_events m @ [SyncStopped 0]\<rparr>) (BRPeerManagerSyncStopped env m)
      else Some m)"

definition load_mempool :: "manager_env \<Rightarrow> nat \<Rightarrow> BRPeerManager \<Rightarrow> BRPeerManager option" where
  "load_mempool env p m =
     do {
       c \<leftarrow> m_heap m p;
       if status c \<noteq> Connected then Some m
       else if downloadPeer m \<noteq> Some p \<or> fpRate m > BLOOM_REDUCED_FALSEPOSITIVE_RATE * 5
       then do {
         m \<leftarrow> BRPeerManagerLoadBloomFilter env p m;
         m \<leftarrow> BRPeerManagerPublishPendingTx env p m;
         with_peer p (BRPeerSendPing (penv env) (Some (BloomLoadDone p))) m
       }
       else send_mempool env p (publishedTxHashes m) (Some (MempoolDone p)) m
     }"

definition BRPeerManagerLoadMempools :: "manager_env \<Rightarrow> BRPeerManager \<Rightarrow> BRPeerManager option" where
  "BRPeerManagerLoadMempools env m = for_each (rev (connectedPeers m)) (load_mempool env) m"

section \<open>Updating the filter\<close>

definition updateFilterRerequestDone :: "manager_env \<Rightarrow> nat \<Rightarrow> bool \<Rightarrow> BRPeerManager \<Rightarrow> BRPeerManager option" where
  "updateFilterRerequestDone env p success m =
     (if success
      then do {
        c \<leftarrow> m_heap m p;
        if peer_flags (pub c) AND PEER_FLAG_NEEDSUPDATE = 0
        then do {
          hs \<leftarrow> block_locators m;
          with_peer p (BRPeerSendGetblocks (penv env) hs 0) m
        }
        else Some m
      }
      else Some m)"

definition updateFilterLoadDone :: "manager_env \<Rightarrow> nat \<Rightarrow> bool \<Rightarrow> BRPeerManager \<Rightarrow> BRPeerManager option" where
  "updateFilterLoadDone env p success m =
     (if success
      then do {
        m \<leftarrow> with_peer p (\<lambda>c. set_flags (\<lambda>f. f AND NOT PEER_FLAG_NEEDSUPDATE) (BRPeerSetNeedsFilterUpdate False c)) m;
        top \<leftarrow> deref m (lastBlock m);
        if height top < estimatedHeight m
        then case downloadPeer m of
            None \<Rightarrow> Some m
          | Some d \<Rightarrow> do {
              m \<leftarrow> with_peer d (BRPeerRerequestBlocks (penv env) (blockHash top)) m;
              with_peer d (BRPeerSendPing (penv env) (Some (FilterRerequestDone p))) m
            }
        else send_mempool env p [] None m
      }
      else Some m)"

text \<open>The ping to the download peer keeps the peer of the callback's argument.\<close>

definition updateFilterPingDone :: "manager_env \<Rightarrow> nat \<Rightarrow> bool \<Rightarrow> BRPeerManager \<Rightarrow> BRPeerManager option" where
  "updateFilterPingDone env p success m =
     (if success
      then do {
        let m = m\<lparr>bloomFilter := None\<rparr>;
        top \<leftarrow> deref m (lastBlock m);
        if height top < estimatedHeight m
        then case downloadPeer m of
            None \<Rightarrow> Some m
          | Some d \<Rightarrow> do {
              m \<leftarrow> BRPeerManagerLoadBloomFilter env d m;
              with_peer d (BRPeerSendPing (penv env) (Some (FilterLoadDone p))) m
            }
        else for_each (rev (connectedPeers m))
          (\<lambda>q m. do {
             c \<leftarrow> m_heap m q;
             if status c \<noteq> Connected then Some m
             else do {
               m \<leftarrow> BRPeerManagerLoadBloomFilter env q m;
               with_peer q (BRPeerSendPing (penv env) (Some (FilterLoadDone q))) m
             }
           }) m
      }
      else Some m)"

definition BRPeerManagerUpdateFilter :: "manager_env \<Rightarrow> BRPeerManager \<Rightarrow> BRPeerManager option" where
  "BRPeerManagerUpdateFilter env m =
     (case downloadPeer m of
        None \<Rightarrow> Some m
      | Some d \<Rightarrow> do {
          c \<leftarrow> m_heap m d;
          if peer_flags (pub c) AND PEER_FLAG_NEEDSUPDATE = 0
          then with_peer d (\<lambda>c. BRPeerSendPing (penv env) (Some (FilterPingDone d))
            (set_flags (\<lambda>f. f OR PEER_FLAG_NEEDSUPDATE) (BRPeerSetNeedsFilterUpdate True c))) m
          else Some m
        })"

definition publishTxInvDone :: "manager_env \<Rightarrow> nat \<Rightarrow> bool \<Rightarrow> BRPeerManager \<Rightarrow> BRPeerManager option" where
  "publishTxInvDone env p success m = BRPeerManagerRequestUnrelayedTx env p m"

text \<open>The call through the function pointer of a ping.\<close>

fun run_closure :: "manager_env \<Rightarrow> pong \<Rightarrow> bool \<Rightarrow> BRPeerManager \<Rightarrow> BRPeerManager option" where
  "run_closure env (FilterRerequestDone p) success m = updateFilterRerequestDone env p success m"
| "run_closure env (FilterLoadDone p) success m = updateFilterLoadDone env p success m"
| "run_closure env (FilterPingDone p) success m = updateFilterPingDone env p success m"
| "run_closure env (UnrelayedGetdataDone p) success m = requestUnrelayedTxGetdataDone env p success m"
| "run_closure env (MempoolDone p) success m = mempoolDone env p success m"
| "run_closure env (BloomLoadDone p) success m = loadBloomFilterDone env p success m"
| "run_closure env (PublishInvDone p) success m = publishTxInvDone env p success m"

end
