(* ===== verification/PeerManagerPeers.thy ===== *)
theory PeerManagerPeers
  imports PeerManagerSync PeerThread
begin

text \<open>
  \<^verbatim>\<open>bitcoin/BRPeerManager.c\<close>: finding peers and connecting to them, and what the manager does when
  a peer connects, disconnects, or passes on peers, transactions and fee rates.
\<close>

unbundle bit_operations_syntax

definition ENETUNREACH :: int where "ENETUNREACH = 101"
definition EINVAL :: int where "EINVAL = 22"
definition MAX_FEE_PER_KB :: u64 where "MAX_FEE_PER_KB = (TX_FEE_PER_KB * 1000100 + 190) div 191"

definition event :: "manager_event \<Rightarrow> BRPeerManager \<Rightarrow> BRPeerManager" where
  "event e m = m\<lparr>m_events := m_events m @ [e]\<rparr>"

section \<open>Finding peers\<close>

text \<open>\<open>qsort\<close> with \<open>_peerTimestampCompare\<close>, most recent first; peers with equal timestamps keep their order.\<close>

definition sort_peers :: "BRPeer list \<Rightarrow> BRPeer list" where
  "sort_peers ps = sort_key (\<lambda>p. - int (unat (peer_timestamp p))) ps"

text \<open>The names from index \<open>i\<close> up to the NULL that ends the array; reading beyond the array is \<open>None\<close>.\<close>

fun seeds_until_null :: "string option list \<Rightarrow> string list option" where
  "seeds_until_null [] = None"
| "seeds_until_null (None # ss) = Some []"
| "seeds_until_null (Some s # ss) = map_option ((#) s) (seeds_until_null ss)"

definition found_peer :: "BRPeerManager \<Rightarrow> u64 \<Rightarrow> u64 \<Rightarrow> UInt128 \<Rightarrow> BRPeer" where
  "found_peer m services time addr =
     \<lparr>peer_address = addr, peer_port = standardPort (m_params m), peer_services = services, peer_timestamp = time, peer_flags = 0\<rparr>"

definition addresses :: "manager_env \<Rightarrow> string \<Rightarrow> UInt128 list" where
  "addresses env host = takeWhile (\<lambda>a. \<not> UInt128IsZero a) (dnsLookup env host)"

definition BRPeerManagerFindPeers :: "manager_env \<Rightarrow> BRPeerManager \<Rightarrow> BRPeerManager option" where
  "BRPeerManagerFindPeers env m =
     (let services = SERVICES_NODE_NETWORK OR SERVICES_NODE_BLOOM OR params_services (m_params m)
      in if \<not> UInt128IsZero (peer_address (fixedPeer m))
         then Some (m\<lparr>m_peers := [(fixedPeer m)\<lparr>peer_services := services, peer_timestamp := now env\<rparr>]\<rparr>)
         else do {
           others \<leftarrow> seeds_until_null (drop 1 (dnsSeeds (m_params m)));
           first \<leftarrow> (case dnsSeeds (m_params m) of Some s # _ \<Rightarrow> Some s | _ \<Rightarrow> None);
           let here = map (found_peer m services (now env)) (addresses env first);
           let later = concat (map (addresses env) (filter (answered env) others));
           let there = map (\<lambda>(k, a). found_peer m services (now env - dnsAge env k) a) (enumerate 0 later);
           Some (m\<lparr>m_peers := sort_peers (m_peers m @ here @ there)\<rparr>)
         })"

section \<open>Connecting\<close>

text \<open>
  A peer that has been disconnected is forgotten; the result says whether another one is to be
  connected.
\<close>

definition forget_peer :: "BRPeer \<Rightarrow> BRPeer list \<Rightarrow> BRPeer list" where
  "forget_peer bp ps = filter (\<lambda>q. \<not> BRPeerEq q bp) ps"

definition cancel_published :: "int \<Rightarrow> BRPeerManager \<Rightarrow> manager_event list \<times> BRPeerManager" where
  "cancel_published err m =
     (concat (map (\<lambda>p. case p_callback p of None \<Rightarrow> [] | Some k \<Rightarrow> [TxPublished k err]) (rev (publishedTx m))),
      m\<lparr>publishedTx := map (\<lambda>p. p\<lparr>p_callback := None\<rparr>) (publishedTx m)\<rparr>)"

definition disconnect_peer :: "manager_env \<Rightarrow> nat \<Rightarrow> int \<Rightarrow> BRPeerManager \<Rightarrow> (bool \<times> BRPeerManager) option" where
  "disconnect_peer env p err m =
     do {
       c \<leftarrow> m_heap m p;
       m \<leftarrow> (if err = EPROTO then BRPeerManagerPeerMisbehavin p m
         else if err \<noteq> 0
         then Some (m\<lparr>m_peers := forget_peer (pub c) (m_peers m), connectFailureCount := connectFailureCount m + 1\<rparr>)
         else Some m);
       let txError = (if err = ETIMEDOUT \<and> (downloadPeer m \<noteq> Some p \<or> syncStartHeight m = 0 \<or> length (connectedPeers m) = 1)
         then ETIMEDOUT else 0);
       let m = m\<lparr>txRelays := map (\<lambda>l. l\<lparr>l_peers := forget_peer (pub c) (l_peers l)\<rparr>) (txRelays m)\<rparr>;
       let m = (if downloadPeer m = Some p
         then m\<lparr>isConnected := False, downloadPeer := None,
           connectFailureCount := (if connectFailureCount m > MAX_CONNECT_FAILURES then MAX_CONNECT_FAILURES else connectFailureCount m)\<rparr>
         else m);
       let failed = (\<not> isConnected m \<and> connectFailureCount m = MAX_CONNECT_FAILURES);
       let willReconnect = (\<not> failed \<and> connectFailureCount m < MAX_CONNECT_FAILURES);
       m \<leftarrow> (if failed then map_option (\<lambda>m. m\<lparr>m_peers := []\<rparr>) (BRPeerManagerSyncStopped env m) else Some m);
       let txError = (if failed then ENOTCONN else txError);
       let (evs, m) = (if txError \<noteq> 0 then cancel_published txError m else ([], m));
       let m = m\<lparr>connectedPeers := remove_last_if (\<lambda>q. q = p) (connectedPeers m), m_heap := (m_heap m)(p := None)\<rparr>;
       Some (willReconnect,
         m\<lparr>m_events := m_events m @ evs @ (if failed then [SavePeers True [], SyncStopped err] else [])\<rparr>)
     }"

definition reconnect :: "nat \<Rightarrow> peer_env \<Rightarrow> BRPeerManager \<Rightarrow> BRPeerManager option" where
  "reconnect p env m =
     do {
       c \<leftarrow> m_heap m p;
       if status c = Connecting then with_peer p (\<lambda>c. snd (BRPeerConnect env c)) m else Some m
     }"

definition is_stale :: "manager_env \<Rightarrow> BRPeer \<Rightarrow> bool" where
  "is_stale env bp \<longleftrightarrow> peer_timestamp bp + 3 * 24 * 60 * 60 < now env"

definition new_peer :: "manager_env \<Rightarrow> BRPeer \<Rightarrow> BRPeerManager \<Rightarrow> nat \<times> BRPeerManager" where
  "new_peer env bp m =
     (let p = nextPeer m;
          c = (BRPeerNew (params_magic (m_params m)))\<lparr>pub := bp\<rparr>;
          c = BRPeerSetEarliestKeyTime (m_earliestKeyTime m) c;
          c = snd (BRPeerConnect (penv env) c)
      in (p, m\<lparr>connectedPeers := connectedPeers m @ [p], peerThreadCount := peerThreadCount m + 1,
        m_heap := (m_heap m)(p \<mapsto> c), nextPeer := p + 1\<rparr>))"

text \<open>
  \<open>BRPeerManagerConnect\<close> is \<open>None\<close>, and the loop over a copy of the known peers is \<open>Some\<close> of
  what is left of the copy.  The two call each other when a thread cannot be started.
\<close>

partial_function (option) connect_stage :: "manager_env \<Rightarrow> BRPeer list option \<Rightarrow> BRPeerManager \<Rightarrow> BRPeerManager option" where
  "connect_stage env stage m =
     (case stage of
        None \<Rightarrow> do {
          let m = (if connectFailureCount m \<ge> MAX_CONNECT_FAILURES then m\<lparr>connectFailureCount := 0\<rparr> else m);
          top \<leftarrow> deref m (lastBlock m);
          let m = (if (downloadPeer m = None \<or> height top < estimatedHeight m) \<and> syncStartHeight m = 0
            then event SyncStarted (m\<lparr>syncStartHeight := height top + 1\<rparr>) else m);
          m \<leftarrow> for_each (rev (connectedPeers m)) (\<lambda>p. reconnect p (penv env)) m;
          m \<leftarrow> (if length (connectedPeers m) < maxConnectCount m
            then do {
              m \<leftarrow> (if length (m_peers m) < maxConnectCount m \<or> is_stale env (m_peers m ! (maxConnectCount m - 1))
                then BRPeerManagerFindPeers env m else Some m);
              connect_stage env (Some (take 100 (m_peers m))) m
            }
            else Some m);
          if connectedPeers m = []
          then map_option (event (SyncStopped ENETUNREACH)) (BRPeerManagerSyncStopped env m) else Some m
        }
      | Some peers \<Rightarrow>
          if peers = [] \<or> length (connectedPeers m) \<ge> maxConnectCount m then Some m
          else do {
            let i = rand env (m_draws m) (length peers);
            let m = m\<lparr>m_draws := m_draws m + 1\<rparr>;
            let i = i * i div length peers;
            bp \<leftarrow> (if i < length peers then Some (peers ! i) else None);
            known \<leftarrow> any_loop (\<lambda>p. map_option (\<lambda>c. BRPeerEq bp (pub c)) (m_heap m p)) (rev (connectedPeers m));
            let rest = take i peers @ drop (i + 1) peers;
            m \<leftarrow> (if known then Some m
              else do {
                let (p, m) = new_peer env bp m;
                c \<leftarrow> m_heap m p;
                if status c = Disconnected
                then do {
                  (willReconnect, m) \<leftarrow> disconnect_peer env p ENOTCONN m;
                  m \<leftarrow> (if willReconnect then connect_stage env None m else Some m);
                  Some (event TxStatusUpdate (m\<lparr>peerThreadCount := peerThreadCount m - 1\<rparr>))
                }
                else Some m
              });
            connect_stage env (Some rest) m
          })"

definition BRPeerManagerConnect :: "manager_env \<Rightarrow> BRPeerManager \<Rightarrow> BRPeerManager option" where
  "BRPeerManagerConnect env m = connect_stage env None m"

definition peerDisconnected :: "manager_env \<Rightarrow> nat \<Rightarrow> int \<Rightarrow> BRPeerManager \<Rightarrow> BRPeerManager option" where
  "peerDisconnected env p err m =
     do {
       (willReconnect, m) \<leftarrow> disconnect_peer env p err m;
       m \<leftarrow> (if willReconnect then BRPeerManagerConnect env m else Some m);
       Some (event TxStatusUpdate m)
     }"

definition peerThreadCleanup :: "BRPeerManager \<Rightarrow> BRPeerManager" where
  "peerThreadCleanup m = m\<lparr>peerThreadCount := peerThreadCount m - 1\<rparr>"

end
