(* ===== verification/PeerManagerRelay.thy ===== *)
theory PeerManagerRelay
  imports PeerManagerPeers
begin

text \<open>
  \<^verbatim>\<open>bitcoin/BRPeerManager.c\<close>: what the manager does when a peer has connected, and with the peers,
  transactions, rejections and fee rates that peers relay.
\<close>

unbundle bit_operations_syntax

definition REJECT_SPENT :: byte where "REJECT_SPENT = 0x12"

section \<open>A new connection\<close>

text \<open>The timestamp of a peer whose clock is off by more than two hours is replaced.\<close>

definition checked_time :: "u64 \<Rightarrow> u64 \<Rightarrow> u64" where
  "checked_time time t = (if t > time + 2 * 60 * 60 \<or> t < time - 2 * 60 * 60 then time else t)"

definition unsuitable :: "BRPeerManager \<Rightarrow> u32 \<Rightarrow> peer_ctx \<Rightarrow> bool" where
  "unsuitable m h c \<longleftrightarrow>
     peer_services (pub c) AND params_services (m_params m) \<noteq> params_services (m_params m) \<or>
     peer_services (pub c) AND SERVICES_NODE_NETWORK \<noteq> SERVICES_NODE_NETWORK \<or>
     lastblock c + 10 < h \<or>
     ctx_version c \<ge> 70011 \<and> peer_services (pub c) AND SERVICES_NODE_BLOOM \<noteq> SERVICES_NODE_BLOOM"

text \<open>The loop that looks for a peer with a lower ping time, or that knows more blocks.\<close>

fun best_peer :: "BRPeerManager \<Rightarrow> nat \<Rightarrow> nat list \<Rightarrow> nat option" where
  "best_peer m p [] = Some p"
| "best_peer m p (q # qs) =
     do {
       c \<leftarrow> m_heap m p;
       d \<leftarrow> m_heap m q;
       best_peer m (if status d = Connected \<and>
         (pingTime d < pingTime c \<and> lastblock d \<ge> lastblock c \<or> lastblock d > lastblock c) then q else p) qs
     }"

definition start_sync :: "manager_env \<Rightarrow> nat \<Rightarrow> BRPeerManager \<Rightarrow> BRPeerManager option" where
  "start_sync env p m =
     do {
       hs \<leftarrow> block_locators m;
       top \<leftarrow> deref m (lastBlock m);
       m \<leftarrow> with_peer p (BRPeerScheduleDisconnect (penv env) PROTOCOL_TIMEOUT) m;
       with_peer p (if timestamp top + 7 * 24 * 60 * 60 \<ge> m_earliestKeyTime m
         then BRPeerSendGetblocks (penv env) hs 0 else BRPeerSendGetheaders (penv env) hs 0) m
     }"

definition select_download_peer :: "manager_env \<Rightarrow> nat \<Rightarrow> BRPeerManager \<Rightarrow> BRPeerManager option" where
  "select_download_peer env p m =
     do {
       p \<leftarrow> best_peer m p (rev (connectedPeers m));
       m \<leftarrow> (case downloadPeer m of None \<Rightarrow> Some m | Some d \<Rightarrow> with_peer d BRPeerDisconnect m);
       c \<leftarrow> m_heap m p;
       let m = m\<lparr>downloadPeer := Some p, isConnected := True, estimatedHeight := lastblock c\<rparr>;
       m \<leftarrow> BRPeerManagerLoadBloomFilter env p m;
       top \<leftarrow> deref m (lastBlock m);
       m \<leftarrow> with_peer p (BRPeerSetCurrentBlockHeight (height top)) m;
       m \<leftarrow> BRPeerManagerPublishPendingTx env p m;
       if height top < lastblock c then start_sync env p m
       else BRPeerManagerLoadMempools env (m\<lparr>connectFailureCount := 0\<rparr>)
     }"

definition peerConnected :: "manager_env \<Rightarrow> nat \<Rightarrow> BRPeerManager \<Rightarrow> BRPeerManager option" where
  "peerConnected env p m =
     do {
       m \<leftarrow> with_peer p (\<lambda>c. c\<lparr>pub := (pub c)\<lparr>peer_timestamp := checked_time (now env) (peer_timestamp (pub c))\<rparr>\<rparr>) m;
       c \<leftarrow> m_heap m p;
       top \<leftarrow> deref m (lastBlock m);
       stay \<leftarrow> (case downloadPeer m of None \<Rightarrow> Some False
         | Some d \<Rightarrow> map_option (\<lambda>dc. lastblock dc \<ge> lastblock c \<or> height top \<ge> lastblock c) (m_heap m d));
       if unsuitable m (height top) c then with_peer p BRPeerDisconnect m
       else if stay
       then if height top \<ge> lastblock c
         then do {
           m \<leftarrow> BRPeerManagerLoadBloomFilter env p (m\<lparr>connectFailureCount := 0\<rparr>);
           m \<leftarrow> BRPeerManagerPublishPendingTx env p m;
           with_peer p (BRPeerSendPing (penv env) (Some (BloomLoadDone p))) m
         }
         else Some m
       else select_download_peer env p m
     }"

section \<open>Relayed peers\<close>

text \<open>Peers more than three hours old are dropped from the end, down to 1000.\<close>

fun trim_peers :: "u64 \<Rightarrow> BRPeer list \<Rightarrow> nat \<Rightarrow> nat" where
  "trim_peers time ps 0 = 0"
| "trim_peers time ps (Suc n) =
     (if Suc n > 1000 \<and> peer_timestamp (ps ! n) + 3 * 60 * 60 < time then trim_peers time ps n else Suc n)"

definition peerRelayedPeers :: "manager_env \<Rightarrow> BRPeer list \<Rightarrow> BRPeerManager \<Rightarrow> BRPeerManager" where
  "peerRelayedPeers env peers m =
     (let ps = take 2500 (sort_peers (m_peers m @ peers));
          ps = take (trim_peers (now env) ps (length ps)) ps;
          m = m\<lparr>m_peers := ps\<rparr>
      in if length ps > 1 \<and> length ps < 1000 then event (SavePeers True ps) m else m)"

section \<open>Published transactions\<close>

text \<open>
  The loop over the published transactions: the one with the hash, whose callback is taken
  over, and whether others have a callback.
\<close>

definition with_hashes :: "BRPeerManager \<Rightarrow> (BRPublishedTx \<times> UInt256) list" where
  "with_hashes m = zip (publishedTx m) (publishedTxHashes m)"

definition published_with :: "UInt256 \<Rightarrow> BRPeerManager \<Rightarrow> BRPublishedTx option" where
  "published_with h m = map_option fst (List.find (\<lambda>(p, h'). UInt256Eq h' h) (with_hashes m))"

definition others_pending :: "UInt256 \<Rightarrow> BRPeerManager \<Rightarrow> bool" where
  "others_pending h m \<longleftrightarrow> (\<exists>(p, h') \<in> set (with_hashes m). \<not> UInt256Eq h' h \<and> p_callback p \<noteq> None)"

definition clear_callback :: "UInt256 \<Rightarrow> BRPeerManager \<Rightarrow> BRPeerManager" where
  "clear_callback h m =
     m\<lparr>publishedTx := map (\<lambda>(p, h'). if UInt256Eq h' h then p\<lparr>p_callback := None\<rparr> else p) (with_hashes m)\<rparr>"

definition add_relay :: "UInt256 \<Rightarrow> BRPeer \<Rightarrow> BRPeerManager \<Rightarrow> nat \<times> BRPeerManager" where
  "add_relay h bp m = map_prod id (\<lambda>l. m\<lparr>txRelays := l\<rparr>) (BRTxPeerListAddPeer (txRelays m) h bp)"

definition remove_request :: "UInt256 \<Rightarrow> BRPeer \<Rightarrow> BRPeerManager \<Rightarrow> BRPeerManager" where
  "remove_request h bp m = m\<lparr>txRequests := snd (BRTxPeerListRemovePeer (txRequests m) h bp)\<rparr>"

definition published_event :: "BRPublishedTx option \<Rightarrow> int \<Rightarrow> BRPeerManager \<Rightarrow> BRPeerManager" where
  "published_event pt err m =
     (case Option.bind pt p_callback of None \<Rightarrow> m | Some k \<Rightarrow> event (TxPublished k err) m)"

text \<open>The timeout for publishing ends when nothing is left to publish and the peer does not sync.\<close>

definition cancel_timeout :: "manager_env \<Rightarrow> nat \<Rightarrow> bool \<Rightarrow> BRPeerManager \<Rightarrow> BRPeerManager option" where
  "cancel_timeout env p hasPending m =
     (if \<not> hasPending \<and> (syncStartHeight m = 0 \<or> downloadPeer m \<noteq> Some p)
      then with_peer p (BRPeerScheduleDisconnect (penv env) (- 1)) m else Some m)"

definition register :: "manager_env \<Rightarrow> BRTransaction \<Rightarrow> BRPeerManager \<Rightarrow> (bool \<times> BRPeerManager) option" where
  "register env tx m =
     map_option (\<lambda>(r, evs, w). (r, m\<lparr>m_wallet := w, m_events := m_events m @ map WalletEvent evs\<rparr>))
       (BRWalletRegisterTransaction (wenv env) (m_wallet m) tx)"

text \<open>\<open>tx\<close> after a registration: the wallet's own object when it is a transaction of the wallet.\<close>

definition own_object :: "bool \<Rightarrow> BRTransaction \<Rightarrow> BRPeerManager \<Rightarrow> BRTransaction option option" where
  "own_object isWalletTx tx m =
     (if isWalletTx then map_option (map_option (txs (m_wallet m))) (BRWalletTransactionForHash (m_wallet m) (txHash tx))
      else Some (Some tx))"

definition mark_verified :: "manager_env \<Rightarrow> nat \<Rightarrow> BRTransaction option \<Rightarrow> UInt256 \<Rightarrow> BRPeerManager \<Rightarrow> BRPeerManager option" where
  "mark_verified env relayCount tx h m =
     (case tx of
        None \<Rightarrow> Some m
      | Some tx \<Rightarrow>
          if relayCount \<ge> maxConnectCount m \<and> blockHeight tx = TX_UNCONFIRMED \<and> tx_timestamp tx = 0
          then wallet_op (\<lambda>w. BRWalletUpdateTransactions (wenv env) w [h] TX_UNCONFIRMED (ucast (now env))) m
          else Some m)"

section \<open>Relayed transactions\<close>

text \<open>Whether one of the next unused addresses is not in the filter.\<close>

definition needs_new_filter :: "manager_env \<Rightarrow> BRBloomFilter \<Rightarrow> BRWallet \<Rightarrow> (bool \<times> BRWallet) option" where
  "needs_new_filter env filt w =
     do {
       (_, ext, w) \<leftarrow> BRWalletUnusedAddrs (wenv env) w (Some (replicate SEQUENCE_GAP_LIMIT_EXTERNAL (replicate 75 0)))
         (word_of_nat SEQUENCE_GAP_LIMIT_EXTERNAL) 0;
       (_, int, w) \<leftarrow> BRWalletUnusedAddrs (wenv env) w (Some (replicate SEQUENCE_GAP_LIMIT_INTERNAL (replicate 75 0)))
         (word_of_nat SEQUENCE_GAP_LIMIT_INTERNAL) 1;
       ext \<leftarrow> ext;
       int \<leftarrow> int;
       r \<leftarrow> any_loop (\<lambda>a. case BRAddressHash160 (takeWhile (\<lambda>c. c \<noteq> 0) a) of
           None \<Rightarrow> Some False
         | Some h \<Rightarrow> map_option Not (BRBloomFilterContainsData filt (Some h))) (ext @ int);
       Some (r, w)
     }"

definition relayed_wallet_tx :: "manager_env \<Rightarrow> nat \<Rightarrow> BRTransaction \<Rightarrow> nat \<Rightarrow> BRPeerManager \<Rightarrow> (nat \<times> BRPeerManager) option" where
  "relayed_wallet_tx env p tx relayCount m =
     do {
       m \<leftarrow> (if syncStartHeight m > 0 \<and> downloadPeer m = Some p
         then with_peer p (BRPeerScheduleDisconnect (penv env) PROTOCOL_TIMEOUT) m else Some m);
       amount \<leftarrow> BRWalletAmountSentByTx (m_wallet m) tx;
       valid \<leftarrow> (if amount > 0 then BRWalletTransactionIsValid (m_wallet m) tx else Some False);
       m \<leftarrow> (if valid then BRPeerManagerAddTxToPublishList (Some tx) None m else Some m);
       c \<leftarrow> m_heap m p;
       let (relayCount, m) = (if syncStartHeight m = 0 then add_relay (txHash tx) (pub c) m else (relayCount, m));
       let m = remove_request (txHash tx) (pub c) m;
       m \<leftarrow> (case bloomFilter m of
           None \<Rightarrow> Some m
         | Some filt \<Rightarrow> do {
             (new, w) \<leftarrow> needs_new_filter env filt (m_wallet m);
             let m = m\<lparr>m_wallet := w\<rparr>;
             if new then BRPeerManagerUpdateFilter env (m\<lparr>bloomFilter := None\<rparr>) else Some m
           });
       Some (relayCount, m)
     }"

definition peerRelayedTx :: "manager_env \<Rightarrow> nat \<Rightarrow> BRTransaction \<Rightarrow> BRPeerManager \<Rightarrow> BRPeerManager option" where
  "peerRelayedTx env p tx m =
     do {
       c \<leftarrow> m_heap m p;
       let pt = published_with (txHash tx) m;
       let hasPending = others_pending (txHash tx) m;
       let m = clear_callback (txHash tx) m;
       let (relayCount, m) = (if pt \<noteq> None then add_relay (txHash tx) (pub c) m else (0, m));
       m \<leftarrow> cancel_timeout env p hasPending m;
       wanted \<leftarrow> (if syncStartHeight m = 0 then Some True else BRWalletContainsTransaction (m_wallet m) tx);
       if wanted
       then do {
         (isWalletTx, m) \<leftarrow> register env tx m;
         own \<leftarrow> own_object isWalletTx tx m;
         (relayCount, m) \<leftarrow> (case own of
             Some tx \<Rightarrow> if isWalletTx then relayed_wallet_tx env p tx relayCount m else Some (relayCount, m)
           | None \<Rightarrow> Some (relayCount, m));
         m \<leftarrow> mark_verified env relayCount (map_option (\<lambda>t. if isWalletTx then txs (m_wallet m) (txHash t) else t) own) (txHash tx) m;
         Some (published_event pt 0 m)
       }
       else Some (published_event pt 0 m)
     }"

definition peerHasTx :: "manager_env \<Rightarrow> nat \<Rightarrow> UInt256 \<Rightarrow> BRPeerManager \<Rightarrow> BRPeerManager option" where
  "peerHasTx env p h m =
     do {
       t \<leftarrow> BRWalletTransactionForHash (m_wallet m) h;
       c \<leftarrow> m_heap m p;
       let pt = published_with h m;
       let tx = (case t of Some t \<Rightarrow> Some (txs (m_wallet m) t) | None \<Rightarrow> map_option p_tx pt);
       let hasPending = others_pending h m;
       let m = clear_callback h m;
       let (relayCount, m) = (if pt \<noteq> None then add_relay h (pub c) m else (0, m));
       m \<leftarrow> cancel_timeout env p hasPending m;
       case tx of
         None \<Rightarrow> Some (published_event pt 0 m)
       | Some tx \<Rightarrow> do {
           (isWalletTx, m) \<leftarrow> register env tx m;
           own \<leftarrow> own_object isWalletTx tx m;
           m \<leftarrow> (if syncStartHeight m > 0 \<and> downloadPeer m = Some p \<and> isWalletTx
             then with_peer p (BRPeerScheduleDisconnect (penv env) PROTOCOL_TIMEOUT) m else Some m);
           let (relayCount, m) = (if syncStartHeight m = 0 then add_relay h (pub c) m else (relayCount, m));
           m \<leftarrow> mark_verified env relayCount own h m;
           Some (published_event pt 0 (remove_request h (pub c) m))
         }
     }"

definition peerRejectedTx :: "manager_env \<Rightarrow> nat \<Rightarrow> UInt256 \<Rightarrow> byte \<Rightarrow> BRPeerManager \<Rightarrow> BRPeerManager option" where
  "peerRejectedTx env p h code m =
     do {
       t \<leftarrow> BRWalletTransactionForHash (m_wallet m) h;
       c \<leftarrow> m_heap m p;
       let m = remove_request h (pub c) m;
       m \<leftarrow> (case t of
           None \<Rightarrow> Some m
         | Some t \<Rightarrow> do {
             let (found, relays) = BRTxPeerListRemovePeer (txRelays m) h (pub c);
             let m = m\<lparr>txRelays := relays\<rparr>;
             m \<leftarrow> (if found \<and> blockHeight (txs (m_wallet m) t) = TX_UNCONFIRMED
               then wallet_op (\<lambda>w. BRWalletUpdateTransactions (wenv env) w [h] TX_UNCONFIRMED 0) m else Some m);
             let tx = txs (m_wallet m) t;
             amount \<leftarrow> (if code \<noteq> REJECT_SPENT then BRWalletAmountSentByTx (m_wallet m) tx else Some 0);
             if amount > 0
             then do {
               unconfirmed \<leftarrow> any_loop (\<lambda>i. map_option
                   (\<lambda>t. case t of None \<Rightarrow> False | Some t \<Rightarrow> blockHeight (txs (m_wallet m) t) = TX_UNCONFIRMED)
                   (BRWalletTransactionForHash (m_wallet m) (in_txHash i))) (inputs tx);
               if unconfirmed then Some m else BRPeerManagerPeerMisbehavin p m
             }
             else Some m
           });
       Some (event TxStatusUpdate m)
     }"

definition peerDataNotfound :: "nat \<Rightarrow> UInt256 list \<Rightarrow> BRPeerManager \<Rightarrow> BRPeerManager option" where
  "peerDataNotfound p ths m =
     map_option (\<lambda>c. fold (\<lambda>h m. remove_request h (pub c)
         (m\<lparr>txRelays := snd (BRTxPeerListRemovePeer (txRelays m) h (pub c))\<rparr>)) ths m) (m_heap m p)"

section \<open>Fee rates\<close>

text \<open>The loop that is meant to find the second highest rate.\<close>

fun fee_loop :: "BRPeerManager \<Rightarrow> u64 \<Rightarrow> u64 \<Rightarrow> nat list \<Rightarrow> u64 option" where
  "fee_loop m highest second [] = Some second"
| "fee_loop m highest second (q # qs) =
     do {
       c \<leftarrow> m_heap m q;
       if status c = Connected \<and> ctx_feePerKb c > highest then fee_loop m (ctx_feePerKb c) highest qs
       else fee_loop m highest second qs
     }"

definition peerSetFeePerKb :: "BRPeerManager \<Rightarrow> BRPeerManager option" where
  "peerSetFeePerKb m =
     do {
       second \<leftarrow> fee_loop m 0 0 (rev (connectedPeers m));
       let fee = second * 3 div 2;
       Some (if fee > DEFAULT_FEE_PER_KB \<and> fee \<le> MAX_FEE_PER_KB \<and> fee > BRWalletFeePerKb (m_wallet m)
         then m\<lparr>m_wallet := BRWalletSetFeePerKb (m_wallet m) fee\<rparr> else m)
     }"

section \<open>Requested transactions\<close>

definition peerRequestedTx ::
    "manager_env \<Rightarrow> nat \<Rightarrow> UInt256 \<Rightarrow> BRPeerManager \<Rightarrow> (BRTransaction option \<times> BRPeerManager) option" where
  "peerRequestedTx env p h m =
     do {
       c \<leftarrow> m_heap m p;
       let pt = published_with h m;
       let hasPending = others_pending h m;
       m \<leftarrow> cancel_timeout env p hasPending (clear_callback h m);
       let m = snd (add_relay h (pub c) m);
       case pt of
         None \<Rightarrow> Some (None, m)
       | Some pt \<Rightarrow> do {
           (_, m) \<leftarrow> register env (p_tx pt) m;
           valid \<leftarrow> BRWalletTransactionIsValid (m_wallet m) (p_tx pt);
           Some (Some (p_tx pt), published_event (Some pt) (if valid then 0 else EINVAL) m)
         }
     }"

end
