(* ===== verification/PeerManagerBlocks.thy ===== *)
theory PeerManagerBlocks
  imports PeerManagerRelay
begin

text \<open>
  \<^verbatim>\<open>bitcoin/BRPeerManager.c\<close>: blocks that peers relay, and the chain built from them.  The sets
  compare what their pointers held when they were added.
\<close>

unbundle bit_operations_syntax

section \<open>Verification\<close>

text \<open>The loop that frees the blocks before a difficulty transition, transitions excepted.\<close>

partial_function (option) prune_loop :: "UInt256 \<Rightarrow> BRPeerManager \<Rightarrow> BRPeerManager option" where
  "prune_loop h m =
     do {
       b \<leftarrow> get_block m h;
       case b of
         None \<Rightarrow> Some m
       | Some b \<Rightarrow> do {
           block \<leftarrow> deref m b;
           if height block mod BLOCK_DIFFICULTY_INTERVAL \<noteq> 0
           then do {
             (_, s) \<leftarrow> BRSetRemove (blocks m) b;
             m \<leftarrow> free_block b (m\<lparr>blocks := s\<rparr>);
             prune_loop (prevBlock block) m
           }
           else prune_loop (prevBlock block) m
         }
     }"

definition BRPeerManagerVerifyBlock ::
    "BRMerkleBlock \<Rightarrow> block_ptr option \<Rightarrow> block_ptr \<Rightarrow> BRPeerManager \<Rightarrow> (bool \<times> BRPeerManager) option" where
  "BRPeerManagerVerifyBlock block prev b m =
     do {
       r \<leftarrow> (case prev of None \<Rightarrow> Some False
         | Some pb \<Rightarrow> map_option (\<lambda>prev. UInt256Eq (prevBlock block) (blockHash prev) \<and> height block = height prev + 1) (deref m pb));
       (r, m) \<leftarrow> (if r \<and> height block mod BLOCK_DIFFICULTY_INTERVAL = 0
         then do {
           old \<leftarrow> go_back m (unat BLOCK_DIFFICULTY_INTERVAL) (Some b);
           case old of
             None \<Rightarrow> Some (False, m)
           | Some old \<Rightarrow> do {
               start \<leftarrow> deref m old;
               m \<leftarrow> prune_loop (prevBlock start) m;
               Some (r, m)
             }
         }
         else Some (r, m));
       r \<leftarrow> (if r then verifyDifficulty (m_params m) block (blocks m) else Some False);
       if r
       then do {
         cp \<leftarrow> BRSetGet (m_checkpoints m) b;
         case cp of
           None \<Rightarrow> Some (True, m)
         | Some cp \<Rightarrow> map_option (\<lambda>c. (BRMerkleBlockEq block c, m)) (deref m cp)
       }
       else Some (False, m)
     }"

section \<open>The false positive rate\<close>

fun count_false_positives :: "BRWallet \<Rightarrow> UInt256 list \<Rightarrow> nat option" where
  "count_false_positives w [] = Some 0"
| "count_false_positives w (h # hs) =
     do {
       t \<leftarrow> BRWalletTransactionForHash w h;
       n \<leftarrow> count_false_positives w hs;
       Some (if t = None then n + 1 else n)
     }"

definition track_rate :: "manager_env \<Rightarrow> nat \<Rightarrow> BRMerkleBlock \<Rightarrow> UInt256 list \<Rightarrow> BRPeerManager \<Rightarrow> BRPeerManager option" where
  "track_rate env p block hs m =
     (if downloadPeer m = Some p \<and> totalTx block > 0
      then do {
        fpCount \<leftarrow> count_false_positives (m_wallet m) hs;
        let total = real (unat (totalTx block));
        let avg = averageTxPerBlock m * (999 / 1000) + total * (1 / 1000);
        let rate = fpRate m * (1 - 1 / 100 * total / avg) + 1 / 100 * real fpCount / avg;
        let m = m\<lparr>averageTxPerBlock := avg, fpRate := rate\<rparr>;
        c \<leftarrow> m_heap m p;
        top \<leftarrow> deref m (lastBlock m);
        if status c = Connected \<and> rate > BLOOM_DEFAULT_FALSEPOSITIVE_RATE * 10
        then with_peer p BRPeerDisconnect m
        else if height top + 500 < lastblock c \<and> rate > BLOOM_REDUCED_FALSEPOSITIVE_RATE * 10
        then BRPeerManagerUpdateFilter env m
        else Some m
      }
      else Some m)"

section \<open>The branches for a relayed block\<close>

definition update_heights :: "manager_env \<Rightarrow> UInt256 list \<Rightarrow> u32 \<Rightarrow> u32 \<Rightarrow> BRPeerManager \<Rightarrow> BRPeerManager option" where
  "update_heights env hs h time m =
     (if hs \<noteq> [] then wallet_op (\<lambda>w. BRWalletUpdateTransactions (wenv env) w hs h time) m else Some m)"

definition reset_timeout :: "manager_env \<Rightarrow> nat \<Rightarrow> BRPeerManager \<Rightarrow> BRPeerManager option" where
  "reset_timeout env p m =
     with_peer p (BRPeerScheduleDisconnect (penv env) PROTOCOL_TIMEOUT) (m\<lparr>connectFailureCount := 0\<rparr>)"

definition add_orphan :: "block_ptr \<Rightarrow> BRPeerManager \<Rightarrow> BRPeerManager option" where
  "add_orphan b m =
     map_option (\<lambda>(_, s). m\<lparr>orphans := s, lastOrphan := Some b\<rparr>) (BRSetAdd (orphans m) b)"

definition add_block :: "block_ptr \<Rightarrow> BRPeerManager \<Rightarrow> (block_ptr option \<times> BRPeerManager) option" where
  "add_block b m = map_option (\<lambda>(old, s). (old, m\<lparr>blocks := s\<rparr>)) (BRSetAdd (blocks m) b)"

definition ignore_block :: "block_ptr \<Rightarrow> BRPeerManager \<Rightarrow> (block_ptr option \<times> nat \<times> BRPeerManager) option" where
  "ignore_block b m = map_option (\<lambda>m. (None, 0, m)) (free_block b m)"

definition filter_pending :: "manager_env \<Rightarrow> nat \<Rightarrow> block_ptr \<Rightarrow> BRPeerManager \<Rightarrow> (block_ptr option \<times> nat \<times> BRPeerManager) option" where
  "filter_pending env p b m =
     do {
       m \<leftarrow> free_block b m;
       if downloadPeer m = Some p
       then do {
         top \<leftarrow> deref m (lastBlock m);
         m \<leftarrow> (if height top < estimatedHeight m then reset_timeout env p m else Some m);
         Some (None, 0, m)
       }
       else Some (None, 0, m)
     }"

definition relayed_orphan :: "manager_env \<Rightarrow> nat \<Rightarrow> block_ptr \<Rightarrow> BRPeerManager \<Rightarrow> (block_ptr option \<times> nat \<times> BRPeerManager) option" where
  "relayed_orphan env p b m =
     do {
       top \<leftarrow> deref m (lastBlock m);
       if uint (timestamp (snd b) + 7 * 24 * 60 * 60) < unixTime (penv env) then ignore_block b m
       else do {
         c \<leftarrow> m_heap m p;
         ask \<leftarrow> (if height top \<ge> lastblock c
           then (case lastOrphan m of None \<Rightarrow> Some True
             | Some x \<Rightarrow> map_option (\<lambda>o'. \<not> UInt256Eq (blockHash o') (prevBlock (snd b))) (deref m x))
           else Some False);
         m \<leftarrow> (if ask then do {
             hs \<leftarrow> block_locators m;
             with_peer p (BRPeerSendGetblocks (penv env) hs 0) m
           } else Some m);
         m \<leftarrow> add_orphan b m;
         Some (Some b, 0, m)
       }
     }"

text \<open>How many blocks to save once the chain is complete.\<close>

definition complete_count :: "u32 \<Rightarrow> nat" where
  "complete_count h = unat (h mod BLOCK_DIFFICULTY_INTERVAL + BLOCK_DIFFICULTY_INTERVAL + 1)"

definition finish_chain :: "manager_env \<Rightarrow> u32 \<Rightarrow> nat \<Rightarrow> BRPeerManager \<Rightarrow> (nat \<times> BRPeerManager) option" where
  "finish_chain env h saveCount m =
     (if h = estimatedHeight m
      then map_option (\<lambda>m. (complete_count h, m)) (BRPeerManagerLoadMempools env m)
      else Some (saveCount, m))"

definition extend_main ::
    "manager_env \<Rightarrow> nat \<Rightarrow> block_ptr \<Rightarrow> UInt256 list \<Rightarrow> u32 \<Rightarrow> BRPeerManager \<Rightarrow> (block_ptr option \<times> nat \<times> BRPeerManager) option" where
  "extend_main env p b hs txTime m =
     do {
       let h = height (snd b);
       (_, m) \<leftarrow> add_block b m;
       let m = m\<lparr>lastBlock := b\<rparr>;
       m \<leftarrow> update_heights env hs h txTime m;
       m \<leftarrow> (case downloadPeer m of None \<Rightarrow> Some m | Some d \<Rightarrow> with_peer d (BRPeerSetCurrentBlockHeight h) m);
       m \<leftarrow> (if h < estimatedHeight m \<and> downloadPeer m = Some p then reset_timeout env p m else Some m);
       let saveCount = (if h mod BLOCK_DIFFICULTY_INTERVAL = 0 \<and> h + 100 < estimatedHeight m then 1 else 0);
       (saveCount, m) \<leftarrow> finish_chain env h saveCount m;
       Some (Some b, saveCount, m)
     }"

text \<open>The loop from a block of the chain down to a height.\<close>

partial_function (option) down_to :: "BRPeerManager \<Rightarrow> u32 \<Rightarrow> block_ptr option \<Rightarrow> block_ptr option option" where
  "down_to m h b =
     (case b of
        None \<Rightarrow> Some None
      | Some b \<Rightarrow> do {
          block \<leftarrow> deref m b;
          if height block > h
          then do {
            b' \<leftarrow> get_block m (prevBlock block);
            down_to m h b'
          }
          else Some (Some b)
        })"

text \<open>A block that was stored already replaces the stored one, which is freed.\<close>

definition replace_block ::
    "manager_env \<Rightarrow> block_ptr \<Rightarrow> UInt256 list \<Rightarrow> u32 \<Rightarrow> BRPeerManager \<Rightarrow> (block_ptr option \<times> nat \<times> BRPeerManager) option" where
  "replace_block env b hs txTime m =
     do {
       let h = height (snd b);
       base \<leftarrow> down_to m h (Some (lastBlock m));
       base \<leftarrow> base;
       block \<leftarrow> deref m base;
       m \<leftarrow> (if BRMerkleBlockEq block (snd b)
         then do {
           m \<leftarrow> update_heights env hs h txTime m;
           top \<leftarrow> deref m (lastBlock m);
           Some (if h = height top then m\<lparr>lastBlock := b\<rparr> else m)
         }
         else Some m);
       (old, m) \<leftarrow> add_block b m;
       old \<leftarrow> old;
       m \<leftarrow> (if fst old \<noteq> fst b
         then do {
           x \<leftarrow> BRSetGet (orphans m) old;
           m \<leftarrow> (if map_option fst x = Some (fst old)
             then map_option (\<lambda>(_, s). m\<lparr>orphans := s\<rparr>) (BRSetRemove (orphans m) old) else Some m);
           let m = (if map_option fst (lastOrphan m) = Some (fst old) then m\<lparr>lastOrphan := None\<rparr> else m);
           free_block old m
         }
         else Some m);
       Some (Some b, 0, m)
     }"

text \<open>The walk back to where a fork joins the main chain.\<close>

partial_function (option) join_loop ::
    "BRPeerManager \<Rightarrow> block_ptr option \<Rightarrow> block_ptr option \<Rightarrow> (block_ptr option \<times> block_ptr option) option" where
  "join_loop m b b2 =
     (case (b, b2) of
        (Some x, Some y) \<Rightarrow> do {
          bx \<leftarrow> deref m x;
          b_y \<leftarrow> deref m y;
          if BRMerkleBlockEq bx b_y then Some (b, b2)
          else do {
            b' \<leftarrow> get_block m (prevBlock bx);
            b2' \<leftarrow> (case b' of
                None \<Rightarrow> Some b2
              | Some z \<Rightarrow> do {
                  bz \<leftarrow> deref m z;
                  if height bz < height b_y then get_block m (prevBlock b_y) else Some b2
                });
            join_loop m b' b2'
          }
        }
      | _ \<Rightarrow> Some (b, b2))"

text \<open>The transactions of the new main chain, above the height of the block where the chains join.\<close>

partial_function (option) reorg_loop :: "manager_env \<Rightarrow> block_ptr option \<Rightarrow> BRMerkleBlock \<Rightarrow> BRPeerManager \<Rightarrow> BRPeerManager option" where
  "reorg_loop env b join m =
     (case b of
        None \<Rightarrow> Some m
      | Some x \<Rightarrow> do {
          block \<leftarrow> deref m x;
          if height block > height join
          then do {
            hs \<leftarrow> block_tx_hashes block;
            b' \<leftarrow> get_block m (prevBlock block);
            time \<leftarrow> (case b' of None \<Rightarrow> Some (timestamp block)
              | Some y \<Rightarrow> map_option (\<lambda>prev. timestamp block div 2 + timestamp prev div 2) (deref m y));
            m \<leftarrow> update_heights env hs (height block) time m;
            reorg_loop env b' join m
          }
          else Some m
        })"

definition join_fork :: "manager_env \<Rightarrow> block_ptr \<Rightarrow> BRPeerManager \<Rightarrow> (block_ptr option \<times> nat \<times> BRPeerManager) option" where
  "join_fork env b m =
     do {
       (_, m) \<leftarrow> add_block b m;
       top \<leftarrow> deref m (lastBlock m);
       if height (snd b) > height top
       then do {
         (base, b2) \<leftarrow> join_loop m (Some b) (Some (lastBlock m));
         base \<leftarrow> base;
         atb \<leftarrow> deref m base;
         m \<leftarrow> wallet_op (\<lambda>w. BRWalletSetTxUnconfirmedAfter (wenv env) w (height atb)) m;
         m \<leftarrow> (case b2 of None \<Rightarrow> Some m
           | Some y \<Rightarrow> do {
               join \<leftarrow> deref m y;
               reorg_loop env (Some b) join m
             });
         (saveCount, m) \<leftarrow> finish_chain env (height (snd b)) 0 (m\<lparr>lastBlock := b\<rparr>);
         Some (Some b, saveCount, m)
       }
       else Some (Some b, 0, m)
     }"

section \<open>A relayed block\<close>

text \<open>The branch that is taken: the block unless it is freed, how many blocks to save, and the state.\<close>

definition handle_block ::
    "manager_env \<Rightarrow> nat \<Rightarrow> block_ptr \<Rightarrow> block_ptr option \<Rightarrow> UInt256 list \<Rightarrow> u32 \<Rightarrow> BRPeerManager \<Rightarrow>
      (block_ptr option \<times> nat \<times> BRPeerManager) option" where
  "handle_block env p b prev hs txTime m =
     (if bloomFilter m = None then filter_pending env p b m
      else if prev = None then relayed_orphan env p b m
      else do {
        (valid, m) \<leftarrow> BRPeerManagerVerifyBlock (snd b) prev b m;
        if \<not> valid
        then do {
          m \<leftarrow> free_block b m;
          m \<leftarrow> BRPeerManagerPeerMisbehavin p m;
          Some (None, 0, m)
        }
        else do {
          top \<leftarrow> deref m (lastBlock m);
          if UInt256Eq (prevBlock (snd b)) (blockHash top) then extend_main env p b hs txTime m
          else do {
            known \<leftarrow> BRSetContains (blocks m) b;
            c \<leftarrow> m_heap m p;
            if known then replace_block env b hs txTime m
            else if height top < lastblock c \<and> height (snd b) > height top + 1
            then map_option (\<lambda>m. (Some b, 0, m)) (add_orphan b m)
            else if checkpoints (m_params m) = [] then None
            else if height (snd b) \<le> cp_height (last (checkpoints (m_params m))) then ignore_block b m
            else join_fork env b m
          }
        }
      })"

text \<open>The blocks to save, the newest first, from a difficulty transition on.\<close>

fun saved_blocks :: "BRPeerManager \<Rightarrow> nat \<Rightarrow> block_ptr option \<Rightarrow> BRMerkleBlock list option" where
  "saved_blocks m 0 b = Some []"
| "saved_blocks m (Suc n) None = Some []"
| "saved_blocks m (Suc n) (Some b) =
     do {
       block \<leftarrow> deref m b;
       if height block = BLOCK_UNKNOWN_HEIGHT then None
       else do {
         b' \<leftarrow> get_block m (prevBlock block);
         bs \<leftarrow> saved_blocks m n b';
         Some (block # bs)
       }
     }"

definition from_transition :: "BRMerkleBlock list \<Rightarrow> BRMerkleBlock list option" where
  "from_transition bs =
     (let i = length bs;
          interval = unat BLOCK_DIFFICULTY_INTERVAL;
          j = (if bs = [] then 0 else unat (height (last bs)) mod interval);
          i = (if j > 0 then i - (if i > interval - j then interval - j else i) else i)
      in if i = 0 \<or> unat (height (bs ! (i - 1))) mod interval = 0 then Some (take i bs) else None)"

definition save_blocks :: "block_ptr option \<Rightarrow> nat \<Rightarrow> BRPeerManager \<Rightarrow> BRPeerManager option" where
  "save_blocks b saveCount m =
     do {
       bs \<leftarrow> saved_blocks m saveCount b;
       bs \<leftarrow> from_transition bs;
       Some (if bs \<noteq> [] then event (SaveBlocks (length bs > 1) bs) m else m)
     }"

definition next_orphan :: "BRMerkleBlock \<Rightarrow> BRPeerManager \<Rightarrow> (block_ptr option \<times> BRPeerManager) option" where
  "next_orphan block m =
     (let m = (if height block > estimatedHeight m then m\<lparr>estimatedHeight := height block\<rparr> else m)
      in map_option (\<lambda>(o', s). (o', m\<lparr>orphans := s\<rparr>)) (BRSetRemove (orphans m) (orphan_key (blockHash block))))"

definition set_block_height :: "block_ptr \<Rightarrow> block_ptr option \<Rightarrow> BRPeerManager \<Rightarrow> (block_ptr \<times> u32) option" where
  "set_block_height b prev m =
     (case prev of
        None \<Rightarrow> Some (b, 0)
      | Some pb \<Rightarrow> map_option (\<lambda>prev. ((fst b, (snd b)\<lparr>height := height prev + 1\<rparr>),
          timestamp (snd b) div 2 + timestamp prev div 2)) (deref m pb))"

definition relayed_once :: "manager_env \<Rightarrow> nat \<Rightarrow> block_ptr \<Rightarrow> BRPeerManager \<Rightarrow> (block_ptr option \<times> BRPeerManager) option" where
  "relayed_once env p b m =
     do {
       hs \<leftarrow> block_tx_hashes (snd b);
       prev \<leftarrow> get_block m (prevBlock (snd b));
       (b, txTime) \<leftarrow> set_block_height b prev m;
       m \<leftarrow> track_rate env p (snd b) hs m;
       (b, saveCount, m) \<leftarrow> handle_block env p b prev hs txTime m;
       let placed = (case b of None \<Rightarrow> False | Some b \<Rightarrow> height (snd b) \<noteq> BLOCK_UNKNOWN_HEIGHT);
       (next, m) \<leftarrow> (if placed then next_orphan (snd (the b)) m else Some (None, m));
       m \<leftarrow> save_blocks b saveCount m;
       if placed
       then map_option (\<lambda>c. (next, if height (snd (the b)) \<ge> lastblock c then event TxStatusUpdate m else m)) (m_heap m p)
       else Some (next, m)
     }"

partial_function (option) peerRelayedBlock :: "manager_env \<Rightarrow> nat \<Rightarrow> block_ptr \<Rightarrow> BRPeerManager \<Rightarrow> BRPeerManager option" where
  "peerRelayedBlock env p b m =
     do {
       (next, m) \<leftarrow> relayed_once env p b m;
       case next of
         None \<Rightarrow> Some m
       | Some b' \<Rightarrow> peerRelayedBlock env p b' m
     }"

end
