(* ===== verification/PeerManagerApi.thy ===== *)
theory PeerManagerApi
  imports PeerManagerBlocks
begin

text \<open>
  \<^verbatim>\<open>bitcoin/BRPeerManager.c\<close> and \<^verbatim>\<open>bitcoin/BRChainParams.c\<close>: the parameters of the two chains,
  the operations of the public interface, and the manager as the owner of its peers.
\<close>

unbundle bit_operations_syntax

section \<open>The chains\<close>

definition SERVICES_NODE_WITNESS :: u64 where "SERVICES_NODE_WITNESS = 0x08"

text \<open>\<open>uint256\<close> puts the first two digits into the first byte; the literals are the numbers the digits denote.\<close>

definition checkpoint :: "u32 \<Rightarrow> UInt256 \<Rightarrow> u32 \<Rightarrow> u32 \<Rightarrow> BRCheckPoint" where
  "checkpoint h digits time tgt = \<lparr>cp_height = h, cp_hash = UInt256Reverse digits, cp_timestamp = time, cp_target = tgt\<rparr>"

definition BRMainNetDNSSeeds :: "string option list" where "BRMainNetDNSSeeds = [Some ''3.236.68.50'']"
definition BRTestNetDNSSeeds :: "string option list" where "BRTestNetDNSSeeds = []"

definition BRMainNetCheckpoints :: "BRCheckPoint list" where
  "BRMainNetCheckpoints =
     [checkpoint 0 0x000008218fff30da8966c11e08d80253045a69ac2acabf769bcff149b0f004dc 1596790925 0x1e0ffff0]"

definition BRTestNetCheckpoints :: "BRCheckPoint list" where
  "BRTestNetCheckpoints =
     [checkpoint 0 0x000000000933ea01ad0ee984209779baaec3ced90fa3f408719526f8d77f4943 1296688602 0x1d00ffff,
      checkpoint 100800 0x0000000000a33112f86f3f7b0aa590cb4949b84c2d9c673e9e303257b3be9000 1376543922 0x1c00d907,
      checkpoint 201600 0x0000000000376bb71314321c45de3015fe958543afcbada242a3b1b072498e38 1393813869 0x1b602ac0,
      checkpoint 302400 0x0000000000001c93ebe0a7c33426e8edb9755505537ef9303a023f80be29d32d 1413766239 0x1a33605e,
      checkpoint 403200 0x0000000000ef8b05da54711e2106907737741ac0278d59f358303c71d500f3c4 1431821666 0x1c02346c,
      checkpoint 504000 0x0000000000005d105473c916cd9d16334f017368afea6bcee71629e0fcf2f4f5 1436951946 0x1b00ab86,
      checkpoint 604800 0x00000000000008653c7e5c00c703c5a9d53b318837bb1b3586a3d060ce6fff2e 1447484641 0x1a092a20,
      checkpoint 705600 0x00000000004ee3bc2e2dd06c31f2d7a9c3e471ec0251924f59f222e5e9c37e12 1455728685 0x1c0ffff0,
      checkpoint 806400 0x0000000000000faf114ff29df6dbac969c6b4a3b407cd790d3a12742b50c2398 1462006183 0x1a34e280,
      checkpoint 907200 0x0000000000166938e6f172a21fe69fe335e33565539e74bf74eeb00d2022c226 1469705562 0x1c00ffff,
      checkpoint 1008000 0x000000000000390aca616746a9456a0d64c1bd73661fd60a51b5bf1c92bae5a0 1476926743 0x1a52ccc0,
      checkpoint 1108800 0x00000000000288d9a219419d0607fb67cc324d4b6d2945ca81eaa5e739fab81e 1490751239 0x1b09ecf0,
      checkpoint 1209600 0x0000000000000026b4692a26f1651bec8e9d4905640bd8e56056c9a9c53badf8 1507328506 0x1973e180,
      checkpoint 1310400 0x0000000000013b434bbe5668293c92ef26df6d6d4843228e8958f6a3d8101709 1527038604 0x1b0ffff0,
      checkpoint 1411200 0x00000000000000008b3baea0c3de24b9333c169e1543874f4202397f5b8502cb 1535535770 0x194ac105]"

definition BRMainNetVerifyDifficulty :: "BRMerkleBlock \<Rightarrow> block_ptr BRSet \<Rightarrow> bool option" where
  "BRMainNetVerifyDifficulty block blockSet = Some True"

definition BRTestNetVerifyDifficulty :: "BRMerkleBlock \<Rightarrow> block_ptr BRSet \<Rightarrow> bool option" where
  "BRTestNetVerifyDifficulty block blockSet = Some True"

definition BRMainNetParams :: BRChainParams where
  "BRMainNetParams =
     \<lparr>dnsSeeds = BRMainNetDNSSeeds, standardPort = 7233, params_magic = 0x15141312, params_services = 13,
      verifyDifficulty = BRMainNetVerifyDifficulty, checkpoints = BRMainNetCheckpoints\<rparr>"

definition BRTestNetParams :: BRChainParams where
  "BRTestNetParams =
     \<lparr>dnsSeeds = BRTestNetDNSSeeds, standardPort = 18333, params_magic = 0x0709110b, params_services = SERVICES_NODE_WITNESS,
      verifyDifficulty = BRTestNetVerifyDifficulty, checkpoints = BRTestNetCheckpoints\<rparr>"

definition BRChainParamsGetBitcoin :: "bool \<Rightarrow> BRChainParams" where
  "BRChainParamsGetBitcoin mainnet = (if mainnet then BRMainNetParams else BRTestNetParams)"

section \<open>A new manager\<close>

text \<open>
  The blocks of the checkpoints are allocated first, then come the blocks of the caller.  With
  neither, \<open>lastBlock\<close> stays NULL, and the result is \<open>None\<close>.
\<close>

definition week :: u32 where "week = 7 * 24 * 60 * 60"

definition checkpoint_block :: "BRCheckPoint \<Rightarrow> BRMerkleBlock" where
  "checkpoint_block c = BRMerkleBlockNew\<lparr>height := cp_height c, blockHash := UInt256Reverse (cp_hash c),
     timestamp := cp_timestamp c, target := cp_target c\<rparr>"

definition add_checkpoint ::
    "u32 \<Rightarrow> nat \<times> BRCheckPoint \<Rightarrow> block_ptr BRSet \<times> block_ptr BRSet \<times> block_ptr option \<Rightarrow>
      (block_ptr BRSet \<times> block_ptr BRSet \<times> block_ptr option) option" where
  "add_checkpoint keyTime = (\<lambda>(i, c) (cps, bs, top).
     let b = (i, checkpoint_block c)
     in do {
       (_, cps) \<leftarrow> BRSetAdd cps b;
       (_, bs) \<leftarrow> BRSetAdd bs b;
       Some (cps, bs, if i = 0 \<or> cp_timestamp c + week < keyTime then Some b else top)
     })"

definition add_saved :: "block_ptr \<Rightarrow> block_ptr BRSet \<times> block_ptr option \<Rightarrow> (block_ptr BRSet \<times> block_ptr option) option" where
  "add_saved b = (\<lambda>(os, start).
     if height (snd b) = BLOCK_UNKNOWN_HEIGHT then None
     else do {
       (_, os) \<leftarrow> BRSetAdd os b;
       let highest = (case start of None \<Rightarrow> True | Some s \<Rightarrow> height (snd b) > height (snd s));
       Some (os, if height (snd b) mod BLOCK_DIFFICULTY_INTERVAL = 0 \<and> highest then Some b else start)
     })"

text \<open>The saved blocks are linked to a chain, from the last difficulty transition on.\<close>

partial_function (option) link_saved ::
    "block_ptr option \<Rightarrow> block_ptr BRSet \<Rightarrow> block_ptr BRSet \<Rightarrow> block_ptr option \<Rightarrow>
      (block_ptr BRSet \<times> block_ptr BRSet \<times> block_ptr option) option" where
  "link_saved b bs os newest =
     (case b of
        None \<Rightarrow> Some (bs, os, newest)
      | Some x \<Rightarrow> do {
          (_, bs) \<leftarrow> BRSetAdd bs x;
          (_, os) \<leftarrow> BRSetRemove os (orphan_key (prevBlock (snd x)));
          b' \<leftarrow> BRSetGet os (orphan_key (blockHash (snd x)));
          link_saved b' bs os b
        })"

definition BRPeerManagerNew ::
    "BRChainParams \<Rightarrow> BRWallet \<Rightarrow> u32 \<Rightarrow> BRMerkleBlock list \<Rightarrow> BRPeer list \<Rightarrow> BRPeerManager option" where
  "BRPeerManagerNew params wallet keyTime saved peers =
     do {
       let n = length (checkpoints params);
       let blockSet = BRSetNew (\<lambda>b. BRMerkleBlockHash (snd b)) (\<lambda>b b'. BRMerkleBlockEq (snd b) (snd b'));
       if standardPort params = 0 then None
       else do {
         (cps, bs, top) \<leftarrow> for_each (enumerate 0 (checkpoints params)) (add_checkpoint keyTime)
           (BRSetNew BRBlockHeightHash BRBlockHeightEq 100, blockSet (length saved), None);
         (os, start) \<leftarrow> for_each (enumerate n saved) add_saved (BRSetNew BRPrevBlockHash BRPrevBlockEq (length saved), None);
         (bs, os, top) \<leftarrow> link_saved start bs os top;
         top \<leftarrow> top;
         Some \<lparr>m_params = params, m_wallet = wallet, isConnected = False, connectFailureCount = 0, misbehavinCount = 0,
           peerThreadCount = 0, maxConnectCount = PEER_MAX_CONNECTIONS, m_peers = sort_peers peers, downloadPeer = None,
           fixedPeer = BR_PEER_NONE, connectedPeers = [], m_earliestKeyTime = keyTime, syncStartHeight = 0,
           filterUpdateHeight = 0, estimatedHeight = 0, bloomFilter = None, fpRate = 0, averageTxPerBlock = 1400,
           blocks = bs, orphans = os, m_checkpoints = cps, lastBlock = top, lastOrphan = None, txRelays = [],
           txRequests = [], publishedTx = [], publishedTxHashes = [], m_heap = Map.empty, nextPeer = 0,
           freedBlocks = {}, nextBlock = n + length saved, m_draws = 0, m_events = []\<rparr>
       }
     }"

section \<open>Disconnecting\<close>

definition stop_peer :: "nat \<Rightarrow> BRPeerManager \<Rightarrow> BRPeerManager option" where
  "stop_peer p m =
     do {
       m \<leftarrow> with_peer p BRPeerDisconnect (m\<lparr>connectFailureCount := MAX_CONNECT_FAILURES\<rparr>);
       c \<leftarrow> m_heap m p;
       Some (if status c = Connecting then m\<lparr>peerThreadCount := peerThreadCount m - 1\<rparr> else m)
     }"

definition stop_peers :: "BRPeerManager \<Rightarrow> BRPeerManager option" where
  "stop_peers m = for_each (rev (connectedPeers m)) stop_peer (m\<lparr>maxConnectCount := 0\<rparr>)"

text \<open>\<open>wait\<close> is what the other threads do until the last of them has ended, which may not happen.\<close>

definition BRPeerManagerDisconnect ::
    "(BRPeerManager \<Rightarrow> BRPeerManager option) \<Rightarrow> BRPeerManager \<Rightarrow> BRPeerManager option" where
  "BRPeerManagerDisconnect wait m =
     do {
       m' \<leftarrow> stop_peers m;
       m' \<leftarrow> (if peerThreadCount m' > 0 then wait m' else Some m');
       Some (m'\<lparr>maxConnectCount := maxConnectCount m\<rparr>)
     }"

definition BRPeerManagerConnectStatus :: "BRPeerManager \<Rightarrow> BRPeerStatus option" where
  "BRPeerManagerConnectStatus m =
     (if isConnected m then Some Connected
      else map_option (\<lambda>any. if any then Connecting else Disconnected)
        (any_loop (\<lambda>p. map_option (\<lambda>c. status c \<noteq> Disconnected) (m_heap m p)) (rev (connectedPeers m))))"

definition set_fixed :: "UInt128 \<Rightarrow> u16 \<Rightarrow> BRPeerManager \<Rightarrow> BRPeerManager" where
  "set_fixed addr port m =
     m\<lparr>maxConnectCount := (if UInt128IsZero addr then PEER_MAX_CONNECTIONS else 1),
       fixedPeer := BR_PEER_NONE\<lparr>peer_address := addr, peer_port := port\<rparr>, m_peers := []\<rparr>"

definition BRPeerManagerSetFixedPeer ::
    "(BRPeerManager \<Rightarrow> BRPeerManager option) \<Rightarrow> UInt128 \<Rightarrow> u16 \<Rightarrow> BRPeerManager \<Rightarrow> BRPeerManager option" where
  "BRPeerManagerSetFixedPeer wait addr port m = map_option (set_fixed addr port) (BRPeerManagerDisconnect wait m)"

section \<open>Rescanning\<close>

definition rescan_from :: "manager_env \<Rightarrow> block_ptr option \<Rightarrow> BRPeerManager \<Rightarrow> (bool \<times> BRPeerManager) option" where
  "rescan_from env newLastBlock m =
     (case newLastBlock of
        None \<Rightarrow> Some (False, m)
      | Some b \<Rightarrow> do {
          let m = m\<lparr>lastBlock := b\<rparr>;
          m \<leftarrow> (case downloadPeer m of None \<Rightarrow> Some m
            | Some d \<Rightarrow> do {
                c \<leftarrow> m_heap m d;
                with_peer d BRPeerDisconnect (m\<lparr>m_peers := forget_peer (pub c) (m_peers m)\<rparr>)
              });
          Some (True, m\<lparr>syncStartHeight := 0\<rparr>)
        })"

definition rescan_connect :: "manager_env \<Rightarrow> block_ptr option \<Rightarrow> BRPeerManager \<Rightarrow> BRPeerManager option" where
  "rescan_connect env b m =
     do {
       (needConnect, m) \<leftarrow> rescan_from env b m;
       if needConnect then BRPeerManagerConnect env m else Some m
     }"

text \<open>The last checkpoint that satisfies \<open>P\<close>, or else the first one.\<close>

fun last_checkpoint :: "(BRCheckPoint \<Rightarrow> bool) \<Rightarrow> BRCheckPoint list \<Rightarrow> BRCheckPoint option" where
  "last_checkpoint P [] = None"
| "last_checkpoint P [c] = Some c"
| "last_checkpoint P (c # d # cs) = (case find_last P (d # cs) of None \<Rightarrow> Some c | Some x \<Rightarrow> Some x)"

definition checkpoint_at :: "BRPeerManager \<Rightarrow> BRCheckPoint option \<Rightarrow> block_ptr option option" where
  "checkpoint_at m c = (case c of None \<Rightarrow> Some None | Some c \<Rightarrow> get_block m (UInt256Reverse (cp_hash c)))"

definition BRPeerManagerRescan :: "manager_env \<Rightarrow> BRPeerManager \<Rightarrow> BRPeerManager option" where
  "BRPeerManagerRescan env m =
     (if isConnected m
      then do {
        b \<leftarrow> checkpoint_at m (last_checkpoint (\<lambda>c. cp_timestamp c + week < m_earliestKeyTime m) (checkpoints (m_params m)));
        rescan_connect env b m
      }
      else Some m)"

definition BRPeerManagerRescanFromLastHardcodedCheckpoint :: "manager_env \<Rightarrow> BRPeerManager \<Rightarrow> BRPeerManager option" where
  "BRPeerManagerRescanFromLastHardcodedCheckpoint env m =
     (if isConnected m \<and> checkpoints (m_params m) \<noteq> []
      then do {
        b \<leftarrow> checkpoint_at m (Some (last (checkpoints (m_params m))));
        rescan_connect env b m
      }
      else Some m)"

partial_function (option) find_height :: "BRPeerManager \<Rightarrow> u32 \<Rightarrow> block_ptr option \<Rightarrow> block_ptr option option" where
  "find_height m h b =
     (case b of
        None \<Rightarrow> Some None
      | Some x \<Rightarrow> do {
          block \<leftarrow> deref m x;
          if height block = h then Some b
          else do {
            b' \<leftarrow> get_block m (prevBlock block);
            find_height m h b'
          }
        })"

definition BRPeerManagerLookupBlockFromBlockNumber :: "BRPeerManager \<Rightarrow> u32 \<Rightarrow> block_ptr option option" where
  "BRPeerManagerLookupBlockFromBlockNumber m blockNumber =
     do {
       b \<leftarrow> find_height m blockNumber (Some (lastBlock m));
       if b \<noteq> None then Some b
       else checkpoint_at m (List.find (\<lambda>c. cp_height c = blockNumber) (checkpoints (m_params m)))
     }"

definition BRPeerManagerRescanFromBlockNumber :: "manager_env \<Rightarrow> u32 \<Rightarrow> BRPeerManager \<Rightarrow> BRPeerManager option" where
  "BRPeerManagerRescanFromBlockNumber env blockNumber m =
     (if isConnected m
      then do {
        b \<leftarrow> BRPeerManagerLookupBlockFromBlockNumber m blockNumber;
        b \<leftarrow> (if b = None
          then checkpoint_at m (last_checkpoint (\<lambda>c. cp_height c < blockNumber) (checkpoints (m_params m))) else Some b);
        rescan_connect env b m
      }
      else Some m)"

section \<open>Reports\<close>

definition BRPeerManagerEstimatedBlockHeight :: "BRPeerManager \<Rightarrow> u32 option" where
  "BRPeerManagerEstimatedBlockHeight m =
     map_option (\<lambda>top. if height top < estimatedHeight m then estimatedHeight m else height top) (deref m (lastBlock m))"

text \<open>The variable that is returned is never set: the result is whatever the stack holds.\<close>

definition BRPeerManagerLastBlockHeight :: "u32 \<Rightarrow> BRPeerManager \<Rightarrow> u32" where
  "BRPeerManagerLastBlockHeight stack m = stack"

definition BRPeerManagerLastBlockTimestamp :: "BRPeerManager \<Rightarrow> u32 option" where
  "BRPeerManagerLastBlockTimestamp m = map_option timestamp (deref m (lastBlock m))"

definition BRPeerManagerSyncProgress :: "BRPeerManager \<Rightarrow> u32 \<Rightarrow> double option" where
  "BRPeerManagerSyncProgress m startHeight =
     (let start = (if startHeight = 0 then syncStartHeight m else startHeight)
      in if downloadPeer m = None \<and> syncStartHeight m = 0 then Some 0
         else do {
           top \<leftarrow> deref m (lastBlock m);
           Some (if downloadPeer m = None \<or> height top < estimatedHeight m
             then if height top > start \<and> estimatedHeight m > start
               then 1 / 10 + 9 / 10 * real (unat (height top - start)) / real (unat (estimatedHeight m - start))
               else 5 / 100
             else 1)
         })"

definition connected_count :: "(BRPeerStatus \<Rightarrow> bool) \<Rightarrow> BRPeerManager \<Rightarrow> nat option" where
  "connected_count P m =
     for_each (rev (connectedPeers m)) (\<lambda>p n. map_option (\<lambda>c. if P (status c) then n + 1 else n) (m_heap m p)) 0"

definition BRPeerManagerPeerCount :: "BRPeerManager \<Rightarrow> nat option" where
  "BRPeerManagerPeerCount m = connected_count (\<lambda>s. s \<noteq> Disconnected) m"

definition BRPeerManagerRelayCount :: "BRPeerManager \<Rightarrow> UInt256 \<Rightarrow> nat option" where
  "BRPeerManagerRelayCount m h = (if UInt256IsZero h then None else Some (BRTxPeerListCount (txRelays m) h))"

section \<open>Publishing\<close>

definition publish_to :: "manager_env \<Rightarrow> nat \<Rightarrow> nat \<Rightarrow> BRPeerManager \<Rightarrow> BRPeerManager option" where
  "publish_to env count p m =
     do {
       c \<leftarrow> m_heap m p;
       if status c = Connected \<and> (downloadPeer m \<noteq> Some p \<or> count = 1)
       then do {
         m \<leftarrow> BRPeerManagerPublishPendingTx env p m;
         with_peer p (BRPeerSendPing (penv env) (Some (PublishInvDone p))) m
       }
       else Some m
     }"

text \<open>The transaction is signed, or the second \<open>assert\<close> fails.\<close>

definition BRPeerManagerPublishTx :: "manager_env \<Rightarrow> BRTransaction \<Rightarrow> nat option \<Rightarrow> BRPeerManager \<Rightarrow> BRPeerManager option" where
  "BRPeerManagerPublishTx env tx k m =
     (if \<not> BRTransactionIsSigned tx then None
      else if \<not> isConnected m \<and> (connectFailureCount m \<ge> MAX_CONNECT_FAILURES \<or> \<not> reachable (penv env))
      then Some (case k of None \<Rightarrow> m | Some k \<Rightarrow> event (TxPublished k ENOTCONN) m)
      else do {
        m \<leftarrow> BRPeerManagerAddTxToPublishList (Some (tx\<lparr>tx_timestamp := ucast (now env)\<rparr>)) k m;
        count \<leftarrow> connected_count (\<lambda>s. s = Connected) m;
        for_each (rev (connectedPeers m)) (publish_to env count) m
      })"

section \<open>The manager as the owner of a peer\<close>

text \<open>
  A callback from the thread of peer \<open>p\<close>: the manager works on the same context, which is gone
  after \<open>peerDisconnected\<close>.
\<close>

type_synonym managed = "(pong, BRPeerManager) peer_state"

definition callback_of :: "nat \<Rightarrow> (BRPeerManager \<Rightarrow> ('r \<times> BRPeerManager) option) \<Rightarrow> managed \<Rightarrow> ('r \<times> managed) option" where
  "callback_of p f = (\<lambda>(c, m).
     do {
       (r, m) \<leftarrow> f (m\<lparr>m_heap := (m_heap m)(p \<mapsto> c)\<rparr>);
       c \<leftarrow> m_heap m p;
       Some (r, (c, m))
     })"

definition callback_op :: "nat \<Rightarrow> (BRPeerManager \<Rightarrow> BRPeerManager option) \<Rightarrow> managed \<Rightarrow> managed option" where
  "callback_op p f s = map_option snd (callback_of p (\<lambda>m. map_option (Pair ()) (f m)) s)"

definition callback_end :: "nat \<Rightarrow> (BRPeerManager \<Rightarrow> BRPeerManager option) \<Rightarrow> managed \<Rightarrow> managed option" where
  "callback_end p f = (\<lambda>(c, m). map_option (Pair c) (f (m\<lparr>m_heap := (m_heap m)(p \<mapsto> c)\<rparr>)))"

text \<open>The block that a peer has parsed is allocated at a new address.\<close>

definition relay_block :: "manager_env \<Rightarrow> nat \<Rightarrow> BRMerkleBlock \<Rightarrow> BRPeerManager \<Rightarrow> BRPeerManager option" where
  "relay_block env p block m =
     peerRelayedBlock env p (nextBlock m, block) (m\<lparr>nextBlock := nextBlock m + 1\<rparr>)"

definition manager_owner :: "manager_env \<Rightarrow> nat \<Rightarrow> (pong, BRPeerManager) peer_owner" where
  "manager_owner env p =
     \<lparr>onConnected = Some (callback_op p (peerConnected env p)),
      onDisconnected = Some (\<lambda>err. callback_end p (peerDisconnected env p err)),
      onRelayedPeers = Some (\<lambda>ps. callback_op p (\<lambda>m. Some (peerRelayedPeers env ps m))),
      onRelayedTx = Some (\<lambda>tx. callback_op p (peerRelayedTx env p tx)),
      onHasTx = Some (\<lambda>h. callback_op p (peerHasTx env p h)),
      onRejectedTx = Some (\<lambda>h code. callback_op p (peerRejectedTx env p h code)),
      onRelayedBlock = Some (\<lambda>block. callback_op p (relay_block env p block)),
      onNotfound = Some (\<lambda>ths bhs. callback_op p (peerDataNotfound p ths)),
      onSetFeePerKb = Some (\<lambda>fee. callback_op p peerSetFeePerKb),
      onRequestedTx = Some (\<lambda>h. callback_of p (peerRequestedTx env p h)),
      runPong = (\<lambda>k success. callback_op p (run_closure env k success))\<rparr>"

text \<open>The thread of a peer of the manager, up to its cleanup.\<close>

definition manager_thread ::
    "manager_env \<Rightarrow> nat \<Rightarrow> int + int \<Rightarrow> (double \<times> input) list \<Rightarrow> BRPeerManager \<Rightarrow> BRPeerManager option" where
  "manager_thread env p opened inps m =
     do {
       c \<leftarrow> m_heap m p;
       (c, m) \<leftarrow> peerThreadRoutine (penv env) (manager_owner env p) opened inps (c, m);
       Some (if m_heap m p = None then peerThreadCleanup m else m\<lparr>m_heap := (m_heap m)(p \<mapsto> c)\<rparr>)
     }"

end
