(* ===== verification/PeerLists_Correct.thy ===== *)
theory PeerLists_Correct
  imports PeerManagerApi
begin

text \<open>
  The lists of peers by transaction as a map from hashes to sets of peers, a peer being its
  address and port.
\<close>

definition peer_id :: "BRPeer \<Rightarrow> UInt128 \<times> u16" where
  "peer_id p = (peer_address p, peer_port p)"

definition peers_of :: "BRTxPeerList list \<Rightarrow> UInt256 \<Rightarrow> (UInt128 \<times> u16) set" where
  "peers_of ls h = (case find_last (\<lambda>l. UInt256Eq (l_txHash l) h) ls of None \<Rightarrow> {} | Some l \<Rightarrow> peer_id ` set (l_peers l))"

definition lists_ok :: "BRTxPeerList list \<Rightarrow> bool" where
  "lists_ok ls \<longleftrightarrow> distinct (map l_txHash ls) \<and> (\<forall>l \<in> set ls. distinct (map peer_id (l_peers l)))"

lemma peer_eq: "BRPeerEq p q \<longleftrightarrow> peer_id p = peer_id q"
  by (simp add: BRPeerEq_def peer_id_def UInt128Eq_def)

lemma find_last_snoc: "find_last P (xs @ [x]) = (if P x then Some x else find_last P xs)"
  by (simp add: find_last_def)

lemma find_last_Cons: "find_last P (x # xs) = (case find_last P xs of None \<Rightarrow> if P x then Some x else None | Some y \<Rightarrow> Some y)"
proof (induction xs rule: rev_induct)
  case (snoc y xs)
  then show ?case using find_last_snoc [of P "x # xs" y] find_last_snoc [of P xs y] by simp
qed (simp add: find_last_def)

lemma find_last_None: "find_last P xs = None \<longleftrightarrow> (\<forall>x \<in> set xs. \<not> P x)"
  by (auto simp: find_last_def find_None_iff)

lemma update_last_None: "update_last P f xs = None \<longleftrightarrow> (\<forall>x \<in> set xs. \<not> P x)"
  by (induction xs) (auto split: option.splits)

text \<open>Changing the list of a hash.\<close>

lemma update_list:
  assumes "distinct (map l_txHash ls)" and "find_last (\<lambda>l. UInt256Eq (l_txHash l) h) ls = Some l"
    and f: "\<And>l. l_txHash (f l) = l_txHash l"
  shows "\<exists>ls'. update_last (\<lambda>l. UInt256Eq (l_txHash l) h) f ls = Some ls' \<and> map l_txHash ls' = map l_txHash ls \<and>
    l \<in> set ls \<and> set ls' \<subseteq> insert (f l) (set ls) \<and>
    peers_of ls' = (peers_of ls)(h := peer_id ` set (l_peers (f l)))"
  using assms(1,2)
proof (induction ls)
  case (Cons x xs)
  let ?P = "\<lambda>l. UInt256Eq (l_txHash l) h"
  show ?case
  proof (cases "find_last ?P xs")
    case None
    then have "?P x" "l = x" using Cons.prems(2) by (auto simp: find_last_Cons split: if_splits)
    moreover have "update_last ?P f xs = None" using None by (simp add: find_last_None update_last_None)
    moreover have "peers_of (f x # xs) k = ((peers_of (x # xs))(h := peer_id ` set (l_peers (f x)))) k" for k
      using None \<open>?P x\<close> by (auto simp: peers_of_def find_last_Cons f UInt256Eq_def split: option.splits)
    ultimately show ?thesis by (auto simp: f fun_eq_iff)
  next
    case (Some y)
    then have "find_last ?P xs = Some l" using Cons.prems(2) by (simp add: find_last_Cons)
    moreover have "distinct (map l_txHash xs)" using Cons.prems(1) by simp
    ultimately obtain ls' where ls': "update_last ?P f xs = Some ls'" "map l_txHash ls' = map l_txHash xs" "l \<in> set xs"
      "set ls' \<subseteq> insert (f l) (set xs)" "peers_of ls' = (peers_of xs)(h := peer_id ` set (l_peers (f l)))"
      using Cons.IH by blast
    have same: "find_last (\<lambda>l. UInt256Eq (l_txHash l) k) ls' = None \<longleftrightarrow> find_last (\<lambda>l. UInt256Eq (l_txHash l) k) xs = None" for k
      using ls'(2) by (simp add: find_last_None UInt256Eq_def) (metis (mono_tags, lifting) image_iff list.set_map)
    have "peers_of (x # ls') k = ((peers_of (x # xs))(h := peer_id ` set (l_peers (f l)))) k" for k
    proof -
      have "peers_of ls' k = ((peers_of xs)(h := peer_id ` set (l_peers (f l)))) k" using ls'(5) by simp
      then show ?thesis
        using same [of k] same [of h] Some
        by (auto simp: peers_of_def find_last_Cons split: option.splits if_splits)
    qed
    then show ?thesis using ls' Cons.prems by auto
  qed
qed (simp add: find_last_def)

lemma find_last_mem: "find_last P xs = Some x \<Longrightarrow> x \<in> set xs \<and> P x"
  by (auto simp: find_last_def find_Some_iff in_set_conv_nth rev_nth) (metis diff_less length_greater_0_conv list.size(3) not_less_zero rev_nth zero_less_Suc)

lemma remove_last_set:
  "distinct (map peer_id ps) \<Longrightarrow> peer_id ` set (remove_last_if (\<lambda>q. peer_id q = peer_id p) ps) = peer_id ` set ps - {peer_id p} \<and>
    distinct (map peer_id (remove_last_if (\<lambda>q. peer_id q = peer_id p) ps))"
proof (induction ps)
  case (Cons x xs)
  then show ?case by (auto simp: image_iff)
qed simp

lemma update_list_ok:
  assumes ok: "lists_ok ls" and l: "find_last (\<lambda>l. UInt256Eq (l_txHash l) h) ls = Some l"
    and f: "\<And>l. l_txHash (f l) = l_txHash l" "distinct (map peer_id (l_peers (f l)))"
  shows "\<exists>ls'. update_last (\<lambda>l. UInt256Eq (l_txHash l) h) f ls = Some ls' \<and> lists_ok ls' \<and>
    peers_of ls' = (peers_of ls)(h := peer_id ` set (l_peers (f l)))"
proof -
  obtain ls' where "update_last (\<lambda>l. UInt256Eq (l_txHash l) h) f ls = Some ls'" "map l_txHash ls' = map l_txHash ls"
    "set ls' \<subseteq> insert (f l) (set ls)" "peers_of ls' = (peers_of ls)(h := peer_id ` set (l_peers (f l)))"
    using update_list [of ls h l f] ok l f by (auto simp: lists_ok_def simp del: fun_upd_apply)
  then show ?thesis using ok f(2) by (auto simp: lists_ok_def simp del: fun_upd_apply)
qed

text \<open>The list that was found holds the set of its hash.\<close>

lemma found_list:
  assumes ok: "lists_ok ls" and l: "find_last (\<lambda>l. UInt256Eq (l_txHash l) h) ls = Some l"
  shows "peers_of ls h = peer_id ` set (l_peers l)" "distinct (map peer_id (l_peers l))"
    "(\<exists>q \<in> set (l_peers l). BRPeerEq q p) \<longleftrightarrow> peer_id p \<in> peers_of ls h" "length (l_peers l) = card (peers_of ls h)"
proof -
  show here: "peers_of ls h = peer_id ` set (l_peers l)" using l by (simp add: peers_of_def)
  show d: "distinct (map peer_id (l_peers l))" using find_last_mem [OF l] ok by (auto simp: lists_ok_def)
  show "(\<exists>q \<in> set (l_peers l). BRPeerEq q p) \<longleftrightarrow> peer_id p \<in> peers_of ls h"
    unfolding here peer_eq by (auto simp: image_iff) (metis)+
  show "length (l_peers l) = card (peers_of ls h)" using distinct_card [OF d] here by simp
qed

lemma has_spec:
  assumes ok: "lists_ok ls"
  shows "BRTxPeerListHasPeer ls h p \<longleftrightarrow> peer_id p \<in> peers_of ls h" "BRTxPeerListCount ls h = card (peers_of ls h)"
  using found_list [OF ok, of h]
  by (auto simp: BRTxPeerListHasPeer_def BRTxPeerListCount_def peers_of_def split: option.splits)

lemma add_spec:
  assumes ok: "lists_ok ls"
  shows "\<exists>ls'. BRTxPeerListAddPeer ls h p = (card (insert (peer_id p) (peers_of ls h)), ls') \<and> lists_ok ls' \<and>
    peers_of ls' = (peers_of ls)(h := insert (peer_id p) (peers_of ls h))"
proof (cases "find_last (\<lambda>l. UInt256Eq (l_txHash l) h) ls")
  case None
  then have "h \<notin> l_txHash ` set ls" by (auto simp: find_last_None UInt256Eq_def)
  moreover have "peers_of (ls @ [\<lparr>l_txHash = h, l_peers = [p]\<rparr>]) k = ((peers_of ls)(h := {peer_id p})) k" for k
    by (simp add: peers_of_def find_last_snoc UInt256Eq_def)
  ultimately show ?thesis using None ok
    by (auto simp: BRTxPeerListAddPeer_def peers_of_def lists_ok_def fun_eq_iff find_last_snoc)
next
  case (Some l)
  note l = found_list [OF ok Some]
  show ?thesis
  proof (cases "peer_id p \<in> peers_of ls h")
    case True
    then show ?thesis using Some l(3) [of p] l(4) ok by (auto simp: BRTxPeerListAddPeer_def insert_absorb)
  next
    case False
    let ?add = "\<lambda>l. l\<lparr>l_peers := l_peers l @ [p]\<rparr>"
    obtain ls' where ls': "update_last (\<lambda>l. UInt256Eq (l_txHash l) h) ?add ls = Some ls'" "lists_ok ls'"
      "peers_of ls' = (peers_of ls)(h := insert (peer_id p) (peers_of ls h))"
      using update_list_ok [OF ok Some, of ?add] False l(1,2) by auto
    moreover have "finite (peers_of ls h)" by (simp add: l(1))
    ultimately show ?thesis using Some l(3) [of p] l(4) False by (simp add: BRTxPeerListAddPeer_def)
  qed
qed

lemma remove_spec:
  assumes ok: "lists_ok ls"
  shows "\<exists>ls'. BRTxPeerListRemovePeer ls h p = (peer_id p \<in> peers_of ls h, ls') \<and> lists_ok ls' \<and>
    peers_of ls' = (peers_of ls)(h := peers_of ls h - {peer_id p})"
proof (cases "peer_id p \<in> peers_of ls h")
  case True
  then obtain l where l: "find_last (\<lambda>l. UInt256Eq (l_txHash l) h) ls = Some l"
    by (auto simp: peers_of_def split: option.splits)
  let ?rm = "\<lambda>l. l\<lparr>l_peers := remove_last_if (\<lambda>q. BRPeerEq q p) (l_peers l)\<rparr>"
  obtain ls' where ls': "update_last (\<lambda>l. UInt256Eq (l_txHash l) h) ?rm ls = Some ls'" "lists_ok ls'"
    "peers_of ls' = (peers_of ls)(h := peers_of ls h - {peer_id p})"
    using update_list_ok [OF ok l, of ?rm] remove_last_set [OF found_list(2) [OF ok l], of p] found_list(1) [OF ok l]
    by (auto simp: peer_eq)
  then show ?thesis using True has_spec [OF ok] by (simp add: BRTxPeerListRemovePeer_def)
next
  case False
  then show ?thesis using has_spec [OF ok] ok by (simp add: BRTxPeerListRemovePeer_def)
qed

text \<open>
  Claim C35.  Lists of peers by transaction implement a map from hashes to sets of peers: asking
  for a peer is membership, counting is cardinality, adding inserts and reports the new number,
  removing deletes and reports whether the peer was there; no other hash is affected, and no
  hash and no peer is ever listed twice.
\<close>

theorem relay_lists_refine:
  assumes ok: "lists_ok ls"
  shows "(BRTxPeerListHasPeer ls h p \<longleftrightarrow> peer_id p \<in> peers_of ls h) \<and>
    BRTxPeerListCount ls h = card (peers_of ls h) \<and>
    (case BRTxPeerListAddPeer ls h p of (n, ls') \<Rightarrow> lists_ok ls' \<and> n = card (peers_of ls' h) \<and>
       peers_of ls' = (peers_of ls)(h := insert (peer_id p) (peers_of ls h))) \<and>
    (case BRTxPeerListRemovePeer ls h p of (found, ls') \<Rightarrow> lists_ok ls' \<and> (found \<longleftrightarrow> peer_id p \<in> peers_of ls h) \<and>
       peers_of ls' = (peers_of ls)(h := peers_of ls h - {peer_id p}))"
  using has_spec [OF ok] add_spec [OF ok, of h p] remove_spec [OF ok, of h p] by auto

text \<open>Two lists, with two peers and one peer.\<close>

definition some_lists :: "BRTxPeerList list" where
  "some_lists = [\<lparr>l_txHash = 5, l_peers = [BR_PEER_NONE, BR_PEER_NONE\<lparr>peer_port := 1\<rparr>]\<rparr>, \<lparr>l_txHash = 6, l_peers = [BR_PEER_NONE]\<rparr>]"

lemma relay_lists_refine_witness:
  "snd (BRTxPeerListRemovePeer some_lists 5 BR_PEER_NONE) =
     [\<lparr>l_txHash = 5, l_peers = [BR_PEER_NONE\<lparr>peer_port := 1\<rparr>]\<rparr>, \<lparr>l_txHash = 6, l_peers = [BR_PEER_NONE]\<rparr>] \<and>
   peers_of (snd (BRTxPeerListRemovePeer some_lists 5 BR_PEER_NONE)) 5 = {(0, 1)}"
proof -
  have ok: "lists_ok some_lists" by (simp add: lists_ok_def some_lists_def peer_id_def BR_PEER_NONE_def)
  have "peers_of some_lists 5 = {(0, 0), (0, 1)}"
    by (auto simp: peers_of_def some_lists_def find_last_def peer_id_def BR_PEER_NONE_def UInt256Eq_def)
  then show ?thesis using relay_lists_refine [OF ok, of 5 BR_PEER_NONE]
    by (auto simp: BRTxPeerListRemovePeer_def BRTxPeerListHasPeer_def some_lists_def find_last_def peer_id_def BR_PEER_NONE_def
        peer_eq UInt256Eq_def split: prod.splits)
qed

end
