(* ===== verification/PeerDemo.thy ===== *)
theory PeerDemo
  imports PeerManagerApi
begin

text \<open>A small peer manager, to which the theorems about managers are applied.\<close>

section \<open>A manager with three blocks above the genesis block\<close>

definition demo_block :: "nat \<Rightarrow> BRMerkleBlock" where
  "demo_block n = BRMerkleBlockNew\<lparr>blockHash := word_of_nat (n + 1), prevBlock := word_of_nat n, height := word_of_nat n\<rparr>"

definition demo_ptr :: "nat \<Rightarrow> block_ptr" where "demo_ptr n = (n, demo_block n)"

definition demo_set :: "block_ptr option list \<Rightarrow> block_ptr BRSet" where
  "demo_set bs = (BRSetNew (\<lambda>b. BRMerkleBlockHash (snd b)) (\<lambda>b b'. BRMerkleBlockEq (snd b) (snd b')) 10)
     \<lparr>table := bs, itemCount := length (filter (\<lambda>b. b \<noteq> None) bs)\<rparr>"

definition demo_params :: BRChainParams where
  "demo_params = BRMainNetParams\<lparr>checkpoints := [\<lparr>cp_height = 0, cp_hash = UInt256Reverse 1, cp_timestamp = 0, cp_target = 0\<rparr>]\<rparr>"

definition demo_manager :: BRPeerManager where
  "demo_manager =
     \<lparr>m_params = demo_params, m_wallet = empty_wallet 0 0, isConnected = False, connectFailureCount = 0, misbehavinCount = 0,
      peerThreadCount = 0, maxConnectCount = 3, m_peers = [], downloadPeer = None, fixedPeer = BR_PEER_NONE,
      connectedPeers = [], m_earliestKeyTime = 0, syncStartHeight = 0, filterUpdateHeight = 0, estimatedHeight = 3,
      bloomFilter = Some BR_BLOOM_FILTER_FULL, fpRate = 0, averageTxPerBlock = 1400,
      blocks = demo_set [None, Some (demo_ptr 0), Some (demo_ptr 1), Some (demo_ptr 2), Some (demo_ptr 3)],
      orphans = BRSetNew BRPrevBlockHash BRPrevBlockEq 0, m_checkpoints = BRSetNew BRBlockHeightHash BRBlockHeightEq 0,
      lastBlock = demo_ptr 3, lastOrphan = None, txRelays = [], txRequests = [], publishedTx = [], publishedTxHashes = [],
      m_heap = Map.empty, nextPeer = 0, freedBlocks = {}, nextBlock = 4, m_draws = 0, m_events = []\<rparr>"

lemmas demo_defs = demo_manager_def demo_set_def demo_ptr_def demo_block_def BRMerkleBlockNew_def hash_key_def BRMerkleBlockHash_def
  BRMerkleBlockEq_def UInt256Eq_def u32_of_def

text \<open>A lookup that ends in the first bucket.\<close>

lemma get_at_once:
  "table s \<noteq> [] \<Longrightarrow> \<not> other s x (hash s x mod buckets s) \<Longrightarrow> BRSetGet s x = Some (table s ! (hash s x mod buckets s))"
  by (simp add: BRSetGet_def probe_def while_option_unfold)

text \<open>An addition to an empty bucket of a table that need not grow.\<close>

lemma add_at_once:
  "table s \<noteq> [] \<Longrightarrow> table s ! (hash s x mod buckets s) = None \<Longrightarrow> itemCount s + 1 \<le> ((buckets s + 2) div 3) * 2 \<Longrightarrow>
    BRSetAdd s x = Some (None, s\<lparr>table := (table s)[hash s x mod buckets s := Some x], itemCount := itemCount s + 1\<rparr>)"
proof -
  assume a: "table s \<noteq> []" "table s ! (hash s x mod buckets s) = None" "itemCount s + 1 \<le> ((buckets s + 2) div 3) * 2"
  have "BRSetAdd s x = add_depth (Suc 51) s x" unfolding BRSetAdd_def by simp
  moreover have "probe s x = Some (hash s x mod buckets s)" using a by (simp add: probe_def while_option_unfold other_def)
  ultimately show ?thesis using a unfolding add_depth.simps by simp
qed

lemma demo_get:
  "get_block demo_manager 0 = Some None" "get_block demo_manager 1 = Some (Some (demo_ptr 0))"
  "get_block demo_manager 2 = Some (Some (demo_ptr 1))" "get_block demo_manager 3 = Some (Some (demo_ptr 2))"
  unfolding get_block_def by (subst get_at_once; simp add: other_def demo_defs BRSetNew_def)+

definition demo_env :: manager_env where
  "demo_env =
     \<lparr>penv = \<lparr>clock = 0, unixTime = 0, randoms = 1, sendOk = (\<lambda>_. True), reachable = True, threadOk = True,
        movesTo = (\<lambda>_. False), junkFlags = 0\<rparr>,
      wenv = wallet_env.make (\<lambda>chain i. Some (ucast i)) (\<lambda>chain n. False) 0,
      dnsLookup = (\<lambda>_. []), dnsAge = (\<lambda>_. 0), answered = (\<lambda>_. True), rand = (\<lambda>_ _. 0)\<rparr>"

end
