(* ===== verification/PeerChain_Correct.thy ===== *)
theory PeerChain_Correct
  imports PeerDemo
begin

text \<open>
  The chain that hangs on a block, as a list of pointers, and what the walks along it do: the
  block locators, and the reorganisation for a longer fork.
\<close>

section \<open>Chains\<close>

text \<open>
  The pointers from a block down to the last one whose predecessor is stored.  Heights go down
  by one and reach 0 at the end at most.
\<close>

definition linked :: "BRPeerManager \<Rightarrow> block_ptr list \<Rightarrow> bool" where
  "linked m bs \<longleftrightarrow>
     (\<forall>i < length bs. fst (bs ! i) \<notin> freedBlocks m \<and>
       get_block m (prevBlock (snd (bs ! i))) = Some (if Suc i < length bs then Some (bs ! Suc i) else None)) \<and>
     (\<forall>i. Suc i < length bs \<longrightarrow> height (snd (bs ! i)) \<noteq> 0 \<and> height (snd (bs ! Suc i)) = height (snd (bs ! i)) - 1)"

lemma linked_deref: "linked m bs \<Longrightarrow> i < length bs \<Longrightarrow> deref m (bs ! i) = Some (snd (bs ! i))"
  by (simp add: linked_def deref_def)

lemma linked_prev:
  "linked m bs \<Longrightarrow> i < length bs \<Longrightarrow> get_block m (prevBlock (snd (bs ! i))) = Some (if Suc i < length bs then Some (bs ! Suc i) else None)"
  by (simp add: linked_def)

lemma linked_height:
  assumes "linked m bs" and "i + k < length bs"
  shows "unat (height (snd (bs ! i))) = unat (height (snd (bs ! (i + k)))) + k"
  using assms(2)
proof (induction k)
  case (Suc k)
  then have "height (snd (bs ! (i + k))) \<noteq> 0" "height (snd (bs ! (i + Suc k))) = height (snd (bs ! (i + k))) - 1"
    using assms(1) by (simp_all add: linked_def)
  then have "unat (height (snd (bs ! (i + Suc k)))) + 1 = unat (height (snd (bs ! (i + k))))"
    using unat_minus_one [of "height (snd (bs ! (i + k)))"] unat_gt_0 [of "height (snd (bs ! (i + k)))"] by simp
  moreover have "unat (height (snd (bs ! i))) = unat (height (snd (bs ! (i + k)))) + k" using Suc by simp
  ultimately show ?case by simp
qed simp

lemma linked_frame: "blocks m' = blocks m \<Longrightarrow> freedBlocks m' = freedBlocks m \<Longrightarrow> linked m' bs \<longleftrightarrow> linked m bs"
  by (simp add: linked_def get_block_def)

lemma linked_go_back:
  assumes "linked m bs"
  shows "go_back m n (if j < length bs then Some (bs ! j) else None) = Some (if j + n < length bs then Some (bs ! (j + n)) else None)"
proof (induction n arbitrary: j)
  case (Suc n)
  show ?case
  proof (cases "j < length bs")
    case True
    then show ?thesis using Suc.IH [of "Suc j"] assms by (simp add: linked_deref linked_prev)
  qed simp
qed simp

lemma linked_tl:
  assumes l: "linked m (b # bs)"
  shows "linked m bs"
proof -
  have "fst (bs ! i) \<notin> freedBlocks m \<and>
    get_block m (prevBlock (snd (bs ! i))) = Some (if Suc i < length bs then Some (bs ! Suc i) else None)" if "i < length bs" for i
    using linked_prev [OF l, of "Suc i"] l that by (force simp: linked_def)
  moreover have "height (snd (bs ! i)) \<noteq> 0 \<and> height (snd (bs ! Suc i)) = height (snd (bs ! i)) - 1" if "Suc i < length bs" for i
  proof -
    have "Suc (Suc i) < length (b # bs)" using that by simp
    then show ?thesis using l unfolding linked_def by (metis nth_Cons_Suc)
  qed
  ultimately show ?thesis by (simp add: linked_def)
qed

lemma linked_Cons:
  assumes l: "linked m bs" "bs \<noteq> []" and b: "fst b \<notin> freedBlocks m" "get_block m (prevBlock (snd b)) = Some (Some (hd bs))"
    "height (snd b) \<noteq> 0" "height (snd (hd bs)) = height (snd b) - 1"
  shows "linked m (b # bs)"
  using l b by (auto simp: linked_def nth_Cons hd_conv_nth split: nat.splits)

section \<open>Block locators\<close>

text \<open>How far below the top the \<open>i\<close>-th locator is: ten in a row, then steps that double.\<close>

primrec locator_depth :: "nat \<Rightarrow> nat" where
  "locator_depth 0 = 0"
| "locator_depth (Suc i) = locator_depth i + 2 ^ (Suc i - 9)"

text \<open>How many blocks are above height 0.\<close>

definition above_genesis :: "block_ptr list \<Rightarrow> nat" where
  "above_genesis bs = (if height (snd (last bs)) = 0 then length bs - 1 else length bs)"

definition locator_depths :: "nat \<Rightarrow> nat list" where
  "locator_depths n = takeWhile (\<lambda>d. d < n) (map locator_depth [0..<n])"

lemma depth_step: "2 ^ (i - 8) \<le> locator_depth i + 1"
proof (induction i)
  case (Suc i)
  show ?case
  proof (cases "i < 8")
    case False
    then have e: "Suc i - 8 = Suc (i - 8)" "Suc i - 9 = i - 8" by simp_all
    have "(2::nat) ^ (Suc i - 8) = 2 ^ (i - 8) + 2 ^ (i - 8)" using e by simp
    also have "\<dots> \<le> locator_depth i + 1 + 2 ^ (Suc i - 9)" using Suc e by simp
    finally show ?thesis by simp
  qed simp
qed simp

lemma locator_loop_end:
  assumes l: "linked m bs" "bs \<noteq> []" and i: "\<not> j < above_genesis bs"
  shows "locator_loop m (if j < length bs then Some (bs ! j) else None) step i = Some []"
proof (cases "j < length bs")
  case True
  then have "j = length bs - 1" "height (snd (last bs)) = 0" using i l(2) by (auto simp: above_genesis_def split: if_splits)
  then have "height (snd (bs ! j)) = 0" using l(2) by (simp add: last_conv_nth)
  then show ?thesis using True l by (simp add: locator_loop.simps linked_deref)
qed (simp add: locator_loop.simps)

lemma above_positive:
  assumes "linked m bs" "bs \<noteq> []" and j: "j < above_genesis bs"
  shows "j < length bs" "height (snd (bs ! j)) > 0"
proof -
  show len: "j < length bs" using j by (auto simp: above_genesis_def split: if_splits)
  show "height (snd (bs ! j)) > 0"
  proof (cases "Suc j < length bs")
    case True
    then show ?thesis using assms(1) by (simp add: linked_def word_neq_0_conv)
  next
    case False
    then have "j = length bs - 1" using len by simp
    then have "bs ! j = last bs" using assms(2) by (simp add: last_conv_nth)
    then show ?thesis using j False by (auto simp: above_genesis_def word_neq_0_conv split: if_splits)
  qed
qed

lemma locator_loop_linked:
  assumes l: "linked m bs" "bs \<noteq> []" and small: "length bs < 2 ^ 31"
    and d: "above_genesis bs \<le> locator_depth i + d"
  shows "locator_loop m (if locator_depth i < length bs then Some (bs ! locator_depth i) else None) (2 ^ (i - 9)) i =
    Some (map (\<lambda>k. blockHash (snd (bs ! k))) (takeWhile (\<lambda>k. k < above_genesis bs) (map locator_depth [i..<i + d])))"
  using d
proof (induction d arbitrary: i)
  case (Suc d)
  show ?case
  proof (cases "locator_depth i < above_genesis bs")
    case True
    note here = above_positive [OF l True]
    have step: "(if i + 1 \<ge> 10 then 2 * 2 ^ (i - 9) else 2 ^ (i - 9)) = (2::nat) ^ (Suc i - 9)"
    proof (cases "i \<ge> 9")
      case True
      then show ?thesis using Suc_diff_le [of 9 i] by simp
    qed simp
    have "(2::nat) ^ (Suc i - 9) < 2 ^ 31" using depth_step [of i] here(1) small by simp
    moreover define X where "X = (if locator_depth (Suc i) < length bs then Some (bs ! locator_depth (Suc i)) else None)"
    moreover have "go_back m (2 ^ (Suc i - 9)) (Some (bs ! locator_depth i)) = Some X"
      using linked_go_back [OF l(1), of "2 ^ (Suc i - 9)" "locator_depth i"] here(1) by (simp add: X_def)
    moreover define hs where "hs = map (\<lambda>k. blockHash (snd (bs ! k)))
      (takeWhile (\<lambda>k. k < above_genesis bs) (map locator_depth [Suc i..<Suc i + d]))"
    moreover have "locator_loop m X (2 ^ (Suc i - 9)) (Suc i) = Some hs"
      unfolding X_def hs_def
    proof (rule Suc.IH)
      show "above_genesis bs \<le> locator_depth (Suc i) + d" using Suc.prems one_le_power [of "2::nat" "Suc i - 9"] unfolding locator_depth.simps by linarith
    qed
    ultimately have "locator_loop m (Some (bs ! locator_depth i)) (2 ^ (i - 9)) i = Some (blockHash (snd (bs ! locator_depth i)) # hs)"
      using here l(1) step by (subst locator_loop.simps) (simp add: linked_deref Let_def)
    moreover have "[i..<i + Suc d] = i # [Suc i..<Suc i + d]" by (simp add: upt_rec)
    ultimately show ?thesis using True here(1) by (simp add: hs_def del: upt_Suc)
  next
    case False
    then show ?thesis using locator_loop_end [OF l False] by (simp add: upt_rec)
  qed
next
  case 0
  then show ?case using locator_loop_end [OF l, of "locator_depth i"] by simp
qed

text \<open>
  Claim C34.  On a linked chain the block locators are found, and they are the hashes of the ten
  topmost blocks above height 0, then of blocks at steps that double, each once and downwards,
  and the genesis block at the end, whatever gaps lie below the chain.
\<close>

theorem block_locators_linked:
  assumes "linked m bs" and "bs \<noteq> []" and "hd bs = lastBlock m" and "length bs < 2 ^ 31"
    and "checkpoints (m_params m) \<noteq> []"
  shows "block_locators m = Some (map (\<lambda>d. blockHash (snd (bs ! d))) (locator_depths (above_genesis bs)) @
    [UInt256Reverse (cp_hash (hd (checkpoints (m_params m))))])"
proof -
  define hs where "hs = map (\<lambda>d. blockHash (snd (bs ! d))) (locator_depths (above_genesis bs))"
  have "locator_loop m (Some (lastBlock m)) 1 0 = Some hs"
    using locator_loop_linked [OF assms(1,2,4), of 0 "above_genesis bs"] assms(2,3)
    by (simp add: hs_def locator_depths_def hd_conv_nth)
  then show ?thesis using assms(5)
    by (auto simp: block_locators_def BRPeerManagerBlockLocators_def genesis_block_hash_def hs_def [symmetric]
        split: list.splits)
qed

lemma demo_linked: "linked demo_manager [demo_ptr 3, demo_ptr 2, demo_ptr 1, demo_ptr 0]"
proof -
  have f: "freedBlocks demo_manager = {}" by (simp add: demo_manager_def)
  show ?thesis unfolding linked_def
    by (simp add: f less_Suc_eq nth_Cons' demo_get) (simp add: demo_ptr_def demo_block_def BRMerkleBlockNew_def demo_get)
qed

lemma block_locators_linked_witness:
  "block_locators demo_manager = Some [4, 3, 2, 1]"
proof -
  let ?bs = "[demo_ptr 3, demo_ptr 2, demo_ptr 1, demo_ptr 0]"
  have "above_genesis ?bs = 3" by (simp add: above_genesis_def demo_ptr_def demo_block_def)
  moreover have "locator_depths 3 = [0, 1, 2]" by (simp add: locator_depths_def upt_rec numeral_2_eq_2)
  ultimately show ?thesis
    using block_locators_linked [OF demo_linked]
    by (simp add: demo_manager_def demo_params_def UInt256Reverse_involution) (simp add: demo_ptr_def demo_block_def)
qed

end
