(* ===== verification/PeerFork_Correct.thy ===== *)
theory PeerFork_Correct
  imports PeerChain_Correct
begin

text \<open>
  A fork that has become longer than the main chain: the walks of the code along the two
  chains against a definition that works on the lists of their blocks.
\<close>

text \<open>The heights of the transactions of one block of the new chain, whose predecessor is given.\<close>

definition confirm_block :: "manager_env \<Rightarrow> block_ptr \<times> block_ptr \<Rightarrow> BRPeerManager \<Rightarrow> BRPeerManager option" where
  "confirm_block env = (\<lambda>(x, prev) m.
     do {
       hs \<leftarrow> block_tx_hashes (snd x);
       update_heights env hs (height (snd x)) (timestamp (snd x) div 2 + timestamp (snd prev) div 2) m
     })"

definition reorganise :: "manager_env \<Rightarrow> block_ptr list \<Rightarrow> block_ptr \<Rightarrow> BRPeerManager \<Rightarrow> BRPeerManager option" where
  "reorganise env xs join m =
     do {
       m \<leftarrow> wallet_op (\<lambda>w. BRWalletSetTxUnconfirmedAfter (wenv env) w (height (snd join))) m;
       for_each (zip xs (tl xs @ [join])) (confirm_block env) m
     }"

lemma wallet_op_frame:
  "wallet_op f m = Some m' \<Longrightarrow> blocks m' = blocks m \<and> freedBlocks m' = freedBlocks m \<and> lastBlock m' = lastBlock m"
  by (auto simp: wallet_op_def)

lemma update_heights_frame:
  "update_heights env hs h t m = Some m' \<Longrightarrow> blocks m' = blocks m \<and> freedBlocks m' = freedBlocks m \<and> lastBlock m' = lastBlock m"
  by (auto simp: update_heights_def wallet_op_frame split: if_splits dest: wallet_op_frame)

lemma add_block_last: "add_block b m = Some (old, m') \<Longrightarrow> lastBlock m' = lastBlock m"
  by (auto simp: add_block_def)

section \<open>Where the chains join\<close>

lemma height_above:
  assumes "linked m (xs @ zs)" and "zs \<noteq> []" and "i \<le> length xs"
  shows "unat (height (snd ((xs @ zs) ! i))) = unat (height (snd (hd zs))) + (length xs - i)"
  using linked_height [OF assms(1), of i "length xs - i"] assms(2,3) by (simp add: nth_append hd_conv_nth)

lemma join_loop_linked:
  assumes l: "linked m (xs @ zs)" "linked m (ys @ zs)" "zs \<noteq> []" and len: "length ys < length xs"
    and new: "\<forall>x \<in> set xs. \<forall>y \<in> set (ys @ zs). \<not> BRMerkleBlockEq (snd x) (snd y)"
    and i: "i + k = length xs" and d: "d = length xs - length ys"
  shows "join_loop m (Some ((xs @ zs) ! i)) (Some ((ys @ zs) ! (i - d))) = Some (Some (hd zs), Some (hd zs))"
  using i
proof (induction k arbitrary: i)
  case 0
  then have "(xs @ zs) ! i = hd zs" "(ys @ zs) ! (i - d) = hd zs" using len d l(3) by (simp_all add: nth_append hd_conv_nth)
  moreover have "deref m (hd zs) = Some (snd (hd zs))"
    using linked_deref [OF l(1), of "length xs"] l(3) by (simp add: nth_append hd_conv_nth)
  ultimately show ?case by (simp add: join_loop.simps BRMerkleBlockEq_def UInt256Eq_def)
next
  case (Suc k)
  define x y where "x = (xs @ zs) ! i" and "y = (ys @ zs) ! (i - d)"
  have "length zs > 0" using l(3) by simp
  then have i: "i < length xs" "i - d < length (ys @ zs)" using Suc.prems d len unfolding length_append by arith+
  have eqs: "deref m x = Some (snd x)" "deref m y = Some (snd y)" "\<not> BRMerkleBlockEq (snd x) (snd y)"
    unfolding x_def y_def
    using linked_deref [OF l(1), of i] linked_deref [OF l(2) i(2)] nth_mem [OF i(1)] nth_mem [OF i(2)] i(1) new
    by (simp_all add: nth_append_left)
  have bx: "get_block m (prevBlock (snd x)) = Some (Some ((xs @ zs) ! Suc i))" "deref m ((xs @ zs) ! Suc i) = Some (snd ((xs @ zs) ! Suc i))"
    using linked_prev [OF l(1), of i] linked_deref [OF l(1), of "Suc i"] i(1) \<open>length zs > 0\<close> by (simp_all add: x_def)
  have h: "unat (height (snd ((xs @ zs) ! Suc i))) = unat (height (snd (hd zs))) + (length xs - Suc i)"
    "unat (height (snd y)) = unat (height (snd (hd zs))) + (length ys - (i - d))"
    using height_above [OF l(1,3), of "Suc i"] height_above [OF l(2,3), of "i - d"] i d by (simp_all add: y_def)
  have "(if height (snd ((xs @ zs) ! Suc i)) < height (snd y) then get_block m (prevBlock (snd y)) else Some (Some y)) =
    Some (Some ((ys @ zs) ! (Suc i - d)))"
  proof (cases "i < d")
    case True
    then have "\<not> height (snd ((xs @ zs) ! Suc i)) < height (snd y)" using h d len unfolding word_less_nat_alt by arith
    then show ?thesis using True by (simp add: y_def)
  next
    case False
    then have "Suc (i - d) < length (ys @ zs)" "Suc i - d = Suc (i - d)" "length xs - Suc i < length ys - (i - d)"
      using False i(1) d len \<open>length zs > 0\<close> unfolding length_append by arith+
    moreover from this have "height (snd ((xs @ zs) ! Suc i)) < height (snd y)"
      unfolding word_less_nat_alt h by (metis add_less_cancel_left)
    ultimately show ?thesis using linked_prev [OF l(2) i(2)] by (simp add: y_def)
  qed
  then have "join_loop m (Some x) (Some y) = join_loop m (Some ((xs @ zs) ! Suc i)) (Some ((ys @ zs) ! (Suc i - d)))"
    using eqs bx by (subst join_loop.simps) simp
  then show ?case using Suc.IH [of "Suc i"] Suc.prems by (simp add: x_def y_def)
qed

section \<open>The transactions of the new chain\<close>

lemma reorg_loop_linked:
  assumes "linked m (xs @ zs)" and "zs \<noteq> []"
  shows "reorg_loop env (Some (hd (xs @ zs))) (snd (hd zs)) m = for_each (zip xs (tl xs @ [hd zs])) (confirm_block env) m"
  using assms(1)
proof (induction xs arbitrary: m)
  case Nil
  then show ?case using linked_deref [OF Nil, of 0] assms(2) by (simp add: reorg_loop.simps hd_conv_nth)
next
  case (Cons x xs)
  have x: "deref m x = Some (snd x)" "height (snd x) > height (snd (hd zs))"
    using linked_deref [OF Cons.prems, of 0] height_above [OF Cons.prems assms(2), of 0] by (simp_all add: word_less_nat_alt)
  have prev: "get_block m (prevBlock (snd x)) = Some (Some (hd (xs @ zs)))" "deref m (hd (xs @ zs)) = Some (snd (hd (xs @ zs)))"
    using linked_prev [OF Cons.prems, of 0] linked_deref [OF Cons.prems, of 1] assms(2) by (simp_all add: hd_conv_nth)
  have z: "zip (x # xs) (tl (x # xs) @ [hd zs]) = (x, hd (xs @ zs)) # zip xs (tl xs @ [hd zs])"
    using assms(2) by (cases xs) simp_all
  have "linked m (xs @ zs)" using linked_tl [of m x "xs @ zs"] Cons.prems by simp
  then have rest: "reorg_loop env (Some (hd (xs @ zs))) (snd (hd zs)) m' = for_each (zip xs (tl xs @ [hd zs])) (confirm_block env) m'"
    if "update_heights env hs h t m = Some m'" for hs h t m'
    using Cons.IH [of m'] update_heights_frame [OF that] linked_frame by blast
  show ?case unfolding z
    using x prev by (subst reorg_loop.simps) (auto simp: confirm_block_def rest split: option.splits bind_splits)
qed

text \<open>
  Claim C6.  A block that makes a fork longer than the main chain reorganises the wallet along
  the lists of blocks: transactions above the block where the chains join become unconfirmed,
  the blocks of the fork above it, newest first, give their transactions their height and the
  mean time with their predecessor, and the block becomes the last one.
\<close>

theorem fork_reorganises:
  assumes "add_block b m = Some (old, m1)" and "linked m1 (xs @ zs)" and "linked m1 (ys @ zs)" and "zs \<noteq> []"
    and "hd (xs @ zs) = b" and "hd (ys @ zs) = lastBlock m" and "length ys < length xs"
    and "\<forall>x \<in> set xs. \<forall>y \<in> set (ys @ zs). \<not> BRMerkleBlockEq (snd x) (snd y)"
  shows "join_fork env b m =
    do {
      m2 \<leftarrow> reorganise env xs (hd zs) m1;
      (saveCount, m3) \<leftarrow> finish_chain env (height (snd b)) 0 (m2\<lparr>lastBlock := b\<rparr>);
      Some (Some b, saveCount, m3)
    }"
proof -
  have last: "lastBlock m1 = hd (ys @ zs)" using add_block_last [OF assms(1)] assms(6) by simp
  have ne: "xs @ zs \<noteq> []" "ys @ zs \<noteq> []" using assms(4) by simp_all
  have top: "deref m1 (hd (ys @ zs)) = Some (snd (hd (ys @ zs)))"
    using linked_deref [OF assms(3), of 0] ne by (simp add: hd_conv_nth)
  have "height (snd b) > height (snd (hd (ys @ zs)))"
    using height_above [OF assms(2,4), of 0] height_above [OF assms(3,4), of 0] assms(5,7) ne
    by (simp add: word_less_nat_alt hd_conv_nth del: hd_append2)
  moreover have "join_loop m1 (Some b) (Some (hd (ys @ zs))) = Some (Some (hd zs), Some (hd zs))"
    using join_loop_linked [OF assms(2-4,7,8), of 0 "length xs"] assms(5) ne by (simp add: hd_conv_nth del: hd_append2)
  moreover have z: "deref m1 (hd zs) = Some (snd (hd zs))"
    using linked_deref [OF assms(2), of "length xs"] assms(4) by (simp add: nth_append hd_conv_nth)
  moreover have "deref m2 (hd zs) = Some (snd (hd zs))"
    "reorg_loop env (Some b) (snd (hd zs)) m2 = for_each (zip xs (tl xs @ [hd zs])) (confirm_block env) m2"
    if "wallet_op f m1 = Some m2" for f m2
    using wallet_op_frame [OF that] z reorg_loop_linked [of m2 xs zs env] linked_frame [of m2 m1] assms(2,4,5)
    by (simp_all add: deref_def)
  ultimately show ?thesis
    using assms(1) top
    by (cases "wallet_op (\<lambda>w. BRWalletSetTxUnconfirmedAfter (wenv env) w (height (snd (hd zs)))) m1")
      (simp_all add: join_fork_def last reorganise_def)
qed

text \<open>The fork of blocks 2 and 3 against another block of height 2.\<close>

definition demo_rival :: block_ptr where "demo_rival = (9, (demo_block 2)\<lparr>blockHash := 12\<rparr>)"

definition demo_fork :: BRPeerManager where
  "demo_fork = demo_manager\<lparr>lastBlock := demo_rival,
     blocks := demo_set [None, Some (demo_ptr 0), Some (demo_ptr 1), Some (demo_ptr 2), None]\<rparr>"

lemma demo_fork_adds: "add_block (demo_ptr 3) demo_fork = Some (None, demo_manager\<lparr>lastBlock := demo_rival\<rparr>)"
proof -
  have m: "demo_manager\<lparr>lastBlock := demo_rival, blocks := demo_set [None, Some (demo_ptr 0), Some (demo_ptr 1), Some (demo_ptr 2), Some (demo_ptr 3)]\<rparr> =
    demo_manager\<lparr>lastBlock := demo_rival\<rparr>"
    by (simp add: demo_manager_def)
  have "BRSetAdd (demo_set [None, Some (demo_ptr 0), Some (demo_ptr 1), Some (demo_ptr 2), None]) (demo_ptr 3) =
    Some (None, demo_set [None, Some (demo_ptr 0), Some (demo_ptr 1), Some (demo_ptr 2), Some (demo_ptr 3)])"
    by (subst add_at_once) (simp_all add: demo_set_def BRSetNew_def demo_ptr_def demo_block_def BRMerkleBlockHash_def u32_of_def)
  then show ?thesis using m by (simp add: add_block_def demo_fork_def)
qed

lemma fork_reorganises_witness:
  "join_fork demo_env (demo_ptr 3) demo_fork =
    do {
      m2 \<leftarrow> reorganise demo_env [demo_ptr 3, demo_ptr 2] (demo_ptr 1) (demo_manager\<lparr>lastBlock := demo_rival\<rparr>);
      (saveCount, m3) \<leftarrow> finish_chain demo_env 3 0 (m2\<lparr>lastBlock := demo_ptr 3\<rparr>);
      Some (Some (demo_ptr 3), saveCount, m3)
    }"
proof -
  let ?m = "demo_manager\<lparr>lastBlock := demo_rival\<rparr>"
  have main: "linked ?m ([demo_ptr 3, demo_ptr 2] @ [demo_ptr 1, demo_ptr 0])"
    using demo_linked linked_frame [of ?m demo_manager] by simp
  have "linked ?m [demo_ptr 1, demo_ptr 0]"
    using linked_tl [OF linked_tl] main by simp
  moreover have "get_block ?m (prevBlock (snd demo_rival)) = Some (Some (demo_ptr 1))"
    using demo_get(3) by (simp add: get_block_def demo_rival_def demo_block_def)
  ultimately have rival: "linked ?m ([demo_rival] @ [demo_ptr 1, demo_ptr 0])"
    using linked_Cons [of ?m "[demo_ptr 1, demo_ptr 0]" demo_rival]
    by (simp add: demo_manager_def) (simp add: demo_rival_def demo_ptr_def demo_block_def)
  have h: "height (snd (demo_ptr 3)) = 3" by (simp add: demo_ptr_def demo_block_def)
  show ?thesis
    using fork_reorganises [OF demo_fork_adds main rival, of demo_env]
    by (simp add: h) (simp add: demo_fork_def demo_rival_def demo_ptr_def demo_block_def BRMerkleBlockEq_def UInt256Eq_def)
qed

end
