(* ===== verification/PeerManager_Correct.thy ===== *)
theory PeerManager_Correct
  imports PeerLists_Correct PeerDemo HashSet_Correct Post
begin

text \<open>
  The invariant of the peer manager, and that every callback and every operation of the
  interface keeps it.
\<close>

section \<open>The invariant\<close>

definition manager_ok :: "BRPeerManager \<Rightarrow> bool" where
  "manager_ok m \<longleftrightarrow>
     distinct (connectedPeers m) \<and> dom (m_heap m) = set (connectedPeers m) \<and> (\<forall>p \<in> set (connectedPeers m). p < nextPeer m) \<and>
     (\<forall>d. downloadPeer m = Some d \<longrightarrow> d \<in> set (connectedPeers m)) \<and> (isConnected m \<longleftrightarrow> downloadPeer m \<noteq> None) \<and>
     publishedTxHashes m = map (\<lambda>p. txHash (p_tx p)) (publishedTx m) \<and>
     lists_ok (txRelays m) \<and> lists_ok (txRequests m) \<and> misbehavinCount m < 10"

abbreviation keeps :: "(BRPeerManager \<Rightarrow> BRPeerManager option) \<Rightarrow> bool" where
  "keeps f \<equiv> \<forall>m. manager_ok m \<longrightarrow> post manager_ok (f m)"

text \<open>Fields that the invariant does not mention.\<close>

lemma ok_frame [simp]:
  "manager_ok (m\<lparr>m_wallet := w\<rparr>) = manager_ok m"
  "manager_ok (m\<lparr>connectFailureCount := n\<rparr>) = manager_ok m"
  "manager_ok (m\<lparr>peerThreadCount := i\<rparr>) = manager_ok m"
  "manager_ok (m\<lparr>maxConnectCount := n\<rparr>) = manager_ok m"
  "manager_ok (m\<lparr>m_peers := ps\<rparr>) = manager_ok m"
  "manager_ok (m\<lparr>fixedPeer := bp\<rparr>) = manager_ok m"
  "manager_ok (m\<lparr>syncStartHeight := h\<rparr>) = manager_ok m"
  "manager_ok (m\<lparr>filterUpdateHeight := h\<rparr>) = manager_ok m"
  "manager_ok (m\<lparr>estimatedHeight := h\<rparr>) = manager_ok m"
  "manager_ok (m\<lparr>bloomFilter := bf\<rparr>) = manager_ok m"
  "manager_ok (m\<lparr>fpRate := r\<rparr>) = manager_ok m"
  "manager_ok (m\<lparr>averageTxPerBlock := r\<rparr>) = manager_ok m"
  "manager_ok (m\<lparr>blocks := s\<rparr>) = manager_ok m"
  "manager_ok (m\<lparr>orphans := s\<rparr>) = manager_ok m"
  "manager_ok (m\<lparr>lastBlock := b\<rparr>) = manager_ok m"
  "manager_ok (m\<lparr>lastOrphan := o'\<rparr>) = manager_ok m"
  "manager_ok (m\<lparr>freedBlocks := fs\<rparr>) = manager_ok m"
  "manager_ok (m\<lparr>nextBlock := n\<rparr>) = manager_ok m"
  "manager_ok (m\<lparr>m_draws := n\<rparr>) = manager_ok m"
  "manager_ok (m\<lparr>m_events := es\<rparr>) = manager_ok m"
  by (simp_all add: manager_ok_def)

lemma ok_event [simp]: "manager_ok (event e m) = manager_ok m"
  by (simp add: event_def)

lemma ok_lists [simp]:
  "manager_ok m \<Longrightarrow> manager_ok (m\<lparr>txRelays := ls\<rparr>) \<longleftrightarrow> lists_ok ls"
  "manager_ok m \<Longrightarrow> manager_ok (m\<lparr>txRequests := ls\<rparr>) \<longleftrightarrow> lists_ok ls"
  by (simp_all add: manager_ok_def)

section \<open>Taking operations apart\<close>

text \<open>
  The rules are tried in this order: what is bound is a manager that satisfies the invariant,
  a pair with such a manager, or any other value.
\<close>

lemma keep_bind:
  "post manager_ok x \<Longrightarrow> (\<And>m. manager_ok m \<Longrightarrow> post P (f m)) \<Longrightarrow> post P (Option.bind x f)"
  "post (\<lambda>r. manager_ok (snd r)) y \<Longrightarrow> (\<And>a m. manager_ok m \<Longrightarrow> post P (g a m)) \<Longrightarrow> post P (Option.bind y (\<lambda>(a, m). g a m))"
  "post (\<lambda>r. manager_ok (snd (snd r))) z \<Longrightarrow> (\<And>a n m. manager_ok m \<Longrightarrow> post P (h a n m)) \<Longrightarrow>
     post P (Option.bind z (\<lambda>(a, n, m). h a n m))"
  by (auto intro: post_bind_rule post_bind_pair simp: post_def split: option.splits prod.splits bind_splits)

lemma keep_let:
  "manager_ok e \<Longrightarrow> (\<And>m. manager_ok m \<Longrightarrow> post P (f m)) \<Longrightarrow> post P (Let e f)"
  "manager_ok (snd d) \<Longrightarrow> (\<And>a m. manager_ok m \<Longrightarrow> post P (g a m)) \<Longrightarrow> post P (let (a, m) = d in g a m)"
  by simp (cases d, simp)

lemma post_let_pair: "Q (snd d) \<Longrightarrow> (\<And>a m. Q m \<Longrightarrow> post P (g a m)) \<Longrightarrow> post P (let (a, m) = d in g a m)"
  by (cases d) simp

named_theorems keeping \<open>operations of the manager that keep its invariant\<close>

lemma ok_heap:
  assumes "manager_ok m" and "m_heap m p = Some c"
  shows "manager_ok (m\<lparr>m_heap := (m_heap m)(p \<mapsto> c')\<rparr>)"
proof -
  have "dom ((m_heap m)(p \<mapsto> c')) = dom (m_heap m)" using assms(2) by (simp add: insert_absorb domI)
  then show ?thesis using assms(1) by (simp add: manager_ok_def)
qed

lemma keep_with_peer [keeping]: "manager_ok m \<Longrightarrow> post manager_ok (with_peer p f m)"
  by (cases "m_heap m p") (simp_all add: with_peer_def ok_heap)

lemma keep_with_peer_opt [keeping]: "manager_ok m \<Longrightarrow> post manager_ok (with_peer_opt p f m)"
  by (auto simp: with_peer_opt_def post_def ok_heap split: bind_splits)

lemma keep_wallet_op [keeping]: "manager_ok m \<Longrightarrow> post manager_ok (wallet_op f m)"
  by (auto simp: wallet_op_def post_def)

lemma keep_free_block [keeping]: "manager_ok m \<Longrightarrow> post manager_ok (free_block b m)"
  by (simp add: free_block_def post_def)

lemma keep_for_each [keeping]:
  "manager_ok m \<Longrightarrow> (\<And>x m. manager_ok m \<Longrightarrow> post manager_ok (body x m)) \<Longrightarrow> post manager_ok (for_each xs body m)"
  by (rule post_for_each)

lemma keep_map: "post manager_ok x \<Longrightarrow> (\<And>m. manager_ok m \<Longrightarrow> P (f m)) \<Longrightarrow> post P (map_option f x)"
  by (cases x) simp_all

lemma keep_let_list: "lists_ok (snd d) \<Longrightarrow> (\<And>a ls. lists_ok ls \<Longrightarrow> post P (g a ls)) \<Longrightarrow> post P (let (a, ls) = d in g a ls)"
  by (cases d) simp

lemma post_map_any: "(\<And>a. P (f a)) \<Longrightarrow> post P (map_option f x)"
  by (cases x) simp_all

lemmas dismantle = keep_bind keep_let keep_let_list keep_map post_bind_any post_let_any post_if post_option post_prod post_SomeI

lemma ok_misbehavin: "manager_ok m \<Longrightarrow> n < 10 \<Longrightarrow> manager_ok (m\<lparr>misbehavinCount := n\<rparr>)"
  by (simp add: manager_ok_def)

lemma keep_Misbehavin [keeping]: "manager_ok m \<Longrightarrow> post manager_ok (BRPeerManagerPeerMisbehavin p m)"
  unfolding BRPeerManagerPeerMisbehavin_def
  by (rule post_bind_any, rule keep_let, simp, rule keep_let, simp add: ok_misbehavin) (rule keeping)

lemma keep_SyncStopped [keeping]: "manager_ok m \<Longrightarrow> post manager_ok (BRPeerManagerSyncStopped env m)"
  unfolding BRPeerManagerSyncStopped_def by (rule keeping dismantle | simp)+

text \<open>The lists of peers by transaction.\<close>

lemma lists_ok_add [simp]: "lists_ok ls \<Longrightarrow> lists_ok (snd (BRTxPeerListAddPeer ls h p))"
  using add_spec [of ls h p] by auto

lemma lists_ok_remove [simp]: "lists_ok ls \<Longrightarrow> lists_ok (snd (BRTxPeerListRemovePeer ls h p))"
  using remove_spec [of ls h p] by auto

lemma ok_listsD: "manager_ok m \<Longrightarrow> lists_ok (txRelays m)" "manager_ok m \<Longrightarrow> lists_ok (txRequests m)"
  by (simp_all add: manager_ok_def)

lemma ok_list_steps [simp]:
  "manager_ok m \<Longrightarrow> lists_ok (snd (BRTxPeerListAddPeer (txRelays m) h bp))"
  "manager_ok m \<Longrightarrow> lists_ok (snd (BRTxPeerListRemovePeer (txRelays m) h bp))"
  "manager_ok m \<Longrightarrow> lists_ok (snd (BRTxPeerListRemovePeer (txRequests m) h bp))"
  by (simp_all add: ok_listsD)

lemma ok_publish:
  "manager_ok m \<Longrightarrow> manager_ok (m\<lparr>publishedTx := publishedTx m @ [p], publishedTxHashes := publishedTxHashes m @ [txHash (p_tx p)]\<rparr>)"
  by (simp add: manager_ok_def)

lemma AddTxToPublishList_ok:
  assumes "BRPeerManagerAddTxToPublishList tx k m = Some m'"
  shows "manager_ok m \<longrightarrow> manager_ok m'"
proof (rule BRPeerManagerAddTxToPublishList.raw_induct [where P = "\<lambda>tx k m m'. manager_ok m \<longrightarrow> manager_ok m'", OF _ assms], goal_cases)
  case (1 self tx k m m')
  show ?case
  proof
    assume m: "manager_ok m"
    have "post manager_ok (self t k m)" if "manager_ok m" for t k m
      using 1(1) that by (auto intro: postI)
    then have "post manager_ok (case tx of None \<Rightarrow> Some m
      | Some tx \<Rightarrow>
          if blockHeight tx = TX_UNCONFIRMED \<and> \<not> (\<exists>p \<in> set (publishedTx m). txKeyEq (txHash (p_tx p)) (txHash tx))
          then for_each (inputs tx)
            (\<lambda>i m. do {
               t \<leftarrow> BRWalletTransactionForHash (m_wallet m) (in_txHash i);
               self (map_option (txs (m_wallet m)) t) None m
             })
            (m\<lparr>publishedTx := publishedTx m @ [\<lparr>p_tx = tx, p_callback = k\<rparr>],
               publishedTxHashes := publishedTxHashes m @ [txHash tx]\<rparr>)
          else Some m)"
      using m ok_publish [OF m, of "\<lparr>p_tx = _, p_callback = k\<rparr>"]
      by (auto split: option.split intro!: keep_for_each post_bind_any)
    then show "manager_ok m'" using 1(2) by (rule postD)
  qed
qed

lemma keep_AddTxToPublishList [keeping]:
  "manager_ok m \<Longrightarrow> post manager_ok (BRPeerManagerAddTxToPublishList tx k m)"
  using AddTxToPublishList_ok by (auto intro: postI)

section \<open>Filters and mempools\<close>

lemma keep_clear_orphans [keeping]: "manager_ok m \<Longrightarrow> post manager_ok (clear_orphans m)"
proof -
  assume m: "manager_ok m"
  have "post manager_ok (apply_loop (\<lambda>m b. Option.bind m (free_block b)) bs (Some m))" for bs
    using m
  proof (induction bs arbitrary: m)
    case (Cons b bs)
    have none: "apply_loop (\<lambda>m b. Option.bind m (free_block b)) xs None = None" for xs :: "block_ptr option list"
    proof (induction xs)
      case (Cons x xs)
      then show ?case by (cases x) simp_all
    qed simp
    show ?case
    proof (cases b)
      case (Some x)
      then show ?thesis using Cons keep_free_block [OF Cons.prems, of x] none
        by (cases "free_block x m") simp_all
    qed (use Cons in simp)
  qed simp
  then show ?thesis unfolding clear_orphans_def BRSetApply_def
    by (intro post_map) (auto elim: post_mono)
qed

lemma keep_LoadBloomFilter [keeping]: "manager_ok m \<Longrightarrow> post manager_ok (BRPeerManagerLoadBloomFilter env p m)"
  unfolding BRPeerManagerLoadBloomFilter_def by (rule keeping dismantle | simp)+


lemma keep_PublishPendingTx [keeping]: "manager_ok m \<Longrightarrow> post manager_ok (BRPeerManagerPublishPendingTx env p m)"
  unfolding BRPeerManagerPublishPendingTx_def by (rule keeping dismantle | simp)+

lemma keep_RequestUnrelayedTx [keeping]: "manager_ok m \<Longrightarrow> post manager_ok (BRPeerManagerRequestUnrelayedTx env p m)"
proof -
  assume m: "manager_ok m"
  have fold: "lists_ok (snd (fold (\<lambda>h (hs, requests).
      if \<not> BRTxPeerListHasPeer (txRelays m) h (pub c) \<and> \<not> BRTxPeerListHasPeer requests h (pub c)
      then (hs @ [h], snd (BRTxPeerListAddPeer requests h (pub c))) else (hs, requests)) ts (hs, requests)))"
    if "lists_ok requests" for c ts hs requests
    using that by (induction ts arbitrary: hs requests) auto
  have ok: "manager_ok (m\<lparr>txRequests := requests\<rparr>)"
    if "a = fold (\<lambda>h (hs, requests).
      if \<not> BRTxPeerListHasPeer (txRelays m) h (pub c) \<and> \<not> BRTxPeerListHasPeer requests h (pub c)
      then (hs @ [h], snd (BRTxPeerListAddPeer requests h (pub c))) else (hs, requests)) ts ([], txRequests m)"
      and "a = (hs, requests)" for a c ts hs requests
  proof -
    have "lists_ok (snd a)" unfolding that(1) by (rule fold, rule ok_listsD(2) [OF m])
    then show ?thesis using that(2) m by simp
  qed
  show ?thesis unfolding BRPeerManagerRequestUnrelayedTx_def
    by (rule post_bind_any, rule post_let, rule post_prod, drule (1) ok, rule keep_let, assumption)
      (rule keeping dismantle | assumption)+
qed

lemma keep_drop_unrelayed [keeping]: "manager_ok m \<Longrightarrow> post manager_ok (drop_unrelayed env h m)"
  unfolding drop_unrelayed_def by (rule keeping dismantle | simp)+

lemma keep_requestUnrelayedTxGetdataDone [keeping]: "manager_ok m \<Longrightarrow> post manager_ok (requestUnrelayedTxGetdataDone env p success m)"
  unfolding requestUnrelayedTxGetdataDone_def by (rule keeping dismantle | simp)+

lemma keep_mempoolDone [keeping]: "manager_ok m \<Longrightarrow> post manager_ok (mempoolDone env p success m)"
  unfolding mempoolDone_def by (rule keeping dismantle | simp)+

lemma keep_send_mempool [keeping]: "manager_ok m \<Longrightarrow> post manager_ok (send_mempool env p hs k m)"
  unfolding send_mempool_def
  by (rule post_bind, rule post_bind, rule post_prod, rule keep_let, erule (1) ok_heap)
    (auto split: option.split pong.split intro: keeping)

lemma keep_loadBloomFilterDone [keeping]: "manager_ok m \<Longrightarrow> post manager_ok (loadBloomFilterDone env p success m)"
  unfolding loadBloomFilterDone_def by (rule keeping dismantle | simp)+

lemma keep_load_mempool [keeping]: "manager_ok m \<Longrightarrow> post manager_ok (load_mempool env p m)"
  unfolding load_mempool_def by (rule keeping dismantle | simp)+

lemma keep_LoadMempools [keeping]: "manager_ok m \<Longrightarrow> post manager_ok (BRPeerManagerLoadMempools env m)"
  unfolding BRPeerManagerLoadMempools_def by (rule keeping | assumption)+

lemma keep_filter_callbacks [keeping]:
  "manager_ok m \<Longrightarrow> post manager_ok (updateFilterRerequestDone env p success m)"
  "manager_ok m \<Longrightarrow> post manager_ok (updateFilterLoadDone env p success m)"
  "manager_ok m \<Longrightarrow> post manager_ok (updateFilterPingDone env p success m)"
  "manager_ok m \<Longrightarrow> post manager_ok (BRPeerManagerUpdateFilter env m)"
  "manager_ok m \<Longrightarrow> post manager_ok (publishTxInvDone env p success m)"
  unfolding updateFilterRerequestDone_def updateFilterLoadDone_def updateFilterPingDone_def BRPeerManagerUpdateFilter_def publishTxInvDone_def
  by (rule keeping dismantle | simp)+

lemma keep_run_closure [keeping]: "manager_ok m \<Longrightarrow> post manager_ok (run_closure env k success m)"
  by (cases k) (simp_all add: keeping)


section \<open>Connecting\<close>

lemma ok_peers_only: "manager_ok (m\<lparr>m_peers := ps\<rparr>) = manager_ok m"
  by simp

lemma keep_FindPeers [keeping]: "manager_ok m \<Longrightarrow> post manager_ok (BRPeerManagerFindPeers env m)"
  unfolding BRPeerManagerFindPeers_def by (rule keeping dismantle | simp)+

lemma lists_ok_forget:
  assumes "lists_ok ls"
  shows "lists_ok (map (\<lambda>l. l\<lparr>l_peers := forget_peer bp (l_peers l)\<rparr>) ls)"
  using assms by (auto simp: lists_ok_def forget_peer_def comp_def intro: distinct_map_filter)

lemma remove_last_if_distinct: "distinct xs \<Longrightarrow> remove_last_if (\<lambda>q. q = p) xs = filter (\<lambda>q. q \<noteq> p) xs"
proof (induction xs)
  case (Cons x xs)
  have "p \<notin> set xs \<Longrightarrow> filter (\<lambda>q. q \<noteq> p) xs = xs" by (induction xs) auto
  then show ?case using Cons by auto
qed simp

text \<open>The end of a disconnection: the peer is taken off the list and freed.\<close>

lemma ok_free_peer:
  assumes "manager_ok m" and "downloadPeer m \<noteq> Some p"
  shows "manager_ok (m\<lparr>connectedPeers := remove_last_if (\<lambda>q. q = p) (connectedPeers m), m_heap := (m_heap m)(p := None)\<rparr>)"
  using assms by (auto simp: manager_ok_def remove_last_if_distinct)

lemma ok_no_download: "manager_ok m \<Longrightarrow> manager_ok (m\<lparr>isConnected := False, downloadPeer := None\<rparr>)"
  by (simp add: manager_ok_def)

lemma ok_callbacks:
  "manager_ok m \<Longrightarrow> map (\<lambda>p. txHash (p_tx p)) ps = map (\<lambda>p. txHash (p_tx p)) (publishedTx m) \<Longrightarrow> manager_ok (m\<lparr>publishedTx := ps\<rparr>)"
  by (simp add: manager_ok_def)

lemma SyncStopped_download:
  "manager_ok m \<and> downloadPeer m = d \<Longrightarrow> post (\<lambda>m. manager_ok m \<and> downloadPeer m = d) (BRPeerManagerSyncStopped env m)"
  using keep_SyncStopped [of m env]
  by (auto simp: BRPeerManagerSyncStopped_def Let_def with_peer_def post_def split: option.splits if_splits)

lemma ok_cancel_published: "manager_ok m \<Longrightarrow> manager_ok (snd (cancel_published err m))"
  by (auto simp: cancel_published_def intro: ok_callbacks)

lemma cancel_published_download: "downloadPeer (snd (cancel_published err m)) = downloadPeer m"
  by (simp add: cancel_published_def)

lemma keep_disconnect_peer [keeping]: "manager_ok m \<Longrightarrow> post (\<lambda>r. manager_ok (snd r)) (disconnect_peer env p err m)"
proof -
  assume m: "manager_ok m"
  define I where "I m = (manager_ok m \<and> downloadPeer m \<noteq> Some p)" for m
  have relays: "manager_ok (m\<lparr>txRelays := map (\<lambda>l. l\<lparr>l_peers := forget_peer bp (l_peers l)\<rparr>) (txRelays m)\<rparr>)" if "manager_ok m" for m bp
    using that lists_ok_forget [OF ok_listsD(1) [OF that]] by simp
  have download: "I (if downloadPeer m = Some p then m\<lparr>isConnected := False, downloadPeer := None, connectFailureCount := n\<rparr> else m)"
    if "manager_ok m" for m n
    using that by (simp add: I_def ok_no_download)
  have stopped: "post I (map_option (\<lambda>m. m\<lparr>m_peers := []\<rparr>) (BRPeerManagerSyncStopped env m))" if "I m" for m
    using SyncStopped_download [of m "downloadPeer m" env] that by (auto simp: I_def post_def)
  have cancelled: "I (snd (if b then cancel_published e m else ([], m)))" if "I m" for b e m
    using that by (simp add: I_def ok_cancel_published cancel_published_download)
  show ?thesis unfolding disconnect_peer_def
    apply (rule post_bind_any)
    apply (rule keep_bind(1))
     apply (simp add: keep_Misbehavin m)
    apply (rule post_let_any)
    apply (rule keep_let(1), erule relays)
    apply (rule post_let_rule [where Q = I], erule download)
    apply (rule post_let_any, rule post_let_any)
    apply (rule post_bind_rule [where Q = I])
     apply (rule post_if, erule stopped, simp)
    apply (rule post_let_any)
    apply (rule post_let_pair [where Q = I], erule cancelled)
    apply (simp add: I_def ok_free_peer)
    done
qed

lemma keep_reconnect [keeping]: "manager_ok m \<Longrightarrow> post manager_ok (reconnect p env m)"
  unfolding reconnect_def by (rule keeping dismantle | simp)+

lemma ok_new_peer: "manager_ok m \<Longrightarrow> manager_ok (snd (new_peer env bp m))"
  by (auto simp: manager_ok_def new_peer_def Let_def less_Suc_eq)

lemma connect_stage_ok:
  assumes "connect_stage env stage m = Some m'"
  shows "manager_ok m \<longrightarrow> manager_ok m'"
proof (rule connect_stage.raw_induct [where P = "\<lambda>env stage m m'. manager_ok m \<longrightarrow> manager_ok m'", OF _ assms], goal_cases)
  case (1 self env stage m m')
  have self: "post manager_ok (self env s m)" if "manager_ok m" for s m
    using 1(1) that by (auto intro: postI)
  show ?case
  proof
    assume m: "manager_ok m"
    show "manager_ok m'" using 1(2)
    proof (rule postD [rotated])
      show "post manager_ok (case stage of
        None \<Rightarrow> do {
          let m = (if connectFailureCount m \<ge> MAX_CONNECT_FAILURES then m\<lparr>connectFailureCount := 0\<rparr> else m);
          top \<leftarrow> deref m (lastBlock m);
          let m = (if (downloadPeer m = None \<or> height top < estimatedHeight m) \<and> syncStartHeight m = 0
            then event SyncStarted (m\<lparr>syncStartHeight := height top + 1\<rparr>) else m);
          m \<leftarrow> for_each (rev (connectedPeers m)) (\<lambda>p. reconnect p (penv env)) m;
          m \<leftarrow> (if length (connectedPeers m) < maxConnectCount m
            then do {
              m \<leftarrow> (if length (m_peers m) < maxConnectCount m \<or> is_stale env (m_peers m ! (maxConnectCount m - 1))
                then BRPeerManagerFindPeers env m else Some m);
              self env (Some (take 100 (m_peers m))) m
            }
            else Some m);
          if connectedPeers m = []
          then map_option (event (SyncStopped ENETUNREACH)) (BRPeerManagerSyncStopped env m) else Some m
        }
      | Some peers \<Rightarrow>
          if peers = [] \<or> length (connectedPeers m) \<ge> maxConnectCount m then Some m
          else do {
            let i = rand env (m_draws m) (length peers);
            let m = m\<lparr>m_draws := m_draws m + 1\<rparr>;
            let i = i * i div length peers;
            bp \<leftarrow> (if i < length peers then Some (peers ! i) else None);
            known \<leftarrow> any_loop (\<lambda>p. map_option (\<lambda>c. BRPeerEq bp (pub c)) (m_heap m p)) (rev (connectedPeers m));
            let rest = take i peers @ drop (i + 1) peers;
            m \<leftarrow> (if known then Some m
              else do {
                let (p, m) = new_peer env bp m;
                c \<leftarrow> m_heap m p;
                if status c = Disconnected
                then do {
                  (willReconnect, m) \<leftarrow> disconnect_peer env p ENOTCONN m;
                  m \<leftarrow> (if willReconnect then self env None m else Some m);
                  Some (event TxStatusUpdate (m\<lparr>peerThreadCount := peerThreadCount m - 1\<rparr>))
                }
                else Some m
              });
            self env (Some rest) m
          })"
        by (rule self keeping dismantle | simp add: m ok_new_peer)+
    qed
  qed
qed

lemma keep_Connect [keeping]: "manager_ok m \<Longrightarrow> post manager_ok (BRPeerManagerConnect env m)"
  using connect_stage_ok by (auto simp: BRPeerManagerConnect_def intro: postI)

lemma keep_peerDisconnected [keeping]: "manager_ok m \<Longrightarrow> post manager_ok (peerDisconnected env p err m)"
  unfolding peerDisconnected_def by (rule keeping dismantle | simp)+

section \<open>What peers relay\<close>

lemma ok_download:
  "manager_ok m \<Longrightarrow> m_heap m p = Some c \<Longrightarrow> manager_ok (m\<lparr>downloadPeer := Some p, isConnected := True, estimatedHeight := h\<rparr>)"
  by (auto simp: manager_ok_def dom_def)

lemma keep_start_sync [keeping]: "manager_ok m \<Longrightarrow> post manager_ok (start_sync env p m)"
  unfolding start_sync_def by (rule keeping dismantle | simp)+

lemma keep_select_download_peer [keeping]: "manager_ok m \<Longrightarrow> post manager_ok (select_download_peer env p m)"
  unfolding select_download_peer_def
  apply (rule post_bind_any)
  apply (rule keep_bind(1), simp add: keeping split: option.split)
  apply (rule post_bind, rule keep_let(1), erule (1) ok_download)
  apply (rule keeping dismantle | simp)+
  done

lemma keep_peerConnected [keeping]: "manager_ok m \<Longrightarrow> post manager_ok (peerConnected env p m)"
  unfolding peerConnected_def by (rule keeping dismantle | simp)+

lemma ok_peerRelayedPeers: "manager_ok m \<Longrightarrow> manager_ok (peerRelayedPeers env ps m)"
  by (simp add: peerRelayedPeers_def Let_def)

lemma ok_snd_if [simp]: "manager_ok (snd (if b then x else y)) \<longleftrightarrow> (if b then manager_ok (snd x) else manager_ok (snd y))"
  by simp

lemma ok_add_relay [simp]: "manager_ok m \<Longrightarrow> manager_ok (snd (add_relay h bp m))"
  by (simp add: add_relay_def)

lemma ok_remove_request [simp]: "manager_ok m \<Longrightarrow> manager_ok (remove_request h bp m)"
  by (simp add: remove_request_def)

lemma ok_published_event [simp]: "manager_ok (published_event pt err m) = manager_ok m"
  by (simp add: published_event_def split: option.split)

lemma ok_clear_callback [simp]: "manager_ok m \<Longrightarrow> manager_ok (clear_callback h m)"
proof -
  assume m: "manager_ok m"
  have "map (\<lambda>p. txHash (p_tx p)) (map (\<lambda>(p, h'). if UInt256Eq h' h then p\<lparr>p_callback := None\<rparr> else p) (zip ps (map g ps))) =
    map (\<lambda>p. txHash (p_tx p)) ps" for g ps
    by (induction ps) auto
  then show ?thesis unfolding clear_callback_def with_hashes_def using m
    by (intro ok_callbacks) (simp_all add: manager_ok_def)
qed

lemma keep_cancel_timeout [keeping]: "manager_ok m \<Longrightarrow> post manager_ok (cancel_timeout env p b m)"
  unfolding cancel_timeout_def by (rule keeping dismantle | simp)+

lemma keep_register [keeping]: "manager_ok m \<Longrightarrow> post (\<lambda>r. manager_ok (snd r)) (register env tx m)"
  by (auto simp: register_def post_def)

lemma keep_mark_verified [keeping]: "manager_ok m \<Longrightarrow> post manager_ok (mark_verified env n tx h m)"
  unfolding mark_verified_def by (rule keeping dismantle | simp)+

lemma keep_relayed_wallet_tx [keeping]: "manager_ok m \<Longrightarrow> post (\<lambda>r. manager_ok (snd r)) (relayed_wallet_tx env p tx n m)"
  unfolding relayed_wallet_tx_def by (rule keeping dismantle | simp)+

lemma keep_peerRelayedTx [keeping]: "manager_ok m \<Longrightarrow> post manager_ok (peerRelayedTx env p tx m)"
  unfolding peerRelayedTx_def by (rule keeping dismantle | simp)+

lemma keep_peerHasTx [keeping]: "manager_ok m \<Longrightarrow> post manager_ok (peerHasTx env p h m)"
  unfolding peerHasTx_def by (rule keeping dismantle | simp)+

lemma keep_peerRejectedTx [keeping]: "manager_ok m \<Longrightarrow> post manager_ok (peerRejectedTx env p h code m)"
  unfolding peerRejectedTx_def by (rule keeping dismantle | simp)+

lemma keep_peerDataNotfound [keeping]: "manager_ok m \<Longrightarrow> post manager_ok (peerDataNotfound p hs m)"
proof -
  assume m: "manager_ok m"
  have "manager_ok (fold (\<lambda>h m. remove_request h bp (m\<lparr>txRelays := snd (BRTxPeerListRemovePeer (txRelays m) h bp)\<rparr>)) hs m)" for bp
    using m by (induction hs arbitrary: m) simp_all
  then show ?thesis unfolding peerDataNotfound_def by (intro post_map postI)
qed

lemma keep_peerSetFeePerKb [keeping]: "manager_ok m \<Longrightarrow> post manager_ok (peerSetFeePerKb m)"
  unfolding peerSetFeePerKb_def by (rule keeping dismantle | simp)+

lemma keep_peerRequestedTx [keeping]: "manager_ok m \<Longrightarrow> post (\<lambda>r. manager_ok (snd r)) (peerRequestedTx env p h m)"
  unfolding peerRequestedTx_def by (rule keeping dismantle | simp)+

section \<open>Blocks\<close>

lemma prune_loop_ok:
  assumes "prune_loop h m = Some m'"
  shows "manager_ok m \<longrightarrow> manager_ok m'"
proof (rule prune_loop.raw_induct [where P = "\<lambda>h m m'. manager_ok m \<longrightarrow> manager_ok m'", OF _ assms], goal_cases)
  case (1 self h m m')
  have self: "post manager_ok (self s m)" if "manager_ok m" for s m
    using 1(1) that by (auto intro: postI)
  show ?case
  proof
    assume m: "manager_ok m"
    show "manager_ok m'" using 1(2)
    proof (rule postD [rotated])
      show "post manager_ok (do {
       b \<leftarrow> get_block m h;
       case b of
         None \<Rightarrow> Some m
       | Some b \<Rightarrow> do {
           block \<leftarrow> deref m b;
           if height block mod BLOCK_DIFFICULTY_INTERVAL \<noteq> 0
           then do {
             (_, s) \<leftarrow> BRSetRemove (blocks m) b;
             m \<leftarrow> free_block b (m\<lparr>blocks := s\<rparr>);
             self (prevBlock block) m
           }
           else self (prevBlock block) m
         }
     })"
        by (rule self keeping dismantle | simp add: m)+
    qed
  qed
qed

lemma keep_prune_loop [keeping]: "manager_ok m \<Longrightarrow> post manager_ok (prune_loop h m)"
  using prune_loop_ok by (auto intro: postI)

lemma keep_VerifyBlock [keeping]: "manager_ok m \<Longrightarrow> post (\<lambda>r. manager_ok (snd r)) (BRPeerManagerVerifyBlock block prev b m)"
  unfolding BRPeerManagerVerifyBlock_def by (rule keeping dismantle post_map_any | simp split: prod.split)+

lemma keep_track_rate [keeping]: "manager_ok m \<Longrightarrow> post manager_ok (track_rate env p block hs m)"
  unfolding track_rate_def by (rule keeping dismantle | simp)+

lemma keep_update_heights [keeping]: "manager_ok m \<Longrightarrow> post manager_ok (update_heights env hs h t m)"
  unfolding update_heights_def by (rule keeping dismantle | simp)+

lemma keep_reset_timeout [keeping]: "manager_ok m \<Longrightarrow> post manager_ok (reset_timeout env p m)"
  unfolding reset_timeout_def by (rule keeping | simp)+

lemma keep_add_orphan [keeping]: "manager_ok m \<Longrightarrow> post manager_ok (add_orphan b m)"
  by (auto simp: add_orphan_def post_def)

lemma keep_add_block [keeping]: "manager_ok m \<Longrightarrow> post (\<lambda>r. manager_ok (snd r)) (add_block b m)"
  by (auto simp: add_block_def post_def)

lemma keep_ignore_block [keeping]: "manager_ok m \<Longrightarrow> post (\<lambda>r. manager_ok (snd (snd r))) (ignore_block b m)"
  unfolding ignore_block_def by (rule keeping dismantle | simp)+

lemma keep_filter_pending [keeping]: "manager_ok m \<Longrightarrow> post (\<lambda>r. manager_ok (snd (snd r))) (filter_pending env p b m)"
  unfolding filter_pending_def by (rule keeping dismantle | simp)+

lemma keep_relayed_orphan [keeping]: "manager_ok m \<Longrightarrow> post (\<lambda>r. manager_ok (snd (snd r))) (relayed_orphan env p b m)"
  unfolding relayed_orphan_def by (rule keeping dismantle | simp)+

lemma keep_finish_chain [keeping]: "manager_ok m \<Longrightarrow> post (\<lambda>r. manager_ok (snd r)) (finish_chain env h n m)"
  unfolding finish_chain_def by (rule keeping dismantle | simp)+

lemma keep_extend_main [keeping]: "manager_ok m \<Longrightarrow> post (\<lambda>r. manager_ok (snd (snd r))) (extend_main env p b hs t m)"
  unfolding extend_main_def by (rule keeping dismantle | simp)+

lemma keep_replace_block [keeping]: "manager_ok m \<Longrightarrow> post (\<lambda>r. manager_ok (snd (snd r))) (replace_block env b hs t m)"
  unfolding replace_block_def by (rule keeping dismantle post_map_any | simp split: prod.split)+

lemma reorg_loop_ok:
  assumes "reorg_loop env b join m = Some m'"
  shows "manager_ok m \<longrightarrow> manager_ok m'"
proof (rule reorg_loop.raw_induct [where P = "\<lambda>env b join m m'. manager_ok m \<longrightarrow> manager_ok m'", OF _ assms], goal_cases)
  case (1 self env b join m m')
  have self: "post manager_ok (self env s t m)" if "manager_ok m" for s t m
    using 1(1) that by (auto intro: postI)
  show ?case
  proof
    assume m: "manager_ok m"
    show "manager_ok m'" using 1(2)
    proof (rule postD [rotated])
      show "post manager_ok (case b of
        None \<Rightarrow> Some m
      | Some x \<Rightarrow> do {
          block \<leftarrow> deref m x;
          if height block > height join
          then do {
            hs \<leftarrow> block_tx_hashes block;
            b' \<leftarrow> get_block m (prevBlock block);
            time \<leftarrow> (case b' of None \<Rightarrow> Some (timestamp block)
              | Some y \<Rightarrow> map_option (\<lambda>prev. timestamp block div 2 + timestamp prev div 2) (deref m y));
            m \<leftarrow> update_heights env hs (height block) time m;
            self env b' join m
          }
          else Some m
        })"
        by (rule self keeping dismantle | simp add: m)+
    qed
  qed
qed

lemma keep_reorg_loop [keeping]: "manager_ok m \<Longrightarrow> post manager_ok (reorg_loop env b join m)"
  using reorg_loop_ok by (auto intro: postI)

lemma keep_join_fork [keeping]: "manager_ok m \<Longrightarrow> post (\<lambda>r. manager_ok (snd (snd r))) (join_fork env b m)"
  unfolding join_fork_def by (rule keeping dismantle | simp)+

lemma keep_handle_block [keeping]: "manager_ok m \<Longrightarrow> post (\<lambda>r. manager_ok (snd (snd r))) (handle_block env p b prev hs t m)"
  unfolding handle_block_def by (rule keeping dismantle | simp)+

lemma keep_next_orphan [keeping]: "manager_ok m \<Longrightarrow> post (\<lambda>r. manager_ok (snd r)) (next_orphan block m)"
  by (auto simp: next_orphan_def Let_def post_def)

lemma keep_save_blocks [keeping]: "manager_ok m \<Longrightarrow> post manager_ok (save_blocks b n m)"
  unfolding save_blocks_def by (rule keeping dismantle | simp)+

lemma keep_relayed_once [keeping]: "manager_ok m \<Longrightarrow> post (\<lambda>r. manager_ok (snd r)) (relayed_once env p b m)"
  unfolding relayed_once_def by (rule keeping dismantle post_map_any | simp split: prod.split)+

lemma peerRelayedBlock_ok:
  assumes "peerRelayedBlock env p b m = Some m'"
  shows "manager_ok m \<longrightarrow> manager_ok m'"
proof (rule peerRelayedBlock.raw_induct [where P = "\<lambda>env p b m m'. manager_ok m \<longrightarrow> manager_ok m'", OF _ assms], goal_cases)
  case (1 self env p b m m')
  have self: "post manager_ok (self env p s m)" if "manager_ok m" for s m
    using 1(1) that by (blast intro: postI)
  show ?case
  proof
    assume m: "manager_ok m"
    show "manager_ok m'" using 1(2)
    proof (rule postD [rotated])
      show "post manager_ok (do {
       (next, m) \<leftarrow> relayed_once env p b m;
       case next of
         None \<Rightarrow> Some m
       | Some b' \<Rightarrow> self env p b' m
     })"
        by (rule self keeping dismantle | simp add: m)+
    qed
  qed
qed

lemma keep_peerRelayedBlock [keeping]: "manager_ok m \<Longrightarrow> post manager_ok (peerRelayedBlock env p b m)"
  using peerRelayedBlock_ok by (blast intro: postI)

section \<open>The interface\<close>

lemma keep_relay_block [keeping]: "manager_ok m \<Longrightarrow> post manager_ok (relay_block env p block m)"
  unfolding relay_block_def by (rule keeping | simp)+

lemma keep_stop_peers [keeping]: "manager_ok m \<Longrightarrow> post manager_ok (stop_peers m)"
  unfolding stop_peers_def stop_peer_def by (rule keeping dismantle | simp)+

lemma keep_rescans [keeping]:
  "manager_ok m \<Longrightarrow> post manager_ok (BRPeerManagerRescan env m)"
  "manager_ok m \<Longrightarrow> post manager_ok (BRPeerManagerRescanFromLastHardcodedCheckpoint env m)"
  "manager_ok m \<Longrightarrow> post manager_ok (BRPeerManagerRescanFromBlockNumber env h m)"
  unfolding BRPeerManagerRescan_def BRPeerManagerRescanFromLastHardcodedCheckpoint_def BRPeerManagerRescanFromBlockNumber_def
    rescan_connect_def rescan_from_def
  by (rule keeping dismantle | simp)+

lemma keep_PublishTx [keeping]: "manager_ok m \<Longrightarrow> post manager_ok (BRPeerManagerPublishTx env tx k m)"
  unfolding BRPeerManagerPublishTx_def publish_to_def by (rule keeping dismantle | simp split: option.split)+

lemma New_ok: "BRPeerManagerNew params wallet t saved ps = Some m \<Longrightarrow> manager_ok m"
proof -
  have "post manager_ok (BRPeerManagerNew params wallet t saved ps)"
    unfolding BRPeerManagerNew_def
    by (rule dismantle | simp add: manager_ok_def lists_ok_def)+
  then show "BRPeerManagerNew params wallet t saved ps = Some m \<Longrightarrow> manager_ok m" by (rule postD)
qed

section \<open>The manager as a state machine\<close>

text \<open>
  One step: a callback from the thread of a peer, a pending pong, a call of the interface, or
  whatever the threads of peers do to their own contexts.  Clocks, random numbers and the
  network may differ from step to step.
\<close>

inductive manager_step :: "BRPeerManager \<Rightarrow> BRPeerManager \<Rightarrow> bool" where
  "peerConnected env p m = Some m' \<Longrightarrow> manager_step m m'"
| "peerDisconnected env p err m = Some m' \<Longrightarrow> manager_step m m'"
| "manager_step m (peerRelayedPeers env ps m)"
| "peerRelayedTx env p tx m = Some m' \<Longrightarrow> manager_step m m'"
| "peerHasTx env p h m = Some m' \<Longrightarrow> manager_step m m'"
| "peerRejectedTx env p h code m = Some m' \<Longrightarrow> manager_step m m'"
| "relay_block env p block m = Some m' \<Longrightarrow> manager_step m m'"
| "peerDataNotfound p hs m = Some m' \<Longrightarrow> manager_step m m'"
| "peerSetFeePerKb m = Some m' \<Longrightarrow> manager_step m m'"
| "peerRequestedTx env p h m = Some (tx, m') \<Longrightarrow> manager_step m m'"
| "manager_step m (peerThreadCleanup m)"
| "run_closure env k success m = Some m' \<Longrightarrow> manager_step m m'"
| "BRPeerManagerConnect env m = Some m' \<Longrightarrow> manager_step m m'"
| "stop_peers m = Some m' \<Longrightarrow> manager_step m m'"
| "manager_step m (m\<lparr>maxConnectCount := n\<rparr>)"
| "manager_step m (set_fixed addr port m)"
| "BRPeerManagerRescan env m = Some m' \<Longrightarrow> manager_step m m'"
| "BRPeerManagerRescanFromLastHardcodedCheckpoint env m = Some m' \<Longrightarrow> manager_step m m'"
| "BRPeerManagerRescanFromBlockNumber env n m = Some m' \<Longrightarrow> manager_step m m'"
| "BRPeerManagerPublishTx env tx k m = Some m' \<Longrightarrow> manager_step m m'"
| "with_peer p f m = Some m' \<Longrightarrow> manager_step m m'"

lemmas steps_ok = keep_peerConnected [THEN postD] keep_peerDisconnected [THEN postD] keep_peerRelayedTx [THEN postD]
  keep_peerHasTx [THEN postD] keep_peerRejectedTx [THEN postD] keep_relay_block [THEN postD] keep_peerDataNotfound [THEN postD]
  keep_peerSetFeePerKb [THEN postD] keep_run_closure [THEN postD] keep_Connect [THEN postD] keep_stop_peers [THEN postD]
  keep_rescans [THEN postD] keep_PublishTx [THEN postD] keep_with_peer [THEN postD]

lemma manager_step_ok: "manager_step m m' \<Longrightarrow> manager_ok m \<Longrightarrow> manager_ok m'"
proof (induction rule: manager_step.induct)
  case (10 env p h m tx m')
  then show ?case using keep_peerRequestedTx [OF 10(2), of env p h] by (simp add: post_def)
qed (simp_all add: ok_peerRelayedPeers peerThreadCleanup_def set_fixed_def, (erule (1) steps_ok)+)

text \<open>The states of a manager that starts with any parameters, wallet, saved blocks and known peers.\<close>

definition manager_reachable :: "BRPeerManager \<Rightarrow> bool" where
  "manager_reachable m \<longleftrightarrow> (\<exists>params wallet t saved ps m0. BRPeerManagerNew params wallet t saved ps = Some m0 \<and> manager_step\<^sup>*\<^sup>* m0 m)"

text \<open>
  Claim C5.  In every state that the manager reaches, whatever peers send and in whatever order
  callbacks and calls come: the peers it lists are distinct and are exactly those whose memory
  is not freed, the download peer is one of them, it is connected exactly when there is a
  download peer, the hashes of the published transactions agree with the transactions, the
  lists of relaying and of requested peers hold no duplicates, and fewer than ten misbehaviours
  are counted.
\<close>

theorem manager_invariant:
  assumes "manager_reachable m"
  shows "distinct (connectedPeers m) \<and> (\<forall>p. p \<in> set (connectedPeers m) \<longleftrightarrow> m_heap m p \<noteq> None) \<and>
    (case downloadPeer m of None \<Rightarrow> \<not> isConnected m | Some d \<Rightarrow> isConnected m \<and> m_heap m d \<noteq> None) \<and>
    publishedTxHashes m = map (\<lambda>p. txHash (p_tx p)) (publishedTx m) \<and>
    lists_ok (txRelays m) \<and> lists_ok (txRequests m) \<and> misbehavinCount m < 10"
proof -
  obtain params wallet t saved ps m0 where m0: "BRPeerManagerNew params wallet t saved ps = Some m0" "manager_step\<^sup>*\<^sup>* m0 m"
    using assms unfolding manager_reachable_def by blast
  have "manager_ok m" using m0(2) by (induction rule: rtranclp_induct) (use New_ok [OF m0(1)] manager_step_ok in auto)
  then show ?thesis by (auto simp: manager_ok_def dom_def set_eq_iff split: option.split)
qed

section \<open>The sets of blocks\<close>

text \<open>The three pairs of a hash function and an equality meet the obligation of the hash table.\<close>

interpretation height_set: item_equality BRBlockHeightHash BRBlockHeightEq
  by unfold_locales (simp_all add: BRBlockHeightHash_def BRBlockHeightEq_def)

interpretation orphan_set: item_equality BRPrevBlockHash BRPrevBlockEq
  by unfold_locales (simp_all add: BRPrevBlockHash_def BRPrevBlockEq_def UInt256Eq_def)

interpretation block_set: item_equality "\<lambda>b. BRMerkleBlockHash (snd b)" "\<lambda>b b'. BRMerkleBlockEq (snd b) (snd b')"
  by unfold_locales (simp_all add: BRMerkleBlockHash_def BRMerkleBlockEq_def UInt256Eq_def)

text \<open>A new manager whose peer is fixed, and that connects.\<close>

lemma new_set: "n \<le> 2609407319 \<Longrightarrow> set_inv (BRSetNew h e n) \<and> BRSetCount (BRSetNew h e n) = 0 \<and> hash (BRSetNew h e n) = h \<and> eq (BRSetNew h e n) = e"
  using new_inv [of n h e] by (simp add: BRSetNew_def BRSetCount_def)

text \<open>Without saved blocks, and with one checkpoint, a manager is made.\<close>

lemma New_returns:
  assumes "checkpoints params = [c]" and "standardPort params \<noteq> 0"
  shows "\<exists>m. BRPeerManagerNew params w t [] ps = Some m \<and> connectedPeers m = [] \<and> m_peers m = sort_peers ps \<and>
    nextPeer m = 0 \<and> m_heap m = Map.empty \<and> downloadPeer m = None \<and> syncStartHeight m = 0 \<and> estimatedHeight m = 0 \<and>
    connectFailureCount m = 0 \<and> freedBlocks m = {} \<and> m_params m = params \<and> m_draws m = 0"
proof -
  let ?b = "(0, checkpoint_block c) :: block_ptr"
  obtain r s where s: "BRSetAdd (BRSetNew BRBlockHeightHash BRBlockHeightEq 100) ?b = Some (r, s)"
    using height_set.add_contract [of "BRSetNew BRBlockHeightHash BRBlockHeightEq 100" ?b]
      new_set [of 100 BRBlockHeightHash BRBlockHeightEq] by auto
  obtain r' s' where s': "BRSetAdd (BRSetNew (\<lambda>b. BRMerkleBlockHash (snd b)) (\<lambda>b b'. BRMerkleBlockEq (snd b) (snd b')) 0) ?b = Some (r', s')"
    using block_set.add_contract [of "BRSetNew (\<lambda>b. BRMerkleBlockHash (snd b)) (\<lambda>b b'. BRMerkleBlockEq (snd b) (snd b')) 0" ?b]
      new_set [of 0 "\<lambda>b :: block_ptr. BRMerkleBlockHash (snd b)" "\<lambda>b b'. BRMerkleBlockEq (snd b) (snd b')"] by auto
  show ?thesis
    using assms s s' by (simp add: BRPeerManagerNew_def add_checkpoint_def link_saved.simps enumerate_eq_zip)
qed

lemma manager_invariant_witness:
  "\<exists>m c. manager_reachable m \<and> connectedPeers m = [0] \<and> m_heap m 0 = Some c \<and> status c = Connecting \<and> \<not> isConnected m"
proof -
  obtain m0 where m0: "BRPeerManagerNew demo_params (empty_wallet 0 0) 0 [] [] = Some m0" "connectedPeers m0 = []" "m_peers m0 = []"
    "nextPeer m0 = 0" "m_heap m0 = Map.empty" "downloadPeer m0 = None" "syncStartHeight m0 = 0" "estimatedHeight m0 = 0"
    "connectFailureCount m0 = 0" "freedBlocks m0 = {}" "m_params m0 = demo_params" "m_draws m0 = 0"
    using New_returns [of demo_params _ "empty_wallet 0 0" 0 "[]"]
    by (auto simp: demo_params_def BRMainNetParams_def sort_peers_def)
  define m1 where "m1 = set_fixed 5 8333 m0"
  have "\<exists>m2 c. BRPeerManagerConnect demo_env m1 = Some m2 \<and> connectedPeers m2 = [0] \<and> m_heap m2 0 = Some c \<and> status c = Connecting \<and>
    downloadPeer m2 = None"
    unfolding BRPeerManagerConnect_def
    by (subst connect_stage.simps)
      (simp add: m0 m1_def set_fixed_def deref_def event_def BRPeerManagerFindPeers_def connect_stage.simps new_peer_def demo_env_def
        MAX_CONNECT_FAILURES_def BRPeerConnect_def BRPeerNew_def BRPeerSetEarliestKeyTime_def Let_def UInt128IsZero_def)
  then obtain m2 c where m2: "BRPeerManagerConnect demo_env m1 = Some m2" "connectedPeers m2 = [0]" "m_heap m2 0 = Some c"
    "status c = Connecting" "downloadPeer m2 = None" by blast
  have "manager_step m0 m1" "manager_step m1 m2" unfolding m1_def using m2(1) m1_def by (auto intro: manager_step.intros)
  then have r: "manager_reachable m2"
    unfolding manager_reachable_def using m0(1) by (meson converse_rtranclp_into_rtranclp rtranclp.rtrancl_refl)
  show ?thesis using manager_invariant [OF r] r m2 by auto
qed

end
