(* ===== verification/PeerErrors_Correct.thy ===== *)
theory PeerErrors_Correct
  imports PeerManager_Correct PeerChain_Correct
begin

text \<open>
  What goes wrong in the peer manager: the search for peers of the two chains, the rate of
  fees that peers announce, and the orphan block it remembers.
\<close>

section \<open>Finding peers\<close>

lemma New_fields:
  assumes "BRPeerManagerNew params wallet t saved ps = Some m"
  shows "m_params m = params" "m_peers m = sort_peers ps" "fixedPeer m = BR_PEER_NONE" "connectedPeers m = []"
    "maxConnectCount m = PEER_MAX_CONNECTIONS" "freedBlocks m = {}"
  using assms by (auto simp: BRPeerManagerNew_def Let_def split: bind_splits if_splits)

lemma FindPeers_seeds:
  assumes "UInt128IsZero (peer_address (fixedPeer m))" and "seeds_until_null (drop 1 (dnsSeeds (m_params m))) = None"
  shows "BRPeerManagerFindPeers env m = None"
  using assms by (simp add: BRPeerManagerFindPeers_def)

text \<open>
  Claim C37.  A new manager for the main net or the test net that knows fewer than three peers
  cannot connect: the arrays of seeds do not end with the NULL that the search for peers looks
  for, so the search reads beyond them.
\<close>

theorem fresh_manager_cannot_connect:
  assumes "BRPeerManagerNew (BRChainParamsGetBitcoin mainnet) wallet t saved ps = Some m" and "length ps < 3"
  shows "BRPeerManagerConnect env m = None"
proof -
  have new: "m_peers m = sort_peers ps" "fixedPeer m = BR_PEER_NONE" "connectedPeers m = []" "maxConnectCount m = 3"
    "freedBlocks m = {}" "m_params m = BRChainParamsGetBitcoin mainnet"
    using New_fields [OF assms(1)] by (simp_all add: PEER_MAX_CONNECTIONS_def)
  have none: "BRPeerManagerFindPeers env m' = None"
    if "fixedPeer m' = BR_PEER_NONE" "m_params m' = BRChainParamsGetBitcoin mainnet" for m'
    using that by (intro FindPeers_seeds)
      (simp_all add: BR_PEER_NONE_def UInt128IsZero_def BRChainParamsGetBitcoin_def BRMainNetParams_def BRTestNetParams_def
        BRMainNetDNSSeeds_def BRTestNetDNSSeeds_def)
  have "length (sort_peers ps) < 3" using assms(2) by (simp add: sort_peers_def)
  then show ?thesis unfolding BRPeerManagerConnect_def
    by (subst connect_stage.simps) (simp add: new deref_def event_def Let_def none)
qed

lemma fresh_manager_cannot_connect_witness:
  "\<exists>m. BRPeerManagerNew BRMainNetParams (empty_wallet 0 0) 0 [] [] = Some m \<and> BRPeerManagerConnect demo_env m = None"
proof -
  obtain m where m: "BRPeerManagerNew BRMainNetParams (empty_wallet 0 0) 0 [] [] = Some m"
    using New_returns [of BRMainNetParams _ "empty_wallet 0 0" 0 "[]"] by (auto simp: BRMainNetParams_def BRMainNetCheckpoints_def)
  then show ?thesis
    using fresh_manager_cannot_connect [of True "empty_wallet 0 0" 0 "[]" "[]" m demo_env] by (simp add: BRChainParamsGetBitcoin_def)
qed

section \<open>Fee rates\<close>

lemma fee_loop_lower:
  assumes "\<forall>q \<in> set qs. \<exists>c. m_heap m q = Some c \<and> ctx_feePerKb c \<le> highest"
  shows "fee_loop m highest second qs = Some second"
  using assms by (induction qs) (auto simp: not_less [symmetric])

text \<open>
  Claim C39.  The search for the second highest fee rate does not find it: when the peer with the
  highest rate was the last to connect, the result is 0 whatever the other peers announce, and
  the fee rate of the wallet is not raised.
\<close>

theorem fee_rate_missed:
  assumes "connectedPeers m = qs @ [p]" and "m_heap m p = Some c" and "status c = Connected" and "ctx_feePerKb c > 0"
    and "\<forall>q \<in> set qs. \<exists>d. m_heap m q = Some d \<and> ctx_feePerKb d \<le> ctx_feePerKb c"
  shows "peerSetFeePerKb m = Some m"
proof -
  have "fee_loop m 0 0 (rev (connectedPeers m)) = Some 0"
    using assms fee_loop_lower [of "rev qs" m "ctx_feePerKb c" 0] by simp
  then show ?thesis by (simp add: peerSetFeePerKb_def Let_def)
qed

text \<open>Two peers announce 40000 and 30000.\<close>

definition demo_fees :: BRPeerManager where
  "demo_fees = demo_manager\<lparr>connectedPeers := [1, 0],
     m_heap := [0 \<mapsto> (BRPeerNew 0)\<lparr>status := Connected, ctx_feePerKb := 40000\<rparr>,
                1 \<mapsto> (BRPeerNew 0)\<lparr>status := Connected, ctx_feePerKb := 30000\<rparr>]\<rparr>"

lemma fee_rate_missed_witness: "peerSetFeePerKb demo_fees = Some demo_fees"
  by (rule fee_rate_missed [of _ "[1]" 0 "(BRPeerNew 0)\<lparr>status := Connected, ctx_feePerKb := 40000\<rparr>"])
    (simp_all add: demo_fees_def)

section \<open>The last orphan\<close>

definition orphan_frame :: "BRPeerManager \<Rightarrow> BRPeerManager \<Rightarrow> bool" where
  "orphan_frame m m' \<longleftrightarrow> lastOrphan m' = lastOrphan m \<and> freedBlocks m \<subseteq> freedBlocks m'"

lemma orphan_frame_trans: "orphan_frame m m' \<Longrightarrow> orphan_frame m' m'' \<Longrightarrow> orphan_frame m m''"
  by (auto simp: orphan_frame_def)

lemma frame_free: "free_block b m = Some m' \<Longrightarrow> orphan_frame m m' \<and> fst b \<in> freedBlocks m'"
  by (auto simp: free_block_def orphan_frame_def split: if_splits)

lemma frame_prune:
  assumes "prune_loop h m = Some m'"
  shows "orphan_frame m m'"
proof (rule prune_loop.raw_induct [where P = "\<lambda>h m m'. orphan_frame m m'", OF _ assms], goal_cases)
  case (1 self h m m')
  have free: "orphan_frame m m1" if "free_block b (m\<lparr>blocks := s\<rparr>) = Some m1" for b s m1
    using frame_free [OF that] by (simp add: orphan_frame_def)
  show ?case using 1(2)
    by (auto split: bind_splits option.splits if_splits prod.splits dest!: 1(1) free intro: orphan_frame_trans)
      (simp_all add: orphan_frame_def)
qed

lemma frame_verify: "post (\<lambda>r. orphan_frame m (snd r)) (BRPeerManagerVerifyBlock block prev b m)"
proof -
  have refl: "orphan_frame m m" by (simp add: orphan_frame_def)
  have prune: "post (orphan_frame m) (prune_loop h m)" for h by (rule postI) (rule frame_prune)
  show ?thesis unfolding BRPeerManagerVerifyBlock_def
    apply (rule post_bind_any)
    apply (rule post_bind_pair [where Q = "orphan_frame m"])
     apply (rule post_if post_bind_rule [OF prune] post_bind_any post_option post_SomeI | simp add: refl)+
    apply (rule post_if post_bind_any post_option post_map_any post_SomeI | simp)+
    done
qed

lemma frame_with_peer: "orphan_frame m0 m \<Longrightarrow> post (orphan_frame m0) (with_peer p f m)"
  by (auto simp: with_peer_def post_def orphan_frame_def)

lemma frame_Misbehavin: "orphan_frame m0 m \<Longrightarrow> post (orphan_frame m0) (BRPeerManagerPeerMisbehavin p m)"
  unfolding BRPeerManagerPeerMisbehavin_def
  by (rule post_bind_any, rule post_let_rule [where Q = "orphan_frame m0"], simp add: orphan_frame_def,
      rule post_let_rule [where Q = "orphan_frame m0"], simp add: orphan_frame_def, erule frame_with_peer)

text \<open>A block that is dropped is freed, and the remembered orphan stays as it is, even if it is this block.\<close>

definition dropped :: "block_ptr \<Rightarrow> BRPeerManager \<Rightarrow> BRPeerManager \<Rightarrow> bool" where
  "dropped b m m' \<longleftrightarrow> orphan_frame m m' \<and> fst b \<in> freedBlocks m'"

lemma dropped_free: "orphan_frame m0 m \<Longrightarrow> post (dropped b m0) (free_block b m)"
  by (auto simp: dropped_def post_def dest!: frame_free intro: orphan_frame_trans)

lemma dropped_with_peer: "dropped b m0 m \<Longrightarrow> post (dropped b m0) (with_peer p f m)"
  by (auto simp: with_peer_def post_def orphan_frame_def dropped_def)

lemma dropped_Misbehavin: "dropped b m0 m \<Longrightarrow> post (dropped b m0) (BRPeerManagerPeerMisbehavin p m)"
  unfolding BRPeerManagerPeerMisbehavin_def
  by (rule post_bind_any, rule post_let_rule [where Q = "dropped b m0"], simp add: dropped_def orphan_frame_def,
      rule post_let_rule [where Q = "dropped b m0"], simp add: dropped_def orphan_frame_def, erule dropped_with_peer)

abbreviation drops :: "block_ptr \<Rightarrow> BRPeerManager \<Rightarrow> (block_ptr option \<times> nat \<times> BRPeerManager) option \<Rightarrow> bool" where
  "drops b m0 r \<equiv> post (\<lambda>r. fst r = None \<longrightarrow> dropped b m0 (snd (snd r))) r"

lemma drops_ignore: "orphan_frame m0 m \<Longrightarrow> drops b m0 (ignore_block b m)"
  unfolding ignore_block_def by (intro post_map) (auto elim: post_mono dest: dropped_free)

lemma drops_pending: "drops b m (filter_pending env p b m)"
proof -
  have "orphan_frame m m" by (simp add: orphan_frame_def)
  note free = dropped_free [OF this, of b]
  have timeout: "post (dropped b m) (reset_timeout env p m1)" if "dropped b m m1" for m1
    unfolding reset_timeout_def using that by (intro dropped_with_peer) (simp add: dropped_def orphan_frame_def)
  show ?thesis unfolding filter_pending_def
    apply (rule post_bind_rule [OF free], rule post_if)
     apply (rule post_bind_any, rule post_bind_rule [where Q = "dropped b m"])
      apply (simp add: timeout)
     apply simp_all
    done
qed

lemma drops_orphan: "drops b m (relayed_orphan env p b m)"
  unfolding relayed_orphan_def
  by (rule post_bind_any post_if drops_ignore post_SomeI | simp add: orphan_frame_def)+

lemma drops_placed:
  "drops b m0 (extend_main env p b hs t m)" "drops b m0 (replace_block env b hs t m)" "drops b m0 (join_fork env b m)"
  unfolding extend_main_def replace_block_def join_fork_def
  by (rule post_bind_any post_let_any post_if post_option post_SomeI post_prod | simp)+

lemma dropped_block: "drops b m (handle_block env p b prev hs t m)"
  unfolding handle_block_def
  apply (rule post_if drops_pending drops_orphan)+
  apply (rule post_bind_pair [OF frame_verify])
  apply (rule post_if)
   apply (rule post_bind_rule [OF dropped_free], assumption, rule post_bind_rule [OF dropped_Misbehavin], assumption, simp)
  apply (rule drops_placed drops_ignore post_bind_any post_if post_map_any post_None | simp)+
  done

text \<open>
  Claim C38.  The manager remembers the last orphan it was sent.  When that block is relayed later,
  because its predecessor has come, and is dropped, as part of an old fork for example, it is freed
  but still remembered; the next orphan from a peer that is not ahead makes the manager read it.
\<close>

theorem last_orphan_dangles:
  assumes "lastOrphan m = Some old" and "fst old = fst b" and "handle_block env p b prev hs t m = Some (None, n, m')"
    and "deref m' (lastBlock m') = Some tip" and "m_heap m' q = Some c" and "lastblock c \<le> height tip"
    and "unixTime (penv env') \<le> uint (timestamp (snd x) + 7 * 24 * 60 * 60)"
  shows "relayed_orphan env' q x m' = None"
proof -
  have "dropped b m m'" using postD [OF dropped_block assms(3)] by simp
  then have "lastOrphan m' = Some old" "deref m' old = None"
    using assms(1,2) by (simp_all add: dropped_def orphan_frame_def deref_def)
  then show ?thesis using assms(4-7) by (simp add: relayed_orphan_def)
qed

definition demo_dropped :: block_ptr where "demo_dropped = (7, (demo_block 2)\<lparr>blockHash := 20\<rparr>)"

definition demo_orphaned :: BRPeerManager where
  "demo_orphaned = demo_manager\<lparr>lastOrphan := Some demo_dropped, m_heap := [0 \<mapsto> BRPeerNew 0],
     m_params := demo_params\<lparr>checkpoints := [\<lparr>cp_height = 5, cp_hash = 0, cp_timestamp = 0, cp_target = 0\<rparr>]\<rparr>\<rparr>"

lemma demo_drops:
  "handle_block demo_env 0 demo_dropped (Some (demo_ptr 1)) [] 0 demo_orphaned =
     Some (None, 0, demo_orphaned\<lparr>freedBlocks := {7}\<rparr>)"
proof -
  obtain r where "BRSetGet (BRSetNew BRBlockHeightHash BRBlockHeightEq 0) demo_dropped = Some r" "\<forall>t. r \<noteq> Some t"
    using height_set.get_contract [of "BRSetNew BRBlockHeightHash BRBlockHeightEq 0" demo_dropped]
      new_set [of 0 BRBlockHeightHash BRBlockHeightEq] new_inv [of 0 BRBlockHeightHash BRBlockHeightEq] by auto
  then have "BRSetGet (BRSetNew BRBlockHeightHash BRBlockHeightEq 0) demo_dropped = Some None" by (cases r) simp_all
  then have v: "BRPeerManagerVerifyBlock (snd demo_dropped) (Some (demo_ptr 1)) demo_dropped demo_orphaned = Some (True, demo_orphaned)"
    by (simp add: BRPeerManagerVerifyBlock_def demo_orphaned_def demo_manager_def deref_def demo_params_def BRMainNetParams_def
        BRMainNetVerifyDifficulty_def BLOCK_DIFFICULTY_INTERVAL_def)
      (simp add: demo_dropped_def demo_ptr_def demo_block_def BRMerkleBlockNew_def UInt256Eq_def)
  have "BRSetGet (blocks demo_orphaned) demo_dropped = Some None"
    by (subst get_at_once)
      (simp_all add: other_def demo_orphaned_def demo_dropped_def demo_defs BRSetNew_def)
  then have c: "BRSetContains (blocks demo_orphaned) demo_dropped = Some False" by (simp add: BRSetContains_def)
  have f: "bloomFilter demo_orphaned = Some BR_BLOOM_FILTER_FULL" "deref demo_orphaned (lastBlock demo_orphaned) = Some (demo_block 3)"
    "m_heap demo_orphaned 0 = Some (BRPeerNew 0)" "cp_height (last (checkpoints (m_params demo_orphaned))) = 5"
    "checkpoints (m_params demo_orphaned) \<noteq> []"
    by (simp_all add: demo_orphaned_def demo_manager_def deref_def demo_ptr_def)
  have d: "blockHash (demo_block 3) = 4" "height (demo_block 3) = 3" "prevBlock (snd demo_dropped) = 2" "height (snd demo_dropped) = 2"
    "lastblock (BRPeerNew 0 :: peer_ctx) = 0"
    by (simp_all add: demo_dropped_def demo_block_def BRMerkleBlockNew_def BRPeerNew_def)
  have "ignore_block demo_dropped demo_orphaned = Some (None, 0, demo_orphaned\<lparr>freedBlocks := {7}\<rparr>)"
    by (simp add: ignore_block_def free_block_def demo_orphaned_def demo_manager_def demo_dropped_def)
  then show ?thesis using v by (simp add: handle_block_def c f d UInt256Eq_def)
qed

lemma last_orphan_dangles_witness:
  "relayed_orphan demo_env 0 (demo_ptr 9) (demo_orphaned\<lparr>freedBlocks := {7}\<rparr>) = None"
proof (rule last_orphan_dangles [OF _ refl demo_drops])
  show "lastOrphan demo_orphaned = Some demo_dropped" by (simp add: demo_orphaned_def)
  show "deref (demo_orphaned\<lparr>freedBlocks := {7}\<rparr>) (lastBlock (demo_orphaned\<lparr>freedBlocks := {7}\<rparr>)) = Some (demo_block 3)"
    by (simp add: demo_orphaned_def demo_manager_def deref_def demo_ptr_def)
  show "m_heap (demo_orphaned\<lparr>freedBlocks := {7}\<rparr>) 0 = Some (BRPeerNew 0)" by (simp add: demo_orphaned_def)
qed (simp_all add: BRPeerNew_def demo_env_def demo_ptr_def demo_block_def BRMerkleBlockNew_def)

end
