(* ===== verification/PeerPublish_Correct.thy ===== *)
theory PeerPublish_Correct
  imports PeerDemo WalletRegister_Correct
begin

text \<open>
  Transactions to publish: adding one adds its unconfirmed ancestors in the wallet, and the
  recursion ends.
\<close>

definition published :: "BRPeerManager \<Rightarrow> UInt256 set" where
  "published m = (\<lambda>p. txHash (p_tx p)) ` set (publishedTx m)"

definition publish :: "BRPublishedTx list \<Rightarrow> BRPeerManager \<Rightarrow> BRPeerManager" where
  "publish new m = m\<lparr>publishedTx := publishedTx m @ new, publishedTxHashes := publishedTxHashes m @ map (\<lambda>p. txHash (p_tx p)) new\<rparr>"

text \<open>The unconfirmed transactions of the wallet.\<close>

definition pending :: "BRWallet \<Rightarrow> UInt256 set \<Rightarrow> UInt256 set" where
  "pending w A = {h \<in> A. blockHeight (txs w h) = TX_UNCONFIRMED}"

text \<open>
  What is added: unconfirmed transactions that were not published before, none twice, and the
  unconfirmed parents of each are published.
\<close>

definition added_ok :: "UInt256 set \<Rightarrow> BRPeerManager \<Rightarrow> BRPublishedTx list \<Rightarrow> bool" where
  "added_ok A m new \<longleftrightarrow>
     distinct (map (\<lambda>p. txHash (p_tx p)) new) \<and> (\<forall>p \<in> set new. txHash (p_tx p) \<notin> published m \<and> blockHeight (p_tx p) = TX_UNCONFIRMED) \<and>
     (\<forall>p \<in> set new. \<forall>i \<in> set (inputs (p_tx p)). in_txHash i \<in> pending (m_wallet m) A \<longrightarrow> in_txHash i \<in> published (publish new m))"

lemma published_publish: "published (publish new m) = published m \<union> (\<lambda>p. txHash (p_tx p)) ` set new"
  by (auto simp: published_def publish_def)

lemma publish_wallet [simp]: "m_wallet (publish new m) = m_wallet m"
  by (simp add: publish_def)

lemma publish_append: "publish new' (publish new m) = publish (new @ new') m"
  by (simp add: publish_def)

lemma publish_Nil [simp]: "publish [] m = m"
  by (simp add: publish_def)

lemma added_append:
  assumes "added_ok A m new" and "added_ok A (publish new m) new'"
  shows "added_ok A m (new @ new')"
proof -
  note a = assms [unfolded added_ok_def published_publish publish_wallet]
  have "distinct (map (\<lambda>p. txHash (p_tx p)) (new @ new'))" using a by (simp add: disjoint_iff image_iff) blast
  moreover have "\<forall>p \<in> set (new @ new'). txHash (p_tx p) \<notin> published m \<and> blockHeight (p_tx p) = TX_UNCONFIRMED"
    using a by (simp add: ball_Un)
  moreover have "\<forall>p \<in> set (new @ new'). \<forall>i \<in> set (inputs (p_tx p)). in_txHash i \<in> pending (m_wallet m) A \<longrightarrow>
      in_txHash i \<in> published (publish (new @ new') m)"
    unfolding published_publish set_append image_Un ball_Un using a by blast
  ultimately show ?thesis unfolding added_ok_def by blast
qed

text \<open>The condition of the code.\<close>

lemma key_published: "(\<exists>p \<in> set (publishedTx m). txKeyEq (txHash (p_tx p)) h) \<longleftrightarrow> h \<in> published m"
  by (auto simp: published_def txKeyEq_def UInt256Eq_def)

lemma add_None: "BRPeerManagerAddTxToPublishList None k m = Some m"
  by (subst BRPeerManagerAddTxToPublishList.simps) (simp only: option.case)

lemma add_Some:
  "BRPeerManagerAddTxToPublishList (Some tx) k m =
    (if blockHeight tx = TX_UNCONFIRMED \<and> txHash tx \<notin> published m
     then for_each (inputs tx)
      (\<lambda>i m. Option.bind (BRWalletTransactionForHash (m_wallet m) (in_txHash i))
         (\<lambda>t. BRPeerManagerAddTxToPublishList (map_option (txs (m_wallet m)) t) None m))
      (publish [\<lparr>p_tx = tx, p_callback = k\<rparr>] m)
     else Some m)"
  by (subst BRPeerManagerAddTxToPublishList.simps) (simp only: option.case key_published publish_def list.map BRPublishedTx.simps)

lemma add_new:
  "blockHeight tx = TX_UNCONFIRMED \<Longrightarrow> txHash tx \<notin> published m \<Longrightarrow>
    BRPeerManagerAddTxToPublishList (Some tx) k m = for_each (inputs tx)
      (\<lambda>i m. Option.bind (BRWalletTransactionForHash (m_wallet m) (in_txHash i))
         (\<lambda>t. BRPeerManagerAddTxToPublishList (map_option (txs (m_wallet m)) t) None m))
      (publish [\<lparr>p_tx = tx, p_callback = k\<rparr>] m)"
  by (simp only: add_Some) simp

lemma add_old:
  "blockHeight tx \<noteq> TX_UNCONFIRMED \<or> txHash tx \<in> published m \<Longrightarrow> BRPeerManagerAddTxToPublishList (Some tx) k m = Some m"
  by (simp only: add_Some) auto

lemma publish_inputs:
  assumes rep: "tx_set.rep (allTx w) A" and hash: "\<forall>h \<in> A. txHash (txs w h) = h"
    and inputs: "\<forall>h \<in> A. \<forall>i \<in> set (inputs (txs w h)). in_txHash i \<noteq> 0"
    and m: "m_wallet m = w" and n: "card (A - published m) = n" and ins: "\<forall>i \<in> set ins. in_txHash i \<noteq> 0"
  shows "\<exists>new. for_each ins
      (\<lambda>(i::BRTxInput) m. Option.bind (BRWalletTransactionForHash (m_wallet m) (in_txHash i))
         (\<lambda>t. BRPeerManagerAddTxToPublishList (map_option (txs (m_wallet m)) t) None m)) m = Some (publish new m) \<and>
    added_ok A m new \<and> (\<forall>p \<in> set new. p_callback p = None) \<and>
    (\<forall>i \<in> set ins. in_txHash i \<in> pending w A \<longrightarrow> in_txHash i \<in> published (publish new m))"
  using m n ins
proof (induction n arbitrary: m ins rule: less_induct)
  case (less n)
  have fin: "finite A" using tx_set.rep_finite [OF rep] .
  let ?body = "\<lambda>(i::BRTxInput) m. Option.bind (BRWalletTransactionForHash (m_wallet m) (in_txHash i))
         (\<lambda>t. BRPeerManagerAddTxToPublishList (map_option (txs (m_wallet m)) t) None m)"
  have one: "\<exists>new. ?body i m' = Some (publish new m') \<and> added_ok A m' new \<and> (\<forall>p \<in> set new. p_callback p = None) \<and>
      (in_txHash i \<in> pending w A \<longrightarrow> in_txHash i \<in> published (publish new m'))"
    if m': "m_wallet m' = w" "card (A - published m') \<le> n" and i: "in_txHash i \<noteq> 0" for m' i
  proof -
    let ?h = "in_txHash i"
    have get: "BRWalletTransactionForHash w ?h = Some (if ?h \<in> A then Some ?h else None)"
      using tx_set.rep_get [OF rep] i by (simp add: BRWalletTransactionForHash_def UInt256IsZero_def)
    show ?thesis
    proof (cases "?h \<in> pending w A \<and> ?h \<notin> published m'")
      case False
      then have "?body i m' = Some (publish [] m')"
        using get m'(1) hash by (cases "?h \<in> A") (simp_all add: pending_def add_None add_old)
      moreover have "added_ok A m' []" by (simp add: added_ok_def)
      ultimately show ?thesis using False by (intro exI [of _ "[]"]) auto
    next
      case True
      then have h: "?h \<in> A" "blockHeight (txs w ?h) = TX_UNCONFIRMED" "txHash (txs w ?h) = ?h" using hash by (auto simp: pending_def)
      let ?p = "\<lparr>p_tx = txs w ?h, p_callback = None\<rparr>"
      have "A - published (publish [?p] m') \<subset> A - published m'" using True h by (auto simp: published_publish)
      then have less1: "card (A - published (publish [?p] m')) < n"
        using psubset_card_mono [of "A - published m'"] finite_Diff [OF fin] m'(2) by (meson order_less_le_trans)
      obtain new where new: "for_each (inputs (txs w ?h)) ?body (publish [?p] m') = Some (publish new (publish [?p] m'))"
        "added_ok A (publish [?p] m') new" "\<forall>p \<in> set new. p_callback p = None"
        "\<forall>i \<in> set (inputs (txs w ?h)). in_txHash i \<in> pending w A \<longrightarrow> in_txHash i \<in> published (publish new (publish [?p] m'))"
        using less.IH [OF less1, of "publish [?p] m'" "inputs (txs w ?h)"] m'(1) inputs h(1) by auto
      have "?body i m' = Some (publish ([?p] @ new) m')"
        using get h m'(1) True new(1) by (simp add: add_new publish_append)
      moreover have "added_ok A m' ([?p] @ new)"
        using new(2,4) True h m'(1) by (auto simp: added_ok_def publish_append published_publish)
      moreover have "?h \<in> published (publish ([?p] @ new) m')" using h by (simp add: published_publish)
      ultimately show ?thesis using new(3) by (intro exI [of _ "[?p] @ new"]) auto
    qed
  qed
  have "\<exists>new. for_each ins ?body m' = Some (publish new m') \<and> added_ok A m' new \<and> (\<forall>p \<in> set new. p_callback p = None) \<and>
      (\<forall>i \<in> set ins. in_txHash i \<in> pending w A \<longrightarrow> in_txHash i \<in> published (publish new m'))"
    if "m_wallet m' = w" "card (A - published m') \<le> n" "\<forall>i \<in> set ins. in_txHash i \<noteq> 0" for m' ins
    using that
  proof (induction ins arbitrary: m')
    case Nil
    have "added_ok A m' []" by (simp add: added_ok_def)
    then show ?case by (intro exI [of _ "[]"]) simp
  next
    case (Cons i ins)
    obtain new where new: "?body i m' = Some (publish new m')" "added_ok A m' new" "\<forall>p \<in> set new. p_callback p = None"
      "in_txHash i \<in> pending w A \<longrightarrow> in_txHash i \<in> published (publish new m')"
      using one [of m' i] Cons.prems by auto
    have "card (A - published (publish new m')) \<le> card (A - published m')"
      by (intro card_mono) (auto simp: fin published_publish)
    then obtain new' where new': "for_each ins ?body (publish new m') = Some (publish new' (publish new m'))"
      "added_ok A (publish new m') new'" "\<forall>p \<in> set new'. p_callback p = None"
      "\<forall>i \<in> set ins. in_txHash i \<in> pending w A \<longrightarrow> in_txHash i \<in> published (publish new' (publish new m'))"
      using Cons.IH [of "publish new m'"] Cons.prems by auto
    show ?case
      using new new' added_append [OF new(2) new'(2)]
      by (intro exI [of _ "new @ new'"]) (auto simp: publish_append published_publish)
  qed
  then show ?case using less.prems by auto
qed

text \<open>
  Claim C36.  Adding a transaction to the list of transactions to publish returns, also when the
  transactions of the wallet refer to each other in a circle.  A confirmed or already published one
  changes nothing.  Otherwise it is appended with its callback, followed by transactions of
  the wallet without one; all that is added is unconfirmed, new, and listed once, and every
  unconfirmed parent in the wallet of an added transaction is published.
\<close>

theorem publish_list_closed:
  assumes "tx_set.rep (allTx (m_wallet m)) A" and "\<forall>h \<in> A. txHash (txs (m_wallet m) h) = h"
    and "\<forall>h \<in> A. \<forall>i \<in> set (inputs (txs (m_wallet m) h)). in_txHash i \<noteq> 0" and "\<forall>i \<in> set (inputs tx). in_txHash i \<noteq> 0"
  shows "\<exists>new. BRPeerManagerAddTxToPublishList (Some tx) k m = Some (publish new m) \<and> added_ok A m new \<and>
    (if blockHeight tx \<noteq> TX_UNCONFIRMED \<or> txHash tx \<in> published m then new = []
     else hd new = \<lparr>p_tx = tx, p_callback = k\<rparr> \<and> (\<forall>p \<in> set (tl new). p_callback p = None) \<and> new \<noteq> [])"
proof (cases "blockHeight tx \<noteq> TX_UNCONFIRMED \<or> txHash tx \<in> published m")
  case True
  then show ?thesis by (intro exI [of _ "[]"]) (simp add: add_old added_ok_def)
next
  case False
  let ?p = "\<lparr>p_tx = tx, p_callback = k\<rparr>"
  obtain new where new: "BRPeerManagerAddTxToPublishList (Some tx) k m = Some (publish new (publish [?p] m))"
    "added_ok A (publish [?p] m) new" "\<forall>p \<in> set new. p_callback p = None"
    "\<forall>i \<in> set (inputs tx). in_txHash i \<in> pending (m_wallet m) A \<longrightarrow> in_txHash i \<in> published (publish new (publish [?p] m))"
    using publish_inputs [OF assms(1-3), of "publish [?p] m" _ "inputs tx"] assms(4) False by (auto simp: add_new)
  have "added_ok A m ([?p] @ new)"
    using new(2,4) False by (auto simp: added_ok_def publish_append published_publish)
  then show ?thesis using new(1,3) False by (intro exI [of _ "[?p] @ new"]) (simp add: publish_append)
qed

text \<open>The example wallet with its transaction 1 unconfirmed too, and spending an output of transaction 2.\<close>

definition circle_txs :: "UInt256 \<Rightarrow> BRTransaction" where
  "circle_txs h = (let tx = example_txs 0 h in
     if h = 1 then tx\<lparr>blockHeight := TX_UNCONFIRMED, inputs := map (\<lambda>i. i\<lparr>in_txHash := 2\<rparr>) (inputs (example_txs 0 2))\<rparr> else tx)"

definition circle_manager :: BRPeerManager where
  "circle_manager = demo_manager\<lparr>m_wallet := (example_wallet 0)\<lparr>txs := circle_txs\<rparr>\<rparr>"

theorem publish_list_closed_witness:
  "\<exists>new. BRPeerManagerAddTxToPublishList (Some (circle_txs 2)) (Some 7) circle_manager = Some (publish new circle_manager) \<and>
    added_ok {1, 2} circle_manager new \<and> hd new = \<lparr>p_tx = circle_txs 2, p_callback = Some 7\<rparr> \<and>
    list_all (\<lambda>p. p_callback p = None) (tl new) \<and> new \<noteq> []"
proof -
  have rep: "tx_set.rep (allTx (m_wallet circle_manager)) {1, 2}"
    using example_tables(1) [of "[1, 2]"] by (simp add: circle_manager_def example_wallet_def)
  have hash: "\<forall>h \<in> {1, 2}. txHash (txs (m_wallet circle_manager) h) = h"
    by (simp add: circle_manager_def circle_txs_def example_txs_def)
  have nonzero: "\<forall>h \<in> {1, 2}. \<forall>i \<in> set (inputs (txs (m_wallet circle_manager) h)). in_txHash i \<noteq> 0"
    by (simp add: circle_manager_def circle_txs_def example_txs_def)
  have inputs: "\<forall>i \<in> set (inputs (circle_txs 2)). in_txHash i \<noteq> 0"
    by (simp add: circle_txs_def example_txs_def)
  have "\<not> (blockHeight (circle_txs 2) \<noteq> TX_UNCONFIRMED \<or> txHash (circle_txs 2) \<in> published circle_manager)"
    by (simp add: circle_txs_def example_txs_def published_def circle_manager_def demo_manager_def)
  then show ?thesis
    using publish_list_closed [OF rep hash nonzero inputs, of "Some 7"] by (simp only: if_False list_all_iff)
qed

end
