(* ===== verification/Spec2Isabelle.thy ===== *)
theory Spec2Isabelle
  imports
    Prelude Ints HashSet HashSet_Correct UtilMath UtilHex UtilMathParse Rlp Rlp_Correct RlpPool RlpPool_Correct
    Crypto Crypto_Correct Ciphers Ciphers_Correct Streams_Correct Aead_Correct Poly1305_Correct Kdf_Correct
    Base58 Base58_Correct Bech32 Bech32_Correct Address Address_Correct MerkleBlock MerkleBlock_Correct MerkleHeader_Correct
    Transaction TransactionParse Transaction_Correct TransactionParse_Correct TransactionData_Correct
    Wallet WalletOps WalletTx KeySets Wallet_Correct WalletBalance_Correct WalletOrder_Correct WalletAddrs_Correct WalletRegister_Correct WalletCreate_Correct
    WalletHeights_Correct
    Double BloomFilter BloomFilter_Correct Mnemonic Mnemonic_Correct
    Peer PeerMsg PeerThread Post Peer_Correct PeerThread_Correct PeerInvariant_Correct PeerBlocks_Correct
    PeerManager PeerManagerSync PeerManagerPeers PeerManagerRelay PeerManagerBlocks PeerManagerApi
    PeerLists_Correct PeerDemo PeerChain_Correct PeerFork_Correct
    PeerManager_Correct PeerErrors_Correct PeerPublish_Correct
begin

text \<open>
  A verification of the core library of a mobile wallet for Bitcoin-like and Ethereum-like
  currencies: \<^verbatim>\<open>src/core\<close>, written in C and built for Android from
  \<^verbatim>\<open>src/core/Java/Core/src/main/cpp/core\<close>, to which all file names below are
  relative.

  \<^bigskip>
  \<^bold>\<open>The program.\<close>  \<^verbatim>\<open>support\<close> holds what everything else stands on: integer unions, hash
  tables, hashes and ciphers, text encodings, addresses and scripts.  \<^verbatim>\<open>bitcoin\<close> holds
  transactions, blocks with partial Merkle trees, Bloom filters, the wallet, which follows the
  transactions that concern its addresses and makes new ones, the connection to one peer,
  and the peer manager, which owns a wallet, a handful of connections and the chain of
  blocks: it keeps peers connected, loads a filter for the wallet's addresses into them, follows the
  longest chain, and hands transactions from peers to the wallet and back.
  \<^verbatim>\<open>ethereum\<close> holds 256-bit arithmetic and the RLP coder.  A connection runs in a thread of its
  own and calls the manager back; the manager changes its state under a lock.

  \<^bigskip>
  \<^bold>\<open>Conventions.\<close>  Machine integers are words of their width, \<open>size_t\<close> is a 64-bit word
  where a wrap-around matters and a natural number where it counts what fits into memory.
  \<open>None\<close> of an option-valued operation stands for undefined behaviour, a failed
  assertion or a call that does not return, so that \<open>= Some\<close> in a theorem says that the
  call returns and is defined; an error reported to the caller is an ordinary value.  C
  structures are records, memory that is shared or freed is explicit (\<open>Prelude\<close>, \<open>RlpPool\<close>,
  the pairs of an array and its index in \<open>Wallet\<close>), and a serialiser that is called twice,
  first for the size, is an instance of the locale \<open>two_phase\<close>.

  \<^bigskip>
  \<^bold>\<open>Theories.\<close>

  \<^item> \<open>Prelude\<close>: loops, words as bytes, memory, the two-phase contract; \<open>Ints\<close>:
    \<^verbatim>\<open>support/BRInt.h\<close>.
  \<^item> \<open>HashSet\<close>, \<open>HashSet_Correct\<close>: \<^verbatim>\<open>support/BRSet.c\<close>.  The linear-probing invariant, and
    that adding, growing, removing, looking up and the set operations are those of sets up
    to the items' equality.  \<open>KeySets\<close> restates them for items compared by value and
    interprets that contract for the wallet's three tables.
  \<^item> \<open>UtilMath\<close>, \<open>UtilHex\<close>, \<open>UtilMathParse\<close>: \<^verbatim>\<open>ethereum/util\<close>, 256-bit arithmetic as numbers
    and the conversions from and to text.
  \<^item> \<open>Rlp\<close>, \<open>Rlp_Correct\<close>: \<^verbatim>\<open>ethereum/rlp/BRRlpCoder.c\<close> on values, against the definition of
    RLP; \<open>RlpPool\<close>, \<open>RlpPool_Correct\<close>: the coder's pool of linked items, its invariant, and
    that the pool refines the coder on values.
  \<^item> \<open>Crypto\<close>, \<open>Crypto_Correct\<close>, \<open>Ciphers\<close>, \<open>Ciphers_Correct\<close>, \<open>Streams_Correct\<close>,
    \<open>Aead_Correct\<close>, \<open>Poly1305_Correct\<close>, \<open>Kdf_Correct\<close>: \<^verbatim>\<open>support/BRCrypto.c\<close>.  The block-wise hashes equal
    hashing the padded message, the ciphers invert, the limbs of the authenticator compute the numbers of
    RFC 8439, so that decryption accepts exactly the tag defined there, and scrypt stays inside its table.
  \<^item> \<open>Base58\<close>, \<open>Bech32\<close>, \<open>Address\<close> and their \<open>_Correct\<close> theories: text encodings and output
    scripts; round trips, and detection of a changed character.
  \<^item> \<open>MerkleBlock\<close>, \<open>MerkleBlock_Correct\<close>, \<open>MerkleHeader_Correct\<close>: \<^verbatim>\<open>bitcoin/BRMerkleBlock.c\<close>; what a block with a partial
    tree proves and what it does not, its wire format, and the proof of work as a comparison
    of numbers.
  \<^item> \<open>Transaction\<close>, \<open>TransactionParse\<close> and the \<open>Transaction*_Correct\<close> theories:
    \<^verbatim>\<open>bitcoin/BRTransaction.c\<close>; the wire format with witnesses, sizes, the data that is
    signed, and what counts that wrap around do.
  \<^item> \<open>Wallet\<close> (state and the balance), \<open>WalletOps\<close> (queries and addresses), \<open>WalletTx\<close>
    (operations on transactions) and the \<open>Wallet*_Correct\<close> theories: \<^verbatim>\<open>bitcoin/BRWallet.c\<close>.
    The balance refines a ledger on finite sets; the invariant of the wallet and the
    operations that keep it; the order of the transactions; the addresses that are handed
    out; what a created transaction pays.
  \<^item> \<open>Double\<close>, \<open>BloomFilter\<close>, \<open>BloomFilter_Correct\<close>: \<^verbatim>\<open>bitcoin/BRBloomFilter.c\<close>; what was
    inserted is found.  The type \<open>double\<close> is taken as the real numbers.
  \<^item> \<open>Mnemonic\<close>, \<open>Mnemonic_Correct\<close>: \<^verbatim>\<open>support/BRBIP39Mnemonic.c\<close>; the valid phrases are those
    that the encoder writes.
  \<^item> \<open>Peer\<close> (state and sending), \<open>PeerMsg\<close> (a handler per message), \<open>PeerThread\<close> (the reading
    loop): \<^verbatim>\<open>bitcoin/BRPeer.c\<close>.  The callbacks of the owner are a record of functions on the
    owner's state.  \<open>PeerThread_Correct\<close>: what one side sends, the other side handles, however
    the stream is cut up.  \<open>PeerInvariant_Correct\<close>: the invariant of a connection, kept by every
    message.  \<open>PeerBlocks_Correct\<close>, \<open>Peer_Correct\<close>: blocks are passed on behind their
    transactions, announcements are made once, and a message that is read beyond its end.
  \<^item> \<open>PeerManager\<close> (state, peers by transaction, transactions to publish, block locators),
    \<open>PeerManagerSync\<close> (filters and mempools), \<open>PeerManagerPeers\<close> (finding and connecting
    peers), \<open>PeerManagerRelay\<close> (callbacks for addresses and transactions), \<open>PeerManagerBlocks\<close>
    (the callback for blocks), \<open>PeerManagerApi\<close> (the interface, and the manager as the owner of
    its connections): \<^verbatim>\<open>bitcoin/BRPeerManager.c\<close>, \<^verbatim>\<open>bitcoin/BRChainParams.c\<close>.  Contexts of peers live
    in \<open>m_heap\<close>, blocks are pairs of a pointer and a value, and freed pointers are remembered, so that
    reading freed memory is \<open>None\<close>; what is told to the owner is the list \<open>m_events\<close>; a function
    passed on to be run after a ping is a value of type \<open>pong\<close>.
  \<^item> \<open>PeerLists_Correct\<close>: the lists of peers refine maps to sets.  \<open>PeerChain_Correct\<close>: block
    locators.  \<open>PeerFork_Correct\<close>: switching to a longer fork.  \<open>PeerManager_Correct\<close>: the
    invariant of the manager over all steps, and its three tables of blocks as interpretations of
    the contract of the hash set.  \<open>PeerPublish_Correct\<close>: what is published with a transaction.
    \<open>PeerErrors_Correct\<close>: where the manager reads beyond an array, reads freed memory, or misses
    its aim.  \<open>PeerDemo\<close> is the manager that witnesses use; \<open>Post\<close> is a rule for operations that return.

  \<^bigskip>
  \<^bold>\<open>Bounds and termination.\<close>  Growing a hash table recurses once per size of its table of
  sizes, so the fuel of \<open>BRSetAdd\<close> is one more than their number, and the theorems bound the
  number of members by the largest size.  Loops that may not end, and the recursive calls of
  the wallet and of the peer manager, are partial functions into \<open>option\<close>; that they return, or do not, is proved
  (\<open>TxIsAscending_decides\<close>, \<open>CreateTx_never_returns\<close>, \<open>block_locators_linked\<close>, \<open>fork_reorganises\<close>,
  \<open>publish_list_closed\<close>).
  Sizes of buffers are bounded by \<open>2 ^ 54\<close> or \<open>2 ^ 63\<close> where a theorem needs that a 64-bit sum
  does not wrap around.

  \<^bigskip>
  \<^bold>\<open>Parameters.\<close>  Key derivation, random numbers, the clock, whether \<open>realloc\<close> moves an
  array, whether \<open>send\<close> and \<open>pthread_create\<close> succeed, what \<open>read\<close> returns, and what name servers answer
  are arguments of the definitions that use them (\<open>wallet_env\<close>, \<open>peer_env\<close>, \<open>manager_env\<close>).

  \<^bigskip>
  \<^bold>\<open>Not modelled.\<close>  The elliptic curve library (third-party) and the signing that calls it;
  the payment protocol, encrypted keys and encryption to a key; file storage; the wallet manager that
  ties the wallet and the peer manager to it; the Ethereum blocks, tries, contracts and light client,
  its event queues and wallet manager; JNI bindings and the Android
  application; \<open>mulUInt256_Double\<close> and the wallet's conversions of amounts with prices,
  which compute with floating-point numbers.  Locks are not modelled: an operation that holds
  one is a single step, and what other threads do between two locked sections of one operation
  is left out.
\<close>

end
